(* ===== verification/Niri_Prelude.thy ===== *)
theory Niri_Prelude
  imports Main "HOL-Library.AList" "HOL-Library.Word"
begin

text \<open>
  Shared vocabulary of the development: the machine types of the Rust sources, panics as
  values of a sum type, the \<open>Vec\<close> operations with the out-of-range behaviour of Rust, and
  \<open>HashMap\<close> as an association list in iteration order.

  Conventions.
  \<^item> A Rust panic (\<open>expect\<close>, \<open>unwrap\<close>, a failed \<open>assert!\<close>, an index out of bounds) is
    \<open>Inl p\<close> with \<open>p\<close> of type \<open>panic\<close>; a normal return is \<open>Inr\<close>.
  \<^item> \<open>u64\<close>, \<open>u32\<close>, \<open>u16\<close> and \<open>u8\<close> are words of that width; \<open>usize\<close> indices and lengths
    are \<open>nat\<close>; \<open>i32\<close> is \<open>int\<close>, with the range check written at the places that parse it;
    \<open>f64\<close> is \<open>real\<close> (finite values only: no NaN, no rounding).
\<close>

type_synonym u64 = "64 word"
type_synonym u32 = "32 word"
type_synonym u16 = "16 word"
type_synonym u8 = "8 word"
type_synonym usize = nat
type_synonym i32 = int

named_theorems hm_simps "lookups after the HashMap operations"
named_theorems vec_simps "the Vec operations"

subsection \<open>Panics\<close>

datatype panic =
    ExpectFailed string
  | UnwrapNone
  | IndexOutOfBounds
  | ArithmeticOverflow
  | AssertFailed string

type_synonym 'a res = "panic + 'a"

fun bind_res :: "'e + 'a \<Rightarrow> ('a \<Rightarrow> 'e + 'b) \<Rightarrow> 'e + 'b" where
  "bind_res (Inl e) f = Inl e"
| "bind_res (Inr x) f = f x"

lemma bind_res_eq_Inr [simp]:
  "bind_res r f = Inr y \<longleftrightarrow> (\<exists>x. r = Inr x \<and> f x = Inr y)"
  by (cases r) auto

lemma bind_res_assoc: "bind_res (bind_res r f) g = bind_res r (\<lambda>x. bind_res (f x) g)"
  by (cases r) auto

fun expect :: "string \<Rightarrow> 'a option \<Rightarrow> 'a res" where
  "expect msg None = Inl (ExpectFailed msg)"
| "expect msg (Some x) = Inr x"

fun unwrap :: "'a option \<Rightarrow> 'a res" where
  "unwrap None = Inl UnwrapNone"
| "unwrap (Some x) = Inr x"

definition assert_that :: "string \<Rightarrow> bool \<Rightarrow> unit res" where
  "assert_that msg b = (if b then Inr () else Inl (AssertFailed msg))"

lemma expect_eq_Inr [simp]: "expect msg m = Inr x \<longleftrightarrow> m = Some x"
  by (cases m) auto

lemma unwrap_eq_Inr [simp]: "unwrap m = Inr x \<longleftrightarrow> m = Some x"
  by (cases m) auto

lemma assert_that_eq_Inr [simp]: "assert_that msg b = Inr u \<longleftrightarrow> b"
  by (simp add: assert_that_def)

lemma assert_that_True [simp]: "assert_that msg True = Inr ()"
  by (simp add: assert_that_def)

subsection \<open>HashMap\<close>

text \<open>
  The iteration order of a \<open>HashMap\<close> is unspecified, so the model carries the order in which
  iteration happens to visit the entries: an association list with distinct keys. Statements
  about a map are made about its lookup function \<open>hm_get\<close>, which does not depend on the order.
\<close>

type_synonym ('k, 'v) hash_map = "('k \<times> 'v) list"

definition hm_inv :: "('k, 'v) hash_map \<Rightarrow> bool" where
  "hm_inv m \<longleftrightarrow> distinct (map fst m)"

abbreviation hm_get :: "('k, 'v) hash_map \<Rightarrow> 'k \<Rightarrow> 'v option" where
  "hm_get m k \<equiv> map_of m k"

definition hm_values :: "('k, 'v) hash_map \<Rightarrow> 'v list" where
  "hm_values m = map snd m"

definition hm_keys :: "('k, 'v) hash_map \<Rightarrow> 'k list" where
  "hm_keys m = map fst m"

definition hm_insert :: "'k \<Rightarrow> 'v \<Rightarrow> ('k, 'v) hash_map \<Rightarrow> ('k, 'v) hash_map" where
  "hm_insert k v m = AList.update k v m"

definition hm_remove :: "'k \<Rightarrow> ('k, 'v) hash_map \<Rightarrow> ('k, 'v) hash_map" where
  "hm_remove k m = AList.delete k m"

text \<open>\<open>for v in m.values_mut() { *v = f(*v) }\<close>\<close>

definition hm_map_values :: "('v \<Rightarrow> 'v) \<Rightarrow> ('k, 'v) hash_map \<Rightarrow> ('k, 'v) hash_map" where
  "hm_map_values f m = AList.map_ran (\<lambda>_. f) m"

text \<open>\<open>for v in m.values_mut() { if p(v) { *v = f(*v); break } }\<close>\<close>

fun hm_update_first :: "('v \<Rightarrow> bool) \<Rightarrow> ('v \<Rightarrow> 'v) \<Rightarrow> ('k, 'v) hash_map \<Rightarrow> ('k, 'v) hash_map"
where
  "hm_update_first p f [] = []"
| "hm_update_first p f ((k, v) # m) =
     (if p v then (k, f v) # m else (k, v) # hm_update_first p f m)"

text \<open>\<open>xs.into_iter().map(|x| (key(x), x)).collect()\<close>: a later entry replaces an earlier one
  with the same key.\<close>

definition hm_collect :: "('v \<Rightarrow> 'k) \<Rightarrow> 'v list \<Rightarrow> ('k, 'v) hash_map" where
  "hm_collect key xs = fold (\<lambda>x. hm_insert (key x) x) xs []"

lemma hm_get_insert [hm_simps]: "hm_get (hm_insert k v m) k' = (if k' = k then Some v else hm_get m k')"
  by (simp add: hm_insert_def update_conv')

lemma hm_get_remove [hm_simps]: "hm_get (hm_remove k m) k' = (if k' = k then None else hm_get m k')"
  by (simp add: hm_remove_def delete_conv')

lemma hm_get_map_values [hm_simps]: "hm_get (hm_map_values f m) k = map_option f (hm_get m k)"
  by (simp add: hm_map_values_def map_ran_conv)

lemma hm_inv_Nil [simp]: "hm_inv []"
  by (simp add: hm_inv_def)

lemma hm_inv_insert [simp]: "hm_inv m \<Longrightarrow> hm_inv (hm_insert k v m)"
  by (simp add: hm_inv_def hm_insert_def distinct_update)

lemma hm_inv_remove [simp]: "hm_inv m \<Longrightarrow> hm_inv (hm_remove k m)"
  by (simp add: hm_inv_def hm_remove_def distinct_delete)

lemma hm_inv_map_values [simp]: "hm_inv (hm_map_values f m) = hm_inv m"
  by (simp add: hm_inv_def hm_map_values_def)

lemma hm_keys_update_first [simp]: "map fst (hm_update_first p f m) = map fst m"
  by (induction m) auto

lemma hm_inv_update_first [simp]: "hm_inv (hm_update_first p f m) = hm_inv m"
  by (simp add: hm_inv_def)

lemma hm_inv_collect_aux:
  "hm_inv m \<Longrightarrow> hm_inv (fold (\<lambda>x. hm_insert (key x) x) xs m)"
  by (induction xs arbitrary: m) auto

lemma hm_inv_collect [simp]: "hm_inv (hm_collect key xs)"
  by (simp add: hm_collect_def hm_inv_collect_aux)

lemma hm_get_in_values: "hm_get m k = Some v \<Longrightarrow> v \<in> set (hm_values m)"
  by (force simp: hm_values_def dest: map_of_SomeD)

lemma hm_in_values_get: "hm_inv m \<Longrightarrow> v \<in> set (hm_values m) \<Longrightarrow> \<exists>k. hm_get m k = Some v"
  by (fastforce simp: hm_inv_def hm_values_def)

lemma hm_in_keys_iff: "k \<in> set (hm_keys m) \<longleftrightarrow> hm_get m k \<noteq> None"
  by (induction m) (auto simp: hm_keys_def)

lemma set_hm_keys: "set (hm_keys m) = dom (map_of m)"
  by (simp add: hm_keys_def dom_map_of_conv_image_fst)

lemma distinct_hm_keys: "hm_inv m \<Longrightarrow> distinct (hm_keys m)"
  by (simp add: hm_inv_def hm_keys_def)

lemma option_eqI: "(\<And>x. m = Some x \<longleftrightarrow> n = Some x) \<Longrightarrow> m = n"
  by (metis not_None_eq)

text \<open>Entries filed under their own key: the shape every map of this program has.\<close>

definition hm_keyed :: "('v \<Rightarrow> 'k) \<Rightarrow> ('k, 'v) hash_map \<Rightarrow> bool" where
  "hm_keyed key m \<longleftrightarrow> (\<forall>(k, v) \<in> set m. key v = k)"

lemma hm_keyedD: "hm_keyed key m \<Longrightarrow> hm_get m k = Some v \<Longrightarrow> key v = k"
  by (auto simp: hm_keyed_def dest: map_of_SomeD)

lemma hm_keyed_Nil [simp]: "hm_keyed key []"
  by (simp add: hm_keyed_def)

lemma hm_keyed_insert [simp]: "hm_keyed key m \<Longrightarrow> key v = k \<Longrightarrow> hm_keyed key (hm_insert k v m)"
  unfolding hm_keyed_def hm_insert_def by (induction m) (auto split: if_splits)

lemma hm_keyed_insert_same [simp]:
  "hm_keyed key m \<Longrightarrow> hm_get m k = Some v \<Longrightarrow> key v' = key v \<Longrightarrow> hm_keyed key (hm_insert k v' m)"
  using hm_keyedD [of key m k v] hm_keyed_insert [of key m v' k] by simp

lemma hm_keyed_remove [simp]: "hm_keyed key m \<Longrightarrow> hm_keyed key (hm_remove k m)"
  by (auto simp: hm_keyed_def hm_remove_def AList.delete_eq)

lemma hm_keyed_map_values [simp]:
  "(\<And>v. key (f v) = key v) \<Longrightarrow> hm_keyed key (hm_map_values f m) = hm_keyed key m"
  by (induction m) (auto simp: hm_keyed_def hm_map_values_def)

lemma hm_keyed_update_first [simp]:
  "(\<And>v. key (f v) = key v) \<Longrightarrow> hm_keyed key (hm_update_first p f m) = hm_keyed key m"
  by (induction m) (auto simp: hm_keyed_def split: if_splits)

lemma hm_keyed_collect_aux:
  "hm_keyed key m \<Longrightarrow> hm_keyed key (fold (\<lambda>x. hm_insert (key x) x) xs m)"
  by (induction xs arbitrary: m) auto

lemma hm_keyed_collect [simp]: "hm_keyed key (hm_collect key xs)"
  by (simp add: hm_collect_def hm_keyed_collect_aux)

lemma hm_get_update_first [hm_simps]:
  "hm_keyed key m \<Longrightarrow> hm_inv m \<Longrightarrow>
   hm_get (hm_update_first (\<lambda>v. key v = i) f m) k =
     (if k = i then map_option f (hm_get m k) else hm_get m k)"
proof (induction m)
  case Nil
  then show ?case by simp
next
  case (Cons a m)
  obtain k' v where a: "a = (k', v)" by force
  with Cons.prems have key: "key v = k'" and rest: "hm_keyed key m" "hm_inv m"
    by (auto simp: hm_keyed_def hm_inv_def)
  have "k' = i \<Longrightarrow> hm_get m i = None"
    using Cons.prems(2) by (auto simp: a hm_inv_def map_of_eq_None_iff)
  with Cons.IH [OF rest] key show ?case by (auto simp: a)
qed

lemma hm_get_collect_aux:
  "hm_get (fold (\<lambda>x. hm_insert (key x) x) xs m) k =
     (case find (\<lambda>x. key x = k) (rev xs) of Some x \<Rightarrow> Some x | None \<Rightarrow> hm_get m k)"
proof (induction xs arbitrary: m)
  case Nil
  then show ?case by simp
next
  case (Cons x xs)
  have find_snoc: "find P (ys @ [y]) = (case find P ys of Some z \<Rightarrow> Some z
      | None \<Rightarrow> if P y then Some y else None)" for P and ys :: "'a list" and y
    by (induction ys) auto
  show ?case
    by (simp add: Cons find_snoc hm_simps split: option.splits)
qed

lemma hm_get_collect:
  "hm_get (hm_collect key xs) k = find (\<lambda>x. key x = k) (rev xs)"
  by (simp add: hm_collect_def hm_get_collect_aux split: option.splits)

lemma find_distinct_key:
  "distinct (map key xs) \<Longrightarrow> x \<in> set xs \<Longrightarrow> find (\<lambda>y. key y = key x) xs = Some x"
  by (induction xs) (auto simp: image_iff)

lemma hm_get_collect_distinct:
  assumes "distinct (map key xs)"
  shows "hm_get (hm_collect key xs) k = Some x \<longleftrightarrow> x \<in> set xs \<and> key x = k"
proof -
  have d: "distinct (map key (rev xs))" using assms by (simp add: rev_map [symmetric])
  have "find (\<lambda>y. key y = k) (rev xs) = Some x \<Longrightarrow> x \<in> set xs \<and> key x = k"
    by (auto simp: find_Some_iff) (metis nth_mem length_rev set_rev)
  with find_distinct_key [OF d, of x] show ?thesis
    by (auto simp: hm_get_collect)
qed

text \<open>Collecting the values of a map, filed under their own keys, gives the map back.\<close>

lemma hm_collect_values:
  assumes "hm_inv m" "hm_keyed key m"
  shows "hm_get (hm_collect key (hm_values m)) k = hm_get m k"
proof -
  have keys: "map key (hm_values m) = map fst m"
    using assms(2) by (auto simp: hm_values_def hm_keyed_def)
  have mem: "x \<in> set (hm_values m) \<and> key x = k \<longleftrightarrow> hm_get m k = Some x" for x
    using assms hm_in_values_get [OF assms(1), of x] hm_keyedD [OF assms(2)]
    by (auto dest: hm_get_in_values)
  have "hm_get (hm_collect key (hm_values m)) k = Some x \<longleftrightarrow> hm_get m k = Some x" for x
    using hm_get_collect_distinct [of key "hm_values m" k x] assms(1) keys mem [of x]
    by (simp add: hm_inv_def)
  then show ?thesis by (rule option_eqI)
qed

subsection \<open>Vec\<close>

definition vec_insert :: "nat \<Rightarrow> 'a \<Rightarrow> 'a list \<Rightarrow> 'a list res" where
  "vec_insert i x xs =
     (if i \<le> length xs then Inr (take i xs @ x # drop i xs) else Inl IndexOutOfBounds)"

definition vec_remove :: "nat \<Rightarrow> 'a list \<Rightarrow> ('a \<times> 'a list) res" where
  "vec_remove i xs =
     (if i < length xs then Inr (xs ! i, take i xs @ drop (Suc i) xs) else Inl IndexOutOfBounds)"

definition vec_index :: "'a list \<Rightarrow> nat \<Rightarrow> 'a res" where
  "vec_index xs i = (if i < length xs then Inr (xs ! i) else Inl IndexOutOfBounds)"

definition vec_swap :: "nat \<Rightarrow> nat \<Rightarrow> 'a list \<Rightarrow> 'a list res" where
  "vec_swap i j xs =
     (if i < length xs \<and> j < length xs then Inr (xs[i := xs ! j, j := xs ! i])
      else Inl IndexOutOfBounds)"

text \<open>\<open>swap_remove\<close> moves the last element into the vacated place.\<close>

definition vec_swap_remove :: "nat \<Rightarrow> 'a list \<Rightarrow> ('a \<times> 'a list) res" where
  "vec_swap_remove i xs =
     (if i < length xs then Inr (xs ! i, butlast (xs[i := last xs])) else Inl IndexOutOfBounds)"

text \<open>\<open>xs[i] = f(xs[i])\<close>, and \<open>xs.len() - 1\<close>, which underflows on an empty vector.\<close>

definition vec_modify :: "nat \<Rightarrow> ('a \<Rightarrow> 'a) \<Rightarrow> 'a list \<Rightarrow> 'a list res" where
  "vec_modify i f xs = (if i < length xs then Inr (xs[i := f (xs ! i)]) else Inl IndexOutOfBounds)"

definition last_idx :: "'a list \<Rightarrow> nat res" where
  "last_idx xs = (if xs = [] then Inl ArithmeticOverflow else Inr (length xs - 1))"

lemma vec_eq_Inr [simp]:
  "vec_insert i x xs = Inr ys \<longleftrightarrow> i \<le> length xs \<and> ys = take i xs @ x # drop i xs"
  "vec_remove i xs = Inr r \<longleftrightarrow> i < length xs \<and> r = (xs ! i, take i xs @ drop (Suc i) xs)"
  "vec_index xs i = Inr x \<longleftrightarrow> i < length xs \<and> x = xs ! i"
  "vec_swap i j xs = Inr ys \<longleftrightarrow> i < length xs \<and> j < length xs \<and> ys = xs[i := xs ! j, j := xs ! i]"
  "vec_modify i f xs = Inr ys \<longleftrightarrow> i < length xs \<and> ys = xs[i := f (xs ! i)]"
  "last_idx xs = Inr n \<longleftrightarrow> xs \<noteq> [] \<and> n = length xs - 1"
  by (auto simp: vec_insert_def vec_remove_def vec_index_def vec_swap_def vec_modify_def last_idx_def)

lemma vec_Inr [vec_simps]:
  "i \<le> length xs \<Longrightarrow> vec_insert i x xs = Inr (take i xs @ x # drop i xs)"
  "i < length xs \<Longrightarrow> vec_remove i xs = Inr (xs ! i, take i xs @ drop (Suc i) xs)"
  "i < length xs \<Longrightarrow> vec_index xs i = Inr (xs ! i)"
  "i < length xs \<Longrightarrow> j < length xs \<Longrightarrow> vec_swap i j xs = Inr (xs[i := xs ! j, j := xs ! i])"
  "i < length xs \<Longrightarrow> vec_modify i f xs = Inr (xs[i := f (xs ! i)])"
  "xs \<noteq> [] \<Longrightarrow> last_idx xs = Inr (length xs - 1)"
  by simp_all

text \<open>\<open>iter().position(p)\<close>\<close>

fun position :: "('a \<Rightarrow> bool) \<Rightarrow> 'a list \<Rightarrow> nat option" where
  "position p [] = None"
| "position p (x # xs) = (if p x then Some 0 else map_option Suc (position p xs))"

lemma position_Some: "position p xs = Some i \<Longrightarrow> i < length xs \<and> p (xs ! i) \<and> (\<forall>j<i. \<not> p (xs ! j))"
proof (induction xs arbitrary: i)
  case (Cons x xs)
  then show ?case
    by (cases i) (auto split: if_splits simp: less_Suc_eq_0_disj)
qed simp

lemma position_None: "position p xs = None \<longleftrightarrow> (\<forall>x \<in> set xs. \<not> p x)"
  by (induction xs) auto

subsection \<open>Folding setters\<close>

text \<open>
  A field that every step of a fold leaves alone or sets to \<open>v\<close> ends as \<open>v\<close>, if it starts so or
  some step sets it.
\<close>

lemma fold_settles:
  assumes "P s"
    and step: "\<And>e s. e \<in> set es \<Longrightarrow> P s \<Longrightarrow> P (eff e s) \<and> (fld (eff e s) = fld s \<or> fld (eff e s) = v)"
    and init: "fld s = v \<or> (\<exists>e \<in> set es. \<forall>s. P s \<longrightarrow> fld (eff e s) = v)"
  shows "P (fold eff es s) \<and> fld (fold eff es s) = v"
  using assms
proof (induction es arbitrary: s)
  case Nil
  then show ?case by simp
next
  case (Cons e es)
  have P': "P (eff e s)" and fld': "fld (eff e s) = fld s \<or> fld (eff e s) = v"
    using Cons.prems(1,2) by auto
  have "P (fold eff es (eff e s)) \<and> fld (fold eff es (eff e s)) = v"
  proof (rule Cons.IH [OF P'])
    show "\<And>e s. e \<in> set es \<Longrightarrow> P s \<Longrightarrow> P (eff e s) \<and> (fld (eff e s) = fld s \<or> fld (eff e s) = v)"
      using Cons.prems(2) by simp
    show "fld (eff e s) = v \<or> (\<exists>e \<in> set es. \<forall>s. P s \<longrightarrow> fld (eff e s) = v)"
      using Cons.prems(1,3) fld' by auto
  qed
  then show ?case by simp
qed

lemma fold_invariant:
  assumes "P s" and "\<And>e s. e \<in> set es \<Longrightarrow> P s \<Longrightarrow> P (eff e s)"
  shows "P (fold eff es s)"
  using fold_settles [of P s es eff "\<lambda>_. ()" "()"] assms by simp

lemma map_of_distinct_Some:
  assumes "distinct (map f xs)"
  shows "map_of (map (\<lambda>x. (f x, g x)) xs) k = Some v \<longleftrightarrow> (\<exists>x \<in> set xs. f x = k \<and> g x = v)"
  using assms by (subst map_of_eq_Some_iff) (auto simp: comp_def)

subsection \<open>Returning normally\<close>

text \<open>
  \<open>returns r Q\<close>: the computation does not panic and its result satisfies \<open>Q\<close>. The rules below
  push it through a program, so that the goal left over speaks about the calls only, and
  \<open>returns_mono\<close> plugs in what is known about a call.
\<close>

definition returns :: "'e + 'a \<Rightarrow> ('a \<Rightarrow> bool) \<Rightarrow> bool" where
  "returns r Q \<longleftrightarrow> (\<exists>x. r = Inr x \<and> Q x)"

lemma returns_Inr [simp]: "returns (Inr x) Q = Q x"
  by (simp add: returns_def)

lemma returns_Inl [simp]: "\<not> returns (Inl e) Q"
  by (simp add: returns_def)

lemma returns_bind [simp]: "returns (bind_res r f) Q = returns r (\<lambda>x. returns (f x) Q)"
  by (cases r) simp_all

lemma returns_if [simp]: "returns (if b then r else t) Q = (if b then returns r Q else returns t Q)"
  by simp

lemma returns_case_prod [simp]:
  "returns (case_prod f p) Q = case_prod (\<lambda>a b. returns (f a b) Q) p"
  by (cases p) simp

lemma returns_expect [simp]: "returns (expect msg m) Q = (\<exists>x. m = Some x \<and> Q x)"
  by (cases m) simp_all

lemma returns_unwrap [simp]: "returns (unwrap m) Q = (\<exists>x. m = Some x \<and> Q x)"
  by (cases m) simp_all

lemma returns_assert [simp]: "returns (assert_that msg b) Q = (b \<and> Q ())"
  by (simp add: assert_that_def)

lemma returns_vec [simp]:
  "returns (vec_insert i x xs) Q = (i \<le> length xs \<and> Q (take i xs @ x # drop i xs))"
  "returns (vec_remove i xs) Q' = (i < length xs \<and> Q' (xs ! i, take i xs @ drop (Suc i) xs))"
  "returns (vec_index xs i) Q'' = (i < length xs \<and> Q'' (xs ! i))"
  "returns (vec_swap i j xs) Q = (i < length xs \<and> j < length xs \<and> Q (xs[i := xs ! j, j := xs ! i]))"
  "returns (vec_modify i f xs) Q = (i < length xs \<and> Q (xs[i := f (xs ! i)]))"
  "returns (last_idx xs) R = (xs \<noteq> [] \<and> R (length xs - 1))"
  by (auto simp: returns_def)

lemma returns_mono: "returns r P \<Longrightarrow> (\<And>x. r = Inr x \<Longrightarrow> P x \<Longrightarrow> Q x) \<Longrightarrow> returns r Q"
  by (auto simp: returns_def)

lemma returnsI: "r = Inr x \<Longrightarrow> Q x \<Longrightarrow> returns r Q"
  by simp

lemma returnsD: "returns r Q \<Longrightarrow> r = Inr x \<Longrightarrow> Q x"
  by simp

end
