(* ===== verification/Ipc_Types.thy ===== *)
theory Ipc_Types
  imports Complex_Main Niri_Prelude
begin

text \<open>
  The data of the IPC protocol, \<^verbatim>\<open>niri-ipc/src/lib.rs\<close>: windows, workspaces, keyboard
  layouts, outputs and the actions on them, layer surfaces, events. Each Rust struct is a record
  and each Rust enum a datatype with the source's variants; record fields carry a prefix because
  Isabelle's record selectors are global.
\<close>

type_synonym f64 = real

record timestamp =
  ts_secs :: u64
  ts_nanos :: u32

record window_layout =
  wl_pos_in_scrolling_layout :: "(usize \<times> usize) option"
  wl_tile_size :: "f64 \<times> f64"
  wl_window_size :: "i32 \<times> i32"
  wl_tile_pos_in_workspace_view :: "(f64 \<times> f64) option"
  wl_window_offset_in_tile :: "f64 \<times> f64"

record window =
  win_id :: u64
  win_title :: "string option"
  win_app_id :: "string option"
  win_pid :: "i32 option"
  win_workspace_id :: "u64 option"
  win_is_focused :: bool
  win_is_floating :: bool
  win_is_urgent :: bool
  win_layout :: window_layout
  win_focus_timestamp :: "timestamp option"

record workspace =
  ws_id :: u64
  ws_idx :: u8
  ws_name :: "string option"
  ws_output :: "string option"
  ws_is_urgent :: bool
  ws_is_active :: bool
  ws_is_focused :: bool
  ws_active_window_id :: "u64 option"

record keyboard_layouts =
  kl_names :: "string list"
  kl_current_idx :: u8

datatype event =
    WorkspacesChanged "workspace list"
  | WorkspaceUrgencyChanged u64 bool
  | WorkspaceActivated u64 bool
  | WorkspaceActiveWindowChanged u64 "u64 option"
  | WindowsChanged "window list"
  | WindowOpenedOrChanged window
  | WindowClosed u64
  | WindowFocusChanged "u64 option"
  | WindowFocusTimestampChanged u64 "timestamp option"
  | WindowUrgencyChanged u64 bool
  | WindowLayoutsChanged "(u64 \<times> window_layout) list"
  | KeyboardLayoutsChanged keyboard_layouts
  | KeyboardLayoutSwitched u8
  | OverviewOpenedOrClosed bool
  | ConfigLoaded bool
  | ScreenshotCaptured "string option"

subsection \<open>Timestamps\<close>

text \<open>
  \<open>std::time::Duration\<close> as the pair of its whole seconds and its nanoseconds below one second;
  \<open>Duration::new\<close> carries excess nanoseconds into the seconds and panics when that overflows.
\<close>

type_synonym duration = "u64 \<times> u32"

definition duration_ok :: "duration \<Rightarrow> bool" where
  "duration_ok d \<longleftrightarrow> unat (snd d) < 1000000000"

definition duration_new :: "u64 \<Rightarrow> u32 \<Rightarrow> duration res" where
  "duration_new secs nanos =
     (let carry = unat nanos div 1000000000; s = unat secs + carry
      in if s < 2 ^ 64 then Inr (of_nat s, of_nat (unat nanos mod 1000000000))
         else Inl (ExpectFailed ''overflow in Duration::new''))"

definition timestamp_from_duration :: "duration \<Rightarrow> timestamp" where
  "timestamp_from_duration d = \<lparr>ts_secs = fst d, ts_nanos = snd d\<rparr>"

definition duration_from_timestamp :: "timestamp \<Rightarrow> duration res" where
  "duration_from_timestamp t = duration_new (ts_secs t) (ts_nanos t)"

lemma duration_roundtrip:
  "duration_ok d \<Longrightarrow> duration_from_timestamp (timestamp_from_duration d) = Inr d"
proof -
  assume ok: "duration_ok d"
  obtain a b where d: "d = (a, b)" by force
  have "unat a < 2 ^ 64" by (rule order.strict_trans2 [OF unsigned_less]) simp
  with ok show ?thesis
    by (simp add: d duration_ok_def duration_from_timestamp_def timestamp_from_duration_def
        duration_new_def Let_def)
qed

end
