(* ===== verification/Ipc_State.thy ===== *)
theory Ipc_State
  imports Ipc_Types
begin

text \<open>
  The event-stream state of \<^verbatim>\<open>niri-ipc/src/state.rs\<close>: the five parts of the state, for each
  part \<open>replicate\<close> (the events that rebuild it from the default state) and \<open>apply\<close> (the
  effect of one event), and the whole state that routes an event through its parts.

  \<open>apply\<close> returns the new state with \<open>None\<close> when the part consumed the event and with
  \<open>Some event\<close> when the part ignores it, as the Rust method does; an \<open>expect\<close> that fails is
  \<open>Inl\<close>. The trait \<open>EventStreamStatePart\<close> is the locale \<open>event_stream_part\<close> below.
\<close>

record workspaces_state = wss_workspaces :: "(u64, workspace) hash_map"
record windows_state = wis_windows :: "(u64, window) hash_map"
record keyboard_layouts_state = kls_keyboard_layouts :: "keyboard_layouts option"
record overview_state = ovs_is_open :: bool
record config_state = cfs_failed :: bool

record event_stream_state =
  ess_workspaces :: workspaces_state
  ess_windows :: windows_state
  ess_keyboard_layouts :: keyboard_layouts_state
  ess_overview :: overview_state
  ess_config :: config_state

definition workspaces_default :: workspaces_state where
  "workspaces_default = \<lparr>wss_workspaces = []\<rparr>"
definition windows_default :: windows_state where
  "windows_default = \<lparr>wis_windows = []\<rparr>"
definition keyboard_layouts_default :: keyboard_layouts_state where
  "keyboard_layouts_default = \<lparr>kls_keyboard_layouts = None\<rparr>"
definition overview_default :: overview_state where
  "overview_default = \<lparr>ovs_is_open = False\<rparr>"
definition config_default :: config_state where
  "config_default = \<lparr>cfs_failed = False\<rparr>"

definition event_stream_default :: event_stream_state where
  "event_stream_default =
     \<lparr>ess_workspaces = workspaces_default, ess_windows = windows_default,
      ess_keyboard_layouts = keyboard_layouts_default, ess_overview = overview_default,
      ess_config = config_default\<rparr>"

type_synonym 's applied = "('s \<times> event option) res"

subsection \<open>Workspaces\<close>

definition workspaces_replicate :: "workspaces_state \<Rightarrow> event list" where
  "workspaces_replicate s = [WorkspacesChanged (hm_values (wss_workspaces s))]"

definition ws_set_urgent :: "u64 \<Rightarrow> bool \<Rightarrow> workspace \<Rightarrow> workspace" where
  "ws_set_urgent i urgent ws = (if ws_id ws = i then ws\<lparr>ws_is_urgent := urgent\<rparr> else ws)"

text \<open>The body of the loop of \<open>WorkspaceActivated\<close>, for the output of the activated workspace.\<close>

definition ws_got_activated :: "u64 \<Rightarrow> bool \<Rightarrow> string option \<Rightarrow> workspace \<Rightarrow> workspace" where
  "ws_got_activated i focused output ws =
     (let got_activated = (ws_id ws = i);
          ws = (if ws_output ws = output then ws\<lparr>ws_is_active := got_activated\<rparr> else ws)
      in if focused then ws\<lparr>ws_is_focused := got_activated\<rparr> else ws)"

fun workspaces_apply :: "workspaces_state \<Rightarrow> event \<Rightarrow> workspaces_state applied" where
  "workspaces_apply s (WorkspacesChanged workspaces) =
     Inr (s\<lparr>wss_workspaces := hm_collect ws_id workspaces\<rparr>, None)"
| "workspaces_apply s (WorkspaceUrgencyChanged i urgent) =
     Inr (s\<lparr>wss_workspaces := hm_map_values (ws_set_urgent i urgent) (wss_workspaces s)\<rparr>, None)"
| "workspaces_apply s (WorkspaceActivated i focused) =
     bind_res (expect ''activated workspace was missing from the map'' (hm_get (wss_workspaces s) i))
       (\<lambda>ws. Inr (s\<lparr>wss_workspaces :=
          hm_map_values (ws_got_activated i focused (ws_output ws)) (wss_workspaces s)\<rparr>, None))"
| "workspaces_apply s (WorkspaceActiveWindowChanged workspace_id active_window_id) =
     bind_res (expect ''changed workspace was missing from the map''
        (hm_get (wss_workspaces s) workspace_id))
       (\<lambda>ws. Inr (s\<lparr>wss_workspaces :=
          hm_insert workspace_id (ws\<lparr>ws_active_window_id := active_window_id\<rparr>)
            (wss_workspaces s)\<rparr>, None))"
| "workspaces_apply s event = Inr (s, Some event)"

subsection \<open>Windows\<close>

definition windows_replicate :: "windows_state \<Rightarrow> event list" where
  "windows_replicate s = [WindowsChanged (hm_values (wis_windows s))]"

definition win_unfocus_other :: "u64 \<Rightarrow> window \<Rightarrow> window" where
  "win_unfocus_other i win = (if win_id win \<noteq> i then win\<lparr>win_is_focused := False\<rparr> else win)"

definition win_set_focus :: "u64 option \<Rightarrow> window \<Rightarrow> window" where
  "win_set_focus i win = win\<lparr>win_is_focused := (Some (win_id win) = i)\<rparr>"

text \<open>The loop of \<open>WindowLayoutsChanged\<close>.\<close>

fun windows_set_layouts ::
  "(u64, window) hash_map \<Rightarrow> (u64 \<times> window_layout) list \<Rightarrow> (u64, window) hash_map res" where
  "windows_set_layouts m [] = Inr m"
| "windows_set_layouts m ((i, l) # changes) =
     bind_res (expect ''changed window was missing from the map'' (hm_get m i))
       (\<lambda>win. windows_set_layouts (hm_insert i (win\<lparr>win_layout := l\<rparr>) m) changes)"

fun windows_apply :: "windows_state \<Rightarrow> event \<Rightarrow> windows_state applied" where
  "windows_apply s (WindowsChanged windows) =
     Inr (s\<lparr>wis_windows := hm_collect win_id windows\<rparr>, None)"
| "windows_apply s (WindowOpenedOrChanged window) =
     (let m = hm_insert (win_id window) window (wis_windows s)
      in Inr (s\<lparr>wis_windows :=
           if win_is_focused window then hm_map_values (win_unfocus_other (win_id window)) m
           else m\<rparr>, None))"
| "windows_apply s (WindowClosed i) =
     bind_res (expect ''closed window was missing from the map'' (hm_get (wis_windows s) i))
       (\<lambda>_. Inr (s\<lparr>wis_windows := hm_remove i (wis_windows s)\<rparr>, None))"
| "windows_apply s (WindowFocusChanged i) =
     Inr (s\<lparr>wis_windows := hm_map_values (win_set_focus i) (wis_windows s)\<rparr>, None)"
| "windows_apply s (WindowFocusTimestampChanged i focus_timestamp) =
     Inr (s\<lparr>wis_windows := hm_update_first (\<lambda>win. win_id win = i)
        (\<lambda>win. win\<lparr>win_focus_timestamp := focus_timestamp\<rparr>) (wis_windows s)\<rparr>, None)"
| "windows_apply s (WindowUrgencyChanged i urgent) =
     Inr (s\<lparr>wis_windows := hm_update_first (\<lambda>win. win_id win = i)
        (\<lambda>win. win\<lparr>win_is_urgent := urgent\<rparr>) (wis_windows s)\<rparr>, None)"
| "windows_apply s (WindowLayoutsChanged changes) =
     bind_res (windows_set_layouts (wis_windows s) changes)
       (\<lambda>m. Inr (s\<lparr>wis_windows := m\<rparr>, None))"
| "windows_apply s event = Inr (s, Some event)"

subsection \<open>Keyboard layouts, overview, config\<close>

definition keyboard_layouts_replicate :: "keyboard_layouts_state \<Rightarrow> event list" where
  "keyboard_layouts_replicate s =
     (case kls_keyboard_layouts s of Some k \<Rightarrow> [KeyboardLayoutsChanged k] | None \<Rightarrow> [])"

fun keyboard_layouts_apply :: "keyboard_layouts_state \<Rightarrow> event \<Rightarrow> keyboard_layouts_state applied"
where
  "keyboard_layouts_apply s (KeyboardLayoutsChanged k) =
     Inr (s\<lparr>kls_keyboard_layouts := Some k\<rparr>, None)"
| "keyboard_layouts_apply s (KeyboardLayoutSwitched idx) =
     bind_res (expect ''keyboard layouts must be set before a layout can be switched''
         (kls_keyboard_layouts s))
       (\<lambda>kb. Inr (s\<lparr>kls_keyboard_layouts := Some (kb\<lparr>kl_current_idx := idx\<rparr>)\<rparr>, None))"
| "keyboard_layouts_apply s event = Inr (s, Some event)"

definition overview_replicate :: "overview_state \<Rightarrow> event list" where
  "overview_replicate s = [OverviewOpenedOrClosed (ovs_is_open s)]"

fun overview_apply :: "overview_state \<Rightarrow> event \<Rightarrow> overview_state applied" where
  "overview_apply s (OverviewOpenedOrClosed is_open) = Inr (s\<lparr>ovs_is_open := is_open\<rparr>, None)"
| "overview_apply s event = Inr (s, Some event)"

definition config_replicate :: "config_state \<Rightarrow> event list" where
  "config_replicate s = [ConfigLoaded (cfs_failed s)]"

fun config_apply :: "config_state \<Rightarrow> event \<Rightarrow> config_state applied" where
  "config_apply s (ConfigLoaded failed) = Inr (s\<lparr>cfs_failed := failed\<rparr>, None)"
| "config_apply s event = Inr (s, Some event)"

subsection \<open>The whole state\<close>

definition event_stream_replicate :: "event_stream_state \<Rightarrow> event list" where
  "event_stream_replicate s =
     workspaces_replicate (ess_workspaces s) @ windows_replicate (ess_windows s) @
     keyboard_layouts_replicate (ess_keyboard_layouts s) @ overview_replicate (ess_overview s) @
     config_replicate (ess_config s)"

text \<open>
  One step of the chain of \<open>let event = self.part.apply(event)?\<close>: apply the event to a part,
  store the part, and go on only if the part hands the event back.
\<close>

definition apply_part ::
  "('s \<Rightarrow> 'p) \<Rightarrow> ('p \<Rightarrow> 's \<Rightarrow> 's) \<Rightarrow> ('p \<Rightarrow> event \<Rightarrow> 'p applied) \<Rightarrow> 's \<Rightarrow> event \<Rightarrow>
   ('s \<Rightarrow> event \<Rightarrow> 's applied) \<Rightarrow> 's applied" where
  "apply_part get put apply s event rest =
     bind_res (apply (get s) event)
       (\<lambda>(p, r). case r of None \<Rightarrow> Inr (put p s, None) | Some event' \<Rightarrow> rest (put p s) event')"

definition event_stream_apply :: "event_stream_state \<Rightarrow> event \<Rightarrow> event_stream_state applied" where
  "event_stream_apply s event =
     apply_part ess_workspaces (\<lambda>p s. s\<lparr>ess_workspaces := p\<rparr>) workspaces_apply s event (\<lambda>s event.
     apply_part ess_windows (\<lambda>p s. s\<lparr>ess_windows := p\<rparr>) windows_apply s event (\<lambda>s event.
     apply_part ess_keyboard_layouts (\<lambda>p s. s\<lparr>ess_keyboard_layouts := p\<rparr>)
       keyboard_layouts_apply s event (\<lambda>s event.
     apply_part ess_overview (\<lambda>p s. s\<lparr>ess_overview := p\<rparr>) overview_apply s event (\<lambda>s event.
     apply_part ess_config (\<lambda>p s. s\<lparr>ess_config := p\<rparr>) config_apply s event (\<lambda>s event.
       Inr (s, Some event))))))"

text \<open>What a client does with the stream: apply the events one after the other.\<close>

fun run_events :: "('s \<Rightarrow> event \<Rightarrow> 's applied) \<Rightarrow> 's \<Rightarrow> event list \<Rightarrow> 's res" where
  "run_events apply s [] = Inr s"
| "run_events apply s (e # es) = bind_res (apply s e) (\<lambda>(s', _). run_events apply s' es)"

subsection \<open>The contract of a part\<close>

text \<open>
  The trait \<open>EventStreamStatePart\<close> as an interface. \<open>inv\<close> is the shape of a reachable part,
  \<open>eqv\<close> the equality a reader of the state can observe (it does not see the iteration order
  of a map), \<open>owns\<close> the events the part consumes. The laws are the documentation of the trait:
  an ignored event comes back unchanged with the state unchanged, a consumed one does not come
  back, and the replicated events rebuild the part from its default.
\<close>

locale event_stream_part =
  fixes default :: 's
    and replicate :: "'s \<Rightarrow> event list"
    and app :: "'s \<Rightarrow> event \<Rightarrow> 's applied"
    and inv :: "'s \<Rightarrow> bool"
    and eqv :: "'s \<Rightarrow> 's \<Rightarrow> bool"
    and owns :: "event \<Rightarrow> bool"
  assumes default_inv: "inv default"
    and apply_inv: "inv s \<Longrightarrow> app s e = Inr (s', r) \<Longrightarrow> inv s'"
    and apply_foreign: "\<not> owns e \<Longrightarrow> app s e = Inr (s, Some e)"
    and apply_own: "owns e \<Longrightarrow> app s e = Inr (s', r) \<Longrightarrow> r = None"
    and eqv_refl: "eqv s s"
    and eqv_sym: "eqv s t \<Longrightarrow> eqv t s"
    and eqv_trans: "eqv s t \<Longrightarrow> eqv t u \<Longrightarrow> eqv s u"
    and apply_cong: "inv s \<Longrightarrow> inv t \<Longrightarrow> eqv s t \<Longrightarrow> app s e = Inr (s', r) \<Longrightarrow>
      \<exists>t'. app t e = Inr (t', r) \<and> eqv s' t'"
    and replicate_owns: "e \<in> set (replicate s) \<Longrightarrow> owns e"
    and replicate_rebuilds: "inv s \<Longrightarrow>
      \<exists>s'. run_events app default (replicate s) = Inr s' \<and> eqv s s'"
begin

lemma run_append:
  "run_events app s (es @ fs) = bind_res (run_events app s es) (\<lambda>s'. run_events app s' fs)"
  by (induction es arbitrary: s) (auto simp: bind_res_assoc split_def)

lemma run_inv: "inv s \<Longrightarrow> run_events app s es = Inr s' \<Longrightarrow> inv s'"
  by (induction es arbitrary: s) (auto dest: apply_inv)

lemma run_foreign: "list_all (\<lambda>e. \<not> owns e) es \<Longrightarrow> run_events app s es = Inr s"
  by (induction es) (auto simp: apply_foreign)

lemma run_cong:
  "inv s \<Longrightarrow> inv t \<Longrightarrow> eqv s t \<Longrightarrow> run_events app s es = Inr s' \<Longrightarrow>
   \<exists>t'. run_events app t es = Inr t' \<and> eqv s' t'"
proof (induction es arbitrary: s t)
  case Nil
  then show ?case by simp
next
  case (Cons e es)
  from Cons.prems(4) obtain s1 r where s1: "app s e = Inr (s1, r)"
    and rest: "run_events app s1 es = Inr s'"
    by auto
  from apply_cong [OF Cons.prems(1-3) s1] obtain t1 where
    t1: "app t e = Inr (t1, r)" and eq: "eqv s1 t1" by blast
  from Cons.IH [OF apply_inv [OF Cons.prems(1) s1] apply_inv [OF Cons.prems(2) t1] eq rest] t1
  show ?case by simp
qed

text \<open>
  A subscriber that joins in state \<open>s\<close> first receives the replicated events, then whatever
  follows: it ends in the state of an observer that was there from the start.
\<close>

lemma late_subscriber:
  assumes "inv s" "run_events app s es = Inr s'"
  shows "\<exists>t'. run_events app default (replicate s @ es) = Inr t' \<and> eqv s' t'"
proof -
  obtain t where t: "run_events app default (replicate s) = Inr t" "eqv s t"
    using replicate_rebuilds [OF assms(1)] by blast
  have "inv t" using run_inv [OF default_inv t(1)] .
  from run_cong [OF assms(1) this t(2) assms(2)] t(1) show ?thesis
    by (simp add: run_append)
qed

end

subsection \<open>The parts satisfy the contract\<close>

fun workspaces_owns :: "event \<Rightarrow> bool" where
  "workspaces_owns (WorkspacesChanged _) = True"
| "workspaces_owns (WorkspaceUrgencyChanged _ _) = True"
| "workspaces_owns (WorkspaceActivated _ _) = True"
| "workspaces_owns (WorkspaceActiveWindowChanged _ _) = True"
| "workspaces_owns _ = False"

fun windows_owns :: "event \<Rightarrow> bool" where
  "windows_owns (WindowsChanged _) = True"
| "windows_owns (WindowOpenedOrChanged _) = True"
| "windows_owns (WindowClosed _) = True"
| "windows_owns (WindowFocusChanged _) = True"
| "windows_owns (WindowFocusTimestampChanged _ _) = True"
| "windows_owns (WindowUrgencyChanged _ _) = True"
| "windows_owns (WindowLayoutsChanged _) = True"
| "windows_owns _ = False"

fun keyboard_layouts_owns :: "event \<Rightarrow> bool" where
  "keyboard_layouts_owns (KeyboardLayoutsChanged _) = True"
| "keyboard_layouts_owns (KeyboardLayoutSwitched _) = True"
| "keyboard_layouts_owns _ = False"

fun overview_owns :: "event \<Rightarrow> bool" where
  "overview_owns (OverviewOpenedOrClosed _) = True"
| "overview_owns _ = False"

fun config_owns :: "event \<Rightarrow> bool" where
  "config_owns (ConfigLoaded _) = True"
| "config_owns _ = False"

text \<open>
  A map part holds each entry once and under its own id; two maps are observably equal when
  their lookups agree.
\<close>

definition ipc_workspaces_inv :: "workspaces_state \<Rightarrow> bool" where
  "ipc_workspaces_inv s \<longleftrightarrow> hm_inv (wss_workspaces s) \<and> hm_keyed ws_id (wss_workspaces s)"

definition windows_inv :: "windows_state \<Rightarrow> bool" where
  "windows_inv s \<longleftrightarrow> hm_inv (wis_windows s) \<and> hm_keyed win_id (wis_windows s)"

definition workspaces_eqv :: "workspaces_state \<Rightarrow> workspaces_state \<Rightarrow> bool" where
  "workspaces_eqv s t \<longleftrightarrow> map_of (wss_workspaces s) = map_of (wss_workspaces t)"

definition windows_eqv :: "windows_state \<Rightarrow> windows_state \<Rightarrow> bool" where
  "windows_eqv s t \<longleftrightarrow> map_of (wis_windows s) = map_of (wis_windows t)"

lemma ws_id_set_urgent [simp]: "ws_id (ws_set_urgent i u ws) = ws_id ws"
  by (simp add: ws_set_urgent_def)

lemma ws_id_got_activated [simp]: "ws_id (ws_got_activated i f out ws) = ws_id ws"
  by (simp add: ws_got_activated_def Let_def)

lemma win_id_unfocus_other [simp]: "win_id (win_unfocus_other i win) = win_id win"
  by (simp add: win_unfocus_other_def)

lemma win_id_set_focus [simp]: "win_id (win_set_focus i win) = win_id win"
  by (simp add: win_set_focus_def)

lemma map_of_eqI: "(\<And>k. hm_get m k = hm_get n k) \<Longrightarrow> map_of m = map_of n"
  by (rule ext)

lemma windows_set_layouts_inv:
  "windows_set_layouts m cs = Inr m' \<Longrightarrow> hm_inv m \<Longrightarrow> hm_keyed win_id m \<Longrightarrow>
   hm_inv m' \<and> hm_keyed win_id m'"
proof (induction m cs rule: windows_set_layouts.induct)
  case (2 m i l changes)
  from "2.prems"(1) obtain win where win: "hm_get m i = Some win"
    and rest: "windows_set_layouts (hm_insert i (win\<lparr>win_layout := l\<rparr>) m) changes = Inr m'"
    by auto
  have "win_id win = i" using hm_keyedD [OF "2.prems"(3) win] .
  then show ?case using "2.IH" [OF rest] "2.prems"(2,3) by simp
qed simp

lemma windows_set_layouts_cong:
  "windows_set_layouts m cs = Inr m' \<Longrightarrow> map_of m = map_of n \<Longrightarrow>
   \<exists>n'. windows_set_layouts n cs = Inr n' \<and> map_of m' = map_of n'"
proof (induction m cs arbitrary: n rule: windows_set_layouts.induct)
  case (2 m i l changes)
  from "2.prems"(1) obtain win where win: "hm_get m i = Some win"
    and rest: "windows_set_layouts (hm_insert i (win\<lparr>win_layout := l\<rparr>) m) changes = Inr m'"
    by auto
  have "map_of (hm_insert i (win\<lparr>win_layout := l\<rparr>) m) = map_of (hm_insert i (win\<lparr>win_layout := l\<rparr>) n)"
    using "2.prems"(2) by (auto intro!: map_of_eqI simp: hm_simps)
  from "2.IH" [OF rest this] win "2.prems"(2) show ?case by auto
qed auto

lemma workspaces_apply_inv:
  "ipc_workspaces_inv s \<Longrightarrow> workspaces_apply s e = Inr (s', r) \<Longrightarrow> ipc_workspaces_inv s'"
  by (cases e) (auto simp: ipc_workspaces_inv_def dest: hm_keyedD)

lemma windows_apply_inv:
  "windows_inv s \<Longrightarrow> windows_apply s e = Inr (s', r) \<Longrightarrow> windows_inv s'"
  by (cases e) (auto simp: windows_inv_def Let_def dest: windows_set_layouts_inv)

lemma workspaces_apply_cong:
  assumes "workspaces_eqv s t" "workspaces_apply s e = Inr (s', r)"
  shows "\<exists>t'. workspaces_apply t e = Inr (t', r) \<and> workspaces_eqv s' t'"
  using assms
  by (cases e) (auto simp: workspaces_eqv_def intro!: map_of_eqI simp: hm_simps)

lemma windows_apply_cong:
  assumes "windows_inv s" "windows_inv t" "windows_eqv s t" "windows_apply s e = Inr (s', r)"
  shows "\<exists>t'. windows_apply t e = Inr (t', r) \<and> windows_eqv s' t'"
proof (cases "\<exists>cs. e = WindowLayoutsChanged cs")
  case True
  then obtain cs where e: "e = WindowLayoutsChanged cs" by blast
  with assms(4) obtain m where m: "windows_set_layouts (wis_windows s) cs = Inr m"
    and s': "s' = s\<lparr>wis_windows := m\<rparr>" "r = None"
    by auto
  from windows_set_layouts_cong [OF m, of "wis_windows t"] assms(3) obtain n where
    "windows_set_layouts (wis_windows t) cs = Inr n" "map_of m = map_of n"
    by (auto simp: windows_eqv_def)
  with e s' show ?thesis by (auto simp: windows_eqv_def)
next
  case False
  have get: "hm_get (wis_windows s) k = hm_get (wis_windows t) k" for k
    using assms(3) by (simp add: windows_eqv_def)
  note upd = hm_get_update_first [where key = win_id]
  from False assms show ?thesis
    by (cases e) (auto simp: windows_eqv_def windows_inv_def Let_def hm_simps upd get
        intro!: map_of_eqI)
qed

interpretation ws_part: event_stream_part
  workspaces_default workspaces_replicate workspaces_apply ipc_workspaces_inv workspaces_eqv
  workspaces_owns
proof (unfold_locales, goal_cases)
  case (2 s e s' r) then show ?case by (rule workspaces_apply_inv)
next
  case (3 e s) then show ?case by (cases e) auto
next
  case (4 e s s' r) then show ?case by (cases e) auto
next
  case (8 s t e s' r) then show ?case by (blast intro: workspaces_apply_cong)
next
  case (10 s) then show ?case
    by (auto simp: workspaces_replicate_def workspaces_default_def workspaces_eqv_def
        ipc_workspaces_inv_def hm_collect_values intro!: map_of_eqI)
qed (auto simp: ipc_workspaces_inv_def workspaces_default_def workspaces_eqv_def
    workspaces_replicate_def)

interpretation win_part: event_stream_part
  windows_default windows_replicate windows_apply windows_inv windows_eqv windows_owns
proof (unfold_locales, goal_cases)
  case (2 s e s' r) then show ?case by (rule windows_apply_inv)
next
  case (3 e s) then show ?case by (cases e) auto
next
  case (4 e s s' r) then show ?case by (cases e) (auto simp: Let_def)
next
  case (8 s t e s' r) then show ?case by (blast intro: windows_apply_cong)
next
  case (10 s) then show ?case
    by (auto simp: windows_replicate_def windows_default_def windows_eqv_def
        windows_inv_def hm_collect_values intro!: map_of_eqI)
qed (auto simp: windows_inv_def windows_default_def windows_eqv_def windows_replicate_def)

interpretation kb_part: event_stream_part
  keyboard_layouts_default keyboard_layouts_replicate keyboard_layouts_apply "\<lambda>_. True" "(=)"
  keyboard_layouts_owns
proof (unfold_locales, goal_cases)
  case (3 e s) then show ?case by (cases e) auto
next
  case (4 e s s' r) then show ?case by (cases e) auto
next
  case (9 e s) then show ?case
    by (auto simp: keyboard_layouts_replicate_def split: option.splits)
next
  case (10 s) then show ?case
    by (cases s) (auto simp: keyboard_layouts_replicate_def keyboard_layouts_default_def
        split: option.splits)
qed auto

interpretation ov_part: event_stream_part
  overview_default overview_replicate overview_apply "\<lambda>_. True" "(=)" overview_owns
proof (unfold_locales, goal_cases)
  case (3 e s) then show ?case by (cases e) auto
next
  case (4 e s s' r) then show ?case by (cases e) auto
next
  case (10 s) then show ?case by (auto simp: overview_replicate_def overview_default_def)
qed (auto simp: overview_replicate_def)

interpretation cf_part: event_stream_part
  config_default config_replicate config_apply "\<lambda>_. True" "(=)" config_owns
proof (unfold_locales, goal_cases)
  case (3 e s) then show ?case by (cases e) auto
next
  case (4 e s s' r) then show ?case by (cases e) auto
next
  case (10 s) then show ?case by (auto simp: config_replicate_def config_default_def)
qed (auto simp: config_replicate_def)

subsection \<open>The whole state satisfies the contract\<close>

definition event_stream_inv :: "event_stream_state \<Rightarrow> bool" where
  "event_stream_inv s \<longleftrightarrow> ipc_workspaces_inv (ess_workspaces s) \<and> windows_inv (ess_windows s)"

definition event_stream_eqv :: "event_stream_state \<Rightarrow> event_stream_state \<Rightarrow> bool" where
  "event_stream_eqv s t \<longleftrightarrow>
     workspaces_eqv (ess_workspaces s) (ess_workspaces t) \<and>
     windows_eqv (ess_windows s) (ess_windows t) \<and>
     ess_keyboard_layouts s = ess_keyboard_layouts t \<and>
     ess_overview s = ess_overview t \<and> ess_config s = ess_config t"

definition event_stream_owns :: "event \<Rightarrow> bool" where
  "event_stream_owns e \<longleftrightarrow> workspaces_owns e \<or> windows_owns e \<or> keyboard_layouts_owns e \<or>
     overview_owns e \<or> config_owns e"

text \<open>No event has two owners, so the chain reaches the owner with the state untouched.\<close>

lemma owners_disjoint:
  "windows_owns e \<Longrightarrow> \<not> workspaces_owns e"
  "keyboard_layouts_owns e \<Longrightarrow> \<not> workspaces_owns e \<and> \<not> windows_owns e"
  "overview_owns e \<Longrightarrow> \<not> workspaces_owns e \<and> \<not> windows_owns e \<and> \<not> keyboard_layouts_owns e"
  "config_owns e \<Longrightarrow> \<not> workspaces_owns e \<and> \<not> windows_owns e \<and> \<not> keyboard_layouts_owns e \<and>
     \<not> overview_owns e"
  by (cases e; simp)+

lemmas part_foreign = ws_part.apply_foreign win_part.apply_foreign kb_part.apply_foreign
  ov_part.apply_foreign cf_part.apply_foreign

lemmas chain_simps = event_stream_apply_def apply_part_def part_foreign

lemma apply_workspaces_event: "workspaces_owns e \<Longrightarrow> event_stream_apply s e =
    bind_res (workspaces_apply (ess_workspaces s) e) (\<lambda>(p, _). Inr (s\<lparr>ess_workspaces := p\<rparr>, None))"
  by (cases "workspaces_apply (ess_workspaces s) e")
    (auto simp: chain_simps dest: ws_part.apply_own)

lemma apply_windows_event: "windows_owns e \<Longrightarrow> event_stream_apply s e =
    bind_res (windows_apply (ess_windows s) e) (\<lambda>(p, _). Inr (s\<lparr>ess_windows := p\<rparr>, None))"
  using owners_disjoint(1) [of e]
  by (cases "windows_apply (ess_windows s) e") (auto simp: chain_simps dest: win_part.apply_own)

lemma apply_keyboard_event: "keyboard_layouts_owns e \<Longrightarrow> event_stream_apply s e =
    bind_res (keyboard_layouts_apply (ess_keyboard_layouts s) e)
      (\<lambda>(p, _). Inr (s\<lparr>ess_keyboard_layouts := p\<rparr>, None))"
  using owners_disjoint(2) [of e]
  by (cases "keyboard_layouts_apply (ess_keyboard_layouts s) e")
    (auto simp: chain_simps dest: kb_part.apply_own)

lemma apply_overview_event: "overview_owns e \<Longrightarrow> event_stream_apply s e =
    bind_res (overview_apply (ess_overview s) e) (\<lambda>(p, _). Inr (s\<lparr>ess_overview := p\<rparr>, None))"
  using owners_disjoint(3) [of e]
  by (cases "overview_apply (ess_overview s) e") (auto simp: chain_simps dest: ov_part.apply_own)

lemma apply_config_event: "config_owns e \<Longrightarrow> event_stream_apply s e =
    bind_res (config_apply (ess_config s) e) (\<lambda>(p, _). Inr (s\<lparr>ess_config := p\<rparr>, None))"
  using owners_disjoint(4) [of e]
  by (cases "config_apply (ess_config s) e") (auto simp: chain_simps dest: cf_part.apply_own)

lemma apply_unowned_event: "\<not> event_stream_owns e \<Longrightarrow> event_stream_apply s e = Inr (s, Some e)"
  by (simp add: chain_simps event_stream_owns_def)

lemmas apply_by_owner = apply_workspaces_event apply_windows_event apply_keyboard_event
  apply_overview_event apply_config_event

lemma owner_cases:
  obtains (workspaces) "workspaces_owns e" | (windows) "windows_owns e"
    | (keyboard) "keyboard_layouts_owns e" | (overview) "overview_owns e"
    | (config) "config_owns e" | (none) "\<not> event_stream_owns e"
  by (auto simp: event_stream_owns_def)

lemma event_stream_apply_inv:
  assumes "event_stream_inv s" "event_stream_apply s e = Inr (s', r)"
  shows "event_stream_inv s'"
  using assms
  by (cases e rule: owner_cases)
    (auto simp: apply_by_owner apply_unowned_event event_stream_inv_def
      dest: workspaces_apply_inv windows_apply_inv)

lemma event_stream_apply_cong:
  assumes "event_stream_inv s" "event_stream_inv t" "event_stream_eqv s t"
    "event_stream_apply s e = Inr (s', r)"
  shows "\<exists>t'. event_stream_apply t e = Inr (t', r) \<and> event_stream_eqv s' t'"
proof (cases e rule: owner_cases)
  case workspaces
  with assms(4) obtain p q where p: "workspaces_apply (ess_workspaces s) e = Inr (p, q)"
    and s': "s' = s\<lparr>ess_workspaces := p\<rparr>" "r = None"
    by (auto simp: apply_workspaces_event)
  from workspaces_apply_cong [OF _ p, of "ess_workspaces t"] assms(3) obtain p' where
    "workspaces_apply (ess_workspaces t) e = Inr (p', q)" "workspaces_eqv p p'"
    by (auto simp: event_stream_eqv_def)
  with workspaces s' assms(3) show ?thesis
    by (auto simp: apply_workspaces_event event_stream_eqv_def)
next
  case windows
  with assms(4) obtain p q where p: "windows_apply (ess_windows s) e = Inr (p, q)"
    and s': "s' = s\<lparr>ess_windows := p\<rparr>" "r = None"
    by (auto simp: apply_windows_event)
  from windows_apply_cong [OF _ _ _ p, of "ess_windows t"] assms(1-3) obtain p' where
    "windows_apply (ess_windows t) e = Inr (p', q)" "windows_eqv p p'"
    by (auto simp: event_stream_eqv_def event_stream_inv_def)
  with windows s' assms(3) show ?thesis
    by (auto simp: apply_windows_event event_stream_eqv_def)
qed (use assms(3,4) in \<open>auto simp: apply_by_owner apply_unowned_event event_stream_eqv_def\<close>)

lemma event_stream_rebuilds:
  assumes "event_stream_inv s"
  shows "\<exists>s'. run_events event_stream_apply event_stream_default (event_stream_replicate s) = Inr s' \<and>
    event_stream_eqv s s'"
  using assms
  by (cases "kls_keyboard_layouts (ess_keyboard_layouts s)"; cases "ess_keyboard_layouts s";
      cases "ess_overview s"; cases "ess_config s")
    (auto simp: event_stream_replicate_def workspaces_replicate_def windows_replicate_def
      keyboard_layouts_replicate_def overview_replicate_def config_replicate_def apply_by_owner
      event_stream_default_def keyboard_layouts_default_def overview_default_def config_default_def
      event_stream_eqv_def workspaces_eqv_def windows_eqv_def event_stream_inv_def
      ipc_workspaces_inv_def windows_inv_def hm_collect_values intro!: map_of_eqI)

interpretation ess: event_stream_part
  event_stream_default event_stream_replicate event_stream_apply event_stream_inv event_stream_eqv
  event_stream_owns
proof (unfold_locales, goal_cases)
  case 1 show ?case
    by (simp add: event_stream_inv_def event_stream_default_def ws_part.default_inv
        win_part.default_inv)
next
  case (2 s e s' r) then show ?case by (rule event_stream_apply_inv)
next
  case (3 e s) then show ?case by (rule apply_unowned_event)
next
  case (4 e s s' r) then show ?case
    by (cases e rule: owner_cases) (auto simp: apply_by_owner)
next
  case (8 s t e s' r) then show ?case by (rule event_stream_apply_cong)
next
  case (9 e s) then show ?case
    by (auto simp: event_stream_replicate_def event_stream_owns_def dest: ws_part.replicate_owns
        win_part.replicate_owns kb_part.replicate_owns ov_part.replicate_owns cf_part.replicate_owns)
next
  case (10 s) then show ?case by (rule event_stream_rebuilds)
qed (auto simp: event_stream_eqv_def workspaces_eqv_def windows_eqv_def)

end
