(* ===== verification/Ipc_Server.thy ===== *)
theory Ipc_Server
  imports Ipc_State
begin

text \<open>
  The compositor's side of the event stream, \<^verbatim>\<open>src/ipc/server.rs\<close>: the list of event-stream
  clients, \<open>send_event\<close> with its disconnection of slow clients, the subscription of a new client,
  and the refreshes that compare the last state sent with the layout and emit the difference.

  The bounded channels are those of the \<open>async_channel\<close> package, so \<open>try_send\<close> is a parameter of
  the definitions that use it. What a refresh reads of the layout, of a mapped window and of the
  xkb state is passed as a view: a record of the values the code reads.
\<close>

definition EVENT_STREAM_BUFFER_SIZE :: nat where
  "EVENT_STREAM_BUFFER_SIZE = 64"

datatype try_send_result = SendOk | SendFull | SendClosed

type_synonym 'tx try_send = "'tx \<Rightarrow> event \<Rightarrow> try_send_result \<times> 'tx"

record ('tx, 'dx) event_stream_sender =
  snd_events :: 'tx
  snd_disconnect :: 'dx

record ('tx, 'dx) ipc_server =
  srv_event_streams :: "('tx, 'dx) event_stream_sender list"
  srv_event_stream_state :: event_stream_state

subsection \<open>Sending an event\<close>

text \<open>The first loop: try every stream, remember the indices of those that failed.\<close>

fun send_loop ::
  "'tx try_send \<Rightarrow> event \<Rightarrow> nat \<Rightarrow> ('tx, 'dx) event_stream_sender list \<Rightarrow>
   ('tx, 'dx) event_stream_sender list \<times> nat list" where
  "send_loop try_send event idx [] = ([], [])"
| "send_loop try_send event idx (stream # streams) =
     (let (r, tx) = try_send (snd_events stream) event;
          (streams', to_remove) = send_loop try_send event (Suc idx) streams
      in (stream\<lparr>snd_events := tx\<rparr> # streams',
          if r = SendOk then to_remove else idx # to_remove))"

text \<open>The second loop: \<open>swap_remove\<close> the failed ones and signal their disconnect channel.\<close>

fun remove_loop ::
  "nat list \<Rightarrow> ('tx, 'dx) event_stream_sender list \<Rightarrow> 'dx list \<Rightarrow>
   (('tx, 'dx) event_stream_sender list \<times> 'dx list) res" where
  "remove_loop [] streams disconnected = Inr (streams, disconnected)"
| "remove_loop (idx # idxs) streams disconnected =
     bind_res (vec_swap_remove idx streams)
       (\<lambda>(stream, streams'). remove_loop idxs streams' (disconnected @ [snd_disconnect stream]))"

definition send_event ::
  "'tx try_send \<Rightarrow> event \<Rightarrow> ('tx, 'dx) event_stream_sender list \<Rightarrow>
   (('tx, 'dx) event_stream_sender list \<times> 'dx list) res" where
  "send_event try_send event streams =
     (let (streams', to_remove) = send_loop try_send event 0 streams
      in remove_loop (rev to_remove) streams' [])"

text \<open>\<open>state.apply(event.clone()); server.send_event(event)\<close> for a part of the state.\<close>

definition emit ::
  "'tx try_send \<Rightarrow> (event_stream_state \<Rightarrow> event \<Rightarrow> event_stream_state applied) \<Rightarrow>
   ('tx, 'dx) ipc_server \<Rightarrow> event \<Rightarrow> ('tx, 'dx) ipc_server res" where
  "emit try_send app server event =
     bind_res (app (srv_event_stream_state server) event) (\<lambda>(state, _).
     bind_res (send_event try_send event (srv_event_streams server)) (\<lambda>(streams, _).
       Inr (server\<lparr>srv_event_stream_state := state, srv_event_streams := streams\<rparr>)))"

fun emit_all ::
  "'tx try_send \<Rightarrow> (event_stream_state \<Rightarrow> event \<Rightarrow> event_stream_state applied) \<Rightarrow>
   ('tx, 'dx) ipc_server \<Rightarrow> event list \<Rightarrow> ('tx, 'dx) ipc_server res" where
  "emit_all try_send app server [] = Inr server"
| "emit_all try_send app server (event # events) =
     bind_res (emit try_send app server event) (\<lambda>server'. emit_all try_send app server' events)"

definition on_workspaces :: "event_stream_state \<Rightarrow> event \<Rightarrow> event_stream_state applied" where
  "on_workspaces s event = bind_res (workspaces_apply (ess_workspaces s) event)
     (\<lambda>(p, r). Inr (s\<lparr>ess_workspaces := p\<rparr>, r))"
definition on_windows :: "event_stream_state \<Rightarrow> event \<Rightarrow> event_stream_state applied" where
  "on_windows s event = bind_res (windows_apply (ess_windows s) event)
     (\<lambda>(p, r). Inr (s\<lparr>ess_windows := p\<rparr>, r))"
definition on_keyboard_layouts :: "event_stream_state \<Rightarrow> event \<Rightarrow> event_stream_state applied" where
  "on_keyboard_layouts s event = bind_res (keyboard_layouts_apply (ess_keyboard_layouts s) event)
     (\<lambda>(p, r). Inr (s\<lparr>ess_keyboard_layouts := p\<rparr>, r))"
definition on_overview :: "event_stream_state \<Rightarrow> event \<Rightarrow> event_stream_state applied" where
  "on_overview s event = bind_res (overview_apply (ess_overview s) event)
     (\<lambda>(p, r). Inr (s\<lparr>ess_overview := p\<rparr>, r))"

subsection \<open>Subscription\<close>

fun send_initial :: "'tx try_send \<Rightarrow> 'tx \<Rightarrow> event list \<Rightarrow> 'tx res" where
  "send_initial try_send tx [] = Inr tx"
| "send_initial try_send tx (event # events) =
     (let (r, tx') = try_send tx event
      in if r = SendOk then send_initial try_send tx' events
         else Inl (ExpectFailed ''initial event burst had more events than buffer size''))"

text \<open>The event-stream branch of \<open>handle_client\<close>, with the two fresh channels as arguments.\<close>

definition subscribe ::
  "'tx try_send \<Rightarrow> 'tx \<Rightarrow> 'dx \<Rightarrow> ('tx, 'dx) ipc_server \<Rightarrow> ('tx, 'dx) ipc_server res" where
  "subscribe try_send events_tx disconnect_tx server =
     bind_res (send_initial try_send events_tx
         (event_stream_replicate (srv_event_stream_state server)))
       (\<lambda>tx. Inr (server\<lparr>srv_event_streams := srv_event_streams server @
          [\<lparr>snd_events = tx, snd_disconnect = disconnect_tx\<rparr>]\<rparr>))"

subsection \<open>Workspaces\<close>

record monitor_view =
  mv_output_name :: string
  mv_active_workspace_idx :: nat

record workspace_view =
  wv_id :: u64
  wv_name :: "string option"
  wv_active_window :: "u64 option"
  wv_is_urgent :: bool

text \<open>An item of \<open>layout.workspaces()\<close>: the monitor if there is one, the index, the workspace.\<close>

type_synonym workspace_item = "monitor_view option \<times> nat \<times> workspace_view"

text \<open>\<open>u8::try_from(n).unwrap_or(u8::MAX)\<close>\<close>

definition u8_or_max :: "nat \<Rightarrow> u8" where
  "u8_or_max n = (if n < 256 then of_nat n else 255)"

definition item_is_active :: "workspace_item \<Rightarrow> bool" where
  "item_is_active item = (case item of (mon, i, ws) \<Rightarrow>
     (case mon of None \<Rightarrow> False | Some m \<Rightarrow> mv_active_workspace_idx m = i))"

definition make_ipc_workspace :: "u64 option \<Rightarrow> workspace_item \<Rightarrow> workspace" where
  "make_ipc_workspace focused_ws_id item = (case item of (mon, i, ws) \<Rightarrow>
     \<lparr>ws_id = wv_id ws, ws_idx = u8_or_max (i + 1), ws_name = wv_name ws,
      ws_output = map_option mv_output_name mon, ws_is_urgent = wv_is_urgent ws,
      ws_is_active = item_is_active item, ws_is_focused = (Some (wv_id ws) = focused_ws_id),
      ws_active_window_id = wv_active_window ws\<rparr>)"

text \<open>Changes that cannot be signalled as individual events.\<close>

definition needs_full_update :: "workspace \<Rightarrow> workspace_item \<Rightarrow> bool" where
  "needs_full_update ipc_ws item = (case item of (mon, i, ws) \<Rightarrow>
     ws_idx ipc_ws \<noteq> u8_or_max (i + 1) \<or> ws_name ipc_ws \<noteq> wv_name ws \<or>
     ws_output ipc_ws \<noteq> map_option mv_output_name mon)"

text \<open>The individual events of one workspace, in the order they are pushed.\<close>

definition workspace_events :: "u64 option \<Rightarrow> workspace \<Rightarrow> workspace_item \<Rightarrow> event list" where
  "workspace_events focused_ws_id ipc_ws item = (case item of (mon, i, ws) \<Rightarrow>
     (if ws_active_window_id ipc_ws \<noteq> wv_active_window ws
      then [WorkspaceActiveWindowChanged (wv_id ws) (wv_active_window ws)] else []) @
     (if wv_is_urgent ws \<noteq> ws_is_urgent ipc_ws
      then [WorkspaceUrgencyChanged (wv_id ws) (wv_is_urgent ws)] else []) @
     (if Some (wv_id ws) = focused_ws_id \<and> \<not> ws_is_focused ipc_ws
      then [WorkspaceActivated (wv_id ws) True]
      else if item_is_active item \<and> \<not> ws_is_active ipc_ws
      then [WorkspaceActivated (wv_id ws) False] else []))"

text \<open>The loop over the workspaces: the events so far, the ids seen, and whether it broke off
  because everything has to be sent anew.\<close>

fun workspaces_loop ::
  "(u64, workspace) hash_map \<Rightarrow> u64 option \<Rightarrow> workspace_item list \<Rightarrow> event list \<Rightarrow> u64 set \<Rightarrow>
   event list \<times> u64 set \<times> bool" where
  "workspaces_loop m focused_ws_id [] events seen = (events, seen, False)"
| "workspaces_loop m focused_ws_id (item # items) events seen =
     (let i = wv_id (snd (snd item)); seen = insert i seen
      in case hm_get m i of
           None \<Rightarrow> (events, seen, True)
         | Some ipc_ws \<Rightarrow>
             if needs_full_update ipc_ws item then (events, seen, True)
             else workspaces_loop m focused_ws_id items
                    (events @ workspace_events focused_ws_id ipc_ws item) seen)"

definition workspaces_diff ::
  "(u64, workspace) hash_map \<Rightarrow> u64 option \<Rightarrow> workspace_item list \<Rightarrow> event list" where
  "workspaces_diff m focused_ws_id items =
     (let (events, seen, need) = workspaces_loop m focused_ws_id items [] {};
          need = (need \<or> list_ex (\<lambda>i. i \<notin> seen) (hm_keys m))
      in if need then [WorkspacesChanged (map (make_ipc_workspace focused_ws_id) items)]
         else events)"

definition ipc_refresh_workspaces ::
  "'tx try_send \<Rightarrow> u64 option \<Rightarrow> workspace_item list \<Rightarrow> ('tx, 'dx) ipc_server \<Rightarrow>
   ('tx, 'dx) ipc_server res" where
  "ipc_refresh_workspaces try_send focused_ws_id items server =
     emit_all try_send on_workspaces server
       (workspaces_diff (wss_workspaces (ess_workspaces (srv_event_stream_state server)))
          focused_ws_id items)"

subsection \<open>Windows\<close>

record mapped_view =
  mp_id :: u64
  mp_title :: "string option"
  mp_app_id :: "string option"
  mp_pid :: "i32 option"
  mp_is_focused :: bool
  mp_is_floating :: bool
  mp_is_urgent :: bool
  mp_focus_timestamp :: "duration option"

text \<open>What \<open>layout.with_windows\<close> passes to its closure.\<close>

type_synonym window_item = "mapped_view \<times> u64 option \<times> window_layout"

definition make_ipc_window :: "window_item \<Rightarrow> window" where
  "make_ipc_window item = (case item of (mapped, workspace_id, layout) \<Rightarrow>
     \<lparr>win_id = mp_id mapped, win_title = mp_title mapped, win_app_id = mp_app_id mapped,
      win_pid = mp_pid mapped, win_workspace_id = workspace_id,
      win_is_focused = mp_is_focused mapped, win_is_floating = mp_is_floating mapped,
      win_is_urgent = mp_is_urgent mapped, win_layout = layout,
      win_focus_timestamp = map_option timestamp_from_duration (mp_focus_timestamp mapped)\<rparr>)"

definition window_changed :: "window \<Rightarrow> window_item \<Rightarrow> bool" where
  "window_changed ipc_win item = (case item of (mapped, workspace_id, layout) \<Rightarrow>
     win_workspace_id ipc_win \<noteq> workspace_id \<or> win_is_floating ipc_win \<noteq> mp_is_floating mapped \<or>
     win_title ipc_win \<noteq> mp_title mapped \<or> win_app_id ipc_win \<noteq> mp_app_id mapped)"

text \<open>The closure passed to \<open>with_windows\<close>: the events of one window, and its layout change
  for the batch.\<close>

definition window_events ::
  "(u64, window) hash_map \<Rightarrow> window_item \<Rightarrow> event list \<times> (u64 \<times> window_layout) list" where
  "window_events m item = (case item of (mapped, workspace_id, layout) \<Rightarrow>
     (case hm_get m (mp_id mapped) of
        None \<Rightarrow> ([WindowOpenedOrChanged (make_ipc_window item)], [])
      | Some ipc_win \<Rightarrow>
          if window_changed ipc_win item
          then ([WindowOpenedOrChanged (make_ipc_window item)], [])
          else
            ((if mp_is_focused mapped \<and> \<not> win_is_focused ipc_win
              then [WindowFocusChanged (Some (mp_id mapped))] else []) @
             (if map_option timestamp_from_duration (mp_focus_timestamp mapped)
                 \<noteq> win_focus_timestamp ipc_win
              then [WindowFocusTimestampChanged (mp_id mapped)
                      (map_option timestamp_from_duration (mp_focus_timestamp mapped))] else []) @
             (if mp_is_urgent mapped \<noteq> win_is_urgent ipc_win
              then [WindowUrgencyChanged (mp_id mapped) (mp_is_urgent mapped)] else []),
             (if win_layout ipc_win \<noteq> layout then [(mp_id mapped, layout)] else []))))"

definition windows_diff :: "(u64, window) hash_map \<Rightarrow> window_item list \<Rightarrow> event list" where
  "windows_diff m items =
     (let events = concat (map (\<lambda>item. fst (window_events m item)) items);
          batch = concat (map (\<lambda>item. snd (window_events m item)) items);
          seen = set (map (\<lambda>item. mp_id (fst item)) items);
          any_focused = list_ex (\<lambda>item. mp_is_focused (fst item)) items;
          ipc_any_focused = list_ex win_is_focused (hm_values m)
      in events @
         (if batch \<noteq> [] then [WindowLayoutsChanged batch] else []) @
         map WindowClosed (filter (\<lambda>i. i \<notin> seen) (hm_keys m)) @
         (if \<not> any_focused \<and> ipc_any_focused then [WindowFocusChanged None] else []))"

definition ipc_refresh_windows ::
  "'tx try_send \<Rightarrow> window_item list \<Rightarrow> ('tx, 'dx) ipc_server \<Rightarrow> ('tx, 'dx) ipc_server res" where
  "ipc_refresh_windows try_send items server =
     emit_all try_send on_windows server
       (windows_diff (wis_windows (ess_windows (srv_event_stream_state server))) items)"

subsection \<open>The other refreshes\<close>

definition ipc_keyboard_layouts_changed ::
  "'tx try_send \<Rightarrow> string list \<Rightarrow> nat \<Rightarrow> ('tx, 'dx) ipc_server \<Rightarrow> ('tx, 'dx) ipc_server res" where
  "ipc_keyboard_layouts_changed try_send names active_layout server =
     emit try_send on_keyboard_layouts server
       (KeyboardLayoutsChanged \<lparr>kl_names = names, kl_current_idx = of_nat active_layout\<rparr>)"

definition ipc_refresh_keyboard_layout_index ::
  "'tx try_send \<Rightarrow> nat \<Rightarrow> ('tx, 'dx) ipc_server \<Rightarrow> ('tx, 'dx) ipc_server res" where
  "ipc_refresh_keyboard_layout_index try_send active_layout server =
     bind_res (unwrap (kls_keyboard_layouts (ess_keyboard_layouts (srv_event_stream_state server))))
       (\<lambda>layouts. if kl_current_idx layouts = of_nat active_layout then Inr server
          else emit try_send on_keyboard_layouts server (KeyboardLayoutSwitched (of_nat active_layout)))"

definition ipc_refresh_overview ::
  "'tx try_send \<Rightarrow> bool \<Rightarrow> ('tx, 'dx) ipc_server \<Rightarrow> ('tx, 'dx) ipc_server res" where
  "ipc_refresh_overview try_send is_open server =
     (if ovs_is_open (ess_overview (srv_event_stream_state server)) = is_open then Inr server
      else emit try_send on_overview server (OverviewOpenedOrClosed is_open))"

definition ipc_config_loaded ::
  "'tx try_send \<Rightarrow> bool \<Rightarrow> ('tx, 'dx) ipc_server \<Rightarrow> ('tx, 'dx) ipc_server res" where
  "ipc_config_loaded try_send failed server =
     emit try_send event_stream_apply server (ConfigLoaded failed)"

definition ipc_screenshot_taken ::
  "'tx try_send \<Rightarrow> string option \<Rightarrow> ('tx, 'dx) ipc_server \<Rightarrow> ('tx, 'dx) ipc_server res" where
  "ipc_screenshot_taken try_send path server =
     emit try_send event_stream_apply server (ScreenshotCaptured path)"

definition ipc_refresh_layout ::
  "'tx try_send \<Rightarrow> u64 option \<Rightarrow> workspace_item list \<Rightarrow> window_item list \<Rightarrow> bool \<Rightarrow>
   ('tx, 'dx) ipc_server \<Rightarrow> ('tx, 'dx) ipc_server res" where
  "ipc_refresh_layout try_send focused_ws_id ws_items win_items is_open server =
     bind_res (ipc_refresh_workspaces try_send focused_ws_id ws_items server) (\<lambda>server.
     bind_res (ipc_refresh_windows try_send win_items server) (\<lambda>server.
       ipc_refresh_overview try_send is_open server))"

end
