(* ===== verification/Ipc_Server_Send.thy ===== *)
theory Ipc_Server_Send
  imports Ipc_Server "HOL-Library.Multiset"
begin

text \<open>
  Correctness of \<open>send_event\<close>: the loop that removes failed streams by \<open>swap_remove\<close>, from the
  highest index down, removes exactly the streams whose \<open>try_send\<close> failed and never indexes out
  of range.
\<close>

abbreviation send_ok :: "'tx try_send \<Rightarrow> event \<Rightarrow> ('tx, 'dx) event_stream_sender \<Rightarrow> bool" where
  "send_ok try_send event stream \<equiv> fst (try_send (snd_events stream) event) = SendOk"

abbreviation after_send ::
  "'tx try_send \<Rightarrow> event \<Rightarrow> ('tx, 'dx) event_stream_sender \<Rightarrow> ('tx, 'dx) event_stream_sender" where
  "after_send try_send event stream \<equiv>
     stream\<lparr>snd_events := snd (try_send (snd_events stream) event)\<rparr>"

lemma send_loop_streams: "fst (send_loop ts e i ss) = map (after_send ts e) ss"
  by (induction ss arbitrary: i) (auto simp: Let_def split_def)

lemma send_loop_to_remove:
  "snd (send_loop ts e i ss) = map ((+) i) (filter (\<lambda>j. \<not> send_ok ts e (ss ! j)) [0..<length ss])"
proof (induction ss arbitrary: i)
  case (Cons s ss)
  have "[0..<length (s # ss)] = 0 # map Suc [0..<length ss]"
    by (simp add: map_Suc_upt upt_conv_Cons del: upt_Suc)
  then show ?case
    by (simp add: Cons Let_def split_def filter_map comp_def del: upt_Suc)
qed simp

lemma filter_nth_conv: "map ((!) xs) (filter (\<lambda>j. P (xs ! j)) [0..<length xs]) = filter P xs"
proof -
  have "filter P (map ((!) xs) [0..<length xs]) = map ((!) xs) (filter (\<lambda>j. P (xs ! j)) [0..<length xs])"
    by (simp add: filter_map comp_def)
  then show ?thesis by (simp add: map_nth)
qed

lemma vec_swap_remove_Inr:
  assumes "k < length xs"
  obtains ys where "vec_swap_remove k xs = Inr (xs ! k, ys)"
    and "mset xs = add_mset (xs ! k) (mset ys)"
    and "\<And>j. j < k \<Longrightarrow> j < length ys \<and> ys ! j = xs ! j"
proof -
  define ys where "ys = butlast (xs[k := last xs])"
  have ne: "xs \<noteq> []" using assms by auto
  have upd: "mset (xs[k := last xs]) = add_mset (last xs) (mset xs - {#xs ! k#})"
    using assms by (simp add: mset_update)
  have l: "xs[k := last xs] \<noteq> []" "last (xs[k := last xs]) = last xs"
    using assms ne by (auto simp: last_list_update)
  have "mset (xs[k := last xs]) = add_mset (last xs) (mset ys)"
    unfolding ys_def using l
    by (metis append_butlast_last_id mset.simps(1) mset.simps(2) mset_append add_mset_add_single)
  with upd have "mset ys = mset xs - {#xs ! k#}" by simp
  then have "mset xs = add_mset (xs ! k) (mset ys)"
    using assms by simp
  moreover have "j < k \<Longrightarrow> j < length ys \<and> ys ! j = xs ! j" for j
    using assms by (auto simp: ys_def nth_butlast)
  moreover have "vec_swap_remove k xs = Inr (xs ! k, ys)"
    using assms by (simp add: vec_swap_remove_def ys_def)
  ultimately show thesis by (rule that [rotated 1])
qed

lemma remove_loop_descending:
  "sorted_wrt (<) is \<Longrightarrow> list_all (\<lambda>i. i < length xs) is \<Longrightarrow>
   \<exists>ys. remove_loop (rev is) xs d = Inr (ys, d @ map (\<lambda>i. snd_disconnect (xs ! i)) (rev is)) \<and>
        mset xs = mset ys + mset (map ((!) xs) is)"
proof (induction "is" arbitrary: xs d rule: rev_induct)
  case Nil
  then show ?case by simp
next
  case (snoc k "is")
  from snoc.prems have k: "k < length xs" and below: "\<And>i. i \<in> set is \<Longrightarrow> i < k"
    by (auto simp: sorted_wrt_append)
  obtain ys where ys: "vec_swap_remove k xs = Inr (xs ! k, ys)"
    "mset xs = add_mset (xs ! k) (mset ys)" "\<And>j. j < k \<Longrightarrow> j < length ys \<and> ys ! j = xs ! j"
    using vec_swap_remove_Inr [OF k] by blast
  have "list_all (\<lambda>i. i < length ys) is" using below ys(3) by (auto simp: list_all_iff)
  with snoc.IH [of ys "d @ [snd_disconnect (xs ! k)]"] snoc.prems obtain zs where
    zs: "remove_loop (rev is) ys (d @ [snd_disconnect (xs ! k)]) =
      Inr (zs, (d @ [snd_disconnect (xs ! k)]) @ map (\<lambda>i. snd_disconnect (ys ! i)) (rev is))"
    "mset ys = mset zs + mset (map ((!) ys) is)"
    by (auto simp: sorted_wrt_append)
  have same: "map ((!) ys) is = map ((!) xs) is"
    "map (\<lambda>i. snd_disconnect (ys ! i)) (rev is) = map (\<lambda>i. snd_disconnect (xs ! i)) (rev is)"
    using below ys(3) by (auto intro: map_cong)
  from zs ys(1,2) same show ?case by auto
qed

lemma send_event_spec:
  "\<exists>kept. send_event ts e ss =
       Inr (kept, rev (map snd_disconnect (filter (\<lambda>s. \<not> send_ok ts e s) ss))) \<and>
     mset kept = mset (map (after_send ts e) (filter (send_ok ts e) ss))"
proof -
  let ?xs = "map (after_send ts e) ss"
  let ?is = "filter (\<lambda>j. \<not> send_ok ts e (ss ! j)) [0..<length ss]"
  have loop: "send_loop ts e 0 ss = (?xs, ?is)"
    using send_loop_streams [of ts e 0 ss] send_loop_to_remove [of ts e 0 ss]
    by (simp add: prod_eq_iff map_idI)
  have sorted: "sorted_wrt (<) ?is" by (simp add: sorted_wrt_filter)
  have lt: "list_all (\<lambda>i. i < length ?xs) ?is" by (simp add: list_all_iff)
  obtain ys where ys: "remove_loop (rev ?is) ?xs [] =
      Inr (ys, map (\<lambda>i. snd_disconnect (?xs ! i)) (rev ?is))"
    "mset ?xs = mset ys + mset (map ((!) ?xs) ?is)"
    using remove_loop_descending [OF sorted lt, of "[]"] by auto
  have nth: "map ((!) ?xs) ?is = map (after_send ts e) (filter (\<lambda>s. \<not> send_ok ts e s) ss)"
    by (simp flip: filter_nth_conv [of ss])
  have disc: "map (\<lambda>i. snd_disconnect (?xs ! i)) (rev ?is) =
      rev (map snd_disconnect (filter (\<lambda>s. \<not> send_ok ts e s) ss))"
    by (simp add: rev_map flip: filter_nth_conv [of ss])
  have "mset ?xs = mset (map (after_send ts e) (filter (send_ok ts e) ss)) +
      mset (map (after_send ts e) (filter (\<lambda>s. \<not> send_ok ts e s) ss))"
    by (simp flip: image_mset_union)
  with ys nth disc loop show ?thesis by (auto simp: send_event_def)
qed

end
