(* ===== verification/Ipc_Server_Sync.thy ===== *)
theory Ipc_Server_Sync
  imports Ipc_Server
begin

text \<open>
  The refreshes of \<^verbatim>\<open>src/ipc/server.rs\<close> synchronise: applying the emitted difference to the last
  state sent gives exactly the state of the layout, without hitting any of the \<open>expect\<close>s of
  \<open>apply\<close>.
\<close>

subsection \<open>Workspaces\<close>

abbreviation item_id :: "workspace_item \<Rightarrow> u64" where
  "item_id item \<equiv> wv_id (snd (snd item))"

abbreviation item_output :: "workspace_item \<Rightarrow> string option" where
  "item_output item \<equiv> map_option mv_output_name (fst item)"

text \<open>
  What the layout guarantees of \<open>workspaces()\<close> and \<open>active_workspace()\<close>: ids are unique, every
  output with workspaces has exactly one active among them, and while there is an output, the
  focused workspace is one of the active ones.
\<close>

definition items_ok :: "u64 option \<Rightarrow> workspace_item list \<Rightarrow> bool" where
  "items_ok focused items \<longleftrightarrow>
     distinct (map item_id items) \<and>
     (\<forall>x \<in> set items. \<forall>y \<in> set items.
        item_is_active x \<and> item_is_active y \<and> item_output x = item_output y \<longrightarrow> item_id x = item_id y) \<and>
     (\<forall>x \<in> set items. fst x \<noteq> None \<longrightarrow>
        (\<exists>y \<in> set items. item_output y = item_output x \<and> item_is_active y)) \<and>
     (\<forall>x \<in> set items. Some (item_id x) = focused \<longrightarrow> item_is_active x) \<and>
     ((\<exists>x \<in> set items. fst x \<noteq> None) \<longrightarrow> (\<exists>x \<in> set items. Some (item_id x) = focused))"

text \<open>The matching shape of the state sent so far.\<close>

definition ws_map_ok :: "(u64, workspace) hash_map \<Rightarrow> bool" where
  "ws_map_ok m \<longleftrightarrow> hm_inv m \<and> hm_keyed ws_id m \<and>
     (\<forall>i v j w. hm_get m i = Some v \<and> hm_get m j = Some w \<and> ws_is_active v \<and> ws_is_active w \<and>
        ws_output v = ws_output w \<longrightarrow> i = j) \<and>
     (\<forall>i v j w. hm_get m i = Some v \<and> hm_get m j = Some w \<and> ws_is_focused v \<and> ws_is_focused w
        \<longrightarrow> i = j) \<and>
     (\<forall>i v. hm_get m i = Some v \<longrightarrow> (ws_is_focused v \<longrightarrow> ws_is_active v) \<and>
        (ws_is_active v \<longrightarrow> ws_output v \<noteq> None))"

lemma items_okD:
  assumes "items_ok focused items"
  shows "distinct (map item_id items)"
    and "\<And>x y. x \<in> set items \<Longrightarrow> y \<in> set items \<Longrightarrow> item_is_active x \<Longrightarrow> item_is_active y \<Longrightarrow>
      item_output x = item_output y \<Longrightarrow> item_id x = item_id y"
    and "\<And>x. x \<in> set items \<Longrightarrow> fst x \<noteq> None \<Longrightarrow>
      \<exists>y \<in> set items. item_output y = item_output x \<and> item_is_active y"
    and "\<And>x. x \<in> set items \<Longrightarrow> Some (item_id x) = focused \<Longrightarrow> item_is_active x"
    and "\<And>x. x \<in> set items \<Longrightarrow> fst x \<noteq> None \<Longrightarrow> \<exists>y \<in> set items. Some (item_id y) = focused"
  using assms unfolding items_ok_def by blast+

lemma ws_map_okD:
  assumes "ws_map_ok m"
  shows "hm_inv m" "hm_keyed ws_id m"
    and "\<And>i v j w. hm_get m i = Some v \<Longrightarrow> hm_get m j = Some w \<Longrightarrow> ws_is_active v \<Longrightarrow>
      ws_is_active w \<Longrightarrow> ws_output v = ws_output w \<Longrightarrow> i = j"
    and "\<And>i v j w. hm_get m i = Some v \<Longrightarrow> hm_get m j = Some w \<Longrightarrow> ws_is_focused v \<Longrightarrow>
      ws_is_focused w \<Longrightarrow> i = j"
    and "\<And>i v. hm_get m i = Some v \<Longrightarrow> ws_is_focused v \<Longrightarrow> ws_is_active v"
    and "\<And>i v. hm_get m i = Some v \<Longrightarrow> ws_is_active v \<Longrightarrow> ws_output v \<noteq> None"
  using assms unfolding ws_map_ok_def by blast+

text \<open>The state of the layout, as the client should see it.\<close>

definition layout_workspaces :: "u64 option \<Rightarrow> workspace_item list \<Rightarrow> u64 \<rightharpoonup> workspace" where
  "layout_workspaces focused items =
     map_of (map (\<lambda>x. (item_id x, make_ipc_workspace focused x)) items)"

lemma layout_workspaces_Some:
  "items_ok focused items \<Longrightarrow> layout_workspaces focused items k = Some v \<longleftrightarrow>
     (\<exists>x \<in> set items. item_id x = k \<and> make_ipc_workspace focused x = v)"
  unfolding layout_workspaces_def by (rule map_of_distinct_Some) (simp add: items_ok_def)

lemma item_is_active_output: "item_is_active x \<Longrightarrow> fst x \<noteq> None"
  by (auto simp: item_is_active_def split: prod.splits option.splits)

lemma make_ipc_workspace_simps [simp]:
  "ws_id (make_ipc_workspace f x) = item_id x"
  "ws_output (make_ipc_workspace f x) = item_output x"
  "ws_is_active (make_ipc_workspace f x) = item_is_active x"
  "ws_is_focused (make_ipc_workspace f x) = (Some (item_id x) = f)"
  by (auto simp: make_ipc_workspace_def split: prod.splits)

lemma layout_workspaces_ok:
  assumes ok: "items_ok f items" and "hm_inv m" "map_of m = layout_workspaces f items"
  shows "ws_map_ok m"
proof -
  have get: "hm_get m k = Some v \<longleftrightarrow> (\<exists>x \<in> set items. item_id x = k \<and> make_ipc_workspace f x = v)"
    for k v using layout_workspaces_Some [OF ok] assms(3) by simp
  have "hm_keyed ws_id m"
    unfolding hm_keyed_def using assms(2) get by (fastforce simp: hm_inv_def)
  moreover have "i = j" if "hm_get m i = Some v" "hm_get m j = Some w" "ws_is_active v"
    "ws_is_active w" "ws_output v = ws_output w" for i v j w
  proof -
    from that(1,2) obtain x y where "x \<in> set items" "item_id x = i" "make_ipc_workspace f x = v"
      "y \<in> set items" "item_id y = j" "make_ipc_workspace f y = w"
      unfolding get by blast
    then show ?thesis using items_okD(2) [OF ok, of x y] that(3-5) by auto
  qed
  moreover have "i = j" if "hm_get m i = Some v" "hm_get m j = Some w" "ws_is_focused v"
    "ws_is_focused w" for i v j w
    using that by (auto simp: get)
  moreover have "ws_is_active v" if "hm_get m k = Some v" "ws_is_focused v" for k v
    using that items_okD(4) [OF ok] by (auto simp: get)
  moreover have "ws_output v \<noteq> None" if "hm_get m k = Some v" "ws_is_active v" for k v
    using that item_is_active_output by (auto simp: get)
  ultimately show ?thesis
    using assms(2) unfolding ws_map_ok_def by blast
qed

text \<open>The effect of an individual event on one entry, \<open>out\<close> giving the output of each id.\<close>

fun ws_effect :: "(u64 \<Rightarrow> string option) \<Rightarrow> event \<Rightarrow> workspace \<Rightarrow> workspace" where
  "ws_effect out (WorkspaceUrgencyChanged i u) ws = ws_set_urgent i u ws"
| "ws_effect out (WorkspaceActivated i b) ws = ws_got_activated i b (out i) ws"
| "ws_effect out (WorkspaceActiveWindowChanged i a) ws =
     (if ws_id ws = i then ws\<lparr>ws_active_window_id := a\<rparr> else ws)"
| "ws_effect out _ ws = ws"

fun ws_event_id :: "event \<Rightarrow> u64 option" where
  "ws_event_id (WorkspaceUrgencyChanged i u) = Some i"
| "ws_event_id (WorkspaceActivated i b) = Some i"
| "ws_event_id (WorkspaceActiveWindowChanged i a) = Some i"
| "ws_event_id _ = None"

lemma ws_effect_static [simp]:
  "ws_id (ws_effect out e ws) = ws_id ws" "ws_output (ws_effect out e ws) = ws_output ws"
  "ws_idx (ws_effect out e ws) = ws_idx ws" "ws_name (ws_effect out e ws) = ws_name ws"
  by (cases e; simp add: ws_set_urgent_def ws_got_activated_def Let_def)+

lemma apply_ws_effect:
  assumes "ipc_workspaces_inv s" "ws_event_id e = Some i" "hm_get (wss_workspaces s) i = Some w"
    "out i = ws_output w"
  shows "\<exists>s'. workspaces_apply s e = Inr (s', None) \<and>
     (\<forall>k. hm_get (wss_workspaces s') k = map_option (ws_effect out e) (hm_get (wss_workspaces s) k))"
proof -
  have key: "hm_get (wss_workspaces s) k = Some v \<Longrightarrow> ws_id v = k" for k v
    using assms(1) by (auto simp: ipc_workspaces_inv_def dest: hm_keyedD)
  show ?thesis
  proof (cases e)
    case (WorkspaceUrgencyChanged j u)
    then show ?thesis by (auto simp: hm_simps intro!: option.map_cong)
  next
    case (WorkspaceActivated j b)
    with assms(2-4) show ?thesis by (auto simp: hm_simps intro!: option.map_cong)
  next
    case (WorkspaceActiveWindowChanged j a)
    with assms(2,3) key show ?thesis
      by (auto simp: hm_simps map_option_case split: option.splits)
  qed (use assms(2) in auto)
qed

lemma run_ws_effects:
  assumes "ipc_workspaces_inv s"
    and "\<And>e. e \<in> set es \<Longrightarrow> \<exists>i w. ws_event_id e = Some i \<and> hm_get (wss_workspaces s) i = Some w"
    and "\<And>i w. hm_get (wss_workspaces s) i = Some w \<Longrightarrow> out i = ws_output w"
  shows "\<exists>s'. run_events workspaces_apply s es = Inr s' \<and> ipc_workspaces_inv s' \<and>
     (\<forall>k. hm_get (wss_workspaces s') k =
        map_option (fold (ws_effect out) es) (hm_get (wss_workspaces s) k))"
  using assms
proof (induction es arbitrary: s)
  case Nil
  then show ?case by (simp add: option.map_ident)
next
  case (Cons e es)
  obtain i w where i: "ws_event_id e = Some i" "hm_get (wss_workspaces s) i = Some w"
    using Cons.prems(2) [of e] by auto
  from apply_ws_effect [OF Cons.prems(1) i, of out] Cons.prems(3) i(2) obtain s1 where
    s1: "workspaces_apply s e = Inr (s1, None)"
    "\<And>k. hm_get (wss_workspaces s1) k = map_option (ws_effect out e) (hm_get (wss_workspaces s) k)"
    by auto
  have "\<exists>s'. run_events workspaces_apply s1 es = Inr s' \<and> ipc_workspaces_inv s' \<and>
     (\<forall>k. hm_get (wss_workspaces s') k =
        map_option (fold (ws_effect out) es) (hm_get (wss_workspaces s1) k))"
  proof (rule Cons.IH)
    show "ipc_workspaces_inv s1" using workspaces_apply_inv [OF Cons.prems(1) s1(1)] .
    show "\<exists>i w. ws_event_id e' = Some i \<and> hm_get (wss_workspaces s1) i = Some w"
      if "e' \<in> set es" for e'
      using Cons.prems(2) [of e'] that s1(2) by auto
    show "out j = ws_output v" if "hm_get (wss_workspaces s1) j = Some v" for j v
      using that s1(2) Cons.prems(3) by auto
  qed
  with s1 show ?case by (auto simp: option.map_comp comp_def)
qed

text \<open>What the loop computes when it does not break off.\<close>

lemma workspaces_loop_complete:
  "workspaces_loop m f items ev seen = (ev', seen', False) \<Longrightarrow>
   (\<forall>x \<in> set items. \<exists>w. hm_get m (item_id x) = Some w \<and> \<not> needs_full_update w x) \<and>
   ev' = ev @ concat (map (\<lambda>x. workspace_events f (the (hm_get m (item_id x))) x) items) \<and>
   seen' = seen \<union> item_id ` set items"
  by (induction m f items ev seen rule: workspaces_loop.induct)
    (auto simp: Let_def split: option.splits if_splits)

text \<open>Which individual events one workspace can cause.\<close>

lemma workspace_events_cases:
  assumes "e \<in> set (workspace_events f w x)"
  obtains (window) "e = WorkspaceActiveWindowChanged (item_id x) (wv_active_window (snd (snd x)))"
    | (urgent) "e = WorkspaceUrgencyChanged (item_id x) (wv_is_urgent (snd (snd x)))"
    | (focus) "e = WorkspaceActivated (item_id x) True" "Some (item_id x) = f"
    | (active) "e = WorkspaceActivated (item_id x) False" "item_is_active x"
  using assms by (auto simp: workspace_events_def split: prod.splits if_splits)

lemma workspace_events_mem:
  "ws_active_window_id w \<noteq> wv_active_window (snd (snd x)) \<Longrightarrow>
     WorkspaceActiveWindowChanged (item_id x) (wv_active_window (snd (snd x))) \<in> set (workspace_events f w x)"
  "ws_is_urgent w \<noteq> wv_is_urgent (snd (snd x)) \<Longrightarrow>
     WorkspaceUrgencyChanged (item_id x) (wv_is_urgent (snd (snd x))) \<in> set (workspace_events f w x)"
  "Some (item_id x) = f \<Longrightarrow> \<not> ws_is_focused w \<Longrightarrow>
     WorkspaceActivated (item_id x) True \<in> set (workspace_events f w x)"
  "item_is_active x \<Longrightarrow> \<not> ws_is_active w \<Longrightarrow>
     \<exists>b. WorkspaceActivated (item_id x) b \<in> set (workspace_events f w x)"
  by (cases x rule: prod_cases3; auto simp: workspace_events_def)+

text \<open>
  The core of the synchronisation: with the same workspaces on both sides, the individual events
  turn the entry of each workspace into what the layout says. Each of the four mutable fields is
  only ever set to its value in the layout, and is set by some event if it differs.
\<close>

definition same_workspaces :: "(u64, workspace) hash_map \<Rightarrow> u64 option \<Rightarrow> workspace_item list \<Rightarrow> bool" where
  "same_workspaces m f items \<longleftrightarrow> ws_map_ok m \<and> items_ok f items \<and>
     (\<forall>y \<in> set items. \<exists>w. hm_get m (item_id y) = Some w \<and> \<not> needs_full_update w y)"

definition individual_events ::
  "(u64, workspace) hash_map \<Rightarrow> u64 option \<Rightarrow> workspace_item list \<Rightarrow> event list" where
  "individual_events m f items =
     concat (map (\<lambda>y. workspace_events f (the (hm_get m (item_id y))) y) items)"

text \<open>The fields the individual events do not touch, as the layout has them.\<close>

definition static_ok :: "workspace_item \<Rightarrow> workspace \<Rightarrow> bool" where
  "static_ok x ws \<longleftrightarrow> ws_id ws = item_id x \<and> ws_output ws = item_output x \<and>
     ws_idx ws = u8_or_max (fst (snd x) + 1) \<and> ws_name ws = wv_name (snd (snd x))"

lemma static_ok_effect [simp]: "static_ok x (ws_effect out e ws) = static_ok x ws"
  by (simp add: static_ok_def)

lemma same_workspacesD:
  assumes "same_workspaces m f items"
  shows "ws_map_ok m" "items_ok f items"
    and "\<And>y. y \<in> set items \<Longrightarrow> \<exists>v. hm_get m (item_id y) = Some v \<and> static_ok y v"
proof -
  show "ws_map_ok m" "items_ok f items" using assms by (auto simp: same_workspaces_def)
  show "\<exists>v. hm_get m (item_id y) = Some v \<and> static_ok y v" if "y \<in> set items" for y
  proof -
    obtain v where v: "hm_get m (item_id y) = Some v" "\<not> needs_full_update v y"
      using assms \<open>y \<in> set items\<close> by (auto simp: same_workspaces_def)
    then have "static_ok y v"
      using hm_keyedD [OF ws_map_okD(2) [OF \<open>ws_map_ok m\<close>] v(1)]
      by (cases y rule: prod_cases3) (auto simp: needs_full_update_def static_ok_def)
    with v(1) show ?thesis by blast
  qed
qed

lemma individual_events_from:
  "e \<in> set (individual_events m f items) \<Longrightarrow>
   \<exists>y \<in> set items. e \<in> set (workspace_events f (the (hm_get m (item_id y))) y)"
  by (auto simp: individual_events_def)

lemma individual_events_emitted:
  "y \<in> set items \<Longrightarrow> hm_get m (item_id y) = Some v \<Longrightarrow> e \<in> set (workspace_events f v y) \<Longrightarrow>
   e \<in> set (individual_events m f items)"
  by (force simp: individual_events_def)

lemma item_eq:
  "items_ok f items \<Longrightarrow> x \<in> set items \<Longrightarrow> y \<in> set items \<Longrightarrow> item_id y = item_id x \<Longrightarrow> y = x"
  using items_okD(1) [of f items] by (auto simp: distinct_map inj_on_def)

lemma set_urgent_fields:
  "ws_is_urgent (ws_set_urgent i u ws) = (if ws_id ws = i then u else ws_is_urgent ws)"
  "ws_is_active (ws_set_urgent i u ws) = ws_is_active ws"
  "ws_is_focused (ws_set_urgent i u ws) = ws_is_focused ws"
  "ws_active_window_id (ws_set_urgent i u ws) = ws_active_window_id ws"
  by (simp_all add: ws_set_urgent_def)

lemma got_activated_fields:
  "ws_is_urgent (ws_got_activated i b out ws) = ws_is_urgent ws"
  "ws_is_active (ws_got_activated i b out ws) =
     (if ws_output ws = out then ws_id ws = i else ws_is_active ws)"
  "ws_is_focused (ws_got_activated i b out ws) = (if b then ws_id ws = i else ws_is_focused ws)"
  "ws_active_window_id (ws_got_activated i b out ws) = ws_active_window_id ws"
  by (simp_all add: ws_got_activated_def Let_def)

lemmas ws_effect_defs = set_urgent_fields got_activated_fields

lemma settle_window:
  assumes "same_workspaces m f items" "x \<in> set items" "hm_get m (item_id x) = Some w" "static_ok x w"
  shows "ws_active_window_id (fold (ws_effect out) (individual_events m f items) w) =
    wv_active_window (snd (snd x))"
proof (rule conjunct2 [OF fold_settles [where P = "static_ok x"]], goal_cases)
  case (2 e ws)
  then show ?case
    using individual_events_from [of e m f items] item_eq [OF same_workspacesD(2) [OF assms(1)] assms(2)]
    by (auto elim!: workspace_events_cases simp: ws_effect_defs static_ok_def split: if_splits)
next
  case 3
  then show ?case
    using individual_events_emitted [OF assms(2,3)] workspace_events_mem(1) [of w x f]
    by (force simp: static_ok_def)
qed (rule assms(4))

lemma settle_urgent:
  assumes "same_workspaces m f items" "x \<in> set items" "hm_get m (item_id x) = Some w" "static_ok x w"
  shows "ws_is_urgent (fold (ws_effect out) (individual_events m f items) w) =
    wv_is_urgent (snd (snd x))"
proof (rule conjunct2 [OF fold_settles [where P = "static_ok x"]], goal_cases)
  case (2 e ws)
  then show ?case
    using individual_events_from [of e m f items] item_eq [OF same_workspacesD(2) [OF assms(1)] assms(2)]
    by (auto elim!: workspace_events_cases simp: ws_effect_defs static_ok_def split: if_splits)
next
  case 3
  then show ?case
    using individual_events_emitted [OF assms(2,3)] workspace_events_mem(2) [of w x f]
    by (force simp: static_ok_def ws_effect_defs)
qed (rule assms(4))

text \<open>If the focus is wrong, the workspace that is focused in the layout announces itself.\<close>

lemma focus_announced:
  assumes sw: "same_workspaces m f items" and x: "x \<in> set items" and w: "hm_get m (item_id x) = Some w"
    and st: "static_ok x w" and neq: "ws_is_focused w \<noteq> (Some (item_id x) = f)"
  shows "\<exists>y \<in> set items. WorkspaceActivated (item_id y) True \<in> set (individual_events m f items) \<and>
    Some (item_id y) = f"
proof (cases "Some (item_id x) = f")
  case True
  with neq show ?thesis
    using workspace_events_mem(3) [of x f w] individual_events_emitted [OF x w] x by blast
next
  case False
  note m = same_workspacesD(1) [OF sw] and ok = same_workspacesD(2) [OF sw]
  from False neq have foc: "ws_is_focused w" by simp
  then have "item_output x \<noteq> None" using ws_map_okD(5,6) [OF m w] st by (simp add: static_ok_def)
  then obtain y where y: "y \<in> set items" "Some (item_id y) = f"
    using items_okD(5) [OF ok x] by auto
  obtain v where v: "hm_get m (item_id y) = Some v" using same_workspacesD(3) [OF sw y(1)] by blast
  have "\<not> ws_is_focused v" using ws_map_okD(4) [OF m w v foc] y(2) False by auto
  then show ?thesis
    using workspace_events_mem(3) [OF y(2)] individual_events_emitted [OF y(1) v] y by blast
qed

lemma settle_focused:
  assumes "same_workspaces m f items" "x \<in> set items" "hm_get m (item_id x) = Some w" "static_ok x w"
  shows "ws_is_focused (fold (ws_effect out) (individual_events m f items) w) = (Some (item_id x) = f)"
proof (rule conjunct2 [OF fold_settles [where P = "static_ok x"]], goal_cases)
  case (2 e ws)
  then show ?case
    using individual_events_from [of e m f items]
    by (auto elim!: workspace_events_cases simp: ws_effect_defs static_ok_def split: if_splits)
next
  case 3
  then show ?case using focus_announced [OF assms] by (force simp: ws_effect_defs static_ok_def)
qed (rule assms(4))

lemma only_active:
  assumes "items_ok f items" "x \<in> set items" "y \<in> set items" "item_is_active y"
    "item_output y = item_output x"
  shows "item_is_active x = (item_id x = item_id y)"
  using items_okD(2) [OF assms(1-3)] item_eq [OF assms(1-3)] assms(4,5) by auto

text \<open>Likewise for the active workspace of an output.\<close>

lemma active_announced:
  assumes sw: "same_workspaces m f items" and x: "x \<in> set items" and w: "hm_get m (item_id x) = Some w"
    and st: "static_ok x w" and neq: "ws_is_active w \<noteq> item_is_active x"
  shows "\<exists>y \<in> set items. \<exists>b. WorkspaceActivated (item_id y) b \<in> set (individual_events m f items) \<and>
    item_is_active y \<and> item_output y = item_output x"
proof (cases "item_is_active x")
  case True
  with neq obtain b where "WorkspaceActivated (item_id x) b \<in> set (workspace_events f w x)"
    using workspace_events_mem(4) [of x w f] by auto
  then show ?thesis using individual_events_emitted [OF x w] x True by blast
next
  case False
  note m = same_workspacesD(1) [OF sw] and ok = same_workspacesD(2) [OF sw]
  from False neq have act: "ws_is_active w" by simp
  then have "fst x \<noteq> None" using ws_map_okD(6) [OF m w] st by (auto simp: static_ok_def)
  then obtain y where y: "y \<in> set items" "item_output y = item_output x" "item_is_active y"
    using items_okD(3) [OF ok x] by blast
  obtain v where v: "hm_get m (item_id y) = Some v" "static_ok y v"
    using same_workspacesD(3) [OF sw y(1)] by blast
  have "\<not> ws_is_active v"
    using ws_map_okD(3) [OF m w v(1) act] v(2) st y(2) only_active [OF ok x y(1,3,2)] False
    by (auto simp: static_ok_def)
  then obtain b where "WorkspaceActivated (item_id y) b \<in> set (workspace_events f v y)"
    using workspace_events_mem(4) [OF y(3)] by blast
  then show ?thesis using individual_events_emitted [OF y(1) v(1)] y by blast
qed

lemma settle_active:
  assumes sw: "same_workspaces m f items" and x: "x \<in> set items" and w: "hm_get m (item_id x) = Some w"
    and st: "static_ok x w" and out: "\<And>y. y \<in> set items \<Longrightarrow> out (item_id y) = item_output y"
  shows "ws_is_active (fold (ws_effect out) (individual_events m f items) w) = item_is_active x"
proof (rule conjunct2 [OF fold_settles [where P = "static_ok x"]], goal_cases)
  case (2 e ws)
  note ok = same_workspacesD(2) [OF sw]
  from individual_events_from [OF 2(1)] obtain y where y: "y \<in> set items"
    "e \<in> set (workspace_events f (the (hm_get m (item_id y))) y)" by blast
  have act: "item_is_active y" if "Some (item_id y) = f" using items_okD(4) [OF ok y(1) that] .
  from y(2) have "ws_is_active (ws_effect out e ws) = ws_is_active ws \<or>
      ws_is_active (ws_effect out e ws) = item_is_active x"
    by (cases rule: workspace_events_cases)
      (use 2(2) act only_active [OF ok x y(1)] out [OF y(1)] in
        \<open>auto simp: ws_effect_defs static_ok_def\<close>)
  with 2(2) show ?case by simp
next
  case 3
  show ?case
    using active_announced [OF sw x w st] only_active [OF same_workspacesD(2) [OF sw] x] out
    by (fastforce simp: ws_effect_defs static_ok_def)
qed (rule st)

lemma entry_settles:
  assumes sw: "same_workspaces m f items" and x: "x \<in> set items" and w: "hm_get m (item_id x) = Some w"
    and out: "\<And>y. y \<in> set items \<Longrightarrow> out (item_id y) = item_output y"
  shows "fold (ws_effect out) (individual_events m f items) w = make_ipc_workspace f x"
proof -
  have st: "static_ok x w" using same_workspacesD(3) [OF sw x] w by auto
  have "static_ok x (fold (ws_effect out) (individual_events m f items) w)"
    by (rule fold_invariant [of "static_ok x"]) (use st in auto)
  then show ?thesis
    using settle_window [OF sw x w st, of out] settle_urgent [OF sw x w st, of out]
      settle_focused [OF sw x w st, of out] settle_active [OF sw x w st out]
    by (intro workspace.equality) (auto simp: make_ipc_workspace_def static_ok_def split: prod.splits)
qed

lemma collect_items:
  assumes ok: "items_ok f items"
  shows "map_of (hm_collect ws_id (map (make_ipc_workspace f) items)) = layout_workspaces f items"
proof (intro map_of_eqI option_eqI ext)
  fix k v
  have d: "distinct (map ws_id (map (make_ipc_workspace f) items))"
    using items_okD(1) [OF ok] by (simp add: comp_def)
  show "hm_get (hm_collect ws_id (map (make_ipc_workspace f) items)) k = Some v \<longleftrightarrow>
      layout_workspaces f items k = Some v"
    using hm_get_collect_distinct [OF d, of k v] layout_workspaces_Some [OF ok, of k v]
    by (simp add: image_iff; metis make_ipc_workspace_simps(1))
qed

lemma individual_events_known:
  assumes "same_workspaces m f items" "e \<in> set (individual_events m f items)"
  shows "\<exists>i w. ws_event_id e = Some i \<and> hm_get m i = Some w"
proof -
  obtain y where y: "y \<in> set items" "e \<in> set (workspace_events f (the (hm_get m (item_id y))) y)"
    using individual_events_from [OF assms(2)] by blast
  from y(2) have "ws_event_id e = Some (item_id y)"
    by (cases rule: workspace_events_cases) auto
  then show ?thesis using same_workspacesD(3) [OF assms(1) y(1)] by blast
qed

lemma individual_events_synchronise:
  assumes sw: "same_workspaces (wss_workspaces s) f items"
    and keys: "\<And>k. hm_get (wss_workspaces s) k \<noteq> None \<Longrightarrow> k \<in> item_id ` set items"
  shows "\<exists>s'. run_events workspaces_apply s (individual_events (wss_workspaces s) f items) = Inr s' \<and>
     map_of (wss_workspaces s') = layout_workspaces f items \<and> ipc_workspaces_inv s'"
proof -
  let ?m = "wss_workspaces s" and ?es = "individual_events (wss_workspaces s) f items"
  note ok = same_workspacesD(2) [OF sw]
  have inv: "ipc_workspaces_inv s"
    using ws_map_okD(1,2) [OF same_workspacesD(1) [OF sw]] by (simp add: ipc_workspaces_inv_def)
  define out where "out = (\<lambda>i. case hm_get ?m i of Some w \<Rightarrow> ws_output w | None \<Rightarrow> None)"
  have out: "out (item_id y) = item_output y" if "y \<in> set items" for y
    using same_workspacesD(3) [OF sw that] by (auto simp: out_def static_ok_def)
  obtain s' where s': "run_events workspaces_apply s ?es = Inr s'" "ipc_workspaces_inv s'"
    "\<And>k. hm_get (wss_workspaces s') k = map_option (fold (ws_effect out) ?es) (hm_get ?m k)"
    using run_ws_effects [OF inv, of ?es out] individual_events_known [OF sw]
    by (auto simp: out_def)
  have "hm_get (wss_workspaces s') k = layout_workspaces f items k" for k
  proof (cases "hm_get ?m k")
    case None
    have "layout_workspaces f items k = None"
      using layout_workspaces_Some [OF ok, of k] None same_workspacesD(3) [OF sw]
      by (metis not_None_eq)
    with None s'(3) show ?thesis by simp
  next
    case (Some w)
    with keys [of k] obtain x where x: "x \<in> set items" "item_id x = k" by auto
    then have "fold (ws_effect out) ?es w = make_ipc_workspace f x"
      using entry_settles [OF sw x(1) _ out] Some by simp
    moreover have "layout_workspaces f items k = Some (make_ipc_workspace f x)"
      using layout_workspaces_Some [OF ok] x by blast
    ultimately show ?thesis using Some s'(3) [of k] by simp
  qed
  with s' show ?thesis by auto
qed

lemma workspaces_diff_synchronises:
  assumes m: "ws_map_ok (wss_workspaces s)" and ok: "items_ok f items"
  shows "\<exists>s'. run_events workspaces_apply s (workspaces_diff (wss_workspaces s) f items) = Inr s' \<and>
     map_of (wss_workspaces s') = layout_workspaces f items \<and> ipc_workspaces_inv s'"
proof -
  let ?m = "wss_workspaces s"
  obtain ev seen need where loop: "workspaces_loop ?m f items [] {} = (ev, seen, need)"
    by (cases "workspaces_loop ?m f items [] {}") auto
  show ?thesis
  proof (cases "need \<or> list_ex (\<lambda>i. i \<notin> seen) (hm_keys ?m)")
    case True
    then show ?thesis
      using loop collect_items [OF ok] by (auto simp: workspaces_diff_def ipc_workspaces_inv_def)
  next
    case False
    with loop have loop': "workspaces_loop ?m f items [] {} = (ev, seen, False)" by simp
    note complete = workspaces_loop_complete [OF loop']
    have sw: "same_workspaces ?m f items" using m ok complete by (auto simp: same_workspaces_def)
    have diff: "workspaces_diff ?m f items = individual_events ?m f items"
      using False loop complete by (simp add: workspaces_diff_def individual_events_def)
    have "k \<in> item_id ` set items" if "hm_get ?m k \<noteq> None" for k
      using False complete that hm_in_keys_iff [of k ?m] by (auto simp: list_ex_iff)
    from individual_events_synchronise [OF sw this] diff show ?thesis by simp
  qed
qed

subsection \<open>Windows\<close>

abbreviation item_win :: "window_item \<Rightarrow> u64" where
  "item_win item \<equiv> mp_id (fst item)"

abbreviation item_focused :: "window_item \<Rightarrow> bool" where
  "item_focused item \<equiv> mp_is_focused (fst item)"

text \<open>
  What the layout guarantees of \<open>with_windows\<close>: every window once, at most one of them focused.
  The process id of a window never changes, and the refresh does not compare it.
\<close>

definition win_items_ok :: "window_item list \<Rightarrow> bool" where
  "win_items_ok items \<longleftrightarrow> distinct (map item_win items) \<and>
     (\<forall>x \<in> set items. \<forall>y \<in> set items. item_focused x \<and> item_focused y \<longrightarrow> item_win x = item_win y)"

definition win_map_ok :: "(u64, window) hash_map \<Rightarrow> bool" where
  "win_map_ok m \<longleftrightarrow> hm_inv m \<and> hm_keyed win_id m \<and>
     (\<forall>i v j w. hm_get m i = Some v \<and> hm_get m j = Some w \<and> win_is_focused v \<and> win_is_focused w
        \<longrightarrow> i = j)"

definition pids_stable :: "(u64, window) hash_map \<Rightarrow> window_item list \<Rightarrow> bool" where
  "pids_stable m items \<longleftrightarrow>
     (\<forall>x \<in> set items. \<forall>w. hm_get m (item_win x) = Some w \<longrightarrow> win_pid w = mp_pid (fst x))"

definition layout_windows :: "window_item list \<Rightarrow> u64 \<rightharpoonup> window" where
  "layout_windows items = map_of (map (\<lambda>x. (item_win x, make_ipc_window x)) items)"

lemma win_items_okD:
  assumes "win_items_ok items"
  shows "distinct (map item_win items)"
    and "\<And>x y. x \<in> set items \<Longrightarrow> y \<in> set items \<Longrightarrow> item_win y = item_win x \<Longrightarrow> y = x"
    and "\<And>x y. x \<in> set items \<Longrightarrow> y \<in> set items \<Longrightarrow> item_focused x \<Longrightarrow> item_focused y \<Longrightarrow> y = x"
proof -
  show d: "distinct (map item_win items)" using assms by (simp add: win_items_ok_def)
  show inj: "y = x" if "x \<in> set items" "y \<in> set items" "item_win y = item_win x" for x y
    using d that by (auto simp: distinct_map inj_on_def)
  show "y = x" if "x \<in> set items" "y \<in> set items" "item_focused x" "item_focused y" for x y
    using assms that inj [OF that(1,2)] unfolding win_items_ok_def by metis
qed

lemma layout_windows_Some:
  "win_items_ok items \<Longrightarrow> layout_windows items k = Some v \<longleftrightarrow>
     (\<exists>x \<in> set items. item_win x = k \<and> make_ipc_window x = v)"
  unfolding layout_windows_def by (rule map_of_distinct_Some) (rule win_items_okD(1))

lemma make_ipc_window_simps [simp]:
  "win_id (make_ipc_window x) = item_win x"
  "win_is_focused (make_ipc_window x) = item_focused x"
  "win_pid (make_ipc_window x) = mp_pid (fst x)"
  "win_is_urgent (make_ipc_window x) = mp_is_urgent (fst x)"
  "win_layout (make_ipc_window x) = snd (snd x)"
  by (cases x rule: prod_cases3; simp add: make_ipc_window_def)+

text \<open>The effect of a window event on the entry of one id.\<close>

definition set_layouts_effect ::
  "(u64 \<times> window_layout) list \<Rightarrow> u64 \<Rightarrow> window option \<Rightarrow> window option" where
  "set_layouts_effect cs k v =
     fold (\<lambda>(i, l) v. if k = i then map_option (\<lambda>w. w\<lparr>win_layout := l\<rparr>) v else v) cs v"

fun win_effect :: "event \<Rightarrow> u64 \<Rightarrow> window option \<Rightarrow> window option" where
  "win_effect (WindowOpenedOrChanged w) k v =
     (if k = win_id w then Some w
      else if win_is_focused w then map_option (\<lambda>u. u\<lparr>win_is_focused := False\<rparr>) v else v)"
| "win_effect (WindowClosed i) k v = (if k = i then None else v)"
| "win_effect (WindowFocusChanged i) k v = map_option (\<lambda>u. u\<lparr>win_is_focused := (Some k = i)\<rparr>) v"
| "win_effect (WindowFocusTimestampChanged i t) k v =
     (if k = i then map_option (\<lambda>u. u\<lparr>win_focus_timestamp := t\<rparr>) v else v)"
| "win_effect (WindowUrgencyChanged i b) k v =
     (if k = i then map_option (\<lambda>u. u\<lparr>win_is_urgent := b\<rparr>) v else v)"
| "win_effect (WindowLayoutsChanged cs) k v = set_layouts_effect cs k v"
| "win_effect _ k v = v"

text \<open>Which events can be applied when the ids \<open>D\<close> are known, and the ids known after.\<close>

fun applicable :: "u64 set \<Rightarrow> event \<Rightarrow> bool" where
  "applicable D (WindowOpenedOrChanged w) = True"
| "applicable D (WindowClosed i) = (i \<in> D)"
| "applicable D (WindowLayoutsChanged cs) = (fst ` set cs \<subseteq> D)"
| "applicable D (WindowFocusChanged i) = True"
| "applicable D (WindowFocusTimestampChanged i t) = True"
| "applicable D (WindowUrgencyChanged i b) = True"
| "applicable D _ = False"

fun known_after :: "u64 set \<Rightarrow> event \<Rightarrow> u64 set" where
  "known_after D (WindowOpenedOrChanged w) = insert (win_id w) D"
| "known_after D (WindowClosed i) = D - {i}"
| "known_after D _ = D"

fun runs_on :: "u64 set \<Rightarrow> event list \<Rightarrow> bool" where
  "runs_on D [] = True"
| "runs_on D (e # es) = (applicable D e \<and> runs_on (known_after D e) es)"

lemma set_layouts_effect_simps [simp]:
  "set_layouts_effect [] k v = v"
  "set_layouts_effect ((i, l) # cs) k v =
     set_layouts_effect cs k (if k = i then map_option (\<lambda>w. w\<lparr>win_layout := l\<rparr>) v else v)"
  by (simp_all add: set_layouts_effect_def)

lemma set_layouts_get:
  "fst ` set cs \<subseteq> dom (map_of m) \<Longrightarrow>
   \<exists>m'. windows_set_layouts m cs = Inr m' \<and> (\<forall>k. hm_get m' k = set_layouts_effect cs k (hm_get m k))"
proof (induction m cs rule: windows_set_layouts.induct)
  case (2 m i l cs)
  then obtain w where w: "hm_get m i = Some w" by auto
  have "fst ` set cs \<subseteq> dom (map_of (hm_insert i (w\<lparr>win_layout := l\<rparr>) m))"
    using "2.prems" by (auto simp: hm_simps)
  with "2.IH" [of w] obtain m' where
    m': "windows_set_layouts (hm_insert i (w\<lparr>win_layout := l\<rparr>) m) cs = Inr m'"
    "\<And>k. hm_get m' k = set_layouts_effect cs k (hm_get (hm_insert i (w\<lparr>win_layout := l\<rparr>) m) k)"
    by blast
  have "hm_get m' k = set_layouts_effect ((i, l) # cs) k (hm_get m k)" for k
    using w by (simp add: m'(2) hm_simps)
  moreover have "windows_set_layouts m ((i, l) # cs) = Inr m'" using w m'(1) by simp
  ultimately show ?case by blast
qed simp

lemma set_layouts_effect_None [simp]: "set_layouts_effect cs k v = None \<longleftrightarrow> v = None"
proof (induction cs arbitrary: v)
  case (Cons c cs)
  then show ?case by (cases c) simp
qed simp

lemma apply_win_effect:
  assumes "windows_inv s" "runs_on (dom (map_of (wis_windows s))) (e # es)"
  shows "\<exists>s'. windows_apply s e = Inr (s', None) \<and> windows_inv s' \<and>
     (\<forall>k. hm_get (wis_windows s') k = win_effect e k (hm_get (wis_windows s) k)) \<and>
     runs_on (dom (map_of (wis_windows s'))) es"
proof -
  have inv: "hm_inv (wis_windows s)" and keyed: "hm_keyed win_id (wis_windows s)"
    using assms(1) by (auto simp: windows_inv_def)
  have key: "hm_get (wis_windows s) k = Some v \<Longrightarrow> win_id v = k" for k v
    using hm_keyedD [OF keyed] .
  note upd = hm_get_update_first [where key = win_id, OF keyed inv]
  have "\<exists>s'. windows_apply s e = Inr (s', None) \<and>
     (\<forall>k. hm_get (wis_windows s') k = win_effect e k (hm_get (wis_windows s) k))"
  proof (cases e)
    case (WindowLayoutsChanged cs)
    then show ?thesis using set_layouts_get [of cs "wis_windows s"] assms(2) by auto
  qed (use assms(2) key in \<open>auto simp: hm_simps upd Let_def win_unfocus_other_def win_set_focus_def
      map_option_case split: option.splits\<close>)
  then obtain s' where s': "windows_apply s e = Inr (s', None)"
    "\<And>k. hm_get (wis_windows s') k = win_effect e k (hm_get (wis_windows s) k)" by blast
  have "dom (map_of (wis_windows s')) = known_after (dom (map_of (wis_windows s))) e"
    using s'(2) by (cases e) (auto simp: dom_def split: if_splits)
  with assms(2) have "runs_on (dom (map_of (wis_windows s'))) es" by simp
  with s' windows_apply_inv [OF assms(1) s'(1)] show ?thesis by blast
qed

lemma run_win_effects:
  assumes "windows_inv s" "runs_on (dom (map_of (wis_windows s))) es"
  shows "\<exists>s'. run_events windows_apply s es = Inr s' \<and> windows_inv s' \<and>
     (\<forall>k. hm_get (wis_windows s') k = fold (\<lambda>e. win_effect e k) es (hm_get (wis_windows s) k))"
  using assms
proof (induction es arbitrary: s)
  case (Cons e es)
  from apply_win_effect [OF Cons.prems] obtain s1 where
    s1: "windows_apply s e = Inr (s1, None)" "windows_inv s1"
    "\<And>k. hm_get (wis_windows s1) k = win_effect e k (hm_get (wis_windows s) k)"
    "runs_on (dom (map_of (wis_windows s1))) es" by blast
  from Cons.IH [OF s1(2,4)] s1(1,3) show ?case by auto
qed simp

text \<open>The parts of the difference.\<close>

abbreviation "opened_events m items \<equiv> concat (map (\<lambda>x. fst (window_events m x)) items)"
abbreviation "layout_batch m items \<equiv> concat (map (\<lambda>x. snd (window_events m x)) items)"

lemma window_events_cases:
  assumes "e \<in> set (fst (window_events m x))"
  obtains (opened) "e = WindowOpenedOrChanged (make_ipc_window x)"
    | (focus) "e = WindowFocusChanged (Some (item_win x))" "item_focused x"
    | (time) "e = WindowFocusTimestampChanged (item_win x) (win_focus_timestamp (make_ipc_window x))"
    | (urgent) "e = WindowUrgencyChanged (item_win x) (mp_is_urgent (fst x))"
  using assms
  by (cases x rule: prod_cases3)
    (auto simp: window_events_def make_ipc_window_def split: option.splits if_splits)

lemma layout_batch_from:
  "(i, l) \<in> set (layout_batch m items) \<Longrightarrow>
   \<exists>x \<in> set items. item_win x = i \<and> snd (snd x) = l \<and> hm_get m i \<noteq> None"
  by (force simp: window_events_def split: option.splits if_splits)

lemma windows_diff_cases:
  assumes "e \<in> set (windows_diff m items)"
  obtains (window) x where "x \<in> set items" "e \<in> set (fst (window_events m x))"
    | (layouts) "e = WindowLayoutsChanged (layout_batch m items)"
    | (closed) i where "e = WindowClosed i" "i \<notin> item_win ` set items"
    | (unfocused) "e = WindowFocusChanged None" "\<not> list_ex item_focused items"
  using assms by (auto simp: windows_diff_def Let_def split: if_splits)

lemma runs_on_append:
  "runs_on D (es @ fs) \<longleftrightarrow> runs_on D es \<and> runs_on (fold (\<lambda>e D. known_after D e) es D) fs"
  by (induction es arbitrary: D) auto

lemma runs_on_closed:
  "distinct is \<Longrightarrow> set is \<subseteq> D \<Longrightarrow> runs_on D (map WindowClosed is @ fs) \<longleftrightarrow> runs_on (D - set is) fs"
proof (induction "is" arbitrary: D)
  case (Cons i "is")
  have "D - {i} - set is = D - set (i # is)" by auto
  moreover have "set is \<subseteq> D - {i}" using Cons.prems by auto
  ultimately show ?case using Cons.IH [of "D - {i}"] Cons.prems by simp
qed simp

lemma opened_events_run:
  "runs_on D (opened_events m items) \<and> D \<subseteq> fold (\<lambda>e D. known_after D e) (opened_events m items) D"
proof -
  have "runs_on D es \<and> D \<subseteq> fold (\<lambda>e D. known_after D e) es D"
    if "\<And>e. e \<in> set es \<Longrightarrow> \<exists>x. e \<in> set (fst (window_events m x))" for es
    using that
  proof (induction es arbitrary: D)
    case (Cons e es)
    have "applicable D e \<and> D \<subseteq> known_after D e"
      using Cons.prems [of e] by (auto elim!: window_events_cases)
    with Cons.IH [of "known_after D e"] Cons.prems show ?case by auto
  qed simp
  from this [of "opened_events m items"] show ?thesis by fastforce
qed

lemma windows_diff_runs:
  assumes "hm_inv m"
  shows "runs_on (dom (map_of m)) (windows_diff m items)"
proof -
  let ?D = "fold (\<lambda>e D. known_after D e) (opened_events m items) (dom (map_of m))"
  let ?closed = "filter (\<lambda>i. i \<notin> set (map item_win items)) (hm_keys m)"
  have D: "runs_on (dom (map_of m)) (opened_events m items)" "dom (map_of m) \<subseteq> ?D"
    by (rule conjunct1 [OF opened_events_run], rule conjunct2 [OF opened_events_run])
  have batch: "fst ` set (layout_batch m items) \<subseteq> ?D"
  proof
    fix i assume "i \<in> fst ` set (layout_batch m items)"
    then obtain l where "(i, l) \<in> set (layout_batch m items)" by force
    then show "i \<in> ?D" using layout_batch_from [of i l m items] D(2) by blast
  qed
  have "set ?closed \<subseteq> dom (map_of m)" by (auto simp: set_hm_keys)
  then have sub: "set ?closed \<subseteq> ?D" using D(2) by (rule subset_trans)
  have dist: "distinct ?closed" using distinct_hm_keys [OF assms] by simp
  have tail: "runs_on ?D (map WindowClosed ?closed @ (if b then [WindowFocusChanged None] else []))" for b
    using runs_on_closed [OF dist sub] by simp
  show ?thesis
    unfolding windows_diff_def Let_def runs_on_append [of _ "opened_events m items"]
    using D(1) batch tail by (cases "layout_batch m items = []") simp_all
qed

text \<open>A window of the layout announces its focus, if the state has it wrong.\<close>

lemma focus_event_mem:
  assumes "hm_get m (item_win x) = Some w" "\<not> window_changed w x" "item_focused x" "\<not> win_is_focused w"
  shows "WindowFocusChanged (Some (item_win x)) \<in> set (fst (window_events m x))"
  using assms by (cases x rule: prod_cases3) (auto simp: window_events_def)

definition reopened :: "(u64, window) hash_map \<Rightarrow> window_item \<Rightarrow> bool" where
  "reopened m x \<longleftrightarrow> (case hm_get m (item_win x) of None \<Rightarrow> True | Some w \<Rightarrow> window_changed w x)"

lemma reopened_event:
  "reopened m x \<Longrightarrow> window_events m x = ([WindowOpenedOrChanged (make_ipc_window x)], [])"
  by (cases x rule: prod_cases3) (auto simp: reopened_def window_events_def split: option.splits)

lemma not_reopened_events:
  "\<not> reopened m x \<Longrightarrow> WindowOpenedOrChanged v \<notin> set (fst (window_events m x))"
  by (cases x rule: prod_cases3) (auto simp: reopened_def window_events_def split: option.splits)

lemma diff_mem: "x \<in> set items \<Longrightarrow> e \<in> set (fst (window_events m x)) \<Longrightarrow> e \<in> set (windows_diff m items)"
  by (auto simp: windows_diff_def Let_def)

lemma batch_layout:
  assumes "win_items_ok items" "x \<in> set items"
  shows "set_layouts_effect (layout_batch m items) (item_win x) v =
    (if snd (window_events m x) = [] then v
     else map_option (\<lambda>w. w\<lparr>win_layout := snd (snd x)\<rparr>) v)"
proof -
  have app: "set_layouts_effect (as @ bs) k v = set_layouts_effect bs k (set_layouts_effect as k v)"
    for as bs k v by (simp add: set_layouts_effect_def)
  have one: "set_layouts_effect (snd (window_events m y)) (item_win x) v =
      (if item_win y = item_win x \<and> snd (window_events m y) \<noteq> []
       then map_option (\<lambda>w. w\<lparr>win_layout := snd (snd y)\<rparr>) v else v)" for y v
    by (cases y rule: prod_cases3) (auto simp: window_events_def split: option.splits)
  have other: "set_layouts_effect (layout_batch m ys) (item_win x) v = v"
    if "item_win x \<notin> item_win ` set ys" for ys v
    using that by (induction ys arbitrary: v) (auto simp: app one)
  have "set_layouts_effect (layout_batch m ys) (item_win x) v =
      (if snd (window_events m x) = [] then v else map_option (\<lambda>w. w\<lparr>win_layout := snd (snd x)\<rparr>) v)"
    if "distinct (map item_win ys)" "x \<in> set ys" for ys
    using that
  proof (induction ys arbitrary: v)
    case (Cons y ys)
    then show ?case
      using other [of ys] by (cases "y = x") (auto simp: app one image_iff)
  qed simp
  with win_items_okD(1) [OF assms(1)] assms(2) show ?thesis by blast
qed

text \<open>Focus: every event that touches the focus of a window sets it as the layout has it.\<close>

lemma win_focus_effect:
  assumes ok: "win_items_ok items" and x: "x \<in> set items" and e: "e \<in> set (windows_diff m items)"
  shows "map_option win_is_focused (win_effect e (item_win x) v) = map_option win_is_focused v \<or>
    map_option win_is_focused (win_effect e (item_win x) v) = Some (item_focused x)"
  using e
proof (cases rule: windows_diff_cases)
  case (window y)
  have "y = x \<or> item_win x \<noteq> item_win y \<and> \<not> (item_focused x \<and> item_focused y)"
    using win_items_okD(2,3) [OF ok x window(1)] by metis
  then consider "y = x" | "item_win x \<noteq> item_win y" "\<not> (item_focused x \<and> item_focused y)" by blast
  then show ?thesis
  proof cases
    case 1
    from window(2) show ?thesis unfolding 1 by (cases rule: window_events_cases; cases v) simp_all
  next
    case 2
    from window(2) show ?thesis by (cases rule: window_events_cases; cases v) (use 2 in auto)
  qed
next
  case layouts
  then show ?thesis using batch_layout [OF ok x, of m v] by (simp add: option.map_comp comp_def)
next
  case (closed i)
  then show ?thesis using x by auto
next
  case unfocused
  then show ?thesis using x by (cases v) (auto simp: list_ex_iff)
qed

text \<open>The fields other than the focus.\<close>

abbreviation no_focus :: "window \<Rightarrow> window" where
  "no_focus w \<equiv> w\<lparr>win_is_focused := False\<rparr>"

lemma reopened_settles:
  assumes ok: "win_items_ok items" and x: "x \<in> set items" and re: "reopened m x"
  shows "map_option no_focus (fold (\<lambda>e. win_effect e (item_win x)) (windows_diff m items) v) =
    Some (no_focus (make_ipc_window x))"
proof (rule conjunct2 [OF fold_settles [where P = "\<lambda>_. True"]], simp, goal_cases)
  case (1 e u)
  from 1(1) show ?case
  proof (cases rule: windows_diff_cases)
    case (window y)
    have "y = x \<or> item_win x \<noteq> item_win y"
      using win_items_okD(2) [OF ok x window(1)] by metis
    then consider "y = x" | "item_win x \<noteq> item_win y" by blast
    then show ?thesis
    proof cases
      case 1
      with window(2) have "e = WindowOpenedOrChanged (make_ipc_window x)"
        using reopened_event [OF re] by simp
      then show ?thesis by simp
    next
      case 2
      from window(2) show ?thesis by (cases rule: window_events_cases; cases u) (use 2 in auto)
    qed
  next
    case layouts
    then show ?thesis using batch_layout [OF ok x, of m u] reopened_event [OF re] by simp
  qed (use x in \<open>auto simp: option.map_comp comp_def\<close>)
next
  case 2
  have "WindowOpenedOrChanged (make_ipc_window x) \<in> set (windows_diff m items)"
    using diff_mem [OF x] reopened_event [OF re] by simp
  then show ?case by force
qed

definition win_static :: "window_item \<Rightarrow> window option \<Rightarrow> bool" where
  "win_static x v \<longleftrightarrow> (\<exists>u. v = Some u \<and> u\<lparr>win_is_focused := False, win_is_urgent := False,
       win_layout := snd (snd x), win_focus_timestamp := None\<rparr> =
     (make_ipc_window x)\<lparr>win_is_focused := False, win_is_urgent := False,
       win_layout := snd (snd x), win_focus_timestamp := None\<rparr>)"

lemma kept_effect:
  assumes ok: "win_items_ok items" and x: "x \<in> set items" and re: "\<not> reopened m x"
    and e: "e \<in> set (windows_diff m items)" and st: "win_static x v"
  shows "win_static x (win_effect e (item_win x) v)"
    and "map_option win_is_urgent (win_effect e (item_win x) v) = map_option win_is_urgent v \<or>
      map_option win_is_urgent (win_effect e (item_win x) v) = Some (mp_is_urgent (fst x))"
    and "map_option win_layout (win_effect e (item_win x) v) = map_option win_layout v \<or>
      map_option win_layout (win_effect e (item_win x) v) = Some (snd (snd x))"
    and "map_option win_focus_timestamp (win_effect e (item_win x) v) = map_option win_focus_timestamp v \<or>
      map_option win_focus_timestamp (win_effect e (item_win x) v) =
        Some (win_focus_timestamp (make_ipc_window x))"
proof -
  obtain u where v: "v = Some u" using st by (auto simp: win_static_def)
  have "win_static x (win_effect e (item_win x) v) \<and>
    (map_option win_is_urgent (win_effect e (item_win x) v) = map_option win_is_urgent v \<or>
      map_option win_is_urgent (win_effect e (item_win x) v) = Some (mp_is_urgent (fst x))) \<and>
    (map_option win_layout (win_effect e (item_win x) v) = map_option win_layout v \<or>
      map_option win_layout (win_effect e (item_win x) v) = Some (snd (snd x))) \<and>
    (map_option win_focus_timestamp (win_effect e (item_win x) v) = map_option win_focus_timestamp v \<or>
      map_option win_focus_timestamp (win_effect e (item_win x) v) =
        Some (win_focus_timestamp (make_ipc_window x)))"
    using e
  proof (cases rule: windows_diff_cases)
    case (window y)
    have "y = x \<or> item_win x \<noteq> item_win y"
      using win_items_okD(2) [OF ok x window(1)] by metis
    then consider "y = x" | "item_win x \<noteq> item_win y" by blast
    then show ?thesis
    proof cases
      case 1
      with window(2) have mem: "e \<in> set (fst (window_events m x))" by simp
      then have "e \<noteq> WindowOpenedOrChanged (make_ipc_window x)"
        using not_reopened_events [OF re] by metis
      with mem show ?thesis
        by (cases rule: window_events_cases) (use st in \<open>auto simp: v win_static_def\<close>)
    next
      case 2
      from window(2) show ?thesis
        by (cases rule: window_events_cases) (use 2 st in \<open>auto simp: v win_static_def\<close>)
    qed
  next
    case layouts
    then show ?thesis using batch_layout [OF ok x, of m v] st by (simp add: v win_static_def)
  qed (use x st in \<open>auto simp: v win_static_def\<close>)
  then show "win_static x (win_effect e (item_win x) v)"
    "map_option win_is_urgent (win_effect e (item_win x) v) = map_option win_is_urgent v \<or>
      map_option win_is_urgent (win_effect e (item_win x) v) = Some (mp_is_urgent (fst x))"
    "map_option win_layout (win_effect e (item_win x) v) = map_option win_layout v \<or>
      map_option win_layout (win_effect e (item_win x) v) = Some (snd (snd x))"
    "map_option win_focus_timestamp (win_effect e (item_win x) v) = map_option win_focus_timestamp v \<or>
      map_option win_focus_timestamp (win_effect e (item_win x) v) =
        Some (win_focus_timestamp (make_ipc_window x))"
    by blast+
qed

lemma kept_events_mem:
  assumes "hm_get m (item_win x) = Some w" "\<not> reopened m x"
  shows "win_is_urgent w \<noteq> mp_is_urgent (fst x) \<Longrightarrow>
      WindowUrgencyChanged (item_win x) (mp_is_urgent (fst x)) \<in> set (fst (window_events m x))"
    and "win_focus_timestamp w \<noteq> win_focus_timestamp (make_ipc_window x) \<Longrightarrow>
      WindowFocusTimestampChanged (item_win x) (win_focus_timestamp (make_ipc_window x))
        \<in> set (fst (window_events m x))"
    and "win_layout w \<noteq> snd (snd x) \<Longrightarrow> snd (window_events m x) \<noteq> []"
  using assms
  by (cases x rule: prod_cases3; simp add: reopened_def window_events_def make_ipc_window_def)+

text \<open>If the focus of a window is stale, the window that took it, or its loss, is announced.\<close>

lemma focus_change_announced:
  assumes m: "win_map_ok m" and ok: "win_items_ok items" and x: "x \<in> set items"
    and w: "hm_get m (item_win x) = Some w" and re: "\<not> reopened m x"
    and neq: "win_is_focused w \<noteq> item_focused x"
  shows "\<exists>e \<in> set (windows_diff m items). \<forall>u. map_option win_is_focused (win_effect e (item_win x) (Some u)) =
    Some (item_focused x)"
proof (cases "list_ex item_focused items")
  case False
  with neq x have foc: "\<not> item_focused x" "win_is_focused w" by (auto simp: list_ex_iff)
  have "list_ex win_is_focused (hm_values m)"
    using hm_get_in_values [OF w] foc(2) by (auto simp: list_ex_iff)
  with False have "WindowFocusChanged None \<in> set (windows_diff m items)"
    by (simp add: windows_diff_def Let_def)
  with foc(1) show ?thesis by force
next
  case True
  then obtain y where y: "y \<in> set items" "item_focused y" by (auto simp: list_ex_iff)
  have foc_x: "item_focused x = (item_win x = item_win y)"
    using win_items_okD(2,3) [OF ok x y(1)] y(2) by metis
  show ?thesis
  proof (cases "reopened m y")
    case True
    then have "WindowOpenedOrChanged (make_ipc_window y) \<in> set (windows_diff m items)"
      using diff_mem [OF y(1)] reopened_event by simp
    then show ?thesis using y(2) foc_x by force
  next
    case False
    then obtain v where v: "hm_get m (item_win y) = Some v" "\<not> window_changed v y"
      by (auto simp: reopened_def split: option.splits)
    have "\<not> win_is_focused v"
    proof
      assume "win_is_focused v"
      with m w v(1) have "win_is_focused w \<Longrightarrow> item_win x = item_win y"
        unfolding win_map_ok_def by blast
      with neq foc_x have "item_win x = item_win y" "\<not> win_is_focused w" by blast+
      with w v(1) \<open>win_is_focused v\<close> show False by simp
    qed
    then have "WindowFocusChanged (Some (item_win y)) \<in> set (windows_diff m items)"
      using diff_mem [OF y(1)] focus_event_mem [OF v y(2)] by blast
    then show ?thesis using foc_x by force
  qed
qed

lemma kept_settles:
  assumes m: "win_map_ok m" and ok: "win_items_ok items" and x: "x \<in> set items"
    and w: "hm_get m (item_win x) = Some w" and re: "\<not> reopened m x"
    and pid: "win_pid w = mp_pid (fst x)"
  shows "fold (\<lambda>e. win_effect e (item_win x)) (windows_diff m items) (Some w) = Some (make_ipc_window x)"
proof -
  let ?es = "windows_diff m items" and ?eff = "\<lambda>e. win_effect e (item_win x)"
  let ?final = "fold ?eff ?es (Some w)"
  have keyed: "hm_keyed win_id m" using m by (simp add: win_map_ok_def)
  have st: "win_static x (Some w)"
    using re w pid hm_keyedD [OF keyed w]
    by (cases x rule: prod_cases3)
      (auto simp: win_static_def reopened_def window_changed_def make_ipc_window_def)
  have some: "\<exists>u. v = Some u" if "win_static x v" for v using that by (auto simp: win_static_def)
  note eff = kept_effect [OF ok x re]
  have static: "win_static x ?final"
    by (rule fold_invariant [of "win_static x"]) (use st eff(1) in auto)
  have urgent: "map_option win_is_urgent ?final = Some (mp_is_urgent (fst x))"
  proof (rule conjunct2 [OF fold_settles [where P = "win_static x"]], rule st, goal_cases)
    case 2
    show ?case using kept_events_mem(1) [OF w re] diff_mem [OF x, of _ m] some by fastforce
  qed (use eff(1,2) in blast)
  have time: "map_option win_focus_timestamp ?final = Some (win_focus_timestamp (make_ipc_window x))"
  proof (rule conjunct2 [OF fold_settles [where P = "win_static x"]], rule st, goal_cases)
    case 2
    show ?case using kept_events_mem(2) [OF w re] diff_mem [OF x, of _ m] some by fastforce
  qed (use eff(1,4) in blast)
  have layout: "map_option win_layout ?final = Some (snd (snd x))"
  proof (rule conjunct2 [OF fold_settles [where P = "win_static x"]], rule st, goal_cases)
    case 2
    have "WindowLayoutsChanged (layout_batch m items) \<in> set ?es" if "snd (window_events m x) \<noteq> []"
      using that x by (auto simp: windows_diff_def Let_def)
    then show ?case using kept_events_mem(3) [OF w re] batch_layout [OF ok x, of m] some by fastforce
  qed (use eff(1,3) in blast)
  have focus: "map_option win_is_focused ?final = Some (item_focused x)"
  proof (rule conjunct2 [OF fold_settles [where P = "win_static x"]], rule st, goal_cases)
    case 2
    show ?case using focus_change_announced [OF m ok x w re] some by fastforce
  qed (use eff(1) win_focus_effect [OF ok x] in blast)
  obtain u where u: "?final = Some u" using some [OF static] by blast
  then show ?thesis
    using static urgent time layout focus
    by (auto simp: win_static_def make_ipc_window_def split: prod.splits
        intro!: window.equality dest: arg_cong [where f = win_id] arg_cong [where f = win_title]
          arg_cong [where f = win_app_id] arg_cong [where f = win_pid]
          arg_cong [where f = win_workspace_id] arg_cong [where f = win_is_floating])
qed

lemma reopened_final:
  assumes ok: "win_items_ok items" and x: "x \<in> set items" and re: "reopened m x"
  shows "fold (\<lambda>e. win_effect e (item_win x)) (windows_diff m items) v = Some (make_ipc_window x)"
proof -
  let ?f = "fold (\<lambda>e. win_effect e (item_win x)) (windows_diff m items) v"
  have "map_option win_is_focused ?f = Some (item_focused x)"
  proof (rule conjunct2 [OF fold_settles [where P = "\<lambda>_. True"]], simp, goal_cases)
    case 2
    have "WindowOpenedOrChanged (make_ipc_window x) \<in> set (windows_diff m items)"
      using diff_mem [OF x] reopened_event [OF re] by simp
    then show ?case by force
  qed (use win_focus_effect [OF ok x] in blast)
  with reopened_settles [OF ok x re, of v] show ?thesis
    by (cases ?f) (auto intro!: window.equality dest: arg_cong [where f = win_id]
        arg_cong [where f = win_title] arg_cong [where f = win_app_id]
        arg_cong [where f = win_pid] arg_cong [where f = win_workspace_id]
        arg_cong [where f = win_is_floating] arg_cong [where f = win_is_urgent]
        arg_cong [where f = win_layout] arg_cong [where f = win_focus_timestamp])
qed

lemma gone_settles:
  assumes k: "k \<notin> item_win ` set items"
  shows "fold (\<lambda>e. win_effect e k) (windows_diff m items) (hm_get m k) = None"
proof -
  have step: "(win_effect e k v = None) = (v = None) \<or> (win_effect e k v = None) = True"
    if "e \<in> set (windows_diff m items)" for e v
    using that
  proof (cases rule: windows_diff_cases)
    case (window y)
    then have "item_win y \<noteq> k" using k by blast
    with window(2) show ?thesis by (auto elim!: window_events_cases split: if_splits)
  qed auto
  have "hm_get m k = None \<or> WindowClosed k \<in> set (windows_diff m items)"
    using k set_hm_keys [of m] by (auto simp: windows_diff_def Let_def domIff)
  then have init: "(hm_get m k = None) = True \<or>
      (\<exists>e \<in> set (windows_diff m items). \<forall>v. True \<longrightarrow> (win_effect e k v = None) = True)"
    by force
  show ?thesis
    using fold_settles [where P = "\<lambda>_. True" and fld = "\<lambda>v. v = None" and v = True, OF _ _ init] step
    by blast
qed

lemma windows_diff_synchronises:
  assumes m: "win_map_ok (wis_windows s)" and ok: "win_items_ok items"
    and pids: "pids_stable (wis_windows s) items"
  shows "\<exists>s'. run_events windows_apply s (windows_diff (wis_windows s) items) = Inr s' \<and>
     map_of (wis_windows s') = layout_windows items \<and> windows_inv s'"
proof -
  let ?m = "wis_windows s"
  have inv: "windows_inv s" "hm_inv ?m" using m by (auto simp: win_map_ok_def windows_inv_def)
  from run_win_effects [OF inv(1) windows_diff_runs [OF inv(2)], of items] obtain s' where
    s': "run_events windows_apply s (windows_diff ?m items) = Inr s'" "windows_inv s'"
    "\<And>k. hm_get (wis_windows s') k = fold (\<lambda>e. win_effect e k) (windows_diff ?m items) (hm_get ?m k)"
    by blast
  have "hm_get (wis_windows s') k = layout_windows items k" for k
  proof (cases "k \<in> item_win ` set items")
    case False
    then have "layout_windows items k = None"
      by (force simp: layout_windows_def map_of_eq_None_iff)
    with gone_settles [OF False, of ?m] s'(3) show ?thesis by simp
  next
    case True
    then obtain x where x: "x \<in> set items" "item_win x = k" by auto
    have "layout_windows items k = Some (make_ipc_window x)"
      using layout_windows_Some [OF ok] x by blast
    moreover have "hm_get (wis_windows s') k = Some (make_ipc_window x)"
    proof (cases "reopened ?m x")
      case True
      from reopened_final [OF ok x(1) True] show ?thesis using s'(3) [of k] x(2) by simp
    next
      case False
      then obtain w where w: "hm_get ?m (item_win x) = Some w"
        by (auto simp: reopened_def split: option.splits)
      then have "win_pid w = mp_pid (fst x)" using pids x(1) by (simp add: pids_stable_def)
      from kept_settles [OF m ok x(1) w False this] w x(2) s'(3) [of k] show ?thesis by simp
    qed
    ultimately show ?thesis by simp
  qed
  with s' show ?thesis by auto
qed

end
