(* ===== verification/Ipc_Stream.thy ===== *)
theory Ipc_Stream
  imports Ipc_Server_Send Ipc_Server_Sync
begin

text \<open>
  The event stream end to end: the server's refreshes, its list of clients and what each client
  has been sent. The main invariant says that a client that applies what its channel accepted
  holds the same state as the server, whenever it subscribed.
\<close>

subsection \<open>A part of the state and the whole state\<close>

lemma on_workspaces_agrees: "workspaces_owns e \<Longrightarrow>
    map_sum id fst (on_workspaces s e) = map_sum id fst (event_stream_apply s e)"
  by (cases "workspaces_apply (ess_workspaces s) e")
    (auto simp: on_workspaces_def apply_workspaces_event)

lemma on_windows_agrees: "windows_owns e \<Longrightarrow>
    map_sum id fst (on_windows s e) = map_sum id fst (event_stream_apply s e)"
  by (cases "windows_apply (ess_windows s) e")
    (auto simp: on_windows_def apply_windows_event)

lemma on_keyboard_layouts_agrees: "keyboard_layouts_owns e \<Longrightarrow>
    map_sum id fst (on_keyboard_layouts s e) = map_sum id fst (event_stream_apply s e)"
  by (cases "keyboard_layouts_apply (ess_keyboard_layouts s) e")
    (auto simp: on_keyboard_layouts_def apply_keyboard_event)

lemma on_overview_agrees: "overview_owns e \<Longrightarrow>
    map_sum id fst (on_overview s e) = map_sum id fst (event_stream_apply s e)"
  by (cases "overview_apply (ess_overview s) e")
    (auto simp: on_overview_def apply_overview_event)

lemmas on_part_agrees =
  on_workspaces_agrees on_windows_agrees on_keyboard_layouts_agrees on_overview_agrees

text \<open>An application that does to the state what the whole state's \<open>apply\<close> does on some events.\<close>

definition agrees_on ::
  "(event \<Rightarrow> bool) \<Rightarrow> (event_stream_state \<Rightarrow> event \<Rightarrow> event_stream_state applied) \<Rightarrow> bool" where
  "agrees_on own app \<longleftrightarrow>
     (\<forall>s e. own e \<longrightarrow> map_sum id fst (app s e) = map_sum id fst (event_stream_apply s e))"

lemma agrees_on_parts:
  "agrees_on workspaces_owns on_workspaces" "agrees_on windows_owns on_windows"
  "agrees_on keyboard_layouts_owns on_keyboard_layouts" "agrees_on overview_owns on_overview"
  "agrees_on (\<lambda>_. True) event_stream_apply"
  by (simp_all add: agrees_on_def on_part_agrees)

lemma agrees_onD:
  assumes "agrees_on own app" "own e" "app s e = Inr (s', r)"
  shows "\<exists>r'. event_stream_apply s e = Inr (s', r')"
proof -
  have "map_sum id fst (event_stream_apply s e) = Inr s'"
    using assms(1,2) by (simp add: agrees_on_def assms(3) [THEN arg_cong [of _ _ "map_sum id fst"], simplified, symmetric])
  then show ?thesis by (cases "event_stream_apply s e") auto
qed

subsection \<open>Emitting\<close>

lemma emit_Inr:
  assumes "app (srv_event_stream_state srv) e = Inr (s', r)"
  shows "\<exists>srv'. emit ts app srv e = Inr srv' \<and> srv_event_stream_state srv' = s' \<and>
    mset (srv_event_streams srv') =
      mset (map (after_send ts e) (filter (send_ok ts e) (srv_event_streams srv)))"
  using send_event_spec [of ts e "srv_event_streams srv"] assms by (auto simp: emit_def)

lemma emit_state: "emit ts app srv e = Inr srv' \<Longrightarrow>
    \<exists>r. app (srv_event_stream_state srv) e = Inr (srv_event_stream_state srv', r)"
  by (auto simp: emit_def)

lemma emit_all_on_workspaces:
  "run_events workspaces_apply (ess_workspaces (srv_event_stream_state srv)) es = Inr p \<Longrightarrow>
   \<exists>srv'. emit_all ts on_workspaces srv es = Inr srv' \<and>
     srv_event_stream_state srv' = (srv_event_stream_state srv)\<lparr>ess_workspaces := p\<rparr>"
proof (induction es arbitrary: srv)
  case (Cons e es)
  then obtain q r where q: "workspaces_apply (ess_workspaces (srv_event_stream_state srv)) e = Inr (q, r)"
    and rest: "run_events workspaces_apply q es = Inr p" by auto
  have "on_workspaces (srv_event_stream_state srv) e =
      Inr ((srv_event_stream_state srv)\<lparr>ess_workspaces := q\<rparr>, r)"
    using q by (simp add: on_workspaces_def)
  from emit_Inr [where app = on_workspaces, OF this, of ts] obtain srv1 where
    "emit ts on_workspaces srv e = Inr srv1"
    "srv_event_stream_state srv1 = (srv_event_stream_state srv)\<lparr>ess_workspaces := q\<rparr>" by blast
  with Cons.IH [of srv1] rest show ?case by auto
qed simp

lemma emit_all_on_windows:
  "run_events windows_apply (ess_windows (srv_event_stream_state srv)) es = Inr p \<Longrightarrow>
   \<exists>srv'. emit_all ts on_windows srv es = Inr srv' \<and>
     srv_event_stream_state srv' = (srv_event_stream_state srv)\<lparr>ess_windows := p\<rparr>"
proof (induction es arbitrary: srv)
  case (Cons e es)
  then obtain q r where q: "windows_apply (ess_windows (srv_event_stream_state srv)) e = Inr (q, r)"
    and rest: "run_events windows_apply q es = Inr p" by auto
  have "on_windows (srv_event_stream_state srv) e =
      Inr ((srv_event_stream_state srv)\<lparr>ess_windows := q\<rparr>, r)"
    using q by (simp add: on_windows_def)
  from emit_Inr [where app = on_windows, OF this, of ts] obtain srv1 where
    "emit ts on_windows srv e = Inr srv1"
    "srv_event_stream_state srv1 = (srv_event_stream_state srv)\<lparr>ess_windows := q\<rparr>" by blast
  with Cons.IH [of srv1] rest show ?case by auto
qed simp

subsection \<open>What a client has been sent\<close>

text \<open>
  \<open>sent\<close> reads off a channel the events it has accepted, in order, received or not. That an
  accepted event is appended, and that receiving drops nothing, is how \<open>async_channel\<close> is documented.
\<close>

definition channel_appends :: "'tx try_send \<Rightarrow> ('tx \<Rightarrow> event list) \<Rightarrow> bool" where
  "channel_appends try_send sent \<longleftrightarrow>
     (\<forall>tx e. fst (try_send tx e) = SendOk \<longrightarrow> sent (snd (try_send tx e)) = sent tx @ [e])"

text \<open>A client in step with the server: applying what it was sent gives the server's state.\<close>

definition in_step :: "event_stream_state \<Rightarrow> event list \<Rightarrow> bool" where
  "in_step s es \<longleftrightarrow>
     (\<exists>t. run_events event_stream_apply event_stream_default es = Inr t \<and> event_stream_eqv s t)"

definition server_inv :: "('tx \<Rightarrow> event list) \<Rightarrow> ('tx, 'dx) ipc_server \<Rightarrow> bool" where
  "server_inv sent srv \<longleftrightarrow> event_stream_inv (srv_event_stream_state srv) \<and>
     (\<forall>stream \<in> set (srv_event_streams srv).
        in_step (srv_event_stream_state srv) (sent (snd_events stream)))"

lemma in_step_snoc:
  assumes "event_stream_inv s" "in_step s es" "event_stream_apply s e = Inr (s', r)"
  shows "in_step s' (es @ [e])"
proof -
  obtain t where t: "run_events event_stream_apply event_stream_default es = Inr t"
    "event_stream_eqv s t" using assms(2) by (auto simp: in_step_def)
  have "event_stream_inv t" using ess.run_inv [OF ess.default_inv t(1)] .
  from ess.apply_cong [OF assms(1) this t(2) assms(3)] t(1) show ?thesis
    by (auto simp: in_step_def ess.run_append)
qed

lemma emit_inv:
  assumes ch: "channel_appends ts sent" and inv: "server_inv sent srv"
    and app: "agrees_on own app" "own e" and emit: "emit ts app srv e = Inr srv'"
  shows "server_inv sent srv'"
proof -
  let ?s = "srv_event_stream_state srv" and ?s' = "srv_event_stream_state srv'"
  obtain r where r: "app ?s e = Inr (?s', r)" using emit_state [OF emit] by blast
  obtain r' where r': "event_stream_apply ?s e = Inr (?s', r')" using agrees_onD [OF app r] by blast
  from emit_Inr [where app = app, OF r, of ts] emit have streams: "mset (srv_event_streams srv') =
      mset (map (after_send ts e) (filter (send_ok ts e) (srv_event_streams srv)))" by auto
  have "in_step ?s' (sent (snd_events stream'))" if "stream' \<in> set (srv_event_streams srv')" for stream'
  proof -
    from that have "stream' \<in># mset (srv_event_streams srv')" by simp
    then obtain stream where stream: "stream \<in> set (srv_event_streams srv)" "send_ok ts e stream"
      "stream' = after_send ts e stream" unfolding streams by auto
    then have "in_step ?s (sent (snd_events stream))" using inv by (auto simp: server_inv_def)
    with in_step_snoc [OF _ this r'] inv have "in_step ?s' (sent (snd_events stream) @ [e])"
      by (auto simp: server_inv_def)
    with ch stream(2,3) show ?thesis by (auto simp: channel_appends_def)
  qed
  with inv event_stream_apply_inv [OF _ r'] show ?thesis by (auto simp: server_inv_def)
qed

lemma emit_all_inv:
  assumes "channel_appends ts sent" "agrees_on own app"
  shows "server_inv sent srv \<Longrightarrow> list_all own es \<Longrightarrow> emit_all ts app srv es = Inr srv' \<Longrightarrow>
    server_inv sent srv'"
  using emit_inv [OF assms(1) _ assms(2)] by (induction es arbitrary: srv) auto

lemma send_initial_sent:
  "channel_appends ts sent \<Longrightarrow> send_initial ts tx es = Inr tx' \<Longrightarrow> sent tx' = sent tx @ es"
  by (induction es arbitrary: tx) (auto simp: channel_appends_def Let_def split_def split: if_splits)

lemma subscribe_inv:
  assumes "channel_appends ts sent" "server_inv sent srv" "sent tx = []"
    "subscribe ts tx dx srv = Inr srv'"
  shows "server_inv sent srv'"
proof -
  let ?s = "srv_event_stream_state srv"
  obtain tx' where tx': "send_initial ts tx (event_stream_replicate ?s) = Inr tx'"
    and srv': "srv' = srv\<lparr>srv_event_streams := srv_event_streams srv @
      [\<lparr>snd_events = tx', snd_disconnect = dx\<rparr>]\<rparr>"
    using assms(4) by (auto simp: subscribe_def)
  have "in_step ?s (sent tx')"
    using send_initial_sent [OF assms(1) tx'] assms(2,3) ess.replicate_rebuilds [of ?s]
    by (auto simp: in_step_def server_inv_def)
  with assms(2) show ?thesis by (auto simp: server_inv_def srv')
qed

lemma diffs_owned:
  "list_all workspaces_owns (workspaces_diff m f items)"
  "list_all windows_owns (windows_diff wm wins)"
proof -
  have loop: "list_all workspaces_owns ev \<Longrightarrow>
      list_all workspaces_owns (fst (workspaces_loop m f items ev seen))" for ev seen
    by (induction m f items ev seen rule: workspaces_loop.induct)
      (auto simp: Let_def workspace_events_def split: option.splits prod.splits)
  show "list_all workspaces_owns (workspaces_diff m f items)"
    using loop [of "[]" "{}"] by (auto simp: workspaces_diff_def split: prod.splits)
  have "windows_owns e" if "e \<in> set (windows_diff wm wins)" for e
    using that by (cases rule: windows_diff_cases) (auto elim!: window_events_cases)
  then show "list_all windows_owns (windows_diff wm wins)" by (simp add: list_all_iff)
qed

subsection \<open>The server as a transition system\<close>

text \<open>
  Everything that happens to a running server: a client subscribes over a fresh channel, the
  compositor refreshes or reports, a client takes events out of its channel. A step the code would
  panic in is not a step; the theorems below say when it cannot panic.
\<close>

inductive stream_step ::
  "'tx try_send \<Rightarrow> ('tx \<Rightarrow> event list) \<Rightarrow> ('tx, 'dx) ipc_server \<Rightarrow> ('tx, 'dx) ipc_server \<Rightarrow> bool"
  for ts :: "'tx try_send" and sent :: "'tx \<Rightarrow> event list" where
  subscribed: "sent tx = [] \<Longrightarrow> subscribe ts tx dx srv = Inr srv' \<Longrightarrow> stream_step ts sent srv srv'"
| layout_refreshed: "ipc_refresh_layout ts f ws_items win_items is_open srv = Inr srv' \<Longrightarrow>
    stream_step ts sent srv srv'"
| keyboard_changed: "ipc_keyboard_layouts_changed ts names active srv = Inr srv' \<Longrightarrow>
    stream_step ts sent srv srv'"
| keyboard_refreshed: "ipc_refresh_keyboard_layout_index ts active srv = Inr srv' \<Longrightarrow>
    stream_step ts sent srv srv'"
| config_loaded: "ipc_config_loaded ts failed srv = Inr srv' \<Longrightarrow> stream_step ts sent srv srv'"
| screenshot_taken: "ipc_screenshot_taken ts path srv = Inr srv' \<Longrightarrow> stream_step ts sent srv srv'"
| received: "i < length (srv_event_streams srv) \<Longrightarrow>
    sent tx' = sent (snd_events (srv_event_streams srv ! i)) \<Longrightarrow>
    stream_step ts sent srv (srv\<lparr>srv_event_streams :=
      (srv_event_streams srv)[i := (srv_event_streams srv ! i)\<lparr>snd_events := tx'\<rparr>]\<rparr>)"

definition server_start :: "('tx, 'dx) ipc_server" where
  "server_start = \<lparr>srv_event_streams = [], srv_event_stream_state = event_stream_default\<rparr>"

abbreviation server_reachable ::
  "'tx try_send \<Rightarrow> ('tx \<Rightarrow> event list) \<Rightarrow> ('tx, 'dx) ipc_server \<Rightarrow> bool" where
  "server_reachable ts sent \<equiv> (stream_step ts sent)\<^sup>*\<^sup>* server_start"

lemma server_start_inv: "server_inv sent server_start"
  using ess.default_inv by (simp add: server_inv_def server_start_def)

lemma received_inv:
  assumes "server_inv sent srv" "i < length (srv_event_streams srv)"
    "sent tx' = sent (snd_events (srv_event_streams srv ! i))"
  shows "server_inv sent (srv\<lparr>srv_event_streams :=
      (srv_event_streams srv)[i := (srv_event_streams srv ! i)\<lparr>snd_events := tx'\<rparr>]\<rparr>)"
proof -
  have "in_step (srv_event_stream_state srv) (sent tx')"
    using assms by (simp add: server_inv_def)
  with assms(1) show ?thesis
    by (auto simp: server_inv_def dest!: set_update_subset_insert [THEN subsetD])
qed

lemma refresh_layout_inv:
  assumes "channel_appends ts sent" "server_inv sent srv"
    "ipc_refresh_layout ts f ws_items win_items is_open srv = Inr srv'"
  shows "server_inv sent srv'"
proof -
  from assms(3) obtain srv1 srv2 where
    ws: "ipc_refresh_workspaces ts f ws_items srv = Inr srv1" and
    win: "ipc_refresh_windows ts win_items srv1 = Inr srv2" and
    ov: "ipc_refresh_overview ts is_open srv2 = Inr srv'"
    by (auto simp: ipc_refresh_layout_def)
  have "server_inv sent srv1"
    using emit_all_inv [OF assms(1) agrees_on_parts(1) assms(2) diffs_owned(1)] ws
    unfolding ipc_refresh_workspaces_def by blast
  then have "server_inv sent srv2"
    using emit_all_inv [OF assms(1) agrees_on_parts(2) _ diffs_owned(2)] win
    unfolding ipc_refresh_windows_def by blast
  with ov show ?thesis
    using emit_inv [OF assms(1) _ agrees_on_parts(4), of srv2 "OverviewOpenedOrClosed is_open"]
    by (auto simp: ipc_refresh_overview_def split: if_splits)
qed

lemma stream_step_inv:
  assumes ch: "channel_appends ts sent" and "server_inv sent srv" "stream_step ts sent srv srv'"
  shows "server_inv sent srv'"
  using assms(3,2)
proof (cases rule: stream_step.cases)
  case (subscribed tx dx)
  then show ?thesis using subscribe_inv [OF ch assms(2)] by blast
next
  case layout_refreshed
  then show ?thesis using refresh_layout_inv [OF ch assms(2)] by blast
next
  case (received i tx')
  then show ?thesis using received_inv [OF assms(2)] by blast
next
  case (keyboard_changed names active)
  then show ?thesis unfolding ipc_keyboard_layouts_changed_def
    by (rule emit_inv [OF ch assms(2) agrees_on_parts(3), rotated]) simp
next
  case (keyboard_refreshed active)
  have "server_inv sent srv'"
    if "emit ts on_keyboard_layouts srv (KeyboardLayoutSwitched (of_nat active)) = Inr srv'"
    using that by (rule emit_inv [OF ch assms(2) agrees_on_parts(3), rotated]) simp
  with keyboard_refreshed assms(2) show ?thesis
    by (auto simp: ipc_refresh_keyboard_layout_index_def split: if_splits)
next
  case (config_loaded failed)
  then show ?thesis unfolding ipc_config_loaded_def
    by (rule emit_inv [OF ch assms(2) agrees_on_parts(5), rotated]) simp
next
  case (screenshot_taken path)
  then show ?thesis unfolding ipc_screenshot_taken_def
    by (rule emit_inv [OF ch assms(2) agrees_on_parts(5), rotated]) simp
qed

lemma reachable_server_inv:
  assumes "channel_appends ts sent" "server_reachable ts sent srv"
  shows "server_inv sent srv"
  using assms(2)
  by (induction rule: rtranclp_induct) (auto intro: server_start_inv stream_step_inv [OF assms(1)])

end
