(* ===== verification/Ipc_Properties.thy ===== *)
theory Ipc_Properties
  imports Ipc_Stream
begin

text \<open>
  What the event stream promises, stated over the model of \<^verbatim>\<open>niri-ipc/src/state.rs\<close> and
  \<^verbatim>\<open>src/ipc/server.rs\<close>: clients stay in step with the server, a refresh synchronises the server
  with the layout and is quiet when nothing changed, slow clients and nobody else are dropped.
\<close>

subsection \<open>A refresh of an up-to-date state is quiet\<close>

lemma workspaces_loop_quiet:
  assumes "\<And>x. x \<in> set items \<Longrightarrow> \<exists>w. hm_get m (item_id x) = Some w \<and>
      \<not> needs_full_update w x \<and> workspace_events f w x = []"
  shows "workspaces_loop m f items ev seen = (ev, set (map item_id items) \<union> seen, False)"
  using assms
proof (induction items arbitrary: ev seen)
  case (Cons x items)
  obtain w where w: "hm_get m (item_id x) = Some w" "\<not> needs_full_update w x"
    "workspace_events f w x = []" using Cons.prems [of x] by auto
  then show ?case using Cons.IH [of ev "insert (item_id x) seen"] Cons.prems
    by (auto simp: Let_def)
qed simp

lemma made_workspace_quiet:
  "\<not> needs_full_update (make_ipc_workspace f x) x" "workspace_events f (make_ipc_workspace f x) x = []"
  by (cases x rule: prod_cases3; simp add: needs_full_update_def workspace_events_def
      make_ipc_workspace_def)+

lemma workspaces_diff_quiet:
  assumes ok: "items_ok f items" and m: "map_of m = layout_workspaces f items"
  shows "workspaces_diff m f items = []"
proof -
  have "workspaces_loop m f items [] {} = ([], set (map item_id items) \<union> {}, False)"
    using made_workspace_quiet layout_workspaces_Some [OF ok] m
    by (intro workspaces_loop_quiet) metis
  moreover have "i \<in> item_id ` set items" if i: "i \<in> set (hm_keys m)" for i
    using i layout_workspaces_Some [OF ok, of i] m by (auto simp: hm_in_keys_iff)
  ultimately show ?thesis by (auto simp: workspaces_diff_def list_ex_iff)
qed

lemma made_window_quiet:
  assumes "hm_get m (item_win x) = Some (make_ipc_window x)"
  shows "window_events m x = ([], [])"
  using assms by (cases x rule: prod_cases3)
    (simp add: window_events_def window_changed_def make_ipc_window_def)

lemma windows_diff_quiet:
  assumes ok: "win_items_ok items" and inv: "hm_inv m" and m: "map_of m = layout_windows items"
  shows "windows_diff m items = []"
proof -
  have get: "hm_get m k = Some v \<longleftrightarrow> (\<exists>x \<in> set items. item_win x = k \<and> make_ipc_window x = v)" for k v
    using layout_windows_Some [OF ok] m by simp
  have quiet: "window_events m x = ([], [])" if "x \<in> set items" for x
    using that get by (intro made_window_quiet) blast
  have keys: "i \<in> item_win ` set items" if "i \<in> set (hm_keys m)" for i
    using that get [of i] by (auto simp: hm_in_keys_iff)
  have focused: "\<exists>x \<in> set items. item_focused x" if "w \<in> set (hm_values m)" "win_is_focused w" for w
    using hm_in_values_get [OF inv that(1)] get that(2) by force
  show ?thesis
    using quiet keys focused by (auto simp: windows_diff_def Let_def list_ex_iff filter_empty_conv)
qed

subsection \<open>A refresh reaches the layout\<close>

lemma layout_windows_ok:
  assumes ok: "win_items_ok items" and "hm_inv m" "map_of m = layout_windows items"
  shows "win_map_ok m"
proof -
  have get: "hm_get m k = Some v \<longleftrightarrow> (\<exists>x \<in> set items. item_win x = k \<and> make_ipc_window x = v)" for k v
    using layout_windows_Some [OF ok] assms(3) by simp
  have "hm_keyed win_id m"
    unfolding hm_keyed_def using assms(2) get by (fastforce simp: hm_inv_def)
  moreover have "i = j" if i: "hm_get m i = Some v" "win_is_focused v"
    and j: "hm_get m j = Some w" "win_is_focused w" for i v j w
  proof -
    obtain x where x: "x \<in> set items" "item_win x = i" "make_ipc_window x = v" using i(1) get by blast
    obtain y where y: "y \<in> set items" "item_win y = j" "make_ipc_window y = w" using j(1) get by blast
    have "item_focused x" "item_focused y" using x(3) y(3) i(2) j(2) by (simp_all flip: x(3) y(3))
    with x y win_items_okD(3) [OF ok x(1) y(1)] show ?thesis by simp
  qed
  ultimately show ?thesis using assms(2) unfolding win_map_ok_def by blast
qed

lemma refresh_workspaces_reaches:
  assumes "ws_map_ok (wss_workspaces (ess_workspaces (srv_event_stream_state srv)))"
    and ok: "items_ok f items"
  shows "\<exists>srv' p. ipc_refresh_workspaces ts f items srv = Inr srv' \<and>
    srv_event_stream_state srv' = (srv_event_stream_state srv)\<lparr>ess_workspaces := p\<rparr> \<and>
    map_of (wss_workspaces p) = layout_workspaces f items \<and> ws_map_ok (wss_workspaces p)"
proof -
  obtain p where p: "run_events workspaces_apply (ess_workspaces (srv_event_stream_state srv))
      (workspaces_diff (wss_workspaces (ess_workspaces (srv_event_stream_state srv))) f items) = Inr p"
    "map_of (wss_workspaces p) = layout_workspaces f items" "ipc_workspaces_inv p"
    using workspaces_diff_synchronises [OF assms] by blast
  moreover have "ws_map_ok (wss_workspaces p)"
    using layout_workspaces_ok [OF ok _ p(2)] p(3) by (simp add: ipc_workspaces_inv_def)
  ultimately show ?thesis
    using emit_all_on_workspaces [OF p(1), of ts] unfolding ipc_refresh_workspaces_def by blast
qed

lemma refresh_windows_reaches:
  assumes "win_map_ok (wis_windows (ess_windows (srv_event_stream_state srv)))"
    and ok: "win_items_ok items"
    and "pids_stable (wis_windows (ess_windows (srv_event_stream_state srv))) items"
  shows "\<exists>srv' p. ipc_refresh_windows ts items srv = Inr srv' \<and>
    srv_event_stream_state srv' = (srv_event_stream_state srv)\<lparr>ess_windows := p\<rparr> \<and>
    map_of (wis_windows p) = layout_windows items \<and> win_map_ok (wis_windows p)"
proof -
  obtain p where p: "run_events windows_apply (ess_windows (srv_event_stream_state srv))
      (windows_diff (wis_windows (ess_windows (srv_event_stream_state srv))) items) = Inr p"
    "map_of (wis_windows p) = layout_windows items" "windows_inv p"
    using windows_diff_synchronises [OF assms] by blast
  moreover have "win_map_ok (wis_windows p)"
    using layout_windows_ok [OF ok _ p(2)] p(3) by (simp add: windows_inv_def)
  ultimately show ?thesis
    using emit_all_on_windows [OF p(1), of ts] unfolding ipc_refresh_windows_def by blast
qed

lemma refresh_overview_reaches:
  "\<exists>srv'. ipc_refresh_overview ts is_open srv = Inr srv' \<and>
    srv_event_stream_state srv' =
      (srv_event_stream_state srv)\<lparr>ess_overview := \<lparr>ovs_is_open = is_open\<rparr>\<rparr>"
proof (cases "ovs_is_open (ess_overview (srv_event_stream_state srv)) = is_open")
  case True
  then have "ipc_refresh_overview ts is_open srv = Inr srv"
    "ess_overview (srv_event_stream_state srv) = \<lparr>ovs_is_open = is_open\<rparr>"
    by (auto simp: ipc_refresh_overview_def)
  then show ?thesis by (metis (full_types) event_stream_state.surjective event_stream_state.update_convs(4))
next
  case False
  have "on_overview (srv_event_stream_state srv) (OverviewOpenedOrClosed is_open) =
      Inr ((srv_event_stream_state srv)\<lparr>ess_overview := \<lparr>ovs_is_open = is_open\<rparr>\<rparr>, None)"
    by (cases "ess_overview (srv_event_stream_state srv)") (simp add: on_overview_def)
  from emit_Inr [where app = on_overview, OF this, of ts] False show ?thesis
    by (auto simp: ipc_refresh_overview_def)
qed

subsection \<open>The initial burst\<close>

text \<open>
  A bounded channel: while its receiver lives and it holds fewer than \<open>cap\<close> events, \<open>try_send\<close>
  succeeds and queues the event.
\<close>

definition channel_bounded ::
  "'tx try_send \<Rightarrow> ('tx \<Rightarrow> event list) \<Rightarrow> ('tx \<Rightarrow> bool) \<Rightarrow> nat \<Rightarrow> bool" where
  "channel_bounded ts queued is_open cap \<longleftrightarrow>
     (\<forall>tx e. is_open tx \<and> length (queued tx) < cap \<longrightarrow> fst (ts tx e) = SendOk \<and>
        queued (snd (ts tx e)) = queued tx @ [e] \<and> is_open (snd (ts tx e)))"

lemma send_initial_fits:
  assumes "channel_bounded ts queued is_open cap"
  shows "is_open tx \<Longrightarrow> length (queued tx) + length es \<le> cap \<Longrightarrow>
    \<exists>tx'. send_initial ts tx es = Inr tx' \<and> queued tx' = queued tx @ es"
proof (induction es arbitrary: tx)
  case (Cons e es)
  obtain r tx' where ts: "ts tx e = (r, tx')" by force
  have "is_open tx \<and> length (queued tx) < cap" using Cons.prems by simp
  with assms have "fst (ts tx e) = SendOk \<and> queued (snd (ts tx e)) = queued tx @ [e] \<and>
      is_open (snd (ts tx e))" unfolding channel_bounded_def by blast
  then have "r = SendOk" "queued tx' = queued tx @ [e]" "is_open tx'" using ts by simp_all
  with ts Cons.IH [of tx'] Cons.prems show ?case by auto
qed simp

lemma replicate_burst: "length (event_stream_replicate s) \<le> 5"
  by (simp add: event_stream_replicate_def workspaces_replicate_def windows_replicate_def
      keyboard_layouts_replicate_def overview_replicate_def config_replicate_def split: option.split)

subsection \<open>A channel and a layout for the examples\<close>

text \<open>A channel nobody reads from, as the list of the events it took.\<close>

definition list_channel :: "event list try_send" where
  "list_channel tx e =
     (if length tx < EVENT_STREAM_BUFFER_SIZE then (SendOk, tx @ [e]) else (SendFull, tx))"

definition example_workspaces :: "workspace_item list" where
  "example_workspaces =
     [(Some \<lparr>mv_output_name = ''eDP-1'', mv_active_workspace_idx = 0\<rparr>, 0,
       \<lparr>wv_id = 1, wv_name = None, wv_active_window = Some 7, wv_is_urgent = False\<rparr>),
      (Some \<lparr>mv_output_name = ''eDP-1'', mv_active_workspace_idx = 0\<rparr>, 1,
       \<lparr>wv_id = 2, wv_name = None, wv_active_window = None, wv_is_urgent = False\<rparr>)]"

definition example_windows :: "window_item list" where
  "example_windows =
     [(\<lparr>mp_id = 7, mp_title = Some ''term'', mp_app_id = None, mp_pid = Some 42,
        mp_is_focused = True, mp_is_floating = False, mp_is_urgent = False,
        mp_focus_timestamp = None\<rparr>, Some 1,
       \<lparr>wl_pos_in_scrolling_layout = Some (1, 1), wl_tile_size = (800, 600),
        wl_window_size = (800, 600), wl_tile_pos_in_workspace_view = None,
        wl_window_offset_in_tile = (0, 0)\<rparr>)]"

definition example_server :: "(event list, unit) ipc_server" where
  "example_server =
     \<lparr>srv_event_streams =
        [\<lparr>snd_events = [WorkspacesChanged [], WindowsChanged [], OverviewOpenedOrClosed False,
          ConfigLoaded False], snd_disconnect = ()\<rparr>],
      srv_event_stream_state = event_stream_default\<rparr>"

lemmas default_defs = event_stream_default_def workspaces_default_def windows_default_def
  keyboard_layouts_default_def overview_default_def config_default_def

lemmas replicate_defs = event_stream_replicate_def workspaces_replicate_def windows_replicate_def
  keyboard_layouts_replicate_def overview_replicate_def config_replicate_def

lemma list_channel_appends: "channel_appends list_channel id"
  by (simp add: channel_appends_def list_channel_def)

lemma list_channel_bounded:
  "channel_bounded list_channel id (\<lambda>_. True) EVENT_STREAM_BUFFER_SIZE"
  by (simp add: channel_bounded_def list_channel_def)

lemma example_subscribes: "subscribe list_channel [] () server_start = Inr example_server"
  by (simp add: subscribe_def server_start_def example_server_def replicate_defs default_defs
      hm_values_def list_channel_def EVENT_STREAM_BUFFER_SIZE_def)

lemma example_server_reachable: "server_reachable list_channel id example_server"
  using stream_step.subscribed [of id "[]", OF _ example_subscribes] by (simp add: r_into_rtranclp)

lemma example_workspaces_ok: "items_ok (Some 1) example_workspaces"
  by (simp add: items_ok_def example_workspaces_def item_is_active_def)

lemma example_windows_ok: "win_items_ok example_windows"
  by (simp add: win_items_ok_def example_windows_def)

subsection \<open>Properties\<close>

text \<open>
  C2. A client that applies the events it was sent, from the default state, never panics and holds
  the state of the server, in every reachable state of the server and whenever the client
  subscribed: no event is missed, duplicated or reordered between the initial burst and the
  events that follow.
\<close>

theorem clients_in_step:
  assumes "channel_appends ts sent" "server_reachable ts sent srv"
    "stream \<in> set (srv_event_streams srv)"
  shows "\<exists>t. run_events event_stream_apply event_stream_default (sent (snd_events stream)) = Inr t \<and>
    event_stream_eqv (srv_event_stream_state srv) t"
  using reachable_server_inv [OF assms(1,2)] assms(3) by (auto simp: server_inv_def in_step_def)

theorem clients_in_step_witness:
  "\<exists>t. run_events event_stream_apply event_stream_default (snd_events (hd (srv_event_streams example_server))) = Inr t \<and>
    event_stream_eqv (srv_event_stream_state example_server) t"
  using clients_in_step [OF list_channel_appends example_server_reachable,
      of "hd (srv_event_streams example_server)"]
  by (simp add: example_server_def)

text \<open>
  C6. A layout refresh never panics and brings the state that is sent to clients to the layout:
  workspaces, windows and the overview flag are those of the layout, the other parts are kept, and
  the state is again one the next refresh can start from.
\<close>

theorem refresh_layout_synchronises:
  assumes "ws_map_ok (wss_workspaces (ess_workspaces (srv_event_stream_state srv)))"
    and "items_ok f ws_items"
    and "win_map_ok (wis_windows (ess_windows (srv_event_stream_state srv)))"
    and "win_items_ok win_items"
    and "pids_stable (wis_windows (ess_windows (srv_event_stream_state srv))) win_items"
  shows "\<exists>srv' s'. ipc_refresh_layout ts f ws_items win_items is_open srv = Inr srv' \<and>
    srv_event_stream_state srv' = s' \<and>
    map_of (wss_workspaces (ess_workspaces s')) = layout_workspaces f ws_items \<and>
    map_of (wis_windows (ess_windows s')) = layout_windows win_items \<and>
    ovs_is_open (ess_overview s') = is_open \<and>
    ess_keyboard_layouts s' = ess_keyboard_layouts (srv_event_stream_state srv) \<and>
    ess_config s' = ess_config (srv_event_stream_state srv) \<and>
    ws_map_ok (wss_workspaces (ess_workspaces s')) \<and> win_map_ok (wis_windows (ess_windows s'))"
proof -
  obtain srv1 p where 1: "ipc_refresh_workspaces ts f ws_items srv = Inr srv1"
    "srv_event_stream_state srv1 = (srv_event_stream_state srv)\<lparr>ess_workspaces := p\<rparr>"
    "map_of (wss_workspaces p) = layout_workspaces f ws_items" "ws_map_ok (wss_workspaces p)"
    using refresh_workspaces_reaches [OF assms(1,2)] by blast
  obtain srv2 q where 2: "ipc_refresh_windows ts win_items srv1 = Inr srv2"
    "srv_event_stream_state srv2 = (srv_event_stream_state srv1)\<lparr>ess_windows := q\<rparr>"
    "map_of (wis_windows q) = layout_windows win_items" "win_map_ok (wis_windows q)"
    using refresh_windows_reaches [of srv1 win_items ts] assms(3-5) 1(2) by auto
  obtain srv3 where "ipc_refresh_overview ts is_open srv2 = Inr srv3"
    "srv_event_stream_state srv3 =
      (srv_event_stream_state srv2)\<lparr>ess_overview := \<lparr>ovs_is_open = is_open\<rparr>\<rparr>"
    using refresh_overview_reaches by blast
  with 1 2 show ?thesis by (simp add: ipc_refresh_layout_def)
qed

theorem refresh_layout_synchronises_witness:
  "\<exists>srv' s'. ipc_refresh_layout list_channel (Some 1) example_workspaces example_windows True
      example_server = Inr srv' \<and> srv_event_stream_state srv' = s' \<and>
    map_of (wss_workspaces (ess_workspaces s')) = layout_workspaces (Some 1) example_workspaces \<and>
    map_of (wis_windows (ess_windows s')) = layout_windows example_windows \<and>
    ovs_is_open (ess_overview s') = True"
  using refresh_layout_synchronises [OF _ example_workspaces_ok _ example_windows_ok,
      of example_server list_channel True]
  by (auto simp: example_server_def default_defs ws_map_ok_def win_map_ok_def pids_stable_def)

text \<open>
  C12. A refresh is quiet when the state sent to clients already is the layout's: no event is
  emitted, no client is touched.
\<close>

theorem refresh_layout_quiet:
  assumes "items_ok f ws_items" "win_items_ok win_items"
    and "event_stream_inv (srv_event_stream_state srv)"
    and "map_of (wss_workspaces (ess_workspaces (srv_event_stream_state srv))) =
      layout_workspaces f ws_items"
    and "map_of (wis_windows (ess_windows (srv_event_stream_state srv))) = layout_windows win_items"
  shows "ipc_refresh_layout ts f ws_items win_items
      (ovs_is_open (ess_overview (srv_event_stream_state srv))) srv = Inr srv"
  using workspaces_diff_quiet [OF assms(1,4)] windows_diff_quiet [OF assms(2) _ assms(5)] assms(3)
  by (simp add: ipc_refresh_layout_def ipc_refresh_workspaces_def ipc_refresh_windows_def
      ipc_refresh_overview_def event_stream_inv_def windows_inv_def)

theorem refresh_layout_quiet_witness:
  "ipc_refresh_layout list_channel None [] [] False example_server = Inr example_server"
  using refresh_layout_quiet [of None "[]" "[]" example_server list_channel]
  by (simp add: items_ok_def win_items_ok_def example_server_def layout_workspaces_def
      layout_windows_def default_defs event_stream_inv_def ipc_workspaces_inv_def windows_inv_def)

text \<open>
  C13. \<open>send_event\<close> never panics, offers the event once to every client, keeps (as a multiset)
  exactly the clients whose channel accepted it, and signals the disconnect channel of exactly the
  others, however many fail at once.
\<close>

theorem send_event_exact:
  "\<exists>kept. send_event ts e streams =
       Inr (kept, rev (map snd_disconnect (filter (\<lambda>s. \<not> send_ok ts e s) streams))) \<and>
     mset kept = mset (map (after_send ts e) (filter (send_ok ts e) streams))"
  by (rule send_event_spec)

text \<open>
  C15. Subscribing never panics: the initial burst fits into the empty buffer of a new client,
  whatever the state, and the client joins with exactly the replicated events queued.
\<close>

theorem subscribe_never_panics:
  assumes "channel_bounded ts queued is_open EVENT_STREAM_BUFFER_SIZE"
    and "is_open tx" "queued tx = []"
  shows "\<exists>tx'. subscribe ts tx dx srv = Inr (srv\<lparr>srv_event_streams := srv_event_streams srv @
        [\<lparr>snd_events = tx', snd_disconnect = dx\<rparr>]\<rparr>) \<and>
      queued tx' = event_stream_replicate (srv_event_stream_state srv)"
proof -
  let ?es = "event_stream_replicate (srv_event_stream_state srv)"
  have "length (queued tx) + length ?es \<le> EVENT_STREAM_BUFFER_SIZE"
    using replicate_burst [of "srv_event_stream_state srv"] assms(3)
    by (simp add: EVENT_STREAM_BUFFER_SIZE_def)
  from send_initial_fits [OF assms(1,2) this] assms(3) show ?thesis
    by (auto simp: subscribe_def)
qed

theorem subscribe_never_panics_witness:
  "\<exists>tx'. subscribe list_channel [] () example_server = Inr (example_server\<lparr>srv_event_streams :=
      srv_event_streams example_server @ [\<lparr>snd_events = tx', snd_disconnect = ()\<rparr>]\<rparr>) \<and>
    tx' = event_stream_replicate event_stream_default"
  using subscribe_never_panics [OF list_channel_bounded, of "[]" "()" example_server]
  by (simp add: example_server_def)

text \<open>
  C18. Replaying: the replicated events followed by any run of events from a well-formed state
  bring a fresh client to the end of that run.
\<close>

theorem replicate_then_run:
  assumes "event_stream_inv s" "run_events event_stream_apply s es = Inr s'"
  shows "\<exists>t'. run_events event_stream_apply event_stream_default (event_stream_replicate s @ es) =
      Inr t' \<and> event_stream_eqv s' t' \<and> event_stream_inv t'"
  using ess.late_subscriber [OF assms] ess.run_inv [OF ess.default_inv] by blast

theorem replicate_then_run_witness:
  "\<exists>t'. run_events event_stream_apply event_stream_default
      (event_stream_replicate event_stream_default @ [OverviewOpenedOrClosed True]) = Inr t' \<and>
    event_stream_eqv (event_stream_default\<lparr>ess_overview := \<lparr>ovs_is_open = True\<rparr>\<rparr>) t' \<and>
    event_stream_inv t'"
  using replicate_then_run [OF ess.default_inv, of "[OverviewOpenedOrClosed True]"
      "event_stream_default\<lparr>ess_overview := \<lparr>ovs_is_open = True\<rparr>\<rparr>"]
  by (simp add: apply_overview_event default_defs)

text \<open>
  C31. A client panics on an event in exactly these cases: it names a workspace or a window
  the client does not have, or switches the keyboard layout before any layouts were sent.
\<close>

fun event_dangles :: "event_stream_state \<Rightarrow> event \<Rightarrow> bool" where
  "event_dangles s (WorkspaceActivated i _) = (hm_get (wss_workspaces (ess_workspaces s)) i = None)"
| "event_dangles s (WorkspaceActiveWindowChanged i _) =
     (hm_get (wss_workspaces (ess_workspaces s)) i = None)"
| "event_dangles s (WindowClosed i) = (hm_get (wis_windows (ess_windows s)) i = None)"
| "event_dangles s (WindowLayoutsChanged changes) =
     list_ex (\<lambda>(i, _). hm_get (wis_windows (ess_windows s)) i = None) changes"
| "event_dangles s (KeyboardLayoutSwitched _) =
     (kls_keyboard_layouts (ess_keyboard_layouts s) = None)"
| "event_dangles s _ = False"

lemma expect_eq_Inl: "(\<exists>p. bind_res (expect msg m) (\<lambda>x. Inr (f x)) = Inl p) \<longleftrightarrow> m = None"
  by (cases m) auto

lemma set_layouts_panics:
  "(\<exists>p. windows_set_layouts m cs = Inl p) \<longleftrightarrow> list_ex (\<lambda>(i, _). hm_get m i = None) cs"
proof (induction cs arbitrary: m)
  case (Cons c cs)
  obtain i l where c: "c = (i, l)" by force
  show ?case
  proof (cases "hm_get m i")
    case (Some w)
    have "hm_get (hm_insert i w' m) j = None \<longleftrightarrow> hm_get m j = None" for j w'
      using Some by (auto simp: hm_simps)
    then show ?thesis using Cons.IH [of "hm_insert i (w\<lparr>win_layout := l\<rparr>) m"] Some c by simp
  qed (simp add: c)
qed simp

theorem apply_panics_iff: "(\<exists>p. event_stream_apply s e = Inl p) \<longleftrightarrow> event_dangles s e"
proof (cases e)
  case (WindowLayoutsChanged cs)
  then show ?thesis using set_layouts_panics [of "wis_windows (ess_windows s)" cs]
    by (cases "windows_set_layouts (wis_windows (ess_windows s)) cs") (auto simp: apply_windows_event)
qed (auto simp: apply_by_owner apply_unowned_event event_stream_owns_def bind_res_assoc
    expect_eq_Inl Let_def split_def)

text \<open>
  Activating a workspace: the other workspaces of its output, and no workspace of another
  output, become inactive; if it got focus, every other workspace loses it; nothing else changes.
\<close>

theorem workspace_activated_exact:
  assumes "ipc_workspaces_inv s" "hm_get (wss_workspaces s) i = Some w"
  shows "\<exists>s'. workspaces_apply s (WorkspaceActivated i focused) = Inr (s', None) \<and>
    (\<forall>j. hm_get (wss_workspaces s') j = map_option (\<lambda>v. v
       \<lparr>ws_is_active := (if ws_output v = ws_output w then j = i else ws_is_active v),
        ws_is_focused := (if focused then j = i else ws_is_focused v)\<rparr>) (hm_get (wss_workspaces s) j))"
proof -
  have "ws_id v = j" if "hm_get (wss_workspaces s) j = Some v" for j v
    using assms(1) that by (auto simp: ipc_workspaces_inv_def dest: hm_keyedD)
  then have "map_option (ws_got_activated i focused (ws_output w)) (hm_get (wss_workspaces s) j) =
      map_option (\<lambda>v. v\<lparr>ws_is_active := (if ws_output v = ws_output w then j = i else ws_is_active v),
        ws_is_focused := (if focused then j = i else ws_is_focused v)\<rparr>) (hm_get (wss_workspaces s) j)" for j
    by (cases "hm_get (wss_workspaces s) j") (auto simp: ws_got_activated_def Let_def)
  then show ?thesis using assms(2) by (simp add: hm_simps)
qed

theorem workspace_activated_exact_witness:
  "\<exists>s'. workspaces_apply \<lparr>wss_workspaces = [(3, \<lparr>ws_id = 3, ws_idx = 1, ws_name = None,
       ws_output = None, ws_is_urgent = False, ws_is_active = False, ws_is_focused = False,
       ws_active_window_id = None\<rparr>)]\<rparr> (WorkspaceActivated 3 True) = Inr (s', None) \<and>
     map_option ws_is_focused (hm_get (wss_workspaces s') 3) = Some True"
proof -
  let ?w = "\<lparr>ws_id = 3, ws_idx = 1, ws_name = None, ws_output = None, ws_is_urgent = False,
    ws_is_active = False, ws_is_focused = False, ws_active_window_id = None\<rparr>"
  have "ipc_workspaces_inv \<lparr>wss_workspaces = [(3, ?w)]\<rparr>"
    by (simp add: ipc_workspaces_inv_def hm_inv_def hm_keyed_def)
  from workspace_activated_exact [OF this, of 3 ?w True] show ?thesis by auto
qed

text \<open>
  An incremental window event that names only known windows is applied without a panic and
  keeps at most one window focused, every window filed under its own id.
\<close>

lemma win_effect_focused:
  assumes "win_effect e k v = Some w" "win_is_focused w"
  shows "(case e of WindowOpenedOrChanged u \<Rightarrow> if k = win_id u then win_is_focused u
        else \<not> win_is_focused u \<and> (\<exists>w. v = Some w \<and> win_is_focused w)
      | WindowFocusChanged i \<Rightarrow> Some k = i
      | _ \<Rightarrow> (\<exists>w. v = Some w \<and> win_is_focused w))"
proof (cases e)
  case (WindowLayoutsChanged cs)
  have "set_layouts_effect cs k v = Some w \<Longrightarrow> \<exists>u. v = Some u \<and> win_is_focused u"
    using assms(2) by (induction cs arbitrary: v) (fastforce split: if_splits)+
  with WindowLayoutsChanged assms(1) show ?thesis by simp
qed (use assms in \<open>auto split: if_splits\<close>)

theorem windows_apply_one_focus:
  assumes ok: "win_map_ok (wis_windows s)" and app: "applicable (dom (map_of (wis_windows s))) e"
  shows "\<exists>s'. windows_apply s e = Inr (s', None) \<and> win_map_ok (wis_windows s')"
proof -
  have inv: "windows_inv s" using ok by (simp add: win_map_ok_def windows_inv_def)
  obtain s' where s': "windows_apply s e = Inr (s', None)" "windows_inv s'"
    "\<And>k. hm_get (wis_windows s') k = win_effect e k (hm_get (wis_windows s) k)"
    using apply_win_effect [OF inv, of e "[]"] app by auto
  have one: "i = j" if "hm_get (wis_windows s) i = Some v" "hm_get (wis_windows s) j = Some w"
    "win_is_focused v" "win_is_focused w" for i v j w
    using ok that unfolding win_map_ok_def by blast
  have "i = j" if i: "hm_get (wis_windows s') i = Some v" "win_is_focused v"
    and j: "hm_get (wis_windows s') j = Some w" "win_is_focused w" for i v j w
    using win_effect_focused [OF i(1) [unfolded s'(3)] i(2)]
      win_effect_focused [OF j(1) [unfolded s'(3)] j(2)] one
    by (cases e) (auto split: if_splits)
  then show ?thesis using s'(1,2) unfolding win_map_ok_def windows_inv_def by blast
qed

theorem windows_apply_one_focus_witness:
  "\<exists>s'. windows_apply windows_default (WindowOpenedOrChanged (make_ipc_window (hd example_windows))) =
      Inr (s', None) \<and> win_map_ok (wis_windows s')"
  using windows_apply_one_focus [of windows_default
      "WindowOpenedOrChanged (make_ipc_window (hd example_windows))"]
  by (simp add: windows_default_def win_map_ok_def)

end
