(* ===== verification/Layout_Types.thy ===== *)
theory Layout_Types
  imports Complex_Main Niri_Prelude "HOL-Library.Multiset"
begin

text \<open>
  The data the layout code shares: points, sizes and rectangles in logical pixels, sizing modes,
  tiles and what removing a tile returns.

  \<open>Point<f64, Logical>\<close> and \<open>Point<f64, SizeFrac>\<close> (a position as a fraction of the working area)
  are the same record here; which one is meant is clear from the field that holds it.
\<close>

record point =
  pt_x :: real
  pt_y :: real

record extent =
  sz_w :: real
  sz_h :: real

record rectangle =
  rc_loc :: point
  rc_size :: extent

definition point_add :: "point \<Rightarrow> point \<Rightarrow> point" where
  "point_add p q = \<lparr>pt_x = pt_x p + pt_x q, pt_y = pt_y p + pt_y q\<rparr>"

definition point_sub :: "point \<Rightarrow> point \<Rightarrow> point" where
  "point_sub p q = \<lparr>pt_x = pt_x p - pt_x q, pt_y = pt_y p - pt_y q\<rparr>"

text \<open>\<open>(a.to_point() - b.to_point()).downscale(2.)\<close> on sizes.\<close>

definition half_diff :: "extent \<Rightarrow> extent \<Rightarrow> point" where
  "half_diff a b = \<lparr>pt_x = (sz_w a - sz_w b) / 2, pt_y = (sz_h a - sz_h b) / 2\<rparr>"

datatype sizing_mode = SizingNormal | SizingMaximized | SizingFullscreen

datatype column_display = DisplayNormal | DisplayTabbed

datatype column_width = WidthProportion real | WidthFixed real

datatype relative_to =
    RelTopLeft | RelTopRight | RelBottomLeft | RelBottomRight | RelTop | RelBottom | RelLeft | RelRight

record floating_position =
  fp_x :: real
  fp_y :: real
  fp_relative_to :: relative_to

text \<open>
  A tile as the layout operations see it: its window, the column display and the floating position
  its window rules ask for, the sizing mode it was last asked for, whether unfullscreening should
  send it back to the floating layer, the floating position remembered while it is tiled, and the
  sizes it reports. Sizes are decided by the client: they change when the window commits
  (\<open>update_window\<close>), at any time and to any value.

  The window is the source's generic \<open>W\<close>, here the type variable \<open>'w\<close> of its ids.
\<close>

record 'w tile =
  tl_window :: 'w
  tl_default_column_display :: "column_display option"
  tl_pending_sizing_mode :: sizing_mode
  tl_restore_to_floating :: bool
  tl_floating_pos :: "point option"
  tl_default_floating_position :: "floating_position option"
  tl_tile_size :: extent
  tl_expected_width :: real

record 'w removed_tile =
  rt_tile :: "'w tile"
  rt_width :: column_width
  rt_is_full_width :: bool
  rt_is_floating :: bool

lemma mset_insert_at: "mset (take i xs @ x # drop i xs) = add_mset x (mset xs)"
proof -
  have "mset (take i xs) + mset (drop i xs) = mset xs"
    using arg_cong [OF append_take_drop_id [of i xs], of mset] by (simp only: mset_append)
  then show ?thesis by simp
qed

lemma mset_remove_at:
  "i < length xs \<Longrightarrow> mset xs = add_mset (xs ! i) (mset (take i xs @ drop (Suc i) xs))"
  by (subst id_take_nth_drop [of i xs]) simp_all

subsection \<open>Placing a rectangle in an area\<close>

definition clamp_preferring_top_left_in_area :: "rectangle \<Rightarrow> rectangle \<Rightarrow> rectangle" where
  "clamp_preferring_top_left_in_area area rect =
     (let x = min (pt_x (rc_loc rect)) (pt_x (rc_loc area) + sz_w (rc_size area) - sz_w (rc_size rect));
          y = min (pt_y (rc_loc rect)) (pt_y (rc_loc area) + sz_h (rc_size area) - sz_h (rc_size rect));
          x = max x (pt_x (rc_loc area));
          y = max y (pt_y (rc_loc area))
      in rect\<lparr>rc_loc := \<lparr>pt_x = x, pt_y = y\<rparr>\<rparr>)"

definition center_preferring_top_left_in_area :: "rectangle \<Rightarrow> extent \<Rightarrow> point" where
  "center_preferring_top_left_in_area area sz =
     (let offset = half_diff (rc_size area) sz
      in point_add (rc_loc area) \<lparr>pt_x = max (pt_x offset) 0, pt_y = max (pt_y offset) 0\<rparr>)"

text \<open>\<open>rect\<close> lies inside \<open>area\<close>.\<close>

definition inside :: "rectangle \<Rightarrow> rectangle \<Rightarrow> bool" where
  "inside area rect \<longleftrightarrow>
     pt_x (rc_loc area) \<le> pt_x (rc_loc rect) \<and> pt_y (rc_loc area) \<le> pt_y (rc_loc rect) \<and>
     pt_x (rc_loc rect) + sz_w (rc_size rect) \<le> pt_x (rc_loc area) + sz_w (rc_size area) \<and>
     pt_y (rc_loc rect) + sz_h (rc_size rect) \<le> pt_y (rc_loc area) + sz_h (rc_size area)"

definition fits :: "rectangle \<Rightarrow> extent \<Rightarrow> bool" where
  "fits area sz \<longleftrightarrow> sz_w sz \<le> sz_w (rc_size area) \<and> sz_h sz \<le> sz_h (rc_size area)"

lemma clamp_inside: "fits area (rc_size rect) \<Longrightarrow> inside area (clamp_preferring_top_left_in_area area rect)"
  by (auto simp: fits_def inside_def clamp_preferring_top_left_in_area_def Let_def)

lemma clamp_id: "inside area rect \<Longrightarrow> clamp_preferring_top_left_in_area area rect = rect"
  by (auto simp: inside_def clamp_preferring_top_left_in_area_def Let_def min_def max_def intro!: rectangle.equality point.equality)

text \<open>A rectangle that does not fit still has its top left corner in place.\<close>

lemma clamp_top_left:
  "pt_x (rc_loc area) \<le> pt_x (rc_loc (clamp_preferring_top_left_in_area area rect))"
  "pt_y (rc_loc area) \<le> pt_y (rc_loc (clamp_preferring_top_left_in_area area rect))"
  by (simp_all add: clamp_preferring_top_left_in_area_def Let_def)

lemma center_inside:
  "fits area sz \<Longrightarrow> inside area \<lparr>rc_loc = center_preferring_top_left_in_area area sz, rc_size = sz\<rparr>"
  by (auto simp: fits_def inside_def center_preferring_top_left_in_area_def half_diff_def point_add_def
      Let_def max_def field_simps)

end
