(* ===== verification/Scrolling_Column.thy ===== *)
theory Scrolling_Column
  imports Layout_Types
begin

text \<open>
  A column of tiles, \<^verbatim>\<open>Column\<close> of \<^verbatim>\<open>src/layout/scrolling.rs\<close>: which windows it holds and in
  which order, which tile is active, how it is displayed and whether it is going fullscreen or
  maximized. Geometry and animation (tile sizes, offsets, alpha, the tab indicator) do not feed
  back into any of these and are left out; where an operation asks its tiles for new sizes, what
  is kept is the sizing mode it asks for.
\<close>

record 'w column =
  col_tiles :: "'w tile list"
  col_active_tile_idx :: usize
  col_width :: column_width
  col_is_full_width :: bool
  col_is_pending_fullscreen :: bool
  col_is_pending_maximized :: bool
  col_display_mode :: column_display

subsection \<open>Operations\<close>

definition pending_sizing_mode :: "'w column \<Rightarrow> sizing_mode" where
  "pending_sizing_mode col =
     (if col_is_pending_fullscreen col then SizingFullscreen
      else if col_is_pending_maximized col then SizingMaximized
      else SizingNormal)"

definition col_windows :: "'w column \<Rightarrow> 'w list" where
  "col_windows col = map tl_window (col_tiles col)"

definition col_contains :: "'w column \<Rightarrow> 'w \<Rightarrow> bool" where
  "col_contains col window = list_ex (\<lambda>tile. tl_window tile = window) (col_tiles col)"

definition col_position :: "'w column \<Rightarrow> 'w \<Rightarrow> nat option" where
  "col_position col window = position (\<lambda>tile. tl_window tile = window) (col_tiles col)"

text \<open>Every tile is asked for a size in the column's pending sizing mode.\<close>

definition update_tile_sizes :: "'w column \<Rightarrow> 'w column" where
  "update_tile_sizes col = col\<lparr>col_tiles :=
     map (\<lambda>tile. tile\<lparr>tl_pending_sizing_mode := pending_sizing_mode col\<rparr>) (col_tiles col)\<rparr>"

definition activate_idx :: "nat \<Rightarrow> 'w column \<Rightarrow> ('w column \<times> bool) res" where
  "activate_idx idx col =
     (if col_active_tile_idx col = idx then Inr (col, False)
      else bind_res (vec_index (col_tiles col) idx)
        (\<lambda>_. Inr (col\<lparr>col_active_tile_idx := idx\<rparr>, True)))"

definition col_activate_window :: "'w \<Rightarrow> 'w column \<Rightarrow> 'w column res" where
  "col_activate_window window col =
     bind_res (unwrap (col_position col window)) (\<lambda>idx.
     bind_res (activate_idx idx col) (\<lambda>(col, _). Inr col))"

definition add_tile_at :: "nat \<Rightarrow> 'w tile \<Rightarrow> 'w column \<Rightarrow> 'w column res" where
  "add_tile_at idx tile col =
     (let col = (if col_display_mode col \<noteq> DisplayTabbed
                 then col\<lparr>col_is_pending_fullscreen := False, col_is_pending_maximized := False\<rparr>
                 else col)
      in bind_res (vec_insert idx tile (col_tiles col))
           (\<lambda>tiles. Inr (update_tile_sizes (col\<lparr>col_tiles := tiles\<rparr>))))"

definition col_set_fullscreen :: "bool \<Rightarrow> 'w column \<Rightarrow> 'w column res" where
  "col_set_fullscreen is_fullscreen col =
     (if col_is_pending_fullscreen col = is_fullscreen then Inr col
      else bind_res (assert_that ''self.tiles.len() == 1 || self.display_mode == ColumnDisplay::Tabbed''
             (is_fullscreen \<longrightarrow> length (col_tiles col) = 1 \<or> col_display_mode col = DisplayTabbed))
        (\<lambda>_. Inr (update_tile_sizes (col\<lparr>col_is_pending_fullscreen := is_fullscreen\<rparr>))))"

definition col_set_maximized :: "bool \<Rightarrow> 'w column \<Rightarrow> 'w column res" where
  "col_set_maximized maximize col =
     (if col_is_pending_maximized col = maximize then Inr col
      else bind_res (assert_that ''self.tiles.len() == 1 || self.display_mode == ColumnDisplay::Tabbed''
             (maximize \<longrightarrow> length (col_tiles col) = 1 \<or> col_display_mode col = DisplayTabbed))
        (\<lambda>_. Inr (update_tile_sizes (col\<lparr>col_is_pending_maximized := maximize\<rparr>))))"

text \<open>The default display comes from the layout options.\<close>

definition new_with_tile ::
  "column_display \<Rightarrow> 'w tile \<Rightarrow> column_width \<Rightarrow> bool \<Rightarrow> 'w column res" where
  "new_with_tile default_column_display tile width is_full_width =
     (let display_mode = (case tl_default_column_display tile of
            Some display \<Rightarrow> display | None \<Rightarrow> default_column_display);
          rv = \<lparr>col_tiles = [], col_active_tile_idx = 0, col_width = width,
                col_is_full_width = is_full_width, col_is_pending_fullscreen = False,
                col_is_pending_maximized = False, col_display_mode = display_mode\<rparr>
      in bind_res (add_tile_at 0 tile rv) (\<lambda>rv.
           case tl_pending_sizing_mode tile of
             SizingNormal \<Rightarrow> Inr rv
           | SizingMaximized \<Rightarrow> col_set_maximized True rv
           | SizingFullscreen \<Rightarrow> col_set_fullscreen True rv))"

definition col_focus_index :: "u8 \<Rightarrow> 'w column \<Rightarrow> 'w column res" where
  "col_focus_index index col =
     bind_res (last_idx (col_tiles col)) (\<lambda>l.
     bind_res (activate_idx (min (unat index - 1) l) col) (\<lambda>(col, _). Inr col))"

definition col_focus_up :: "'w column \<Rightarrow> ('w column \<times> bool) res" where
  "col_focus_up col = activate_idx (col_active_tile_idx col - 1) col"

definition col_focus_down :: "'w column \<Rightarrow> ('w column \<times> bool) res" where
  "col_focus_down col =
     bind_res (last_idx (col_tiles col)) (\<lambda>l. activate_idx (min (col_active_tile_idx col + 1) l) col)"

definition col_focus_top :: "'w column \<Rightarrow> 'w column res" where
  "col_focus_top col = bind_res (activate_idx 0 col) (\<lambda>(col, _). Inr col)"

definition col_focus_bottom :: "'w column \<Rightarrow> 'w column res" where
  "col_focus_bottom col =
     bind_res (last_idx (col_tiles col)) (\<lambda>l.
     bind_res (activate_idx l col) (\<lambda>(col, _). Inr col))"

definition col_move_to :: "nat \<Rightarrow> 'w column \<Rightarrow> ('w column \<times> bool) res" where
  "col_move_to new_idx col =
     (if col_active_tile_idx col = new_idx then Inr (col, False)
      else bind_res (vec_swap (col_active_tile_idx col) new_idx (col_tiles col))
        (\<lambda>tiles. Inr (col\<lparr>col_tiles := tiles, col_active_tile_idx := new_idx\<rparr>, True)))"

definition col_move_up :: "'w column \<Rightarrow> ('w column \<times> bool) res" where
  "col_move_up col = col_move_to (col_active_tile_idx col - 1) col"

definition col_move_down :: "'w column \<Rightarrow> ('w column \<times> bool) res" where
  "col_move_down col =
     bind_res (last_idx (col_tiles col)) (\<lambda>l. col_move_to (min (col_active_tile_idx col + 1) l) col)"

definition col_toggle_full_width :: "'w column \<Rightarrow> 'w column" where
  "col_toggle_full_width col =
     update_tile_sizes
       (if col_is_pending_maximized col
        then col\<lparr>col_is_pending_maximized := False, col_is_full_width := False\<rparr>
        else col\<lparr>col_is_full_width := \<not> col_is_full_width col\<rparr>)"

definition col_set_column_display :: "column_display \<Rightarrow> 'w column \<Rightarrow> 'w column" where
  "col_set_column_display display col =
     (if col_display_mode col = display then col
      else update_tile_sizes (col\<lparr>col_display_mode := display\<rparr>))"

subsection \<open>The column invariant\<close>

text \<open>The part of \<open>Column::verify_invariants\<close> that speaks about the structure.\<close>

definition column_inv :: "'w column \<Rightarrow> bool" where
  "column_inv col \<longleftrightarrow>
     col_tiles col \<noteq> [] \<and> col_active_tile_idx col < length (col_tiles col) \<and>
     (pending_sizing_mode col \<noteq> SizingNormal \<longrightarrow>
        length (col_tiles col) = 1 \<or> col_display_mode col = DisplayTabbed) \<and>
     list_all (\<lambda>tile. tl_pending_sizing_mode tile = pending_sizing_mode col) (col_tiles col)"

text \<open>The same without the requirement that the tiles have been asked for the pending mode.\<close>

definition column_shape :: "'w column \<Rightarrow> bool" where
  "column_shape col \<longleftrightarrow>
     col_tiles col \<noteq> [] \<and> col_active_tile_idx col < length (col_tiles col) \<and>
     (pending_sizing_mode col \<noteq> SizingNormal \<longrightarrow>
        length (col_tiles col) = 1 \<or> col_display_mode col = DisplayTabbed)"

lemma column_inv_shape: "column_inv col \<Longrightarrow> column_shape col"
  by (simp add: column_inv_def column_shape_def)

lemma pending_sizing_mode_normal:
  "pending_sizing_mode col = SizingNormal \<longleftrightarrow>
     \<not> col_is_pending_fullscreen col \<and> \<not> col_is_pending_maximized col"
  by (simp add: pending_sizing_mode_def)

lemma pending_sizing_mode_update [simp]:
  "pending_sizing_mode (col\<lparr>col_tiles := ts\<rparr>) = pending_sizing_mode col"
  "pending_sizing_mode (col\<lparr>col_active_tile_idx := i\<rparr>) = pending_sizing_mode col"
  "pending_sizing_mode (col\<lparr>col_width := w\<rparr>) = pending_sizing_mode col"
  "pending_sizing_mode (col\<lparr>col_is_full_width := b\<rparr>) = pending_sizing_mode col"
  "pending_sizing_mode (col\<lparr>col_display_mode := d\<rparr>) = pending_sizing_mode col"
  by (simp_all add: pending_sizing_mode_def)

lemma update_tile_sizes_simps [simp]:
  "col_windows (update_tile_sizes col) = col_windows col"
  "length (col_tiles (update_tile_sizes col)) = length (col_tiles col)"
  "col_tiles (update_tile_sizes col) = [] \<longleftrightarrow> col_tiles col = []"
  "col_active_tile_idx (update_tile_sizes col) = col_active_tile_idx col"
  "col_width (update_tile_sizes col) = col_width col"
  "col_is_full_width (update_tile_sizes col) = col_is_full_width col"
  "col_is_pending_fullscreen (update_tile_sizes col) = col_is_pending_fullscreen col"
  "col_is_pending_maximized (update_tile_sizes col) = col_is_pending_maximized col"
  "col_display_mode (update_tile_sizes col) = col_display_mode col"
  "pending_sizing_mode (update_tile_sizes col) = pending_sizing_mode col"
  by (simp_all add: update_tile_sizes_def col_windows_def comp_def pending_sizing_mode_def)

lemma column_inv_update_tile_sizes [simp]: "column_inv (update_tile_sizes col) = column_shape col"
proof -
  have "list_all (\<lambda>tile. tl_pending_sizing_mode tile = pending_sizing_mode col)
      (col_tiles (update_tile_sizes col))"
    by (auto simp: update_tile_sizes_def list_all_iff)
  then show ?thesis by (simp add: column_inv_def column_shape_def)
qed

lemma col_windows_update [simp]:
  "col_windows (col\<lparr>col_tiles := ts\<rparr>) = map tl_window ts"
  "col_windows (col\<lparr>col_active_tile_idx := i\<rparr>) = col_windows col"
  "col_windows (col\<lparr>col_width := w\<rparr>) = col_windows col"
  "col_windows (col\<lparr>col_is_full_width := b\<rparr>) = col_windows col"
  "col_windows (col\<lparr>col_is_pending_fullscreen := b\<rparr>) = col_windows col"
  "col_windows (col\<lparr>col_is_pending_maximized := b\<rparr>) = col_windows col"
  "col_windows (col\<lparr>col_display_mode := d\<rparr>) = col_windows col"
  "col_windows \<lparr>col_tiles = ts, col_active_tile_idx = i, col_width = w, col_is_full_width = b,
     col_is_pending_fullscreen = b', col_is_pending_maximized = b'', col_display_mode = d\<rparr> =
     map tl_window ts"
  by (simp_all add: col_windows_def)

lemma col_windows_take_drop:
  "take i (col_windows col) = map tl_window (take i (col_tiles col))"
  "drop i (col_windows col) = map tl_window (drop i (col_tiles col))"
  by (simp_all add: col_windows_def take_map drop_map)

lemma col_windows_simps [simp]:
  "length (col_windows col) = length (col_tiles col)"
  "col_contains col w \<longleftrightarrow> w \<in> set (col_windows col)"
  by (auto simp: col_windows_def col_contains_def list_ex_iff)

lemma col_position_Some:
  "col_position col w = Some i \<Longrightarrow> i < length (col_tiles col) \<and> tl_window (col_tiles col ! i) = w"
  unfolding col_position_def by (blast dest: position_Some)

lemma col_position_present: "w \<in> set (col_windows col) \<Longrightarrow> \<exists>i. col_position col w = Some i"
  using position_None [of "\<lambda>tile. tl_window tile = w" "col_tiles col"]
  by (force simp: col_position_def col_windows_def)

subsection \<open>What the operations do\<close>

text \<open>Moving the active tile index within the column.\<close>

lemma activate_idx_Inr: "column_inv col \<Longrightarrow> idx < length (col_tiles col) \<Longrightarrow>
    activate_idx idx col =
      Inr (col\<lparr>col_active_tile_idx := idx\<rparr>, col_active_tile_idx col \<noteq> idx)"
  by (simp add: activate_idx_def vec_simps)

lemma column_inv_active_idx: "column_inv col \<Longrightarrow> idx < length (col_tiles col) \<Longrightarrow>
    column_inv (col\<lparr>col_active_tile_idx := idx\<rparr>)"
  by (simp add: column_inv_def)

lemma activate_idx_cases:
  assumes "activate_idx idx col = Inr (col', b)" "column_inv col"
  shows "column_inv col'" "col' = col\<lparr>col_active_tile_idx := idx\<rparr>" "b = (col_active_tile_idx col \<noteq> idx)"
  using assms column_inv_active_idx [OF assms(2), of idx]
  by (auto simp: activate_idx_def column_inv_def split: if_splits)

text \<open>An operation on a column that only moves the focus inside it.\<close>

definition refocuses :: "'w column \<Rightarrow> 'w column \<Rightarrow> bool" where
  "refocuses col col' \<longleftrightarrow>
     (\<exists>idx < length (col_tiles col). col' = col\<lparr>col_active_tile_idx := idx\<rparr>)"

lemma refocusesI: "column_inv col \<Longrightarrow> idx < length (col_tiles col) \<Longrightarrow>
    refocuses col (col\<lparr>col_active_tile_idx := idx\<rparr>)"
  by (auto simp: refocuses_def)

lemma refocusesD:
  assumes "refocuses col col'" "column_inv col"
  shows "column_inv col'" "col_windows col' = col_windows col"
    "length (col_tiles col') = length (col_tiles col)"
  using assms by (auto simp: refocuses_def column_inv_active_idx col_windows_def)

lemma col_focus_ok:
  assumes "column_inv col"
  shows "\<exists>col'. col_focus_index i col = Inr col' \<and> refocuses col col'"
    and "\<exists>col' b. col_focus_up col = Inr (col', b) \<and> refocuses col col'"
    and "\<exists>col' b. col_focus_down col = Inr (col', b) \<and> refocuses col col'"
    and "\<exists>col'. col_focus_top col = Inr col' \<and> refocuses col col'"
    and "\<exists>col'. col_focus_bottom col = Inr col' \<and> refocuses col col'"
proof -
  have ne: "col_tiles col \<noteq> []" "col_active_tile_idx col < length (col_tiles col)"
    using assms by (auto simp: column_inv_def)
  have lt: "min k (length (col_tiles col) - Suc 0) < length (col_tiles col)" for k
    using ne by (auto simp: min_def)
  have lt': "col_active_tile_idx col - Suc 0 < length (col_tiles col)" "0 < length (col_tiles col)"
    "length (col_tiles col) - Suc 0 < length (col_tiles col)" using ne by auto
  note act = activate_idx_Inr [OF assms] refocusesI [OF assms] ne lt lt'
  show "\<exists>col'. col_focus_index i col = Inr col' \<and> refocuses col col'"
    by (simp add: col_focus_index_def act vec_simps)
  show "\<exists>col' b. col_focus_up col = Inr (col', b) \<and> refocuses col col'"
    by (simp add: col_focus_up_def act)
  show "\<exists>col' b. col_focus_down col = Inr (col', b) \<and> refocuses col col'"
    by (simp add: col_focus_down_def act vec_simps)
  show "\<exists>col'. col_focus_top col = Inr col' \<and> refocuses col col'"
    by (simp add: col_focus_top_def act)
  show "\<exists>col'. col_focus_bottom col = Inr col' \<and> refocuses col col'"
    by (simp add: col_focus_bottom_def act vec_simps)
qed

lemma col_activate_window_ok:
  assumes "column_inv col" "w \<in> set (col_windows col)"
  shows "\<exists>col'. col_activate_window w col = Inr col' \<and> refocuses col col' \<and>
    tl_window (col_tiles col' ! col_active_tile_idx col') = w"
proof -
  obtain i where i: "col_position col w = Some i" using col_position_present [OF assms(2)] by blast
  note pos = col_position_Some [OF i]
  show ?thesis
    using activate_idx_Inr [OF assms(1), of i] refocusesI [OF assms(1), of i] pos
    by (simp add: col_activate_window_def i)
qed

text \<open>Adding a tile: the window goes in at the index, the active index is the caller's business.\<close>

lemma add_tile_at_ok:
  assumes "column_inv col" "idx \<le> length (col_tiles col)"
  shows "\<exists>col'. add_tile_at idx tile col = Inr col' \<and> column_inv col' \<and>
    col_windows col' = take idx (col_windows col) @ tl_window tile # drop idx (col_windows col) \<and>
    col_active_tile_idx col' = col_active_tile_idx col \<and> col_width col' = col_width col \<and>
    col_is_full_width col' = col_is_full_width col \<and> col_display_mode col' = col_display_mode col"
  using assms column_inv_shape [OF assms(1)]
  by (auto simp: add_tile_at_def Let_def vec_simps column_shape_def
      pending_sizing_mode_normal col_windows_take_drop)

lemma new_with_tile_ok:
  "\<exists>col. new_with_tile dflt tile width full = Inr col \<and> column_inv col \<and>
    col_windows col = [tl_window tile] \<and> col_active_tile_idx col = 0 \<and> col_width col = width \<and>
    col_is_full_width col = full \<and> pending_sizing_mode col = tl_pending_sizing_mode tile"
  by (cases "tl_pending_sizing_mode tile")
    (auto simp: new_with_tile_def Let_def add_tile_at_def vec_simps column_shape_def
      col_set_maximized_def col_set_fullscreen_def pending_sizing_mode_def)

lemma col_set_fullscreen_ok:
  assumes "column_inv col" "b \<longrightarrow> length (col_tiles col) = 1 \<or> col_display_mode col = DisplayTabbed"
  shows "\<exists>col'. col_set_fullscreen b col = Inr col' \<and> column_inv col' \<and>
    col_windows col' = col_windows col \<and> col_is_pending_fullscreen col' = b \<and>
    col_is_pending_maximized col' = col_is_pending_maximized col"
  using assms column_inv_shape [OF assms(1)]
  by (auto simp: col_set_fullscreen_def column_shape_def pending_sizing_mode_normal)

lemma col_set_maximized_ok:
  assumes "column_inv col" "b \<longrightarrow> length (col_tiles col) = 1 \<or> col_display_mode col = DisplayTabbed"
  shows "\<exists>col'. col_set_maximized b col = Inr col' \<and> column_inv col' \<and>
    col_windows col' = col_windows col \<and> col_is_pending_maximized col' = b \<and>
    col_is_pending_fullscreen col' = col_is_pending_fullscreen col"
  using assms column_inv_shape [OF assms(1)]
  by (auto simp: col_set_maximized_def column_shape_def pending_sizing_mode_normal)

text \<open>Moving the active tile swaps it with its neighbour and follows it.\<close>

lemma col_move_to_ok:
  assumes "column_inv col" "idx < length (col_tiles col)"
  shows "\<exists>col'. col_move_to idx col = Inr (col', col_active_tile_idx col \<noteq> idx) \<and> column_inv col' \<and>
    mset (col_windows col') = mset (col_windows col) \<and> length (col_tiles col') = length (col_tiles col) \<and>
    col_active_tile_idx col' = idx \<and>
    tl_window (col_tiles col' ! idx) = tl_window (col_tiles col ! col_active_tile_idx col)"
proof (cases "col_active_tile_idx col = idx")
  case True
  with assms show ?thesis by (auto simp: col_move_to_def)
next
  case False
  let ?ts = "(col_tiles col)[col_active_tile_idx col := col_tiles col ! idx,
    idx := col_tiles col ! col_active_tile_idx col]"
  have a: "col_active_tile_idx col < length (col_tiles col)" using assms by (simp add: column_inv_def)
  have perm: "mset ?ts = mset (col_tiles col)" using a assms(2) by (rule mset_swap [rotated])
  then have "set ?ts = set (col_tiles col)" by (rule mset_eq_setD)
  then have "column_inv (col\<lparr>col_tiles := ?ts, col_active_tile_idx := idx\<rparr>)"
    using assms by (simp add: column_inv_def list_all_iff)
  with False a assms(2) perm show ?thesis
    by (simp add: col_move_to_def vec_simps col_windows_def)
qed

lemma col_move_ok:
  assumes "column_inv col"
  shows "\<exists>idx. col_move_up col = col_move_to idx col \<and> idx < length (col_tiles col)"
    and "\<exists>idx. col_move_down col = col_move_to idx col \<and> idx < length (col_tiles col)"
  using assms by (auto simp: col_move_up_def col_move_down_def column_inv_def last_idx_def min_def)

lemma col_toggle_full_width_ok:
  assumes "column_inv col"
  shows "column_inv (col_toggle_full_width col)" "col_windows (col_toggle_full_width col) = col_windows col"
  using assms column_inv_shape [OF assms]
  by (auto simp: col_toggle_full_width_def column_shape_def pending_sizing_mode_normal)

text \<open>Leaving the tabbed display can leave several tiles in a fullscreen column.\<close>

lemma col_set_column_display_ok:
  assumes "column_inv col"
  shows "col_windows (col_set_column_display d col) = col_windows col"
    "col_display_mode (col_set_column_display d col) = d"
    "col_active_tile_idx (col_set_column_display d col) = col_active_tile_idx col"
    "length (col_tiles (col_set_column_display d col)) = length (col_tiles col)"
    "pending_sizing_mode (col_set_column_display d col) = pending_sizing_mode col"
    "d = DisplayTabbed \<or> length (col_tiles col) = 1 \<Longrightarrow> column_inv (col_set_column_display d col)"
  using assms column_inv_shape [OF assms]
  by (auto simp: col_set_column_display_def column_shape_def)

end
