(* ===== verification/Scrolling_Space.thy ===== *)
theory Scrolling_Space
  imports Scrolling_Column
begin

text \<open>
  The scrollable tiling of one workspace, \<^verbatim>\<open>ScrollingSpace\<close> of \<^verbatim>\<open>src/layout/scrolling.rs\<close>: the
  columns, the active column, the interactive resize, and whether removing the active column
  should activate the previous one. The view offset and the cached column widths are geometry: they
  depend on this structure, and the structure does not depend on them, so they are left out here
  (\<open>activate_prev_column_on_removal\<close> keeps whether it is set, not the offset to restore).

  Every index the code takes into a vector is checked in the model and yields a panic when it is
  out of range.
\<close>

record 'w scrolling_space =
  sc_columns :: "'w column list"
  sc_active_column_idx :: usize
  sc_interactive_resize :: "'w option"
  sc_activate_prev_column_on_removal :: bool
  sc_default_column_display :: column_display

definition scrolling_new :: "column_display \<Rightarrow> 'w scrolling_space" where
  "scrolling_new default_column_display =
     \<lparr>sc_columns = [], sc_active_column_idx = 0, sc_interactive_resize = None,
      sc_activate_prev_column_on_removal = False, sc_default_column_display = default_column_display\<rparr>"

definition sc_tiles :: "'w scrolling_space \<Rightarrow> 'w tile list" where
  "sc_tiles s = concat (map col_tiles (sc_columns s))"

definition sc_is_empty :: "'w scrolling_space \<Rightarrow> bool" where
  "sc_is_empty s = (sc_columns s = [])"

definition sc_active_window :: "'w scrolling_space \<Rightarrow> 'w option res" where
  "sc_active_window s =
     (if sc_columns s = [] then Inr None
      else bind_res (vec_index (sc_columns s) (sc_active_column_idx s)) (\<lambda>col.
           bind_res (vec_index (col_tiles col) (col_active_tile_idx col)) (\<lambda>tile.
             Inr (Some (tl_window tile)))))"

definition cancel_resize_for_column :: "'w column \<Rightarrow> 'w option \<Rightarrow> 'w option" where
  "cancel_resize_for_column column resize =
     (case resize of None \<Rightarrow> None | Some w \<Rightarrow> if col_contains column w then None else Some w)"

definition activate_column :: "nat \<Rightarrow> 'w scrolling_space \<Rightarrow> 'w scrolling_space res" where
  "activate_column idx s =
     (if sc_active_column_idx s = idx then Inr s
      else bind_res (vec_index (sc_columns s) idx) (\<lambda>_.
        Inr (s\<lparr>sc_active_column_idx := idx, sc_activate_prev_column_on_removal := False,
               sc_interactive_resize := None\<rparr>)))"

subsection \<open>Adding\<close>

definition sc_add_column ::
  "nat option \<Rightarrow> 'w column \<Rightarrow> bool \<Rightarrow> 'w scrolling_space \<Rightarrow> 'w scrolling_space res" where
  "sc_add_column idx column activate s =
     (let was_empty = (sc_columns s = []);
          idx = (case idx of Some i \<Rightarrow> i
                 | None \<Rightarrow> if was_empty then 0 else sc_active_column_idx s + 1)
      in bind_res (vec_insert idx column (sc_columns s)) (\<lambda>columns.
           let s1 = s\<lparr>sc_columns := columns\<rparr>
           in if activate then
                let prev_offset = (\<not> was_empty \<and> idx = sc_active_column_idx s + 1)
                in bind_res (activate_column idx s1)
                     (\<lambda>s2. Inr (s2\<lparr>sc_activate_prev_column_on_removal := prev_offset\<rparr>))
              else if \<not> was_empty \<and> idx \<le> sc_active_column_idx s
              then Inr (s1\<lparr>sc_active_column_idx := sc_active_column_idx s + 1\<rparr>)
              else Inr s1))"

definition sc_add_tile ::
  "nat option \<Rightarrow> 'w tile \<Rightarrow> bool \<Rightarrow> column_width \<Rightarrow> bool \<Rightarrow> 'w scrolling_space \<Rightarrow>
   'w scrolling_space res" where
  "sc_add_tile col_idx tile activate width is_full_width s =
     bind_res (new_with_tile (sc_default_column_display s) tile width is_full_width)
       (\<lambda>column. sc_add_column col_idx column activate s)"

definition sc_add_tile_to_column ::
  "nat \<Rightarrow> nat option \<Rightarrow> 'w tile \<Rightarrow> bool \<Rightarrow> 'w scrolling_space \<Rightarrow> 'w scrolling_space res" where
  "sc_add_tile_to_column col_idx tile_idx tile activate s =
     bind_res (vec_index (sc_columns s) col_idx) (\<lambda>target_column.
     let tile_idx = (case tile_idx of Some i \<Rightarrow> i | None \<Rightarrow> length (col_tiles target_column));
         prev_active_tile_idx = col_active_tile_idx target_column
     in bind_res (add_tile_at tile_idx tile target_column) (\<lambda>target_column.
        let target_column =
              (if tile_idx \<le> prev_active_tile_idx
               then target_column\<lparr>col_active_tile_idx := col_active_tile_idx target_column + 1\<rparr>
               else target_column)
        in bind_res (if activate
                     then bind_res (activate_idx tile_idx target_column) (\<lambda>(col, _). Inr col)
                     else Inr target_column) (\<lambda>target_column.
           let s = s\<lparr>sc_columns := (sc_columns s)[col_idx := target_column]\<rparr>
           in if activate \<and> sc_active_column_idx s \<noteq> col_idx then activate_column col_idx s
              else Inr s)))"

definition sc_add_tile_right_of ::
  "'w \<Rightarrow> 'w tile \<Rightarrow> bool \<Rightarrow> column_width \<Rightarrow> bool \<Rightarrow> 'w scrolling_space \<Rightarrow> 'w scrolling_space res"
where
  "sc_add_tile_right_of right_of tile activate width is_full_width s =
     bind_res (unwrap (position (\<lambda>col. col_contains col right_of) (sc_columns s))) (\<lambda>right_of_idx.
       sc_add_tile (Some (right_of_idx + 1)) tile activate width is_full_width s)"

subsection \<open>Removing\<close>

definition remove_column_by_idx ::
  "nat \<Rightarrow> 'w scrolling_space \<Rightarrow> ('w column \<times> 'w scrolling_space) res" where
  "remove_column_by_idx column_idx s =
     bind_res (vec_remove column_idx (sc_columns s)) (\<lambda>(column, columns).
     let s1 = s\<lparr>sc_columns := columns,
                sc_interactive_resize := cancel_resize_for_column column (sc_interactive_resize s),
                sc_activate_prev_column_on_removal :=
                  (sc_activate_prev_column_on_removal s \<and> column_idx + 1 \<noteq> sc_active_column_idx s)\<rparr>
     in if columns = [] then Inr (column, s1)
        else if column_idx < sc_active_column_idx s
        then Inr (column, s1\<lparr>sc_active_column_idx := sc_active_column_idx s - 1,
                             sc_activate_prev_column_on_removal := False\<rparr>)
        else if column_idx = sc_active_column_idx s \<and> sc_activate_prev_column_on_removal s1
        then (if 0 < column_idx
              then bind_res (activate_column (sc_active_column_idx s - 1) s1) (\<lambda>s2. Inr (column, s2))
              else Inr (column, s1))
        else bind_res (activate_column (min (sc_active_column_idx s) (length columns - 1)) s1)
               (\<lambda>s2. Inr (column, s2)))"

definition remove_tile_by_idx ::
  "nat \<Rightarrow> nat \<Rightarrow> 'w scrolling_space \<Rightarrow> ('w removed_tile \<times> 'w scrolling_space) res" where
  "remove_tile_by_idx column_idx tile_idx s =
     bind_res (vec_index (sc_columns s) column_idx) (\<lambda>column.
       if length (col_tiles column) = 1
       then bind_res (remove_column_by_idx column_idx s) (\<lambda>(column, s).
            bind_res (vec_remove tile_idx (col_tiles column)) (\<lambda>(tile, _).
              Inr (\<lparr>rt_tile = tile, rt_width = col_width column,
                    rt_is_full_width = col_is_full_width column, rt_is_floating = False\<rparr>, s)))
       else bind_res (vec_remove tile_idx (col_tiles column)) (\<lambda>(tile, tiles).
            let resize = (if sc_interactive_resize s = Some (tl_window tile) then None
                          else sc_interactive_resize s);
                column = column\<lparr>col_tiles := tiles\<rparr>
            in bind_res
                 (if tile_idx < col_active_tile_idx column
                  then Inr (column\<lparr>col_active_tile_idx := col_active_tile_idx column - 1\<rparr>)
                  else if tile_idx = col_active_tile_idx column \<and> tile_idx = length tiles
                  then bind_res (activate_idx (tile_idx - 1) column) (\<lambda>(col, _). Inr col)
                  else Inr column) (\<lambda>column.
               Inr (\<lparr>rt_tile = tile, rt_width = col_width column,
                     rt_is_full_width = col_is_full_width column, rt_is_floating = False\<rparr>,
                    s\<lparr>sc_columns := (sc_columns s)[column_idx := update_tile_sizes column],
                      sc_interactive_resize := resize\<rparr>))))"

definition sc_remove_active_tile ::
  "'w scrolling_space \<Rightarrow> ('w removed_tile option \<times> 'w scrolling_space) res" where
  "sc_remove_active_tile s =
     (if sc_columns s = [] then Inr (None, s)
      else bind_res (vec_index (sc_columns s) (sc_active_column_idx s)) (\<lambda>column.
           bind_res (remove_tile_by_idx (sc_active_column_idx s) (col_active_tile_idx column) s)
             (\<lambda>(removed, s). Inr (Some removed, s))))"

definition sc_remove_tile ::
  "'w \<Rightarrow> 'w scrolling_space \<Rightarrow> ('w removed_tile \<times> 'w scrolling_space) res" where
  "sc_remove_tile window s =
     bind_res (unwrap (position (\<lambda>col. col_contains col window) (sc_columns s))) (\<lambda>column_idx.
     bind_res (vec_index (sc_columns s) column_idx) (\<lambda>column.
     bind_res (unwrap (col_position column window)) (\<lambda>tile_idx.
       remove_tile_by_idx column_idx tile_idx s)))"

definition sc_remove_active_column ::
  "'w scrolling_space \<Rightarrow> ('w column option \<times> 'w scrolling_space) res" where
  "sc_remove_active_column s =
     (if sc_columns s = [] then Inr (None, s)
      else bind_res (remove_column_by_idx (sc_active_column_idx s) s)
             (\<lambda>(column, s). Inr (Some column, s)))"

subsection \<open>Focus\<close>

definition sc_activate_window :: "'w \<Rightarrow> 'w scrolling_space \<Rightarrow> ('w scrolling_space \<times> bool) res" where
  "sc_activate_window window s =
     (case position (\<lambda>col. col_contains col window) (sc_columns s) of
        None \<Rightarrow> Inr (s, False)
      | Some column_idx \<Rightarrow>
          bind_res (vec_index (sc_columns s) column_idx) (\<lambda>column.
          bind_res (col_activate_window window column) (\<lambda>column.
          bind_res (activate_column column_idx
                      (s\<lparr>sc_columns := (sc_columns s)[column_idx := column]\<rparr>)) (\<lambda>s.
            Inr (s, True)))))"

definition sc_focus_left :: "'w scrolling_space \<Rightarrow> ('w scrolling_space \<times> bool) res" where
  "sc_focus_left s =
     (if sc_active_column_idx s = 0 then Inr (s, False)
      else bind_res (activate_column (sc_active_column_idx s - 1) s) (\<lambda>s. Inr (s, True)))"

definition sc_focus_right :: "'w scrolling_space \<Rightarrow> ('w scrolling_space \<times> bool) res" where
  "sc_focus_right s =
     (if sc_active_column_idx s + 1 \<ge> length (sc_columns s) then Inr (s, False)
      else bind_res (activate_column (sc_active_column_idx s + 1) s) (\<lambda>s. Inr (s, True)))"

definition sc_focus_column_first :: "'w scrolling_space \<Rightarrow> 'w scrolling_space res" where
  "sc_focus_column_first s = activate_column 0 s"

definition sc_focus_column_last :: "'w scrolling_space \<Rightarrow> 'w scrolling_space res" where
  "sc_focus_column_last s =
     (if sc_columns s = [] then Inr s else activate_column (length (sc_columns s) - 1) s)"

definition sc_focus_column :: "nat \<Rightarrow> 'w scrolling_space \<Rightarrow> 'w scrolling_space res" where
  "sc_focus_column index s =
     (if sc_columns s = [] then Inr s
      else activate_column (min (index - 1) (length (sc_columns s) - 1)) s)"

text \<open>Running an operation of the active column, with its result.\<close>

definition on_active_column ::
  "('w column \<Rightarrow> ('w column \<times> bool) res) \<Rightarrow> 'w scrolling_space \<Rightarrow> ('w scrolling_space \<times> bool) res"
where
  "on_active_column f s =
     (if sc_columns s = [] then Inr (s, False)
      else bind_res (vec_index (sc_columns s) (sc_active_column_idx s)) (\<lambda>column.
           bind_res (f column) (\<lambda>(column, b).
             Inr (s\<lparr>sc_columns := (sc_columns s)[sc_active_column_idx s := column]\<rparr>, b))))"

definition sc_focus_window_in_column :: "u8 \<Rightarrow> 'w scrolling_space \<Rightarrow> 'w scrolling_space res" where
  "sc_focus_window_in_column index s =
     bind_res (on_active_column (\<lambda>col. bind_res (col_focus_index index col) (\<lambda>col. Inr (col, True))) s)
       (\<lambda>(s, _). Inr s)"

definition sc_focus_down :: "'w scrolling_space \<Rightarrow> ('w scrolling_space \<times> bool) res" where
  "sc_focus_down s = on_active_column col_focus_down s"

definition sc_focus_up :: "'w scrolling_space \<Rightarrow> ('w scrolling_space \<times> bool) res" where
  "sc_focus_up s = on_active_column col_focus_up s"

definition sc_focus_or ::
  "('w scrolling_space \<Rightarrow> ('w scrolling_space \<times> bool) res) \<Rightarrow>
   ('w scrolling_space \<Rightarrow> ('w scrolling_space \<times> bool) res) \<Rightarrow>
   'w scrolling_space \<Rightarrow> 'w scrolling_space res" where
  "sc_focus_or vertical horizontal s =
     (if sc_columns s = [] then Inr s
      else bind_res (vertical s) (\<lambda>(s, moved).
             if moved then Inr s else bind_res (horizontal s) (\<lambda>(s, _). Inr s)))"

definition sc_focus_down_or_left :: "'w scrolling_space \<Rightarrow> 'w scrolling_space res" where
  "sc_focus_down_or_left = sc_focus_or sc_focus_down sc_focus_left"
definition sc_focus_down_or_right :: "'w scrolling_space \<Rightarrow> 'w scrolling_space res" where
  "sc_focus_down_or_right = sc_focus_or sc_focus_down sc_focus_right"
definition sc_focus_up_or_left :: "'w scrolling_space \<Rightarrow> 'w scrolling_space res" where
  "sc_focus_up_or_left = sc_focus_or sc_focus_up sc_focus_left"
definition sc_focus_up_or_right :: "'w scrolling_space \<Rightarrow> 'w scrolling_space res" where
  "sc_focus_up_or_right = sc_focus_or sc_focus_up sc_focus_right"

definition sc_focus_top :: "'w scrolling_space \<Rightarrow> 'w scrolling_space res" where
  "sc_focus_top s =
     bind_res (on_active_column (\<lambda>col. bind_res (col_focus_top col) (\<lambda>col. Inr (col, True))) s)
       (\<lambda>(s, _). Inr s)"

definition sc_focus_bottom :: "'w scrolling_space \<Rightarrow> 'w scrolling_space res" where
  "sc_focus_bottom s =
     bind_res (on_active_column (\<lambda>col. bind_res (col_focus_bottom col) (\<lambda>col. Inr (col, True))) s)
       (\<lambda>(s, _). Inr s)"

subsection \<open>Moving\<close>

definition move_column_to :: "nat \<Rightarrow> 'w scrolling_space \<Rightarrow> 'w scrolling_space res" where
  "move_column_to new_idx s =
     (if sc_active_column_idx s = new_idx then Inr s
      else bind_res (vec_remove (sc_active_column_idx s) (sc_columns s)) (\<lambda>(column, columns).
           bind_res (vec_insert new_idx column columns) (\<lambda>columns.
             activate_column new_idx
               (s\<lparr>sc_columns := columns,
                  sc_interactive_resize :=
                    cancel_resize_for_column column (sc_interactive_resize s)\<rparr>))))"

definition sc_move_column_to_index :: "nat \<Rightarrow> 'w scrolling_space \<Rightarrow> 'w scrolling_space res" where
  "sc_move_column_to_index index s =
     (if sc_columns s = [] then Inr s
      else move_column_to (min (index - 1) (length (sc_columns s) - 1)) s)"

definition sc_move_left :: "'w scrolling_space \<Rightarrow> ('w scrolling_space \<times> bool) res" where
  "sc_move_left s =
     (if sc_active_column_idx s = 0 then Inr (s, False)
      else bind_res (move_column_to (sc_active_column_idx s - 1) s) (\<lambda>s. Inr (s, True)))"

definition sc_move_right :: "'w scrolling_space \<Rightarrow> ('w scrolling_space \<times> bool) res" where
  "sc_move_right s =
     (let new_idx = sc_active_column_idx s + 1
      in if new_idx \<ge> length (sc_columns s) then Inr (s, False)
         else bind_res (move_column_to new_idx s) (\<lambda>s. Inr (s, True)))"

definition sc_move_column_to_first :: "'w scrolling_space \<Rightarrow> 'w scrolling_space res" where
  "sc_move_column_to_first s = move_column_to 0 s"

definition sc_move_column_to_last :: "'w scrolling_space \<Rightarrow> 'w scrolling_space res" where
  "sc_move_column_to_last s =
     (if sc_columns s = [] then Inr s else move_column_to (length (sc_columns s) - 1) s)"

definition sc_move_down :: "'w scrolling_space \<Rightarrow> ('w scrolling_space \<times> bool) res" where
  "sc_move_down s = on_active_column col_move_down s"

definition sc_move_up :: "'w scrolling_space \<Rightarrow> ('w scrolling_space \<times> bool) res" where
  "sc_move_up s = on_active_column col_move_up s"

subsection \<open>Consuming, expelling, swapping\<close>

text \<open>\<open>find_map\<close> over the columns: the column and the tile index of a window.\<close>

fun find_window :: "'w \<Rightarrow> 'w column list \<Rightarrow> (nat \<times> nat) option" where
  "find_window window [] = None"
| "find_window window (col # cols) =
     (case col_position col window of
        Some tile_idx \<Rightarrow> Some (0, tile_idx)
      | None \<Rightarrow> map_option (\<lambda>(col_idx, tile_idx). (Suc col_idx, tile_idx)) (find_window window cols))"

definition source_of :: "'w option \<Rightarrow> 'w scrolling_space \<Rightarrow> (nat \<times> nat) res" where
  "source_of window s =
     (case window of
        Some w \<Rightarrow> unwrap (find_window w (sc_columns s))
      | None \<Rightarrow> bind_res (vec_index (sc_columns s) (sc_active_column_idx s))
                 (\<lambda>col. Inr (sc_active_column_idx s, col_active_tile_idx col)))"

definition consume_or_expel_window_left ::
  "'w option \<Rightarrow> 'w scrolling_space \<Rightarrow> 'w scrolling_space res" where
  "consume_or_expel_window_left window s =
     (if sc_columns s = [] then Inr s
      else bind_res (source_of window s) (\<lambda>(source_col_idx, source_tile_idx).
           bind_res (vec_index (sc_columns s) source_col_idx) (\<lambda>source_column.
           let source_tile_was_active = (sc_active_column_idx s = source_col_idx \<and>
                 col_active_tile_idx source_column = source_tile_idx)
           in if length (col_tiles source_column) = 1 then
                if source_col_idx = 0 then Inr s
                else
                  let s = (if source_tile_was_active
                           then s\<lparr>sc_activate_prev_column_on_removal := True\<rparr> else s)
                  in bind_res (remove_tile_by_idx source_col_idx 0 s) (\<lambda>(removed, s).
                       sc_add_tile_to_column (source_col_idx - 1) None (rt_tile removed)
                         source_tile_was_active s)
              else
                bind_res (remove_tile_by_idx source_col_idx source_tile_idx s) (\<lambda>(removed, s).
                bind_res (sc_add_tile (Some source_col_idx) (rt_tile removed) source_tile_was_active
                            (rt_width removed) (rt_is_full_width removed) s) (\<lambda>s.
                  Inr (if source_tile_was_active
                       then s\<lparr>sc_activate_prev_column_on_removal := False\<rparr> else s))))))"

definition consume_or_expel_window_right ::
  "'w option \<Rightarrow> 'w scrolling_space \<Rightarrow> 'w scrolling_space res" where
  "consume_or_expel_window_right window s =
     (if sc_columns s = [] then Inr s
      else bind_res (source_of window s) (\<lambda>(source_col_idx, source_tile_idx).
           bind_res (vec_index (sc_columns s) source_col_idx) (\<lambda>source_column.
           let source_tile_was_active = (sc_active_column_idx s = source_col_idx \<and>
                 col_active_tile_idx source_column = source_tile_idx)
           in if length (col_tiles source_column) = 1 then
                if source_col_idx + 1 = length (sc_columns s) then Inr s
                else
                  let s = (if source_tile_was_active
                           then s\<lparr>sc_activate_prev_column_on_removal := False\<rparr> else s)
                  in bind_res (remove_tile_by_idx source_col_idx 0 s) (\<lambda>(removed, s).
                       sc_add_tile_to_column source_col_idx None (rt_tile removed)
                         source_tile_was_active s)
              else
                bind_res (remove_tile_by_idx source_col_idx source_tile_idx s) (\<lambda>(removed, s).
                  sc_add_tile (Some (source_col_idx + 1)) (rt_tile removed) source_tile_was_active
                    (rt_width removed) (rt_is_full_width removed) s))))"

definition consume_into_column :: "'w scrolling_space \<Rightarrow> 'w scrolling_space res" where
  "consume_into_column s =
     (if length (sc_columns s) < 2 then Inr s
      else if sc_active_column_idx s = length (sc_columns s) - 1 then Inr s
      else bind_res (remove_tile_by_idx (sc_active_column_idx s + 1) 0 s) (\<lambda>(removed, s').
             sc_add_tile_to_column (sc_active_column_idx s) None (rt_tile removed) False s'))"

definition expel_from_column :: "'w scrolling_space \<Rightarrow> 'w scrolling_space res" where
  "expel_from_column s =
     (if sc_columns s = [] then Inr s
      else bind_res (vec_index (sc_columns s) (sc_active_column_idx s)) (\<lambda>source_column.
           if length (col_tiles source_column) = 1 then Inr s
           else bind_res (last_idx (col_tiles source_column)) (\<lambda>source_tile_idx.
                bind_res (remove_tile_by_idx (sc_active_column_idx s) source_tile_idx s)
                  (\<lambda>(removed, s'). sc_add_tile (Some (sc_active_column_idx s + 1)) (rt_tile removed)
                     False (rt_width removed) (rt_is_full_width removed) s'))))"

datatype scroll_direction = ScrollLeft | ScrollRight

definition set_active_tile_idx :: "nat \<Rightarrow> nat \<Rightarrow> 'w scrolling_space \<Rightarrow> 'w scrolling_space res" where
  "set_active_tile_idx col_idx tile_idx s =
     bind_res (vec_modify col_idx (\<lambda>col. col\<lparr>col_active_tile_idx := tile_idx\<rparr>) (sc_columns s))
       (\<lambda>columns. Inr (s\<lparr>sc_columns := columns\<rparr>))"

definition swap_window_in_direction ::
  "scroll_direction \<Rightarrow> 'w scrolling_space \<Rightarrow> 'w scrolling_space res" where
  "swap_window_in_direction direction s =
     (if sc_columns s = [] then Inr s
      else if (case direction of ScrollLeft \<Rightarrow> sc_active_column_idx s = 0
               | ScrollRight \<Rightarrow> sc_active_column_idx s = length (sc_columns s) - 1) then Inr s
      else
        let source_column_idx = sc_active_column_idx s;
            target_column_idx = (case direction of ScrollLeft \<Rightarrow> source_column_idx - 1
              | ScrollRight \<Rightarrow> source_column_idx + 1)
        in bind_res (vec_index (sc_columns s) source_column_idx) (\<lambda>source_column.
           bind_res (vec_index (sc_columns s) target_column_idx) (\<lambda>target_column.
           if length (col_tiles source_column) = 1 \<and> length (col_tiles target_column) = 1
           then move_column_to target_column_idx s
           else
             let source_tile_idx = col_active_tile_idx source_column;
                 target_tile_idx = col_active_tile_idx target_column;
                 source_column_drained = (length (col_tiles source_column) = 1);
                 adjusted_target_column_idx =
                   (if direction = ScrollRight \<and> source_column_drained then target_column_idx - 1
                    else target_column_idx)
             in bind_res (remove_tile_by_idx source_column_idx source_tile_idx s)
                  (\<lambda>(source_removed, s).
                bind_res (sc_add_tile_to_column adjusted_target_column_idx (Some target_tile_idx)
                   (rt_tile source_removed) False s) (\<lambda>s.
                bind_res (remove_tile_by_idx adjusted_target_column_idx (target_tile_idx + 1) s)
                  (\<lambda>(target_removed, s).
                bind_res
                  (if source_column_drained
                   then sc_add_tile (Some source_column_idx) (rt_tile target_removed) True
                          (rt_width source_removed) (rt_is_full_width source_removed) s
                   else sc_add_tile_to_column source_column_idx (Some source_tile_idx)
                          (rt_tile target_removed) False s) (\<lambda>s.
                bind_res (set_active_tile_idx source_column_idx source_tile_idx s) (\<lambda>s.
                bind_res (set_active_tile_idx target_column_idx target_tile_idx s) (\<lambda>s.
                  activate_column target_column_idx s))))))))) "

subsection \<open>Fullscreen, maximized, display mode\<close>

definition set_col :: "nat \<Rightarrow> ('w column \<Rightarrow> 'w column res) \<Rightarrow> 'w scrolling_space \<Rightarrow>
   'w scrolling_space res" where
  "set_col col_idx f s =
     bind_res (vec_index (sc_columns s) col_idx) (\<lambda>col.
     bind_res (f col) (\<lambda>col. Inr (s\<lparr>sc_columns := (sc_columns s)[col_idx := col]\<rparr>)))"

text \<open>\<open>set_fullscreen\<close> and \<open>set_maximized\<close> are the same text over a different flag and setter.\<close>

definition set_sizing ::
  "('w column \<Rightarrow> bool) \<Rightarrow> (bool \<Rightarrow> 'w column \<Rightarrow> 'w column res) \<Rightarrow>
   'w \<Rightarrow> bool \<Rightarrow> 'w scrolling_space \<Rightarrow> ('w scrolling_space \<times> bool) res" where
  "set_sizing is_pending set_pending window value s =
     bind_res (unwrap (position (\<lambda>col. col_contains col window) (sc_columns s))) (\<lambda>col_idx.
     bind_res (vec_index (sc_columns s) col_idx) (\<lambda>col.
       if value = is_pending col then Inr (s, False)
       else
         let is_tabbed = (col_display_mode col = DisplayTabbed);
             s = s\<lparr>sc_interactive_resize :=
                     cancel_resize_for_column col (sc_interactive_resize s)\<rparr>
         in bind_res
              (if value \<and> length (col_tiles col) > 1 \<and> \<not> is_tabbed
               then bind_res (consume_or_expel_window_right (Some window) s)
                      (\<lambda>s. set_col (col_idx + 1) (set_pending value) s)
               else set_col col_idx (set_pending value) s) (\<lambda>s.
            Inr (s, True))))"

definition sc_set_fullscreen ::
  "'w \<Rightarrow> bool \<Rightarrow> 'w scrolling_space \<Rightarrow> ('w scrolling_space \<times> bool) res" where
  "sc_set_fullscreen = set_sizing col_is_pending_fullscreen col_set_fullscreen"

definition sc_set_maximized ::
  "'w \<Rightarrow> bool \<Rightarrow> 'w scrolling_space \<Rightarrow> ('w scrolling_space \<times> bool) res" where
  "sc_set_maximized = set_sizing col_is_pending_maximized col_set_maximized"

definition sc_set_column_display ::
  "column_display \<Rightarrow> 'w scrolling_space \<Rightarrow> 'w scrolling_space res" where
  "sc_set_column_display display s =
     (if sc_columns s = [] then Inr s
      else bind_res (vec_index (sc_columns s) (sc_active_column_idx s)) (\<lambda>col.
           if col_display_mode col = display then Inr s
           else
             let resize = cancel_resize_for_column col (sc_interactive_resize s);
                 col = update_tile_sizes (col_set_column_display display col);
                 s = s\<lparr>sc_columns := (sc_columns s)[sc_active_column_idx s := col],
                       sc_interactive_resize := resize\<rparr>
             in if col_display_mode col \<noteq> DisplayTabbed \<and> length (col_tiles col) > 1
                then bind_res (vec_index (col_tiles col) (col_active_tile_idx col)) (\<lambda>tile.
                     bind_res (sc_set_fullscreen (tl_window tile) False s) (\<lambda>(s, _).
                     bind_res (sc_set_maximized (tl_window tile) False s) (\<lambda>(s, _). Inr s)))
                else Inr s))"

definition toggle_column_tabbed_display :: "'w scrolling_space \<Rightarrow> 'w scrolling_space res" where
  "toggle_column_tabbed_display s =
     (if sc_columns s = [] then Inr s
      else bind_res (vec_index (sc_columns s) (sc_active_column_idx s)) (\<lambda>col.
           sc_set_column_display (case col_display_mode col of
             DisplayNormal \<Rightarrow> DisplayTabbed | DisplayTabbed \<Rightarrow> DisplayNormal) s))"

definition sc_toggle_full_width :: "'w scrolling_space \<Rightarrow> 'w scrolling_space res" where
  "sc_toggle_full_width s =
     (if sc_columns s = [] then Inr s
      else bind_res (vec_index (sc_columns s) (sc_active_column_idx s)) (\<lambda>col.
           Inr (s\<lparr>sc_columns := (sc_columns s)[sc_active_column_idx s := col_toggle_full_width col],
                  sc_interactive_resize :=
                    cancel_resize_for_column col (sc_interactive_resize s)\<rparr>)))"

subsection \<open>Interactive resize\<close>

definition sc_interactive_resize_begin ::
  "'w \<Rightarrow> 'w scrolling_space \<Rightarrow> ('w scrolling_space \<times> bool) res" where
  "sc_interactive_resize_begin window s =
     (if sc_interactive_resize s \<noteq> None then Inr (s, False)
      else bind_res (unwrap (find (\<lambda>col. col_contains col window) (sc_columns s))) (\<lambda>col.
           if pending_sizing_mode col \<noteq> SizingNormal then Inr (s, False)
           else Inr (s\<lparr>sc_interactive_resize := Some window\<rparr>, True)))"

definition sc_interactive_resize_end ::
  "'w option \<Rightarrow> 'w scrolling_space \<Rightarrow> 'w scrolling_space res" where
  "sc_interactive_resize_end window s =
     (case sc_interactive_resize s of
        None \<Rightarrow> Inr s
      | Some resize_window \<Rightarrow>
          (case window of
             Some w \<Rightarrow>
               if w \<noteq> resize_window then Inr s
               else bind_res (vec_index (sc_columns s) (sc_active_column_idx s)) (\<lambda>_.
                      Inr (s\<lparr>sc_interactive_resize := None\<rparr>))
           | None \<Rightarrow> Inr (s\<lparr>sc_interactive_resize := None\<rparr>)))"

end
