(* ===== verification/Scrolling_Inv.thy ===== *)
theory Scrolling_Inv
  imports Scrolling_Space
begin

text \<open>
  The invariant of the scrolling space and its preservation: no operation panics on a state that
  satisfies it, and every operation keeps the windows it should (as a multiset).
\<close>

definition cols_windows :: "'w column list \<Rightarrow> 'w multiset" where
  "cols_windows cols = mset (concat (map col_windows cols))"

definition sc_windows :: "'w scrolling_space \<Rightarrow> 'w multiset" where
  "sc_windows s = cols_windows (sc_columns s)"

definition columns_inv :: "'w column list \<Rightarrow> bool" where
  "columns_inv cols = list_all column_inv cols"

text \<open>
  \<open>ScrollingSpace::verify_invariants\<close>, as far as it speaks about the structure. The code asserts the
  active index only when there are columns; an empty space must have it at 0, or
  \<open>focus_column_first\<close> on an empty space would index out of range.
\<close>

definition scrolling_inv :: "'w scrolling_space \<Rightarrow> bool" where
  "scrolling_inv s \<longleftrightarrow>
     (if sc_columns s = [] then sc_active_column_idx s = 0
      else sc_active_column_idx s < length (sc_columns s)) \<and>
     columns_inv (sc_columns s) \<and>
     (\<forall>w. sc_interactive_resize s = Some w \<longrightarrow> w \<in># sc_windows s)"

subsection \<open>Windows of a list of columns\<close>

lemma cols_windows_simps [simp]:
  "cols_windows [] = {#}"
  "cols_windows (c # cs) = mset (col_windows c) + cols_windows cs"
  "cols_windows (cs @ ds) = cols_windows cs + cols_windows ds"
  by (simp_all add: cols_windows_def)

lemma cols_windows_split:
  "i < length cs \<Longrightarrow>
   cols_windows cs = cols_windows (take i cs) + mset (col_windows (cs ! i)) + cols_windows (drop (Suc i) cs)"
  by (subst id_take_nth_drop [of i cs]) simp_all

lemma cols_windows_insert:
  "cols_windows (take i cs) + cols_windows (drop i cs) = cols_windows cs"
  by (simp flip: cols_windows_simps(3))

lemma cols_windows_update:
  "i < length cs \<Longrightarrow>
   cols_windows (cs[i := c]) + mset (col_windows (cs ! i)) = cols_windows cs + mset (col_windows c)"
  by (simp add: upd_conv_take_nth_drop cols_windows_split [of i cs])

lemma cols_windows_update_same:
  "i < length cs \<Longrightarrow> mset (col_windows c) = mset (col_windows (cs ! i)) \<Longrightarrow>
   cols_windows (cs[i := c]) = cols_windows cs"
  using cols_windows_update [of i cs c] by simp

lemma columns_inv_simps [simp]:
  "columns_inv []" "columns_inv (c # cs) \<longleftrightarrow> column_inv c \<and> columns_inv cs"
  "columns_inv (cs @ ds) \<longleftrightarrow> columns_inv cs \<and> columns_inv ds"
  by (simp_all add: columns_inv_def)

lemma columns_inv_nth: "columns_inv cs \<Longrightarrow> i < length cs \<Longrightarrow> column_inv (cs ! i)"
  by (simp add: columns_inv_def list_all_length)

lemma columns_inv_take_drop:
  "columns_inv cs \<Longrightarrow> columns_inv (take i cs)" "columns_inv cs \<Longrightarrow> columns_inv (drop i cs)"
  by (auto simp: columns_inv_def list_all_iff dest: in_set_takeD in_set_dropD)

lemma columns_inv_update: "columns_inv cs \<Longrightarrow> column_inv c \<Longrightarrow> columns_inv (cs[i := c])"
  by (auto simp: columns_inv_def list_all_iff dest!: set_update_subset_insert [THEN subsetD])

lemma scrolling_invD:
  assumes "scrolling_inv s"
  shows "columns_inv (sc_columns s)"
    and "sc_columns s \<noteq> [] \<Longrightarrow> sc_active_column_idx s < length (sc_columns s)"
    and "sc_columns s = [] \<Longrightarrow> sc_active_column_idx s = 0"
    and "sc_interactive_resize s = Some w \<Longrightarrow> w \<in># sc_windows s"
  using assms by (auto simp: scrolling_inv_def split: if_splits)

lemma scrolling_inv_nth:
  "scrolling_inv s \<Longrightarrow> i < length (sc_columns s) \<Longrightarrow> column_inv (sc_columns s ! i)"
  by (blast intro: columns_inv_nth scrolling_invD(1))

lemma sc_windows_update [simp]:
  "sc_windows (s\<lparr>sc_columns := cs\<rparr>) = cols_windows cs"
  "sc_windows (s\<lparr>sc_active_column_idx := i\<rparr>) = sc_windows s"
  "sc_windows (s\<lparr>sc_interactive_resize := r\<rparr>) = sc_windows s"
  "sc_windows (s\<lparr>sc_activate_prev_column_on_removal := b\<rparr>) = sc_windows s"
  by (simp_all add: sc_windows_def)

subsection \<open>Activation and addition\<close>

lemma activate_column_ok:
  assumes "columns_inv (sc_columns s)" "idx < length (sc_columns s)"
    and "\<And>w. sc_interactive_resize s = Some w \<Longrightarrow> w \<in># sc_windows s"
  shows "returns (activate_column idx s) (\<lambda>s'. scrolling_inv s' \<and> sc_columns s' = sc_columns s \<and>
    sc_active_column_idx s' = idx \<and> sc_default_column_display s' = sc_default_column_display s)"
  using assms by (auto simp: activate_column_def scrolling_inv_def sc_windows_def)

text \<open>The index an added column ends up at, and the active index after adding.\<close>

definition add_idx :: "nat option \<Rightarrow> 'w scrolling_space \<Rightarrow> nat" where
  "add_idx idx s = (case idx of Some i \<Rightarrow> i
     | None \<Rightarrow> if sc_columns s = [] then 0 else sc_active_column_idx s + 1)"

definition active_after_add :: "nat \<Rightarrow> bool \<Rightarrow> 'w scrolling_space \<Rightarrow> nat" where
  "active_after_add i activate s =
     (if activate then i
      else if sc_columns s \<noteq> [] \<and> i \<le> sc_active_column_idx s then sc_active_column_idx s + 1
      else sc_active_column_idx s)"

lemma add_idx_le: "scrolling_inv s \<Longrightarrow> (\<And>i. idx = Some i \<Longrightarrow> i \<le> length (sc_columns s)) \<Longrightarrow>
    add_idx idx s \<le> length (sc_columns s)"
  by (auto simp: add_idx_def dest: scrolling_invD(2) split: option.splits)

lemma sc_add_column_ok:
  assumes inv: "scrolling_inv s" and col: "column_inv column"
    and idx: "\<And>i. idx = Some i \<Longrightarrow> i \<le> length (sc_columns s)"
  shows "returns (sc_add_column idx column activate s) (\<lambda>s'. scrolling_inv s' \<and>
    sc_columns s' = take (add_idx idx s) (sc_columns s) @ column # drop (add_idx idx s) (sc_columns s) \<and>
    sc_windows s' = sc_windows s + mset (col_windows column) \<and>
    sc_active_column_idx s' = active_after_add (add_idx idx s) activate s \<and>
    sc_default_column_display s' = sc_default_column_display s)"
proof -
  define i where "i = add_idx idx s"
  define cs where "cs = take i (sc_columns s) @ column # drop i (sc_columns s)"
  let ?s1 = "s\<lparr>sc_columns := cs\<rparr>"
  have i: "i \<le> length (sc_columns s)" unfolding i_def using inv idx by (rule add_idx_le)
  have cs: "columns_inv cs" "length cs = Suc (length (sc_columns s))"
    using scrolling_invD(1) [OF inv] col i by (auto simp: cs_def columns_inv_take_drop)
  have win: "cols_windows cs = sc_windows s + mset (col_windows column)"
    using cols_windows_insert [of i "sc_columns s"] by (simp add: cs_def sc_windows_def)
  have resize: "w \<in># sc_windows ?s1" if "sc_interactive_resize s = Some w" for w
    using scrolling_invD(4) [OF inv that] win by simp
  have act: "returns (activate_column i ?s1) (\<lambda>s'. scrolling_inv s' \<and> sc_columns s' = cs \<and>
      sc_active_column_idx s' = i \<and> sc_default_column_display s' = sc_default_column_display s)"
    using activate_column_ok [of ?s1 i] cs i resize by simp
  have unfold: "sc_add_column idx column activate s =
      (if activate then bind_res (activate_column i ?s1) (\<lambda>s2.
         Inr (s2\<lparr>sc_activate_prev_column_on_removal :=
            (sc_columns s \<noteq> [] \<and> i = sc_active_column_idx s + 1)\<rparr>))
       else if sc_columns s \<noteq> [] \<and> i \<le> sc_active_column_idx s
       then Inr (?s1\<lparr>sc_active_column_idx := sc_active_column_idx s + 1\<rparr>) else Inr ?s1)"
    using i by (simp add: sc_add_column_def Let_def vec_simps cs_def flip: add_idx_def i_def)
  show ?thesis
  proof (cases activate)
    case True
    with act win show ?thesis
      unfolding unfold i_def [symmetric] cs_def [symmetric]
      by (auto elim!: returns_mono simp: scrolling_inv_def sc_windows_def active_after_add_def)
  next
    case False
    with inv cs win resize i show ?thesis
      unfolding unfold i_def [symmetric] cs_def [symmetric]
      by (auto simp: scrolling_inv_def active_after_add_def split: if_splits)
  qed
qed

lemma sc_add_tile_ok:
  assumes "scrolling_inv s" "\<And>i. idx = Some i \<Longrightarrow> i \<le> length (sc_columns s)"
  shows "returns (sc_add_tile idx tile activate width full s) (\<lambda>s'. scrolling_inv s' \<and>
    sc_windows s' = add_mset (tl_window tile) (sc_windows s) \<and>
    sc_active_column_idx s' = active_after_add (add_idx idx s) activate s \<and>
    (\<exists>column. new_with_tile (sc_default_column_display s) tile width full = Inr column \<and>
      column_inv column \<and> col_windows column = [tl_window tile] \<and> col_width column = width \<and>
      col_is_full_width column = full \<and>
      sc_columns s' = take (add_idx idx s) (sc_columns s) @ column # drop (add_idx idx s) (sc_columns s)) \<and>
    sc_default_column_display s' = sc_default_column_display s)"
proof -
  obtain column where column: "new_with_tile (sc_default_column_display s) tile width full = Inr column"
    "column_inv column" "col_windows column = [tl_window tile]" "col_width column = width"
    "col_is_full_width column = full"
    using new_with_tile_ok by blast
  show ?thesis
    using sc_add_column_ok [OF assms(1) column(2), of idx activate, OF assms(2)] column
    by (auto simp: sc_add_tile_def elim!: returns_mono)
qed

text \<open>What adding a tile at index \<open>t\<close> of the column \<open>ci\<close> yields.\<close>

definition tile_added ::
  "nat \<Rightarrow> nat \<Rightarrow> 'w tile \<Rightarrow> bool \<Rightarrow> 'w scrolling_space \<Rightarrow> 'w scrolling_space \<Rightarrow> bool" where
  "tile_added ci t tile activate s s' \<longleftrightarrow> (let col = sc_columns s ! ci in scrolling_inv s' \<and>
    sc_windows s' = add_mset (tl_window tile) (sc_windows s) \<and>
    sc_active_column_idx s' = (if activate then ci else sc_active_column_idx s) \<and>
    (\<exists>col'. sc_columns s' = (sc_columns s)[ci := col'] \<and> column_inv col' \<and>
       col_windows col' = take t (col_windows col) @ tl_window tile # drop t (col_windows col) \<and>
       col_active_tile_idx col' = (if activate then t
         else if t \<le> col_active_tile_idx col then Suc (col_active_tile_idx col)
         else col_active_tile_idx col) \<and>
       col_width col' = col_width col \<and> col_is_full_width col' = col_is_full_width col \<and>
       col_display_mode col' = col_display_mode col) \<and>
    sc_default_column_display s' = sc_default_column_display s)"

lemma sc_add_tile_to_column_ok:
  assumes inv: "scrolling_inv s" and ci: "ci < length (sc_columns s)"
    and ti: "\<And>i. ti = Some i \<Longrightarrow> i \<le> length (col_tiles (sc_columns s ! ci))"
  shows "returns (sc_add_tile_to_column ci ti tile activate s) (tile_added ci
    (case ti of Some i \<Rightarrow> i | None \<Rightarrow> length (col_tiles (sc_columns s ! ci))) tile activate s)"
proof -
  define col where "col = sc_columns s ! ci"
  define t where "t = (case ti of Some i \<Rightarrow> i | None \<Rightarrow> length (col_tiles col))"
  have col: "column_inv col" unfolding col_def using inv ci by (rule scrolling_inv_nth)
  have t: "t \<le> length (col_tiles col)" using ti by (auto simp: t_def col_def split: option.split)
  obtain col1 where col1: "add_tile_at t tile col = Inr col1" "column_inv col1"
    "col_windows col1 = take t (col_windows col) @ tl_window tile # drop t (col_windows col)"
    "col_active_tile_idx col1 = col_active_tile_idx col" "col_width col1 = col_width col"
    "col_is_full_width col1 = col_is_full_width col" "col_display_mode col1 = col_display_mode col"
    using add_tile_at_ok [OF col t] by blast
  have len: "length (col_tiles col1) = Suc (length (col_tiles col))"
    using arg_cong [OF col1(3), of length] t by simp
  define a where "a = (if activate then t else if t \<le> col_active_tile_idx col
    then Suc (col_active_tile_idx col) else col_active_tile_idx col)"
  define col2 where "col2 = col1\<lparr>col_active_tile_idx := a\<rparr>"
  have active: "col_active_tile_idx col < length (col_tiles col)" using col by (simp add: column_inv_def)
  have "a < length (col_tiles col1)" using t active len by (simp add: a_def)
  then have col2: "column_inv col2" unfolding col2_def by (rule column_inv_active_idx [OF col1(2)])
  define s1 where "s1 = s\<lparr>sc_columns := (sc_columns s)[ci := col2]\<rparr>"
  have "cols_windows ((sc_columns s)[ci := col2]) + mset (col_windows col) =
      add_mset (tl_window tile) (sc_windows s) + mset (col_windows col)"
    using cols_windows_update [OF ci, of col2] col1(3) mset_insert_at [of t "col_windows col"]
    by (simp add: col_def [symmetric] col2_def sc_windows_def)
  then have win: "cols_windows ((sc_columns s)[ci := col2]) = add_mset (tl_window tile) (sc_windows s)"
    by simp
  have inv1: "columns_inv (sc_columns s1)" "ci < length (sc_columns s1)"
    "\<And>w. sc_interactive_resize s1 = Some w \<Longrightarrow> w \<in># sc_windows s1"
    using scrolling_invD [OF inv] ci col2 win by (auto simp: s1_def columns_inv_update)
  have "scrolling_inv s1" using inv inv1 by (auto simp: s1_def scrolling_inv_def split: if_splits)
  have same: "col1\<lparr>col_active_tile_idx := col_active_tile_idx col\<rparr> = col1"
    using col1(4) by (cases col1) simp
  have unfold: "sc_add_tile_to_column ci ti tile activate s =
      (if activate \<and> sc_active_column_idx s \<noteq> ci then activate_column ci s1 else Inr s1)"
    using ci col1(1,4) t active len
    by (auto simp: sc_add_tile_to_column_def vec_simps Let_def activate_idx_def s1_def col2_def a_def
        same simp flip: col_def t_def)
  have shape: "\<exists>col'. (sc_columns s)[ci := col2] = (sc_columns s)[ci := col'] \<and> column_inv col' \<and>
       col_windows col' = take t (col_windows col) @ tl_window tile # drop t (col_windows col) \<and>
       col_active_tile_idx col' = a \<and> col_width col' = col_width col \<and>
       col_is_full_width col' = col_is_full_width col \<and> col_display_mode col' = col_display_mode col"
    using col2 col1 by (intro exI [of _ col2]) (simp add: col2_def)
  have added: "tile_added ci t tile activate s s'"
    if "scrolling_inv s'" "sc_columns s' = (sc_columns s)[ci := col2]"
      "sc_active_column_idx s' = (if activate then ci else sc_active_column_idx s)"
      "sc_default_column_display s' = sc_default_column_display s" for s'
    unfolding tile_added_def Let_def col_def [symmetric] using that shape win
    by (simp add: sc_windows_def a_def)
  have "returns (activate_column ci s1) (tile_added ci t tile activate s)" if activate
    by (rule returns_mono [OF activate_column_ok [OF inv1(1,2) inv1(3)]], assumption, rule added)
      (simp_all add: that s1_def)
  moreover have "tile_added ci t tile activate s s1" if "\<not> (activate \<and> sc_active_column_idx s \<noteq> ci)"
    using that \<open>scrolling_inv s1\<close> by (intro added) (auto simp: s1_def)
  ultimately show ?thesis
    unfolding unfold col_def [symmetric] t_def [symmetric] by auto
qed

subsection \<open>Removal\<close>

definition active_after_remove :: "nat \<Rightarrow> 'w scrolling_space \<Rightarrow> nat" where
  "active_after_remove ci s =
     (let a = sc_active_column_idx s in
      if length (sc_columns s) = 1 then a
      else if ci < a then a - 1
      else if ci = a \<and> sc_activate_prev_column_on_removal s then a - 1
      else min a (length (sc_columns s) - 2))"

lemma cancel_resize_simps:
  "cancel_resize_for_column col r = Some w \<longleftrightarrow> r = Some w \<and> w \<notin> set (col_windows col)"
  by (auto simp: cancel_resize_for_column_def split: option.splits)

lemma remove_column_by_idx_ok:
  assumes inv: "scrolling_inv s" and ci: "ci < length (sc_columns s)"
  shows "returns (remove_column_by_idx ci s) (\<lambda>(col, s'). col = sc_columns s ! ci \<and> scrolling_inv s' \<and>
    sc_columns s' = take ci (sc_columns s) @ drop (Suc ci) (sc_columns s) \<and>
    sc_windows s = mset (col_windows col) + sc_windows s' \<and>
    sc_active_column_idx s' = active_after_remove ci s \<and>
    sc_default_column_display s' = sc_default_column_display s)"
proof -
  define cs where "cs = take ci (sc_columns s) @ drop (Suc ci) (sc_columns s)"
  define col where "col = sc_columns s ! ci"
  define prev where "prev = (sc_activate_prev_column_on_removal s \<and> ci + 1 \<noteq> sc_active_column_idx s)"
  define s1 where "s1 = s\<lparr>sc_columns := cs,
    sc_interactive_resize := cancel_resize_for_column col (sc_interactive_resize s),
    sc_activate_prev_column_on_removal := prev\<rparr>"
  have a: "sc_active_column_idx s < length (sc_columns s)"
    using ci scrolling_invD(2) [OF inv] by (cases "sc_columns s") auto
  have win: "sc_windows s = mset (col_windows col) + cols_windows cs"
    using cols_windows_split [OF ci] by (simp add: cs_def col_def sc_windows_def)
  have cs: "columns_inv cs" "length cs = length (sc_columns s) - 1"
    using scrolling_invD(1) [OF inv] ci by (auto simp: cs_def columns_inv_take_drop)
  have resize: "w \<in># sc_windows s1" if "sc_interactive_resize s1 = Some w" for w
    using that scrolling_invD(4) [OF inv, of w] win by (auto simp: s1_def cancel_resize_simps)
  have act: "returns (activate_column i s1) (\<lambda>s'. scrolling_inv s' \<and> sc_columns s' = cs \<and>
      sc_active_column_idx s' = i \<and> sc_default_column_display s' = sc_default_column_display s)"
    if "i < length cs" for i
    using activate_column_ok [of s1 i] that cs(1) resize by (simp add: s1_def)
  have prev_s1: "sc_activate_prev_column_on_removal s1 = prev" by (simp add: s1_def)
  have unfold: "remove_column_by_idx ci s =
      (if cs = [] then Inr (col, s1)
       else if ci < sc_active_column_idx s
       then Inr (col, s1\<lparr>sc_active_column_idx := sc_active_column_idx s - 1,
                         sc_activate_prev_column_on_removal := False\<rparr>)
       else if ci = sc_active_column_idx s \<and> prev
       then (if 0 < ci then bind_res (activate_column (sc_active_column_idx s - 1) s1) (\<lambda>s2. Inr (col, s2))
             else Inr (col, s1))
       else bind_res (activate_column (min (sc_active_column_idx s) (length cs - 1)) s1)
              (\<lambda>s2. Inr (col, s2)))"
    unfolding remove_column_by_idx_def vec_Inr(2) [OF ci] bind_res.simps prod.case Let_def
      cs_def [symmetric] col_def [symmetric] prev_def [symmetric] s1_def [symmetric]
    by (simp only: prev_s1)
  have ne: "cs = [] \<longleftrightarrow> length (sc_columns s) = 1" using cs(2) a by (cases cs) auto
  have s1_inv: "scrolling_inv (s1\<lparr>sc_active_column_idx := i, sc_activate_prev_column_on_removal := b\<rparr>)"
    if "if cs = [] then i = 0 else i < length cs" for i b
    using that cs(1) resize by (simp add: scrolling_inv_def s1_def)
  have s1_inv': "scrolling_inv s1"
    if "if cs = [] then sc_active_column_idx s = 0 else sc_active_column_idx s < length cs"
    using that cs(1) resize by (simp add: scrolling_inv_def s1_def)
  have goal: "returns (remove_column_by_idx ci s) (\<lambda>(c, s'). c = col \<and> scrolling_inv s' \<and>
      sc_columns s' = cs \<and> sc_active_column_idx s' = active_after_remove ci s \<and>
      sc_default_column_display s' = sc_default_column_display s)"
  proof -
    consider "cs = []" | "cs \<noteq> []" "ci < sc_active_column_idx s"
      | "cs \<noteq> []" "ci = sc_active_column_idx s" "prev" "0 < ci"
      | "cs \<noteq> []" "ci = sc_active_column_idx s" "prev" "ci = 0"
      | "cs \<noteq> []" "\<not> ci < sc_active_column_idx s" "\<not> (ci = sc_active_column_idx s \<and> prev)" by blast
    then show ?thesis
    proof cases
      case 1
      then show ?thesis using s1_inv' a ne
        by (simp add: unfold active_after_remove_def Let_def s1_def)
    next
      case 2
      then show ?thesis using s1_inv [of "sc_active_column_idx s - 1" False] a ne cs(2)
        by (simp add: unfold active_after_remove_def Let_def s1_def)
    next
      case 3
      then have "sc_active_column_idx s - 1 < length cs" using a cs(2) by simp
      from act [OF this] 3 ne show ?thesis unfolding unfold
        by (auto simp: active_after_remove_def Let_def prev_def elim!: returns_mono)
    next
      case 4
      then show ?thesis using s1_inv' a ne cs(2)
        unfolding unfold by (simp add: active_after_remove_def Let_def s1_def prev_def)
    next
      case 5
      then have "min (sc_active_column_idx s) (length cs - 1) < length cs"
        "min (sc_active_column_idx s) (length cs - 1) = active_after_remove ci s"
        using a ne cs(2) ci by (auto simp: active_after_remove_def Let_def prev_def)
      with act 5 show ?thesis unfolding unfold by (auto elim!: returns_mono)
    qed
  qed
  then show ?thesis unfolding cs_def [symmetric] col_def [symmetric] using win
    by (auto elim!: returns_mono simp: sc_windows_def)
qed

definition tile_after_remove :: "nat \<Rightarrow> 'w column \<Rightarrow> nat" where
  "tile_after_remove ti col =
     (let a = col_active_tile_idx col in
      if ti < a then a - 1
      else if ti = a \<and> Suc ti = length (col_tiles col) then ti - 1
      else a)"

lemma remove_tile_column:
  assumes inv: "column_inv col" and ti: "ti < length (col_tiles col)" and len: "length (col_tiles col) \<noteq> 1"
  defines "col' \<equiv> update_tile_sizes (col\<lparr>col_tiles := take ti (col_tiles col) @ drop (Suc ti) (col_tiles col),
    col_active_tile_idx := tile_after_remove ti col\<rparr>)"
  shows "column_inv col'"
    and "col_windows col' = take ti (col_windows col) @ drop (Suc ti) (col_windows col)"
    and "mset (col_windows col) = add_mset (tl_window (col_tiles col ! ti)) (mset (col_windows col'))"
proof -
  have a: "col_active_tile_idx col < length (col_tiles col)" using inv by (simp add: column_inv_def)
  have "tile_after_remove ti col < length (col_tiles col) - 1"
    using ti len a by (auto simp: tile_after_remove_def Let_def)
  with column_inv_shape [OF inv] ti len show "column_inv col'"
    by (auto simp: col'_def column_shape_def)
  show win: "col_windows col' = take ti (col_windows col) @ drop (Suc ti) (col_windows col)"
    by (simp add: col'_def col_windows_take_drop)
  show "mset (col_windows col) = add_mset (tl_window (col_tiles col ! ti)) (mset (col_windows col'))"
    using mset_remove_at [of ti "col_windows col"] ti unfolding win by (simp add: col_windows_def)
qed

text \<open>What removing the tile at \<open>(ci, ti)\<close> yields: the tile with its column's width, and the rest.\<close>

definition tile_removed ::
  "nat \<Rightarrow> nat \<Rightarrow> 'w scrolling_space \<Rightarrow> 'w removed_tile \<times> 'w scrolling_space \<Rightarrow> bool" where
  "tile_removed ci ti s = (\<lambda>(r, s'). let col = sc_columns s ! ci in scrolling_inv s' \<and>
    rt_tile r = col_tiles col ! ti \<and> rt_width r = col_width col \<and>
    rt_is_full_width r = col_is_full_width col \<and> \<not> rt_is_floating r \<and>
    sc_windows s = add_mset (tl_window (rt_tile r)) (sc_windows s') \<and>
    sc_default_column_display s' = sc_default_column_display s \<and>
    (if length (col_tiles col) = 1
     then sc_columns s' = take ci (sc_columns s) @ drop (Suc ci) (sc_columns s) \<and>
       sc_active_column_idx s' = active_after_remove ci s
     else sc_active_column_idx s' = sc_active_column_idx s \<and>
       (\<exists>col'. sc_columns s' = (sc_columns s)[ci := col'] \<and> column_inv col' \<and>
          col_windows col' = take ti (col_windows col) @ drop (Suc ti) (col_windows col) \<and>
          col_active_tile_idx col' = tile_after_remove ti col \<and> col_width col' = col_width col \<and>
          col_is_full_width col' = col_is_full_width col \<and> col_display_mode col' = col_display_mode col)))"

lemma remove_tile_by_idx_ok:
  assumes inv: "scrolling_inv s" and ci: "ci < length (sc_columns s)"
    and ti: "ti < length (col_tiles (sc_columns s ! ci))"
  shows "returns (remove_tile_by_idx ci ti s) (tile_removed ci ti s)"
proof -
  define col where "col = sc_columns s ! ci"
  have col: "column_inv col" unfolding col_def using inv ci by (rule scrolling_inv_nth)
  show ?thesis
  proof (cases "length (col_tiles col) = 1")
    case True
    then have "ti = 0" "col_windows col = [tl_window (col_tiles col ! 0)]"
      using ti by (auto simp: col_def col_windows_def length_Suc_conv)
    with True ci remove_column_by_idx_ok [OF inv ci] show ?thesis
      by (auto simp: remove_tile_by_idx_def tile_removed_def Let_def simp flip: col_def
          elim!: returns_mono)
  next
    case False
    define ts where "ts = take ti (col_tiles col) @ drop (Suc ti) (col_tiles col)"
    define col' where "col' = update_tile_sizes (col\<lparr>col_tiles := ts,
      col_active_tile_idx := tile_after_remove ti col\<rparr>)"
    have ti': "ti < length (col_tiles col)" using ti by (simp add: col_def)
    note shape = remove_tile_column [OF col ti' False, folded ts_def, folded col'_def]
    let ?w = "tl_window (col_tiles col ! ti)"
    define s' where "s' = s\<lparr>sc_columns := (sc_columns s)[ci := col'],
      sc_interactive_resize := (if sc_interactive_resize s = Some ?w then None else sc_interactive_resize s)\<rparr>"
    have a: "col_active_tile_idx col < length (col_tiles col)" using col by (simp add: column_inv_def)
    have same: "col\<lparr>col_tiles := ts, col_active_tile_idx := col_active_tile_idx col\<rparr> = col\<lparr>col_tiles := ts\<rparr>"
      by (cases col) simp
    let ?col1 = "col\<lparr>col_tiles := ts\<rparr>"
    have len: "length ts = length (col_tiles col) - 1" using ti' by (simp add: ts_def)
    have fixup: "(if ti < col_active_tile_idx ?col1
        then Inr (?col1\<lparr>col_active_tile_idx := col_active_tile_idx ?col1 - 1\<rparr>)
        else if ti = col_active_tile_idx ?col1 \<and> ti = length ts
        then bind_res (activate_idx (ti - 1) ?col1) (\<lambda>(col, _). Inr col)
        else Inr ?col1) = Inr (col\<lparr>col_tiles := ts, col_active_tile_idx := tile_after_remove ti col\<rparr>)"
      using ti' False a len same by (auto simp: activate_idx_def vec_simps tile_after_remove_def Let_def)
    have eq: "remove_tile_by_idx ci ti s = Inr (\<lparr>rt_tile = col_tiles col ! ti, rt_width = col_width col,
        rt_is_full_width = col_is_full_width col, rt_is_floating = False\<rparr>, s')"
      unfolding remove_tile_by_idx_def vec_Inr(3) [OF ci] bind_res.simps col_def [symmetric]
        if_not_P [OF False] vec_Inr(2) [OF ti'] prod.case Let_def ts_def [symmetric] fixup
        col'_def [symmetric] s'_def
      by simp
    have "cols_windows ((sc_columns s)[ci := col']) + mset (col_windows col) =
        cols_windows (sc_columns s) + mset (col_windows col')"
      using cols_windows_update [OF ci, of col'] by (simp add: col_def)
    then have win: "sc_windows s = add_mset ?w (cols_windows ((sc_columns s)[ci := col']))"
      unfolding shape(3) sc_windows_def by simp
    have resize: "w \<in># sc_windows s'" if "sc_interactive_resize s' = Some w" for w
      using that scrolling_invD(4) [OF inv, of w] win by (auto simp: s'_def split: if_splits)
    have "scrolling_inv s'"
      using inv resize shape(1) ci by (auto simp: scrolling_inv_def s'_def columns_inv_update split: if_splits)
    then show ?thesis using eq False shape win
      by (auto simp: tile_removed_def Let_def s'_def col'_def simp flip: col_def intro!: exI [of _ col'])
  qed
qed

end
