(* ===== verification/Scrolling_Ops.thy ===== *)
theory Scrolling_Ops
  imports Scrolling_Inv
begin

text \<open>
  The operations that rearrange a scrolling space without adding or removing a window: each of them
  returns normally from a state that satisfies the invariant, keeps the invariant and keeps every
  window exactly once.
\<close>

definition sc_keeps :: "'w scrolling_space \<Rightarrow> 'w scrolling_space \<Rightarrow> bool" where
  "sc_keeps s s' \<longleftrightarrow> scrolling_inv s' \<and> sc_windows s' = sc_windows s \<and>
     sc_default_column_display s' = sc_default_column_display s"

lemma sc_keeps_refl: "scrolling_inv s \<Longrightarrow> sc_keeps s s"
  by (simp add: sc_keeps_def)

lemma sc_keeps_trans: "sc_keeps s t \<Longrightarrow> sc_keeps t u \<Longrightarrow> sc_keeps s u"
  by (simp add: sc_keeps_def)

lemma sc_keeps_inv: "sc_keeps s s' \<Longrightarrow> scrolling_inv s'"
  by (simp add: sc_keeps_def)

lemma scrolling_inv_prev [simp]:
  "scrolling_inv (s\<lparr>sc_activate_prev_column_on_removal := b\<rparr>) = scrolling_inv s"
  by (simp add: scrolling_inv_def)

lemma returns_keeps_trans:
  "returns r (sc_keeps s) \<Longrightarrow> (\<And>t. sc_keeps s t \<Longrightarrow> returns (f t) (sc_keeps t)) \<Longrightarrow>
   returns (bind_res r f) (sc_keeps s)"
  by (force elim!: returns_mono intro: sc_keeps_trans)

subsection \<open>Focus\<close>

lemma activate_column_keeps:
  assumes "scrolling_inv s" "idx < length (sc_columns s)"
  shows "returns (activate_column idx s) (sc_keeps s)"
  using activate_column_ok [OF scrolling_invD(1) [OF assms(1)] assms(2)] scrolling_invD(4) [OF assms(1)]
  by (auto simp: sc_keeps_def sc_windows_def elim!: returns_mono)

text \<open>Replacing the active column by one with the same windows.\<close>

lemma update_column_keeps:
  assumes "scrolling_inv s" "i < length (sc_columns s)" "column_inv col"
    "mset (col_windows col) = mset (col_windows (sc_columns s ! i))"
    and "\<And>w. r = Some w \<Longrightarrow> sc_interactive_resize s = Some w"
  shows "sc_keeps s (s\<lparr>sc_columns := (sc_columns s)[i := col], sc_interactive_resize := r\<rparr>)"
proof -
  have "cols_windows ((sc_columns s)[i := col]) = sc_windows s"
    using cols_windows_update_same [OF assms(2,4)] by (simp add: sc_windows_def)
  with assms(1,3,5) show ?thesis
    by (auto simp: sc_keeps_def scrolling_inv_def columns_inv_update split: if_splits)
qed

definition col_keeps :: "'w column \<Rightarrow> 'w column \<Rightarrow> bool" where
  "col_keeps col col' \<longleftrightarrow> column_inv col' \<and> mset (col_windows col') = mset (col_windows col)"

lemma on_active_column_keeps:
  assumes "scrolling_inv s"
    and "\<And>col. column_inv col \<Longrightarrow> returns (f col) (\<lambda>(col', _). col_keeps col col')"
  shows "returns (on_active_column f s) (\<lambda>(s', _). sc_keeps s s')"
proof (cases "sc_columns s = []")
  case True
  then show ?thesis using assms(1) by (simp add: on_active_column_def sc_keeps_refl)
next
  case False
  let ?i = "sc_active_column_idx s"
  have i: "?i < length (sc_columns s)" using scrolling_invD(2) [OF assms(1) False] .
  have "s\<lparr>sc_columns := cs\<rparr> = s\<lparr>sc_columns := cs, sc_interactive_resize := sc_interactive_resize s\<rparr>" for cs
    by (cases s) simp
  then have "sc_keeps s (s\<lparr>sc_columns := (sc_columns s)[?i := col']\<rparr>)"
    if "column_inv col'" "mset (col_windows col') = mset (col_windows (sc_columns s ! ?i))" for col'
    using update_column_keeps [OF assms(1) i that, of "sc_interactive_resize s"] by simp
  with False i assms(2) [OF scrolling_inv_nth [OF assms(1) i]] show ?thesis
    by (auto simp: on_active_column_def col_keeps_def elim!: returns_mono)
qed

lemma refocuses_col_keeps: "column_inv col \<Longrightarrow> refocuses col col' \<Longrightarrow> col_keeps col col'"
  by (simp add: col_keeps_def refocusesD)

lemma col_move_to_col_keeps:
  assumes "column_inv col" "idx < length (col_tiles col)"
  shows "returns (col_move_to idx col) (\<lambda>(col', _). col_keeps col col')"
  using col_move_to_ok [OF assms] by (auto simp: col_keeps_def)

lemma col_focus_returns:
  assumes inv: "column_inv col"
  shows "returns (col_focus_up col) (\<lambda>(col', _). col_keeps col col')"
    and "returns (col_focus_down col) (\<lambda>(col', _). col_keeps col col')"
    and "returns (col_move_up col) (\<lambda>(col', _). col_keeps col col')"
    and "returns (col_move_down col) (\<lambda>(col', _). col_keeps col col')"
    and "returns (col_focus_index k col) (col_keeps col)"
    and "returns (col_focus_top col) (col_keeps col)"
    and "returns (col_focus_bottom col) (col_keeps col)"
  using col_focus_ok [OF inv] col_move_ok [OF inv] col_move_to_col_keeps [OF inv]
  by (metis (no_types, lifting) returnsI refocuses_col_keeps [OF inv] case_prod_conv)+

lemma sc_focus_horizontal_keeps:
  assumes "scrolling_inv s"
  shows "returns (sc_focus_left s) (\<lambda>(s', _). sc_keeps s s')"
    and "returns (sc_focus_right s) (\<lambda>(s', _). sc_keeps s s')"
    and "returns (sc_focus_column_first s) (sc_keeps s)"
    and "returns (sc_focus_column_last s) (sc_keeps s)"
    and "returns (sc_focus_column k s) (sc_keeps s)"
proof -
  note act = activate_column_keeps [OF assms] sc_keeps_refl [OF assms] scrolling_invD(2,3) [OF assms]
  have ne: "sc_active_column_idx s \<noteq> 0 \<Longrightarrow> sc_columns s \<noteq> []" using act(4) by auto
  have last_lt: "k - Suc 0 \<le> length (sc_columns s) - Suc 0 \<Longrightarrow> sc_columns s \<noteq> [] \<Longrightarrow>
      k - Suc 0 < length (sc_columns s)" by (cases "sc_columns s") auto
  have zero: "activate_column 0 s = Inr s" if "sc_columns s = []"
    using act(4) [OF that] by (simp add: activate_column_def)
  show "returns (sc_focus_left s) (\<lambda>(s', _). sc_keeps s s')"
    using act ne by (auto simp: sc_focus_left_def intro!: act(1))
  show "returns (sc_focus_right s) (\<lambda>(s', _). sc_keeps s s')"
    using act(2) by (auto simp: sc_focus_right_def intro!: act(1))
  show "returns (sc_focus_column_first s) (sc_keeps s)"
    using act(2) zero by (cases "sc_columns s = []") (auto simp: sc_focus_column_first_def intro!: act(1))
  show "returns (sc_focus_column_last s) (sc_keeps s)"
    using act(2) by (auto simp: sc_focus_column_last_def intro!: act(1))
  show "returns (sc_focus_column k s) (sc_keeps s)"
    using act(2) last_lt by (auto simp: sc_focus_column_def min_def intro!: act(1))
qed

lemma sc_focus_vertical_keeps:
  assumes "scrolling_inv s"
  shows "returns (sc_focus_up s) (\<lambda>(s', _). sc_keeps s s')"
    and "returns (sc_focus_down s) (\<lambda>(s', _). sc_keeps s s')"
    and "returns (sc_move_up s) (\<lambda>(s', _). sc_keeps s s')"
    and "returns (sc_move_down s) (\<lambda>(s', _). sc_keeps s s')"
    and "returns (sc_focus_window_in_column k s) (sc_keeps s)"
    and "returns (sc_focus_top s) (sc_keeps s)"
    and "returns (sc_focus_bottom s) (sc_keeps s)"
proof -
  have unit: "returns (bind_res (on_active_column (\<lambda>col. bind_res (f col) (\<lambda>col. Inr (col, True))) s)
      (\<lambda>(s, _). Inr s)) (sc_keeps s)"
    if "\<And>col. column_inv col \<Longrightarrow> returns (f col) (col_keeps col)" for f
    using on_active_column_keeps [OF assms, of "\<lambda>col. bind_res (f col) (\<lambda>col. Inr (col, True))"] that
    by simp
  show "returns (sc_focus_up s) (\<lambda>(s', _). sc_keeps s s')"
    "returns (sc_focus_down s) (\<lambda>(s', _). sc_keeps s s')"
    "returns (sc_move_up s) (\<lambda>(s', _). sc_keeps s s')"
    "returns (sc_move_down s) (\<lambda>(s', _). sc_keeps s s')"
    unfolding sc_focus_up_def sc_focus_down_def sc_move_up_def sc_move_down_def
    by (intro on_active_column_keeps assms col_focus_returns; assumption)+
  show "returns (sc_focus_window_in_column k s) (sc_keeps s)"
    "returns (sc_focus_top s) (sc_keeps s)" "returns (sc_focus_bottom s) (sc_keeps s)"
    unfolding sc_focus_window_in_column_def sc_focus_top_def sc_focus_bottom_def
    by (intro unit col_focus_returns; assumption)+
qed

lemma sc_focus_or_keeps:
  assumes "scrolling_inv s"
    and "\<And>s. scrolling_inv s \<Longrightarrow> returns (v s) (\<lambda>(s', _). sc_keeps s s')"
    and "\<And>s. scrolling_inv s \<Longrightarrow> returns (h s) (\<lambda>(s', _). sc_keeps s s')"
  shows "returns (sc_focus_or v h s) (sc_keeps s)"
proof -
  have "returns (h t) (\<lambda>(s', _). sc_keeps s s')" if "sc_keeps s t" for t
    using assms(3) [OF sc_keeps_inv [OF that]] sc_keeps_trans [OF that] by (auto elim!: returns_mono)
  with assms(2) [OF assms(1)] sc_keeps_refl [OF assms(1)] show ?thesis
    by (auto simp: sc_focus_or_def elim!: returns_mono)
qed

lemma sc_focus_diagonal_keeps:
  assumes "scrolling_inv s"
  shows "returns (sc_focus_down_or_left s) (sc_keeps s)" "returns (sc_focus_down_or_right s) (sc_keeps s)"
    "returns (sc_focus_up_or_left s) (sc_keeps s)" "returns (sc_focus_up_or_right s) (sc_keeps s)"
  unfolding sc_focus_down_or_left_def sc_focus_down_or_right_def sc_focus_up_or_left_def
    sc_focus_up_or_right_def
  by (intro sc_focus_or_keeps assms sc_focus_horizontal_keeps sc_focus_vertical_keeps; assumption)+

lemma position_contains:
  assumes "w \<in># cols_windows cs"
  shows "\<exists>i. position (\<lambda>col. col_contains col w) cs = Some i"
  using assms position_None [of "\<lambda>col. col_contains col w" cs]
  by (cases "position (\<lambda>col. col_contains col w) cs") (auto simp: cols_windows_def)

lemma sc_active_window_eq:
  assumes "sc_active_column_idx s < length (sc_columns s)"
    "column_inv (sc_columns s ! sc_active_column_idx s)"
  shows "sc_active_window s = Inr (Some (tl_window (col_tiles (sc_columns s ! sc_active_column_idx s) !
    col_active_tile_idx (sc_columns s ! sc_active_column_idx s))))"
  using assms by (auto simp: sc_active_window_def vec_simps column_inv_def)

lemma sc_activate_window_keeps:
  assumes "scrolling_inv s"
  shows "returns (sc_activate_window w s) (\<lambda>(s', found). sc_keeps s s' \<and> (found \<longleftrightarrow> w \<in># sc_windows s) \<and>
    (found \<longrightarrow> sc_active_window s' = Inr (Some w)))"
proof (cases "position (\<lambda>col. col_contains col w) (sc_columns s)")
  case None
  then have "w \<notin># sc_windows s" using position_contains [of w "sc_columns s"] by (auto simp: sc_windows_def)
  with None assms show ?thesis by (simp add: sc_activate_window_def sc_keeps_refl)
next
  case (Some i)
  from position_Some [OF Some] have i: "i < length (sc_columns s)"
    and w: "w \<in> set (col_windows (sc_columns s ! i))" by simp_all
  have mem: "w \<in># sc_windows s" using w i by (auto simp: sc_windows_def cols_windows_split [OF i])
  obtain col where col: "col_activate_window w (sc_columns s ! i) = Inr col"
    "refocuses (sc_columns s ! i) col" "tl_window (col_tiles col ! col_active_tile_idx col) = w"
    using col_activate_window_ok [OF scrolling_inv_nth [OF assms i] w] by blast
  note ref = refocusesD [OF col(2) scrolling_inv_nth [OF assms i]]
  define s1 where "s1 = s\<lparr>sc_columns := (sc_columns s)[i := col]\<rparr>"
  have "s1 = s\<lparr>sc_columns := (sc_columns s)[i := col], sc_interactive_resize := sc_interactive_resize s\<rparr>"
    by (cases s) (simp add: s1_def)
  then have s1: "sc_keeps s s1"
    using update_column_keeps [OF assms i ref(1), of "sc_interactive_resize s"] ref(2) by simp
  have "returns (activate_column i s1) (\<lambda>s'. sc_keeps s s' \<and> sc_active_window s' = Inr (Some w))"
  proof (rule returns_mono)
    show "returns (activate_column i s1) (\<lambda>s'. scrolling_inv s' \<and> sc_columns s' = sc_columns s1 \<and>
      sc_active_column_idx s' = i \<and> sc_default_column_display s' = sc_default_column_display s1)"
      using activate_column_ok [OF scrolling_invD(1) [OF sc_keeps_inv [OF s1]], of i]
        scrolling_invD(4) [OF sc_keeps_inv [OF s1]] i by (simp add: s1_def)
  next
    fix s'
    assume s': "scrolling_inv s' \<and> sc_columns s' = sc_columns s1 \<and>
      sc_active_column_idx s' = i \<and> sc_default_column_display s' = sc_default_column_display s1"
    then have "sc_columns s' ! sc_active_column_idx s' = col" "sc_active_column_idx s' < length (sc_columns s')"
      using i by (simp_all add: s1_def)
    with sc_active_window_eq [of s'] ref(1) col(3) s' s1
    show "sc_keeps s s' \<and> sc_active_window s' = Inr (Some w)"
      by (simp add: sc_keeps_def sc_windows_def)
  qed
  with Some i col(1) mem show ?thesis
    by (auto simp: sc_activate_window_def s1_def elim!: returns_mono)
qed

subsection \<open>Moving columns\<close>

definition list_move :: "nat \<Rightarrow> nat \<Rightarrow> 'a list \<Rightarrow> 'a list" where
  "list_move i j xs = (let ys = take i xs @ drop (Suc i) xs in take j ys @ xs ! i # drop j ys)"

lemma length_list_move [simp]: "i < length xs \<Longrightarrow> j < length xs \<Longrightarrow> length (list_move i j xs) = length xs"
  by (simp add: list_move_def Let_def)

lemma insert_at_nth: "j \<le> length ys \<Longrightarrow> (take j ys @ y # drop j ys) ! j = y"
  by (simp add: nth_append)

lemma list_move_nth [simp]:
  assumes "i < length xs" "j < length xs"
  shows "list_move i j xs ! j = xs ! i"
  unfolding list_move_def Let_def using assms by (intro insert_at_nth) simp

lemma mset_list_move: "i < length xs \<Longrightarrow> mset (list_move i j xs) = mset xs"
  unfolding list_move_def Let_def mset_insert_at by (rule mset_remove_at [symmetric])

lemma list_move_adjacent_append:
  "list_move (length us) (Suc (length us)) (us @ a # b # vs) = us @ b # a # vs"
  "list_move (Suc (length us)) (length us) (us @ a # b # vs) = us @ b # a # vs"
  by (simp_all add: list_move_def Let_def nth_append)

lemma list_move_adjacent:
  assumes "i < length xs" "j < length xs" "j = Suc i \<or> i = Suc j"
  shows "list_move i j xs = xs[i := xs ! j, j := xs ! i]"
proof -
  define k where "k = min i j"
  have k: "Suc k < length xs" using assms by (auto simp: k_def)
  have "xs = take k xs @ xs ! k # xs ! Suc k # drop (Suc (Suc k)) xs"
    unfolding Cons_nth_drop_Suc [OF k] Cons_nth_drop_Suc [OF Suc_lessD [OF k]] by simp
  moreover have "length (take k xs) = k" using k by simp
  ultimately obtain us a b vs where xs: "xs = us @ a # b # vs" and len: "length us = k" by blast
  from assms(3) show ?thesis
  proof
    assume j: "j = Suc i"
    then have "i = length us" using len by (simp add: k_def)
    then show ?thesis unfolding xs j
      by (simp add: list_move_adjacent_append nth_append list_update_append)
  next
    assume i: "i = Suc j"
    then have "j = length us" using len by (simp add: k_def)
    then show ?thesis unfolding xs i
      by (simp add: list_move_adjacent_append nth_append list_update_append)
  qed
qed

lemma cols_windows_mset_cong: "mset cs = mset ds \<Longrightarrow> cols_windows cs = cols_windows ds"
proof -
  have "cols_windows cs = (\<Sum>c\<in>#mset cs. mset (col_windows c))" for cs :: "'a column list"
    by (induction cs) simp_all
  then show "mset cs = mset ds \<Longrightarrow> cols_windows cs = cols_windows ds" by simp
qed

lemma columns_inv_mset_cong: "mset cs = mset ds \<Longrightarrow> columns_inv cs = columns_inv ds"
  unfolding columns_inv_def list_all_iff by (metis set_mset_mset)

lemma move_column_to_ok:
  assumes inv: "scrolling_inv s" and n: "n < length (sc_columns s)"
  shows "returns (move_column_to n s) (\<lambda>s'. sc_keeps s s' \<and> sc_active_column_idx s' = n \<and>
    sc_columns s' = (if sc_active_column_idx s = n then sc_columns s
      else list_move (sc_active_column_idx s) n (sc_columns s)))"
proof (cases "sc_active_column_idx s = n")
  case True
  with inv show ?thesis by (simp add: move_column_to_def sc_keeps_refl)
next
  case False
  let ?a = "sc_active_column_idx s"
  let ?cs = "list_move ?a n (sc_columns s)"
  have a: "?a < length (sc_columns s)" using inv n by (cases "sc_columns s") (auto dest: scrolling_invD(2))
  define s1 where "s1 = s\<lparr>sc_columns := ?cs, sc_interactive_resize :=
    cancel_resize_for_column (sc_columns s ! ?a) (sc_interactive_resize s)\<rparr>"
  have perm: "mset ?cs = mset (sc_columns s)" using a by (rule mset_list_move)
  have win: "cols_windows ?cs = sc_windows s"
    unfolding sc_windows_def by (rule cols_windows_mset_cong [OF perm])
  have s1: "columns_inv (sc_columns s1)" "n < length (sc_columns s1)"
    "\<And>w. sc_interactive_resize s1 = Some w \<Longrightarrow> w \<in># sc_windows s1"
    using columns_inv_mset_cong [OF perm] scrolling_invD(1,4) [OF inv] a n win
    by (auto simp: s1_def cancel_resize_simps)
  have "move_column_to n s = activate_column n s1"
    using False a n by (simp add: move_column_to_def vec_simps s1_def list_move_def Let_def)
  with activate_column_ok [OF s1] win False show ?thesis
    by (auto simp: sc_keeps_def sc_windows_def s1_def elim!: returns_mono)
qed

lemma sc_move_keeps:
  assumes "scrolling_inv s"
  shows "returns (sc_move_left s) (\<lambda>(s', _). sc_keeps s s')"
    and "returns (sc_move_right s) (\<lambda>(s', _). sc_keeps s s')"
    and "returns (sc_move_column_to_first s) (sc_keeps s)"
    and "returns (sc_move_column_to_last s) (sc_keeps s)"
    and "returns (sc_move_column_to_index k s) (sc_keeps s)"
proof -
  have move: "returns (move_column_to n s) (sc_keeps s)" if "n < length (sc_columns s)" for n
    using move_column_to_ok [OF assms that] by (auto elim!: returns_mono)
  have ne: "sc_active_column_idx s < length (sc_columns s)" if "sc_columns s \<noteq> []"
    using scrolling_invD(2) [OF assms that] .
  have "sc_active_column_idx s \<noteq> 0 \<Longrightarrow> sc_columns s \<noteq> []" using scrolling_invD(3) [OF assms] by auto
  with ne show "returns (sc_move_left s) (\<lambda>(s', _). sc_keeps s s')"
    using sc_keeps_refl [OF assms] by (auto simp: sc_move_left_def intro!: move)
  show "returns (sc_move_right s) (\<lambda>(s', _). sc_keeps s s')"
    using sc_keeps_refl [OF assms] by (auto simp: sc_move_right_def Let_def intro!: move)
  have "move_column_to 0 s = Inr s" if "sc_columns s = []"
    using scrolling_invD(3) [OF assms that] by (simp add: move_column_to_def)
  then show "returns (sc_move_column_to_first s) (sc_keeps s)"
    using sc_keeps_refl [OF assms]
    by (cases "sc_columns s = []") (auto simp: sc_move_column_to_first_def intro!: move)
  show "returns (sc_move_column_to_last s) (sc_keeps s)"
    using sc_keeps_refl [OF assms] by (auto simp: sc_move_column_to_last_def intro!: move)
  have "sc_columns s \<noteq> [] \<Longrightarrow> min (k - 1) (length (sc_columns s) - 1) < length (sc_columns s)"
    by (cases "sc_columns s") (auto simp: min_def)
  then show "returns (sc_move_column_to_index k s) (sc_keeps s)"
    using sc_keeps_refl [OF assms] move by (auto simp: sc_move_column_to_index_def)
qed

subsection \<open>Consuming and expelling\<close>

lemma find_window_ok:
  assumes "w \<in># cols_windows cs"
  shows "\<exists>ci ti. find_window w cs = Some (ci, ti) \<and> ci < length cs \<and> ti < length (col_tiles (cs ! ci)) \<and>
    tl_window (col_tiles (cs ! ci) ! ti) = w"
  using assms
proof (induction cs)
  case (Cons col cs)
  show ?case
  proof (cases "col_position col w")
    case None
    then have "w \<notin> set (col_windows col)" using col_position_present [of w col] by auto
    with Cons None show ?thesis by fastforce
  next
    case (Some i)
    with col_position_Some [OF Some] show ?thesis by auto
  qed
qed simp

lemma source_of_ok:
  assumes "scrolling_inv s" "sc_columns s \<noteq> []" "\<And>w. window = Some w \<Longrightarrow> w \<in># sc_windows s"
  shows "\<exists>ci ti. source_of window s = Inr (ci, ti) \<and> ci < length (sc_columns s) \<and>
    ti < length (col_tiles (sc_columns s ! ci)) \<and>
    (\<forall>w. window = Some w \<longrightarrow> tl_window (col_tiles (sc_columns s ! ci) ! ti) = w)"
proof (cases window)
  case None
  have "sc_active_column_idx s < length (sc_columns s)" using assms(1,2) by (rule scrolling_invD(2))
  with None scrolling_inv_nth [OF assms(1) this] show ?thesis
    by (simp add: source_of_def vec_simps column_inv_def)
next
  case (Some w)
  with find_window_ok [of w "sc_columns s"] assms(3) show ?thesis
    by (fastforce simp: source_of_def sc_windows_def)
qed

text \<open>Taking a tile out of a column and putting it into another, or into a column of its own.\<close>

lemma move_tile_to_column_keeps:
  assumes "scrolling_inv s" "ci < length (sc_columns s)" "ti < length (col_tiles (sc_columns s ! ci))"
    and "if length (col_tiles (sc_columns s ! ci)) = 1 then Suc tci < length (sc_columns s)
      else tci < length (sc_columns s)"
  shows "returns (remove_tile_by_idx ci ti s) (\<lambda>(removed, s').
    returns (sc_add_tile_to_column tci None (rt_tile removed) act s') (sc_keeps s))"
proof (rule returns_mono [OF remove_tile_by_idx_ok [OF assms(1-3)]])
  fix x
  assume x: "tile_removed ci ti s x"
  obtain r s' where rs: "x = (r, s')" by force
  have "tci < length (sc_columns s')" 
    using x assms(2,4) by (auto simp: rs tile_removed_def Let_def split: if_splits)
  with sc_add_tile_to_column_ok [of s' tci None "rt_tile r" act] x
  show "case x of (removed, s') \<Rightarrow>
      returns (sc_add_tile_to_column tci None (rt_tile removed) act s') (sc_keeps s)"
    by (auto simp: rs tile_removed_def tile_added_def Let_def sc_keeps_def elim!: returns_mono)
qed

lemma move_tile_to_new_column_keeps:
  assumes "scrolling_inv s" "ci < length (sc_columns s)" "ti < length (col_tiles (sc_columns s ! ci))"
    and "length (col_tiles (sc_columns s ! ci)) \<noteq> 1" "tci \<le> length (sc_columns s)"
  shows "returns (remove_tile_by_idx ci ti s) (\<lambda>(removed, s').
    returns (sc_add_tile (Some tci) (rt_tile removed) act (rt_width removed) (rt_is_full_width removed) s')
      (sc_keeps s))"
proof (rule returns_mono [OF remove_tile_by_idx_ok [OF assms(1-3)]])
  fix x
  assume x: "tile_removed ci ti s x"
  obtain r s' where rs: "x = (r, s')" by force
  have "tci \<le> length (sc_columns s')" using x assms(4,5) by (auto simp: rs tile_removed_def Let_def)
  with sc_add_tile_ok [of s' "Some tci" "rt_tile r" act "rt_width r" "rt_is_full_width r"] x
  show "case x of (removed, s') \<Rightarrow>
      returns (sc_add_tile (Some tci) (rt_tile removed) act (rt_width removed)
        (rt_is_full_width removed) s') (sc_keeps s)"
    by (auto simp: rs tile_removed_def Let_def sc_keeps_def elim!: returns_mono)
qed

lemma sc_keeps_prev [simp]:
  "sc_keeps (s\<lparr>sc_activate_prev_column_on_removal := b\<rparr>) = sc_keeps s"
  "sc_keeps s (s'\<lparr>sc_activate_prev_column_on_removal := b\<rparr>) = sc_keeps s s'"
  by (auto simp: sc_keeps_def)

lemma consume_or_expel_window_left_keeps:
  assumes inv: "scrolling_inv s" and w: "\<And>w. window = Some w \<Longrightarrow> w \<in># sc_windows s"
  shows "returns (consume_or_expel_window_left window s) (sc_keeps s)"
proof (cases "sc_columns s = []")
  case True
  with inv show ?thesis by (simp add: consume_or_expel_window_left_def sc_keeps_refl)
next
  case False
  obtain ci ti where src: "source_of window s = Inr (ci, ti)" "ci < length (sc_columns s)"
    "ti < length (col_tiles (sc_columns s ! ci))"
    using source_of_ok [OF inv False w] by blast
  define act where "act = (sc_active_column_idx s = ci \<and> col_active_tile_idx (sc_columns s ! ci) = ti)"
  let ?s = "if act then s\<lparr>sc_activate_prev_column_on_removal := True\<rparr> else s"
  have keeps: "sc_keeps ?s = sc_keeps s" by simp
  show ?thesis
  proof (cases "length (col_tiles (sc_columns s ! ci)) = 1")
    case True
    have "0 < ci \<Longrightarrow> returns (remove_tile_by_idx ci 0 ?s) (\<lambda>(removed, s').
        returns (sc_add_tile_to_column (ci - 1) None (rt_tile removed) act s') (sc_keeps s))"
      unfolding keeps [symmetric] using inv src(2) True by (intro move_tile_to_column_keeps) (auto split: if_splits)
    then show ?thesis using inv
      unfolding consume_or_expel_window_left_def if_not_P [OF False] src(1) bind_res.simps prod.case
        vec_Inr(3) [OF src(2)] Let_def act_def [symmetric] if_P [OF True]
      by (simp add: sc_keeps_refl)
  next
    case multi: False
    with move_tile_to_new_column_keeps [OF inv src(2,3) multi, of ci act] False src
    show ?thesis
      unfolding consume_or_expel_window_left_def if_not_P [OF False] src(1) bind_res.simps prod.case
        vec_Inr(3) [OF src(2)] Let_def act_def [symmetric] if_not_P [OF multi]
      by (auto elim!: returns_mono)
  qed
qed

lemma consume_or_expel_window_right_keeps:
  assumes inv: "scrolling_inv s" and w: "\<And>w. window = Some w \<Longrightarrow> w \<in># sc_windows s"
  shows "returns (consume_or_expel_window_right window s) (sc_keeps s)"
proof (cases "sc_columns s = []")
  case True
  with inv show ?thesis by (simp add: consume_or_expel_window_right_def sc_keeps_refl)
next
  case False
  obtain ci ti where src: "source_of window s = Inr (ci, ti)" "ci < length (sc_columns s)"
    "ti < length (col_tiles (sc_columns s ! ci))"
    using source_of_ok [OF inv False w] by blast
  define act where "act = (sc_active_column_idx s = ci \<and> col_active_tile_idx (sc_columns s ! ci) = ti)"
  let ?s = "if act then s\<lparr>sc_activate_prev_column_on_removal := False\<rparr> else s"
  have keeps: "sc_keeps ?s = sc_keeps s" by simp
  show ?thesis
  proof (cases "length (col_tiles (sc_columns s ! ci)) = 1")
    case True
    have "ci + 1 \<noteq> length (sc_columns s) \<Longrightarrow> returns (remove_tile_by_idx ci 0 ?s) (\<lambda>(removed, s').
        returns (sc_add_tile_to_column ci None (rt_tile removed) act s') (sc_keeps s))"
      unfolding keeps [symmetric] using inv src(2) True by (intro move_tile_to_column_keeps) (auto split: if_splits)
    then show ?thesis using inv
      unfolding consume_or_expel_window_right_def if_not_P [OF False] src(1) bind_res.simps prod.case
        vec_Inr(3) [OF src(2)] Let_def act_def [symmetric] if_P [OF True]
      by (simp add: sc_keeps_refl)
  next
    case multi: False
    with move_tile_to_new_column_keeps [OF inv src(2,3) multi, of "ci + 1" act] False src
    show ?thesis
      unfolding consume_or_expel_window_right_def if_not_P [OF False] src(1) bind_res.simps prod.case
        vec_Inr(3) [OF src(2)] Let_def act_def [symmetric] if_not_P [OF multi]
      by (auto elim!: returns_mono)
  qed
qed

lemma consume_expel_keeps:
  assumes inv: "scrolling_inv s"
  shows "returns (consume_into_column s) (sc_keeps s)" "returns (expel_from_column s) (sc_keeps s)"
proof -
  let ?a = "sc_active_column_idx s"
  show "returns (consume_into_column s) (sc_keeps s)"
  proof (cases "length (sc_columns s) < 2 \<or> ?a = length (sc_columns s) - 1")
    case True
    then show ?thesis using inv by (auto simp: consume_into_column_def sc_keeps_refl)
  next
    case False
    then have a: "Suc ?a < length (sc_columns s)" using scrolling_invD(2) [OF inv] by fastforce
    then have "0 < length (col_tiles (sc_columns s ! Suc ?a))"
      using scrolling_inv_nth [OF inv] by (auto simp: column_inv_def)
    with move_tile_to_column_keeps [OF inv, of "Suc ?a" 0 ?a False] a False show ?thesis
      by (auto simp: consume_into_column_def elim!: returns_mono)
  qed
  show "returns (expel_from_column s) (sc_keeps s)"
  proof (cases "sc_columns s = []")
    case False
    then have a: "?a < length (sc_columns s)" by (rule scrolling_invD(2) [OF inv])
    have ne: "col_tiles (sc_columns s ! ?a) \<noteq> []"
      using scrolling_inv_nth [OF inv a] by (simp add: column_inv_def)
    with move_tile_to_new_column_keeps [OF inv a, of "length (col_tiles (sc_columns s ! ?a)) - 1" "Suc ?a" False]
      a False inv show ?thesis
      by (auto simp: expel_from_column_def sc_keeps_refl elim!: returns_mono)
  qed (use inv in \<open>simp add: expel_from_column_def sc_keeps_refl\<close>)
qed

end
