(* ===== verification/Scrolling_Sizing.thy ===== *)
theory Scrolling_Sizing
  imports Scrolling_Ops
begin

text \<open>
  Fullscreen, maximized, tabbed display and interactive resize. Fullscreen and maximized follow one
  contract, the locale \<open>column_sizing\<close>: a flag of a column and the setter that asks the tiles for the
  matching size.
\<close>

lemma position_find_window:
  assumes "position (\<lambda>col. col_contains col w) cs = Some i"
  shows "\<exists>j. find_window w cs = Some (i, j) \<and> j < length (col_tiles (cs ! i)) \<and>
    tl_window (col_tiles (cs ! i) ! j) = w"
  using assms
proof (induction cs arbitrary: i)
  case (Cons col cs)
  show ?case
  proof (cases "col_contains col w")
    case True
    then obtain j where "col_position col w = Some j" using col_position_present [of w col] by auto
    with True Cons.prems col_position_Some [of col w j] show ?thesis by auto
  next
    case False
    then have "col_position col w = None"
      using position_None [of "\<lambda>tile. tl_window tile = w" "col_tiles col"]
      by (auto simp: col_position_def col_windows_def)
    with False Cons show ?thesis by fastforce
  qed
qed simp

text \<open>Expelling a window to the right out of a column it shares gives it a column of its own.\<close>

lemma expel_right_own_column:
  assumes inv: "scrolling_inv s" and i: "position (\<lambda>col. col_contains col w) (sc_columns s) = Some i"
    and multi: "length (col_tiles (sc_columns s ! i)) > 1"
  shows "returns (consume_or_expel_window_right (Some w) s) (\<lambda>s'. sc_keeps s s' \<and>
    Suc i < length (sc_columns s') \<and> col_windows (sc_columns s' ! Suc i) = [w])"
proof -
  obtain j where j: "find_window w (sc_columns s) = Some (i, j)"
    "j < length (col_tiles (sc_columns s ! i))" "tl_window (col_tiles (sc_columns s ! i) ! j) = w"
    using position_find_window [OF i] by blast
  have lt: "i < length (sc_columns s)" using position_Some [OF i] by simp
  have ne: "sc_columns s \<noteq> []" "length (col_tiles (sc_columns s ! i)) \<noteq> 1" using lt multi by auto
  have src: "source_of (Some w) s = Inr (i, j)" by (simp add: source_of_def j(1))
  show ?thesis
    unfolding consume_or_expel_window_right_def if_not_P [OF ne(1)] src bind_res.simps prod.case
      vec_Inr(3) [OF lt] Let_def if_not_P [OF ne(2)] returns_bind
  proof (rule returns_mono [OF remove_tile_by_idx_ok [OF inv lt j(2)]])
    fix x
    assume x: "tile_removed i j s x"
    obtain r s1 where rs: "x = (r, s1)" by force
    have len: "Suc i \<le> length (sc_columns s1)" using x lt ne(2) by (auto simp: rs tile_removed_def Let_def)
    let ?act = "sc_active_column_idx s = i \<and> col_active_tile_idx (sc_columns s ! i) = j"
    have "returns (sc_add_tile (Some (i + 1)) (rt_tile r) ?act (rt_width r) (rt_is_full_width r) s1)
        (\<lambda>s'. sc_keeps s s' \<and> Suc i < length (sc_columns s') \<and> col_windows (sc_columns s' ! Suc i) = [w])"
      using sc_add_tile_ok [of s1 "Some (Suc i)" "rt_tile r" ?act "rt_width r" "rt_is_full_width r"] x len j(3)
      by (auto simp: rs tile_removed_def Let_def sc_keeps_def add_idx_def nth_append elim!: returns_mono)
    then show "returns (case x of (removed, s) \<Rightarrow> sc_add_tile (Some (i + 1)) (rt_tile removed) ?act
        (rt_width removed) (rt_is_full_width removed) s)
        (\<lambda>s'. sc_keeps s s' \<and> Suc i < length (sc_columns s') \<and> col_windows (sc_columns s' ! Suc i) = [w])"
      by (simp add: rs)
  qed
qed

lemma cancel_resize_keeps:
  "scrolling_inv s \<Longrightarrow>
   sc_keeps s (s\<lparr>sc_interactive_resize := cancel_resize_for_column col (sc_interactive_resize s)\<rparr>)"
  by (auto simp: sc_keeps_def scrolling_inv_def cancel_resize_simps)

lemma set_col_ok:
  assumes "scrolling_inv s" "i < length (sc_columns s)"
    and "returns (f (sc_columns s ! i)) (\<lambda>col. column_inv col \<and>
      col_windows col = col_windows (sc_columns s ! i) \<and> P col)"
  shows "returns (set_col i f s) (\<lambda>s'. sc_keeps s s' \<and> i < length (sc_columns s') \<and>
    col_windows (sc_columns s' ! i) = col_windows (sc_columns s ! i) \<and> P (sc_columns s' ! i))"
proof -
  have "s\<lparr>sc_columns := cs\<rparr> = s\<lparr>sc_columns := cs, sc_interactive_resize := sc_interactive_resize s\<rparr>" for cs
    by (cases s) simp
  then have "sc_keeps s (s\<lparr>sc_columns := (sc_columns s)[i := col]\<rparr>)"
    if "column_inv col" "col_windows col = col_windows (sc_columns s ! i)" for col
    using update_column_keeps [OF assms(1,2) that(1), of "sc_interactive_resize s"] that(2) by simp
  with assms(2,3) show ?thesis by (auto simp: set_col_def elim!: returns_mono)
qed

subsection \<open>The contract of the sizing flags\<close>

locale column_sizing =
  fixes is_pending :: "'w column \<Rightarrow> bool"
    and set_pending :: "bool \<Rightarrow> 'w column \<Rightarrow> 'w column res"
  assumes set_pending_ok: "column_inv col \<Longrightarrow>
    (v \<Longrightarrow> length (col_tiles col) = 1 \<or> col_display_mode col = DisplayTabbed) \<Longrightarrow>
    returns (set_pending v col)
      (\<lambda>col'. column_inv col' \<and> col_windows col' = col_windows col \<and> is_pending col' = v)"
begin

lemma set_sizing_ok:
  assumes inv: "scrolling_inv s" and w: "w \<in># sc_windows s"
  shows "returns (set_sizing is_pending set_pending w v s) (\<lambda>(s', changed). sc_keeps s s' \<and>
    (\<exists>col \<in> set (sc_columns s'). w \<in> set (col_windows col) \<and> is_pending col = v))"
proof -
  obtain i where i: "position (\<lambda>col. col_contains col w) (sc_columns s) = Some i"
    using position_contains [OF w [unfolded sc_windows_def]] by blast
  have lt: "i < length (sc_columns s)" and mem: "w \<in> set (col_windows (sc_columns s ! i))"
    using position_Some [OF i] by simp_all
  let ?col = "sc_columns s ! i"
  define s1 where "s1 = s\<lparr>sc_interactive_resize := cancel_resize_for_column ?col (sc_interactive_resize s)\<rparr>"
  have s1: "sc_keeps s s1" "sc_columns s1 = sc_columns s"
    unfolding s1_def using inv by (simp_all add: cancel_resize_keeps)
  note inv1 = sc_keeps_inv [OF s1(1)]
  have own: "returns (consume_or_expel_window_right (Some w) s1) (\<lambda>s'. sc_keeps s s' \<and>
      returns (set_col (i + 1) (set_pending v) s') (\<lambda>s'. sc_keeps s s' \<and>
        (\<exists>col \<in> set (sc_columns s'). w \<in> set (col_windows col) \<and> is_pending col = v)))"
    if "length (col_tiles ?col) > 1"
  proof (rule returns_mono [OF expel_right_own_column [OF inv1, of w i]])
    fix s' assume s': "sc_keeps s1 s' \<and> Suc i < length (sc_columns s') \<and>
      col_windows (sc_columns s' ! Suc i) = [w]"
    then have "length (col_tiles (sc_columns s' ! Suc i)) = 1"
      using col_windows_simps(1) [of "sc_columns s' ! Suc i"] by simp
    with s' have "returns (set_pending v (sc_columns s' ! Suc i)) (\<lambda>col'. column_inv col' \<and>
        col_windows col' = col_windows (sc_columns s' ! Suc i) \<and> is_pending col' = v)"
      by (intro set_pending_ok) (auto intro: scrolling_inv_nth sc_keeps_inv)
    with s' have "returns (set_col (Suc i) (set_pending v) s') (\<lambda>t. sc_keeps s' t \<and> Suc i < length (sc_columns t) \<and>
        col_windows (sc_columns t ! Suc i) = [w] \<and> is_pending (sc_columns t ! Suc i) = v)"
      using set_col_ok [of s' "Suc i" "set_pending v" "\<lambda>col. is_pending col = v"] by (auto dest: sc_keeps_inv)
    with s' s1(1) show "sc_keeps s s' \<and> returns (set_col (i + 1) (set_pending v) s') (\<lambda>s'. sc_keeps s s' \<and>
        (\<exists>col \<in> set (sc_columns s'). w \<in> set (col_windows col) \<and> is_pending col = v))"
      by (auto elim!: returns_mono intro: sc_keeps_trans intro!: bexI [OF _ nth_mem [of "Suc i"]])
  qed (use s1(2) i that in simp_all)
  have stay: "returns (set_col i (set_pending v) s1) (\<lambda>s'. sc_keeps s s' \<and>
      (\<exists>col \<in> set (sc_columns s'). w \<in> set (col_windows col) \<and> is_pending col = v))"
    if "\<not> (v \<and> length (col_tiles ?col) > 1 \<and> col_display_mode ?col \<noteq> DisplayTabbed)"
  proof -
    have "col_tiles ?col \<noteq> []" using scrolling_inv_nth [OF inv lt] by (simp add: column_inv_def)
    then have "v \<Longrightarrow> length (col_tiles ?col) = 1 \<or> col_display_mode ?col = DisplayTabbed"
      using that by (cases "col_tiles ?col") auto
    with set_pending_ok [OF scrolling_inv_nth [OF inv lt]]
    have "returns (set_pending v ?col) (\<lambda>col'. column_inv col' \<and> col_windows col' = col_windows ?col \<and>
        is_pending col' = v)" by blast
    with set_col_ok [OF inv1, of i "set_pending v" "\<lambda>col. is_pending col = v"] lt s1 mem show ?thesis
      by (auto elim!: returns_mono intro: sc_keeps_trans intro!: bexI [OF _ nth_mem [of i]])
  qed
  show ?thesis
    using own stay lt mem inv
    unfolding set_sizing_def i unwrap.simps bind_res.simps vec_Inr(3) [OF lt] Let_def s1_def [symmetric]
    by (auto simp: sc_keeps_refl elim!: returns_mono intro!: bexI [OF _ nth_mem [of i]])
qed

end

interpretation fullscreen_sizing: column_sizing col_is_pending_fullscreen col_set_fullscreen
proof
  fix col :: "'w column" and v
  assume "column_inv col" "v \<Longrightarrow> length (col_tiles col) = 1 \<or> col_display_mode col = DisplayTabbed"
  then show "returns (col_set_fullscreen v col)
      (\<lambda>col'. column_inv col' \<and> col_windows col' = col_windows col \<and> col_is_pending_fullscreen col' = v)"
    using col_set_fullscreen_ok [of col v] by auto
qed

interpretation maximized_sizing: column_sizing col_is_pending_maximized col_set_maximized
proof
  fix col :: "'w column" and v
  assume "column_inv col" "v \<Longrightarrow> length (col_tiles col) = 1 \<or> col_display_mode col = DisplayTabbed"
  then show "returns (col_set_maximized v col)
      (\<lambda>col'. column_inv col' \<and> col_windows col' = col_windows col \<and> col_is_pending_maximized col' = v)"
    using col_set_maximized_ok [of col v] by auto
qed

subsection \<open>Display mode\<close>

text \<open>Every window in one place: what the layout guarantees by never adding a window twice.\<close>

definition sc_distinct :: "'w scrolling_space \<Rightarrow> bool" where
  "sc_distinct s \<longleftrightarrow> distinct (concat (map col_windows (sc_columns s)))"

lemma sc_distinct_keeps: "sc_keeps s s' \<Longrightarrow> sc_distinct s' = sc_distinct s"
  unfolding sc_keeps_def sc_distinct_def sc_windows_def cols_windows_def
  by (auto dest: mset_eq_imp_distinct_iff)

lemma position_distinct:
  assumes "distinct (concat (map col_windows cs))" "i < length cs" "w \<in> set (col_windows (cs ! i))"
  shows "position (\<lambda>col. col_contains col w) cs = Some i"
  using assms
proof (induction cs arbitrary: i)
  case (Cons c cs)
  show ?case
  proof (cases i)
    case 0
    with Cons.prems show ?thesis by simp
  next
    case (Suc k)
    with Cons.prems have w: "w \<in> set (col_windows (cs ! k))" "k < length cs" by simp_all
    then have "w \<in> set (concat (map col_windows cs))" by (auto intro: bexI [OF _ nth_mem])
    with Cons.prems(1) have "w \<notin> set (col_windows c)" by auto
    with Cons.IH [of k] Cons.prems(1) w Suc show ?thesis by simp
  qed
qed simp

text \<open>Clearing both flags of a column that has just left the tabbed display.\<close>

lemma clear_sizing_column:
  assumes "col_tiles col \<noteq> []" "col_active_tile_idx col < length (col_tiles col)"
  defines "col1 \<equiv> update_tile_sizes col"
  shows "returns (if col_is_pending_fullscreen col1 then col_set_fullscreen False col1 else Inr col1) (\<lambda>col2.
    returns (if col_is_pending_maximized col2 then col_set_maximized False col2 else Inr col2) (\<lambda>col3.
      column_inv col3 \<and> col_windows col3 = col_windows col \<and> col_display_mode col3 = col_display_mode col \<and>
      col_active_tile_idx col3 = col_active_tile_idx col \<and> pending_sizing_mode col3 = SizingNormal))"
  using assms(1,2) unfolding col1_def
  by (auto simp: col_set_fullscreen_def col_set_maximized_def column_shape_def pending_sizing_mode_def)

lemma set_sizing_off:
  assumes "position (\<lambda>col. col_contains col w) (sc_columns s) = Some i"
  shows "set_sizing p f w False s =
    (if \<not> p (sc_columns s ! i) then Inr (s, False)
     else bind_res (set_col i (f False) (s\<lparr>sc_interactive_resize :=
       cancel_resize_for_column (sc_columns s ! i) (sc_interactive_resize s)\<rparr>)) (\<lambda>s. Inr (s, True)))"
  using assms position_Some [OF assms] by (simp add: set_sizing_def vec_simps Let_def)

lemma set_sizing_off_returns:
  assumes "position (\<lambda>col. col_contains col w) (sc_columns s) = Some i"
    and "returns (if p (sc_columns s ! i) then f False (sc_columns s ! i) else Inr (sc_columns s ! i)) Q"
  shows "returns (set_sizing p f w False s) (\<lambda>(s', _). \<exists>col r.
    s' = s\<lparr>sc_columns := (sc_columns s)[i := col], sc_interactive_resize := r\<rparr> \<and> Q col \<and>
    (\<forall>w. r = Some w \<longrightarrow> sc_interactive_resize s = Some w))"
proof (cases "p (sc_columns s ! i)")
  case True
  define r where "r = cancel_resize_for_column (sc_columns s ! i) (sc_interactive_resize s)"
  have r: "\<forall>w. r = Some w \<longrightarrow> sc_interactive_resize s = Some w" by (simp add: r_def cancel_resize_simps)
  have i: "i < length (sc_columns s)" using position_Some [OF assms(1)] by simp
  obtain col where col: "f False (sc_columns s ! i) = Inr col" "Q col"
    using assms(2) True by (auto simp: returns_def)
  have "set_sizing p f w False s =
      Inr (s\<lparr>sc_columns := (sc_columns s)[i := col], sc_interactive_resize := r\<rparr>, True)"
    unfolding set_sizing_off [OF assms(1)] r_def [symmetric] using True i col(1)
    by (simp add: set_col_def vec_simps)
  with col(2) r show ?thesis by auto
next
  case False
  have "s = s\<lparr>sc_columns := (sc_columns s)[i := sc_columns s ! i],
      sc_interactive_resize := sc_interactive_resize s\<rparr>" by (cases s) simp
  moreover have "Q (sc_columns s ! i)" using False assms(2) by simp
  moreover have "set_sizing p f w False s = Inr (s, False)"
    using False by (simp add: set_sizing_off [OF assms(1)])
  ultimately show ?thesis unfolding returns_def prod.case by blast
qed

lemma position_update_same:
  assumes "col_windows col = col_windows (cs ! i)" "i < length cs"
    "distinct (concat (map col_windows cs))" "w \<in> set (col_windows col)"
  shows "position (\<lambda>col. col_contains col w) (cs[i := col]) = Some i"
proof -
  have "map col_windows (cs[i := col]) = map col_windows cs"
    by (metis assms(1) list_update_id list_update_same_conv map_update nth_map assms(2))
  with assms show ?thesis by (intro position_distinct) simp_all
qed

lemma leave_tabbed_keeps:
  assumes inv: "scrolling_inv s" and i: "i < length (sc_columns s)" and dist: "sc_distinct s"
    and c0: "col_tiles c0 \<noteq> []" "col_active_tile_idx c0 < length (col_tiles c0)"
      "col_windows c0 = col_windows (sc_columns s ! i)"
    and r: "\<And>w. r = Some w \<Longrightarrow> sc_interactive_resize s = Some w"
    and w: "w \<in> set (col_windows c0)"
  defines "s1 \<equiv> s\<lparr>sc_columns := (sc_columns s)[i := update_tile_sizes c0], sc_interactive_resize := r\<rparr>"
  shows "returns (sc_set_fullscreen w False s1) (\<lambda>(s2, _). returns (sc_set_maximized w False s2)
    (\<lambda>(s3, _). sc_keeps s s3 \<and> col_display_mode (sc_columns s3 ! i) = col_display_mode c0))"
proof -
  let ?col1 = "update_tile_sizes c0"
  let ?Q3 = "\<lambda>col. column_inv col \<and> col_windows col = col_windows c0 \<and>
    col_display_mode col = col_display_mode c0 \<and> pending_sizing_mode col = SizingNormal"
  let ?Q2 = "\<lambda>col. col_windows col = col_windows c0 \<and>
    returns (if col_is_pending_maximized col then col_set_maximized False col else Inr col) ?Q3"
  have dist': "distinct (concat (map col_windows (sc_columns s)))" using dist by (simp add: sc_distinct_def)
  have pos: "position (\<lambda>col. col_contains col w) ((sc_columns s)[i := col]) = Some i"
    if "col_windows col = col_windows c0" for col
    using that c0(3) w i dist' by (intro position_update_same) simp_all
  have full: "returns (if col_is_pending_fullscreen ?col1 then col_set_fullscreen False ?col1 else Inr ?col1) ?Q2"
    using clear_sizing_column [OF c0(1,2)]
    by (auto simp: col_set_fullscreen_def elim!: returns_mono)
  have at: "sc_columns s1 ! i = ?col1" "position (\<lambda>col. col_contains col w) (sc_columns s1) = Some i"
    using i pos [of ?col1] by (simp_all add: s1_def)
  show ?thesis unfolding sc_set_fullscreen_def
  proof (rule returns_mono [OF set_sizing_off_returns [OF at(2), of _ _ ?Q2]])
    show "returns (if col_is_pending_fullscreen (sc_columns s1 ! i)
        then col_set_fullscreen False (sc_columns s1 ! i) else Inr (sc_columns s1 ! i)) ?Q2"
      using full by (simp only: at(1))
  next
    fix x
    assume "case x of (s', _) \<Rightarrow> \<exists>col ra. s' = s1\<lparr>sc_columns := (sc_columns s1)[i := col],
        sc_interactive_resize := ra\<rparr> \<and> ?Q2 col \<and> (\<forall>w. ra = Some w \<longrightarrow> sc_interactive_resize s1 = Some w)"
    then obtain b col2 r2 where x: "x = (s\<lparr>sc_columns := (sc_columns s)[i := col2], sc_interactive_resize := r2\<rparr>, b)"
      and q2: "?Q2 col2" and r2: "\<And>w. r2 = Some w \<Longrightarrow> sc_interactive_resize s = Some w"
      using r by (cases x) (auto simp: s1_def)
    let ?s2 = "s\<lparr>sc_columns := (sc_columns s)[i := col2], sc_interactive_resize := r2\<rparr>"
    have pos2: "position (\<lambda>col. col_contains col w) (sc_columns ?s2) = Some i" using q2 pos by simp
    have "returns (if col_is_pending_maximized (sc_columns ?s2 ! i)
        then col_set_maximized False (sc_columns ?s2 ! i) else Inr (sc_columns ?s2 ! i)) ?Q3"
      using q2 i by (cases "col_is_pending_maximized col2") auto
    from set_sizing_off_returns [OF pos2, of col_is_pending_maximized col_set_maximized ?Q3, OF this]
    have "returns (sc_set_maximized w False ?s2) (\<lambda>(s3, _). sc_keeps s s3 \<and>
        col_display_mode (sc_columns s3 ! i) = col_display_mode c0)"
      unfolding sc_set_maximized_def
      using update_column_keeps [OF inv i] r2 c0(3) i by (auto elim!: returns_mono)
    then show "case x of (s2, _) \<Rightarrow> returns (sc_set_maximized w False s2) (\<lambda>(s3, _). sc_keeps s s3 \<and>
        col_display_mode (sc_columns s3 ! i) = col_display_mode c0)"
      by (simp add: x)
  qed
qed

lemma sc_set_column_display_keeps:
  assumes inv: "scrolling_inv s" and dist: "sc_distinct s"
  shows "returns (sc_set_column_display d s) (\<lambda>s'. sc_keeps s s' \<and>
    (sc_columns s \<noteq> [] \<longrightarrow> col_display_mode (sc_columns s' ! sc_active_column_idx s) = d))"
proof (cases "sc_columns s = []")
  case True
  with inv show ?thesis by (simp add: sc_set_column_display_def sc_keeps_refl)
next
  case False
  let ?a = "sc_active_column_idx s"
  let ?col = "sc_columns s ! ?a"
  have a: "?a < length (sc_columns s)" using inv False by (rule scrolling_invD(2))
  have col: "column_inv ?col" using inv a by (rule scrolling_inv_nth)
  define c0 where "c0 = col_set_column_display d ?col"
  note c0 = col_set_column_display_ok [OF col, of d, folded c0_def]
  define r where "r = cancel_resize_for_column ?col (sc_interactive_resize s)"
  have r: "r = Some w \<Longrightarrow> sc_interactive_resize s = Some w" for w by (simp add: r_def cancel_resize_simps)
  have ne: "col_tiles c0 \<noteq> []" "col_active_tile_idx c0 < length (col_tiles c0)"
    using c0(3,4) col by (auto simp: column_inv_def)
  let ?s1 = "s\<lparr>sc_columns := (sc_columns s)[?a := update_tile_sizes c0], sc_interactive_resize := r\<rparr>"
  let ?w = "tl_window (col_tiles (update_tile_sizes c0) ! col_active_tile_idx c0)"
  have "?w = col_windows (update_tile_sizes c0) ! col_active_tile_idx c0"
    using ne(2) by (simp only: col_windows_def update_tile_sizes_simps nth_map)
  then have w: "?w \<in> set (col_windows c0)" using ne(2) by simp
  have unfold: "sc_set_column_display d s = (if col_display_mode ?col = d then Inr s
      else if d \<noteq> DisplayTabbed \<and> length (col_tiles c0) > 1
      then bind_res (sc_set_fullscreen ?w False ?s1) (\<lambda>(s, _).
           bind_res (sc_set_maximized ?w False s) (\<lambda>(s, _). Inr s))
      else Inr ?s1)"
    using False a ne(2) c0(2)
    by (simp add: sc_set_column_display_def vec_simps Let_def flip: c0_def r_def)
  have "sc_keeps s ?s1" if "d = DisplayTabbed \<or> length (col_tiles c0) \<le> 1"
  proof -
    have "d = DisplayTabbed \<or> length (col_tiles ?col) = 1"
      using that c0(4) ne(1) by (cases "col_tiles c0") auto
    then have "column_inv (update_tile_sizes c0)" using c0(6) by (simp add: column_inv_shape)
    then show ?thesis using update_column_keeps [OF inv a _ _ r] c0(1) by simp
  qed
  with leave_tabbed_keeps [OF inv a dist ne c0(1) r w] inv a c0(2) False show ?thesis
    unfolding unfold by (auto simp: sc_keeps_refl elim!: returns_mono)
qed

lemma toggle_column_tabbed_display_keeps:
  assumes "scrolling_inv s" "sc_distinct s"
  shows "returns (toggle_column_tabbed_display s) (sc_keeps s)"
proof -
  have "returns (sc_set_column_display d s) (sc_keeps s)" for d
    by (rule returns_mono [OF sc_set_column_display_keeps [OF assms]]) simp
  then show ?thesis using assms(1) scrolling_invD(2) [OF assms(1)]
    by (simp add: toggle_column_tabbed_display_def sc_keeps_refl)
qed

lemma sc_toggle_full_width_keeps:
  assumes "scrolling_inv s"
  shows "returns (sc_toggle_full_width s) (sc_keeps s)"
proof (cases "sc_columns s = []")
  case False
  note a = scrolling_invD(2) [OF assms False]
  note col = col_toggle_full_width_ok [OF scrolling_inv_nth [OF assms a]]
  let ?r = "cancel_resize_for_column (sc_columns s ! sc_active_column_idx s) (sc_interactive_resize s)"
  from update_column_keeps [OF assms a col(1), of ?r] col(2) a False show ?thesis
    by (simp add: sc_toggle_full_width_def cancel_resize_simps)
qed (use assms in \<open>simp add: sc_toggle_full_width_def sc_keeps_refl\<close>)

subsection \<open>Interactive resize\<close>

lemma sc_interactive_resize_keeps:
  assumes "scrolling_inv s"
  shows "w \<in># sc_windows s \<Longrightarrow> returns (sc_interactive_resize_begin w s) (\<lambda>(s', _). sc_keeps s s')"
    and "returns (sc_interactive_resize_end window s) (sc_keeps s)"
proof -
  assume w: "w \<in># sc_windows s"
  then obtain col where "find (\<lambda>col. col_contains col w) (sc_columns s) = Some col"
    by (cases "find (\<lambda>col. col_contains col w) (sc_columns s)")
      (auto simp: find_None_iff sc_windows_def cols_windows_def)
  with w assms show "returns (sc_interactive_resize_begin w s) (\<lambda>(s', _). sc_keeps s s')"
    by (auto simp: sc_interactive_resize_begin_def sc_keeps_def scrolling_inv_def)
next
  have "sc_columns s \<noteq> []" if "sc_interactive_resize s = Some w" for w
    using assms that by (auto simp: scrolling_inv_def sc_windows_def)
  then show "returns (sc_interactive_resize_end window s) (sc_keeps s)"
    using assms by (auto simp: sc_interactive_resize_end_def sc_keeps_def scrolling_inv_def vec_simps
        split: option.splits)
qed

end
