(* ===== verification/Scrolling_Swap.thy ===== *)
theory Scrolling_Swap
  imports Scrolling_Ops
begin

text \<open>
  \<open>swap_window_in_direction\<close> removes and re-adds the two active tiles one after the other, with a
  special path when the source column holds a single tile and disappears in between. The result is
  always the same: the two windows change places, nothing else moves, and the focus follows.
\<close>

lemma remove_then_insert: "i < length xs \<Longrightarrow>
    take i (take i xs @ drop (Suc i) xs) @ y # drop i (take i xs @ drop (Suc i) xs) = xs[i := y]"
  by (simp add: upd_conv_take_nth_drop)

lemma insert_then_remove: "i < length xs \<Longrightarrow>
    take (Suc i) (take i xs @ y # drop i xs) @ drop (Suc (Suc i)) (take i xs @ y # drop i xs) = xs[i := y]"
  by (simp add: upd_conv_take_nth_drop)

lemma set_active_tile_idx_ok:
  assumes "scrolling_inv s" "i < length (sc_columns s)" "k < length (col_tiles (sc_columns s ! i))"
  shows "returns (set_active_tile_idx i k s) (\<lambda>s'. sc_keeps s s' \<and>
    sc_active_column_idx s' = sc_active_column_idx s \<and>
    sc_columns s' = (sc_columns s)[i := (sc_columns s ! i)\<lparr>col_active_tile_idx := k\<rparr>])"
proof -
  have "s\<lparr>sc_columns := cs\<rparr> = s\<lparr>sc_columns := cs, sc_interactive_resize := sc_interactive_resize s\<rparr>" for cs
    by (cases s) simp
  moreover have "column_inv ((sc_columns s ! i)\<lparr>col_active_tile_idx := k\<rparr>)"
    using column_inv_active_idx [OF scrolling_inv_nth [OF assms(1,2)] assms(3)] .
  ultimately have "sc_keeps s (s\<lparr>sc_columns := (sc_columns s)[i := (sc_columns s ! i)\<lparr>col_active_tile_idx := k\<rparr>]\<rparr>)"
    using update_column_keeps [OF assms(1,2), of _ "sc_interactive_resize s"] by simp
  with assms(2) show ?thesis by (simp add: set_active_tile_idx_def)
qed

text \<open>The two columns after the exchange, and the final activation.\<close>

definition swapped :: "nat \<Rightarrow> nat \<Rightarrow> 'w scrolling_space \<Rightarrow> 'w scrolling_space \<Rightarrow> bool" where
  "swapped a t s s' \<longleftrightarrow>
     (let W = map col_windows (sc_columns s);
          i = col_active_tile_idx (sc_columns s ! a); j = col_active_tile_idx (sc_columns s ! t)
      in map col_windows (sc_columns s') = W[a := (W ! a)[i := W ! t ! j], t := (W ! t)[j := W ! a ! i]])"

lemma swap_finish:
  assumes inv: "scrolling_inv s" and at: "a < length (sc_columns s)" "t < length (sc_columns s)" "a \<noteq> t"
    and st: "st < length (col_tiles (sc_columns s ! a))" "tt < length (col_tiles (sc_columns s ! t))"
  shows "returns (bind_res (set_active_tile_idx a st s) (\<lambda>s. bind_res (set_active_tile_idx t tt s)
      (activate_column t))) (\<lambda>s'. sc_keeps s s' \<and> sc_active_column_idx s' = t \<and>
    map col_windows (sc_columns s') = map col_windows (sc_columns s) \<and>
    col_active_tile_idx (sc_columns s' ! t) = tt \<and> col_active_tile_idx (sc_columns s' ! a) = st)"
proof -
  let ?cs1 = "(sc_columns s)[a := (sc_columns s ! a)\<lparr>col_active_tile_idx := st\<rparr>]"
  let ?cs2 = "?cs1[t := (sc_columns s ! t)\<lparr>col_active_tile_idx := tt\<rparr>]"
  have same: "map col_windows ?cs2 = map col_windows (sc_columns s)"
    using at by (intro nth_equalityI) (auto simp: nth_list_update)
  have fin: "returns (activate_column t s2) (\<lambda>s'. sc_keeps s s' \<and> sc_active_column_idx s' = t \<and> sc_columns s' = ?cs2)"
    if "sc_keeps s s2" "sc_columns s2 = ?cs2" for s2
    using that at activate_column_ok [OF scrolling_invD(1) [OF sc_keeps_inv [OF that(1)]], of t]
      scrolling_invD(4) [OF sc_keeps_inv [OF that(1)]]
    by (auto simp: sc_keeps_def sc_windows_def elim!: returns_mono)
  have mid: "returns (set_active_tile_idx t tt s1) (\<lambda>s2. sc_keeps s s2 \<and> sc_columns s2 = ?cs2)"
    if "sc_keeps s s1" "sc_columns s1 = ?cs1" for s1
    using set_active_tile_idx_ok [OF sc_keeps_inv [OF that(1)], of t tt] that at st
    by (auto elim!: returns_mono intro: sc_keeps_trans)
  have "returns (bind_res (set_active_tile_idx a st s) (\<lambda>s. bind_res (set_active_tile_idx t tt s)
      (activate_column t))) (\<lambda>s'. sc_keeps s s' \<and> sc_active_column_idx s' = t \<and> sc_columns s' = ?cs2)"
    unfolding returns_bind
    by (rule returns_mono [OF set_active_tile_idx_ok [OF inv at(1) st(1)]], rule returns_mono [OF mid])
      (auto intro: fin)
  then show ?thesis
    using same at by (auto elim!: returns_mono)
qed

subsection \<open>Exchanging a tile in the target column\<close>

lemma tile_removed_multi:
  assumes "tile_removed ci ti s (r, s')" "length (col_tiles (sc_columns s ! ci)) \<noteq> 1"
  obtains col where "scrolling_inv s'" "rt_tile r = col_tiles (sc_columns s ! ci) ! ti"
    "sc_windows s = add_mset (tl_window (rt_tile r)) (sc_windows s')"
    "sc_default_column_display s' = sc_default_column_display s"
    "sc_active_column_idx s' = sc_active_column_idx s" "sc_columns s' = (sc_columns s)[ci := col]"
    "column_inv col"
    "col_windows col = take ti (col_windows (sc_columns s ! ci)) @ drop (Suc ti) (col_windows (sc_columns s ! ci))"
  using assms by (auto simp: tile_removed_def Let_def)

text \<open>What is left after putting \<open>tile\<close> at the place of a tile and taking that one out.\<close>

definition exchanged ::
  "nat \<Rightarrow> nat \<Rightarrow> 'w \<Rightarrow> 'w scrolling_space \<Rightarrow> 'w removed_tile \<times> 'w scrolling_space \<Rightarrow> bool" where
  "exchanged t j w s = (\<lambda>(r, s'). scrolling_inv s' \<and>
     add_mset w (sc_windows s) = add_mset (tl_window (rt_tile r)) (sc_windows s') \<and>
     sc_default_column_display s' = sc_default_column_display s \<and>
     tl_window (rt_tile r) = col_windows (sc_columns s ! t) ! j \<and>
     (\<exists>c. sc_columns s' = (sc_columns s)[t := c] \<and> column_inv c \<and>
        col_windows c = (col_windows (sc_columns s ! t))[j := w]))"

lemma exchange_tile_ok:
  assumes inv: "scrolling_inv s" and t: "t < length (sc_columns s)"
    and j: "j < length (col_tiles (sc_columns s ! t))"
  shows "returns (sc_add_tile_to_column t (Some j) tile False s) (\<lambda>s2.
    returns (remove_tile_by_idx t (j + 1) s2) (exchanged t j (tl_window tile) s))"
proof (rule returns_mono [OF sc_add_tile_to_column_ok [OF inv t, of "Some j" tile False]])
  show "i \<le> length (col_tiles (sc_columns s ! t))" if "Some j = Some i" for i using j that by simp
next
  let ?W = "col_windows (sc_columns s ! t)"
  fix s2
  assume "tile_added t (case Some j of Some i \<Rightarrow> i | None \<Rightarrow> length (col_tiles (sc_columns s ! t)))
    tile False s s2"
  then obtain c where s2: "scrolling_inv s2" "sc_windows s2 = add_mset (tl_window tile) (sc_windows s)"
    "sc_default_column_display s2 = sc_default_column_display s" "sc_columns s2 = (sc_columns s)[t := c]"
    "col_windows c = take j ?W @ tl_window tile # drop j ?W" by (auto simp: tile_added_def Let_def)
  have c: "sc_columns s2 ! t = c" "length (col_tiles c) = Suc (length (col_tiles (sc_columns s ! t)))"
    using s2(4) t j arg_cong [OF s2(5), of length] by simp_all
  have t2: "t < length (sc_columns s2)" "j + 1 < length (col_tiles (sc_columns s2 ! t))"
    "length (col_tiles (sc_columns s2 ! t)) \<noteq> 1" using s2(4) t j c by auto
  show "returns (remove_tile_by_idx t (j + 1) s2) (exchanged t j (tl_window tile) s)"
  proof (rule returns_mono [OF remove_tile_by_idx_ok [OF s2(1) t2(1,2)]])
    fix y assume y: "tile_removed t (j + 1) s2 y"
    obtain r s' where rs: "y = (r, s')" by force
    obtain c3 where s': "scrolling_inv s'" "rt_tile r = col_tiles c ! Suc j"
      "sc_windows s2 = add_mset (tl_window (rt_tile r)) (sc_windows s')"
      "sc_default_column_display s' = sc_default_column_display s"
      "sc_columns s' = (sc_columns s)[t := c3]" "column_inv c3"
      "col_windows c3 = take (Suc j) (col_windows c) @ drop (Suc (Suc j)) (col_windows c)"
      using tile_removed_multi [OF y [unfolded rs] t2(3)] s2(3,4) c(1) t by auto
    have "tl_window (rt_tile r) = ?W ! j"
      using s'(2) c(2) j nth_map [of "Suc j" "col_tiles c" tl_window] s2(5)
      by (simp add: nth_append flip: col_windows_def)
    moreover have "col_windows c3 = ?W[j := tl_window tile]"
      unfolding s'(7) s2(5) using j by (intro insert_then_remove) simp
    ultimately show "exchanged t j (tl_window tile) s y"
      using s' s2(2) by (auto simp: exchanged_def rs)
  qed
qed

subsection \<open>The source column survives\<close>

lemma swap_surviving:
  assumes inv: "scrolling_inv s" and at: "a < length (sc_columns s)" "t < length (sc_columns s)" "a \<noteq> t"
    and i: "i < length (col_tiles (sc_columns s ! a))" "i = col_active_tile_idx (sc_columns s ! a)"
    and j: "j < length (col_tiles (sc_columns s ! t))" "j = col_active_tile_idx (sc_columns s ! t)"
    and len: "length (col_tiles (sc_columns s ! a)) \<noteq> 1"
  shows "returns (remove_tile_by_idx a i s) (\<lambda>(r1, s1).
    returns (sc_add_tile_to_column t (Some j) (rt_tile r1) False s1) (\<lambda>s2.
    returns (remove_tile_by_idx t (j + 1) s2) (\<lambda>(r2, s3).
    returns (sc_add_tile_to_column a (Some i) (rt_tile r2) False s3)
      (\<lambda>s4. sc_keeps s s4 \<and> swapped a t s s4))))"
proof (rule returns_mono [OF remove_tile_by_idx_ok [OF inv at(1) i(1)]])
  let ?Wa = "col_windows (sc_columns s ! a)" and ?Wt = "col_windows (sc_columns s ! t)"
  fix x assume x: "tile_removed a i s x"
  obtain r1 s1 where rs: "x = (r1, s1)" by force
  obtain c1 where s1: "scrolling_inv s1" "rt_tile r1 = col_tiles (sc_columns s ! a) ! i"
    "sc_windows s = add_mset (tl_window (rt_tile r1)) (sc_windows s1)"
    "sc_default_column_display s1 = sc_default_column_display s" "sc_columns s1 = (sc_columns s)[a := c1]"
    "col_windows c1 = take i ?Wa @ drop (Suc i) ?Wa"
    using tile_removed_multi [OF x [unfolded rs] len] by blast
  have w1: "tl_window (rt_tile r1) = ?Wa ! i" using s1(2) i(1) by (simp add: col_windows_def)
  have c1: "length (col_tiles c1) = length (col_tiles (sc_columns s ! a)) - 1"
    using arg_cong [OF s1(6), of length] i(1) by simp
  have t1: "t < length (sc_columns s1)" "j < length (col_tiles (sc_columns s1 ! t))"
    using at j(1) s1(5) by simp_all
  have fin: "returns (sc_add_tile_to_column a (Some i) (rt_tile r2) False s3)
      (\<lambda>s4. sc_keeps s s4 \<and> swapped a t s s4)"
    if y: "exchanged t j (tl_window (rt_tile r1)) s1 (r2, s3)" for r2 s3
  proof -
    obtain c3 where s3: "scrolling_inv s3" "sc_default_column_display s3 = sc_default_column_display s"
      "sc_windows s = add_mset (tl_window (rt_tile r2)) (sc_windows s3)" "tl_window (rt_tile r2) = ?Wt ! j"
      "sc_columns s3 = (sc_columns s)[a := c1, t := c3]" "col_windows c3 = ?Wt[j := ?Wa ! i]"
      using y s1(3-5) w1 at by (auto simp: exchanged_def)
    have a3: "a < length (sc_columns s3)" "sc_columns s3 ! a = c1" using s3(5) at by simp_all
    show ?thesis
    proof (rule returns_mono [OF sc_add_tile_to_column_ok [OF s3(1) a3(1), of "Some i"]])
      show "k \<le> length (col_tiles (sc_columns s3 ! a))" if "Some i = Some k" for k
        using that a3(2) c1 i(1) by simp
    next
      fix s4 assume "tile_added a (case Some i of Some i \<Rightarrow> i
        | None \<Rightarrow> length (col_tiles (sc_columns s3 ! a))) (rt_tile r2) False s3 s4"
      then obtain c4 where s4: "scrolling_inv s4" "sc_default_column_display s4 = sc_default_column_display s"
        "sc_windows s4 = sc_windows s" "sc_columns s4 = (sc_columns s)[a := c1, t := c3, a := c4]"
        "col_windows c4 = take i (col_windows c1) @ tl_window (rt_tile r2) # drop i (col_windows c1)"
        using s3 a3(2) by (auto simp: tile_added_def Let_def)
      have "col_windows c4 = ?Wa[i := ?Wt ! j]"
        unfolding s4(5) s1(6) s3(4) using i(1) by (intro remove_then_insert) simp
      then have "swapped a t s s4"
        using s4(4) s3(6) at i(2) j(2) by (simp add: swapped_def Let_def map_update list_update_swap)
      with s4 show "sc_keeps s s4 \<and> swapped a t s s4" by (simp add: sc_keeps_def)
    qed
  qed
  show "case x of (r1, s1) \<Rightarrow> returns (sc_add_tile_to_column t (Some j) (rt_tile r1) False s1) (\<lambda>s2.
      returns (remove_tile_by_idx t (j + 1) s2) (\<lambda>(r2, s3).
      returns (sc_add_tile_to_column a (Some i) (rt_tile r2) False s3)
        (\<lambda>s4. sc_keeps s s4 \<and> swapped a t s s4)))"
    using exchange_tile_ok [OF s1(1) t1, of "rt_tile r1"] fin unfolding rs prod.case returns_def by fastforce
qed

subsection \<open>The source column is drained\<close>

lemma adjacent_split:
  assumes "a < length xs" "t < length xs" "t = Suc a \<or> a = Suc t"
  obtains us x y vs where "xs = us @ x # y # vs" "min a t = length us"
proof -
  have k: "Suc (min a t) < length xs" using assms by auto
  have "xs = take (min a t) xs @ xs ! min a t # xs ! Suc (min a t) # drop (Suc (Suc (min a t))) xs"
    unfolding Cons_nth_drop_Suc [OF k] Cons_nth_drop_Suc [OF Suc_lessD [OF k]] by simp
  moreover have "min a t = length (take (min a t) xs)" using k by simp
  ultimately show thesis by (rule that)
qed

lemma drained_columns:
  assumes "a < length xs" "t < length xs" "t = Suc a \<or> a = Suc t"
  defines "k \<equiv> (if t = Suc a then a else t)" and "ys \<equiv> take a xs @ drop (Suc a) xs"
  shows "k < length ys" "ys ! k = xs ! t" "a \<le> length ys"
    and "take a (ys[k := c]) @ n # drop a (ys[k := c]) = xs[a := n, t := c]"
proof -
  obtain us x y vs where xs: "xs = us @ x # y # vs" and len: "min a t = length us"
    using adjacent_split [OF assms(1-3)] .
  show "k < length ys" "ys ! k = xs ! t" "a \<le> length ys"
    "take a (ys[k := c]) @ n # drop a (ys[k := c]) = xs[a := n, t := c]"
    using assms(3) len unfolding k_def ys_def xs
    by (auto simp: nth_append list_update_append)
qed

lemma swap_drained:
  assumes inv: "scrolling_inv s" and at: "a < length (sc_columns s)" "t < length (sc_columns s)"
    "t = Suc a \<or> a = Suc t"
    and one: "length (col_tiles (sc_columns s ! a)) = 1"
    and j: "j < length (col_tiles (sc_columns s ! t))" "j = col_active_tile_idx (sc_columns s ! t)"
  defines "k \<equiv> (if t = Suc a then a else t)"
  shows "returns (remove_tile_by_idx a 0 s) (\<lambda>(r1, s1).
    returns (sc_add_tile_to_column k (Some j) (rt_tile r1) False s1) (\<lambda>s2.
    returns (remove_tile_by_idx k (j + 1) s2) (\<lambda>(r2, s3).
    returns (sc_add_tile (Some a) (rt_tile r2) True (rt_width r1) (rt_is_full_width r1) s3)
      (\<lambda>s4. sc_keeps s s4 \<and> swapped a t s s4))))"
proof (rule returns_mono [OF remove_tile_by_idx_ok [OF inv at(1), of 0]])
  show "0 < length (col_tiles (sc_columns s ! a))" using one by simp
next
  let ?Wa = "col_windows (sc_columns s ! a)" and ?Wt = "col_windows (sc_columns s ! t)"
  let ?ys = "take a (sc_columns s) @ drop (Suc a) (sc_columns s)"
  note cols = drained_columns [OF at, folded k_def]
  fix x assume x: "tile_removed a 0 s x"
  obtain r1 s1 where rs: "x = (r1, s1)" by force
  have s1: "scrolling_inv s1" "tl_window (rt_tile r1) = ?Wa ! 0" "sc_columns s1 = ?ys"
    "sc_windows s = add_mset (?Wa ! 0) (sc_windows s1)"
    "sc_default_column_display s1 = sc_default_column_display s"
    using x one by (auto simp: rs tile_removed_def Let_def col_windows_def)
  have wa: "?Wa = [?Wa ! 0]" using one by (cases "?Wa") (simp_all flip: col_windows_simps(1))
  have active: "col_active_tile_idx (sc_columns s ! a) = 0"
    using scrolling_inv_nth [OF inv at(1)] one by (simp add: column_inv_def)
  have k1: "k < length (sc_columns s1)" "j < length (col_tiles (sc_columns s1 ! k))"
    "sc_columns s1 ! k = sc_columns s ! t" using cols(1,2) j(1) by (simp_all add: s1(3))
  have fin: "returns (sc_add_tile (Some a) (rt_tile r2) True (rt_width r1) (rt_is_full_width r1) s3)
      (\<lambda>s4. sc_keeps s s4 \<and> swapped a t s s4)"
    if y: "exchanged k j (?Wa ! 0) s1 (r2, s3)" for r2 s3
  proof -
    obtain c3 where s3: "scrolling_inv s3" "sc_default_column_display s3 = sc_default_column_display s"
      "sc_windows s = add_mset (tl_window (rt_tile r2)) (sc_windows s3)" "tl_window (rt_tile r2) = ?Wt ! j"
      "sc_columns s3 = ?ys[k := c3]" "col_windows c3 = ?Wt[j := ?Wa ! 0]"
      using y s1 k1(3) by (auto simp: exchanged_def)
    have a3: "a \<le> length (sc_columns s3)" using cols(3) by (simp add: s3(5))
    have new: "swapped a t s s4" if "sc_columns s4 = (sc_columns s)[a := cN, t := c3]"
      "col_windows cN = [tl_window (rt_tile r2)]" for s4 cN
    proof -
      have "?Wa[0 := ?Wt ! j] = [?Wt ! j]" by (subst wa) simp
      with that s3(4,6) at active j(2) show ?thesis
        by (simp add: swapped_def Let_def map_update)
    qed
    show ?thesis
    proof (rule returns_mono [OF sc_add_tile_ok [OF s3(1), of "Some a"]])
      show "i \<le> length (sc_columns s3)" if "Some a = Some i" for i using that a3 by simp
    qed (use s3 new cols(4) in \<open>auto simp: sc_keeps_def add_idx_def\<close>)
  qed
  show "case x of (r1, s1) \<Rightarrow> returns (sc_add_tile_to_column k (Some j) (rt_tile r1) False s1) (\<lambda>s2.
      returns (remove_tile_by_idx k (j + 1) s2) (\<lambda>(r2, s3).
      returns (sc_add_tile (Some a) (rt_tile r2) True (rt_width r1) (rt_is_full_width r1) s3)
        (\<lambda>s4. sc_keeps s s4 \<and> swapped a t s s4)))"
    using exchange_tile_ok [OF s1(1) k1(1,2), of "rt_tile r1"] fin s1(2)
    unfolding rs prod.case returns_def by fastforce
qed

subsection \<open>The operation\<close>

definition swap_target :: "scroll_direction \<Rightarrow> 'w scrolling_space \<Rightarrow> nat option" where
  "swap_target direction s =
     (case direction of
        ScrollLeft \<Rightarrow> if sc_columns s \<noteq> [] \<and> 0 < sc_active_column_idx s
          then Some (sc_active_column_idx s - 1) else None
      | ScrollRight \<Rightarrow> if Suc (sc_active_column_idx s) < length (sc_columns s)
          then Some (Suc (sc_active_column_idx s)) else None)"

lemma swap_target_Some:
  assumes "scrolling_inv s" "swap_target dir s = Some t"
  shows "sc_columns s \<noteq> []" "sc_active_column_idx s < length (sc_columns s)" "t < length (sc_columns s)"
    "t = Suc (sc_active_column_idx s) \<or> sc_active_column_idx s = Suc t" "dir = ScrollRight \<longleftrightarrow> t = Suc (sc_active_column_idx s)"
  using assms scrolling_invD(2) [OF assms(1)]
  by (auto simp: swap_target_def split: scroll_direction.splits if_splits)

lemma swap_end:
  assumes "sc_keeps s s4" "swapped a t s s4" "a < length (sc_columns s)" "t < length (sc_columns s)" "a \<noteq> t"
    and "i < length (col_tiles (sc_columns s ! a))" "j < length (col_tiles (sc_columns s ! t))"
  shows "returns (bind_res (set_active_tile_idx a i s4) (\<lambda>s. bind_res (set_active_tile_idx t j s)
      (activate_column t))) (\<lambda>s'. sc_keeps s s' \<and> swapped a t s s' \<and> sc_active_column_idx s' = t \<and>
    col_active_tile_idx (sc_columns s' ! t) = j)"
proof -
  let ?W = "map col_windows (sc_columns s)"
  have m: "map col_windows (sc_columns s4) = ?W[a := (?W ! a)[col_active_tile_idx (sc_columns s ! a) :=
      ?W ! t ! col_active_tile_idx (sc_columns s ! t)], t := (?W ! t)[col_active_tile_idx (sc_columns s ! t) :=
      ?W ! a ! col_active_tile_idx (sc_columns s ! a)]]"
    using assms(2) by (simp add: swapped_def Let_def)
  have len: "length (sc_columns s4) = length (sc_columns s)" using arg_cong [OF m, of length] by simp
  have "length (col_tiles (sc_columns s4 ! b)) = length (col_tiles (sc_columns s ! b))"
    if "b = a \<or> b = t" for b
    using arg_cong [OF m, of "\<lambda>W. length (W ! b)"] that assms(3-5) len by (auto simp: nth_list_update)
  with swap_finish [OF sc_keeps_inv [OF assms(1)], of a t i j] assms len show ?thesis
    by (auto simp: swapped_def simp del: returns_bind elim!: returns_mono intro: sc_keeps_trans)
qed

lemma swap_both_single:
  assumes inv: "scrolling_inv s" and t: "swap_target dir s = Some t"
    and single: "length (col_tiles (sc_columns s ! sc_active_column_idx s)) = 1"
      "length (col_tiles (sc_columns s ! t)) = 1"
  shows "returns (move_column_to t s) (\<lambda>s'. sc_keeps s s' \<and> swapped (sc_active_column_idx s) t s s' \<and>
    sc_active_column_idx s' = t \<and>
    col_active_tile_idx (sc_columns s' ! t) = col_active_tile_idx (sc_columns s ! t))"
proof -
  let ?a = "sc_active_column_idx s" and ?cs = "sc_columns s"
  note at = swap_target_Some [OF inv t]
  have ne: "?a \<noteq> t" using at(4) by auto
  have zero: "col_active_tile_idx (?cs ! b) = 0" "(col_windows (?cs ! b))[0 := x] = [x]"
    "[col_windows (?cs ! b) ! 0] = col_windows (?cs ! b)" if "b = ?a \<or> b = t" for b x
    using that single at(2,3) scrolling_inv_nth [OF inv, of b]
    by (auto simp: column_inv_def col_windows_def length_Suc_conv)
  have sw: "swapped ?a t s s'" if "sc_columns s' = ?cs[?a := ?cs ! t, t := ?cs ! ?a]" for s'
    using that at(2,3) zero by (simp add: swapped_def Let_def map_update)
  show ?thesis
    using move_column_to_ok [OF inv at(3)] ne sw zero at(2,3)
    by (auto simp: list_move_adjacent [OF at(2,3,4)] elim!: returns_mono)
qed

lemma swap_window_in_direction_ok:
  assumes inv: "scrolling_inv s" and t: "swap_target dir s = Some t"
  shows "returns (swap_window_in_direction dir s) (\<lambda>s'. sc_keeps s s' \<and>
    swapped (sc_active_column_idx s) t s s' \<and> sc_active_column_idx s' = t \<and>
    col_active_tile_idx (sc_columns s' ! t) = col_active_tile_idx (sc_columns s ! t))"
proof -
  define a where "a = sc_active_column_idx s"
  define i where "i = col_active_tile_idx (sc_columns s ! a)"
  define j where "j = col_active_tile_idx (sc_columns s ! t)"
  note at = swap_target_Some [OF inv t, folded a_def]
  have ne: "a \<noteq> t" using at(4) by auto
  have i: "i < length (col_tiles (sc_columns s ! a))" and j: "j < length (col_tiles (sc_columns s ! t))"
    using scrolling_inv_nth [OF inv] at(2,3) by (auto simp: i_def j_def column_inv_def)
  define drained where "drained = (length (col_tiles (sc_columns s ! a)) = 1)"
  define k where "k = (if dir = ScrollRight \<and> drained then t - 1 else t)"
  have guard: "\<not> (case dir of ScrollLeft \<Rightarrow> a = 0 | ScrollRight \<Rightarrow> a = length (sc_columns s) - 1)"
    "(case dir of ScrollLeft \<Rightarrow> a - 1 | ScrollRight \<Rightarrow> a + 1) = t"
    using at t by (auto simp: swap_target_def a_def split: scroll_direction.splits if_splits)
  have unfold: "swap_window_in_direction dir s =
      (if drained \<and> length (col_tiles (sc_columns s ! t)) = 1 then move_column_to t s
       else bind_res (remove_tile_by_idx a i s) (\<lambda>(r1, s1).
            bind_res (sc_add_tile_to_column k (Some j) (rt_tile r1) False s1) (\<lambda>s2.
            bind_res (remove_tile_by_idx k (j + 1) s2) (\<lambda>(r2, s3).
            bind_res (if drained then sc_add_tile (Some a) (rt_tile r2) True (rt_width r1) (rt_is_full_width r1) s3
              else sc_add_tile_to_column a (Some i) (rt_tile r2) False s3) (\<lambda>s4.
            bind_res (set_active_tile_idx a i s4) (\<lambda>s. bind_res (set_active_tile_idx t j s)
              (activate_column t)))))))"
    unfolding swap_window_in_direction_def Let_def a_def [symmetric] if_not_P [OF at(1)]
      if_not_P [OF guard(1)] guard(2) vec_Inr(3) [OF at(2)] vec_Inr(3) [OF at(3)] bind_res.simps
      i_def [symmetric] j_def [symmetric] drained_def [symmetric] k_def [symmetric] ..
  have steps: "\<exists>r1 s1 s2 r2 s3 s4. remove_tile_by_idx a i s = Inr (r1, s1) \<and>
      sc_add_tile_to_column k (Some j) (rt_tile r1) False s1 = Inr s2 \<and>
      remove_tile_by_idx k (j + 1) s2 = Inr (r2, s3) \<and>
      (if drained then sc_add_tile (Some a) (rt_tile r2) True (rt_width r1) (rt_is_full_width r1) s3
       else sc_add_tile_to_column a (Some i) (rt_tile r2) False s3) = Inr s4 \<and>
      sc_keeps s s4 \<and> swapped a t s s4"
  proof (cases drained)
    case True
    then have "i = 0" "k = (if t = Suc a then a else t)" using i at(5) by (auto simp: drained_def k_def)
    with swap_drained [OF inv at(2,3,4) _ j j_def] True show ?thesis
      by (fastforce simp: returns_def drained_def)
  next
    case False
    then have "k = t" by (simp add: k_def)
    with swap_surviving [OF inv at(2,3) ne i i_def j j_def] False show ?thesis
      by (fastforce simp: returns_def drained_def)
  qed
  show ?thesis
  proof (cases "drained \<and> length (col_tiles (sc_columns s ! t)) = 1")
    case True
    then show ?thesis using swap_both_single [OF inv t] unfolding unfold by (simp add: drained_def a_def)
  next
    case False
    with steps swap_end [of s _ a t i j] at(2,3) ne i j show ?thesis
      unfolding unfold a_def [symmetric] j_def [symmetric] by (auto elim!: returns_mono)
  qed
qed

lemma swap_window_in_direction_noop:
  "scrolling_inv s \<Longrightarrow> swap_target dir s = None \<Longrightarrow> swap_window_in_direction dir s = Inr s"
  using scrolling_invD(2) [of s]
  by (auto simp: swap_target_def swap_window_in_direction_def split: scroll_direction.splits if_splits)

end
