(* ===== verification/Scrolling_Properties.thy ===== *)
theory Scrolling_Properties
  imports Scrolling_Sizing Scrolling_Swap
begin

text \<open>
  The scrolling space as a state machine: every public structure operation of \<open>ScrollingSpace\<close> as a
  step, the states they reach from an empty space, and what holds in all of them.
\<close>

datatype (plugins only: size) 'w scrolling_op =
    AddTile "nat option" "'w tile" bool column_width bool
  | AddTileToColumn nat "nat option" "'w tile" bool
  | AddTileRightOf 'w "'w tile" bool column_width bool
  | AddColumn "nat option" "'w column" bool
  | RemoveActiveTile | RemoveTile 'w | RemoveActiveColumn
  | ActivateWindow 'w | FocusLeft | FocusRight | FocusColumnFirst | FocusColumnLast | FocusColumn nat
  | FocusWindowInColumn u8 | FocusDown | FocusUp | FocusDownOrLeft | FocusDownOrRight | FocusUpOrLeft
  | FocusUpOrRight | FocusTop | FocusBottom
  | MoveLeft | MoveRight | MoveColumnToFirst | MoveColumnToLast | MoveColumnToIndex nat
  | MoveDown | MoveUp
  | ConsumeOrExpelWindowLeft "'w option" | ConsumeOrExpelWindowRight "'w option"
  | ConsumeIntoColumn | ExpelFromColumn | SwapWindowInDirection scroll_direction
  | SetFullscreen 'w bool | SetMaximized 'w bool | SetColumnDisplay column_display
  | ToggleColumnTabbedDisplay | ToggleFullWidth
  | InteractiveResizeBegin 'w | InteractiveResizeEnd "'w option"

definition state_of :: "('s \<times> 'b) res \<Rightarrow> 's res" where
  "state_of r = bind_res r (\<lambda>(s, _). Inr s)"

definition rest_of :: "('b \<times> 's) res \<Rightarrow> 's res" where
  "rest_of r = bind_res r (\<lambda>(_, s). Inr s)"

fun scrolling_step :: "'w scrolling_op \<Rightarrow> 'w scrolling_space \<Rightarrow> 'w scrolling_space res" where
  "scrolling_step (AddTile idx tile act width full) s = sc_add_tile idx tile act width full s"
| "scrolling_step (AddTileToColumn ci ti tile act) s = sc_add_tile_to_column ci ti tile act s"
| "scrolling_step (AddTileRightOf w tile act width full) s = sc_add_tile_right_of w tile act width full s"
| "scrolling_step (AddColumn idx column act) s = sc_add_column idx column act s"
| "scrolling_step RemoveActiveTile s = rest_of (sc_remove_active_tile s)"
| "scrolling_step (RemoveTile w) s = rest_of (sc_remove_tile w s)"
| "scrolling_step RemoveActiveColumn s = rest_of (sc_remove_active_column s)"
| "scrolling_step (ActivateWindow w) s = state_of (sc_activate_window w s)"
| "scrolling_step FocusLeft s = state_of (sc_focus_left s)"
| "scrolling_step FocusRight s = state_of (sc_focus_right s)"
| "scrolling_step FocusColumnFirst s = sc_focus_column_first s"
| "scrolling_step FocusColumnLast s = sc_focus_column_last s"
| "scrolling_step (FocusColumn k) s = sc_focus_column k s"
| "scrolling_step (FocusWindowInColumn k) s = sc_focus_window_in_column k s"
| "scrolling_step FocusDown s = state_of (sc_focus_down s)"
| "scrolling_step FocusUp s = state_of (sc_focus_up s)"
| "scrolling_step FocusDownOrLeft s = sc_focus_down_or_left s"
| "scrolling_step FocusDownOrRight s = sc_focus_down_or_right s"
| "scrolling_step FocusUpOrLeft s = sc_focus_up_or_left s"
| "scrolling_step FocusUpOrRight s = sc_focus_up_or_right s"
| "scrolling_step FocusTop s = sc_focus_top s"
| "scrolling_step FocusBottom s = sc_focus_bottom s"
| "scrolling_step MoveLeft s = state_of (sc_move_left s)"
| "scrolling_step MoveRight s = state_of (sc_move_right s)"
| "scrolling_step MoveColumnToFirst s = sc_move_column_to_first s"
| "scrolling_step MoveColumnToLast s = sc_move_column_to_last s"
| "scrolling_step (MoveColumnToIndex k) s = sc_move_column_to_index k s"
| "scrolling_step MoveDown s = state_of (sc_move_down s)"
| "scrolling_step MoveUp s = state_of (sc_move_up s)"
| "scrolling_step (ConsumeOrExpelWindowLeft w) s = consume_or_expel_window_left w s"
| "scrolling_step (ConsumeOrExpelWindowRight w) s = consume_or_expel_window_right w s"
| "scrolling_step ConsumeIntoColumn s = consume_into_column s"
| "scrolling_step ExpelFromColumn s = expel_from_column s"
| "scrolling_step (SwapWindowInDirection dir) s = swap_window_in_direction dir s"
| "scrolling_step (SetFullscreen w b) s = state_of (sc_set_fullscreen w b s)"
| "scrolling_step (SetMaximized w b) s = state_of (sc_set_maximized w b s)"
| "scrolling_step (SetColumnDisplay d) s = sc_set_column_display d s"
| "scrolling_step ToggleColumnTabbedDisplay s = toggle_column_tabbed_display s"
| "scrolling_step ToggleFullWidth s = sc_toggle_full_width s"
| "scrolling_step (InteractiveResizeBegin w) s = state_of (sc_interactive_resize_begin w s)"
| "scrolling_step (InteractiveResizeEnd w) s = sc_interactive_resize_end w s"

text \<open>
  What the caller owes: indices that exist, windows that are there when they are named, and no
  window added twice.
\<close>

fun op_ok :: "'w scrolling_op \<Rightarrow> 'w scrolling_space \<Rightarrow> bool" where
  "op_ok (AddTile idx tile _ _ _) s \<longleftrightarrow>
     (case idx of Some i \<Rightarrow> i \<le> length (sc_columns s) | None \<Rightarrow> True) \<and> tl_window tile \<notin># sc_windows s"
| "op_ok (AddTileToColumn ci ti tile _) s \<longleftrightarrow> ci < length (sc_columns s) \<and>
     (case ti of Some i \<Rightarrow> i \<le> length (col_tiles (sc_columns s ! ci)) | None \<Rightarrow> True) \<and>
     tl_window tile \<notin># sc_windows s"
| "op_ok (AddTileRightOf w tile _ _ _) s \<longleftrightarrow> w \<in># sc_windows s \<and> tl_window tile \<notin># sc_windows s"
| "op_ok (AddColumn idx column _) s \<longleftrightarrow>
     (case idx of Some i \<Rightarrow> i \<le> length (sc_columns s) | None \<Rightarrow> True) \<and> column_inv column \<and>
     distinct (col_windows column) \<and> (\<forall>w \<in> set (col_windows column). w \<notin># sc_windows s)"
| "op_ok (RemoveTile w) s \<longleftrightarrow> w \<in># sc_windows s"
| "op_ok (ConsumeOrExpelWindowLeft w) s \<longleftrightarrow> (case w of Some w \<Rightarrow> w \<in># sc_windows s | None \<Rightarrow> True)"
| "op_ok (ConsumeOrExpelWindowRight w) s \<longleftrightarrow> (case w of Some w \<Rightarrow> w \<in># sc_windows s | None \<Rightarrow> True)"
| "op_ok (SetFullscreen w _) s \<longleftrightarrow> w \<in># sc_windows s"
| "op_ok (SetMaximized w _) s \<longleftrightarrow> w \<in># sc_windows s"
| "op_ok (InteractiveResizeBegin w) s \<longleftrightarrow> w \<in># sc_windows s"
| "op_ok _ s \<longleftrightarrow> True"

text \<open>The windows an operation adds to the space and the windows it takes out.\<close>

fun op_adds :: "'w scrolling_op \<Rightarrow> 'w multiset" where
  "op_adds (AddTile _ tile _ _ _) = {#tl_window tile#}"
| "op_adds (AddTileToColumn _ _ tile _) = {#tl_window tile#}"
| "op_adds (AddTileRightOf _ tile _ _ _) = {#tl_window tile#}"
| "op_adds (AddColumn _ column _) = mset (col_windows column)"
| "op_adds _ = {#}"

fun op_removes :: "'w scrolling_op \<Rightarrow> 'w scrolling_space \<Rightarrow> 'w multiset" where
  "op_removes (RemoveTile w) s = {#w#}"
| "op_removes RemoveActiveTile s =
     (case sc_active_window s of Inr (Some w) \<Rightarrow> {#w#} | _ \<Rightarrow> {#})"
| "op_removes RemoveActiveColumn s =
     (if sc_columns s = [] then {#} else mset (col_windows (sc_columns s ! sc_active_column_idx s)))"
| "op_removes _ s = {#}"

definition step_ok :: "'w scrolling_op \<Rightarrow> 'w scrolling_space \<Rightarrow> 'w scrolling_space \<Rightarrow> bool" where
  "step_ok op s s' \<longleftrightarrow> scrolling_inv s' \<and>
     sc_windows s' + op_removes op s = sc_windows s + op_adds op"

lemma state_of_keeps: "returns r (\<lambda>(s', b). sc_keeps s s' \<and> Q b s') \<Longrightarrow> returns (state_of r) (sc_keeps s)"
  "returns r (\<lambda>(s', b). sc_keeps s s') \<Longrightarrow> returns (state_of r) (sc_keeps s)"
  by (auto simp: state_of_def elim!: returns_mono)

lemma keeps_step_ok:
  assumes "returns r (sc_keeps s)" "op_adds op = {#}" "op_removes op s = {#}"
  shows "returns r (step_ok op s)"
  by (rule returns_mono [OF assms(1)]) (simp add: step_ok_def sc_keeps_def assms(2,3))

lemma remove_tile_step:
  assumes inv: "scrolling_inv s" and w: "w \<in># sc_windows s"
  shows "returns (sc_remove_tile w s) (\<lambda>(r, s'). scrolling_inv s' \<and> tl_window (rt_tile r) = w \<and>
    sc_windows s = add_mset w (sc_windows s') \<and> \<not> rt_is_floating r)"
proof -
  obtain i where i: "position (\<lambda>col. col_contains col w) (sc_columns s) = Some i"
    using position_contains [OF w [unfolded sc_windows_def]] by blast
  have lt: "i < length (sc_columns s)" and mem: "w \<in> set (col_windows (sc_columns s ! i))"
    using position_Some [OF i] by simp_all
  obtain j where j: "col_position (sc_columns s ! i) w = Some j"
    using col_position_present [OF mem] by blast
  have "sc_remove_tile w s = remove_tile_by_idx i j s"
    using i j lt by (simp add: sc_remove_tile_def vec_simps)
  with remove_tile_by_idx_ok [OF inv lt, of j] col_position_Some [OF j] show ?thesis
    by (auto simp: tile_removed_def Let_def elim!: returns_mono)
qed

lemma remove_active_tile_step:
  assumes inv: "scrolling_inv s"
  shows "returns (sc_remove_active_tile s) (\<lambda>(r, s'). scrolling_inv s' \<and>
    sc_windows s = sc_windows s' + (case sc_active_window s of Inr (Some w) \<Rightarrow> {#w#} | _ \<Rightarrow> {#}) \<and>
    sc_active_window s = Inr (map_option (\<lambda>r. tl_window (rt_tile r)) r))"
proof (cases "sc_columns s = []")
  case True
  then show ?thesis using inv by (simp add: sc_remove_active_tile_def sc_active_window_def)
next
  case False
  let ?a = "sc_active_column_idx s"
  have a: "?a < length (sc_columns s)" using inv False by (rule scrolling_invD(2))
  note col = scrolling_inv_nth [OF inv a]
  have t: "col_active_tile_idx (sc_columns s ! ?a) < length (col_tiles (sc_columns s ! ?a))"
    using col by (simp add: column_inv_def)
  show ?thesis using remove_tile_by_idx_ok [OF inv a t] False a sc_active_window_eq [OF a col]
    by (auto simp: sc_remove_active_tile_def tile_removed_def Let_def elim!: returns_mono)
qed

lemma remove_active_column_step:
  assumes inv: "scrolling_inv s"
  shows "returns (sc_remove_active_column s) (\<lambda>(c, s'). scrolling_inv s' \<and>
    sc_windows s = sc_windows s' + (if sc_columns s = [] then {#}
      else mset (col_windows (sc_columns s ! sc_active_column_idx s))))"
proof (cases "sc_columns s = []")
  case False
  with remove_column_by_idx_ok [OF inv scrolling_invD(2) [OF inv False]] show ?thesis
    by (auto simp: sc_remove_active_column_def add.commute elim!: returns_mono)
qed (use inv in \<open>simp add: sc_remove_active_column_def\<close>)

lemma add_tile_right_of_step:
  assumes inv: "scrolling_inv s" and w: "w \<in># sc_windows s"
  shows "returns (sc_add_tile_right_of w tile act width full s) (\<lambda>s'. scrolling_inv s' \<and>
    sc_windows s' = add_mset (tl_window tile) (sc_windows s))"
proof -
  obtain i where i: "position (\<lambda>col. col_contains col w) (sc_columns s) = Some i"
    using position_contains [OF w [unfolded sc_windows_def]] by blast
  have "i + 1 \<le> length (sc_columns s)" using position_Some [OF i] by simp
  with sc_add_tile_ok [OF inv, of "Some (i + 1)" tile act width full] i show ?thesis
    by (auto simp: sc_add_tile_right_of_def elim!: returns_mono)
qed

lemma adding_step_ok:
  assumes "scrolling_inv s" "op_ok op s"
  shows "op = AddTile idx tile act width full \<Longrightarrow> returns (scrolling_step op s) (step_ok op s)"
    and "op = AddTileToColumn ci ti tile act \<Longrightarrow> returns (scrolling_step op s) (step_ok op s)"
    and "op = AddTileRightOf w tile act width full \<Longrightarrow> returns (scrolling_step op s) (step_ok op s)"
    and "op = AddColumn idx column act \<Longrightarrow> returns (scrolling_step op s) (step_ok op s)"
proof -
  assume op: "op = AddTile idx tile act width full"
  with assms(2) have "\<And>i. idx = Some i \<Longrightarrow> i \<le> length (sc_columns s)" by simp
  from sc_add_tile_ok [OF assms(1), of idx tile act width full, OF this] show "returns (scrolling_step op s) (step_ok op s)"
    by (auto simp: op step_ok_def elim!: returns_mono)
next
  assume op: "op = AddTileToColumn ci ti tile act"
  with assms(2) have "ci < length (sc_columns s)"
    "\<And>i. ti = Some i \<Longrightarrow> i \<le> length (col_tiles (sc_columns s ! ci))" by simp_all
  from sc_add_tile_to_column_ok [OF assms(1) this(1), of ti tile act, OF this(2)] show "returns (scrolling_step op s) (step_ok op s)"
    by (auto simp: op step_ok_def tile_added_def Let_def elim!: returns_mono)
next
  assume op: "op = AddTileRightOf w tile act width full"
  with add_tile_right_of_step [OF assms(1), of w tile act width full] assms(2)
  show "returns (scrolling_step op s) (step_ok op s)"
    by (auto simp: op step_ok_def elim!: returns_mono)
next
  assume op: "op = AddColumn idx column act"
  with assms(2) have "column_inv column" "\<And>i. idx = Some i \<Longrightarrow> i \<le> length (sc_columns s)" by simp_all
  from sc_add_column_ok [OF assms(1) this(1), of idx act, OF this(2)] show "returns (scrolling_step op s) (step_ok op s)"
    by (auto simp: op step_ok_def elim!: returns_mono)
qed

lemma removing_step_ok:
  assumes "scrolling_inv s" "op_ok op s" "op \<in> {RemoveActiveTile, RemoveTile w, RemoveActiveColumn}"
  shows "returns (scrolling_step op s) (step_ok op s)"
  using assms remove_active_tile_step [OF assms(1)] remove_tile_step [OF assms(1), of w]
    remove_active_column_step [OF assms(1)]
  by (auto simp: rest_of_def step_ok_def elim!: returns_mono)

lemma rearranging_step_keeps:
  assumes "scrolling_inv s" "sc_distinct s" "op_ok op s"
    and "op_adds op = {#}" "op \<noteq> RemoveActiveTile" "\<And>w. op \<noteq> RemoveTile w" "op \<noteq> RemoveActiveColumn"
    and "\<And>idx c a. op \<noteq> AddColumn idx c a"
  shows "returns (scrolling_step op s) (sc_keeps s)"
proof -
  note inv = assms(1)
  have swap: "returns (swap_window_in_direction dir s) (sc_keeps s)" for dir
    using swap_window_in_direction_ok [OF inv, of dir] swap_window_in_direction_noop [OF inv, of dir] inv
    by (cases "swap_target dir s") (auto simp: sc_keeps_refl elim!: returns_mono)
  have display: "returns (sc_set_column_display d s) (sc_keeps s)" for d
    by (rule returns_mono [OF sc_set_column_display_keeps [OF inv assms(2)]]) simp
  have sizing: "returns (state_of (sc_set_fullscreen w b s)) (sc_keeps s)"
    "returns (state_of (sc_set_maximized w b s)) (sc_keeps s)" if "w \<in># sc_windows s" for w b
    unfolding sc_set_fullscreen_def sc_set_maximized_def
    by (rule state_of_keeps(2), rule returns_mono [OF fullscreen_sizing.set_sizing_ok [OF inv that]], force,
        rule state_of_keeps(2), rule returns_mono [OF maximized_sizing.set_sizing_ok [OF inv that]], force)
  have consume: "returns (consume_or_expel_window_left w s) (sc_keeps s)"
    "returns (consume_or_expel_window_right w s) (sc_keeps s)"
    if "case w of Some w \<Rightarrow> w \<in># sc_windows s | None \<Rightarrow> True" for w
    using that consume_or_expel_window_left_keeps [OF inv, of w]
      consume_or_expel_window_right_keeps [OF inv, of w] by (cases w; simp)+
  have activate: "returns (state_of (sc_activate_window w s)) (sc_keeps s)" for w
    by (rule state_of_keeps(2), rule returns_mono [OF sc_activate_window_keeps [OF inv]]) auto
  show ?thesis
    by (use assms(3-) in \<open>cases op; simp add: swap display sizing activate
      sc_focus_horizontal_keeps [OF inv] sc_focus_vertical_keeps [OF inv] sc_focus_diagonal_keeps [OF inv]
      sc_move_keeps [OF inv] consume consume_expel_keeps [OF inv]
      toggle_column_tabbed_display_keeps [OF inv assms(2)] sc_toggle_full_width_keeps [OF inv]
      sc_interactive_resize_keeps [OF inv] state_of_keeps(2)\<close>)
qed

subsection \<open>Every operation\<close>

lemma sc_distinct_count: "sc_distinct s \<longleftrightarrow> (\<forall>w. count (sc_windows s) w \<le> 1)"
  unfolding sc_distinct_def sc_windows_def cols_windows_def distinct_count_atmost_1
  by (auto simp: not_in_iff [symmetric] le_Suc_eq)

lemma op_adds_distinct:
  assumes "op_ok op s" "w \<in># op_adds op"
  shows "count (op_adds op) w = 1" "w \<notin># sc_windows s"
  using assms by (cases op; force simp: distinct_count_atmost_1 split: if_splits)+

lemma step_ok_distinct:
  assumes "op_ok op s" "sc_distinct s" "step_ok op s s'"
  shows "sc_distinct s'"
  unfolding sc_distinct_count
proof
  fix w
  have "count (sc_windows s') w \<le> count (sc_windows s) w + count (op_adds op) w"
    using arg_cong [of _ _ "\<lambda>M. count M w", OF conjunct2 [OF assms(3) [unfolded step_ok_def]]] by simp
  also have "\<dots> \<le> 1"
    using op_adds_distinct [OF assms(1), of w] assms(2) [unfolded sc_distinct_count, rule_format, of w]
    by (cases "w \<in># op_adds op") (auto simp: not_in_iff)
  finally show "count (sc_windows s') w \<le> 1" .
qed

lemma op_removes_none:
  "op \<noteq> RemoveActiveTile \<Longrightarrow> (\<And>w. op \<noteq> RemoveTile w) \<Longrightarrow> op \<noteq> RemoveActiveColumn \<Longrightarrow> op_removes op s = {#}"
  by (cases op) auto

lemma scrolling_step_ok:
  assumes "scrolling_inv s" "sc_distinct s" "op_ok op s"
  shows "returns (scrolling_step op s) (step_ok op s)"
proof -
  have keeps: "returns (scrolling_step op s) (step_ok op s)"
    if "op_adds op = {#}" "op \<noteq> RemoveActiveTile" "\<And>w. op \<noteq> RemoveTile w" "op \<noteq> RemoveActiveColumn"
      "\<And>idx c a. op \<noteq> AddColumn idx c a"
    by (rule keeps_step_ok [OF rearranging_step_keeps [OF assms that] that(1) op_removes_none [OF that(2-4)]])
  show ?thesis
  proof (cases op)
    case (AddTile idx tile act width full)
    then show ?thesis by (rule adding_step_ok(1) [OF assms(1,3)])
  next
    case (AddTileToColumn ci ti tile act)
    then show ?thesis by (rule adding_step_ok(2) [OF assms(1,3)])
  next
    case (AddTileRightOf w tile act width full)
    then show ?thesis by (rule adding_step_ok(3) [OF assms(1,3)])
  next
    case (AddColumn idx column act)
    then show ?thesis by (rule adding_step_ok(4) [OF assms(1,3)])
  next
    case RemoveActiveTile
    then show ?thesis using removing_step_ok [OF assms(1,3)] by simp
  next
    case (RemoveTile w)
    then show ?thesis using removing_step_ok [OF assms(1,3), of w] by simp
  next
    case RemoveActiveColumn
    then show ?thesis using removing_step_ok [OF assms(1,3)] by simp
  qed (rule keeps; simp)+
qed

text \<open>The states the operations reach from an empty space.\<close>

inductive scrolling_reachable :: "column_display \<Rightarrow> 'w scrolling_space \<Rightarrow> bool" for d where
  start: "scrolling_reachable d (scrolling_new d)"
| step: "scrolling_reachable d s \<Longrightarrow> op_ok op s \<Longrightarrow> scrolling_step op s = Inr s' \<Longrightarrow>
    scrolling_reachable d s'"

lemma scrolling_new_inv: "scrolling_inv (scrolling_new d)" "sc_distinct (scrolling_new d)"
  by (simp_all add: scrolling_inv_def scrolling_new_def sc_distinct_def)

lemma scrolling_reachable_inv:
  "scrolling_reachable d s \<Longrightarrow> scrolling_inv s \<and> sc_distinct s"
proof (induction rule: scrolling_reachable.induct)
  case start
  show ?case by (simp add: scrolling_new_inv)
next
  case (step s op s')
  with returnsD [OF scrolling_step_ok, of s op s'] step_ok_distinct [of op s s'] show ?case
    by (auto simp: step_ok_def)
qed

lemma add_tile_sets_prev:
  assumes "sc_columns s \<noteq> []" "sc_add_tile None tile True width full s = Inr s1"
  shows "sc_activate_prev_column_on_removal s1"
  using assms by (auto simp: sc_add_tile_def sc_add_column_def Let_def)

lemma take_insert_drop: "i \<le> length xs \<Longrightarrow>
    take i (take i xs @ x # drop i xs) @ drop (Suc i) (take i xs @ x # drop i xs) = xs"
  by simp

subsection \<open>Properties\<close>

text \<open>
  C3. In every state the operations reach from an empty space, the structural invariants of
  \<open>verify_invariants\<close> hold and every window is in exactly one place; and whatever operation is
  called next with arguments that exist does not panic, keeps all of this, and changes the
  windows of the space only by those it adds or removes.
\<close>

theorem scrolling_never_panics:
  assumes "scrolling_reachable d s"
  shows "scrolling_inv s \<and> sc_distinct s \<and> (op_ok op s \<longrightarrow>
    (\<exists>s'. scrolling_step op s = Inr s' \<and> scrolling_inv s' \<and> sc_distinct s' \<and>
      sc_windows s' + op_removes op s = sc_windows s + op_adds op))"
proof -
  have inv: "scrolling_inv s \<and> sc_distinct s" using scrolling_reachable_inv [OF assms] .
  have "\<exists>s'. scrolling_step op s = Inr s' \<and> step_ok op s s'" if "op_ok op s"
    using scrolling_step_ok [OF _ _ that] inv by (simp add: returns_def)
  with step_ok_distinct inv show ?thesis by (auto simp: step_ok_def)
qed

definition example_tile :: "nat \<Rightarrow> nat tile" where
  "example_tile w = \<lparr>tl_window = w, tl_default_column_display = None,
     tl_pending_sizing_mode = SizingNormal, tl_restore_to_floating = False,
     tl_floating_pos = None, tl_default_floating_position = None,
     tl_tile_size = \<lparr>sz_w = 100, sz_h = 100\<rparr>, tl_expected_width = 100\<rparr>"

definition example_column :: "nat list \<Rightarrow> nat \<Rightarrow> nat column" where
  "example_column ws i = \<lparr>col_tiles = map example_tile ws, col_active_tile_idx = i,
     col_width = WidthProportion 1, col_is_full_width = False, col_is_pending_fullscreen = False,
     col_is_pending_maximized = False, col_display_mode = DisplayNormal\<rparr>"

definition example_space :: "nat scrolling_space" where
  "example_space = \<lparr>sc_columns = [example_column [1, 2] 1, example_column [3] 0],
     sc_active_column_idx = 1, sc_interactive_resize = None,
     sc_activate_prev_column_on_removal = False, sc_default_column_display = DisplayNormal\<rparr>"

lemma example_space_inv: "scrolling_inv example_space" "sc_distinct example_space"
  by (simp_all add: scrolling_inv_def example_space_def sc_distinct_def column_inv_def
      example_column_def example_tile_def pending_sizing_mode_def)

theorem scrolling_never_panics_witness:
  "\<exists>s'. scrolling_step (AddTile None (example_tile 1) True (WidthFixed 800) False)
      (scrolling_new DisplayNormal) = Inr s' \<and> scrolling_inv s' \<and> sc_distinct s' \<and>
    sc_windows s' = {#1#}"
  using scrolling_never_panics [OF scrolling_reachable.start,
      of DisplayNormal "AddTile None (example_tile 1) True (WidthFixed 800) False"]
  by (simp add: scrolling_new_def sc_windows_def example_tile_def)

text \<open>
  C14. \<open>swap_window_in_direction\<close> towards a neighbouring column exchanges the two active windows and
  nothing else, on both of its paths; the focus goes to the target column, on the window that was
  swapped into it.
\<close>

theorem swap_exchanges_active_windows:
  assumes "scrolling_inv s" "swap_target dir s = Some t"
  defines "a \<equiv> sc_active_column_idx s"
  defines "W \<equiv> map col_windows (sc_columns s)"
    and "i \<equiv> col_active_tile_idx (sc_columns s ! a)" and "j \<equiv> col_active_tile_idx (sc_columns s ! t)"
  shows "\<exists>s'. swap_window_in_direction dir s = Inr s' \<and> scrolling_inv s' \<and>
    map col_windows (sc_columns s') = W[a := (W ! a)[i := W ! t ! j], t := (W ! t)[j := W ! a ! i]] \<and>
    sc_active_window s' = sc_active_window s"
proof -
  note at = swap_target_Some [OF assms(1,2), folded a_def]
  obtain s' where s': "swap_window_in_direction dir s = Inr s'" "sc_keeps s s'" "swapped a t s s'"
    "sc_active_column_idx s' = t" "col_active_tile_idx (sc_columns s' ! t) = j"
    using swap_window_in_direction_ok [OF assms(1,2)] by (auto simp: returns_def a_def j_def)
  have W: "map col_windows (sc_columns s') = W[a := (W ! a)[i := W ! t ! j], t := (W ! t)[j := W ! a ! i]]"
    using s'(3) by (simp add: swapped_def Let_def W_def i_def j_def)
  have len: "length (sc_columns s') = length (sc_columns s)" using arg_cong [OF W, of length] by (simp add: W_def)
  have col: "column_inv (sc_columns s ! b)" "column_inv (sc_columns s' ! b)" if "b = a \<or> b = t" for b
    using that at scrolling_inv_nth [OF assms(1)] scrolling_inv_nth [OF sc_keeps_inv [OF s'(2)]] len by auto
  have j: "j < length (col_tiles (sc_columns s ! t))" using col(1) [of t] by (simp add: j_def column_inv_def)
  have "col_windows (sc_columns s' ! t) = (W ! t)[j := W ! a ! i]"
    using arg_cong [OF W, of "\<lambda>X. X ! t"] at(3) len by (simp add: W_def)
  then have "col_windows (sc_columns s' ! t) ! j = W ! a ! i" using j at(3) by (simp add: W_def)
  moreover have "col_windows c ! col_active_tile_idx c = tl_window (col_tiles c ! col_active_tile_idx c)"
    if "column_inv c" for c using that by (simp add: column_inv_def col_windows_def)
  ultimately have "tl_window (col_tiles (sc_columns s' ! t) ! j) =
      tl_window (col_tiles (sc_columns s ! a) ! i)"
    using col [of a] col [of t] s'(5) at(2) by (metis W_def i_def nth_map)
  then have "sc_active_window s' = sc_active_window s"
    using sc_active_window_eq [of s'] sc_active_window_eq [of s] col at len s'(4,5)
    by (simp add: i_def a_def)
  with s'(1) sc_keeps_inv [OF s'(2)] W show ?thesis by blast
qed

theorem swap_exchanges_active_windows_witness:
  "\<exists>s'. swap_window_in_direction ScrollLeft example_space = Inr s' \<and> scrolling_inv s' \<and>
    map col_windows (sc_columns s') = [[1, 3], [2]] \<and> sc_active_window s' = Inr (Some 3)"
  using swap_exchanges_active_windows [OF example_space_inv(1), of ScrollLeft 0]
  by (simp add: swap_target_def sc_active_window_def vec_simps example_space_def example_column_def
      example_tile_def)

text \<open>
  C16. A window opened to the right of the active column and closed again with nothing in between
  leaves the columns and the focus as they were.
\<close>

theorem open_then_close_restores:
  assumes "scrolling_inv s" "sc_columns s \<noteq> []"
  shows "\<exists>s1 r s2. sc_add_tile None tile True width full s = Inr s1 \<and>
    sc_active_window s1 = Inr (Some (tl_window tile)) \<and>
    sc_remove_active_tile s1 = Inr (Some r, s2) \<and> tl_window (rt_tile r) = tl_window tile \<and>
    rt_width r = width \<and> rt_is_full_width r = full \<and>
    sc_columns s2 = sc_columns s \<and> sc_active_column_idx s2 = sc_active_column_idx s"
proof -
  let ?a = "sc_active_column_idx s"
  have a: "?a < length (sc_columns s)" using assms by (rule scrolling_invD(2))
  obtain s1 col where s1: "sc_add_tile None tile True width full s = Inr s1" "scrolling_inv s1"
    "sc_active_column_idx s1 = Suc ?a" "column_inv col" "col_windows col = [tl_window tile]"
    "col_width col = width" "col_is_full_width col = full"
    "sc_columns s1 = take (Suc ?a) (sc_columns s) @ col # drop (Suc ?a) (sc_columns s)"
    using sc_add_tile_ok [OF assms(1), of None tile True width full] assms(2)
    by (auto simp: returns_def add_idx_def active_after_add_def)
  have at: "Suc ?a < length (sc_columns s1)" "sc_columns s1 ! Suc ?a = col"
    using a s1(8) by (simp_all add: nth_append)
  have one: "length (col_tiles col) = 1" using s1(5) col_windows_simps(1) [of col] by simp
  then have zero: "col_active_tile_idx col = 0" using s1(4) by (simp add: column_inv_def)
  have win: "tl_window (col_tiles col ! 0) = tl_window tile"
    using s1(5) one by (auto simp: col_windows_def length_Suc_conv)
  have prev: "sc_activate_prev_column_on_removal s1" using add_tile_sets_prev [OF assms(2) s1(1)] .
  obtain r s2 where r: "remove_tile_by_idx (Suc ?a) 0 s1 = Inr (r, s2)" "tile_removed (Suc ?a) 0 s1 (r, s2)"
    using remove_tile_by_idx_ok [OF s1(2) at(1), of 0] at(2) one by (auto simp: returns_def)
  have "sc_columns s2 = sc_columns s" "sc_active_column_idx s2 = ?a" "rt_tile r = col_tiles col ! 0"
    "rt_width r = width" "rt_is_full_width r = full"
    using r(2) one at(2) a prev s1(3,6,7) take_insert_drop [of "Suc ?a" "sc_columns s" col]
    by (auto simp: tile_removed_def Let_def active_after_remove_def s1(8))
  moreover have "sc_remove_active_tile s1 = Inr (Some r, s2)"
    using at s1(3) zero r(1) by (auto simp: sc_remove_active_tile_def vec_simps)
  moreover have "sc_active_window s1 = Inr (Some (tl_window tile))"
    using sc_active_window_eq [of s1] s1(3,4) at zero win by simp
  ultimately show ?thesis using s1(1) win by auto
qed

theorem open_then_close_restores_witness:
  "\<exists>s1 r s2. sc_add_tile None (example_tile 9) True (WidthFixed 800) False example_space = Inr s1 \<and>
    sc_active_window s1 = Inr (Some 9) \<and> sc_remove_active_tile s1 = Inr (Some r, s2) \<and>
    sc_columns s2 = sc_columns example_space \<and> sc_active_column_idx s2 = 1"
  using open_then_close_restores [OF example_space_inv(1), of "example_tile 9" "WidthFixed 800" False]
  by (auto simp: example_space_def example_tile_def)

text \<open>
  C25. Fullscreening a window never panics and puts it in a column that is going fullscreen, where it
  is alone or the column is tabbed; unfullscreening puts it in one that is not. No window is lost,
  even when the window has to be taken out of a shared column first.
\<close>

theorem set_fullscreen_exact:
  assumes "scrolling_inv s" "w \<in># sc_windows s"
  shows "\<exists>s' changed. sc_set_fullscreen w b s = Inr (s', changed) \<and> scrolling_inv s' \<and>
    sc_windows s' = sc_windows s \<and>
    (\<exists>col \<in> set (sc_columns s'). w \<in> set (col_windows col) \<and> col_is_pending_fullscreen col = b \<and>
       (b \<longrightarrow> length (col_tiles col) = 1 \<or> col_display_mode col = DisplayTabbed))"
proof -
  obtain s' changed col where s': "sc_set_fullscreen w b s = Inr (s', changed)" "sc_keeps s s'"
    "col \<in> set (sc_columns s')" "w \<in> set (col_windows col)" "col_is_pending_fullscreen col = b"
    using fullscreen_sizing.set_sizing_ok [OF assms, of b] unfolding sc_set_fullscreen_def returns_def by blast
  have "column_inv col"
    using scrolling_invD(1) [OF sc_keeps_inv [OF s'(2)]] s'(3) by (simp add: columns_inv_def list_all_iff)
  then have "b \<longrightarrow> length (col_tiles col) = 1 \<or> col_display_mode col = DisplayTabbed"
    using s'(5) by (auto simp: column_inv_def pending_sizing_mode_normal)
  with s' show ?thesis unfolding sc_keeps_def by blast
qed

theorem set_fullscreen_exact_witness:
  "\<exists>s' changed. sc_set_fullscreen 1 True example_space = Inr (s', changed) \<and>
    sc_windows s' = {#1, 2, 3#}"
proof -
  have w: "1 \<in># sc_windows example_space" "sc_windows example_space = {#1, 2, 3#}"
    by (simp_all add: sc_windows_def example_space_def example_column_def example_tile_def)
  from set_fullscreen_exact [OF example_space_inv(1) w(1), of True] w(2) show ?thesis by auto
qed

end
