(* ===== verification/Floating_Data.thy ===== *)
theory Floating_Data
  imports Layout_Types
begin

text \<open>
  The position of one floating window, \<^verbatim>\<open>Data\<close> of \<^verbatim>\<open>src/layout/floating.rs\<close>: the position as a
  fraction of the working area, the cached position in logical pixels, the size it was computed
  for and the working area. Whatever is set, the cached position keeps a part of the window on
  the screen.
\<close>

record floating_data =
  fd_pos :: point
  fd_logical_pos :: point
  fd_size :: extent
  fd_working_area :: rectangle

text \<open>\<open>f64::clamp\<close>, for bounds in order.\<close>

definition clamp_real :: "real \<Rightarrow> real \<Rightarrow> real \<Rightarrow> real" where
  "clamp_real x lo hi = (if x < lo then lo else if hi < x then hi else x)"

definition scale_by_working_area :: "rectangle \<Rightarrow> point \<Rightarrow> point" where
  "scale_by_working_area area pos =
     point_add \<lparr>pt_x = pt_x pos * sz_w (rc_size area), pt_y = pt_y pos * sz_h (rc_size area)\<rparr> (rc_loc area)"

definition logical_to_size_frac_in_working_area :: "rectangle \<Rightarrow> point \<Rightarrow> point" where
  "logical_to_size_frac_in_working_area area logical_pos =
     (let pos = point_sub logical_pos (rc_loc area)
      in \<lparr>pt_x = pt_x pos / max (sz_w (rc_size area)) 1, pt_y = pt_y pos / max (sz_h (rc_size area)) 1\<rparr>)"

text \<open>One axis of \<open>recompute_logical_pos\<close>: \<open>x\<close> is relative to the working area.\<close>

definition min_on_screen :: "real \<Rightarrow> real" where
  "min_on_screen len = clamp_real (len / 4) 10 75"

definition keep_on_screen :: "real \<Rightarrow> real \<Rightarrow> real \<Rightarrow> real" where
  "keep_on_screen area_len len x =
     (let max_off_screen = max 0 (len - min_on_screen len)
      in min (max x (- max_off_screen)) (area_len - len + max_off_screen))"

definition recompute_logical_pos :: "floating_data \<Rightarrow> floating_data" where
  "recompute_logical_pos d =
     (let area = fd_working_area d;
          logical_pos = scale_by_working_area area (fd_pos d);
          logical_pos = point_sub logical_pos (rc_loc area);
          logical_pos = \<lparr>pt_x = keep_on_screen (sz_w (rc_size area)) (sz_w (fd_size d)) (pt_x logical_pos),
                         pt_y = keep_on_screen (sz_h (rc_size area)) (sz_h (fd_size d)) (pt_y logical_pos)\<rparr>
      in d\<lparr>fd_logical_pos := point_add logical_pos (rc_loc area)\<rparr>)"

definition fd_update_config :: "rectangle \<Rightarrow> floating_data \<Rightarrow> floating_data" where
  "fd_update_config working_area d =
     (if fd_working_area d = working_area then d
      else recompute_logical_pos (d\<lparr>fd_working_area := working_area\<rparr>))"

definition fd_update :: "'w tile \<Rightarrow> floating_data \<Rightarrow> floating_data" where
  "fd_update tile d =
     (if fd_size d = tl_tile_size tile then d
      else recompute_logical_pos (d\<lparr>fd_size := tl_tile_size tile\<rparr>))"

definition set_logical_pos :: "point \<Rightarrow> floating_data \<Rightarrow> floating_data" where
  "set_logical_pos logical_pos d =
     recompute_logical_pos
       (d\<lparr>fd_pos := logical_to_size_frac_in_working_area (fd_working_area d) logical_pos\<rparr>)"

definition fd_new :: "rectangle \<Rightarrow> 'w tile \<Rightarrow> point \<Rightarrow> floating_data" where
  "fd_new working_area tile logical_pos =
     (let rv = \<lparr>fd_pos = \<lparr>pt_x = 0, pt_y = 0\<rparr>, fd_logical_pos = \<lparr>pt_x = 0, pt_y = 0\<rparr>,
                fd_size = \<lparr>sz_w = 0, sz_h = 0\<rparr>, fd_working_area = working_area\<rparr>
      in set_logical_pos logical_pos (fd_update tile rv))"

definition fd_center :: "floating_data \<Rightarrow> point" where
  "fd_center d = point_add (fd_logical_pos d) \<lparr>pt_x = sz_w (fd_size d) / 2, pt_y = sz_h (fd_size d) / 2\<rparr>"

subsection \<open>The cached position is up to date\<close>

text \<open>\<open>Data::verify_invariants\<close>\<close>

definition data_inv :: "floating_data \<Rightarrow> bool" where
  "data_inv d \<longleftrightarrow> fd_logical_pos (recompute_logical_pos d) = fd_logical_pos d"

lemma recompute_keeps [simp]:
  "fd_pos (recompute_logical_pos d) = fd_pos d"
  "fd_size (recompute_logical_pos d) = fd_size d"
  "fd_working_area (recompute_logical_pos d) = fd_working_area d"
  by (simp_all add: recompute_logical_pos_def Let_def)

lemma data_inv_recompute [simp]: "data_inv (recompute_logical_pos d)"
  by (simp add: data_inv_def recompute_logical_pos_def Let_def)

lemma data_inv_ops [simp]:
  "data_inv d \<Longrightarrow> data_inv (fd_update_config area d)"
  "data_inv d \<Longrightarrow> data_inv (fd_update tile d)"
  "data_inv (set_logical_pos p d)"
  "data_inv (fd_new area tile p)"
  by (simp_all add: fd_update_config_def fd_update_def set_logical_pos_def fd_new_def Let_def)

lemma fd_fields [simp]:
  "fd_size (fd_update tile d) = tl_tile_size tile"
  "fd_working_area (fd_update tile d) = fd_working_area d"
  "fd_working_area (fd_update_config area d) = area"
  "fd_size (fd_update_config area d) = fd_size d"
  "fd_size (set_logical_pos p d) = fd_size d"
  "fd_working_area (set_logical_pos p d) = fd_working_area d"
  "fd_size (fd_new area tile p) = tl_tile_size tile"
  "fd_working_area (fd_new area tile p) = area"
  by (simp_all add: fd_update_def fd_update_config_def set_logical_pos_def fd_new_def Let_def)

text \<open>What \<open>FloatingSpace::verify_invariants\<close> asks of the data next to its tile.\<close>

definition data_current :: "rectangle \<Rightarrow> 'w tile \<Rightarrow> floating_data \<Rightarrow> bool" where
  "data_current area tile d \<longleftrightarrow> data_inv d \<and> fd_size d = tl_tile_size tile \<and> fd_working_area d = area"

lemma data_current_iff: "data_current area tile d \<longleftrightarrow>
    data_inv d \<and> fd_update_config area (fd_update tile d) = d"
  by (metis data_current_def fd_fields(1,3,4) fd_update_config_def fd_update_def)

lemma data_current_ops [simp]:
  "data_current area tile (fd_new area tile p)"
  "data_current area tile d \<Longrightarrow> data_current area tile (set_logical_pos p d)"
  "data_current area tile d \<Longrightarrow> data_current area' tile' (fd_update_config area' (fd_update tile' d))"
  "data_current area tile d \<Longrightarrow> data_current area tile' (fd_update tile' d)"
  by (simp_all add: data_current_def)

subsection \<open>Staying on screen\<close>

lemma min_on_screen_bounds: "10 \<le> min_on_screen len" "min_on_screen len \<le> 75"
  by (simp_all add: min_on_screen_def clamp_real_def)

text \<open>How much of the interval \<open>[x, x + len]\<close> lies inside \<open>[0, area_len]\<close>.\<close>

definition visible_len :: "real \<Rightarrow> real \<Rightarrow> real \<Rightarrow> real" where
  "visible_len area_len len x = min (x + len) area_len - max x 0"

text \<open>What stays visible: a part of the window, all of a small window, or all of a small area.\<close>

definition visible_part :: "real \<Rightarrow> real \<Rightarrow> real" where
  "visible_part area_len len = min area_len (min len (min_on_screen len))"

lemma keep_on_screen_visible:
  assumes "0 \<le> len" "0 \<le> area_len"
  shows "visible_part area_len len \<le> visible_len area_len len (keep_on_screen area_len len x)"
  using assms min_on_screen_bounds [of len]
  by (auto simp: keep_on_screen_def visible_part_def visible_len_def Let_def min_def max_def split: if_splits)

lemma keep_on_screen_id:
  assumes "- max 0 (len - min_on_screen len) \<le> x" "x \<le> area_len - len + max 0 (len - min_on_screen len)"
  shows "keep_on_screen area_len len x = x"
  using assms by (simp add: keep_on_screen_def Let_def)

lemma keep_on_screen_inside:
  assumes "0 \<le> x" "x + len \<le> area_len"
  shows "keep_on_screen area_len len x = x"
  by (rule keep_on_screen_id) (use assms in auto)

lemma frac_roundtrip:
  "1 \<le> sz_w (rc_size area) \<Longrightarrow> 1 \<le> sz_h (rc_size area) \<Longrightarrow>
   scale_by_working_area area (logical_to_size_frac_in_working_area area p) = p"
  by (simp add: scale_by_working_area_def logical_to_size_frac_in_working_area_def point_add_def
      point_sub_def Let_def max_def)

lemma set_logical_pos_eq:
  assumes "1 \<le> sz_w (rc_size (fd_working_area d))" "1 \<le> sz_h (rc_size (fd_working_area d))"
  shows "fd_logical_pos (set_logical_pos p d) =
    point_add (rc_loc (fd_working_area d))
      \<lparr>pt_x = keep_on_screen (sz_w (rc_size (fd_working_area d))) (sz_w (fd_size d))
         (pt_x p - pt_x (rc_loc (fd_working_area d))),
       pt_y = keep_on_screen (sz_h (rc_size (fd_working_area d))) (sz_h (fd_size d))
         (pt_y p - pt_y (rc_loc (fd_working_area d)))\<rparr>"
  using assms
  by (simp add: set_logical_pos_def recompute_logical_pos_def Let_def frac_roundtrip point_sub_def
      point_add_def add.commute)

text \<open>Both axes of the on-screen guarantee, for any data whose cache is up to date.\<close>

definition on_screen :: "floating_data \<Rightarrow> bool" where
  "on_screen d \<longleftrightarrow>
     (let area = fd_working_area d; p = point_sub (fd_logical_pos d) (rc_loc area)
      in visible_part (sz_w (rc_size area)) (sz_w (fd_size d))
           \<le> visible_len (sz_w (rc_size area)) (sz_w (fd_size d)) (pt_x p) \<and>
         visible_part (sz_h (rc_size area)) (sz_h (fd_size d))
           \<le> visible_len (sz_h (rc_size area)) (sz_h (fd_size d)) (pt_y p))"

lemma data_inv_on_screen:
  assumes "data_inv d" "0 \<le> sz_w (rc_size (fd_working_area d))" "0 \<le> sz_h (rc_size (fd_working_area d))"
    "0 \<le> sz_w (fd_size d)" "0 \<le> sz_h (fd_size d)"
  shows "on_screen d"
proof -
  let ?a = "fd_working_area d"
  have pos: "fd_logical_pos d = fd_logical_pos (recompute_logical_pos d)"
    using assms(1) by (simp add: data_inv_def)
  show ?thesis
    using keep_on_screen_visible [OF assms(4,2)] keep_on_screen_visible [OF assms(5,3)]
    by (simp add: on_screen_def pos recompute_logical_pos_def Let_def point_sub_def point_add_def)
qed

end
