(* ===== verification/Floating_Space.thy ===== *)
theory Floating_Space
  imports Floating_Data
begin

text \<open>
  The floating layer of one workspace, \<^verbatim>\<open>FloatingSpace\<close> of \<^verbatim>\<open>src/layout/floating.rs\<close>: the tiles from
  top to bottom with their position data in a parallel vector, the active window, and the
  interactive resize.

  Which window is a child of which (a dialog of its main window) is decided by the clients: the
  parameter \<open>parent\<close> gives the parent of a window, as \<open>LayoutElement::is_child_of\<close> reads it from
  the toplevel. Asking a window for a size is kept as its pending sizing mode only.
\<close>

record 'w floating_space =
  fl_tiles :: "'w tile list"
  fl_data :: "floating_data list"
  fl_active_window_id :: "'w option"
  fl_interactive_resize :: "'w option"
  fl_working_area :: rectangle

type_synonym 'w parent_of = "'w \<Rightarrow> 'w option"

definition is_child_of :: "'w parent_of \<Rightarrow> 'w \<Rightarrow> 'w \<Rightarrow> bool" where
  "is_child_of parent win other = (parent win = Some other)"

definition floating_new :: "rectangle \<Rightarrow> 'w floating_space" where
  "floating_new working_area =
     \<lparr>fl_tiles = [], fl_data = [], fl_active_window_id = None, fl_interactive_resize = None,
      fl_working_area = working_area\<rparr>"

definition fl_update_config :: "rectangle \<Rightarrow> 'w floating_space \<Rightarrow> 'w floating_space" where
  "fl_update_config working_area s =
     s\<lparr>fl_data := map2 (\<lambda>tile d. fd_update_config working_area (fd_update tile d)) (fl_tiles s) (fl_data s),
       fl_working_area := working_area\<rparr>"

definition idx_of :: "'w \<Rightarrow> 'w floating_space \<Rightarrow> nat option" where
  "idx_of window s = position (\<lambda>tile. tl_window tile = window) (fl_tiles s)"

definition fl_contains :: "'w \<Rightarrow> 'w floating_space \<Rightarrow> bool" where
  "fl_contains window s = (idx_of window s \<noteq> None)"

definition fl_has_window :: "'w \<Rightarrow> 'w floating_space \<Rightarrow> bool" where
  "fl_has_window window s = list_ex (\<lambda>tile. tl_window tile = window) (fl_tiles s)"

definition fl_is_empty :: "'w floating_space \<Rightarrow> bool" where
  "fl_is_empty s = (fl_tiles s = [])"

definition fl_active_window :: "'w floating_space \<Rightarrow> 'w option" where
  "fl_active_window s =
     (case fl_active_window_id s of
        None \<Rightarrow> None
      | Some window \<Rightarrow> map_option tl_window (find (\<lambda>tile. tl_window tile = window) (fl_tiles s)))"

subsection \<open>Stacking\<close>

definition raise_window :: "nat \<Rightarrow> nat \<Rightarrow> 'w floating_space \<Rightarrow> 'w floating_space res" where
  "raise_window from_idx to_idx s =
     bind_res (assert_that ''to_idx <= from_idx'' (to_idx \<le> from_idx)) (\<lambda>_.
     bind_res (vec_remove from_idx (fl_tiles s)) (\<lambda>(tile, tiles).
     bind_res (vec_remove from_idx (fl_data s)) (\<lambda>(d, data).
     bind_res (vec_insert to_idx tile tiles) (\<lambda>tiles.
     bind_res (vec_insert to_idx d data) (\<lambda>data.
       Inr (s\<lparr>fl_tiles := tiles, fl_data := data\<rparr>))))))"

text \<open>
  The two loops of \<open>bring_up_descendants_of\<close>: the first walks the indices below \<open>idx\<close> back to front
  and collects descendants; the second raises them, front to back.
\<close>

fun descendants_loop ::
  "'w parent_of \<Rightarrow> 'w tile list \<Rightarrow> 'w \<Rightarrow> nat list \<Rightarrow> nat list \<Rightarrow> nat list" where
  "descendants_loop parent tiles win [] descendants = descendants"
| "descendants_loop parent tiles win (i # is) descendants =
     (let win_below = tl_window (tiles ! i)
      in if is_child_of parent win_below win \<or>
            list_ex (\<lambda>idx. is_child_of parent win_below (tl_window (tiles ! idx))) descendants
         then descendants_loop parent tiles win is (descendants @ [i])
         else descendants_loop parent tiles win is descendants)"

fun raise_loop :: "nat list \<Rightarrow> nat \<Rightarrow> 'w floating_space \<Rightarrow> 'w floating_space res" where
  "raise_loop [] idx s = Inr s"
| "raise_loop (descendant_idx # is) idx s =
     bind_res (raise_window descendant_idx idx s) (\<lambda>s. raise_loop is (idx + 1) s)"

definition bring_up_descendants_of ::
  "'w parent_of \<Rightarrow> nat \<Rightarrow> 'w floating_space \<Rightarrow> 'w floating_space res" where
  "bring_up_descendants_of parent idx s =
     bind_res (vec_index (fl_tiles s) idx) (\<lambda>tile.
       let descendants = descendants_loop parent (fl_tiles s) (tl_window tile)
             (rev [idx + 1..<length (fl_tiles s)]) []
       in raise_loop (rev descendants) idx s)"

subsection \<open>Adding\<close>

definition stored_or_default_tile_pos :: "'w tile \<Rightarrow> 'w floating_space \<Rightarrow> point option" where
  "stored_or_default_tile_pos tile s =
     (case tl_floating_pos tile of
        Some pos \<Rightarrow> Some (scale_by_working_area (fl_working_area s) pos)
      | None \<Rightarrow> map_option (\<lambda>pos.
          let rel = fp_relative_to pos;
              sz = tl_tile_size tile;
              area = fl_working_area s;
              x = fp_x pos; y = fp_y pos;
              x = (if rel = RelTopRight \<or> rel = RelBottomRight \<or> rel = RelRight
                   then sz_w (rc_size area) - sz_w sz - x else x);
              y = (if rel = RelBottomLeft \<or> rel = RelBottomRight \<or> rel = RelBottom
                   then sz_h (rc_size area) - sz_h sz - y else y);
              x = (if rel = RelTop \<or> rel = RelBottom
                   then x + (sz_w (rc_size area) / 2 - sz_w sz / 2) else x);
              y = (if rel = RelLeft \<or> rel = RelRight
                   then y + (sz_h (rc_size area) / 2 - sz_h sz / 2) else y)
          in point_add \<lparr>pt_x = x, pt_y = y\<rparr> (rc_loc area)) (tl_default_floating_position tile))"

text \<open>The place of a new tile: not below its parent.\<close>

definition above_parent :: "'w parent_of \<Rightarrow> 'w \<Rightarrow> nat \<Rightarrow> 'w tile list \<Rightarrow> nat" where
  "above_parent parent win idx tiles =
     (case position (\<lambda>tile_above. is_child_of parent win (tl_window tile_above)) (take idx tiles) of
        Some i \<Rightarrow> i | None \<Rightarrow> idx)"

definition fl_add_tile_at ::
  "'w parent_of \<Rightarrow> nat \<Rightarrow> 'w tile \<Rightarrow> bool \<Rightarrow> 'w floating_space \<Rightarrow> 'w floating_space res" where
  "fl_add_tile_at parent idx tile activate s =
     (let tile = tile\<lparr>tl_pending_sizing_mode := SizingNormal\<rparr>;
          active = (if activate \<or> fl_tiles s = [] then Some (tl_window tile) else fl_active_window_id s);
          idx = above_parent parent (tl_window tile) idx (fl_tiles s);
          pos = (case stored_or_default_tile_pos tile s of
                   Some pos \<Rightarrow> pos
                 | None \<Rightarrow> center_preferring_top_left_in_area (fl_working_area s) (tl_tile_size tile));
          d = fd_new (fl_working_area s) tile pos
      in bind_res (vec_insert idx d (fl_data s)) (\<lambda>data.
         bind_res (vec_insert idx tile (fl_tiles s)) (\<lambda>tiles.
           bring_up_descendants_of parent idx
             (s\<lparr>fl_tiles := tiles, fl_data := data, fl_active_window_id := active\<rparr>))))"

definition fl_add_tile ::
  "'w parent_of \<Rightarrow> 'w tile \<Rightarrow> bool \<Rightarrow> 'w floating_space \<Rightarrow> 'w floating_space res" where
  "fl_add_tile parent tile activate s = fl_add_tile_at parent 0 tile activate s"

definition fl_clamp_within_working_area :: "point \<Rightarrow> extent \<Rightarrow> 'w floating_space \<Rightarrow> point" where
  "fl_clamp_within_working_area pos sz s =
     rc_loc (clamp_preferring_top_left_in_area (fl_working_area s) \<lparr>rc_loc = pos, rc_size = sz\<rparr>)"

definition fl_logical_to_size_frac :: "point \<Rightarrow> 'w floating_space \<Rightarrow> point" where
  "fl_logical_to_size_frac logical_pos s =
     logical_to_size_frac_in_working_area (fl_working_area s) logical_pos"

definition fl_add_tile_above ::
  "'w parent_of \<Rightarrow> 'w \<Rightarrow> 'w tile \<Rightarrow> bool \<Rightarrow> 'w floating_space \<Rightarrow> 'w floating_space res" where
  "fl_add_tile_above parent above_id tile activate s =
     bind_res (unwrap (idx_of above_id s)) (\<lambda>idx.
     bind_res (vec_index (fl_data s) idx) (\<lambda>d.
       let tile_size = tl_tile_size tile;
           pos = point_add (fd_logical_pos d) (half_diff (fd_size d) tile_size);
           pos = fl_clamp_within_working_area pos tile_size s;
           tile = tile\<lparr>tl_floating_pos := Some (fl_logical_to_size_frac pos s)\<rparr>
       in fl_add_tile_at parent idx tile activate s))"

subsection \<open>Removing\<close>

definition fl_remove_tile_by_idx ::
  "nat \<Rightarrow> 'w floating_space \<Rightarrow> ('w removed_tile \<times> 'w floating_space) res" where
  "fl_remove_tile_by_idx idx s =
     bind_res (vec_remove idx (fl_tiles s)) (\<lambda>(tile, tiles).
     bind_res (vec_remove idx (fl_data s)) (\<lambda>(d, data).
     bind_res
       (if tiles = [] then Inr None
        else if Some (tl_window tile) = fl_active_window_id s
        then bind_res (vec_index tiles 0) (\<lambda>top. Inr (Some (tl_window top)))
        else Inr (fl_active_window_id s)) (\<lambda>active.
     let resize = (if fl_interactive_resize s = Some (tl_window tile) then None
                   else fl_interactive_resize s)
     in Inr (\<lparr>rt_tile = tile\<lparr>tl_floating_pos := Some (fd_pos d)\<rparr>,
              rt_width = WidthFixed (tl_expected_width tile),
              rt_is_full_width = False, rt_is_floating = True\<rparr>,
             s\<lparr>fl_tiles := tiles, fl_data := data, fl_active_window_id := active,
               fl_interactive_resize := resize\<rparr>))))"

definition fl_remove_tile ::
  "'w \<Rightarrow> 'w floating_space \<Rightarrow> ('w removed_tile \<times> 'w floating_space) res" where
  "fl_remove_tile window s =
     bind_res (unwrap (idx_of window s)) (\<lambda>idx. fl_remove_tile_by_idx idx s)"

definition fl_remove_active_tile ::
  "'w floating_space \<Rightarrow> ('w removed_tile option \<times> 'w floating_space) res" where
  "fl_remove_active_tile s =
     (case fl_active_window_id s of
        None \<Rightarrow> Inr (None, s)
      | Some window \<Rightarrow> bind_res (fl_remove_tile window s) (\<lambda>(removed, s). Inr (Some removed, s)))"

subsection \<open>Focus\<close>

definition fl_activate_window_without_raising ::
  "'w \<Rightarrow> 'w floating_space \<Rightarrow> 'w floating_space \<times> bool" where
  "fl_activate_window_without_raising window s =
     (if \<not> fl_contains window s then (s, False)
      else (s\<lparr>fl_active_window_id := Some window\<rparr>, True))"

definition fl_activate_window ::
  "'w parent_of \<Rightarrow> 'w \<Rightarrow> 'w floating_space \<Rightarrow> ('w floating_space \<times> bool) res" where
  "fl_activate_window parent window s =
     (case idx_of window s of
        None \<Rightarrow> Inr (s, False)
      | Some idx \<Rightarrow>
          bind_res (raise_window idx 0 s) (\<lambda>s.
          bind_res (bring_up_descendants_of parent 0 (s\<lparr>fl_active_window_id := Some window\<rparr>)) (\<lambda>s.
            Inr (s, True))))"

text \<open>
  \<open>Iterator::min_by\<close> returns the first of several least elements and \<open>max_by\<close> the last of several
  greatest; on finite values \<open>f64::total_cmp\<close> is the usual order (up to the sign of zero).
\<close>

fun min_by :: "('a \<Rightarrow> real) \<Rightarrow> 'a list \<Rightarrow> 'a option" where
  "min_by key [] = None"
| "min_by key (x # xs) = Some (fold (\<lambda>y best. if key y < key best then y else best) xs x)"

fun max_by :: "('a \<Rightarrow> real) \<Rightarrow> 'a list \<Rightarrow> 'a option" where
  "max_by key [] = None"
| "max_by key (x # xs) = Some (fold (\<lambda>y best. if key best \<le> key y then y else best) xs x)"

definition focus_directional ::
  "(point \<Rightarrow> point \<Rightarrow> real) \<Rightarrow> 'w parent_of \<Rightarrow> 'w floating_space \<Rightarrow> ('w floating_space \<times> bool) res"
where
  "focus_directional distance parent s =
     (case fl_active_window_id s of
        None \<Rightarrow> Inr (s, False)
      | Some active_id \<Rightarrow>
          bind_res (unwrap (idx_of active_id s)) (\<lambda>active_idx.
          bind_res (vec_index (fl_data s) active_idx) (\<lambda>active_data.
            let center = fd_center active_data;
                candidates = filter (\<lambda>(tile, _). tl_window tile \<noteq> active_id) (zip (fl_tiles s) (fl_data s));
                candidates = map (\<lambda>(tile, d). (tile, distance center (fd_center d))) candidates;
                candidates = filter (\<lambda>(_, dist). dist > 0) candidates
            in case min_by snd candidates of
                 Some (tile, _) \<Rightarrow>
                   bind_res (fl_activate_window parent (tl_window tile) s) (\<lambda>(s, _). Inr (s, True))
               | None \<Rightarrow> Inr (s, False))))"

definition fl_focus_left :: "'w parent_of \<Rightarrow> 'w floating_space \<Rightarrow> ('w floating_space \<times> bool) res" where
  "fl_focus_left = focus_directional (\<lambda>focus other. pt_x focus - pt_x other)"
definition fl_focus_right :: "'w parent_of \<Rightarrow> 'w floating_space \<Rightarrow> ('w floating_space \<times> bool) res" where
  "fl_focus_right = focus_directional (\<lambda>focus other. pt_x other - pt_x focus)"
definition fl_focus_up :: "'w parent_of \<Rightarrow> 'w floating_space \<Rightarrow> ('w floating_space \<times> bool) res" where
  "fl_focus_up = focus_directional (\<lambda>focus other. pt_y focus - pt_y other)"
definition fl_focus_down :: "'w parent_of \<Rightarrow> 'w floating_space \<Rightarrow> ('w floating_space \<times> bool) res" where
  "fl_focus_down = focus_directional (\<lambda>focus other. pt_y other - pt_y focus)"

text \<open>\<open>focus_leftmost\<close> and its siblings share their shape: pick a tile by position, activate it.\<close>

definition focus_extreme ::
  "(('w tile \<times> point) list \<Rightarrow> ('w tile \<times> point) option) \<Rightarrow> 'w parent_of \<Rightarrow> 'w floating_space \<Rightarrow>
   'w floating_space res" where
  "focus_extreme pick parent s =
     (case pick (zip (fl_tiles s) (map fd_logical_pos (fl_data s))) of
        Some (tile, _) \<Rightarrow> bind_res (fl_activate_window parent (tl_window tile) s) (\<lambda>(s, _). Inr s)
      | None \<Rightarrow> Inr s)"

definition fl_focus_leftmost :: "'w parent_of \<Rightarrow> 'w floating_space \<Rightarrow> 'w floating_space res" where
  "fl_focus_leftmost = focus_extreme (min_by (\<lambda>(_, pos). pt_x pos))"
definition fl_focus_rightmost :: "'w parent_of \<Rightarrow> 'w floating_space \<Rightarrow> 'w floating_space res" where
  "fl_focus_rightmost = focus_extreme (max_by (\<lambda>(_, pos). pt_x pos))"
definition fl_focus_topmost :: "'w parent_of \<Rightarrow> 'w floating_space \<Rightarrow> 'w floating_space res" where
  "fl_focus_topmost = focus_extreme (min_by (\<lambda>(_, pos). pt_y pos))"
definition fl_focus_bottommost :: "'w parent_of \<Rightarrow> 'w floating_space \<Rightarrow> 'w floating_space res" where
  "fl_focus_bottommost = focus_extreme (max_by (\<lambda>(_, pos). pt_y pos))"

definition fl_descendants_added ::
  "'w parent_of \<Rightarrow> 'w \<Rightarrow> 'w floating_space \<Rightarrow> ('w floating_space \<times> bool) res" where
  "fl_descendants_added parent window s =
     (case idx_of window s of
        None \<Rightarrow> Inr (s, False)
      | Some idx \<Rightarrow> bind_res (bring_up_descendants_of parent idx s) (\<lambda>s. Inr (s, True)))"

subsection \<open>Moving and resizing\<close>

definition fl_interactive_resize_begin ::
  "'w \<Rightarrow> 'w floating_space \<Rightarrow> ('w floating_space \<times> bool) res" where
  "fl_interactive_resize_begin window s =
     (if fl_interactive_resize s \<noteq> None then Inr (s, False)
      else bind_res (unwrap (find (\<lambda>tile. tl_window tile = window) (fl_tiles s))) (\<lambda>_.
             Inr (s\<lparr>fl_interactive_resize := Some window\<rparr>, True)))"

definition fl_interactive_resize_end :: "'w option \<Rightarrow> 'w floating_space \<Rightarrow> 'w floating_space" where
  "fl_interactive_resize_end window s =
     (case fl_interactive_resize s of
        None \<Rightarrow> s
      | Some resize_window \<Rightarrow>
          (case window of
             Some w \<Rightarrow> if w \<noteq> resize_window then s else s\<lparr>fl_interactive_resize := None\<rparr>
           | None \<Rightarrow> s\<lparr>fl_interactive_resize := None\<rparr>))"

definition fl_move_to :: "nat \<Rightarrow> point \<Rightarrow> 'w floating_space \<Rightarrow> 'w floating_space res" where
  "fl_move_to idx new_pos s =
     bind_res (vec_modify idx (set_logical_pos new_pos) (fl_data s)) (\<lambda>data.
       Inr (fl_interactive_resize_end None (s\<lparr>fl_data := data\<rparr>)))"

definition fl_move_by :: "point \<Rightarrow> 'w floating_space \<Rightarrow> 'w floating_space res" where
  "fl_move_by amount s =
     (case fl_active_window_id s of
        None \<Rightarrow> Inr s
      | Some active_id \<Rightarrow>
          bind_res (unwrap (idx_of active_id s)) (\<lambda>idx.
          bind_res (vec_index (fl_data s) idx) (\<lambda>d.
            fl_move_to idx (point_add (fd_logical_pos d) amount) s)))"

definition DIRECTIONAL_MOVE_PX :: real where "DIRECTIONAL_MOVE_PX = 50"

definition fl_move_left :: "'w floating_space \<Rightarrow> 'w floating_space res" where
  "fl_move_left = fl_move_by \<lparr>pt_x = - DIRECTIONAL_MOVE_PX, pt_y = 0\<rparr>"
definition fl_move_right :: "'w floating_space \<Rightarrow> 'w floating_space res" where
  "fl_move_right = fl_move_by \<lparr>pt_x = DIRECTIONAL_MOVE_PX, pt_y = 0\<rparr>"
definition fl_move_up :: "'w floating_space \<Rightarrow> 'w floating_space res" where
  "fl_move_up = fl_move_by \<lparr>pt_x = 0, pt_y = - DIRECTIONAL_MOVE_PX\<rparr>"
definition fl_move_down :: "'w floating_space \<Rightarrow> 'w floating_space res" where
  "fl_move_down = fl_move_by \<lparr>pt_x = 0, pt_y = DIRECTIONAL_MOVE_PX\<rparr>"

datatype position_change =
    PosSetFixed real | PosSetProportion real | PosAdjustFixed real | PosAdjustProportion real

text \<open>One axis of \<open>move_window\<close>.\<close>

definition change_position :: "position_change \<Rightarrow> real \<Rightarrow> real \<Rightarrow> real \<Rightarrow> real" where
  "change_position change loc available cur =
     (case change of
        PosSetFixed x \<Rightarrow> x + loc
      | PosSetProportion prop \<Rightarrow> available * clamp_real (prop / 100) 0 10000 + loc
      | PosAdjustFixed x \<Rightarrow> cur + x
      | PosAdjustProportion prop \<Rightarrow>
          let current_prop = (cur - loc) / max available 1
          in available * clamp_real (current_prop + prop / 100) 0 10000 + loc)"

definition change_point :: "position_change \<Rightarrow> position_change \<Rightarrow> rectangle \<Rightarrow> point \<Rightarrow> point" where
  "change_point x y area pos =
     \<lparr>pt_x = change_position x (pt_x (rc_loc area)) (sz_w (rc_size area)) (pt_x pos),
      pt_y = change_position y (pt_y (rc_loc area)) (sz_h (rc_size area)) (pt_y pos)\<rparr>"

definition or_active :: "'w option \<Rightarrow> 'w floating_space \<Rightarrow> 'w option" where
  "or_active window s = (case window of Some w \<Rightarrow> Some w | None \<Rightarrow> fl_active_window_id s)"

definition fl_move_window ::
  "'w option \<Rightarrow> position_change \<Rightarrow> position_change \<Rightarrow> 'w floating_space \<Rightarrow> 'w floating_space res" where
  "fl_move_window window x y s =
     (case or_active window s of
        None \<Rightarrow> Inr s
      | Some w \<Rightarrow>
          bind_res (unwrap (idx_of w s)) (\<lambda>idx.
          bind_res (vec_index (fl_data s) idx) (\<lambda>d.
            fl_move_to idx (change_point x y (fl_working_area s) (fd_logical_pos d)) s)))"

definition fl_center_window :: "'w option \<Rightarrow> 'w floating_space \<Rightarrow> 'w floating_space res" where
  "fl_center_window window s =
     (case or_active window s of
        None \<Rightarrow> Inr s
      | Some w \<Rightarrow>
          bind_res (unwrap (idx_of w s)) (\<lambda>idx.
          bind_res (vec_index (fl_data s) idx) (\<lambda>d.
            fl_move_to idx (center_preferring_top_left_in_area (fl_working_area s) (fd_size d)) s)))"

text \<open>
  A commit of the window with a new size. \<open>edges\<close> are the edges (left, top) of the resize the window
  was last told about, if it is being resized: the opposite edge stays in place.
\<close>

definition fl_update_window ::
  "'w \<Rightarrow> extent \<Rightarrow> real \<Rightarrow> (bool \<times> bool) option \<Rightarrow> 'w floating_space \<Rightarrow>
   ('w floating_space \<times> bool) res" where
  "fl_update_window window tile_size expected_width edges s =
     (case idx_of window s of
        None \<Rightarrow> Inr (s, False)
      | Some tile_idx \<Rightarrow>
          bind_res (vec_index (fl_tiles s) tile_idx) (\<lambda>tile.
          bind_res (vec_index (fl_data s) tile_idx) (\<lambda>d.
            let tile = tile\<lparr>tl_tile_size := tile_size, tl_expected_width := expected_width\<rparr>;
                prev_size = fd_size d;
                d = fd_update tile d;
                d = (case edges of
                       None \<Rightarrow> d
                     | Some (left_edge, top_edge) \<Rightarrow>
                         set_logical_pos (point_add (fd_logical_pos d)
                           \<lparr>pt_x = (if left_edge then sz_w prev_size - sz_w (fd_size d) else 0),
                            pt_y = (if top_edge then sz_h prev_size - sz_h (fd_size d) else 0)\<rparr>) d)
            in Inr (s\<lparr>fl_tiles := (fl_tiles s)[tile_idx := tile],
                       fl_data := (fl_data s)[tile_idx := d]\<rparr>, True))))"

end
