(* ===== verification/Floating_Inv.thy ===== *)
theory Floating_Inv
  imports Floating_Space
begin

text \<open>
  The invariant of the floating layer. The heart of it is the stacking order: no window lies below
  its parent. \<open>bring_up_descendants_of\<close> restores it after one window was moved or inserted; what it
  does to the two vectors is characterised first, by the recursive function \<open>descendants\<close>.
\<close>

definition fl_windows :: "'w floating_space \<Rightarrow> 'w list" where
  "fl_windows s = map tl_window (fl_tiles s)"

text \<open>Tiles and data as one list of pairs.\<close>

definition fl_pairs :: "'w floating_space \<Rightarrow> ('w tile \<times> floating_data) list" where
  "fl_pairs s = zip (fl_tiles s) (fl_data s)"

abbreviation pair_window :: "'w tile \<times> floating_data \<Rightarrow> 'w" where
  "pair_window p \<equiv> tl_window (fst p)"

definition children_above :: "'w parent_of \<Rightarrow> 'w list \<Rightarrow> bool" where
  "children_above parent = sorted_wrt (\<lambda>upper lower. \<not> is_child_of parent lower upper)"

definition floating_inv :: "'w parent_of \<Rightarrow> 'w floating_space \<Rightarrow> bool" where
  "floating_inv parent s \<longleftrightarrow>
     list_all2 (data_current (fl_working_area s)) (fl_tiles s) (fl_data s) \<and>
     list_all (\<lambda>tile. tl_pending_sizing_mode tile = SizingNormal) (fl_tiles s) \<and>
     distinct (fl_windows s) \<and> children_above parent (fl_windows s) \<and>
     (case fl_active_window_id s of None \<Rightarrow> fl_tiles s = [] | Some w \<Rightarrow> w \<in> set (fl_windows s)) \<and>
     (\<forall>w. fl_interactive_resize s = Some w \<longrightarrow> w \<in> set (fl_windows s))"

definition parents_acyclic :: "'w parent_of \<Rightarrow> bool" where
  "parents_acyclic parent = acyclic {(x, y). is_child_of parent x y}"

subsection \<open>Descendants\<close>

text \<open>The windows of a list, top to bottom, that are descendants of \<open>win\<close> as the loop finds them.\<close>

fun descendants :: "'w parent_of \<Rightarrow> 'w \<Rightarrow> 'w list \<Rightarrow> 'w list" where
  "descendants parent win [] = []"
| "descendants parent win (w # ws) =
     (let ds = descendants parent win ws
      in if is_child_of parent w win \<or> (\<exists>d \<in> set ds. is_child_of parent w d) then w # ds else ds)"

lemma descendants_subset: "set (descendants parent win ws) \<subseteq> set ws"
  by (induction ws) (auto simp: Let_def)

lemma descendants_tranclp:
  "d \<in> set (descendants parent win ws) \<Longrightarrow> (d, win) \<in> {(x, y). is_child_of parent x y}\<^sup>+"
proof (induction ws arbitrary: d)
  case (Cons w ws)
  then show ?case
    by (auto simp: Let_def split: if_splits intro: trancl_into_trancl2)
qed simp

text \<open>Nothing that stays behind is a child of the window or of a descendant further down.\<close>

lemma descendants_closed:
  assumes "distinct ws" "w \<in> set ws" "w \<notin> set (descendants parent win ws)"
  shows "\<not> is_child_of parent w win"
  using assms by (induction ws) (auto simp: Let_def split: if_splits)

lemma descendants_closed_below:
  assumes "distinct (us @ w # vs)" "w \<notin> set (descendants parent win (us @ w # vs))"
    "d \<in> set vs" "d \<in> set (descendants parent win (us @ w # vs))"
  shows "\<not> is_child_of parent w d"
  using assms
proof (induction us)
  case Nil
  then show ?case by (auto simp: Let_def split: if_splits)
next
  case (Cons u us)
  then show ?case using descendants_subset by (fastforce simp: Let_def split: if_splits)
qed

text \<open>The positions, counted from \<open>k\<close>, of the elements that satisfy \<open>P\<close>.\<close>

fun marked :: "('a \<Rightarrow> bool) \<Rightarrow> nat \<Rightarrow> 'a list \<Rightarrow> nat list" where
  "marked P k [] = []"
| "marked P k (x # xs) = (if P x then k # marked P (Suc k) xs else marked P (Suc k) xs)"

lemma marked_cong: "(\<And>x. x \<in> set xs \<Longrightarrow> P x = Q x) \<Longrightarrow> marked P k xs = marked Q k xs"
  by (induction xs arbitrary: k) auto

lemma descendants_loop_append:
  "descendants_loop parent tiles win (is @ js) ds =
   descendants_loop parent tiles win js (descendants_loop parent tiles win is ds)"
  by (induction "is" arbitrary: ds) (auto simp: Let_def)

lemma descendants_loop_marked:
  assumes "drop k (map tl_window tiles) = ws" "k + length ws = length tiles" "distinct ws"
  shows "descendants_loop parent tiles win (rev [k..<length tiles]) [] =
    rev (marked (\<lambda>w. w \<in> set (descendants parent win ws)) k ws)"
  using assms
proof (induction ws arbitrary: k)
  case Nil
  then show ?case by simp
next
  case (Cons w ws)
  have k: "k < length tiles" using Cons.prems(2) by simp
  have w: "tl_window (tiles ! k) = w" "drop (Suc k) (map tl_window tiles) = ws"
    using Cons.prems(1) k by (auto simp: Cons_nth_drop_Suc [symmetric])
  have IH: "descendants_loop parent tiles win (rev [Suc k..<length tiles]) [] =
      rev (marked (\<lambda>w. w \<in> set (descendants parent win ws)) (Suc k) ws)"
    by (rule Cons.IH) (use w Cons.prems in auto)
  have at: "tl_window (tiles ! (Suc k + i)) = ws ! i" if "i < length ws" for i
  proof -
    have "ws ! i = drop (Suc k) (map tl_window tiles) ! i" by (simp only: w(2))
    then show ?thesis using that Cons.prems(2) by simp
  qed
  have mem: "(\<exists>i \<in> set (marked P (Suc k) vs). Q i) \<longleftrightarrow> (\<exists>i<length vs. P (vs ! i) \<and> Q (Suc k + i))"
    for P Q and vs :: "'a list" and k
    by (induction vs arbitrary: k) (auto simp: less_Suc_eq_0_disj)
  have ex: "list_ex (\<lambda>i. is_child_of parent w (tl_window (tiles ! i)))
        (rev (marked (\<lambda>w. w \<in> set (descendants parent win ws)) (Suc k) ws)) \<longleftrightarrow>
      (\<exists>d \<in> set (descendants parent win ws). is_child_of parent w d)"
  proof -
    have "(\<exists>i \<in> set (marked (\<lambda>w. w \<in> set (descendants parent win ws)) (Suc k) ws).
        is_child_of parent w (tl_window (tiles ! i))) \<longleftrightarrow>
      (\<exists>i<length ws. ws ! i \<in> set (descendants parent win ws) \<and> is_child_of parent w (ws ! i))"
      unfolding mem using at Cons.prems(2) by auto
    also have "\<dots> \<longleftrightarrow> (\<exists>d \<in> set (descendants parent win ws). is_child_of parent w d)"
      using descendants_subset [of parent win ws] by (metis in_set_conv_nth subsetD)
    finally show ?thesis by (simp add: list_ex_iff)
  qed
  have up: "rev [k..<length tiles] = rev [Suc k..<length tiles] @ [k]" using k by (simp add: upt_conv_Cons)
  have notin: "w \<notin> set (descendants parent win ws)"
    using Cons.prems(3) descendants_subset [of parent win ws] by auto
  have cong: "marked (\<lambda>v. v = w \<or> v \<in> set (descendants parent win ws)) (Suc k) ws =
      marked (\<lambda>v. v \<in> set (descendants parent win ws)) (Suc k) ws"
    by (rule marked_cong) (use Cons.prems(3) in auto)
  show ?case
    unfolding up descendants_loop_append IH using w(1) ex notin cong by (simp add: Let_def)
qed

subsection \<open>Raising\<close>

text \<open>The two vectors move together, so the loop can be followed on the list of pairs.\<close>

lemma raise_window_pairs:
  assumes "length (fl_tiles s) = length (fl_data s)" "fl_pairs s = us @ vs @ p # ws"
  shows "\<exists>s'. raise_window (length us + length vs) (length us) s = Inr s' \<and>
    length (fl_tiles s') = length (fl_data s') \<and> fl_pairs s' = us @ p # vs @ ws \<and>
    fl_active_window_id s' = fl_active_window_id s \<and> fl_interactive_resize s' = fl_interactive_resize s \<and>
    fl_working_area s' = fl_working_area s"
proof -
  have tiles: "fl_tiles s = map fst us @ map fst vs @ fst p # map fst ws"
    using arg_cong [OF assms(2), of "map fst"] assms(1) by (simp add: fl_pairs_def)
  have data: "fl_data s = map snd us @ map snd vs @ snd p # map snd ws"
    using arg_cong [OF assms(2), of "map snd"] assms(1) by (simp add: fl_pairs_def)
  let ?s' = "s\<lparr>fl_tiles := map fst us @ fst p # map fst vs @ map fst ws,
               fl_data := map snd us @ snd p # map snd vs @ map snd ws\<rparr>"
  have "raise_window (length us + length vs) (length us) s = Inr ?s'"
    by (simp add: raise_window_def tiles data vec_remove_def vec_insert_def nth_append)
  moreover have "fl_pairs ?s' = us @ p # vs @ ws"
    by (simp add: fl_pairs_def zip_map_fst_snd flip: map_append list.map(2)) 
  ultimately show ?thesis by auto
qed

lemma raise_loop_pairs:
  assumes "length (fl_tiles s) = length (fl_data s)" "fl_pairs s = us @ x # skipped @ rest"
  shows "\<exists>s'. raise_loop (marked P (length us + 1 + length skipped) rest) (length us) s = Inr s' \<and>
    length (fl_tiles s') = length (fl_data s') \<and>
    fl_pairs s' = us @ filter P rest @ x # skipped @ filter (\<lambda>p. \<not> P p) rest \<and>
    fl_active_window_id s' = fl_active_window_id s \<and> fl_interactive_resize s' = fl_interactive_resize s \<and>
    fl_working_area s' = fl_working_area s"
  using assms
proof (induction rest arbitrary: s us skipped)
  case Nil
  then show ?case by simp
next
  case (Cons r rest)
  show ?case
  proof (cases "P r")
    case False
    then show ?thesis using Cons.IH [of s us "skipped @ [r]"] Cons.prems by simp
  next
    case True
    obtain s1 where s1: "raise_window (length us + length (x # skipped)) (length us) s = Inr s1"
      "length (fl_tiles s1) = length (fl_data s1)" "fl_pairs s1 = us @ r # (x # skipped) @ rest"
      "fl_active_window_id s1 = fl_active_window_id s" "fl_interactive_resize s1 = fl_interactive_resize s"
      "fl_working_area s1 = fl_working_area s"
      using raise_window_pairs [OF Cons.prems(1), of us "x # skipped" r rest] Cons.prems(2) by auto
    show ?thesis using Cons.IH [OF s1(2), of "us @ [r]" skipped] s1 True by simp
  qed
qed

text \<open>What \<open>bring_up_descendants_of\<close> does to the stack.\<close>

definition brought_up :: "'w parent_of \<Rightarrow> 'w \<Rightarrow> ('w tile \<times> floating_data) list \<Rightarrow>
   ('w tile \<times> floating_data) list" where
  "brought_up parent win below =
     filter (\<lambda>p. pair_window p \<in> set (descendants parent win (map pair_window below))) below"

definition left_behind :: "'w parent_of \<Rightarrow> 'w \<Rightarrow> ('w tile \<times> floating_data) list \<Rightarrow>
   ('w tile \<times> floating_data) list" where
  "left_behind parent win below =
     filter (\<lambda>p. pair_window p \<notin> set (descendants parent win (map pair_window below))) below"

lemma marked_map: "marked P k (map f xs) = marked (\<lambda>x. P (f x)) k xs"
  by (induction xs arbitrary: k) auto

lemma bring_up_pairs:
  assumes len: "length (fl_tiles s) = length (fl_data s)" and pairs: "fl_pairs s = us @ x # below"
    and dist: "distinct (map pair_window below)"
  shows "\<exists>s'. bring_up_descendants_of parent (length us) s = Inr s' \<and>
    length (fl_tiles s') = length (fl_data s') \<and>
    fl_pairs s' = us @ brought_up parent (pair_window x) below @ x # left_behind parent (pair_window x) below \<and>
    fl_active_window_id s' = fl_active_window_id s \<and> fl_interactive_resize s' = fl_interactive_resize s \<and>
    fl_working_area s' = fl_working_area s"
proof -
  have tiles: "fl_tiles s = map fst us @ fst x # map fst below"
    using arg_cong [OF pairs, of "map fst"] len by (simp add: fl_pairs_def)
  have "descendants_loop parent (fl_tiles s) (pair_window x) (rev [length us + 1..<length (fl_tiles s)]) [] =
      rev (marked (\<lambda>w. w \<in> set (descendants parent (pair_window x) (map pair_window below)))
        (length us + 1) (map pair_window below))"
    by (rule descendants_loop_marked) (use tiles dist in \<open>simp_all add: comp_def\<close>)
  then show ?thesis
    using raise_loop_pairs [OF len, of us x "[]" below
        "\<lambda>p. pair_window p \<in> set (descendants parent (pair_window x) (map pair_window below))"] pairs tiles
    by (simp add: bring_up_descendants_of_def vec_index_def nth_append marked_map brought_up_def left_behind_def)
qed

subsection \<open>The stacking order\<close>

lemma children_above_append:
  "children_above parent (xs @ ys) \<longleftrightarrow> children_above parent xs \<and> children_above parent ys \<and>
     (\<forall>x \<in> set xs. \<forall>y \<in> set ys. \<not> is_child_of parent y x)"
  by (simp add: children_above_def sorted_wrt_append)

lemma children_above_simps [simp]:
  "children_above parent []"
  "children_above parent (x # ys) \<longleftrightarrow> (\<forall>y \<in> set ys. \<not> is_child_of parent y x) \<and> children_above parent ys"
  by (simp_all add: children_above_def)

lemma children_above_filter: "children_above parent xs \<Longrightarrow> children_above parent (filter P xs)"
  by (simp add: children_above_def sorted_wrt_filter)

lemma not_child_of_brought_up:
  assumes "distinct ws" "children_above parent ws"
    "r \<in> set ws" "r \<notin> set (descendants parent win ws)" "d \<in> set (descendants parent win ws)"
  shows "\<not> is_child_of parent r d"
proof -
  obtain us vs where ws: "ws = us @ r # vs" using assms(3) by (auto simp: in_set_conv_decomp)
  have "d \<in> set ws" using assms(5) descendants_subset by fastforce
  then consider "d \<in> set us" | "d = r" | "d \<in> set vs" using ws by auto
  then show ?thesis
  proof cases
    case 1
    then show ?thesis using assms(2) by (auto simp: ws children_above_append)
  next
    case 2
    then show ?thesis using assms(4,5) by simp
  next
    case 3
    then show ?thesis using descendants_closed_below [of us r vs parent win d] assms ws by simp
  qed
qed

lemma not_child_of_descendant:
  assumes "parents_acyclic parent" "d \<in> set (descendants parent win ws)"
  shows "\<not> is_child_of parent win d"
proof
  assume "is_child_of parent win d"
  with descendants_tranclp [OF assms(2)] have "(win, win) \<in> {(x, y). is_child_of parent x y}\<^sup>+"
    by (auto intro: trancl_into_trancl2)
  then show False using assms(1) by (auto simp: parents_acyclic_def acyclic_def)
qed

lemma children_above_bring_up:
  assumes "parents_acyclic parent" "distinct below" "children_above parent (us @ below)"
    "\<forall>u \<in> set us. \<not> is_child_of parent win u"
  defines "D \<equiv> \<lambda>w. w \<in> set (descendants parent win below)"
  shows "children_above parent (us @ filter D below @ win # filter (\<lambda>w. \<not> D w) below)"
  using assms(3,4) not_child_of_descendant [OF assms(1)] not_child_of_brought_up [OF assms(2)]
    descendants_closed [OF assms(2)]
  by (auto simp: children_above_append children_above_filter D_def)

subsection \<open>The invariant on pairs\<close>

definition stack_inv :: "'w parent_of \<Rightarrow> rectangle \<Rightarrow> ('w tile \<times> floating_data) list \<Rightarrow> bool" where
  "stack_inv parent area ps \<longleftrightarrow>
     (\<forall>p \<in> set ps. data_current area (fst p) (snd p) \<and> tl_pending_sizing_mode (fst p) = SizingNormal) \<and>
     distinct (map pair_window ps) \<and> children_above parent (map pair_window ps)"

definition focus_inv :: "'w floating_space \<Rightarrow> bool" where
  "focus_inv s \<longleftrightarrow>
     (case fl_active_window_id s of None \<Rightarrow> fl_windows s = [] | Some w \<Rightarrow> w \<in> set (fl_windows s)) \<and>
     (\<forall>w. fl_interactive_resize s = Some w \<longrightarrow> w \<in> set (fl_windows s))"

lemma fl_tiles_pairs: "length (fl_tiles s) = length (fl_data s) \<Longrightarrow> fl_tiles s = map fst (fl_pairs s)"
  by (simp add: fl_pairs_def)

lemma fl_windows_pairs:
  assumes "length (fl_tiles s) = length (fl_data s)"
  shows "fl_windows s = map pair_window (fl_pairs s)"
  unfolding fl_windows_def fl_tiles_pairs [OF assms] by (simp only: map_map comp_def)

lemma floating_inv_iff:
  "floating_inv parent s \<longleftrightarrow> length (fl_tiles s) = length (fl_data s) \<and>
     stack_inv parent (fl_working_area s) (fl_pairs s) \<and> focus_inv s"
proof (cases "length (fl_tiles s) = length (fl_data s)")
  case True
  have normal: "list_all (\<lambda>tile. tl_pending_sizing_mode tile = SizingNormal) (fl_tiles s) \<longleftrightarrow>
      (\<forall>p \<in> set (fl_pairs s). tl_pending_sizing_mode (fst p) = SizingNormal)"
    unfolding fl_tiles_pairs [OF True] by (simp add: list_all_iff)
  have empty: "fl_tiles s = [] \<longleftrightarrow> fl_windows s = []" by (simp add: fl_windows_def)
  show ?thesis
    unfolding floating_inv_def stack_inv_def focus_inv_def normal empty
    using True fl_windows_pairs [OF True] by (auto simp: list_all2_iff fl_pairs_def)
next
  case False
  then show ?thesis by (auto simp: floating_inv_def list_all2_iff)
qed

lemma floating_new_inv: "floating_inv parent (floating_new area)"
  by (simp add: floating_inv_def floating_new_def fl_windows_def)

text \<open>A rearrangement of the same windows: what raising and bringing up amount to.\<close>

definition fl_rearranged :: "'w floating_space \<Rightarrow> 'w floating_space \<Rightarrow> bool" where
  "fl_rearranged s s' \<longleftrightarrow> mset (fl_pairs s') = mset (fl_pairs s) \<and>
     length (fl_tiles s') = length (fl_data s') \<and>
     fl_active_window_id s' = fl_active_window_id s \<and>
     fl_interactive_resize s' = fl_interactive_resize s \<and> fl_working_area s' = fl_working_area s"

lemma bring_up_ok:
  assumes "parents_acyclic parent" "length (fl_tiles s) = length (fl_data s)" "fl_pairs s = us @ x # below"
    "\<forall>p \<in> set (fl_pairs s). data_current (fl_working_area s) (fst p) (snd p) \<and>
       tl_pending_sizing_mode (fst p) = SizingNormal"
    "distinct (map pair_window (fl_pairs s))" "children_above parent (map pair_window (us @ below))"
    "\<forall>u \<in> set us. \<not> is_child_of parent (pair_window x) (pair_window u)"
  shows "returns (bring_up_descendants_of parent (length us) s)
    (\<lambda>s'. fl_rearranged s s' \<and> stack_inv parent (fl_working_area s') (fl_pairs s'))"
proof -
  let ?D = "\<lambda>p. pair_window p \<in> set (descendants parent (pair_window x) (map pair_window below))"
  have dist: "distinct (map pair_window below)" using assms(3,5) by simp
  obtain s' where s': "bring_up_descendants_of parent (length us) s = Inr s'"
    "length (fl_tiles s') = length (fl_data s')"
    "fl_pairs s' = us @ filter ?D below @ x # filter (\<lambda>p. \<not> ?D p) below"
    "fl_active_window_id s' = fl_active_window_id s" "fl_interactive_resize s' = fl_interactive_resize s"
    "fl_working_area s' = fl_working_area s"
    using bring_up_pairs [OF assms(2,3) dist] by (auto simp: brought_up_def left_behind_def)
  have perm: "mset (fl_pairs s') = mset (fl_pairs s)"
  proof -
    have "mset (filter ?D below) + mset (filter (\<lambda>p. \<not> ?D p) below) = mset below"
      unfolding mset_filter by (rule multiset_partition [symmetric])
    then show ?thesis unfolding s'(3) assms(3) by simp
  qed
  have "map pair_window (fl_pairs s') = map pair_window us @
      filter (\<lambda>w. w \<in> set (descendants parent (pair_window x) (map pair_window below))) (map pair_window below)
      @ pair_window x #
      filter (\<lambda>w. w \<notin> set (descendants parent (pair_window x) (map pair_window below))) (map pair_window below)"
    by (simp add: s'(3) filter_map comp_def)
  then have "children_above parent (map pair_window (fl_pairs s'))"
    using children_above_bring_up [OF assms(1) dist, of "map pair_window us" "pair_window x"] assms(6,7) by simp
  moreover have "distinct (map pair_window (fl_pairs s'))"
    using assms(5) mset_eq_imp_distinct_iff [of "map pair_window (fl_pairs s')" "map pair_window (fl_pairs s)"] perm
    by simp
  moreover have "set (fl_pairs s') = set (fl_pairs s)" using perm by (rule mset_eq_setD)
  ultimately have "stack_inv parent (fl_working_area s') (fl_pairs s')"
    using assms(4) s'(6) by (simp add: stack_inv_def)
  then show ?thesis using s' perm by (simp add: fl_rearranged_def)
qed

end
