(* ===== verification/Floating_Ops.thy ===== *)
theory Floating_Ops
  imports Floating_Inv
begin

text \<open>
  Every operation of the floating layer on a state that satisfies the invariant: it does not panic,
  keeps the invariant, and changes the windows and the focus as its specification says.
\<close>

lemma floating_invD:
  assumes "floating_inv parent s"
  shows "length (fl_tiles s) = length (fl_data s)" "stack_inv parent (fl_working_area s) (fl_pairs s)"
    "focus_inv s" "distinct (fl_windows s)" "fl_windows s = map pair_window (fl_pairs s)"
  using assms fl_windows_pairs [of s] by (auto simp: floating_inv_iff stack_inv_def)

lemma idx_of_None: "idx_of w s = None \<longleftrightarrow> w \<notin> set (fl_windows s)"
  by (auto simp: idx_of_def position_None fl_windows_def)

lemma fl_has_window_iff [simp]: "fl_has_window w s \<longleftrightarrow> w \<in> set (fl_windows s)"
  by (auto simp: fl_has_window_def list_ex_iff fl_windows_def)

lemma fl_contains_iff [simp]: "fl_contains w s \<longleftrightarrow> w \<in> set (fl_windows s)"
  by (simp add: fl_contains_def idx_of_None)

lemma idx_of_Some:
  assumes "idx_of w s = Some i" "length (fl_tiles s) = length (fl_data s)"
  shows "\<exists>us x below. fl_pairs s = us @ x # below \<and> length us = i \<and> pair_window x = w"
proof -
  have i: "i < length (fl_pairs s)" "tl_window (fl_tiles s ! i) = w"
    using position_Some [OF assms(1) [unfolded idx_of_def]] assms(2) by (simp_all add: fl_pairs_def)
  have "fl_pairs s = take i (fl_pairs s) @ fl_pairs s ! i # drop (Suc i) (fl_pairs s)"
    by (rule id_take_nth_drop [OF i(1)])
  moreover have "pair_window (fl_pairs s ! i) = w" using i by (simp add: fl_pairs_def)
  ultimately show ?thesis using i(1) by (metis length_take min.absorb2 order_less_imp_le min.commute)
qed

lemma idx_of_split:
  assumes "floating_inv parent s" "w \<in> set (fl_windows s)"
  obtains us x below where "fl_pairs s = us @ x # below" "idx_of w s = Some (length us)" "pair_window x = w"
  using assms idx_of_None [of w s] idx_of_Some [OF _ floating_invD(1) [OF assms(1)], of w]
  by (metis not_None_eq)

lemma pairs_tiles_data:
  assumes "length (fl_tiles s) = length (fl_data s)" "fl_pairs s = us @ x # below"
  shows "fl_tiles s = map fst us @ fst x # map fst below" "fl_data s = map snd us @ snd x # map snd below"
    "fl_tiles s ! length us = fst x" "fl_data s ! length us = snd x" "length us < length (fl_tiles s)"
    "length us < length (fl_data s)"
proof -
  show 1: "fl_tiles s = map fst us @ fst x # map fst below"
    using arg_cong [OF assms(2), of "map fst"] assms(1) by (simp add: fl_pairs_def)
  show 2: "fl_data s = map snd us @ snd x # map snd below"
    using arg_cong [OF assms(2), of "map snd"] assms(1) by (simp add: fl_pairs_def)
  show "fl_tiles s ! length us = fst x" "fl_data s ! length us = snd x"
    "length us < length (fl_tiles s)" "length us < length (fl_data s)"
    by (simp_all add: 1 2 nth_append)
qed

lemma rearranged_windows:
  assumes "fl_rearranged s s'" "length (fl_tiles s) = length (fl_data s)"
  shows "mset (fl_windows s') = mset (fl_windows s)" "set (fl_windows s') = set (fl_windows s)"
proof -
  show m: "mset (fl_windows s') = mset (fl_windows s)"
    using assms fl_windows_pairs [of s] fl_windows_pairs [of s'] by (simp add: fl_rearranged_def)
  show "set (fl_windows s') = set (fl_windows s)" using mset_eq_setD [OF m] .
qed

lemma rearranged_inv:
  assumes "fl_rearranged s s'" "stack_inv parent (fl_working_area s') (fl_pairs s')" "focus_inv s"
    "length (fl_tiles s) = length (fl_data s)"
  shows "floating_inv parent s'"
proof -
  have "focus_inv s'"
    using assms(1,3) rearranged_windows [OF assms(1,4)]
    by (auto simp: focus_inv_def fl_rearranged_def split: option.splits)
  then show ?thesis using assms(1,2) by (simp add: floating_inv_iff fl_rearranged_def)
qed

subsection \<open>Adding\<close>

lemma above_parent_le: "idx \<le> length tiles \<Longrightarrow> above_parent parent win idx tiles \<le> idx"
  using position_Some by (fastforce simp: above_parent_def split: option.splits)

lemma above_parent_ok:
  assumes "t \<in> set (take (above_parent parent win idx tiles) tiles)"
  shows "\<not> is_child_of parent win (tl_window t)"
proof (cases "position (\<lambda>t. is_child_of parent win (tl_window t)) (take idx tiles)")
  case None
  with assms show ?thesis by (auto simp: above_parent_def position_None)
next
  case (Some i)
  obtain j where "j < i" "j < length tiles" "tiles ! j = t"
    using assms Some by (auto simp: above_parent_def in_set_conv_nth)
  then show ?thesis using position_Some [OF Some] by (auto simp: nth_take)
qed

definition added_to_floating ::
  "'w tile \<Rightarrow> bool \<Rightarrow> 'w floating_space \<Rightarrow> 'w floating_space \<Rightarrow> bool" where
  "added_to_floating tile activate s s' \<longleftrightarrow>
     mset (fl_tiles s') = add_mset tile (mset (fl_tiles s)) \<and>
     fl_active_window_id s' =
       (if activate \<or> fl_windows s = [] then Some (tl_window tile) else fl_active_window_id s) \<and>
     fl_interactive_resize s' = fl_interactive_resize s \<and> fl_working_area s' = fl_working_area s"

lemma fl_add_tile_at_ok:
  assumes acyc: "parents_acyclic parent" and inv: "floating_inv parent s" and idx: "idx \<le> length (fl_tiles s)"
    and fresh: "tl_window tile \<notin> set (fl_windows s)"
  shows "returns (fl_add_tile_at parent idx tile activate s)
    (\<lambda>s'. floating_inv parent s' \<and>
       added_to_floating (tile\<lparr>tl_pending_sizing_mode := SizingNormal\<rparr>) activate s s')"
proof -
  let ?t = "tile\<lparr>tl_pending_sizing_mode := SizingNormal\<rparr>" and ?a = "fl_working_area s"
  define i where "i = above_parent parent (tl_window tile) idx (fl_tiles s)"
  define d where "d = fd_new ?a ?t (case stored_or_default_tile_pos ?t s of Some pos \<Rightarrow> pos
      | None \<Rightarrow> center_preferring_top_left_in_area ?a (tl_tile_size ?t))"
  define s1 where "s1 = s\<lparr>fl_tiles := take i (fl_tiles s) @ ?t # drop i (fl_tiles s),
      fl_data := take i (fl_data s) @ d # drop i (fl_data s),
      fl_active_window_id := (if activate \<or> fl_tiles s = [] then Some (tl_window tile) else fl_active_window_id s)\<rparr>"
  note len = floating_invD(1) [OF inv]
  have i: "i \<le> length (fl_tiles s)" "i \<le> length (fl_data s)"
    using order_trans [OF above_parent_le [OF idx, of parent "tl_window tile"] idx] len by (simp_all add: i_def)
  have len1: "length (fl_tiles s1) = length (fl_data s1)" using len i by (simp add: s1_def)
  have s1f: "fl_working_area s1 = ?a" by (simp add: s1_def)
  have dcur: "data_current ?a ?t d" unfolding d_def by (rule data_current_ops(1))
  define us where "us = take i (fl_pairs s)"
  define below where "below = drop i (fl_pairs s)"
  have pairs: "fl_pairs s1 = us @ (?t, d) # below"
    using len i by (simp add: s1_def us_def below_def fl_pairs_def take_zip drop_zip)
  have lus: "length us = i" using len i by (simp add: us_def fl_pairs_def)
  have split: "fl_pairs s = us @ below" by (simp add: us_def below_def)
  have wins: "fl_windows s = map pair_window (us @ below)" using floating_invD(5) [OF inv] by (simp only: split)
  have no_parent: "\<forall>u \<in> set us. \<not> is_child_of parent (pair_window (?t, d)) (pair_window u)"
  proof
    fix u assume "u \<in> set us"
    then have "fst u \<in> set (take i (fl_tiles s))"
      unfolding us_def fl_pairs_def take_zip by (metis set_zip_leftD prod.collapse)
    then show "\<not> is_child_of parent (pair_window (?t, d)) (pair_window u)"
      using above_parent_ok [of "fst u" parent "tl_window tile" idx "fl_tiles s"] by (simp add: i_def)
  qed
  have dist: "distinct (map pair_window (fl_pairs s1))"
    using fresh floating_invD(4) [OF inv] unfolding pairs wins by auto
  have elems: "set (fl_pairs s1) = insert (?t, d) (set (fl_pairs s))"
    unfolding pairs split by auto
  have above: "children_above parent (map pair_window (us @ below))"
    using floating_invD(2) [OF inv] by (simp add: stack_inv_def split)
  have current: "\<forall>p \<in> set (fl_pairs s1). data_current (fl_working_area s1) (fst p) (snd p) \<and>
      tl_pending_sizing_mode (fst p) = SizingNormal"
    using floating_invD(2) [OF inv] dcur unfolding elems s1f by (auto simp: stack_inv_def)
  have "returns (bring_up_descendants_of parent i s1)
      (\<lambda>s'. fl_rearranged s1 s' \<and> stack_inv parent (fl_working_area s') (fl_pairs s'))"
    by (rule bring_up_ok [OF acyc len1 pairs current dist above no_parent, unfolded lus])
  then obtain s' where s': "bring_up_descendants_of parent i s1 = Inr s'" "fl_rearranged s1 s'"
    "stack_inv parent (fl_working_area s') (fl_pairs s')" by (auto simp: returns_def)
  have run: "fl_add_tile_at parent idx tile activate s = Inr s'"
  proof -
    have w: "tl_window ?t = tl_window tile" by simp
    show ?thesis
      unfolding fl_add_tile_at_def Let_def w i_def [symmetric] d_def [symmetric] vec_Inr(1) [OF i(2)]
        vec_Inr(1) [OF i(1)] bind_res.simps s1_def [symmetric] by (rule s'(1))
  qed
  have "mset (map fst (fl_pairs s')) = mset (map fst (fl_pairs s1))"
    using s'(2) by (simp add: fl_rearranged_def)
  then have "mset (fl_tiles s') = mset (fl_tiles s1)"
    using s'(2) len1 fl_tiles_pairs [of s1] fl_tiles_pairs [of s'] by (simp add: fl_rearranged_def)
  also have "\<dots> = add_mset ?t (mset (fl_tiles s))"
    by (simp add: s1_def mset_insert_at del: mset_append)
  finally have "mset (fl_tiles s') = add_mset ?t (mset (fl_tiles s))" .
  moreover have set1: "set (fl_windows s1) = insert (tl_window tile) (set (fl_windows s))"
    using fl_windows_pairs [OF len1] by (simp add: elems wins split image_Un)
  then have "focus_inv s1"
    using floating_invD(3) [OF inv] set1 by (auto simp: focus_inv_def s1_def fl_windows_def split: option.splits)
  ultimately show ?thesis
    using run s' rearranged_inv [OF s'(2,3) _ len1]
    by (auto simp: added_to_floating_def fl_rearranged_def s1_def fl_windows_def)
qed

lemma fl_add_tile_above_ok:
  assumes "parents_acyclic parent" "floating_inv parent s" "w \<in> set (fl_windows s)"
    "tl_window tile \<notin> set (fl_windows s)"
  shows "returns (fl_add_tile_above parent w tile activate s)
    (\<lambda>s'. floating_inv parent s' \<and> (\<exists>pos. added_to_floating
       (tile\<lparr>tl_floating_pos := pos, tl_pending_sizing_mode := SizingNormal\<rparr>) activate s s'))"
proof -
  obtain us x below where at: "fl_pairs s = us @ x # below" "idx_of w s = Some (length us)"
    using idx_of_split [OF assms(2,3)] by metis
  note pos = pairs_tiles_data [OF floating_invD(1) [OF assms(2)] at(1)]
  show ?thesis
    unfolding fl_add_tile_above_def at(2) unwrap.simps vec_Inr(3) [OF pos(6)] bind_res.simps Let_def
    by (rule returns_mono [OF fl_add_tile_at_ok]) (use assms pos in auto)
qed

subsection \<open>Removing\<close>

definition removed_from_floating ::
  "'w \<Rightarrow> 'w floating_space \<Rightarrow> 'w removed_tile \<times> 'w floating_space \<Rightarrow> bool" where
  "removed_from_floating w s = (\<lambda>(r, s').
     (\<exists>tile pos. mset (fl_tiles s) = add_mset tile (mset (fl_tiles s')) \<and> tl_window tile = w \<and>
        rt_tile r = tile\<lparr>tl_floating_pos := Some pos\<rparr> \<and> rt_width r = WidthFixed (tl_expected_width tile)) \<and>
     rt_is_floating r \<and> \<not> rt_is_full_width r \<and> tl_window (rt_tile r) = w \<and>
     tl_pending_sizing_mode (rt_tile r) = SizingNormal \<and>
     (fl_active_window_id s \<noteq> Some w \<longrightarrow> fl_windows s' \<noteq> [] \<longrightarrow>
        fl_active_window_id s' = fl_active_window_id s) \<and>
     fl_working_area s' = fl_working_area s)"

lemma stack_inv_remove: "stack_inv parent area (us @ x # below) \<Longrightarrow> stack_inv parent area (us @ below)"
  by (auto simp: stack_inv_def children_above_append)

lemma fl_remove_tile_ok:
  assumes inv: "floating_inv parent s" and w: "w \<in> set (fl_windows s)"
  shows "returns (fl_remove_tile w s) (\<lambda>(r, s'). floating_inv parent s' \<and> removed_from_floating w s (r, s'))"
proof -
  obtain us x below where at: "fl_pairs s = us @ x # below" "idx_of w s = Some (length us)" "pair_window x = w"
    using idx_of_split [OF inv w] by metis
  note pos = pairs_tiles_data [OF floating_invD(1) [OF inv] at(1)]
  let ?tiles = "map fst us @ map fst below" and ?data = "map snd us @ map snd below"
  define active where "active = (if ?tiles = [] then None
      else if Some w = fl_active_window_id s then Some (tl_window (hd ?tiles)) else fl_active_window_id s)"
  define s' where "s' = s\<lparr>fl_tiles := ?tiles, fl_data := ?data, fl_active_window_id := active,
      fl_interactive_resize := (if fl_interactive_resize s = Some w then None else fl_interactive_resize s)\<rparr>"
  define r where "r = \<lparr>rt_tile = (fst x)\<lparr>tl_floating_pos := Some (fd_pos (snd x))\<rparr>,
      rt_width = WidthFixed (tl_expected_width (fst x)), rt_is_full_width = False, rt_is_floating = True\<rparr>"
  have rem: "vec_remove (length us) (fl_tiles s) = Inr (fst x, ?tiles)"
    "vec_remove (length us) (fl_data s) = Inr (snd x, ?data)"
    using pos by (simp_all add: vec_remove_def nth_append)
  have run: "fl_remove_tile w s = Inr (r, s')"
    unfolding fl_remove_tile_def at(2) fl_remove_tile_by_idx_def unwrap.simps bind_res.simps rem prod.case at(3)
    by (auto simp: Let_def active_def s'_def r_def hd_conv_nth vec_index_def at(3))
  have pairs': "fl_pairs s' = us @ below"
    by (simp add: fl_pairs_def s'_def zip_map_fst_snd flip: map_append)
  have len': "length (fl_tiles s') = length (fl_data s')" by (simp add: s'_def)
  have wins: "set (fl_windows s) = insert w (set (fl_windows s'))" "w \<notin> set (fl_windows s')"
    using floating_invD(4,5) [OF inv] fl_windows_pairs [OF len'] at by (auto simp: pairs')
  have t': "fl_tiles s' = ?tiles" by (simp add: s'_def)
  have hd_in: "?tiles \<noteq> [] \<Longrightarrow> tl_window (hd ?tiles) \<in> set (fl_windows s')"
    unfolding fl_windows_def t' set_map by (rule imageI [OF hd_in_set])
  have "focus_inv s'"
    using floating_invD(3) [OF inv] wins hd_in
    by (auto simp: focus_inv_def s'_def active_def fl_windows_def split: option.splits)
  then have "floating_inv parent s'"
    using stack_inv_remove [of parent _ us x below] floating_invD(2) [OF inv] at(1) len' pairs'
    by (simp add: floating_inv_iff s'_def)
  moreover have "tl_pending_sizing_mode (fst x) = SizingNormal"
    using floating_invD(2) [OF inv] at(1) by (auto simp: stack_inv_def)
  then have "removed_from_floating w s (r, s')"
    using at(3) pos(1) by (auto simp: removed_from_floating_def r_def s'_def active_def fl_windows_def)
  ultimately show ?thesis using run by simp
qed

lemma fl_remove_active_tile_ok:
  assumes "floating_inv parent s" "fl_windows s \<noteq> []"
  shows "\<exists>w. fl_active_window_id s = Some w \<and> w \<in> set (fl_windows s) \<and>
    returns (fl_remove_active_tile s)
      (\<lambda>(r, s'). \<exists>r'. r = Some r' \<and> floating_inv parent s' \<and> removed_from_floating w s (r', s'))"
proof -
  obtain w where w: "fl_active_window_id s = Some w" "w \<in> set (fl_windows s)"
    using floating_invD(3) [OF assms(1)] assms(2) by (auto simp: focus_inv_def split: option.splits)
  then show ?thesis using fl_remove_tile_ok [OF assms(1) w(2)]
    by (auto simp: fl_remove_active_tile_def elim!: returns_mono)
qed

subsection \<open>Focus\<close>

definition fl_keeps :: "'w parent_of \<Rightarrow> 'w floating_space \<Rightarrow> 'w floating_space \<Rightarrow> bool" where
  "fl_keeps parent s s' \<longleftrightarrow> floating_inv parent s' \<and> mset (fl_windows s') = mset (fl_windows s)"

lemma fl_keeps_refl: "floating_inv parent s \<Longrightarrow> fl_keeps parent s s"
  by (simp add: fl_keeps_def)

lemma fl_activate_window_ok:
  assumes acyc: "parents_acyclic parent" and inv: "floating_inv parent s" and w: "w \<in> set (fl_windows s)"
  shows "returns (fl_activate_window parent w s)
    (\<lambda>(s', b). b \<and> fl_keeps parent s s' \<and> fl_active_window_id s' = Some w)"
proof -
  obtain us x below where at: "fl_pairs s = us @ x # below" "idx_of w s = Some (length us)" "pair_window x = w"
    using idx_of_split [OF inv w] by metis
  obtain s1 where s1: "raise_window (length us) 0 s = Inr s1" "length (fl_tiles s1) = length (fl_data s1)"
    "fl_pairs s1 = x # us @ below" "fl_interactive_resize s1 = fl_interactive_resize s"
    "fl_working_area s1 = fl_working_area s"
    using raise_window_pairs [OF floating_invD(1) [OF inv], of "[]" us x below] at(1) by auto
  define s2 where "s2 = s1\<lparr>fl_active_window_id := Some w\<rparr>"
  have len2: "length (fl_tiles s2) = length (fl_data s2)" and pairs2: "fl_pairs s2 = [] @ x # us @ below"
    and area2: "fl_working_area s2 = fl_working_area s"
    using s1 by (simp_all add: s2_def fl_pairs_def)
  have stack: "stack_inv parent (fl_working_area s) (us @ x # below)" using floating_invD(2) [OF inv] at(1) by simp
  obtain s3 where s3: "bring_up_descendants_of parent 0 s2 = Inr s3" "fl_rearranged s2 s3"
    "stack_inv parent (fl_working_area s3) (fl_pairs s3)"
    using bring_up_ok [OF acyc len2 pairs2] stack stack_inv_remove [OF stack]
    by (auto simp: returns_def stack_inv_def pairs2 area2)
  have wins: "mset (fl_windows s2) = mset (fl_windows s)" "set (fl_windows s2) = set (fl_windows s)"
    using fl_windows_pairs [OF len2] floating_invD(5) [OF inv] by (auto simp: pairs2 at(1))
  have "focus_inv s2"
    using floating_invD(3) [OF inv] w wins s1(4) by (simp add: focus_inv_def s2_def)
  then have "floating_inv parent s3" by (rule rearranged_inv [OF s3(2,3) _ len2])
  moreover have "mset (fl_windows s3) = mset (fl_windows s)"
    using rearranged_windows(1) [OF s3(2) len2] wins(1) by simp
  moreover have "fl_active_window_id s3 = Some w" using s3(2) by (simp add: fl_rearranged_def s2_def)
  ultimately show ?thesis
    using s1(1) s3(1) at(2) by (simp add: fl_activate_window_def s2_def [symmetric] fl_keeps_def)
qed

lemma fl_activate_window_None:
  "w \<notin> set (fl_windows s) \<Longrightarrow> fl_activate_window parent w s = Inr (s, False)"
  using idx_of_None [of w s] by (simp add: fl_activate_window_def)

lemma fl_activate_without_raising_ok:
  assumes "floating_inv parent s" "w \<in> set (fl_windows s)"
  shows "fl_keeps parent s (fst (fl_activate_window_without_raising w s))"
    "snd (fl_activate_window_without_raising w s)"
    "fl_active_window_id (fst (fl_activate_window_without_raising w s)) = Some w"
  using assms by (auto simp: fl_activate_window_without_raising_def fl_keeps_def floating_inv_def fl_windows_def)

lemma fold_pick:
  assumes "\<And>y best. f y best = y \<or> f y best = best"
  shows "fold f xs x \<in> insert x (set xs)"
proof (induction xs arbitrary: x)
  case (Cons y ys)
  show ?case using assms [of y x] Cons.IH [of "f y x"] by auto
qed simp

lemma min_by_mem: "min_by key xs = Some y \<Longrightarrow> y \<in> set xs"
proof (cases xs)
  case (Cons z zs)
  moreover assume "min_by key xs = Some y"
  ultimately show ?thesis
    using fold_pick [of "\<lambda>y best. if key y < key best then y else best" zs z] by (auto split: if_splits)
qed simp

lemma max_by_mem: "max_by key xs = Some y \<Longrightarrow> y \<in> set xs"
proof (cases xs)
  case (Cons z zs)
  moreover assume "max_by key xs = Some y"
  ultimately show ?thesis
    using fold_pick [of "\<lambda>y best. if key best \<le> key y then y else best" zs z] by (auto split: if_splits)
qed simp

lemma min_by_None: "min_by key xs = None \<longleftrightarrow> xs = []"
  by (cases xs) simp_all

lemma fold_min_least:
  "\<forall>y \<in> insert x (set xs). (key (fold (\<lambda>y best. if key y < key best then y else best) xs x) :: real) \<le> key y"
proof (induction xs arbitrary: x)
  case (Cons z zs)
  show ?case using Cons.IH [of "if key z < key x then z else x"] by (auto split: if_splits)
qed simp

lemma min_by_least: "min_by key xs = Some y \<Longrightarrow> z \<in> set xs \<Longrightarrow> key y \<le> key z"
  by (cases xs) (use fold_min_least [of _ _ key] in auto)

lemma fl_active_idx:
  assumes "floating_inv parent s" "fl_active_window_id s = Some w"
  shows "\<exists>i d. idx_of w s = Some i \<and> vec_index (fl_data s) i = Inr d \<and> w \<in> set (fl_windows s)"
proof -
  have w: "w \<in> set (fl_windows s)" using floating_invD(3) [OF assms(1)] assms(2) by (simp add: focus_inv_def)
  then obtain us x below where at: "fl_pairs s = us @ x # below" "idx_of w s = Some (length us)"
    using idx_of_split [OF assms(1)] by metis
  then show ?thesis using w pairs_tiles_data(6) [OF floating_invD(1) [OF assms(1)] at(1)] by (auto simp: vec_index_def)
qed

text \<open>
  A directional focus either finds no window in that direction and does nothing, or activates one:
  the one whose centre is nearest along the axis.
\<close>

lemma focus_directional_ok:
  assumes "parents_acyclic parent" "floating_inv parent s"
  shows "returns (focus_directional distance parent s) (\<lambda>(s', b). fl_keeps parent s s' \<and> (\<not> b \<longrightarrow> s' = s))"
proof (cases "fl_active_window_id s")
  case None
  then show ?thesis using assms by (simp add: focus_directional_def fl_keeps_refl)
next
  case (Some a)
  obtain i d where i: "idx_of a s = Some i" "vec_index (fl_data s) i = Inr d"
    using fl_active_idx [OF assms(2) Some] by auto
  let ?c = "filter (\<lambda>(_, dist). dist > 0) (map (\<lambda>(tile, d'). (tile, distance (fd_center d) (fd_center d')))
      (filter (\<lambda>(tile, _). tl_window tile \<noteq> a) (zip (fl_tiles s) (fl_data s))))"
  show ?thesis
  proof (cases "min_by snd ?c")
    case None
    then show ?thesis using Some i assms(2) by (simp add: focus_directional_def Let_def fl_keeps_refl)
  next
    case (Some p)
    have "fst p \<in> set (fl_tiles s)" using min_by_mem [OF Some] by (auto dest: set_zip_leftD)
    then have "tl_window (fst p) \<in> set (fl_windows s)" by (simp add: fl_windows_def)
    then have "returns (fl_activate_window parent (tl_window (fst p)) s)
        (\<lambda>(s', b). b \<and> fl_keeps parent s s' \<and> fl_active_window_id s' = Some (tl_window (fst p)))"
      by (rule fl_activate_window_ok [OF assms])
    with Some \<open>fl_active_window_id s = Some a\<close> i show ?thesis
      by (auto simp: focus_directional_def Let_def case_prod_beta elim!: returns_mono)
  qed
qed

lemma focus_extreme_ok:
  assumes "parents_acyclic parent" "floating_inv parent s" "\<And>xs y. pick xs = Some y \<Longrightarrow> y \<in> set xs"
  shows "returns (focus_extreme pick parent s) (fl_keeps parent s)"
proof (cases "pick (zip (fl_tiles s) (map fd_logical_pos (fl_data s)))")
  case None
  then show ?thesis using assms(2) by (simp add: focus_extreme_def fl_keeps_refl)
next
  case (Some p)
  have "fst p \<in> set (fl_tiles s)" using assms(3) [OF Some] by (metis set_zip_leftD prod.collapse)
  then have "tl_window (fst p) \<in> set (fl_windows s)" by (simp add: fl_windows_def)
  from fl_activate_window_ok [OF assms(1,2) this] Some show ?thesis
    by (auto simp: focus_extreme_def case_prod_beta elim!: returns_mono)
qed

lemma fl_descendants_added_ok:
  assumes acyc: "parents_acyclic parent" and len: "length (fl_tiles s) = length (fl_data s)"
    and pairs: "fl_pairs s = us @ x # below" and stack: "stack_inv parent (fl_working_area s) (us @ below)"
    and no_parent: "\<forall>u \<in> set us. \<not> is_child_of parent (pair_window x) (pair_window u)"
    and x: "data_current (fl_working_area s) (fst x) (snd x)" "tl_pending_sizing_mode (fst x) = SizingNormal"
    and dist: "distinct (map pair_window (fl_pairs s))" and focus: "focus_inv s"
  shows "returns (fl_descendants_added parent (pair_window x) s) (\<lambda>(s', b). b \<and> fl_keeps parent s s')"
proof -
  have i: "idx_of (pair_window x) s = Some (length us)"
  proof (cases "idx_of (pair_window x) s")
    case None
    then show ?thesis using fl_windows_pairs [OF len] pairs by (simp add: idx_of_None)
  next
    case (Some i)
    obtain us' x' below' where at: "fl_pairs s = us' @ x' # below'" "length us' = i" "pair_window x' = pair_window x"
      using idx_of_Some [OF Some len] by auto
    have "map pair_window (fl_pairs s) ! i = map pair_window (fl_pairs s) ! length us"
      using at pairs by (metis length_map list.simps(9) map_append nth_append_length)
    then have "i = length us"
      using dist at pairs nth_eq_iff_index_eq [OF dist, of i "length us"]
      by (metis add_Suc_right length_Cons length_append length_map less_add_Suc1)
    then show ?thesis using Some by simp
  qed
  have current: "\<forall>p \<in> set (fl_pairs s). data_current (fl_working_area s) (fst p) (snd p) \<and>
      tl_pending_sizing_mode (fst p) = SizingNormal"
    using stack x unfolding pairs by (auto simp: stack_inv_def)
  have above: "children_above parent (map pair_window (us @ below))" using stack by (simp add: stack_inv_def)
  from bring_up_ok [OF acyc len pairs current dist above no_parent] show ?thesis
    unfolding fl_descendants_added_def i option.case returns_bind returns_Inr prod.case fl_keeps_def
    by (rule returns_mono) (auto intro: rearranged_inv [OF _ _ focus len] dest: rearranged_windows(1) [OF _ len])
qed

subsection \<open>Moving and resizing\<close>

lemma fl_resize_end_ok: "floating_inv parent s \<Longrightarrow> fl_keeps parent s (fl_interactive_resize_end window s)"
  by (auto simp: fl_interactive_resize_end_def fl_keeps_def floating_inv_def fl_windows_def split: option.splits)

lemma fl_resize_end_fields [simp]:
  "fl_tiles (fl_interactive_resize_end window s) = fl_tiles s"
  "fl_data (fl_interactive_resize_end window s) = fl_data s"
  "fl_active_window_id (fl_interactive_resize_end window s) = fl_active_window_id s"
  "fl_working_area (fl_interactive_resize_end window s) = fl_working_area s"
  by (auto simp: fl_interactive_resize_end_def split: option.splits)

lemma fl_resize_begin_ok:
  assumes "floating_inv parent s" "w \<in> set (fl_windows s)"
  shows "returns (fl_interactive_resize_begin w s) (\<lambda>(s', b). fl_keeps parent s s')"
proof -
  have "find (\<lambda>tile. tl_window tile = w) (fl_tiles s) \<noteq> None"
    using assms(2) by (auto simp: find_None_iff fl_windows_def)
  with assms show ?thesis
    by (auto simp: fl_interactive_resize_begin_def fl_keeps_def floating_inv_def fl_windows_def split: option.splits)
qed

lemma fl_move_to_ok:
  assumes "floating_inv parent s" "i < length (fl_data s)"
  shows "returns (fl_move_to i p s) (\<lambda>s'. fl_keeps parent s s' \<and>
    fl_data s' = (fl_data s)[i := set_logical_pos p (fl_data s ! i)] \<and> fl_tiles s' = fl_tiles s)"
proof -
  let ?s = "s\<lparr>fl_data := (fl_data s)[i := set_logical_pos p (fl_data s ! i)]\<rparr>"
  have "list_all2 (data_current (fl_working_area s)) (fl_tiles s) (fl_data s)"
    using assms(1) by (simp add: floating_inv_def)
  then have "list_all2 (data_current (fl_working_area s)) (fl_tiles s) (fl_data ?s)"
    using assms(2) by (auto simp: list_all2_conv_all_nth nth_list_update)
  then have "floating_inv parent ?s"
    using assms(1) by (simp add: floating_inv_def fl_windows_def split: option.splits)
  from fl_resize_end_ok [OF this, of None] assms(2) show ?thesis
    by (simp add: fl_move_to_def fl_keeps_def fl_windows_def)
qed

lemma fl_move_by_ok: "floating_inv parent s \<Longrightarrow> returns (fl_move_by amount s) (fl_keeps parent s)"
proof (cases "fl_active_window_id s")
  case (Some w)
  assume inv: "floating_inv parent s"
  then show ?thesis
    using fl_active_idx [OF inv Some] Some by (auto simp: fl_move_by_def intro!: returns_mono [OF fl_move_to_ok [OF inv]])
qed (simp add: fl_move_by_def fl_keeps_refl)

lemma or_active_idx:
  assumes "floating_inv parent s" "or_active window s = Some w" "\<And>v. window = Some v \<Longrightarrow> v \<in> set (fl_windows s)"
  shows "\<exists>i. idx_of w s = Some i \<and> i < length (fl_data s)"
proof -
  have "w \<in> set (fl_windows s)"
    using assms floating_invD(3) [OF assms(1)] by (auto simp: or_active_def focus_inv_def split: option.splits)
  then obtain us x below where at: "fl_pairs s = us @ x # below" "idx_of w s = Some (length us)"
    using idx_of_split [OF assms(1)] by metis
  then show ?thesis using pairs_tiles_data(6) [OF floating_invD(1) [OF assms(1)] at(1)] by simp
qed

lemma fl_move_window_ok:
  assumes "floating_inv parent s" "\<And>w. window = Some w \<Longrightarrow> w \<in> set (fl_windows s)"
  shows "returns (fl_move_window window x y s) (fl_keeps parent s)"
proof (cases "or_active window s")
  case (Some w)
  from or_active_idx [OF assms(1) Some assms(2)] Some show ?thesis
    by (auto simp: fl_move_window_def intro!: returns_mono [OF fl_move_to_ok [OF assms(1)]])
qed (use assms in \<open>simp add: fl_move_window_def fl_keeps_refl\<close>)

lemma fl_center_window_ok:
  assumes "floating_inv parent s" "\<And>w. window = Some w \<Longrightarrow> w \<in> set (fl_windows s)"
  shows "returns (fl_center_window window s) (fl_keeps parent s)"
proof (cases "or_active window s")
  case (Some w)
  from or_active_idx [OF assms(1) Some assms(2)] Some show ?thesis
    by (auto simp: fl_center_window_def intro!: returns_mono [OF fl_move_to_ok [OF assms(1)]])
qed (use assms in \<open>simp add: fl_center_window_def fl_keeps_refl\<close>)

lemma fl_update_config_ok: "floating_inv parent s \<Longrightarrow> fl_keeps parent s (fl_update_config area s)"
  by (auto simp: fl_keeps_def floating_inv_def fl_update_config_def fl_windows_def list_all2_conv_all_nth
      split: option.splits)

lemma fl_update_window_ok:
  assumes "floating_inv parent s"
  shows "returns (fl_update_window w tile_size width edges s) (\<lambda>(s', b). fl_keeps parent s s' \<and>
    b = (w \<in> set (fl_windows s)))"
proof (cases "w \<in> set (fl_windows s)")
  case False
  then have "idx_of w s = None" by (simp add: idx_of_None)
  then show ?thesis using assms False by (simp add: fl_update_window_def fl_keeps_refl)
next
  case True
  obtain us x below where at: "fl_pairs s = us @ x # below" "idx_of w s = Some (length us)" "pair_window x = w"
    using idx_of_split [OF assms True] by metis
  note pos = pairs_tiles_data [OF floating_invD(1) [OF assms] at(1)]
  let ?t = "(fst x)\<lparr>tl_tile_size := tile_size, tl_expected_width := width\<rparr>"
  define d where "d = (case edges of None \<Rightarrow> fd_update ?t (snd x)
      | Some (l, t) \<Rightarrow> set_logical_pos (point_add (fd_logical_pos (fd_update ?t (snd x)))
           \<lparr>pt_x = (if l then sz_w (fd_size (snd x)) - sz_w (fd_size (fd_update ?t (snd x))) else 0),
            pt_y = (if t then sz_h (fd_size (snd x)) - sz_h (fd_size (fd_update ?t (snd x))) else 0)\<rparr>)
          (fd_update ?t (snd x)))"
  let ?s = "s\<lparr>fl_tiles := (fl_tiles s)[length us := ?t], fl_data := (fl_data s)[length us := d]\<rparr>"
  have run: "fl_update_window w tile_size width edges s = Inr (?s, True)"
    unfolding fl_update_window_def at(2) option.case vec_Inr(3) [OF pos(5)] vec_Inr(3) [OF pos(6)] bind_res.simps
      pos(3,4) Let_def d_def ..
  have all: "list_all2 (data_current (fl_working_area s)) (fl_tiles s) (fl_data s)"
    using assms by (simp add: floating_inv_def)
  have "data_current (fl_working_area s) (fst x) (snd x)" using list_all2_nthD [OF all pos(5)] pos(3,4) by simp
  then have cur: "data_current (fl_working_area s) ?t d"
    by (auto simp: d_def split: option.splits prod.splits)
  have wins: "fl_windows ?s = fl_windows s"
    using pos(3,5) by (simp add: fl_windows_def map_update list_update_same_conv)
  have "list_all2 (data_current (fl_working_area s)) ((fl_tiles s)[length us := ?t]) ((fl_data s)[length us := d])"
    using all cur pos(5) by (intro list_all2_update_cong) auto
  moreover have "list_all (\<lambda>tile. tl_pending_sizing_mode tile = SizingNormal) ((fl_tiles s)[length us := ?t])"
    using assms pos(3,5) by (auto simp: floating_inv_def list_all_length nth_list_update)
  ultimately have "floating_inv parent ?s"
    using assms wins by (simp add: floating_inv_def split: option.splits)
  then show ?thesis using run wins True by (simp add: fl_keeps_def)
qed

end
