(* ===== verification/Floating_Properties.thy ===== *)
theory Floating_Properties
  imports Floating_Ops
begin

text \<open>
  The floating layer as a state machine over the windows it holds and the parent relation the
  clients declare, and the properties of the states it reaches.
\<close>

subsection \<open>What is raised together\<close>

text \<open>The descendants of a window through windows of the same layer.\<close>

definition family :: "'w parent_of \<Rightarrow> 'w set \<Rightarrow> ('w \<times> 'w) set" where
  "family parent W = {(x, y). x \<in> W \<and> y \<in> W \<and> is_child_of parent x y}\<^sup>+"

lemma descendants_family:
  assumes "d \<in> set (descendants parent win ws)" "win \<in> W" "set ws \<subseteq> W"
  shows "(d, win) \<in> family parent W"
  using assms
proof (induction ws arbitrary: d)
  case (Cons w ws)
  have sub: "e \<in> W" if "e \<in> set (descendants parent win ws)" for e
    using that descendants_subset Cons.prems(3) by fastforce
  show ?case
    using Cons sub unfolding family_def
    by (auto simp: Let_def split: if_splits intro: trancl_into_trancl2)
qed simp

lemma family_descendants:
  assumes "(d, win) \<in> family parent (insert win (set ws))" "distinct ws" "children_above parent ws"
    "parents_acyclic parent" "win \<notin> set ws"
  shows "d \<in> set (descendants parent win ws)"
  using assms(1) unfolding family_def
proof (induction rule: converse_trancl_induct)
  case (base y)
  then have "y \<noteq> win" using assms(4) by (auto simp: parents_acyclic_def acyclic_def)
  then show ?case using base descendants_closed [OF assms(2), of y parent win] by auto
next
  case (step y z)
  have "y \<noteq> win" using step not_child_of_descendant [OF assms(4) step(3)] by auto
  then show ?case using step not_child_of_brought_up [OF assms(2,3), of y win z] by auto
qed

lemma descendants_iff_family:
  assumes "distinct ws" "children_above parent ws" "parents_acyclic parent" "win \<notin> set ws"
  shows "d \<in> set (descendants parent win ws) \<longleftrightarrow> (d, win) \<in> family parent (insert win (set ws))"
  using family_descendants [OF _ assms] descendants_family [of d parent win ws "insert win (set ws)"] by auto

lemma fl_activate_window_order:
  assumes acyc: "parents_acyclic parent" and inv: "floating_inv parent s" and w: "w \<in> set (fl_windows s)"
  defines "D \<equiv> \<lambda>v. (v, w) \<in> family parent (set (fl_windows s))" and "rest \<equiv> removeAll w (fl_windows s)"
  shows "\<exists>s'. fl_activate_window parent w s = Inr (s', True) \<and>
    fl_windows s' = filter D rest @ w # filter (\<lambda>v. \<not> D v) rest"
proof -
  obtain us x below where at: "fl_pairs s = us @ x # below" "idx_of w s = Some (length us)" "pair_window x = w"
    using idx_of_split [OF inv w] by metis
  obtain s1 where s1: "raise_window (length us) 0 s = Inr s1" "length (fl_tiles s1) = length (fl_data s1)"
    "fl_pairs s1 = x # us @ below"
    using raise_window_pairs [OF floating_invD(1) [OF inv], of "[]" us x below] at(1) by auto
  define s2 where "s2 = s1\<lparr>fl_active_window_id := Some w\<rparr>"
  have len2: "length (fl_tiles s2) = length (fl_data s2)" and pairs2: "fl_pairs s2 = [] @ x # us @ below"
    using s1 by (simp_all add: s2_def fl_pairs_def)
  have stack: "stack_inv parent (fl_working_area s) (us @ x # below)" using floating_invD(2) [OF inv] at(1) by simp
  have ws: "fl_windows s = map pair_window us @ w # map pair_window below"
    using floating_invD(5) [OF inv] at by simp
  have rest: "rest = map pair_window (us @ below)" "w \<notin> set rest"
    using floating_invD(4) [OF inv] unfolding rest_def ws by (auto simp: removeAll_id)
  have set_eq: "set (fl_windows s) = insert w (set rest)" by (simp add: ws rest)
  have dist: "distinct rest" "children_above parent rest"
    using stack_inv_remove [OF stack] by (simp_all add: rest stack_inv_def)
  have D: "D v \<longleftrightarrow> v \<in> set (descendants parent w rest)" for v
    unfolding D_def set_eq using descendants_iff_family [OF dist acyc rest(2)] by simp
  obtain s3 where s3: "bring_up_descendants_of parent 0 s2 = Inr s3" "length (fl_tiles s3) = length (fl_data s3)"
    "fl_pairs s3 = brought_up parent w (us @ below) @ x # left_behind parent w (us @ below)"
    using bring_up_pairs [OF len2 pairs2, of parent] dist(1) at(3) rest(1) by (auto simp del: map_append)
  have "fl_windows s3 = filter D rest @ w # filter (\<lambda>v. \<not> D v) rest"
    unfolding fl_windows_pairs [OF s3(2)] s3(3) D
    by (simp add: brought_up_def left_behind_def rest(1) filter_map comp_def at(3))
  then show ?thesis using s1(1) s3(1) at(2) by (simp add: fl_activate_window_def s2_def [symmetric])
qed

subsection \<open>The state machine\<close>

datatype floating_dir =
    FlLeft | FlRight | FlUp | FlDown | FlLeftmost | FlRightmost | FlTopmost | FlBottommost

datatype 'w floating_op =
    FlAddTile "'w tile" bool
  | FlAddTileAbove 'w "'w tile" bool
  | FlRemoveTile 'w
  | FlRemoveActiveTile
  | FlActivateWindow 'w
  | FlActivateWithoutRaising 'w
  | FlFocus floating_dir
  | FlMoveBy point
  | FlMoveWindow "'w option" position_change position_change
  | FlCenterWindow "'w option"
  | FlResizeBegin 'w
  | FlResizeEnd "'w option"
  | FlUpdateWindow 'w extent real "(bool \<times> bool) option"
  | FlUpdateConfig rectangle
  | FlSetParent 'w "'w option"

fun floating_focus ::
  "floating_dir \<Rightarrow> 'w parent_of \<Rightarrow> 'w floating_space \<Rightarrow> 'w floating_space res" where
  "floating_focus FlLeft parent s = bind_res (fl_focus_left parent s) (\<lambda>(s, _). Inr s)"
| "floating_focus FlRight parent s = bind_res (fl_focus_right parent s) (\<lambda>(s, _). Inr s)"
| "floating_focus FlUp parent s = bind_res (fl_focus_up parent s) (\<lambda>(s, _). Inr s)"
| "floating_focus FlDown parent s = bind_res (fl_focus_down parent s) (\<lambda>(s, _). Inr s)"
| "floating_focus FlLeftmost parent s = fl_focus_leftmost parent s"
| "floating_focus FlRightmost parent s = fl_focus_rightmost parent s"
| "floating_focus FlTopmost parent s = fl_focus_topmost parent s"
| "floating_focus FlBottommost parent s = fl_focus_bottommost parent s"

text \<open>
  A parent change is what the \<open>parent_changed\<close> handler of \<^verbatim>\<open>src/handlers/xdg_shell.rs\<close> does: by then the
  toplevel has its new parent; if there is one, the layout is told that it has a new descendant.
\<close>

fun floating_step ::
  "'w floating_op \<Rightarrow> 'w parent_of \<Rightarrow> 'w floating_space \<Rightarrow> ('w parent_of \<times> 'w floating_space) res" where
  "floating_step (FlSetParent c p) parent s =
     (case p of
        None \<Rightarrow> Inr (parent(c := None), s)
      | Some q \<Rightarrow> bind_res (fl_descendants_added (parent(c := p)) q s) (\<lambda>(s, _). Inr (parent(c := p), s)))"
| "floating_step (FlAddTile tile act) parent s =
     bind_res (fl_add_tile parent tile act s) (\<lambda>s. Inr (parent, s))"
| "floating_step (FlAddTileAbove w tile act) parent s =
     bind_res (fl_add_tile_above parent w tile act s) (\<lambda>s. Inr (parent, s))"
| "floating_step (FlRemoveTile w) parent s = bind_res (fl_remove_tile w s) (\<lambda>(_, s). Inr (parent, s))"
| "floating_step FlRemoveActiveTile parent s = bind_res (fl_remove_active_tile s) (\<lambda>(_, s). Inr (parent, s))"
| "floating_step (FlActivateWindow w) parent s =
     bind_res (fl_activate_window parent w s) (\<lambda>(s, _). Inr (parent, s))"
| "floating_step (FlActivateWithoutRaising w) parent s =
     Inr (parent, fst (fl_activate_window_without_raising w s))"
| "floating_step (FlFocus dir) parent s = bind_res (floating_focus dir parent s) (\<lambda>s. Inr (parent, s))"
| "floating_step (FlMoveBy amount) parent s = bind_res (fl_move_by amount s) (\<lambda>s. Inr (parent, s))"
| "floating_step (FlMoveWindow w x y) parent s = bind_res (fl_move_window w x y s) (\<lambda>s. Inr (parent, s))"
| "floating_step (FlCenterWindow w) parent s = bind_res (fl_center_window w s) (\<lambda>s. Inr (parent, s))"
| "floating_step (FlResizeBegin w) parent s =
     bind_res (fl_interactive_resize_begin w s) (\<lambda>(s, _). Inr (parent, s))"
| "floating_step (FlResizeEnd w) parent s = Inr (parent, fl_interactive_resize_end w s)"
| "floating_step (FlUpdateWindow w sz width edges) parent s =
     bind_res (fl_update_window w sz width edges s) (\<lambda>(s, _). Inr (parent, s))"
| "floating_step (FlUpdateConfig area) parent s = Inr (parent, fl_update_config area s)"

text \<open>What the caller owes; a client may not declare a cycle of parents.\<close>

fun floating_op_ok :: "'w floating_op \<Rightarrow> 'w parent_of \<Rightarrow> 'w floating_space \<Rightarrow> bool" where
  "floating_op_ok (FlAddTile tile _) parent s \<longleftrightarrow> tl_window tile \<notin> set (fl_windows s)"
| "floating_op_ok (FlAddTileAbove w tile _) parent s \<longleftrightarrow>
     w \<in> set (fl_windows s) \<and> tl_window tile \<notin> set (fl_windows s)"
| "floating_op_ok (FlRemoveTile w) parent s \<longleftrightarrow> w \<in> set (fl_windows s)"
| "floating_op_ok (FlMoveWindow w _ _) parent s \<longleftrightarrow> (case w of None \<Rightarrow> True | Some w \<Rightarrow> w \<in> set (fl_windows s))"
| "floating_op_ok (FlCenterWindow w) parent s \<longleftrightarrow> (case w of None \<Rightarrow> True | Some w \<Rightarrow> w \<in> set (fl_windows s))"
| "floating_op_ok (FlResizeBegin w) parent s \<longleftrightarrow> w \<in> set (fl_windows s)"
| "floating_op_ok (FlSetParent c p) parent s \<longleftrightarrow> parents_acyclic (parent(c := p))"
| "floating_op_ok _ parent s \<longleftrightarrow> True"

inductive floating_reachable :: "rectangle \<Rightarrow> 'w parent_of \<Rightarrow> 'w floating_space \<Rightarrow> bool" for area where
  start: "parents_acyclic parent \<Longrightarrow> floating_reachable area parent (floating_new area)"
| step: "floating_reachable area parent s \<Longrightarrow> floating_op_ok op parent s \<Longrightarrow>
    floating_step op parent s = Inr (parent', s') \<Longrightarrow> floating_reachable area parent' s'"

lemma set_parent_ok:
  assumes inv: "floating_inv parent s" and acyc: "parents_acyclic (parent(c := p))"
  shows "returns (floating_step (FlSetParent c p) parent s)
    (\<lambda>(parent', s'). parents_acyclic parent' \<and> floating_inv parent' s' \<and> parent' = parent(c := p) \<and>
      mset (fl_windows s') = mset (fl_windows s))"
proof -
  have same: "floating_inv (parent(c := p)) s" if "\<forall>q. p = Some q \<longrightarrow> q \<notin> set (fl_windows s)"
  proof -
    have "children_above (parent(c := p)) (fl_windows s)"
      using inv that unfolding floating_inv_def children_above_def
      by (auto simp: is_child_of_def elim!: sorted_wrt_mono_rel [rotated])
    with inv show ?thesis by (simp add: floating_inv_def)
  qed
  show ?thesis
  proof (cases p)
    case None
    with same acyc show ?thesis by simp
  next
    case (Some q)
    show ?thesis
    proof (cases "q \<in> set (fl_windows s)")
      case False
      then have "idx_of q s = None" by (simp add: idx_of_None)
      with same acyc Some False show ?thesis by (auto simp: fl_descendants_added_def)
    next
      case True
      obtain us x below where at: "fl_pairs s = us @ x # below" "idx_of q s = Some (length us)" "pair_window x = q"
        using idx_of_split [OF inv True] by metis
      note stack = floating_invD(2) [OF inv, unfolded at(1)]
      have cq: "c \<noteq> q"
      proof
        assume "c = q"
        then have "(q, q) \<in> {(x, y). is_child_of (parent(c := p)) x y}" using Some by (simp add: is_child_of_def)
        then show False using acyc by (auto simp: parents_acyclic_def acyclic_def dest: r_into_trancl)
      qed
      have nq: "q \<notin> set (map pair_window (us @ below))" using stack at(3) by (auto simp: stack_inv_def)
      have "children_above parent (map pair_window (us @ below))"
        using stack_inv_remove [OF stack] by (simp add: stack_inv_def)
      then have above: "children_above (parent(c := p)) (map pair_window (us @ below))"
        using nq unfolding children_above_def Some
        by (elim sorted_wrt_mono_rel [rotated]) (auto simp: is_child_of_def)
      have stack': "stack_inv (parent(c := p)) (fl_working_area s) (us @ below)"
        using stack_inv_remove [OF stack] above by (simp add: stack_inv_def)
      have no_parent: "\<forall>u \<in> set us. \<not> is_child_of (parent(c := p)) (pair_window x) (pair_window u)"
        using stack at(3) cq by (auto simp: stack_inv_def children_above_append is_child_of_def)
      have "returns (fl_descendants_added (parent(c := p)) (pair_window x) s)
          (\<lambda>(s', b). b \<and> fl_keeps (parent(c := p)) s s')"
        by (rule fl_descendants_added_ok [OF acyc floating_invD(1) [OF inv] at(1) stack' no_parent])
          (use stack floating_invD(3) [OF inv] at(1) in \<open>auto simp: stack_inv_def\<close>)
      with Some at(3) acyc show ?thesis
        by (auto simp: fl_keeps_def elim!: returns_mono)
    qed
  qed
qed

lemmas fl_focus_defs = fl_focus_left_def fl_focus_right_def fl_focus_up_def fl_focus_down_def
  fl_focus_leftmost_def fl_focus_rightmost_def fl_focus_topmost_def fl_focus_bottommost_def

lemma floating_focus_ok:
  assumes "parents_acyclic parent" "floating_inv parent s"
  shows "returns (floating_focus dir parent s) (fl_keeps parent s)"
proof -
  have dir: "returns (bind_res (focus_directional distance parent s) (\<lambda>(s, _). Inr s)) (fl_keeps parent s)" for distance
    using focus_directional_ok [OF assms, of distance] by (auto elim!: returns_mono)
  show ?thesis
    using dir focus_extreme_ok [OF assms min_by_mem] focus_extreme_ok [OF assms max_by_mem]
    by (cases dir) (simp_all add: fl_focus_defs)
qed

lemma floating_step_ok:
  assumes acyc: "parents_acyclic parent" and inv: "floating_inv parent s" and ok: "floating_op_ok op parent s"
  shows "returns (floating_step op parent s) (\<lambda>(parent', s'). parents_acyclic parent' \<and> floating_inv parent' s')"
proof -
  have keep: "returns (bind_res r (\<lambda>s'. Inr (parent, s'))) (\<lambda>(parent', s'). parents_acyclic parent' \<and> floating_inv parent' s')"
    if "returns r (fl_keeps parent s)" for r
    using that acyc by (auto simp: fl_keeps_def elim!: returns_mono)
  have add: "returns (bind_res r (\<lambda>s'. Inr (parent, s'))) (\<lambda>(parent', s'). parents_acyclic parent' \<and> floating_inv parent' s')"
    if "returns r (\<lambda>s'. floating_inv parent s' \<and> Q s')" for r Q
    using that acyc by (auto elim!: returns_mono)
  have flag: "returns (bind_res r (\<lambda>(s', _). Inr (parent, s'))) (\<lambda>(parent', s'). parents_acyclic parent' \<and> floating_inv parent' s')"
    if "returns r (\<lambda>(s', b). fl_keeps parent s s' \<and> Q s' b)" for Q and r :: "('a floating_space \<times> bool) res"
    using that acyc by (auto simp: fl_keeps_def elim!: returns_mono)
  show ?thesis
  proof (cases op)
    case (FlSetParent c p)
    have "parents_acyclic (parent(c := p))" using ok by (simp add: FlSetParent)
    from set_parent_ok [OF inv this] show ?thesis unfolding FlSetParent by (rule returns_mono) (unfold split_def, blast)
  next
    case (FlAddTile tile act)
    with ok show ?thesis
      using add [OF fl_add_tile_at_ok [OF acyc inv, of 0 tile act]] by (simp add: fl_add_tile_def)
  next
    case (FlAddTileAbove w tile act)
    with ok show ?thesis using add [OF fl_add_tile_above_ok [OF acyc inv, of w tile act]] by simp
  next
    case (FlRemoveTile w)
    with ok acyc fl_remove_tile_ok [OF inv, of w] show ?thesis by (auto elim!: returns_mono)
  next
    case FlRemoveActiveTile
    show ?thesis
    proof (cases "fl_windows s = []")
      case True
      then have "fl_active_window_id s = None"
        using floating_invD(3) [OF inv] by (auto simp: focus_inv_def split: option.splits)
      with FlRemoveActiveTile acyc inv show ?thesis by (simp add: fl_remove_active_tile_def)
    next
      case False
      with FlRemoveActiveTile acyc fl_remove_active_tile_ok [OF inv] show ?thesis by (auto elim!: returns_mono)
    qed
  next
    case (FlActivateWindow w)
    show ?thesis
    proof (cases "w \<in> set (fl_windows s)")
      case True
      with FlActivateWindow acyc fl_activate_window_ok [OF acyc inv True] show ?thesis
        by (auto simp: fl_keeps_def elim!: returns_mono)
    next
      case False
      with FlActivateWindow acyc inv show ?thesis by (simp add: fl_activate_window_None)
    qed
  next
    case (FlActivateWithoutRaising w)
    then show ?thesis
      using fl_activate_without_raising_ok(1) [OF inv, of w] acyc inv
      by (cases "w \<in> set (fl_windows s)") (auto simp: fl_keeps_def fl_activate_window_without_raising_def)
  next
    case (FlFocus dir)
    with keep [OF floating_focus_ok [OF acyc inv]] show ?thesis by simp
  next
    case (FlMoveBy amount)
    with keep [OF fl_move_by_ok [OF inv]] show ?thesis by simp
  next
    case (FlMoveWindow w x y)
    with ok keep [OF fl_move_window_ok [OF inv, of w x y]] show ?thesis by (auto split: option.splits)
  next
    case (FlCenterWindow w)
    with ok keep [OF fl_center_window_ok [OF inv, of w]] show ?thesis by (auto split: option.splits)
  next
    case (FlResizeBegin w)
    with ok fl_resize_begin_ok [OF inv, of w] acyc show ?thesis by (auto simp: fl_keeps_def elim!: returns_mono)
  next
    case (FlResizeEnd w)
    with fl_resize_end_ok [OF inv, of w] acyc show ?thesis by (simp add: fl_keeps_def)
  next
    case (FlUpdateWindow w sz width edges)
    with flag [OF fl_update_window_ok [OF inv, of w sz width edges]] show ?thesis by simp
  next
    case (FlUpdateConfig area)
    with fl_update_config_ok [OF inv, of area] acyc show ?thesis by (simp add: fl_keeps_def)
  qed
qed

lemma floating_reachable_inv:
  "floating_reachable area parent s \<Longrightarrow> parents_acyclic parent \<and> floating_inv parent s"
proof (induction rule: floating_reachable.induct)
  case (start parent)
  then show ?case by (simp add: floating_new_inv)
next
  case (step parent s op parent' s')
  then show ?case using floating_step_ok [of parent s op] by simp
qed

subsection \<open>Properties\<close>

lemma no_parents_acyclic [simp]: "parents_acyclic (\<lambda>_. None)"
  by (simp add: parents_acyclic_def is_child_of_def acyclic_def)

text \<open>
  C8. In every state the floating layer reaches, children are stacked above their parents, the
  active window exists, and the cached positions are up to date; and no further operation with
  arguments that exist panics or breaks this, a parent change by a client included.
\<close>

theorem floating_never_panics:
  assumes "floating_reachable area parent s"
  shows "floating_inv parent s \<and> (floating_op_ok op parent s \<longrightarrow>
    (\<exists>parent' s'. floating_step op parent s = Inr (parent', s') \<and> floating_inv parent' s'))"
  using floating_reachable_inv [OF assms] floating_step_ok [of parent s op] by (auto simp: returns_def)

definition example_area :: rectangle where
  "example_area = \<lparr>rc_loc = \<lparr>pt_x = 0, pt_y = 30\<rparr>, rc_size = \<lparr>sz_w = 1000, sz_h = 800\<rparr>\<rparr>"

definition floating_tile :: "nat \<Rightarrow> nat tile" where
  "floating_tile w = \<lparr>tl_window = w, tl_default_column_display = None,
     tl_pending_sizing_mode = SizingNormal, tl_restore_to_floating = False,
     tl_floating_pos = None, tl_default_floating_position = None,
     tl_tile_size = \<lparr>sz_w = 200, sz_h = 100\<rparr>, tl_expected_width = 200\<rparr>"

text \<open>Window 2 is a dialog of window 1; window 3 is unrelated and on top.\<close>

definition example_parent :: "nat parent_of" where
  "example_parent = (\<lambda>w. if w = 2 then Some 1 else None)"

definition example_pos :: "nat \<Rightarrow> point" where
  "example_pos w = \<lparr>pt_x = real w * 100, pt_y = 30\<rparr>"

definition example_floating :: "nat floating_space" where
  "example_floating = \<lparr>fl_tiles = map floating_tile [3, 2, 1],
     fl_data = map (\<lambda>w. fd_new example_area (floating_tile w) (example_pos w)) [3, 2, 1],
     fl_active_window_id = Some 3, fl_interactive_resize = None, fl_working_area = example_area\<rparr>"

lemma example_family:
  "{(x, y). x \<in> {3, 2, 1} \<and> y \<in> {3, 2, 1} \<and> is_child_of example_parent x y} = {(2, 1)}"
  "{(x, y). is_child_of example_parent x y} = {(2, 1)}"
  by (auto simp: example_parent_def is_child_of_def split: if_splits)

lemma example_trancl: "{(2, 1)}\<^sup>+ = {(2, 1 :: nat)}"
  by (rule trancl_id) (auto simp: trans_def)

lemma example_acyclic: "parents_acyclic example_parent"
  unfolding parents_acyclic_def example_family(2) by (simp add: acyclic_def example_trancl [simplified])

lemma example_floating_windows: "fl_windows example_floating = [3, 2, 1]"
  by (simp add: fl_windows_def example_floating_def floating_tile_def)

lemma example_floating_inv: "floating_inv example_parent example_floating"
  unfolding floating_inv_def example_floating_windows
  by (simp add: example_floating_def floating_tile_def example_parent_def is_child_of_def)

theorem floating_never_panics_witness:
  "floating_inv (\<lambda>_. None) (floating_new example_area :: nat floating_space) \<and>
   (\<exists>parent' s'. floating_step (FlAddTile (floating_tile 1) True) (\<lambda>_. None) (floating_new example_area) =
      Inr (parent', s') \<and> floating_inv parent' s')"
  using floating_never_panics [OF floating_reachable.start [OF no_parents_acyclic],
      of example_area "FlAddTile (floating_tile 1) True"]
  by (auto simp: fl_windows_def floating_new_def)

text \<open>
  C20. Activating a floating window puts it and exactly its transitive descendants (its dialogs,
  their dialogs) on top of the stack, the window below its descendants, and changes no other order.
\<close>

theorem activate_raises_family:
  assumes "parents_acyclic parent" "floating_inv parent s" "w \<in> set (fl_windows s)"
  defines "D \<equiv> \<lambda>v. (v, w) \<in> family parent (set (fl_windows s))" and "rest \<equiv> removeAll w (fl_windows s)"
  shows "\<exists>s'. fl_activate_window parent w s = Inr (s', True) \<and> fl_active_window_id s' = Some w \<and>
    fl_windows s' = filter D rest @ w # filter (\<lambda>v. \<not> D v) rest"
  using fl_activate_window_order [OF assms(1-3)] fl_activate_window_ok [OF assms(1-3)]
  by (auto simp: D_def rest_def)

theorem activate_raises_family_witness:
  "\<exists>s'. fl_activate_window example_parent 1 example_floating = Inr (s', True) \<and>
    fl_active_window_id s' = Some 1 \<and> fl_windows s' = [2, 1, 3]"
proof -
  have fam: "family example_parent (set (fl_windows example_floating)) = {(2, 1)}"
    unfolding example_floating_windows family_def list.set example_family(1) by (rule example_trancl)
  show ?thesis
    using activate_raises_family [OF example_acyclic example_floating_inv, of 1]
    unfolding fam by (simp add: example_floating_windows)
qed

text \<open>
  C23. No floating window can leave the screen: whatever was done, as long as tiles and working area have
  sizes that are not negative, on each axis at least a quarter of the window (but between 10 and 75
  pixels) overlaps the working area, or all of the window when it is smaller than that, or all of the
  area when that is smaller.
\<close>

theorem floating_stays_on_screen:
  assumes "floating_reachable area parent s"
    "0 \<le> sz_w (rc_size (fl_working_area s))" "0 \<le> sz_h (rc_size (fl_working_area s))"
    "\<forall>tile \<in> set (fl_tiles s). 0 \<le> sz_w (tl_tile_size tile) \<and> 0 \<le> sz_h (tl_tile_size tile)"
  shows "\<forall>d \<in> set (fl_data s). on_screen d"
proof
  fix d assume d: "d \<in> set (fl_data s)"
  note all = floating_reachable_inv [OF assms(1), THEN conjunct2, unfolded floating_inv_def, THEN conjunct1]
  obtain i where i: "i < length (fl_data s)" "d = fl_data s ! i" using d by (auto simp: in_set_conv_nth)
  then have cur: "data_current (fl_working_area s) (fl_tiles s ! i) d" and t: "fl_tiles s ! i \<in> set (fl_tiles s)"
    using all by (auto simp: list_all2_conv_all_nth)
  show "on_screen d"
    by (rule data_inv_on_screen) (use cur t assms in \<open>auto simp: data_current_def\<close>)
qed

theorem floating_stays_on_screen_witness:
  "\<exists>s :: nat floating_space. floating_reachable example_area (\<lambda>_. None) s \<and> length (fl_data s) = 1 \<and> (\<forall>d \<in> set (fl_data s). on_screen d)"
proof -
  let ?s = "\<lparr>fl_tiles = [floating_tile 1], fl_data = [fd_new example_area (floating_tile 1)
      (center_preferring_top_left_in_area example_area (tl_tile_size (floating_tile 1)))],
      fl_active_window_id = Some 1, fl_interactive_resize = None, fl_working_area = example_area\<rparr>"
  have t: "(floating_tile 1)\<lparr>tl_pending_sizing_mode := SizingNormal\<rparr> = floating_tile 1" by (simp add: floating_tile_def)
  have "fl_add_tile (\<lambda>_. None) (floating_tile 1) True (floating_new example_area) = Inr ?s"
    unfolding fl_add_tile_def fl_add_tile_at_def Let_def t
    by (simp add: floating_new_def above_parent_def stored_or_default_tile_pos_def bring_up_descendants_of_def
        vec_simps floating_tile_def)
  then have "floating_reachable example_area (\<lambda>_. None) ?s"
    using floating_reachable.step [OF floating_reachable.start [OF no_parents_acyclic],
        of "FlAddTile (floating_tile 1) True" example_area "\<lambda>_. None" ?s] by (simp add: floating_new_def fl_windows_def)
  from floating_stays_on_screen [OF this] this show ?thesis
    by (intro exI [of _ ?s]) (simp add: example_area_def floating_tile_def)
qed

text \<open>
  C37. Focusing left moves the focus exactly when some window's centre lies to the left of the active
  one's, and then to a window whose centre is the nearest to the left.
\<close>

theorem focus_left_nearest:
  assumes "parents_acyclic parent" "floating_inv parent s" "fl_active_window_id s = Some a" "idx_of a s = Some i"
  defines "cx \<equiv> \<lambda>j. pt_x (fd_center (fl_data s ! j))"
  shows "\<exists>s' b. fl_focus_left parent s = Inr (s', b) \<and> b = (\<exists>j < length (fl_tiles s). cx j < cx i) \<and>
    (if b then \<exists>k < length (fl_tiles s). fl_active_window_id s' = Some (tl_window (fl_tiles s ! k)) \<and> cx k < cx i \<and>
            (\<forall>j < length (fl_tiles s). cx j < cx i \<longrightarrow> cx j \<le> cx k)
     else s' = s)"
proof -
  note len = floating_invD(1) [OF assms(2)]
  have i: "i < length (fl_tiles s)" "tl_window (fl_tiles s ! i) = a"
    using position_Some [OF assms(4) [unfolded idx_of_def]] by auto
  define c where "c = filter (\<lambda>(_, dist). dist > 0) (map (\<lambda>(tile, d'). (tile, cx i - pt_x (fd_center d')))
      (filter (\<lambda>(tile, _). tl_window tile \<noteq> a) (zip (fl_tiles s) (fl_data s))))"
  have other: "tl_window (fl_tiles s ! j) \<noteq> a" if "j < length (fl_tiles s)" "cx j < cx i" for j
  proof
    assume "tl_window (fl_tiles s ! j) = a"
    then have "j = i" using nth_eq_iff_index_eq [OF floating_invD(4) [OF assms(2)], of j i] that(1) i
      by (simp add: fl_windows_def)
    then show False using that(2) by simp
  qed
  have mem: "p \<in> set c \<longleftrightarrow> (\<exists>j < length (fl_tiles s). cx j < cx i \<and> p = (fl_tiles s ! j, cx i - cx j))" for p
    using other len by (auto simp: c_def set_zip cx_def image_def)
  have run: "fl_focus_left parent s = (case min_by snd c of
      Some (tile, _) \<Rightarrow> bind_res (fl_activate_window parent (tl_window tile) s) (\<lambda>(s, _). Inr (s, True))
    | None \<Rightarrow> Inr (s, False))"
    unfolding fl_focus_left_def focus_directional_def assms(3) option.case assms(4) unwrap.simps bind_res.simps
      vec_Inr(3) [OF i(1) [unfolded len]] Let_def c_def cx_def ..
  show ?thesis
  proof (cases "min_by snd c")
    case None
    then have "\<not> (\<exists>j < length (fl_tiles s). cx j < cx i)" using mem by (auto simp: min_by_None)
    with None run show ?thesis by auto
  next
    case (Some p)
    obtain k where k: "k < length (fl_tiles s)" "cx k < cx i" "p = (fl_tiles s ! k, cx i - cx k)"
      using min_by_mem [OF Some] mem by auto
    have least: "cx j \<le> cx k" if "j < length (fl_tiles s)" "cx j < cx i" for j
      using min_by_least [OF Some, of "(fl_tiles s ! j, cx i - cx j)"] mem that k(3) by auto
    have "tl_window (fl_tiles s ! k) \<in> set (fl_windows s)" using k(1) by (simp add: fl_windows_def)
    then obtain s' where "fl_activate_window parent (tl_window (fl_tiles s ! k)) s = Inr (s', True)"
      "fl_active_window_id s' = Some (tl_window (fl_tiles s ! k))"
      using fl_activate_window_ok [OF assms(1,2)] by (fastforce simp: returns_def)
    with run Some k least show ?thesis by auto
  qed
qed

theorem focus_left_nearest_witness:
  "\<exists>s'. fl_focus_left example_parent example_floating = Inr (s', True) \<and> fl_active_window_id s' = Some 2"
proof -
  have i: "idx_of 3 example_floating = Some 0" by (simp add: idx_of_def example_floating_def floating_tile_def)
  have act: "fl_active_window_id example_floating = Some 3" by (simp add: example_floating_def)
  have lp: "fd_logical_pos (fd_new example_area (floating_tile w) (example_pos w)) = example_pos w" if "w \<le> 8" for w
  proof -
    have "real w \<le> 8" using that by linarith
    then show ?thesis unfolding fd_new_def Let_def
      by (subst set_logical_pos_eq) (simp_all add: example_area_def example_pos_def floating_tile_def
          keep_on_screen_inside point_add_def)
  qed
  have data: "fl_data example_floating ! j = fd_new example_area (floating_tile (3 - j)) (example_pos (3 - j))"
    if "j < 3" for j
  proof -
    consider "j = 0" | "j = 1" | "j = 2" using \<open>j < 3\<close> by linarith
    then show ?thesis by cases (simp_all add: example_floating_def)
  qed
  have cx: "pt_x (fd_center (fl_data example_floating ! j)) = real (3 - j) * 100 + 100" if "j < 3" for j
    using lp [of "3 - j"] by (simp add: data [OF that] fd_center_def point_add_def example_pos_def floating_tile_def)
  have len: "length (fl_tiles example_floating) = 3" by (simp add: example_floating_def)
  have ex: "\<exists>j<3. pt_x (fd_center (fl_data example_floating ! j)) < pt_x (fd_center (fl_data example_floating ! 0))"
    by (rule exI [of _ 1]) (simp add: cx)
  obtain s' k where s': "fl_focus_left example_parent example_floating = Inr (s', True)" "k < 3"
    "fl_active_window_id s' = Some (tl_window (fl_tiles example_floating ! k))"
    "pt_x (fd_center (fl_data example_floating ! k)) < pt_x (fd_center (fl_data example_floating ! 0))"
    "\<forall>j<3. pt_x (fd_center (fl_data example_floating ! j)) < pt_x (fd_center (fl_data example_floating ! 0)) \<longrightarrow>
       pt_x (fd_center (fl_data example_floating ! j)) \<le> pt_x (fd_center (fl_data example_floating ! k))"
    using focus_left_nearest [OF example_acyclic example_floating_inv act i, unfolded len] ex by auto
  have k: "real (3 - k) < 3" "real 2 \<le> real (3 - k)"
    using s'(2,4) s'(5) [rule_format, of 1] by (simp_all add: cx)
  then have "k = 1" using s'(2) by simp
  then show ?thesis using s'(1,3) by (simp add: example_floating_def floating_tile_def)
qed

end
