(* ===== verification/Output_Name.thy ===== *)
theory Output_Name
  imports Niri_Prelude "HOL-Library.Char_ord" "HOL-Library.List_Lexorder" "HOL-Library.Option_ord"
begin

text \<open>
  Output names, \<^verbatim>\<open>OutputName\<close> of \<^verbatim>\<open>niri-config/src/output.rs\<close>: how an output is named in the configuration
  and how a name found there is matched against a connected output. Strings are sequences of bytes
  (UTF-8); slicing one outside a character boundary fails, as \<^verbatim>\<open>str::get\<close> does.
\<close>

record output_name =
  on_connector :: string
  on_make :: "string option"
  on_model :: "string option"
  on_serial :: "string option"

subsection \<open>Strings\<close>

definition ascii_lower :: "char \<Rightarrow> char" where
  "ascii_lower c =
     (if 65 \<le> (of_char c :: nat) \<and> (of_char c :: nat) \<le> 90 then char_of (of_char c + 32 :: nat) else c)"

definition eq_ignore_ascii_case :: "string \<Rightarrow> string \<Rightarrow> bool" where
  "eq_ignore_ascii_case s t = (map ascii_lower s = map ascii_lower t)"

definition is_char_boundary :: "string \<Rightarrow> nat \<Rightarrow> bool" where
  "is_char_boundary s i =
     (if i = 0 \<or> i = length s then True
      else i < length s \<and> ((of_char (s ! i) :: nat) < 128 \<or> 192 \<le> (of_char (s ! i) :: nat)))"

definition str_get_to :: "string \<Rightarrow> nat \<Rightarrow> string option" where
  "str_get_to s n = (if is_char_boundary s n then Some (take n s) else None)"

definition starts_with_space :: "string \<Rightarrow> bool" where
  "starts_with_space s = (case s of c # _ \<Rightarrow> c = CHR '' '' | [] \<Rightarrow> False)"

subsection \<open>Names\<close>

definition or_unknown :: "string option \<Rightarrow> string" where
  "or_unknown s = (case s of Some s \<Rightarrow> s | None \<Rightarrow> ''Unknown'')"

definition missing_mms :: "output_name \<Rightarrow> bool" where
  "missing_mms n = (on_make n = None \<and> on_model n = None \<and> on_serial n = None)"

definition from_ipc_output :: "string \<Rightarrow> string \<Rightarrow> string \<Rightarrow> string option \<Rightarrow> output_name" where
  "from_ipc_output name make_name model serial =
     \<lparr>on_connector = name, on_make = (if make_name \<noteq> ''Unknown'' then Some make_name else None),
      on_model = (if model \<noteq> ''Unknown'' then Some model else None), on_serial = serial\<rparr>"

definition format_description :: "output_name \<Rightarrow> string" where
  "format_description n = or_unknown (on_make n) @ '' - '' @ or_unknown (on_model n) @ '' - '' @ on_connector n"

definition format_make_model_serial :: "output_name \<Rightarrow> string" where
  "format_make_model_serial n =
     or_unknown (on_make n) @ '' '' @ or_unknown (on_model n) @ '' '' @ or_unknown (on_serial n)"

definition format_make_model_serial_or_connector :: "output_name \<Rightarrow> string" where
  "format_make_model_serial_or_connector n =
     (if missing_mms n then on_connector n else format_make_model_serial n)"

definition matches :: "output_name \<Rightarrow> string \<Rightarrow> bool" where
  "matches n target =
     (if eq_ignore_ascii_case target (on_connector n) then True
      else if missing_mms n then False
      else let make_name = or_unknown (on_make n);
               model = or_unknown (on_model n);
               serial = or_unknown (on_serial n)
           in case str_get_to target (length make_name) of
                None \<Rightarrow> False
              | Some target_make \<Rightarrow>
                  let rest = drop (length make_name) target
                  in if \<not> eq_ignore_ascii_case target_make make_name then False
                     else if \<not> starts_with_space rest then False
                     else let rest = drop 1 rest
                          in case str_get_to rest (length model) of
                               None \<Rightarrow> False
                             | Some target_model \<Rightarrow>
                                 let rest = drop (length model) rest
                                 in if \<not> eq_ignore_ascii_case target_model model then False
                                    else if \<not> starts_with_space rest then False
                                    else eq_ignore_ascii_case (drop 1 rest) serial)"

text \<open>\<open>compare\<close>: outputs that have a make, model or serial come first.\<close>

datatype ordering = OrdLess | OrdEqual | OrdGreater

definition cmp :: "'a :: linorder \<Rightarrow> 'a \<Rightarrow> ordering" where
  "cmp a b = (if a < b then OrdLess else if a = b then OrdEqual else OrdGreater)"

definition then_with :: "ordering \<Rightarrow> ordering \<Rightarrow> ordering" where
  "then_with a b = (if a = OrdEqual then b else a)"

definition compare :: "output_name \<Rightarrow> output_name \<Rightarrow> ordering" where
  "compare a b =
     (case (missing_mms a, missing_mms b) of
        (True, True) \<Rightarrow> cmp (on_connector a) (on_connector b)
      | (True, False) \<Rightarrow> OrdGreater
      | (False, True) \<Rightarrow> OrdLess
      | (False, False) \<Rightarrow> then_with (cmp (on_make a) (on_make b))
          (then_with (cmp (on_model a) (on_model b))
          (then_with (cmp (on_serial a) (on_serial b)) (cmp (on_connector a) (on_connector b)))))"

text \<open>\<open>Outputs::find\<close>: the first section of the configuration whose name matches.\<close>

definition outputs_find :: "output_name \<Rightarrow> string list \<Rightarrow> string option" where
  "outputs_find n names = find (matches n) names"

subsection \<open>Lemmas\<close>

lemma eq_ignore_refl [simp]: "eq_ignore_ascii_case s s"
  by (simp add: eq_ignore_ascii_case_def)

lemma eq_ignore_length: "eq_ignore_ascii_case s t \<Longrightarrow> length s = length t"
  unfolding eq_ignore_ascii_case_def by (metis length_map)

lemma ascii_lower_space: "ascii_lower c = CHR '' '' \<longleftrightarrow> c = CHR '' ''"
proof -
  have "char_of n \<noteq> CHR '' ''" if "97 \<le> n" "n \<le> 122" for n :: nat
  proof
    assume "char_of n = CHR '' ''"
    then have "of_char (char_of n :: char) = (32 :: nat)" by simp
    with that show False by simp
  qed
  then show ?thesis by (auto simp: ascii_lower_def)
qed

lemma eq_ignore_append:
  "eq_ignore_ascii_case t (a @ b) \<longleftrightarrow>
   length a \<le> length t \<and> eq_ignore_ascii_case (take (length a) t) a \<and> eq_ignore_ascii_case (drop (length a) t) b"
proof
  assume eq: "eq_ignore_ascii_case t (a @ b)"
  then have "length t = length a + length b" using eq_ignore_length by fastforce
  with eq show "length a \<le> length t \<and> eq_ignore_ascii_case (take (length a) t) a \<and>
      eq_ignore_ascii_case (drop (length a) t) b"
    unfolding eq_ignore_ascii_case_def by (simp add: take_map [symmetric] drop_map [symmetric])
next
  assume "length a \<le> length t \<and> eq_ignore_ascii_case (take (length a) t) a \<and>
      eq_ignore_ascii_case (drop (length a) t) b"
  then show "eq_ignore_ascii_case t (a @ b)"
    unfolding eq_ignore_ascii_case_def map_append by (metis append_take_drop_id map_append)
qed

lemma eq_ignore_space:
  "eq_ignore_ascii_case t ('' '' @ b) \<longleftrightarrow> starts_with_space t \<and> eq_ignore_ascii_case (drop 1 t) b"
  by (cases t) (auto simp: eq_ignore_ascii_case_def starts_with_space_def ascii_lower_space
      ascii_lower_space [THEN iffD2, OF refl])

lemma boundary_before_space:
  "n \<le> length s \<Longrightarrow> starts_with_space (drop n s) \<Longrightarrow> is_char_boundary s n"
  by (cases "n = length s") (auto simp: is_char_boundary_def starts_with_space_def
      Cons_nth_drop_Suc [symmetric])

text \<open>One field of the name followed by a space.\<close>

lemma match_field:
  "(case str_get_to t (length a) of None \<Rightarrow> False
    | Some t' \<Rightarrow> if \<not> eq_ignore_ascii_case t' a then False
        else if \<not> starts_with_space (drop (length a) t) then False else Q)
   \<longleftrightarrow> length a \<le> length t \<and> eq_ignore_ascii_case (take (length a) t) a \<and>
     starts_with_space (drop (length a) t) \<and> Q"
proof (cases "starts_with_space (drop (length a) t)")
  case True
  then have "length a \<le> length t" by (cases "length a \<le> length t") (simp_all add: starts_with_space_def)
  with True boundary_before_space [OF _ True] show ?thesis by (simp add: str_get_to_def)
qed (simp split: option.split)

lemma eq_ignore_field:
  "eq_ignore_ascii_case t (a @ '' '' @ b) \<longleftrightarrow> length a \<le> length t \<and> eq_ignore_ascii_case (take (length a) t) a \<and>
     starts_with_space (drop (length a) t) \<and> eq_ignore_ascii_case (drop 1 (drop (length a) t)) b"
  by (simp only: eq_ignore_append [of t a] eq_ignore_space)

lemma matches_iff:
  "matches n target \<longleftrightarrow> eq_ignore_ascii_case target (on_connector n) \<or>
     (\<not> missing_mms n \<and> eq_ignore_ascii_case target (format_make_model_serial n))"
  unfolding matches_def Let_def format_make_model_serial_def match_field eq_ignore_field by simp

subsection \<open>Properties\<close>

text \<open>
  C30. Matching a name from the configuration field by field, with the slicing at byte offsets that it
  takes, is the case-insensitive comparison with the connector or, when the output has a make, model
  or serial, with the formatted name. No slice is ever taken inside a character.
\<close>

theorem matches_formatted:
  "matches n target \<longleftrightarrow> eq_ignore_ascii_case target (on_connector n) \<or>
     (\<not> missing_mms n \<and> eq_ignore_ascii_case target (format_make_model_serial n))"
  by (rule matches_iff)

text \<open>
  The name that niri stores for a workspace's original output, \<open>OutputId::new\<close>, matches the output
  it was made from, and every output with the same make, model and serial whatever its connector.
\<close>

theorem stored_name_matches:
  "matches n (format_make_model_serial_or_connector n) \<and>
   (\<not> missing_mms n \<longrightarrow> matches (n\<lparr>on_connector := c\<rparr>) (format_make_model_serial_or_connector n))"
proof -
  have "missing_mms (n\<lparr>on_connector := c\<rparr>) = missing_mms n"
    "format_make_model_serial (n\<lparr>on_connector := c\<rparr>) = format_make_model_serial n"
    by (simp_all add: missing_mms_def format_make_model_serial_def)
  then show ?thesis by (auto simp: matches_iff format_make_model_serial_or_connector_def)
qed

definition example_output_name :: "string \<Rightarrow> output_name" where
  "example_output_name connector = \<lparr>on_connector = connector, on_make = Some ''Some Company'',
     on_model = Some ''SomeMonitor'', on_serial = Some ''1234''\<rparr>"

theorem stored_name_matches_witness:
  "matches (example_output_name ''DP-2'') (format_make_model_serial_or_connector (example_output_name ''DP-1''))"
  using stored_name_matches [of "example_output_name ''DP-1''" "''DP-2''"]
  by (simp add: example_output_name_def missing_mms_def)

lemma cmp_simps:
  "cmp a b = OrdLess \<longleftrightarrow> a < b" "cmp a b = OrdEqual \<longleftrightarrow> a = b" "cmp a b = OrdGreater \<longleftrightarrow> b < a"
  by (auto simp: cmp_def)

lemma then_with_simps:
  "then_with a b = OrdLess \<longleftrightarrow> a = OrdLess \<or> a = OrdEqual \<and> b = OrdLess"
  "then_with a b = OrdGreater \<longleftrightarrow> a = OrdGreater \<or> a = OrdEqual \<and> b = OrdGreater"
  "then_with a b = OrdEqual \<longleftrightarrow> a = OrdEqual \<and> b = OrdEqual"
  by (auto simp: then_with_def)

text \<open>
  C36. \<open>compare\<close> is a total order on output names: antisymmetric, equal only on equal names, and
  transitive.
\<close>

theorem compare_total_order:
  "(compare a b = OrdLess \<longleftrightarrow> compare b a = OrdGreater) \<and> (compare a b = OrdEqual \<longleftrightarrow> a = b) \<and>
   (compare a b = OrdLess \<longrightarrow> compare b c = OrdLess \<longrightarrow> compare a c = OrdLess)"
proof (intro conjI impI)
  show "compare a b = OrdLess \<longleftrightarrow> compare b a = OrdGreater"
    by (auto simp: compare_def cmp_simps then_with_simps split: bool.splits)
  show "compare a b = OrdEqual \<longleftrightarrow> a = b"
    by (cases a; cases b) (auto simp: compare_def cmp_simps then_with_simps missing_mms_def split: bool.splits)
  assume "compare a b = OrdLess" "compare b c = OrdLess"
  then show "compare a c = OrdLess"
    by (auto simp: compare_def cmp_simps then_with_simps split: bool.splits)
qed


theorem compare_total_order_witness:
  "compare (example_output_name ''DP-1'') (example_output_name ''DP-3'') = OrdLess"
  using compare_total_order [of "example_output_name ''DP-1''" "example_output_name ''DP-2''" "example_output_name ''DP-3''"]
  by (simp add: example_output_name_def compare_def missing_mms_def then_with_def cmp_def less_char_def)

end
