(* ===== verification/Swipe_Tracker.thy ===== *)
theory Swipe_Tracker
  imports Niri_Prelude Complex_Main
begin

text \<open>
  The swipe tracker of \<^verbatim>\<open>src/input/swipe_tracker.rs\<close> and the rubber band of \<^verbatim>\<open>src/rubber_band.rs\<close>, which
  gestures use. Timestamps are nanoseconds; positions are real numbers where the code has \<^verbatim>\<open>f64\<close>.
\<close>

subsection \<open>The tracker\<close>

record swipe_event =
  ev_delta :: real
  ev_timestamp :: nat

record swipe_tracker =
  st_history :: "swipe_event list"
  st_pos :: real

definition HISTORY_LIMIT :: nat where "HISTORY_LIMIT = 150000000"

definition DECELERATION_TOUCHPAD :: real where "DECELERATION_TOUCHPAD = 0.997"

definition tracker_new :: swipe_tracker where
  "tracker_new = \<lparr>st_history = [], st_pos = 0\<rparr>"

fun trim_history_loop :: "nat \<Rightarrow> swipe_event list \<Rightarrow> swipe_event list" where
  "trim_history_loop timestamp [] = []"
| "trim_history_loop timestamp (first # rest) =
     (if timestamp \<le> ev_timestamp first + HISTORY_LIMIT then first # rest
      else trim_history_loop timestamp rest)"

definition trim_history :: "swipe_tracker \<Rightarrow> swipe_tracker" where
  "trim_history t =
     (if st_history t = [] then t
      else t\<lparr>st_history := trim_history_loop (ev_timestamp (last (st_history t))) (st_history t)\<rparr>)"

definition tracker_push :: "real \<Rightarrow> nat \<Rightarrow> swipe_tracker \<Rightarrow> swipe_tracker" where
  "tracker_push delta timestamp t =
     (if st_history t \<noteq> [] \<and> timestamp < ev_timestamp (last (st_history t)) then t
      else trim_history (t\<lparr>st_history := st_history t @ [\<lparr>ev_delta = delta, ev_timestamp = timestamp\<rparr>],
                           st_pos := st_pos t + delta\<rparr>))"

text \<open>Subtracting a later time from an earlier one panics.\<close>

definition velocity :: "swipe_tracker \<Rightarrow> real res" where
  "velocity t =
     (case st_history t of
        [] \<Rightarrow> Inr 0
      | first # rest \<Rightarrow>
          let last_ts = ev_timestamp (last (st_history t))
          in bind_res (assert_that ''overflow when subtracting durations'' (ev_timestamp first \<le> last_ts)) (\<lambda>_.
             let total_time = real (last_ts - ev_timestamp first) / 1000000000
             in if total_time = 0 then Inr 0
                else Inr (sum_list (map ev_delta (st_history t)) / total_time)))"

definition projected_end_pos :: "swipe_tracker \<Rightarrow> real res" where
  "projected_end_pos t =
     bind_res (velocity t) (\<lambda>vel. Inr (st_pos t - vel / (1000 * ln DECELERATION_TOUCHPAD)))"

subsection \<open>The rubber band\<close>

record rubber_band =
  rb_stiffness :: real
  rb_limit :: real

definition band :: "rubber_band \<Rightarrow> real \<Rightarrow> real" where
  "band rb x = (1 - 1 / (x * rb_stiffness rb / rb_limit rb + 1)) * rb_limit rb"

definition band_derivative :: "rubber_band \<Rightarrow> real \<Rightarrow> real" where
  "band_derivative rb x =
     rb_stiffness rb * rb_limit rb * rb_limit rb / (rb_stiffness rb * x + rb_limit rb) ^ 2"

text \<open>\<^verbatim>\<open>f64::clamp\<close> panics when the bounds are in the wrong order.\<close>

definition f64_clamp :: "real \<Rightarrow> real \<Rightarrow> real \<Rightarrow> real res" where
  "f64_clamp lo hi x =
     bind_res (assert_that ''min <= max'' (lo \<le> hi)) (\<lambda>_.
       Inr (if x < lo then lo else if hi < x then hi else x))"

definition band_clamp :: "rubber_band \<Rightarrow> real \<Rightarrow> real \<Rightarrow> real \<Rightarrow> real res" where
  "band_clamp rb lo hi x =
     bind_res (f64_clamp lo hi x) (\<lambda>clamped.
       let sgn_x = (if x < clamped then - 1 else 1);
           diff = \<bar>x - clamped\<bar>
       in Inr (clamped + sgn_x * band rb diff))"

definition clamp_derivative :: "rubber_band \<Rightarrow> real \<Rightarrow> real \<Rightarrow> real \<Rightarrow> real res" where
  "clamp_derivative rb lo hi x =
     (if lo \<le> x \<and> x \<le> hi then Inr 1
      else bind_res (f64_clamp lo hi x) (\<lambda>clamped. Inr (band_derivative rb \<bar>x - clamped\<bar>)))"

subsection \<open>The states of a tracker\<close>

inductive tracked :: "(real \<times> nat) list \<Rightarrow> swipe_tracker \<Rightarrow> bool" where
  new: "tracked [] tracker_new"
| push: "tracked es t \<Longrightarrow> tracked (es @ [(delta, timestamp)]) (tracker_push delta timestamp t)"

text \<open>The events a tracker accepts: those that are not older than the last accepted one.\<close>

fun accepted :: "nat \<Rightarrow> (real \<times> nat) list \<Rightarrow> (real \<times> nat) list" where
  "accepted now [] = []"
| "accepted now ((delta, timestamp) # es) =
     (if timestamp < now then accepted now es else (delta, timestamp) # accepted timestamp es)"

definition last_accepted :: "nat \<Rightarrow> (real \<times> nat) list \<Rightarrow> nat" where
  "last_accepted now es = (if accepted now es = [] then now else snd (last (accepted now es)))"

text \<open>What the history should be: the accepted events of the last 150 ms.\<close>

definition recent_events :: "nat \<Rightarrow> (real \<times> nat) list \<Rightarrow> (real \<times> nat) list" where
  "recent_events now es = filter (\<lambda>(delta, timestamp). now \<le> timestamp + HISTORY_LIMIT) es"

definition to_event :: "real \<times> nat \<Rightarrow> swipe_event" where
  "to_event e = \<lparr>ev_delta = fst e, ev_timestamp = snd e\<rparr>"

lemma to_event_simps [simp]: "ev_delta (to_event e) = fst e" "ev_timestamp (to_event e) = snd e"
  by (simp_all add: to_event_def)

lemma last_accepted_Cons:
  "last_accepted now ((d, ts) # es) = (if ts < now then last_accepted now es else last_accepted ts es)"
  by (simp add: last_accepted_def)

lemma accepted_snoc:
  "accepted now (es @ [(d, ts)]) = accepted now es @ (if ts < last_accepted now es then [] else [(d, ts)])"
proof (induction es arbitrary: now)
  case Nil
  show ?case by (simp add: last_accepted_def)
next
  case (Cons e es)
  obtain d' ts' where e: "e = (d', ts')" by force
  show ?case using Cons.IH by (simp add: e last_accepted_Cons)
qed

lemma accepted_sorted: "sorted (map snd (accepted now es)) \<and> (\<forall>e \<in> set (accepted now es). now \<le> snd e)"
proof (induction now es rule: accepted.induct)
  case (2 now delta timestamp es)
  show ?case
  proof (cases "timestamp < now")
    case False
    with 2(2) have "sorted (map snd (accepted timestamp es))" "\<And>e. e \<in> set (accepted timestamp es) \<Longrightarrow> now \<le> snd e \<and> timestamp \<le> snd e"
      using order_trans [of now timestamp] by auto
    with False show ?thesis by simp
  qed (use 2(1) in simp)
qed simp

lemma trim_filter:
  "sorted (map ev_timestamp h) \<Longrightarrow>
   trim_history_loop ts h = filter (\<lambda>e. ts \<le> ev_timestamp e + HISTORY_LIMIT) h"
proof (induction h)
  case (Cons e h)
  then have "\<forall>e' \<in> set h. ev_timestamp e \<le> ev_timestamp e'" by simp
  then have "filter (\<lambda>e. ts \<le> ev_timestamp e + HISTORY_LIMIT) h = h" if "ts \<le> ev_timestamp e + HISTORY_LIMIT"
    using that by (intro filter_True) (meson add_le_mono1 order_trans)
  with Cons show ?case by simp
qed simp

lemma recent_events_mono: "now \<le> now' \<Longrightarrow> recent_events now' (recent_events now es) = recent_events now' es"
  unfolding recent_events_def filter_filter by (rule filter_cong) auto

lemma recent_events_last:
  "recent_events (last_accepted 0 es) (accepted 0 es) = [] \<longleftrightarrow> accepted 0 es = []"
  "accepted 0 es \<noteq> [] \<Longrightarrow> last (recent_events (last_accepted 0 es) (accepted 0 es)) = last (accepted 0 es)"
proof -
  have "recent_events (last_accepted 0 es) xs \<noteq> [] \<and> last (recent_events (last_accepted 0 es) xs) = last xs"
    if ne: "xs \<noteq> []" and l: "snd (last xs) = last_accepted 0 es" for xs
  proof -
    obtain ys y where "xs = ys @ [y]" using ne by (cases xs rule: rev_cases) auto
    then show ?thesis using l by (simp add: recent_events_def case_prod_unfold)
  qed
  then have *: "accepted 0 es \<noteq> [] \<Longrightarrow> recent_events (last_accepted 0 es) (accepted 0 es) \<noteq> [] \<and>
      last (recent_events (last_accepted 0 es) (accepted 0 es)) = last (accepted 0 es)"
    by (simp add: last_accepted_def)
  then show "recent_events (last_accepted 0 es) (accepted 0 es) = [] \<longleftrightarrow> accepted 0 es = []"
    by (auto simp: recent_events_def)
  show "accepted 0 es \<noteq> [] \<Longrightarrow> last (recent_events (last_accepted 0 es) (accepted 0 es)) = last (accepted 0 es)"
    using * by simp
qed

lemma tracker_push_spec:
  fixes delta :: real and ts :: nat
  assumes h: "st_history t = map to_event (recent_events (last_accepted 0 es) (accepted 0 es))"
    and pos: "st_pos t = sum_list (map fst (accepted 0 es))"
  defines "es' \<equiv> es @ [(delta, ts)]"
  shows "st_history (tracker_push delta ts t) = map to_event (recent_events (last_accepted 0 es') (accepted 0 es'))"
    and "st_pos (tracker_push delta ts t) = sum_list (map fst (accepted 0 es'))"
proof -
  let ?a = "accepted 0 es" and ?l = "last_accepted 0 es"
  have empty: "st_history t = [] \<longleftrightarrow> ?a = []" using recent_events_last(1) [of es] by (simp add: h)
  have last_ts: "ev_timestamp (last (st_history t)) = ?l" if "?a \<noteq> []"
    using that recent_events_last [of es] by (simp add: h last_map last_accepted_def)
  have stale: "st_history t \<noteq> [] \<and> ts < ev_timestamp (last (st_history t)) \<longleftrightarrow> ts < ?l"
    using empty last_ts by (cases "?a = []") (auto simp: last_accepted_def)
  show "st_history (tracker_push delta ts t) = map to_event (recent_events (last_accepted 0 es') (accepted 0 es'))"
  proof (cases "ts < ?l")
    case True
    then have "accepted 0 es' = ?a" "last_accepted 0 es' = ?l" by (auto simp: es'_def accepted_snoc last_accepted_def split: if_splits)
    with True stale h show ?thesis by (simp add: tracker_push_def)
  next
    case False
    then have a': "accepted 0 es' = ?a @ [(delta, ts)]" "last_accepted 0 es' = ts"
      by (simp_all add: es'_def accepted_snoc last_accepted_def [of _ "es @ _"])
    have "sorted (map snd (?a @ [(delta, ts)]))" using accepted_sorted [of 0 es'] a'(1) by simp
    then have sorted: "sorted (map ev_timestamp (map to_event (recent_events ?l ?a @ [(delta, ts)])))"
      by (auto simp: recent_events_def sorted_append comp_def intro: sorted_filter)
    have "st_history (tracker_push delta ts t) =
        trim_history_loop ts (map to_event (recent_events ?l ?a @ [(delta, ts)]))"
      unfolding tracker_push_def stale if_not_P [OF False] by (simp add: trim_history_def to_event_def h)
    also have "\<dots> = map to_event (recent_events ts (recent_events ?l ?a @ [(delta, ts)]))"
      unfolding trim_filter [OF sorted] by (simp add: recent_events_def filter_map comp_def case_prod_unfold conj_commute)
    also have "\<dots> = map to_event (recent_events ts (?a @ [(delta, ts)]))"
      using recent_events_mono [of ?l ts ?a] False by (simp add: recent_events_def)
    finally show ?thesis by (simp only: a')
  qed
  show "st_pos (tracker_push delta ts t) = sum_list (map fst (accepted 0 es'))"
    using stale pos by (simp add: tracker_push_def es'_def accepted_snoc trim_history_def)
qed

lemma tracked_spec:
  "tracked es t \<Longrightarrow> st_history t = map to_event (recent_events (last_accepted 0 es) (accepted 0 es)) \<and>
     st_pos t = sum_list (map fst (accepted 0 es))"
proof (induction rule: tracked.induct)
  case new
  show ?case by (simp add: tracker_new_def recent_events_def)
next
  case (push es t delta timestamp)
  then show ?case using tracker_push_spec [of t es delta timestamp] by simp
qed

lemma velocity_ok:
  assumes "sorted (map ev_timestamp (st_history t))" shows "\<exists>v. velocity t = Inr v"
  using assms by (cases "st_history t") (auto simp: velocity_def Let_def)

subsection \<open>Properties\<close>

text \<open>
  C33. After any sequence of readings, the tracker's position is the sum of the readings it accepted,
  those that are not older than the last accepted one, and its history is exactly the accepted
  readings of the 150 ms before the last one; computing the velocity never subtracts times in the
  wrong order.
\<close>

theorem tracker_history:
  assumes "tracked es t"
  shows "st_pos t = sum_list (map fst (accepted 0 es)) \<and>
    st_history t = map to_event (recent_events (last_accepted 0 es) (accepted 0 es)) \<and>
    (\<exists>v. velocity t = Inr v)"
proof -
  have "sorted (map snd (recent_events (last_accepted 0 es) (accepted 0 es)))"
    unfolding recent_events_def using accepted_sorted [of 0 es] by (simp add: sorted_filter)
  then have "sorted (map ev_timestamp (st_history t))" using tracked_spec [OF assms] by (simp add: comp_def)
  with tracked_spec [OF assms] velocity_ok show ?thesis by blast
qed

theorem tracker_history_witness:
  "st_pos (tracker_push 3 200000000 (tracker_push 2 40 (tracker_push 1 50 tracker_new))) = 4 \<and>
   st_history (tracker_push 3 200000000 (tracker_push 2 40 (tracker_push 1 50 tracker_new))) =
     [\<lparr>ev_delta = 3, ev_timestamp = 200000000\<rparr>]"
  using tracker_history [OF tracked.push [OF tracked.push [OF tracked.push [OF tracked.new]]], of 3 200000000 2 40 1 50]
  by (simp add: recent_events_def last_accepted_def HISTORY_LIMIT_def to_event_def)

subsection \<open>The rubber band keeps close to its bounds\<close>

lemma band_bounds:
  assumes "0 < rb_stiffness rb" "0 < rb_limit rb" "0 \<le> x"
  shows "0 \<le> band rb x" "band rb x < rb_limit rb" "band rb 0 = 0"
proof -
  define q where "q = x * rb_stiffness rb / rb_limit rb"
  have q: "0 \<le> q" using assms by (simp add: q_def)
  then have "0 < 1 / (q + 1)" "1 / (q + 1) \<le> 1" by simp_all
  then show "0 \<le> band rb x" "band rb x < rb_limit rb" using assms(2)
    by (simp_all add: band_def q_def [symmetric] mult_less_cancel_right2)
  show "band rb 0 = 0" by (simp add: band_def)
qed

text \<open>
  Clamping with a rubber band leaves positions between the bounds alone, and never lets a position
  go further past a bound than the limit of the band.
\<close>

theorem rubber_band_close:
  assumes "0 < rb_stiffness rb" "0 < rb_limit rb" "lo \<le> hi"
  shows "\<exists>y. band_clamp rb lo hi x = Inr y \<and> (lo \<le> x \<and> x \<le> hi \<longrightarrow> y = x) \<and>
    lo - rb_limit rb < y \<and> y < hi + rb_limit rb"
proof -
  note b = band_bounds [OF assms(1,2)]
  consider "x < lo" | "hi < x" | "lo \<le> x" "x \<le> hi" by linarith
  then show ?thesis
  proof cases
    case 1
    with b(1,2) [of "\<bar>x - lo\<bar>"] assms show ?thesis by (simp add: band_clamp_def f64_clamp_def Let_def)
  next
    case 2
    with b(1,2) [of "\<bar>x - hi\<bar>"] assms show ?thesis by (simp add: band_clamp_def f64_clamp_def Let_def)
  next
    case 3
    with b(3) [of 0] assms show ?thesis by (simp add: band_clamp_def f64_clamp_def Let_def)
  qed
qed

theorem rubber_band_close_witness:
  "\<exists>y. band_clamp \<lparr>rb_stiffness = 1 / 2, rb_limit = 1 / 20\<rparr> 0 3 5 = Inr y \<and> y < 3 + 1 / 20"
  using rubber_band_close [of "\<lparr>rb_stiffness = 1 / 2, rb_limit = 1 / 20\<rparr>" 0 3 5] by auto

end
