(* ===== verification/Workspace.thy ===== *)
theory Workspace
  imports Scrolling_Properties Floating_Properties Output_Name Swipe_Tracker
begin

text \<open>
  A workspace, \<^verbatim>\<open>Workspace\<close> of \<^verbatim>\<open>src/layout/workspace.rs\<close>: the scrollable tiling, the floating layer
  above it, and which of the two has the focus. Every operation is translated with its dispatch to
  one layer or the other; the operations on the sizes of windows and on rendering are left out,
  as in the two layers.

  What the code reads from the windows, from the running animations, from the geometry of the
  scrolling layer and from the configuration is collected in an environment: the parents declared by
  the clients, where a window is rendered, whether the configuration always centres the focused
  column, and at which fractional index between its workspaces a monitor is rendered.
\<close>

record workspace_switch_gesture =
  ge_center_idx :: nat
  ge_start_idx :: real
  ge_current_idx :: real
  ge_tracker :: swipe_tracker
  ge_is_touchpad :: bool
  ge_is_clamped :: bool
  ge_dnd_last_event_time :: "nat option"
  ge_dnd_nonzero_start_time :: "nat option"

text \<open>Of an animation, where it starts and where it ends.\<close>

datatype workspace_switch = SwitchAnimation real real | SwitchGesture workspace_switch_gesture

record 'w layout_env =
  env_parent :: "'w parent_of"
  env_render_pos :: "'w \<Rightarrow> point"
  env_center_always :: bool
  env_render_idx :: "nat \<Rightarrow> workspace_switch option \<Rightarrow> real"
  env_windowed_fullscreen :: "'w \<Rightarrow> bool"

datatype floating_active = FloatingNo | FloatingNoButRaised | FloatingYes

datatype activate_window = ActivateYes | ActivateSmart | ActivateNo

definition map_smart :: "activate_window \<Rightarrow> bool \<Rightarrow> bool" where
  "map_smart a b = (case a of ActivateYes \<Rightarrow> True | ActivateSmart \<Rightarrow> b | ActivateNo \<Rightarrow> False)"

datatype 'w ws_target = TargetAuto | TargetNewColumnAt nat | TargetNextTo 'w

text \<open>
  An output as the layout sees it: its identity, its names, and its scale, transform, size and working
  area at the moment.
\<close>

record output_view =
  ov_integer_scale :: int
  ov_fractional_scale :: real
  ov_transform :: nat
  ov_size :: extent
  ov_area :: rectangle

record loutput =
  out_handle :: nat
  out_name :: output_name
  out_view :: output_view

definition output_id :: "loutput \<Rightarrow> string" where
  "output_id output = format_make_model_serial_or_connector (out_name output)"

text \<open>
  Of the layout options the model keeps the default display of new columns: as it comes from the
  monitor, and the override in the workspace's own layout section.
\<close>

record 'w lworkspace =
  ws_scrolling :: "'w scrolling_space"
  ws_floating :: "'w floating_space"
  ws_floating_is_active :: floating_active
  ws_original_output :: string
  ws_output :: "loutput option"
  ws_view :: output_view
  ws_base_display :: column_display
  ws_name :: "string option"
  ws_layout_display :: "column_display option"
  ws_id :: nat

definition floating_get :: "'w lworkspace \<Rightarrow> bool" where
  "floating_get ws = (ws_floating_is_active ws = FloatingYes)"

definition ws_tiles :: "'w lworkspace \<Rightarrow> 'w tile list" where
  "ws_tiles ws = sc_tiles (ws_scrolling ws) @ fl_tiles (ws_floating ws)"

definition ws_has_windows :: "'w lworkspace \<Rightarrow> bool" where
  "ws_has_windows ws = (ws_tiles ws \<noteq> [])"

definition ws_has_window :: "'w \<Rightarrow> 'w lworkspace \<Rightarrow> bool" where
  "ws_has_window window ws = list_ex (\<lambda>tile. tl_window tile = window) (ws_tiles ws)"

definition ws_has_windows_or_name :: "'w lworkspace \<Rightarrow> bool" where
  "ws_has_windows_or_name ws = (ws_has_windows ws \<or> ws_name ws \<noteq> None)"

definition ws_unname :: "'w lworkspace \<Rightarrow> 'w lworkspace" where
  "ws_unname ws = ws\<lparr>ws_name := None\<rparr>"

definition ws_active_window :: "'w lworkspace \<Rightarrow> 'w option res" where
  "ws_active_window ws =
     (if floating_get ws then Inr (fl_active_window (ws_floating ws))
      else sc_active_window (ws_scrolling ws))"

definition sc_is_active_pending_fullscreen :: "'w scrolling_space \<Rightarrow> bool res" where
  "sc_is_active_pending_fullscreen s =
     (if sc_columns s = [] then Inr False
      else bind_res (vec_index (sc_columns s) (sc_active_column_idx s)) (\<lambda>col.
        Inr (pending_sizing_mode col = SizingFullscreen)))"

definition on_scrolling ::
  "('w scrolling_space \<Rightarrow> 'w scrolling_space res) \<Rightarrow> 'w lworkspace \<Rightarrow> 'w lworkspace res" where
  "on_scrolling f ws = bind_res (f (ws_scrolling ws)) (\<lambda>s. Inr (ws\<lparr>ws_scrolling := s\<rparr>))"

definition on_floating ::
  "('w floating_space \<Rightarrow> 'w floating_space res) \<Rightarrow> 'w lworkspace \<Rightarrow> 'w lworkspace res" where
  "on_floating f ws = bind_res (f (ws_floating ws)) (\<lambda>s. Inr (ws\<lparr>ws_floating := s\<rparr>))"

subsection \<open>Adding\<close>

definition focus_if :: "bool \<Rightarrow> floating_active \<Rightarrow> 'w lworkspace \<Rightarrow> 'w lworkspace" where
  "focus_if b fa ws = (if b then ws\<lparr>ws_floating_is_active := fa\<rparr> else ws)"

text \<open>
  \<open>add_tile\<close>. In the branch that opens a floating window next to a tiled one, its position is
  computed from where the tiled one is rendered.
\<close>

definition ws_add_tile ::
  "'w layout_env \<Rightarrow> 'w tile \<Rightarrow> 'w ws_target \<Rightarrow> activate_window \<Rightarrow> column_width \<Rightarrow> bool \<Rightarrow> bool \<Rightarrow>
   'w lworkspace \<Rightarrow> 'w lworkspace res" where
  "ws_add_tile env tile target activate width is_full_width is_floating ws =
     (let tile = tile\<lparr>tl_restore_to_floating := is_floating\<rparr>;
          to_floating = (is_floating \<and> tl_pending_sizing_mode tile = SizingNormal)
      in case target of
           TargetAuto \<Rightarrow>
             bind_res (sc_is_active_pending_fullscreen (ws_scrolling ws)) (\<lambda>fullscreen.
             let act = map_smart activate (\<not> fullscreen)
             in if to_floating
                then bind_res (on_floating (fl_add_tile (env_parent env) tile act) ws) (\<lambda>ws.
                  Inr (focus_if (act \<or> sc_is_empty (ws_scrolling ws)) FloatingYes ws))
                else bind_res (on_scrolling (sc_add_tile None tile act width is_full_width) ws) (\<lambda>ws.
                  Inr (focus_if act FloatingNo ws)))
         | TargetNewColumnAt col_idx \<Rightarrow>
             let act = map_smart activate False
             in bind_res (on_scrolling (sc_add_tile (Some col_idx) tile act width is_full_width) ws)
                  (\<lambda>ws. Inr (focus_if act FloatingNo ws))
         | TargetNextTo next_to \<Rightarrow>
             bind_res (if activate = ActivateSmart
                       then bind_res (ws_active_window ws) (\<lambda>active.
                            bind_res (unwrap active) (\<lambda>active. Inr (active = next_to)))
                       else Inr (activate = ActivateYes)) (\<lambda>act.
             let floating_has_window = fl_has_window next_to (ws_floating ws)
             in if to_floating
                then bind_res
                  (if floating_has_window
                   then on_floating (fl_add_tile_above (env_parent env) next_to tile act) ws
                   else bind_res (unwrap (find (\<lambda>t. tl_window t = next_to) (sc_tiles (ws_scrolling ws))))
                     (\<lambda>next_to_tile.
                     let tile_size = tl_tile_size tile;
                         pos = point_add (env_render_pos env next_to)
                                 (half_diff (tl_tile_size next_to_tile) tile_size);
                         pos = fl_clamp_within_working_area pos tile_size (ws_floating ws);
                         tile = tile\<lparr>tl_floating_pos := Some (fl_logical_to_size_frac pos (ws_floating ws))\<rparr>
                     in on_floating (fl_add_tile (env_parent env) tile act) ws)) (\<lambda>ws.
                  Inr (focus_if (act \<or> sc_is_empty (ws_scrolling ws)) FloatingYes ws))
                else if floating_has_window
                then bind_res (on_scrolling (sc_add_tile None tile act width is_full_width) ws) (\<lambda>ws.
                  Inr (focus_if act FloatingNo ws))
                else bind_res (on_scrolling (sc_add_tile_right_of next_to tile act width is_full_width) ws)
                  (\<lambda>ws. Inr (focus_if act FloatingNo ws))))"

definition ws_add_tile_to_column ::
  "nat \<Rightarrow> nat option \<Rightarrow> 'w tile \<Rightarrow> bool \<Rightarrow> 'w lworkspace \<Rightarrow> 'w lworkspace res" where
  "ws_add_tile_to_column col_idx tile_idx tile activate ws =
     bind_res (on_scrolling (sc_add_tile_to_column col_idx tile_idx tile activate) ws) (\<lambda>ws.
       Inr (focus_if activate FloatingNo ws))"

definition ws_add_column :: "'w column \<Rightarrow> bool \<Rightarrow> 'w lworkspace \<Rightarrow> 'w lworkspace res" where
  "ws_add_column column activate ws =
     bind_res (on_scrolling (sc_add_column None column activate) ws) (\<lambda>ws.
       Inr (focus_if activate FloatingNo ws))"

subsection \<open>Removing\<close>

definition update_focus_floating_tiling_after_removing :: "bool \<Rightarrow> 'w lworkspace \<Rightarrow> 'w lworkspace" where
  "update_focus_floating_tiling_after_removing from_floating ws =
     (if from_floating
      then focus_if (fl_is_empty (ws_floating ws)) FloatingNo ws
      else focus_if (sc_is_empty (ws_scrolling ws) \<and> \<not> fl_is_empty (ws_floating ws)) FloatingYes ws)"

definition ws_remove_tile ::
  "'w \<Rightarrow> 'w lworkspace \<Rightarrow> ('w removed_tile \<times> 'w lworkspace) res" where
  "ws_remove_tile window ws =
     (if fl_has_window window (ws_floating ws)
      then bind_res (fl_remove_tile window (ws_floating ws)) (\<lambda>(removed, s).
        Inr (removed, update_focus_floating_tiling_after_removing True (ws\<lparr>ws_floating := s\<rparr>)))
      else bind_res (sc_remove_tile window (ws_scrolling ws)) (\<lambda>(removed, s).
        Inr (removed, update_focus_floating_tiling_after_removing False (ws\<lparr>ws_scrolling := s\<rparr>))))"

definition ws_remove_active_tile ::
  "'w lworkspace \<Rightarrow> ('w removed_tile option \<times> 'w lworkspace) res" where
  "ws_remove_active_tile ws =
     (if floating_get ws
      then bind_res (fl_remove_active_tile (ws_floating ws)) (\<lambda>(removed, s).
        Inr (case removed of
               None \<Rightarrow> (None, ws)
             | Some r \<Rightarrow> (Some r, update_focus_floating_tiling_after_removing True (ws\<lparr>ws_floating := s\<rparr>))))
      else bind_res (sc_remove_active_tile (ws_scrolling ws)) (\<lambda>(removed, s).
        Inr (case removed of
               None \<Rightarrow> (None, ws)
             | Some r \<Rightarrow> (Some r, update_focus_floating_tiling_after_removing False (ws\<lparr>ws_scrolling := s\<rparr>)))))"

definition ws_remove_active_column ::
  "'w lworkspace \<Rightarrow> ('w column option \<times> 'w lworkspace) res" where
  "ws_remove_active_column ws =
     (if floating_get ws then Inr (None, ws)
      else bind_res (sc_remove_active_column (ws_scrolling ws)) (\<lambda>(removed, s).
        Inr (case removed of
               None \<Rightarrow> (None, ws)
             | Some col \<Rightarrow> (Some col, update_focus_floating_tiling_after_removing False (ws\<lparr>ws_scrolling := s\<rparr>)))))"

subsection \<open>Floating and tiling\<close>

definition ws_toggle_window_floating ::
  "'w layout_env \<Rightarrow> 'w option \<Rightarrow> 'w lworkspace \<Rightarrow> 'w lworkspace res" where
  "ws_toggle_window_floating env window ws =
     bind_res (ws_active_window ws) (\<lambda>active_id.
     let target_is_active = (case window of None \<Rightarrow> True | Some w \<Rightarrow> Some w = active_id)
     in case (case window of Some w \<Rightarrow> Some w | None \<Rightarrow> active_id) of
          None \<Rightarrow> Inr ws
        | Some w \<Rightarrow>
            bind_res (unwrap (find (\<lambda>tile. tl_window tile = w) (ws_tiles ws))) (\<lambda>_.
            if fl_has_window w (ws_floating ws)
            then bind_res (fl_remove_tile w (ws_floating ws)) (\<lambda>(removed, s).
                 bind_res (on_scrolling (sc_add_tile None (rt_tile removed) target_is_active
                     (rt_width removed) (rt_is_full_width removed)) (ws\<lparr>ws_floating := s\<rparr>)) (\<lambda>ws.
                   Inr (focus_if target_is_active FloatingNo ws)))
            else bind_res (sc_remove_tile w (ws_scrolling ws)) (\<lambda>(removed, s).
                 let tile = rt_tile removed;
                     tile = (if stored_or_default_tile_pos tile (ws_floating ws) = None
                             then let offset = (if env_center_always env then 0 else 50);
                                      pos = point_add (env_render_pos env w) \<lparr>pt_x = offset, pt_y = offset\<rparr>;
                                      pos = fl_clamp_within_working_area pos (tl_tile_size tile) (ws_floating ws)
                                  in tile\<lparr>tl_floating_pos := Some (fl_logical_to_size_frac pos (ws_floating ws))\<rparr>
                             else tile)
                 in bind_res (on_floating (fl_add_tile (env_parent env) tile target_is_active)
                      (ws\<lparr>ws_scrolling := s\<rparr>)) (\<lambda>ws.
                   Inr (focus_if target_is_active FloatingYes ws)))))"

definition is_target_floating :: "'w option \<Rightarrow> 'w lworkspace \<Rightarrow> bool" where
  "is_target_floating window ws =
     (case window of None \<Rightarrow> floating_get ws | Some w \<Rightarrow> fl_has_window w (ws_floating ws))"

definition ws_set_window_floating ::
  "'w layout_env \<Rightarrow> 'w option \<Rightarrow> bool \<Rightarrow> 'w lworkspace \<Rightarrow> 'w lworkspace res" where
  "ws_set_window_floating env window floating ws =
     (if is_target_floating window ws = floating then Inr ws else ws_toggle_window_floating env window ws)"

definition switch_focus_floating_tiling :: "'w lworkspace \<Rightarrow> 'w lworkspace" where
  "switch_focus_floating_tiling ws =
     (if fl_is_empty (ws_floating ws) then ws
      else if sc_is_empty (ws_scrolling ws) then ws
      else ws\<lparr>ws_floating_is_active := (if floating_get ws then FloatingNo else FloatingYes)\<rparr>)"

definition focus_floating :: "'w lworkspace \<Rightarrow> 'w lworkspace" where
  "focus_floating ws = (if \<not> floating_get ws then switch_focus_floating_tiling ws else ws)"

definition focus_tiling :: "'w lworkspace \<Rightarrow> 'w lworkspace" where
  "focus_tiling ws = (if floating_get ws then switch_focus_floating_tiling ws else ws)"

text \<open>
  Moving a tiled window with \<open>move_floating_window\<close> only updates the floating position it remembers.
\<close>

definition sc_modify_tile ::
  "'w \<Rightarrow> ('w tile \<Rightarrow> 'w tile) \<Rightarrow> 'w scrolling_space \<Rightarrow> 'w scrolling_space res" where
  "sc_modify_tile window f s =
     (case find_window window (sc_columns s) of
        None \<Rightarrow> Inl UnwrapNone
      | Some (ci, ti) \<Rightarrow>
          bind_res (vec_index (sc_columns s) ci) (\<lambda>col.
          bind_res (vec_modify ti f (col_tiles col)) (\<lambda>tiles.
            Inr (s\<lparr>sc_columns := (sc_columns s)[ci := col\<lparr>col_tiles := tiles\<rparr>]\<rparr>))))"

definition is_set :: "position_change \<Rightarrow> bool" where
  "is_set change = (case change of PosSetFixed _ \<Rightarrow> True | PosSetProportion _ \<Rightarrow> True | _ \<Rightarrow> False)"

definition move_stored_pos ::
  "position_change \<Rightarrow> position_change \<Rightarrow> 'w floating_space \<Rightarrow> 'w tile \<Rightarrow> 'w tile" where
  "move_stored_pos x y s tile =
     (case (case stored_or_default_tile_pos tile s of
              Some pos \<Rightarrow> Some pos
            | None \<Rightarrow> if is_set x \<and> is_set y then Some \<lparr>pt_x = 0, pt_y = 0\<rparr> else None) of
        None \<Rightarrow> tile
      | Some pos \<Rightarrow> tile\<lparr>tl_floating_pos :=
          Some (fl_logical_to_size_frac (change_point x y (fl_working_area s) pos) s)\<rparr>)"

definition ws_move_floating_window ::
  "'w option \<Rightarrow> position_change \<Rightarrow> position_change \<Rightarrow> 'w lworkspace \<Rightarrow> 'w lworkspace res" where
  "ws_move_floating_window window x y ws =
     (if is_target_floating window ws then on_floating (fl_move_window window x y) ws
      else bind_res (case window of Some w \<Rightarrow> Inr (Some w) | None \<Rightarrow> sc_active_window (ws_scrolling ws)) (\<lambda>target.
        case target of
          None \<Rightarrow> Inr ws
        | Some w \<Rightarrow> on_scrolling (sc_modify_tile w (move_stored_pos x y (ws_floating ws))) ws))"

subsection \<open>Fullscreen and maximized\<close>

text \<open>
  The common tail of \<open>set_fullscreen\<close> and \<open>set_maximized\<close>: set the mode in the scrolling layer and,
  when the window goes from normal to another mode, remember whether it came from floating.
\<close>

definition set_mode_and_remember ::
  "('w \<Rightarrow> bool \<Rightarrow> 'w scrolling_space \<Rightarrow> ('w scrolling_space \<times> bool) res) \<Rightarrow> 'w \<Rightarrow> bool \<Rightarrow> bool \<Rightarrow>
   'w lworkspace \<Rightarrow> 'w lworkspace res" where
  "set_mode_and_remember set_mode window value restore_to_floating ws =
     bind_res (unwrap (find (\<lambda>tile. tl_window tile = window) (sc_tiles (ws_scrolling ws)))) (\<lambda>tile.
     let was_normal = (tl_pending_sizing_mode tile = SizingNormal)
     in bind_res (set_mode window value (ws_scrolling ws)) (\<lambda>(s, _).
        bind_res (sc_modify_tile window (\<lambda>tile.
            if was_normal \<and> tl_pending_sizing_mode tile \<noteq> SizingNormal
            then tile\<lparr>tl_restore_to_floating := restore_to_floating\<rparr> else tile) s) (\<lambda>s.
          Inr (ws\<lparr>ws_scrolling := s\<rparr>))))"

definition ws_set_fullscreen ::
  "'w layout_env \<Rightarrow> 'w \<Rightarrow> bool \<Rightarrow> 'w lworkspace \<Rightarrow> 'w lworkspace res" where
  "ws_set_fullscreen env window is_fullscreen ws =
     (if fl_has_window window (ws_floating ws)
      then if is_fullscreen
           then bind_res (ws_toggle_window_floating env (Some window) ws)
                  (set_mode_and_remember sc_set_fullscreen window is_fullscreen True)
           else Inr ws
      else if \<not> is_fullscreen
      then bind_res (unwrap (find (\<lambda>col. col_contains col window) (sc_columns (ws_scrolling ws)))) (\<lambda>col.
           if col_is_pending_fullscreen col \<and> \<not> col_is_pending_maximized col
           then bind_res (unwrap (find (\<lambda>tile. tl_window tile = window) (col_tiles col))) (\<lambda>tile.
                if tl_restore_to_floating tile then ws_toggle_window_floating env (Some window) ws
                else set_mode_and_remember sc_set_fullscreen window is_fullscreen False ws)
           else set_mode_and_remember sc_set_fullscreen window is_fullscreen False ws)
      else set_mode_and_remember sc_set_fullscreen window is_fullscreen False ws)"

definition ws_set_maximized ::
  "'w layout_env \<Rightarrow> 'w \<Rightarrow> bool \<Rightarrow> 'w lworkspace \<Rightarrow> 'w lworkspace res" where
  "ws_set_maximized env window maximize ws =
     (if fl_has_window window (ws_floating ws)
      then if maximize
           then bind_res (ws_toggle_window_floating env (Some window) ws)
                  (set_mode_and_remember sc_set_maximized window maximize True)
           else Inr ws
      else if \<not> maximize
      then bind_res (unwrap (find (\<lambda>tile. tl_window tile = window) (sc_tiles (ws_scrolling ws)))) (\<lambda>tile.
           if tl_pending_sizing_mode tile = SizingMaximized \<and> tl_restore_to_floating tile
           then ws_toggle_window_floating env (Some window) ws
           else set_mode_and_remember sc_set_maximized window maximize False ws)
      else set_mode_and_remember sc_set_maximized window maximize False ws)"

definition ws_toggle_fullscreen :: "'w layout_env \<Rightarrow> 'w \<Rightarrow> 'w lworkspace \<Rightarrow> 'w lworkspace res" where
  "ws_toggle_fullscreen env window ws =
     bind_res (unwrap (find (\<lambda>tile. tl_window tile = window) (ws_tiles ws))) (\<lambda>tile.
       ws_set_fullscreen env window (tl_pending_sizing_mode tile \<noteq> SizingFullscreen) ws)"

definition ws_toggle_maximized :: "'w layout_env \<Rightarrow> 'w \<Rightarrow> 'w lworkspace \<Rightarrow> 'w lworkspace res" where
  "ws_toggle_maximized env window ws =
     (let current = (case find (\<lambda>col. col_contains col window) (sc_columns (ws_scrolling ws)) of
                       Some col \<Rightarrow> col_is_pending_maximized col | None \<Rightarrow> False)
      in ws_set_maximized env window (\<not> current) ws)"

subsection \<open>Activating\<close>

definition ws_activate_window ::
  "'w layout_env \<Rightarrow> 'w \<Rightarrow> 'w lworkspace \<Rightarrow> ('w lworkspace \<times> bool) res" where
  "ws_activate_window env window ws =
     bind_res (fl_activate_window (env_parent env) window (ws_floating ws)) (\<lambda>(s, found).
       if found then Inr (ws\<lparr>ws_floating := s, ws_floating_is_active := FloatingYes\<rparr>, True)
       else bind_res (sc_activate_window window (ws_scrolling ws)) (\<lambda>(s, found).
         if found then Inr (ws\<lparr>ws_scrolling := s, ws_floating_is_active := FloatingNo\<rparr>, True)
         else Inr (ws, False)))"

definition ws_activate_window_without_raising ::
  "'w \<Rightarrow> 'w lworkspace \<Rightarrow> ('w lworkspace \<times> bool) res" where
  "ws_activate_window_without_raising window ws =
     (case fl_activate_window_without_raising window (ws_floating ws) of (s, found) \<Rightarrow>
       if found then Inr (ws\<lparr>ws_floating := s, ws_floating_is_active := FloatingYes\<rparr>, True)
       else bind_res (sc_activate_window window (ws_scrolling ws)) (\<lambda>(s, found).
         if found then Inr (ws\<lparr>ws_scrolling := s, ws_floating_is_active :=
             (case ws_floating_is_active ws of
                FloatingNo \<Rightarrow> FloatingNo
              | FloatingNoButRaised \<Rightarrow> FloatingNoButRaised
              | FloatingYes \<Rightarrow> FloatingNoButRaised)\<rparr>, True)
         else Inr (ws, False)))"

definition ws_descendants_added ::
  "'w layout_env \<Rightarrow> 'w \<Rightarrow> 'w lworkspace \<Rightarrow> ('w lworkspace \<times> bool) res" where
  "ws_descendants_added env window ws =
     bind_res (fl_descendants_added (env_parent env) window (ws_floating ws)) (\<lambda>(s, found).
       Inr (ws\<lparr>ws_floating := s\<rparr>, found))"

end
