(* ===== verification/Workspace_Dispatch.thy ===== *)
theory Workspace_Dispatch
  imports Workspace
begin

text \<open>
  The operations of \<^verbatim>\<open>Workspace\<close> that only choose a layer: the focused layer decides, or the layer of
  the window when one is named, and operations that make no sense for floating windows do nothing
  while the floating layer has the focus.
\<close>

definition on_scrolling_b ::
  "('w scrolling_space \<Rightarrow> ('w scrolling_space \<times> bool) res) \<Rightarrow> 'w lworkspace \<Rightarrow> ('w lworkspace \<times> bool) res" where
  "on_scrolling_b f ws = bind_res (f (ws_scrolling ws)) (\<lambda>(s, b). Inr (ws\<lparr>ws_scrolling := s\<rparr>, b))"

definition on_floating_b ::
  "('w floating_space \<Rightarrow> ('w floating_space \<times> bool) res) \<Rightarrow> 'w lworkspace \<Rightarrow> ('w lworkspace \<times> bool) res" where
  "on_floating_b f ws = bind_res (f (ws_floating ws)) (\<lambda>(s, b). Inr (ws\<lparr>ws_floating := s\<rparr>, b))"

definition unless_floating ::
  "('w scrolling_space \<Rightarrow> 'w scrolling_space res) \<Rightarrow> 'w lworkspace \<Rightarrow> 'w lworkspace res" where
  "unless_floating f ws = (if floating_get ws then Inr ws else on_scrolling f ws)"

definition discard :: "('s \<times> bool) res \<Rightarrow> 's res" where
  "discard r = bind_res r (\<lambda>(s, _). Inr s)"

definition with_true :: "'s res \<Rightarrow> ('s \<times> bool) res" where
  "with_true r = bind_res r (\<lambda>s. Inr (s, True))"

subsection \<open>Focus\<close>

definition ws_focus_left :: "'w layout_env \<Rightarrow> 'w lworkspace \<Rightarrow> ('w lworkspace \<times> bool) res" where
  "ws_focus_left env ws =
     (if floating_get ws then on_floating_b (fl_focus_left (env_parent env)) ws
      else on_scrolling_b sc_focus_left ws)"

definition ws_focus_right :: "'w layout_env \<Rightarrow> 'w lworkspace \<Rightarrow> ('w lworkspace \<times> bool) res" where
  "ws_focus_right env ws =
     (if floating_get ws then on_floating_b (fl_focus_right (env_parent env)) ws
      else on_scrolling_b sc_focus_right ws)"

definition ws_focus_column_first :: "'w layout_env \<Rightarrow> 'w lworkspace \<Rightarrow> 'w lworkspace res" where
  "ws_focus_column_first env ws =
     (if floating_get ws then on_floating (fl_focus_leftmost (env_parent env)) ws
      else on_scrolling sc_focus_column_first ws)"

definition ws_focus_column_last :: "'w layout_env \<Rightarrow> 'w lworkspace \<Rightarrow> 'w lworkspace res" where
  "ws_focus_column_last env ws =
     (if floating_get ws then on_floating (fl_focus_rightmost (env_parent env)) ws
      else on_scrolling sc_focus_column_last ws)"

definition ws_focus_or_else ::
  "('w lworkspace \<Rightarrow> ('w lworkspace \<times> bool) res) \<Rightarrow> ('w lworkspace \<Rightarrow> 'w lworkspace res) \<Rightarrow>
   'w lworkspace \<Rightarrow> 'w lworkspace res" where
  "ws_focus_or_else f g ws = bind_res (f ws) (\<lambda>(ws, moved). if moved then Inr ws else g ws)"

definition ws_focus_column_right_or_first :: "'w layout_env \<Rightarrow> 'w lworkspace \<Rightarrow> 'w lworkspace res" where
  "ws_focus_column_right_or_first env = ws_focus_or_else (ws_focus_right env) (ws_focus_column_first env)"

definition ws_focus_column_left_or_last :: "'w layout_env \<Rightarrow> 'w lworkspace \<Rightarrow> 'w lworkspace res" where
  "ws_focus_column_left_or_last env = ws_focus_or_else (ws_focus_left env) (ws_focus_column_last env)"

definition ws_focus_column :: "nat \<Rightarrow> 'w lworkspace \<Rightarrow> 'w lworkspace res" where
  "ws_focus_column index ws =
     on_scrolling (sc_focus_column index) (if floating_get ws then focus_tiling ws else ws)"

definition ws_focus_window_in_column :: "u8 \<Rightarrow> 'w lworkspace \<Rightarrow> 'w lworkspace res" where
  "ws_focus_window_in_column index = unless_floating (sc_focus_window_in_column index)"

definition ws_focus_down :: "'w layout_env \<Rightarrow> 'w lworkspace \<Rightarrow> ('w lworkspace \<times> bool) res" where
  "ws_focus_down env ws =
     (if floating_get ws then on_floating_b (fl_focus_down (env_parent env)) ws
      else on_scrolling_b sc_focus_down ws)"

definition ws_focus_up :: "'w layout_env \<Rightarrow> 'w lworkspace \<Rightarrow> ('w lworkspace \<times> bool) res" where
  "ws_focus_up env ws =
     (if floating_get ws then on_floating_b (fl_focus_up (env_parent env)) ws
      else on_scrolling_b sc_focus_up ws)"

definition ws_focus_down_or_left :: "'w layout_env \<Rightarrow> 'w lworkspace \<Rightarrow> 'w lworkspace res" where
  "ws_focus_down_or_left env ws =
     (if floating_get ws then discard (on_floating_b (fl_focus_down (env_parent env)) ws)
      else on_scrolling sc_focus_down_or_left ws)"

definition ws_focus_down_or_right :: "'w layout_env \<Rightarrow> 'w lworkspace \<Rightarrow> 'w lworkspace res" where
  "ws_focus_down_or_right env ws =
     (if floating_get ws then discard (on_floating_b (fl_focus_down (env_parent env)) ws)
      else on_scrolling sc_focus_down_or_right ws)"

definition ws_focus_up_or_left :: "'w layout_env \<Rightarrow> 'w lworkspace \<Rightarrow> 'w lworkspace res" where
  "ws_focus_up_or_left env ws =
     (if floating_get ws then discard (on_floating_b (fl_focus_up (env_parent env)) ws)
      else on_scrolling sc_focus_up_or_left ws)"

definition ws_focus_up_or_right :: "'w layout_env \<Rightarrow> 'w lworkspace \<Rightarrow> 'w lworkspace res" where
  "ws_focus_up_or_right env ws =
     (if floating_get ws then discard (on_floating_b (fl_focus_up (env_parent env)) ws)
      else on_scrolling sc_focus_up_or_right ws)"

definition ws_focus_window_top :: "'w layout_env \<Rightarrow> 'w lworkspace \<Rightarrow> 'w lworkspace res" where
  "ws_focus_window_top env ws =
     (if floating_get ws then on_floating (fl_focus_topmost (env_parent env)) ws
      else on_scrolling sc_focus_top ws)"

definition ws_focus_window_bottom :: "'w layout_env \<Rightarrow> 'w lworkspace \<Rightarrow> 'w lworkspace res" where
  "ws_focus_window_bottom env ws =
     (if floating_get ws then on_floating (fl_focus_bottommost (env_parent env)) ws
      else on_scrolling sc_focus_bottom ws)"

definition ws_focus_window_down_or_top :: "'w layout_env \<Rightarrow> 'w lworkspace \<Rightarrow> 'w lworkspace res" where
  "ws_focus_window_down_or_top env = ws_focus_or_else (ws_focus_down env) (ws_focus_window_top env)"

definition ws_focus_window_up_or_bottom :: "'w layout_env \<Rightarrow> 'w lworkspace \<Rightarrow> 'w lworkspace res" where
  "ws_focus_window_up_or_bottom env = ws_focus_or_else (ws_focus_up env) (ws_focus_window_bottom env)"

subsection \<open>Moving windows and columns\<close>

definition ws_move_left :: "'w lworkspace \<Rightarrow> ('w lworkspace \<times> bool) res" where
  "ws_move_left ws =
     (if floating_get ws then with_true (on_floating fl_move_left ws) else on_scrolling_b sc_move_left ws)"

definition ws_move_right :: "'w lworkspace \<Rightarrow> ('w lworkspace \<times> bool) res" where
  "ws_move_right ws =
     (if floating_get ws then with_true (on_floating fl_move_right ws) else on_scrolling_b sc_move_right ws)"

definition ws_move_column_to_first :: "'w lworkspace \<Rightarrow> 'w lworkspace res" where
  "ws_move_column_to_first = unless_floating sc_move_column_to_first"

definition ws_move_column_to_last :: "'w lworkspace \<Rightarrow> 'w lworkspace res" where
  "ws_move_column_to_last = unless_floating sc_move_column_to_last"

definition ws_move_column_to_index :: "nat \<Rightarrow> 'w lworkspace \<Rightarrow> 'w lworkspace res" where
  "ws_move_column_to_index index = unless_floating (sc_move_column_to_index index)"

definition ws_move_down :: "'w lworkspace \<Rightarrow> ('w lworkspace \<times> bool) res" where
  "ws_move_down ws =
     (if floating_get ws then with_true (on_floating fl_move_down ws) else on_scrolling_b sc_move_down ws)"

definition ws_move_up :: "'w lworkspace \<Rightarrow> ('w lworkspace \<times> bool) res" where
  "ws_move_up ws =
     (if floating_get ws then with_true (on_floating fl_move_up ws) else on_scrolling_b sc_move_up ws)"

definition ws_consume_or_expel_window_left :: "'w option \<Rightarrow> 'w lworkspace \<Rightarrow> 'w lworkspace res" where
  "ws_consume_or_expel_window_left window ws =
     (if is_target_floating window ws then Inr ws
      else on_scrolling (consume_or_expel_window_left window) ws)"

definition ws_consume_or_expel_window_right :: "'w option \<Rightarrow> 'w lworkspace \<Rightarrow> 'w lworkspace res" where
  "ws_consume_or_expel_window_right window ws =
     (if is_target_floating window ws then Inr ws
      else on_scrolling (consume_or_expel_window_right window) ws)"

definition ws_consume_into_column :: "'w lworkspace \<Rightarrow> 'w lworkspace res" where
  "ws_consume_into_column = unless_floating consume_into_column"

definition ws_expel_from_column :: "'w lworkspace \<Rightarrow> 'w lworkspace res" where
  "ws_expel_from_column = unless_floating expel_from_column"

definition ws_swap_window_in_direction :: "scroll_direction \<Rightarrow> 'w lworkspace \<Rightarrow> 'w lworkspace res" where
  "ws_swap_window_in_direction direction = unless_floating (swap_window_in_direction direction)"

definition ws_toggle_column_tabbed_display :: "'w lworkspace \<Rightarrow> 'w lworkspace res" where
  "ws_toggle_column_tabbed_display = unless_floating toggle_column_tabbed_display"

definition ws_set_column_display :: "column_display \<Rightarrow> 'w lworkspace \<Rightarrow> 'w lworkspace res" where
  "ws_set_column_display display = unless_floating (sc_set_column_display display)"

definition ws_toggle_full_width :: "'w lworkspace \<Rightarrow> 'w lworkspace res" where
  "ws_toggle_full_width = unless_floating sc_toggle_full_width"

subsection \<open>Interactive resize\<close>

definition ws_interactive_resize_begin :: "'w \<Rightarrow> 'w lworkspace \<Rightarrow> ('w lworkspace \<times> bool) res" where
  "ws_interactive_resize_begin window ws =
     (if fl_has_window window (ws_floating ws) then on_floating_b (fl_interactive_resize_begin window) ws
      else on_scrolling_b (sc_interactive_resize_begin window) ws)"

definition ws_interactive_resize_end :: "'w option \<Rightarrow> 'w lworkspace \<Rightarrow> 'w lworkspace res" where
  "ws_interactive_resize_end window ws =
     (case window of
        Some w \<Rightarrow> if fl_has_window w (ws_floating ws)
          then Inr (ws\<lparr>ws_floating := fl_interactive_resize_end (Some w) (ws_floating ws)\<rparr>)
          else on_scrolling (sc_interactive_resize_end (Some w)) ws
      | None \<Rightarrow> on_scrolling (sc_interactive_resize_end None)
                  (ws\<lparr>ws_floating := fl_interactive_resize_end None (ws_floating ws)\<rparr>))"

subsection \<open>Construction and configuration\<close>

text \<open>
  \<open>new\<close>, \<open>new_with_config\<close> and \<open>new_with_config_no_outputs\<close>. Of the configuration, the name, the output to
  open on and the column display of its layout section. The identifier is the next one of the
  global counter.
\<close>

record workspace_config =
  wc_name :: string
  wc_open_on_output :: "string option"
  wc_layout_display :: "column_display option"

definition merged_display :: "column_display option \<Rightarrow> column_display \<Rightarrow> column_display" where
  "merged_display layout_config base = (case layout_config of Some d \<Rightarrow> d | None \<Rightarrow> base)"

definition ws_new_with_config ::
  "loutput \<Rightarrow> workspace_config option \<Rightarrow> column_display \<Rightarrow> nat \<Rightarrow> 'w lworkspace" where
  "ws_new_with_config output config base_options next_id =
     (let layout_config = Option.bind config wc_layout_display
      in \<lparr>ws_scrolling = scrolling_new (merged_display layout_config base_options),
          ws_floating = floating_new (ov_area (out_view output)),
          ws_floating_is_active = FloatingNo,
          ws_original_output =
            (case Option.bind config wc_open_on_output of Some out \<Rightarrow> out | None \<Rightarrow> output_id output),
          ws_output = Some output, ws_view = out_view output, ws_base_display = base_options,
          ws_name = map_option wc_name config, ws_layout_display = layout_config, ws_id = next_id\<rparr>)"

definition ws_new :: "loutput \<Rightarrow> column_display \<Rightarrow> nat \<Rightarrow> 'w lworkspace" where
  "ws_new output base_options next_id = ws_new_with_config output None base_options next_id"

definition no_output_view :: output_view where
  "no_output_view = \<lparr>ov_integer_scale = 1, ov_fractional_scale = 1, ov_transform = 0,
     ov_size = \<lparr>sz_w = 1280, sz_h = 720\<rparr>,
     ov_area = \<lparr>rc_loc = \<lparr>pt_x = 0, pt_y = 0\<rparr>, rc_size = \<lparr>sz_w = 1280, sz_h = 720\<rparr>\<rparr>\<rparr>"

definition ws_new_with_config_no_outputs ::
  "workspace_config option \<Rightarrow> column_display \<Rightarrow> nat \<Rightarrow> 'w lworkspace" where
  "ws_new_with_config_no_outputs config base_options next_id =
     (let layout_config = Option.bind config wc_layout_display
      in \<lparr>ws_scrolling = scrolling_new (merged_display layout_config base_options),
          ws_floating = floating_new (ov_area no_output_view),
          ws_floating_is_active = FloatingNo,
          ws_original_output =
            (case Option.bind config wc_open_on_output of Some out \<Rightarrow> out | None \<Rightarrow> []),
          ws_output = None, ws_view = no_output_view, ws_base_display = base_options,
          ws_name = map_option wc_name config, ws_layout_display = layout_config, ws_id = next_id\<rparr>)"

definition ws_new_no_outputs :: "column_display \<Rightarrow> nat \<Rightarrow> 'w lworkspace" where
  "ws_new_no_outputs base_options next_id = ws_new_with_config_no_outputs None base_options next_id"

definition sc_update_config :: "column_display \<Rightarrow> 'w scrolling_space \<Rightarrow> 'w scrolling_space" where
  "sc_update_config display s = s\<lparr>sc_default_column_display := display\<rparr>"

definition ws_update_config :: "column_display \<Rightarrow> 'w lworkspace \<Rightarrow> 'w lworkspace" where
  "ws_update_config base_options ws =
     ws\<lparr>ws_scrolling := sc_update_config (merged_display (ws_layout_display ws) base_options) (ws_scrolling ws),
        ws_floating := fl_update_config (ov_area (ws_view ws)) (ws_floating ws),
        ws_base_display := base_options\<rparr>"

definition ws_update_layout_config :: "column_display option \<Rightarrow> 'w lworkspace \<Rightarrow> 'w lworkspace" where
  "ws_update_layout_config layout_config ws =
     (if ws_layout_display ws = layout_config then ws
      else ws_update_config (ws_base_display ws) (ws\<lparr>ws_layout_display := layout_config\<rparr>))"

text \<open>\<open>set_view_size\<close> on the scale, transform, size and working area of the output.\<close>

definition ws_set_view_size :: "output_view \<Rightarrow> 'w lworkspace \<Rightarrow> 'w lworkspace" where
  "ws_set_view_size view ws =
     (if ws_view ws = view then ws
      else let fractional_scale_changed = (ov_fractional_scale (ws_view ws) \<noteq> ov_fractional_scale view);
               ws = ws\<lparr>ws_view := view\<rparr>
           in if fractional_scale_changed then ws_update_config (ws_base_display ws) ws
              else ws\<lparr>ws_scrolling :=
                       sc_update_config (sc_default_column_display (ws_scrolling ws)) (ws_scrolling ws),
                     ws_floating := fl_update_config (ov_area view) (ws_floating ws)\<rparr>)"

definition ws_set_output :: "loutput option \<Rightarrow> 'w lworkspace \<Rightarrow> 'w lworkspace" where
  "ws_set_output output ws =
     (if map_option out_handle (ws_output ws) = map_option out_handle output then ws
      else let ws = ws\<lparr>ws_output := output\<rparr>
           in case output of
                None \<Rightarrow> ws
              | Some output \<Rightarrow>
                  ws_set_view_size (out_view output)
                    (if matches (out_name output) (ws_original_output ws)
                     then ws\<lparr>ws_original_output := output_id output\<rparr> else ws))"

end
