(* ===== verification/Workspace_Inv.thy ===== *)
theory Workspace_Inv
  imports Workspace_Dispatch
begin

text \<open>
  The invariant of a workspace and its preservation. The two layers meet the same contract, stated
  as the locale \<open>tile_layer\<close>; moving a window from one layer to the other is a lemma about any two
  of them.
\<close>

subsection \<open>The contract of a layer\<close>

locale tile_layer =
  fixes inv :: "'s \<Rightarrow> bool"
    and wins :: "'s \<Rightarrow> 'w multiset"
    and add :: "'w tile \<Rightarrow> bool \<Rightarrow> column_width \<Rightarrow> bool \<Rightarrow> 's \<Rightarrow> 's res"
    and remove :: "'w \<Rightarrow> 's \<Rightarrow> ('w removed_tile \<times> 's) res"
  assumes add_ok: "inv s \<Longrightarrow> tl_window tile \<notin># wins s \<Longrightarrow>
      returns (add tile act width full s) (\<lambda>s'. inv s' \<and> wins s' = add_mset (tl_window tile) (wins s))"
    and remove_ok: "inv s \<Longrightarrow> w \<in># wins s \<Longrightarrow>
      returns (remove w s) (\<lambda>(r, s'). inv s' \<and> tl_window (rt_tile r) = w \<and> wins s = add_mset w (wins s'))"

locale layer_transfer =
  src: tile_layer inv wins add remove + dst: tile_layer inv' wins' add' remove'
  for inv :: "'s \<Rightarrow> bool" and wins :: "'s \<Rightarrow> 'w multiset" and add remove
    and inv' :: "'t \<Rightarrow> bool" and wins' :: "'t \<Rightarrow> 'w multiset" and add' remove'
begin

lemma transfer_ok:
  assumes "inv s" "inv' t" "w \<in># wins s" "w \<notin># wins' t"
    and "\<And>r. tl_window (rt_tile r) = w \<Longrightarrow> tl_window (change r) = w"
  shows "returns (bind_res (remove w s) (\<lambda>(r, s'). bind_res (add' (change r) act (width r) (full r) t) (\<lambda>t'. Inr (s', t'))))
    (\<lambda>(s', t'). inv s' \<and> inv' t' \<and> wins s = add_mset w (wins s') \<and> wins' t' = add_mset w (wins' t))"
proof -
  obtain r s' where r: "remove w s = Inr (r, s')" "inv s'" "tl_window (rt_tile r) = w" "wins s = add_mset w (wins s')"
    using src.remove_ok [OF assms(1,3)] by (auto simp: returns_def)
  have "tl_window (change r) \<notin># wins' t" using assms(4,5) r(3) by simp
  from dst.add_ok [OF assms(2) this, of act "width r" "full r"] r assms(5) [OF r(3)] show ?thesis
    by (auto elim!: returns_mono)
qed

end

lemma sc_remove_tile_ok:
  "scrolling_inv s \<Longrightarrow> w \<in># sc_windows s \<Longrightarrow>
   returns (sc_remove_tile w s) (\<lambda>(r, s'). scrolling_inv s' \<and> tl_window (rt_tile r) = w \<and>
     sc_windows s = add_mset w (sc_windows s'))"
  by (rule returns_mono [OF remove_tile_step]) auto

interpretation tiled: tile_layer scrolling_inv sc_windows
  "\<lambda>tile act width full. sc_add_tile None tile act width full" sc_remove_tile
proof
  fix s :: "'w scrolling_space" and tile act width full w
  show "scrolling_inv s \<Longrightarrow> returns (sc_add_tile None tile act width full s)
      (\<lambda>s'. scrolling_inv s' \<and> sc_windows s' = add_mset (tl_window tile) (sc_windows s))"
    by (rule returns_mono [OF sc_add_tile_ok]) auto
  show "scrolling_inv s \<Longrightarrow> w \<in># sc_windows s \<Longrightarrow> returns (sc_remove_tile w s)
      (\<lambda>(r, s'). scrolling_inv s' \<and> tl_window (rt_tile r) = w \<and> sc_windows s = add_mset w (sc_windows s'))"
    by (rule sc_remove_tile_ok)
qed

text \<open>The floating layer, for any acyclic parent relation.\<close>

definition fl_inv :: "'w parent_of \<Rightarrow> 'w floating_space \<Rightarrow> bool" where
  "fl_inv parent s \<longleftrightarrow> parents_acyclic parent \<and> floating_inv parent s"

definition fl_wins :: "'w floating_space \<Rightarrow> 'w multiset" where
  "fl_wins s = mset (fl_windows s)"

lemma added_to_floating_wins: "added_to_floating tile act s s' \<Longrightarrow> fl_wins s' = add_mset (tl_window tile) (fl_wins s)"
  by (simp add: added_to_floating_def fl_wins_def fl_windows_def)

lemma removed_from_floating_wins:
  "removed_from_floating w s (r, s') \<Longrightarrow> tl_window (rt_tile r) = w \<and> fl_wins s = add_mset w (fl_wins s')"
  by (auto simp: removed_from_floating_def fl_wins_def fl_windows_def)

lemma mem_fl_wins [simp]: "w \<in># fl_wins s \<longleftrightarrow> w \<in> set (fl_windows s)"
  by (simp add: fl_wins_def)

interpretation floating: tile_layer "fl_inv parent" fl_wins
  "\<lambda>tile act width full. fl_add_tile parent tile act" fl_remove_tile for parent
proof
  fix s :: "'a floating_space" and tile act width full w
  assume inv: "fl_inv parent s"
  then have acyc: "parents_acyclic parent" and fi: "floating_inv parent s" by (simp_all add: fl_inv_def)
  show "tl_window tile \<notin># fl_wins s \<Longrightarrow> returns (fl_add_tile parent tile act s)
      (\<lambda>s'. fl_inv parent s' \<and> fl_wins s' = add_mset (tl_window tile) (fl_wins s))"
    unfolding fl_add_tile_def
    by (rule returns_mono [OF fl_add_tile_at_ok [OF acyc fi]]) (auto simp: fl_inv_def acyc dest: added_to_floating_wins)
  show "w \<in># fl_wins s \<Longrightarrow> returns (fl_remove_tile w s)
      (\<lambda>(r, s'). fl_inv parent s' \<and> tl_window (rt_tile r) = w \<and> fl_wins s = add_mset w (fl_wins s'))"
    by (rule returns_mono [OF fl_remove_tile_ok [OF fi]]) (auto simp: fl_inv_def acyc dest: removed_from_floating_wins)
qed

interpretation to_tiling: layer_transfer "fl_inv parent" fl_wins "\<lambda>tile act width full. fl_add_tile parent tile act"
  fl_remove_tile scrolling_inv sc_windows "\<lambda>tile act width full. sc_add_tile None tile act width full" sc_remove_tile
  for parent ..

interpretation to_floating: layer_transfer scrolling_inv sc_windows
  "\<lambda>tile act width full. sc_add_tile None tile act width full" sc_remove_tile "fl_inv parent" fl_wins
  "\<lambda>tile act width full. fl_add_tile parent tile act" fl_remove_tile
  for parent ..

subsection \<open>The invariant\<close>

definition ws_windows :: "'w lworkspace \<Rightarrow> 'w multiset" where
  "ws_windows ws = sc_windows (ws_scrolling ws) + fl_wins (ws_floating ws)"

definition mset_distinct :: "'w multiset \<Rightarrow> bool" where
  "mset_distinct M \<longleftrightarrow> (\<forall>w. count M w \<le> 1)"

definition workspace_inv :: "'w parent_of \<Rightarrow> 'w lworkspace \<Rightarrow> bool" where
  "workspace_inv parent ws \<longleftrightarrow> scrolling_inv (ws_scrolling ws) \<and> fl_inv parent (ws_floating ws) \<and>
     mset_distinct (ws_windows ws) \<and>
     (if fl_is_empty (ws_floating ws) then \<not> floating_get ws
      else sc_is_empty (ws_scrolling ws) \<longrightarrow> floating_get ws)"

text \<open>The identity of a workspace and its name, which operations on its windows keep.\<close>

definition ws_same_id :: "'w lworkspace \<Rightarrow> 'w lworkspace \<Rightarrow> bool" where
  "ws_same_id ws ws' \<longleftrightarrow> ws_id ws' = ws_id ws \<and> ws_name ws' = ws_name ws"

definition ws_keeps :: "'w parent_of \<Rightarrow> 'w lworkspace \<Rightarrow> 'w lworkspace \<Rightarrow> bool" where
  "ws_keeps parent ws ws' \<longleftrightarrow> workspace_inv parent ws' \<and> ws_windows ws' = ws_windows ws \<and> ws_same_id ws ws'"

lemma ws_keeps_refl: "workspace_inv parent ws \<Longrightarrow> ws_keeps parent ws ws"
  by (simp add: ws_keeps_def ws_same_id_def)

lemma ws_keeps_trans: "ws_keeps parent a b \<Longrightarrow> ws_keeps parent b c \<Longrightarrow> ws_keeps parent a c"
  by (simp add: ws_keeps_def ws_same_id_def)

lemma mset_distinct_empty [simp]: "mset_distinct {#}"
  by (simp add: mset_distinct_def)

lemma mset_distinct_add [simp]: "mset_distinct (add_mset w M) \<longleftrightarrow> w \<notin># M \<and> mset_distinct M"
proof
  assume d: "mset_distinct (add_mset w M)"
  have "count M v \<le> 1" for v using d [unfolded mset_distinct_def, rule_format, of v] by (simp split: if_splits)
  moreover have "count M w = 0" using d [unfolded mset_distinct_def, rule_format, of w] by simp
  ultimately show "w \<notin># M \<and> mset_distinct M" by (simp add: mset_distinct_def not_in_iff)
next
  assume "w \<notin># M \<and> mset_distinct M"
  then show "mset_distinct (add_mset w M)" by (simp add: mset_distinct_def not_in_iff)
qed

lemma mset_distinct_sub:
  assumes "mset_distinct (M + N)" shows "mset_distinct M" "mset_distinct N"
proof -
  have "count M v + count N v \<le> 1" for v using assms by (simp add: mset_distinct_def)
  then show "mset_distinct M" "mset_distinct N" unfolding mset_distinct_def by (meson add_leD1 add_leD2)+
qed

lemma mset_distinct_disjoint:
  assumes "mset_distinct (M + N)" "w \<in># M" shows "w \<notin># N"
proof -
  have "count M w + count N w \<le> 1" using assms(1) by (simp add: mset_distinct_def)
  moreover have "0 < count M w" using assms(2) by (simp only: count_greater_zero_iff)
  ultimately have "count N w = 0" by linarith
  then show ?thesis by (simp only: not_in_iff)
qed

lemma sc_is_empty_iff: "scrolling_inv s \<Longrightarrow> sc_is_empty s \<longleftrightarrow> sc_windows s = {#}"
proof -
  assume inv: "scrolling_inv s"
  have "sc_windows s \<noteq> {#}" if "sc_columns s = c # cs" for c cs
    using scrolling_invD(1) [OF inv] that by (auto simp: sc_windows_def column_inv_def col_windows_def)
  then show ?thesis by (cases "sc_columns s") (auto simp: sc_is_empty_def sc_windows_def)
qed

lemma fl_is_empty_iff: "fl_is_empty s \<longleftrightarrow> fl_wins s = {#}"
  by (simp add: fl_is_empty_def fl_wins_def fl_windows_def)

lemma set_sc_tiles: "tl_window ` set (sc_tiles s) = set_mset (sc_windows s)"
  by (auto simp: sc_tiles_def sc_windows_def cols_windows_def col_windows_def)

lemma ws_tiles_windows: "tl_window ` set (ws_tiles ws) = set_mset (ws_windows ws)"
  by (simp add: ws_tiles_def image_Un set_sc_tiles ws_windows_def fl_wins_def fl_windows_def)

lemma ws_has_window_iff [simp]: "ws_has_window w ws \<longleftrightarrow> w \<in># ws_windows ws"
  unfolding ws_has_window_def list_ex_iff ws_tiles_windows [symmetric] by (auto simp: image_iff)

lemma ws_has_windows_iff: "ws_has_windows ws \<longleftrightarrow> ws_windows ws \<noteq> {#}"
proof -
  have "sc_tiles s = [] \<longleftrightarrow> sc_windows s = {#}" for s :: "'a scrolling_space"
    using set_sc_tiles [of s] by (metis image_is_empty set_empty set_mset_eq_empty_iff)
  then show ?thesis
    by (auto simp: ws_has_windows_def ws_tiles_def ws_windows_def fl_wins_def fl_windows_def)
qed

end
