(* ===== verification/Workspace_Ops.thy ===== *)
theory Workspace_Ops
  imports Workspace_Inv
begin

text \<open>
  Every operation of a workspace returns, keeps the invariant of the workspace, and changes its
  windows only as its caller asked.
\<close>

subsection \<open>Focus and windows\<close>

lemma workspace_inv_iff:
  "workspace_inv parent ws \<longleftrightarrow> scrolling_inv (ws_scrolling ws) \<and> fl_inv parent (ws_floating ws) \<and>
     mset_distinct (ws_windows ws) \<and>
     (fl_wins (ws_floating ws) = {#} \<longrightarrow> \<not> floating_get ws) \<and>
     (fl_wins (ws_floating ws) \<noteq> {#} \<longrightarrow> sc_windows (ws_scrolling ws) = {#} \<longrightarrow> floating_get ws)"
  unfolding workspace_inv_def fl_is_empty_iff by (auto simp: sc_is_empty_iff)

lemma workspace_invD:
  assumes "workspace_inv parent ws"
  shows "scrolling_inv (ws_scrolling ws)" "fl_inv parent (ws_floating ws)" "parents_acyclic parent"
    "floating_inv parent (ws_floating ws)" "mset_distinct (ws_windows ws)" "sc_distinct (ws_scrolling ws)"
    "fl_wins (ws_floating ws) = {#} \<Longrightarrow> \<not> floating_get ws"
    "fl_wins (ws_floating ws) \<noteq> {#} \<Longrightarrow> sc_windows (ws_scrolling ws) = {#} \<Longrightarrow> floating_get ws"
proof -
  have d: "mset_distinct (ws_windows ws)" using assms by (simp add: workspace_inv_def)
  show "sc_distinct (ws_scrolling ws)"
    using mset_distinct_sub(1) [OF d [unfolded ws_windows_def]] by (simp add: mset_distinct_def sc_distinct_count)
qed (use assms in \<open>auto simp: workspace_inv_iff fl_inv_def\<close>)

lemma ws_update_simps [simp]:
  "floating_get (ws\<lparr>ws_scrolling := s\<rparr>) = floating_get ws" "floating_get (ws\<lparr>ws_floating := f\<rparr>) = floating_get ws"
  "floating_get (ws\<lparr>ws_floating_is_active := a\<rparr>) = (a = FloatingYes)"
  "ws_windows (ws\<lparr>ws_scrolling := s\<rparr>) = sc_windows s + fl_wins (ws_floating ws)"
  "ws_windows (ws\<lparr>ws_floating := f\<rparr>) = sc_windows (ws_scrolling ws) + fl_wins f"
  "ws_windows (ws\<lparr>ws_floating_is_active := a\<rparr>) = ws_windows ws"
  by (simp_all add: floating_get_def ws_windows_def)

lemma focus_if_fields [simp]:
  "ws_scrolling (focus_if b fa ws) = ws_scrolling ws" "ws_floating (focus_if b fa ws) = ws_floating ws"
  "ws_windows (focus_if b fa ws) = ws_windows ws"
  "floating_get (focus_if b fa ws) = (if b then fa = FloatingYes else floating_get ws)"
  "ws_same_id ws0 (focus_if b fa ws) = ws_same_id ws0 ws"
  by (simp_all add: focus_if_def ws_same_id_def)

lemma ws_same_id_simps [simp]:
  "ws_same_id ws ws" "ws_same_id ws (ws'\<lparr>ws_scrolling := s\<rparr>) = ws_same_id ws ws'"
  "ws_same_id ws (ws'\<lparr>ws_floating := f\<rparr>) = ws_same_id ws ws'"
  "ws_same_id ws (ws'\<lparr>ws_floating_is_active := a\<rparr>) = ws_same_id ws ws'"
  by (simp_all add: ws_same_id_def)

text \<open>The active window is one of the windows of the focused layer; there is none only when there are no windows.\<close>

lemma ws_active_window_cases:
  assumes inv: "workspace_inv parent ws"
  obtains (floating) w where "floating_get ws" "ws_active_window ws = Inr (Some w)" "w \<in># fl_wins (ws_floating ws)"
  | (tiling) w where "\<not> floating_get ws" "ws_active_window ws = Inr (Some w)" "w \<in># sc_windows (ws_scrolling ws)"
  | (empty) "\<not> floating_get ws" "ws_active_window ws = Inr None" "ws_windows ws = {#}"
proof (cases "floating_get ws")
  case True
  let ?f = "ws_floating ws"
  have "fl_wins ?f \<noteq> {#}" using workspace_invD(7) [OF inv] True by blast
  then obtain w where w: "fl_active_window_id ?f = Some w" "w \<in> set (fl_windows ?f)"
    using floating_invD(3) [OF workspace_invD(4) [OF inv]]
    by (auto simp: focus_inv_def fl_wins_def split: option.splits)
  then obtain tile where "find (\<lambda>tile. tl_window tile = w) (fl_tiles ?f) = Some tile" "tl_window tile = w"
    unfolding fl_windows_def by (metis (mono_tags, lifting) find_None_iff find_Some_iff image_iff list.set_map not_None_eq)
  with w True show ?thesis by (intro floating [of w]) (simp_all add: ws_active_window_def fl_active_window_def)
next
  case False
  let ?s = "ws_scrolling ws"
  show ?thesis
  proof (cases "sc_columns ?s = []")
    case True
    then have "sc_windows ?s = {#}" by (simp add: sc_windows_def cols_windows_def)
    then have "ws_windows ws = {#}" using workspace_invD(8) [OF inv] False by (auto simp: ws_windows_def)
    with True False show ?thesis by (intro empty) (simp_all add: ws_active_window_def sc_active_window_def)
  next
    case nonempty: False
    let ?a = "sc_active_column_idx ?s"
    have a: "?a < length (sc_columns ?s)" using scrolling_invD(2) [OF workspace_invD(1) [OF inv] nonempty] .
    have col: "column_inv (sc_columns ?s ! ?a)" using scrolling_inv_nth [OF workspace_invD(1) [OF inv] a] .
    let ?w = "tl_window (col_tiles (sc_columns ?s ! ?a) ! col_active_tile_idx (sc_columns ?s ! ?a))"
    have "col_active_tile_idx (sc_columns ?s ! ?a) < length (col_tiles (sc_columns ?s ! ?a))"
      using col by (simp add: column_inv_def)
    then have "?w \<in> tl_window ` set (sc_tiles ?s)"
      unfolding sc_tiles_def set_concat set_map using nth_mem [OF a] nth_mem by blast
    then show ?thesis using False sc_active_window_eq [OF a col]
      by (intro tiling [of ?w]) (simp_all add: ws_active_window_def set_sc_tiles)
  qed
qed

subsection \<open>Layers\<close>

lemma sc_keeps_ws_keeps:
  assumes "workspace_inv parent ws" "sc_keeps (ws_scrolling ws) s"
  shows "ws_keeps parent ws (ws\<lparr>ws_scrolling := s\<rparr>)"
  using assms by (simp add: ws_keeps_def workspace_inv_iff sc_keeps_def ws_windows_def)

lemma fl_keeps_ws_keeps:
  assumes "workspace_inv parent ws" "fl_keeps parent (ws_floating ws) f"
  shows "ws_keeps parent ws (ws\<lparr>ws_floating := f\<rparr>)"
  using assms by (simp add: ws_keeps_def workspace_inv_iff fl_keeps_def fl_inv_def ws_windows_def fl_wins_def)

lemma focus_ws_keeps:
  assumes "ws_keeps parent ws ws'"
    and "if a = FloatingYes then fl_wins (ws_floating ws') \<noteq> {#} else sc_windows (ws_scrolling ws') \<noteq> {#} \<or> fl_wins (ws_floating ws') = {#}"
  shows "ws_keeps parent ws (ws'\<lparr>ws_floating_is_active := a\<rparr>)"
  using assms by (auto simp: ws_keeps_def workspace_inv_iff split: if_splits)

text \<open>The rearranging operations of the scrolling layer, through its step function.\<close>

definition rearranging :: "'w scrolling_op \<Rightarrow> bool" where
  "rearranging op \<longleftrightarrow> (case op of
     AddTile _ _ _ _ _ \<Rightarrow> False | AddTileToColumn _ _ _ _ \<Rightarrow> False | AddTileRightOf _ _ _ _ _ \<Rightarrow> False
   | AddColumn _ _ _ \<Rightarrow> False | RemoveActiveTile \<Rightarrow> False | RemoveTile _ \<Rightarrow> False
   | RemoveActiveColumn \<Rightarrow> False | _ \<Rightarrow> True)"

lemma scrolling_step_keeps:
  assumes "workspace_inv parent ws" "op_ok op (ws_scrolling ws)" "rearranging op"
  shows "returns (scrolling_step op (ws_scrolling ws)) (sc_keeps (ws_scrolling ws))"
proof -
  have "op_adds op = {#}" "op \<noteq> RemoveActiveTile" "\<And>w. op \<noteq> RemoveTile w" "op \<noteq> RemoveActiveColumn"
    "\<And>idx c a. op \<noteq> AddColumn idx c a"
    using assms(3) by (auto simp: rearranging_def split: scrolling_op.splits)
  then show ?thesis by (rule rearranging_step_keeps [OF workspace_invD(1,6) [OF assms(1)] assms(2)])
qed

lemma on_scrolling_keeps:
  assumes "workspace_inv parent ws" "f (ws_scrolling ws) = scrolling_step op (ws_scrolling ws)"
    "op_ok op (ws_scrolling ws)" "rearranging op"
  shows "returns (on_scrolling f ws) (ws_keeps parent ws)"
    "returns (unless_floating f ws) (ws_keeps parent ws)"
proof -
  show *: "returns (on_scrolling f ws) (ws_keeps parent ws)"
    using scrolling_step_keeps [OF assms(1,3,4)] assms(2)
    by (auto simp: on_scrolling_def sc_keeps_ws_keeps [OF assms(1)] elim!: returns_mono)
  show "returns (unless_floating f ws) (ws_keeps parent ws)"
    using * assms(1) by (auto simp: unless_floating_def ws_keeps_refl)
qed

definition flagged :: "('s \<Rightarrow> bool) \<Rightarrow> 's \<times> bool \<Rightarrow> bool" where
  "flagged P = (\<lambda>(s, _). P s)"

lemma returns_state_of: "returns (state_of r) P \<longleftrightarrow> returns r (\<lambda>(s, _). P s)"
  by (simp add: state_of_def case_prod_unfold)

lemma on_scrolling_b_keeps:
  assumes "workspace_inv parent ws" "state_of (f (ws_scrolling ws)) = scrolling_step op (ws_scrolling ws)"
    "op_ok op (ws_scrolling ws)" "rearranging op"
  shows "returns (on_scrolling_b f ws) (flagged (ws_keeps parent ws))"
  using scrolling_step_keeps [OF assms(1,3,4), folded assms(2)] sc_keeps_ws_keeps [OF assms(1)]
  by (auto simp: on_scrolling_b_def returns_state_of flagged_def elim!: returns_mono)

lemma on_floating_keeps:
  assumes "workspace_inv parent ws" "returns (f (ws_floating ws)) (fl_keeps parent (ws_floating ws))"
  shows "returns (on_floating f ws) (ws_keeps parent ws)"
  using assms(2) by (auto simp: on_floating_def fl_keeps_ws_keeps [OF assms(1)] elim!: returns_mono)

lemma on_floating_b_keeps:
  assumes "workspace_inv parent ws" "returns (f (ws_floating ws)) (\<lambda>(s, b). fl_keeps parent (ws_floating ws) s)"
  shows "returns (on_floating_b f ws) (flagged (ws_keeps parent ws))"
  using assms(2)
  by (auto simp: on_floating_b_def flagged_def fl_keeps_ws_keeps [OF assms(1)] elim!: returns_mono)

lemma returns_discard: "returns (discard r) P \<longleftrightarrow> returns r (flagged P)"
  by (simp add: discard_def flagged_def case_prod_unfold)

lemma returns_with_true: "returns (with_true r) (flagged P) \<longleftrightarrow> returns r P"
  by (simp add: with_true_def flagged_def)

subsection \<open>Operations that only choose a layer\<close>

lemma ws_focus_horizontal_keeps:
  assumes inv: "workspace_inv (env_parent env) ws"
  shows "returns (ws_focus_left env ws) (flagged (ws_keeps (env_parent env) ws))"
    "returns (ws_focus_right env ws) (flagged (ws_keeps (env_parent env) ws))"
    "returns (ws_focus_down env ws) (flagged (ws_keeps (env_parent env) ws))"
    "returns (ws_focus_up env ws) (flagged (ws_keeps (env_parent env) ws))"
proof -
  have fl: "returns (on_floating_b (focus_directional distance (env_parent env)) ws) (flagged (ws_keeps (env_parent env) ws))"
    for distance
    by (rule on_floating_b_keeps [OF inv], rule returns_mono [OF focus_directional_ok [OF workspace_invD(3,4) [OF inv]]])
      auto
  note sc = on_scrolling_b_keeps [OF inv]
  show "returns (ws_focus_left env ws) (flagged (ws_keeps (env_parent env) ws))"
    using fl sc [of sc_focus_left FocusLeft] by (simp add: ws_focus_left_def fl_focus_defs rearranging_def)
  show "returns (ws_focus_right env ws) (flagged (ws_keeps (env_parent env) ws))"
    using fl sc [of sc_focus_right FocusRight] by (simp add: ws_focus_right_def fl_focus_defs rearranging_def)
  show "returns (ws_focus_down env ws) (flagged (ws_keeps (env_parent env) ws))"
    using fl sc [of sc_focus_down FocusDown] by (simp add: ws_focus_down_def fl_focus_defs rearranging_def)
  show "returns (ws_focus_up env ws) (flagged (ws_keeps (env_parent env) ws))"
    using fl sc [of sc_focus_up FocusUp] by (simp add: ws_focus_up_def fl_focus_defs rearranging_def)
qed

lemma ws_focus_extreme_keeps:
  assumes inv: "workspace_inv (env_parent env) ws"
  shows "returns (ws_focus_column_first env ws) (ws_keeps (env_parent env) ws)"
    "returns (ws_focus_column_last env ws) (ws_keeps (env_parent env) ws)"
    "returns (ws_focus_window_top env ws) (ws_keeps (env_parent env) ws)"
    "returns (ws_focus_window_bottom env ws) (ws_keeps (env_parent env) ws)"
proof -
  note acyc = workspace_invD(3,4) [OF inv]
  have fl: "returns (on_floating (focus_extreme (min_by key) (env_parent env)) ws) (ws_keeps (env_parent env) ws)"
    "returns (on_floating (focus_extreme (max_by key) (env_parent env)) ws) (ws_keeps (env_parent env) ws)" for key
    by (rule on_floating_keeps [OF inv], rule focus_extreme_ok [OF acyc], erule min_by_mem,
        rule on_floating_keeps [OF inv], rule focus_extreme_ok [OF acyc], erule max_by_mem)
  note sc = on_scrolling_keeps(1) [OF inv]
  show "returns (ws_focus_column_first env ws) (ws_keeps (env_parent env) ws)"
    using fl sc [of sc_focus_column_first FocusColumnFirst]
    by (simp add: ws_focus_column_first_def fl_focus_defs rearranging_def)
  show "returns (ws_focus_column_last env ws) (ws_keeps (env_parent env) ws)"
    using fl sc [of sc_focus_column_last FocusColumnLast]
    by (simp add: ws_focus_column_last_def fl_focus_defs rearranging_def)
  show "returns (ws_focus_window_top env ws) (ws_keeps (env_parent env) ws)"
    using fl sc [of sc_focus_top FocusTop] by (simp add: ws_focus_window_top_def fl_focus_defs rearranging_def)
  show "returns (ws_focus_window_bottom env ws) (ws_keeps (env_parent env) ws)"
    using fl sc [of sc_focus_bottom FocusBottom]
    by (simp add: ws_focus_window_bottom_def fl_focus_defs rearranging_def)
qed

lemma ws_keeps_inv: "ws_keeps parent ws ws' \<Longrightarrow> workspace_inv parent ws'"
  by (simp add: ws_keeps_def)

lemma ws_focus_or_else_keeps:
  assumes "returns (f ws) (flagged (ws_keeps parent ws))"
    and "\<And>ws'. workspace_inv parent ws' \<Longrightarrow> returns (g ws') (ws_keeps parent ws')"
  shows "returns (ws_focus_or_else f g ws) (ws_keeps parent ws)"
  using assms(1) unfolding ws_focus_or_else_def
  by (auto simp: flagged_def elim!: returns_mono dest: ws_keeps_inv intro: returns_mono [OF assms(2)] ws_keeps_trans)

lemma ws_focus_wrapping_keeps:
  assumes inv: "workspace_inv (env_parent env) ws"
  shows "returns (ws_focus_column_right_or_first env ws) (ws_keeps (env_parent env) ws)"
    "returns (ws_focus_column_left_or_last env ws) (ws_keeps (env_parent env) ws)"
    "returns (ws_focus_window_down_or_top env ws) (ws_keeps (env_parent env) ws)"
    "returns (ws_focus_window_up_or_bottom env ws) (ws_keeps (env_parent env) ws)"
  unfolding ws_focus_column_right_or_first_def ws_focus_column_left_or_last_def
    ws_focus_window_down_or_top_def ws_focus_window_up_or_bottom_def
  by (intro ws_focus_or_else_keeps ws_focus_horizontal_keeps ws_focus_extreme_keeps inv; assumption)+

lemma ws_focus_diagonal_keeps:
  assumes inv: "workspace_inv (env_parent env) ws"
  shows "returns (ws_focus_down_or_left env ws) (ws_keeps (env_parent env) ws)"
    "returns (ws_focus_down_or_right env ws) (ws_keeps (env_parent env) ws)"
    "returns (ws_focus_up_or_left env ws) (ws_keeps (env_parent env) ws)"
    "returns (ws_focus_up_or_right env ws) (ws_keeps (env_parent env) ws)"
proof -
  note fl = ws_focus_horizontal_keeps(3,4) [OF inv]
  note sc = on_scrolling_keeps(1) [OF inv]
  note defs = ws_focus_down_def ws_focus_up_def returns_discard rearranging_def
  show "returns (ws_focus_down_or_left env ws) (ws_keeps (env_parent env) ws)"
    using fl sc [of sc_focus_down_or_left FocusDownOrLeft] by (simp add: ws_focus_down_or_left_def defs split: if_splits)
  show "returns (ws_focus_down_or_right env ws) (ws_keeps (env_parent env) ws)"
    using fl sc [of sc_focus_down_or_right FocusDownOrRight] by (simp add: ws_focus_down_or_right_def defs split: if_splits)
  show "returns (ws_focus_up_or_left env ws) (ws_keeps (env_parent env) ws)"
    using fl sc [of sc_focus_up_or_left FocusUpOrLeft] by (simp add: ws_focus_up_or_left_def defs split: if_splits)
  show "returns (ws_focus_up_or_right env ws) (ws_keeps (env_parent env) ws)"
    using fl sc [of sc_focus_up_or_right FocusUpOrRight] by (simp add: ws_focus_up_or_right_def defs split: if_splits)
qed

lemma switch_focus_keeps: "workspace_inv parent ws \<Longrightarrow> ws_keeps parent ws (switch_focus_floating_tiling ws)"
  by (auto simp: switch_focus_floating_tiling_def ws_keeps_refl fl_is_empty_iff sc_is_empty_iff workspace_invD(1)
      intro!: focus_ws_keeps)

lemma focus_layer_keeps:
  assumes "workspace_inv parent ws"
  shows "ws_keeps parent ws (focus_floating ws)" "ws_keeps parent ws (focus_tiling ws)"
  using assms switch_focus_keeps [OF assms] by (simp_all add: focus_floating_def focus_tiling_def ws_keeps_refl)

lemma ws_focus_column_keeps:
  assumes inv: "workspace_inv parent ws"
  shows "returns (ws_focus_column index ws) (ws_keeps parent ws)"
proof -
  let ?ws = "if floating_get ws then focus_tiling ws else ws"
  have keep: "ws_keeps parent ws ?ws" using focus_layer_keeps(2) [OF inv] ws_keeps_refl [OF inv] by simp
  have "returns (on_scrolling (sc_focus_column index) ?ws) (ws_keeps parent ?ws)"
    by (rule on_scrolling_keeps(1) [OF ws_keeps_inv [OF keep], of _ "FocusColumn index"])
      (simp_all add: rearranging_def)
  then show ?thesis unfolding ws_focus_column_def
    by (rule returns_mono) (rule ws_keeps_trans [OF keep])
qed

lemma ws_move_directional_keeps:
  assumes inv: "workspace_inv parent ws"
  shows "returns (ws_move_left ws) (flagged (ws_keeps parent ws))"
    "returns (ws_move_right ws) (flagged (ws_keeps parent ws))"
    "returns (ws_move_down ws) (flagged (ws_keeps parent ws))"
    "returns (ws_move_up ws) (flagged (ws_keeps parent ws))"
proof -
  have fl: "returns (with_true (on_floating (fl_move_by amount) ws)) (flagged (ws_keeps parent ws))" for amount
    unfolding returns_with_true
    by (rule on_floating_keeps [OF inv]) (rule fl_move_by_ok [OF workspace_invD(4) [OF inv]])
  note sc = on_scrolling_b_keeps [OF inv]
  note defs = fl_move_left_def fl_move_right_def fl_move_up_def fl_move_down_def rearranging_def
  show "returns (ws_move_left ws) (flagged (ws_keeps parent ws))"
    using fl sc [of sc_move_left MoveLeft] by (simp add: ws_move_left_def defs)
  show "returns (ws_move_right ws) (flagged (ws_keeps parent ws))"
    using fl sc [of sc_move_right MoveRight] by (simp add: ws_move_right_def defs)
  show "returns (ws_move_down ws) (flagged (ws_keeps parent ws))"
    using fl sc [of sc_move_down MoveDown] by (simp add: ws_move_down_def defs)
  show "returns (ws_move_up ws) (flagged (ws_keeps parent ws))"
    using fl sc [of sc_move_up MoveUp] by (simp add: ws_move_up_def defs)
qed

lemma ws_windows_layer:
  assumes "w \<in># ws_windows ws" "\<not> fl_has_window w (ws_floating ws)"
  shows "w \<in># sc_windows (ws_scrolling ws)"
  using assms by (simp add: ws_windows_def)

lemma ws_consume_or_expel_keeps:
  assumes inv: "workspace_inv parent ws" and w: "\<And>w. window = Some w \<Longrightarrow> w \<in># ws_windows ws"
  shows "returns (ws_consume_or_expel_window_left window ws) (ws_keeps parent ws)"
    "returns (ws_consume_or_expel_window_right window ws) (ws_keeps parent ws)"
proof -
  have ok: "case window of Some w \<Rightarrow> w \<in># sc_windows (ws_scrolling ws) | None \<Rightarrow> True"
    if "\<not> is_target_floating window ws"
    using that w by (auto simp: is_target_floating_def ws_windows_def split: option.splits)
  show "returns (ws_consume_or_expel_window_left window ws) (ws_keeps parent ws)"
    using ok on_scrolling_keeps(1) [OF inv, of "consume_or_expel_window_left window" "ConsumeOrExpelWindowLeft window"]
    by (simp add: ws_consume_or_expel_window_left_def ws_keeps_refl [OF inv] rearranging_def)
  show "returns (ws_consume_or_expel_window_right window ws) (ws_keeps parent ws)"
    using ok on_scrolling_keeps(1) [OF inv, of "consume_or_expel_window_right window" "ConsumeOrExpelWindowRight window"]
    by (simp add: ws_consume_or_expel_window_right_def ws_keeps_refl [OF inv] rearranging_def)
qed

lemma ws_tiling_only_keeps:
  assumes inv: "workspace_inv parent ws"
  shows "returns (ws_focus_window_in_column k ws) (ws_keeps parent ws)"
    "returns (ws_move_column_to_first ws) (ws_keeps parent ws)"
    "returns (ws_move_column_to_last ws) (ws_keeps parent ws)"
    "returns (ws_move_column_to_index i ws) (ws_keeps parent ws)"
    "returns (ws_consume_into_column ws) (ws_keeps parent ws)"
    "returns (ws_expel_from_column ws) (ws_keeps parent ws)"
    "returns (ws_swap_window_in_direction dir ws) (ws_keeps parent ws)"
    "returns (ws_toggle_column_tabbed_display ws) (ws_keeps parent ws)"
    "returns (ws_set_column_display d ws) (ws_keeps parent ws)"
    "returns (ws_toggle_full_width ws) (ws_keeps parent ws)"
proof -
  note keeps = on_scrolling_keeps(2) [OF inv]
  show "returns (ws_focus_window_in_column k ws) (ws_keeps parent ws)"
    unfolding ws_focus_window_in_column_def by (rule keeps [of _ "FocusWindowInColumn k"]) (simp_all add: rearranging_def)
  show "returns (ws_move_column_to_first ws) (ws_keeps parent ws)"
    unfolding ws_move_column_to_first_def by (rule keeps [of _ MoveColumnToFirst]) (simp_all add: rearranging_def)
  show "returns (ws_move_column_to_last ws) (ws_keeps parent ws)"
    unfolding ws_move_column_to_last_def by (rule keeps [of _ MoveColumnToLast]) (simp_all add: rearranging_def)
  show "returns (ws_move_column_to_index i ws) (ws_keeps parent ws)"
    unfolding ws_move_column_to_index_def by (rule keeps [of _ "MoveColumnToIndex i"]) (simp_all add: rearranging_def)
  show "returns (ws_consume_into_column ws) (ws_keeps parent ws)"
    unfolding ws_consume_into_column_def by (rule keeps [of _ ConsumeIntoColumn]) (simp_all add: rearranging_def)
  show "returns (ws_expel_from_column ws) (ws_keeps parent ws)"
    unfolding ws_expel_from_column_def by (rule keeps [of _ ExpelFromColumn]) (simp_all add: rearranging_def)
  show "returns (ws_swap_window_in_direction dir ws) (ws_keeps parent ws)"
    unfolding ws_swap_window_in_direction_def
    by (rule keeps [of _ "SwapWindowInDirection dir"]) (simp_all add: rearranging_def)
  show "returns (ws_toggle_column_tabbed_display ws) (ws_keeps parent ws)"
    unfolding ws_toggle_column_tabbed_display_def
    by (rule keeps [of _ ToggleColumnTabbedDisplay]) (simp_all add: rearranging_def)
  show "returns (ws_set_column_display d ws) (ws_keeps parent ws)"
    unfolding ws_set_column_display_def by (rule keeps [of _ "SetColumnDisplay d"]) (simp_all add: rearranging_def)
  show "returns (ws_toggle_full_width ws) (ws_keeps parent ws)"
    unfolding ws_toggle_full_width_def by (rule keeps [of _ ToggleFullWidth]) (simp_all add: rearranging_def)
qed

lemma ws_interactive_resize_keeps:
  assumes inv: "workspace_inv parent ws"
  shows "w \<in># ws_windows ws \<Longrightarrow> returns (ws_interactive_resize_begin w ws) (flagged (ws_keeps parent ws))"
    "returns (ws_interactive_resize_end window ws) (ws_keeps parent ws)"
proof -
  have fl: "ws_keeps parent ws (ws\<lparr>ws_floating := fl_interactive_resize_end v (ws_floating ws)\<rparr>)" for v
    by (rule fl_keeps_ws_keeps [OF inv fl_resize_end_ok [OF workspace_invD(4) [OF inv]]])
  have sc: "returns (on_scrolling (sc_interactive_resize_end v) ws') (ws_keeps parent ws')"
    if "workspace_inv parent ws'" for v ws'
    by (rule on_scrolling_keeps [OF that, of _ "InteractiveResizeEnd v"]) (simp_all add: rearranging_def)
  have both: "returns (on_scrolling (sc_interactive_resize_end v) (ws\<lparr>ws_floating := fl_interactive_resize_end v (ws_floating ws)\<rparr>))
      (ws_keeps parent ws)" for v
    by (rule returns_mono [OF sc [OF ws_keeps_inv [OF fl]]]) (rule ws_keeps_trans [OF fl])
  show "returns (ws_interactive_resize_end window ws) (ws_keeps parent ws)"
    using fl sc [OF inv] both by (simp add: ws_interactive_resize_end_def split: option.split)
  assume w: "w \<in># ws_windows ws"
  show "returns (ws_interactive_resize_begin w ws) (flagged (ws_keeps parent ws))"
    using on_scrolling_b_keeps [OF inv, of "sc_interactive_resize_begin w" "InteractiveResizeBegin w"]
      on_floating_b_keeps [OF inv, of "fl_interactive_resize_begin w"]
      fl_resize_begin_ok [OF workspace_invD(4) [OF inv], of w] ws_windows_layer [OF w]
    by (simp add: ws_interactive_resize_begin_def rearranging_def)
qed

subsection \<open>Activating\<close>

lemma ws_activate_window_ok:
  assumes inv: "workspace_inv (env_parent env) ws"
  shows "returns (ws_activate_window env w ws) (\<lambda>(ws', found). ws_keeps (env_parent env) ws ws' \<and>
    (found \<longleftrightarrow> w \<in># ws_windows ws) \<and> (found \<longrightarrow> ws_active_window ws' = Inr (Some w)))"
proof (cases "w \<in> set (fl_windows (ws_floating ws))")
  case True
  note ok = fl_activate_window_ok [OF workspace_invD(3,4) [OF inv] True]
  have "ws_keeps (env_parent env) ws (ws\<lparr>ws_floating := f, ws_floating_is_active := FloatingYes\<rparr>) \<and>
      ws_active_window (ws\<lparr>ws_floating := f, ws_floating_is_active := FloatingYes\<rparr>) = Inr (Some w)"
    if f: "fl_keeps (env_parent env) (ws_floating ws) f" "fl_active_window_id f = Some w" for f
  proof -
    have keep: "ws_keeps (env_parent env) ws (ws\<lparr>ws_floating := f, ws_floating_is_active := FloatingYes\<rparr>)"
      using True f by (intro focus_ws_keeps fl_keeps_ws_keeps [OF inv]) (auto simp: fl_keeps_def fl_wins_def)
    then show ?thesis
      using f(2) by (cases rule: ws_active_window_cases [OF ws_keeps_inv [OF keep]])
        (auto simp: ws_active_window_def fl_active_window_def floating_get_def find_Some_iff split: option.splits)
  qed
  with ok show ?thesis using True
    by (auto simp: ws_activate_window_def ws_windows_def elim!: returns_mono)
next
  case False
  note none = fl_activate_window_None [OF False, of "env_parent env"]
  have "ws_keeps (env_parent env) ws (ws\<lparr>ws_scrolling := s, ws_floating_is_active := FloatingNo\<rparr>)"
    if s: "sc_keeps (ws_scrolling ws) s" "w \<in># sc_windows (ws_scrolling ws)" for s
    using s by (intro focus_ws_keeps sc_keeps_ws_keeps [OF inv]) (auto simp: sc_keeps_def)
  with sc_activate_window_keeps [OF workspace_invD(1) [OF inv], of w] none False inv show ?thesis
    by (auto simp: ws_activate_window_def ws_windows_def ws_keeps_refl ws_active_window_def floating_get_def
        elim!: returns_mono)
qed

lemma ws_activate_without_raising_ok:
  assumes inv: "workspace_inv parent ws"
  shows "returns (ws_activate_window_without_raising w ws) (\<lambda>(ws', found). ws_keeps parent ws ws' \<and>
    (found \<longleftrightarrow> w \<in># ws_windows ws))"
proof (cases "w \<in> set (fl_windows (ws_floating ws))")
  case True
  note ok = fl_activate_without_raising_ok [OF workspace_invD(4) [OF inv] True]
  have "ws_keeps parent ws (ws\<lparr>ws_floating := f, ws_floating_is_active := FloatingYes\<rparr>)"
    if f: "fl_keeps parent (ws_floating ws) f" for f
    using True f by (intro focus_ws_keeps fl_keeps_ws_keeps [OF inv]) (auto simp: fl_keeps_def fl_wins_def)
  with ok True show ?thesis
    by (simp add: ws_activate_window_without_raising_def case_prod_unfold ws_windows_def)
next
  case False
  then have none: "fl_activate_window_without_raising w (ws_floating ws) = (ws_floating ws, False)"
    by (simp add: fl_activate_window_without_raising_def)
  have "ws_keeps parent ws (ws\<lparr>ws_scrolling := s, ws_floating_is_active := a\<rparr>)"
    if s: "sc_keeps (ws_scrolling ws) s" "w \<in># sc_windows (ws_scrolling ws)" "a \<noteq> FloatingYes" for s a
    using s by (intro focus_ws_keeps sc_keeps_ws_keeps [OF inv]) (auto simp: sc_keeps_def)
  with sc_activate_window_keeps [OF workspace_invD(1) [OF inv], of w] none False inv show ?thesis
    by (auto simp: ws_activate_window_without_raising_def ws_windows_def ws_keeps_refl
        elim!: returns_mono split: floating_active.split)
qed

lemma fl_descendants_added_keeps:
  assumes acyc: "parents_acyclic parent" and inv: "floating_inv parent s"
  shows "returns (fl_descendants_added parent w s) (\<lambda>(s', b). fl_keeps parent s s')"
proof (cases "w \<in> set (fl_windows s)")
  case False
  then show ?thesis using inv idx_of_None [of w s] by (simp add: fl_descendants_added_def fl_keeps_refl)
next
  case True
  obtain us x below where at: "fl_pairs s = us @ x # below" "pair_window x = w"
    using idx_of_split [OF inv True] by metis
  note stack = floating_invD(2) [OF inv, unfolded at(1)]
  have "returns (fl_descendants_added parent (pair_window x) s) (\<lambda>(s', b). b \<and> fl_keeps parent s s')"
    by (rule fl_descendants_added_ok [OF acyc floating_invD(1) [OF inv] at(1) stack_inv_remove [OF stack]])
      (use stack floating_invD(3) [OF inv] at(1) in \<open>auto simp: stack_inv_def children_above_append\<close>)
  with at(2) show ?thesis by (auto elim!: returns_mono)
qed

lemma ws_descendants_added_keeps:
  assumes inv: "workspace_inv (env_parent env) ws"
  shows "returns (ws_descendants_added env w ws) (flagged (ws_keeps (env_parent env) ws))"
  using fl_descendants_added_keeps [OF workspace_invD(3,4) [OF inv], of w]
  by (auto simp: ws_descendants_added_def flagged_def fl_keeps_ws_keeps [OF inv] elim!: returns_mono)

subsection \<open>Changing a tile\<close>

lemma sc_modify_tile_keeps:
  assumes inv: "scrolling_inv s" and w: "w \<in># sc_windows s"
    and f: "\<And>tile. tl_window (f tile) = tl_window tile \<and> tl_pending_sizing_mode (f tile) = tl_pending_sizing_mode tile"
  shows "returns (sc_modify_tile w f s) (sc_keeps s)"
proof -
  obtain ci ti where at: "find_window w (sc_columns s) = Some (ci, ti)" "ci < length (sc_columns s)"
    "ti < length (col_tiles (sc_columns s ! ci))"
    using find_window_ok [of w "sc_columns s"] w by (auto simp: sc_windows_def)
  define col where "col = sc_columns s ! ci"
  define col' where "col' = col\<lparr>col_tiles := (col_tiles col)[ti := f (col_tiles col ! ti)]\<rparr>"
  have ti: "ti < length (col_tiles col)" using at by (simp add: col_def)
  have "column_inv col" using scrolling_inv_nth [OF inv at(2)] by (simp add: col_def)
  then have "column_inv col'" using f ti
    by (auto simp: column_inv_def col'_def pending_sizing_mode_def list_all_length nth_list_update)
  moreover have "col_windows col' = col_windows col"
    using f ti by (simp add: col'_def col_windows_def map_update list_update_same_conv)
  ultimately have "sc_keeps s (s\<lparr>sc_columns := (sc_columns s)[ci := col']\<rparr>)"
    using update_column_keeps [OF inv at(2), of col' "sc_interactive_resize s"] by (simp add: col_def)
  with at ti show ?thesis by (simp add: sc_modify_tile_def col'_def col_def)
qed

lemma ws_move_floating_window_keeps:
  assumes inv: "workspace_inv parent ws" and w: "\<And>w. window = Some w \<Longrightarrow> w \<in># ws_windows ws"
  shows "returns (ws_move_floating_window window x y ws) (ws_keeps parent ws)"
proof (cases "is_target_floating window ws")
  case True
  have "\<And>w. window = Some w \<Longrightarrow> w \<in> set (fl_windows (ws_floating ws))"
    using True by (auto simp: is_target_floating_def)
  then have "returns (fl_move_window window x y (ws_floating ws)) (fl_keeps parent (ws_floating ws))"
    by (rule fl_move_window_ok [OF workspace_invD(4) [OF inv]])
  with True on_floating_keeps [OF inv] show ?thesis by (simp add: ws_move_floating_window_def)
next
  case False
  have stored: "tl_window (move_stored_pos x y f tile) = tl_window tile \<and>
      tl_pending_sizing_mode (move_stored_pos x y f tile) = tl_pending_sizing_mode tile" for tile and f :: "'a floating_space"
    by (auto simp: move_stored_pos_def split: option.split)
  have sc: "returns (on_scrolling (sc_modify_tile v (move_stored_pos x y (ws_floating ws))) ws) (ws_keeps parent ws)"
    if "v \<in># sc_windows (ws_scrolling ws)" for v
    using sc_modify_tile_keeps [OF workspace_invD(1) [OF inv] that, of "move_stored_pos x y (ws_floating ws)"]
      stored sc_keeps_ws_keeps [OF inv]
    by (auto simp: on_scrolling_def elim!: returns_mono)
  show ?thesis
  proof (cases window)
    case None
    with False show ?thesis
      by (cases rule: ws_active_window_cases [OF inv])
        (simp_all add: ws_move_floating_window_def is_target_floating_def ws_active_window_def sc ws_keeps_refl inv)
  next
    case (Some v)
    with False w sc show ?thesis
      by (simp add: ws_move_floating_window_def is_target_floating_def ws_windows_def)
  qed
qed

subsection \<open>Between the layers\<close>

lemma transferred_keeps:
  assumes inv: "workspace_inv parent ws"
    and layers: "scrolling_inv s" "fl_inv parent f"
    and moved: "sc_windows s + fl_wins f = ws_windows ws"
    and focus: "if g = FloatingYes then fl_wins f \<noteq> {#} else sc_windows s \<noteq> {#} \<or> fl_wins f = {#}"
  shows "ws_keeps parent ws (ws\<lparr>ws_scrolling := s, ws_floating := f, ws_floating_is_active := g\<rparr>)"
proof -
  have "ws_windows (ws\<lparr>ws_scrolling := s, ws_floating := f, ws_floating_is_active := g\<rparr>) = ws_windows ws"
    using moved by (simp add: ws_windows_def)
  then show ?thesis
    using layers focus workspace_invD(5) [OF inv] by (auto simp: ws_keeps_def workspace_inv_iff split: if_splits)
qed

lemma find_tile:
  assumes "w \<in># ws_windows ws"
  shows "\<exists>tile. find (\<lambda>tile. tl_window tile = w) (ws_tiles ws) = Some tile"
proof -
  have "w \<in> tl_window ` set (ws_tiles ws)" using assms by (simp add: ws_tiles_windows)
  then have "find (\<lambda>tile. tl_window tile = w) (ws_tiles ws) \<noteq> None" by (auto simp: find_None_iff)
  then show ?thesis by blast
qed

text \<open>Where a window goes when it is toggled, and what happens to the focus.\<close>

definition toggled :: "'w \<Rightarrow> bool \<Rightarrow> 'w lworkspace \<Rightarrow> 'w lworkspace \<Rightarrow> bool" where
  "toggled w active ws ws' \<longleftrightarrow>
     (fl_has_window w (ws_floating ws') \<longleftrightarrow> \<not> fl_has_window w (ws_floating ws)) \<and>
     (floating_get ws' \<longleftrightarrow> (if active then \<not> fl_has_window w (ws_floating ws) else floating_get ws))"

definition toggle_target :: "'w option \<Rightarrow> 'w option \<Rightarrow> 'w option" where
  "toggle_target window active_id = (case window of Some w \<Rightarrow> Some w | None \<Rightarrow> active_id)"

lemma toggle_to_tiling_ok:
  assumes inv: "workspace_inv parent ws" and w: "w \<in> set (fl_windows (ws_floating ws))"
    and act: "ws_active_window ws = Inr active_id" "act = (active_id = Some w)"
  shows "returns (bind_res (fl_remove_tile w (ws_floating ws)) (\<lambda>(removed, s).
       bind_res (on_scrolling (sc_add_tile None (rt_tile removed) act (rt_width removed)
           (rt_is_full_width removed)) (ws\<lparr>ws_floating := s\<rparr>)) (\<lambda>ws. Inr (focus_if act FloatingNo ws))))
     (\<lambda>ws'. ws_keeps parent ws ws' \<and> toggled w act ws ws')"
proof -
  note D = workspace_invD [OF inv]
  let ?f = "ws_floating ws" and ?s = "ws_scrolling ws"
  have nin: "w \<notin># sc_windows ?s" using D(5) w mset_distinct_disjoint [of "fl_wins ?f" "sc_windows ?s" w]
    by (simp add: ws_windows_def add.commute)
  note move = to_tiling.transfer_ok [of parent ?f ?s w "\<lambda>r. rt_tile r" act "\<lambda>r. rt_width r" "\<lambda>r. rt_is_full_width r",
      OF D(2,1) _ nin]
  have keep: "ws_keeps parent ws (focus_if act FloatingNo (ws\<lparr>ws_floating := f, ws_scrolling := s\<rparr>)) \<and>
      toggled w act ws (focus_if act FloatingNo (ws\<lparr>ws_floating := f, ws_scrolling := s\<rparr>))"
    if *: "scrolling_inv s" "fl_inv parent f" "fl_wins ?f = add_mset w (fl_wins f)" "sc_windows s = add_mset w (sc_windows ?s)"
    for f s
  proof -
    have windows: "sc_windows s + fl_wins f = ws_windows ws" using *(3,4) by (simp add: ws_windows_def)
    have nf: "fl_wins f \<noteq> {#}" if "floating_get ws" "\<not> act"
      using ws_active_window_cases [OF inv] that act *(3) by (metis Inr_inject add_mset_eq_single empty_iff
          insert_noteq_member set_mset_add_mset_insert set_mset_empty singletonD)
    define g where "g = (if act then FloatingNo else ws_floating_is_active ws)"
    have eq: "focus_if act FloatingNo (ws\<lparr>ws_floating := f, ws_scrolling := s\<rparr>) =
        ws\<lparr>ws_scrolling := s, ws_floating := f, ws_floating_is_active := g\<rparr>"
      by (simp add: focus_if_def g_def)
    have "w \<notin># fl_wins f" using mset_distinct_sub(2) [OF D(5) [unfolded ws_windows_def]] *(3) by simp
    moreover have "ws_keeps parent ws (ws\<lparr>ws_scrolling := s, ws_floating := f, ws_floating_is_active := g\<rparr>)"
      by (rule transferred_keeps [OF inv *(1,2) windows]) (use nf *(4) in \<open>auto simp: g_def floating_get_def\<close>)
    ultimately show ?thesis using w unfolding eq by (auto simp: toggled_def g_def floating_get_def)
  qed
  from move w show ?thesis unfolding on_scrolling_def
    by (auto elim!: returns_mono dest: keep)
qed

lemma toggle_to_floating_ok:
  assumes inv: "workspace_inv parent ws" and w: "w \<in># sc_windows (ws_scrolling ws)"
    and act: "ws_active_window ws = Inr active_id" "act = (active_id = Some w)"
    and change: "\<And>r. tl_window (rt_tile r) = w \<Longrightarrow> tl_window (change r) = w"
  shows "returns (bind_res (sc_remove_tile w (ws_scrolling ws)) (\<lambda>(removed, s).
       bind_res (on_floating (fl_add_tile parent (change removed) act) (ws\<lparr>ws_scrolling := s\<rparr>))
         (\<lambda>ws. Inr (focus_if act FloatingYes ws))))
     (\<lambda>ws'. ws_keeps parent ws ws' \<and> toggled w act ws ws')"
proof -
  note D = workspace_invD [OF inv]
  let ?f = "ws_floating ws" and ?s = "ws_scrolling ws"
  have nin: "w \<notin># fl_wins ?f" using mset_distinct_disjoint [OF D(5) [unfolded ws_windows_def] w] .
  note move = to_floating.transfer_ok [of ?s parent ?f w change act, OF D(1,2) w nin change]
  have keep: "ws_keeps parent ws (focus_if act FloatingYes (ws\<lparr>ws_scrolling := s, ws_floating := f\<rparr>)) \<and>
      toggled w act ws (focus_if act FloatingYes (ws\<lparr>ws_scrolling := s, ws_floating := f\<rparr>))"
    if *: "scrolling_inv s" "fl_inv parent f" "fl_wins f = add_mset w (fl_wins ?f)" "sc_windows ?s = add_mset w (sc_windows s)"
    for f s
  proof -
    have windows: "sc_windows s + fl_wins f = ws_windows ws" using *(3,4) by (simp add: ws_windows_def)
    have nf: "sc_windows s \<noteq> {#}" if "\<not> floating_get ws" "\<not> act"
    proof (cases rule: ws_active_window_cases [OF inv])
      case (2 v)
      then have "v \<in># add_mset w (sc_windows s)" "v \<noteq> w" using that act *(4) by auto
      then show ?thesis by auto
    qed (use that *(4) in \<open>auto simp: ws_windows_def\<close>)
    define g where "g = (if act then FloatingYes else ws_floating_is_active ws)"
    have eq: "focus_if act FloatingYes (ws\<lparr>ws_scrolling := s, ws_floating := f\<rparr>) =
        ws\<lparr>ws_scrolling := s, ws_floating := f, ws_floating_is_active := g\<rparr>"
      by (simp add: focus_if_def g_def)
    have "w \<in># fl_wins f" using *(3) by simp
    moreover have "ws_keeps parent ws (ws\<lparr>ws_scrolling := s, ws_floating := f, ws_floating_is_active := g\<rparr>)"
      by (rule transferred_keeps [OF inv *(1,2) windows]) (use nf *(3) in \<open>auto simp: g_def floating_get_def\<close>)
    ultimately show ?thesis using nin unfolding eq by (auto simp: toggled_def g_def floating_get_def)
  qed
  from move show ?thesis unfolding on_floating_def
    by (auto elim!: returns_mono dest: keep)
qed

lemma ws_toggle_window_floating_ok:
  assumes inv: "workspace_inv (env_parent env) ws" and w: "\<And>w. window = Some w \<Longrightarrow> w \<in># ws_windows ws"
  shows "returns (ws_toggle_window_floating env window ws) (\<lambda>ws'. ws_keeps (env_parent env) ws ws' \<and>
    (\<exists>active_id. ws_active_window ws = Inr active_id \<and>
      (case toggle_target window active_id of None \<Rightarrow> ws' = ws | Some v \<Rightarrow> toggled v (active_id = Some v) ws ws')))"
proof -
  obtain active_id where a: "ws_active_window ws = Inr active_id" and mem: "\<And>v. active_id = Some v \<Longrightarrow> v \<in># ws_windows ws"
    by (rule ws_active_window_cases [OF inv]) (auto simp: ws_windows_def)
  show ?thesis
  proof (cases "toggle_target window active_id")
    case None
    then show ?thesis using a inv
      by (auto simp: ws_toggle_window_floating_def toggle_target_def ws_keeps_refl split: option.splits)
  next
    case (Some v)
    have v: "v \<in># ws_windows ws" using Some w mem by (auto simp: toggle_target_def split: option.splits)
    have act: "(case window of None \<Rightarrow> True | Some w \<Rightarrow> Some w = active_id) = (active_id = Some v)"
      using Some by (auto simp: toggle_target_def split: option.splits)
    define place where "place = (\<lambda>r :: 'a removed_tile. let tile = rt_tile r in
      if stored_or_default_tile_pos tile (ws_floating ws) = None
      then let offset = (if env_center_always env then 0 else 50);
               pos = point_add (env_render_pos env v) \<lparr>pt_x = offset, pt_y = offset\<rparr>;
               pos = fl_clamp_within_working_area pos (tl_tile_size tile) (ws_floating ws)
           in tile\<lparr>tl_floating_pos := Some (fl_logical_to_size_frac pos (ws_floating ws))\<rparr>
      else tile)"
    have place: "tl_window (place r) = tl_window (rt_tile r)" for r by (simp add: place_def Let_def)
    note step = ws_toggle_window_floating_def a toggle_target_def [symmetric] Some act
    show ?thesis
    proof (cases "fl_has_window v (ws_floating ws)")
      case True
      note toggle_to_tiling_ok [OF inv _ a refl, of v]
      with True find_tile [OF v] Some a show ?thesis by (auto simp: step Let_def elim!: returns_mono)
    next
      case False
      have "tl_window (rt_tile r) = v \<Longrightarrow> tl_window (place r) = v" for r by (simp add: place)
      note toggle_to_floating_ok [OF inv ws_windows_layer [OF v False] a refl, of place, OF this]
      with False find_tile [OF v] Some a show ?thesis
        by (auto simp: step place_def Let_def split: if_splits elim!: returns_mono)
    qed
  qed
qed

subsection \<open>Fullscreen and maximized\<close>

lemma find_sc_tile:
  assumes "w \<in># sc_windows s"
  shows "\<exists>tile. find (\<lambda>tile. tl_window tile = w) (sc_tiles s) = Some tile"
proof -
  have "w \<in> tl_window ` set (sc_tiles s)" using assms by (simp add: set_sc_tiles)
  then have "find (\<lambda>tile. tl_window tile = w) (sc_tiles s) \<noteq> None" by (auto simp: find_None_iff)
  then show ?thesis by blast
qed

lemma find_sc_column:
  assumes "w \<in># sc_windows s"
  shows "\<exists>col. find (\<lambda>col. col_contains col w) (sc_columns s) = Some col \<and> col_contains col w \<and>
    (\<exists>tile. find (\<lambda>tile. tl_window tile = w) (col_tiles col) = Some tile)"
proof -
  have "\<exists>col \<in> set (sc_columns s). w \<in> set (col_windows col)"
    using assms by (auto simp: sc_windows_def cols_windows_def)
  then have "find (\<lambda>col. col_contains col w) (sc_columns s) \<noteq> None" by (auto simp: find_None_iff)
  then obtain col where col: "find (\<lambda>col. col_contains col w) (sc_columns s) = Some col" by blast
  then have c: "col_contains col w" by (auto simp: find_Some_iff)
  then have "find (\<lambda>tile. tl_window tile = w) (col_tiles col) \<noteq> None"
    by (auto simp: find_None_iff col_windows_def)
  with col c show ?thesis by blast
qed

lemma set_mode_and_remember_keeps:
  assumes inv: "workspace_inv parent ws" and w: "w \<in># sc_windows (ws_scrolling ws)"
    and mode: "returns (set_mode w value (ws_scrolling ws)) (\<lambda>(s, _). sc_keeps (ws_scrolling ws) s)"
  shows "returns (set_mode_and_remember set_mode w value restore ws) (ws_keeps parent ws)"
proof -
  have "returns (sc_modify_tile w (\<lambda>tile. if c \<and> tl_pending_sizing_mode tile \<noteq> SizingNormal
      then tile\<lparr>tl_restore_to_floating := restore\<rparr> else tile) s) (\<lambda>s'. ws_keeps parent ws (ws\<lparr>ws_scrolling := s'\<rparr>))"
    if s: "sc_keeps (ws_scrolling ws) s" for s c
    by (rule returns_mono [OF sc_modify_tile_keeps])
      (use s w in \<open>auto simp: sc_keeps_def intro: sc_keeps_ws_keeps [OF inv]\<close>)
  with mode find_sc_tile [OF w] show ?thesis
    by (auto simp: set_mode_and_remember_def Let_def elim!: returns_mono)
qed

lemma set_sizing_keeps:
  assumes "workspace_inv parent ws" "w \<in># sc_windows (ws_scrolling ws)"
  shows "returns (sc_set_fullscreen w b (ws_scrolling ws)) (\<lambda>(s, _). sc_keeps (ws_scrolling ws) s)"
    "returns (sc_set_maximized w b (ws_scrolling ws)) (\<lambda>(s, _). sc_keeps (ws_scrolling ws) s)"
  using scrolling_step_keeps [OF assms(1), of "SetFullscreen w b"] scrolling_step_keeps [OF assms(1), of "SetMaximized w b"]
    assms(2) by (simp_all add: rearranging_def returns_state_of)

text \<open>The toggle that \<open>set_fullscreen\<close> and \<open>set_maximized\<close> start with, when they need it.\<close>

lemma toggle_then_set_mode:
  assumes inv: "workspace_inv (env_parent env) ws" and w: "w \<in> set (fl_windows (ws_floating ws))"
    and mode: "\<And>ws'. workspace_inv (env_parent env) ws' \<Longrightarrow> w \<in># sc_windows (ws_scrolling ws') \<Longrightarrow>
      returns (set_mode w value (ws_scrolling ws')) (\<lambda>(s, _). sc_keeps (ws_scrolling ws') s)"
  shows "returns (bind_res (ws_toggle_window_floating env (Some w) ws) (set_mode_and_remember set_mode w value restore))
    (ws_keeps (env_parent env) ws)"
proof -
  have win: "w \<in># ws_windows ws" using w by (simp add: ws_windows_def)
  have after: "returns (set_mode_and_remember set_mode w value restore ws') (ws_keeps (env_parent env) ws)"
    if "ws_keeps (env_parent env) ws ws'" "\<not> fl_has_window w (ws_floating ws')" for ws'
  proof -
    have "w \<in># sc_windows (ws_scrolling ws')"
      by (rule ws_windows_layer [OF _ that(2)]) (use that(1) win in \<open>simp add: ws_keeps_def\<close>)
    then have "returns (set_mode_and_remember set_mode w value restore ws') (ws_keeps (env_parent env) ws')"
      using set_mode_and_remember_keeps [OF ws_keeps_inv [OF that(1)], of w set_mode "value" restore]
        mode [OF ws_keeps_inv [OF that(1)]] by blast
    then show ?thesis by (rule returns_mono) (rule ws_keeps_trans [OF that(1)])
  qed
  have "returns (ws_toggle_window_floating env (Some w) ws) (\<lambda>ws'. ws_keeps (env_parent env) ws ws' \<and> \<not> fl_has_window w (ws_floating ws'))"
    by (rule returns_mono [OF ws_toggle_window_floating_ok [OF inv, of "Some w"]])
      (use win w in \<open>auto simp: toggle_target_def toggled_def\<close>)
  then show ?thesis by (auto elim!: returns_mono intro: after)
qed

lemma ws_toggle_keeps:
  assumes "workspace_inv (env_parent env) ws" "\<And>w. window = Some w \<Longrightarrow> w \<in># ws_windows ws"
  shows "returns (ws_toggle_window_floating env window ws) (ws_keeps (env_parent env) ws)"
  by (rule returns_mono [OF ws_toggle_window_floating_ok [OF assms]]) auto

lemma ws_set_fullscreen_keeps:
  assumes inv: "workspace_inv (env_parent env) ws" and w: "w \<in># ws_windows ws"
  shows "returns (ws_set_fullscreen env w b ws) (ws_keeps (env_parent env) ws)"
proof (cases "fl_has_window w (ws_floating ws)")
  case True
  then have "returns (bind_res (ws_toggle_window_floating env (Some w) ws) (set_mode_and_remember sc_set_fullscreen w b True))
      (ws_keeps (env_parent env) ws)"
    by (intro toggle_then_set_mode inv) (simp, rule set_sizing_keeps(1))
  with True show ?thesis using inv
    by (cases b) (simp_all add: ws_set_fullscreen_def ws_keeps_refl)
next
  case False
  note sc = ws_windows_layer [OF w False]
  have set: "returns (set_mode_and_remember sc_set_fullscreen w b restore ws) (ws_keeps (env_parent env) ws)" for b restore
    by (rule set_mode_and_remember_keeps [OF inv sc]) (rule set_sizing_keeps(1) [OF inv sc])
  show ?thesis using False find_sc_column [OF sc] set ws_toggle_keeps [OF inv, of "Some w"] w
    by (auto simp: ws_set_fullscreen_def)
qed

lemma ws_set_maximized_keeps:
  assumes inv: "workspace_inv (env_parent env) ws" and w: "w \<in># ws_windows ws"
  shows "returns (ws_set_maximized env w b ws) (ws_keeps (env_parent env) ws)"
proof (cases "fl_has_window w (ws_floating ws)")
  case True
  then have "returns (bind_res (ws_toggle_window_floating env (Some w) ws) (set_mode_and_remember sc_set_maximized w b True))
      (ws_keeps (env_parent env) ws)"
    by (intro toggle_then_set_mode inv) (simp, rule set_sizing_keeps(2))
  with True show ?thesis using inv
    by (cases b) (simp_all add: ws_set_maximized_def ws_keeps_refl)
next
  case False
  note sc = ws_windows_layer [OF w False]
  have set: "returns (set_mode_and_remember sc_set_maximized w b restore ws) (ws_keeps (env_parent env) ws)" for b restore
    by (rule set_mode_and_remember_keeps [OF inv sc]) (rule set_sizing_keeps(2) [OF inv sc])
  show ?thesis using False find_sc_tile [OF sc] set ws_toggle_keeps [OF inv, of "Some w"] w
    by (auto simp: ws_set_maximized_def)
qed

lemma ws_toggle_sizing_keeps:
  assumes inv: "workspace_inv (env_parent env) ws" and w: "w \<in># ws_windows ws"
  shows "returns (ws_toggle_fullscreen env w ws) (ws_keeps (env_parent env) ws)"
    "returns (ws_toggle_maximized env w ws) (ws_keeps (env_parent env) ws)"
  using find_tile [OF w] ws_set_fullscreen_keeps [OF assms] ws_set_maximized_keeps [OF assms]
  by (auto simp: ws_toggle_fullscreen_def ws_toggle_maximized_def Let_def)

lemma ws_set_window_floating_keeps:
  assumes "workspace_inv (env_parent env) ws" "\<And>w. window = Some w \<Longrightarrow> w \<in># ws_windows ws"
  shows "returns (ws_set_window_floating env window b ws) (ws_keeps (env_parent env) ws)"
  using ws_toggle_keeps [OF assms] assms(1) by (simp add: ws_set_window_floating_def ws_keeps_refl)

subsection \<open>Adding\<close>

definition ws_adds :: "'w parent_of \<Rightarrow> 'w multiset \<Rightarrow> 'w lworkspace \<Rightarrow> 'w lworkspace \<Rightarrow> bool" where
  "ws_adds parent W ws ws' \<longleftrightarrow> workspace_inv parent ws' \<and> ws_windows ws' = ws_windows ws + W \<and> ws_same_id ws ws'"

lemma tiling_adds:
  assumes inv: "workspace_inv parent ws" and s: "scrolling_inv s" "sc_windows s = sc_windows (ws_scrolling ws) + W"
    and W: "W \<noteq> {#}" "mset_distinct (ws_windows ws + W)"
  shows "ws_adds parent W ws (focus_if act FloatingNo (ws\<lparr>ws_scrolling := s\<rparr>))"
proof -
  have "ws_windows ws + W = sc_windows s + fl_wins (ws_floating ws)" using s(2) by (simp add: ws_windows_def)
  then show ?thesis
    using workspace_invD [OF inv] s W by (auto simp: ws_adds_def workspace_inv_iff ac_simps)
qed

lemma floating_adds:
  assumes inv: "workspace_inv parent ws" and f: "fl_inv parent f" "fl_wins f = add_mset w (fl_wins (ws_floating ws))"
    and w: "w \<notin># ws_windows ws"
  shows "ws_adds parent {#w#} ws (focus_if (act \<or> sc_is_empty (ws_scrolling ws)) FloatingYes (ws\<lparr>ws_floating := f\<rparr>))"
proof -
  have "ws_windows ws + {#w#} = sc_windows (ws_scrolling ws) + fl_wins f" using f(2) by (simp add: ws_windows_def)
  then show ?thesis using workspace_invD [OF inv] f w
    by (auto simp: ws_adds_def workspace_inv_iff sc_is_empty_iff)
qed

fun target_ok :: "'w ws_target \<Rightarrow> 'w lworkspace \<Rightarrow> bool" where
  "target_ok TargetAuto ws \<longleftrightarrow> True"
| "target_ok (TargetNewColumnAt i) ws \<longleftrightarrow> i \<le> length (sc_columns (ws_scrolling ws))"
| "target_ok (TargetNextTo w) ws \<longleftrightarrow> w \<in># ws_windows ws"

lemma sc_is_active_pending_fullscreen_ok:
  "scrolling_inv s \<Longrightarrow> returns (sc_is_active_pending_fullscreen s) (\<lambda>_. True)"
  by (simp add: sc_is_active_pending_fullscreen_def scrolling_invD(2))

lemma sc_add_tile_adds:
  assumes inv: "workspace_inv parent ws" and fresh: "tl_window tile \<notin># ws_windows ws"
    and idx: "\<And>i. idx = Some i \<Longrightarrow> i \<le> length (sc_columns (ws_scrolling ws))"
  shows "returns (on_scrolling (sc_add_tile idx tile b width full) ws)
    (\<lambda>ws'. ws_adds parent {#tl_window tile#} ws (focus_if act FloatingNo ws'))"
  unfolding on_scrolling_def returns_bind returns_Inr
  by (rule returns_mono [OF sc_add_tile_ok [OF workspace_invD(1) [OF inv] idx]], assumption)
    (use fresh workspace_invD(5) [OF inv] in \<open>auto intro!: tiling_adds [OF inv]\<close>)

lemma sc_add_tile_right_of_adds:
  assumes inv: "workspace_inv parent ws" and fresh: "tl_window tile \<notin># ws_windows ws"
    and w: "w \<in># sc_windows (ws_scrolling ws)"
  shows "returns (on_scrolling (sc_add_tile_right_of w tile b width full) ws)
    (\<lambda>ws'. ws_adds parent {#tl_window tile#} ws (focus_if act FloatingNo ws'))"
  unfolding on_scrolling_def returns_bind returns_Inr
  by (rule returns_mono [OF add_tile_right_of_step [OF workspace_invD(1) [OF inv] w]])
    (use fresh workspace_invD(5) [OF inv] in \<open>auto intro!: tiling_adds [OF inv]\<close>)

lemma fl_add_tile_adds:
  assumes inv: "workspace_inv parent ws" and fresh: "tl_window tile \<notin># ws_windows ws"
  shows "returns (on_floating (fl_add_tile parent tile b) ws) (\<lambda>ws'.
    ws_adds parent {#tl_window tile#} ws (focus_if (act \<or> sc_is_empty (ws_scrolling ws')) FloatingYes ws'))"
    "w \<in> set (fl_windows (ws_floating ws)) \<Longrightarrow>
     returns (on_floating (fl_add_tile_above parent w tile b) ws) (\<lambda>ws'.
    ws_adds parent {#tl_window tile#} ws (focus_if (act \<or> sc_is_empty (ws_scrolling ws')) FloatingYes ws'))"
proof -
  note D = workspace_invD [OF inv]
  have fl: "tl_window tile \<notin> set (fl_windows (ws_floating ws))" using fresh by (simp add: ws_windows_def)
  show "returns (on_floating (fl_add_tile parent tile b) ws) (\<lambda>ws'.
    ws_adds parent {#tl_window tile#} ws (focus_if (act \<or> sc_is_empty (ws_scrolling ws')) FloatingYes ws'))"
    unfolding on_floating_def fl_add_tile_def returns_bind returns_Inr
    by (rule returns_mono [OF fl_add_tile_at_ok [OF D(3,4) _ fl]])
      (use D(3) in \<open>auto simp: fl_inv_def added_to_floating_wins intro!: floating_adds [OF inv _ _ fresh]\<close>)
  show "returns (on_floating (fl_add_tile_above parent w tile b) ws) (\<lambda>ws'.
    ws_adds parent {#tl_window tile#} ws (focus_if (act \<or> sc_is_empty (ws_scrolling ws')) FloatingYes ws'))"
    if "w \<in> set (fl_windows (ws_floating ws))"
    unfolding on_floating_def returns_bind returns_Inr
    by (rule returns_mono [OF fl_add_tile_above_ok [OF D(3,4) that fl]])
      (use D(3) in \<open>auto simp: fl_inv_def added_to_floating_wins intro!: floating_adds [OF inv _ _ fresh]\<close>)
qed

lemma ws_add_tile_ok:
  assumes inv: "workspace_inv (env_parent env) ws" and fresh: "tl_window tile \<notin># ws_windows ws"
    and target: "target_ok target ws"
  shows "returns (ws_add_tile env tile target activate width full is_floating ws)
    (ws_adds (env_parent env) {#tl_window tile#} ws)"
proof -
  define t where "t = tile\<lparr>tl_restore_to_floating := is_floating\<rparr>"
  have ft: "tl_window t \<notin># ws_windows ws" "tl_window t = tl_window tile"
    "tl_window (t\<lparr>tl_floating_pos := p\<rparr>) \<notin># ws_windows ws" for p
    using fresh by (simp_all add: t_def)
  note sc = sc_add_tile_adds [OF inv ft(1)] sc_add_tile_right_of_adds [OF inv ft(1)]
  note fl = fl_add_tile_adds [OF inv ft(1)] fl_add_tile_adds(1) [OF inv ft(3)]
  note sc = sc [unfolded ft(2)]
  show ?thesis
  proof (cases target)
    case TargetAuto
    obtain b where b: "sc_is_active_pending_fullscreen (ws_scrolling ws) = Inr b"
      using sc_is_active_pending_fullscreen_ok [OF workspace_invD(1) [OF inv]] by (auto simp: returns_def)
    show ?thesis using sc(1) [of None] fl(1) unfolding TargetAuto ws_add_tile_def t_def [symmetric]
      by (simp add: b Let_def ft)
  next
    case (TargetNewColumnAt i)
    then show ?thesis using sc(1) [of "Some i"] target
      unfolding ws_add_tile_def t_def [symmetric] by (simp add: Let_def)
  next
    case (TargetNextTo w)
    with target have w: "w \<in># ws_windows ws" by simp
    have "\<exists>v. ws_active_window ws = Inr (Some v)"
      by (cases rule: ws_active_window_cases [OF inv]) (use w in auto)
    then obtain act where act: "(if activate = ActivateSmart
        then bind_res (ws_active_window ws) (\<lambda>active. bind_res (unwrap active) (\<lambda>active. Inr (active = w)))
        else Inr (activate = ActivateYes)) = Inr act"
      by (cases "activate = ActivateSmart") auto
    obtain next_tile where next_tile: "\<not> fl_has_window w (ws_floating ws) \<Longrightarrow>
        find (\<lambda>t. tl_window t = w) (sc_tiles (ws_scrolling ws)) = Some next_tile"
      using find_sc_tile [of w "ws_scrolling ws"] ws_windows_layer [OF w] by blast
    show ?thesis
      using sc(1) [of None] sc(2) [of w] ws_windows_layer [OF w] fl(1) fl(2) [of w] fl(3) next_tile
      unfolding TargetNextTo ws_add_tile_def t_def [symmetric]
      by (simp add: act Let_def ft)
  qed
qed

lemma ws_add_tile_to_column_ok:
  assumes inv: "workspace_inv parent ws" and fresh: "tl_window tile \<notin># ws_windows ws"
    and ci: "ci < length (sc_columns (ws_scrolling ws))"
    and ti: "\<And>i. ti = Some i \<Longrightarrow> i \<le> length (col_tiles (sc_columns (ws_scrolling ws) ! ci))"
  shows "returns (ws_add_tile_to_column ci ti tile act ws) (ws_adds parent {#tl_window tile#} ws)"
  unfolding ws_add_tile_to_column_def on_scrolling_def returns_bind returns_Inr
  by (rule returns_mono [OF sc_add_tile_to_column_ok [OF workspace_invD(1) [OF inv] ci ti]], assumption)
    (use fresh workspace_invD(5) [OF inv] in \<open>auto simp: tile_added_def Let_def intro!: tiling_adds [OF inv]\<close>)

lemma ws_add_column_ok:
  assumes inv: "workspace_inv parent ws" and col: "column_inv column"
    and fresh: "mset_distinct (ws_windows ws + mset (col_windows column))"
  shows "returns (ws_add_column column act ws) (ws_adds parent (mset (col_windows column)) ws)"
proof -
  have "col_windows column \<noteq> []" using col by (simp add: column_inv_def col_windows_def)
  then show ?thesis unfolding ws_add_column_def on_scrolling_def returns_bind returns_Inr
    by (intro returns_mono [OF sc_add_column_ok [OF workspace_invD(1) [OF inv] col, of None act]])
      (use fresh in \<open>auto intro!: tiling_adds [OF inv]\<close>)
qed

subsection \<open>Removing\<close>

definition ws_removes :: "'w parent_of \<Rightarrow> 'w multiset \<Rightarrow> 'w lworkspace \<Rightarrow> 'w lworkspace \<Rightarrow> bool" where
  "ws_removes parent W ws ws' \<longleftrightarrow> workspace_inv parent ws' \<and> ws_windows ws = ws_windows ws' + W \<and> ws_same_id ws ws'"

lemma tiling_removes:
  assumes inv: "workspace_inv parent ws" and s: "scrolling_inv s" "sc_windows (ws_scrolling ws) = sc_windows s + W"
    and W: "W \<noteq> {#}"
  shows "ws_removes parent W ws (update_focus_floating_tiling_after_removing False (ws\<lparr>ws_scrolling := s\<rparr>))"
proof -
  have eq: "ws_windows ws = sc_windows s + fl_wins (ws_floating ws) + W"
    using s(2) by (simp add: ws_windows_def ac_simps)
  then have "mset_distinct (sc_windows s + fl_wins (ws_floating ws))"
    using workspace_invD(5) [OF inv] by (auto dest: mset_distinct_sub)
  with eq show ?thesis using workspace_invD [OF inv] s W
    by (auto simp: ws_removes_def workspace_inv_iff update_focus_floating_tiling_after_removing_def
        sc_is_empty_iff fl_is_empty_iff)
qed

lemma floating_removes:
  assumes inv: "workspace_inv parent ws" and f: "fl_inv parent f" "fl_wins (ws_floating ws) = fl_wins f + W"
  shows "ws_removes parent W ws (update_focus_floating_tiling_after_removing True (ws\<lparr>ws_floating := f\<rparr>))"
proof -
  have eq: "ws_windows ws = sc_windows (ws_scrolling ws) + fl_wins f + W"
    using f(2) by (simp add: ws_windows_def ac_simps)
  then have "mset_distinct (sc_windows (ws_scrolling ws) + fl_wins f)"
    using workspace_invD(5) [OF inv] by (auto dest: mset_distinct_sub)
  with eq show ?thesis using workspace_invD [OF inv] f
    by (auto simp: ws_removes_def workspace_inv_iff update_focus_floating_tiling_after_removing_def
        sc_is_empty_iff fl_is_empty_iff)
qed

lemma ws_remove_tile_ok:
  assumes inv: "workspace_inv parent ws" and w: "w \<in># ws_windows ws"
  shows "returns (ws_remove_tile w ws) (\<lambda>(r, ws'). ws_removes parent {#w#} ws ws' \<and> tl_window (rt_tile r) = w)"
proof (cases "fl_has_window w (ws_floating ws)")
  case True
  then show ?thesis using floating.remove_ok [OF workspace_invD(2) [OF inv], of w]
    by (auto simp: ws_remove_tile_def intro!: floating_removes [OF inv] elim!: returns_mono)
next
  case False
  then show ?thesis using tiled.remove_ok [OF workspace_invD(1) [OF inv] ws_windows_layer [OF w False]]
    by (auto simp: ws_remove_tile_def intro!: tiling_removes [OF inv] elim!: returns_mono)
qed

lemma ws_remove_active_tile_ok:
  assumes inv: "workspace_inv parent ws"
  shows "returns (ws_remove_active_tile ws) (\<lambda>(r, ws').
    case r of None \<Rightarrow> ws' = ws \<and> ws_windows ws = {#}
      | Some r \<Rightarrow> ws_removes parent {#tl_window (rt_tile r)#} ws ws' \<and> ws_active_window ws = Inr (Some (tl_window (rt_tile r))))"
proof (cases "floating_get ws")
  case True
  then have "fl_windows (ws_floating ws) \<noteq> []" using workspace_invD(7) [OF inv] by (auto simp: fl_wins_def)
  then obtain w where w: "fl_active_window_id (ws_floating ws) = Some w" "w \<in> set (fl_windows (ws_floating ws))"
    using floating_invD(3) [OF workspace_invD(4) [OF inv]] by (auto simp: focus_inv_def split: option.splits)
  have act: "ws_active_window ws = Inr (Some w)"
    using w True by (cases rule: ws_active_window_cases [OF inv])
      (auto simp: ws_active_window_def fl_active_window_def find_Some_iff split: option.splits)
  show ?thesis using True act w floating.remove_ok [OF workspace_invD(2) [OF inv], of w]
    by (auto simp: ws_remove_active_tile_def fl_remove_active_tile_def intro!: floating_removes [OF inv] elim!: returns_mono)
next
  case False
  show ?thesis
  proof (cases rule: ws_active_window_cases [OF inv])
    case (2 w)
    then have "sc_active_window (ws_scrolling ws) = Inr (Some w)" by (simp add: ws_active_window_def)
    with 2 False remove_active_tile_step [OF workspace_invD(1) [OF inv]] show ?thesis
      by (auto simp: ws_remove_active_tile_def intro!: tiling_removes [OF inv] elim!: returns_mono split: option.splits)
  next
    case 3
    then have "sc_active_window (ws_scrolling ws) = Inr None" by (simp add: ws_active_window_def)
    with 3 False remove_active_tile_step [OF workspace_invD(1) [OF inv]] show ?thesis
      by (auto simp: ws_remove_active_tile_def elim!: returns_mono)
  qed (use False in simp)
qed

lemma ws_remove_active_column_ok:
  assumes inv: "workspace_inv parent ws"
  shows "returns (ws_remove_active_column ws) (\<lambda>(c, ws').
    case c of None \<Rightarrow> ws' = ws \<and> (floating_get ws \<or> sc_columns (ws_scrolling ws) = [])
      | Some col \<Rightarrow> ws_removes parent (mset (col_windows col)) ws ws' \<and> column_inv col \<and> \<not> floating_get ws \<and>
          sc_columns (ws_scrolling ws) \<noteq> [] \<and>
          col = sc_columns (ws_scrolling ws) ! sc_active_column_idx (ws_scrolling ws))"
proof (cases "floating_get ws \<or> sc_columns (ws_scrolling ws) = []")
  case True
  then show ?thesis
    by (cases rule: ws_active_window_cases [OF inv])
      (auto simp: ws_remove_active_column_def sc_remove_active_column_def sc_windows_def cols_windows_def ws_windows_def)
next
  case False
  let ?s = "ws_scrolling ws"
  have a: "sc_active_column_idx ?s < length (sc_columns ?s)" using scrolling_invD(2) [OF workspace_invD(1) [OF inv]] False by simp
  have col: "column_inv (sc_columns ?s ! sc_active_column_idx ?s)" by (rule scrolling_inv_nth [OF workspace_invD(1) [OF inv] a])
  then have "col_windows (sc_columns ?s ! sc_active_column_idx ?s) \<noteq> []" by (simp add: column_inv_def col_windows_def)
  then show ?thesis using remove_column_by_idx_ok [OF workspace_invD(1) [OF inv] a] False col
    by (auto simp: ws_remove_active_column_def sc_remove_active_column_def add.commute
        intro!: tiling_removes [OF inv] elim!: returns_mono)
qed

subsection \<open>Configuration and outputs\<close>

lemma sc_update_config_keeps [simp]:
  "scrolling_inv (sc_update_config d s) = scrolling_inv s" "sc_windows (sc_update_config d s) = sc_windows s"
  by (simp_all add: sc_update_config_def scrolling_inv_def sc_windows_def)

lemma fl_update_config_keeps:
  "fl_inv parent s \<Longrightarrow> fl_inv parent (fl_update_config area s)" "fl_wins (fl_update_config area s) = fl_wins s"
  using fl_update_config_ok [of parent s area]
  by (simp_all add: fl_inv_def fl_keeps_def fl_wins_def fl_update_config_def fl_windows_def)

lemma workspace_inv_config:
  assumes "workspace_inv parent ws" "ws_scrolling ws' = sc_update_config d (ws_scrolling ws)"
    "ws_floating ws' = fl_update_config area (ws_floating ws)" "ws_floating_is_active ws' = ws_floating_is_active ws"
    "ws_id ws' = ws_id ws" "ws_name ws' = ws_name ws"
  shows "ws_keeps parent ws ws'"
  using assms workspace_invD [OF assms(1)]
  by (auto simp: ws_keeps_def workspace_inv_iff ws_windows_def floating_get_def ws_same_id_def fl_update_config_keeps)

lemma ws_update_config_keeps:
  assumes "workspace_inv parent ws"
  shows "ws_keeps parent ws (ws_update_config d ws)"
  by (rule workspace_inv_config [OF assms]) (simp_all add: ws_update_config_def)

lemma ws_other_fields_keeps:
  assumes "workspace_inv parent ws"
  shows "ws_keeps parent ws (ws\<lparr>ws_output := out\<rparr>)" "ws_keeps parent ws (ws\<lparr>ws_original_output := orig\<rparr>)"
    "ws_keeps parent ws (ws\<lparr>ws_view := view\<rparr>)" "ws_keeps parent ws (ws\<lparr>ws_layout_display := ld\<rparr>)"
  using assms by (simp_all add: ws_keeps_def workspace_inv_iff ws_windows_def floating_get_def ws_same_id_def)

lemma ws_set_view_size_keeps:
  assumes "workspace_inv parent ws"
  shows "ws_keeps parent ws (ws_set_view_size view ws)"
  using ws_keeps_refl [OF assms]
    ws_keeps_trans [OF ws_other_fields_keeps(3) [OF assms] ws_update_config_keeps [OF ws_keeps_inv [OF ws_other_fields_keeps(3) [OF assms]]]]
    workspace_inv_config [OF assms, of "ws\<lparr>ws_view := view, ws_scrolling := sc_update_config (sc_default_column_display (ws_scrolling ws)) (ws_scrolling ws),
      ws_floating := fl_update_config (ov_area view) (ws_floating ws)\<rparr>"]
  by (auto simp: ws_set_view_size_def Let_def)

lemma ws_set_output_keeps:
  assumes "workspace_inv parent ws"
  shows "ws_keeps parent ws (ws_set_output out ws)"
proof -
  note o' = ws_other_fields_keeps(1) [OF assms, of out]
  note orig = ws_keeps_trans [OF o' ws_other_fields_keeps(2) [OF ws_keeps_inv [OF o']]]
  show ?thesis
    using ws_keeps_refl [OF assms] o'
      ws_keeps_trans [OF o' ws_set_view_size_keeps [OF ws_keeps_inv [OF o']]]
      ws_keeps_trans [OF orig ws_set_view_size_keeps [OF ws_keeps_inv [OF orig]]]
    by (auto simp: ws_set_output_def Let_def split: option.split)
qed

lemma ws_unname_inv [simp]:
  "workspace_inv parent (ws_unname ws) = workspace_inv parent ws" "ws_windows (ws_unname ws) = ws_windows ws"
  "ws_id (ws_unname ws) = ws_id ws" "ws_name (ws_unname ws) = None"
  by (simp_all add: ws_unname_def workspace_inv_def ws_windows_def floating_get_def)

lemma ws_new_inv:
  assumes "parents_acyclic parent"
  shows "workspace_inv parent (ws_new_with_config out config d i)"
    "workspace_inv parent (ws_new_with_config_no_outputs config d i)"
    "ws_windows (ws_new_with_config out config d i) = {#}"
    "ws_windows (ws_new_with_config_no_outputs config d i) = {#}"
  using assms scrolling_new_inv floating_new_inv [unfolded floating_new_def]
  by (auto simp: workspace_inv_def ws_new_with_config_def ws_new_with_config_no_outputs_def Let_def fl_inv_def
      ws_windows_def fl_wins_def fl_windows_def floating_new_def scrolling_new_def sc_windows_def cols_windows_def
      floating_get_def fl_is_empty_def)

end
