(* ===== verification/Workspace_Properties.thy ===== *)
theory Workspace_Properties
  imports Workspace_Ops
begin

text \<open>
  The workspace as a state machine over its public operations, and its properties.
\<close>

datatype (plugins only: size) 'w workspace_op =
    WsAddTile "'w tile" "'w ws_target" activate_window column_width bool bool
  | WsAddTileToColumn nat "nat option" "'w tile" bool
  | WsAddColumn "'w column" bool
  | WsRemoveTile 'w | WsRemoveActiveTile | WsRemoveActiveColumn
  | WsFocusLeft | WsFocusRight | WsFocusDown | WsFocusUp
  | WsFocusColumnFirst | WsFocusColumnLast | WsFocusWindowTop | WsFocusWindowBottom
  | WsFocusColumnRightOrFirst | WsFocusColumnLeftOrLast | WsFocusWindowDownOrTop | WsFocusWindowUpOrBottom
  | WsFocusDownOrLeft | WsFocusDownOrRight | WsFocusUpOrLeft | WsFocusUpOrRight
  | WsFocusColumn nat | WsFocusWindowInColumn u8
  | WsMoveLeft | WsMoveRight | WsMoveDown | WsMoveUp
  | WsMoveColumnToFirst | WsMoveColumnToLast | WsMoveColumnToIndex nat
  | WsConsumeOrExpelLeft "'w option" | WsConsumeOrExpelRight "'w option"
  | WsConsumeIntoColumn | WsExpelFromColumn | WsSwap scroll_direction
  | WsToggleTabbed | WsSetColumnDisplay column_display | WsToggleFullWidth
  | WsToggleWindowFloating "'w option" | WsSetWindowFloating "'w option" bool
  | WsFocusFloating | WsFocusTiling | WsSwitchFocus
  | WsMoveFloatingWindow "'w option" position_change position_change
  | WsSetFullscreen 'w bool | WsToggleFullscreen 'w | WsSetMaximized 'w bool | WsToggleMaximized 'w
  | WsActivateWindow 'w | WsActivateWithoutRaising 'w | WsDescendantsAdded 'w
  | WsResizeBegin 'w | WsResizeEnd "'w option"
  | WsUpdateConfig column_display | WsUpdateLayoutConfig "column_display option" | WsSetOutput "loutput option"

primrec workspace_step :: "'w layout_env \<Rightarrow> 'w workspace_op \<Rightarrow> 'w lworkspace \<Rightarrow> 'w lworkspace res" where
  "workspace_step env (WsAddTile tile target act width full fl) ws = ws_add_tile env tile target act width full fl ws"
| "workspace_step env (WsAddTileToColumn ci ti tile act) ws = ws_add_tile_to_column ci ti tile act ws"
| "workspace_step env (WsAddColumn col act) ws = ws_add_column col act ws"
| "workspace_step env (WsRemoveTile w) ws = rest_of (ws_remove_tile w ws)"
| "workspace_step env WsRemoveActiveTile ws = rest_of (ws_remove_active_tile ws)"
| "workspace_step env WsRemoveActiveColumn ws = rest_of (ws_remove_active_column ws)"
| "workspace_step env WsFocusLeft ws = discard (ws_focus_left env ws)"
| "workspace_step env WsFocusRight ws = discard (ws_focus_right env ws)"
| "workspace_step env WsFocusDown ws = discard (ws_focus_down env ws)"
| "workspace_step env WsFocusUp ws = discard (ws_focus_up env ws)"
| "workspace_step env WsFocusColumnFirst ws = ws_focus_column_first env ws"
| "workspace_step env WsFocusColumnLast ws = ws_focus_column_last env ws"
| "workspace_step env WsFocusWindowTop ws = ws_focus_window_top env ws"
| "workspace_step env WsFocusWindowBottom ws = ws_focus_window_bottom env ws"
| "workspace_step env WsFocusColumnRightOrFirst ws = ws_focus_column_right_or_first env ws"
| "workspace_step env WsFocusColumnLeftOrLast ws = ws_focus_column_left_or_last env ws"
| "workspace_step env WsFocusWindowDownOrTop ws = ws_focus_window_down_or_top env ws"
| "workspace_step env WsFocusWindowUpOrBottom ws = ws_focus_window_up_or_bottom env ws"
| "workspace_step env WsFocusDownOrLeft ws = ws_focus_down_or_left env ws"
| "workspace_step env WsFocusDownOrRight ws = ws_focus_down_or_right env ws"
| "workspace_step env WsFocusUpOrLeft ws = ws_focus_up_or_left env ws"
| "workspace_step env WsFocusUpOrRight ws = ws_focus_up_or_right env ws"
| "workspace_step env (WsFocusColumn i) ws = ws_focus_column i ws"
| "workspace_step env (WsFocusWindowInColumn i) ws = ws_focus_window_in_column i ws"
| "workspace_step env WsMoveLeft ws = discard (ws_move_left ws)"
| "workspace_step env WsMoveRight ws = discard (ws_move_right ws)"
| "workspace_step env WsMoveDown ws = discard (ws_move_down ws)"
| "workspace_step env WsMoveUp ws = discard (ws_move_up ws)"
| "workspace_step env WsMoveColumnToFirst ws = ws_move_column_to_first ws"
| "workspace_step env WsMoveColumnToLast ws = ws_move_column_to_last ws"
| "workspace_step env (WsMoveColumnToIndex i) ws = ws_move_column_to_index i ws"
| "workspace_step env (WsConsumeOrExpelLeft w) ws = ws_consume_or_expel_window_left w ws"
| "workspace_step env (WsConsumeOrExpelRight w) ws = ws_consume_or_expel_window_right w ws"
| "workspace_step env WsConsumeIntoColumn ws = ws_consume_into_column ws"
| "workspace_step env WsExpelFromColumn ws = ws_expel_from_column ws"
| "workspace_step env (WsSwap dir) ws = ws_swap_window_in_direction dir ws"
| "workspace_step env WsToggleTabbed ws = ws_toggle_column_tabbed_display ws"
| "workspace_step env (WsSetColumnDisplay d) ws = ws_set_column_display d ws"
| "workspace_step env WsToggleFullWidth ws = ws_toggle_full_width ws"
| "workspace_step env (WsToggleWindowFloating w) ws = ws_toggle_window_floating env w ws"
| "workspace_step env (WsSetWindowFloating w b) ws = ws_set_window_floating env w b ws"
| "workspace_step env WsFocusFloating ws = Inr (focus_floating ws)"
| "workspace_step env WsFocusTiling ws = Inr (focus_tiling ws)"
| "workspace_step env WsSwitchFocus ws = Inr (switch_focus_floating_tiling ws)"
| "workspace_step env (WsMoveFloatingWindow w x y) ws = ws_move_floating_window w x y ws"
| "workspace_step env (WsSetFullscreen w b) ws = ws_set_fullscreen env w b ws"
| "workspace_step env (WsToggleFullscreen w) ws = ws_toggle_fullscreen env w ws"
| "workspace_step env (WsSetMaximized w b) ws = ws_set_maximized env w b ws"
| "workspace_step env (WsToggleMaximized w) ws = ws_toggle_maximized env w ws"
| "workspace_step env (WsActivateWindow w) ws = discard (ws_activate_window env w ws)"
| "workspace_step env (WsActivateWithoutRaising w) ws = discard (ws_activate_window_without_raising w ws)"
| "workspace_step env (WsDescendantsAdded w) ws = discard (ws_descendants_added env w ws)"
| "workspace_step env (WsResizeBegin w) ws = discard (ws_interactive_resize_begin w ws)"
| "workspace_step env (WsResizeEnd w) ws = ws_interactive_resize_end w ws"
| "workspace_step env (WsUpdateConfig d) ws = Inr (ws_update_config d ws)"
| "workspace_step env (WsUpdateLayoutConfig d) ws = Inr (ws_update_layout_config d ws)"
| "workspace_step env (WsSetOutput out) ws = Inr (ws_set_output out ws)"

definition named_ok :: "'w option \<Rightarrow> 'w lworkspace \<Rightarrow> bool" where
  "named_ok window ws \<longleftrightarrow> (case window of None \<Rightarrow> True | Some w \<Rightarrow> w \<in># ws_windows ws)"

text \<open>What the caller owes: new windows are new, and windows and positions that are named exist.\<close>

fun workspace_op_ok :: "'w workspace_op \<Rightarrow> 'w lworkspace \<Rightarrow> bool" where
  "workspace_op_ok (WsAddTile tile target _ _ _ _) ws \<longleftrightarrow> tl_window tile \<notin># ws_windows ws \<and> target_ok target ws"
| "workspace_op_ok (WsAddTileToColumn ci ti tile _) ws \<longleftrightarrow> tl_window tile \<notin># ws_windows ws \<and>
     ci < length (sc_columns (ws_scrolling ws)) \<and>
     (case ti of None \<Rightarrow> True | Some i \<Rightarrow> i \<le> length (col_tiles (sc_columns (ws_scrolling ws) ! ci)))"
| "workspace_op_ok (WsAddColumn col _) ws \<longleftrightarrow> column_inv col \<and> mset_distinct (ws_windows ws + mset (col_windows col))"
| "workspace_op_ok (WsRemoveTile w) ws \<longleftrightarrow> w \<in># ws_windows ws"
| "workspace_op_ok (WsConsumeOrExpelLeft w) ws \<longleftrightarrow> named_ok w ws"
| "workspace_op_ok (WsConsumeOrExpelRight w) ws \<longleftrightarrow> named_ok w ws"
| "workspace_op_ok (WsToggleWindowFloating w) ws \<longleftrightarrow> named_ok w ws"
| "workspace_op_ok (WsSetWindowFloating w _) ws \<longleftrightarrow> named_ok w ws"
| "workspace_op_ok (WsMoveFloatingWindow w _ _) ws \<longleftrightarrow> named_ok w ws"
| "workspace_op_ok (WsSetFullscreen w _) ws \<longleftrightarrow> w \<in># ws_windows ws"
| "workspace_op_ok (WsToggleFullscreen w) ws \<longleftrightarrow> w \<in># ws_windows ws"
| "workspace_op_ok (WsSetMaximized w _) ws \<longleftrightarrow> w \<in># ws_windows ws"
| "workspace_op_ok (WsToggleMaximized w) ws \<longleftrightarrow> w \<in># ws_windows ws"
| "workspace_op_ok (WsResizeBegin w) ws \<longleftrightarrow> w \<in># ws_windows ws"
| "workspace_op_ok _ ws \<longleftrightarrow> True"

fun ws_op_adds :: "'w workspace_op \<Rightarrow> 'w multiset" where
  "ws_op_adds (WsAddTile tile _ _ _ _ _) = {#tl_window tile#}"
| "ws_op_adds (WsAddTileToColumn _ _ tile _) = {#tl_window tile#}"
| "ws_op_adds (WsAddColumn col _) = mset (col_windows col)"
| "ws_op_adds _ = {#}"

fun ws_op_removes :: "'w workspace_op \<Rightarrow> 'w lworkspace \<Rightarrow> 'w multiset" where
  "ws_op_removes (WsRemoveTile w) ws = {#w#}"
| "ws_op_removes WsRemoveActiveTile ws = (case ws_active_window ws of Inr (Some w) \<Rightarrow> {#w#} | _ \<Rightarrow> {#})"
| "ws_op_removes WsRemoveActiveColumn ws =
     (if floating_get ws \<or> sc_columns (ws_scrolling ws) = [] then {#}
      else mset (col_windows (sc_columns (ws_scrolling ws) ! sc_active_column_idx (ws_scrolling ws))))"
| "ws_op_removes _ ws = {#}"

definition ws_changes :: "'w parent_of \<Rightarrow> 'w workspace_op \<Rightarrow> 'w lworkspace \<Rightarrow> 'w lworkspace \<Rightarrow> bool" where
  "ws_changes parent op ws ws' \<longleftrightarrow> workspace_inv parent ws' \<and> ws_same_id ws ws' \<and>
     ws_windows ws' + ws_op_removes op ws = ws_windows ws + ws_op_adds op"

definition ws_rearranging :: "'w workspace_op \<Rightarrow> bool" where
  "ws_rearranging op \<longleftrightarrow> (case op of
     WsAddTile _ _ _ _ _ _ \<Rightarrow> False | WsAddTileToColumn _ _ _ _ \<Rightarrow> False | WsAddColumn _ _ \<Rightarrow> False
   | WsRemoveTile _ \<Rightarrow> False | WsRemoveActiveTile \<Rightarrow> False | WsRemoveActiveColumn \<Rightarrow> False | _ \<Rightarrow> True)"

lemma ws_update_layout_config_keeps:
  assumes "workspace_inv parent ws"
  shows "ws_keeps parent ws (ws_update_layout_config d ws)"
  using ws_keeps_refl [OF assms] ws_keeps_trans [OF ws_other_fields_keeps(4) [OF assms]
      ws_update_config_keeps [OF ws_keeps_inv [OF ws_other_fields_keeps(4) [OF assms]]]]
  by (simp add: ws_update_layout_config_def)

lemma workspace_step_keeps:
  assumes inv: "workspace_inv (env_parent env) ws" and ok: "workspace_op_ok op ws" and re: "ws_rearranging op"
  shows "returns (workspace_step env op ws) (ws_keeps (env_parent env) ws)"
proof -
  have activate: "returns (ws_activate_window env w ws) (flagged (ws_keeps (env_parent env) ws))"
    "returns (ws_activate_window_without_raising w ws) (flagged (ws_keeps (env_parent env) ws))" for w
    by (rule returns_mono [OF ws_activate_window_ok [OF inv]], simp add: flagged_def case_prod_unfold,
        rule returns_mono [OF ws_activate_without_raising_ok [OF inv]], simp add: flagged_def case_prod_unfold)
  have named: "\<And>w. window = Some w \<Longrightarrow> w \<in># ws_windows ws" if "named_ok window ws" for window
    using that by (simp add: named_ok_def)
  note keeps = ws_focus_horizontal_keeps [OF inv] ws_focus_extreme_keeps [OF inv] ws_focus_wrapping_keeps [OF inv]
    ws_focus_diagonal_keeps [OF inv] ws_focus_column_keeps [OF inv] ws_move_directional_keeps [OF inv]
    ws_tiling_only_keeps [OF inv] ws_consume_or_expel_keeps [OF inv named] ws_interactive_resize_keeps [OF inv]
    ws_descendants_added_keeps [OF inv] ws_move_floating_window_keeps [OF inv named] ws_toggle_keeps [OF inv named]
    ws_set_window_floating_keeps [OF inv named] ws_set_fullscreen_keeps [OF inv] ws_set_maximized_keeps [OF inv]
    ws_toggle_sizing_keeps [OF inv] switch_focus_keeps [OF inv] focus_layer_keeps [OF inv]
    ws_update_config_keeps [OF inv] ws_update_layout_config_keeps [OF inv] ws_set_output_keeps [OF inv] activate
  from re ok show ?thesis
    by (cases op) (simp_all add: ws_rearranging_def returns_discard keeps)
qed

lemma workspace_step_ok:
  assumes inv: "workspace_inv (env_parent env) ws" and ok: "workspace_op_ok op ws"
  shows "returns (workspace_step env op ws) (ws_changes (env_parent env) op ws)"
proof (cases "ws_rearranging op")
  case True
  then have "ws_op_adds op = {#}" "ws_op_removes op ws = {#}"
    by (auto simp: ws_rearranging_def split: workspace_op.splits)
  with workspace_step_keeps [OF assms True] show ?thesis
    by (auto simp: ws_changes_def ws_keeps_def elim!: returns_mono)
next
  case False
  consider (add) tile target act width full fl where "op = WsAddTile tile target act width full fl"
    | (add_to) ci ti tile act where "op = WsAddTileToColumn ci ti tile act"
    | (column) col act where "op = WsAddColumn col act" | (remove) w where "op = WsRemoveTile w"
    | (active) "op = WsRemoveActiveTile" | (active_column) "op = WsRemoveActiveColumn"
    using False by (cases op) (auto simp: ws_rearranging_def)
  then show ?thesis
  proof cases
    case add
    with ok returns_mono [OF ws_add_tile_ok [OF inv]] show ?thesis by (auto simp: ws_changes_def ws_adds_def)
  next
    case add_to
    with ok ws_add_tile_to_column_ok [OF inv, of tile ci ti act] show ?thesis
      by (auto simp: ws_changes_def ws_adds_def elim!: returns_mono split: option.splits)
  next
    case column
    with ok returns_mono [OF ws_add_column_ok [OF inv]] show ?thesis by (auto simp: ws_changes_def ws_adds_def)
  next
    case remove
    with ok ws_remove_tile_ok [OF inv, of w] show ?thesis
      by (auto simp: ws_changes_def ws_removes_def rest_of_def elim!: returns_mono)
  next
    case active
    with ws_remove_active_tile_ok [OF inv] inv show ?thesis
      by (auto simp: ws_changes_def ws_removes_def rest_of_def elim!: returns_mono split: option.splits)
         (cases rule: ws_active_window_cases [OF inv], auto simp: ws_windows_def fl_wins_def)
  next
    case active_column
    have "ws_changes (env_parent env) WsRemoveActiveColumn ws ws'"
      if "case c of None \<Rightarrow> ws' = ws \<and> (floating_get ws \<or> sc_columns (ws_scrolling ws) = [])
      | Some col \<Rightarrow> ws_removes (env_parent env) (mset (col_windows col)) ws ws' \<and> column_inv col \<and> \<not> floating_get ws \<and>
          sc_columns (ws_scrolling ws) \<noteq> [] \<and>
          col = sc_columns (ws_scrolling ws) ! sc_active_column_idx (ws_scrolling ws)" for c ws'
      using that inv by (cases c) (simp_all add: ws_changes_def ws_removes_def)
    then show ?thesis unfolding active_column workspace_step.simps rest_of_def returns_bind
      by (intro returns_mono [OF ws_remove_active_column_ok [OF inv]]) auto
  qed
qed

text \<open>
  The workspaces the operations reach from a new one. The parents of the windows belong to the
  clients: they change with the \<open>parent_changed\<close> handler, which tells the layout about the new parent.
\<close>

inductive workspace_reachable :: "'w parent_of \<Rightarrow> 'w lworkspace \<Rightarrow> bool" where
  new: "parents_acyclic parent \<Longrightarrow> workspace_reachable parent (ws_new_with_config out config d i)"
| new_no_outputs: "parents_acyclic parent \<Longrightarrow> workspace_reachable parent (ws_new_with_config_no_outputs config d i)"
| step: "workspace_reachable (env_parent env) ws \<Longrightarrow> workspace_op_ok op ws \<Longrightarrow>
    workspace_step env op ws = Inr ws' \<Longrightarrow> workspace_reachable (env_parent env) ws'"
| unset_parent: "workspace_reachable parent ws \<Longrightarrow> workspace_reachable (parent(c := None)) ws"
| set_parent: "workspace_reachable parent ws \<Longrightarrow> parents_acyclic (parent(c := Some q)) \<Longrightarrow>
    env_parent env = parent(c := Some q) \<Longrightarrow> ws_descendants_added env q ws = Inr (ws', found) \<Longrightarrow>
    workspace_reachable (parent(c := Some q)) ws'"

lemma ws_set_parent_ok:
  assumes inv: "workspace_inv parent ws" and acyc: "parents_acyclic (parent(c := p))"
  shows "returns (floating_step (FlSetParent c p) parent (ws_floating ws))
    (\<lambda>(parent', s). workspace_inv parent' (ws\<lparr>ws_floating := s\<rparr>) \<and> parent' = parent(c := p))"
  by (rule returns_mono [OF set_parent_ok [OF workspace_invD(4) [OF inv] acyc, folded fl_wins_def]])
    (use workspace_invD [OF inv] in \<open>auto simp: workspace_inv_iff fl_inv_def ws_windows_def\<close>)

lemma parents_acyclic_unset: "parents_acyclic parent \<Longrightarrow> parents_acyclic (parent(c := None))"
  unfolding parents_acyclic_def by (erule acyclic_subset) (auto simp: is_child_of_def split: if_splits)

lemma workspace_reachable_inv: "workspace_reachable parent ws \<Longrightarrow> workspace_inv parent ws"
proof (induction rule: workspace_reachable.induct)
  case (step env ws op ws')
  then show ?case using workspace_step_ok [of env ws op] by (auto simp: ws_changes_def)
next
  case (unset_parent parent ws c)
  then show ?case
    using ws_set_parent_ok [OF unset_parent.IH parents_acyclic_unset [OF workspace_invD(3) [OF unset_parent.IH]], of c]
    by (simp add: fun_upd_def)
next
  case (set_parent parent ws c q env ws' found)
  then show ?case using ws_set_parent_ok [OF set_parent.IH set_parent.hyps(2)]
    by (cases "fl_descendants_added (parent(c := Some q)) q (ws_floating ws)")
      (auto simp: ws_descendants_added_def simp del: fun_upd_apply)
qed (simp_all add: ws_new_inv)

subsection \<open>Properties\<close>

text \<open>
  C11. Every workspace that the operations reach from a new one satisfies the invariants of
  \<open>verify_invariants\<close>: those of both layers, every window in exactly one place, the floating layer
  focused only when it has windows, and focused whenever it alone has windows. Whatever operation
  comes next, with windows and positions that exist, does not panic, keeps all of this, and changes
  the windows of the workspace only by those it adds or removes.
\<close>

theorem workspace_never_panics:
  assumes "workspace_reachable (env_parent env) ws"
  shows "workspace_inv (env_parent env) ws \<and> (workspace_op_ok op ws \<longrightarrow>
    (\<exists>ws'. workspace_step env op ws = Inr ws' \<and> workspace_inv (env_parent env) ws' \<and>
      ws_windows ws' + ws_op_removes op ws = ws_windows ws + ws_op_adds op))"
proof -
  note inv = workspace_reachable_inv [OF assms]
  have "\<exists>ws'. workspace_step env op ws = Inr ws' \<and> ws_changes (env_parent env) op ws ws'" if "workspace_op_ok op ws"
    using workspace_step_ok [OF inv that] by (simp add: returns_def)
  with inv show ?thesis by (auto simp: ws_changes_def)
qed

definition example_env :: "nat layout_env" where
  "example_env = \<lparr>env_parent = (\<lambda>_. None), env_render_pos = (\<lambda>_. \<lparr>pt_x = 0, pt_y = 0\<rparr>), env_center_always = False,
     env_render_idx = (\<lambda>active _. real active), env_windowed_fullscreen = (\<lambda>_. False)\<rparr>"

definition example_workspace :: "nat lworkspace" where
  "example_workspace = ws_new_with_config_no_outputs None DisplayNormal 7"

lemma example_workspace_reachable:
  "workspace_reachable (env_parent example_env) example_workspace" "ws_windows example_workspace = {#}"
  by (simp_all add: example_env_def example_workspace_def workspace_reachable.new_no_outputs ws_new_inv(4) [of "\<lambda>_. None"])

theorem workspace_never_panics_witness:
  "\<exists>ws'. workspace_step example_env (WsAddTile (example_tile 1) TargetAuto ActivateSmart (WidthFixed 800) False True)
      example_workspace = Inr ws' \<and> workspace_inv (\<lambda>_. None) ws' \<and> ws_windows ws' = {#1#}"
  using workspace_never_panics [OF example_workspace_reachable(1),
      of "WsAddTile (example_tile 1) TargetAuto ActivateSmart (WidthFixed 800) False True"]
  by (simp add: example_workspace_reachable(2) example_env_def example_tile_def)

end
