(* ===== verification/Workspace_Fullscreen.thy ===== *)
theory Workspace_Fullscreen
  imports Workspace_Properties
begin

text \<open>
  A floating window that goes fullscreen or maximized is put in a column of its own and comes back
  to the floating layer afterwards. The lemmas follow that column through the operations.
\<close>

definition alone :: "'w \<Rightarrow> ('w column \<Rightarrow> 'w tile \<Rightarrow> bool) \<Rightarrow> 'w scrolling_space \<Rightarrow> bool" where
  "alone w P s \<longleftrightarrow> (\<exists>us c vs tile. sc_columns s = us @ c # vs \<and> (\<forall>u \<in> set us. \<not> col_contains u w) \<and>
     col_tiles c = [tile] \<and> tl_window tile = w \<and> P c tile)"

lemma position_alone: "\<forall>u \<in> set us. \<not> p u \<Longrightarrow> p c \<Longrightarrow> position p (us @ c # vs) = Some (length us)"
  by (induction us) auto

lemma find_alone: "\<forall>u \<in> set us. \<not> p u \<Longrightarrow> p c \<Longrightarrow> find p (us @ c # vs) = Some c"
  by (induction us) auto

lemma find_window_alone:
  assumes "\<forall>u \<in> set us. \<not> col_contains u w" "col_tiles c = [tile]" "tl_window tile = w"
  shows "find_window w (us @ c # vs) = Some (length us, 0)"
  using assms
proof (induction us)
  case (Cons u us)
  then have "w \<notin> tl_window ` set (col_tiles u)" by (simp add: col_windows_def)
  then have "col_position u w = None" unfolding col_position_def position_None by blast
  with Cons show ?case by simp
qed (simp add: col_position_def)

lemma find_tile_alone:
  assumes "sc_columns s = us @ c # vs" "\<forall>u \<in> set us. \<not> col_contains u w" "col_tiles c = [tile]" "tl_window tile = w"
  shows "find (\<lambda>tile. tl_window tile = w) (sc_tiles s) = Some tile"
proof -
  have "\<forall>t \<in> set (concat (map col_tiles us)). tl_window t \<noteq> w" using assms(2) by (auto simp: col_windows_def)
  then have "find (\<lambda>tile. tl_window tile = w) (concat (map col_tiles us) @ tile # concat (map col_tiles vs)) = Some tile"
    by (intro find_alone) (use assms(4) in auto)
  then show ?thesis using assms(1,3) by (simp add: sc_tiles_def)
qed

definition plain :: "'w column \<Rightarrow> 'w tile \<Rightarrow> bool" where
  "plain c _ \<longleftrightarrow> \<not> col_is_pending_fullscreen c \<and> \<not> col_is_pending_maximized c"

lemma add_tile_alone:
  assumes inv: "scrolling_inv s" and w: "tl_window tile \<notin># sc_windows s" "tl_pending_sizing_mode tile = SizingNormal"
    and add: "sc_add_tile None tile act width full s = Inr s'"
  shows "alone (tl_window tile) plain s'"
proof -
  obtain column where c: "new_with_tile (sc_default_column_display s) tile width full = Inr column"
    "sc_columns s' = take (add_idx None s) (sc_columns s) @ column # drop (add_idx None s) (sc_columns s)"
    using sc_add_tile_ok [OF inv, of None tile act width full] add by auto
  have col: "col_windows column = [tl_window tile]" "pending_sizing_mode column = SizingNormal"
    using new_with_tile_ok [of "sc_default_column_display s" tile width full] c(1) w(2) by auto
  have "\<forall>u \<in> set (take (add_idx None s) (sc_columns s)). \<not> col_contains u (tl_window tile)"
    using w(1) by (auto simp: sc_windows_def cols_windows_def dest!: in_set_takeD)
  moreover obtain t where "col_tiles column = [t]" "tl_window t = tl_window tile" using col(1) by (auto simp: col_windows_def)
  moreover have "plain column t" using col(2) by (simp add: plain_def pending_sizing_mode_def split: if_splits)
  ultimately show ?thesis unfolding alone_def using c(2) by blast
qed

lemma toggle_alone:
  assumes inv: "workspace_inv (env_parent env) ws" and w: "fl_has_window w (ws_floating ws)"
    and toggle: "ws_toggle_window_floating env (Some w) ws = Inr ws'"
  shows "alone w plain (ws_scrolling ws')"
proof -
  note D = workspace_invD [OF inv]
  obtain r s where r: "fl_remove_tile w (ws_floating ws) = Inr (r, s)" "tl_window (rt_tile r) = w"
      "tl_pending_sizing_mode (rt_tile r) = SizingNormal"
    using fl_remove_tile_ok [OF D(4), of w] w by (auto simp: returns_def removed_from_floating_def)
  obtain a where a: "ws_active_window ws = Inr a" by (rule ws_active_window_cases [OF inv]) auto
  have win: "w \<in># ws_windows ws" "w \<notin># sc_windows (ws_scrolling ws)"
    using w mset_distinct_disjoint [of "fl_wins (ws_floating ws)" "sc_windows (ws_scrolling ws)" w] D(5)
    by (auto simp: ws_windows_def add.commute)
  obtain tile where tile: "find (\<lambda>tile. tl_window tile = w) (ws_tiles ws) = Some tile" using find_tile [OF win(1)] by blast
  have "\<exists>act. sc_add_tile None (rt_tile r) act (rt_width r) (rt_is_full_width r) (ws_scrolling ws) = Inr (ws_scrolling ws')"
    using toggle w tile r(1)
    by (cases "sc_add_tile None (rt_tile r) (Some w = a) (rt_width r) (rt_is_full_width r) (ws_scrolling ws)")
      (auto simp: ws_toggle_window_floating_def a on_scrolling_def Let_def)
  with add_tile_alone [OF D(1), of "rt_tile r"] r(2,3) win(2) show ?thesis by auto
qed

lemma set_fullscreen_alone:
  assumes "alone w plain s"
  shows "returns (sc_set_fullscreen w True s) (\<lambda>(s', _).
    alone w (\<lambda>c tile. col_is_pending_fullscreen c \<and> \<not> col_is_pending_maximized c \<and>
      tl_pending_sizing_mode tile \<noteq> SizingNormal) s')"
proof -
  obtain us c vs tile where c: "sc_columns s = us @ c # vs" "\<forall>u \<in> set us. \<not> col_contains u w"
    "col_tiles c = [tile]" "tl_window tile = w" "plain c tile"
    using assms unfolding alone_def by blast
  have "position (\<lambda>col. col_contains col w) (us @ c # vs) = Some (length us)"
    by (rule position_alone [OF c(2)]) (simp add: col_windows_def c)
  with c show ?thesis
    by (auto simp: sc_set_fullscreen_def set_sizing_def set_col_def plain_def col_set_fullscreen_def Let_def
        alone_def update_tile_sizes_def pending_sizing_mode_def intro!: exI [of _ us])
qed

lemma set_maximized_alone:
  assumes "alone w plain s"
  shows "returns (sc_set_maximized w True s) (\<lambda>(s', _).
    alone w (\<lambda>_ tile. tl_pending_sizing_mode tile = SizingMaximized) s')"
proof -
  obtain us c vs tile where c: "sc_columns s = us @ c # vs" "\<forall>u \<in> set us. \<not> col_contains u w"
    "col_tiles c = [tile]" "tl_window tile = w" "plain c tile"
    using assms unfolding alone_def by blast
  have "position (\<lambda>col. col_contains col w) (us @ c # vs) = Some (length us)"
    by (rule position_alone [OF c(2)]) (simp add: col_windows_def c)
  with c show ?thesis
    by (auto simp: sc_set_maximized_def set_sizing_def set_col_def plain_def col_set_maximized_def Let_def
        alone_def update_tile_sizes_def pending_sizing_mode_def intro!: exI [of _ us])
qed

text \<open>The restore flag is set on the tile of the window.\<close>

lemma modify_alone:
  assumes "alone w P s" "\<And>tile. tl_window (f tile) = tl_window tile"
    "\<And>c tile. P c tile \<Longrightarrow> Q (c\<lparr>col_tiles := [f tile]\<rparr>) (f tile)"
  shows "returns (sc_modify_tile w f s) (alone w Q)"
proof -
  obtain us c vs tile where c: "sc_columns s = us @ c # vs" "\<forall>u \<in> set us. \<not> col_contains u w"
    "col_tiles c = [tile]" "tl_window tile = w" "P c tile"
    using assms(1) unfolding alone_def by blast
  show ?thesis using c find_window_alone [OF c(2-4)] assms(2,3)
    by (auto simp: sc_modify_tile_def alone_def intro!: exI [of _ us])
qed

lemma remember_alone:
  assumes plain: "alone w plain (ws_scrolling ws)" "scrolling_inv (ws_scrolling ws)"
    and mode: "returns (set_mode w True (ws_scrolling ws)) (\<lambda>(s, _). alone w P s)"
    and P: "\<And>c tile. P c tile \<Longrightarrow> tl_pending_sizing_mode tile \<noteq> SizingNormal \<and>
      Q (c\<lparr>col_tiles := [tile\<lparr>tl_restore_to_floating := restore\<rparr>]\<rparr>) (tile\<lparr>tl_restore_to_floating := restore\<rparr>)"
  shows "returns (set_mode_and_remember set_mode w True restore ws)
    (\<lambda>ws'. ws_floating ws' = ws_floating ws \<and> alone w Q (ws_scrolling ws'))"
proof -
  obtain us c vs tile where c: "sc_columns (ws_scrolling ws) = us @ c # vs" "\<forall>u \<in> set us. \<not> col_contains u w"
    "col_tiles c = [tile]" "tl_window tile = w" "plain c tile"
    using plain(1) unfolding alone_def by blast
  have "column_inv c" using scrolling_invD(1) [OF plain(2)] c(1) by (simp add: columns_inv_def)
  then have normal: "tl_pending_sizing_mode tile = SizingNormal"
    using c by (simp add: column_inv_def plain_def pending_sizing_mode_def)
  have "returns (sc_modify_tile w (\<lambda>tile. if tl_pending_sizing_mode tile \<noteq> SizingNormal
        then tile\<lparr>tl_restore_to_floating := restore\<rparr> else tile) s) (alone w Q)" if "alone w P s" for s
    by (rule modify_alone [OF that]) (use P in auto)
  then show ?thesis using mode find_tile_alone [OF c(1-4)] normal
    by (auto simp: set_mode_and_remember_def Let_def elim!: returns_mono)
qed

lemma restore_toggle:
  assumes inv: "workspace_inv (env_parent env) ws" and w: "\<not> fl_has_window w (ws_floating ws)" "w \<in># ws_windows ws"
  shows "returns (ws_toggle_window_floating env (Some w) ws) (\<lambda>ws'. ws_keeps (env_parent env) ws ws' \<and>
    fl_has_window w (ws_floating ws') \<and> (ws_active_window ws = Inr (Some w) \<longrightarrow> floating_get ws'))"
  by (rule returns_mono [OF ws_toggle_window_floating_ok [OF inv, of "Some w"]])
    (use w in \<open>auto simp: toggle_target_def toggled_def\<close>)

lemma unfullscreen_restores:
  assumes inv: "workspace_inv (env_parent env) ws" and w: "\<not> fl_has_window w (ws_floating ws)" "w \<in># ws_windows ws"
    and alone: "alone w (\<lambda>c tile. col_is_pending_fullscreen c \<and> \<not> col_is_pending_maximized c \<and>
      tl_restore_to_floating tile) (ws_scrolling ws)"
  shows "returns (ws_set_fullscreen env w False ws) (\<lambda>ws'. ws_keeps (env_parent env) ws ws' \<and> fl_has_window w (ws_floating ws'))"
proof -
  obtain us c vs tile where c: "sc_columns (ws_scrolling ws) = us @ c # vs" "\<forall>u \<in> set us. \<not> col_contains u w"
    "col_tiles c = [tile]" "tl_window tile = w" "col_is_pending_fullscreen c" "\<not> col_is_pending_maximized c" "tl_restore_to_floating tile"
    using alone unfolding alone_def by blast
  have "find (\<lambda>col. col_contains col w) (us @ c # vs) = Some c"
    by (rule find_alone [OF c(2)]) (simp add: col_windows_def c)
  then have "ws_set_fullscreen env w False ws = ws_toggle_window_floating env (Some w) ws"
    using c w(1) by (simp add: ws_set_fullscreen_def)
  with restore_toggle [OF inv w] show ?thesis by (auto elim!: returns_mono)
qed

lemma unmaximize_restores:
  assumes inv: "workspace_inv (env_parent env) ws" and w: "\<not> fl_has_window w (ws_floating ws)" "w \<in># ws_windows ws"
    and alone: "alone w (\<lambda>c tile. tl_pending_sizing_mode tile = SizingMaximized \<and> tl_restore_to_floating tile)
      (ws_scrolling ws)"
  shows "returns (ws_set_maximized env w False ws) (\<lambda>ws'. ws_keeps (env_parent env) ws ws' \<and> fl_has_window w (ws_floating ws'))"
proof -
  obtain us c vs tile where c: "sc_columns (ws_scrolling ws) = us @ c # vs" "\<forall>u \<in> set us. \<not> col_contains u w"
    "col_tiles c = [tile]" "tl_window tile = w" "tl_pending_sizing_mode tile = SizingMaximized" "tl_restore_to_floating tile"
    using alone unfolding alone_def by blast
  have "ws_set_maximized env w False ws = ws_toggle_window_floating env (Some w) ws"
    using find_tile_alone [OF c(1-4)] c w(1) by (simp add: ws_set_maximized_def)
  with restore_toggle [OF inv w] show ?thesis by (auto elim!: returns_mono)
qed

lemma going_alone:
  assumes inv: "workspace_inv (env_parent env) ws" and w: "fl_has_window w (ws_floating ws)"
  shows "returns (ws_set_fullscreen env w True ws) (\<lambda>ws1. \<not> fl_has_window w (ws_floating ws1) \<and>
      alone w (\<lambda>c tile. col_is_pending_fullscreen c \<and> \<not> col_is_pending_maximized c \<and> tl_restore_to_floating tile) (ws_scrolling ws1))"
    "returns (ws_set_maximized env w True ws) (\<lambda>ws1. \<not> fl_has_window w (ws_floating ws1) \<and>
      alone w (\<lambda>c tile. tl_pending_sizing_mode tile = SizingMaximized \<and> tl_restore_to_floating tile) (ws_scrolling ws1))"
proof -
  have "w \<in># ws_windows ws" using w by (simp add: ws_windows_def)
  then obtain ws0 where ws0: "ws_toggle_window_floating env (Some w) ws = Inr ws0" "ws_keeps (env_parent env) ws ws0"
    "\<not> fl_has_window w (ws_floating ws0)"
    using ws_toggle_window_floating_ok [OF inv, of "Some w"] w
    by (auto simp: returns_def toggle_target_def toggled_def)
  note alone = toggle_alone [OF inv w ws0(1)]
  note sc = workspace_invD(1) [OF ws_keeps_inv [OF ws0(2)]]
  have "returns (set_mode_and_remember sc_set_fullscreen w True True ws0) (\<lambda>ws'. ws_floating ws' = ws_floating ws0 \<and>
      alone w (\<lambda>c tile. col_is_pending_fullscreen c \<and> \<not> col_is_pending_maximized c \<and> tl_restore_to_floating tile) (ws_scrolling ws'))"
    by (rule remember_alone [where set_mode = sc_set_fullscreen, OF alone sc set_fullscreen_alone [OF alone]]) auto
  then show "returns (ws_set_fullscreen env w True ws) (\<lambda>ws1. \<not> fl_has_window w (ws_floating ws1) \<and>
      alone w (\<lambda>c tile. col_is_pending_fullscreen c \<and> \<not> col_is_pending_maximized c \<and> tl_restore_to_floating tile) (ws_scrolling ws1))"
    using ws0 w by (auto simp: ws_set_fullscreen_def elim!: returns_mono)
  have "returns (set_mode_and_remember sc_set_maximized w True True ws0) (\<lambda>ws'. ws_floating ws' = ws_floating ws0 \<and>
      alone w (\<lambda>c tile. tl_pending_sizing_mode tile = SizingMaximized \<and> tl_restore_to_floating tile) (ws_scrolling ws'))"
    by (rule remember_alone [where set_mode = sc_set_maximized, OF alone sc set_maximized_alone [OF alone]]) auto
  then show "returns (ws_set_maximized env w True ws) (\<lambda>ws1. \<not> fl_has_window w (ws_floating ws1) \<and>
      alone w (\<lambda>c tile. tl_pending_sizing_mode tile = SizingMaximized \<and> tl_restore_to_floating tile) (ws_scrolling ws1))"
    using ws0 w by (auto simp: ws_set_maximized_def elim!: returns_mono)
qed

lemma there_and_back:
  assumes inv: "workspace_inv (env_parent env) ws" and w: "w \<in># ws_windows ws"
    and keep: "returns (set_mode env w True ws) (ws_keeps (env_parent env) ws)"
    and first: "returns (set_mode env w True ws) (\<lambda>ws1. \<not> fl_has_window w (ws_floating ws1) \<and> Q ws1)"
    and second: "\<And>ws1. workspace_inv (env_parent env) ws1 \<Longrightarrow> \<not> fl_has_window w (ws_floating ws1) \<Longrightarrow> w \<in># ws_windows ws1 \<Longrightarrow> Q ws1 \<Longrightarrow>
      returns (set_mode env w False ws1) (\<lambda>ws2. ws_keeps (env_parent env) ws1 ws2 \<and> fl_has_window w (ws_floating ws2))"
  shows "\<exists>ws1 ws2. set_mode env w True ws = Inr ws1 \<and> \<not> fl_has_window w (ws_floating ws1) \<and> w \<in># ws_windows ws1 \<and>
    set_mode env w False ws1 = Inr ws2 \<and> fl_has_window w (ws_floating ws2) \<and>
    workspace_inv (env_parent env) ws2 \<and> ws_windows ws2 = ws_windows ws"
proof -
  obtain ws1 where ws1: "set_mode env w True ws = Inr ws1" "ws_keeps (env_parent env) ws ws1"
    "\<not> fl_has_window w (ws_floating ws1)" "Q ws1"
    using keep first by (auto simp: returns_def)
  have "w \<in># ws_windows ws1" using ws1(2) w by (simp add: ws_keeps_def)
  with second [OF ws_keeps_inv [OF ws1(2)] ws1(3) this ws1(4)] ws1 show ?thesis
    by (auto simp: returns_def ws_keeps_def)
qed

subsection \<open>Properties\<close>

text \<open>
  C26. A floating window that is made fullscreen leaves the floating layer, and when it is unfullscreened
  it is a floating window again; the same for maximizing. Neither request panics, the invariants of
  the workspace hold throughout, and no other window leaves or enters the workspace.
\<close>

theorem fullscreen_restores_floating:
  assumes inv: "workspace_inv (env_parent env) ws" and w: "fl_has_window w (ws_floating ws)"
    and mode: "set_mode \<in> {ws_set_fullscreen, ws_set_maximized}"
  shows "\<exists>ws1 ws2. set_mode env w True ws = Inr ws1 \<and> \<not> fl_has_window w (ws_floating ws1) \<and> w \<in># ws_windows ws1 \<and>
    set_mode env w False ws1 = Inr ws2 \<and> fl_has_window w (ws_floating ws2) \<and>
    workspace_inv (env_parent env) ws2 \<and> ws_windows ws2 = ws_windows ws"
proof -
  have win: "w \<in># ws_windows ws" using w by (simp add: ws_windows_def)
  have "\<exists>ws1 ws2. ws_set_fullscreen env w True ws = Inr ws1 \<and> \<not> fl_has_window w (ws_floating ws1) \<and> w \<in># ws_windows ws1 \<and>
    ws_set_fullscreen env w False ws1 = Inr ws2 \<and> fl_has_window w (ws_floating ws2) \<and>
    workspace_inv (env_parent env) ws2 \<and> ws_windows ws2 = ws_windows ws"
    by (rule there_and_back [where set_mode = ws_set_fullscreen, OF inv win ws_set_fullscreen_keeps [OF inv win] going_alone(1) [OF inv w]])
      (rule unfullscreen_restores)
  moreover have "\<exists>ws1 ws2. ws_set_maximized env w True ws = Inr ws1 \<and> \<not> fl_has_window w (ws_floating ws1) \<and> w \<in># ws_windows ws1 \<and>
    ws_set_maximized env w False ws1 = Inr ws2 \<and> fl_has_window w (ws_floating ws2) \<and>
    workspace_inv (env_parent env) ws2 \<and> ws_windows ws2 = ws_windows ws"
    by (rule there_and_back [where set_mode = ws_set_maximized, OF inv win ws_set_maximized_keeps [OF inv win] going_alone(2) [OF inv w]])
      (rule unmaximize_restores)
  ultimately show ?thesis using mode by blast
qed


text \<open>A workspace with one floating window.\<close>

lemma one_floating_window:
  "\<exists>ws. workspace_inv (\<lambda>_. None) ws \<and> fl_has_window (1 :: nat) (ws_floating ws)"
proof -
  have "ws_windows example_workspace = {#}" "workspace_inv (env_parent example_env) example_workspace"
    using example_workspace_reachable workspace_reachable_inv by auto
  then have "returns (on_floating (fl_add_tile (env_parent example_env) (example_tile 1) True) example_workspace) (\<lambda>ws'.
      ws_adds (env_parent example_env) {#1#} example_workspace (focus_if True FloatingYes ws') \<and>
      ws_scrolling ws' = ws_scrolling example_workspace)"
    using fl_add_tile_adds(1) [of "env_parent example_env" example_workspace "example_tile 1" True True]
    by (auto simp: example_tile_def on_floating_def elim!: returns_mono)
  then obtain ws where ws: "ws_adds (env_parent example_env) {#1#} example_workspace ws"
    "ws_scrolling ws = ws_scrolling example_workspace"
    by (auto simp: returns_def)
  have "sc_windows (ws_scrolling example_workspace) = {#}"
    using example_workspace_reachable(2) by (simp add: ws_windows_def)
  then show ?thesis using ws example_workspace_reachable(2)
    by (intro exI [of _ ws]) (auto simp: ws_adds_def ws_windows_def example_env_def simp flip: mem_fl_wins)
qed

theorem fullscreen_restores_floating_witness:
  "\<exists>ws ws1 ws2. fl_has_window (1 :: nat) (ws_floating ws) \<and>
    ws_set_fullscreen example_env 1 True ws = Inr ws1 \<and> \<not> fl_has_window 1 (ws_floating ws1) \<and>
    ws_set_fullscreen example_env 1 False ws1 = Inr ws2 \<and> fl_has_window 1 (ws_floating ws2)"
proof -
  obtain ws where ws: "workspace_inv (env_parent example_env) ws" "fl_has_window (1 :: nat) (ws_floating ws)"
    using one_floating_window by (auto simp: example_env_def)
  show ?thesis using fullscreen_restores_floating [OF ws, of ws_set_fullscreen] ws(2) by auto
qed

end
