(* ===== verification/Monitor.thy ===== *)
theory Monitor
  imports Workspace_Properties Workspace_Fullscreen
begin

text \<open>
  A monitor, \<^verbatim>\<open>Monitor\<close> of \<^verbatim>\<open>src/layout/monitor.rs\<close>: its list of workspaces, which of them is active, the
  one that was active before, and the switch between two of them that may be in progress. There is
  always an empty workspace at the end, and with the option \<^verbatim>\<open>empty-workspace-above-first\<close> one at the
  top too; the operations add and remove such workspaces. New workspaces take their identifier from
  the global counter, which is a field here.
\<close>

record layout_options =
  lo_empty_workspace_above_first :: bool
  lo_default_column_display :: column_display

record layout_part =
  lp_empty_workspace_above_first :: "bool option"
  lp_default_column_display :: "column_display option"

definition with_merged_layout :: "layout_part option \<Rightarrow> layout_options \<Rightarrow> layout_options" where
  "with_merged_layout part options =
     (case part of
        None \<Rightarrow> options
      | Some part \<Rightarrow>
          \<lparr>lo_empty_workspace_above_first =
             (case lp_empty_workspace_above_first part of Some b \<Rightarrow> b | None \<Rightarrow> lo_empty_workspace_above_first options),
           lo_default_column_display =
             (case lp_default_column_display part of Some d \<Rightarrow> d | None \<Rightarrow> lo_default_column_display options)\<rparr>)"

record 'w monitor =
  mo_output :: loutput
  mo_view :: output_view
  mo_workspaces :: "'w lworkspace list"
  mo_active_workspace_idx :: nat
  mo_previous_workspace_id :: "nat option"
  mo_workspace_switch :: "workspace_switch option"
  mo_overview_open :: bool
  mo_base_options :: layout_options
  mo_options :: layout_options
  mo_layout_config :: "layout_part option"
  mo_next_id :: nat

datatype 'w monitor_target = MonTargetAuto | MonTargetWorkspace nat "nat option" | MonTargetNextTo 'w

subsection \<open>The workspace switch\<close>

definition target_idx :: "workspace_switch \<Rightarrow> real" where
  "target_idx switch = (case switch of SwitchAnimation from to \<Rightarrow> to | SwitchGesture g \<Rightarrow> ge_current_idx g)"

text \<open>\<open>offset\<close>, which is only ever called with 1.\<close>

definition switch_offset_one :: "workspace_switch \<Rightarrow> workspace_switch" where
  "switch_offset_one switch =
     (case switch of
        SwitchAnimation from to \<Rightarrow> SwitchAnimation (from + 1) (to + 1)
      | SwitchGesture g \<Rightarrow> SwitchGesture (g\<lparr>ge_center_idx := ge_center_idx g + 1,
          ge_start_idx := ge_start_idx g + 1, ge_current_idx := ge_current_idx g + 1\<rparr>))"

definition min_max :: "nat \<Rightarrow> workspace_switch_gesture \<Rightarrow> (real \<times> real) res" where
  "min_max workspace_count g =
     bind_res (assert_that ''attempt to subtract with overflow'' (0 < workspace_count)) (\<lambda>_.
       Inr (if ge_is_clamped g
            then (real (ge_center_idx g - 1), real (min (ge_center_idx g + 1) (workspace_count - 1)))
            else (0, real (workspace_count - 1))))"

subsection \<open>Construction\<close>

text \<open>The loop of \<open>new\<close> over the workspaces the monitor starts with.\<close>

fun prepare_workspaces ::
  "loutput \<Rightarrow> layout_options \<Rightarrow> nat option \<Rightarrow> nat \<Rightarrow> nat \<Rightarrow> 'w lworkspace list \<Rightarrow>
   ('w lworkspace list \<times> nat) res" where
  "prepare_workspaces out options ws_id_to_activate idx active [] = Inr ([], active)"
| "prepare_workspaces out options ws_id_to_activate idx active (ws # rest) =
     bind_res (assert_that ''ws.has_windows_or_name()'' (ws_has_windows_or_name ws)) (\<lambda>_.
     let ws = ws_update_config (lo_default_column_display options) (ws_set_output (Some out) ws);
         active = (if ws_id_to_activate = Some (ws_id ws) then idx else active)
     in bind_res (prepare_workspaces out options ws_id_to_activate (idx + 1) active rest) (\<lambda>(rest, active).
          Inr (ws # rest, active)))"

definition mo_new ::
  "loutput \<Rightarrow> 'w lworkspace list \<Rightarrow> nat option \<Rightarrow> layout_options \<Rightarrow> layout_part option \<Rightarrow> nat \<Rightarrow> 'w monitor res" where
  "mo_new out workspaces ws_id_to_activate base_options layout_config next_id =
     (let options = with_merged_layout layout_config base_options;
          new = ws_new out (lo_default_column_display options)
      in bind_res (prepare_workspaces out options ws_id_to_activate 0 0 workspaces) (\<lambda>(workspaces, active).
         let (workspaces, active, next_id) =
               (if lo_empty_workspace_above_first options \<and> workspaces \<noteq> []
                then (new next_id # workspaces, active + 1, next_id + 1) else (workspaces, active, next_id));
             workspaces = workspaces @ [new next_id]
         in Inr \<lparr>mo_output = out, mo_view = out_view out, mo_workspaces = workspaces,
              mo_active_workspace_idx = active, mo_previous_workspace_id = None, mo_workspace_switch = None,
              mo_overview_open = False, mo_base_options = base_options, mo_options = options,
              mo_layout_config = layout_config, mo_next_id = next_id + 1\<rparr>))"

definition mo_into_workspaces :: "'w monitor \<Rightarrow> 'w lworkspace list" where
  "mo_into_workspaces m = map (ws_set_output None) (filter ws_has_windows_or_name (mo_workspaces m))"

definition mo_windows_list :: "'w monitor \<Rightarrow> 'w list" where
  "mo_windows_list m = concat (map (\<lambda>ws. map tl_window (ws_tiles ws)) (mo_workspaces m))"

definition mo_has_window :: "'w \<Rightarrow> 'w monitor \<Rightarrow> bool" where
  "mo_has_window window m = list_ex (\<lambda>w. w = window) (mo_windows_list m)"

definition name_matches :: "string \<Rightarrow> 'w lworkspace \<Rightarrow> bool" where
  "name_matches workspace_name ws =
     (case ws_name ws of None \<Rightarrow> False | Some name \<Rightarrow> eq_ignore_ascii_case name workspace_name)"

definition mo_find_named_workspace :: "string \<Rightarrow> 'w monitor \<Rightarrow> 'w lworkspace option" where
  "mo_find_named_workspace workspace_name m = find (name_matches workspace_name) (mo_workspaces m)"

definition mo_find_named_workspace_index :: "string \<Rightarrow> 'w monitor \<Rightarrow> nat option" where
  "mo_find_named_workspace_index workspace_name m = position (name_matches workspace_name) (mo_workspaces m)"

definition mo_active_workspace :: "'w monitor \<Rightarrow> 'w lworkspace res" where
  "mo_active_workspace m = vec_index (mo_workspaces m) (mo_active_workspace_idx m)"

definition mo_active_window :: "'w monitor \<Rightarrow> 'w option res" where
  "mo_active_window m = bind_res (mo_active_workspace m) ws_active_window"

subsection \<open>Adding workspaces and switching\<close>

definition add_workspace_at :: "nat \<Rightarrow> 'w monitor \<Rightarrow> 'w monitor res" where
  "add_workspace_at idx m =
     (let ws = ws_new (mo_output m) (lo_default_column_display (mo_options m)) (mo_next_id m)
      in bind_res (vec_insert idx ws (mo_workspaces m)) (\<lambda>workspaces.
         Inr (m\<lparr>mo_workspaces := workspaces, mo_next_id := mo_next_id m + 1,
                mo_active_workspace_idx :=
                  (if idx \<le> mo_active_workspace_idx m then mo_active_workspace_idx m + 1 else mo_active_workspace_idx m),
                mo_workspace_switch := map_option (\<lambda>switch.
                  if real idx \<le> target_idx switch then switch_offset_one switch else switch) (mo_workspace_switch m)\<rparr>)))"

definition add_workspace_top :: "'w monitor \<Rightarrow> 'w monitor res" where
  "add_workspace_top m = add_workspace_at 0 m"

definition add_workspace_bottom :: "'w monitor \<Rightarrow> 'w monitor res" where
  "add_workspace_bottom m = add_workspace_at (length (mo_workspaces m)) m"

definition is_dnd_scroll :: "workspace_switch option \<Rightarrow> bool" where
  "is_dnd_scroll switch =
     (case switch of Some (SwitchGesture g) \<Rightarrow> ge_dnd_last_event_time g \<noteq> None | _ \<Rightarrow> False)"

text \<open>\<open>activate_workspace\<close> and \<open>activate_workspace_with_anim_config\<close>, which differ in the animation only.\<close>

definition activate_workspace :: "'w layout_env \<Rightarrow> nat \<Rightarrow> 'w monitor \<Rightarrow> 'w monitor res" where
  "activate_workspace env idx m =
     (let current_idx = env_render_idx env (mo_active_workspace_idx m) (mo_workspace_switch m)
      in bind_res (if mo_active_workspace_idx m \<noteq> idx
                   then bind_res (mo_active_workspace m) (\<lambda>ws. Inr (Some (ws_id ws)))
                   else Inr (mo_previous_workspace_id m)) (\<lambda>previous.
         let prev_active_idx = mo_active_workspace_idx m;
             m = m\<lparr>mo_previous_workspace_id := previous, mo_active_workspace_idx := idx\<rparr>
         in Inr (case mo_workspace_switch m of
                   Some (SwitchGesture g) \<Rightarrow>
                     if ge_dnd_last_event_time g \<noteq> None
                     then m\<lparr>mo_workspace_switch := Some (SwitchGesture (g\<lparr>ge_center_idx := idx,
                            ge_start_idx := real idx - (ge_current_idx g - ge_start_idx g),
                            ge_current_idx := real idx\<rparr>))\<rparr>
                     else if prev_active_idx = idx then m
                     else m\<lparr>mo_workspace_switch := Some (SwitchAnimation current_idx (real idx))\<rparr>
                 | _ \<Rightarrow> if prev_active_idx = idx then m
                     else m\<lparr>mo_workspace_switch := Some (SwitchAnimation current_idx (real idx))\<rparr>)))"

definition resolve_add_window_target :: "'w monitor_target \<Rightarrow> 'w monitor \<Rightarrow> (nat \<times> 'w ws_target) res" where
  "resolve_add_window_target target m =
     (case target of
        MonTargetAuto \<Rightarrow> Inr (mo_active_workspace_idx m, TargetAuto)
      | MonTargetWorkspace wid column_idx \<Rightarrow>
          bind_res (unwrap (position (\<lambda>ws. ws_id ws = wid) (mo_workspaces m))) (\<lambda>idx.
            Inr (idx, case column_idx of Some i \<Rightarrow> TargetNewColumnAt i | None \<Rightarrow> TargetAuto))
      | MonTargetNextTo window \<Rightarrow>
          bind_res (unwrap (position (ws_has_window window) (mo_workspaces m))) (\<lambda>idx.
            Inr (idx, TargetNextTo window)))"

subsection \<open>Cleaning up\<close>

definition remove_workspace_at :: "nat \<Rightarrow> 'w monitor \<Rightarrow> 'w monitor res" where
  "remove_workspace_at idx m =
     bind_res (vec_remove idx (mo_workspaces m)) (\<lambda>(_, workspaces). Inr (m\<lparr>mo_workspaces := workspaces\<rparr>))"

fun clean_up_loop :: "nat list \<Rightarrow> 'w monitor \<Rightarrow> 'w monitor res" where
  "clean_up_loop [] m = Inr m"
| "clean_up_loop (idx # idxs) m =
     (if mo_active_workspace_idx m = idx then clean_up_loop idxs m
      else bind_res (vec_index (mo_workspaces m) idx) (\<lambda>ws.
        if \<not> ws_has_windows_or_name ws
        then bind_res (remove_workspace_at idx m) (\<lambda>m.
          clean_up_loop idxs (if mo_active_workspace_idx m > idx
            then m\<lparr>mo_active_workspace_idx := mo_active_workspace_idx m - 1\<rparr> else m))
        else clean_up_loop idxs m))"

definition clean_up_workspaces :: "'w monitor \<Rightarrow> 'w monitor res" where
  "clean_up_workspaces m =
     bind_res (assert_that ''self.workspace_switch.is_none()'' (mo_workspace_switch m = None)) (\<lambda>_.
     let range_start = (if lo_empty_workspace_above_first (mo_options m) then 1 else 0)
     in bind_res (last_idx (mo_workspaces m)) (\<lambda>l.
        bind_res (clean_up_loop (rev [range_start..<l]) m) (\<lambda>m.
        if lo_empty_workspace_above_first (mo_options m) \<and> length (mo_workspaces m) = 2
        then bind_res (assert_that ''!self.workspaces[0].has_windows_or_name()''
                 (\<not> ws_has_windows_or_name (mo_workspaces m ! 0))) (\<lambda>_.
             bind_res (assert_that ''!self.workspaces[1].has_windows_or_name()''
                 (\<not> ws_has_windows_or_name (mo_workspaces m ! 1))) (\<lambda>_.
             bind_res (remove_workspace_at 1 m) (\<lambda>m. Inr (m\<lparr>mo_active_workspace_idx := 0\<rparr>))))
        else Inr m)))"

definition clean_up_if_idle :: "'w monitor \<Rightarrow> 'w monitor res" where
  "clean_up_if_idle m = (if mo_workspace_switch m = None then clean_up_workspaces m else Inr m)"

definition mo_unname_workspace :: "nat \<Rightarrow> 'w monitor \<Rightarrow> ('w monitor \<times> bool) res" where
  "mo_unname_workspace wid m =
     (case position (\<lambda>ws. ws_id ws = wid) (mo_workspaces m) of
        None \<Rightarrow> Inr (m, False)
      | Some i \<Rightarrow>
          bind_res (vec_modify i ws_unname (mo_workspaces m)) (\<lambda>workspaces.
          bind_res (clean_up_if_idle (m\<lparr>mo_workspaces := workspaces\<rparr>)) (\<lambda>m. Inr (m, True))))"

subsection \<open>Whole workspaces\<close>

definition add_edges ::
  "nat \<Rightarrow> 'w monitor \<Rightarrow> (nat \<times> 'w monitor) res" where
  "add_edges idx m =
     bind_res (last_idx (mo_workspaces m)) (\<lambda>l.
     bind_res (if idx = l then add_workspace_bottom m else Inr m) (\<lambda>m.
     if lo_empty_workspace_above_first (mo_options m) \<and> idx = 0
     then bind_res (add_workspace_top m) (\<lambda>m. Inr (idx + 1, m))
     else Inr (idx, m)))"

definition remove_workspace_by_idx :: "nat \<Rightarrow> 'w monitor \<Rightarrow> ('w lworkspace \<times> 'w monitor) res" where
  "remove_workspace_by_idx idx m =
     bind_res (add_edges idx m) (\<lambda>(idx, m).
     bind_res (vec_remove idx (mo_workspaces m)) (\<lambda>(ws, workspaces).
     let m = m\<lparr>mo_workspaces := workspaces,
               mo_active_workspace_idx :=
                 (if idx \<le> mo_active_workspace_idx m \<and> mo_active_workspace_idx m > 0
                  then mo_active_workspace_idx m - 1 else mo_active_workspace_idx m),
               mo_workspace_switch := None\<rparr>
     in bind_res (clean_up_workspaces m) (\<lambda>m. Inr (ws_set_output None ws, m))))"

definition adopt :: "'w monitor \<Rightarrow> 'w lworkspace \<Rightarrow> 'w lworkspace" where
  "adopt m ws = ws_update_config (lo_default_column_display (mo_options m)) (ws_set_output (Some (mo_output m)) ws)"

definition insert_workspace ::
  "'w layout_env \<Rightarrow> 'w lworkspace \<Rightarrow> nat \<Rightarrow> bool \<Rightarrow> 'w monitor \<Rightarrow> 'w monitor res" where
  "insert_workspace env ws idx activate m =
     (let ws = adopt m ws
      in bind_res (if idx = length (mo_workspaces m)
                   then bind_res (last_idx (mo_workspaces m)) Inr else Inr idx) (\<lambda>idx.
         bind_res (if idx = 0 \<and> lo_empty_workspace_above_first (mo_options m)
                   then bind_res (add_workspace_top m) (\<lambda>m. Inr (idx + 1, m)) else Inr (idx, m)) (\<lambda>(idx, m).
         bind_res (vec_insert idx ws (mo_workspaces m)) (\<lambda>workspaces.
         let m = m\<lparr>mo_workspaces := workspaces,
                   mo_active_workspace_idx :=
                     (if idx \<le> mo_active_workspace_idx m then mo_active_workspace_idx m + 1
                      else mo_active_workspace_idx m)\<rparr>
         in bind_res (if activate then activate_workspace env idx (m\<lparr>mo_workspace_switch := None\<rparr>) else Inr m) (\<lambda>m.
            clean_up_workspaces (m\<lparr>mo_workspace_switch := None\<rparr>))))))"

definition append_workspaces :: "'w lworkspace list \<Rightarrow> 'w monitor \<Rightarrow> 'w monitor res" where
  "append_workspaces workspaces m =
     (if workspaces = [] then Inr m
      else let workspaces = map (adopt m) workspaces
      in bind_res (last_idx (mo_workspaces m)) (\<lambda>l.
         let empty_was_focused = (mo_active_workspace_idx m = l)
         in bind_res (vec_remove l (mo_workspaces m)) (\<lambda>(empty, rest).
            let m = m\<lparr>mo_workspaces := rest @ workspaces @ [empty]\<rparr>
            in bind_res (if lo_empty_workspace_above_first (mo_options m) \<and>
                            ws_has_windows_or_name (hd (mo_workspaces m))
                         then add_workspace_top m else Inr m) (\<lambda>m.
               let m = (if empty_was_focused
                        then m\<lparr>mo_active_workspace_idx := length (mo_workspaces m) - 1\<rparr> else m)
               in clean_up_workspaces (m\<lparr>mo_workspace_switch := None\<rparr>)))))"

definition keep_previous :: "('w monitor \<Rightarrow> 'w monitor res) \<Rightarrow> 'w monitor \<Rightarrow> 'w monitor res" where
  "keep_previous f m =
     bind_res (f m) (\<lambda>m'. Inr (m'\<lparr>mo_workspace_switch := None,
       mo_previous_workspace_id := mo_previous_workspace_id m\<rparr>))"

definition move_workspace_down :: "'w layout_env \<Rightarrow> 'w monitor \<Rightarrow> 'w monitor res" where
  "move_workspace_down env m =
     bind_res (last_idx (mo_workspaces m)) (\<lambda>l.
     let new_idx = min (mo_active_workspace_idx m + 1) l
     in if new_idx = mo_active_workspace_idx m then Inr m
        else bind_res (vec_swap (mo_active_workspace_idx m) new_idx (mo_workspaces m)) (\<lambda>workspaces.
          let m = m\<lparr>mo_workspaces := workspaces\<rparr>
          in bind_res (if new_idx = length (mo_workspaces m) - 1 then add_workspace_bottom m else Inr m) (\<lambda>m.
             bind_res (if lo_empty_workspace_above_first (mo_options m) \<and> mo_active_workspace_idx m = 0
                       then bind_res (add_workspace_top m) (\<lambda>m. Inr (new_idx + 1, m)) else Inr (new_idx, m)) (\<lambda>(new_idx, m).
             bind_res (keep_previous (activate_workspace env new_idx) m) clean_up_workspaces))))"

definition move_workspace_up :: "'w layout_env \<Rightarrow> 'w monitor \<Rightarrow> 'w monitor res" where
  "move_workspace_up env m =
     (let new_idx = mo_active_workspace_idx m - 1
      in if new_idx = mo_active_workspace_idx m then Inr m
         else bind_res (vec_swap (mo_active_workspace_idx m) new_idx (mo_workspaces m)) (\<lambda>workspaces.
           let m = m\<lparr>mo_workspaces := workspaces\<rparr>
           in bind_res (if mo_active_workspace_idx m = length (mo_workspaces m) - 1
                        then add_workspace_bottom m else Inr m) (\<lambda>m.
              bind_res (if lo_empty_workspace_above_first (mo_options m) \<and> new_idx = 0
                        then bind_res (add_workspace_top m) (\<lambda>m. Inr (new_idx + 1, m)) else Inr (new_idx, m)) (\<lambda>(new_idx, m).
              bind_res (keep_previous (activate_workspace env new_idx) m) clean_up_workspaces))))"

definition move_workspace_to_idx :: "nat \<Rightarrow> nat \<Rightarrow> 'w monitor \<Rightarrow> 'w monitor res" where
  "move_workspace_to_idx old_idx new_idx m =
     (if length (mo_workspaces m) \<le> old_idx then Inr m
      else let new_idx = min new_idx (length (mo_workspaces m) - 1)
      in if old_idx = new_idx then Inr m
      else bind_res (vec_remove old_idx (mo_workspaces m)) (\<lambda>(ws, rest).
           bind_res (vec_insert new_idx ws rest) (\<lambda>workspaces.
           let m = m\<lparr>mo_workspaces := workspaces\<rparr>;
               last_moved = (if new_idx > old_idx then new_idx else old_idx);
               first_moved = (if new_idx > old_idx then old_idx else new_idx)
           in bind_res (if last_moved = length (mo_workspaces m) - 1 then add_workspace_bottom m else Inr m) (\<lambda>m.
              bind_res (if lo_empty_workspace_above_first (mo_options m) \<and> first_moved = 0
                        then bind_res (add_workspace_top m) (\<lambda>m. Inr (new_idx + 1, m)) else Inr (new_idx, m)) (\<lambda>(new_idx, m).
              let active = mo_active_workspace_idx m;
                  active = (if active = old_idx then new_idx
                            else if new_idx \<le> active \<and> old_idx > active then active + 1
                            else if new_idx \<ge> active \<and> old_idx < active then active - 1
                            else active)
              in clean_up_workspaces (m\<lparr>mo_active_workspace_idx := active, mo_workspace_switch := None\<rparr>))))))"

definition mo_update_config :: "layout_options \<Rightarrow> 'w monitor \<Rightarrow> 'w monitor res" where
  "mo_update_config base_options m =
     (let options = with_merged_layout (mo_layout_config m) base_options
      in bind_res
           (if lo_empty_workspace_above_first (mo_options m) \<noteq> lo_empty_workspace_above_first options \<and>
               length (mo_workspaces m) > 1
            then if lo_empty_workspace_above_first options then add_workspace_top m
                 else if mo_workspace_switch m = None \<and> mo_active_workspace_idx m \<noteq> 0
                 then bind_res (remove_workspace_at 0 m) (\<lambda>m.
                   Inr (m\<lparr>mo_active_workspace_idx := mo_active_workspace_idx m - 1\<rparr>))
                 else Inr m
            else Inr m) (\<lambda>m.
         Inr (m\<lparr>mo_workspaces := map (ws_update_config (lo_default_column_display options)) (mo_workspaces m),
                mo_base_options := base_options, mo_options := options\<rparr>)))"

definition mo_update_layout_config :: "layout_part option \<Rightarrow> 'w monitor \<Rightarrow> ('w monitor \<times> bool) res" where
  "mo_update_layout_config layout_config m =
     (if mo_layout_config m = layout_config then Inr (m, False)
      else bind_res (mo_update_config (mo_base_options m) (m\<lparr>mo_layout_config := layout_config\<rparr>)) (\<lambda>m.
        Inr (m, True)))"

text \<open>\<open>update_output_size\<close>, with the new view of the output.\<close>

definition mo_update_output_size :: "output_view \<Rightarrow> 'w monitor \<Rightarrow> 'w monitor" where
  "mo_update_output_size view m =
     m\<lparr>mo_output := (mo_output m)\<lparr>out_view := view\<rparr>, mo_view := view,
       mo_workspaces := map (ws_set_view_size view) (mo_workspaces m)\<rparr>"

end
