(* ===== verification/Monitor_Moves.thy ===== *)
theory Monitor_Moves
  imports Monitor
begin

text \<open>
  The operations of \<^verbatim>\<open>Monitor\<close> that move windows and columns between workspaces, switch to another
  workspace, and follow a gesture that does.
\<close>

subsection \<open>Adding windows\<close>

definition on_workspace ::
  "nat \<Rightarrow> ('w lworkspace \<Rightarrow> 'w lworkspace res) \<Rightarrow> 'w monitor \<Rightarrow> 'w monitor res" where
  "on_workspace idx f m =
     bind_res (vec_index (mo_workspaces m) idx) (\<lambda>ws.
     bind_res (f ws) (\<lambda>ws. Inr (m\<lparr>mo_workspaces := (mo_workspaces m)[idx := ws]\<rparr>)))"

text \<open>After a window is added, an unnamed workspace becomes the output's own.\<close>

definition own :: "'w monitor \<Rightarrow> 'w lworkspace \<Rightarrow> 'w lworkspace" where
  "own m ws = (if ws_name ws = None then ws\<lparr>ws_original_output := output_id (mo_output m)\<rparr> else ws)"

definition mo_add_column :: "'w layout_env \<Rightarrow> nat \<Rightarrow> 'w column \<Rightarrow> bool \<Rightarrow> 'w monitor \<Rightarrow> 'w monitor res" where
  "mo_add_column env workspace_idx column activate m =
     bind_res (on_workspace workspace_idx (\<lambda>ws.
         bind_res (ws_add_column column activate ws) (\<lambda>ws. Inr (own m ws))) m) (\<lambda>m.
     bind_res (add_edges workspace_idx m) (\<lambda>(workspace_idx, m).
       if activate then activate_workspace env workspace_idx m else Inr m))"

definition mo_add_tile ::
  "'w layout_env \<Rightarrow> 'w tile \<Rightarrow> 'w monitor_target \<Rightarrow> activate_window \<Rightarrow> bool \<Rightarrow> column_width \<Rightarrow> bool \<Rightarrow> bool \<Rightarrow>
   'w monitor \<Rightarrow> 'w monitor res" where
  "mo_add_tile env tile target activate allow_to_activate_workspace width is_full_width is_floating m =
     bind_res (resolve_add_window_target target m) (\<lambda>(workspace_idx, target).
     bind_res (on_workspace workspace_idx (\<lambda>ws.
         bind_res (ws_add_tile env tile target activate width is_full_width is_floating ws) (\<lambda>ws.
           Inr (own m ws))) m) (\<lambda>m.
     bind_res (add_edges workspace_idx m) (\<lambda>(workspace_idx, m).
       if allow_to_activate_workspace \<and> map_smart activate False
       then activate_workspace env workspace_idx m else Inr m)))"

definition mo_add_tile_to_column ::
  "'w layout_env \<Rightarrow> nat \<Rightarrow> nat \<Rightarrow> nat option \<Rightarrow> 'w tile \<Rightarrow> bool \<Rightarrow> bool \<Rightarrow> 'w monitor \<Rightarrow> 'w monitor res" where
  "mo_add_tile_to_column env workspace_idx column_idx tile_idx tile activate allow_to_activate_workspace m =
     bind_res (on_workspace workspace_idx (\<lambda>ws.
         bind_res (ws_add_tile_to_column column_idx tile_idx tile activate ws) (\<lambda>ws. Inr (own m ws))) m) (\<lambda>m.
       if allow_to_activate_workspace \<and> activate then activate_workspace env workspace_idx m else Inr m)"

subsection \<open>Moving windows\<close>

definition store_workspace :: "nat \<Rightarrow> 'w lworkspace \<Rightarrow> 'w monitor \<Rightarrow> 'w monitor" where
  "store_workspace idx ws m = m\<lparr>mo_workspaces := (mo_workspaces m)[idx := ws]\<rparr>"

definition add_removed_tile ::
  "'w layout_env \<Rightarrow> 'w removed_tile \<Rightarrow> nat \<Rightarrow> activate_window \<Rightarrow> 'w monitor \<Rightarrow> 'w monitor res" where
  "add_removed_tile env removed new_id activate m =
     mo_add_tile env (rt_tile removed) (MonTargetWorkspace new_id None) activate True
       (rt_width removed) (rt_is_full_width removed) (rt_is_floating removed) m"

text \<open>The common text of \<open>move_to_workspace_up\<close> and \<open>move_to_workspace_down\<close>, once the target is known.\<close>

definition move_active_to :: "'w layout_env \<Rightarrow> nat \<Rightarrow> bool \<Rightarrow> 'w monitor \<Rightarrow> 'w monitor res" where
  "move_active_to env new_idx focus m =
     (let source = mo_active_workspace_idx m
      in if new_idx = source then Inr m
         else bind_res (vec_index (mo_workspaces m) new_idx) (\<lambda>new_ws.
              bind_res (vec_index (mo_workspaces m) source) (\<lambda>ws.
              bind_res (ws_remove_active_tile ws) (\<lambda>(removed, ws).
              let m = store_workspace source ws m
              in case removed of
                   None \<Rightarrow> Inr m
                 | Some removed \<Rightarrow>
                     add_removed_tile env removed (ws_id new_ws) (if focus then ActivateYes else ActivateSmart) m))))"

definition move_to_workspace_up :: "'w layout_env \<Rightarrow> bool \<Rightarrow> 'w monitor \<Rightarrow> 'w monitor res" where
  "move_to_workspace_up env focus m = move_active_to env (mo_active_workspace_idx m - 1) focus m"

definition move_to_workspace_down :: "'w layout_env \<Rightarrow> bool \<Rightarrow> 'w monitor \<Rightarrow> 'w monitor res" where
  "move_to_workspace_down env focus m =
     bind_res (last_idx (mo_workspaces m)) (\<lambda>l.
       move_active_to env (min (mo_active_workspace_idx m + 1) l) focus m)"

definition move_to_workspace ::
  "'w layout_env \<Rightarrow> 'w option \<Rightarrow> nat \<Rightarrow> activate_window \<Rightarrow> 'w monitor \<Rightarrow> 'w monitor res" where
  "move_to_workspace env window idx activate m =
     bind_res (case window of
                 Some w \<Rightarrow> unwrap (position (ws_has_window w) (mo_workspaces m))
               | None \<Rightarrow> Inr (mo_active_workspace_idx m)) (\<lambda>source.
     bind_res (last_idx (mo_workspaces m)) (\<lambda>l.
     let new_idx = min idx l
     in if new_idx = source then Inr m
        else bind_res (vec_index (mo_workspaces m) new_idx) (\<lambda>new_ws.
             bind_res (mo_active_window m) (\<lambda>active.
             let act = map_smart activate (case window of None \<Rightarrow> True | Some w \<Rightarrow> active = Some w)
             in bind_res (vec_index (mo_workspaces m) source) (\<lambda>ws.
                bind_res (case window of
                            Some w \<Rightarrow> bind_res (ws_remove_tile w ws) (\<lambda>(removed, ws). Inr (Some removed, ws))
                          | None \<Rightarrow> ws_remove_active_tile ws) (\<lambda>(removed, ws).
                let m = store_workspace source ws m
                in case removed of
                     None \<Rightarrow> Inr m
                   | Some removed \<Rightarrow>
                       bind_res (add_removed_tile env removed (ws_id new_ws)
                           (if act then ActivateYes else ActivateNo) m)
                         clean_up_if_idle))))))"

definition move_column_up_or_down ::
  "'w layout_env \<Rightarrow> nat \<Rightarrow> ('w monitor \<Rightarrow> 'w monitor res) \<Rightarrow> bool \<Rightarrow> 'w monitor \<Rightarrow> 'w monitor res" where
  "move_column_up_or_down env new_idx move_floating activate m =
     (let source = mo_active_workspace_idx m
      in if new_idx = source then Inr m
         else bind_res (vec_index (mo_workspaces m) source) (\<lambda>ws.
           if floating_get ws then move_floating m
           else bind_res (ws_remove_active_column ws) (\<lambda>(column, ws).
             let m = store_workspace source ws m
             in case column of None \<Rightarrow> Inr m | Some column \<Rightarrow> mo_add_column env new_idx column activate m)))"

definition move_column_to_workspace_up :: "'w layout_env \<Rightarrow> bool \<Rightarrow> 'w monitor \<Rightarrow> 'w monitor res" where
  "move_column_to_workspace_up env activate m =
     move_column_up_or_down env (mo_active_workspace_idx m - 1) (move_to_workspace_up env activate) activate m"

definition move_column_to_workspace_down :: "'w layout_env \<Rightarrow> bool \<Rightarrow> 'w monitor \<Rightarrow> 'w monitor res" where
  "move_column_to_workspace_down env activate m =
     bind_res (last_idx (mo_workspaces m)) (\<lambda>l.
       move_column_up_or_down env (min (mo_active_workspace_idx m + 1) l) (move_to_workspace_down env activate) activate m)"

definition move_column_to_workspace :: "'w layout_env \<Rightarrow> nat \<Rightarrow> bool \<Rightarrow> 'w monitor \<Rightarrow> 'w monitor res" where
  "move_column_to_workspace env idx activate m =
     bind_res (last_idx (mo_workspaces m)) (\<lambda>l.
       move_column_up_or_down env (min idx l)
         (move_to_workspace env None idx (if activate then ActivateSmart else ActivateNo)) activate m)"

subsection \<open>Switching\<close>

text \<open>\<open>as usize\<close> of a real that has been clamped to be at least 0.\<close>

definition switch_workspace_up :: "'w layout_env \<Rightarrow> 'w monitor \<Rightarrow> 'w monitor res" where
  "switch_workspace_up env m =
     bind_res (case mo_workspace_switch m of
                 Some (SwitchGesture g) \<Rightarrow>
                   if ge_dnd_last_event_time g \<noteq> None
                   then bind_res (last_idx (mo_workspaces m)) (\<lambda>l.
                        bind_res (f64_clamp 0 (real l) (of_int \<lceil>ge_current_idx g\<rceil> - 1)) (\<lambda>r. Inr (nat \<lfloor>r\<rfloor>)))
                   else Inr (mo_active_workspace_idx m - 1)
               | _ \<Rightarrow> Inr (mo_active_workspace_idx m - 1)) (\<lambda>new_idx.
       activate_workspace env new_idx m)"

definition switch_workspace_down :: "'w layout_env \<Rightarrow> 'w monitor \<Rightarrow> 'w monitor res" where
  "switch_workspace_down env m =
     bind_res (last_idx (mo_workspaces m)) (\<lambda>l.
     bind_res (case mo_workspace_switch m of
                 Some (SwitchGesture g) \<Rightarrow>
                   if ge_dnd_last_event_time g \<noteq> None
                   then bind_res (f64_clamp 0 (real l) (of_int \<lfloor>ge_current_idx g\<rfloor> + 1)) (\<lambda>r. Inr (nat \<lfloor>r\<rfloor>))
                   else Inr (min (mo_active_workspace_idx m + 1) l)
               | _ \<Rightarrow> Inr (min (mo_active_workspace_idx m + 1) l)) (\<lambda>new_idx.
       activate_workspace env new_idx m))"

definition previous_workspace_idx :: "'w monitor \<Rightarrow> nat option" where
  "previous_workspace_idx m =
     (case mo_previous_workspace_id m of
        None \<Rightarrow> None
      | Some wid \<Rightarrow> position (\<lambda>ws. ws_id ws = wid) (mo_workspaces m))"

definition switch_workspace :: "'w layout_env \<Rightarrow> nat \<Rightarrow> 'w monitor \<Rightarrow> 'w monitor res" where
  "switch_workspace env idx m =
     bind_res (last_idx (mo_workspaces m)) (\<lambda>l. activate_workspace env (min idx l) m)"

definition switch_workspace_previous :: "'w layout_env \<Rightarrow> 'w monitor \<Rightarrow> 'w monitor res" where
  "switch_workspace_previous env m =
     (case previous_workspace_idx m of None \<Rightarrow> Inr m | Some idx \<Rightarrow> switch_workspace env idx m)"

definition switch_workspace_auto_back_and_forth :: "'w layout_env \<Rightarrow> nat \<Rightarrow> 'w monitor \<Rightarrow> 'w monitor res" where
  "switch_workspace_auto_back_and_forth env idx m =
     bind_res (last_idx (mo_workspaces m)) (\<lambda>l.
     let idx = min idx l
     in if idx = mo_active_workspace_idx m then switch_workspace_previous env m
        else switch_workspace env idx m)"

text \<open>An operation of the active workspace that says whether it did something, or else one of the monitor.\<close>

definition active_or_else ::
  "('w lworkspace \<Rightarrow> ('w lworkspace \<times> bool) res) \<Rightarrow> ('w monitor \<Rightarrow> 'w monitor res) \<Rightarrow> 'w monitor \<Rightarrow> 'w monitor res" where
  "active_or_else f g m =
     bind_res (mo_active_workspace m) (\<lambda>ws.
     bind_res (f ws) (\<lambda>(ws, moved).
       let m = store_workspace (mo_active_workspace_idx m) ws m
       in if moved then Inr m else g m))"

definition move_down_or_to_workspace_down :: "'w layout_env \<Rightarrow> 'w monitor \<Rightarrow> 'w monitor res" where
  "move_down_or_to_workspace_down env = active_or_else ws_move_down (move_to_workspace_down env True)"

definition move_up_or_to_workspace_up :: "'w layout_env \<Rightarrow> 'w monitor \<Rightarrow> 'w monitor res" where
  "move_up_or_to_workspace_up env = active_or_else ws_move_up (move_to_workspace_up env True)"

definition focus_window_or_workspace_down :: "'w layout_env \<Rightarrow> 'w monitor \<Rightarrow> 'w monitor res" where
  "focus_window_or_workspace_down env = active_or_else (ws_focus_down env) (switch_workspace_down env)"

definition focus_window_or_workspace_up :: "'w layout_env \<Rightarrow> 'w monitor \<Rightarrow> 'w monitor res" where
  "focus_window_or_workspace_up env = active_or_else (ws_focus_up env) (switch_workspace_up env)"

text \<open>
  \<open>advance_animations\<close>: a finished switch is dropped and the workspaces cleaned up; a gesture has its
  times updated. Whether the animation is done and what time it is come from the clock.
\<close>

definition mo_advance_animations :: "bool \<Rightarrow> nat \<Rightarrow> 'w monitor \<Rightarrow> 'w monitor res" where
  "mo_advance_animations done now m =
     (case mo_workspace_switch m of
        Some (SwitchAnimation from to) \<Rightarrow>
          if done then clean_up_workspaces (m\<lparr>mo_workspace_switch := None\<rparr>) else Inr m
      | Some (SwitchGesture g) \<Rightarrow>
          Inr (case ge_dnd_last_event_time g of
                 Some last_time \<Rightarrow>
                   if last_time \<noteq> now
                   then m\<lparr>mo_workspace_switch := Some (SwitchGesture (g\<lparr>ge_dnd_last_event_time := Some now,
                          ge_dnd_nonzero_start_time := None\<rparr>))\<rparr>
                   else m
               | None \<Rightarrow> m)
      | None \<Rightarrow> Inr m)"

subsection \<open>Gestures\<close>

definition WORKSPACE_GESTURE_MOVEMENT :: real where "WORKSPACE_GESTURE_MOVEMENT = 300"

definition WORKSPACE_DND_EDGE_SCROLL_MOVEMENT :: real where "WORKSPACE_DND_EDGE_SCROLL_MOVEMENT = 1500"

definition WORKSPACE_GESTURE_RUBBER_BAND :: rubber_band where
  "WORKSPACE_GESTURE_RUBBER_BAND = \<lparr>rb_stiffness = 1 / 2, rb_limit = 1 / 20\<rparr>"

definition new_gesture :: "'w layout_env \<Rightarrow> bool \<Rightarrow> bool \<Rightarrow> nat option \<Rightarrow> 'w monitor \<Rightarrow> 'w monitor" where
  "new_gesture env is_touchpad is_clamped dnd m =
     (let current_idx = env_render_idx env (mo_active_workspace_idx m) (mo_workspace_switch m)
      in m\<lparr>mo_workspace_switch := Some (SwitchGesture
           \<lparr>ge_center_idx = mo_active_workspace_idx m, ge_start_idx = current_idx, ge_current_idx = current_idx,
            ge_tracker = tracker_new, ge_is_touchpad = is_touchpad, ge_is_clamped = is_clamped,
            ge_dnd_last_event_time = dnd, ge_dnd_nonzero_start_time = None\<rparr>)\<rparr>)"

definition workspace_switch_gesture_begin :: "'w layout_env \<Rightarrow> bool \<Rightarrow> 'w monitor \<Rightarrow> 'w monitor" where
  "workspace_switch_gesture_begin env is_touchpad m =
     new_gesture env is_touchpad (\<not> mo_overview_open m) None m"

definition dnd_scroll_gesture_begin :: "'w layout_env \<Rightarrow> nat \<Rightarrow> 'w monitor \<Rightarrow> 'w monitor" where
  "dnd_scroll_gesture_begin env now m =
     (if is_dnd_scroll (mo_workspace_switch m) then m
      else if \<not> mo_overview_open m then m
      else new_gesture env False False (Some now) m)"

text \<open>
  \<open>workspace_switch_gesture_update\<close>; the zoom of the overview and the height of a workspace with its
  gap come from the geometry.
\<close>

definition workspace_switch_gesture_update ::
  "real \<Rightarrow> real \<Rightarrow> real \<Rightarrow> nat \<Rightarrow> bool \<Rightarrow> 'w monitor \<Rightarrow> ('w monitor \<times> bool option) res" where
  "workspace_switch_gesture_update zoom height delta_y timestamp is_touchpad m =
     (case mo_workspace_switch m of
        Some (SwitchGesture g) \<Rightarrow>
          if ge_is_touchpad g \<noteq> is_touchpad \<or> ge_dnd_last_event_time g \<noteq> None then Inr (m, None)
          else
            let total_height = (if ge_is_touchpad g then WORKSPACE_GESTURE_MOVEMENT else height);
                delta_scale = (if ge_is_touchpad g then (zoom - 1) / (5 / 2) + 1 else zoom);
                delta_y = delta_y / delta_scale;
                rubber = WORKSPACE_GESTURE_RUBBER_BAND\<lparr>rb_limit := rb_limit WORKSPACE_GESTURE_RUBBER_BAND / zoom\<rparr>;
                g = g\<lparr>ge_tracker := tracker_push delta_y timestamp (ge_tracker g)\<rparr>;
                pos = st_pos (ge_tracker g) / total_height
            in bind_res (min_max (length (mo_workspaces m)) g) (\<lambda>(lo, hi).
               bind_res (band_clamp rubber lo hi (ge_start_idx g + pos)) (\<lambda>new_idx.
               if ge_current_idx g = new_idx
               then Inr (m\<lparr>mo_workspace_switch := Some (SwitchGesture g)\<rparr>, Some False)
               else Inr (m\<lparr>mo_workspace_switch := Some (SwitchGesture (g\<lparr>ge_current_idx := new_idx\<rparr>))\<rparr>, Some True)))
      | _ \<Rightarrow> Inr (m, None))"

text \<open>
  \<open>dnd_scroll_gesture_scroll\<close>; \<open>delta\<close> is how far the pointer is in the trigger zone, already scaled by
  the speed. The position along the strip and the zone are geometry.
\<close>

definition dnd_scroll_gesture_scroll ::
  "nat \<Rightarrow> nat \<Rightarrow> real \<Rightarrow> real \<Rightarrow> 'w monitor \<Rightarrow> ('w monitor \<times> bool) res" where
  "dnd_scroll_gesture_scroll now delay max_speed delta m =
     (case mo_workspace_switch m of
        Some (SwitchGesture g) \<Rightarrow>
          (case ge_dnd_last_event_time g of
             None \<Rightarrow> Inr (m, False)
           | Some last_time \<Rightarrow>
               let g = g\<lparr>ge_dnd_last_event_time := Some now\<rparr>
               in if delta = 0
                  then Inr (m\<lparr>mo_workspace_switch := Some (SwitchGesture (g\<lparr>ge_dnd_nonzero_start_time := None\<rparr>))\<rparr>, False)
                  else let nonzero_start = (case ge_dnd_nonzero_start_time g of Some t \<Rightarrow> t | None \<Rightarrow> now);
                           g = g\<lparr>ge_dnd_nonzero_start_time := Some nonzero_start\<rparr>
                       in if now - nonzero_start < delay
                          then Inr (m\<lparr>mo_workspace_switch := Some (SwitchGesture g)\<rparr>, True)
                          else let time_delta = real (now - last_time) / 1000000000;
                                   g = g\<lparr>ge_tracker := tracker_push (delta * time_delta * max_speed) now (ge_tracker g)\<rparr>;
                                   pos = st_pos (ge_tracker g) / WORKSPACE_DND_EDGE_SCROLL_MOVEMENT;
                                   unclamped = ge_start_idx g + pos
                               in bind_res (min_max (length (mo_workspaces m)) g) (\<lambda>(lo, hi).
                                  bind_res (f64_clamp lo hi unclamped) (\<lambda>clamped.
                                  Inr (m\<lparr>mo_workspace_switch := Some (SwitchGesture (g\<lparr>
                                         ge_start_idx := ge_start_idx g + (clamped - unclamped),
                                         ge_current_idx := clamped\<rparr>))\<rparr>, True))))
      | _ \<Rightarrow> Inr (m, False))"

definition round_half_away :: "real \<Rightarrow> int" where
  "round_half_away x = (if 0 \<le> x then \<lfloor>x + 1 / 2\<rfloor> else \<lceil>x - 1 / 2\<rceil>)"

definition workspace_switch_gesture_end ::
  "real \<Rightarrow> nat \<Rightarrow> bool option \<Rightarrow> 'w monitor \<Rightarrow> ('w monitor \<times> bool) res" where
  "workspace_switch_gesture_end height now is_touchpad m =
     (case mo_workspace_switch m of
        Some (SwitchGesture g) \<Rightarrow>
          if (case is_touchpad of Some x \<Rightarrow> ge_is_touchpad g \<noteq> x | None \<Rightarrow> False) then Inr (m, False)
          else
            let total_height = (if ge_dnd_last_event_time g \<noteq> None then WORKSPACE_DND_EDGE_SCROLL_MOVEMENT
                                else if ge_is_touchpad g then WORKSPACE_GESTURE_MOVEMENT else height);
                tracker = tracker_push 0 now (ge_tracker g)
            in bind_res (projected_end_pos tracker) (\<lambda>end_pos.
               bind_res (min_max (length (mo_workspaces m)) g) (\<lambda>(lo, hi).
               bind_res (f64_clamp lo hi (ge_start_idx g + end_pos / total_height)) (\<lambda>clamped.
               let new_idx = nat (round_half_away clamped)
               in bind_res (if mo_active_workspace_idx m \<noteq> new_idx
                            then bind_res (mo_active_workspace m) (\<lambda>ws. Inr (Some (ws_id ws)))
                            else Inr (mo_previous_workspace_id m)) (\<lambda>previous.
                  Inr (m\<lparr>mo_previous_workspace_id := previous, mo_active_workspace_idx := new_idx,
                         mo_workspace_switch := Some (SwitchAnimation (ge_current_idx g) (real new_idx))\<rparr>, True)))))
      | _ \<Rightarrow> Inr (m, False))"

definition dnd_scroll_gesture_end :: "real \<Rightarrow> nat \<Rightarrow> 'w monitor \<Rightarrow> 'w monitor res" where
  "dnd_scroll_gesture_end height now m =
     (if \<not> is_dnd_scroll (mo_workspace_switch m) then Inr m
      else bind_res (workspace_switch_gesture_end height now None m) (\<lambda>(m, _). Inr m))"

end
