(* ===== verification/Monitor_Inv.thy ===== *)
theory Monitor_Inv
  imports Monitor_Moves "HOL-Library.Sublist"
begin

text \<open>
  The invariant of a monitor, \<^verbatim>\<open>verify_invariants\<close> of \<^verbatim>\<open>monitor.rs\<close>, and the cleaning up of workspaces
  that restores it.
\<close>

subsection \<open>Lists of workspaces\<close>

abbreviation "used \<equiv> ws_has_windows_or_name"

definition wss_windows :: "'w lworkspace list \<Rightarrow> 'w multiset" where
  "wss_windows wss = sum_list (map ws_windows wss)"

abbreviation mo_windows :: "'w monitor \<Rightarrow> 'w multiset" where
  "mo_windows m \<equiv> wss_windows (mo_workspaces m)"

lemma wss_windows_simps [simp]:
  "wss_windows [] = {#}" "wss_windows (ws # wss) = ws_windows ws + wss_windows wss"
  "wss_windows (xs @ ys) = wss_windows xs + wss_windows ys"
  by (simp_all add: wss_windows_def)

lemma used_iff: "used ws \<longleftrightarrow> ws_windows ws \<noteq> {#} \<or> ws_name ws \<noteq> None"
  by (simp add: ws_has_windows_or_name_def ws_has_windows_iff)

lemma wss_windows_used: "wss_windows (filter used wss) = wss_windows wss"
  by (induction wss) (auto simp: used_iff)

lemma mem_wss_windows: "w \<in># wss_windows wss \<longleftrightarrow> (\<exists>ws \<in> set wss. w \<in># ws_windows ws)"
  by (induction wss) auto

text \<open>
  The shape of the list: the last workspace is empty and unnamed, and so is the first one if the
  option asks for it; a tidy list has no other such workspace, except the active one.
\<close>

definition edges_ok :: "bool \<Rightarrow> 'w lworkspace list \<Rightarrow> bool" where
  "edges_ok above_first wss \<longleftrightarrow> wss \<noteq> [] \<and> \<not> used (last wss) \<and> (above_first \<longrightarrow> \<not> used (hd wss))"

definition tidy :: "bool \<Rightarrow> nat \<Rightarrow> 'w lworkspace list \<Rightarrow> bool" where
  "tidy above_first active wss \<longleftrightarrow>
     (\<forall>i. (if above_first then 1 else 0) \<le> i \<longrightarrow> i < length wss - 1 \<longrightarrow> i \<noteq> active \<longrightarrow> used (wss ! i))"

abbreviation above_first :: "'w monitor \<Rightarrow> bool" where
  "above_first m \<equiv> lo_empty_workspace_above_first (mo_options m)"

text \<open>
  A switch: an animation ends at the active workspace, a gesture is centred on one that exists. That the
  animation also starts at an index that exists, which \<open>verify_invariants\<close> asserts, is left out: it
  starts at the value of an animation before it, which is a parameter here.
\<close>

definition switch_inv :: "'w monitor \<Rightarrow> bool" where
  "switch_inv m \<longleftrightarrow> (case mo_workspace_switch m of
     None \<Rightarrow> True
   | Some (SwitchAnimation from to) \<Rightarrow> to = real (mo_active_workspace_idx m)
   | Some (SwitchGesture g) \<Rightarrow> ge_center_idx g < length (mo_workspaces m) \<and>
       sorted (map ev_timestamp (st_history (ge_tracker g))))"

text \<open>The part of the invariant about each workspace.\<close>

definition workspaces_inv :: "'w parent_of \<Rightarrow> 'w monitor \<Rightarrow> bool" where
  "workspaces_inv parent m \<longleftrightarrow>
     list_all (workspace_inv parent) (mo_workspaces m) \<and> mset_distinct (mo_windows m) \<and>
     distinct (map ws_id (mo_workspaces m)) \<and> list_all (\<lambda>ws. ws_id ws < mo_next_id m) (mo_workspaces m) \<and>
     parents_acyclic parent"

definition options_ok :: "'w monitor \<Rightarrow> bool" where
  "options_ok m \<longleftrightarrow> mo_options m = with_merged_layout (mo_layout_config m) (mo_base_options m)"

definition same_conf :: "'w monitor \<Rightarrow> 'w monitor \<Rightarrow> bool" where
  "same_conf m m' \<longleftrightarrow> mo_options m' = mo_options m \<and> mo_base_options m' = mo_base_options m \<and>
     mo_layout_config m' = mo_layout_config m \<and> mo_output m' = mo_output m \<and> mo_view m' = mo_view m"

lemma same_conf_options: "same_conf m m' \<Longrightarrow> options_ok m' = options_ok m" "same_conf m m' \<Longrightarrow> above_first m' = above_first m"
  by (simp_all add: same_conf_def options_ok_def)

text \<open>What holds in the middle of an operation, before the workspaces are cleaned up.\<close>

definition untidy_inv :: "'w parent_of \<Rightarrow> 'w monitor \<Rightarrow> bool" where
  "untidy_inv parent m \<longleftrightarrow>
     workspaces_inv parent m \<and> mo_active_workspace_idx m < length (mo_workspaces m) \<and>
     edges_ok (above_first m) (mo_workspaces m) \<and> switch_inv m \<and> options_ok m"

definition monitor_inv :: "'w parent_of \<Rightarrow> 'w monitor \<Rightarrow> bool" where
  "monitor_inv parent m \<longleftrightarrow>
     untidy_inv parent m \<and> (above_first m \<longrightarrow> length (mo_workspaces m) \<noteq> 2) \<and>
     (mo_workspace_switch m = None \<longrightarrow> tidy (above_first m) (mo_active_workspace_idx m) (mo_workspaces m))"

subsection \<open>Cleaning up\<close>

definition cleaned :: "nat \<Rightarrow> nat \<Rightarrow> 'w lworkspace list \<Rightarrow> nat \<Rightarrow> 'w lworkspace list \<Rightarrow> nat \<Rightarrow> bool" where
  "cleaned r k wss a front a' \<longleftrightarrow>
     take r front = take r wss \<and> r \<le> length front \<and> length front \<le> k \<and> subseq front (take k wss) \<and>
     filter used front = filter used (take k wss) \<and>
     (\<forall>i. r \<le> i \<longrightarrow> i < length front \<longrightarrow> i \<noteq> a' \<longrightarrow> used (front ! i)) \<and>
     (a < k \<longrightarrow> a' < length front \<and> front ! a' = wss ! a) \<and>
     (k \<le> a \<longrightarrow> a' + k = length front + a)"

lemma cleaned_keep:
  assumes "cleaned r k wss a front a'" "Suc k < length wss" "a = k \<or> used (wss ! k)"
  shows "cleaned r (Suc k) wss a (front @ [wss ! k]) a'"
proof -
  have k: "take (Suc k) wss = take k wss @ [wss ! k]" using assms(2) by (simp add: take_Suc_conv_app_nth)
  have "used ((front @ [wss ! k]) ! i)" if "r \<le> i" "i < length (front @ [wss ! k])" "i \<noteq> a'" for i
    using that assms(1,3) by (cases "i < length front") (auto simp: cleaned_def nth_append less_Suc_eq)
  then show ?thesis using assms unfolding cleaned_def k
    by (auto simp: nth_append less_Suc_eq subseq_append')
qed

lemma cleaned_remove:
  assumes c: "cleaned r k (take k wss @ drop (Suc k) wss) (if k < a then a - 1 else a) front a'"
    and k: "Suc k < length wss" and unused: "\<not> used (wss ! k)" and a: "a \<noteq> k"
  shows "cleaned r (Suc k) wss a front a'"
proof -
  let ?wss = "take k wss @ drop (Suc k) wss"
  have take_k: "take k ?wss = take k wss" using k by simp
  have t: "take (Suc k) wss = take k wss @ [wss ! k]" using k by (simp add: take_Suc_conv_app_nth)
  have len: "r \<le> length front" "length front \<le> k" using c by (simp_all add: cleaned_def)
  then have "take r ?wss = take r wss" using k by (simp add: take_append min_def)
  moreover have "?wss ! a = wss ! a" if "a < k" using that k by (simp add: nth_append)
  ultimately show ?thesis using c unused a len unfolding cleaned_def take_k t
    by (auto split: if_splits intro: subseq_rev_drop_many)
qed

lemma clean_up_loop_ok:
  assumes "r \<le> k" "k < length (mo_workspaces m)"
  shows "returns (clean_up_loop (rev [r..<k]) m) (\<lambda>m'. \<exists>front a'.
    m' = m\<lparr>mo_workspaces := front @ drop k (mo_workspaces m), mo_active_workspace_idx := a'\<rparr> \<and>
    cleaned r k (mo_workspaces m) (mo_active_workspace_idx m) front a')"
  using assms
proof (induction k arbitrary: m rule: dec_induct)
  case base
  have "m = m\<lparr>mo_workspaces := take r (mo_workspaces m) @ drop r (mo_workspaces m),
      mo_active_workspace_idx := mo_active_workspace_idx m\<rparr>" by simp
  moreover have "cleaned r r (mo_workspaces m) (mo_active_workspace_idx m) (take r (mo_workspaces m)) (mo_active_workspace_idx m)"
    using base by (auto simp: cleaned_def)
  moreover have "clean_up_loop (rev [r..<r]) m = Inr m" by simp
  ultimately show ?case unfolding returns_def by blast
next
  case (step k)
  let ?wss = "mo_workspaces m" and ?a = "mo_active_workspace_idx m"
  have upt: "rev [r..<Suc k] = k # rev [r..<k]" using step(1) by simp
  have d: "drop k ?wss = ?wss ! k # drop (Suc k) ?wss" using step.prems by (simp add: Cons_nth_drop_Suc)
  show ?case
  proof (cases "?a = k \<or> used (?wss ! k)")
    case True
    then have "clean_up_loop (rev [r..<Suc k]) m = clean_up_loop (rev [r..<k]) m"
      using step.prems unfolding upt by (auto simp: vec_simps)
    moreover have "returns (clean_up_loop (rev [r..<k]) m) (\<lambda>m'. \<exists>front a'.
        m' = m\<lparr>mo_workspaces := front @ drop (Suc k) ?wss, mo_active_workspace_idx := a'\<rparr> \<and>
        cleaned r (Suc k) ?wss ?a front a')"
    proof (rule returns_mono [OF step.IH])
      fix m' assume "\<exists>front a'. m' = m\<lparr>mo_workspaces := front @ drop k ?wss, mo_active_workspace_idx := a'\<rparr> \<and>
          cleaned r k ?wss ?a front a'"
      then obtain front a' where f: "m' = m\<lparr>mo_workspaces := front @ drop k ?wss, mo_active_workspace_idx := a'\<rparr>"
        "cleaned r k ?wss ?a front a'" by blast
      show "\<exists>front a'. m' = m\<lparr>mo_workspaces := front @ drop (Suc k) ?wss, mo_active_workspace_idx := a'\<rparr> \<and>
          cleaned r (Suc k) ?wss ?a front a'"
        by (intro exI [of _ "front @ [?wss ! k]"] exI [of _ a'] conjI cleaned_keep [OF f(2) step.prems True])
          (simp add: f(1) d)
    qed (use step.prems in simp)
    ultimately show ?thesis by simp
  next
    case False
    define m1 where "m1 = m\<lparr>mo_workspaces := take k ?wss @ drop (Suc k) ?wss,
      mo_active_workspace_idx := (if k < ?a then ?a - 1 else ?a)\<rparr>"
    have "clean_up_loop (rev [r..<Suc k]) m = clean_up_loop (rev [r..<k]) m1"
      using False step.prems unfolding upt by (simp add: vec_simps remove_workspace_at_def m1_def)
    moreover have "returns (clean_up_loop (rev [r..<k]) m1) (\<lambda>m'. \<exists>front a'.
        m' = m\<lparr>mo_workspaces := front @ drop (Suc k) ?wss, mo_active_workspace_idx := a'\<rparr> \<and>
        cleaned r (Suc k) ?wss ?a front a')"
    proof (rule returns_mono [OF step.IH])
      fix m' assume "\<exists>front a'. m' = m1\<lparr>mo_workspaces := front @ drop k (mo_workspaces m1), mo_active_workspace_idx := a'\<rparr> \<and>
          cleaned r k (mo_workspaces m1) (mo_active_workspace_idx m1) front a'"
      then obtain front a' where f: "m' = m1\<lparr>mo_workspaces := front @ drop k (mo_workspaces m1), mo_active_workspace_idx := a'\<rparr>"
        "cleaned r k (mo_workspaces m1) (mo_active_workspace_idx m1) front a'" by blast
      show "\<exists>front a'. m' = m\<lparr>mo_workspaces := front @ drop (Suc k) ?wss, mo_active_workspace_idx := a'\<rparr> \<and>
          cleaned r (Suc k) ?wss ?a front a'"
        by (intro exI [of _ front] exI [of _ a'] conjI cleaned_remove [OF _ step.prems])
          (use f False step.prems in \<open>auto simp: m1_def\<close>)
    qed (use step.prems in \<open>simp add: m1_def\<close>)
    ultimately show ?thesis by simp
  qed
qed

text \<open>
  What cleaning up does to a monitor: it only drops unused workspaces, and the active workspace stays
  active; only when all of the workspaces are unused can it be another unused one.
\<close>

definition cleaned_up :: "'w monitor \<Rightarrow> 'w monitor \<Rightarrow> bool" where
  "cleaned_up m m' \<longleftrightarrow>
     (\<exists>wss a. m' = m\<lparr>mo_workspaces := wss, mo_active_workspace_idx := a\<rparr> \<and> subseq wss (mo_workspaces m) \<and>
       filter used wss = filter used (mo_workspaces m) \<and>
       (wss ! a = mo_workspaces m ! mo_active_workspace_idx m \<or> filter used (mo_workspaces m) = []))"

lemma subseq_props:
  assumes "subseq xs ys"
  shows "set xs \<subseteq> set ys" "distinct (map f ys) \<Longrightarrow> distinct (map f xs)"
proof -
  obtain N where xs: "xs = nths ys N" using assms by (auto simp: subseq_conv_nths)
  show "set xs \<subseteq> set ys" unfolding xs by (rule set_nths_subset)
  show "distinct (map f ys) \<Longrightarrow> distinct (map f xs)" unfolding xs nths_map [symmetric] by (rule distinct_nthsI)
qed

lemma cleaned_up_workspaces_inv:
  assumes "workspaces_inv parent m" "cleaned_up m m'"
  shows "workspaces_inv parent m'" "mo_windows m' = mo_windows m"
proof -
  obtain wss a where m': "m' = m\<lparr>mo_workspaces := wss, mo_active_workspace_idx := a\<rparr>" "subseq wss (mo_workspaces m)"
    "filter used wss = filter used (mo_workspaces m)"
    using assms(2) unfolding cleaned_up_def by blast
  show "mo_windows m' = mo_windows m"
    using m'(1,3) wss_windows_used [of wss] wss_windows_used [of "mo_workspaces m"] by simp
  with assms(1) m' subseq_props [OF m'(2)] show "workspaces_inv parent m'"
    by (auto simp: workspaces_inv_def list_all_iff)
qed

lemma clean_up_workspaces_ok:
  assumes inv: "untidy_inv parent m" and switch: "mo_workspace_switch m = None"
  shows "returns (clean_up_workspaces m) (\<lambda>m'. monitor_inv parent m' \<and> cleaned_up m m')"
proof -
  define wss a r l where "wss = mo_workspaces m" and "a = mo_active_workspace_idx m"
    and "r = (if above_first m then 1 else 0 :: nat)" and "l = length wss - 1"
  have base: "wss \<noteq> []" "\<not> used (last wss)" "above_first m \<Longrightarrow> \<not> used (hd wss)" "a < length wss"
    using inv by (auto simp: untidy_inv_def edges_ok_def wss_def a_def)
  have same: "cleaned_up m m" unfolding cleaned_up_def by (intro exI [of _ wss] exI [of _ a]) (simp add: wss_def a_def)
  show ?thesis
  proof (cases "r \<le> l")
    case False
    then have above: "above_first m" by (simp add: r_def split: if_splits)
    have "\<not> 1 \<le> length wss - 1" using False above by (simp add: r_def l_def)
    with base(1) have "length wss = 1" by (simp only: length_greater_0_conv [symmetric])
    with above inv switch same show ?thesis
      by (auto simp: clean_up_workspaces_def monitor_inv_def tidy_def wss_def)
  next
    case True
    have l: "l < length wss" "drop l wss = [last wss]" "take l wss @ [last wss] = wss"
      using base(1) by (cases wss rule: rev_cases; simp add: l_def)+
    obtain front a' where loop: "clean_up_loop (rev [r..<l]) m =
        Inr (m\<lparr>mo_workspaces := front @ [last wss], mo_active_workspace_idx := a'\<rparr>)" and c: "cleaned r l wss a front a'"
      using clean_up_loop_ok [OF True, of m] l by (auto simp: returns_def wss_def a_def)
    define m1 where "m1 = m\<lparr>mo_workspaces := front @ [last wss], mo_active_workspace_idx := a'\<rparr>"
    have active: "a' < length (front @ [last wss])" "(front @ [last wss]) ! a' = wss ! a"
    proof -
      have "a' < length (front @ [last wss]) \<and> (front @ [last wss]) ! a' = wss ! a"
      proof (cases "a < l")
        case False
        then have "a = l" "wss ! l = last wss" using base(1,4) by (simp_all add: l_def last_conv_nth)
        with c show ?thesis by (simp add: cleaned_def)
      qed (use c in \<open>simp add: cleaned_def nth_append\<close>)
      then show "a' < length (front @ [last wss])" "(front @ [last wss]) ! a' = wss ! a" by simp_all
    qed
    have keep: "cleaned_up m m1"
    proof -
      have "subseq (front @ [last wss]) (take l wss @ [last wss])" using c by (simp add: cleaned_def)
      moreover have "filter used (front @ [last wss]) = filter used (take l wss @ [last wss])" using c by (simp add: cleaned_def)
      ultimately have "subseq (front @ [last wss]) wss" "filter used (front @ [last wss]) = filter used wss"
        by (simp_all only: l(3))
      then show ?thesis using active(2) unfolding cleaned_up_def m1_def wss_def a_def by blast
    qed
    have hd: "front \<noteq> [] \<and> hd front = hd wss" if "above_first m"
      using c that base(1) by (cases front; cases wss) (auto simp: cleaned_def r_def)
    have untidy: "untidy_inv parent m1"
      using inv switch cleaned_up_workspaces_inv(1) [OF _ keep] base active(1) hd
      by (auto simp: untidy_inv_def edges_ok_def switch_inv_def options_ok_def m1_def)
    have tidy: "tidy (above_first m) a' (front @ [last wss])"
      using c by (auto simp: tidy_def cleaned_def r_def nth_append)
    show ?thesis
    proof (cases "above_first m \<and> length (front @ [last wss]) = 2")
      case False
      then have "clean_up_workspaces m = Inr m1"
        using loop switch base(1) True by (auto simp: clean_up_workspaces_def wss_def l_def r_def m1_def Let_def)
      moreover have "monitor_inv parent m1" using untidy tidy False by (simp add: monitor_inv_def m1_def)
      ultimately show ?thesis using keep by simp
    next
      case two: True
      then have front: "front = [hd wss]" using hd by (cases front) auto
      define m2 where "m2 = m\<lparr>mo_workspaces := [hd wss], mo_active_workspace_idx := 0\<rparr>"
      have unused: "\<not> used (hd wss)" "\<not> used (last wss)" using two base by simp_all
      then have none: "filter used wss = []" using c l(3) front
        by (metis append_Nil2 cleaned_def filter.simps(1) filter.simps(2) filter_append)
      have "clean_up_workspaces m = Inr m2"
        using loop switch base(1) two unused
        by (auto simp: clean_up_workspaces_def wss_def l_def r_def m2_def front Let_def remove_workspace_at_def vec_simps)
      moreover have "cleaned_up m m2"
        unfolding cleaned_up_def m2_def using base(1) none unused
        by (intro exI [of _ "[hd wss]"] exI [of _ 0]) (auto simp: subseq_singleton_left wss_def)
      moreover have "untidy_inv parent m2"
        using inv switch cleaned_up_workspaces_inv(1) [OF _ calculation(2)] unused
        by (auto simp: untidy_inv_def edges_ok_def switch_inv_def options_ok_def m2_def)
      then have "monitor_inv parent m2" by (simp add: monitor_inv_def m2_def tidy_def)
      ultimately show ?thesis by simp
    qed
  qed
qed

end
