(* ===== verification/Monitor_Ops.thy ===== *)
theory Monitor_Ops
  imports Monitor_Inv
begin

text \<open>
  Every operation of a monitor returns, keeps its invariant, and neither loses nor duplicates windows.
\<close>

definition semi_inv :: "'w parent_of \<Rightarrow> 'w monitor \<Rightarrow> bool" where
  "semi_inv parent m \<longleftrightarrow> untidy_inv parent m \<and> (above_first m \<longrightarrow> length (mo_workspaces m) \<noteq> 2)"

definition tidy_inv :: "'w monitor \<Rightarrow> bool" where
  "tidy_inv m \<longleftrightarrow>
     (mo_workspace_switch m = None \<longrightarrow> tidy (above_first m) (mo_active_workspace_idx m) (mo_workspaces m))"

lemma monitor_inv_iff: "monitor_inv parent m \<longleftrightarrow> semi_inv parent m \<and> tidy_inv m"
  by (auto simp: monitor_inv_def semi_inv_def tidy_inv_def)

definition mo_keeps :: "'w parent_of \<Rightarrow> 'w monitor \<Rightarrow> 'w monitor \<Rightarrow> bool" where
  "mo_keeps parent m m' \<longleftrightarrow> monitor_inv parent m' \<and> mo_windows m' = mo_windows m"

lemma monitor_invD:
  assumes "monitor_inv parent m"
  shows "untidy_inv parent m" "semi_inv parent m" "tidy_inv m" "workspaces_inv parent m"
    "mo_active_workspace_idx m < length (mo_workspaces m)" "mo_workspaces m \<noteq> []" "switch_inv m"
    "parents_acyclic parent" "edges_ok (above_first m) (mo_workspaces m)"
  using assms by (auto simp: monitor_inv_def semi_inv_def tidy_inv_def untidy_inv_def workspaces_inv_def)

lemma workspaces_invD:
  assumes "workspaces_inv parent m" "i < length (mo_workspaces m)"
  shows "workspace_inv parent (mo_workspaces m ! i)"
  using assms by (auto simp: workspaces_inv_def list_all_length)

text \<open>The order of the workspaces does not matter to each of them.\<close>

lemma workspaces_inv_perm:
  assumes "workspaces_inv parent m" "mset (mo_workspaces m') = mset (mo_workspaces m)" "mo_next_id m \<le> mo_next_id m'"
  shows "workspaces_inv parent m'" "mo_windows m' = mo_windows m"
proof -
  have set: "set (mo_workspaces m') = set (mo_workspaces m)" using mset_eq_setD [OF assms(2)] .
  have "sum_mset (image_mset ws_windows (mset (mo_workspaces m'))) = sum_mset (image_mset ws_windows (mset (mo_workspaces m)))"
    by (simp only: assms(2))
  then show win: "mo_windows m' = mo_windows m" by (simp add: wss_windows_def sum_mset_sum_list [symmetric])
  have "distinct (map ws_id (mo_workspaces m')) = distinct (map ws_id (mo_workspaces m))"
    by (rule mset_eq_imp_distinct_iff) (simp add: assms(2))
  with assms(1,3) set win show "workspaces_inv parent m'"
    by (auto simp: workspaces_inv_def list_all_iff)
qed

subsection \<open>A new workspace\<close>

lemma ws_new_unused:
  "\<not> used (ws_new out d i)" "ws_windows (ws_new out d i) = {#}" "ws_id (ws_new out d i) = i"
  "parents_acyclic parent \<Longrightarrow> workspace_inv parent (ws_new out d i)"
proof -
  have acyc: "parents_acyclic (\<lambda>_ :: 'a. None)" by simp
  show "ws_windows (ws_new out d i) = {#}" unfolding ws_new_def by (rule ws_new_inv(3) [OF acyc])
  then show "\<not> used (ws_new out d i)" by (simp add: used_iff ws_new_def ws_new_with_config_def Let_def)
  show "ws_id (ws_new out d i) = i" by (simp add: ws_new_def ws_new_with_config_def Let_def)
  show "parents_acyclic parent \<Longrightarrow> workspace_inv parent (ws_new out d i)" unfolding ws_new_def by (rule ws_new_inv(1))
qed

text \<open>Inserting a fresh workspace anywhere.\<close>

definition inserted :: "nat \<Rightarrow> 'w lworkspace \<Rightarrow> 'w monitor \<Rightarrow> 'w monitor \<Rightarrow> bool" where
  "inserted idx ws m m' \<longleftrightarrow>
     mo_workspaces m' = take idx (mo_workspaces m) @ ws # drop idx (mo_workspaces m) \<and>
     mo_active_workspace_idx m' = (if idx \<le> mo_active_workspace_idx m then mo_active_workspace_idx m + 1 else mo_active_workspace_idx m) \<and>
     same_conf m m' \<and> mo_previous_workspace_id m' = mo_previous_workspace_id m \<and>
     (mo_workspace_switch m' = None \<longleftrightarrow> mo_workspace_switch m = None) \<and> \<not> used ws \<and> ws_windows ws = {#} \<and>
     ws_id ws = mo_next_id m \<and> mo_next_id m \<le> mo_next_id m'"

lemma insert_mset: "idx \<le> length xs \<Longrightarrow> mset (take idx xs @ x # drop idx xs) = add_mset x (mset xs)"
  by (metis append_take_drop_id mset.simps(2) mset_append union_mset_add_mset_right)

lemma add_workspace_at_ok:
  assumes inv: "workspaces_inv parent m" "switch_inv m" and idx: "idx \<le> length (mo_workspaces m)"
  shows "returns (add_workspace_at idx m) (\<lambda>m'. workspaces_inv parent m' \<and> switch_inv m' \<and> mo_windows m' = mo_windows m \<and>
    (\<exists>ws. inserted idx ws m m'))"
proof -
  define ws where "ws = (ws_new (mo_output m) (lo_default_column_display (mo_options m)) (mo_next_id m) :: 'a lworkspace)"
  define m' where "m' = m\<lparr>mo_workspaces := take idx (mo_workspaces m) @ ws # drop idx (mo_workspaces m), mo_next_id := mo_next_id m + 1,
    mo_active_workspace_idx := (if idx \<le> mo_active_workspace_idx m then mo_active_workspace_idx m + 1 else mo_active_workspace_idx m),
    mo_workspace_switch := map_option (\<lambda>switch. if real idx \<le> target_idx switch then switch_offset_one switch else switch)
      (mo_workspace_switch m)\<rparr>"
  have ins: "inserted idx ws m m'" by (simp add: inserted_def same_conf_def m'_def ws_def ws_new_unused)
  have acyc: "parents_acyclic parent" using inv(1) by (simp add: workspaces_inv_def)
  have mset: "mset (mo_workspaces m') = add_mset ws (mset (mo_workspaces m))" 
    unfolding m'_def using insert_mset [OF idx, of ws] by simp
  have ids: "ws_id ws = mo_next_id m" by (simp add: ws_def ws_new_unused)
  define m0 where "m0 = m\<lparr>mo_workspaces := ws # mo_workspaces m, mo_next_id := mo_next_id m + 1\<rparr>"
  have m0: "workspaces_inv parent m0" "mo_windows m0 = mo_windows m"
    using inv(1) acyc by (auto simp: workspaces_inv_def m0_def ids ws_def ws_new_unused list_all_iff)
  have "workspaces_inv parent m'" "mo_windows m' = mo_windows m"
    using workspaces_inv_perm [OF m0(1), of m'] mset m0(2) by (simp_all add: m0_def m'_def)
  moreover have "switch_inv m'"
    using inv(2) idx by (auto simp: switch_inv_def m'_def switch_offset_one_def target_idx_def split: option.splits workspace_switch.splits)
  moreover have "add_workspace_at idx m = Inr m'" using idx by (simp add: add_workspace_at_def Let_def m'_def ws_def vec_simps)
  ultimately show ?thesis using ins by auto
qed

subsection \<open>Activating a workspace\<close>

text \<open>What switching to another workspace changes.\<close>

definition activated :: "nat \<Rightarrow> 'w monitor \<Rightarrow> 'w monitor \<Rightarrow> bool" where
  "activated idx m m' \<longleftrightarrow>
     m' = m\<lparr>mo_previous_workspace_id := mo_previous_workspace_id m', mo_active_workspace_idx := idx,
            mo_workspace_switch := mo_workspace_switch m'\<rparr> \<and>
     mo_previous_workspace_id m' = (if idx \<noteq> mo_active_workspace_idx m
       then Some (ws_id (mo_workspaces m ! mo_active_workspace_idx m)) else mo_previous_workspace_id m) \<and>
     (mo_workspace_switch m' = None \<longrightarrow> mo_workspace_switch m = None \<and> idx = mo_active_workspace_idx m)"

lemma activate_workspace_ok:
  assumes "mo_active_workspace_idx m < length (mo_workspaces m)" "idx < length (mo_workspaces m)" "switch_inv m"
  shows "returns (activate_workspace env idx m) (\<lambda>m'. activated idx m m' \<and> switch_inv m')"
proof -
  let ?previous = "if mo_active_workspace_idx m \<noteq> idx then Some (ws_id (mo_workspaces m ! mo_active_workspace_idx m))
    else mo_previous_workspace_id m"
  have "(if mo_active_workspace_idx m \<noteq> idx then bind_res (mo_active_workspace m) (\<lambda>ws. Inr (Some (ws_id ws)))
      else Inr (mo_previous_workspace_id m)) = (Inr ?previous :: nat option res)"
    using assms(1) by (simp add: mo_active_workspace_def vec_simps)
  then show ?thesis using assms
    unfolding activate_workspace_def Let_def activated_def
    by (auto simp: switch_inv_def split: option.splits workspace_switch.splits)
qed

lemma activatedD:
  assumes "activated idx m m'"
  shows "mo_workspaces m' = mo_workspaces m" "mo_active_workspace_idx m' = idx" "same_conf m m'" "mo_next_id m' = mo_next_id m"
proof -
  have m': "m' = m\<lparr>mo_previous_workspace_id := mo_previous_workspace_id m', mo_active_workspace_idx := idx,
      mo_workspace_switch := mo_workspace_switch m'\<rparr>" using assms unfolding activated_def by blast
  show "mo_workspaces m' = mo_workspaces m" "mo_active_workspace_idx m' = idx" "same_conf m m'" "mo_next_id m' = mo_next_id m"
    by (subst m', simp add: same_conf_def)+
qed

lemma activated_semi_inv:
  assumes "semi_inv parent m" "activated idx m m'" "switch_inv m'" "idx < length (mo_workspaces m)"
  shows "semi_inv parent m'" "tidy_inv m \<Longrightarrow> tidy_inv m'" "idx \<noteq> mo_active_workspace_idx m \<Longrightarrow> tidy_inv m'"
proof -
  note f = activatedD [OF assms(2)]
  show "semi_inv parent m'" using assms(1,3,4)
    by (simp add: semi_inv_def untidy_inv_def workspaces_inv_def f same_conf_options [OF f(3)])
  show "tidy_inv m \<Longrightarrow> tidy_inv m'" "idx \<noteq> mo_active_workspace_idx m \<Longrightarrow> tidy_inv m'"
    using assms(2) f same_conf_options(2) [OF f(3)] by (auto simp: tidy_inv_def activated_def)
qed

lemma activate_workspace_keeps:
  assumes inv: "monitor_inv parent m" and idx: "idx < length (mo_workspaces m)"
  shows "returns (activate_workspace env idx m) (\<lambda>m'. mo_keeps parent m m' \<and> activated idx m m')"
proof (rule returns_mono [OF activate_workspace_ok [OF monitor_invD(5) [OF inv] idx monitor_invD(7) [OF inv]]])
  fix m' assume m': "activated idx m m' \<and> switch_inv m'"
  then show "mo_keeps parent m m' \<and> activated idx m m'"
    using activated_semi_inv [OF monitor_invD(2) [OF inv], of idx m'] idx monitor_invD(3) [OF inv] activatedD(1) [of idx m m']
    by (simp add: mo_keeps_def monitor_inv_iff)
qed

subsection \<open>Workspaces at the edges\<close>

text \<open>
  \<open>add_edges\<close> makes room around a workspace that is about to be, or already is, used.
\<close>

definition extended ::
  "'w parent_of \<Rightarrow> 'w lworkspace list \<Rightarrow> 'w lworkspace list \<Rightarrow> 'w monitor \<Rightarrow> 'w monitor \<Rightarrow> bool" where
  "extended parent tops bots m m' \<longleftrightarrow>
     mo_workspaces m' = tops @ mo_workspaces m @ bots \<and> (\<forall>ws \<in> set tops \<union> set bots. \<not> used ws) \<and>
     mo_active_workspace_idx m' = length tops + mo_active_workspace_idx m \<and> same_conf m m' \<and>
     (mo_workspace_switch m' = None \<longleftrightarrow> mo_workspace_switch m = None) \<and>
     mo_previous_workspace_id m' = mo_previous_workspace_id m \<and>
     workspaces_inv parent m' \<and> switch_inv m' \<and> mo_windows m' = mo_windows m \<and>
     mo_next_id m \<le> mo_next_id m' \<and> (\<forall>ws \<in> set tops \<union> set bots. mo_next_id m \<le> ws_id ws)"

lemma extended_refl: "workspaces_inv parent m \<Longrightarrow> switch_inv m \<Longrightarrow> extended parent [] [] m m"
  by (simp add: extended_def same_conf_def)

lemma extended_trans:
  "extended parent a b m m1 \<Longrightarrow> extended parent c d m1 m2 \<Longrightarrow> extended parent (c @ a) (b @ d) m m2"
  by (auto simp: extended_def same_conf_def intro: order_trans)

lemma add_workspace_bottom_ok:
  assumes "workspaces_inv parent m" "switch_inv m" "mo_active_workspace_idx m < length (mo_workspaces m)"
  shows "returns (add_workspace_bottom m) (\<lambda>m'. \<exists>ws. extended parent [] [ws] m m')"
  unfolding add_workspace_bottom_def
  by (rule returns_mono [OF add_workspace_at_ok [OF assms(1,2)]])
    (use assms(3) in \<open>auto simp: inserted_def extended_def\<close>)

lemma add_workspace_top_ok:
  assumes "workspaces_inv parent m" "switch_inv m"
  shows "returns (add_workspace_top m) (\<lambda>m'. \<exists>ws. extended parent [ws] [] m m')"
  unfolding add_workspace_top_def
  by (rule returns_mono [OF add_workspace_at_ok [OF assms(1,2)]]) (auto simp: inserted_def extended_def)

text \<open>Adding a workspace at the bottom and then one at the top, each under a condition.\<close>

lemma add_both_ok:
  assumes "workspaces_inv parent m" "switch_inv m" "mo_active_workspace_idx m < length (mo_workspaces m)"
    and t: "\<And>m1 bots. extended parent [] bots m m1 \<Longrightarrow> t m1 = t m"
  shows "returns (bind_res (if b then add_workspace_bottom m else Inr m) (\<lambda>m.
      if above_first m \<and> t m then bind_res (add_workspace_top m) (\<lambda>m. Inr (i + 1, m)) else Inr (i, m)))
    (\<lambda>(i', m'). \<exists>tops bots. extended parent tops bots m m' \<and> i' = length tops + i \<and>
      length tops = (if above_first m \<and> t m then 1 else 0) \<and> length bots = (if b then 1 else 0))"
proof -
  let ?Q = "\<lambda>(i', m'). \<exists>tops bots. extended parent tops bots m m' \<and> i' = length tops + i \<and>
      length tops = (if above_first m \<and> t m then 1 else 0) \<and> length bots = (if b then 1 else 0)"
  have one: "returns (if b then add_workspace_bottom m else Inr m)
      (\<lambda>m1. \<exists>bots. extended parent [] bots m m1 \<and> length bots = (if b then 1 else 0))"
    using add_workspace_bottom_ok [OF assms(1-3)] extended_refl [OF assms(1,2)] by (auto elim!: returns_mono)
  have "returns (if above_first m1 \<and> t m1 then bind_res (add_workspace_top m1) (\<lambda>m. Inr (i + 1, m)) else Inr (i, m1)) ?Q"
    if ext: "extended parent [] bots m m1" and len: "length bots = (if b then 1 else 0)" for m1 bots
  proof (cases "above_first m1 \<and> t m1")
    case True
    have ab: "above_first m1 = above_first m" using ext same_conf_options(2) by (auto simp: extended_def)
    have "returns (add_workspace_top m1) (\<lambda>m'. ?Q (i + 1, m'))"
    proof (rule returns_mono [OF add_workspace_top_ok])
      fix m' assume "\<exists>ws. extended parent [ws] [] m1 m'"
      then obtain ws where "extended parent [ws] [] m1 m'" ..
      from extended_trans [OF ext this] True len ab t [OF ext] show "?Q (i + 1, m')" unfolding prod.case
        by (intro exI [of _ "[ws]"] exI [of _ bots]) simp
    qed (use ext in \<open>simp_all add: extended_def\<close>)
    with True show ?thesis by simp
  next
    case False
    have ab: "above_first m1 = above_first m" using ext same_conf_options(2) by (auto simp: extended_def)
    have "?Q (i, m1)" unfolding prod.case by (intro exI [of _ "[]"] exI [of _ bots]) (use False ext len ab t [OF ext] in auto)
    with False show ?thesis by auto
  qed
  then have "returns (if above_first m1 \<and> t m1 then bind_res (add_workspace_top m1) (\<lambda>m. Inr (i + 1, m)) else Inr (i, m1)) ?Q"
    if "\<exists>bots. extended parent [] bots m m1 \<and> length bots = (if b then 1 else 0)" for m1
    using that by blast
  then show ?thesis unfolding returns_bind by (rule returns_mono [OF one])
qed

lemma add_edges_ok:
  assumes "workspaces_inv parent m" "switch_inv m" "mo_active_workspace_idx m < length (mo_workspaces m)"
  shows "returns (add_edges idx m) (\<lambda>(i', m'). \<exists>tops bots. extended parent tops bots m m' \<and> i' = length tops + idx \<and>
      length tops = (if above_first m \<and> idx = 0 then 1 else 0) \<and>
      length bots = (if idx = length (mo_workspaces m) - 1 then 1 else 0))"
proof -
  have "mo_workspaces m \<noteq> []" using assms(3) by auto
  then have "add_edges idx m = bind_res (if idx = length (mo_workspaces m) - 1 then add_workspace_bottom m else Inr m) (\<lambda>m.
      if above_first m \<and> idx = 0 then bind_res (add_workspace_top m) (\<lambda>m. Inr (idx + 1, m)) else Inr (idx, m))"
    by (simp only: add_edges_def last_idx_def if_False bind_res.simps)
  then show ?thesis by (simp only: add_both_ok [where t = "\<lambda>_. idx = 0", OF assms refl])
qed

subsection \<open>Changing one workspace\<close>

text \<open>Replacing a workspace by one with the same identity.\<close>

lemma wss_windows_update:
  assumes "i < length wss"
  shows "wss_windows (wss[i := ws]) + ws_windows (wss ! i) = wss_windows wss + ws_windows ws"
  using assms
proof (induction wss arbitrary: i)
  case (Cons x wss)
  then show ?case by (cases i) (auto simp: ac_simps)
qed simp

lemma replace_workspaces_inv:
  assumes inv: "workspaces_inv parent m" and i: "i < length (mo_workspaces m)"
    and ws: "workspace_inv parent ws" "ws_id ws = ws_id (mo_workspaces m ! i)"
    and dist: "mset_distinct (wss_windows ((mo_workspaces m)[i := ws]))"
  shows "workspaces_inv parent (store_workspace i ws m)"
proof -
  have "map ws_id ((mo_workspaces m)[i := ws]) = map ws_id (mo_workspaces m)"
    using i ws(2) by (simp add: map_update list_update_same_conv)
  moreover have "list_all P ((mo_workspaces m)[i := ws])" if "list_all P (mo_workspaces m)" "P ws" for P
    using that by (auto simp: list_all_iff dest!: set_update_subset_insert [THEN subsetD])
  moreover have "ws_id ws < mo_next_id m" using inv i ws(2) by (simp add: workspaces_inv_def list_all_length)
  ultimately show ?thesis using inv ws(1) dist by (simp add: workspaces_inv_def store_workspace_def)
qed

lemma store_workspace_fields [simp]:
  "mo_workspaces (store_workspace i ws m) = (mo_workspaces m)[i := ws]"
  "mo_active_workspace_idx (store_workspace i ws m) = mo_active_workspace_idx m"
  "mo_workspace_switch (store_workspace i ws m) = mo_workspace_switch m"
  "mo_options (store_workspace i ws m) = mo_options m" "mo_next_id (store_workspace i ws m) = mo_next_id m"
  "mo_output (store_workspace i ws m) = mo_output m"
  "options_ok (store_workspace i ws m) = options_ok m" "switch_inv (store_workspace i ws m) = switch_inv m"
  "same_conf m (store_workspace i ws m)"
  by (simp_all add: store_workspace_def options_ok_def switch_inv_def same_conf_def split: option.split workspace_switch.split)

lemma last_update: "i < length xs \<Longrightarrow> last (xs[i := x]) = (if i = length xs - 1 then x else last xs)"
  by (cases "xs = []") (auto simp: last_conv_nth nth_list_update)

lemma hd_update: "xs \<noteq> [] \<Longrightarrow> hd (xs[i := x]) = (if i = 0 then x else hd xs)"
  by (cases xs; cases i) auto

lemma edges_ok_nth:
  "edges_ok b wss \<longleftrightarrow> wss \<noteq> [] \<and> \<not> used (wss ! (length wss - 1)) \<and> (b \<longrightarrow> \<not> used (wss ! 0))"
  by (auto simp: edges_ok_def last_conv_nth hd_conv_nth)

lemma edges_ok_update:
  assumes "edges_ok b wss" "i < length wss" "used ws \<longrightarrow> used (wss ! i)"
  shows "edges_ok b (wss[i := ws])"
proof -
  have "used (wss[i := ws] ! j) \<longrightarrow> used (wss ! j)" if "j < length wss" for j
    using assms(2,3) that by (auto simp: nth_list_update)
  moreover have "length wss - 1 < length wss" "0 < length wss" using assms(2) by auto
  ultimately have "used (wss[i := ws] ! (length wss - 1)) \<longrightarrow> used (wss ! (length wss - 1))"
    "used (wss[i := ws] ! 0) \<longrightarrow> used (wss ! 0)" by blast+
  then show ?thesis using assms(1) unfolding edges_ok_nth by auto
qed

text \<open>A workspace that is no more used than before.\<close>

lemma store_unused:
  assumes inv: "semi_inv parent m" and i: "i < length (mo_workspaces m)"
    and ws: "workspace_inv parent ws" "ws_id ws = ws_id (mo_workspaces m ! i)" "used ws \<longrightarrow> used (mo_workspaces m ! i)"
    and win: "ws_windows (mo_workspaces m ! i) = ws_windows ws + W"
  shows "semi_inv parent (store_workspace i ws m)" "mo_windows m = mo_windows (store_workspace i ws m) + W"
    "tidy_inv m \<Longrightarrow> (used (mo_workspaces m ! i) \<longrightarrow> used ws) \<or> i = mo_active_workspace_idx m \<Longrightarrow> tidy_inv (store_workspace i ws m)"
proof -
  have "wss_windows ((mo_workspaces m)[i := ws]) + (ws_windows ws + W) = mo_windows m + ws_windows ws"
    using wss_windows_update [OF i, of ws] by (simp only: win)
  then show total: "mo_windows m = mo_windows (store_workspace i ws m) + W" by (simp add: ac_simps)
  then have "mset_distinct (wss_windows ((mo_workspaces m)[i := ws]))"
    using inv by (auto simp: semi_inv_def untidy_inv_def workspaces_inv_def dest: mset_distinct_sub)
  then have wss: "workspaces_inv parent (store_workspace i ws m)"
    using inv by (intro replace_workspaces_inv i ws) (auto simp: semi_inv_def untidy_inv_def)
  have "edges_ok (above_first m) ((mo_workspaces m)[i := ws])"
    using inv by (intro edges_ok_update i ws(3)) (simp add: semi_inv_def untidy_inv_def)
  with wss inv show "semi_inv parent (store_workspace i ws m)" by (simp add: semi_inv_def untidy_inv_def)
  show "tidy_inv m \<Longrightarrow> (used (mo_workspaces m ! i) \<longrightarrow> used ws) \<or> i = mo_active_workspace_idx m \<Longrightarrow> tidy_inv (store_workspace i ws m)"
    using i by (auto simp: tidy_inv_def tidy_def nth_list_update)
qed

lemma store_keeps:
  assumes inv: "monitor_inv parent m" and i: "i < length (mo_workspaces m)"
    and ws: "ws_keeps parent (mo_workspaces m ! i) ws"
  shows "mo_keeps parent m (store_workspace i ws m)"
proof -
  have "used ws = used (mo_workspaces m ! i)" using ws by (simp add: ws_keeps_def used_iff ws_same_id_def)
  with store_unused [OF monitor_invD(2) [OF inv] i, of ws "{#}"] monitor_invD(3) [OF inv] ws show ?thesis
    by (auto simp: mo_keeps_def monitor_inv_iff ws_keeps_def ws_same_id_def)
qed

text \<open>A workspace that gets windows, with the edges added around it.\<close>

lemma store_used:
  assumes inv: "semi_inv parent m" and i: "i < length (mo_workspaces m)"
    and ws: "ws_adds parent W (mo_workspaces m ! i) ws0" "ws_id ws = ws_id ws0" "ws_windows ws = ws_windows ws0"
      "workspace_inv parent ws" "W \<noteq> {#}"
    and dist: "mset_distinct (mo_windows m + W)"
  shows "workspaces_inv parent (store_workspace i ws m)" "mo_windows (store_workspace i ws m) = mo_windows m + W" "used ws"
proof -
  have "ws_windows ws = ws_windows (mo_workspaces m ! i) + W" using ws by (simp add: ws_adds_def)
  with wss_windows_update [OF i, of ws]
  have total: "wss_windows ((mo_workspaces m)[i := ws]) = mo_windows m + W" by (simp add: ac_simps)
  then show "mo_windows (store_workspace i ws m) = mo_windows m + W" by simp
  show "workspaces_inv parent (store_workspace i ws m)"
    by (rule replace_workspaces_inv) (use inv i ws dist total in \<open>auto simp: semi_inv_def untidy_inv_def ws_adds_def ws_same_id_def\<close>)
  show "used ws" using ws by (simp add: used_iff ws_adds_def)
qed

definition skip_first :: "bool \<Rightarrow> nat" where
  "skip_first b = (if b then 1 else 0)"

lemma tidy_skip: "tidy b a wss \<longleftrightarrow> (\<forall>i. skip_first b \<le> i \<longrightarrow> i < length wss - 1 \<longrightarrow> i \<noteq> a \<longrightarrow> used (wss ! i))"
  by (simp add: tidy_def skip_first_def)

lemma edged_shape:
  assumes i: "i < length wss" and t: "length tops = (if b \<and> i = 0 then 1 else 0)"
    and bt: "length bots = (if i = length wss - 1 then 1 else 0)" and unused: "\<forall>ws \<in> set tops \<union> set bots. \<not> used ws"
  shows "edges_ok b wss0 \<Longrightarrow> length wss0 = length wss \<Longrightarrow> (\<And>j. j < length wss \<Longrightarrow> j \<noteq> i \<Longrightarrow> used (wss ! j) \<longrightarrow> used (wss0 ! j)) \<Longrightarrow>
      edges_ok b (tops @ wss @ bots)"
    and "(b \<longrightarrow> length wss \<noteq> 2) \<Longrightarrow> (b \<longrightarrow> length (tops @ wss @ bots) \<noteq> 2)"
    and "tidy b a wss \<Longrightarrow> used (wss ! i) \<Longrightarrow> tidy b (length tops + a) (tops @ wss @ bots)"
proof -
  assume e: "edges_ok b wss0" "length wss0 = length wss" and u: "\<And>j. j < length wss \<Longrightarrow> j \<noteq> i \<Longrightarrow> used (wss ! j) \<longrightarrow> used (wss0 ! j)"
  have len: "0 < length wss" using i by linarith
  have "\<not> used (last (tops @ wss @ bots))"
  proof (cases "i = length wss - 1")
    case True
    with bt have "bots \<noteq> []" by auto
    with unused show ?thesis by simp
  next
    case False
    with bt have "bots = []" by simp
    moreover have "\<not> used (wss ! (length wss - 1))" using u [of "length wss - 1"] e False i by (auto simp: edges_ok_nth)
    ultimately show ?thesis using i by (cases wss) (auto simp: last_conv_nth)
  qed
  moreover have "\<not> used (hd (tops @ wss @ bots))" if b
  proof (cases "i = 0")
    case True
    with t that have "tops \<noteq> []" by auto
    with unused show ?thesis by simp
  next
    case False
    with t have "tops = []" by simp
    moreover have "\<not> used (wss ! 0)" using u [of 0] e False len that by (auto simp: edges_ok_nth)
    ultimately show ?thesis using i by (cases wss) (auto simp: hd_conv_nth)
  qed
  ultimately show "edges_ok b (tops @ wss @ bots)" using i by (auto simp: edges_ok_def)
next
  assume "b \<longrightarrow> length wss \<noteq> 2"
  then show "b \<longrightarrow> length (tops @ wss @ bots) \<noteq> 2" using i t bt by (cases "i = 0"; cases "i = length wss - 1"; auto)
next
  assume tidy: "tidy b a wss" and used: "used (wss ! i)"
  show "tidy b (length tops + a) (tops @ wss @ bots)" unfolding tidy_skip
  proof (intro allI impI)
    fix j assume j: "skip_first b \<le> j" "j < length (tops @ wss @ bots) - 1" "j \<noteq> length tops + a"
    define k where "k = j - length tops"
    have tops: "length tops \<le> j" using j(1) t by (auto simp: skip_first_def split: if_splits)
    have k: "k < length wss" "(tops @ wss @ bots) ! j = wss ! k"
      using tops j(2) i t bt by (auto simp: k_def nth_append split: if_splits)
    show "used ((tops @ wss @ bots) ! j)"
    proof (cases "k = i")
      case False
      then have "k < length wss - 1" using k(1) j(2) bt tops by (auto simp: k_def split: if_splits)
      moreover have "skip_first b \<le> k" using j(1) t False by (auto simp: k_def skip_first_def split: if_splits)
      moreover have "k \<noteq> a" using j(3) tops by (auto simp: k_def)
      ultimately show ?thesis using tidy k(2) by (simp add: tidy_skip)
    qed (use used k in simp)
  qed
qed

end
