(* ===== verification/Monitor_Add.thy ===== *)
theory Monitor_Add
  imports Monitor_Ops
begin

text \<open>
  Adding windows to a monitor and moving them between its workspaces.
\<close>

subsection \<open>A workspace that gets windows\<close>

lemma own_simps [simp]:
  "ws_id (own m ws) = ws_id ws" "ws_name (own m ws) = ws_name ws" "ws_windows (own m ws) = ws_windows ws"
  "workspace_inv parent (own m ws) = workspace_inv parent ws"
  by (simp_all add: own_def ws_windows_def workspace_inv_def floating_get_def)

text \<open>
  The windows \<open>W\<close> have been added to the workspace that was at index \<open>i\<close> and is now at \<open>j\<close>.
\<close>

text \<open>Tidy except for one workspace, which is about to get windows.\<close>

definition tidy_near :: "nat \<Rightarrow> 'w monitor \<Rightarrow> bool" where
  "tidy_near wid m \<longleftrightarrow> (mo_workspace_switch m = None \<longrightarrow>
     (\<forall>i. (if above_first m then 1 else 0) \<le> i \<longrightarrow> i < length (mo_workspaces m) - 1 \<longrightarrow> i \<noteq> mo_active_workspace_idx m \<longrightarrow>
        ws_id (mo_workspaces m ! i) \<noteq> wid \<longrightarrow> used (mo_workspaces m ! i)))"

lemma tidy_inv_near: "tidy_inv m \<Longrightarrow> tidy_near wid m"
  by (simp add: tidy_inv_def tidy_near_def tidy_def)

lemma tidy_near_store:
  assumes inv: "workspaces_inv parent m" and i: "i < length (mo_workspaces m)" and near: "tidy_near (ws_id (mo_workspaces m ! i)) m"
    and ws: "used ws" "mo_workspace_switch m = None"
  shows "tidy (above_first m) (mo_active_workspace_idx m) ((mo_workspaces m)[i := ws])"
proof -
  have ids: "ws_id (mo_workspaces m ! k) \<noteq> ws_id (mo_workspaces m ! i)" if "k < length (mo_workspaces m)" "k \<noteq> i" for k
    using inv that i nth_eq_iff_index_eq [of "map ws_id (mo_workspaces m)" k i] by (simp add: workspaces_inv_def)
  show ?thesis unfolding tidy_def
  proof (intro allI impI)
    fix k assume k: "(if above_first m then 1 else 0) \<le> k" "k < length ((mo_workspaces m)[i := ws]) - 1" "k \<noteq> mo_active_workspace_idx m"
    show "used ((mo_workspaces m)[i := ws] ! k)"
      using k ids [of k] near ws unfolding tidy_near_def by (cases "k = i") (use i in simp_all)
  qed
qed

definition grown :: "'w parent_of \<Rightarrow> 'w multiset \<Rightarrow> nat \<Rightarrow> 'w monitor \<Rightarrow> nat \<Rightarrow> 'w monitor \<Rightarrow> bool" where
  "grown parent W i m j m' \<longleftrightarrow>
     semi_inv parent m' \<and> (tidy_near (ws_id (mo_workspaces m ! i)) m \<longrightarrow> tidy_inv m') \<and> mo_windows m' = mo_windows m + W \<and>
     j < length (mo_workspaces m') \<and> W \<subseteq># ws_windows (mo_workspaces m' ! j) \<and>
     ws_id (mo_workspaces m' ! j) = ws_id (mo_workspaces m ! i) \<and> same_conf m m' \<and>
     ws_id (mo_workspaces m' ! mo_active_workspace_idx m') = ws_id (mo_workspaces m ! mo_active_workspace_idx m)"

lemma semi_invD:
  assumes "semi_inv parent m"
  shows "untidy_inv parent m" "workspaces_inv parent m" "mo_active_workspace_idx m < length (mo_workspaces m)"
    "mo_workspaces m \<noteq> []" "switch_inv m" "parents_acyclic parent" "edges_ok (above_first m) (mo_workspaces m)"
    "options_ok m" "above_first m \<Longrightarrow> length (mo_workspaces m) \<noteq> 2"
  using assms by (auto simp: semi_inv_def untidy_inv_def workspaces_inv_def)

lemma wss_windows_nth_sub: "i < length wss \<Longrightarrow> ws_windows (wss ! i) \<subseteq># wss_windows wss"
  by (induction wss arbitrary: i) (auto simp: nth_Cons split: nat.split intro: subset_mset.add_increasing)

lemma mset_distinct_mono: "mset_distinct M \<Longrightarrow> N \<subseteq># M \<Longrightarrow> mset_distinct N"
  unfolding mset_distinct_def by (meson le_trans mset_subset_eq_count)

lemma map_id_update: "i < length xs \<Longrightarrow> f x = f (xs ! i) \<Longrightarrow> j < length xs \<Longrightarrow> f (xs[i := x] ! j) = f (xs ! j)"
  by (cases "i = j") auto

lemma extended_nth:
  assumes "extended parent tops bots m m'" "i < length (mo_workspaces m)"
  shows "mo_workspaces m' ! (length tops + i) = mo_workspaces m ! i" "length tops + i < length (mo_workspaces m')"
  using assms by (simp_all add: extended_def nth_append)

lemma grow_ok:
  assumes inv: "semi_inv parent m" and i: "i < length (mo_workspaces m)" and W: "W \<noteq> {#}" "mset_distinct (mo_windows m + W)"
    and f: "returns (f (mo_workspaces m ! i)) (ws_adds parent W (mo_workspaces m ! i))"
  shows "returns (bind_res (on_workspace i (\<lambda>ws. bind_res (f ws) (\<lambda>ws. Inr (own m ws))) m) (add_edges i))
    (\<lambda>(j, m'). grown parent W i m j m')"
proof -
  obtain ws0 where ws0: "f (mo_workspaces m ! i) = Inr ws0" "ws_adds parent W (mo_workspaces m ! i) ws0"
    using f by (auto simp: returns_def)
  define ws m1 where "ws = own m ws0" and "m1 = store_workspace i ws m"
  note D = semi_invD [OF inv]
  have ws: "ws_id ws = ws_id (mo_workspaces m ! i)" "ws_windows ws = ws_windows (mo_workspaces m ! i) + W"
    using ws0(2) by (simp_all add: ws_def ws_adds_def ws_same_id_def)
  have st: "workspaces_inv parent m1" "mo_windows m1 = mo_windows m + W" "used ws"
    unfolding m1_def by (rule store_used [OF inv i ws0(2)]; use ws0(2) W in \<open>simp add: ws_def ws_adds_def\<close>)+
  have m1: "mo_workspaces m1 = (mo_workspaces m)[i := ws]" "mo_active_workspace_idx m1 = mo_active_workspace_idx m"
    "same_conf m m1" "mo_workspace_switch m1 = mo_workspace_switch m" "switch_inv m1"
    using D(5) by (simp_all add: m1_def)
  have run: "bind_res (on_workspace i (\<lambda>ws. bind_res (f ws) (\<lambda>ws. Inr (own m ws))) m) (add_edges i) = add_edges i m1"
    using i ws0(1) by (simp add: on_workspace_def vec_simps m1_def store_workspace_def ws_def)
  have "returns (add_edges i m1) (\<lambda>(j, m'). grown parent W i m j m')"
  proof (rule returns_mono [OF add_edges_ok [OF st(1) m1(5)]])
    fix r assume "case r of (j, m') \<Rightarrow> \<exists>tops bots. extended parent tops bots m1 m' \<and> j = length tops + i \<and>
      length tops = (if above_first m1 \<and> i = 0 then 1 else 0) \<and>
      length bots = (if i = length (mo_workspaces m1) - 1 then 1 else 0)"
    then obtain j m' tops bots where r: "r = (j, m')" and e: "extended parent tops bots m1 m'" and j: "j = length tops + i"
      and t: "length tops = (if above_first m \<and> i = 0 then 1 else 0)"
      and b: "length bots = (if i = length (mo_workspaces m1) - 1 then 1 else 0)"
      using same_conf_options(2) [OF m1(3)] by (auto split: prod.splits)
    have i1: "i < length (mo_workspaces m1)" using i m1(1) by simp
    have un: "\<forall>ws \<in> set tops \<union> set bots. \<not> used ws" using e by (simp add: extended_def)
    have conf: "same_conf m m'" "above_first m' = above_first m" "options_ok m' = options_ok m"
      using e m1(3) by (auto simp: extended_def same_conf_def options_ok_def)
    have wss: "mo_workspaces m' = tops @ mo_workspaces m1 @ bots"
      "mo_active_workspace_idx m' = length tops + mo_active_workspace_idx m"
      "mo_workspace_switch m' = None \<longleftrightarrow> mo_workspace_switch m = None"
      using e m1 by (simp_all add: extended_def)
    have "edges_ok (above_first m) (mo_workspaces m')" unfolding wss(1)
      by (rule edged_shape(1) [OF i1 t b un D(7)]) (auto simp: m1(1) nth_list_update)
    moreover have "above_first m \<longrightarrow> length (mo_workspaces m') \<noteq> 2" unfolding wss(1)
      by (rule edged_shape(2) [OF i1 t b un]) (use D(9) m1(1) in simp)
    ultimately have "semi_inv parent m'" using e D wss m1(1) conf
      by (simp add: semi_inv_def untidy_inv_def extended_def)
    moreover have "tidy_inv m'" if near: "tidy_near (ws_id (mo_workspaces m ! i)) m"
    proof -
      have "tidy (above_first m) (mo_active_workspace_idx m) (mo_workspaces m1)" if "mo_workspace_switch m = None"
        unfolding m1(1) by (rule tidy_near_store [OF D(2) i near st(3) that])
      then show ?thesis unfolding tidy_inv_def wss conf
        by (intro impI edged_shape(3) [OF i1 t b un]) (use st(3) i wss(3) m1(1) in auto)
    qed
    moreover have "mo_workspaces m' ! j = ws" "j < length (mo_workspaces m')"
      using extended_nth [OF e i1] i unfolding j by (simp_all add: m1(1))
    moreover have "ws_id (mo_workspaces m' ! mo_active_workspace_idx m') = ws_id (mo_workspaces m ! mo_active_workspace_idx m)"
      using extended_nth(1) [OF e, of "mo_active_workspace_idx m"] D(3)
        map_id_update [OF i ws(1) D(3)] by (simp add: m1(1) wss(2))
    moreover have "mo_windows m' = mo_windows m + W" using e unfolding extended_def st(2) [symmetric] by blast
    ultimately show "case r of (j, m') \<Rightarrow> grown parent W i m j m'"
      using ws conf(1) by (simp add: r grown_def)
  qed (use D(3) m1 in simp)
  then show ?thesis by (simp only: run)
qed

text \<open>The windows are added, and their workspace may be activated.\<close>

definition mo_adds :: "'w parent_of \<Rightarrow> 'w multiset \<Rightarrow> nat \<Rightarrow> bool \<Rightarrow> 'w monitor \<Rightarrow> 'w monitor \<Rightarrow> bool" where
  "mo_adds parent W wid act m m' \<longleftrightarrow>
     semi_inv parent m' \<and> (tidy_near wid m \<longrightarrow> tidy_inv m') \<and> mo_windows m' = mo_windows m + W \<and> same_conf m m' \<and>
     (\<exists>ws \<in> set (mo_workspaces m'). ws_id ws = wid \<and> W \<subseteq># ws_windows ws) \<and>
     ws_id (mo_workspaces m' ! mo_active_workspace_idx m') =
       (if act then wid else ws_id (mo_workspaces m ! mo_active_workspace_idx m))"

lemma grown_activate:
  assumes "grown parent W i m j m1"
  shows "returns (if act then activate_workspace env j m1 else Inr m1)
    (mo_adds parent W (ws_id (mo_workspaces m ! i)) act m)"
proof -
  have g: "semi_inv parent m1" "tidy_near (ws_id (mo_workspaces m ! i)) m \<Longrightarrow> tidy_inv m1" "mo_windows m1 = mo_windows m + W" "j < length (mo_workspaces m1)"
    "W \<subseteq># ws_windows (mo_workspaces m1 ! j)" "ws_id (mo_workspaces m1 ! j) = ws_id (mo_workspaces m ! i)" "same_conf m m1"
    "ws_id (mo_workspaces m1 ! mo_active_workspace_idx m1) = ws_id (mo_workspaces m ! mo_active_workspace_idx m)"
    using assms by (simp_all add: grown_def)
  have mem: "mo_workspaces m1 ! j \<in> set (mo_workspaces m1)" using g(4) by simp
  have "returns (activate_workspace env j m1) (mo_adds parent W (ws_id (mo_workspaces m ! i)) True m)"
  proof (rule returns_mono [OF activate_workspace_ok [OF semi_invD(3) [OF g(1)] g(4) semi_invD(5) [OF g(1)]]])
    fix m' assume m': "activated j m1 m' \<and> switch_inv m'"
    note f = activatedD [OF conjunct1 [OF m']]
    have "semi_inv parent m'" "tidy_near (ws_id (mo_workspaces m ! i)) m \<Longrightarrow> tidy_inv m'"
      using activated_semi_inv(1,2) [OF g(1) conjunct1 [OF m'] conjunct2 [OF m'] g(4)] g(2) by simp_all
    moreover have "same_conf m m'" using g(7) f(3) by (simp add: same_conf_def)
    ultimately show "mo_adds parent W (ws_id (mo_workspaces m ! i)) True m m'"
      using g mem by (auto simp: mo_adds_def f)
  qed
  moreover have "mo_adds parent W (ws_id (mo_workspaces m ! i)) False m m1"
    using g mem by (auto simp: mo_adds_def)
  ultimately show ?thesis by simp
qed

lemma grow_activate_ok:
  assumes "semi_inv parent m" "i < length (mo_workspaces m)" "W \<noteq> {#}" "mset_distinct (mo_windows m + W)"
    "returns (f (mo_workspaces m ! i)) (ws_adds parent W (mo_workspaces m ! i))"
  shows "returns (bind_res (on_workspace i (\<lambda>ws. bind_res (f ws) (\<lambda>ws. Inr (own m ws))) m) (\<lambda>m.
      bind_res (add_edges i m) (\<lambda>(j, m). if act then activate_workspace env j m else Inr m)))
    (mo_adds parent W (ws_id (mo_workspaces m ! i)) act m)"
proof -
  have "returns (bind_res (bind_res (on_workspace i (\<lambda>ws. bind_res (f ws) (\<lambda>ws. Inr (own m ws))) m) (add_edges i))
      (\<lambda>(j, m). if act then activate_workspace env j m else Inr m)) (mo_adds parent W (ws_id (mo_workspaces m ! i)) act m)"
    unfolding returns_bind [of "bind_res _ _"]
  proof (rule returns_mono [OF grow_ok [where f = f, OF assms]])
    fix r assume "case r of (j, m') \<Rightarrow> grown parent W i m j m'"
    then show "returns (case r of (j, m) \<Rightarrow> if act then activate_workspace env j m else Inr m)
        (mo_adds parent W (ws_id (mo_workspaces m ! i)) act m)"
      using grown_activate by (cases r) (simp only: prod.case)
  qed
  then show ?thesis by simp
qed

lemma mo_add_column_ok:
  assumes inv: "semi_inv parent m" and i: "i < length (mo_workspaces m)" and col: "column_inv column"
    and dist: "mset_distinct (mo_windows m + mset (col_windows column))"
  shows "returns (mo_add_column env i column activate m)
    (mo_adds parent (mset (col_windows column)) (ws_id (mo_workspaces m ! i)) activate m)"
proof -
  let ?W = "mset (col_windows column)"
  have W: "?W \<noteq> {#}" using col by (simp add: column_inv_def col_windows_def)
  have "ws_windows (mo_workspaces m ! i) \<subseteq># mo_windows m"
    by (rule wss_windows_nth_sub [OF i])
  then have "mset_distinct (ws_windows (mo_workspaces m ! i) + ?W)"
    using dist by (meson mset_distinct_mono mset_subset_eq_mono_add subset_mset.order_refl)
  with ws_add_column_ok [OF workspaces_invD [OF semi_invD(2) [OF inv] i] col]
  have "returns (ws_add_column column activate (mo_workspaces m ! i)) (ws_adds parent ?W (mo_workspaces m ! i))" by blast
  then show ?thesis unfolding mo_add_column_def by (rule grow_activate_ok [OF inv i W dist])
qed

subsection \<open>Adding a window\<close>

fun mon_target_ok :: "'w monitor_target \<Rightarrow> 'w monitor \<Rightarrow> bool" where
  "mon_target_ok MonTargetAuto m \<longleftrightarrow> True"
| "mon_target_ok (MonTargetWorkspace wid column) m \<longleftrightarrow>
     (\<exists>ws \<in> set (mo_workspaces m). ws_id ws = wid \<and>
       (\<forall>i. column = Some i \<longrightarrow> i \<le> length (sc_columns (ws_scrolling ws))))"
| "mon_target_ok (MonTargetNextTo w) m \<longleftrightarrow> w \<in># mo_windows m"

text \<open>The workspace a target stands for, by its identifier.\<close>

fun goes_to :: "'w monitor_target \<Rightarrow> 'w monitor \<Rightarrow> nat \<Rightarrow> bool" where
  "goes_to MonTargetAuto m wid \<longleftrightarrow> wid = ws_id (mo_workspaces m ! mo_active_workspace_idx m)"
| "goes_to (MonTargetWorkspace wid' column) m wid \<longleftrightarrow> wid = wid'"
| "goes_to (MonTargetNextTo w) m wid \<longleftrightarrow> (\<exists>ws \<in> set (mo_workspaces m). ws_id ws = wid \<and> w \<in># ws_windows ws)"

lemma position_ex: "(\<exists>x \<in> set xs. p x) \<Longrightarrow> \<exists>i. position p xs = Some i \<and> i < length xs \<and> p (xs ! i)"
  using position_None [of p xs] position_Some [of p xs] by (metis not_None_eq)

lemma distinct_ids:
  assumes "workspaces_inv parent m" "ws \<in> set (mo_workspaces m)" "ws' \<in> set (mo_workspaces m)" "ws_id ws = ws_id ws'"
  shows "ws = ws'"
  using assms by (auto simp: workspaces_inv_def distinct_map inj_on_def)

lemma resolve_add_window_target_ok:
  assumes inv: "semi_inv parent m" and target: "mon_target_ok target m"
  shows "returns (resolve_add_window_target target m) (\<lambda>(i, t). i < length (mo_workspaces m) \<and>
    target_ok t (mo_workspaces m ! i) \<and> goes_to target m (ws_id (mo_workspaces m ! i)))"
proof (cases target)
  case MonTargetAuto
  then show ?thesis using semi_invD(3) [OF inv] by (simp add: resolve_add_window_target_def)
next
  case (MonTargetWorkspace wid column)
  then obtain ws where ws: "ws \<in> set (mo_workspaces m)" "ws_id ws = wid"
    "\<forall>i. column = Some i \<longrightarrow> i \<le> length (sc_columns (ws_scrolling ws))" using target by auto
  then obtain i where i: "position (\<lambda>ws. ws_id ws = wid) (mo_workspaces m) = Some i" "i < length (mo_workspaces m)"
    "ws_id (mo_workspaces m ! i) = wid"
    using position_ex [of "mo_workspaces m" "\<lambda>ws. ws_id ws = wid"] by blast
  with distinct_ids [OF semi_invD(2) [OF inv] ws(1), of "mo_workspaces m ! i"] ws have "mo_workspaces m ! i = ws" by simp
  with i ws MonTargetWorkspace show ?thesis by (auto simp: resolve_add_window_target_def split: option.splits)
next
  case (MonTargetNextTo w)
  then have "\<exists>ws \<in> set (mo_workspaces m). ws_has_window w ws" using target by (simp add: mem_wss_windows ws_has_window_iff)
  from position_ex [OF this] obtain i where i: "position (ws_has_window w) (mo_workspaces m) = Some i"
    "i < length (mo_workspaces m)" "w \<in># ws_windows (mo_workspaces m ! i)" unfolding ws_has_window_iff by blast
  with nth_mem [OF i(2)] show ?thesis by (auto simp: MonTargetNextTo resolve_add_window_target_def)
qed

lemma mo_add_tile_ok:
  assumes inv: "semi_inv (env_parent env) m" and fresh: "tl_window tile \<notin># mo_windows m" and target: "mon_target_ok target m"
  shows "returns (mo_add_tile env tile target activate allow width full is_floating m) (\<lambda>m'. \<exists>wid.
    goes_to target m wid \<and> mo_adds (env_parent env) {#tl_window tile#} wid (allow \<and> map_smart activate False) m m')"
  unfolding mo_add_tile_def returns_bind [of "resolve_add_window_target target m"]
proof (rule returns_mono [OF resolve_add_window_target_ok [OF inv target]])
  fix r assume "case r of (i, t) \<Rightarrow> i < length (mo_workspaces m) \<and> target_ok t (mo_workspaces m ! i) \<and>
    goes_to target m (ws_id (mo_workspaces m ! i))"
  then obtain i t where r: "r = (i, t)" and i: "i < length (mo_workspaces m)" and t: "target_ok t (mo_workspaces m ! i)"
    and g: "goes_to target m (ws_id (mo_workspaces m ! i))" by (cases r) simp
  have "tl_window tile \<notin># ws_windows (mo_workspaces m ! i)"
    using fresh wss_windows_nth_sub [OF i] by (meson mset_subset_eqD)
  from ws_add_tile_ok [OF workspaces_invD [OF semi_invD(2) [OF inv] i] this t]
  have f: "returns (ws_add_tile env tile t activate width full is_floating (mo_workspaces m ! i))
      (ws_adds (env_parent env) {#tl_window tile#} (mo_workspaces m ! i))" .
  have dist: "mset_distinct (mo_windows m + {#tl_window tile#})"
    using fresh semi_invD(2) [OF inv] by (simp add: workspaces_inv_def)
  show "returns (case r of (workspace_idx, target) \<Rightarrow>
      bind_res (on_workspace workspace_idx (\<lambda>ws.
         bind_res (ws_add_tile env tile target activate width full is_floating ws) (\<lambda>ws. Inr (own m ws))) m) (\<lambda>m.
      bind_res (add_edges workspace_idx m) (\<lambda>(workspace_idx, m).
        if allow \<and> map_smart activate False then activate_workspace env workspace_idx m else Inr m)))
    (\<lambda>m'. \<exists>wid. goes_to target m wid \<and>
       mo_adds (env_parent env) {#tl_window tile#} wid (allow \<and> map_smart activate False) m m')"
    unfolding r prod.case
    by (rule returns_mono [OF grow_activate_ok [where f = "ws_add_tile env tile t activate width full is_floating", OF inv i _ dist f]])
      (use g in auto)
qed

text \<open>A tile added to a column: its workspace has windows already, so nothing is added around it.\<close>

lemma mo_add_tile_to_column_ok:
  assumes inv: "semi_inv parent m" and i: "i < length (mo_workspaces m)" and fresh: "tl_window tile \<notin># mo_windows m"
    and ci: "ci < length (sc_columns (ws_scrolling (mo_workspaces m ! i)))"
    and ti: "\<And>k. ti = Some k \<Longrightarrow> k \<le> length (col_tiles (sc_columns (ws_scrolling (mo_workspaces m ! i)) ! ci))"
  shows "returns (mo_add_tile_to_column env i ci ti tile activate allow m)
    (mo_adds parent {#tl_window tile#} (ws_id (mo_workspaces m ! i)) (allow \<and> activate) m)"
proof -
  let ?ws = "mo_workspaces m ! i" and ?W = "{#tl_window tile#}"
  have winv: "workspace_inv parent ?ws" by (rule workspaces_invD [OF semi_invD(2) [OF inv] i])
  have "tl_window tile \<notin># ws_windows ?ws" using fresh wss_windows_nth_sub [OF i] by (meson mset_subset_eqD)
  from ws_add_tile_to_column_ok [OF winv this ci ti] obtain ws0 where
    ws0: "ws_add_tile_to_column ci ti tile activate ?ws = Inr ws0" "ws_adds parent ?W ?ws ws0"
    unfolding returns_def by blast
  define ws m1 where "ws = own m ws0" and "m1 = store_workspace i ws m"
  have ws: "ws_id ws = ws_id ?ws" "ws_windows ws = ws_windows ?ws + ?W"
    using ws0(2) by (simp_all add: ws_def ws_adds_def ws_same_id_def)
  have dist: "mset_distinct (mo_windows m + ?W)" using fresh semi_invD(2) [OF inv] by (simp add: workspaces_inv_def)
  have st: "workspaces_inv parent m1" "mo_windows m1 = mo_windows m + ?W" "used ws"
    unfolding m1_def by (rule store_used [OF inv i ws0(2)]; use ws0(2) dist in \<open>simp add: ws_def ws_adds_def\<close>)+
  have "column_inv (sc_columns (ws_scrolling ?ws) ! ci)" by (rule scrolling_inv_nth [OF workspace_invD(1) [OF winv] ci])
  then have "col_windows (sc_columns (ws_scrolling ?ws) ! ci) \<noteq> []" by (simp add: column_inv_def col_windows_def)
  then have "sc_windows (ws_scrolling ?ws) \<noteq> {#}" using ci
    by (auto simp: sc_windows_def cols_windows_def dest: nth_mem)
  then have used: "used ?ws" by (simp add: used_iff ws_windows_def)
  have "edges_ok (above_first m) ((mo_workspaces m)[i := ws])"
    by (rule edges_ok_update [OF semi_invD(7) [OF inv] i]) (use used in simp)
  then have semi: "semi_inv parent m1" using st(1) semi_invD [OF inv] by (simp add: semi_inv_def untidy_inv_def m1_def)
  have "tidy_inv m1" if "tidy_near (ws_id ?ws) m"
    using tidy_near_store [OF semi_invD(2) [OF inv] i that st(3)] by (simp add: tidy_inv_def m1_def)
  then have "grown parent ?W i m i m1" using semi st(2) i ws map_id_update [where f = ws_id, OF i ws(1) semi_invD(3) [OF inv]]
    by (simp add: grown_def m1_def)
  then have "returns (if allow \<and> activate then activate_workspace env i m1 else Inr m1)
      (mo_adds parent ?W (ws_id ?ws) (allow \<and> activate) m)" by (rule grown_activate)
  moreover have "mo_add_tile_to_column env i ci ti tile activate allow m =
      (if allow \<and> activate then activate_workspace env i m1 else Inr m1)"
    using i ws0(1) by (simp add: mo_add_tile_to_column_def on_workspace_def vec_simps m1_def store_workspace_def ws_def)
  ultimately show ?thesis by simp
qed

subsection \<open>Moving windows between workspaces\<close>

text \<open>
  A window or the windows of a column are moved to the workspace with identifier \<open>wid\<close>.
\<close>

definition mo_moves :: "'w parent_of \<Rightarrow> 'w multiset \<Rightarrow> nat \<Rightarrow> 'w monitor \<Rightarrow> 'w monitor \<Rightarrow> bool" where
  "mo_moves parent W wid m m' \<longleftrightarrow>
     mo_keeps parent m m' \<and> (\<exists>ws \<in> set (mo_workspaces m'). ws_id ws = wid \<and> W \<subseteq># ws_windows ws)"

text \<open>The state after the windows are taken out of workspace \<open>i\<close>.\<close>

definition taken :: "'w parent_of \<Rightarrow> 'w multiset \<Rightarrow> nat \<Rightarrow> 'w monitor \<Rightarrow> 'w monitor \<Rightarrow> bool" where
  "taken parent W i m m1 \<longleftrightarrow> semi_inv parent m1 \<and> mo_windows m = mo_windows m1 + W \<and>
     (i = mo_active_workspace_idx m \<longrightarrow> tidy_inv m1) \<and> map ws_id (mo_workspaces m1) = map ws_id (mo_workspaces m) \<and>
     mo_active_workspace_idx m1 = mo_active_workspace_idx m"

lemma taken_ok:
  assumes inv: "monitor_inv parent m" and i: "i < length (mo_workspaces m)"
    and ws: "ws_removes parent W (mo_workspaces m ! i) ws"
  shows "taken parent W i m (store_workspace i ws m)"
proof -
  have "used ws \<longrightarrow> used (mo_workspaces m ! i)" using ws by (auto simp: used_iff ws_removes_def ws_same_id_def)
  from store_unused [OF monitor_invD(2) [OF inv] i _ _ this, of W] ws monitor_invD(3) [OF inv]
  have "semi_inv parent (store_workspace i ws m)" "mo_windows m = mo_windows (store_workspace i ws m) + W"
    "i = mo_active_workspace_idx m \<longrightarrow> tidy_inv (store_workspace i ws m)"
    by (auto simp: ws_removes_def ws_same_id_def)
  moreover have "map ws_id ((mo_workspaces m)[i := ws]) = map ws_id (mo_workspaces m)"
    using i ws by (simp add: map_update ws_removes_def ws_same_id_def list_update_same_conv)
  ultimately show ?thesis by (simp add: taken_def)
qed

lemma taken_fresh:
  assumes inv: "monitor_inv parent m" and t: "taken parent W i m m1"
  shows "mset_distinct (mo_windows m1 + W)" "w \<in># W \<Longrightarrow> w \<notin># mo_windows m1"
proof -
  show d: "mset_distinct (mo_windows m1 + W)" using monitor_invD(4) [OF inv] t by (simp add: taken_def workspaces_inv_def)
  show "w \<notin># mo_windows m1" if "w \<in># W"
  proof
    assume "w \<in># mo_windows m1"
    with that have "count (mo_windows m1) w \<ge> 1" "count W w \<ge> 1" by (simp_all add: Suc_le_eq)
    moreover have "count (mo_windows m1) w + count W w \<le> 1" using d unfolding mset_distinct_def by (metis count_union)
    ultimately show False by linarith
  qed
qed

lemma add_removed_tile_ok:
  assumes inv: "monitor_inv (env_parent env) m" and t: "taken (env_parent env) {#tl_window (rt_tile r)#} i m m1"
    and j: "j < length (mo_workspaces m)"
  shows "returns (add_removed_tile env r (ws_id (mo_workspaces m ! j)) activate m1)
    (mo_adds (env_parent env) {#tl_window (rt_tile r)#} (ws_id (mo_workspaces m ! j)) (map_smart activate False) m1)"
proof -
  have "ws_id (mo_workspaces m ! j) \<in> set (map ws_id (mo_workspaces m1))"
    using t j by (simp add: taken_def)
  then have target: "mon_target_ok (MonTargetWorkspace (ws_id (mo_workspaces m ! j)) None) m1" by auto
  have semi: "semi_inv (env_parent env) m1" using t by (simp add: taken_def)
  show ?thesis unfolding add_removed_tile_def
    by (rule returns_mono [OF mo_add_tile_ok [OF semi taken_fresh(2) [OF inv t] target]]) auto
qed

lemma taken_adds_moves:
  assumes "taken parent W i m m1" "mo_adds parent W wid act m1 m'"
  shows "mo_windows m' = mo_windows m" "semi_inv parent m'" "\<exists>ws \<in> set (mo_workspaces m'). ws_id ws = wid \<and> W \<subseteq># ws_windows ws"
    "i = mo_active_workspace_idx m \<Longrightarrow> mo_moves parent W wid m m'"
  using assms tidy_inv_near by (auto simp: taken_def mo_adds_def mo_moves_def mo_keeps_def monitor_inv_iff)

text \<open>Moving what is active on the active workspace: the workspaces stay tidy, because the source is active.\<close>

definition moves_active :: "'w parent_of \<Rightarrow> nat \<Rightarrow> 'w monitor \<Rightarrow> 'w monitor \<Rightarrow> bool" where
  "moves_active parent j m m' \<longleftrightarrow> mo_keeps parent m m' \<and>
     (j \<noteq> mo_active_workspace_idx m \<longrightarrow> (\<forall>w. mo_active_window m = Inr (Some w) \<longrightarrow>
        mo_moves parent {#w#} (ws_id (mo_workspaces m ! j)) m m'))"

lemma mo_keeps_refl: "monitor_inv parent m \<Longrightarrow> mo_keeps parent m m"
  by (simp add: mo_keeps_def)

lemma mo_active_eq:
  "monitor_inv parent m \<Longrightarrow> mo_active_workspace m = Inr (mo_workspaces m ! mo_active_workspace_idx m)"
  "monitor_inv parent m \<Longrightarrow> mo_active_window m = ws_active_window (mo_workspaces m ! mo_active_workspace_idx m)"
  using monitor_invD(5) [of parent m] by (simp_all add: mo_active_workspace_def mo_active_window_def vec_simps)

lemma ws_no_active_window:
  "workspace_inv parent ws \<Longrightarrow> ws_windows ws = {#} \<Longrightarrow> ws_active_window ws \<noteq> Inr (Some w)"
  by (cases rule: ws_active_window_cases [of parent ws]) (auto simp: ws_windows_def fl_wins_def)

lemma move_active_to_ok:
  assumes inv: "monitor_inv (env_parent env) m" and j: "j < length (mo_workspaces m)"
  shows "returns (move_active_to env j focus m) (moves_active (env_parent env) j m)"
proof (cases "j = mo_active_workspace_idx m")
  case True
  then show ?thesis using inv by (simp add: move_active_to_def moves_active_def mo_keeps_refl)
next
  case False
  let ?a = "mo_active_workspace_idx m" and ?p = "env_parent env"
  let ?ws = "mo_workspaces m ! ?a"
  note a = monitor_invD(5) [OF inv]
  have winv: "workspace_inv ?p ?ws" by (rule workspaces_invD [OF monitor_invD(4) [OF inv] a])
  obtain r ws where run: "ws_remove_active_tile ?ws = Inr (r, ws)"
    and r: "case r of None \<Rightarrow> ws = ?ws \<and> ws_windows ?ws = {#}
      | Some r \<Rightarrow> ws_removes ?p {#tl_window (rt_tile r)#} ?ws ws \<and> ws_active_window ?ws = Inr (Some (tl_window (rt_tile r)))"
    using ws_remove_active_tile_ok [OF winv] by (auto simp: returns_def)
  show ?thesis
  proof (cases r)
    case None
    with r have "store_workspace ?a ws m = m" "\<And>w. mo_active_window m \<noteq> Inr (Some w)"
      using ws_no_active_window [OF winv] by (simp_all add: store_workspace_def mo_active_eq(2) [OF inv])
    then show ?thesis using None inv a j False
      by (simp add: move_active_to_def Let_def run moves_active_def mo_keeps_refl)
  next
    case (Some t)
    define m1 where "m1 = store_workspace ?a ws m"
    have tk: "taken ?p {#tl_window (rt_tile t)#} ?a m m1"
      unfolding m1_def by (rule taken_ok [OF inv a]) (use r Some in simp)
    have "returns (add_removed_tile env t (ws_id (mo_workspaces m ! j)) (if focus then ActivateYes else ActivateSmart) m1)
        (moves_active ?p j m)"
      by (rule returns_mono [OF add_removed_tile_ok [OF inv tk j]])
        (use taken_adds_moves(4) [OF tk] r Some in \<open>auto simp: moves_active_def mo_moves_def mo_active_eq(2) [OF inv]\<close>)
    then show ?thesis using Some a j False by (simp add: move_active_to_def Let_def run m1_def)
  qed
qed

lemma move_to_workspace_up_down_ok:
  assumes inv: "monitor_inv (env_parent env) m"
  shows "returns (move_to_workspace_up env focus m) (moves_active (env_parent env) (mo_active_workspace_idx m - 1) m)"
    "returns (move_to_workspace_down env focus m)
       (moves_active (env_parent env) (min (mo_active_workspace_idx m + 1) (length (mo_workspaces m) - 1)) m)"
  using move_active_to_ok [OF inv] monitor_invD(5,6) [OF inv]
  by (simp_all add: move_to_workspace_up_def move_to_workspace_down_def min_less_iff_disj)

text \<open>Cleaning up afterwards keeps the workspaces with windows.\<close>

lemma clean_up_if_idle_ok:
  assumes "semi_inv parent m"
  shows "returns (clean_up_if_idle m) (\<lambda>m'. monitor_inv parent m' \<and> (m' = m \<or> cleaned_up m m'))"
proof (cases "mo_workspace_switch m = None")
  case True
  with clean_up_workspaces_ok [OF semi_invD(1) [OF assms]] show ?thesis
    by (auto simp: clean_up_if_idle_def elim!: returns_mono)
qed (use assms in \<open>auto simp: clean_up_if_idle_def monitor_inv_iff tidy_inv_def\<close>)

lemma cleaned_up_keeps_used:
  assumes "m' = m \<or> cleaned_up m m'" "ws \<in> set (mo_workspaces m)" "used ws"
  shows "ws \<in> set (mo_workspaces m')"
proof -
  have "filter used (mo_workspaces m') = filter used (mo_workspaces m)" using assms(1) by (auto simp: cleaned_up_def)
  then have "ws \<in> set (filter used (mo_workspaces m'))" using assms(2,3) by simp
  then show ?thesis by simp
qed

lemma cleaned_up_moves:
  assumes c: "monitor_inv parent m2" "m2 = m1 \<or> cleaned_up m1 m2" and win: "mo_windows m1 = mo_windows m"
    and inv: "workspaces_inv parent m1"
    and W: "W \<noteq> {#}" "\<exists>ws \<in> set (mo_workspaces m1). ws_id ws = wid \<and> W \<subseteq># ws_windows ws"
  shows "mo_moves parent W wid m m2"
proof -
  obtain ws where ws: "ws \<in> set (mo_workspaces m1)" "ws_id ws = wid" "W \<subseteq># ws_windows ws" using W(2) by blast
  then have "used ws" using W(1) by (auto simp: used_iff)
  with cleaned_up_keeps_used [OF c(2) ws(1)] ws have "\<exists>ws \<in> set (mo_workspaces m2). ws_id ws = wid \<and> W \<subseteq># ws_windows ws" by blast
  moreover have "mo_windows m2 = mo_windows m" using c(2) cleaned_up_workspaces_inv(2) [OF inv] win by auto
  ultimately show ?thesis using c(1) by (simp add: mo_moves_def mo_keeps_def)
qed

lemma move_taken_ok:
  assumes inv: "monitor_inv (env_parent env) m" and j: "j < length (mo_workspaces m)"
    and t: "taken (env_parent env) {#tl_window (rt_tile r)#} i m m1"
  shows "returns (bind_res (add_removed_tile env r (ws_id (mo_workspaces m ! j)) activate m1) clean_up_if_idle)
    (mo_moves (env_parent env) {#tl_window (rt_tile r)#} (ws_id (mo_workspaces m ! j)) m)"
  unfolding returns_bind
proof (rule returns_mono [OF add_removed_tile_ok [OF inv t j]])
  fix m2 assume "mo_adds (env_parent env) {#tl_window (rt_tile r)#} (ws_id (mo_workspaces m ! j)) (map_smart activate False) m1 m2"
  note A = taken_adds_moves(1-3) [OF t this]
  show "returns (clean_up_if_idle m2) (mo_moves (env_parent env) {#tl_window (rt_tile r)#} (ws_id (mo_workspaces m ! j)) m)"
    by (rule returns_mono [OF clean_up_if_idle_ok [OF A(2)]])
      (use A in \<open>auto intro!: cleaned_up_moves [OF _ _ A(1) semi_invD(2) [OF A(2)]]\<close>)
qed

definition moving :: "'w option \<Rightarrow> 'w monitor \<Rightarrow> 'w \<Rightarrow> bool" where
  "moving window m w \<longleftrightarrow> (case window of Some v \<Rightarrow> w = v | None \<Rightarrow> mo_active_window m = Inr (Some w))"

definition lives_on :: "'w \<Rightarrow> nat \<Rightarrow> 'w monitor \<Rightarrow> bool" where
  "lives_on w wid m \<longleftrightarrow> (\<exists>ws \<in> set (mo_workspaces m). ws_id ws = wid \<and> w \<in># ws_windows ws)"

lemma mo_moves_lives_on: "mo_moves parent {#w#} wid m m' \<longleftrightarrow> mo_keeps parent m m' \<and> lives_on w wid m'"
  by (auto simp: mo_moves_def lives_on_def)

lemma moving_in_active:
  assumes inv: "monitor_inv parent m" and w: "moving None m w"
  shows "w \<in># ws_windows (mo_workspaces m ! mo_active_workspace_idx m)"
proof (rule ccontr)
  have winv: "workspace_inv parent (mo_workspaces m ! mo_active_workspace_idx m)"
    by (rule workspaces_invD [OF monitor_invD(4,5) [OF inv]])
  have act: "ws_active_window (mo_workspaces m ! mo_active_workspace_idx m) = Inr (Some w)"
    using w by (simp add: moving_def mo_active_eq(2) [OF inv])
  assume "w \<notin># ws_windows (mo_workspaces m ! mo_active_workspace_idx m)"
  with act show False by (cases rule: ws_active_window_cases [OF winv]) (auto simp: ws_windows_def fl_wins_def)
qed

lemma move_to_workspace_source:
  assumes inv: "monitor_inv parent m" and w: "\<And>w. window = Some w \<Longrightarrow> w \<in># mo_windows m"
  obtains i where "(case window of Some w \<Rightarrow> unwrap (position (ws_has_window w) (mo_workspaces m))
      | None \<Rightarrow> Inr (mo_active_workspace_idx m)) = Inr i" "i < length (mo_workspaces m)"
    "\<And>w. moving window m w \<Longrightarrow> w \<in># ws_windows (mo_workspaces m ! i)"
proof (cases window)
  case None
  with that [of "mo_active_workspace_idx m"] monitor_invD(5) [OF inv] moving_in_active [OF inv] show ?thesis by simp
next
  case (Some v)
  then have "\<exists>ws \<in> set (mo_workspaces m). ws_has_window v ws" using w by (simp add: mem_wss_windows ws_has_window_iff)
  from position_ex [OF this] obtain i where "position (ws_has_window v) (mo_workspaces m) = Some i"
    "i < length (mo_workspaces m)" "v \<in># ws_windows (mo_workspaces m ! i)" unfolding ws_has_window_iff by blast
  with that [of i] Some show ?thesis by (simp add: moving_def)
qed

lemma remove_moving_ok:
  assumes inv: "workspace_inv parent ws" and w: "\<And>w. window = Some w \<Longrightarrow> w \<in># ws_windows ws"
  shows "returns (case window of Some w \<Rightarrow> bind_res (ws_remove_tile w ws) (\<lambda>(removed, ws). Inr (Some removed, ws))
      | None \<Rightarrow> ws_remove_active_tile ws)
    (\<lambda>(r, ws'). case r of None \<Rightarrow> ws' = ws \<and> window = None \<and> ws_windows ws = {#}
      | Some r \<Rightarrow> ws_removes parent {#tl_window (rt_tile r)#} ws ws' \<and>
          (case window of Some w \<Rightarrow> tl_window (rt_tile r) = w | None \<Rightarrow> ws_active_window ws = Inr (Some (tl_window (rt_tile r)))))"
proof (cases window)
  case None
  then show ?thesis using ws_remove_active_tile_ok [OF inv] by (auto elim!: returns_mono split: option.splits)
next
  case (Some v)
  then show ?thesis using ws_remove_tile_ok [OF inv w [OF Some]] by (auto elim!: returns_mono)
qed

lemma move_to_workspace_ok:
  assumes inv: "monitor_inv (env_parent env) m" and w: "\<And>w. window = Some w \<Longrightarrow> w \<in># mo_windows m"
  shows "returns (move_to_workspace env window idx activate m) (\<lambda>m'. mo_keeps (env_parent env) m m' \<and>
    (\<forall>w. moving window m w \<longrightarrow> lives_on w (ws_id (mo_workspaces m ! min idx (length (mo_workspaces m) - 1))) m'))"
proof -
  let ?p = "env_parent env" and ?j = "min idx (length (mo_workspaces m) - 1)"
  obtain i where run: "(case window of Some w \<Rightarrow> unwrap (position (ws_has_window w) (mo_workspaces m))
      | None \<Rightarrow> Inr (mo_active_workspace_idx m)) = Inr i" and i: "i < length (mo_workspaces m)"
    "\<And>w. moving window m w \<Longrightarrow> w \<in># ws_windows (mo_workspaces m ! i)"
    using move_to_workspace_source [OF inv w] by blast
  have j: "?j < length (mo_workspaces m)" using monitor_invD(6) [OF inv] by (simp add: min_less_iff_disj)
  show ?thesis
  proof (cases "?j = i")
    case True
    have "lives_on v (ws_id (mo_workspaces m ! i)) m" if "moving window m v" for v
      using i(2) [OF that] nth_mem [OF i(1)] unfolding lives_on_def by blast
    with True show ?thesis using monitor_invD(6) [OF inv] inv
      by (simp add: move_to_workspace_def run Let_def mo_keeps_refl vec_simps)
  next
    case False
    let ?ws = "mo_workspaces m ! i"
    have winv: "workspace_inv ?p ?ws" by (rule workspaces_invD [OF monitor_invD(4) [OF inv] i(1)])
    have "v \<in># ws_windows ?ws" if "window = Some v" for v using i(2) [of v] that by (simp add: moving_def)
    from remove_moving_ok [where window = window, OF winv this] obtain r ws where
      rm: "(case window of Some w \<Rightarrow> bind_res (ws_remove_tile w ?ws) (\<lambda>(removed, ws). Inr (Some removed, ws))
        | None \<Rightarrow> ws_remove_active_tile ?ws) = Inr (r, ws)"
      and r: "case r of None \<Rightarrow> ws = ?ws \<and> window = None \<and> ws_windows ?ws = {#}
        | Some r \<Rightarrow> ws_removes ?p {#tl_window (rt_tile r)#} ?ws ws \<and>
          (case window of Some w \<Rightarrow> tl_window (rt_tile r) = w | None \<Rightarrow> ws_active_window ?ws = Inr (Some (tl_window (rt_tile r))))"
      unfolding returns_def by auto
    obtain active where act: "mo_active_window m = Inr active"
      using ws_active_window_cases [OF workspaces_invD [OF monitor_invD(4,5) [OF inv]]]
      by (metis mo_active_eq(2) [OF inv])
    define m1 where "m1 = store_workspace i ws m"
    define b where "b = (if map_smart activate (case window of None \<Rightarrow> True | Some w \<Rightarrow> active = Some w)
      then ActivateYes else ActivateNo)"
    have step: "move_to_workspace env window idx activate m =
        (case r of None \<Rightarrow> Inr m1
         | Some t \<Rightarrow> bind_res (add_removed_tile env t (ws_id (mo_workspaces m ! ?j)) b m1) clean_up_if_idle)"
      using False i(1) j monitor_invD(6) [OF inv]
      by (cases r) (simp_all add: move_to_workspace_def run rm act Let_def vec_simps m1_def b_def)
    show ?thesis
    proof (cases r)
      case None
      then have "m1 = m" "\<And>v. \<not> moving window m v" using r i(2) by (auto simp: m1_def store_workspace_def)
      then show ?thesis using None inv by (simp add: step mo_keeps_refl)
    next
      case (Some t)
      have tk: "taken ?p {#tl_window (rt_tile t)#} i m m1"
        unfolding m1_def by (rule taken_ok [OF inv i(1)]) (use r Some in simp)
      have "i = mo_active_workspace_idx m" if "window = None" using run that by simp
      then have only: "v = tl_window (rt_tile t)" if "moving window m v" for v
        using that r Some by (auto simp: moving_def mo_active_eq(2) [OF inv] split: option.splits)
      show ?thesis unfolding step Some option.case
        by (rule returns_mono [OF move_taken_ok [OF inv j tk]]) (use only in \<open>auto simp: mo_moves_lives_on\<close>)
    qed
  qed
qed

text \<open>The active column, or the active window when the floating layer is active.\<close>

lemma mo_keeps_trans: "mo_keeps parent a b \<Longrightarrow> mo_keeps parent b c \<Longrightarrow> mo_keeps parent a c"
  by (simp add: mo_keeps_def)

lemma move_column_up_or_down_ok:
  assumes inv: "monitor_inv parent m" and j: "j < length (mo_workspaces m)"
    and floating: "returns (move_floating m) (mo_keeps parent m)"
  shows "returns (move_column_up_or_down env j move_floating activate m) (\<lambda>m'. mo_keeps parent m m' \<and>
    (let ws = mo_workspaces m ! mo_active_workspace_idx m
     in j \<noteq> mo_active_workspace_idx m \<and> \<not> floating_get ws \<and> sc_columns (ws_scrolling ws) \<noteq> [] \<longrightarrow>
        mo_moves parent (mset (col_windows (sc_columns (ws_scrolling ws) ! sc_active_column_idx (ws_scrolling ws))))
          (ws_id (mo_workspaces m ! j)) m m'))"
proof (cases "j = mo_active_workspace_idx m \<or> floating_get (mo_workspaces m ! mo_active_workspace_idx m)")
  case True
  then show ?thesis using inv floating monitor_invD(5) [OF inv]
    by (auto simp: move_column_up_or_down_def Let_def mo_keeps_refl elim!: returns_mono)
next
  case False
  let ?a = "mo_active_workspace_idx m"
  let ?ws = "mo_workspaces m ! ?a"
  note a = monitor_invD(5) [OF inv]
  have winv: "workspace_inv parent ?ws" by (rule workspaces_invD [OF monitor_invD(4) [OF inv] a])
  obtain c ws where run: "ws_remove_active_column ?ws = Inr (c, ws)"
    and c: "case c of None \<Rightarrow> ws = ?ws \<and> (floating_get ?ws \<or> sc_columns (ws_scrolling ?ws) = [])
      | Some col \<Rightarrow> ws_removes parent (mset (col_windows col)) ?ws ws \<and> column_inv col \<and> \<not> floating_get ?ws \<and>
          sc_columns (ws_scrolling ?ws) \<noteq> [] \<and>
          col = sc_columns (ws_scrolling ?ws) ! sc_active_column_idx (ws_scrolling ?ws)"
    using ws_remove_active_column_ok [OF winv] by (auto simp: returns_def)
  define m1 where "m1 = store_workspace ?a ws m"
  have step: "move_column_up_or_down env j move_floating activate m =
      (case c of None \<Rightarrow> Inr m1 | Some col \<Rightarrow> mo_add_column env j col activate m1)"
    using False a by (cases c) (simp_all add: move_column_up_or_down_def run Let_def m1_def vec_simps)
  show ?thesis
  proof (cases c)
    case None
    then have "m1 = m" using c by (simp add: m1_def store_workspace_def)
    then show ?thesis using None c False inv by (simp add: step mo_keeps_refl)
  next
    case (Some col)
    have cs: "ws_removes parent (mset (col_windows col)) ?ws ws" "column_inv col"
      "col = sc_columns (ws_scrolling ?ws) ! sc_active_column_idx (ws_scrolling ?ws)"
      using c unfolding Some option.case by blast+
    have tk: "taken parent (mset (col_windows col)) ?a m m1" unfolding m1_def by (rule taken_ok [OF inv a cs(1)])
    have "map ws_id (mo_workspaces m1) = map ws_id (mo_workspaces m)" using tk by (simp add: taken_def)
    then have j1: "j < length (mo_workspaces m1)" "ws_id (mo_workspaces m1 ! j) = ws_id (mo_workspaces m ! j)"
      using j by (metis length_map, metis length_map nth_map)
    have "returns (mo_add_column env j col activate m1)
        (mo_adds parent (mset (col_windows col)) (ws_id (mo_workspaces m1 ! j)) activate m1)"
      by (rule mo_add_column_ok [OF _ j1(1) _ taken_fresh(1) [OF inv tk]]) (use tk cs(2) in \<open>simp_all add: taken_def\<close>)
    then show ?thesis unfolding step Some option.case
      by (rule returns_mono) (use taken_adds_moves(4) [OF tk] cs(3) j1 in \<open>auto simp: mo_moves_def Let_def\<close>)
  qed
qed

lemma moves_activeD: "moves_active parent j m m' \<Longrightarrow> mo_keeps parent m m'"
  by (simp add: moves_active_def)

lemma move_to_workspace_up_down_keeps:
  assumes inv: "monitor_inv (env_parent env) m"
  shows "returns (move_to_workspace_up env focus m) (mo_keeps (env_parent env) m)"
    "returns (move_to_workspace_down env focus m) (mo_keeps (env_parent env) m)"
  by (rule returns_mono [OF move_to_workspace_up_down_ok(1) [OF inv]], erule moves_activeD)
    (rule returns_mono [OF move_to_workspace_up_down_ok(2) [OF inv]], erule moves_activeD)

lemma move_column_to_workspace_keeps:
  assumes inv: "monitor_inv (env_parent env) m"
  shows "returns (move_column_to_workspace_up env activate m) (mo_keeps (env_parent env) m)"
    "returns (move_column_to_workspace_down env activate m) (mo_keeps (env_parent env) m)"
    "returns (move_column_to_workspace env idx activate m) (mo_keeps (env_parent env) m)"
proof -
  note ne = monitor_invD(5,6) [OF inv]
  have j: "mo_active_workspace_idx m - 1 < length (mo_workspaces m)"
    "min k (length (mo_workspaces m) - 1) < length (mo_workspaces m)" for k
    using ne by (simp_all add: min_less_iff_disj)
  note up = move_to_workspace_up_down_keeps(1) [OF inv] and down = move_to_workspace_up_down_keeps(2) [OF inv]
  have any: "returns (move_to_workspace env None idx act m) (mo_keeps (env_parent env) m)" for act
    by (rule returns_mono [OF move_to_workspace_ok [OF inv]]) auto
  show "returns (move_column_to_workspace_up env activate m) (mo_keeps (env_parent env) m)"
    unfolding move_column_to_workspace_up_def
    by (rule returns_mono [OF move_column_up_or_down_ok [where move_floating = "move_to_workspace_up env activate", OF inv j(1) up]]) auto
  show "returns (move_column_to_workspace_down env activate m) (mo_keeps (env_parent env) m)"
    unfolding move_column_to_workspace_down_def using ne(2)
    by (simp only: returns_bind returns_vec simp_thms not_False_eq_True)
      (rule returns_mono [OF move_column_up_or_down_ok [where move_floating = "move_to_workspace_down env activate", OF inv j(2) down]], auto)
  show "returns (move_column_to_workspace env idx activate m) (mo_keeps (env_parent env) m)"
    unfolding move_column_to_workspace_def using ne(2)
    by (simp only: returns_bind returns_vec simp_thms not_False_eq_True)
      (rule returns_mono [OF move_column_up_or_down_ok [where move_floating = "move_to_workspace env None idx _", OF inv j(2) any]], auto)
qed

end
