(* ===== verification/Monitor_Switch.thy ===== *)
theory Monitor_Switch
  imports Monitor_Add
begin

text \<open>
  Switching between the workspaces of a monitor, by actions and by gestures.
\<close>

subsection \<open>Switching\<close>

lemma f64_clamp_ok: "lo \<le> hi \<Longrightarrow> returns (f64_clamp lo hi x) (\<lambda>r. lo \<le> r \<and> r \<le> hi)"
  by (simp add: f64_clamp_def)

lemma floor_idx: "r \<le> real l \<Longrightarrow> nat \<lfloor>r\<rfloor> \<le> l"
  by (simp add: nat_le_iff floor_le_iff)

lemma le_last: "xs \<noteq> [] \<Longrightarrow> i \<le> length xs - 1 \<Longrightarrow> i < length xs"
  by (cases xs) auto

lemma clamped_idx_ok:
  "returns (bind_res (f64_clamp 0 (real l) x) (\<lambda>r. Inr (nat \<lfloor>r\<rfloor>))) (\<lambda>i. i \<le> l)"
  unfolding returns_bind returns_Inr by (rule returns_mono [OF f64_clamp_ok]) (auto intro: floor_idx)

text \<open>Activating the workspace at an index that is computed.\<close>

lemma activate_computed:
  assumes inv: "monitor_inv parent m" and i: "returns r (\<lambda>i. i \<le> length (mo_workspaces m) - 1)"
  shows "returns (bind_res r (\<lambda>i. activate_workspace env i m)) (mo_keeps parent m)"
  unfolding returns_bind
proof (rule returns_mono [OF i])
  fix i assume "i \<le> length (mo_workspaces m) - 1"
  then have "i < length (mo_workspaces m)" by (rule le_last [OF monitor_invD(6) [OF inv]])
  from activate_workspace_keeps [OF inv this] show "returns (activate_workspace env i m) (mo_keeps parent m)"
    by (rule returns_mono) simp
qed

lemma switch_workspace_up_down_keeps:
  assumes inv: "monitor_inv parent m"
  shows "returns (switch_workspace_up env m) (mo_keeps parent m)" "returns (switch_workspace_down env m) (mo_keeps parent m)"
proof -
  let ?l = "length (mo_workspaces m) - 1"
  have ne: "mo_workspaces m \<noteq> []" "mo_active_workspace_idx m - 1 \<le> ?l" using monitor_invD(5,6) [OF inv] by auto
  show "returns (switch_workspace_up env m) (mo_keeps parent m)" unfolding switch_workspace_up_def
    by (rule activate_computed [OF inv])
      (use ne clamped_idx_ok [where l = ?l] in \<open>auto simp del: One_nat_def split: option.split workspace_switch.split\<close>)
  have "returns (bind_res (case mo_workspace_switch m of
                 Some (SwitchGesture g) \<Rightarrow>
                   if ge_dnd_last_event_time g \<noteq> None
                   then bind_res (f64_clamp 0 (real ?l) (of_int \<lfloor>ge_current_idx g\<rfloor> + 1)) (\<lambda>r. Inr (nat \<lfloor>r\<rfloor>))
                   else Inr (min (mo_active_workspace_idx m + 1) ?l)
               | _ \<Rightarrow> Inr (min (mo_active_workspace_idx m + 1) ?l)) (\<lambda>i. activate_workspace env i m)) (mo_keeps parent m)"
    by (rule activate_computed [OF inv])
      (use clamped_idx_ok [where l = ?l] in \<open>auto simp del: One_nat_def split: option.split workspace_switch.split\<close>)
  then show "returns (switch_workspace_down env m) (mo_keeps parent m)"
    unfolding switch_workspace_down_def by (simp only: vec_simps ne(1) not_False_eq_True bind_res.simps)
qed

lemma switch_workspace_ok:
  assumes inv: "monitor_inv parent m"
  shows "returns (switch_workspace env idx m) (\<lambda>m'. mo_keeps parent m m' \<and>
    activated (min idx (length (mo_workspaces m) - 1)) m m')"
proof -
  have "min idx (length (mo_workspaces m) - 1) < length (mo_workspaces m)"
    using monitor_invD(6) [OF inv] by (simp add: min_less_iff_disj)
  from activate_workspace_keeps [OF inv this, of env] monitor_invD(6) [OF inv] show ?thesis
    by (simp add: switch_workspace_def vec_simps)
qed

lemma switch_workspace_keeps:
  assumes inv: "monitor_inv parent m"
  shows "returns (switch_workspace env idx m) (mo_keeps parent m)"
    "returns (switch_workspace_previous env m) (mo_keeps parent m)"
    "returns (switch_workspace_auto_back_and_forth env idx m) (mo_keeps parent m)"
proof -
  show all: "returns (switch_workspace env i m) (mo_keeps parent m)" for i
    by (rule returns_mono [OF switch_workspace_ok [OF inv]]) simp
  show "returns (switch_workspace_previous env m) (mo_keeps parent m)"
    using all inv by (simp add: switch_workspace_previous_def mo_keeps_refl split: option.split)
  with all show "returns (switch_workspace_auto_back_and_forth env idx m) (mo_keeps parent m)"
    using monitor_invD(6) [OF inv] by (simp add: switch_workspace_auto_back_and_forth_def Let_def)
qed

text \<open>An operation of the active workspace, and one of the monitor if it did nothing.\<close>

lemma active_or_else_keeps:
  assumes inv: "monitor_inv parent m"
    and f: "\<And>ws. workspace_inv parent ws \<Longrightarrow> returns (f ws) (flagged (ws_keeps parent ws))"
    and g: "\<And>m. monitor_inv parent m \<Longrightarrow> returns (g m) (mo_keeps parent m)"
  shows "returns (active_or_else f g m) (mo_keeps parent m)"
proof -
  note a = monitor_invD(5) [OF inv]
  from f [OF workspaces_invD [OF monitor_invD(4) [OF inv] a]] obtain ws moved where
    run: "f (mo_workspaces m ! mo_active_workspace_idx m) = Inr (ws, moved)"
    and ws: "ws_keeps parent (mo_workspaces m ! mo_active_workspace_idx m) ws"
    by (auto simp: returns_def flagged_def)
  define m1 where "m1 = store_workspace (mo_active_workspace_idx m) ws m"
  have k: "mo_keeps parent m m1" unfolding m1_def by (rule store_keeps [OF inv a ws])
  have "returns (g m1) (mo_keeps parent m)"
    by (rule returns_mono [OF g]) (use k in \<open>auto simp: mo_keeps_def\<close>)
  then show ?thesis using k by (simp add: active_or_else_def mo_active_eq(1) [OF inv] run m1_def [symmetric] Let_def)
qed

lemma move_or_to_workspace_keeps:
  assumes inv: "monitor_inv (env_parent env) m"
  shows "returns (move_down_or_to_workspace_down env m) (mo_keeps (env_parent env) m)"
    "returns (move_up_or_to_workspace_up env m) (mo_keeps (env_parent env) m)"
    "returns (focus_window_or_workspace_down env m) (mo_keeps (env_parent env) m)"
    "returns (focus_window_or_workspace_up env m) (mo_keeps (env_parent env) m)"
proof -
  note mv = move_to_workspace_up_down_keeps
  show "returns (move_down_or_to_workspace_down env m) (mo_keeps (env_parent env) m)"
    unfolding move_down_or_to_workspace_down_def by (rule active_or_else_keeps [OF inv ws_move_directional_keeps(3) mv(2)])
  show "returns (move_up_or_to_workspace_up env m) (mo_keeps (env_parent env) m)"
    unfolding move_up_or_to_workspace_up_def by (rule active_or_else_keeps [OF inv ws_move_directional_keeps(4) mv(1)])
  show "returns (focus_window_or_workspace_down env m) (mo_keeps (env_parent env) m)"
    unfolding focus_window_or_workspace_down_def
    by (rule active_or_else_keeps [OF inv ws_focus_horizontal_keeps(3) switch_workspace_up_down_keeps(2)])
  show "returns (focus_window_or_workspace_up env m) (mo_keeps (env_parent env) m)"
    unfolding focus_window_or_workspace_up_def
    by (rule active_or_else_keeps [OF inv ws_focus_horizontal_keeps(4) switch_workspace_up_down_keeps(1)])
qed

subsection \<open>Gestures\<close>

lemma mo_update_simps [simp]:
  "options_ok (m\<lparr>mo_workspace_switch := s\<rparr>) = options_ok m" "options_ok (m\<lparr>mo_active_workspace_idx := a\<rparr>) = options_ok m"
  "options_ok (m\<lparr>mo_previous_workspace_id := p\<rparr>) = options_ok m" "options_ok (m\<lparr>mo_workspaces := wss\<rparr>) = options_ok m"
  "workspaces_inv parent (m\<lparr>mo_workspace_switch := s\<rparr>) = workspaces_inv parent m"
  "workspaces_inv parent (m\<lparr>mo_active_workspace_idx := a\<rparr>) = workspaces_inv parent m"
  "workspaces_inv parent (m\<lparr>mo_previous_workspace_id := p\<rparr>) = workspaces_inv parent m"
  by (simp_all add: options_ok_def workspaces_inv_def)

lemma switch_set_keeps:
  assumes "monitor_inv parent m" "switch_inv (m\<lparr>mo_workspace_switch := Some s\<rparr>)"
  shows "mo_keeps parent m (m\<lparr>mo_workspace_switch := Some s\<rparr>)"
  using assms by (simp add: mo_keeps_def monitor_inv_def untidy_inv_def)

lemma gesture_invD:
  assumes "monitor_inv parent m" "mo_workspace_switch m = Some (SwitchGesture g)"
  shows "ge_center_idx g < length (mo_workspaces m)" "sorted (map ev_timestamp (st_history (ge_tracker g)))"
  using monitor_invD(7) [OF assms(1)] assms(2) by (simp_all add: switch_inv_def)

lemma gesture_set_keeps:
  assumes "monitor_inv parent m" "ge_center_idx g < length (mo_workspaces m)"
    "sorted (map ev_timestamp (st_history (ge_tracker g)))"
  shows "mo_keeps parent m (m\<lparr>mo_workspace_switch := Some (SwitchGesture g)\<rparr>)"
  by (rule switch_set_keeps [OF assms(1)]) (use assms in \<open>simp add: switch_inv_def\<close>)

lemma new_gesture_keeps:
  "monitor_inv parent m \<Longrightarrow> mo_keeps parent m (new_gesture env touchpad clamped dnd m)"
  unfolding new_gesture_def Let_def
  by (rule gesture_set_keeps) (auto simp: monitor_invD(5) tracker_new_def)

lemma gesture_begin_keeps:
  assumes "monitor_inv parent m"
  shows "mo_keeps parent m (workspace_switch_gesture_begin env touchpad m)"
    "mo_keeps parent m (dnd_scroll_gesture_begin env now m)"
  using new_gesture_keeps [OF assms] mo_keeps_refl [OF assms]
  by (simp_all add: workspace_switch_gesture_begin_def dnd_scroll_gesture_begin_def)

lemma tracker_push_sorted:
  assumes "sorted (map ev_timestamp (st_history t))"
  shows "sorted (map ev_timestamp (st_history (tracker_push delta timestamp t)))"
proof (cases "st_history t \<noteq> [] \<and> timestamp < ev_timestamp (last (st_history t))")
  case False
  have "ev_timestamp e \<le> timestamp" if e: "e \<in> set (st_history t)" for e
  proof -
    obtain h l where h: "st_history t = h @ [l]" using e by (cases "st_history t" rule: rev_cases) auto
    with assms e have "ev_timestamp e \<le> ev_timestamp l" by (auto simp: sorted_append)
    with False h show ?thesis by simp
  qed
  then have s: "sorted (map ev_timestamp (st_history t @ [\<lparr>ev_delta = delta, ev_timestamp = timestamp\<rparr>]))"
    using assms by (auto simp: sorted_append)
  have push: "st_history (tracker_push delta timestamp t) =
      trim_history_loop timestamp (st_history t @ [\<lparr>ev_delta = delta, ev_timestamp = timestamp\<rparr>])"
    using False by (auto simp: tracker_push_def trim_history_def)
  show ?thesis unfolding push trim_filter [OF s] by (rule sorted_filter [OF s])
qed (use assms in \<open>simp add: tracker_push_def\<close>)

text \<open>The bounds of a gesture are indices of workspaces.\<close>

lemma min_max_ok:
  assumes "ge_center_idx g < n"
  shows "returns (min_max n g) (\<lambda>(lo, hi). 0 \<le> lo \<and> lo \<le> hi \<and> hi \<le> real (n - 1) \<and> lo \<in> \<nat> \<and> hi \<in> \<nat>)"
  using assms by (auto simp: min_max_def)

lemma band_clamp_ok: "lo \<le> hi \<Longrightarrow> returns (band_clamp rb lo hi x) (\<lambda>_. True)"
  by (simp add: band_clamp_def f64_clamp_def)

lemma gesture_update_keeps:
  assumes inv: "monitor_inv parent m"
  shows "returns (workspace_switch_gesture_update zoom height delta ts touchpad m) (\<lambda>(m', _). mo_keeps parent m m')"
proof (cases "mo_workspace_switch m")
  case (Some s)
  show ?thesis
  proof (cases s)
    case (SwitchGesture g)
    note g = gesture_invD [OF inv Some [unfolded SwitchGesture]]
    have push: "sorted (map ev_timestamp (st_history (tracker_push d ts (ge_tracker g))))" for d
      by (rule tracker_push_sorted [OF g(2)])
    have mm: "returns (min_max (length (mo_workspaces m)) (g\<lparr>ge_tracker := t\<rparr>)) (\<lambda>(lo, hi). lo \<le> hi)" for t
      by (rule returns_mono [OF min_max_ok]) (use g(1) in auto)
    have keep: "mo_keeps parent m (m\<lparr>mo_workspace_switch := Some (SwitchGesture (g\<lparr>ge_tracker := tracker_push d ts (ge_tracker g)\<rparr>))\<rparr>)"
      "mo_keeps parent m (m\<lparr>mo_workspace_switch := Some (SwitchGesture (g\<lparr>ge_tracker := tracker_push d ts (ge_tracker g), ge_current_idx := c\<rparr>))\<rparr>)"
      for d c by (rule gesture_set_keeps [OF inv]; use g(1) push in simp)+
    show ?thesis using mo_keeps_refl [OF inv] keep
      by (auto simp: workspace_switch_gesture_update_def Some SwitchGesture Let_def
          intro!: returns_mono [OF mm] returns_mono [OF band_clamp_ok])
  qed (use Some inv in \<open>simp add: workspace_switch_gesture_update_def mo_keeps_refl\<close>)
qed (use inv in \<open>simp add: workspace_switch_gesture_update_def mo_keeps_refl\<close>)

lemma dnd_scroll_keeps:
  assumes inv: "monitor_inv parent m"
  shows "returns (dnd_scroll_gesture_scroll now delay speed delta m) (\<lambda>(m', _). mo_keeps parent m m')"
proof (cases "mo_workspace_switch m")
  case (Some s)
  show ?thesis
  proof (cases s)
    case (SwitchGesture g)
    note g = gesture_invD [OF inv Some [unfolded SwitchGesture]]
    have keep: "mo_keeps parent m (m\<lparr>mo_workspace_switch := Some (SwitchGesture h)\<rparr>)"
      if "ge_center_idx h = ge_center_idx g" "ge_tracker h = ge_tracker g \<or> (\<exists>d. ge_tracker h = tracker_push d now (ge_tracker g))" for h
      by (rule gesture_set_keeps [OF inv]) (use that g tracker_push_sorted [OF g(2)] in auto)
    have mm: "returns (min_max (length (mo_workspaces m)) h) (\<lambda>(lo, hi). lo \<le> hi)" if "ge_center_idx h = ge_center_idx g" for h
      by (rule returns_mono [OF min_max_ok]) (use g(1) that in auto)
    show ?thesis using mo_keeps_refl [OF inv]
      by (auto simp: dnd_scroll_gesture_scroll_def Some SwitchGesture Let_def split: option.split
          intro!: returns_mono [OF mm] returns_mono [OF f64_clamp_ok] keep)
  qed (use Some inv in \<open>simp add: dnd_scroll_gesture_scroll_def mo_keeps_refl\<close>)
qed (use inv in \<open>simp add: dnd_scroll_gesture_scroll_def mo_keeps_refl\<close>)

text \<open>Rounding a position between two indices gives an index between them.\<close>

lemma round_between:
  assumes "0 \<le> x" "x \<le> real n"
  shows "nat (round_half_away x) \<le> n" "\<bar>real (nat (round_half_away x)) - x\<bar> \<le> 1 / 2"
proof -
  have r: "round_half_away x = \<lfloor>x + 1 / 2\<rfloor>" using assms(1) by (simp add: round_half_away_def)
  have "\<lfloor>x + 1 / 2\<rfloor> \<le> int n" using assms(2) by linarith
  then show "nat (round_half_away x) \<le> n" by (simp add: r)
  have "0 \<le> \<lfloor>x + 1 / 2\<rfloor>" using assms(1) by simp
  then have "real (nat (round_half_away x)) = of_int \<lfloor>x + 1 / 2\<rfloor>" by (simp add: r)
  then show "\<bar>real (nat (round_half_away x)) - x\<bar> \<le> 1 / 2" by linarith
qed

lemma gesture_end_ok:
  assumes inv: "monitor_inv parent m" and g: "mo_workspace_switch m = Some (SwitchGesture g)"
    and touchpad: "is_touchpad = None \<or> is_touchpad = Some (ge_is_touchpad g)"
  shows "returns (workspace_switch_gesture_end height now is_touchpad m) (\<lambda>(m', ended). ended \<and> mo_keeps parent m m' \<and>
    (\<exists>idx. activated idx m m' \<and> idx < length (mo_workspaces m) \<and>
      mo_workspace_switch m' = Some (SwitchAnimation (ge_current_idx g) (real idx)) \<and>
      (ge_is_clamped g \<longrightarrow> ge_center_idx g - 1 \<le> idx \<and> idx \<le> ge_center_idx g + 1)))"
proof -
  note G = gesture_invD [OF inv g]
  define t where "t = tracker_push 0 now (ge_tracker g)"
  obtain end_pos where e: "projected_end_pos t = Inr end_pos"
    using velocity_ok [of t] tracker_push_sorted [OF G(2)] by (auto simp: projected_end_pos_def t_def)
  define total where "total = (if ge_dnd_last_event_time g \<noteq> None then WORKSPACE_DND_EDGE_SCROLL_MOVEMENT
    else if ge_is_touchpad g then WORKSPACE_GESTURE_MOVEMENT else height)"
  obtain lo hi where mm: "min_max (length (mo_workspaces m)) g = Inr (lo, hi)" and b: "0 \<le> lo" "lo \<le> hi" "hi \<le> real (length (mo_workspaces m) - 1)"
    using min_max_ok [OF G(1)] by (auto simp: returns_def)
  obtain x where x: "f64_clamp lo hi (ge_start_idx g + end_pos / total) = Inr x" "lo \<le> x" "x \<le> hi"
    using f64_clamp_ok [OF b(2)] unfolding returns_def by blast
  define idx where "idx = nat (round_half_away x)"
  have idx: "idx < length (mo_workspaces m)" unfolding idx_def
    by (rule le_last [OF monitor_invD(6) [OF inv] round_between(1)]) (use x b in auto)
  have clamped: "ge_center_idx g - 1 \<le> idx \<and> idx \<le> ge_center_idx g + 1" if "ge_is_clamped g"
  proof -
    have lohi: "lo = real (ge_center_idx g - 1)" "hi \<le> real (ge_center_idx g + 1)"
      using mm that G(1) by (auto simp: min_max_def)
    have "0 \<le> x" "x \<le> real (ge_center_idx g + 1)" using x b lohi by linarith+
    note r = round_between [OF this]
    have "real (ge_center_idx g - 1) - 1 / 2 \<le> real idx" using r(2) x lohi unfolding idx_def by linarith
    then have "ge_center_idx g - 1 \<le> idx" by linarith
    with r(1) show ?thesis by (simp add: idx_def)
  qed
  define m' where "m' = m\<lparr>mo_previous_workspace_id := (if mo_active_workspace_idx m \<noteq> idx
      then Some (ws_id (mo_workspaces m ! mo_active_workspace_idx m)) else mo_previous_workspace_id m),
    mo_active_workspace_idx := idx, mo_workspace_switch := Some (SwitchAnimation (ge_current_idx g) (real idx))\<rparr>"
  have run: "workspace_switch_gesture_end height now is_touchpad m = Inr (m', True)"
  proof -
    have tp: "(case is_touchpad of Some x \<Rightarrow> ge_is_touchpad g \<noteq> x | None \<Rightarrow> False) = False" using touchpad by auto
    show ?thesis unfolding workspace_switch_gesture_end_def g option.case workspace_switch.case tp if_False Let_def
        t_def [symmetric] total_def [symmetric] e bind_res.simps mm prod.case x(1) idx_def [symmetric]
      by (simp add: m'_def mo_active_eq(1) [OF inv])
  qed
  have act: "activated idx m m'" by (auto simp: activated_def m'_def)
  have sw: "switch_inv m'" by (simp add: switch_inv_def m'_def)
  have "monitor_inv parent m'"
    using activated_semi_inv(1,2) [OF monitor_invD(2) [OF inv] act sw idx] monitor_invD(3) [OF inv] by (simp add: monitor_inv_iff)
  moreover have "mo_workspace_switch m' = Some (SwitchAnimation (ge_current_idx g) (real idx))" "mo_windows m' = mo_windows m"
    by (simp_all add: m'_def)
  ultimately show ?thesis unfolding run returns_Inr prod.case mo_keeps_def using act idx clamped by blast
qed

lemma gesture_end_keeps:
  assumes inv: "monitor_inv parent m"
  shows "returns (workspace_switch_gesture_end height now is_touchpad m) (\<lambda>(m', _). mo_keeps parent m m')"
    "returns (dnd_scroll_gesture_end height now m) (mo_keeps parent m)"
proof -
  show end_keeps: "returns (workspace_switch_gesture_end height now touchpad m) (\<lambda>(m', _). mo_keeps parent m m')" for touchpad
  proof (cases "\<exists>g. mo_workspace_switch m = Some (SwitchGesture g) \<and> (touchpad = None \<or> touchpad = Some (ge_is_touchpad g))")
    case True
    then obtain g where "mo_workspace_switch m = Some (SwitchGesture g)" "touchpad = None \<or> touchpad = Some (ge_is_touchpad g)" by blast
    from gesture_end_ok [OF inv this] show ?thesis by (rule returns_mono) auto
  next
    case False
    then show ?thesis using mo_keeps_refl [OF inv]
      by (auto simp: workspace_switch_gesture_end_def split: option.split workspace_switch.split)
  qed
  then show "returns (dnd_scroll_gesture_end height now m) (mo_keeps parent m)"
    using mo_keeps_refl [OF inv] end_keeps [of None] by (auto simp: dnd_scroll_gesture_end_def elim!: returns_mono)
qed

subsection \<open>Animations\<close>

lemma mo_advance_animations_keeps:
  assumes inv: "monitor_inv parent m"
  shows "returns (mo_advance_animations fin now m) (mo_keeps parent m)"
proof (cases "mo_workspace_switch m")
  case (Some s)
  show ?thesis
  proof (cases s)
    case (SwitchAnimation x y)
    have "untidy_inv parent (m\<lparr>mo_workspace_switch := None\<rparr>)"
      using monitor_invD(1) [OF inv] by (simp add: untidy_inv_def switch_inv_def)
    from clean_up_workspaces_ok [OF this]
    have "returns (clean_up_workspaces (m\<lparr>mo_workspace_switch := None\<rparr>)) (mo_keeps parent m)"
      by (rule returns_mono) (use cleaned_up_workspaces_inv(2) [of parent "m\<lparr>mo_workspace_switch := None\<rparr>"] monitor_invD(4) [OF inv]
          in \<open>simp_all add: mo_keeps_def\<close>)
    then show ?thesis using mo_keeps_refl [OF inv] by (simp add: mo_advance_animations_def Some SwitchAnimation)
  next
    case (SwitchGesture g)
    note g = gesture_invD [OF inv Some [unfolded SwitchGesture]]
    have "mo_keeps parent m (m\<lparr>mo_workspace_switch := Some (SwitchGesture (g\<lparr>ge_dnd_last_event_time := Some now,
        ge_dnd_nonzero_start_time := None\<rparr>))\<rparr>)"
      by (rule gesture_set_keeps [OF inv]) (use g in simp_all)
    then show ?thesis using mo_keeps_refl [OF inv]
      by (simp add: mo_advance_animations_def Some SwitchGesture split: option.split)
  qed
qed (use inv in \<open>simp add: mo_advance_animations_def mo_keeps_refl\<close>)

end
