(* ===== verification/Monitor_Whole.thy ===== *)
theory Monitor_Whole
  imports Monitor_Switch
begin

text \<open>
  The operations on whole workspaces: taking one out, putting one in, reordering them, and changes of
  the configuration and of the output. Most of them end by cleaning up, so in the middle only the
  edges of the list have to be right.
\<close>

subsection \<open>Lists of workspaces up to order\<close>

text \<open>A workspace from elsewhere, with the windows and the identifier of its own.\<close>

definition foreign :: "'w parent_of \<Rightarrow> 'w lworkspace list \<Rightarrow> 'w monitor \<Rightarrow> bool" where
  "foreign parent wss m \<longleftrightarrow> list_all (workspace_inv parent) wss \<and> distinct (map ws_id wss) \<and>
     list_all (\<lambda>ws. ws_id ws < mo_next_id m) wss \<and> ws_id ` set wss \<inter> ws_id ` set (mo_workspaces m) = {} \<and>
     mset_distinct (mo_windows m + wss_windows wss)"

lemma wss_windows_mset: "mset xs = mset ys \<Longrightarrow> wss_windows xs = wss_windows ys"
  unfolding wss_windows_def sum_mset_sum_list [symmetric] by simp

lemma workspaces_inv_join:
  assumes inv: "workspaces_inv parent m" and new: "foreign parent wss m"
    and wss': "mset (mo_workspaces m') = mset (mo_workspaces m) + mset wss" and id': "mo_next_id m \<le> mo_next_id m'"
  shows "workspaces_inv parent m'" "mo_windows m' = mo_windows m + wss_windows wss"
proof -
  define m0 where "m0 = m\<lparr>mo_workspaces := mo_workspaces m @ wss\<rparr>"
  have "workspaces_inv parent m0" using inv new by (auto simp: workspaces_inv_def foreign_def m0_def)
  from workspaces_inv_perm [OF this, of m'] wss' id'
  show "workspaces_inv parent m'" "mo_windows m' = mo_windows m + wss_windows wss" by (simp_all add: m0_def)
qed

text \<open>Mapping over the workspaces an operation that keeps each of them.\<close>

lemma used_keeps: "ws_keeps parent ws ws' \<Longrightarrow> used ws' = used ws"
  by (simp add: ws_keeps_def ws_same_id_def used_iff)

lemma map_keeps:
  assumes k: "\<And>ws. workspace_inv parent ws \<Longrightarrow> ws_keeps parent ws (f ws)" and wss: "list_all (workspace_inv parent) wss"
  shows "map ws_id (map f wss) = map ws_id wss" "wss_windows (map f wss) = wss_windows wss"
    "list_all (workspace_inv parent) (map f wss)" "map used (map f wss) = map used wss"
proof -
  have all: "ws_keeps parent ws (f ws)" if "ws \<in> set wss" for ws using k wss that by (simp add: list_all_iff)
  show "map ws_id (map f wss) = map ws_id wss" "map used (map f wss) = map used wss"
    "list_all (workspace_inv parent) (map f wss)"
    using all by (auto simp: list_all_iff ws_keeps_def ws_same_id_def used_iff)
  show "wss_windows (map f wss) = wss_windows wss" using all by (induction wss) (auto simp: ws_keeps_def)
qed

lemma map_keeps_workspaces_inv:
  assumes k: "\<And>ws. workspace_inv parent ws \<Longrightarrow> ws_keeps parent ws (f ws)" and inv: "workspaces_inv parent m"
    and m': "mo_workspaces m' = map f (mo_workspaces m)" "mo_next_id m' = mo_next_id m"
  shows "workspaces_inv parent m'" "mo_windows m' = mo_windows m"
proof -
  have "list_all (workspace_inv parent) (mo_workspaces m)" using inv by (simp add: workspaces_inv_def)
  note M = map_keeps [where f = f, OF k this]
  have "list_all (\<lambda>ws. ws_id ws < mo_next_id m) wss \<longleftrightarrow> list_all (\<lambda>i. i < mo_next_id m) (map ws_id wss)" for wss :: "'a lworkspace list"
    by (simp add: list_all_iff)
  then show "workspaces_inv parent m'" "mo_windows m' = mo_windows m"
    using inv M by (simp_all only: workspaces_inv_def m')
qed

lemma map_used_shape:
  assumes "map used xs = map used ys"
  shows "edges_ok b xs = edges_ok b ys" "tidy b a xs = tidy b a ys"
proof -
  have len: "length xs = length ys" using assms by (metis length_map)
  have nth: "used (xs ! i) = used (ys ! i)" if "i < length ys" for i
    using assms len that by (metis nth_map)
  show "edges_ok b xs = edges_ok b ys"
    using len nth [of "length ys - 1"] nth [of 0] by (cases "ys = []") (auto simp: edges_ok_nth)
  show "tidy b a xs = tidy b a ys" using len nth by (auto simp: tidy_def)
qed

subsection \<open>Ending with a clean-up\<close>

lemma finish_ok:
  assumes inv: "workspaces_inv parent m" and a: "mo_active_workspace_idx m < length (mo_workspaces m)"
    and e: "edges_ok (above_first m) (mo_workspaces m)" and o': "options_ok m"
    and s: "mo_workspace_switch m = None"
  shows "returns (clean_up_workspaces m) (\<lambda>m'. monitor_inv parent m' \<and> mo_windows m' = mo_windows m \<and> cleaned_up m m')"
proof -
  have "untidy_inv parent m" using assms by (simp add: untidy_inv_def switch_inv_def)
  from clean_up_workspaces_ok [OF this s] show ?thesis
    by (rule returns_mono) (use cleaned_up_workspaces_inv(2) [OF inv] in auto)
qed

lemma mo_unname_workspace_keeps:
  assumes inv: "monitor_inv parent m"
  shows "returns (mo_unname_workspace wid m) (\<lambda>(m', _). mo_keeps parent m m')"
proof (cases "position (\<lambda>ws. ws_id ws = wid) (mo_workspaces m)")
  case None
  then show ?thesis using inv by (simp add: mo_unname_workspace_def mo_keeps_refl)
next
  case (Some i)
  then have i: "i < length (mo_workspaces m)" using position_Some [OF Some] by simp
  let ?ws = "ws_unname (mo_workspaces m ! i)"
  define m1 where "m1 = store_workspace i ?ws m"
  have ws: "workspace_inv parent ?ws" "ws_id ?ws = ws_id (mo_workspaces m ! i)" "used ?ws \<longrightarrow> used (mo_workspaces m ! i)"
    "ws_windows (mo_workspaces m ! i) = ws_windows ?ws + {#}"
    using workspaces_invD [OF monitor_invD(4) [OF inv] i] by (simp_all add: used_iff)
  note st = store_unused(1,2) [OF monitor_invD(2) [OF inv] i ws, folded m1_def]
  have "returns (clean_up_if_idle m1) (mo_keeps parent m)"
  proof (rule returns_mono [OF clean_up_if_idle_ok [OF st(1)]])
    fix m' assume m': "monitor_inv parent m' \<and> (m' = m1 \<or> cleaned_up m1 m')"
    then have "mo_windows m' = mo_windows m1" using cleaned_up_workspaces_inv(2) [OF semi_invD(2) [OF st(1)]] by blast
    with m' st(2) show "mo_keeps parent m m'" by (simp add: mo_keeps_def)
  qed
  then show ?thesis using Some i by (simp add: mo_unname_workspace_def m1_def store_workspace_def vec_simps)
qed

subsection \<open>Taking a workspace out and putting one in\<close>

text \<open>Removing one element of a list that has been extended at its edges.\<close>

lemma remove_extended:
  assumes i: "i < length wss"
  shows "take (length tops + i) (tops @ wss @ bots) @ drop (Suc (length tops + i)) (tops @ wss @ bots) =
      (tops @ take i wss) @ (drop (Suc i) wss @ bots)"
    "(tops @ wss @ bots) ! (length tops + i) = wss ! i"
  using i by (simp_all add: nth_append)

lemma edges_after_remove:
  assumes e: "edges_ok b wss" and i: "i < length wss" and t: "length tops = (if b \<and> i = 0 then 1 else 0)"
    and bt: "length bots = (if i = length wss - 1 then 1 else 0)" and unused: "\<forall>ws \<in> set tops \<union> set bots. \<not> used ws"
  shows "edges_ok b ((tops @ take i wss) @ (drop (Suc i) wss @ bots))"
proof -
  have last: "drop (Suc i) wss @ bots \<noteq> [] \<and> \<not> used (last (drop (Suc i) wss @ bots))"
  proof (cases "i = length wss - 1")
    case True
    then have "bots \<noteq> []" using bt by auto
    with unused show ?thesis by simp
  next
    case False
    then have "bots = []" "drop (Suc i) wss \<noteq> []" using bt i by simp_all
    with e show ?thesis by (simp add: edges_ok_def)
  qed
  have "\<not> used (hd ((tops @ take i wss) @ drop (Suc i) wss @ bots))" if b
  proof (cases "i = 0")
    case True
    with t that have "tops \<noteq> []" by auto
    with unused show ?thesis by (cases tops) auto
  next
    case False
    then have "tops = []" "take i wss \<noteq> []" "hd (take i wss) = hd wss" using t i by auto
    with e that show ?thesis by (simp add: edges_ok_def)
  qed
  with last show ?thesis by (simp add: edges_ok_def)
qed

lemma remove_workspace_by_idx_ok:
  assumes inv: "monitor_inv parent m" and idx: "idx < length (mo_workspaces m)"
  shows "returns (remove_workspace_by_idx idx m) (\<lambda>(ws, m'). monitor_inv parent m' \<and>
    ws_keeps parent (mo_workspaces m ! idx) ws \<and> mo_windows m = ws_windows ws + mo_windows m')"
  unfolding remove_workspace_by_idx_def returns_bind [of "add_edges idx m"]
proof (rule returns_mono [OF add_edges_ok [OF monitor_invD(4,7,5) [OF inv]]])
  fix r assume "case r of (j, m1) \<Rightarrow> \<exists>tops bots. extended parent tops bots m m1 \<and> j = length tops + idx \<and>
      length tops = (if above_first m \<and> idx = 0 then 1 else 0) \<and> length bots = (if idx = length (mo_workspaces m) - 1 then 1 else 0)"
  then obtain m1 tops bots where r: "r = (length tops + idx, m1)" and e: "extended parent tops bots m m1"
    and t: "length tops = (if above_first m \<and> idx = 0 then 1 else 0)"
    and b: "length bots = (if idx = length (mo_workspaces m) - 1 then 1 else 0)" by (cases r) auto
  let ?wss = "mo_workspaces m" and ?ws = "mo_workspaces m ! idx"
  have E: "mo_workspaces m1 = tops @ ?wss @ bots" "\<forall>ws \<in> set tops \<union> set bots. \<not> used ws"
    "mo_active_workspace_idx m1 = length tops + mo_active_workspace_idx m" "same_conf m m1" "workspaces_inv parent m1"
    "mo_windows m1 = mo_windows m"
    using e unfolding extended_def by blast+
  define wss where "wss = (tops @ take idx ?wss) @ (drop (Suc idx) ?wss @ bots)"
  define a where "a = mo_active_workspace_idx m1"
  define m2 where "m2 = m1\<lparr>mo_workspaces := wss, mo_active_workspace_idx := (if length tops + idx \<le> a \<and> a > 0 then a - 1 else a),
    mo_workspace_switch := None\<rparr>"
  have perm: "mset (mo_workspaces m1) = mset (?ws # wss)"
    using arg_cong [OF id_take_nth_drop [OF idx], of mset] by (simp add: E(1) wss_def)
  have "workspaces_inv parent (m1\<lparr>mo_workspaces := ?ws # wss\<rparr>)" "mo_windows m = ws_windows ?ws + wss_windows wss"
    using workspaces_inv_perm [OF E(5), of "m1\<lparr>mo_workspaces := ?ws # wss\<rparr>"] perm E(6) by simp_all
  then have wi: "workspaces_inv parent m2" and win: "mo_windows m = ws_windows ?ws + mo_windows m2"
    by (auto simp: workspaces_inv_def m2_def dest: mset_distinct_sub)
  have conf: "above_first m2 = above_first m" "options_ok m2"
    using E(4) monitor_invD(1) [OF inv] by (simp_all add: m2_def same_conf_def options_ok_def untidy_inv_def)
  have "edges_ok (above_first m2) (mo_workspaces m2)" unfolding conf
    using edges_after_remove [OF monitor_invD(9) [OF inv] idx t b E(2)] by (simp add: m2_def wss_def)
  moreover have "mo_active_workspace_idx m2 < length (mo_workspaces m2)"
  proof -
    have "length wss + 1 = length tops + length ?wss + length bots" using idx by (simp add: wss_def)
    moreover have "a < length tops + length ?wss" using E(3) monitor_invD(5) [OF inv] by (simp add: a_def)
    moreover have "length tops + idx < length tops + length ?wss" "0 < length wss" using idx t b by (auto simp: wss_def split: if_splits)
    ultimately have "(if length tops + idx \<le> a \<and> a > 0 then a - 1 else a) < length wss" by (auto split: if_splits)
    then show ?thesis by (simp add: m2_def)
  qed
  ultimately have fin: "returns (clean_up_workspaces m2) (\<lambda>m'. monitor_inv parent m' \<and> mo_windows m' = mo_windows m2 \<and> cleaned_up m2 m')"
    using wi conf(2) by (intro finish_ok) (simp_all add: m2_def)
  have ws: "ws_keeps parent ?ws (ws_set_output None ?ws)"
    by (rule ws_set_output_keeps [OF workspaces_invD [OF monitor_invD(4) [OF inv] idx]])
  have "vec_remove (length tops + idx) (mo_workspaces m1) = Inr (?ws, wss)"
    using idx by (simp add: E(1) wss_def vec_simps nth_append)
  moreover have "returns (bind_res (clean_up_workspaces m2) (\<lambda>m. Inr (ws_set_output None ?ws, m))) (\<lambda>(ws, m'). monitor_inv parent m' \<and>
      ws_keeps parent ?ws ws \<and> mo_windows m = ws_windows ws + mo_windows m')"
    unfolding returns_bind returns_Inr prod.case
    by (rule returns_mono [OF fin]) (use ws win in \<open>simp add: ws_keeps_def\<close>)
  ultimately show "returns (case r of (idx, m) \<Rightarrow> bind_res (vec_remove idx (mo_workspaces m)) (\<lambda>(ws, workspaces).
     let m = m\<lparr>mo_workspaces := workspaces,
               mo_active_workspace_idx :=
                 (if idx \<le> mo_active_workspace_idx m \<and> mo_active_workspace_idx m > 0
                  then mo_active_workspace_idx m - 1 else mo_active_workspace_idx m),
               mo_workspace_switch := None\<rparr>
     in bind_res (clean_up_workspaces m) (\<lambda>m. Inr (ws_set_output None ws, m))))
     (\<lambda>(ws, m'). monitor_inv parent m' \<and> ws_keeps parent ?ws ws \<and> mo_windows m = ws_windows ws + mo_windows m')"
    unfolding r prod.case Let_def m2_def a_def by (simp only: bind_res.simps prod.case)
qed

lemma adopt_keeps: "workspace_inv parent ws \<Longrightarrow> ws_keeps parent ws (adopt m ws)"
  unfolding adopt_def
  by (rule ws_keeps_trans [OF ws_set_output_keeps ws_update_config_keeps [OF ws_keeps_inv [OF ws_set_output_keeps]]])

lemma adopt_foreign:
  assumes "foreign parent wss m"
  shows "foreign parent (map (adopt m') wss) m" "wss_windows (map (adopt m') wss) = wss_windows wss"
proof -
  have "list_all (workspace_inv parent) wss" using assms by (simp add: foreign_def)
  note M = map_keeps [where f = "adopt m'", OF adopt_keeps this]
  have "ws_id ` set (map (adopt m') wss) = ws_id ` set wss" using M(1) by (metis set_map)
  moreover have "list_all (\<lambda>ws. ws_id ws < mo_next_id m) wss \<longleftrightarrow> list_all (\<lambda>i. i < mo_next_id m) (map ws_id wss)" for wss :: "'a lworkspace list"
    by (simp add: list_all_iff)
  ultimately show "foreign parent (map (adopt m') wss) m" using assms M by (simp only: foreign_def)
  show "wss_windows (map (adopt m') wss) = wss_windows wss" by (rule M(2))
qed

lemma foreign_extended:
  assumes f: "foreign parent wss m" and e: "extended parent tops bots m m'"
  shows "foreign parent wss m'"
proof -
  have E: "mo_workspaces m' = tops @ mo_workspaces m @ bots" "mo_windows m' = mo_windows m" "mo_next_id m \<le> mo_next_id m'"
    "\<forall>ws \<in> set tops \<union> set bots. mo_next_id m \<le> ws_id ws"
    using e unfolding extended_def by blast+
  have lt: "ws_id ws < mo_next_id m" if "ws \<in> set wss" for ws using f that by (simp add: foreign_def list_all_iff)
  have "ws_id ws \<noteq> ws_id x" if "ws \<in> set wss" "x \<in> set tops \<union> set bots" for ws x
    using lt [OF that(1)] bspec [OF E(4) that(2)] by linarith
  then have "ws_id ` set wss \<inter> ws_id ` set (mo_workspaces m') = {}" using f unfolding E(1) foreign_def by auto
  moreover have "list_all (\<lambda>ws. ws_id ws < mo_next_id m') wss" using less_le_trans [OF lt E(3)] by (simp add: list_all_iff)
  ultimately show ?thesis using f E(2) unfolding foreign_def by presburger
qed

lemma insert_edges:
  assumes "edges_ok b wss" "i \<le> length wss - 1" "b \<longrightarrow> 0 < i"
  shows "edges_ok b (take i wss @ ws # drop i wss)"
proof -
  have "drop i wss \<noteq> []" using assms by (cases wss) (auto simp: edges_ok_def)
  moreover have "hd (take i wss @ ws # drop i wss) = hd wss" if "0 < i" using assms that
    by (cases wss; cases i) (auto simp: edges_ok_def)
  ultimately show ?thesis using assms by (auto simp: edges_ok_def)
qed

lemma add_top_ok:
  assumes "workspaces_inv parent m" "switch_inv m"
  shows "returns (add_workspace_top m) (\<lambda>m1. \<exists>tops. extended parent tops [] m m1 \<and> length tops = 1)"
  by (rule returns_mono [OF add_workspace_top_ok [OF assms]]) (metis One_nat_def length_Cons list.size(3))

lemma insert_workspace_ok:
  assumes inv: "monitor_inv parent m" and new: "foreign parent [ws] m" and idx: "idx \<le> length (mo_workspaces m)"
  shows "returns (insert_workspace env ws idx activate m) (\<lambda>m'. monitor_inv parent m' \<and> mo_windows m' = mo_windows m + ws_windows ws)"
proof -
  define ws' where "ws' = adopt m ws"
  define i where "i = (if idx = length (mo_workspaces m) then length (mo_workspaces m) - 1 else idx)"
  have i: "i \<le> length (mo_workspaces m) - 1" using idx by (auto simp: i_def)
  have run1: "(if idx = length (mo_workspaces m) then bind_res (last_idx (mo_workspaces m)) Inr else Inr idx) = Inr i"
    using monitor_invD(6) [OF inv] by (simp add: i_def vec_simps)
  define top where "top = (if i = 0 \<and> above_first m then bind_res (add_workspace_top m) (\<lambda>m. Inr (i + 1, m)) else Inr (i, m))"
  define fin where "fin = (\<lambda>(idx, m). bind_res (vec_insert idx ws' (mo_workspaces m)) (\<lambda>workspaces.
         let m = m\<lparr>mo_workspaces := workspaces,
                   mo_active_workspace_idx :=
                     (if idx \<le> mo_active_workspace_idx m then mo_active_workspace_idx m + 1
                      else mo_active_workspace_idx m)\<rparr>
         in bind_res (if activate then activate_workspace env idx (m\<lparr>mo_workspace_switch := None\<rparr>) else Inr m) (\<lambda>m.
            clean_up_workspaces (m\<lparr>mo_workspace_switch := None\<rparr>))))"
  have run: "insert_workspace env ws idx activate m = bind_res top fin"
    unfolding insert_workspace_def Let_def run1 bind_res.simps top_def fin_def ws'_def ..
  have top: "returns top (\<lambda>(j, m1). \<exists>tops. extended parent tops [] m m1 \<and> j = length tops + i \<and>
      length tops = (if above_first m \<and> i = 0 then 1 else 0))"
    using add_top_ok [OF monitor_invD(4,7) [OF inv]] extended_refl [OF monitor_invD(4,7) [OF inv]]
    by (auto simp: top_def elim!: returns_mono)
  have "returns (fin (j, m1)) (\<lambda>m'. monitor_inv parent m' \<and> mo_windows m' = mo_windows m + ws_windows ws)"
    if e: "extended parent tops [] m m1" and j: "j = length tops + i"
      and t: "length tops = (if above_first m \<and> i = 0 then 1 else 0)" for j m1 tops
  proof -
    have E: "mo_workspaces m1 = tops @ mo_workspaces m @ []" "\<forall>ws \<in> set tops \<union> set []. \<not> used ws"
      "mo_active_workspace_idx m1 = length tops + mo_active_workspace_idx m" "same_conf m m1" "workspaces_inv parent m1"
      "mo_windows m1 = mo_windows m" using e unfolding extended_def by blast+
    have f: "foreign parent [ws'] m1" "ws_windows ws' = ws_windows ws"
      using adopt_foreign [OF foreign_extended [OF new e], of m] by (simp_all add: ws'_def)
    have jle: "j \<le> length (mo_workspaces m1) - 1" using i j E(1) monitor_invD(6) [OF inv] by (cases "mo_workspaces m") auto
    have len: "j < length (mo_workspaces m1)" by (rule le_last [OF _ jle]) (use E(1) monitor_invD(6) [OF inv] in auto)
    define m2 where "m2 = m1\<lparr>mo_workspaces := take j (mo_workspaces m1) @ ws' # drop j (mo_workspaces m1),
      mo_active_workspace_idx := (if j \<le> mo_active_workspace_idx m1 then mo_active_workspace_idx m1 + 1 else mo_active_workspace_idx m1)\<rparr>"
    have "mset (take j (mo_workspaces m1) @ ws' # drop j (mo_workspaces m1)) = mset (mo_workspaces m1) + mset [ws']"
      using insert_mset [of j "mo_workspaces m1" ws'] len by simp
    with workspaces_inv_join [OF E(5) f(1), of m2] have wi: "workspaces_inv parent m2" "mo_windows m2 = mo_windows m + ws_windows ws"
      using E(6) f(2) by (simp_all add: m2_def)
    have conf: "above_first m2 = above_first m" "options_ok m2"
      using E(4) monitor_invD(1) [OF inv] by (simp_all add: m2_def same_conf_def options_ok_def untidy_inv_def)
    have "edges_ok (above_first m) (mo_workspaces m1)"
      using monitor_invD(9) [OF inv] E(1,2) by (cases tops) (auto simp: edges_ok_def)
    then have "edges_ok (above_first m) (take j (mo_workspaces m1) @ ws' # drop j (mo_workspaces m1))"
      by (rule insert_edges [OF _ jle]) (use t j in auto)
    then have edges: "edges_ok (above_first m2) (mo_workspaces m2)" unfolding conf by (simp add: m2_def)
    have len2: "length (mo_workspaces m2) = length (mo_workspaces m1) + 1" using len by (simp add: m2_def)
    have "mo_active_workspace_idx m1 < length (mo_workspaces m1)" using E(1,3) monitor_invD(5) [OF inv] by simp
    then have a: "mo_active_workspace_idx m2 < length (mo_workspaces m2)" unfolding len2 by (simp add: m2_def)
    have j2: "j < length (mo_workspaces m2)" using len len2 by simp
    have run_fin: "fin (j, m1) = bind_res (if activate then activate_workspace env j (m2\<lparr>mo_workspace_switch := None\<rparr>) else Inr m2) (\<lambda>m.
        clean_up_workspaces (m\<lparr>mo_workspace_switch := None\<rparr>))"
      using len by (simp add: fin_def vec_simps m2_def Let_def)
    have fin': "returns (clean_up_workspaces (m3\<lparr>mo_workspace_switch := None\<rparr>)) (\<lambda>m'. monitor_inv parent m' \<and> mo_windows m' = mo_windows m + ws_windows ws)"
      if "mo_workspaces m3 = mo_workspaces m2" "mo_active_workspace_idx m3 < length (mo_workspaces m2)" "same_conf m2 m3"
        "mo_next_id m3 = mo_next_id m2" for m3
      by (rule returns_mono [OF finish_ok]) (use that wi edges conf a same_conf_options [OF that(3)] in \<open>auto simp: workspaces_inv_def\<close>)
    show ?thesis
    proof (cases activate)
      case True
      have "returns (activate_workspace env j (m2\<lparr>mo_workspace_switch := None\<rparr>)) (\<lambda>m3. returns (clean_up_workspaces
          (m3\<lparr>mo_workspace_switch := None\<rparr>)) (\<lambda>m'. monitor_inv parent m' \<and> mo_windows m' = mo_windows m + ws_windows ws))"
      proof (rule returns_mono [OF activate_workspace_ok])
        fix m3 assume "activated j (m2\<lparr>mo_workspace_switch := None\<rparr>) m3 \<and> switch_inv m3"
        note f = activatedD [OF conjunct1 [OF this]]
        show "returns (clean_up_workspaces (m3\<lparr>mo_workspace_switch := None\<rparr>))
            (\<lambda>m'. monitor_inv parent m' \<and> mo_windows m' = mo_windows m + ws_windows ws)"
          by (rule fin') (use f j2 in \<open>simp_all add: same_conf_def\<close>)
      qed (use a j2 in \<open>auto simp: switch_inv_def\<close>)
      then show ?thesis unfolding run_fin using True by simp
    next
      case False
      then show ?thesis unfolding run_fin using fin' [of m2] a by (simp add: same_conf_def)
    qed
  qed
  then show ?thesis unfolding run returns_bind by (auto intro!: returns_mono [OF top])
qed

lemma append_workspaces_ok:
  assumes inv: "monitor_inv parent m" and new: "foreign parent wss m"
  shows "returns (append_workspaces wss m) (\<lambda>m'. monitor_inv parent m' \<and> mo_windows m' = mo_windows m + wss_windows wss)"
proof (cases "wss = []")
  case True
  then show ?thesis using inv by (simp add: append_workspaces_def)
next
  case False
  let ?l = "length (mo_workspaces m) - 1"
  define new' where "new' = map (adopt m) wss"
  define m1 where "m1 = m\<lparr>mo_workspaces := butlast (mo_workspaces m) @ new' @ [last (mo_workspaces m)]\<rparr>"
  note ne = monitor_invD(6) [OF inv]
  have f: "foreign parent new' m" "wss_windows new' = wss_windows wss" "new' \<noteq> []"
    using adopt_foreign [OF new, of m] False by (simp_all add: new'_def)
  have "mset (mo_workspaces m1) = mset (mo_workspaces m) + mset new'"
    using ne by (cases "mo_workspaces m" rule: rev_cases) (simp_all add: m1_def)
  from workspaces_inv_join [OF monitor_invD(4) [OF inv] f(1) this]
  have wi: "workspaces_inv parent m1" "mo_windows m1 = mo_windows m + wss_windows wss" using f(2) by (simp_all add: m1_def)
  have len: "length (mo_workspaces m) \<le> length (mo_workspaces m1)" using ne by (cases "mo_workspaces m" rule: rev_cases) (simp_all add: m1_def)
  have sw: "switch_inv m1" using monitor_invD(7) [OF inv] len
    by (auto simp: switch_inv_def m1_def split: option.splits workspace_switch.splits)
  have run: "append_workspaces wss m = bind_res (if above_first m1 \<and> used (hd (mo_workspaces m1)) then add_workspace_top m1 else Inr m1) (\<lambda>m2.
      clean_up_workspaces ((if mo_active_workspace_idx m = ?l then m2\<lparr>mo_active_workspace_idx := length (mo_workspaces m2) - 1\<rparr> else m2)
        \<lparr>mo_workspace_switch := None\<rparr>))"
    using False ne by (simp add: append_workspaces_def Let_def vec_simps m1_def new'_def butlast_conv_take last_conv_nth)
  have top: "returns (if above_first m1 \<and> used (hd (mo_workspaces m1)) then add_workspace_top m1 else Inr m1)
      (\<lambda>m2. \<exists>tops. extended parent tops [] m1 m2 \<and> (above_first m \<longrightarrow> \<not> used (hd (tops @ mo_workspaces m1))))"
  proof (cases "above_first m1 \<and> used (hd (mo_workspaces m1))")
    case True
    have "returns (add_workspace_top m1)
      (\<lambda>m2. \<exists>tops. extended parent tops [] m1 m2 \<and> (above_first m \<longrightarrow> \<not> used (hd (tops @ mo_workspaces m1))))"
    proof (rule returns_mono [OF add_workspace_top_ok [OF wi(1) sw]])
      fix m2 assume "\<exists>ws. extended parent [ws] [] m1 m2"
      then obtain ws where "extended parent [ws] [] m1 m2" "\<not> used ws" unfolding extended_def by auto
      then show "\<exists>tops. extended parent tops [] m1 m2 \<and> (above_first m \<longrightarrow> \<not> used (hd (tops @ mo_workspaces m1)))"
        by (intro exI [of _ "[ws]"]) simp
    qed
    with True show ?thesis by simp
  next
    case False
    then have "above_first m \<longrightarrow> \<not> used (hd ([] @ mo_workspaces m1))" by (simp add: m1_def)
    then show ?thesis using False extended_refl [OF wi(1) sw] by (auto intro!: exI [of _ "[]"])
  qed
  show ?thesis unfolding run returns_bind
  proof (rule returns_mono [OF top])
    fix m2 assume "\<exists>tops. extended parent tops [] m1 m2 \<and> (above_first m \<longrightarrow> \<not> used (hd (tops @ mo_workspaces m1)))"
    then obtain tops where e: "extended parent tops [] m1 m2" and hd: "above_first m \<longrightarrow> \<not> used (hd (tops @ mo_workspaces m1))" by blast
    have E: "mo_workspaces m2 = tops @ mo_workspaces m1 @ []" "mo_active_workspace_idx m2 = length tops + mo_active_workspace_idx m1"
      "same_conf m1 m2" "workspaces_inv parent m2" "mo_windows m2 = mo_windows m1" using e unfolding extended_def by blast+
    define m3 where "m3 = (if mo_active_workspace_idx m = ?l then m2\<lparr>mo_active_workspace_idx := length (mo_workspaces m2) - 1\<rparr> else m2)
      \<lparr>mo_workspace_switch := None\<rparr>"
    have m3: "mo_workspaces m3 = mo_workspaces m2" "mo_workspace_switch m3 = None" "same_conf m2 m3" "mo_next_id m3 = mo_next_id m2"
      by (simp_all add: m3_def same_conf_def)
    have conf: "above_first m3 = above_first m" "options_ok m3"
      using m3(3) E(3) monitor_invD(1) [OF inv] by (simp_all add: m1_def same_conf_def options_ok_def untidy_inv_def)
    have "last (mo_workspaces m1) = last (mo_workspaces m)" "mo_workspaces m1 \<noteq> []" by (simp_all add: m1_def)
    then have edges: "edges_ok (above_first m3) (mo_workspaces m3)" unfolding conf m3 E(1)
      using hd monitor_invD(9) [OF inv] by (simp add: edges_ok_def)
    have "mo_active_workspace_idx m1 < length (mo_workspaces m1)" using monitor_invD(5) [OF inv] len by (simp add: m1_def)
    then have act: "mo_active_workspace_idx m3 < length (mo_workspaces m3)" unfolding m3(1) using E(1,2) \<open>mo_workspaces m1 \<noteq> []\<close>
      by (simp add: m3_def)
    have "workspaces_inv parent m3" using E(4) m3 by (simp add: workspaces_inv_def)
    from finish_ok [OF this act edges conf(2) m3(2)]
    have "returns (clean_up_workspaces m3) (\<lambda>m'. monitor_inv parent m' \<and> mo_windows m' = mo_windows m + wss_windows wss)"
      by (rule returns_mono) (use m3(1) E(5) wi(2) in simp)
    then show "returns (clean_up_workspaces ((if mo_active_workspace_idx m = ?l
          then m2\<lparr>mo_active_workspace_idx := length (mo_workspaces m2) - 1\<rparr> else m2)\<lparr>mo_workspace_switch := None\<rparr>))
        (\<lambda>m'. monitor_inv parent m' \<and> mo_windows m' = mo_windows m + wss_windows wss)" by (simp only: m3_def)
  qed
qed

subsection \<open>Reordering\<close>

text \<open>
  The state after the workspaces are reordered and new ones are added where the last, or the first, of
  them is not empty any more; an index \<open>i\<close> of before is now \<open>k + i\<close>.
\<close>

definition reordered :: "'w parent_of \<Rightarrow> 'w monitor \<Rightarrow> nat \<Rightarrow> 'w monitor \<Rightarrow> bool" where
  "reordered parent m k m' \<longleftrightarrow> workspaces_inv parent m' \<and> mo_windows m' = mo_windows m \<and> switch_inv m' \<and>
     edges_ok (above_first m') (mo_workspaces m') \<and> options_ok m' \<and>
     mo_active_workspace_idx m' = k + mo_active_workspace_idx m \<and> k + length (mo_workspaces m) \<le> length (mo_workspaces m')"

lemma reorder_ok:
  assumes inv: "monitor_inv parent m" and perm: "mset wss = mset (mo_workspaces m)"
    and l: "\<not> b \<Longrightarrow> last wss = last (mo_workspaces m)"
    and h: "\<not> t (m\<lparr>mo_workspaces := wss\<rparr>) \<Longrightarrow> hd wss = hd (mo_workspaces m)"
    and t: "\<And>m1 bots. extended parent [] bots (m\<lparr>mo_workspaces := wss\<rparr>) m1 \<Longrightarrow> t m1 = t (m\<lparr>mo_workspaces := wss\<rparr>)"
  shows "returns (bind_res (if b then add_workspace_bottom (m\<lparr>mo_workspaces := wss\<rparr>) else Inr (m\<lparr>mo_workspaces := wss\<rparr>)) (\<lambda>m.
      if above_first m \<and> t m then bind_res (add_workspace_top m) (\<lambda>m. Inr (i + 1, m)) else Inr (i, m)))
    (\<lambda>(i', m'). \<exists>k. i' = k + i \<and> reordered parent m k m')"
proof -
  define m1 where "m1 = m\<lparr>mo_workspaces := wss\<rparr>"
  have len: "length wss = length (mo_workspaces m)" using mset_eq_length [OF perm] .
  have wi: "workspaces_inv parent m1" "mo_windows m1 = mo_windows m"
    using workspaces_inv_perm [OF monitor_invD(4) [OF inv], of m1] perm by (simp_all add: m1_def)
  have sw: "switch_inv m1" using monitor_invD(7) [OF inv] len
    by (auto simp: switch_inv_def m1_def split: option.splits workspace_switch.splits)
  have a: "mo_active_workspace_idx m1 < length (mo_workspaces m1)" using monitor_invD(5) [OF inv] len by (simp add: m1_def)
  have ne: "wss \<noteq> []" using monitor_invD(6) [OF inv] len by auto
  show ?thesis unfolding m1_def [symmetric]
  proof (rule returns_mono [OF add_both_ok [where t = t, OF wi(1) sw a t [folded m1_def]]], assumption)
    fix r assume "case r of (i', m') \<Rightarrow> \<exists>tops bots. extended parent tops bots m1 m' \<and> i' = length tops + i \<and>
        length tops = (if above_first m1 \<and> t m1 then 1 else 0) \<and> length bots = (if b then 1 else 0)"
    then obtain m' tops bots where r: "r = (length tops + i, m')" and e: "extended parent tops bots m1 m'"
      and lt: "length tops = (if above_first m \<and> t m1 then 1 else 0)" and lb: "length bots = (if b then 1 else 0)"
      by (cases r) (auto simp: m1_def)
    have E: "mo_workspaces m' = tops @ mo_workspaces m1 @ bots" "\<forall>ws \<in> set tops \<union> set bots. \<not> used ws"
      "mo_active_workspace_idx m' = length tops + mo_active_workspace_idx m1" "same_conf m1 m'" "workspaces_inv parent m'"
      "switch_inv m'" "mo_windows m' = mo_windows m1"
      using e unfolding extended_def by blast+
    have conf: "above_first m' = above_first m" "options_ok m'"
      using E(4) monitor_invD(1) [OF inv] by (simp_all add: m1_def same_conf_def options_ok_def untidy_inv_def)
    have "\<not> used (last (mo_workspaces m'))"
    proof (cases b)
      case True
      then have "bots \<noteq> []" using lb by auto
      then show ?thesis using E(1,2) by simp
    next
      case False
      then have "bots = []" using lb by simp
      then show ?thesis using E(1) ne l [OF False] monitor_invD(9) [OF inv] by (simp add: edges_ok_def m1_def)
    qed
    moreover have "\<not> used (hd (mo_workspaces m'))" if "above_first m"
    proof (cases "t m1")
      case True
      then have "tops \<noteq> []" using lt that by auto
      then show ?thesis using E(1,2) by (cases tops) auto
    next
      case False
      then have "tops = []" using lt by simp
      then show ?thesis using E(1) ne h [folded m1_def, OF False] monitor_invD(9) [OF inv] that by (simp add: edges_ok_def m1_def)
    qed
    ultimately have "edges_ok (above_first m') (mo_workspaces m')" using E(1) ne conf(1) by (simp add: edges_ok_def m1_def)
    moreover have "mo_windows m' = mo_windows m" using E(7) wi(2) by (rule trans)
    ultimately have "reordered parent m (length tops) m'"
      using E(1,3,5,6) conf(2) len by (simp add: reordered_def m1_def)
    then show "case r of (i', m') \<Rightarrow> \<exists>k. i' = k + i \<and> reordered parent m k m'" by (auto simp: r)
  qed
qed

text \<open>Focusing the workspace that was moved, without changing the previous one, and cleaning up.\<close>

lemma reordered_activate_ok:
  assumes inv: "monitor_inv parent m" and r: "reordered parent m k m'" and i: "i < length (mo_workspaces m)"
  shows "returns (bind_res (keep_previous (activate_workspace env (k + i)) m') clean_up_workspaces) (mo_keeps parent m)"
proof -
  have R: "workspaces_inv parent m'" "mo_windows m' = mo_windows m" "switch_inv m'" "edges_ok (above_first m') (mo_workspaces m')" "options_ok m'"
    "mo_active_workspace_idx m' = k + mo_active_workspace_idx m" "k + length (mo_workspaces m) \<le> length (mo_workspaces m')"
    using r by (simp_all add: reordered_def)
  have a: "mo_active_workspace_idx m' < length (mo_workspaces m')" "k + i < length (mo_workspaces m')"
    using R(6,7) monitor_invD(5) [OF inv] i by linarith+
  have "returns (activate_workspace env (k + i) m') (\<lambda>m2. returns (clean_up_workspaces (m2\<lparr>mo_workspace_switch := None,
      mo_previous_workspace_id := mo_previous_workspace_id m'\<rparr>)) (mo_keeps parent m))"
  proof (rule returns_mono [OF activate_workspace_ok [OF a R(3)]])
    fix m2 assume "activated (k + i) m' m2 \<and> switch_inv m2"
    note f = activatedD [OF conjunct1 [OF this]]
    define m3 where "m3 = m2\<lparr>mo_workspace_switch := None, mo_previous_workspace_id := mo_previous_workspace_id m'\<rparr>"
    have m3: "mo_workspaces m3 = mo_workspaces m'" "mo_next_id m3 = mo_next_id m'" "same_conf m' m3"
      "mo_active_workspace_idx m3 = k + i" "mo_workspace_switch m3 = None"
      using f by (simp_all add: m3_def same_conf_def)
    have "returns (clean_up_workspaces m3) (\<lambda>m4. monitor_inv parent m4 \<and> mo_windows m4 = mo_windows m3 \<and> cleaned_up m3 m4)"
      by (rule finish_ok) (use R m3 a same_conf_options [OF m3(3)] in \<open>simp_all add: workspaces_inv_def\<close>)
    then show "returns (clean_up_workspaces (m2\<lparr>mo_workspace_switch := None, mo_previous_workspace_id := mo_previous_workspace_id m'\<rparr>))
        (mo_keeps parent m)" unfolding m3_def [symmetric]
      by (rule returns_mono) (use R(2) m3(1) in \<open>simp add: mo_keeps_def\<close>)
  qed
  then show ?thesis by (simp add: keep_previous_def)
qed

lemma swap_list:
  assumes "i < length xs" "j < length xs"
  shows "mset (xs[i := xs ! j, j := xs ! i]) = mset xs"
    "0 < i \<Longrightarrow> 0 < j \<Longrightarrow> hd (xs[i := xs ! j, j := xs ! i]) = hd xs"
    "i < length xs - 1 \<Longrightarrow> j < length xs - 1 \<Longrightarrow> last (xs[i := xs ! j, j := xs ! i]) = last xs"
proof -
  show "mset (xs[i := xs ! j, j := xs ! i]) = mset xs" using mset_swap [OF assms(2,1)] .
  have ne: "xs \<noteq> []" using assms by auto
  show "0 < i \<Longrightarrow> 0 < j \<Longrightarrow> hd (xs[i := xs ! j, j := xs ! i]) = hd xs" using ne by (simp add: hd_update)
  show "i < length xs - 1 \<Longrightarrow> j < length xs - 1 \<Longrightarrow> last (xs[i := xs ! j, j := xs ! i]) = last xs"
    using assms by (simp add: last_update)
qed

lemma move_workspace_down_keeps:
  assumes inv: "monitor_inv parent m"
  shows "returns (move_workspace_down env m) (mo_keeps parent m)"
proof (cases "mo_active_workspace_idx m = length (mo_workspaces m) - 1")
  case True
  then show ?thesis using inv monitor_invD(6) [OF inv]
    by (simp add: move_workspace_down_def vec_simps Let_def mo_keeps_refl)
next
  case False
  let ?a = "mo_active_workspace_idx m" and ?xs = "mo_workspaces m"
  have a: "?a < length ?xs" "?a + 1 < length ?xs" "min (?a + 1) (length ?xs - 1) = ?a + 1"
    using False monitor_invD(5) [OF inv] by auto
  define wss where "wss = ?xs[?a := ?xs ! (?a + 1), ?a + 1 := ?xs ! ?a]"
  note swap = swap_list [OF a(1,2), folded wss_def]
  define r where "r = bind_res (if ?a + 1 = length (mo_workspaces (m\<lparr>mo_workspaces := wss\<rparr>)) - 1
        then add_workspace_bottom (m\<lparr>mo_workspaces := wss\<rparr>) else Inr (m\<lparr>mo_workspaces := wss\<rparr>)) (\<lambda>m.
      if above_first m \<and> mo_active_workspace_idx m = 0 then bind_res (add_workspace_top m) (\<lambda>m. Inr (?a + 1 + 1, m)) else Inr (?a + 1, m))"
  have run: "move_workspace_down env m = bind_res r (\<lambda>(new_idx, m). bind_res (keep_previous (activate_workspace env new_idx) m) clean_up_workspaces)"
  proof -
    have li: "last_idx ?xs = Inr (length ?xs - 1)" and vs: "vec_swap ?a (?a + 1) ?xs = Inr wss"
      using a monitor_invD(6) [OF inv] by (simp_all add: wss_def)
    show ?thesis unfolding move_workspace_down_def li bind_res.simps Let_def a(3) vs r_def by (simp add: bind_res_assoc)
  qed
  have "returns r (\<lambda>(i, m'). \<exists>k. i = k + (?a + 1) \<and> reordered parent m k m')" unfolding r_def
  proof (rule reorder_ok [where t = "\<lambda>m. mo_active_workspace_idx m = 0", OF inv swap(1)])
    show "last wss = last ?xs" if "\<not> ?a + 1 = length (mo_workspaces (m\<lparr>mo_workspaces := wss\<rparr>)) - 1"
      using that a mset_eq_length [OF swap(1)] by (intro swap(3)) auto
    show "hd wss = hd ?xs" if "\<not> mo_active_workspace_idx (m\<lparr>mo_workspaces := wss\<rparr>) = 0" using that by (intro swap(2)) auto
  qed (simp add: extended_def)
  then show ?thesis unfolding run returns_bind [of r]
    by (rule returns_mono) (use reordered_activate_ok [OF inv _ a(2)] in auto)
qed

lemma move_workspace_up_keeps:
  assumes inv: "monitor_inv parent m"
  shows "returns (move_workspace_up env m) (mo_keeps parent m)"
proof (cases "mo_active_workspace_idx m = 0")
  case True
  then show ?thesis using inv by (simp add: move_workspace_up_def Let_def mo_keeps_refl)
next
  case False
  let ?a = "mo_active_workspace_idx m" and ?xs = "mo_workspaces m"
  have a: "?a < length ?xs" "?a - 1 < length ?xs" "?a - 1 \<noteq> ?a" using False monitor_invD(5) [OF inv] by auto
  define wss where "wss = ?xs[?a := ?xs ! (?a - 1), ?a - 1 := ?xs ! ?a]"
  note swap = swap_list [OF a(1,2), folded wss_def]
  define r where "r = bind_res (if mo_active_workspace_idx (m\<lparr>mo_workspaces := wss\<rparr>) = length (mo_workspaces (m\<lparr>mo_workspaces := wss\<rparr>)) - 1
        then add_workspace_bottom (m\<lparr>mo_workspaces := wss\<rparr>) else Inr (m\<lparr>mo_workspaces := wss\<rparr>)) (\<lambda>m.
      if above_first m \<and> ?a - 1 = 0 then bind_res (add_workspace_top m) (\<lambda>m. Inr (?a - 1 + 1, m)) else Inr (?a - 1, m))"
  have run: "move_workspace_up env m = bind_res r (\<lambda>(new_idx, m). bind_res (keep_previous (activate_workspace env new_idx) m) clean_up_workspaces)"
    unfolding move_workspace_up_def Let_def r_def using a
    by (simp add: vec_simps wss_def bind_res_assoc)
  have "returns r (\<lambda>(i, m'). \<exists>k. i = k + (?a - 1) \<and> reordered parent m k m')" unfolding r_def
  proof (rule reorder_ok [where t = "\<lambda>_. ?a - 1 = 0", OF inv swap(1)])
    show "last wss = last ?xs" if "\<not> mo_active_workspace_idx (m\<lparr>mo_workspaces := wss\<rparr>) = length (mo_workspaces (m\<lparr>mo_workspaces := wss\<rparr>)) - 1"
      using that a mset_eq_length [OF swap(1)] by (intro swap(3)) auto
    show "hd wss = hd ?xs" if "\<not> ?a - 1 = 0" using that by (intro swap(2)) auto
  qed simp
  then show ?thesis unfolding run returns_bind [of r]
    by (rule returns_mono) (use reordered_activate_ok [OF inv _ a(2)] in auto)
qed

lemma move_list:
  fixes i j :: nat and xs :: "'a list"
  assumes i: "i < length xs" and j: "j < length xs"
  defines "rest \<equiv> take i xs @ drop (Suc i) xs"
  defines "ys \<equiv> take j rest @ xs ! i # drop j rest"
  shows "mset ys = mset xs" "j \<le> length rest" "0 < i \<Longrightarrow> 0 < j \<Longrightarrow> hd ys = hd xs"
    "i < length xs - 1 \<Longrightarrow> j < length xs - 1 \<Longrightarrow> last ys = last xs"
proof -
  have len: "length rest = length xs - 1" using i by (simp add: rest_def)
  show j': "j \<le> length rest" using j len by simp
  have "mset ys = add_mset (xs ! i) (mset rest)" unfolding ys_def by (rule insert_mset [OF j'])
  also have "\<dots> = mset xs" using arg_cong [OF id_take_nth_drop [OF i], of mset] by (simp add: rest_def)
  finally show "mset ys = mset xs" .
  show "hd ys = hd xs" if "0 < i" "0 < j"
  proof -
    have "rest \<noteq> []" "hd rest = hd xs" using that i by (cases xs; cases i; simp add: rest_def)+
    then show ?thesis using that by (cases rest; cases j) (auto simp: ys_def)
  qed
  show "last ys = last xs" if "i < length xs - 1" "j < length xs - 1"
  proof -
    have "drop (Suc i) xs \<noteq> []" using that by simp
    then have "last rest = last xs" by (simp add: rest_def)
    moreover have "drop j rest \<noteq> []" using that len by simp
    ultimately show ?thesis by (simp add: ys_def)
  qed
qed

lemma move_workspace_to_idx_keeps:
  assumes inv: "monitor_inv parent m"
  shows "returns (move_workspace_to_idx old new m) (mo_keeps parent m)"
proof (cases "length (mo_workspaces m) \<le> old \<or> old = min new (length (mo_workspaces m) - 1)")
  case True
  then have "move_workspace_to_idx old new m = Inr m" unfolding move_workspace_to_idx_def Let_def by metis
  then show ?thesis using inv by (simp add: mo_keeps_refl)
next
  case False
  let ?xs = "mo_workspaces m"
  define j where "j = min new (length ?xs - 1)"
  have i: "old < length ?xs" and j: "j < length ?xs" and ne: "old \<noteq> j"
    using False monitor_invD(6) [OF inv] by (auto simp: j_def min_less_iff_disj)
  define rest where "rest = take old ?xs @ drop (Suc old) ?xs"
  define wss where "wss = take j rest @ ?xs ! old # drop j rest"
  note mv = move_list [OF i j, folded rest_def, folded wss_def]
  define last_moved where "last_moved = (if j > old then j else old)"
  define first_moved where "first_moved = (if j > old then old else j)"
  define fin :: "nat \<times> 'a monitor \<Rightarrow> 'a monitor res" where "fin = (\<lambda>(new_idx, m).
    let active = mo_active_workspace_idx m;
        active = (if active = old then new_idx
                  else if new_idx \<le> active \<and> old > active then active + 1
                  else if new_idx \<ge> active \<and> old < active then active - 1
                  else active)
    in clean_up_workspaces (m\<lparr>mo_active_workspace_idx := active, mo_workspace_switch := None\<rparr>))"
  define r where "r = bind_res (if last_moved = length (mo_workspaces (m\<lparr>mo_workspaces := wss\<rparr>)) - 1
        then add_workspace_bottom (m\<lparr>mo_workspaces := wss\<rparr>) else Inr (m\<lparr>mo_workspaces := wss\<rparr>)) (\<lambda>m.
      if above_first m \<and> first_moved = 0 then bind_res (add_workspace_top m) (\<lambda>m. Inr (j + 1, m)) else Inr (j, m))"
  have run: "move_workspace_to_idx old new m = bind_res r fin"
  proof -
    have vr: "vec_remove old ?xs = Inr (?xs ! old, rest)" and vi: "vec_insert j (?xs ! old) rest = Inr wss"
      using i mv(2) by (simp_all add: rest_def wss_def)
    have "\<not> length ?xs \<le> old" using i by simp
    then show ?thesis unfolding move_workspace_to_idx_def j_def [symmetric] Let_def vr vi bind_res.simps prod.case r_def fin_def
        last_moved_def first_moved_def using ne by (simp only: if_False bind_res_assoc [symmetric])
  qed
  have len: "length wss = length ?xs" using mset_eq_length [OF mv(1)] .
  have "returns r (\<lambda>(i', m'). \<exists>k. i' = k + j \<and> reordered parent m k m')" unfolding r_def
  proof (rule reorder_ok [where t = "\<lambda>_. first_moved = 0", OF inv mv(1)])
    show "last wss = last ?xs" if "\<not> last_moved = length (mo_workspaces (m\<lparr>mo_workspaces := wss\<rparr>)) - 1"
      using that i j len by (intro mv(4)) (auto simp: last_moved_def split: if_splits)
    show "hd wss = hd ?xs" if "\<not> first_moved = 0" using that by (intro mv(3)) (auto simp: first_moved_def split: if_splits)
  qed simp
  then show ?thesis unfolding run returns_bind [of r]
  proof (rule returns_mono)
    fix x assume "case x of (i', m') \<Rightarrow> \<exists>k. i' = k + j \<and> reordered parent m k m'"
    then obtain k m' where x: "x = (k + j, m')" and R: "reordered parent m k m'" by (cases x) auto
    define a where "a = (if mo_active_workspace_idx m' = old then k + j
                  else if k + j \<le> mo_active_workspace_idx m' \<and> old > mo_active_workspace_idx m' then mo_active_workspace_idx m' + 1
                  else if k + j \<ge> mo_active_workspace_idx m' \<and> old < mo_active_workspace_idx m' then mo_active_workspace_idx m' - 1
                  else mo_active_workspace_idx m')"
    have R': "workspaces_inv parent m'" "mo_windows m' = mo_windows m" "edges_ok (above_first m') (mo_workspaces m')" "options_ok m'"
      "mo_active_workspace_idx m' = k + mo_active_workspace_idx m" "k + length ?xs \<le> length (mo_workspaces m')"
      using R by (simp_all add: reordered_def)
    have "mo_active_workspace_idx m' < length (mo_workspaces m')" "k + j < length (mo_workspaces m')" "old < length (mo_workspaces m')"
      using R'(5,6) monitor_invD(5) [OF inv] i j by linarith+
    then have "a < length (mo_workspaces m')" by (auto simp: a_def)
    then have "returns (clean_up_workspaces (m'\<lparr>mo_active_workspace_idx := a, mo_workspace_switch := None\<rparr>)) (mo_keeps parent m)"
      by (intro returns_mono [OF finish_ok]) (use R' in \<open>auto simp: mo_keeps_def\<close>)
    then show "returns (fin x) (mo_keeps parent m)" by (simp only: x fin_def prod.case Let_def a_def)
  qed
qed

end
