(* ===== verification/Monitor_Config.thy ===== *)
theory Monitor_Config
  imports Monitor_Whole
begin

text \<open>
  Creating a monitor, taking it apart, and changes of its configuration and of its output.
\<close>

subsection \<open>Configuration\<close>

text \<open>
  The workspaces and the active index after \<open>update_config\<close> has added or removed the workspace above
  the first one, for the new value of the option.
\<close>

lemma edges_top:
  assumes "edges_ok b wss" "\<not> used ws"
  shows "edges_ok b' (ws # wss)"
  using assms by (simp add: edges_ok_def)

lemma tidy_top: "tidy False a wss \<Longrightarrow> tidy True (Suc a) (ws # wss)"
  by (auto simp: tidy_def nth_Cons split: nat.split)

lemma tidy_drop_first:
  assumes "tidy True a (ws # wss)" "a \<noteq> 0"
  shows "tidy False (a - 1) wss"
  unfolding tidy_def
proof (intro allI impI)
  fix i assume "(if False then 1 else 0) \<le> i" "i < length wss - 1" "i \<noteq> a - 1"
  then show "used (wss ! i)" using assms(1) [unfolded tidy_def, rule_format, of "Suc i"] assms(2) by auto
qed

lemma tidy_switch_off: "tidy True 0 wss \<Longrightarrow> tidy False 0 wss"
  by (simp add: tidy_def)

lemma tidy_short: "length wss \<le> 1 \<Longrightarrow> tidy b a wss"
  by (auto simp: tidy_def)

text \<open>What the first part of \<open>update_config\<close> ensures for the new option \<open>b\<close>.\<close>

definition ready_for :: "'w parent_of \<Rightarrow> bool \<Rightarrow> 'w monitor \<Rightarrow> 'w monitor \<Rightarrow> bool" where
  "ready_for parent b m m' \<longleftrightarrow> workspaces_inv parent m' \<and> mo_windows m' = mo_windows m \<and> switch_inv m' \<and>
     mo_active_workspace_idx m' < length (mo_workspaces m') \<and> edges_ok b (mo_workspaces m') \<and>
     (b \<longrightarrow> length (mo_workspaces m') \<noteq> 2) \<and> same_conf m m' \<and>
     (mo_workspace_switch m' = None \<longrightarrow> tidy b (mo_active_workspace_idx m') (mo_workspaces m'))"

lemma toggle_first_ok:
  assumes inv: "workspaces_inv parent m" "switch_inv m" "mo_active_workspace_idx m < length (mo_workspaces m)"
    "edges_ok (above_first m) (mo_workspaces m)" "above_first m \<longrightarrow> length (mo_workspaces m) \<noteq> 2" "tidy_inv m"
  shows "returns (if above_first m \<noteq> b \<and> length (mo_workspaces m) > 1
            then if b then add_workspace_top m
                 else if mo_workspace_switch m = None \<and> mo_active_workspace_idx m \<noteq> 0
                 then bind_res (remove_workspace_at 0 m) (\<lambda>m.
                   Inr (m\<lparr>mo_active_workspace_idx := mo_active_workspace_idx m - 1\<rparr>))
                 else Inr m
            else Inr m) (ready_for parent b m)"
proof -
  have refl: "ready_for parent b m m" if "edges_ok b (mo_workspaces m)" "b \<longrightarrow> length (mo_workspaces m) \<noteq> 2"
    "mo_workspace_switch m = None \<longrightarrow> tidy b (mo_active_workspace_idx m) (mo_workspaces m)"
    using inv that by (simp add: ready_for_def same_conf_def)
  consider (same) "above_first m = b" | (short) "length (mo_workspaces m) \<le> 1" "above_first m \<noteq> b"
    | (on) "b" "\<not> above_first m" "length (mo_workspaces m) > 1" | (off) "\<not> b" "above_first m" "length (mo_workspaces m) > 1"
    by linarith
  then show ?thesis
  proof cases
    case same
    then show ?thesis using refl inv by (simp add: tidy_inv_def)
  next
    case short
    then have "length (mo_workspaces m) = 1" "hd (mo_workspaces m) = last (mo_workspaces m)"
      using inv(3) by (cases "mo_workspaces m"; simp)+
    then show ?thesis using refl inv short by (auto simp: edges_ok_def tidy_short)
  next
    case on
    have "returns (add_workspace_top m) (ready_for parent True m)"
    proof (rule returns_mono [OF add_workspace_top_ok [OF inv(1,2)]])
      fix m' assume "\<exists>ws. extended parent [ws] [] m m'"
      then obtain ws where e: "extended parent [ws] [] m m'" ..
      have win: "mo_windows m' = mo_windows m" using e unfolding extended_def by blast
      from e have E: "mo_workspaces m' = ws # mo_workspaces m" "\<not> used ws" "mo_active_workspace_idx m' = Suc (mo_active_workspace_idx m)"
        "same_conf m m'" "mo_workspace_switch m' = None \<longleftrightarrow> mo_workspace_switch m = None" "workspaces_inv parent m'" "switch_inv m'"
        unfolding extended_def by simp_all
      show "ready_for parent True m m'" unfolding ready_for_def
      proof (intro conjI impI)
        show "edges_ok True (mo_workspaces m')" unfolding E(1) by (rule edges_top [OF inv(4) E(2)])
        show "length (mo_workspaces m') \<noteq> 2" using on by (simp add: E(1))
        show "tidy True (mo_active_workspace_idx m') (mo_workspaces m')" if "mo_workspace_switch m' = None"
          unfolding E(1,3) by (rule tidy_top) (use inv(6) on(2) E(5) that in \<open>simp add: tidy_inv_def\<close>)
        show "mo_active_workspace_idx m' < length (mo_workspaces m')" using inv(3) by (simp add: E(1,3))
      qed (fact E win)+
    qed
    with on show ?thesis by simp
  next
    case off
    obtain ws wss where wss: "mo_workspaces m = ws # wss" "wss \<noteq> []" using off(3) by (cases "mo_workspaces m") auto
    show ?thesis
    proof (cases "mo_workspace_switch m = None \<and> mo_active_workspace_idx m \<noteq> 0")
      case True
      have tidy: "tidy True (mo_active_workspace_idx m) (ws # wss)" using inv(6) off True wss by (simp add: tidy_inv_def)
      have un: "ws_windows ws = {#}" using inv(4) off wss by (simp add: edges_ok_def used_iff)
      have "ready_for parent False m (m\<lparr>mo_workspaces := wss, mo_active_workspace_idx := mo_active_workspace_idx m - 1\<rparr>)"
        using inv un wss True tidy_drop_first [OF tidy]
        by (auto simp: ready_for_def workspaces_inv_def switch_inv_def edges_ok_def same_conf_def)
      then show ?thesis using off True wss by (simp add: remove_workspace_at_def vec_simps)
    next
      case False
      have "tidy False (mo_active_workspace_idx m) (mo_workspaces m)" if "mo_workspace_switch m = None"
        using inv(6) off that False by (auto simp: tidy_inv_def intro: tidy_switch_off)
      moreover have "edges_ok False (mo_workspaces m)" using inv(4) by (simp add: edges_ok_def)
      ultimately have "ready_for parent False m m" using refl off by simp
      then show ?thesis using off False by auto
    qed
  qed
qed

lemma mo_update_config_ok:
  assumes inv: "workspaces_inv parent m" "switch_inv m" "mo_active_workspace_idx m < length (mo_workspaces m)"
    "edges_ok (above_first m) (mo_workspaces m)" "above_first m \<longrightarrow> length (mo_workspaces m) \<noteq> 2" "tidy_inv m"
  shows "returns (mo_update_config base m) (mo_keeps parent m)"
proof -
  define options where "options = with_merged_layout (mo_layout_config m) base"
  have "returns (mo_update_config base m) (mo_keeps parent m) \<longleftrightarrow>
    returns (if above_first m \<noteq> lo_empty_workspace_above_first options \<and> length (mo_workspaces m) > 1
            then if lo_empty_workspace_above_first options then add_workspace_top m
                 else if mo_workspace_switch m = None \<and> mo_active_workspace_idx m \<noteq> 0
                 then bind_res (remove_workspace_at 0 m) (\<lambda>m. Inr (m\<lparr>mo_active_workspace_idx := mo_active_workspace_idx m - 1\<rparr>))
                 else Inr m
            else Inr m) (\<lambda>m1. mo_keeps parent m
      (m1\<lparr>mo_workspaces := map (ws_update_config (lo_default_column_display options)) (mo_workspaces m1),
          mo_base_options := base, mo_options := options\<rparr>))"
    unfolding mo_update_config_def Let_def options_def [symmetric] returns_bind [of "if _ then _ else _"] returns_Inr ..
  also have "\<dots>"
  proof (rule returns_mono [OF toggle_first_ok [OF inv]])
    fix m1 assume r: "ready_for parent (lo_empty_workspace_above_first options) m m1"
    define m' where "m' = m1\<lparr>mo_workspaces := map (ws_update_config (lo_default_column_display options)) (mo_workspaces m1),
          mo_base_options := base, mo_options := options\<rparr>"
    have R: "workspaces_inv parent m1" "mo_windows m1 = mo_windows m" "switch_inv m1"
      "mo_active_workspace_idx m1 < length (mo_workspaces m1)" "edges_ok (lo_empty_workspace_above_first options) (mo_workspaces m1)"
      "lo_empty_workspace_above_first options \<longrightarrow> length (mo_workspaces m1) \<noteq> 2" "same_conf m m1"
      "mo_workspace_switch m1 = None \<longrightarrow> tidy (lo_empty_workspace_above_first options) (mo_active_workspace_idx m1) (mo_workspaces m1)"
      using r unfolding ready_for_def by blast+
    note M = map_keeps_workspaces_inv [where f = "ws_update_config (lo_default_column_display options)", OF ws_update_config_keeps R(1), of m']
    have wi: "workspaces_inv parent m'" "mo_windows m' = mo_windows m" using M R(2) by (simp_all add: m'_def)
    have "list_all (workspace_inv parent) (mo_workspaces m1)" using R(1) by (simp add: workspaces_inv_def)
    note U = map_used_shape [OF map_keeps(4) [where f = "ws_update_config (lo_default_column_display options)", OF ws_update_config_keeps this]]
    have "options_ok m'" using R(7) by (simp add: options_ok_def m'_def options_def same_conf_def)
    moreover have "switch_inv m'" using R(3) by (simp add: switch_inv_def m'_def split: option.splits workspace_switch.splits)
    ultimately have "monitor_inv parent m'" using wi(1) R(4-6,8) U by (simp add: monitor_inv_def untidy_inv_def m'_def)
    with wi(2) show "mo_keeps parent m m'" by (simp add: mo_keeps_def)
  qed
  finally show ?thesis .
qed

lemma switch_inv_layout_config [simp]: "switch_inv (m\<lparr>mo_layout_config := part\<rparr>) = switch_inv m"
  by (simp add: switch_inv_def split: option.split workspace_switch.split)

lemma mo_update_config_keeps:
  assumes inv: "monitor_inv parent m"
  shows "returns (mo_update_config base m) (mo_keeps parent m)"
    "returns (mo_update_layout_config part m) (\<lambda>(m', _). mo_keeps parent m m')"
proof -
  have ne: "above_first m \<longrightarrow> length (mo_workspaces m) \<noteq> 2" using inv by (simp add: monitor_inv_def)
  note D = monitor_invD(4,7,5,9) [OF inv] ne monitor_invD(3) [OF inv]
  show "returns (mo_update_config base m) (mo_keeps parent m)" by (rule mo_update_config_ok [OF D])
  define m1 where "m1 = m\<lparr>mo_layout_config := part\<rparr>"
  have "returns (mo_update_config (mo_base_options m) m1) (mo_keeps parent m1)"
    by (rule mo_update_config_ok) (use D in \<open>simp_all add: m1_def workspaces_inv_def tidy_inv_def\<close>)
  then have "returns (mo_update_config (mo_base_options m) m1) (mo_keeps parent m)"
    by (rule returns_mono) (simp add: mo_keeps_def m1_def)
  then show "returns (mo_update_layout_config part m) (\<lambda>(m', _). mo_keeps parent m m')"
    using mo_keeps_refl [OF inv] by (simp add: mo_update_layout_config_def m1_def)
qed

lemma mo_update_output_size_keeps:
  assumes inv: "monitor_inv parent m"
  shows "mo_keeps parent m (mo_update_output_size view m)"
proof -
  let ?m = "mo_update_output_size view m"
  have m': "mo_workspaces ?m = map (ws_set_view_size view) (mo_workspaces m)" "mo_next_id ?m = mo_next_id m"
    by (simp_all add: mo_update_output_size_def)
  note wi = map_keeps_workspaces_inv [where f = "ws_set_view_size view", OF ws_set_view_size_keeps monitor_invD(4) [OF inv] m']
  have "list_all (workspace_inv parent) (mo_workspaces m)" using monitor_invD(4) [OF inv] by (simp add: workspaces_inv_def)
  note U = map_used_shape [OF map_keeps(4) [where f = "ws_set_view_size view", OF ws_set_view_size_keeps this]]
  have "switch_inv ?m" using monitor_invD(7) [OF inv]
    by (simp add: switch_inv_def mo_update_output_size_def split: option.splits workspace_switch.splits)
  moreover have "options_ok ?m" "above_first ?m = above_first m" "mo_active_workspace_idx ?m = mo_active_workspace_idx m"
    "mo_workspace_switch ?m = mo_workspace_switch m"
    using monitor_invD(1) [OF inv] by (simp_all add: untidy_inv_def options_ok_def mo_update_output_size_def)
  ultimately have "monitor_inv parent ?m" using inv wi(1) U by (simp add: monitor_inv_def untidy_inv_def m'(1))
  with wi(2) show ?thesis by (simp add: mo_keeps_def)
qed

subsection \<open>Creation\<close>

text \<open>Workspaces that are all used, with identifiers and windows of their own.\<close>

definition own_workspaces :: "'w parent_of \<Rightarrow> nat \<Rightarrow> 'w lworkspace list \<Rightarrow> bool" where
  "own_workspaces parent n wss \<longleftrightarrow> list_all (workspace_inv parent) wss \<and> list_all used wss \<and> distinct (map ws_id wss) \<and>
     list_all (\<lambda>ws. ws_id ws < n) wss \<and> mset_distinct (wss_windows wss) \<and> parents_acyclic parent"

definition prepared :: "loutput \<Rightarrow> layout_options \<Rightarrow> 'w lworkspace \<Rightarrow> 'w lworkspace" where
  "prepared out options ws = ws_update_config (lo_default_column_display options) (ws_set_output (Some out) ws)"

lemma prepared_keeps: "workspace_inv parent ws \<Longrightarrow> ws_keeps parent ws (prepared out options ws)"
  unfolding prepared_def
  by (rule ws_keeps_trans [OF ws_set_output_keeps ws_update_config_keeps [OF ws_keeps_inv [OF ws_set_output_keeps]]])

text \<open>The workspace to activate is found by its identifier; without it the first one is active.\<close>

lemma prepare_workspaces_eq:
  assumes "list_all (workspace_inv parent) wss" "list_all used wss" "distinct (map ws_id wss)"
  shows "prepare_workspaces out options wid idx active wss = Inr (map (prepared out options) wss,
    case position (\<lambda>ws. wid = Some (ws_id ws)) wss of Some i \<Rightarrow> idx + i | None \<Rightarrow> active)"
  using assms
proof (induction wss arbitrary: idx active)
  case (Cons ws wss)
  have i: "ws_id (prepared out options ws) = ws_id ws"
    using prepared_keeps [of parent ws] Cons.prems by (simp add: ws_keeps_def ws_same_id_def)
  have "position (\<lambda>ws. wid = Some (ws_id ws)) wss = None" if "wid = Some (ws_id ws)"
    using that Cons.prems by (auto simp: position_None)
  then show ?case using Cons.IH [of "idx + 1" "if wid = Some (ws_id ws) then idx else active"] Cons.prems i
    by (auto simp: Let_def prepared_def [symmetric] split: option.split)
qed simp

lemma mo_new_ok:
  assumes own: "own_workspaces parent n wss"
  shows "returns (mo_new out wss wid base part n) (\<lambda>m. monitor_inv parent m \<and> mo_windows m = wss_windows wss \<and>
    mo_output m = out \<and> mo_overview_open m = False \<and> n \<le> mo_next_id m \<and> mo_base_options m = base \<and>
    (\<exists>tops bot. mo_workspaces m = tops @ map (prepared out (mo_options m)) wss @ [bot] \<and>
      (\<forall>ws \<in> set (tops @ [bot]). \<not> used ws \<and> n \<le> ws_id ws) \<and>
      mo_active_workspace_idx m = length tops + (case position (\<lambda>ws. wid = Some (ws_id ws)) wss of Some i \<Rightarrow> i | None \<Rightarrow> 0)))"
proof -
  define options where "options = with_merged_layout part base"
  define wss' where "wss' = map (prepared out options) wss"
  define b where "b \<longleftrightarrow> lo_empty_workspace_above_first options \<and> wss \<noteq> []"
  define new where "new = (ws_new out (lo_default_column_display options) :: nat \<Rightarrow> 'a lworkspace)"
  define i where "i = (case position (\<lambda>ws. wid = Some (ws_id ws)) wss of Some i \<Rightarrow> i | None \<Rightarrow> 0)"
  define tops where "tops = (if b then [new n] else [])"
  define bot where "bot = new (if b then n + 1 else n)"
  have O: "list_all (workspace_inv parent) wss" "list_all used wss" "distinct (map ws_id wss)" "list_all (\<lambda>ws. ws_id ws < n) wss"
    "mset_distinct (wss_windows wss)" "parents_acyclic parent" using own by (simp_all add: own_workspaces_def)
  note M = map_keeps [where f = "prepared out options", OF prepared_keeps O(1), folded wss'_def]
  define m where "m = \<lparr>mo_output = out, mo_view = out_view out, mo_workspaces = tops @ wss' @ [bot],
      mo_active_workspace_idx = length tops + i, mo_previous_workspace_id = None, mo_workspace_switch = None,
      mo_overview_open = False, mo_base_options = base, mo_options = options, mo_layout_config = part, mo_next_id = (if b then n + 2 else n + 1)\<rparr>"
  have "(case position (\<lambda>ws. wid = Some (ws_id ws)) wss of Some i \<Rightarrow> 0 + i | None \<Rightarrow> 0) = i" by (simp add: i_def split: option.split)
  then have run: "mo_new out wss wid base part n = Inr m"
    using prepare_workspaces_eq [OF O(1-3), of out options wid 0 0]
    by (simp add: mo_new_def options_def [symmetric] Let_def wss'_def [symmetric] new_def [symmetric] m_def tops_def bot_def b_def)
       (auto simp: wss'_def)
  have newp: "\<not> used (new k)" "ws_windows (new k) = {#}" "ws_id (new k) = k" "workspace_inv parent (new k)" for k
    by (simp_all add: new_def ws_new_unused O(6))
  have usedw: "used (wss' ! k)" if "k < length wss" for k
    using M(4) O(2) that by (metis length_map list_all_length nth_map)
  have lt: "ws_id ws < n" if "ws \<in> set wss'" for ws
  proof -
    have "ws_id ws \<in> set (map ws_id wss)" using that M(1) by (metis image_eqI set_map)
    then show ?thesis using O(4) by (auto simp: list_all_iff)
  qed
  have "workspaces_inv parent m"
    using M O lt by (auto simp: workspaces_inv_def m_def tops_def bot_def newp list_all_iff less_SucI)
  moreover have "i < length wss \<or> i = 0" by (auto simp: i_def split: option.split dest: position_Some)
  then have "mo_active_workspace_idx m < length (mo_workspaces m)" by (auto simp: m_def wss'_def)
  moreover have "edges_ok (above_first m) (mo_workspaces m)"
    by (auto simp: edges_ok_def m_def tops_def bot_def newp b_def wss'_def)
  moreover have "tidy (above_first m) (mo_active_workspace_idx m) (mo_workspaces m)"
    using usedw by (auto simp: tidy_def m_def tops_def b_def nth_append wss'_def nth_Cons split: nat.split if_splits)
  moreover have "above_first m \<longrightarrow> length (mo_workspaces m) \<noteq> 2" by (auto simp: m_def tops_def b_def wss'_def)
  ultimately have "monitor_inv parent m"
    by (simp add: monitor_inv_def untidy_inv_def switch_inv_def options_ok_def m_def options_def)
  moreover have "mo_windows m = wss_windows wss" using M(2) by (simp add: m_def tops_def bot_def newp)
  ultimately show ?thesis unfolding run returns_Inr
    by (auto simp: m_def wss'_def tops_def bot_def newp i_def intro!: exI [of _ tops] exI [of _ bot])
qed

subsection \<open>Taking a monitor apart\<close>

lemma mo_into_workspaces_ok:
  assumes inv: "workspaces_inv parent m"
  shows "own_workspaces parent (mo_next_id m) (mo_into_workspaces m)" "wss_windows (mo_into_workspaces m) = mo_windows m"
    "map ws_id (mo_into_workspaces m) = map ws_id (filter used (mo_workspaces m))"
proof -
  let ?wss = "filter used (mo_workspaces m)"
  have I: "list_all (workspace_inv parent) ?wss" "list_all used ?wss" "distinct (map ws_id ?wss)"
    "list_all (\<lambda>ws. ws_id ws < mo_next_id m) ?wss" "wss_windows ?wss = mo_windows m"
    using inv by (auto simp: workspaces_inv_def list_all_iff wss_windows_used distinct_map_filter)
  note M = map_keeps [where f = "ws_set_output None", OF ws_set_output_keeps I(1)]
  have all: "list_all P (map g wss) = list_all (\<lambda>x. P (g x)) wss" for P :: "'b \<Rightarrow> bool" and g :: "'a lworkspace \<Rightarrow> 'b" and wss
    by (simp add: list_all_iff)
  show "map ws_id (mo_into_workspaces m) = map ws_id ?wss" unfolding mo_into_workspaces_def by (rule M(1))
  show "wss_windows (mo_into_workspaces m) = mo_windows m" unfolding mo_into_workspaces_def by (rule trans [OF M(2) I(5)])
  have "list_all used (map (ws_set_output None) ?wss) = list_all (\<lambda>b. b) (map used (map (ws_set_output None) ?wss))"
    "list_all used ?wss = list_all (\<lambda>b. b) (map used ?wss)" by (simp_all add: list_all_iff)
  moreover have "map used (map (ws_set_output None) ?wss) = map used ?wss" by (rule M(4))
  ultimately have "list_all used (map (ws_set_output None) ?wss)" using I(2) by (simp only:)
  moreover have "list_all (\<lambda>i. i < mo_next_id m) (map ws_id (map (ws_set_output None) ?wss))"
    using I(4) by (subst M(1)) (simp_all add: list_all_iff)
  moreover have "distinct (map ws_id (map (ws_set_output None) ?wss))" using I(3) by (subst M(1)) simp_all
  ultimately show "own_workspaces parent (mo_next_id m) (mo_into_workspaces m)"
    using inv M(2,3) I(5) by (simp add: own_workspaces_def mo_into_workspaces_def workspaces_inv_def list_all_iff)
qed

end
