(* ===== verification/Monitor_Properties.thy ===== *)
theory Monitor_Properties
  imports Monitor_Config
begin

text \<open>
  The monitor as a state machine over its public operations, and its properties.
\<close>

datatype (plugins only: size) 'w monitor_op =
    MoAddColumn nat "'w column" bool
  | MoAddTile "'w tile" "'w monitor_target" activate_window bool column_width bool bool
  | MoAddTileToColumn nat nat "nat option" "'w tile" bool bool
  | MoWorkspaceOp nat "'w workspace_op"
  | MoMoveToWorkspaceUp bool | MoMoveToWorkspaceDown bool | MoMoveToWorkspace "'w option" nat activate_window
  | MoMoveColumnToWorkspaceUp bool | MoMoveColumnToWorkspaceDown bool | MoMoveColumnToWorkspace nat bool
  | MoMoveDownOrToWorkspaceDown | MoMoveUpOrToWorkspaceUp | MoFocusWindowOrWorkspaceDown | MoFocusWindowOrWorkspaceUp
  | MoSwitchWorkspaceUp | MoSwitchWorkspaceDown | MoSwitchWorkspace nat | MoSwitchWorkspaceAuto nat | MoSwitchWorkspacePrevious
  | MoActivateWorkspace nat | MoAdvanceAnimations bool nat
  | MoGestureBegin bool | MoGestureUpdate real real real nat bool | MoGestureEnd real nat "bool option"
  | MoDndScrollBegin nat | MoDndScroll nat nat real real | MoDndScrollEnd real nat
  | MoMoveWorkspaceDown | MoMoveWorkspaceUp | MoMoveWorkspaceToIdx nat nat
  | MoUnnameWorkspace nat | MoRemoveWorkspace nat | MoInsertWorkspace "'w lworkspace" nat bool
  | MoAppendWorkspaces "'w lworkspace list"
  | MoUpdateConfig layout_options | MoUpdateLayoutConfig "layout_part option" | MoUpdateOutputSize output_view

definition first_of :: "('a \<times> 'b) res \<Rightarrow> 'a res" where
  "first_of r = bind_res r (\<lambda>(x, _). Inr x)"

definition second_of :: "('a \<times> 'b) res \<Rightarrow> 'b res" where
  "second_of r = bind_res r (\<lambda>(_, y). Inr y)"

primrec monitor_step :: "'w layout_env \<Rightarrow> 'w monitor_op \<Rightarrow> 'w monitor \<Rightarrow> 'w monitor res" where
  "monitor_step env (MoAddColumn i column act) m = mo_add_column env i column act m"
| "monitor_step env (MoAddTile tile target act allow width full fl) m = mo_add_tile env tile target act allow width full fl m"
| "monitor_step env (MoAddTileToColumn i ci ti tile act allow) m = mo_add_tile_to_column env i ci ti tile act allow m"
| "monitor_step env (MoWorkspaceOp i op) m = on_workspace i (workspace_step env op) m"
| "monitor_step env (MoMoveToWorkspaceUp focus) m = move_to_workspace_up env focus m"
| "monitor_step env (MoMoveToWorkspaceDown focus) m = move_to_workspace_down env focus m"
| "monitor_step env (MoMoveToWorkspace window idx act) m = move_to_workspace env window idx act m"
| "monitor_step env (MoMoveColumnToWorkspaceUp act) m = move_column_to_workspace_up env act m"
| "monitor_step env (MoMoveColumnToWorkspaceDown act) m = move_column_to_workspace_down env act m"
| "monitor_step env (MoMoveColumnToWorkspace idx act) m = move_column_to_workspace env idx act m"
| "monitor_step env MoMoveDownOrToWorkspaceDown m = move_down_or_to_workspace_down env m"
| "monitor_step env MoMoveUpOrToWorkspaceUp m = move_up_or_to_workspace_up env m"
| "monitor_step env MoFocusWindowOrWorkspaceDown m = focus_window_or_workspace_down env m"
| "monitor_step env MoFocusWindowOrWorkspaceUp m = focus_window_or_workspace_up env m"
| "monitor_step env MoSwitchWorkspaceUp m = switch_workspace_up env m"
| "monitor_step env MoSwitchWorkspaceDown m = switch_workspace_down env m"
| "monitor_step env (MoSwitchWorkspace idx) m = switch_workspace env idx m"
| "monitor_step env (MoSwitchWorkspaceAuto idx) m = switch_workspace_auto_back_and_forth env idx m"
| "monitor_step env MoSwitchWorkspacePrevious m = switch_workspace_previous env m"
| "monitor_step env (MoActivateWorkspace idx) m = activate_workspace env idx m"
| "monitor_step env (MoAdvanceAnimations fin now) m = mo_advance_animations fin now m"
| "monitor_step env (MoGestureBegin touchpad) m = Inr (workspace_switch_gesture_begin env touchpad m)"
| "monitor_step env (MoGestureUpdate zoom height delta ts touchpad) m =
     first_of (workspace_switch_gesture_update zoom height delta ts touchpad m)"
| "monitor_step env (MoGestureEnd height now touchpad) m = first_of (workspace_switch_gesture_end height now touchpad m)"
| "monitor_step env (MoDndScrollBegin now) m = Inr (dnd_scroll_gesture_begin env now m)"
| "monitor_step env (MoDndScroll now delay speed delta) m = first_of (dnd_scroll_gesture_scroll now delay speed delta m)"
| "monitor_step env (MoDndScrollEnd height now) m = dnd_scroll_gesture_end height now m"
| "monitor_step env MoMoveWorkspaceDown m = move_workspace_down env m"
| "monitor_step env MoMoveWorkspaceUp m = move_workspace_up env m"
| "monitor_step env (MoMoveWorkspaceToIdx old new) m = move_workspace_to_idx old new m"
| "monitor_step env (MoUnnameWorkspace wid) m = first_of (mo_unname_workspace wid m)"
| "monitor_step env (MoRemoveWorkspace idx) m = second_of (remove_workspace_by_idx idx m)"
| "monitor_step env (MoInsertWorkspace ws idx act) m = insert_workspace env ws idx act m"
| "monitor_step env (MoAppendWorkspaces wss) m = append_workspaces wss m"
| "monitor_step env (MoUpdateConfig options) m = mo_update_config options m"
| "monitor_step env (MoUpdateLayoutConfig part) m = first_of (mo_update_layout_config part m)"
| "monitor_step env (MoUpdateOutputSize view) m = Inr (mo_update_output_size view m)"

text \<open>
  What the caller owes: windows and workspaces that are added are new, and those that are named exist.
\<close>

fun monitor_op_ok :: "'w parent_of \<Rightarrow> 'w monitor_op \<Rightarrow> 'w monitor \<Rightarrow> bool" where
  "monitor_op_ok parent (MoAddColumn i column _) m \<longleftrightarrow> i < length (mo_workspaces m) \<and> column_inv column \<and>
     mset_distinct (mo_windows m + mset (col_windows column))"
| "monitor_op_ok parent (MoAddTile tile target _ _ _ _ _) m \<longleftrightarrow> tl_window tile \<notin># mo_windows m \<and> mon_target_ok target m"
| "monitor_op_ok parent (MoAddTileToColumn i ci ti tile _ _) m \<longleftrightarrow> i < length (mo_workspaces m) \<and> tl_window tile \<notin># mo_windows m \<and>
     ci < length (sc_columns (ws_scrolling (mo_workspaces m ! i))) \<and>
     (case ti of None \<Rightarrow> True | Some k \<Rightarrow> k \<le> length (col_tiles (sc_columns (ws_scrolling (mo_workspaces m ! i)) ! ci)))"
| "monitor_op_ok parent (MoWorkspaceOp i op) m \<longleftrightarrow> i < length (mo_workspaces m) \<and> ws_rearranging op \<and>
     workspace_op_ok op (mo_workspaces m ! i)"
| "monitor_op_ok parent (MoMoveToWorkspace window _ _) m \<longleftrightarrow> (case window of None \<Rightarrow> True | Some w \<Rightarrow> w \<in># mo_windows m)"
| "monitor_op_ok parent (MoActivateWorkspace idx) m \<longleftrightarrow> idx < length (mo_workspaces m)"
| "monitor_op_ok parent (MoRemoveWorkspace idx) m \<longleftrightarrow> idx < length (mo_workspaces m)"
| "monitor_op_ok parent (MoInsertWorkspace ws idx _) m \<longleftrightarrow> idx \<le> length (mo_workspaces m) \<and> foreign parent [ws] m"
| "monitor_op_ok parent (MoAppendWorkspaces wss) m \<longleftrightarrow> foreign parent wss m"
| "monitor_op_ok parent _ m \<longleftrightarrow> True"

fun mo_op_adds :: "'w monitor_op \<Rightarrow> 'w multiset" where
  "mo_op_adds (MoAddColumn _ column _) = mset (col_windows column)"
| "mo_op_adds (MoAddTile tile _ _ _ _ _ _) = {#tl_window tile#}"
| "mo_op_adds (MoAddTileToColumn _ _ _ tile _ _) = {#tl_window tile#}"
| "mo_op_adds (MoInsertWorkspace ws _ _) = ws_windows ws"
| "mo_op_adds (MoAppendWorkspaces wss) = wss_windows wss"
| "mo_op_adds _ = {#}"

fun mo_op_removes :: "'w monitor_op \<Rightarrow> 'w monitor \<Rightarrow> 'w multiset" where
  "mo_op_removes (MoRemoveWorkspace idx) m = ws_windows (mo_workspaces m ! idx)"
| "mo_op_removes _ m = {#}"

definition mo_changes :: "'w parent_of \<Rightarrow> 'w monitor_op \<Rightarrow> 'w monitor \<Rightarrow> 'w monitor \<Rightarrow> bool" where
  "mo_changes parent op m m' \<longleftrightarrow> monitor_inv parent m' \<and> mo_windows m' + mo_op_removes op m = mo_windows m + mo_op_adds op"

lemma keeps_changes:
  "mo_op_adds op = {#} \<Longrightarrow> mo_op_removes op m = {#} \<Longrightarrow> returns r (mo_keeps parent m) \<Longrightarrow> returns r (mo_changes parent op m)"
  by (erule returns_mono) (simp add: mo_keeps_def mo_changes_def)

lemma returns_first_of: "returns (first_of r) P \<longleftrightarrow> returns r (\<lambda>(x, _). P x)"
  by (simp add: first_of_def case_prod_unfold)

lemma on_workspace_keeps:
  assumes inv: "monitor_inv (env_parent env) m" and op: "monitor_op_ok (env_parent env) (MoWorkspaceOp i op) m"
  shows "returns (on_workspace i (workspace_step env op) m) (mo_keeps (env_parent env) m)"
proof -
  let ?ws = "mo_workspaces m ! i"
  have i: "i < length (mo_workspaces m)" and ok: "ws_rearranging op" "workspace_op_ok op ?ws" using op by auto
  have none: "ws_op_adds op = {#}" "ws_op_removes op ?ws = {#}" using ok(1) by (cases op; simp add: ws_rearranging_def)+
  from workspace_step_ok [OF workspaces_invD [OF monitor_invD(4) [OF inv] i] ok(2)]
  obtain ws where ws: "workspace_step env op ?ws = Inr ws" "ws_changes (env_parent env) op ?ws ws" by (auto simp: returns_def)
  have "ws_keeps (env_parent env) ?ws ws" using ws(2) none by (simp add: ws_changes_def ws_keeps_def)
  from store_keeps [OF inv i this] show ?thesis using i ws(1)
    by (simp add: on_workspace_def vec_simps store_workspace_def)
qed

lemma adds_changes:
  assumes "monitor_inv parent m" "mo_adds parent W wid act m m'" "mo_op_adds op = W" "mo_op_removes op m = {#}"
  shows "mo_changes parent op m m'"
  using assms tidy_inv_near [OF monitor_invD(3) [OF assms(1)]] by (simp add: mo_adds_def mo_changes_def monitor_inv_iff)

lemmas monitor_keeps = on_workspace_keeps move_to_workspace_up_down_keeps move_column_to_workspace_keeps move_or_to_workspace_keeps
  switch_workspace_up_down_keeps switch_workspace_keeps mo_advance_animations_keeps gesture_begin_keeps
  gesture_update_keeps gesture_end_keeps dnd_scroll_keeps move_workspace_down_keeps move_workspace_up_keeps
  move_workspace_to_idx_keeps mo_unname_workspace_keeps mo_update_config_keeps mo_update_output_size_keeps

lemma monitor_step_ok:
  assumes inv: "monitor_inv (env_parent env) m" and ok: "monitor_op_ok (env_parent env) op m"
  shows "returns (monitor_step env op m) (mo_changes (env_parent env) op m)"
proof (cases op)
  case (MoAddColumn i column act)
  then show ?thesis using mo_add_column_ok [OF monitor_invD(2) [OF inv], of i column env act] ok
    by (auto elim!: returns_mono intro: adds_changes [OF inv])
next
  case (MoAddTile tile target act allow width full fl)
  then show ?thesis using mo_add_tile_ok [OF monitor_invD(2) [OF inv], of tile target act allow width full fl] ok
    by (auto elim!: returns_mono intro: adds_changes [OF inv])
next
  case (MoAddTileToColumn i ci ti tile act allow)
  then show ?thesis using mo_add_tile_to_column_ok [OF monitor_invD(2) [OF inv], of i tile ci ti env act allow] ok
    by (auto elim!: returns_mono intro: adds_changes [OF inv] split: option.splits)
next
  case (MoMoveToWorkspace window idx act)
  then have w: "\<And>w. window = Some w \<Longrightarrow> w \<in># mo_windows m" using ok by (simp split: option.splits)
  have "returns (move_to_workspace env window idx act m) (mo_keeps (env_parent env) m)"
    by (rule returns_mono [OF move_to_workspace_ok [where window = window, OF inv w]]) auto
  then show ?thesis by (simp add: MoMoveToWorkspace keeps_changes)
next
  case (MoActivateWorkspace idx)
  then show ?thesis using activate_workspace_keeps [OF inv, of idx env] ok
    by (auto simp: mo_changes_def mo_keeps_def elim!: returns_mono)
next
  case (MoRemoveWorkspace idx)
  then show ?thesis using remove_workspace_by_idx_ok [OF inv, of idx] ok
    by (auto simp: second_of_def mo_changes_def ws_keeps_def elim!: returns_mono)
next
  case (MoInsertWorkspace ws idx act)
  then show ?thesis using insert_workspace_ok [OF inv, of ws idx env act] ok by (auto simp: mo_changes_def elim!: returns_mono)
next
  case (MoAppendWorkspaces wss)
  then show ?thesis using append_workspaces_ok [OF inv, of wss] ok by (auto simp: mo_changes_def elim!: returns_mono)
qed (rule keeps_changes; use ok in \<open>auto simp: returns_first_of intro!: monitor_keeps [OF inv]\<close>)+

text \<open>The monitors that the operations reach from a new one.\<close>

inductive monitor_reachable :: "'w parent_of \<Rightarrow> 'w monitor \<Rightarrow> bool" where
  new: "own_workspaces parent n wss \<Longrightarrow> mo_new out wss wid base part n = Inr m \<Longrightarrow> monitor_reachable parent m"
| step: "monitor_reachable (env_parent env) m \<Longrightarrow> monitor_op_ok (env_parent env) op m \<Longrightarrow>
    monitor_step env op m = Inr m' \<Longrightarrow> monitor_reachable (env_parent env) m'"

lemma monitor_reachable_inv: "monitor_reachable parent m \<Longrightarrow> monitor_inv parent m"
proof (induction rule: monitor_reachable.induct)
  case (new parent n wss out wid base part m)
  then show ?case using mo_new_ok [OF new(1), of out wid base part] by simp
next
  case (step env m op m')
  then show ?case using monitor_step_ok [of env m op] by (auto simp: mo_changes_def)
qed

subsection \<open>Properties\<close>

text \<open>
  C7. Every monitor that the operations reach from a new one satisfies the invariants of
  \<open>verify_invariants\<close>: there is an active workspace, the last workspace is empty and unnamed, and so is
  the first one if the option asks for it; without a switch in progress no other workspace but the
  active one is empty and unnamed; identifiers and windows are distinct, and every workspace keeps its
  own invariant. Whatever operation comes next, with windows and workspaces that exist, does not panic,
  keeps all of this, and changes the windows of the monitor only by those it adds or removes.
\<close>

theorem monitor_never_panics:
  assumes "monitor_reachable (env_parent env) m"
  shows "monitor_inv (env_parent env) m \<and> (monitor_op_ok (env_parent env) op m \<longrightarrow>
    (\<exists>m'. monitor_step env op m = Inr m' \<and> monitor_inv (env_parent env) m' \<and>
      mo_windows m' + mo_op_removes op m = mo_windows m + mo_op_adds op))"
proof -
  note inv = monitor_reachable_inv [OF assms]
  have "\<exists>m'. monitor_step env op m = Inr m' \<and> mo_changes (env_parent env) op m m'" if "monitor_op_ok (env_parent env) op m"
    using monitor_step_ok [OF inv that] by (simp add: returns_def)
  with inv show ?thesis by (auto simp: mo_changes_def)
qed

definition example_view :: output_view where
  "example_view = \<lparr>ov_integer_scale = 1, ov_fractional_scale = 1, ov_transform = 0, ov_size = \<lparr>sz_w = 1920, sz_h = 1080\<rparr>,
     ov_area = \<lparr>rc_loc = \<lparr>pt_x = 0, pt_y = 0\<rparr>, rc_size = \<lparr>sz_w = 1920, sz_h = 1080\<rparr>\<rparr>\<rparr>"

definition example_output :: loutput where
  "example_output = \<lparr>out_handle = 1, out_name = example_output_name ''DP-1'', out_view = example_view\<rparr>"

definition example_options :: "bool \<Rightarrow> layout_options" where
  "example_options b = \<lparr>lo_empty_workspace_above_first = b, lo_default_column_display = DisplayNormal\<rparr>"

text \<open>A workspace with a name, and a monitor that starts with two of them.\<close>

definition named_workspace :: "string \<Rightarrow> nat \<Rightarrow> nat lworkspace" where
  "named_workspace name i = ws_new_with_config_no_outputs (Some \<lparr>wc_name = name, wc_open_on_output = None, wc_layout_display = None\<rparr>) DisplayNormal i"

definition example_monitor :: "bool \<Rightarrow> nat monitor" where
  "example_monitor b = (case mo_new example_output [named_workspace ''A'' 10, named_workspace ''B'' 11] None (example_options b) None 20 of
     Inr m \<Rightarrow> m)"

lemma named_workspace_simps [simp]:
  "ws_id (named_workspace name i) = i" "ws_name (named_workspace name i) = Some name" "used (named_workspace name i)"
  "ws_windows (named_workspace name i) = {#}" "workspace_inv (\<lambda>_. None) (named_workspace name i)"
proof -
  show "ws_id (named_workspace name i) = i" "ws_name (named_workspace name i) = Some name"
    by (simp_all add: named_workspace_def ws_new_with_config_no_outputs_def Let_def)
  then show "used (named_workspace name i)" by (simp add: used_iff)
  show "ws_windows (named_workspace name i) = {#}" "workspace_inv (\<lambda>_. None) (named_workspace name i)"
    using ws_new_inv(2,4) [OF no_parents_acyclic] by (simp_all add: named_workspace_def)
qed

lemma example_own_workspaces: "own_workspaces (\<lambda>_. None) 20 [named_workspace ''A'' 10, named_workspace ''B'' 11]"
  by (simp add: own_workspaces_def)

lemma example_monitor_new:
  "mo_new example_output [named_workspace ''A'' 10, named_workspace ''B'' 11] None (example_options b) None 20 = Inr (example_monitor b)"
  using mo_new_ok [OF example_own_workspaces, of example_output None "example_options b" None]
  by (auto simp: returns_def example_monitor_def)

lemma example_monitor_reachable: "monitor_reachable (env_parent example_env) (example_monitor b)"
  unfolding example_env_def layout_env.simps by (rule monitor_reachable.new [OF example_own_workspaces example_monitor_new])

lemma example_monitor_shape:
  "\<exists>E0 A B E1. mo_workspaces (example_monitor True) = [E0, A, B, E1] \<and> used A \<and> used B \<and> \<not> used E0 \<and> \<not> used E1 \<and>
     ws_name A = Some ''A'' \<and> ws_name B = Some ''B''"
  "mo_active_workspace_idx (example_monitor True) = 1" "above_first (example_monitor True)"
  "mo_workspace_switch (example_monitor True) = None" "mo_windows (example_monitor b) = {#}"
proof -
  have p: "ws_name (prepared out options ws) = ws_name ws" "used (prepared out options ws) = used ws"
    if "workspace_inv (\<lambda>_. None) ws" for out options and ws :: "nat lworkspace"
    using prepared_keeps [OF that, of out options] used_keeps [OF prepared_keeps [OF that, of out options]]
    by (simp_all add: ws_keeps_def ws_same_id_def)
  have run: "mo_new example_output [named_workspace ''A'' 10, named_workspace ''B'' 11] None (example_options True) None 20 =
      Inr (example_monitor True)" by (rule example_monitor_new)
  have eq: "prepare_workspaces out options None 0 0 [named_workspace ''A'' 10, named_workspace ''B'' 11] =
      Inr ([prepared out options (named_workspace ''A'' 10), prepared out options (named_workspace ''B'' 11)], 0)" for out options
    by (subst prepare_workspaces_eq [of "\<lambda>_. None"]) simp_all
  have m: "example_monitor True = \<lparr>mo_output = example_output, mo_view = out_view example_output,
      mo_workspaces = [ws_new example_output DisplayNormal 20, prepared example_output (example_options True) (named_workspace ''A'' 10),
        prepared example_output (example_options True) (named_workspace ''B'' 11), ws_new example_output DisplayNormal 21],
      mo_active_workspace_idx = 1, mo_previous_workspace_id = None, mo_workspace_switch = None,
      mo_overview_open = False, mo_base_options = example_options True, mo_options = example_options True, mo_layout_config = None,
      mo_next_id = 22\<rparr>"
    using run [symmetric] by (simp add: mo_new_def Let_def eq with_merged_layout_def example_options_def prepared_def)
  show "\<exists>E0 A B E1. mo_workspaces (example_monitor True) = [E0, A, B, E1] \<and> used A \<and> used B \<and> \<not> used E0 \<and> \<not> used E1 \<and>
     ws_name A = Some ''A'' \<and> ws_name B = Some ''B''"
    by (simp add: m p ws_new_unused)
  show "mo_active_workspace_idx (example_monitor True) = 1" "above_first (example_monitor True)"
    "mo_workspace_switch (example_monitor True) = None" by (simp_all add: m example_options_def)
  show "mo_windows (example_monitor b) = {#}"
    using mo_new_ok [OF example_own_workspaces, of example_output None "example_options b" None] example_monitor_new [of b]
    by simp
qed

theorem monitor_never_panics_witness:
  "\<exists>m'. monitor_step example_env (MoAddTile (example_tile 1) MonTargetAuto ActivateYes True (WidthFixed 800) False False)
      (example_monitor True) = Inr m' \<and> monitor_inv (\<lambda>_. None) m' \<and> mo_windows m' = {#1#}"
  using monitor_never_panics [OF example_monitor_reachable [of True],
      of "MoAddTile (example_tile 1) MonTargetAuto ActivateYes True (WidthFixed 800) False False"]
  by (simp add: example_monitor_shape(5) example_env_def example_tile_def)

subsection \<open>Cleaning up, exactly\<close>

text \<open>
  What is left of the first \<open>k\<close> workspaces once the loop has visited the indices from \<open>r\<close> below \<open>k\<close>, from the
  last to the first: those before \<open>r\<close>, the active one and the used ones.
\<close>

definition survives :: "nat \<Rightarrow> 'w monitor \<Rightarrow> nat \<Rightarrow> bool" where
  "survives r m i \<longleftrightarrow> i < r \<or> i = mo_active_workspace_idx m \<or> used (mo_workspaces m ! i)"

lemma clean_up_loop_exact:
  assumes "r \<le> k" "k < length (mo_workspaces m)"
  shows "clean_up_loop (rev [r..<k]) m = Inr (m\<lparr>
    mo_workspaces := map ((!) (mo_workspaces m)) (filter (survives r m) [0..<k]) @ drop k (mo_workspaces m),
    mo_active_workspace_idx := (if mo_active_workspace_idx m < k then length (filter (survives r m) [0..<mo_active_workspace_idx m])
      else length (filter (survives r m) [0..<k]) + (mo_active_workspace_idx m - k))\<rparr>)"
  using assms
proof (induction k arbitrary: m rule: dec_induct)
  case base
  have "filter (survives r m) [0..<j] = [0..<j]" if "j \<le> r" for j using that by (auto simp: filter_id_conv survives_def)
  moreover have "map ((!) (mo_workspaces m)) [0..<r] = take r (mo_workspaces m)"
    using base by (intro nth_equalityI) simp_all
  ultimately show ?case by simp
next
  case (step k)
  let ?wss = "mo_workspaces m" and ?a = "mo_active_workspace_idx m"
  have upt: "rev [r..<Suc k] = k # rev [r..<k]" using step(1) by simp
  have d: "drop k ?wss = ?wss ! k # drop (Suc k) ?wss" using step.prems by (simp add: Cons_nth_drop_Suc)
  show ?case
  proof (cases "survives r m k")
    case True
    then have keep: "?a = k \<or> used (?wss ! k)" using step(1) by (auto simp: survives_def)
    then have "clean_up_loop (rev [r..<Suc k]) m = clean_up_loop (rev [r..<k]) m"
      using step.prems unfolding upt by (auto simp: vec_simps)
    moreover have "k < length ?wss" using step.prems by simp
    note step.IH [OF this]
    ultimately show ?thesis using True by (cases "?a < k"; cases "?a = k") (simp_all add: d)
  next
    case False
    then have drop': "?a \<noteq> k" "\<not> used (?wss ! k)" by (simp_all add: survives_def)
    define m1 where "m1 = m\<lparr>mo_workspaces := take k ?wss @ drop (Suc k) ?wss,
      mo_active_workspace_idx := (if k < ?a then ?a - 1 else ?a)\<rparr>"
    have run: "clean_up_loop (rev [r..<Suc k]) m = clean_up_loop (rev [r..<k]) m1"
      using drop' step.prems unfolding upt by (simp add: vec_simps remove_workspace_at_def m1_def)
    have same: "survives r m1 i = survives r m i" "mo_workspaces m1 ! i = ?wss ! i" if "i < k" for i
      using that step.prems drop'(1) by (auto simp: survives_def m1_def nth_append)
    then have eq: "filter (survives r m1) [0..<j] = filter (survives r m) [0..<j]"
      "map ((!) (mo_workspaces m1)) (filter (survives r m) [0..<j]) = map ((!) ?wss) (filter (survives r m) [0..<j])" if "j \<le> k" for j
      using that by (auto intro!: filter_cong)
    have len: "k < length (mo_workspaces m1)" using step.prems by (simp add: m1_def)
    have fields: "drop k (mo_workspaces m1) = drop (Suc k) ?wss" "mo_active_workspace_idx m1 = (if k < ?a then ?a - 1 else ?a)"
      using step.prems by (simp_all add: m1_def)
    have upd: "m1\<lparr>mo_workspaces := x, mo_active_workspace_idx := y\<rparr> = m\<lparr>mo_workspaces := x, mo_active_workspace_idx := y\<rparr>" for x y
      by (simp add: m1_def)
    show ?thesis unfolding run step.IH [OF len] fields upd using False drop'(1)
      by (cases "?a < k") (auto simp: eq)
  qed
qed

text \<open>What is left after cleaning up: the edges, the active workspace and the used ones.\<close>

definition stays :: "'w monitor \<Rightarrow> nat \<Rightarrow> bool" where
  "stays m i \<longleftrightarrow> i = length (mo_workspaces m) - 1 \<or> (above_first m \<and> i = 0) \<or> i = mo_active_workspace_idx m \<or> used (mo_workspaces m ! i)"

definition staying :: "'w monitor \<Rightarrow> 'w lworkspace list" where
  "staying m = map ((!) (mo_workspaces m)) (filter (stays m) [0..<length (mo_workspaces m)])"

definition stay_before :: "'w monitor \<Rightarrow> nat \<Rightarrow> nat" where
  "stay_before m i = length (filter (stays m) [0..<i])"

lemma staying_nth:
  assumes "i < length (mo_workspaces m)" "stays m i"
  shows "stay_before m i < length (staying m)" "staying m ! stay_before m i = mo_workspaces m ! i"
proof -
  have "[0..<length (mo_workspaces m)] = [0..<i] @ i # [Suc i..<length (mo_workspaces m)]"
    using assms(1) upt_add_eq_append [of 0 i "length (mo_workspaces m) - i"] by (simp add: upt_conv_Cons)
  then show "stay_before m i < length (staying m)" "staying m ! stay_before m i = mo_workspaces m ! i"
    using assms(2) by (simp_all add: staying_def stay_before_def nth_append)
qed

lemma clean_up_loop_staying:
  assumes a: "mo_active_workspace_idx m < length (mo_workspaces m)" and r: "r = (if above_first m then 1 else 0)"
    and l: "l = length (mo_workspaces m) - 1" "r \<le> l"
  shows "clean_up_loop (rev [r..<l]) m =
    Inr (m\<lparr>mo_workspaces := staying m, mo_active_workspace_idx := stay_before m (mo_active_workspace_idx m)\<rparr>)"
proof -
  let ?wss = "mo_workspaces m" and ?a = "mo_active_workspace_idx m"
  have len: "l < length ?wss" "[0..<length ?wss] = [0..<l] @ [l]" "drop l ?wss = [?wss ! l]"
    using a by (cases ?wss rule: rev_cases; simp add: l(1))+
  have sv: "filter (survives r m) [0..<j] = filter (stays m) [0..<j]" if "j \<le> l" for j
    using that by (intro filter_cong) (auto simp: survives_def stays_def r l(1))
  have st: "staying m = map ((!) ?wss) (filter (stays m) [0..<l]) @ [?wss ! l]"
    by (simp add: staying_def len(2)) (simp add: stays_def l(1))
  show ?thesis
  proof (cases "?a < l")
    case True
    then show ?thesis unfolding clean_up_loop_exact [OF l(2) len(1)] len(3) st by (simp add: sv stay_before_def)
  next
    case False
    then have "?a = l" using a l(1) by linarith
    then show ?thesis unfolding clean_up_loop_exact [OF l(2) len(1)] len(3) st by (simp add: sv stay_before_def)
  qed
qed

lemma clean_up_workspaces_exact:
  assumes switch: "mo_workspace_switch m = None" and a: "mo_active_workspace_idx m < length (mo_workspaces m)"
    and two: "\<not> (above_first m \<and> length (staying m) = 2)"
  shows "clean_up_workspaces m =
    Inr (m\<lparr>mo_workspaces := staying m, mo_active_workspace_idx := stay_before m (mo_active_workspace_idx m)\<rparr>)"
proof (cases "above_first m \<and> length (mo_workspaces m) = 1")
  case True
  then obtain ws where "mo_workspaces m = [ws]" by (auto simp: length_Suc_conv)
  with True switch a show ?thesis
    by (simp add: clean_up_workspaces_def last_idx_def staying_def stay_before_def stays_def)
next
  case False
  have "(if above_first m then 1 else 0) \<le> length (mo_workspaces m) - 1" using a False by auto
  from clean_up_loop_staying [OF a refl refl this] show ?thesis
    using switch two a by (auto simp: clean_up_workspaces_def Let_def last_idx_def)
qed

lemma clean_up_workspaces_two:
  assumes switch: "mo_workspace_switch m = None" and a: "mo_active_workspace_idx m < length (mo_workspaces m)"
    and edges: "edges_ok True (mo_workspaces m)" and two: "above_first m" "length (staying m) = 2"
  shows "clean_up_workspaces m = Inr (m\<lparr>mo_workspaces := [hd (mo_workspaces m)], mo_active_workspace_idx := 0\<rparr>)"
    "filter used (mo_workspaces m) = []"
proof -
  let ?wss = "mo_workspaces m" and ?l = "length (mo_workspaces m) - 1"
  have "length (staying m) \<le> length ?wss" unfolding staying_def length_map by (rule order.trans [OF length_filter_le]) simp
  then have l: "1 \<le> ?l" using two(2) by simp
  have ends: "?wss ! 0 = hd ?wss" "?wss ! (length ?wss - Suc 0) = last ?wss"
    using edges by (simp_all add: edges_ok_def hd_conv_nth last_conv_nth)
  have sub: "{0, ?l} \<subseteq> set (filter (stays m) [0..<length ?wss])" using l two(1) by (auto simp: stays_def)
  have card: "card (set (filter (stays m) [0..<length ?wss])) = 2"
    using two(2) by (subst distinct_card) (simp_all add: staying_def)
  have set: "set (filter (stays m) [0..<length ?wss]) = {0, ?l}"
    by (rule card_subset_eq [symmetric, OF _ sub]) (use l card in auto)
  have "filter (stays m) [0..<length ?wss] = [0, ?l]"
    by (rule sorted_distinct_set_unique) (use l set in \<open>auto simp: sorted_wrt_filter\<close>)
  then have st: "staying m = [hd ?wss, last ?wss]" by (simp add: staying_def ends)
  from clean_up_loop_staying [OF a refl refl] l two(1)
  have "clean_up_loop (rev [1..<?l]) m = Inr (m\<lparr>mo_workspaces := [hd ?wss, last ?wss],
      mo_active_workspace_idx := stay_before m (mo_active_workspace_idx m)\<rparr>)" by (simp add: st)
  then show "clean_up_workspaces m = Inr (m\<lparr>mo_workspaces := [hd ?wss], mo_active_workspace_idx := 0\<rparr>)"
    using switch two(1) edges by (simp add: clean_up_workspaces_def Let_def last_idx_def edges_ok_def remove_workspace_at_def vec_simps)
  have "\<not> used (?wss ! i)" if i: "i < length ?wss" for i
  proof
    assume u: "used (?wss ! i)"
    then have "i \<in> set (filter (stays m) [0..<length ?wss])" using i by (simp add: stays_def)
    then show False using u edges ends unfolding set by (auto simp: edges_ok_def)
  qed
  then show "filter used ?wss = []" by (auto simp: filter_empty_conv in_set_conv_nth)
qed

text \<open>
  C17. Cleaning up a monitor without a switch, with any number of unused workspaces between empty edges, does
  not panic. It leaves exactly the edges (the last workspace, and the first with \<^verbatim>\<open>empty-workspace-above-first\<close>),
  the active workspace and those with windows or a name, in their order, and the active workspace stays
  active. The exception is \<^verbatim>\<open>empty-workspace-above-first\<close> when this would leave two workspaces, both
  empty: then only the first one is left, and it is active. The result satisfies the invariant, and no window is lost.
\<close>

theorem clean_up_drops_only_unused:
  assumes inv: "untidy_inv parent m" and switch: "mo_workspace_switch m = None"
  shows "\<exists>m'. clean_up_workspaces m = Inr m' \<and> monitor_inv parent m' \<and> mo_windows m' = mo_windows m \<and>
    (if above_first m \<and> length (staying m) = 2
     then mo_workspaces m' = [hd (mo_workspaces m)] \<and> mo_active_workspace_idx m' = 0 \<and> filter used (mo_workspaces m) = []
     else mo_workspaces m' = staying m \<and>
       mo_workspaces m' ! mo_active_workspace_idx m' = mo_workspaces m ! mo_active_workspace_idx m)"
proof -
  obtain m' where m': "clean_up_workspaces m = Inr m'" "monitor_inv parent m'" "cleaned_up m m'"
    using clean_up_workspaces_ok [OF inv switch] by (auto simp: returns_def)
  have a: "mo_active_workspace_idx m < length (mo_workspaces m)" and edges: "edges_ok (above_first m) (mo_workspaces m)"
    and w: "workspaces_inv parent m" using inv by (simp_all add: untidy_inv_def)
  have same: "mo_windows m' = mo_windows m" by (rule cleaned_up_workspaces_inv(2) [OF w m'(3)])
  show ?thesis
  proof (cases "above_first m \<and> length (staying m) = 2")
    case True
    then show ?thesis using m' same clean_up_workspaces_two [OF switch a _ conjunct1 conjunct2, OF _ True True] edges by auto
  next
    case False
    have "stays m (mo_active_workspace_idx m)" by (simp add: stays_def)
    with False show ?thesis using m' same clean_up_workspaces_exact [OF switch a False] staying_nth(2) [OF a] by auto
  qed
qed

text \<open>A monitor with two unused workspaces above the active one.\<close>

definition untidy_monitor :: "nat monitor" where
  "untidy_monitor = \<lparr>mo_output = example_output, mo_view = out_view example_output,
     mo_workspaces = [ws_new example_output DisplayNormal 0, ws_new example_output DisplayNormal 1, ws_new example_output DisplayNormal 2,
       named_workspace ''A'' 3, ws_new example_output DisplayNormal 4],
     mo_active_workspace_idx = 3, mo_previous_workspace_id = None, mo_workspace_switch = None, mo_overview_open = False,
     mo_base_options = example_options True, mo_options = example_options True, mo_layout_config = None, mo_next_id = 5\<rparr>"

theorem clean_up_drops_only_unused_witness:
  "\<exists>m'. clean_up_workspaces untidy_monitor = Inr m' \<and> monitor_inv (\<lambda>_. None) m' \<and> map ws_id (mo_workspaces m') = [0, 3, 4] \<and>
    ws_name (mo_workspaces m' ! mo_active_workspace_idx m') = Some ''A''"
proof -
  have inv: "untidy_inv (\<lambda>_. None) untidy_monitor"
    using ws_new_inv [OF no_parents_acyclic]
    by (simp add: untidy_inv_def untidy_monitor_def workspaces_inv_def edges_ok_def switch_inv_def options_ok_def with_merged_layout_def
        example_options_def ws_new_unused no_parents_acyclic)
  have st: "staying untidy_monitor = [ws_new example_output DisplayNormal 0, named_workspace ''A'' 3, ws_new example_output DisplayNormal 4]"
    by (simp add: staying_def stays_def untidy_monitor_def example_options_def ws_new_unused upt_rec)
  from clean_up_drops_only_unused [OF inv] show ?thesis unfolding st by (auto simp: untidy_monitor_def ws_new_unused)
qed

text \<open>
  C27. Going to another workspace and then to the previous one comes back to the workspace one started
  from, and the workspace visited in between is the new previous one.
\<close>

theorem previous_returns:
  assumes "monitor_reachable parent m" "idx < length (mo_workspaces m)" "idx \<noteq> mo_active_workspace_idx m"
  shows "\<exists>m1 m2. switch_workspace env idx m = Inr m1 \<and> mo_active_workspace_idx m1 = idx \<and>
    switch_workspace_previous env m1 = Inr m2 \<and> mo_active_workspace_idx m2 = mo_active_workspace_idx m \<and>
    mo_workspaces m2 = mo_workspaces m \<and> mo_previous_workspace_id m2 = Some (ws_id (mo_workspaces m ! idx))"
proof -
  note inv = monitor_reachable_inv [OF assms(1)]
  let ?a = "mo_active_workspace_idx m" and ?wss = "mo_workspaces m"
  have min: "min idx (length ?wss - 1) = idx" using assms(2) by simp
  obtain m1 where m1: "switch_workspace env idx m = Inr m1" "mo_keeps parent m m1" "activated idx m m1"
    using switch_workspace_ok [OF inv, of env idx] unfolding min by (auto simp: returns_def)
  note f1 = activatedD [OF m1(3)]
  have prev: "mo_previous_workspace_id m1 = Some (ws_id (?wss ! ?a))" using m1(3) assms(3) by (simp add: activated_def)
  have "\<exists>ws \<in> set ?wss. ws_id ws = ws_id (?wss ! ?a)" using monitor_invD(5) [OF inv] nth_mem by blast
  then obtain j where j: "position (\<lambda>ws. ws_id ws = ws_id (?wss ! ?a)) ?wss = Some j" "j < length ?wss" "ws_id (?wss ! j) = ws_id (?wss ! ?a)"
    using position_ex [of ?wss "\<lambda>ws. ws_id ws = ws_id (?wss ! ?a)"] by blast
  have "distinct (map ws_id ?wss)" using monitor_invD(4) [OF inv] by (simp add: workspaces_inv_def)
  then have "j = ?a" using j monitor_invD(5) [OF inv] by (simp add: distinct_conv_nth) metis
  then have idx: "previous_workspace_idx m1 = Some ?a" using j(1) by (simp add: previous_workspace_idx_def prev f1)
  have min': "min ?a (length (mo_workspaces m1) - 1) = ?a" using monitor_invD(5) [OF inv] by (simp add: f1)
  have inv1: "monitor_inv parent m1" using m1(2) by (simp add: mo_keeps_def)
  obtain m2 where m2: "switch_workspace env ?a m1 = Inr m2" "activated ?a m1 m2"
    using switch_workspace_ok [OF inv1, of env ?a] unfolding min' by (auto simp: returns_def)
  note f2 = activatedD [OF m2(2)]
  have "mo_previous_workspace_id m2 = Some (ws_id (?wss ! idx))" using m2(2) assms(3) f1 by (simp add: activated_def)
  with m1(1) m2(1) idx f1 f2 show ?thesis by (simp add: switch_workspace_previous_def)
qed

theorem previous_returns_witness:
  "\<exists>m1 m2. switch_workspace example_env 2 (example_monitor True) = Inr m1 \<and>
    switch_workspace_previous example_env m1 = Inr m2 \<and> mo_active_workspace_idx m2 = 1"
proof -
  have len: "2 < length (mo_workspaces (example_monitor True))" using example_monitor_shape(1) by force
  show ?thesis
    using previous_returns [OF example_monitor_reachable [of True] len, of example_env] by (auto simp: example_monitor_shape(2))
qed

text \<open>
  C28. Ending a workspace switch gesture, whatever its motion was, picks a workspace that exists, starts
  the animation from where the gesture is to that workspace, and with a clamped gesture it is at most
  one workspace away from where the gesture began.
\<close>

theorem gesture_lands_on_workspace:
  assumes "monitor_reachable parent m" "mo_workspace_switch m = Some (SwitchGesture g)"
    "is_touchpad = None \<or> is_touchpad = Some (ge_is_touchpad g)"
  shows "\<exists>m' idx. workspace_switch_gesture_end height now is_touchpad m = Inr (m', True) \<and> monitor_inv parent m' \<and>
    mo_workspaces m' = mo_workspaces m \<and> mo_active_workspace_idx m' = idx \<and> idx < length (mo_workspaces m) \<and>
    mo_workspace_switch m' = Some (SwitchAnimation (ge_current_idx g) (real idx)) \<and>
    (ge_is_clamped g \<longrightarrow> ge_center_idx g \<le> idx + 1 \<and> idx \<le> ge_center_idx g + 1)"
proof -
  obtain m' idx where end_run: "workspace_switch_gesture_end height now is_touchpad m = Inr (m', True)" "mo_keeps parent m m'"
    and act: "activated idx m m'" and idx: "idx < length (mo_workspaces m)"
      "mo_workspace_switch m' = Some (SwitchAnimation (ge_current_idx g) (real idx))"
      "ge_is_clamped g \<longrightarrow> ge_center_idx g - 1 \<le> idx \<and> idx \<le> ge_center_idx g + 1"
    using gesture_end_ok [OF monitor_reachable_inv [OF assms(1)] assms(2,3), of height now] by (auto simp: returns_def)
  note f = activatedD [OF act]
  from end_run idx f show ?thesis by (auto simp: mo_keeps_def)
qed

theorem gesture_lands_on_workspace_witness:
  "\<exists>m'. workspace_switch_gesture_end 1000 5 (Some True)
      (workspace_switch_gesture_begin example_env True (example_monitor True)) = Inr (m', True) \<and>
    mo_active_workspace_idx m' < 4"
proof -
  define m where "m = workspace_switch_gesture_begin example_env True (example_monitor True)"
  have r: "monitor_reachable (env_parent example_env) m"
    by (rule monitor_reachable.step [OF example_monitor_reachable [of True], of "MoGestureBegin True"]) (simp_all add: m_def)
  obtain g where g: "mo_workspace_switch m = Some (SwitchGesture g)" "ge_is_touchpad g"
    by (simp add: m_def workspace_switch_gesture_begin_def new_gesture_def Let_def)
  have "length (mo_workspaces m) = 4" using example_monitor_shape(1)
    by (auto simp: m_def workspace_switch_gesture_begin_def new_gesture_def Let_def)
  with gesture_lands_on_workspace [OF r g(1), of "Some True" 1000 5] g(2) show ?thesis unfolding m_def [symmetric] by auto
qed

text \<open>
  C19. Moving a window, or the focused one, to another workspace of the monitor puts it on the workspace
  that was at that index, counting past the end as the last; no window is lost, and workspaces that
  became empty are gone.
\<close>

theorem move_to_workspace_arrives:
  assumes "monitor_reachable (env_parent env) m" "\<And>w. window = Some w \<Longrightarrow> w \<in># mo_windows m"
  shows "\<exists>m'. move_to_workspace env window idx activate m = Inr m' \<and> monitor_inv (env_parent env) m' \<and>
    mo_windows m' = mo_windows m \<and>
    (\<forall>w. moving window m w \<longrightarrow> lives_on w (ws_id (mo_workspaces m ! min idx (length (mo_workspaces m) - 1))) m')"
  using move_to_workspace_ok [OF monitor_reachable_inv [OF assms(1)] assms(2), of window idx activate]
  by (auto simp: returns_def mo_keeps_def)

theorem move_to_workspace_arrives_witness:
  "\<exists>m m'. monitor_reachable (\<lambda>_. None) m \<and> 1 \<in># mo_windows m \<and>
    move_to_workspace example_env (Some (1 :: nat)) 2 ActivateNo m = Inr m' \<and>
    lives_on 1 (ws_id (mo_workspaces m ! min 2 (length (mo_workspaces m) - 1))) m'"
proof -
  let ?op = "MoAddTile (example_tile 1) MonTargetAuto ActivateYes True (WidthFixed 800) False False :: nat monitor_op"
  have ok: "monitor_op_ok (env_parent example_env) ?op (example_monitor True)" by (simp add: example_monitor_shape(5))
  obtain m where m: "monitor_step example_env ?op (example_monitor True) = Inr m" "mo_windows m = {#1#}"
    using monitor_step_ok [OF monitor_reachable_inv [OF example_monitor_reachable] ok]
    by (auto simp: returns_def mo_changes_def example_monitor_shape(5) example_tile_def)
  have r: "monitor_reachable (env_parent example_env) m"
    by (rule monitor_reachable.step [OF example_monitor_reachable ok m(1)])
  have "1 \<in># mo_windows m" using m(2) by simp
  then show ?thesis using move_to_workspace_arrives [OF r, of "Some 1" 2 ActivateNo] r
    by (auto simp: moving_def example_env_def)
qed

text \<open>
  C29. A switch between workspaces comes to rest: once the gesture, if there is one, ends, and the
  animation is done, no switch is left, the workspace in focus is the one the switch went to (or one
  of the empty ones, when all are), and the workspaces are tidy.
\<close>

theorem switch_settles:
  assumes "monitor_reachable (env_parent env) m"
  shows "\<exists>m1 m2. monitor_step env (MoGestureEnd height now None) m = Inr m1 \<and>
    monitor_step env (MoAdvanceAnimations True now') m1 = Inr m2 \<and> mo_workspace_switch m2 = None \<and>
    tidy (above_first m2) (mo_active_workspace_idx m2) (mo_workspaces m2) \<and> mo_windows m2 = mo_windows m \<and>
    (mo_workspaces m2 ! mo_active_workspace_idx m2 = mo_workspaces m1 ! mo_active_workspace_idx m1 \<or>
     filter used (mo_workspaces m1) = [])"
proof -
  let ?p = "env_parent env"
  note inv = monitor_reachable_inv [OF assms]
  have "returns (workspace_switch_gesture_end height now None m) (\<lambda>(m1, _). mo_keeps ?p m m1 \<and>
      (\<forall>g. mo_workspace_switch m1 \<noteq> Some (SwitchGesture g)))"
  proof (cases "\<exists>g. mo_workspace_switch m = Some (SwitchGesture g)")
    case True
    then obtain g where g: "mo_workspace_switch m = Some (SwitchGesture g)" ..
    show ?thesis by (rule returns_mono [OF gesture_end_ok [OF inv g]]) auto
  next
    case False
    then show ?thesis using mo_keeps_refl [OF inv]
      by (auto simp: workspace_switch_gesture_end_def split: option.split workspace_switch.split)
  qed
  then obtain m1 where m1: "monitor_step env (MoGestureEnd height now None) m = Inr m1" "mo_keeps ?p m m1"
    and no_gesture: "\<And>g. mo_workspace_switch m1 \<noteq> Some (SwitchGesture g)"
    by (auto simp: returns_def first_of_def)
  have inv1: "monitor_inv ?p m1" using m1(2) by (simp add: mo_keeps_def)
  define m1' where "m1' = m1\<lparr>mo_workspace_switch := None\<rparr>"
  have "untidy_inv ?p m1'" using monitor_invD(1) [OF inv1] by (simp add: untidy_inv_def switch_inv_def m1'_def)
  then obtain mc where mc: "clean_up_workspaces m1' = Inr mc" "monitor_inv ?p mc" "cleaned_up m1' mc"
    using clean_up_workspaces_ok [of ?p m1'] by (auto simp: returns_def m1'_def)
  have wins: "mo_windows mc = mo_windows m1"
    using cleaned_up_workspaces_inv(2) [OF _ mc(3)] monitor_invD(4) [OF inv1] by (simp add: m1'_def)
  show ?thesis
  proof (cases "mo_workspace_switch m1")
    case None
    then have "monitor_step env (MoAdvanceAnimations True now') m1 = Inr m1" by (simp add: mo_advance_animations_def)
    with m1 None inv1 show ?thesis by (auto simp: mo_keeps_def monitor_inv_def)
  next
    case (Some s)
    with no_gesture obtain x y where "mo_workspace_switch m1 = Some (SwitchAnimation x y)" by (cases s) auto
    then have step: "monitor_step env (MoAdvanceAnimations True now') m1 = Inr mc"
      using mc(1) by (simp add: mo_advance_animations_def m1'_def)
    have "mo_workspace_switch mc = None" using mc(3) by (auto simp: cleaned_up_def m1'_def)
    moreover have "mo_workspaces mc ! mo_active_workspace_idx mc = mo_workspaces m1 ! mo_active_workspace_idx m1 \<or>
        filter used (mo_workspaces m1) = []" using mc(3) by (auto simp: cleaned_up_def m1'_def)
    ultimately show ?thesis using m1 step mc(2) wins by (auto simp: mo_keeps_def monitor_inv_def)
  qed
qed

theorem switch_settles_witness:
  "\<exists>m1 m2. monitor_step example_env (MoGestureEnd 1000 5 None) (workspace_switch_gesture_begin example_env True (example_monitor True)) = Inr m1 \<and>
    monitor_step example_env (MoAdvanceAnimations True 9) m1 = Inr m2 \<and> mo_workspace_switch m2 = None"
proof -
  have r: "monitor_reachable (env_parent example_env) (workspace_switch_gesture_begin example_env True (example_monitor True))"
    by (rule monitor_reachable.step [OF example_monitor_reachable [of True], of "MoGestureBegin True"]) simp_all
  show ?thesis using switch_settles [OF r, of 1000 5 9] by blast
qed

subsection \<open>A flaw\<close>

text \<open>
  C40. With \<^verbatim>\<open>empty-workspace-above-first\<close>, \<open>move_workspace_to_idx\<close> to the top compares the active index with
  \<open>old_idx\<close> after the new workspace above the first has shifted the former but not the latter. When the
  workspace that is moved, which is in use and not the last, is the one directly below the focused one,
  it takes the focus; when it is the focused one, the focus goes to the workspace above it; and in every other
  case the focus stays where it was. The comment asks to refocus the moved workspace only if it was focused.
\<close>

theorem move_workspace_to_top_focus:
  assumes above: "above_first m" and a: "mo_active_workspace_idx m < length (mo_workspaces m)"
    and j: "0 < j" "j < length (mo_workspaces m) - 1" "used (mo_workspaces m ! j)"
  shows "\<exists>m'. move_workspace_to_idx j 0 m = Inr m' \<and> mo_active_workspace_idx m' < length (mo_workspaces m') \<and>
    mo_workspaces m' ! mo_active_workspace_idx m' = mo_workspaces m !
      (if j = mo_active_workspace_idx m + 1 then j
       else if j = mo_active_workspace_idx m then j - 1 else mo_active_workspace_idx m)"
proof -
  let ?wss = "mo_workspaces m" and ?a = "mo_active_workspace_idx m"
  define T where "T = (ws_new (mo_output m) (lo_default_column_display (mo_options m)) (mo_next_id m) :: 'a lworkspace)"
  define moved where "moved = T # ?wss ! j # take j ?wss @ drop (Suc j) ?wss"
  define a' where "a' = (if j = ?a + 1 then 1 else if j \<le> ?a then ?a + 1 else ?a + 2)"
  define m1 where "m1 = m\<lparr>mo_workspaces := moved, mo_next_id := mo_next_id m + 1, mo_active_workspace_idx := a', mo_workspace_switch := None\<rparr>"
  have len: "length moved = length ?wss + 1" using j by (simp add: moved_def)
  have run: "move_workspace_to_idx j 0 m = clean_up_workspaces m1"
    using j above by (auto simp: move_workspace_to_idx_def Let_def vec_simps add_workspace_top_def add_workspace_at_def
        T_def [symmetric] m1_def moved_def a'_def)
  have active: "moved ! a' = ?wss ! (if j = ?a + 1 then j else if j = ?a then j - 1 else ?a)" "a' < length moved"
  proof -
    have rest: "(take j ?wss @ drop (Suc j) ?wss) ! i = ?wss ! (if i < j then i else i + 1)" if "i < length ?wss - 1" for i
      using that j by (auto simp: nth_append)
    consider "j = ?a + 1" | "j = ?a" | "j < ?a" | "?a + 1 < j" by linarith
    then show "moved ! a' = ?wss ! (if j = ?a + 1 then j else if j = ?a then j - 1 else ?a)"
    proof cases
      case 2
      then show ?thesis using rest [of "j - 1"] j by (simp add: a'_def moved_def nth_Cons')
    next
      case 3
      then show ?thesis using rest [of "?a - 1"] a by (simp add: a'_def moved_def nth_Cons')
    next
      case 4
      then show ?thesis using rest [of ?a] j by (simp add: a'_def moved_def nth_Cons')
    qed (simp add: a'_def moved_def)
    show "a' < length moved" using a j by (auto simp: a'_def len)
  qed
  have three: "length (staying m1) \<noteq> 2"
  proof -
    have "{0, 1, length ?wss} \<subseteq> set (filter (stays m1) [0..<length moved])"
      using j above by (auto simp: stays_def m1_def len moved_def)
    then have "card {0, 1, length ?wss} \<le> card (set (filter (stays m1) [0..<length moved]))" by (rule card_mono [rotated]) simp
    also have "\<dots> = length (staying m1)" by (subst distinct_card) (simp_all add: staying_def m1_def)
    finally show ?thesis using j by (auto simp: card_insert_if split: if_splits)
  qed
  have "clean_up_workspaces m1 = Inr (m1\<lparr>mo_workspaces := staying m1, mo_active_workspace_idx := stay_before m1 a'\<rparr>)"
    using clean_up_workspaces_exact [of m1] three active(2) by (simp add: m1_def)
  moreover have "stay_before m1 a' < length (staying m1)" "staying m1 ! stay_before m1 a' = moved ! a'"
    using staying_nth [of a' m1] active(2) by (simp_all add: m1_def stays_def)
  ultimately show ?thesis by (simp add: run active(1))
qed

theorem move_workspace_to_top_focus_witness:
  "\<exists>m'. move_workspace_to_idx 2 0 (example_monitor True) = Inr m' \<and>
    ws_name (mo_workspaces (example_monitor True) ! mo_active_workspace_idx (example_monitor True)) = Some ''A'' \<and>
    ws_name (mo_workspaces m' ! mo_active_workspace_idx m') = Some ''B''"
proof -
  obtain E0 A B E1 where wss: "mo_workspaces (example_monitor True) = [E0, A, B, E1]" "used A" "used B" "\<not> used E0" "\<not> used E1"
    "ws_name A = Some ''A''" "ws_name B = Some ''B''" using example_monitor_shape(1) by blast
  show ?thesis using move_workspace_to_top_focus [OF example_monitor_shape(3), of 2] wss
    by (auto simp: example_monitor_shape(2))
qed

end
