(* ===== verification/Insert_Position.thy ===== *)
theory Insert_Position
  imports Monitor_Properties
begin

text \<open>
  Where a dragged window is dropped: \<^verbatim>\<open>insert_position\<close> of \<^verbatim>\<open>monitor.rs\<close>, which finds the workspace or
  the gap between workspaces under the pointer, and \<^verbatim>\<open>insert_position\<close> of \<^verbatim>\<open>scrolling.rs\<close>, which finds the
  closest gap between the columns of a workspace or between the tiles of a column.

  The sizes that the code reads for this, and everything else that the layout reads about the
  picture on the screen, are collected in a record: the widths of columns and heights of tiles, the
  scroll position of a view, the zoom of the overview and the place of the workspaces in it, the
  column that a finished view gesture snaps to, where a dragged tile is drawn, and the time.
\<close>

record 'w geometry =
  gm_gaps :: real
  gm_column_width :: "'w column \<Rightarrow> real"
  gm_tiles_origin_y :: "'w column \<Rightarrow> real"
  gm_tile_height :: "'w tile \<Rightarrow> real"
  gm_view_pos :: "'w scrolling_space \<Rightarrow> real"
  gm_snap :: "'w scrolling_space \<Rightarrow> nat option"
  gm_zoom :: "'w monitor \<Rightarrow> real"
  gm_workspace_size :: "'w monitor \<Rightarrow> extent"
  gm_workspace_gap :: "'w monitor \<Rightarrow> real"
  gm_first_workspace_loc :: "'w monitor \<Rightarrow> point"
  gm_intersects_output :: "'w monitor \<Rightarrow> rectangle \<Rightarrow> bool"
  gm_gesture_height :: "'w monitor \<Rightarrow> real"
  gm_overview_zoom :: real
  gm_tile_render_location :: "'w tile \<Rightarrow> point \<Rightarrow> real \<times> real \<Rightarrow> real \<Rightarrow> point"
  gm_now :: nat

datatype insert_position = NewColumn nat | InColumn nat nat | InsertFloating

datatype insert_workspace_type = Existing nat | NewAt nat

subsection \<open>Within a workspace\<close>

text \<open>The left edges of the columns, and one past the last; likewise the top edges of the tiles.\<close>

fun column_xs :: "real \<Rightarrow> real \<Rightarrow> real list \<Rightarrow> real list" where
  "column_xs gaps x [] = [x]"
| "column_xs gaps x (width # widths) = x # column_xs gaps (x + width + gaps) widths"

fun tile_ys :: "real \<Rightarrow> bool \<Rightarrow> real \<Rightarrow> real list \<Rightarrow> real list" where
  "tile_ys gaps tabbed y [] = [y]"
| "tile_ys gaps tabbed y (height # heights) = y # tile_ys gaps tabbed (if tabbed then y else y + height + gaps) heights"

definition col_tile_ys :: "'w geometry \<Rightarrow> 'w column \<Rightarrow> real list" where
  "col_tile_ys geo col =
     tile_ys (gm_gaps geo) (col_display_mode col = DisplayTabbed) (gm_tiles_origin_y geo col)
       (map (gm_tile_height geo) (col_tiles col))"

definition closest :: "real \<Rightarrow> real list \<Rightarrow> (nat \<times> real) res" where
  "closest x xs = unwrap (min_by (\<lambda>(_, x'). \<bar>x' - x\<bar>) (enumerate 0 xs))"

definition closest_tile :: "'w geometry \<Rightarrow> real \<Rightarrow> 'w column \<Rightarrow> (nat \<times> real) res" where
  "closest_tile geo y col =
     (if col_display_mode col = DisplayTabbed
      then bind_res (vec_index (col_tile_ys geo col) (col_active_tile_idx col)) (\<lambda>t.
           bind_res (vec_index (col_tiles col) (col_active_tile_idx col)) (\<lambda>tile.
           let bottom = t + gm_tile_height geo tile
           in Inr (if \<bar>t - y\<bar> \<le> \<bar>bottom - y\<bar> then (col_active_tile_idx col, t)
                   else (col_active_tile_idx col + 1, bottom))))
      else closest y (col_tile_ys geo col))"

definition sc_insert_position :: "'w geometry \<Rightarrow> point \<Rightarrow> 'w scrolling_space \<Rightarrow> insert_position res" where
  "sc_insert_position geo pos s =
     (if sc_columns s = [] then Inr (NewColumn 0)
      else let x = pt_x pos + gm_view_pos geo s + gm_gaps geo / 2;
               y = pt_y pos + gm_gaps geo / 2;
               xs = column_xs (gm_gaps geo) 0 (map (gm_column_width geo) (sc_columns s))
      in if x < 0 then Inr (NewColumn 0)
         else bind_res (closest x xs) (\<lambda>(closest_col_idx, col_x).
           let before = takeWhile (\<lambda>(_, col_x). col_x \<le> x) (enumerate 0 xs);
               col_idx = (if before = [] then 0 else fst (last before))
           in if col_idx = length (sc_columns s) then Inr (NewColumn closest_col_idx)
              else bind_res (vec_index (sc_columns s) col_idx) (\<lambda>col.
                   bind_res (closest_tile geo y col) (\<lambda>(closest_tile_idx, tile_y).
                     Inr (if \<bar>col_x - x\<bar> \<le> \<bar>tile_y - y\<bar> then NewColumn closest_col_idx
                          else InColumn col_idx closest_tile_idx)))))"

subsection \<open>Between workspaces\<close>

definition workspaces_render_geo :: "'w geometry \<Rightarrow> 'w monitor \<Rightarrow> rectangle list" where
  "workspaces_render_geo geo m =
     (let ws_height_with_gap = sz_h (gm_workspace_size geo m) + gm_workspace_gap geo m
      in map (\<lambda>idx. \<lparr>rc_loc = \<lparr>pt_x = pt_x (gm_first_workspace_loc geo m),
                              pt_y = pt_y (gm_first_workspace_loc geo m) + real idx * ws_height_with_gap\<rparr>,
                     rc_size = gm_workspace_size geo m\<rparr>)
           [0..<length (mo_workspaces m) + 1])"

definition workspaces_with_render_geo_idx ::
  "'w geometry \<Rightarrow> 'w monitor \<Rightarrow> ((nat \<times> 'w lworkspace) \<times> rectangle) list" where
  "workspaces_with_render_geo_idx geo m =
     filter (\<lambda>(_, r). gm_intersects_output geo m r) (zip (enumerate 0 (mo_workspaces m)) (workspaces_render_geo geo m))"

definition rect_contains_y :: "real \<Rightarrow> rectangle \<Rightarrow> bool" where
  "rect_contains_y y r \<longleftrightarrow> pt_y (rc_loc r) \<le> y \<and> y < pt_y (rc_loc r) + sz_h (rc_size r)"

definition zero_rect :: rectangle where
  "zero_rect = \<lparr>rc_loc = \<lparr>pt_x = 0, pt_y = 0\<rparr>, rc_size = \<lparr>sz_w = 0, sz_h = 0\<rparr>\<rparr>"

definition gap_between :: "rectangle \<Rightarrow> rectangle \<Rightarrow> rectangle" where
  "gap_between last_geo r =
     (let gap_y = pt_y (rc_loc last_geo) + sz_h (rc_size last_geo)
      in \<lparr>rc_loc = \<lparr>pt_x = pt_x (rc_loc last_geo), pt_y = gap_y\<rparr>,
          rc_size = \<lparr>sz_w = sz_w (rc_size r), sz_h = pt_y (rc_loc r) - gap_y\<rparr>\<rparr>)"

fun insert_position_loop ::
  "real \<Rightarrow> rectangle \<Rightarrow> nat \<Rightarrow> ((nat \<times> 'w lworkspace) \<times> rectangle) list \<Rightarrow> insert_workspace_type \<times> rectangle" where
  "insert_position_loop y last_geo last_index [] = (NewAt (last_index + 1), zero_rect)"
| "insert_position_loop y last_geo last_index (((idx, ws), r) # rest) =
     (if rect_contains_y y (gap_between last_geo r) then (NewAt idx, zero_rect)
      else if rect_contains_y y r then (Existing (ws_id ws), r)
      else insert_position_loop y r idx rest)"

definition mo_insert_position :: "'w geometry \<Rightarrow> point \<Rightarrow> 'w monitor \<Rightarrow> (insert_workspace_type \<times> rectangle) res" where
  "mo_insert_position geo pos m =
     (case workspaces_with_render_geo_idx geo m of
        [] \<Rightarrow> Inl UnwrapNone
      | ((idx, ws), r) # rest \<Rightarrow>
          Inr (if pt_y pos < pt_y (rc_loc r) then (NewAt idx, zero_rect)
               else if rect_contains_y (pt_y pos) r then (Existing (ws_id ws), r)
               else insert_position_loop (pt_y pos) r idx rest))"

subsection \<open>Lemmas\<close>

lemma length_column_xs [simp]: "length (column_xs gaps x widths) = length widths + 1"
  by (induction widths arbitrary: x) simp_all

lemma length_tile_ys [simp]: "length (tile_ys gaps tabbed y heights) = length heights + 1"
  by (induction heights arbitrary: y) simp_all

lemma min_by_in:
  assumes "xs \<noteq> []"
  shows "\<exists>x. min_by key xs = Some x \<and> x \<in> set xs \<and> (\<forall>y \<in> set xs. key x \<le> key y)"
proof -
  obtain a as where xs: "xs = a # as" using assms by (cases xs) auto
  have "let x = fold (\<lambda>y best. if key y < key best then y else best) as a
    in x \<in> set (a # as) \<and> (\<forall>y \<in> set (a # as). key x \<le> key y)"
  proof (induction as rule: rev_induct)
    case (snoc b as)
    then show ?case by (auto simp: Let_def)
  qed simp
  then show ?thesis by (simp add: xs Let_def)
qed

lemma closest_ok:
  assumes "xs \<noteq> []"
  shows "returns (closest x xs) (\<lambda>(i, x'). i < length xs \<and> x' = xs ! i \<and> (\<forall>y \<in> set xs. \<bar>x' - x\<bar> \<le> \<bar>y - x\<bar>))"
proof -
  have "enumerate 0 xs \<noteq> []" using assms by (cases xs) simp_all
  from min_by_in [OF this, of "\<lambda>(_, x'). \<bar>x' - x\<bar>"] obtain i x' where
    m: "min_by (\<lambda>(_, x'). \<bar>x' - x\<bar>) (enumerate 0 xs) = Some (i, x')" "(i, x') \<in> set (enumerate 0 xs)"
    "\<And>y. y \<in> set (enumerate 0 xs) \<Longrightarrow> \<bar>x' - x\<bar> \<le> \<bar>snd y - x\<bar>" by (fastforce split: prod.splits)
  have "\<bar>x' - x\<bar> \<le> \<bar>y - x\<bar>" if "y \<in> set xs" for y
  proof -
    obtain j where "j < length xs" "xs ! j = y" using \<open>y \<in> set xs\<close> by (auto simp: in_set_conv_nth)
    then have "(j, y) \<in> set (enumerate 0 xs)" by (auto simp: in_set_enumerate_eq)
    from m(3) [OF this] show ?thesis by simp
  qed
  with m(1,2) show ?thesis by (auto simp: closest_def in_set_enumerate_eq)
qed

end
