(* ===== verification/Layout.thy ===== *)
theory Layout
  imports Insert_Position
begin

text \<open>
  The layout, \<^verbatim>\<open>Layout\<close> of \<^verbatim>\<open>src/layout/mod.rs\<close>: the connected monitors with the active and the primary
  one among them, or, while no output is connected, the workspaces that wait for one; the window
  that is being dragged; and what is remembered for outputs that were disconnected. This theory has
  the data, the loops over monitors and workspaces, the connecting and disconnecting of outputs, the
  opening of windows, and named workspaces.

  Outputs are compared by identity. The global counter of workspace identifiers is a field of the
  layout; an operation on a monitor starts from its value and leaves its value behind.
\<close>

record 'w interactive_move_data =
  im_tile :: "'w tile"
  im_output :: loutput
  im_pointer_pos_within_output :: point
  im_width :: column_width
  im_is_full_width :: bool
  im_is_floating :: bool
  im_pointer_ratio_within_window :: "real \<times> real"
  im_output_config :: "layout_part option"
  im_workspace_config :: "(nat \<times> column_display) option"

datatype 'w interactive_move = Starting 'w point "real \<times> real" | Moving "'w interactive_move_data"

datatype 'w monitor_set = Normal "'w monitor list" nat nat | NoOutputs "'w lworkspace list"

record 'w layout =
  la_monitor_set :: "'w monitor_set"
  la_last_active_workspace_id :: "string \<rightharpoonup> nat"
  la_interactive_move :: "'w interactive_move option"
  la_overview_open :: bool
  la_options :: layout_options
  la_next_id :: nat

datatype 'w add_window_target = AddAuto | AddOutput loutput | AddWorkspace nat | AddNextTo 'w

datatype workspace_reference = RefId nat | RefIndex nat | RefName string

definition with_options_and_workspaces :: "workspace_config list \<Rightarrow> layout_options \<Rightarrow> nat \<Rightarrow> 'w layout" where
  "with_options_and_workspaces configs options next_id =
     \<lparr>la_monitor_set = NoOutputs (map (\<lambda>(i, config).
        ws_new_with_config_no_outputs (Some config) (lo_default_column_display options) i) (enumerate next_id configs)),
      la_last_active_workspace_id = Map.empty, la_interactive_move = None, la_overview_open = False,
      la_options = options, la_next_id = next_id + length configs\<rparr>"

subsection \<open>Loops\<close>

fun map_res :: "('a \<Rightarrow> 'b res) \<Rightarrow> 'a list \<Rightarrow> 'b list res" where
  "map_res f [] = Inr []"
| "map_res f (x # xs) = bind_res (f x) (\<lambda>y. bind_res (map_res f xs) (\<lambda>ys. Inr (y # ys)))"

text \<open>A loop that returns from the function at the first element for which the body says so.\<close>

fun until_found :: "('a \<Rightarrow> ('a \<times> bool) res) \<Rightarrow> nat \<Rightarrow> 'a list \<Rightarrow> ('a list \<times> nat option) res" where
  "until_found f idx [] = Inr ([], None)"
| "until_found f idx (x # xs) =
     bind_res (f x) (\<lambda>(x, found).
       if found then Inr (x # xs, Some idx)
       else bind_res (until_found f (idx + 1) xs) (\<lambda>(xs, r). Inr (x # xs, r)))"

definition with_counter :: "nat \<Rightarrow> 'w monitor \<Rightarrow> 'w monitor" where
  "with_counter n m = m\<lparr>mo_next_id := n\<rparr>"

text \<open>A loop over the monitors that may create workspaces.\<close>

fun map_monitors :: "('w monitor \<Rightarrow> 'w monitor res) \<Rightarrow> nat \<Rightarrow> 'w monitor list \<Rightarrow> ('w monitor list \<times> nat) res" where
  "map_monitors f n [] = Inr ([], n)"
| "map_monitors f n (m # ms) =
     bind_res (f (with_counter n m)) (\<lambda>m.
     bind_res (map_monitors f (mo_next_id m) ms) (\<lambda>(ms, n). Inr (m # ms, n)))"

definition monitors_mut :: "('w monitor \<Rightarrow> 'w monitor res) \<Rightarrow> 'w layout \<Rightarrow> 'w layout res" where
  "monitors_mut f l =
     (case la_monitor_set l of
        Normal mons p a \<Rightarrow> bind_res (map_monitors f (la_next_id l) mons) (\<lambda>(mons, n).
          Inr (l\<lparr>la_monitor_set := Normal mons p a, la_next_id := n\<rparr>))
      | NoOutputs wss \<Rightarrow> Inr l)"

definition workspaces_mut :: "('w lworkspace \<Rightarrow> 'w lworkspace res) \<Rightarrow> 'w layout \<Rightarrow> 'w layout res" where
  "workspaces_mut f l =
     (case la_monitor_set l of
        Normal mons p a \<Rightarrow>
          bind_res (map_res (\<lambda>m. bind_res (map_res f (mo_workspaces m)) (\<lambda>wss. Inr (m\<lparr>mo_workspaces := wss\<rparr>))) mons) (\<lambda>mons.
            Inr (l\<lparr>la_monitor_set := Normal mons p a\<rparr>))
      | NoOutputs wss \<Rightarrow> bind_res (map_res f wss) (\<lambda>wss. Inr (l\<lparr>la_monitor_set := NoOutputs wss\<rparr>)))"

definition la_workspaces :: "'w layout \<Rightarrow> 'w lworkspace list" where
  "la_workspaces l =
     (case la_monitor_set l of Normal mons p a \<Rightarrow> concat (map mo_workspaces mons) | NoOutputs wss \<Rightarrow> wss)"

definition moving_window :: "'w layout \<Rightarrow> 'w option" where
  "moving_window l =
     (case la_interactive_move l of Some (Moving move) \<Rightarrow> Some (tl_window (im_tile move)) | _ \<Rightarrow> None)"

definition la_window_list :: "'w layout \<Rightarrow> 'w list" where
  "la_window_list l =
     (case moving_window l of Some w \<Rightarrow> [w] | None \<Rightarrow> []) @
     concat (map (\<lambda>ws. map tl_window (ws_tiles ws)) (la_workspaces l))"

definition la_has_window :: "'w \<Rightarrow> 'w layout \<Rightarrow> bool" where
  "la_has_window window l = list_ex (\<lambda>w. w = window) (la_window_list l)"

definition is_output :: "loutput \<Rightarrow> 'w monitor \<Rightarrow> bool" where
  "is_output out m \<longleftrightarrow> out_handle (mo_output m) = out_handle out"

definition monitor_for_output :: "loutput \<Rightarrow> 'w layout \<Rightarrow> 'w monitor option" where
  "monitor_for_output out l =
     (case la_monitor_set l of Normal mons p a \<Rightarrow> find (is_output out) mons | NoOutputs wss \<Rightarrow> None)"

definition on_monitor :: "nat \<Rightarrow> ('w monitor \<Rightarrow> 'w monitor res) \<Rightarrow> 'w layout \<Rightarrow> 'w layout res" where
  "on_monitor idx f l =
     (case la_monitor_set l of
        Normal mons p a \<Rightarrow>
          bind_res (vec_index mons idx) (\<lambda>m.
          bind_res (f (with_counter (la_next_id l) m)) (\<lambda>m.
            Inr (l\<lparr>la_monitor_set := Normal (mons[idx := m]) p a, la_next_id := mo_next_id m\<rparr>)))
      | NoOutputs wss \<Rightarrow> Inr l)"

definition on_active_monitor :: "('w monitor \<Rightarrow> 'w monitor res) \<Rightarrow> 'w layout \<Rightarrow> 'w layout res" where
  "on_active_monitor f l =
     (case la_monitor_set l of Normal mons p a \<Rightarrow> on_monitor a f l | NoOutputs wss \<Rightarrow> Inr l)"

definition on_active_workspace :: "('w lworkspace \<Rightarrow> 'w lworkspace res) \<Rightarrow> 'w layout \<Rightarrow> 'w layout res" where
  "on_active_workspace f = on_active_monitor (\<lambda>m. on_workspace (mo_active_workspace_idx m) f m)"

definition set_active_monitor :: "nat \<Rightarrow> 'w layout \<Rightarrow> 'w layout" where
  "set_active_monitor idx l =
     (case la_monitor_set l of
        Normal mons p a \<Rightarrow> l\<lparr>la_monitor_set := Normal mons p idx\<rparr>
      | NoOutputs wss \<Rightarrow> l)"

text \<open>
  The first workspace with a property: the index of its monitor (0 when there are none) and its own.
\<close>

definition locate :: "('w lworkspace \<Rightarrow> bool) \<Rightarrow> 'w layout \<Rightarrow> (nat \<times> nat) option" where
  "locate P l =
     (case la_monitor_set l of
        Normal mons p a \<Rightarrow>
          (case position (\<lambda>m. list_ex P (mo_workspaces m)) mons of
             None \<Rightarrow> None
           | Some mi \<Rightarrow> map_option (Pair mi) (position P (mo_workspaces (mons ! mi))))
      | NoOutputs wss \<Rightarrow> map_option (Pair 0) (position P wss))"

definition workspace_at :: "nat \<times> nat \<Rightarrow> 'w layout \<Rightarrow> 'w lworkspace res" where
  "workspace_at loc l =
     (case loc of (mi, wi) \<Rightarrow>
       case la_monitor_set l of
         Normal mons p a \<Rightarrow> bind_res (vec_index mons mi) (\<lambda>m. vec_index (mo_workspaces m) wi)
       | NoOutputs wss \<Rightarrow> vec_index wss wi)"

definition modify_at :: "nat \<times> nat \<Rightarrow> ('w lworkspace \<Rightarrow> 'w lworkspace res) \<Rightarrow> 'w layout \<Rightarrow> 'w layout res" where
  "modify_at loc f l =
     (case loc of (mi, wi) \<Rightarrow>
       case la_monitor_set l of
         Normal mons p a \<Rightarrow> on_monitor mi (on_workspace wi f) l
       | NoOutputs wss \<Rightarrow>
           bind_res (vec_index wss wi) (\<lambda>ws.
           bind_res (f ws) (\<lambda>ws. Inr (l\<lparr>la_monitor_set := NoOutputs (wss[wi := ws])\<rparr>))))"

text \<open>The workspace of a window, if there is one; and the same where the code unwraps.\<close>

definition on_window_if_any :: "'w \<Rightarrow> ('w lworkspace \<Rightarrow> 'w lworkspace res) \<Rightarrow> 'w layout \<Rightarrow> 'w layout res" where
  "on_window_if_any window f l =
     (case locate (ws_has_window window) l of None \<Rightarrow> Inr l | Some loc \<Rightarrow> modify_at loc f l)"

definition on_window :: "'w \<Rightarrow> ('w lworkspace \<Rightarrow> 'w lworkspace res) \<Rightarrow> 'w layout \<Rightarrow> 'w layout res" where
  "on_window window f l = bind_res (unwrap (locate (ws_has_window window) l)) (\<lambda>loc. modify_at loc f l)"

subsection \<open>Outputs\<close>

text \<open>
  The loop of \<open>add_output\<close> over the workspaces of the primary monitor, from the last to the first: those
  whose original output is the new one are taken out.
\<close>

fun take_matching ::
  "loutput \<Rightarrow> nat list \<Rightarrow> 'w monitor \<Rightarrow> bool \<Rightarrow> 'w lworkspace list \<Rightarrow> ('w monitor \<times> bool \<times> 'w lworkspace list) res" where
  "take_matching out [] primary stopped workspaces = Inr (primary, stopped, workspaces)"
| "take_matching out (i # idxs) primary stopped workspaces =
     bind_res (vec_index (mo_workspaces primary) i) (\<lambda>ws.
       if matches (out_name out) (ws_original_output ws)
       then bind_res (vec_remove i (mo_workspaces primary)) (\<lambda>(ws, rest).
         let active = mo_active_workspace_idx primary
         in take_matching out idxs
              (primary\<lparr>mo_workspaces := rest, mo_workspace_switch := None,
                 mo_active_workspace_idx :=
                   (if i \<le> active \<and> \<not> (lo_empty_workspace_above_first (mo_options primary) \<and> active = 1)
                    then active - 1 else active)\<rparr>)
              (stopped \<or> mo_workspace_switch primary \<noteq> None)
              (if ws_has_windows_or_name ws then workspaces @ [ws] else workspaces))
       else take_matching out idxs primary stopped workspaces)"

definition take_back :: "loutput \<Rightarrow> 'w monitor \<Rightarrow> ('w monitor \<times> 'w lworkspace list) res" where
  "take_back out primary =
     bind_res (take_matching out (rev [0..<length (mo_workspaces primary)]) primary False []) (\<lambda>(primary, stopped, workspaces).
     bind_res (if stopped \<or> lo_empty_workspace_above_first (mo_options primary) \<and> length (mo_workspaces primary) = 2
               then clean_up_workspaces primary else Inr primary) (\<lambda>primary.
       Inr (primary, rev workspaces)))"

definition connect ::
  "loutput \<Rightarrow> layout_part option \<Rightarrow> 'w lworkspace list \<Rightarrow> 'w layout \<Rightarrow> ('w monitor \<times> 'w layout) res" where
  "connect out layout_config workspaces l =
     (let name = on_connector (out_name out);
          ws_id_to_activate = la_last_active_workspace_id l name
      in bind_res (mo_new out workspaces ws_id_to_activate (la_options l) layout_config (la_next_id l)) (\<lambda>m.
         Inr (m\<lparr>mo_overview_open := la_overview_open l\<rparr>,
              l\<lparr>la_last_active_workspace_id := (la_last_active_workspace_id l)(name := None), la_next_id := mo_next_id m\<rparr>)))"

definition add_output :: "loutput \<Rightarrow> layout_part option \<Rightarrow> 'w layout \<Rightarrow> 'w layout res" where
  "add_output out layout_config l =
     (case la_monitor_set l of
        Normal mons p a \<Rightarrow>
          bind_res (vec_index mons p) (\<lambda>primary.
          bind_res (take_back out primary) (\<lambda>(primary, workspaces).
          bind_res (connect out layout_config workspaces l) (\<lambda>(m, l).
            Inr (l\<lparr>la_monitor_set := Normal (mons[p := primary] @ [m]) p a\<rparr>))))
      | NoOutputs wss \<Rightarrow>
          bind_res (connect out layout_config wss l) (\<lambda>(m, l).
            Inr (l\<lparr>la_monitor_set := Normal [m] 0 0\<rparr>)))"

definition remove_output :: "loutput \<Rightarrow> 'w layout \<Rightarrow> 'w layout res" where
  "remove_output out l =
     (case la_monitor_set l of
        NoOutputs wss \<Rightarrow> Inl (AssertFailed ''tried to remove output when there were already none'')
      | Normal mons p a \<Rightarrow>
          bind_res (expect ''trying to remove non-existing output'' (position (is_output out) mons)) (\<lambda>idx.
          bind_res (vec_remove idx mons) (\<lambda>(m, mons).
          bind_res (mo_active_workspace m) (\<lambda>ws.
          let l = l\<lparr>la_last_active_workspace_id :=
                (la_last_active_workspace_id l)(on_connector (out_name (mo_output m)) \<mapsto> ws_id ws)\<rparr>;
              workspaces = mo_into_workspaces m
          in if mons = []
             then Inr (l\<lparr>la_monitor_set :=
                    NoOutputs (map (ws_update_config (lo_default_column_display (la_options l))) workspaces)\<rparr>)
             else let p = (if p \<ge> idx then p - 1 else p); a = (if a \<ge> idx then a - 1 else a)
                  in on_monitor p (append_workspaces workspaces) (l\<lparr>la_monitor_set := Normal mons p a\<rparr>)))))"

definition update_output_size :: "loutput \<Rightarrow> output_view \<Rightarrow> 'w layout \<Rightarrow> 'w layout res" where
  "update_output_size out view l =
     (case la_monitor_set l of
        Normal mons p a \<Rightarrow>
          (case position (is_output out) mons of
             None \<Rightarrow> Inr l
           | Some idx \<Rightarrow> on_monitor idx (\<lambda>m. Inr (mo_update_output_size view m)) l)
      | NoOutputs wss \<Rightarrow> Inr l)"

definition focus_output :: "loutput \<Rightarrow> 'w layout \<Rightarrow> 'w layout" where
  "focus_output out l =
     (case la_monitor_set l of
        Normal mons p a \<Rightarrow>
          (case position (is_output out) mons of None \<Rightarrow> l | Some idx \<Rightarrow> set_active_monitor idx l)
      | NoOutputs wss \<Rightarrow> l)"

subsection \<open>Adding windows\<close>

definition add_column_by_idx :: "'w layout_env \<Rightarrow> nat \<Rightarrow> nat \<Rightarrow> 'w column \<Rightarrow> bool \<Rightarrow> 'w layout \<Rightarrow> 'w layout res" where
  "add_column_by_idx env monitor_idx workspace_idx column activate l =
     (case la_monitor_set l of
        NoOutputs wss \<Rightarrow> Inl (AssertFailed ''no outputs'')
      | Normal mons p a \<Rightarrow>
          bind_res (on_monitor monitor_idx (mo_add_column env workspace_idx column activate) l) (\<lambda>l.
            Inr (if activate then set_active_monitor monitor_idx l else l)))"

text \<open>
  \<open>add_window\<close>, with the tile that \<open>make_tile\<close> makes for the window and the width of its column that
  \<open>resolve_scrolling_width\<close> computes. Heights are not modelled.
\<close>

definition is_moving :: "'w \<Rightarrow> 'w layout \<Rightarrow> bool" where
  "is_moving window l \<longleftrightarrow> moving_window l = Some window"

definition resolve_target :: "'w add_window_target \<Rightarrow> 'w monitor list \<Rightarrow> nat \<Rightarrow> 'w layout \<Rightarrow> (nat \<times> 'w monitor_target) res" where
  "resolve_target target mons active l =
     (case target of
        AddAuto \<Rightarrow> Inr (active, MonTargetAuto)
      | AddOutput out \<Rightarrow> bind_res (unwrap (position (is_output out) mons)) (\<lambda>idx. Inr (idx, MonTargetAuto))
      | AddWorkspace wid \<Rightarrow>
          bind_res (unwrap (position (\<lambda>m. list_ex (\<lambda>ws. ws_id ws = wid) (mo_workspaces m)) mons)) (\<lambda>idx.
            Inr (idx, MonTargetWorkspace wid None))
      | AddNextTo next_to \<Rightarrow>
          (case la_interactive_move l of
             Some (Moving move) \<Rightarrow>
               if next_to = tl_window (im_tile move)
               then Inr (case position (is_output (im_output move)) mons of Some idx \<Rightarrow> idx | None \<Rightarrow> active, MonTargetAuto)
               else bind_res (unwrap (position (\<lambda>m. list_ex (ws_has_window next_to) (mo_workspaces m)) mons)) (\<lambda>idx.
                 Inr (idx, MonTargetNextTo next_to))
           | _ \<Rightarrow> bind_res (unwrap (position (\<lambda>m. list_ex (ws_has_window next_to) (mo_workspaces m)) mons)) (\<lambda>idx.
                 Inr (idx, MonTargetNextTo next_to))))"

definition push_if_empty :: "'w lworkspace list \<Rightarrow> 'w layout \<Rightarrow> 'w lworkspace list \<times> nat" where
  "push_if_empty wss l =
     (if wss = [] then ([ws_new_no_outputs (lo_default_column_display (la_options l)) (la_next_id l)], la_next_id l + 1)
      else (wss, la_next_id l))"

definition resolve_target_no_outputs ::
  "'w add_window_target \<Rightarrow> 'w lworkspace list \<Rightarrow> 'w layout \<Rightarrow> (nat \<times> 'w ws_target \<times> 'w lworkspace list \<times> nat) res" where
  "resolve_target_no_outputs target wss l =
     (case target of
        AddAuto \<Rightarrow> Inr (0, TargetAuto, push_if_empty wss l)
      | AddOutput out \<Rightarrow> Inl (AssertFailed ''no outputs'')
      | AddWorkspace wid \<Rightarrow>
          bind_res (unwrap (position (\<lambda>ws. ws_id ws = wid) wss)) (\<lambda>idx. Inr (idx, TargetAuto, wss, la_next_id l))
      | AddNextTo next_to \<Rightarrow>
          if is_moving next_to l then Inr (0, TargetAuto, push_if_empty wss l)
          else bind_res (unwrap (position (ws_has_window next_to) wss)) (\<lambda>idx.
            Inr (idx, TargetNextTo next_to, wss, la_next_id l)))"

definition add_window ::
  "'w layout_env \<Rightarrow> 'w tile \<Rightarrow> 'w add_window_target \<Rightarrow> column_width \<Rightarrow> bool \<Rightarrow> bool \<Rightarrow> activate_window \<Rightarrow>
   'w layout \<Rightarrow> 'w layout res" where
  "add_window env tile target width is_full_width is_floating activate l =
     (case la_monitor_set l of
        Normal mons p a \<Rightarrow>
          bind_res (resolve_target target mons a l) (\<lambda>(mon_idx, target).
          bind_res (on_monitor mon_idx (mo_add_tile env tile target activate True width is_full_width is_floating) l) (\<lambda>l.
            Inr (if map_smart activate False then set_active_monitor mon_idx l else l)))
      | NoOutputs wss \<Rightarrow>
          bind_res (resolve_target_no_outputs target wss l) (\<lambda>(ws_idx, target, wss, n).
          bind_res (vec_index wss ws_idx) (\<lambda>ws.
          bind_res (ws_add_tile env tile target activate width is_full_width is_floating ws) (\<lambda>ws.
            Inr (l\<lparr>la_monitor_set := NoOutputs (wss[ws_idx := ws]), la_next_id := n\<rparr>)))))"

subsection \<open>Named workspaces\<close>

definition find_workspace_by_id :: "nat \<Rightarrow> 'w layout \<Rightarrow> (nat \<times> nat) option" where
  "find_workspace_by_id wid l = locate (\<lambda>ws. ws_id ws = wid) l"

definition find_workspace_by_name :: "string \<Rightarrow> 'w layout \<Rightarrow> (nat \<times> nat) option" where
  "find_workspace_by_name name l = locate (name_matches name) l"

definition find_workspace_by_ref :: "workspace_reference \<Rightarrow> 'w layout \<Rightarrow> (nat \<times> nat) option res" where
  "find_workspace_by_ref reference l =
     (case reference of
        RefIndex index \<Rightarrow>
          (case la_monitor_set l of
             Normal mons p a \<Rightarrow> bind_res (vec_index mons a) (\<lambda>m.
               Inr (if index - 1 < length (mo_workspaces m) then Some (a, index - 1) else None))
           | NoOutputs wss \<Rightarrow> Inr None)
      | RefName name \<Rightarrow> Inr (locate (name_matches name) l)
      | RefId wid \<Rightarrow> Inr (locate (\<lambda>ws. ws_id ws = wid) l))"

definition active_location :: "'w layout \<Rightarrow> (nat \<times> nat) option res" where
  "active_location l =
     (case la_monitor_set l of
        Normal mons p a \<Rightarrow> bind_res (vec_index mons a) (\<lambda>m.
          bind_res (mo_active_workspace m) (\<lambda>_. Inr (Some (a, mo_active_workspace_idx m))))
      | NoOutputs wss \<Rightarrow> Inr None)"

definition unname_workspace_by_id :: "nat \<Rightarrow> 'w layout \<Rightarrow> 'w layout res" where
  "unname_workspace_by_id wid l =
     (case la_monitor_set l of
        Normal mons p a \<Rightarrow>
          bind_res (until_found (mo_unname_workspace wid) 0 mons) (\<lambda>(mons, _).
            Inr (l\<lparr>la_monitor_set := Normal mons p a\<rparr>))
      | NoOutputs wss \<Rightarrow>
          (case position (\<lambda>ws. ws_id ws = wid) wss of
             None \<Rightarrow> Inr l
           | Some idx \<Rightarrow>
               bind_res (vec_modify idx ws_unname wss) (\<lambda>wss.
               if \<not> ws_has_windows (wss ! idx)
               then bind_res (vec_remove idx wss) (\<lambda>(_, wss). Inr (l\<lparr>la_monitor_set := NoOutputs wss\<rparr>))
               else Inr (l\<lparr>la_monitor_set := NoOutputs wss\<rparr>))))"

definition unname_workspace_by_ref :: "workspace_reference \<Rightarrow> 'w layout \<Rightarrow> 'w layout res" where
  "unname_workspace_by_ref reference l =
     bind_res (find_workspace_by_ref reference l) (\<lambda>loc.
       case loc of
         None \<Rightarrow> Inr l
       | Some loc \<Rightarrow> bind_res (workspace_at loc l) (\<lambda>ws. unname_workspace_by_id (ws_id ws) l))"

definition unname_workspace :: "string \<Rightarrow> 'w layout \<Rightarrow> 'w layout res" where
  "unname_workspace name = unname_workspace_by_ref (RefName name)"

definition reference_or_active :: "workspace_reference option \<Rightarrow> 'w layout \<Rightarrow> (nat \<times> nat) option res" where
  "reference_or_active reference l =
     (case reference of Some reference \<Rightarrow> find_workspace_by_ref reference l | None \<Rightarrow> active_location l)"

definition unset_workspace_name :: "workspace_reference option \<Rightarrow> 'w layout \<Rightarrow> 'w layout res" where
  "unset_workspace_name reference l =
     bind_res (reference_or_active reference l) (\<lambda>loc.
       case loc of
         None \<Rightarrow> Inr l
       | Some loc \<Rightarrow> bind_res (workspace_at loc l) (\<lambda>ws. unname_workspace_by_id (ws_id ws) l))"

text \<open>The empty workspaces that naming the first or last workspace of the active monitor asks for.\<close>

definition restore_edges :: "nat \<Rightarrow> 'w monitor \<Rightarrow> 'w monitor res" where
  "restore_edges wid m =
     bind_res (if lo_empty_workspace_above_first (mo_options m) \<and> mo_workspaces m \<noteq> [] \<and> ws_id (hd (mo_workspaces m)) = wid
               then add_workspace_top m else Inr m) (\<lambda>m.
       if mo_workspaces m \<noteq> [] \<and> ws_id (last (mo_workspaces m)) = wid then add_workspace_bottom m else Inr m)"

definition set_workspace_name :: "string \<Rightarrow> workspace_reference option \<Rightarrow> 'w layout \<Rightarrow> 'w layout res" where
  "set_workspace_name name reference l =
     (if find_workspace_by_name name l \<noteq> None then Inr l
      else bind_res (reference_or_active reference l) (\<lambda>loc.
        case loc of
          None \<Rightarrow> Inr l
        | Some loc \<Rightarrow>
            bind_res (workspace_at loc l) (\<lambda>ws.
            bind_res (modify_at loc (\<lambda>ws. Inr (ws\<lparr>ws_name := Some name\<rparr>)) l) (\<lambda>l.
              on_active_monitor (restore_edges (ws_id ws)) l))))"

definition ensure_named_workspace :: "'w layout_env \<Rightarrow> workspace_config \<Rightarrow> 'w layout \<Rightarrow> 'w layout res" where
  "ensure_named_workspace env config l =
     (if find_workspace_by_name (wc_name config) l \<noteq> None then Inr l
      else let display = lo_default_column_display (la_options l)
      in case la_monitor_set l of
           Normal mons p a \<Rightarrow>
             let mon_idx = (case wc_open_on_output config of
                   None \<Rightarrow> a
                 | Some name \<Rightarrow>
                     (case position (\<lambda>m. matches (out_name (mo_output m)) name) mons of Some idx \<Rightarrow> idx | None \<Rightarrow> p))
             in on_monitor mon_idx (\<lambda>m.
                  insert_workspace env (ws_new_with_config (mo_output m) (Some config) display (mo_next_id m)) 0 False
                    (m\<lparr>mo_next_id := mo_next_id m + 1\<rparr>)) l
         | NoOutputs wss \<Rightarrow>
             Inr (l\<lparr>la_monitor_set := NoOutputs (ws_new_with_config_no_outputs (Some config) display (la_next_id l) # wss),
                    la_next_id := la_next_id l + 1\<rparr>))"

definition update_options :: "layout_options \<Rightarrow> 'w layout \<Rightarrow> 'w layout res" where
  "update_options options l =
     bind_res (case la_monitor_set l of
                 Normal mons p a \<Rightarrow> monitors_mut (mo_update_config options) l
               | NoOutputs wss \<Rightarrow>
                   Inr (l\<lparr>la_monitor_set := NoOutputs (map (ws_update_config (lo_default_column_display options)) wss)\<rparr>)) (\<lambda>l.
       Inr (l\<lparr>la_options := options\<rparr>))"

definition update_config :: "workspace_config list \<Rightarrow> layout_options \<Rightarrow> 'w layout \<Rightarrow> 'w layout res" where
  "update_config configs options l =
     bind_res (workspaces_mut (\<lambda>ws.
         Inr (case ws_name ws of
                None \<Rightarrow> ws
              | Some name \<Rightarrow>
                  (case find (\<lambda>c. wc_name c = name) configs of
                     None \<Rightarrow> ws
                   | Some config \<Rightarrow> ws_update_layout_config (wc_layout_display config) ws))) l)
       (update_options options)"

end
