(* ===== verification/Layout_Drag.thy ===== *)
theory Layout_Drag
  imports Layout
begin

text \<open>
  Interactive moves, the dragging of a window with the pointer: a move starts with the window still in
  its place, then the window is taken out of the layout and carried along, and in the end it is
  dropped where the pointer is. Closing a window ends a move of it, so \<^verbatim>\<open>remove_window\<close> is here too.

  While a move lasts the views of the workspaces are locked, so that they scroll only at the edges
  of the screen; unlocking a view can make the column active that it snaps to.
\<close>

definition INTERACTIVE_MOVE_START_THRESHOLD :: real where "INTERACTIVE_MOVE_START_THRESHOLD = 256 * 256"

definition point_downscale :: "real \<Rightarrow> point \<Rightarrow> point" where
  "point_downscale z pos = \<lparr>pt_x = pt_x pos / z, pt_y = pt_y pos / z\<rparr>"

definition zero_point :: point where "zero_point = \<lparr>pt_x = 0, pt_y = 0\<rparr>"

definition ws_dnd_scroll_gesture_end :: "'w geometry \<Rightarrow> 'w lworkspace \<Rightarrow> 'w lworkspace" where
  "ws_dnd_scroll_gesture_end geo ws =
     (case gm_snap geo (ws_scrolling ws) of
        None \<Rightarrow> ws
      | Some idx \<Rightarrow> ws\<lparr>ws_scrolling := (ws_scrolling ws)\<lparr>sc_active_column_idx := idx\<rparr>\<rparr>)"

definition monitors_dnd_end :: "'w geometry \<Rightarrow> 'w layout \<Rightarrow> 'w layout res" where
  "monitors_dnd_end geo = monitors_mut (\<lambda>m. dnd_scroll_gesture_end (gm_gesture_height geo m) (gm_now geo) m)"

definition workspaces_dnd_end :: "'w geometry \<Rightarrow> 'w layout \<Rightarrow> 'w layout res" where
  "workspaces_dnd_end geo = workspaces_mut (\<lambda>ws. Inr (ws_dnd_scroll_gesture_end geo ws))"

subsection \<open>Begin\<close>

text \<open>
  \<open>interactive_move_begin\<close>; \<open>ratio\<close> is where the pointer is within the window. Only windows on visible
  workspaces can be dragged.
\<close>

definition visible_with_window :: "'w geometry \<Rightarrow> 'w \<Rightarrow> 'w monitor \<Rightarrow> bool" where
  "visible_with_window geo window m =
     list_ex (\<lambda>((_, ws), _). ws_has_window window ws) (workspaces_with_render_geo_idx geo m)"

definition interactive_move_begin ::
  "'w layout_env \<Rightarrow> 'w geometry \<Rightarrow> 'w \<Rightarrow> loutput \<Rightarrow> real \<times> real \<Rightarrow> 'w layout \<Rightarrow> ('w layout \<times> bool) res" where
  "interactive_move_begin env geo window out ratio l =
     (if la_interactive_move l \<noteq> None then Inr (l, False)
      else case la_monitor_set l of
             NoOutputs wss \<Rightarrow> Inr (l, False)
           | Normal mons p a \<Rightarrow>
               (case find (visible_with_window geo window) mons of
                  None \<Rightarrow> Inr (l, False)
                | Some m \<Rightarrow>
                    if \<not> is_output out m then Inr (l, False)
                    else bind_res (monitors_mut (\<lambda>m. Inr (dnd_scroll_gesture_begin env (gm_now geo) m))
                           (l\<lparr>la_interactive_move := Some (Starting window zero_point ratio)\<rparr>)) (\<lambda>l. Inr (l, True))))"

subsection \<open>End\<close>

text \<open>Where the window is dropped: the monitor, the workspace, the position in it and the workspace's place on the screen.\<close>

definition drop_on_output ::
  "'w geometry \<Rightarrow> 'w interactive_move_data \<Rightarrow> 'w monitor \<Rightarrow> (insert_workspace_type \<times> insert_position \<times> point option) res" where
  "drop_on_output geo move m =
     bind_res (mo_insert_position geo (im_pointer_pos_within_output move) m) (\<lambda>(insert_ws, r).
       case insert_ws of
         Existing wid \<Rightarrow>
           bind_res (unwrap (position (\<lambda>ws. ws_id ws = wid) (mo_workspaces m))) (\<lambda>ws_idx.
           bind_res (if im_is_floating move then Inr InsertFloating
                     else sc_insert_position geo
                       (point_downscale (gm_zoom geo m) (point_sub (im_pointer_pos_within_output move) (rc_loc r)))
                       (ws_scrolling (mo_workspaces m ! ws_idx))) (\<lambda>pos.
             Inr (insert_ws, pos, Some (rc_loc r))))
       | NewAt _ \<Rightarrow> Inr (insert_ws, if im_is_floating move then InsertFloating else NewColumn 0, None))"

definition drop_elsewhere ::
  "'w geometry \<Rightarrow> 'w interactive_move_data \<Rightarrow> 'w monitor \<Rightarrow> (insert_workspace_type \<times> insert_position \<times> point option) res" where
  "drop_elsewhere geo move m =
     bind_res (vec_index (mo_workspaces m) 0) (\<lambda>ws.
     bind_res (vec_index (workspaces_render_geo geo m) 0) (\<lambda>r.
     bind_res (if im_is_floating move then Inr InsertFloating
               else sc_insert_position geo zero_point (ws_scrolling ws)) (\<lambda>pos.
       Inr (Existing (ws_id ws), pos, Some (rc_loc r)))))"

definition drop_workspace :: "insert_workspace_type \<Rightarrow> 'w monitor \<Rightarrow> (nat \<times> 'w monitor) res" where
  "drop_workspace insert_ws m =
     (case insert_ws of
        Existing wid \<Rightarrow> bind_res (unwrap (position (\<lambda>ws. ws_id ws = wid) (mo_workspaces m))) (\<lambda>idx. Inr (idx, m))
      | NewAt ws_idx \<Rightarrow>
          if lo_empty_workspace_above_first (mo_options m) \<and> ws_idx = 0 then Inr (0, m)
          else bind_res (last_idx (mo_workspaces m)) (\<lambda>l.
            if l \<le> ws_idx then Inr (l, m)
            else bind_res (add_workspace_at ws_idx m) (\<lambda>m. Inr (ws_idx, m))))"

definition drop_floating_pos ::
  "'w geometry \<Rightarrow> 'w interactive_move_data \<Rightarrow> insert_workspace_type \<Rightarrow> point option \<Rightarrow> real \<Rightarrow> 'w lworkspace \<Rightarrow> point option" where
  "drop_floating_pos geo move insert_ws offset zoom ws =
     (case (insert_ws, offset) of
        (Existing _, Some offset) \<Rightarrow>
          let loc = gm_tile_render_location geo (im_tile move) (im_pointer_pos_within_output move)
                      (im_pointer_ratio_within_window move) zoom
          in Some (fl_logical_to_size_frac (point_downscale zoom (point_sub loc offset)) (ws_floating ws))
      | _ \<Rightarrow> None)"

definition drop_tile ::
  "'w layout_env \<Rightarrow> 'w geometry \<Rightarrow> 'w interactive_move_data \<Rightarrow> bool \<Rightarrow> insert_workspace_type \<times> insert_position \<times> point option \<Rightarrow>
   'w monitor \<Rightarrow> 'w monitor res" where
  "drop_tile env geo move allow_to_activate_workspace target m =
     (case target of (insert_ws, pos, offset) \<Rightarrow>
       let zoom = gm_zoom geo m
       in bind_res (drop_workspace insert_ws m) (\<lambda>(ws_idx, m).
          bind_res (vec_index (mo_workspaces m) ws_idx) (\<lambda>ws.
          bind_res
            (case pos of
               NewColumn column_idx \<Rightarrow>
                 mo_add_tile env (im_tile move) (MonTargetWorkspace (ws_id ws) (Some column_idx)) ActivateYes
                   allow_to_activate_workspace (im_width move) (im_is_full_width move) False m
             | InColumn column_idx tile_idx \<Rightarrow>
                 mo_add_tile_to_column env ws_idx column_idx (Some tile_idx) (im_tile move) True
                   allow_to_activate_workspace m
             | InsertFloating \<Rightarrow>
                 mo_add_tile env ((im_tile move)\<lparr>tl_floating_pos := drop_floating_pos geo move insert_ws offset zoom ws\<rparr>)
                   (MonTargetWorkspace (ws_id ws) None) ActivateYes
                   allow_to_activate_workspace (im_width move) (im_is_full_width move) True m) (\<lambda>m.
          bind_res (unwrap (find (ws_has_window (tl_window (im_tile move))) (mo_workspaces m))) (\<lambda>_. Inr m)))))"

definition drop_anywhere ::
  "'w layout_env \<Rightarrow> 'w interactive_move_data \<Rightarrow> 'w lworkspace list \<Rightarrow> 'w layout \<Rightarrow> 'w layout res" where
  "drop_anywhere env move wss l =
     (let (wss, n) = push_if_empty wss l
      in bind_res (vec_index wss 0) (\<lambda>ws.
         bind_res (ws_add_tile env (im_tile move) TargetAuto ActivateYes (im_width move) (im_is_full_width move)
                     (im_is_floating move) ws) (\<lambda>ws.
           Inr (l\<lparr>la_monitor_set := NoOutputs (wss[0 := ws]), la_next_id := n\<rparr>))))"

definition drop_window :: "'w layout_env \<Rightarrow> 'w geometry \<Rightarrow> 'w interactive_move_data \<Rightarrow> 'w layout \<Rightarrow> 'w layout res" where
  "drop_window env geo move l =
     (case la_monitor_set l of
        Normal mons p a \<Rightarrow>
          (case position (is_output (im_output move)) mons of
             Some idx \<Rightarrow> on_monitor idx (\<lambda>m. bind_res (drop_on_output geo move m) (\<lambda>target.
               drop_tile env geo move (\<not> la_overview_open l) target m)) l
           | None \<Rightarrow> on_monitor a (\<lambda>m. bind_res (drop_elsewhere geo move m) (\<lambda>target.
               drop_tile env geo move (\<not> la_overview_open l) target m)) l)
      | NoOutputs wss \<Rightarrow> drop_anywhere env move wss l)"

text \<open>Unlocking a view when a move ends before the window was taken out: its window stays active.\<close>

definition unlock_keeping_active :: "'w layout_env \<Rightarrow> 'w geometry \<Rightarrow> 'w \<Rightarrow> 'w lworkspace \<Rightarrow> 'w lworkspace res" where
  "unlock_keeping_active env geo window ws =
     bind_res (ws_active_window ws) (\<lambda>active.
     let ws = ws_dnd_scroll_gesture_end geo ws
     in if active = Some window then discard (ws_activate_window env window ws) else Inr ws)"

definition interactive_move_end :: "'w layout_env \<Rightarrow> 'w geometry \<Rightarrow> 'w \<Rightarrow> 'w layout \<Rightarrow> 'w layout res" where
  "interactive_move_end env geo window l =
     (case la_interactive_move l of
        None \<Rightarrow> Inr l
      | Some (Starting window_id _ _) \<Rightarrow>
          if window_id \<noteq> window then Inr l
          else bind_res (monitors_dnd_end geo (l\<lparr>la_interactive_move := None\<rparr>))
                 (workspaces_mut (unlock_keeping_active env geo window_id))
      | Some (Moving move) \<Rightarrow>
          if window \<noteq> tl_window (im_tile move) then Inr l
          else bind_res (monitors_dnd_end geo (l\<lparr>la_interactive_move := None\<rparr>)) (\<lambda>l.
               bind_res (if \<not> im_is_floating move then workspaces_dnd_end geo l else Inr l)
                 (drop_window env geo move)))"

subsection \<open>Closing a window\<close>

text \<open>The workspace of the window loses it, and the monitor an empty workspace that is neither active nor last.\<close>

definition remove_from_monitor :: "'w \<Rightarrow> 'w monitor \<Rightarrow> ('w removed_tile \<times> 'w monitor) res" where
  "remove_from_monitor window m =
     bind_res (unwrap (position (ws_has_window window) (mo_workspaces m))) (\<lambda>idx.
     bind_res (vec_index (mo_workspaces m) idx) (\<lambda>ws.
     bind_res (ws_remove_tile window ws) (\<lambda>(removed, ws).
     let m = store_workspace idx ws m
     in bind_res (if \<not> ws_has_windows_or_name ws \<and> idx \<noteq> mo_active_workspace_idx m \<and>
                     idx \<noteq> length (mo_workspaces m) - 1 \<and> mo_workspace_switch m = None
                  then bind_res (remove_workspace_at idx m) (\<lambda>m.
                    Inr (if idx < mo_active_workspace_idx m
                         then m\<lparr>mo_active_workspace_idx := mo_active_workspace_idx m - 1\<rparr> else m))
                  else Inr m) (\<lambda>m.
        bind_res (if lo_empty_workspace_above_first (mo_options m) \<and> length (mo_workspaces m) = 2 \<and>
                     mo_workspace_switch m = None
                  then bind_res (assert_that ''!mon.workspaces[0].has_windows_or_name()''
                           (\<not> ws_has_windows_or_name (mo_workspaces m ! 0))) (\<lambda>_.
                       bind_res (assert_that ''!mon.workspaces[1].has_windows_or_name()''
                           (\<not> ws_has_windows_or_name (mo_workspaces m ! 1))) (\<lambda>_.
                       bind_res (remove_workspace_at 1 m) (\<lambda>m. Inr (m\<lparr>mo_active_workspace_idx := 0\<rparr>))))
                  else Inr m) (\<lambda>m. Inr (removed, m))))))"

definition remove_from_workspaces :: "'w \<Rightarrow> 'w lworkspace list \<Rightarrow> ('w removed_tile option \<times> 'w lworkspace list) res" where
  "remove_from_workspaces window wss =
     (case position (ws_has_window window) wss of
        None \<Rightarrow> Inr (None, wss)
      | Some idx \<Rightarrow>
          bind_res (vec_index wss idx) (\<lambda>ws.
          bind_res (ws_remove_tile window ws) (\<lambda>(removed, ws).
          let wss = wss[idx := ws]
          in if \<not> ws_has_windows_or_name ws
             then bind_res (vec_remove idx wss) (\<lambda>(_, wss). Inr (Some removed, wss))
             else Inr (Some removed, wss))))"

definition remove_placed_window :: "'w \<Rightarrow> 'w layout \<Rightarrow> ('w removed_tile option \<times> 'w layout) res" where
  "remove_placed_window window l =
     (case la_monitor_set l of
        Normal mons p a \<Rightarrow>
          (case position (\<lambda>m. list_ex (ws_has_window window) (mo_workspaces m)) mons of
             None \<Rightarrow> Inr (None, l)
           | Some idx \<Rightarrow>
               bind_res (vec_index mons idx) (\<lambda>m.
               bind_res (remove_from_monitor window m) (\<lambda>(removed, m).
                 Inr (Some removed, l\<lparr>la_monitor_set := Normal (mons[idx := m]) p a\<rparr>))))
      | NoOutputs wss \<Rightarrow>
          bind_res (remove_from_workspaces window wss) (\<lambda>(removed, wss).
            Inr (removed, l\<lparr>la_monitor_set := NoOutputs wss\<rparr>)))"

definition remove_window ::
  "'w layout_env \<Rightarrow> 'w geometry \<Rightarrow> 'w \<Rightarrow> 'w layout \<Rightarrow> ('w removed_tile option \<times> 'w layout) res" where
  "remove_window env geo window l =
     (case la_interactive_move l of
        Some (Moving move) \<Rightarrow>
          if tl_window (im_tile move) = window
          then bind_res (monitors_dnd_end geo (l\<lparr>la_interactive_move := None\<rparr>)) (\<lambda>l.
               bind_res (workspaces_dnd_end geo l) (\<lambda>l.
                 Inr (Some \<lparr>rt_tile = im_tile move, rt_width = im_width move, rt_is_full_width = im_is_full_width move,
                            rt_is_floating = False\<rparr>, l)))
          else remove_placed_window window l
      | Some (Starting window_id _ _) \<Rightarrow>
          if window_id = window
          then bind_res (interactive_move_end env geo window l) (remove_placed_window window)
          else remove_placed_window window l
      | None \<Rightarrow> remove_placed_window window l)"

subsection \<open>Update\<close>

definition take_window ::
  "'w layout_env \<Rightarrow> 'w geometry \<Rightarrow> 'w \<Rightarrow> loutput \<Rightarrow> point \<Rightarrow> real \<times> real \<Rightarrow> layout_part option \<Rightarrow>
   (nat \<times> column_display) option \<Rightarrow> 'w layout \<Rightarrow> 'w layout res" where
  "take_window env geo window out pointer_pos ratio output_config workspace_config l =
     bind_res (on_window window (\<lambda>ws.
       bind_res (ws_set_fullscreen env window False ws) (ws_set_maximized env window False)) (l\<lparr>la_interactive_move := None\<rparr>)) (\<lambda>l.
     bind_res (remove_window env geo window l) (\<lambda>(removed, l).
     bind_res (unwrap removed) (\<lambda>removed.
     bind_res (if rt_is_floating removed then workspaces_dnd_end geo l else Inr l) (\<lambda>l.
       Inr (l\<lparr>la_interactive_move := Some (Moving
         \<lparr>im_tile = rt_tile removed, im_output = out, im_pointer_pos_within_output = pointer_pos,
          im_width = rt_width removed, im_is_full_width = rt_is_full_width removed,
          im_is_floating = rt_is_floating removed, im_pointer_ratio_within_window = ratio,
          im_output_config = output_config, im_workspace_config = workspace_config\<rparr>)\<rparr>)))))"

definition workspace_under_move :: "'w geometry \<Rightarrow> loutput \<Rightarrow> 'w interactive_move_data \<Rightarrow> 'w layout \<Rightarrow> nat option res" where
  "workspace_under_move geo out move l =
     (case monitor_for_output out l of
        None \<Rightarrow> Inr None
      | Some m \<Rightarrow> bind_res (mo_insert_position geo (im_pointer_pos_within_output move) m) (\<lambda>(insert_ws, _).
          Inr (case insert_ws of Existing wid \<Rightarrow> Some wid | NewAt _ \<Rightarrow> None)))"

definition interactive_move_update ::
  "'w layout_env \<Rightarrow> 'w geometry \<Rightarrow> 'w \<Rightarrow> point \<Rightarrow> loutput \<Rightarrow> point \<Rightarrow> 'w layout \<Rightarrow> ('w layout \<times> bool) res" where
  "interactive_move_update env geo window delta out pointer_pos l =
     (case la_interactive_move l of
        None \<Rightarrow> Inr (l, False)
      | Some (Starting window_id pointer_delta ratio) \<Rightarrow>
          if window_id \<noteq> window then Inr (l, False)
          else let pointer_delta = point_add pointer_delta (point_downscale (gm_overview_zoom geo) delta);
                   sq_dist = pt_x pointer_delta * pt_x pointer_delta + pt_y pointer_delta * pt_y pointer_delta
          in bind_res (unwrap (locate (ws_has_window window_id) l)) (\<lambda>loc.
             bind_res (workspace_at loc l) (\<lambda>ws.
             if \<not> fl_has_window window_id (ws_floating ws) \<and> sq_dist < INTERACTIVE_MOVE_START_THRESHOLD
             then Inr (l\<lparr>la_interactive_move := Some (Starting window_id pointer_delta ratio)\<rparr>, True)
             else bind_res (take_window env geo window out pointer_pos ratio
                      (Option.bind (monitor_for_output out l) mo_layout_config)
                      (map_option (Pair (ws_id ws)) (ws_layout_display ws)) l) (\<lambda>l. Inr (l, True))))
      | Some (Moving move) \<Rightarrow>
          if window \<noteq> tl_window (im_tile move) then Inr (l, False)
          else bind_res (workspace_under_move geo out move l) (\<lambda>wid.
            let workspace_config = (case im_workspace_config move of
                    Some (id', c) \<Rightarrow> if Some id' \<noteq> wid then None else Some (id', c) | None \<Rightarrow> None);
                moved = (out_handle out \<noteq> out_handle (im_output move));
                l = (if moved then focus_output out l else l);
                move = move\<lparr>im_workspace_config := workspace_config,
                  im_output := (if moved then out else im_output move),
                  im_output_config := (if moved then Option.bind (monitor_for_output out l) mo_layout_config
                                       else im_output_config move),
                  im_pointer_pos_within_output := pointer_pos\<rparr>
            in Inr (l\<lparr>la_interactive_move := Some (Moving move)\<rparr>, True)))"

end
