(* ===== verification/Layout_Actions.thy ===== *)
theory Layout_Actions
  imports Layout_Drag
begin

text \<open>
  The other operations of \<^verbatim>\<open>Layout\<close>: those that go to the active workspace, to the active monitor or to
  the workspace of a window, the moves between outputs, the gestures and the overview.
\<close>

subsection \<open>The active workspace\<close>

definition la_move_left :: "'w layout \<Rightarrow> 'w layout res" where
  "la_move_left = on_active_workspace (\<lambda>ws. discard (ws_move_left ws))"

definition la_move_right :: "'w layout \<Rightarrow> 'w layout res" where
  "la_move_right = on_active_workspace (\<lambda>ws. discard (ws_move_right ws))"

definition la_move_column_to_first :: "'w layout \<Rightarrow> 'w layout res" where
  "la_move_column_to_first = on_active_workspace ws_move_column_to_first"

definition la_move_column_to_last :: "'w layout \<Rightarrow> 'w layout res" where
  "la_move_column_to_last = on_active_workspace ws_move_column_to_last"

definition la_move_column_to_index :: "nat \<Rightarrow> 'w layout \<Rightarrow> 'w layout res" where
  "la_move_column_to_index index = on_active_workspace (ws_move_column_to_index index)"

definition la_move_down :: "'w layout \<Rightarrow> 'w layout res" where
  "la_move_down = on_active_workspace (\<lambda>ws. discard (ws_move_down ws))"

definition la_move_up :: "'w layout \<Rightarrow> 'w layout res" where
  "la_move_up = on_active_workspace (\<lambda>ws. discard (ws_move_up ws))"

definition la_focus_left :: "'w layout_env \<Rightarrow> 'w layout \<Rightarrow> 'w layout res" where
  "la_focus_left env = on_active_workspace (\<lambda>ws. discard (ws_focus_left env ws))"

definition la_focus_right :: "'w layout_env \<Rightarrow> 'w layout \<Rightarrow> 'w layout res" where
  "la_focus_right env = on_active_workspace (\<lambda>ws. discard (ws_focus_right env ws))"

definition la_focus_column_first :: "'w layout_env \<Rightarrow> 'w layout \<Rightarrow> 'w layout res" where
  "la_focus_column_first env = on_active_workspace (ws_focus_column_first env)"

definition la_focus_column_last :: "'w layout_env \<Rightarrow> 'w layout \<Rightarrow> 'w layout res" where
  "la_focus_column_last env = on_active_workspace (ws_focus_column_last env)"

definition la_focus_column_right_or_first :: "'w layout_env \<Rightarrow> 'w layout \<Rightarrow> 'w layout res" where
  "la_focus_column_right_or_first env = on_active_workspace (ws_focus_column_right_or_first env)"

definition la_focus_column_left_or_last :: "'w layout_env \<Rightarrow> 'w layout \<Rightarrow> 'w layout res" where
  "la_focus_column_left_or_last env = on_active_workspace (ws_focus_column_left_or_last env)"

definition la_focus_column :: "nat \<Rightarrow> 'w layout \<Rightarrow> 'w layout res" where
  "la_focus_column index = on_active_workspace (ws_focus_column index)"

definition la_focus_window_in_column :: "u8 \<Rightarrow> 'w layout \<Rightarrow> 'w layout res" where
  "la_focus_window_in_column index = on_active_workspace (ws_focus_window_in_column index)"

definition la_focus_down :: "'w layout_env \<Rightarrow> 'w layout \<Rightarrow> 'w layout res" where
  "la_focus_down env = on_active_workspace (\<lambda>ws. discard (ws_focus_down env ws))"

definition la_focus_up :: "'w layout_env \<Rightarrow> 'w layout \<Rightarrow> 'w layout res" where
  "la_focus_up env = on_active_workspace (\<lambda>ws. discard (ws_focus_up env ws))"

definition la_focus_down_or_left :: "'w layout_env \<Rightarrow> 'w layout \<Rightarrow> 'w layout res" where
  "la_focus_down_or_left env = on_active_workspace (ws_focus_down_or_left env)"

definition la_focus_down_or_right :: "'w layout_env \<Rightarrow> 'w layout \<Rightarrow> 'w layout res" where
  "la_focus_down_or_right env = on_active_workspace (ws_focus_down_or_right env)"

definition la_focus_up_or_left :: "'w layout_env \<Rightarrow> 'w layout \<Rightarrow> 'w layout res" where
  "la_focus_up_or_left env = on_active_workspace (ws_focus_up_or_left env)"

definition la_focus_up_or_right :: "'w layout_env \<Rightarrow> 'w layout \<Rightarrow> 'w layout res" where
  "la_focus_up_or_right env = on_active_workspace (ws_focus_up_or_right env)"

definition la_focus_window_top :: "'w layout_env \<Rightarrow> 'w layout \<Rightarrow> 'w layout res" where
  "la_focus_window_top env = on_active_workspace (ws_focus_window_top env)"

definition la_focus_window_bottom :: "'w layout_env \<Rightarrow> 'w layout \<Rightarrow> 'w layout res" where
  "la_focus_window_bottom env = on_active_workspace (ws_focus_window_bottom env)"

definition la_focus_window_down_or_top :: "'w layout_env \<Rightarrow> 'w layout \<Rightarrow> 'w layout res" where
  "la_focus_window_down_or_top env = on_active_workspace (ws_focus_window_down_or_top env)"

definition la_focus_window_up_or_bottom :: "'w layout_env \<Rightarrow> 'w layout \<Rightarrow> 'w layout res" where
  "la_focus_window_up_or_bottom env = on_active_workspace (ws_focus_window_up_or_bottom env)"

definition la_consume_into_column :: "'w layout \<Rightarrow> 'w layout res" where
  "la_consume_into_column = on_active_workspace ws_consume_into_column"

definition la_expel_from_column :: "'w layout \<Rightarrow> 'w layout res" where
  "la_expel_from_column = on_active_workspace ws_expel_from_column"

definition la_swap_window_in_direction :: "scroll_direction \<Rightarrow> 'w layout \<Rightarrow> 'w layout res" where
  "la_swap_window_in_direction direction = on_active_workspace (ws_swap_window_in_direction direction)"

definition la_toggle_column_tabbed_display :: "'w layout \<Rightarrow> 'w layout res" where
  "la_toggle_column_tabbed_display = on_active_workspace ws_toggle_column_tabbed_display"

definition la_set_column_display :: "column_display \<Rightarrow> 'w layout \<Rightarrow> 'w layout res" where
  "la_set_column_display display = on_active_workspace (ws_set_column_display display)"

definition la_toggle_full_width :: "'w layout \<Rightarrow> 'w layout res" where
  "la_toggle_full_width = on_active_workspace ws_toggle_full_width"

definition la_focus_floating :: "'w layout \<Rightarrow> 'w layout res" where
  "la_focus_floating = on_active_workspace (\<lambda>ws. Inr (focus_floating ws))"

definition la_focus_tiling :: "'w layout \<Rightarrow> 'w layout res" where
  "la_focus_tiling = on_active_workspace (\<lambda>ws. Inr (focus_tiling ws))"

definition la_switch_focus_floating_tiling :: "'w layout \<Rightarrow> 'w layout res" where
  "la_switch_focus_floating_tiling = on_active_workspace (\<lambda>ws. Inr (switch_focus_floating_tiling ws))"

subsection \<open>A window or the active one\<close>

definition is_target_moving :: "'w option \<Rightarrow> 'w layout \<Rightarrow> bool" where
  "is_target_moving window l \<longleftrightarrow>
     (case moving_window l of None \<Rightarrow> False | Some w \<Rightarrow> window = None \<or> window = Some w)"

definition on_target :: "'w option \<Rightarrow> ('w lworkspace \<Rightarrow> 'w lworkspace res) \<Rightarrow> 'w layout \<Rightarrow> 'w layout res" where
  "on_target window f l =
     (case window of Some w \<Rightarrow> on_window w f l | None \<Rightarrow> on_active_workspace f l)"

definition la_consume_or_expel_window_left :: "'w option \<Rightarrow> 'w layout \<Rightarrow> 'w layout res" where
  "la_consume_or_expel_window_left window l =
     (if is_target_moving window l then Inr l else on_target window (ws_consume_or_expel_window_left window) l)"

definition la_consume_or_expel_window_right :: "'w option \<Rightarrow> 'w layout \<Rightarrow> 'w layout res" where
  "la_consume_or_expel_window_right window l =
     (if is_target_moving window l then Inr l else on_target window (ws_consume_or_expel_window_right window) l)"

text \<open>Toggling a window that is being dragged only changes where it will be dropped.\<close>

definition la_toggle_window_floating :: "'w layout_env \<Rightarrow> 'w geometry \<Rightarrow> 'w option \<Rightarrow> 'w layout \<Rightarrow> 'w layout res" where
  "la_toggle_window_floating env geo window l =
     (case la_interactive_move l of
        Some (Moving move) \<Rightarrow>
          if window = None \<or> window = Some (tl_window (im_tile move))
          then let move = move\<lparr>im_is_floating := \<not> im_is_floating move\<rparr>;
                   l = l\<lparr>la_interactive_move := Some (Moving move)\<rparr>
               in if im_is_floating move then workspaces_dnd_end geo l else Inr l
          else on_target window (ws_toggle_window_floating env window) l
      | _ \<Rightarrow> on_target window (ws_toggle_window_floating env window) l)"

definition la_set_window_floating ::
  "'w layout_env \<Rightarrow> 'w geometry \<Rightarrow> 'w option \<Rightarrow> bool \<Rightarrow> 'w layout \<Rightarrow> 'w layout res" where
  "la_set_window_floating env geo window floating l =
     (case la_interactive_move l of
        Some (Moving move) \<Rightarrow>
          if window = None \<or> window = Some (tl_window (im_tile move))
          then if im_is_floating move \<noteq> floating then la_toggle_window_floating env geo window l else Inr l
          else on_target window (ws_set_window_floating env window floating) l
      | _ \<Rightarrow> on_target window (ws_set_window_floating env window floating) l)"

definition la_move_floating_window ::
  "'w option \<Rightarrow> position_change \<Rightarrow> position_change \<Rightarrow> 'w layout \<Rightarrow> 'w layout res" where
  "la_move_floating_window window x y l =
     (if is_target_moving window l then Inr l else on_target window (ws_move_floating_window window x y) l)"

text \<open>
  \<open>set_fullscreen\<close> first handles a window that is in windowed fullscreen (\<open>is_pending_windowed_fullscreen\<close>): it is only
  asked to leave that, which changes the window and not the layout. Nor does anything change for a window
  that the layout does not have.
\<close>

definition unless_moving :: "'w \<Rightarrow> ('w lworkspace \<Rightarrow> 'w lworkspace res) \<Rightarrow> 'w layout \<Rightarrow> 'w layout res" where
  "unless_moving window f l = (if is_moving window l then Inr l else on_window_if_any window f l)"

definition la_set_fullscreen :: "'w layout_env \<Rightarrow> 'w \<Rightarrow> bool \<Rightarrow> 'w layout \<Rightarrow> 'w layout res" where
  "la_set_fullscreen env window is_fullscreen l =
     (if \<not> is_fullscreen \<and> env_windowed_fullscreen env window then Inr l
      else unless_moving window (ws_set_fullscreen env window is_fullscreen) l)"

definition la_toggle_fullscreen :: "'w layout_env \<Rightarrow> 'w \<Rightarrow> 'w layout \<Rightarrow> 'w layout res" where
  "la_toggle_fullscreen env window = unless_moving window (ws_toggle_fullscreen env window)"

definition la_set_maximized :: "'w layout_env \<Rightarrow> 'w \<Rightarrow> bool \<Rightarrow> 'w layout \<Rightarrow> 'w layout res" where
  "la_set_maximized env window maximize = unless_moving window (ws_set_maximized env window maximize)"

definition la_toggle_maximized :: "'w layout_env \<Rightarrow> 'w \<Rightarrow> 'w layout \<Rightarrow> 'w layout res" where
  "la_toggle_maximized env window = unless_moving window (ws_toggle_maximized env window)"

definition la_interactive_resize_begin :: "'w \<Rightarrow> 'w layout \<Rightarrow> 'w layout res" where
  "la_interactive_resize_begin window =
     on_window_if_any window (\<lambda>ws. discard (ws_interactive_resize_begin window ws))"

definition la_interactive_resize_end :: "'w \<Rightarrow> 'w layout \<Rightarrow> 'w layout res" where
  "la_interactive_resize_end window =
     unless_moving window (ws_interactive_resize_end (Some window))"

definition until_found_workspaces ::
  "('w lworkspace \<Rightarrow> ('w lworkspace \<times> bool) res) \<Rightarrow> 'w monitor \<Rightarrow> ('w monitor \<times> nat option) res" where
  "until_found_workspaces f m =
     bind_res (until_found f 0 (mo_workspaces m)) (\<lambda>(wss, r). Inr (m\<lparr>mo_workspaces := wss\<rparr>, r))"

definition la_descendants_added :: "'w layout_env \<Rightarrow> 'w \<Rightarrow> 'w layout \<Rightarrow> ('w layout \<times> bool) res" where
  "la_descendants_added env window l =
     (case la_monitor_set l of
        Normal mons p a \<Rightarrow>
          bind_res (until_found (\<lambda>m. bind_res (until_found_workspaces (ws_descendants_added env window) m) (\<lambda>(m, r).
              Inr (m, r \<noteq> None))) 0 mons) (\<lambda>(mons, r).
            Inr (l\<lparr>la_monitor_set := Normal mons p a\<rparr>, r \<noteq> None))
      | NoOutputs wss \<Rightarrow>
          bind_res (until_found (ws_descendants_added env window) 0 wss) (\<lambda>(wss, r).
            Inr (l\<lparr>la_monitor_set := NoOutputs wss\<rparr>, r \<noteq> None)))"

text \<open>
  \<open>activate_window\<close> and \<open>activate_window_without_raising\<close>: the workspace of the window is switched to,
  unless a swipe is just showing it.
\<close>

definition is_shown_by_gesture :: "nat \<Rightarrow> workspace_switch option \<Rightarrow> bool" where
  "is_shown_by_gesture idx switch =
     (case switch of
        Some (SwitchGesture g) \<Rightarrow>
          of_int \<lfloor>ge_current_idx g\<rfloor> = real idx \<or> of_int \<lceil>ge_current_idx g\<rceil> = real idx
      | _ \<Rightarrow> False)"

definition activate_on_monitor ::
  "'w layout_env \<Rightarrow> ('w lworkspace \<Rightarrow> ('w lworkspace \<times> bool) res) \<Rightarrow> 'w monitor \<Rightarrow> ('w monitor \<times> bool) res" where
  "activate_on_monitor env f m =
     bind_res (until_found_workspaces f m) (\<lambda>(m, r).
       case r of
         None \<Rightarrow> Inr (m, False)
       | Some workspace_idx \<Rightarrow>
           if is_shown_by_gesture workspace_idx (mo_workspace_switch m) then Inr (m, True)
           else bind_res (switch_workspace env workspace_idx m) (\<lambda>m. Inr (m, True)))"

definition activate_by ::
  "'w layout_env \<Rightarrow> ('w lworkspace \<Rightarrow> ('w lworkspace \<times> bool) res) \<Rightarrow> 'w \<Rightarrow> 'w layout \<Rightarrow> 'w layout res" where
  "activate_by env f window l =
     (if is_moving window l then Inr l
      else case la_monitor_set l of
             NoOutputs wss \<Rightarrow> Inr l
           | Normal mons p a \<Rightarrow>
               bind_res (until_found (activate_on_monitor env f) 0 mons) (\<lambda>(mons, r).
                 Inr (l\<lparr>la_monitor_set := Normal mons p (case r of Some idx \<Rightarrow> idx | None \<Rightarrow> a)\<rparr>)))"

definition la_activate_window :: "'w layout_env \<Rightarrow> 'w \<Rightarrow> 'w layout \<Rightarrow> 'w layout res" where
  "la_activate_window env window = activate_by env (ws_activate_window env window) window"

definition la_activate_window_without_raising :: "'w layout_env \<Rightarrow> 'w \<Rightarrow> 'w layout \<Rightarrow> 'w layout res" where
  "la_activate_window_without_raising env window = activate_by env (ws_activate_window_without_raising window) window"

subsection \<open>The active monitor\<close>

definition la_move_down_or_to_workspace_down :: "'w layout_env \<Rightarrow> 'w layout \<Rightarrow> 'w layout res" where
  "la_move_down_or_to_workspace_down env = on_active_monitor (move_down_or_to_workspace_down env)"

definition la_move_up_or_to_workspace_up :: "'w layout_env \<Rightarrow> 'w layout \<Rightarrow> 'w layout res" where
  "la_move_up_or_to_workspace_up env = on_active_monitor (move_up_or_to_workspace_up env)"

definition la_focus_window_or_workspace_down :: "'w layout_env \<Rightarrow> 'w layout \<Rightarrow> 'w layout res" where
  "la_focus_window_or_workspace_down env = on_active_monitor (focus_window_or_workspace_down env)"

definition la_focus_window_or_workspace_up :: "'w layout_env \<Rightarrow> 'w layout \<Rightarrow> 'w layout res" where
  "la_focus_window_or_workspace_up env = on_active_monitor (focus_window_or_workspace_up env)"

definition la_move_to_workspace_up :: "'w layout_env \<Rightarrow> bool \<Rightarrow> 'w layout \<Rightarrow> 'w layout res" where
  "la_move_to_workspace_up env focus = on_active_monitor (move_to_workspace_up env focus)"

definition la_move_to_workspace_down :: "'w layout_env \<Rightarrow> bool \<Rightarrow> 'w layout \<Rightarrow> 'w layout res" where
  "la_move_to_workspace_down env focus = on_active_monitor (move_to_workspace_down env focus)"

definition la_move_column_to_workspace_up :: "'w layout_env \<Rightarrow> bool \<Rightarrow> 'w layout \<Rightarrow> 'w layout res" where
  "la_move_column_to_workspace_up env activate = on_active_monitor (move_column_to_workspace_up env activate)"

definition la_move_column_to_workspace_down :: "'w layout_env \<Rightarrow> bool \<Rightarrow> 'w layout \<Rightarrow> 'w layout res" where
  "la_move_column_to_workspace_down env activate = on_active_monitor (move_column_to_workspace_down env activate)"

definition la_move_column_to_workspace :: "'w layout_env \<Rightarrow> nat \<Rightarrow> bool \<Rightarrow> 'w layout \<Rightarrow> 'w layout res" where
  "la_move_column_to_workspace env idx activate = on_active_monitor (move_column_to_workspace env idx activate)"

definition la_switch_workspace_up :: "'w layout_env \<Rightarrow> 'w layout \<Rightarrow> 'w layout res" where
  "la_switch_workspace_up env = on_active_monitor (switch_workspace_up env)"

definition la_switch_workspace_down :: "'w layout_env \<Rightarrow> 'w layout \<Rightarrow> 'w layout res" where
  "la_switch_workspace_down env = on_active_monitor (switch_workspace_down env)"

definition la_switch_workspace :: "'w layout_env \<Rightarrow> nat \<Rightarrow> 'w layout \<Rightarrow> 'w layout res" where
  "la_switch_workspace env idx = on_active_monitor (switch_workspace env idx)"

definition la_switch_workspace_auto_back_and_forth :: "'w layout_env \<Rightarrow> nat \<Rightarrow> 'w layout \<Rightarrow> 'w layout res" where
  "la_switch_workspace_auto_back_and_forth env idx = on_active_monitor (switch_workspace_auto_back_and_forth env idx)"

definition la_switch_workspace_previous :: "'w layout_env \<Rightarrow> 'w layout \<Rightarrow> 'w layout res" where
  "la_switch_workspace_previous env = on_active_monitor (switch_workspace_previous env)"

definition la_move_workspace_down :: "'w layout_env \<Rightarrow> 'w layout \<Rightarrow> 'w layout res" where
  "la_move_workspace_down env = on_active_monitor (move_workspace_down env)"

definition la_move_workspace_up :: "'w layout_env \<Rightarrow> 'w layout \<Rightarrow> 'w layout res" where
  "la_move_workspace_up env = on_active_monitor (move_workspace_up env)"

definition la_move_to_workspace ::
  "'w layout_env \<Rightarrow> 'w option \<Rightarrow> nat \<Rightarrow> activate_window \<Rightarrow> 'w layout \<Rightarrow> 'w layout res" where
  "la_move_to_workspace env window idx activate l =
     (if is_target_moving window l then Inr l
      else case la_monitor_set l of
             NoOutputs wss \<Rightarrow> Inr l
           | Normal mons p a \<Rightarrow>
               bind_res (case window of Some w \<Rightarrow> unwrap (position (mo_has_window w) mons) | None \<Rightarrow> Inr a) (\<lambda>mon_idx.
                 on_monitor mon_idx (move_to_workspace env window idx activate) l))"

definition la_move_workspace_to_idx :: "(loutput option \<times> nat) option \<Rightarrow> nat \<Rightarrow> 'w layout \<Rightarrow> 'w layout res" where
  "la_move_workspace_to_idx reference new_idx l =
     (case reference of
        Some (Some out, old_idx) \<Rightarrow>
          (case la_monitor_set l of
             NoOutputs wss \<Rightarrow> Inr l
           | Normal mons p a \<Rightarrow>
               (case position (is_output out) mons of
                  None \<Rightarrow> Inr l
                | Some idx \<Rightarrow> on_monitor idx (move_workspace_to_idx old_idx new_idx) l))
      | Some (None, old_idx) \<Rightarrow> on_active_monitor (move_workspace_to_idx old_idx new_idx) l
      | None \<Rightarrow> on_active_monitor (\<lambda>m. move_workspace_to_idx (mo_active_workspace_idx m) new_idx m) l)"

subsection \<open>Between outputs\<close>

definition on_active_workspace_b ::
  "('w lworkspace \<Rightarrow> ('w lworkspace \<times> bool) res) \<Rightarrow> 'w layout \<Rightarrow> ('w layout \<times> bool) res" where
  "on_active_workspace_b f l =
     (case la_monitor_set l of
        NoOutputs wss \<Rightarrow> Inr (l, False)
      | Normal mons p a \<Rightarrow>
          bind_res (vec_index mons a) (\<lambda>m.
          bind_res (mo_active_workspace m) (\<lambda>ws.
          bind_res (f ws) (\<lambda>(ws, b).
            Inr (l\<lparr>la_monitor_set := Normal (mons[a := store_workspace (mo_active_workspace_idx m) ws m]) p a\<rparr>, b)))))"

definition or_focus_output ::
  "('w lworkspace \<Rightarrow> ('w lworkspace \<times> bool) res) \<Rightarrow> loutput \<Rightarrow> 'w layout \<Rightarrow> ('w layout \<times> bool) res" where
  "or_focus_output f out l =
     bind_res (on_active_workspace_b f l) (\<lambda>(l, moved).
       Inr (if moved then (l, False) else (focus_output out l, True)))"

definition la_focus_window_up_or_output :: "'w layout_env \<Rightarrow> loutput \<Rightarrow> 'w layout \<Rightarrow> ('w layout \<times> bool) res" where
  "la_focus_window_up_or_output env = or_focus_output (ws_focus_up env)"

definition la_focus_window_down_or_output :: "'w layout_env \<Rightarrow> loutput \<Rightarrow> 'w layout \<Rightarrow> ('w layout \<times> bool) res" where
  "la_focus_window_down_or_output env = or_focus_output (ws_focus_down env)"

definition la_focus_column_left_or_output :: "'w layout_env \<Rightarrow> loutput \<Rightarrow> 'w layout \<Rightarrow> ('w layout \<times> bool) res" where
  "la_focus_column_left_or_output env = or_focus_output (ws_focus_left env)"

definition la_focus_column_right_or_output :: "'w layout_env \<Rightarrow> loutput \<Rightarrow> 'w layout \<Rightarrow> ('w layout \<times> bool) res" where
  "la_focus_column_right_or_output env = or_focus_output (ws_focus_right env)"

definition locate_on_monitors :: "'w option \<Rightarrow> 'w monitor list \<Rightarrow> nat \<Rightarrow> (nat \<times> nat) res" where
  "locate_on_monitors window mons a =
     (case window of
        Some w \<Rightarrow>
          bind_res (unwrap (position (\<lambda>m. list_ex (ws_has_window w) (mo_workspaces m)) mons)) (\<lambda>mon_idx.
          bind_res (unwrap (position (ws_has_window w) (mo_workspaces (mons ! mon_idx)))) (\<lambda>ws_idx. Inr (mon_idx, ws_idx)))
      | None \<Rightarrow> bind_res (vec_index mons a) (\<lambda>m. Inr (a, mo_active_workspace_idx m)))"

definition move_to_output ::
  "'w layout_env \<Rightarrow> 'w option \<Rightarrow> loutput \<Rightarrow> nat option \<Rightarrow> activate_window \<Rightarrow> 'w layout \<Rightarrow> 'w layout res" where
  "move_to_output env window out target_ws_idx activate l =
     (if is_target_moving window l then Inr l
      else case la_monitor_set l of
             NoOutputs wss \<Rightarrow> Inr l
           | Normal mons p a \<Rightarrow>
               bind_res (unwrap (position (is_output out) mons)) (\<lambda>new_idx.
               bind_res (locate_on_monitors window mons a) (\<lambda>(mon_idx, ws_idx).
               let new_mon = mons ! new_idx;
                   workspace_idx = (case target_ws_idx of Some i \<Rightarrow> i | None \<Rightarrow> mo_active_workspace_idx new_mon)
               in if mon_idx = new_idx \<and> ws_idx = workspace_idx then Inr l
                  else if length (mo_workspaces new_mon) \<le> workspace_idx then Inr l
                  else let wid = ws_id (mo_workspaces new_mon ! workspace_idx)
                  in bind_res (vec_index mons mon_idx) (\<lambda>m.
                     bind_res (mo_active_window m) (\<lambda>active_window.
                     let act = map_smart activate (case window of None \<Rightarrow> True
                           | Some w \<Rightarrow> mon_idx = a \<and> active_window = Some w);
                         activate = (if act then ActivateYes else ActivateNo)
                     in bind_res (vec_index (mo_workspaces m) ws_idx) (\<lambda>ws.
                        bind_res (case window of
                                    Some w \<Rightarrow> bind_res (ws_remove_tile w ws) (\<lambda>(removed, ws). Inr (Some removed, ws))
                                  | None \<Rightarrow> ws_remove_active_tile ws) (\<lambda>(removed, ws).
                        let l = l\<lparr>la_monitor_set := Normal (mons[mon_idx := store_workspace ws_idx ws m]) p a\<rparr>
                        in case removed of
                             None \<Rightarrow> Inr l
                           | Some removed \<Rightarrow>
                               bind_res (on_monitor new_idx (add_removed_tile env removed wid activate) l) (\<lambda>l.
                               let l = (if map_smart activate False then set_active_monitor new_idx l else l)
                               in on_monitor mon_idx clean_up_if_idle l))))))))"

definition move_column_to_output ::
  "'w layout_env \<Rightarrow> loutput \<Rightarrow> nat option \<Rightarrow> bool \<Rightarrow> 'w layout \<Rightarrow> 'w layout res" where
  "move_column_to_output env out target_ws_idx activate l =
     (case la_monitor_set l of
        NoOutputs wss \<Rightarrow> Inr l
      | Normal mons p a \<Rightarrow>
          bind_res (unwrap (position (is_output out) mons)) (\<lambda>new_idx.
          bind_res (vec_index mons a) (\<lambda>current.
          bind_res (mo_active_workspace current) (\<lambda>ws.
          if floating_get ws then move_to_output env None out None ActivateSmart l
          else bind_res (ws_remove_active_column ws) (\<lambda>(column, ws).
            let mons = mons[a := store_workspace (mo_active_workspace_idx current) ws current];
                l = l\<lparr>la_monitor_set := Normal mons p a\<rparr>
            in case column of
                 None \<Rightarrow> Inr l
               | Some column \<Rightarrow>
                   bind_res (last_idx (mo_workspaces (mons ! new_idx))) (\<lambda>last.
                   let workspace_idx = min (case target_ws_idx of Some i \<Rightarrow> i
                         | None \<Rightarrow> mo_active_workspace_idx (mons ! new_idx)) last
                   in add_column_by_idx env new_idx workspace_idx column activate l))))))"

definition or_move_column_to_output ::
  "'w layout_env \<Rightarrow> ('w lworkspace \<Rightarrow> ('w lworkspace \<times> bool) res) \<Rightarrow> loutput \<Rightarrow> 'w layout \<Rightarrow> ('w layout \<times> bool) res" where
  "or_move_column_to_output env f out l =
     bind_res (on_active_workspace_b f l) (\<lambda>(l, moved).
       if moved then Inr (l, False)
       else bind_res (move_column_to_output env out None True l) (\<lambda>l. Inr (l, True)))"

definition la_move_column_left_or_to_output :: "'w layout_env \<Rightarrow> loutput \<Rightarrow> 'w layout \<Rightarrow> ('w layout \<times> bool) res" where
  "la_move_column_left_or_to_output env = or_move_column_to_output env ws_move_left"

definition la_move_column_right_or_to_output :: "'w layout_env \<Rightarrow> loutput \<Rightarrow> 'w layout \<Rightarrow> ('w layout \<times> bool) res" where
  "la_move_column_right_or_to_output env = or_move_column_to_output env ws_move_right"

definition move_workspace_to_output_by_id ::
  "'w layout_env \<Rightarrow> nat \<Rightarrow> loutput option \<Rightarrow> loutput \<Rightarrow> 'w layout \<Rightarrow> ('w layout \<times> bool) res" where
  "move_workspace_to_output_by_id env old_idx old_output new_output l =
     (case la_monitor_set l of
        NoOutputs wss \<Rightarrow> Inr (l, False)
      | Normal mons p a \<Rightarrow>
          bind_res (case old_output of Some out \<Rightarrow> unwrap (position (is_output out) mons) | None \<Rightarrow> Inr a) (\<lambda>current_idx.
          bind_res (unwrap (position (is_output new_output) mons)) (\<lambda>target_idx.
          bind_res (vec_index mons current_idx) (\<lambda>current.
          if length (mo_workspaces current) \<le> old_idx then Inr (l, False)
          else if current_idx = target_idx
          then bind_res (on_monitor current_idx (on_workspace old_idx (\<lambda>ws.
                   Inr (ws\<lparr>ws_original_output := output_id (mo_output current)\<rparr>))) l) (\<lambda>l. Inr (l, False))
          else let activate = (current_idx = a \<and> old_idx = mo_active_workspace_idx current)
          in bind_res (remove_workspace_by_idx old_idx (with_counter (la_next_id l) current)) (\<lambda>(ws, current).
             let ws = ws\<lparr>ws_original_output := output_id new_output\<rparr>;
                 l = l\<lparr>la_monitor_set := Normal (mons[current_idx := current]) p a, la_next_id := mo_next_id current\<rparr>
             in bind_res (on_monitor target_idx (\<lambda>target.
                    insert_workspace env ws (mo_active_workspace_idx target + 1) activate target) l) (\<lambda>l.
                Inr (if activate then set_active_monitor target_idx l else l, activate)))))))"

definition move_workspace_to_output :: "'w layout_env \<Rightarrow> loutput \<Rightarrow> 'w layout \<Rightarrow> ('w layout \<times> bool) res" where
  "move_workspace_to_output env out l =
     (case la_monitor_set l of
        NoOutputs wss \<Rightarrow> Inr (l, False)
      | Normal mons p a \<Rightarrow>
          bind_res (vec_index mons a) (\<lambda>m.
            move_workspace_to_output_by_id env (mo_active_workspace_idx m) None out l))"

subsection \<open>Gestures\<close>

definition la_workspace_switch_gesture_begin ::
  "'w layout_env \<Rightarrow> 'w geometry \<Rightarrow> loutput \<Rightarrow> bool \<Rightarrow> 'w layout \<Rightarrow> 'w layout res" where
  "la_workspace_switch_gesture_begin env geo out is_touchpad l =
     (case la_monitor_set l of
        NoOutputs wss \<Rightarrow> Inl (AssertFailed ''unreachable'')
      | Normal mons p a \<Rightarrow> monitors_mut (\<lambda>m.
          if \<not> is_output out m then first_of (workspace_switch_gesture_end (gm_gesture_height geo m) (gm_now geo) None m)
          else Inr (workspace_switch_gesture_begin env is_touchpad m)) l)"

definition la_workspace_switch_gesture_update ::
  "'w geometry \<Rightarrow> real \<Rightarrow> nat \<Rightarrow> bool \<Rightarrow> 'w layout \<Rightarrow> 'w layout res" where
  "la_workspace_switch_gesture_update geo delta_y timestamp is_touchpad l =
     (case la_monitor_set l of
        NoOutputs wss \<Rightarrow> Inr l
      | Normal mons p a \<Rightarrow>
          bind_res (until_found (\<lambda>m. bind_res (workspace_switch_gesture_update (gm_zoom geo m) (gm_gesture_height geo m)
              delta_y timestamp is_touchpad m) (\<lambda>(m, refresh). Inr (m, refresh \<noteq> None))) 0 mons) (\<lambda>(mons, _).
            Inr (l\<lparr>la_monitor_set := Normal mons p a\<rparr>)))"

definition la_workspace_switch_gesture_end :: "'w geometry \<Rightarrow> bool option \<Rightarrow> 'w layout \<Rightarrow> 'w layout res" where
  "la_workspace_switch_gesture_end geo is_touchpad l =
     (case la_monitor_set l of
        NoOutputs wss \<Rightarrow> Inr l
      | Normal mons p a \<Rightarrow>
          bind_res (until_found (\<lambda>m. workspace_switch_gesture_end (gm_gesture_height geo m) (gm_now geo) is_touchpad m) 0 mons)
            (\<lambda>(mons, _). Inr (l\<lparr>la_monitor_set := Normal mons p a\<rparr>)))"

subsection \<open>The overview\<close>

definition set_monitors_overview_state :: "'w layout \<Rightarrow> 'w layout" where
  "set_monitors_overview_state l =
     (case la_monitor_set l of
        Normal mons p a \<Rightarrow>
          l\<lparr>la_monitor_set := Normal (map (\<lambda>m. m\<lparr>mo_overview_open := la_overview_open l\<rparr>) mons) p a\<rparr>
      | NoOutputs wss \<Rightarrow> l)"

definition toggle_overview :: "'w layout \<Rightarrow> 'w layout" where
  "toggle_overview l = set_monitors_overview_state (l\<lparr>la_overview_open := \<not> la_overview_open l\<rparr>)"

definition open_overview :: "'w layout \<Rightarrow> 'w layout \<times> bool" where
  "open_overview l = (if la_overview_open l then (l, False) else (toggle_overview l, True))"

definition close_overview :: "'w layout \<Rightarrow> 'w layout \<times> bool" where
  "close_overview l = (if \<not> la_overview_open l then (l, False) else (toggle_overview l, True))"

definition toggle_overview_to_workspace :: "'w layout_env \<Rightarrow> nat \<Rightarrow> 'w layout \<Rightarrow> 'w layout res" where
  "toggle_overview_to_workspace env ws_idx l =
     bind_res (on_active_monitor (activate_workspace env ws_idx) l) (\<lambda>l. Inr (toggle_overview l))"

end
