(* ===== verification/Monitor_Mints.thy ===== *)
theory Monitor_Mints
  imports Monitor_Properties
begin

text \<open>
  Where the workspaces of a monitor come from: an operation keeps workspaces, or creates them with
  identifiers that the global counter has not given out yet. This is what keeps the identifiers
  distinct across monitors. It also keeps the output of the monitor.
\<close>

definition mints :: "'w monitor \<Rightarrow> 'w monitor \<Rightarrow> bool" where
  "mints m m' \<longleftrightarrow> mo_next_id m \<le> mo_next_id m' \<and> out_handle (mo_output m') = out_handle (mo_output m) \<and>
     out_name (mo_output m') = out_name (mo_output m) \<and>
     ws_id ` set (mo_workspaces m') \<subseteq> ws_id ` set (mo_workspaces m) \<union> {mo_next_id m..}"

lemma mints_refl [simp]: "mints m m"
  by (simp add: mints_def)

lemma mints_trans [trans]: "mints a b \<Longrightarrow> mints b c \<Longrightarrow> mints a c"
  unfolding mints_def by (auto 0 3)

lemma mints_update [simp]:
  "mints m (m'\<lparr>mo_active_workspace_idx := i\<rparr>) = mints m m'" "mints (m\<lparr>mo_active_workspace_idx := i\<rparr>) m' = mints m m'"
  "mints m (m'\<lparr>mo_workspace_switch := s\<rparr>) = mints m m'" "mints (m\<lparr>mo_workspace_switch := s\<rparr>) m' = mints m m'"
  "mints m (m'\<lparr>mo_previous_workspace_id := x\<rparr>) = mints m m'" "mints (m\<lparr>mo_previous_workspace_id := x\<rparr>) m' = mints m m'"
  "mints m (m'\<lparr>mo_base_options := b\<rparr>) = mints m m'" "mints m (m'\<lparr>mo_options := c\<rparr>) = mints m m'"
  "mints m (m'\<lparr>mo_layout_config := d\<rparr>) = mints m m'" "mints (m\<lparr>mo_layout_config := d\<rparr>) m' = mints m m'"
  by (simp_all add: mints_def)

lemma mints_workspaces:
  "ws_id ` set wss \<subseteq> ws_id ` set (mo_workspaces m') \<Longrightarrow> mints m m' \<Longrightarrow> mints m (m'\<lparr>mo_workspaces := wss\<rparr>)"
  by (auto simp: mints_def)

lemma mints_store:
  assumes "i < length (mo_workspaces m)" "ws_id ws = ws_id (mo_workspaces m ! i)"
  shows "mints m (store_workspace i ws m)"
proof -
  have "map ws_id ((mo_workspaces m)[i := ws]) = map ws_id (mo_workspaces m)"
    using assms by (simp add: map_update list_update_same_conv)
  then have "ws_id ` set ((mo_workspaces m)[i := ws]) = ws_id ` set (mo_workspaces m)" by (metis list.set_map)
  then show ?thesis unfolding store_workspace_def by (intro mints_workspaces) simp_all
qed

subsection \<open>Workspaces keep their identifier\<close>

lemma ws_id_layers:
  "on_scrolling f ws = Inr ws' \<Longrightarrow> ws_id ws' = ws_id ws" "on_floating g ws = Inr ws' \<Longrightarrow> ws_id ws' = ws_id ws"
  by (auto simp: on_scrolling_def on_floating_def)

lemma ws_id_focus_if [simp]: "ws_id (focus_if b fa ws) = ws_id ws"
  by (simp add: focus_if_def)

lemma ws_id_after_removing [simp]: "ws_id (update_focus_floating_tiling_after_removing b ws) = ws_id ws"
  by (simp add: update_focus_floating_tiling_after_removing_def)

lemma ws_id_adding:
  "ws_add_tile env tile target act width full fl ws = Inr ws' \<Longrightarrow> ws_id ws' = ws_id ws"
  "ws_add_tile_to_column ci ti tile b ws = Inr ws' \<Longrightarrow> ws_id ws' = ws_id ws"
  "ws_add_column col b ws = Inr ws' \<Longrightarrow> ws_id ws' = ws_id ws"
  by (auto simp: ws_add_tile_def ws_add_tile_to_column_def ws_add_column_def Let_def split: ws_target.splits if_splits
      dest!: ws_id_layers)

lemma ws_id_removing:
  "ws_remove_tile w ws = Inr (r, ws') \<Longrightarrow> ws_id ws' = ws_id ws"
  "ws_remove_active_tile ws = Inr (r', ws') \<Longrightarrow> ws_id ws' = ws_id ws"
  "ws_remove_active_column ws = Inr (col, ws') \<Longrightarrow> ws_id ws' = ws_id ws"
  by (auto simp: ws_remove_tile_def ws_remove_active_tile_def ws_remove_active_column_def split: if_splits option.splits)

lemma ws_id_layers_b:
  "on_scrolling_b f ws = Inr (ws', b) \<Longrightarrow> ws_id ws' = ws_id ws" "on_floating_b g ws = Inr (ws', b) \<Longrightarrow> ws_id ws' = ws_id ws"
  by (auto simp: on_scrolling_b_def on_floating_b_def)

lemma ws_id_moving:
  "ws_move_down ws = Inr (ws', b) \<Longrightarrow> ws_id ws' = ws_id ws" "ws_move_up ws = Inr (ws', b) \<Longrightarrow> ws_id ws' = ws_id ws"
  "ws_focus_down env ws = Inr (ws', b) \<Longrightarrow> ws_id ws' = ws_id ws" "ws_focus_up env ws = Inr (ws', b) \<Longrightarrow> ws_id ws' = ws_id ws"
  by (auto simp: ws_move_down_def ws_move_up_def ws_focus_down_def ws_focus_up_def with_true_def split: if_splits
      dest!: ws_id_layers ws_id_layers_b)

lemma ws_id_config [simp]:
  "ws_id (ws_update_config d ws) = ws_id ws" "ws_id (ws_set_view_size v ws) = ws_id ws" "ws_id (ws_set_output out ws) = ws_id ws"
  "ws_id (ws_unname ws) = ws_id ws"
  by (auto simp: ws_update_config_def ws_set_view_size_def ws_set_output_def ws_unname_def Let_def split: option.splits)

lemma ws_id_new [simp]: "ws_id (ws_new out d n) = n"
  by (simp add: ws_new_def ws_new_with_config_def)

subsection \<open>The operations of the monitor\<close>

lemma on_workspace_mints:
  assumes "on_workspace i f m = Inr m'" "\<And>ws ws'. f ws = Inr ws' \<Longrightarrow> ws_id ws' = ws_id ws"
  shows "mints m m'"
  using assms mints_store [of i m] by (auto simp: on_workspace_def store_workspace_def)

lemma mints_sub:
  "set wss \<subseteq> set (mo_workspaces m) \<Longrightarrow> mints m (m\<lparr>mo_workspaces := wss\<rparr>)"
  by (intro mints_workspaces image_mono) simp_all

lemma set_take_drop: "set (take i xs @ drop j xs) \<subseteq> set xs"
  using set_take_subset [of i xs] set_drop_subset [of j xs] by simp

lemma add_workspace_at_mints: "add_workspace_at i m = Inr m' \<Longrightarrow> mints m m'"
  by (auto simp: mints_def add_workspace_at_def Let_def dest!: in_set_takeD in_set_dropD)

lemmas add_workspace_mints = add_workspace_at_mints add_workspace_at_mints [of 0, folded add_workspace_top_def]
  add_workspace_at_mints [of "length (mo_workspaces m)" m for m, folded add_workspace_bottom_def]

lemma remove_workspace_mints: "remove_workspace_at i m = Inr m' \<Longrightarrow> mints m m'"
  using mints_sub [OF set_take_drop [of i _ "Suc i"]] by (auto simp: remove_workspace_at_def)

lemma activate_workspace_mints: "activate_workspace env i m = Inr m' \<Longrightarrow> mints m m'"
  by (auto simp: activate_workspace_def Let_def split: if_splits option.splits workspace_switch.splits)

lemma clean_up_loop_mints: "clean_up_loop idxs m = Inr m' \<Longrightarrow> mints m m'"
proof (induction idxs arbitrary: m)
  case (Cons idx idxs)
  have step: "mints m m'" if "remove_workspace_at idx m = Inr m1"
    "clean_up_loop idxs (if b then m1\<lparr>mo_active_workspace_idx := i\<rparr> else m1) = Inr m'" for b m1 i
    using Cons.IH [OF that(2)] mints_trans [OF remove_workspace_mints [OF that(1)]] by (cases b) simp_all
  from Cons.prems Cons.IH step show ?case
    by (cases "mo_active_workspace_idx m = idx"; cases "used (mo_workspaces m ! idx)") auto
qed simp

lemma clean_up_mints: "clean_up_workspaces m = Inr m' \<Longrightarrow> mints m m'" "clean_up_if_idle m = Inr m' \<Longrightarrow> mints m m'"
  by (auto simp: clean_up_if_idle_def clean_up_workspaces_def Let_def split: if_splits
      dest!: clean_up_loop_mints remove_workspace_mints intro: mints_trans)

lemmas basic_mints = add_workspace_mints remove_workspace_mints activate_workspace_mints clean_up_mints


subsection \<open>Windows and columns\<close>

lemma add_edges_mints: "add_edges i m = Inr (j, m') \<Longrightarrow> mints m m'"
  by (auto simp: add_edges_def split: if_splits dest!: add_workspace_mints intro: mints_trans)

lemma ws_id_own [simp]: "ws_id (own m ws) = ws_id ws"
  by (simp add: own_def)

lemma own_mints:
  assumes "on_workspace i (\<lambda>ws. bind_res (f ws) (\<lambda>ws. Inr (own m0 ws))) m = Inr m'"
    and "\<And>ws ws'. f ws = Inr ws' \<Longrightarrow> ws_id ws' = ws_id ws"
  shows "mints m m'"
  by (rule on_workspace_mints [OF assms(1)]) (auto dest: assms(2))

lemma edges_then_activate_mints:
  assumes "mints m m1" "bind_res (add_edges i m1) (\<lambda>(i, m). if b then activate_workspace env i m else Inr m) = Inr m'"
  shows "mints m m'"
proof -
  obtain j m2 where e: "add_edges i m1 = Inr (j, m2)" "(if b then activate_workspace env j m2 else Inr m2) = Inr m'"
    using assms(2) by auto
  have "mints m2 m'" using e(2) activate_workspace_mints by (cases b) auto
  then show ?thesis using assms(1) add_edges_mints [OF e(1)] by (blast intro: mints_trans)
qed

lemma mo_adding_mints:
  "mo_add_column env i col act m = Inr m' \<Longrightarrow> mints m m'"
  "mo_add_tile env tile target a allow width full fl m = Inr m' \<Longrightarrow> mints m m'"
  "mo_add_tile_to_column env i ci ti tile act allow m = Inr m' \<Longrightarrow> mints m m'"
proof -
  assume "mo_add_column env i col act m = Inr m'"
  then show "mints m m'" unfolding mo_add_column_def bind_res_eq_Inr [of "on_workspace _ _ _"]
    by (elim exE conjE) (rule edges_then_activate_mints [OF own_mints [OF _ ws_id_adding(3)]])
next
  assume "mo_add_tile env tile target a allow width full fl m = Inr m'"
  then obtain j t m1 where "on_workspace j (\<lambda>ws. bind_res (ws_add_tile env tile t a width full fl ws) (\<lambda>ws. Inr (own m ws))) m = Inr m1"
    and rest: "bind_res (add_edges j m1) (\<lambda>(i, m). if allow \<and> map_smart a False then activate_workspace env i m else Inr m) = Inr m'"
    unfolding mo_add_tile_def bind_res_eq_Inr [of "on_workspace _ _ _"] bind_res_eq_Inr [of "resolve_add_window_target _ _"]
      by (elim exE conjE) (auto simp only: case_prod_unfold bind_res_eq_Inr [of "on_workspace _ _ _"])
  from own_mints [OF this(1) ws_id_adding(1)] rest show "mints m m'" by (rule edges_then_activate_mints)
next
  assume "mo_add_tile_to_column env i ci ti tile act allow m = Inr m'"
  then obtain m1 where "on_workspace i (\<lambda>ws. bind_res (ws_add_tile_to_column ci ti tile act ws) (\<lambda>ws. Inr (own m ws))) m = Inr m1"
    "(if allow \<and> act then activate_workspace env i m1 else Inr m1) = Inr m'"
    unfolding mo_add_tile_to_column_def bind_res_eq_Inr [of "on_workspace _ _ _"] by blast
  moreover from own_mints [OF this(1) ws_id_adding(2)] have "mints m m1" .
  ultimately show "mints m m'" by (auto split: if_splits dest!: activate_workspace_mints intro: mints_trans)
qed

lemma add_removed_tile_mints: "add_removed_tile env r wid a m = Inr m' \<Longrightarrow> mints m m'"
  by (simp add: add_removed_tile_def mo_adding_mints)

lemma move_active_to_mints: "move_active_to env i focus m = Inr m' \<Longrightarrow> mints m m'"
  by (auto simp: move_active_to_def Let_def split: if_splits option.splits
      dest!: ws_id_removing(2) add_removed_tile_mints intro: mints_store mints_trans [OF mints_store])

lemma move_taken_mints:
  assumes "i < length (mo_workspaces m)" "ws_id ws = ws_id (mo_workspaces m ! i)"
    "bind_res (add_removed_tile env r wid a (store_workspace i ws m)) clean_up_if_idle = Inr m'"
  shows "mints m m'"
  using assms(3) mints_store [OF assms(1,2)] by (auto dest!: add_removed_tile_mints clean_up_mints(2) intro: mints_trans)

lemma move_to_workspace_up_down_mints:
  "move_to_workspace_up env focus m = Inr m' \<Longrightarrow> mints m m'" "move_to_workspace_down env focus m = Inr m' \<Longrightarrow> mints m m'"
  by (auto simp: move_to_workspace_up_def move_to_workspace_down_def dest!: move_active_to_mints)

lemma move_to_workspace_mints:
  assumes "move_to_workspace env window i a m = Inr m'"
  shows "mints m m'"
proof (cases "m' = m")
  case False
  then obtain src ws removed ws' wid a' where src: "vec_index (mo_workspaces m) src = Inr ws"
    and rem: "(case window of Some w \<Rightarrow> bind_res (ws_remove_tile w ws) (\<lambda>(removed, ws). Inr (Some removed, ws))
      | None \<Rightarrow> ws_remove_active_tile ws) = Inr (removed, ws')"
    and rest: "(case removed of None \<Rightarrow> Inr (store_workspace src ws' m)
      | Some removed \<Rightarrow> bind_res (add_removed_tile env removed wid a' (store_workspace src ws' m)) clean_up_if_idle) = Inr m'"
    using assms unfolding move_to_workspace_def Let_def by (auto split: if_splits)
  have "ws_id ws' = ws_id ws" using rem by (auto split: option.splits dest: ws_id_removing)
  moreover have "src < length (mo_workspaces m)" "ws = mo_workspaces m ! src" using src by auto
  ultimately show ?thesis using rest move_taken_mints [of src m ws'] mints_store [of src m ws'] by (cases removed) force+
qed simp

lemma move_column_up_or_down_mints:
  assumes "move_column_up_or_down env i f act m = Inr m'" "\<And>m1. f m = Inr m1 \<Longrightarrow> mints m m1"
  shows "mints m m'"
  using assms by (auto simp: move_column_up_or_down_def Let_def split: if_splits option.splits
      dest!: ws_id_removing(3) mo_adding_mints(1) intro: mints_store mints_trans [OF mints_store])

lemma move_column_to_workspace_mints:
  "move_column_to_workspace_up env act m = Inr m' \<Longrightarrow> mints m m'" "move_column_to_workspace_down env act m = Inr m' \<Longrightarrow> mints m m'"
  "move_column_to_workspace env i act m = Inr m' \<Longrightarrow> mints m m'"
  by (auto simp: move_column_to_workspace_up_def move_column_to_workspace_down_def move_column_to_workspace_def
      dest!: move_column_up_or_down_mints intro: move_to_workspace_mints move_to_workspace_up_down_mints)

subsection \<open>Switching\<close>

lemma switch_mints:
  "switch_workspace_up env m = Inr m' \<Longrightarrow> mints m m'" "switch_workspace_down env m = Inr m' \<Longrightarrow> mints m m'"
  "switch_workspace env i m = Inr m' \<Longrightarrow> mints m m'" "switch_workspace_previous env m = Inr m' \<Longrightarrow> mints m m'"
  "switch_workspace_auto_back_and_forth env i m = Inr m' \<Longrightarrow> mints m m'"
  by (auto simp: switch_workspace_up_def switch_workspace_down_def switch_workspace_def switch_workspace_previous_def
      switch_workspace_auto_back_and_forth_def Let_def split: if_splits option.splits dest!: activate_workspace_mints)

lemma active_or_else_mints:
  assumes "active_or_else f g m = Inr m'" "\<And>ws ws' b. f ws = Inr (ws', b) \<Longrightarrow> ws_id ws' = ws_id ws"
    "\<And>m m'. g m = Inr m' \<Longrightarrow> mints m m'"
  shows "mints m m'"
proof -
  let ?a = "mo_active_workspace_idx m"
  obtain ws b where a: "?a < length (mo_workspaces m)" and f: "f (mo_workspaces m ! ?a) = Inr (ws, b)"
    and g: "(if b then Inr (store_workspace ?a ws m) else g (store_workspace ?a ws m)) = Inr m'"
    using assms(1) by (auto simp: active_or_else_def mo_active_workspace_def Let_def)
  from mints_store [OF a assms(2) [OF f]] g assms(3) show ?thesis by (cases b) (auto intro: mints_trans)
qed

lemma or_workspace_mints:
  "move_down_or_to_workspace_down env m = Inr m' \<Longrightarrow> mints m m'" "move_up_or_to_workspace_up env m = Inr m' \<Longrightarrow> mints m m'"
  "focus_window_or_workspace_down env m = Inr m' \<Longrightarrow> mints m m'" "focus_window_or_workspace_up env m = Inr m' \<Longrightarrow> mints m m'"
  by (auto simp: move_down_or_to_workspace_down_def move_up_or_to_workspace_up_def focus_window_or_workspace_down_def
      focus_window_or_workspace_up_def elim!: active_or_else_mints dest: ws_id_moving move_to_workspace_up_down_mints switch_mints)

lemma gesture_mints:
  "mints m (workspace_switch_gesture_begin env b m)" "mints m (dnd_scroll_gesture_begin env now m)"
  "workspace_switch_gesture_update z h d ts b m = Inr (m', r) \<Longrightarrow> mints m m'"
  "workspace_switch_gesture_end h now t m = Inr (m', c) \<Longrightarrow> mints m m'"
  "dnd_scroll_gesture_end h now m = Inr m' \<Longrightarrow> mints m m'"
proof -
  show "workspace_switch_gesture_end h now t m = Inr (m', c) \<Longrightarrow> mints m m'" for t c
    by (auto simp: workspace_switch_gesture_end_def Let_def split: option.splits workspace_switch.splits if_splits)
  then show "dnd_scroll_gesture_end h now m = Inr m' \<Longrightarrow> mints m m'"
    by (auto simp: dnd_scroll_gesture_end_def split: if_splits)
qed (auto simp: workspace_switch_gesture_begin_def dnd_scroll_gesture_begin_def new_gesture_def Let_def
      workspace_switch_gesture_update_def split: option.splits workspace_switch.splits if_splits)

subsection \<open>Whole workspaces\<close>

lemma unname_mints: "mo_unname_workspace wid m = Inr (m', b) \<Longrightarrow> mints m m'"
proof -
  assume run: "mo_unname_workspace wid m = Inr (m', b)"
  have "mints m (m\<lparr>mo_workspaces := (mo_workspaces m)[i := ws_unname (mo_workspaces m ! i)]\<rparr>)" if "i < length (mo_workspaces m)" for i
    using mints_store [OF that, of "ws_unname (mo_workspaces m ! i)"] by (simp add: store_workspace_def)
  then show ?thesis using run
    by (auto simp: mo_unname_workspace_def vec_modify_def split: option.splits if_splits dest!: clean_up_mints(2) intro: mints_trans)
qed

lemma mo_update_config_mints:
  "mo_update_config options m = Inr m' \<Longrightarrow> mints m m'" "mints m (mo_update_output_size v m)"
proof -
  have map: "mints m0 (m1\<lparr>mo_workspaces := map (ws_update_config d) (mo_workspaces m1)\<rparr>)" if "mints m0 m1" for m0 m1 d
    by (rule mints_workspaces [OF _ that]) (simp add: image_image)
  show "mo_update_config options m = Inr m' \<Longrightarrow> mints m m'"
    by (auto simp: mo_update_config_def Let_def split: if_splits dest!: add_workspace_mints remove_workspace_mints
        intro!: map map [of m "m1\<lparr>mo_active_workspace_idx := i\<rparr>" for m1 i, simplified])
  show "mints m (mo_update_output_size v m)" by (auto simp: mints_def mo_update_output_size_def)
qed

lemma add_if_mints:
  "(if b then add_workspace_bottom m else Inr m) = Inr m' \<Longrightarrow> mints m m'"
  "(if b then add_workspace_top m else Inr m) = Inr m' \<Longrightarrow> mints m m'"
  "(if b then bind_res (add_workspace_top m) (\<lambda>m. Inr (x, m)) else Inr (y, m)) = Inr (k, m') \<Longrightarrow> mints m m'"
  by (cases b; auto dest: add_workspace_mints)+

lemma reorder_mints:
  assumes "set wss = set (mo_workspaces m)"
    and "(if b then add_workspace_bottom (m\<lparr>mo_workspaces := wss\<rparr>) else Inr (m\<lparr>mo_workspaces := wss\<rparr>)) = Inr m1"
    and "(if c then bind_res (add_workspace_top m1) (\<lambda>m. Inr (x, m)) else Inr (y, m1)) = Inr (k, m2)"
    and "mints m2 m'"
  shows "mints m m'"
proof -
  have "mints m (m\<lparr>mo_workspaces := wss\<rparr>)" using mints_sub [of wss m] assms(1) by simp
  from mints_trans [OF this add_if_mints(1) [OF assms(2)]] mints_trans [OF add_if_mints(3) [OF assms(3)] assms(4)]
  show ?thesis by (rule mints_trans)
qed

lemma set_swap: "i < length xs \<Longrightarrow> j < length xs \<Longrightarrow> set (xs[i := xs ! j, j := xs ! i]) = set xs"
  by simp

lemma set_reinsert:
  assumes "i < length xs" "rest = take i xs @ drop (Suc i) xs"
  shows "set (take j rest @ xs ! i # drop j rest) = set xs"
proof -
  have "set rest \<union> {xs ! i} = set xs" using arg_cong [OF id_take_nth_drop [OF assms(1)], of set] by (auto simp: assms(2))
  moreover have "set (take j rest) \<union> set (drop j rest) = set rest" by (metis append_take_drop_id set_append)
  ultimately show ?thesis by auto
qed

lemma set_reinserted:
  assumes "vec_remove i xs = Inr p" "p = (x, rest)" "vec_insert j x rest = Inr ys"
  shows "set ys = set xs"
proof -
  have i: "i < length xs" and p: "(x, rest) = (xs ! i, take i xs @ drop (Suc i) xs)"
    using assms(1,2) by (simp_all only: vec_eq_Inr)
  have ys: "ys = take j rest @ x # drop j rest" using assms(3) by (simp only: vec_eq_Inr)
  have x: "x = xs ! i" and rest: "rest = take i xs @ drop (Suc i) xs" using p by (simp_all only: prod.inject)
  show ?thesis unfolding ys x by (rule set_reinsert [OF i rest])
qed

definition mints_res :: "'w monitor \<Rightarrow> 'w monitor res \<Rightarrow> bool" where
  "mints_res m r \<longleftrightarrow> (\<forall>m'. r = Inr m' \<longrightarrow> mints m m')"

lemma mints_res_intros:
  "mints_res m (Inr m)" "(\<And>x. r = Inr x \<Longrightarrow> mints_res m (g x)) \<Longrightarrow> mints_res m (bind_res r g)"
  "(b \<Longrightarrow> mints_res m t) \<Longrightarrow> (\<not> b \<Longrightarrow> mints_res m u) \<Longrightarrow> mints_res m (if b then t else u)"
  "(\<And>x y. p = (x, y) \<Longrightarrow> mints_res m (h x y)) \<Longrightarrow> mints_res m (case p of (x, y) \<Rightarrow> h x y)"
  by (auto simp: mints_res_def split: prod.splits)

lemma activate_then_clean_up_mints:
  "bind_res (keep_previous (activate_workspace env k) m) clean_up_workspaces = Inr m' \<Longrightarrow> mints m m'"
  by (auto simp: keep_previous_def dest!: activate_workspace_mints clean_up_mints(1) intro: mints_trans)

lemma reorder_res_mints:
  assumes "(if b then add_workspace_bottom (m\<lparr>mo_workspaces := wss\<rparr>) else Inr (m\<lparr>mo_workspaces := wss\<rparr>)) = Inr m1"
    and "(if c then bind_res (add_workspace_top m1) (\<lambda>m. Inr (x, m)) else Inr (y, m1)) = Inr p"
    and "p = (k, m2)" "set wss = set (mo_workspaces m)" "\<And>m'. r = Inr m' \<Longrightarrow> mints m2 m'"
  shows "mints_res m r"
  unfolding mints_res_def using reorder_mints [OF assms(4,1) assms(2) [unfolded assms(3)] assms(5)] by blast

lemma move_workspace_res_mints:
  "mints_res m (move_workspace_down env m)" "mints_res m (move_workspace_up env m)" "mints_res m (move_workspace_to_idx i j m)"
proof -
  show "mints_res m (move_workspace_down env m)" unfolding move_workspace_down_def Let_def
    by (intro mints_res_intros(1,3)  mints_res_intros(2) [of "last_idx _"] mints_res_intros(2) [of "vec_swap _ _ _"]
        mints_res_intros(2) [of "if _ then _ else _"] mints_res_intros(4);
        erule (2) reorder_res_mints [OF _ _ _ _ activate_then_clean_up_mints]) simp_all
  show "mints_res m (move_workspace_up env m)" unfolding move_workspace_up_def Let_def
    by (intro mints_res_intros(1,3) mints_res_intros(2) [of "vec_swap _ _ _"]
        mints_res_intros(2) [of "if _ then _ else _"] mints_res_intros(4);
        erule (2) reorder_res_mints [OF _ _ _ _ activate_then_clean_up_mints]) simp_all
  show "mints_res m (move_workspace_to_idx i j m)" unfolding move_workspace_to_idx_def Let_def
    by (intro mints_res_intros(1,3) mints_res_intros(2) [of "vec_remove _ _"] mints_res_intros(2) [of "vec_insert _ _ _"]
        mints_res_intros(2) [of "if _ then _ else _"] mints_res_intros(4);
        erule (2) reorder_res_mints) ((rule set_reinserted; assumption) | (drule clean_up_mints(1), simp))+
qed

lemmas move_workspace_mints = move_workspace_res_mints [unfolded mints_res_def, rule_format]

lemma remove_workspace_by_idx_mints:
  assumes "remove_workspace_by_idx i m = Inr (ws, m')"
  shows "mints m m'"
proof -
  obtain j m1 where e: "add_edges i m = Inr (j, m1)" and r: "bind_res (vec_remove j (mo_workspaces m1)) (\<lambda>(ws, workspaces).
     let m = m1\<lparr>mo_workspaces := workspaces,
               mo_active_workspace_idx :=
                 (if j \<le> mo_active_workspace_idx m1 \<and> mo_active_workspace_idx m1 > 0
                  then mo_active_workspace_idx m1 - 1 else mo_active_workspace_idx m1),
               mo_workspace_switch := None\<rparr>
     in bind_res (clean_up_workspaces m) (\<lambda>m. Inr (ws_set_output None ws, m))) = Inr (ws, m')"
    using assms unfolding remove_workspace_by_idx_def by auto
  have "mints (m1\<lparr>mo_workspaces := take j (mo_workspaces m1) @ drop (Suc j) (mo_workspaces m1)\<rparr>) m'"
    using r by (auto simp: Let_def dest!: clean_up_mints(1))
  then have "mints m1 m'" by (rule mints_trans [OF mints_sub [OF set_take_drop]])
  with add_edges_mints [OF e] show ?thesis by (rule mints_trans)
qed

text \<open>A workspace that is inserted, or several, count among those the monitor had.\<close>

definition joined :: "'w lworkspace list \<Rightarrow> 'w monitor \<Rightarrow> 'w monitor" where
  "joined wss m = m\<lparr>mo_workspaces := wss @ mo_workspaces m\<rparr>"

lemma mints_joined:
  assumes "mints m m1" "ws_id ` set wss' \<subseteq> ws_id ` set wss \<union> ws_id ` set (mo_workspaces m1)"
  shows "mints (joined wss m) (m1\<lparr>mo_workspaces := wss'\<rparr>)"
proof -
  have "ws_id ` set (mo_workspaces m1) \<subseteq> ws_id ` set (mo_workspaces m) \<union> {mo_next_id m..}"
    using assms(1) by (simp add: mints_def)
  with assms(2) have "ws_id ` set wss' \<subseteq> ws_id ` set wss \<union> ws_id ` set (mo_workspaces m) \<union> {mo_next_id m..}" by blast
  with assms(1) show ?thesis by (simp add: mints_def joined_def image_Un)
qed

lemma insert_workspace_mints:
  assumes "insert_workspace env ws i act m = Inr m'"
  shows "mints (joined [ws] m) m'"
proof -
  obtain j k m1 where e: "(if j = 0 \<and> lo_empty_workspace_above_first (mo_options m)
        then bind_res (add_workspace_top m) (\<lambda>m. Inr (j + 1, m)) else Inr (j, m)) = Inr (k, m1)"
    and r: "bind_res (vec_insert k (adopt m ws) (mo_workspaces m1)) (\<lambda>workspaces.
         let m = m1\<lparr>mo_workspaces := workspaces,
                   mo_active_workspace_idx :=
                     (if k \<le> mo_active_workspace_idx m1 then mo_active_workspace_idx m1 + 1
                      else mo_active_workspace_idx m1)\<rparr>
         in bind_res (if act then activate_workspace env k (m\<lparr>mo_workspace_switch := None\<rparr>) else Inr m) (\<lambda>m.
            clean_up_workspaces (m\<lparr>mo_workspace_switch := None\<rparr>))) = Inr m'"
    using assms unfolding insert_workspace_def Let_def by auto
  define wss where "wss = take k (mo_workspaces m1) @ adopt m ws # drop k (mo_workspaces m1)"
  have ids: "ws_id ` set wss \<subseteq> ws_id ` set [ws] \<union> ws_id ` set (mo_workspaces m1)"
    by (auto simp: wss_def adopt_def dest!: in_set_takeD in_set_dropD)
  define m2 where "m2 = m1\<lparr>mo_workspaces := wss, mo_active_workspace_idx :=
    (if k \<le> mo_active_workspace_idx m1 then mo_active_workspace_idx m1 + 1 else mo_active_workspace_idx m1)\<rparr>"
  have "mints m m1" using e by (rule add_if_mints(3))
  then have start: "mints (joined [ws] m) m2" using mints_joined [OF _ ids] by (simp add: m2_def)
  obtain m3 where m3: "(if act then activate_workspace env k (m2\<lparr>mo_workspace_switch := None\<rparr>) else Inr m2) = Inr m3"
    "clean_up_workspaces (m3\<lparr>mo_workspace_switch := None\<rparr>) = Inr m'"
    using r unfolding m2_def wss_def Let_def vec_eq_Inr bind_res_eq_Inr [of "vec_insert _ _ _"] bind_res_eq_Inr [of "if act then _ else _"]
    by (elim exE conjE) (simp only: monitor.simps)
  have "mints m2 m3" using m3(1) by (cases act) (auto dest: activate_workspace_mints)
  with start clean_up_mints(1) [OF m3(2)] show ?thesis by (auto intro: mints_trans)
qed

lemma append_workspaces_mints:
  assumes "append_workspaces wss m = Inr m'"
  shows "mints (joined wss m) m'"
proof (cases "wss = []")
  case True
  then show ?thesis using assms by (simp add: append_workspaces_def joined_def)
next
  case False
  define l where "l = length (mo_workspaces m) - 1"
  define m1 where "m1 = m\<lparr>mo_workspaces := (take l (mo_workspaces m) @ drop (Suc l) (mo_workspaces m)) @ map (adopt m) wss @ [mo_workspaces m ! l]\<rparr>"
  obtain m2 where m2: "(if above_first m1 \<and> used (hd (mo_workspaces m1)) then add_workspace_top m1 else Inr m1) = Inr m2"
    and l: "l < length (mo_workspaces m)"
    and r: "clean_up_workspaces ((if mo_active_workspace_idx m = l
        then m2\<lparr>mo_active_workspace_idx := length (mo_workspaces m2) - 1\<rparr> else m2)\<lparr>mo_workspace_switch := None\<rparr>) = Inr m'"
    using assms unfolding append_workspaces_def Let_def m1_def l_def if_not_P [OF False] vec_eq_Inr
      bind_res_eq_Inr [of "last_idx _"] bind_res_eq_Inr [of "vec_remove _ _"] bind_res_eq_Inr [of "if _ then _ else _"]
    by (elim exE conjE) (auto simp only: prod.case monitor.simps bind_res_eq_Inr [of "if _ then _ else _"])
  have "ws_id ` set (mo_workspaces m1) \<subseteq> ws_id ` set wss \<union> ws_id ` set (mo_workspaces m)"
    using l by (auto simp: m1_def adopt_def dest!: in_set_takeD in_set_dropD)
  then have "mints (joined wss m) m1" using mints_joined [of m m] by (simp add: m1_def)
  moreover have "mints m1 m2" using m2 by (rule add_if_mints(2))
  moreover have "mints m2 m'" using clean_up_mints(1) [OF r] by (simp split: if_splits)
  ultimately show ?thesis by (blast intro: mints_trans)
qed

end
