(* ===== verification/Layout_Inv.thy ===== *)
theory Layout_Inv
  imports Layout_Actions Monitor_Mints
begin

text \<open>
  The invariant of the layout, \<^verbatim>\<open>verify_invariants\<close> of \<^verbatim>\<open>mod.rs\<close>, and the rules by which an operation on a
  part of the layout, a workspace or a monitor, becomes one on the whole.
\<close>

subsection \<open>Pools of workspaces\<close>

text \<open>
  What holds of the workspaces of the layout together, wherever they are: each keeps its invariant,
  the identifiers are distinct and have been given out, and so are the windows, those outside of
  the workspaces included.
\<close>

definition pool_ok :: "'w parent_of \<Rightarrow> nat \<Rightarrow> 'w multiset \<Rightarrow> 'w lworkspace list \<Rightarrow> bool" where
  "pool_ok parent n W wss \<longleftrightarrow> list_all (workspace_inv parent) wss \<and> distinct (map ws_id wss) \<and>
     list_all (\<lambda>ws. ws_id ws < n) wss \<and> mset_distinct (W + wss_windows wss)"

lemma distinct_map_mset: "mset xs = mset ys \<Longrightarrow> distinct (map f xs) = distinct (map f ys)"
  using mset_eq_imp_distinct_iff [of "map f xs" "map f ys"] by (metis mset_map)

lemma pool_ok_mset: "mset xs = mset ys \<Longrightarrow> pool_ok parent n W xs = pool_ok parent n W ys"
  using mset_eq_setD [of xs ys] distinct_map_mset [of xs ys ws_id] wss_windows_mset [of xs ys]
  by (simp add: pool_ok_def list_all_iff)

lemma pool_ok_workspaces_inv:
  "workspaces_inv parent m \<longleftrightarrow> pool_ok parent (mo_next_id m) {#} (mo_workspaces m) \<and> parents_acyclic parent"
  by (auto simp: workspaces_inv_def pool_ok_def)

lemma pool_ok_own: "own_workspaces parent n wss \<longleftrightarrow> pool_ok parent n {#} wss \<and> list_all used wss \<and> parents_acyclic parent"
  by (auto simp: own_workspaces_def pool_ok_def)

lemma pool_ok_append:
  "pool_ok parent n W (xs @ ys) \<longleftrightarrow> pool_ok parent n (W + wss_windows ys) xs \<and> pool_ok parent n {#} ys \<and>
     ws_id ` set xs \<inter> ws_id ` set ys = {}"
proof -
  have "mset_distinct (wss_windows ys)" if "mset_distinct (W + (wss_windows xs + wss_windows ys))"
    using mset_distinct_mono [OF that] by simp
  then show ?thesis by (auto simp: pool_ok_def ac_simps)
qed

lemma pool_ok_replace:
  assumes pool: "pool_ok parent n W (rest @ wss)" and new: "pool_ok parent n' {#} wss'" and n: "n \<le> n'"
    and ids: "ws_id ` set wss' \<subseteq> ws_id ` set wss \<union> {n..}"
    and win: "mset_distinct (W' + (wss_windows rest + wss_windows wss'))"
  shows "pool_ok parent n' W' (rest @ wss')"
proof -
  have rest: "ws_id ` set rest \<inter> ws_id ` set wss = {}" "\<forall>ws \<in> set rest. ws_id ws < n" "list_all (workspace_inv parent) rest"
    "distinct (map ws_id rest)" using pool by (auto simp: pool_ok_def list_all_iff)
  have "ws_id ` set rest \<inter> ws_id ` set wss' = {}"
  proof (rule ccontr)
    assume "ws_id ` set rest \<inter> ws_id ` set wss' \<noteq> {}"
    then obtain ws where ws: "ws \<in> set rest" "ws_id ws \<in> ws_id ` set wss'" by blast
    with ids have "ws_id ws \<in> ws_id ` set wss \<or> n \<le> ws_id ws" by blast
    with rest(1,2) ws(1) show False by fastforce
  qed
  moreover have "list_all (\<lambda>ws. ws_id ws < n') rest" using rest(2) n by (fastforce simp: list_all_iff)
  ultimately show ?thesis using new win rest by (auto simp: pool_ok_def)
qed

subsection \<open>The invariant\<close>

definition moving_windows :: "'w layout \<Rightarrow> 'w multiset" where
  "moving_windows l = (case moving_window l of Some w \<Rightarrow> {#w#} | None \<Rightarrow> {#})"

definition placed_windows :: "'w layout \<Rightarrow> 'w multiset" where
  "placed_windows l = wss_windows (la_workspaces l)"

definition la_windows :: "'w layout \<Rightarrow> 'w multiset" where
  "la_windows l = moving_windows l + placed_windows l"

definition start_ok :: "'w layout \<Rightarrow> bool" where
  "start_ok l \<longleftrightarrow> (case la_interactive_move l of Some (Starting w _ _) \<Rightarrow> w \<in># placed_windows l | _ \<Rightarrow> True)"

definition monitor_of :: "'w parent_of \<Rightarrow> nat \<Rightarrow> 'w monitor \<Rightarrow> bool" where
  "monitor_of parent n m \<longleftrightarrow> monitor_inv parent m \<and> mo_next_id m \<le> n"

definition monitor_set_ok :: "'w parent_of \<Rightarrow> nat \<Rightarrow> 'w monitor_set \<Rightarrow> bool" where
  "monitor_set_ok parent n s \<longleftrightarrow> (case s of
     Normal mons p a \<Rightarrow> p < length mons \<and> a < length mons \<and> list_all (monitor_of parent n) mons \<and>
       distinct (map (\<lambda>m. out_handle (mo_output m)) mons)
   | NoOutputs wss \<Rightarrow> list_all used wss)"

definition layout_inv :: "'w parent_of \<Rightarrow> 'w layout \<Rightarrow> bool" where
  "layout_inv parent l \<longleftrightarrow> parents_acyclic parent \<and> pool_ok parent (la_next_id l) (moving_windows l) (la_workspaces l) \<and>
     monitor_set_ok parent (la_next_id l) (la_monitor_set l) \<and> start_ok l"

lemma la_workspaces_simps [simp]:
  "la_monitor_set l = Normal mons p a \<Longrightarrow> la_workspaces l = concat (map mo_workspaces mons)"
  "la_monitor_set l = NoOutputs wss \<Longrightarrow> la_workspaces l = wss"
  by (simp_all add: la_workspaces_def)

lemma la_update_simps [simp]:
  "moving_window (l\<lparr>la_monitor_set := s\<rparr>) = moving_window l" "moving_window (l\<lparr>la_next_id := n\<rparr>) = moving_window l"
  "moving_window (l\<lparr>la_last_active_workspace_id := x\<rparr>) = moving_window l" "moving_window (l\<lparr>la_options := opts\<rparr>) = moving_window l"
  "moving_window (l\<lparr>la_overview_open := b\<rparr>) = moving_window l"
  "moving_windows (l\<lparr>la_monitor_set := s\<rparr>) = moving_windows l" "moving_windows (l\<lparr>la_next_id := n\<rparr>) = moving_windows l"
  "moving_windows (l\<lparr>la_last_active_workspace_id := x\<rparr>) = moving_windows l" "moving_windows (l\<lparr>la_options := opts\<rparr>) = moving_windows l"
  "moving_windows (l\<lparr>la_overview_open := b\<rparr>) = moving_windows l"
  "la_workspaces (l\<lparr>la_next_id := n\<rparr>) = la_workspaces l" "la_workspaces (l\<lparr>la_options := opts\<rparr>) = la_workspaces l"
  "la_workspaces (l\<lparr>la_last_active_workspace_id := x\<rparr>) = la_workspaces l" "la_workspaces (l\<lparr>la_overview_open := b\<rparr>) = la_workspaces l"
  "la_workspaces (l\<lparr>la_interactive_move := i\<rparr>) = la_workspaces l"
  by (simp_all add: moving_windows_def moving_window_def la_workspaces_def)

lemma placed_windows_simps [simp]:
  "placed_windows (l\<lparr>la_next_id := n\<rparr>) = placed_windows l" "placed_windows (l\<lparr>la_options := opts\<rparr>) = placed_windows l"
  "placed_windows (l\<lparr>la_last_active_workspace_id := x\<rparr>) = placed_windows l" "placed_windows (l\<lparr>la_overview_open := b\<rparr>) = placed_windows l"
  "placed_windows (l\<lparr>la_interactive_move := i\<rparr>) = placed_windows l"
  by (simp_all add: placed_windows_def)

lemma layout_invD:
  assumes "layout_inv parent l"
  shows "parents_acyclic parent" "pool_ok parent (la_next_id l) (moving_windows l) (la_workspaces l)"
    "monitor_set_ok parent (la_next_id l) (la_monitor_set l)" "start_ok l" "mset_distinct (la_windows l)"
  using assms by (simp_all add: layout_inv_def pool_ok_def la_windows_def placed_windows_def)

lemma layout_inv_normalD:
  assumes "layout_inv parent l" "la_monitor_set l = Normal mons p a"
  shows "p < length mons" "a < length mons" "distinct (map (\<lambda>m. out_handle (mo_output m)) mons)"
    "\<And>m. m \<in> set mons \<Longrightarrow> monitor_inv parent m" "\<And>m. m \<in> set mons \<Longrightarrow> mo_next_id m \<le> la_next_id l"
  using assms by (auto simp: layout_inv_def monitor_set_ok_def monitor_of_def list_all_iff)

subsection \<open>Keeping the windows\<close>

definition la_keeps :: "'w parent_of \<Rightarrow> 'w layout \<Rightarrow> 'w layout \<Rightarrow> bool" where
  "la_keeps parent l l' \<longleftrightarrow> layout_inv parent l' \<and> la_windows l' = la_windows l"

lemma la_keeps_refl: "layout_inv parent l \<Longrightarrow> la_keeps parent l l"
  by (simp add: la_keeps_def)

lemma la_keeps_trans: "la_keeps parent a b \<Longrightarrow> la_keeps parent b c \<Longrightarrow> la_keeps parent a c"
  by (simp add: la_keeps_def)

text \<open>Most operations also leave the window that is dragged alone.\<close>

definition la_rearranges :: "'w parent_of \<Rightarrow> 'w layout \<Rightarrow> 'w layout \<Rightarrow> bool" where
  "la_rearranges parent l l' \<longleftrightarrow> layout_inv parent l' \<and> placed_windows l' = placed_windows l \<and>
     la_interactive_move l' = la_interactive_move l"

lemma moving_cong: "la_interactive_move l' = la_interactive_move l \<Longrightarrow> moving_windows l' = moving_windows l"
  by (simp add: moving_windows_def moving_window_def)

lemma rearranges_keeps: "la_rearranges parent l l' \<Longrightarrow> la_keeps parent l l'"
  using moving_cong by (auto simp: la_rearranges_def la_keeps_def la_windows_def)

lemma la_rearranges_refl: "layout_inv parent l \<Longrightarrow> la_rearranges parent l l"
  by (simp add: la_rearranges_def)

lemma la_rearranges_trans: "la_rearranges parent a b \<Longrightarrow> la_rearranges parent b c \<Longrightarrow> la_rearranges parent a c"
  by (simp add: la_rearranges_def)

lemma start_ok_mono:
  assumes "start_ok l" "la_interactive_move l' = la_interactive_move l" "placed_windows l \<subseteq># placed_windows l'"
  shows "start_ok l'"
  using assms mset_subset_eqD by (fastforce simp: start_ok_def split: option.splits interactive_move.splits)


subsection \<open>One monitor\<close>

definition others :: "nat \<Rightarrow> 'w monitor list \<Rightarrow> 'w lworkspace list" where
  "others i mons = concat (map mo_workspaces (take i mons @ drop (Suc i) mons))"

lemma others_split:
  assumes "i < length mons"
  shows "mset (concat (map mo_workspaces mons)) = mset (others i mons @ mo_workspaces (mons ! i))"
  by (subst id_take_nth_drop [OF assms]) (simp add: others_def)

lemma others_update:
  assumes "i < length mons"
  shows "mset (concat (map mo_workspaces (mons[i := m]))) = mset (others i mons @ mo_workspaces m)"
  using others_split [of i "mons[i := m]"] assms by (simp add: others_def)

lemma with_counter_simps [simp]:
  "mo_workspaces (with_counter n m) = mo_workspaces m" "mo_next_id (with_counter n m) = n"
  "mo_active_workspace_idx (with_counter n m) = mo_active_workspace_idx m" "mo_output (with_counter n m) = mo_output m"
  "mo_options (with_counter n m) = mo_options m" "mo_workspace_switch (with_counter n m) = mo_workspace_switch m"
  "mo_base_options (with_counter n m) = mo_base_options m" "mo_overview_open (with_counter n m) = mo_overview_open m" "mo_layout_config (with_counter n m) = mo_layout_config m"
  by (simp_all add: with_counter_def)

lemma with_counter_inv: "monitor_inv parent m \<Longrightarrow> mo_next_id m \<le> n \<Longrightarrow> monitor_inv parent (with_counter n m)"
proof -
  have "switch_inv (with_counter n m) = switch_inv m"
    by (simp add: switch_inv_def cong: option.case_cong workspace_switch.case_cong)
  then show "monitor_inv parent m \<Longrightarrow> mo_next_id m \<le> n \<Longrightarrow> monitor_inv parent (with_counter n m)"
    by (auto simp: monitor_inv_def untidy_inv_def workspaces_inv_def options_ok_def list_all_iff)
qed

lemma list_all_update: "list_all P xs \<Longrightarrow> P x \<Longrightarrow> list_all P (xs[i := x])"
  by (auto simp: list_all_iff dest: set_update_subset_insert [THEN subsetD])

lemma handles_update:
  "h m = h (mons ! i) \<Longrightarrow> map h (mons[i := m]) = map h mons"
  by (cases "i < length mons") (simp_all add: map_update list_update_same_conv list_update_beyond)

text \<open>Putting a changed monitor back, with windows \<open>A\<close> that came from outside and without \<open>R\<close> that left.\<close>

lemma store_monitor_ok:
  assumes inv: "layout_inv parent l" and set: "la_monitor_set l = Normal mons p a" and i: "i < length mons" and a': "a' < length mons"
    and m': "monitor_inv parent m'" "mo_next_id m' \<le> n'" "la_next_id l \<le> n'"
    and ids: "ws_id ` set (mo_workspaces m') \<subseteq> ws_id ` set (mo_workspaces (mons ! i)) \<union> {la_next_id l..}"
    and out: "out_handle (mo_output m') = out_handle (mo_output (mons ! i))"
    and win: "mo_windows m' + R = mo_windows (mons ! i) + A" "mset_distinct (la_windows l + A)"
    and start: "\<And>w d r. la_interactive_move l = Some (Starting w d r) \<Longrightarrow> w \<notin># R"
    and l': "la_monitor_set l' = Normal (mons[i := m']) p a'" "la_next_id l' = n'" "la_interactive_move l' = la_interactive_move l"
  shows "layout_inv parent l'" "placed_windows l' + R = placed_windows l + A"
proof -
  let ?rest = "others i mons"
  have placed: "placed_windows l = wss_windows ?rest + mo_windows (mons ! i)" "placed_windows l' = wss_windows ?rest + mo_windows m'"
    using wss_windows_mset [OF others_split [OF i]] wss_windows_mset [OF others_update [OF i]]
    by (simp_all add: placed_windows_def set l'(1))
  have total: "placed_windows l' + R = placed_windows l + A" unfolding placed using win(1) by (simp add: ac_simps)
  have pool: "pool_ok parent (la_next_id l) (moving_windows l) (?rest @ mo_workspaces (mons ! i))"
    using layout_invD(2) [OF inv] pool_ok_mset [OF others_split [OF i]] by (simp add: set)
  have new: "pool_ok parent n' {#} (mo_workspaces m')"
    using monitor_invD(4) [OF m'(1)] m'(2) by (fastforce simp: pool_ok_workspaces_inv pool_ok_def list_all_iff)
  have moving: "moving_windows l' = moving_windows l" by (rule moving_cong [OF l'(3)])
  have "moving_windows l' + (wss_windows ?rest + wss_windows (mo_workspaces m')) + R = la_windows l + A"
    using total by (simp add: la_windows_def placed moving ac_simps)
  then have "mset_distinct (moving_windows l' + (wss_windows ?rest + wss_windows (mo_workspaces m')))"
    using mset_distinct_mono [OF win(2)] by (metis mset_subset_eq_add_left)
  from pool_ok_replace [OF pool new m'(3) ids this]
  have "pool_ok parent n' (moving_windows l') (la_workspaces l')"
    using pool_ok_mset [OF others_update [OF i, of m']] by (simp add: l'(1))
  moreover have "monitor_set_ok parent n' (la_monitor_set l')"
  proof -
    have "list_all (monitor_of parent n') mons"
      using layout_inv_normalD(4,5) [OF inv set] m'(3) by (fastforce simp: list_all_iff monitor_of_def)
    moreover have "monitor_of parent n' m'" using m' by (simp add: monitor_of_def)
    ultimately show ?thesis using layout_inv_normalD(1,3) [OF inv set] a' out
      by (simp add: monitor_set_ok_def l'(1) list_all_update handles_update)
  qed
  moreover have "start_ok l'"
  proof (cases "\<exists>w d r. la_interactive_move l = Some (Starting w d r)")
    case True
    then obtain w d r where w: "la_interactive_move l = Some (Starting w d r)" by blast
    then have "w \<in># placed_windows l" using layout_invD(4) [OF inv] by (simp add: start_ok_def)
    then have "w \<in># placed_windows l' + R" unfolding total by simp
    with start [OF w] w show ?thesis by (simp add: start_ok_def l'(3))
  qed (auto simp: start_ok_def l'(3) split: option.splits interactive_move.splits)
  ultimately show "layout_inv parent l'" using layout_invD(1) [OF inv] by (simp add: layout_inv_def l'(2))
  show "placed_windows l' + R = placed_windows l + A" by (rule total)
qed

text \<open>Running an operation of a monitor that may get new windows.\<close>

definition la_adds :: "'w parent_of \<Rightarrow> 'w multiset \<Rightarrow> 'w layout \<Rightarrow> 'w layout \<Rightarrow> bool" where
  "la_adds parent A l l' \<longleftrightarrow> layout_inv parent l' \<and> placed_windows l' = placed_windows l + A \<and>
     la_interactive_move l' = la_interactive_move l"

lemma la_adds_none: "la_adds parent {#} l l' = la_rearranges parent l l'"
  by (simp add: la_adds_def la_rearranges_def)

definition stored :: "nat \<Rightarrow> 'w monitor \<Rightarrow> 'w layout \<Rightarrow> 'w layout" where
  "stored i m l = (case la_monitor_set l of
     Normal mons p a \<Rightarrow> l\<lparr>la_monitor_set := Normal (mons[i := m]) p a, la_next_id := mo_next_id m\<rparr> | NoOutputs wss \<Rightarrow> l)"

lemma monitor_at:
  assumes "layout_inv parent l" "la_monitor_set l = Normal mons p a" "i < length mons"
  shows "monitor_inv parent (with_counter (la_next_id l) (mons ! i))"
  using assms layout_inv_normalD(4,5) [OF assms(1,2)] by (auto intro: with_counter_inv)

lemma on_monitor_adds:
  assumes inv: "layout_inv parent l" and set: "la_monitor_set l = Normal mons p a" and i: "i < length mons"
    and m: "m = with_counter (la_next_id l) (mons ! i)"
    and f: "returns (f m) (\<lambda>m'. monitor_inv parent m' \<and> mo_windows m' = mo_windows m + A)"
    and mints: "\<And>m'. f m = Inr m' \<Longrightarrow> mints m m'"
    and win: "mset_distinct (la_windows l + A)"
  shows "returns (on_monitor i f l) (\<lambda>l'. la_adds parent A l l' \<and> (\<exists>m'. f m = Inr m' \<and> l' = stored i m' l))"
proof -
  obtain m' where run: "f m = Inr m'" and m': "monitor_inv parent m'" "mo_windows m' = mo_windows m + A"
    using f by (auto simp: returns_def)
  note M = mints [OF run, unfolded mints_def]
  let ?l = "l\<lparr>la_monitor_set := Normal (mons[i := m']) p a, la_next_id := mo_next_id m'\<rparr>"
  have "layout_inv parent ?l" "placed_windows ?l + {#} = placed_windows l + A"
    by (rule store_monitor_ok [OF inv set i layout_inv_normalD(2) [OF inv set] m'(1), where n' = "mo_next_id m'" and A = A and R = "{#}"];
        use M m' win in \<open>simp add: m\<close>)+
  then have "la_adds parent A l (stored i m' l)" by (simp add: la_adds_def stored_def set)
  moreover have "on_monitor i f l = Inr (stored i m' l)"
    using i run by (simp add: on_monitor_def set vec_simps m stored_def)
  ultimately show ?thesis using run by simp
qed

lemma on_monitor_rearranges:
  assumes inv: "layout_inv parent l" and set: "la_monitor_set l = Normal mons p a" and i: "i < length mons"
    and f: "\<And>m. monitor_inv parent m \<Longrightarrow> m = with_counter (la_next_id l) (mons ! i) \<Longrightarrow> returns (f m) (mo_keeps parent m)"
    and mints: "\<And>m'. f (with_counter (la_next_id l) (mons ! i)) = Inr m' \<Longrightarrow> mints (with_counter (la_next_id l) (mons ! i)) m'"
  shows "returns (on_monitor i f l) (la_rearranges parent l)"
proof -
  let ?m = "with_counter (la_next_id l) (mons ! i)"
  have "returns (f ?m) (\<lambda>m'. monitor_inv parent m' \<and> mo_windows m' = mo_windows ?m + {#})"
    by (rule returns_mono [OF f [OF monitor_at [OF inv set i] refl]]) (simp add: mo_keeps_def)
  from on_monitor_adds [where f = f, OF inv set i refl this mints] layout_invD(5) [OF inv] show ?thesis
    by (auto simp: la_adds_none elim!: returns_mono)
qed


subsection \<open>Workspaces one by one\<close>

lemma all2_keeps:
  assumes "list_all2 (ws_keeps parent) xs ys"
  shows "map ws_id ys = map ws_id xs" "wss_windows ys = wss_windows xs" "list_all (workspace_inv parent) ys"
    "map used ys = map used xs"
  using assms by (induction rule: list_all2_induct) (auto simp: ws_keeps_def ws_same_id_def used_iff)

lemma all2_update:
  assumes "list_all (workspace_inv parent) xs" "i < length xs" "ws_keeps parent (xs ! i) ws"
  shows "list_all2 (ws_keeps parent) xs (xs[i := ws])"
  using assms by (auto simp: list_all2_conv_all_nth nth_list_update list_all_length intro: ws_keeps_refl)

lemma all2_pool:
  assumes "list_all2 (ws_keeps parent) xs ys" "pool_ok parent n W xs"
  shows "pool_ok parent n W ys"
proof -
  have "list_all (\<lambda>ws. ws_id ws < n) wss \<longleftrightarrow> list_all (\<lambda>i. i < n) (map ws_id wss)" for wss :: "'a lworkspace list"
    by (simp add: list_all_iff)
  then show ?thesis using assms(2) all2_keeps [OF assms(1)] by (simp only: pool_ok_def)
qed

lemma list_all_map_used: "list_all used xs \<longleftrightarrow> list_all (\<lambda>b. b) (map used xs)"
  by (simp add: list_all_iff)

lemma all2_monitor:
  assumes inv: "monitor_inv parent m" and all: "list_all2 (ws_keeps parent) (mo_workspaces m) wss"
  shows "mo_keeps parent m (m\<lparr>mo_workspaces := wss\<rparr>)"
proof -
  note K = all2_keeps [OF all]
  let ?m = "m\<lparr>mo_workspaces := wss\<rparr>"
  have len: "length wss = length (mo_workspaces m)" using list_all2_lengthD [OF all] by simp
  have "workspaces_inv parent ?m" using monitor_invD(4) [OF inv] all2_pool [OF all] by (simp add: pool_ok_workspaces_inv)
  moreover have "switch_inv ?m" using monitor_invD(7) [OF inv]
    by (simp add: switch_inv_def len cong: option.case_cong workspace_switch.case_cong)
  ultimately show ?thesis using inv K(2) map_used_shape [OF K(4)]
    by (auto simp: mo_keeps_def monitor_inv_def untidy_inv_def options_ok_def len)
qed

lemma returns_map_res:
  assumes "list_all (\<lambda>x. returns (f x) (P x)) xs"
  shows "returns (map_res f xs) (list_all2 P xs)"
  using assms by (induction xs) (auto simp: returns_def)

text \<open>A place in the layout, and the workspace there.\<close>

definition valid_loc :: "nat \<times> nat \<Rightarrow> 'w layout \<Rightarrow> bool" where
  "valid_loc loc l \<longleftrightarrow> (case loc of (mi, wi) \<Rightarrow> case la_monitor_set l of
     Normal mons p a \<Rightarrow> mi < length mons \<and> wi < length (mo_workspaces (mons ! mi)) | NoOutputs wss \<Rightarrow> wi < length wss)"

definition ws_of :: "nat \<times> nat \<Rightarrow> 'w layout \<Rightarrow> 'w lworkspace" where
  "ws_of loc l = (case loc of (mi, wi) \<Rightarrow> case la_monitor_set l of
     Normal mons p a \<Rightarrow> mo_workspaces (mons ! mi) ! wi | NoOutputs wss \<Rightarrow> wss ! wi)"

lemma workspace_at_valid [simp]: "valid_loc loc l \<Longrightarrow> workspace_at loc l = Inr (ws_of loc l)"
  by (auto simp: workspace_at_def valid_loc_def ws_of_def vec_simps split: prod.splits monitor_set.splits)

lemma valid_loc_in: "valid_loc loc l \<Longrightarrow> ws_of loc l \<in> set (la_workspaces l)"
proof (cases "la_monitor_set l")
  case (Normal mons p a)
  then show "valid_loc loc l \<Longrightarrow> ws_of loc l \<in> set (la_workspaces l)"
    by (auto simp: valid_loc_def ws_of_def case_prod_unfold intro!: bexI [of _ "mons ! fst loc"])
next
  case (NoOutputs wss)
  then show "valid_loc loc l \<Longrightarrow> ws_of loc l \<in> set (la_workspaces l)"
    by (auto simp: valid_loc_def ws_of_def case_prod_unfold)
qed

lemma locate_Some:
  assumes "locate P l = Some loc"
  shows "valid_loc loc l \<and> P (ws_of loc l)"
proof (cases "la_monitor_set l")
  case (Normal mons p a)
  then obtain mi wi where "position (\<lambda>m. list_ex P (mo_workspaces m)) mons = Some mi"
    "position P (mo_workspaces (mons ! mi)) = Some wi" "loc = (mi, wi)"
    using assms by (auto simp: locate_def split: option.splits)
  then show ?thesis using position_Some [of "\<lambda>m. list_ex P (mo_workspaces m)" mons mi] position_Some [of P "mo_workspaces (mons ! mi)" wi]
    by (simp add: valid_loc_def ws_of_def Normal)
next
  case (NoOutputs wss)
  then show ?thesis using assms position_Some [of P wss] by (auto simp: locate_def valid_loc_def ws_of_def)
qed

lemma locate_None: "locate P l = None \<longleftrightarrow> (\<forall>ws \<in> set (la_workspaces l). \<not> P ws)"
proof (cases "la_monitor_set l")
  case (Normal mons p a)
  show ?thesis
  proof (cases "position (\<lambda>m. list_ex P (mo_workspaces m)) mons")
    case None
    then show ?thesis using position_None [of "\<lambda>m. list_ex P (mo_workspaces m)" mons] by (auto simp: locate_def Normal list_ex_iff)
  next
    case (Some mi)
    then have mi: "mi < length mons" "list_ex P (mo_workspaces (mons ! mi))" using position_Some [OF Some] by auto
    then have "position P (mo_workspaces (mons ! mi)) \<noteq> None" by (auto simp: position_None list_ex_iff)
    moreover have "\<exists>ws \<in> set (la_workspaces l). P ws" using mi by (force simp: Normal list_ex_iff)
    ultimately show ?thesis using Some by (auto simp: locate_def Normal)
  qed
next
  case (NoOutputs wss)
  then show ?thesis by (simp add: locate_def position_None)
qed

lemma placed_iff: "w \<in># placed_windows l \<longleftrightarrow> (\<exists>ws \<in> set (la_workspaces l). ws_has_window w ws)"
  by (simp add: placed_windows_def mem_wss_windows ws_has_window_iff)

lemma locate_window:
  assumes "w \<in># placed_windows l"
  obtains loc where "locate (ws_has_window w) l = Some loc" "valid_loc loc l" "w \<in># ws_windows (ws_of loc l)"
proof -
  have "locate (ws_has_window w) l \<noteq> None" using assms by (simp add: locate_None placed_iff)
  then obtain loc where "locate (ws_has_window w) l = Some loc" by blast
  with locate_Some [OF this] that show ?thesis by (simp add: ws_has_window_iff)
qed

lemma workspace_inv_of: "layout_inv parent l \<Longrightarrow> valid_loc loc l \<Longrightarrow> workspace_inv parent (ws_of loc l)"
  using valid_loc_in layout_invD(2) by (fastforce simp: pool_ok_def list_all_iff)

lemma no_outputs_keeps:
  assumes inv: "layout_inv parent l" and set: "la_monitor_set l = NoOutputs wss"
    and all: "list_all2 (ws_keeps parent) wss wss'"
  shows "la_rearranges parent l (l\<lparr>la_monitor_set := NoOutputs wss'\<rparr>)"
proof -
  let ?l = "l\<lparr>la_monitor_set := NoOutputs wss'\<rparr>"
  have used: "list_all used wss'" using layout_invD(3) [OF inv] all2_keeps(4) [OF all]
    by (simp add: monitor_set_ok_def set list_all_map_used)
  have placed: "placed_windows ?l = placed_windows l" using all2_keeps(2) [OF all] by (simp add: placed_windows_def set)
  have "start_ok ?l" by (rule start_ok_mono [OF layout_invD(4) [OF inv]]) (simp_all add: placed)
  with used placed show ?thesis using inv all2_pool [OF all] by (simp add: la_rearranges_def layout_inv_def monitor_set_ok_def set)
qed

lemma modify_at_rearranges:
  assumes inv: "layout_inv parent l" and loc: "valid_loc loc l"
    and f: "returns (f (ws_of loc l)) (ws_keeps parent (ws_of loc l))"
  shows "returns (modify_at loc f l) (la_rearranges parent l)"
proof -
  obtain mi wi where l': "loc = (mi, wi)" by (cases loc)
  obtain ws where ws: "f (ws_of loc l) = Inr ws" "ws_keeps parent (ws_of loc l) ws" using f by (auto simp: returns_def)
  show ?thesis
  proof (cases "la_monitor_set l")
    case (Normal mons p a)
    then have i: "mi < length mons" "wi < length (mo_workspaces (mons ! mi))" and of: "ws_of loc l = mo_workspaces (mons ! mi) ! wi"
      using loc by (simp_all add: l' valid_loc_def ws_of_def)
    let ?m = "with_counter (la_next_id l) (mons ! mi)"
    have run: "on_workspace wi f ?m = Inr (store_workspace wi ws ?m)"
      using i ws(1) by (simp add: on_workspace_def vec_simps of store_workspace_def)
    have keeps: "mo_keeps parent ?m (store_workspace wi ws ?m)"
      by (rule store_keeps [OF monitor_at [OF inv Normal i(1)]]) (use i ws(2) in \<open>simp_all add: of\<close>)
    have "mints ?m (store_workspace wi ws ?m)"
      by (rule mints_store) (use i ws(2) in \<open>simp_all add: of ws_keeps_def ws_same_id_def\<close>)
    with run keeps have "returns (on_monitor mi (on_workspace wi f) l) (la_rearranges parent l)"
      by (intro on_monitor_rearranges [OF inv Normal i(1)]) auto
    then show ?thesis by (simp add: modify_at_def l' Normal)
  next
    case (NoOutputs wss)
    then have i: "wi < length wss" and of: "ws_of loc l = wss ! wi" using loc by (simp_all add: l' valid_loc_def ws_of_def)
    have "list_all (workspace_inv parent) wss" using layout_invD(2) [OF inv] by (simp add: pool_ok_def NoOutputs)
    moreover have "ws_keeps parent (wss ! wi) ws" using ws(2) by (simp add: of)
    ultimately have "la_rearranges parent l (l\<lparr>la_monitor_set := NoOutputs (wss[wi := ws])\<rparr>)"
      by (intro no_outputs_keeps [OF inv NoOutputs] all2_update [OF _ i])
    then show ?thesis using ws(1) [unfolded of] i by (simp add: modify_at_def l' NoOutputs vec_simps)
  qed
qed

end
