(* ===== verification/Layout_Ops.thy ===== *)
theory Layout_Ops
  imports Layout_Inv
begin

text \<open>
  The operations of the layout that go to one workspace or one monitor keep the invariant and the
  windows.
\<close>

subsection \<open>The active workspace and the workspace of a window\<close>

lemma on_active_monitor_rearranges:
  assumes inv: "layout_inv parent l" and f: "\<And>m. monitor_inv parent m \<Longrightarrow> returns (f m) (mo_keeps parent m)"
    and mints: "\<And>m m'. f m = Inr m' \<Longrightarrow> mints m m'"
  shows "returns (on_active_monitor f l) (la_rearranges parent l)"
proof (cases "la_monitor_set l")
  case (Normal mons p a)
  from on_monitor_rearranges [where f = f, OF inv Normal layout_inv_normalD(2) [OF inv Normal] f mints] show ?thesis
    by (simp add: on_active_monitor_def Normal)
qed (simp add: on_active_monitor_def la_rearranges_refl [OF inv])

lemma active_valid:
  assumes "layout_inv parent l" "la_monitor_set l = Normal mons p a"
  shows "valid_loc (a, mo_active_workspace_idx (mons ! a)) l" "mons ! a \<in> set mons"
proof -
  show in_set: "mons ! a \<in> set mons" using layout_inv_normalD(2) [OF assms] by simp
  show "valid_loc (a, mo_active_workspace_idx (mons ! a)) l"
    using layout_inv_normalD(2) [OF assms] monitor_invD(5) [OF layout_inv_normalD(4) [OF assms in_set]] by (simp add: valid_loc_def assms(2))
qed

lemma on_active_workspace_rearranges:
  assumes inv: "layout_inv parent l" and f: "\<And>ws. workspace_inv parent ws \<Longrightarrow> returns (f ws) (ws_keeps parent ws)"
  shows "returns (on_active_workspace f l) (la_rearranges parent l)"
proof (cases "la_monitor_set l")
  case (Normal mons p a)
  let ?loc = "(a, mo_active_workspace_idx (mons ! a))"
  have "on_active_workspace f l = modify_at ?loc f l"
    using layout_inv_normalD(2) [OF inv Normal]
    by (simp add: on_active_workspace_def on_active_monitor_def modify_at_def Normal on_monitor_def vec_simps)
  moreover have "returns (modify_at ?loc f l) (la_rearranges parent l)"
    by (rule modify_at_rearranges [where f = f, OF inv active_valid(1) [OF inv Normal] f [OF workspace_inv_of [OF inv active_valid(1) [OF inv Normal]]]])
  ultimately show ?thesis by simp
qed (simp add: on_active_workspace_def on_active_monitor_def la_rearranges_refl [OF inv])

lemma on_window_rearranges:
  assumes inv: "layout_inv parent l"
    and f: "\<And>ws. workspace_inv parent ws \<Longrightarrow> w \<in># ws_windows ws \<Longrightarrow> returns (f ws) (ws_keeps parent ws)"
  shows "returns (on_window_if_any w f l) (la_rearranges parent l)"
    and "w \<in># placed_windows l \<Longrightarrow> returns (on_window w f l) (la_rearranges parent l)"
proof -
  have at: "returns (modify_at loc f l) (la_rearranges parent l)" if "locate (ws_has_window w) l = Some loc" for loc
  proof -
    have v: "valid_loc loc l" "w \<in># ws_windows (ws_of loc l)" using locate_Some [OF that] by (simp_all add: ws_has_window_iff)
    from modify_at_rearranges [where f = f, OF inv v(1) f [OF workspace_inv_of [OF inv v(1)] v(2)]] show ?thesis .
  qed
  then show "returns (on_window_if_any w f l) (la_rearranges parent l)"
    by (simp add: on_window_if_any_def la_rearranges_refl [OF inv] split: option.split)
  show "returns (on_window w f l) (la_rearranges parent l)" if "w \<in># placed_windows l"
    using locate_window [OF that] at by (metis on_window_def unwrap.simps(2) bind_res.simps(2))
qed

lemma on_target_rearranges:
  assumes inv: "layout_inv parent l" and w: "\<And>w. window = Some w \<Longrightarrow> w \<in># placed_windows l"
    and f: "\<And>ws. workspace_inv parent ws \<Longrightarrow> named_ok window ws \<Longrightarrow> returns (f ws) (ws_keeps parent ws)"
  shows "returns (on_target window f l) (la_rearranges parent l)"
proof (cases window)
  case None
  then show ?thesis using on_active_workspace_rearranges [OF inv f] by (simp add: on_target_def named_ok_def)
next
  case (Some v)
  then have "returns (on_window v f l) (la_rearranges parent l)"
    by (intro on_window_rearranges(2) [OF inv] f w) (simp_all add: named_ok_def)
  then show ?thesis by (simp add: on_target_def Some)
qed

lemma target_placed:
  assumes "\<not> is_target_moving window l" "window = Some w" "w \<in># la_windows l"
  shows "w \<in># placed_windows l"
  using assms by (auto simp: is_target_moving_def la_windows_def moving_windows_def split: option.splits)

lemma not_moving_placed: "\<not> is_moving w l \<Longrightarrow> w \<in># la_windows l \<Longrightarrow> w \<in># placed_windows l"
  by (auto simp: is_moving_def la_windows_def moving_windows_def split: option.splits)

subsection \<open>The step of the active workspace\<close>

text \<open>The operations of a workspace that the layout passes to the active one, by their own functions.\<close>

fun active_workspace_step :: "'w layout_env \<Rightarrow> 'w workspace_op \<Rightarrow> 'w layout \<Rightarrow> 'w layout res" where
  "active_workspace_step env WsMoveLeft l = la_move_left l"
| "active_workspace_step env WsMoveRight l = la_move_right l"
| "active_workspace_step env WsMoveColumnToFirst l = la_move_column_to_first l"
| "active_workspace_step env WsMoveColumnToLast l = la_move_column_to_last l"
| "active_workspace_step env (WsMoveColumnToIndex index) l = la_move_column_to_index index l"
| "active_workspace_step env WsMoveDown l = la_move_down l"
| "active_workspace_step env WsMoveUp l = la_move_up l"
| "active_workspace_step env WsFocusLeft l = la_focus_left env l"
| "active_workspace_step env WsFocusRight l = la_focus_right env l"
| "active_workspace_step env WsFocusColumnFirst l = la_focus_column_first env l"
| "active_workspace_step env WsFocusColumnLast l = la_focus_column_last env l"
| "active_workspace_step env WsFocusColumnRightOrFirst l = la_focus_column_right_or_first env l"
| "active_workspace_step env WsFocusColumnLeftOrLast l = la_focus_column_left_or_last env l"
| "active_workspace_step env (WsFocusColumn index) l = la_focus_column index l"
| "active_workspace_step env (WsFocusWindowInColumn index) l = la_focus_window_in_column index l"
| "active_workspace_step env WsFocusDown l = la_focus_down env l"
| "active_workspace_step env WsFocusUp l = la_focus_up env l"
| "active_workspace_step env WsFocusDownOrLeft l = la_focus_down_or_left env l"
| "active_workspace_step env WsFocusDownOrRight l = la_focus_down_or_right env l"
| "active_workspace_step env WsFocusUpOrLeft l = la_focus_up_or_left env l"
| "active_workspace_step env WsFocusUpOrRight l = la_focus_up_or_right env l"
| "active_workspace_step env WsFocusWindowTop l = la_focus_window_top env l"
| "active_workspace_step env WsFocusWindowBottom l = la_focus_window_bottom env l"
| "active_workspace_step env WsFocusWindowDownOrTop l = la_focus_window_down_or_top env l"
| "active_workspace_step env WsFocusWindowUpOrBottom l = la_focus_window_up_or_bottom env l"
| "active_workspace_step env WsConsumeIntoColumn l = la_consume_into_column l"
| "active_workspace_step env WsExpelFromColumn l = la_expel_from_column l"
| "active_workspace_step env (WsSwap direction) l = la_swap_window_in_direction direction l"
| "active_workspace_step env WsToggleTabbed l = la_toggle_column_tabbed_display l"
| "active_workspace_step env (WsSetColumnDisplay display) l = la_set_column_display display l"
| "active_workspace_step env WsToggleFullWidth l = la_toggle_full_width l"
| "active_workspace_step env WsFocusFloating l = la_focus_floating l"
| "active_workspace_step env WsFocusTiling l = la_focus_tiling l"
| "active_workspace_step env WsSwitchFocus l = la_switch_focus_floating_tiling l"
| "active_workspace_step env _ l = Inr l"

lemmas active_workspace_defs =
  la_move_left_def la_move_right_def la_move_column_to_first_def la_move_column_to_last_def la_move_column_to_index_def la_move_down_def la_move_up_def la_focus_left_def la_focus_right_def la_focus_column_first_def la_focus_column_last_def la_focus_column_right_or_first_def la_focus_column_left_or_last_def la_focus_column_def la_focus_window_in_column_def la_focus_down_def la_focus_up_def la_focus_down_or_left_def la_focus_down_or_right_def la_focus_up_or_left_def la_focus_up_or_right_def la_focus_window_top_def la_focus_window_bottom_def la_focus_window_down_or_top_def la_focus_window_up_or_bottom_def la_consume_into_column_def la_expel_from_column_def la_swap_window_in_direction_def la_toggle_column_tabbed_display_def la_set_column_display_def la_toggle_full_width_def la_focus_floating_def la_focus_tiling_def la_switch_focus_floating_tiling_def

definition for_active :: "'w workspace_op \<Rightarrow> bool" where
  "for_active op \<longleftrightarrow> (case op of
     WsMoveLeft \<Rightarrow> True
   | WsMoveRight \<Rightarrow> True
   | WsMoveColumnToFirst \<Rightarrow> True
   | WsMoveColumnToLast \<Rightarrow> True
   | WsMoveColumnToIndex _ \<Rightarrow> True
   | WsMoveDown \<Rightarrow> True
   | WsMoveUp \<Rightarrow> True
   | WsFocusLeft \<Rightarrow> True
   | WsFocusRight \<Rightarrow> True
   | WsFocusColumnFirst \<Rightarrow> True
   | WsFocusColumnLast \<Rightarrow> True
   | WsFocusColumnRightOrFirst \<Rightarrow> True
   | WsFocusColumnLeftOrLast \<Rightarrow> True
   | WsFocusColumn _ \<Rightarrow> True
   | WsFocusWindowInColumn _ \<Rightarrow> True
   | WsFocusDown \<Rightarrow> True
   | WsFocusUp \<Rightarrow> True
   | WsFocusDownOrLeft \<Rightarrow> True
   | WsFocusDownOrRight \<Rightarrow> True
   | WsFocusUpOrLeft \<Rightarrow> True
   | WsFocusUpOrRight \<Rightarrow> True
   | WsFocusWindowTop \<Rightarrow> True
   | WsFocusWindowBottom \<Rightarrow> True
   | WsFocusWindowDownOrTop \<Rightarrow> True
   | WsFocusWindowUpOrBottom \<Rightarrow> True
   | WsConsumeIntoColumn \<Rightarrow> True
   | WsExpelFromColumn \<Rightarrow> True
   | WsSwap _ \<Rightarrow> True
   | WsToggleTabbed \<Rightarrow> True
   | WsSetColumnDisplay _ \<Rightarrow> True
   | WsToggleFullWidth \<Rightarrow> True
   | WsFocusFloating \<Rightarrow> True
   | WsFocusTiling \<Rightarrow> True
   | WsSwitchFocus \<Rightarrow> True
   | _ \<Rightarrow> False)"

lemma on_active_cong: "(\<And>ws. f ws = g ws) \<Longrightarrow> on_active_workspace f l = on_active_workspace g l"
  by (metis ext)

lemma active_workspace_step_eq:
  "for_active op \<Longrightarrow> active_workspace_step env op l = on_active_workspace (workspace_step env op) l"
  by (cases op) (auto simp: for_active_def active_workspace_defs intro!: on_active_cong)

lemma active_workspace_step_rearranges:
  assumes inv: "layout_inv (env_parent env) l"
  shows "returns (active_workspace_step env op l) (la_rearranges (env_parent env) l)"
proof (cases "for_active op")
  case True
  have "returns (on_active_workspace (workspace_step env op) l) (la_rearranges (env_parent env) l)"
    by (rule on_active_workspace_rearranges [OF inv workspace_step_keeps])
      (use True in \<open>simp_all add: for_active_def ws_rearranging_def split: workspace_op.splits\<close>)
  then show ?thesis by (simp add: active_workspace_step_eq [OF True])
next
  case False
  then show ?thesis using la_rearranges_refl [OF inv] by (cases op) (simp_all add: for_active_def)
qed

end
