(* ===== verification/Layout_Loops.thy ===== *)
theory Layout_Loops
  imports Layout_Ops
begin

text \<open>
  The loops of the layout over its monitors and workspaces: those that stop at the first one that
  responds, and those that visit all.
\<close>

subsection \<open>Loops without new workspaces\<close>

definition quiet :: "'w parent_of \<Rightarrow> 'w monitor \<Rightarrow> 'w monitor \<Rightarrow> bool" where
  "quiet parent m m' \<longleftrightarrow> mo_keeps parent m m' \<and> mo_next_id m' = mo_next_id m \<and>
     out_handle (mo_output m') = out_handle (mo_output m) \<and> ws_id ` set (mo_workspaces m') \<subseteq> ws_id ` set (mo_workspaces m)"

lemma quiet_refl: "monitor_inv parent m \<Longrightarrow> quiet parent m m"
  by (simp add: quiet_def mo_keeps_refl)

lemma mints_quiet:
  assumes "mo_keeps parent m m'" "mints m m'" "mo_next_id m' = mo_next_id m"
  shows "quiet parent m m'"
proof -
  have "list_all (\<lambda>ws. ws_id ws < mo_next_id m) (mo_workspaces m')"
    using assms monitor_invD(4) [of parent m'] by (simp add: mo_keeps_def workspaces_inv_def)
  then have "ws_id ` set (mo_workspaces m') \<inter> {mo_next_id m..} = {}" by (fastforce simp: list_all_iff)
  with assms show ?thesis by (auto simp: quiet_def mints_def)
qed

lemma quiet_monitors_pool:
  assumes "list_all2 (quiet parent) mons mons'" "pool_ok parent n W (rest @ concat (map mo_workspaces mons))"
    "list_all (monitor_of parent n) mons"
  shows "pool_ok parent n W (rest @ concat (map mo_workspaces mons')) \<and> list_all (monitor_of parent n) mons' \<and>
    wss_windows (concat (map mo_workspaces mons')) = wss_windows (concat (map mo_workspaces mons)) \<and>
    map (\<lambda>m. out_handle (mo_output m)) mons' = map (\<lambda>m. out_handle (mo_output m)) mons"
  using assms
proof (induction mons mons' arbitrary: rest rule: list_all2_induct)
  case (Cons m ms m' ms')
  let ?c = "\<lambda>ms. concat (map mo_workspaces ms)"
  have q: "monitor_inv parent m'" "mo_windows m' = mo_windows m" "mo_next_id m' = mo_next_id m"
    "ws_id ` set (mo_workspaces m') \<subseteq> ws_id ` set (mo_workspaces m) \<union> {n..}" "out_handle (mo_output m') = out_handle (mo_output m)"
    using Cons.hyps(1) by (auto simp: quiet_def mo_keeps_def)
  have n: "mo_next_id m \<le> n" using Cons.prems(2) by (simp add: monitor_of_def)
  have pool: "pool_ok parent n W ((rest @ ?c ms) @ mo_workspaces m)"
    using Cons.prems(1) pool_ok_mset [of "(rest @ ?c ms) @ mo_workspaces m" "rest @ ?c (m # ms)"] by simp
  have new: "pool_ok parent n {#} (mo_workspaces m')"
    using monitor_invD(4) [OF q(1)] q(3) n by (fastforce simp: pool_ok_workspaces_inv pool_ok_def list_all_iff)
  have "mset_distinct (W + (wss_windows (rest @ ?c ms) + mo_windows m'))" using pool q(2) by (simp add: pool_ok_def ac_simps)
  from pool_ok_replace [OF pool new order_refl q(4) this]
  have pool': "pool_ok parent n W ((rest @ mo_workspaces m') @ ?c ms)"
    using pool_ok_mset [of "(rest @ ?c ms) @ mo_workspaces m'" "(rest @ mo_workspaces m') @ ?c ms"] by simp
  have "list_all (monitor_of parent n) ms" using Cons.prems(2) by simp
  from Cons.IH [OF pool' this] show ?case using q n by (simp add: monitor_of_def)
qed simp

lemma quiet_monitors:
  assumes inv: "layout_inv parent l" and set: "la_monitor_set l = Normal mons p a"
    and all: "list_all2 (quiet parent) mons mons'" and a': "a' < length mons"
  shows "la_rearranges parent l (l\<lparr>la_monitor_set := Normal mons' p a'\<rparr>)"
proof -
  let ?l = "l\<lparr>la_monitor_set := Normal mons' p a'\<rparr>"
  have "list_all (monitor_of parent (la_next_id l)) mons"
    using layout_inv_normalD(4,5) [OF inv set] by (simp add: list_all_iff monitor_of_def)
  from quiet_monitors_pool [OF all, of "la_next_id l" "moving_windows l" "[]"] layout_invD(2) [OF inv] this
  have P: "pool_ok parent (la_next_id l) (moving_windows l) (la_workspaces ?l)" "list_all (monitor_of parent (la_next_id l)) mons'"
    "placed_windows ?l = placed_windows l" "map (\<lambda>m. out_handle (mo_output m)) mons' = map (\<lambda>m. out_handle (mo_output m)) mons"
    by (simp_all add: set placed_windows_def)
  have len: "length mons' = length mons" using list_all2_lengthD [OF all] by simp
  have "start_ok ?l" by (rule start_ok_mono [OF layout_invD(4) [OF inv]]) (simp_all add: P(3))
  then show ?thesis using P len a' layout_inv_normalD(1,3) [OF inv set] layout_invD(1) [OF inv]
    by (simp add: la_rearranges_def layout_inv_def monitor_set_ok_def)
qed

lemma set_active_monitor_rearranges:
  assumes inv: "layout_inv parent l" and idx: "\<And>mons p a. la_monitor_set l = Normal mons p a \<Longrightarrow> idx < length mons"
  shows "la_rearranges parent l (set_active_monitor idx l)"
proof (cases "la_monitor_set l")
  case (Normal mons p a)
  have "list_all2 (quiet parent) mons mons"
    using layout_inv_normalD(4) [OF inv Normal] quiet_refl by (auto simp: list_all2_same)
  from quiet_monitors [OF inv Normal this idx [OF Normal]] show ?thesis by (simp add: set_active_monitor_def Normal)
qed (simp add: set_active_monitor_def la_rearranges_refl [OF inv])

lemma focus_output_rearranges:
  assumes inv: "layout_inv parent l"
  shows "la_rearranges parent l (focus_output out l)"
proof (cases "la_monitor_set l")
  case (Normal mons p a)
  show ?thesis
  proof (cases "position (is_output out) mons")
    case (Some idx)
    then have "idx < length mons" using position_Some [OF Some] by simp
    then show ?thesis using set_active_monitor_rearranges [OF inv, of idx] by (simp add: focus_output_def Normal Some)
  qed (simp add: focus_output_def Normal la_rearranges_refl [OF inv])
qed (simp add: focus_output_def la_rearranges_refl [OF inv])

subsection \<open>Stopping at the first\<close>

lemma until_found_all2:
  assumes "\<And>x. x \<in> set xs \<Longrightarrow> returns (f x) (\<lambda>(x', _). Q x x')" "\<And>x. x \<in> set xs \<Longrightarrow> Q x x"
  shows "returns (until_found f k xs) (\<lambda>(ys, r). list_all2 Q xs ys \<and> (\<forall>i. r = Some i \<longrightarrow> k \<le> i \<and> i < k + length xs))"
  using assms
proof (induction xs arbitrary: k)
  case (Cons x xs)
  obtain x' b where x: "f x = Inr (x', b)" "Q x x'" using Cons.prems(1) [of x] by (auto simp: returns_def)
  have "list_all2 Q xs xs" using Cons.prems(2) by (simp add: list_all2_same)
  moreover from Cons.IH [of "k + 1"] Cons.prems obtain ys r where "until_found f (k + 1) xs = Inr (ys, r)" "list_all2 Q xs ys"
    "\<And>i. r = Some i \<Longrightarrow> k + 1 \<le> i \<and> i < k + 1 + length xs" by (auto simp: returns_def)
  ultimately show ?case using x by (cases b) fastforce+
qed simp

lemma until_found_quiet:
  assumes inv: "layout_inv parent l" and set: "la_monitor_set l = Normal mons p a"
    and f: "\<And>m. monitor_inv parent m \<Longrightarrow> returns (f m) (\<lambda>(m', _). quiet parent m m')"
  shows "returns (until_found f 0 mons) (\<lambda>(mons', r). la_rearranges parent l (l\<lparr>la_monitor_set := Normal mons' p a\<rparr>) \<and>
    (\<forall>i. r = Some i \<longrightarrow> la_rearranges parent l (l\<lparr>la_monitor_set := Normal mons' p i\<rparr>)))"
proof -
  note mon = layout_inv_normalD(4) [OF inv set]
  have "returns (until_found f 0 mons) (\<lambda>(ys, r). list_all2 (quiet parent) mons ys \<and> (\<forall>i. r = Some i \<longrightarrow> 0 \<le> i \<and> i < 0 + length mons))"
    by (rule until_found_all2) (use f mon quiet_refl in blast)+
  then show ?thesis using quiet_monitors [OF inv set] layout_inv_normalD(2) [OF inv set] by (auto elim!: returns_mono)
qed

lemma until_found_workspaces_quiet:
  assumes inv: "monitor_inv parent m"
    and f: "\<And>ws. workspace_inv parent ws \<Longrightarrow> returns (f ws) (\<lambda>(ws', _). ws_keeps parent ws ws')"
  shows "returns (until_found_workspaces f m) (\<lambda>(m', r). quiet parent m m' \<and> mo_workspace_switch m' = mo_workspace_switch m \<and>
    (\<forall>i. r = Some i \<longrightarrow> i < length (mo_workspaces m')))"
proof -
  have ws: "workspace_inv parent ws" if "ws \<in> set (mo_workspaces m)" for ws
    using monitor_invD(4) [OF inv] that by (simp add: workspaces_inv_def list_all_iff)
  have "returns (until_found f 0 (mo_workspaces m)) (\<lambda>(wss, r). list_all2 (ws_keeps parent) (mo_workspaces m) wss \<and>
      (\<forall>i. r = Some i \<longrightarrow> 0 \<le> i \<and> i < 0 + length (mo_workspaces m)))"
    by (rule until_found_all2) (use f ws ws_keeps_refl in blast)+
  moreover have "quiet parent m (m\<lparr>mo_workspaces := wss\<rparr>)" if "list_all2 (ws_keeps parent) (mo_workspaces m) wss" for wss
  proof -
    have "ws_id ` set wss = ws_id ` set (mo_workspaces m)" using all2_keeps(1) [OF that] by (metis list.set_map)
    then show ?thesis using all2_monitor [OF inv that] by (simp add: quiet_def)
  qed
  ultimately show ?thesis by (auto simp: until_found_workspaces_def dest: list_all2_lengthD elim!: returns_mono)
qed

lemma quiet_trans: "quiet parent a b \<Longrightarrow> quiet parent b c \<Longrightarrow> quiet parent a c"
  by (simp add: quiet_def mo_keeps_def) (meson order_trans)

lemma switch_workspace_quiet:
  assumes "monitor_inv parent m"
  shows "returns (switch_workspace env i m) (quiet parent m)"
  by (rule returns_mono [OF switch_workspace_ok [OF assms]])
    (auto intro!: mints_quiet dest: switch_mints(3) activatedD(4))

lemma activate_on_monitor_quiet:
  assumes inv: "monitor_inv parent m"
    and f: "\<And>ws. workspace_inv parent ws \<Longrightarrow> returns (f ws) (\<lambda>(ws', _). ws_keeps parent ws ws')"
  shows "returns (activate_on_monitor env f m) (\<lambda>(m', _). quiet parent m m')"
  unfolding activate_on_monitor_def returns_bind
proof (rule returns_mono [OF until_found_workspaces_quiet [OF inv f]])
  fix y assume "case y of (m', r) \<Rightarrow> quiet parent m m' \<and> mo_workspace_switch m' = mo_workspace_switch m \<and>
    (\<forall>i. r = Some i \<longrightarrow> i < length (mo_workspaces m'))"
  then obtain m' r where y: "y = (m', r)" and q: "quiet parent m m'" by (cases y) auto
  have "monitor_inv parent m'" using q by (simp add: quiet_def mo_keeps_def)
  then show "returns (case y of (m, None) \<Rightarrow> Inr (m, False)
      | (m, Some workspace_idx) \<Rightarrow> if is_shown_by_gesture workspace_idx (mo_workspace_switch m) then Inr (m, True)
        else bind_res (switch_workspace env workspace_idx m) (\<lambda>m. Inr (m, True))) (\<lambda>(m', _). quiet parent m m')"
    using q returns_mono [OF switch_workspace_quiet [of parent m' env] quiet_trans [OF q]] by (cases r) (auto simp: y)
qed

lemma clean_up_loop_next_id: "clean_up_loop idxs m = Inr m' \<Longrightarrow> mo_next_id m' = mo_next_id m"
proof (induction idxs arbitrary: m)
  case (Cons idx idxs)
  have step: "mo_next_id m' = mo_next_id m" if "remove_workspace_at idx m = Inr m1"
    "clean_up_loop idxs (if b then m1\<lparr>mo_active_workspace_idx := i\<rparr> else m1) = Inr m'" for b m1 i
    using Cons.IH [OF that(2)] that(1) by (cases b) (auto simp: remove_workspace_at_def)
  from Cons.prems Cons.IH step show ?case
    by (cases "mo_active_workspace_idx m = idx"; cases "used (mo_workspaces m ! idx)") auto
qed simp

lemma clean_up_next_id: "clean_up_if_idle m = Inr m' \<Longrightarrow> mo_next_id m' = mo_next_id m"
  by (auto simp: clean_up_if_idle_def clean_up_workspaces_def remove_workspace_at_def Let_def split: if_splits
      dest!: clean_up_loop_next_id)

lemma unname_quiet:
  assumes inv: "monitor_inv parent m"
  shows "returns (mo_unname_workspace wid m) (\<lambda>(m', _). quiet parent m m')"
proof (rule returns_mono [OF mo_unname_workspace_keeps [OF inv]])
  fix r assume run: "mo_unname_workspace wid m = Inr r" and k: "case r of (m', _) \<Rightarrow> mo_keeps parent m m'"
  obtain m' b where r: "r = (m', b)" by (cases r)
  have "mo_next_id m' = mo_next_id m" using run
    by (auto simp: r mo_unname_workspace_def split: option.splits dest!: clean_up_next_id)
  then show "case r of (m', _) \<Rightarrow> quiet parent m m'"
    using k unname_mints [OF run [unfolded r]] mints_quiet by (auto simp: r)
qed

lemma quietI:
  assumes "returns r (\<lambda>(m', _). mo_keeps parent m m')"
    "\<And>m' x. r = Inr (m', x) \<Longrightarrow> mints m m'" "\<And>m' x. r = Inr (m', x) \<Longrightarrow> mo_next_id m' = mo_next_id m"
  shows "returns r (\<lambda>(m', _). quiet parent m m')"
  using assms(1) by (rule returns_mono) (auto intro!: mints_quiet dest: assms(2,3))

lemma gesture_quiet:
  assumes inv: "monitor_inv parent m"
  shows "returns (workspace_switch_gesture_update z h d ts b m) (\<lambda>(m', _). quiet parent m m')"
    "returns (workspace_switch_gesture_end h now t m) (\<lambda>(m', _). quiet parent m m')"
proof -
  show "returns (workspace_switch_gesture_update z h d ts b m) (\<lambda>(m', _). quiet parent m m')"
    by (rule quietI [OF gesture_update_keeps [OF inv] gesture_mints(3)])
      (auto simp: workspace_switch_gesture_update_def Let_def split: option.splits workspace_switch.splits if_splits)
  show "returns (workspace_switch_gesture_end h now t m) (\<lambda>(m', _). quiet parent m m')"
    by (rule quietI [OF gesture_end_keeps(1) [OF inv] gesture_mints(4)])
      (auto simp: workspace_switch_gesture_end_def Let_def split: option.splits workspace_switch.splits if_splits)
qed


subsection \<open>Visiting all\<close>

lemma map_monitors_ok:
  assumes "pool_ok parent n W (rest @ concat (map mo_workspaces mons))" "list_all (monitor_of parent n) mons"
    and f: "\<And>m. monitor_inv parent m \<Longrightarrow> returns (f m) (mo_keeps parent m)" and mints: "\<And>m m'. f m = Inr m' \<Longrightarrow> mints m m'"
  shows "returns (map_monitors f n mons) (\<lambda>(mons', n'). n \<le> n' \<and> pool_ok parent n' W (rest @ concat (map mo_workspaces mons')) \<and>
    list_all (monitor_of parent n') mons' \<and>
    wss_windows (concat (map mo_workspaces mons')) = wss_windows (concat (map mo_workspaces mons)) \<and>
    map (\<lambda>m. out_handle (mo_output m)) mons' = map (\<lambda>m. out_handle (mo_output m)) mons)"
  using assms(1,2)
proof (induction mons arbitrary: n rest)
  case (Cons m ms)
  let ?c = "\<lambda>ms. concat (map mo_workspaces ms)" and ?m = "with_counter n m"
  have "monitor_inv parent ?m" using Cons.prems(2) by (simp add: monitor_of_def with_counter_inv)
  from f [OF this] obtain m' where run: "f ?m = Inr m'" and k: "monitor_inv parent m'" "mo_windows m' = mo_windows m"
    by (auto simp: returns_def mo_keeps_def)
  have M: "n \<le> mo_next_id m'" "out_handle (mo_output m') = out_handle (mo_output m)"
    "ws_id ` set (mo_workspaces m') \<subseteq> ws_id ` set (mo_workspaces m) \<union> {n..}"
    using mints [OF run] by (simp_all add: mints_def)
  have pool: "pool_ok parent n W ((rest @ ?c ms) @ mo_workspaces m)"
    using Cons.prems(1) pool_ok_mset [of "(rest @ ?c ms) @ mo_workspaces m" "rest @ ?c (m # ms)"] by simp
  have new: "pool_ok parent (mo_next_id m') {#} (mo_workspaces m')"
    using monitor_invD(4) [OF k(1)] by (simp add: pool_ok_workspaces_inv)
  have "mset_distinct (W + (wss_windows (rest @ ?c ms) + mo_windows m'))" using pool k(2) by (simp add: pool_ok_def ac_simps)
  from pool_ok_replace [OF pool new M(1,3) this]
  have pool': "pool_ok parent (mo_next_id m') W ((rest @ mo_workspaces m') @ ?c ms)"
    using pool_ok_mset [of "(rest @ ?c ms) @ mo_workspaces m'" "(rest @ mo_workspaces m') @ ?c ms"] by simp
  have "list_all (monitor_of parent (mo_next_id m')) ms" using Cons.prems(2) M(1) by (fastforce simp: list_all_iff monitor_of_def)
  from Cons.IH [OF pool' this] show ?case using run k M
    by (fastforce simp: monitor_of_def returns_def)
qed simp

lemma monitors_mut_rearranges:
  assumes inv: "layout_inv parent l"
    and f: "\<And>m. monitor_inv parent m \<Longrightarrow> returns (f m) (mo_keeps parent m)" and mints: "\<And>m m'. f m = Inr m' \<Longrightarrow> mints m m'"
  shows "returns (monitors_mut f l) (la_rearranges parent l)"
proof (cases "la_monitor_set l")
  case (Normal mons p a)
  have "list_all (monitor_of parent (la_next_id l)) mons"
    using layout_inv_normalD(4,5) [OF inv Normal] by (simp add: list_all_iff monitor_of_def)
  then have "returns (map_monitors f (la_next_id l) mons) (\<lambda>(mons', n'). la_next_id l \<le> n' \<and>
    pool_ok parent n' (moving_windows l) ([] @ concat (map mo_workspaces mons')) \<and> list_all (monitor_of parent n') mons' \<and>
    wss_windows (concat (map mo_workspaces mons')) = wss_windows (concat (map mo_workspaces mons)) \<and>
    map (\<lambda>m. out_handle (mo_output m)) mons' = map (\<lambda>m. out_handle (mo_output m)) mons)"
    using layout_invD(2) [OF inv] by (intro map_monitors_ok [OF _ _ f mints]) (simp_all add: Normal)
  then obtain mons' n' where run: "map_monitors f (la_next_id l) mons = Inr (mons', n')"
    and P: "pool_ok parent n' (moving_windows l) (concat (map mo_workspaces mons'))" "list_all (monitor_of parent n') mons'"
    "wss_windows (concat (map mo_workspaces mons')) = wss_windows (concat (map mo_workspaces mons))"
    "map (\<lambda>m. out_handle (mo_output m)) mons' = map (\<lambda>m. out_handle (mo_output m)) mons" by (auto simp: returns_def)
  let ?l = "l\<lparr>la_monitor_set := Normal mons' p a, la_next_id := n'\<rparr>"
  have len: "length mons' = length mons" using P(4) by (metis length_map)
  have placed: "placed_windows ?l = placed_windows l" using P(3) by (simp add: placed_windows_def Normal)
  have "start_ok ?l" by (rule start_ok_mono [OF layout_invD(4) [OF inv]]) (simp_all only: placed, simp_all)
  then have "la_rearranges parent l ?l"
    using P len placed layout_inv_normalD(1,2,3) [OF inv Normal] layout_invD(1) [OF inv]
    by (simp add: la_rearranges_def layout_inv_def monitor_set_ok_def)
  then show ?thesis by (simp add: monitors_mut_def Normal run)
qed (simp add: monitors_mut_def la_rearranges_refl [OF inv])

lemma workspaces_mut_rearranges:
  assumes inv: "layout_inv parent l" and f: "\<And>ws. workspace_inv parent ws \<Longrightarrow> returns (f ws) (ws_keeps parent ws)"
  shows "returns (workspaces_mut f l) (la_rearranges parent l)"
proof (cases "la_monitor_set l")
  case (Normal mons p a)
  note mon = layout_inv_normalD(4) [OF inv Normal]
  have "returns (bind_res (map_res f (mo_workspaces m)) (\<lambda>wss. Inr (m\<lparr>mo_workspaces := wss\<rparr>))) (quiet parent m)" if "m \<in> set mons" for m
  proof -
    note inv_m = mon [OF that]
    have "list_all (\<lambda>ws. returns (f ws) (ws_keeps parent ws)) (mo_workspaces m)"
      using monitor_invD(4) [OF inv_m] f by (simp add: workspaces_inv_def list_all_iff)
    from returns_map_res [OF this] obtain wss where wss: "map_res f (mo_workspaces m) = Inr wss"
      "list_all2 (ws_keeps parent) (mo_workspaces m) wss" by (auto simp: returns_def)
    have "ws_id ` set wss = ws_id ` set (mo_workspaces m)" using all2_keeps(1) [OF wss(2)] by (metis list.set_map)
    then show ?thesis using wss(1) all2_monitor [OF inv_m wss(2)] by (simp add: quiet_def)
  qed
  then have "list_all (\<lambda>m. returns (bind_res (map_res f (mo_workspaces m)) (\<lambda>wss. Inr (m\<lparr>mo_workspaces := wss\<rparr>))) (quiet parent m)) mons"
    by (simp add: list_all_iff)
  from returns_map_res [OF this] show ?thesis
    using quiet_monitors [OF inv Normal _ layout_inv_normalD(2) [OF inv Normal]]
    by (auto simp: workspaces_mut_def Normal elim!: returns_mono)
next
  case (NoOutputs wss)
  have "list_all (\<lambda>ws. returns (f ws) (ws_keeps parent ws)) wss"
    using layout_invD(2) [OF inv] f by (simp add: pool_ok_def NoOutputs list_all_iff)
  from returns_map_res [OF this] show ?thesis using no_outputs_keeps [OF inv NoOutputs]
    by (auto simp: workspaces_mut_def NoOutputs elim!: returns_mono)
qed

end
