(* ===== verification/Layout_Keeps.thy ===== *)
theory Layout_Keeps
  imports Layout_Loops
begin

text \<open>
  The operations of the layout that neither open nor close windows, nor move them to another monitor.
\<close>

lemma rearranges_inv: "la_rearranges parent l l' \<Longrightarrow> layout_inv parent l'"
  by (simp add: la_rearranges_def)

subsection \<open>The step of the active monitor\<close>

fun active_monitor_step :: "'w layout_env \<Rightarrow> 'w monitor_op \<Rightarrow> 'w layout \<Rightarrow> 'w layout res" where
  "active_monitor_step env MoMoveDownOrToWorkspaceDown l = la_move_down_or_to_workspace_down env l"
| "active_monitor_step env MoMoveUpOrToWorkspaceUp l = la_move_up_or_to_workspace_up env l"
| "active_monitor_step env MoFocusWindowOrWorkspaceDown l = la_focus_window_or_workspace_down env l"
| "active_monitor_step env MoFocusWindowOrWorkspaceUp l = la_focus_window_or_workspace_up env l"
| "active_monitor_step env (MoMoveToWorkspaceUp focus) l = la_move_to_workspace_up env focus l"
| "active_monitor_step env (MoMoveToWorkspaceDown focus) l = la_move_to_workspace_down env focus l"
| "active_monitor_step env (MoMoveColumnToWorkspaceUp activate) l = la_move_column_to_workspace_up env activate l"
| "active_monitor_step env (MoMoveColumnToWorkspaceDown activate) l = la_move_column_to_workspace_down env activate l"
| "active_monitor_step env (MoMoveColumnToWorkspace idx activate) l = la_move_column_to_workspace env idx activate l"
| "active_monitor_step env MoSwitchWorkspaceUp l = la_switch_workspace_up env l"
| "active_monitor_step env MoSwitchWorkspaceDown l = la_switch_workspace_down env l"
| "active_monitor_step env (MoSwitchWorkspace idx) l = la_switch_workspace env idx l"
| "active_monitor_step env (MoSwitchWorkspaceAuto idx) l = la_switch_workspace_auto_back_and_forth env idx l"
| "active_monitor_step env MoSwitchWorkspacePrevious l = la_switch_workspace_previous env l"
| "active_monitor_step env MoMoveWorkspaceDown l = la_move_workspace_down env l"
| "active_monitor_step env MoMoveWorkspaceUp l = la_move_workspace_up env l"
| "active_monitor_step env _ l = Inr l"

lemmas active_monitor_defs =
  la_move_down_or_to_workspace_down_def la_move_up_or_to_workspace_up_def la_focus_window_or_workspace_down_def la_focus_window_or_workspace_up_def la_move_to_workspace_up_def la_move_to_workspace_down_def la_move_column_to_workspace_up_def la_move_column_to_workspace_down_def la_move_column_to_workspace_def la_switch_workspace_up_def la_switch_workspace_down_def la_switch_workspace_def la_switch_workspace_auto_back_and_forth_def la_switch_workspace_previous_def la_move_workspace_down_def la_move_workspace_up_def

lemma active_monitor_step_rearranges:
  assumes inv: "layout_inv (env_parent env) l"
  shows "returns (active_monitor_step env op l) (la_rearranges (env_parent env) l)"
  by (cases op) (auto simp: active_monitor_defs la_rearranges_refl [OF inv] intro!: on_active_monitor_rearranges [OF inv] monitor_keeps
      dest: or_workspace_mints move_to_workspace_up_down_mints move_column_to_workspace_mints switch_mints move_workspace_mints)

subsection \<open>A window or the active one\<close>

lemma consume_or_expel_rearranges:
  assumes inv: "layout_inv parent l" and w: "\<And>w. window = Some w \<Longrightarrow> w \<in># la_windows l"
  shows "returns (la_consume_or_expel_window_left window l) (la_rearranges parent l)"
    "returns (la_consume_or_expel_window_right window l) (la_rearranges parent l)"
  by (auto simp: la_consume_or_expel_window_left_def la_consume_or_expel_window_right_def la_rearranges_refl [OF inv]
      intro!: on_target_rearranges [OF inv] ws_consume_or_expel_keeps target_placed w split: option.splits
      simp: named_ok_def)

lemma move_floating_window_rearranges:
  assumes inv: "layout_inv parent l" and w: "\<And>w. window = Some w \<Longrightarrow> w \<in># la_windows l"
  shows "returns (la_move_floating_window window x y l) (la_rearranges parent l)"
  by (auto simp: la_move_floating_window_def la_rearranges_refl [OF inv] named_ok_def
      intro!: on_target_rearranges [OF inv] ws_move_floating_window_keeps target_placed w split: option.splits)

lemma unless_moving_rearranges:
  assumes inv: "layout_inv parent l"
    and f: "\<And>ws. workspace_inv parent ws \<Longrightarrow> w \<in># ws_windows ws \<Longrightarrow> returns (f ws) (ws_keeps parent ws)"
  shows "returns (unless_moving w f l) (la_rearranges parent l)"
  using on_window_rearranges(1) [OF inv f] la_rearranges_refl [OF inv] by (simp add: unless_moving_def)

lemma sizing_mode_rearranges:
  assumes inv: "layout_inv (env_parent env) l"
  shows "returns (la_set_fullscreen env w b l) (la_rearranges (env_parent env) l)"
    "returns (la_toggle_fullscreen env w l) (la_rearranges (env_parent env) l)"
    "returns (la_set_maximized env w b l) (la_rearranges (env_parent env) l)"
    "returns (la_toggle_maximized env w l) (la_rearranges (env_parent env) l)"
    "returns (la_interactive_resize_begin w l) (la_rearranges (env_parent env) l)"
    "returns (la_interactive_resize_end w l) (la_rearranges (env_parent env) l)"
proof -
  have step: "returns (workspace_step env op ws) (ws_keeps (env_parent env) ws)"
    if "workspace_inv (env_parent env) ws" "workspace_op_ok op ws" "ws_rearranging op" for op ws
    using workspace_step_keeps that .
  have *: "returns (ws_set_fullscreen env w b ws) (ws_keeps (env_parent env) ws)" "returns (ws_toggle_fullscreen env w ws) (ws_keeps (env_parent env) ws)"
    "returns (ws_set_maximized env w b ws) (ws_keeps (env_parent env) ws)" "returns (ws_toggle_maximized env w ws) (ws_keeps (env_parent env) ws)"
    "returns (discard (ws_interactive_resize_begin w ws)) (ws_keeps (env_parent env) ws)"
    "returns (ws_interactive_resize_end (Some w) ws) (ws_keeps (env_parent env) ws)"
    if "workspace_inv (env_parent env) ws" "w \<in># ws_windows ws" for ws
    using step [OF that(1), of "WsSetFullscreen w b"] step [OF that(1), of "WsToggleFullscreen w"] step [OF that(1), of "WsSetMaximized w b"]
      step [OF that(1), of "WsToggleMaximized w"] step [OF that(1), of "WsResizeBegin w"] step [OF that(1), of "WsResizeEnd (Some w)"] that(2)
    by (simp_all add: ws_rearranging_def)
  have "returns (unless_moving w (ws_set_fullscreen env w b) l) (la_rearranges (env_parent env) l)"
    by (rule unless_moving_rearranges [OF inv], use * in simp)
  then show "returns (la_set_fullscreen env w b l) (la_rearranges (env_parent env) l)"
    using la_rearranges_refl [OF inv] by (simp add: la_set_fullscreen_def)
  show "returns (la_toggle_fullscreen env w l) (la_rearranges (env_parent env) l)"
    "returns (la_set_maximized env w b l) (la_rearranges (env_parent env) l)"
    "returns (la_toggle_maximized env w l) (la_rearranges (env_parent env) l)"
    "returns (la_interactive_resize_end w l) (la_rearranges (env_parent env) l)"
    unfolding la_toggle_fullscreen_def la_set_maximized_def la_toggle_maximized_def la_interactive_resize_end_def
    by (rule unless_moving_rearranges [OF inv], use * in simp)+
  show "returns (la_interactive_resize_begin w l) (la_rearranges (env_parent env) l)"
    unfolding la_interactive_resize_begin_def by (rule on_window_rearranges(1) [OF inv]) (use * in simp)
qed

lemma descendants_added_rearranges:
  assumes inv: "layout_inv (env_parent env) l"
  shows "returns (la_descendants_added env w l) (\<lambda>(l', _). la_rearranges (env_parent env) l l')"
proof -
  have f: "returns (ws_descendants_added env w ws) (\<lambda>(ws', _). ws_keeps (env_parent env) ws ws')"
    if "workspace_inv (env_parent env) ws" for ws using ws_descendants_added_keeps [OF that] by (simp add: flagged_def)
  show ?thesis
  proof (cases "la_monitor_set l")
    case (Normal mons p a)
    have g: "returns (bind_res (until_found_workspaces (ws_descendants_added env w) m) (\<lambda>(m, r). Inr (m, r \<noteq> None)))
        (\<lambda>(m', _). quiet (env_parent env) m m')" if "monitor_inv (env_parent env) m" for m
      using until_found_workspaces_quiet [OF that f] by (auto elim!: returns_mono)
    from until_found_quiet [OF inv Normal g] show ?thesis
      by (auto simp: la_descendants_added_def Normal elim!: returns_mono)
  next
    case (NoOutputs wss)
    have "returns (until_found (ws_descendants_added env w) 0 wss) (\<lambda>(ys, r). list_all2 (ws_keeps (env_parent env)) wss ys \<and>
        (\<forall>i. r = Some i \<longrightarrow> 0 \<le> i \<and> i < 0 + length wss))"
      by (rule until_found_all2) (use f layout_invD(2) [OF inv] ws_keeps_refl in \<open>auto simp: NoOutputs pool_ok_def list_all_iff\<close>)
    then show ?thesis using no_outputs_keeps [OF inv NoOutputs]
      by (auto simp: la_descendants_added_def NoOutputs elim!: returns_mono)
  qed
qed

lemma activate_by_rearranges:
  assumes inv: "layout_inv parent l"
    and f: "\<And>ws. workspace_inv parent ws \<Longrightarrow> returns (f ws) (\<lambda>(ws', _). ws_keeps parent ws ws')"
  shows "returns (activate_by env f w l) (la_rearranges parent l)"
proof (cases "la_monitor_set l")
  case (Normal mons p a)
  from until_found_quiet [where f = "activate_on_monitor env f", OF inv Normal activate_on_monitor_quiet [OF _ f]]
    la_rearranges_refl [OF inv] show ?thesis
    by (auto simp: activate_by_def Normal split: option.splits elim!: returns_mono)
qed (simp add: activate_by_def la_rearranges_refl [OF inv])

lemma activate_window_rearranges:
  assumes inv: "layout_inv (env_parent env) l"
  shows "returns (la_activate_window env w l) (la_rearranges (env_parent env) l)"
    "returns (la_activate_window_without_raising env w l) (la_rearranges (env_parent env) l)"
  unfolding la_activate_window_def la_activate_window_without_raising_def
  by (rule activate_by_rearranges [OF inv], rule returns_mono [OF ws_activate_window_ok], simp, auto)
    (rule activate_by_rearranges [OF inv], rule returns_mono [OF ws_activate_without_raising_ok], simp, auto)


subsection \<open>Toggling a dragged window\<close>

lemma dragging_inv:
  assumes inv: "layout_inv parent l" and mv: "la_interactive_move l = Some (Moving move)" and w: "tl_window (im_tile move') = tl_window (im_tile move)"
  shows "la_keeps parent l (l\<lparr>la_interactive_move := Some (Moving move')\<rparr>)"
proof -
  let ?l = "l\<lparr>la_interactive_move := Some (Moving move')\<rparr>"
  have "moving_windows ?l = moving_windows l" by (simp add: moving_windows_def moving_window_def mv w)
  then show ?thesis using inv by (simp add: la_keeps_def layout_inv_def start_ok_def la_windows_def)
qed

lemma dnd_end_keeps:
  assumes inv: "layout_inv parent l" and geo: "\<And>s i. gm_snap geo s = Some i \<Longrightarrow> i < length (sc_columns s)"
  shows "returns (workspaces_dnd_end geo l) (la_rearranges parent l)" "returns (monitors_dnd_end geo l) (la_rearranges parent l)"
proof -
  have ws: "ws_keeps parent ws (ws_dnd_scroll_gesture_end geo ws)" if inv: "workspace_inv parent ws" for ws
  proof (cases "gm_snap geo (ws_scrolling ws)")
    case None
    then show ?thesis using inv by (simp add: ws_dnd_scroll_gesture_end_def ws_keeps_refl)
  next
    case (Some i)
    have "sc_keeps (ws_scrolling ws) ((ws_scrolling ws)\<lparr>sc_active_column_idx := i\<rparr>)"
      using workspace_invD(1) [OF inv] geo [OF Some] by (auto simp: sc_keeps_def scrolling_inv_def)
    from sc_keeps_ws_keeps [OF inv this] show ?thesis by (simp add: ws_dnd_scroll_gesture_end_def Some)
  qed
  show "returns (workspaces_dnd_end geo l) (la_rearranges parent l)"
    unfolding workspaces_dnd_end_def by (rule workspaces_mut_rearranges [OF inv]) (simp add: ws)
  show "returns (monitors_dnd_end geo l) (la_rearranges parent l)"
    unfolding monitors_dnd_end_def by (rule monitors_mut_rearranges [OF inv]) (auto intro: gesture_end_keeps(2) dest: gesture_mints(5))
qed

lemma toggle_floating_keeps:
  assumes inv: "layout_inv (env_parent env) l" and w: "\<And>w. window = Some w \<Longrightarrow> w \<in># la_windows l"
    and geo: "\<And>s i. gm_snap geo s = Some i \<Longrightarrow> i < length (sc_columns s)"
  shows "returns (la_toggle_window_floating env geo window l) (la_keeps (env_parent env) l)"
    "returns (la_set_window_floating env geo window floating l) (la_keeps (env_parent env) l)"
proof -
  let ?p = "env_parent env"
  have target: "returns (on_target window f l) (la_keeps ?p l)"
    if "\<not> is_target_moving window l" "\<And>ws. workspace_inv ?p ws \<Longrightarrow> named_ok window ws \<Longrightarrow> returns (f ws) (ws_keeps ?p ws)" for f
    by (rule returns_mono [OF on_target_rearranges [where f = f, OF inv target_placed [OF that(1) _ w] that(2)] rearranges_keeps])
  have toggle: "returns (on_target window (ws_toggle_window_floating env window) l) (la_keeps ?p l)"
    and set: "returns (on_target window (ws_set_window_floating env window floating) l) (la_keeps ?p l)"
    if "\<not> is_target_moving window l"
    by (rule target [OF that], rule ws_toggle_keeps; simp add: named_ok_def)
      (rule target [OF that], rule ws_set_window_floating_keeps; simp add: named_ok_def)
  show first: "returns (la_toggle_window_floating env geo window l) (la_keeps ?p l)"
  proof (cases "is_target_moving window l")
    case True
    then obtain move where mv: "la_interactive_move l = Some (Moving move)" "window = None \<or> window = Some (tl_window (im_tile move))"
      by (auto simp: is_target_moving_def moving_window_def split: option.splits interactive_move.splits)
    let ?l = "l\<lparr>la_interactive_move := Some (Moving (move\<lparr>im_is_floating := \<not> im_is_floating move\<rparr>))\<rparr>"
    have k: "la_keeps ?p l ?l" by (rule dragging_inv [OF inv mv(1)]) simp
    then have "layout_inv ?p ?l" by (simp add: la_keeps_def)
    from returns_mono [OF dnd_end_keeps(1) [OF this geo]] have "returns (workspaces_dnd_end geo ?l) (la_keeps ?p l)"
      using k la_keeps_trans rearranges_keeps by blast
    then show ?thesis using mv k by (auto simp: la_toggle_window_floating_def Let_def)
  next
    case False
    then show ?thesis using toggle [OF False]
      by (auto simp: la_toggle_window_floating_def is_target_moving_def moving_window_def split: option.splits interactive_move.splits)
  qed
  show "returns (la_set_window_floating env geo window floating l) (la_keeps ?p l)"
    using first set la_keeps_refl [OF inv]
    by (auto simp: la_set_window_floating_def is_target_moving_def moving_window_def split: option.splits interactive_move.splits)
qed

subsection \<open>Workspaces\<close>

lemma mo_has_window_iff: "mo_has_window w m \<longleftrightarrow> w \<in># mo_windows m"
proof -
  have "set (mo_windows_list m) = (\<Union>ws \<in> set (mo_workspaces m). set_mset (ws_windows ws))"
    by (simp add: mo_windows_list_def ws_tiles_windows)
  then show ?thesis by (simp add: mo_has_window_def list_ex_iff mem_wss_windows)
qed

lemma move_to_workspace_rearranges:
  assumes inv: "layout_inv (env_parent env) l" and w: "\<And>w. window = Some w \<Longrightarrow> w \<in># la_windows l"
  shows "returns (la_move_to_workspace env window idx act l) (la_rearranges (env_parent env) l)"
proof (cases "is_target_moving window l")
  case False
  show ?thesis
  proof (cases "la_monitor_set l")
    case (Normal mons p a)
    obtain mi where mi: "(case window of Some w \<Rightarrow> unwrap (position (mo_has_window w) mons) | None \<Rightarrow> Inr a) = Inr mi" "mi < length mons"
      "\<And>w. window = Some w \<Longrightarrow> w \<in># mo_windows (mons ! mi)"
    proof (cases window)
      case None
      then show ?thesis using that [of a] layout_inv_normalD(2) [OF inv Normal] by simp
    next
      case (Some v)
      have "v \<in># placed_windows l" using target_placed [OF False Some w [OF Some]] .
      then have "\<exists>m \<in> set mons. mo_has_window v m"
        by (auto simp: placed_windows_def Normal mo_has_window_iff mem_wss_windows)
      then obtain mi where "position (mo_has_window v) mons = Some mi" using position_None [of "mo_has_window v" mons] by force
      moreover from position_Some [OF this] mo_has_window_iff [of v "mons ! mi"] have "mi < length mons" "v \<in># mo_windows (mons ! mi)" by auto
      ultimately show ?thesis using that [of mi] by (simp add: Some)
    qed
    have "returns (on_monitor mi (move_to_workspace env window idx act) l) (la_rearranges (env_parent env) l)"
    proof (rule on_monitor_rearranges [OF inv Normal mi(2)])
      fix m assume m: "monitor_inv (env_parent env) m" "m = with_counter (la_next_id l) (mons ! mi)"
      show "returns (move_to_workspace env window idx act m) (mo_keeps (env_parent env) m)"
        by (rule returns_mono [OF move_to_workspace_ok [where window = window, OF m(1)]]) (use mi(3) m(2) in auto)
    qed (rule move_to_workspace_mints)
    then show ?thesis using False mi(1) by (simp add: la_move_to_workspace_def Normal)
  qed (simp add: la_move_to_workspace_def la_rearranges_refl [OF inv])
qed (simp add: la_move_to_workspace_def la_rearranges_refl [OF inv])

lemma move_workspace_to_idx_rearranges:
  assumes inv: "layout_inv parent l"
  shows "returns (la_move_workspace_to_idx reference new_idx l) (la_rearranges parent l)"
proof -
  have active: "returns (on_active_monitor (\<lambda>m. move_workspace_to_idx (g m) new_idx m) l) (la_rearranges parent l)" for g
    by (rule on_active_monitor_rearranges [OF inv]) (auto intro: move_workspace_to_idx_keeps dest: move_workspace_mints)
  have "returns (on_monitor i (move_workspace_to_idx j new_idx) l) (la_rearranges parent l)"
    if "la_monitor_set l = Normal mons p a" "position (is_output out) mons = Some i" for i j out mons p a
    by (rule on_monitor_rearranges [OF inv that(1)])
      (use position_Some [OF that(2)] in \<open>auto intro: move_workspace_to_idx_keeps dest: move_workspace_mints\<close>)
  with active [of "\<lambda>_. i" for i] active [of mo_active_workspace_idx] la_rearranges_refl [OF inv] show ?thesis
    by (auto simp: la_move_workspace_to_idx_def split: option.split prod.split monitor_set.split)
qed

lemma update_output_size_rearranges:
  assumes inv: "layout_inv parent l"
  shows "returns (update_output_size out view l) (la_rearranges parent l)"
proof -
  have "returns (on_monitor i (\<lambda>m. Inr (mo_update_output_size view m)) l) (la_rearranges parent l)"
    if "la_monitor_set l = Normal mons p a" "position (is_output out) mons = Some i" for i mons p a
    by (rule on_monitor_rearranges [OF inv that(1)])
      (use position_Some [OF that(2)] in \<open>auto intro: mo_update_output_size_keeps mo_update_config_mints\<close>)
  with la_rearranges_refl [OF inv] show ?thesis by (auto simp: update_output_size_def split: option.split monitor_set.split)
qed

lemma all2_quiet_update:
  assumes "\<And>m. m \<in> set mons \<Longrightarrow> monitor_inv parent m" "quiet parent (mons ! i) m'"
  shows "list_all2 (quiet parent) mons (mons[i := m'])"
  unfolding list_all2_conv_all_nth
proof (intro conjI allI impI)
  fix k assume "k < length mons"
  then show "quiet parent (mons ! k) (mons[i := m'] ! k)"
    using assms by (cases "k = i") (simp_all add: quiet_refl)
qed simp

lemma or_focus_output_rearranges:
  assumes inv: "layout_inv parent l"
    and f: "\<And>ws. workspace_inv parent ws \<Longrightarrow> returns (f ws) (\<lambda>(ws', _). ws_keeps parent ws ws')"
  shows "returns (on_active_workspace_b f l) (\<lambda>(l', _). la_rearranges parent l l')"
    "returns (or_focus_output f out l) (\<lambda>(l', _). la_rearranges parent l l')"
proof -
  show first: "returns (on_active_workspace_b f l) (\<lambda>(l', _). la_rearranges parent l l')"
  proof (cases "la_monitor_set l")
    case (Normal mons p a)
    let ?m = "mons ! a" and ?ws = "mo_workspaces (mons ! a) ! mo_active_workspace_idx (mons ! a)"
    have a: "a < length mons" "?m \<in> set mons" "mo_active_workspace_idx ?m < length (mo_workspaces ?m)"
      using layout_inv_normalD(2) [OF inv Normal] active_valid [OF inv Normal] by (simp_all add: valid_loc_def Normal)
    note m = layout_inv_normalD(4) [OF inv Normal a(2)]
    obtain ws b where run: "f ?ws = Inr (ws, b)" and k: "ws_keeps parent ?ws ws"
      using f [OF workspaces_invD [OF monitor_invD(4) [OF m] a(3)]] by (auto simp: returns_def)
    have "quiet parent ?m (store_workspace (mo_active_workspace_idx ?m) ws ?m)"
      by (rule mints_quiet [OF store_keeps [OF m a(3) k] mints_store [OF a(3)]]) (use k in \<open>simp_all add: ws_keeps_def ws_same_id_def store_workspace_def\<close>)
    then have "list_all2 (quiet parent) mons (mons[a := store_workspace (mo_active_workspace_idx ?m) ws ?m])"
      using all2_quiet_update layout_inv_normalD(4) [OF inv Normal] by blast
    from quiet_monitors [OF inv Normal this a(1)] show ?thesis using a run
      by (simp add: on_active_workspace_b_def Normal vec_simps mo_active_workspace_def)
  qed (simp add: on_active_workspace_b_def la_rearranges_refl [OF inv])
  show "returns (or_focus_output f out l) (\<lambda>(l', _). la_rearranges parent l l')"
    unfolding or_focus_output_def returns_bind
    by (rule returns_mono [OF first]) (auto intro: la_rearranges_trans focus_output_rearranges rearranges_inv)
qed

end
