(* ===== verification/Layout_Core.thy ===== *)
theory Layout_Core
  imports Layout_Keeps
begin

text \<open>
  Operations that take from one monitor and give to another go through states in which the invariant
  of the layout does not hold: a monitor has an empty workspace it has not cleaned up yet, or the
  window whose move is starting is nowhere. What holds in between is the core of the invariant.
\<close>

definition core_set :: "'w parent_of \<Rightarrow> nat \<Rightarrow> 'w monitor_set \<Rightarrow> bool" where
  "core_set parent n s \<longleftrightarrow> (case s of
     Normal mons p a \<Rightarrow> p < length mons \<and> a < length mons \<and>
       list_all (\<lambda>m. semi_inv parent m \<and> mo_next_id m \<le> n) mons \<and>
       distinct (map (\<lambda>m. out_handle (mo_output m)) mons)
   | NoOutputs wss \<Rightarrow> list_all used wss)"

definition layout_core :: "'w parent_of \<Rightarrow> 'w layout \<Rightarrow> bool" where
  "layout_core parent l \<longleftrightarrow> parents_acyclic parent \<and> pool_ok parent (la_next_id l) (moving_windows l) (la_workspaces l) \<and>
     core_set parent (la_next_id l) (la_monitor_set l)"

definition tidy_but :: "nat set \<Rightarrow> 'w layout \<Rightarrow> bool" where
  "tidy_but I l \<longleftrightarrow> (case la_monitor_set l of
     Normal mons p a \<Rightarrow> \<forall>i < length mons. i \<notin> I \<longrightarrow> tidy_inv (mons ! i) | NoOutputs wss \<Rightarrow> True)"

lemma layout_inv_core: "layout_inv parent l \<longleftrightarrow> layout_core parent l \<and> tidy_but {} l \<and> start_ok l"
  by (auto simp: layout_inv_def layout_core_def core_set_def monitor_set_ok_def tidy_but_def monitor_of_def monitor_inv_iff
      list_all_length split: monitor_set.split)

lemma layout_coreD:
  assumes "layout_core parent l"
  shows "parents_acyclic parent" "pool_ok parent (la_next_id l) (moving_windows l) (la_workspaces l)"
    "core_set parent (la_next_id l) (la_monitor_set l)" "mset_distinct (la_windows l)"
  using assms by (simp_all add: layout_core_def pool_ok_def la_windows_def placed_windows_def)

lemma layout_core_normalD:
  assumes "layout_core parent l" "la_monitor_set l = Normal mons p a"
  shows "p < length mons" "a < length mons" "distinct (map (\<lambda>m. out_handle (mo_output m)) mons)"
    "\<And>m. m \<in> set mons \<Longrightarrow> semi_inv parent m" "\<And>m. m \<in> set mons \<Longrightarrow> mo_next_id m \<le> la_next_id l"
  using assms by (auto simp: layout_core_def core_set_def list_all_iff)

lemma with_counter_semi: "semi_inv parent m \<Longrightarrow> mo_next_id m \<le> n \<Longrightarrow> semi_inv parent (with_counter n m)"
proof -
  have "switch_inv (with_counter n m) = switch_inv m"
    by (simp add: switch_inv_def cong: option.case_cong workspace_switch.case_cong)
  then show "semi_inv parent m \<Longrightarrow> mo_next_id m \<le> n \<Longrightarrow> semi_inv parent (with_counter n m)"
    by (auto simp: semi_inv_def untidy_inv_def workspaces_inv_def options_ok_def list_all_iff)
qed

lemma with_counter_tidy [simp]: "tidy_inv (with_counter n m) = tidy_inv m"
  by (simp add: tidy_inv_def)

subsection \<open>Putting a monitor back\<close>

lemma pool_ok_replace_extra:
  assumes pool: "pool_ok parent n W (rest @ wss)" and new: "pool_ok parent n' {#} wss'" and n: "n \<le> n'"
    and ids: "ws_id ` set wss' \<subseteq> ws_id ` set wss \<union> X \<union> {n..}" and X: "X \<inter> ws_id ` set rest = {}"
    and win: "mset_distinct (W' + (wss_windows rest + wss_windows wss'))"
  shows "pool_ok parent n' W' (rest @ wss')"
proof -
  have rest: "ws_id ` set rest \<inter> ws_id ` set wss = {}" "\<forall>ws \<in> set rest. ws_id ws < n" "list_all (workspace_inv parent) rest"
    "distinct (map ws_id rest)" using pool by (auto simp: pool_ok_def list_all_iff)
  have "ws_id ` set rest \<inter> {n..} = {}" using rest(2) by fastforce
  with ids X rest(1) have "ws_id ` set rest \<inter> ws_id ` set wss' = {}" by blast
  moreover have "list_all (\<lambda>ws. ws_id ws < n') rest" using rest(2) n by (fastforce simp: list_all_iff)
  ultimately show ?thesis using new win rest by (auto simp: pool_ok_def)
qed

lemma semi_pool: "semi_inv parent m \<Longrightarrow> mo_next_id m \<le> n \<Longrightarrow> pool_ok parent n {#} (mo_workspaces m)"
  using semi_invD(2) [of parent m] by (fastforce simp: pool_ok_workspaces_inv pool_ok_def list_all_iff)

lemma core_pool_split:
  assumes "layout_core parent l" "la_monitor_set l = Normal mons p a" "i < length mons"
  shows "pool_ok parent (la_next_id l) (moving_windows l) (others i mons @ mo_workspaces (mons ! i))"
  using layout_coreD(2) [OF assms(1)] pool_ok_mset [OF others_split [OF assms(3)]] by (simp add: assms(2))

lemma placed_split:
  assumes "la_monitor_set l = Normal mons p a" "i < length mons"
  shows "placed_windows l = wss_windows (others i mons) + mo_windows (mons ! i)"
  using wss_windows_mset [OF others_split [OF assms(2)]] by (simp add: placed_windows_def assms(1))

lemma placed_update:
  assumes "la_monitor_set l' = Normal (mons[i := m]) p a" "i < length mons"
  shows "placed_windows l' = wss_windows (others i mons) + mo_windows m"
  using wss_windows_mset [OF others_update [OF assms(2)]] by (simp add: placed_windows_def assms(1))

lemma core_store:
  assumes inv: "layout_core parent l" and set: "la_monitor_set l = Normal mons p a" and i: "i < length mons" and a': "a' < length mons"
    and m': "semi_inv parent m'" "mo_next_id m' \<le> n'" "la_next_id l \<le> n'"
    and ids: "ws_id ` set (mo_workspaces m') \<subseteq> ws_id ` set (mo_workspaces (mons ! i)) \<union> X \<union> {la_next_id l..}"
    and X: "X \<inter> ws_id ` set (others i mons) = {}"
    and out: "out_handle (mo_output m') = out_handle (mo_output (mons ! i))"
    and win: "mset_distinct (moving_windows l' + (wss_windows (others i mons) + mo_windows m'))"
    and l': "la_monitor_set l' = Normal (mons[i := m']) p a'" "la_next_id l' = n'"
  shows "layout_core parent l'"
proof -
  from pool_ok_replace_extra [OF core_pool_split [OF inv set i] semi_pool [OF m'(1,2)] m'(3) ids X win]
  have "pool_ok parent n' (moving_windows l') (la_workspaces l')"
    using pool_ok_mset [OF others_update [OF i, of m']] by (simp add: l'(1))
  moreover have "core_set parent n' (la_monitor_set l')"
  proof -
    have "list_all (\<lambda>m. semi_inv parent m \<and> mo_next_id m \<le> n') mons"
      using layout_core_normalD(4,5) [OF inv set] m'(3) by (fastforce simp: list_all_iff)
    then show ?thesis using layout_core_normalD(1,3) [OF inv set] a' out m'
      by (simp add: core_set_def l'(1) list_all_update handles_update)
  qed
  ultimately show ?thesis using layout_coreD(1) [OF inv] by (simp add: layout_core_def l'(2))
qed

lemma tidy_but_store:
  assumes "tidy_but I l" "la_monitor_set l = Normal mons p a" "la_monitor_set l' = Normal (mons[i := m']) p a'"
    "i \<notin> J \<Longrightarrow> tidy_inv m'" "I - {i} \<subseteq> J"
  shows "tidy_but J l'"
  unfolding tidy_but_def assms(3) monitor_set.case
proof (intro allI impI)
  fix k assume "k < length (mons[i := m'])" "k \<notin> J"
  then show "tidy_inv (mons[i := m'] ! k)" using assms(1,4,5) by (cases "k = i") (auto simp: tidy_but_def assms(2))
qed

text \<open>An operation of one monitor that takes the windows \<open>R\<close> away and adds \<open>A\<close>, and may adopt workspaces with identifiers \<open>X\<close>.\<close>

definition core_step :: "'w parent_of \<Rightarrow> 'w multiset \<Rightarrow> 'w multiset \<Rightarrow> 'w layout \<Rightarrow> 'w layout \<Rightarrow> bool" where
  "core_step parent R A l l' \<longleftrightarrow> layout_core parent l' \<and> placed_windows l' + R = placed_windows l + A \<and>
     la_interactive_move l' = la_interactive_move l"

lemma core_on_monitor:
  assumes inv: "layout_core parent l" and set: "la_monitor_set l = Normal mons p a" and i: "i < length mons"
    and m: "m = with_counter (la_next_id l) (mons ! i)"
    and run: "f m = Inr m'" and m': "semi_inv parent m'" "mo_windows m' + R = mo_windows m + A"
    and mints: "mints (joined wss m) m'" and wss: "ws_id ` set wss \<inter> ws_id ` set (la_workspaces l) = {}"
    and win: "mset_distinct (la_windows l + A)"
  shows "on_monitor i f l = Inr (stored i m' l)" "core_step parent R A l (stored i m' l)"
proof -
  let ?l = "stored i m' l"
  note M = mints [unfolded mints_def joined_def]
  show "on_monitor i f l = Inr ?l" using i run by (simp add: on_monitor_def set vec_simps m stored_def)
  have set': "la_monitor_set ?l = Normal (mons[i := m']) p a" by (simp add: stored_def set)
  have move: "la_interactive_move ?l = la_interactive_move l" by (simp add: stored_def set)
  have total: "placed_windows ?l + R = placed_windows l + A"
    unfolding placed_split [OF set i] placed_update [OF set' i] using m'(2) by (simp add: m ac_simps)
  have "moving_windows ?l + (wss_windows (others i mons) + mo_windows m') + R = la_windows l + A"
    using total by (simp add: la_windows_def moving_cong [OF move] placed_update [OF set' i] ac_simps)
  then have "mset_distinct (moving_windows ?l + (wss_windows (others i mons) + mo_windows m'))"
    using mset_distinct_mono [OF win] by (metis mset_subset_eq_add_left)
  moreover have "ws_id ` set wss \<inter> ws_id ` set (others i mons) = {}"
    using wss mset_eq_setD [OF others_split [OF i]] by (auto simp: set)
  ultimately have "layout_core parent ?l"
    by (intro core_store [where X = "ws_id ` set wss", OF inv set i layout_core_normalD(2) [OF inv set] m'(1) order_refl])
      (use M in \<open>auto simp: m set stored_def\<close>)
  then show "core_step parent R A l ?l" using total move by (simp add: core_step_def)
qed

lemma core_trans:
  assumes "core_step parent R A l l'" "core_step parent A R l' l''"
  shows "core_step parent {#} {#} l l''"
proof -
  have "placed_windows l'' + A + R = placed_windows l + A + R"
    using assms by (simp add: core_step_def ac_simps)
  then show ?thesis using assms by (simp add: core_step_def)
qed

lemma core_rearranges:
  assumes "layout_inv parent l" "core_step parent {#} {#} l l'" "tidy_but {} l'"
  shows "la_rearranges parent l l'"
  using assms start_ok_mono [of l l'] by (simp add: core_step_def la_rearranges_def layout_inv_core)

end
