(* ===== verification/Layout_Between.thy ===== *)
theory Layout_Between
  imports Layout_Core
begin

text \<open>Windows and columns that go from one monitor to another.\<close>

subsection \<open>Taking and giving\<close>

lemma joined_none [simp]: "joined [] m = m"
  by (simp add: joined_def)

lemma core_take:
  assumes inv: "layout_inv parent l" and set: "la_monitor_set l = Normal mons p a" and mi: "mi < length mons"
    and wi: "wi < length (mo_workspaces (mons ! mi))" and r: "ws_removes parent W (mo_workspaces (mons ! mi) ! wi) ws"
    and l1: "l1 = l\<lparr>la_monitor_set := Normal (mons[mi := store_workspace wi ws (mons ! mi)]) p a\<rparr>"
  shows "core_step parent W {#} l l1" "tidy_but {mi} l1" "wi = mo_active_workspace_idx (mons ! mi) \<Longrightarrow> tidy_but {} l1"
proof -
  let ?m = "mons ! mi" and ?m1 = "store_workspace wi ws (mons ! mi)"
  have m: "monitor_inv parent ?m" "mo_next_id ?m \<le> la_next_id l"
    using layout_inv_normalD(4,5) [OF inv set] mi by simp_all
  have core: "layout_core parent l" "tidy_but {} l" using inv by (simp_all add: layout_inv_core)
  note T = taken_ok [OF m(1) wi r, unfolded taken_def]
  have set1: "la_monitor_set l1 = Normal (mons[mi := ?m1]) p a" by (simp add: l1)
  have placed: "placed_windows l1 + W = placed_windows l"
    unfolding placed_split [OF set mi] placed_update [OF set1 mi] using T by (simp add: ac_simps)
  have "moving_windows l1 + (wss_windows (others mi mons) + mo_windows ?m1) + W = la_windows l"
    using placed by (simp add: l1 la_windows_def placed_update [OF set1 mi, unfolded l1] ac_simps)
  then have win: "mset_distinct (moving_windows l1 + (wss_windows (others mi mons) + mo_windows ?m1))"
    using mset_distinct_mono [OF layout_invD(5) [OF inv]] by (metis mset_subset_eq_add_left)
  have ids: "ws_id ` set (mo_workspaces ?m1) = ws_id ` set (mo_workspaces ?m)" using T by (metis list.set_map)
  have "layout_core parent l1"
    by (rule core_store [where X = "{}" and n' = "la_next_id l", OF core(1) set mi layout_inv_normalD(2) [OF inv set] _ _ order_refl _ _ _ win])
      (use T m(2) ids in \<open>simp_all add: l1 store_workspace_def\<close>)
  with placed show "core_step parent W {#} l l1" by (simp add: core_step_def l1)
  show "tidy_but {mi} l1" by (rule tidy_but_store [OF core(2) set set1]) simp_all
  show "wi = mo_active_workspace_idx ?m \<Longrightarrow> tidy_but {} l1"
    by (rule tidy_but_store [OF core(2) set set1]) (use T in simp_all)
qed

lemma core_give:
  assumes inv: "layout_core parent l" and set: "la_monitor_set l = Normal mons p a" and i: "i < length mons" and tidy: "tidy_but I l"
    and m: "m = with_counter (la_next_id l) (mons ! i)"
    and f: "returns (f m) (mo_adds parent W wid act m)" and mints: "\<And>m'. f m = Inr m' \<Longrightarrow> mints m m'"
    and win: "mset_distinct (la_windows l + W)"
  shows "returns (on_monitor i f l) (\<lambda>l'. core_step parent {#} W l l' \<and> tidy_but I l' \<and>
    (\<exists>m'. f m = Inr m' \<and> mo_adds parent W wid act m m' \<and> l' = stored i m' l))"
proof -
  obtain m' where run: "f m = Inr m'" and A: "mo_adds parent W wid act m m'" using f by (auto simp: returns_def)
  note step = core_on_monitor [where f = f and R = "{#}" and A = W and wss = "[]", OF inv set i m run]
  have "mints (joined [] m) m'" using mints [OF run] by simp
  then have on: "on_monitor i f l = Inr (stored i m' l)" "core_step parent {#} W l (stored i m' l)"
    using A win by (auto intro!: step simp: mo_adds_def)
  have "tidy_but I (stored i m' l)"
    by (rule tidy_but_store [OF tidy set]) (use A i tidy in \<open>auto simp: stored_def set mo_adds_def m tidy_but_def intro: tidy_inv_near\<close>)
  then show ?thesis using on A run by auto
qed

lemma core_tidy_up:
  assumes inv: "layout_core parent l" and set: "la_monitor_set l = Normal mons p a" and i: "i < length mons" and tidy: "tidy_but {i} l"
  shows "returns (on_monitor i clean_up_if_idle l) (\<lambda>l'. core_step parent {#} {#} l l' \<and> tidy_but {} l')"
proof -
  let ?m = "with_counter (la_next_id l) (mons ! i)"
  have semi: "semi_inv parent ?m" using layout_core_normalD(4,5) [OF inv set] i by (simp add: with_counter_semi)
  from clean_up_if_idle_ok [OF this] obtain m' where run: "clean_up_if_idle ?m = Inr m'"
    and m': "monitor_inv parent m'" "m' = ?m \<or> cleaned_up ?m m'" by (auto simp: returns_def)
  have win: "mo_windows m' = mo_windows ?m" using m'(2) cleaned_up_workspaces_inv(2) [OF semi_invD(2) [OF semi]] by auto
  have "mints (joined [] ?m) m'" using clean_up_mints(2) [OF run] by simp
  then have on: "on_monitor i clean_up_if_idle l = Inr (stored i m' l)" "core_step parent {#} {#} l (stored i m' l)"
    by (rule core_on_monitor [where f = clean_up_if_idle and R = "{#}" and A = "{#}", OF inv set i refl run, rotated 2];
        use m' win layout_coreD(4) [OF inv] in \<open>simp add: monitor_inv_iff\<close>)+
  have "tidy_but {} (stored i m' l)"
    by (rule tidy_but_store [where i = i and m' = m', OF tidy set]) (simp_all add: stored_def set monitor_invD(3) [OF m'(1)])
  then show ?thesis using on by simp
qed

lemma core_activate:
  assumes "layout_core parent l" "\<And>mons p a. la_monitor_set l = Normal mons p a \<Longrightarrow> idx < length mons"
  shows "layout_core parent (set_active_monitor idx l)" "placed_windows (set_active_monitor idx l) = placed_windows l"
    "la_interactive_move (set_active_monitor idx l) = la_interactive_move l" "tidy_but I (set_active_monitor idx l) = tidy_but I l"
  using assms by (auto simp: set_active_monitor_def layout_core_def core_set_def placed_windows_def tidy_but_def la_workspaces_def split: monitor_set.splits)

lemma core_step_trans:
  "core_step parent R A l l' \<Longrightarrow> core_step parent {#} {#} l' l'' \<Longrightarrow> core_step parent R A l l''"
  by (simp add: core_step_def)

lemma core_step_activate:
  assumes "core_step parent R A l l'" "\<And>mons p a. la_monitor_set l' = Normal mons p a \<Longrightarrow> idx < length mons"
  shows "core_step parent R A l (set_active_monitor idx l')"
  using assms core_activate [of parent l' idx] by (simp add: core_step_def)

lemma taken_distinct:
  assumes "layout_inv parent l" "core_step parent W {#} l l1"
  shows "mset_distinct (la_windows l1 + W)"
proof -
  have "la_windows l1 + W = la_windows l" using assms(2) moving_cong [of l1 l]
    by (auto simp: core_step_def la_windows_def ac_simps)
  then show ?thesis using layout_invD(5) [OF assms(1)] by simp
qed

subsection \<open>Windows\<close>

definition connected :: "loutput \<Rightarrow> 'w layout \<Rightarrow> bool" where
  "connected out l \<longleftrightarrow> (case la_monitor_set l of Normal mons p a \<Rightarrow> list_ex (is_output out) mons | NoOutputs wss \<Rightarrow> True)"

lemma connected_handles:
  "la_monitor_set l = Normal mons p a \<Longrightarrow> connected out l \<longleftrightarrow> out_handle out \<in> set (map (\<lambda>m. out_handle (mo_output m)) mons)"
  by (force simp: connected_def is_output_def list_ex_iff)

lemma connected_position:
  assumes "connected out l" "la_monitor_set l = Normal mons p a"
  obtains i where "position (is_output out) mons = Some i" "i < length mons"
proof -
  have "position (is_output out) mons \<noteq> None" using assms by (auto simp: position_None connected_def list_ex_iff)
  then show ?thesis using that position_Some by blast
qed

lemma locate_on_monitors_ok:
  assumes inv: "layout_inv parent l" and set: "la_monitor_set l = Normal mons p a"
    and w: "\<And>w. window = Some w \<Longrightarrow> w \<in># placed_windows l"
  obtains mi wi where "locate_on_monitors window mons a = Inr (mi, wi)" "mi < length mons" "wi < length (mo_workspaces (mons ! mi))"
    "\<And>w. window = Some w \<Longrightarrow> w \<in># ws_windows (mo_workspaces (mons ! mi) ! wi)"
    "window = None \<Longrightarrow> wi = mo_active_workspace_idx (mons ! mi)"
proof (cases window)
  case None
  then show ?thesis using that [of a "mo_active_workspace_idx (mons ! a)"] active_valid [OF inv set] layout_inv_normalD(2) [OF inv set]
    by (simp add: locate_on_monitors_def vec_simps valid_loc_def set)
next
  case (Some v)
  from locate_window [OF w [OF Some]] obtain mi wi where at: "locate (ws_has_window v) l = Some (mi, wi)"
    "valid_loc (mi, wi) l" "v \<in># ws_windows (ws_of (mi, wi) l)" by (metis surj_pair)
  from at(1) have "position (\<lambda>m. list_ex (ws_has_window v) (mo_workspaces m)) mons = Some mi"
    "position (ws_has_window v) (mo_workspaces (mons ! mi)) = Some wi"
    by (auto simp: locate_def set simp del: ws_has_window_iff split: option.splits)
  then show ?thesis using that [of mi wi] at(2,3)
    by (simp add: locate_on_monitors_def Some valid_loc_def ws_of_def set del: ws_has_window_iff)
qed

lemma active_window_returns: "monitor_inv parent m \<Longrightarrow> \<exists>x. mo_active_window m = Inr x"
proof -
  assume inv: "monitor_inv parent m"
  note ws = workspaces_invD [OF monitor_invD(4) [OF inv] monitor_invD(5) [OF inv]]
  show ?thesis by (cases rule: ws_active_window_cases [OF ws]) (simp_all add: mo_active_eq(2) [OF inv])
qed

text \<open>The end of \<open>move_to_output\<close>, from the moment the tile has been taken out.\<close>

lemma give_tile_rearranges:
  assumes inv: "layout_inv (env_parent env) l" and step: "core_step (env_parent env) {#tl_window (rt_tile r)#} {#} l l1"
    and set: "la_monitor_set l1 = Normal mons p a" and i: "ni < length mons" "mi < length mons" and tidy: "tidy_but {mi} l1"
    and wid: "wid \<in> ws_id ` set (mo_workspaces (mons ! ni))"
  shows "returns (bind_res (on_monitor ni (add_removed_tile env r wid activate) l1) (\<lambda>l.
      let l = (if act then set_active_monitor ni l else l) in on_monitor mi clean_up_if_idle l)) (la_rearranges (env_parent env) l)"
  unfolding returns_bind
proof -
  let ?p = "env_parent env" and ?W = "{#tl_window (rt_tile r)#}" and ?m = "with_counter (la_next_id l1) (mons ! ni)"
  have core: "layout_core ?p l1" using step by (simp add: core_step_def)
  have semi: "semi_inv ?p ?m" using layout_core_normalD(4,5) [OF core set] i by (simp add: with_counter_semi)
  note dist = taken_distinct [OF inv step]
  have fresh: "tl_window (rt_tile r) \<notin># mo_windows ?m"
  proof -
    have "tl_window (rt_tile r) \<notin># placed_windows l1" using dist by (simp add: la_windows_def)
    then show ?thesis using placed_split [OF set i(1)] by simp
  qed
  have target: "mon_target_ok (MonTargetWorkspace wid None) ?m" using wid by auto
  have add: "returns (add_removed_tile env r wid activate ?m) (mo_adds ?p ?W wid (map_smart activate False) ?m)"
    unfolding add_removed_tile_def by (rule returns_mono [OF mo_add_tile_ok [OF semi fresh target]]) auto
  show "returns (on_monitor ni (add_removed_tile env r wid activate) l1) (\<lambda>l2.
      returns (let l = (if act then set_active_monitor ni l2 else l2) in on_monitor mi clean_up_if_idle l) (la_rearranges ?p l))"
  proof (rule returns_mono [OF core_give [where f = "add_removed_tile env r wid activate", OF core set i(1) tidy refl add add_removed_tile_mints dist]], assumption, elim conjE exE)
    fix l2 m' assume s2: "core_step ?p {#} ?W l1 l2" and t2: "tidy_but {mi} l2" and l2: "l2 = stored ni m' l1"
    define l3 where "l3 = (if act then set_active_monitor ni l2 else l2)"
    have set2: "la_monitor_set l2 = Normal (mons[ni := m']) p a" by (simp add: l2 stored_def set)
    then obtain a' where set3: "la_monitor_set l3 = Normal (mons[ni := m']) p a'" by (cases act) (auto simp: l3_def set_active_monitor_def)
    have core2: "layout_core ?p l2" using s2 by (simp add: core_step_def)
    have s3: "core_step ?p {#} ?W l1 l3" using s2 core_step_activate [OF s2] set2 i by (auto simp: l3_def)
    have t3: "tidy_but {mi} l3" using t2 core_activate(4) [OF core2, of ni] set2 i by (auto simp: l3_def)
    from s3 have "layout_core ?p l3" by (simp add: core_step_def)
    from core_tidy_up [OF this set3 _ t3] i(2)
    have "returns (on_monitor mi clean_up_if_idle l3) (\<lambda>l'. core_step ?p {#} {#} l3 l' \<and> tidy_but {} l')" by simp
    then show "returns (let l = (if act then set_active_monitor ni l2 else l2) in on_monitor mi clean_up_if_idle l) (la_rearranges ?p l)"
      unfolding l3_def [symmetric] Let_def
      by (rule returns_mono) (auto intro: core_rearranges [OF inv] core_step_trans [OF core_trans [OF step s3]])
  qed
qed

lemma move_to_output_rearranges:
  assumes inv: "layout_inv (env_parent env) l" and w: "\<And>w. window = Some w \<Longrightarrow> w \<in># la_windows l" and out: "connected out l"
  shows "returns (move_to_output env window out target activate l) (la_rearranges (env_parent env) l)"
proof (cases "is_target_moving window l")
  case False
  note here = la_rearranges_refl [OF inv]
  show ?thesis
  proof (cases "la_monitor_set l")
    case (Normal mons p a)
    obtain ni where ni: "position (is_output out) mons = Some ni" "ni < length mons" by (rule connected_position [OF out Normal])
    have placed: "w \<in># placed_windows l" if "window = Some w" for w using target_placed [OF False that w [OF that]] .
    obtain mi wi where at: "locate_on_monitors window mons a = Inr (mi, wi)" "mi < length mons" "wi < length (mo_workspaces (mons ! mi))"
      "\<And>w. window = Some w \<Longrightarrow> w \<in># ws_windows (mo_workspaces (mons ! mi) ! wi)"
      by (rule locate_on_monitors_ok [OF inv Normal placed]) blast+
    define ti where "ti = (case target of Some i \<Rightarrow> i | None \<Rightarrow> mo_active_workspace_idx (mons ! ni))"
    let ?m = "mons ! mi" and ?ws = "mo_workspaces (mons ! mi) ! wi"
    have m: "monitor_inv (env_parent env) ?m" using layout_inv_normalD(4) [OF inv Normal] at(2) by simp
    obtain x where x: "mo_active_window ?m = Inr x" using active_window_returns [OF m] by blast
    have winv: "workspace_inv (env_parent env) ?ws" by (rule workspaces_invD [OF monitor_invD(4) [OF m] at(3)])
    obtain r ws where rem: "(case window of Some w \<Rightarrow> bind_res (ws_remove_tile w ?ws) (\<lambda>(removed, ws). Inr (Some removed, ws))
        | None \<Rightarrow> ws_remove_active_tile ?ws) = Inr (r, ws)"
      and R: "case r of None \<Rightarrow> ws = ?ws | Some r \<Rightarrow> ws_removes (env_parent env) {#tl_window (rt_tile r)#} ?ws ws"
      using remove_moving_ok [where window = window, OF winv at(4)] by (force simp: returns_def split: option.splits)
    define l1 where "l1 = l\<lparr>la_monitor_set := Normal (mons[mi := store_workspace wi ws ?m]) p a\<rparr>"
    define act where "act = map_smart activate (case window of None \<Rightarrow> True | Some w \<Rightarrow> mi = a \<and> x = Some w)"
    define act' where "act' = (if act then ActivateYes else ActivateNo)"
    have "returns (case r of None \<Rightarrow> Inr l1 | Some removed \<Rightarrow>
        bind_res (on_monitor ni (add_removed_tile env removed (ws_id (mo_workspaces (mons ! ni) ! ti)) act') l1) (\<lambda>l.
        let l = (if map_smart act' False then set_active_monitor ni l else l) in on_monitor mi clean_up_if_idle l))
      (la_rearranges (env_parent env) l)" if ti: "ti < length (mo_workspaces (mons ! ni))"
    proof (cases r)
      case None
      then have "l1 = l" using R Normal at(2,3) by (simp add: l1_def store_workspace_def)
      then show ?thesis using here by (simp add: None)
    next
      case (Some rt)
      have rm: "ws_removes (env_parent env) {#tl_window (rt_tile rt)#} ?ws ws" using R by (simp add: Some)
      note T = core_take [OF inv Normal at(2,3) rm l1_def]
      have set1: "la_monitor_set l1 = Normal (mons[mi := store_workspace wi ws ?m]) p a" by (simp add: l1_def)
      have "map ws_id (mo_workspaces (mons[mi := store_workspace wi ws ?m] ! ni)) = map ws_id (mo_workspaces (mons ! ni))"
        using rm at(2,3) by (cases "mi = ni") (simp_all add: store_workspace_def ws_removes_def ws_same_id_def map_update list_update_same_conv)
      then have "ws_id ` set (mo_workspaces (mons[mi := store_workspace wi ws ?m] ! ni)) = ws_id ` set (mo_workspaces (mons ! ni))"
        by (metis list.set_map)
      then have wid: "ws_id (mo_workspaces (mons ! ni) ! ti) \<in> ws_id ` set (mo_workspaces (mons[mi := store_workspace wi ws ?m] ! ni))"
        using ti by simp
      show ?thesis using give_tile_rearranges [OF inv T(1) set1 _ _ T(2) wid] ni at(2) by (simp add: Some)
    qed
    then show ?thesis using here False at x rem
      by (cases r; cases act) (simp_all add: move_to_output_def Normal ni vec_simps Let_def ti_def [symmetric] l1_def [symmetric]
          act_def [symmetric] act'_def not_le)
  qed (simp add: move_to_output_def here)
qed (simp add: move_to_output_def la_rearranges_refl [OF inv])

subsection \<open>Columns\<close>

lemma move_column_to_output_rearranges:
  assumes inv: "layout_inv (env_parent env) l" and out: "connected out l"
  shows "returns (move_column_to_output env out target activate l) (la_rearranges (env_parent env) l)"
proof (cases "la_monitor_set l")
  case (Normal mons p a)
  let ?p = "env_parent env" and ?m = "mons ! a" and ?ws = "mo_workspaces (mons ! a) ! mo_active_workspace_idx (mons ! a)"
  obtain ni where ni: "position (is_output out) mons = Some ni" "ni < length mons" by (rule connected_position [OF out Normal])
  have a: "a < length mons" "mo_active_workspace_idx ?m < length (mo_workspaces ?m)"
    using active_valid(1) [OF inv Normal] by (simp_all add: valid_loc_def Normal)
  have m: "monitor_inv ?p ?m" using layout_inv_normalD(4) [OF inv Normal] a by simp
  show ?thesis
  proof (cases "floating_get ?ws")
    case True
    then show ?thesis using a move_to_output_rearranges [OF inv _ out, of None]
      by (simp add: move_column_to_output_def Normal ni vec_simps mo_active_eq(1) [OF m])
  next
    case False
    have winv: "workspace_inv ?p ?ws" by (rule workspaces_invD [OF monitor_invD(4) [OF m] a(2)])
    obtain c ws where rem: "ws_remove_active_column ?ws = Inr (c, ws)"
      and R: "case c of None \<Rightarrow> ws = ?ws | Some col \<Rightarrow> ws_removes ?p (mset (col_windows col)) ?ws ws \<and> column_inv col"
      using ws_remove_active_column_ok [OF winv] by (force simp: returns_def split: option.splits)
    define mons1 where "mons1 = mons[a := store_workspace (mo_active_workspace_idx ?m) ws ?m]"
    define l1 where "l1 = l\<lparr>la_monitor_set := Normal mons1 p a\<rparr>"
    define last where "last = length (mo_workspaces (mons1 ! ni)) - 1"
    define ti where "ti = min (case target of Some i \<Rightarrow> i | None \<Rightarrow> mo_active_workspace_idx (mons1 ! ni)) last"
    have len: "length mons1 = length mons" by (simp add: mons1_def)
    have "returns (case c of None \<Rightarrow> Inr l1 | Some column \<Rightarrow>
        bind_res (last_idx (mo_workspaces (mons1 ! ni))) (\<lambda>last.
          add_column_by_idx env ni (min (case target of Some i \<Rightarrow> i | None \<Rightarrow> mo_active_workspace_idx (mons1 ! ni)) last) column activate l1))
        (la_rearranges ?p l)"
    proof (cases c)
      case None
      then have "l1 = l" using R Normal a by (simp add: l1_def mons1_def store_workspace_def)
      then show ?thesis using la_rearranges_refl [OF inv] by (simp add: None)
    next
      case (Some col)
      let ?W = "mset (col_windows col)" and ?n = "with_counter (la_next_id l1) (mons1 ! ni)"
      have rm: "ws_removes ?p ?W ?ws ws" and col: "column_inv col" using R by (simp_all add: Some)
      note T = core_take [OF inv Normal a rm l1_def [unfolded mons1_def]]
      have set1: "la_monitor_set l1 = Normal mons1 p a" by (simp add: l1_def)
      have core: "layout_core ?p l1" using T(1) by (simp add: core_step_def)
      have n1: "ni < length mons1" using ni by (simp add: len)
      have semi: "semi_inv ?p ?n" using layout_core_normalD(4,5) [OF core set1] n1 by (simp add: with_counter_semi)
      then have ne: "mo_workspaces (mons1 ! ni) \<noteq> []" using semi_invD(4) by fastforce
      then have ti: "ti < length (mo_workspaces ?n)" by (cases "mo_workspaces (mons1 ! ni)") (simp_all add: ti_def last_def min_def)
      note dist = taken_distinct [OF inv T(1)]
      have "mset_distinct (mo_windows ?n + ?W)"
        by (rule mset_distinct_mono [OF dist]) (simp add: la_windows_def placed_split [OF set1 n1] ac_simps)
      from mo_add_column_ok [OF semi ti col this]
      have give: "returns (on_monitor ni (mo_add_column env ti col activate) l1) (\<lambda>l'. core_step ?p {#} ?W l1 l' \<and> tidy_but {} l' \<and>
        (\<exists>m'. mo_add_column env ti col activate ?n = Inr m' \<and> mo_adds ?p ?W (ws_id (mo_workspaces ?n ! ti)) activate ?n m' \<and> l' = stored ni m' l1))"
        by (rule core_give [where f = "mo_add_column env ti col activate", OF core set1 n1 T(3) [OF refl] refl _ mo_adding_mints(1) dist])
      have "returns (add_column_by_idx env ni ti col activate l1) (la_rearranges ?p l)"
        unfolding add_column_by_idx_def set1 monitor_set.case returns_bind returns_Inr
      proof (rule returns_mono [OF give], elim conjE exE)
        fix l2 m' assume s2: "core_step ?p {#} ?W l1 l2" and t2: "tidy_but {} l2" and l2: "l2 = stored ni m' l1"
        have idx: "ni < length mons'" if "la_monitor_set l2 = Normal mons' p' a'" for mons' p' a'
          using that n1 by (auto simp: l2 stored_def set1)
        have core2: "layout_core ?p l2" using s2 by (simp add: core_step_def)
        define l3 where "l3 = (if activate then set_active_monitor ni l2 else l2)"
        have s3: "core_step ?p {#} ?W l1 l3" using s2 core_step_activate [OF s2 idx] by (auto simp: l3_def)
        have t3: "tidy_but {} l3" using t2 core_activate(4) [OF core2 idx] by (auto simp: l3_def)
        have "la_rearranges ?p l l3" by (rule core_rearranges [OF inv core_trans [OF T(1) s3] t3])
        then show "la_rearranges ?p l (if activate then set_active_monitor ni l2 else l2)" by (simp add: l3_def)
      qed
      then show ?thesis using ne by (simp add: Some last_idx_def ti_def last_def)
    qed
    then show ?thesis using False a rem
      by (cases c; cases target) (simp_all add: move_column_to_output_def Normal ni vec_simps mo_active_eq(1) [OF m] mons1_def [symmetric] l1_def [symmetric] Let_def)
  qed
qed (simp add: move_column_to_output_def la_rearranges_refl [OF inv])

lemma or_move_column_to_output_rearranges:
  assumes inv: "layout_inv (env_parent env) l" and out: "connected out l"
    and f: "\<And>ws. workspace_inv (env_parent env) ws \<Longrightarrow> returns (f ws) (\<lambda>(ws', _). ws_keeps (env_parent env) ws ws')"
  shows "returns (or_move_column_to_output env f out l) (\<lambda>(l', _). la_rearranges (env_parent env) l l')"
  unfolding or_move_column_to_output_def returns_bind
proof (rule returns_mono [OF or_focus_output_rearranges(1) [OF inv f]])
  fix r assume run: "on_active_workspace_b f l = Inr r" and k: "case r of (l', _) \<Rightarrow> la_rearranges (env_parent env) l l'"
  obtain l1 b where r: "r = (l1, b)" by (cases r)
  have l1: "la_rearranges (env_parent env) l l1" using k by (simp add: r)
  have "connected out l1"
  proof (cases "la_monitor_set l")
    case (Normal mons p a)
    then obtain ws where "a < length mons" "la_monitor_set l1 = Normal (mons[a := store_workspace (mo_active_workspace_idx (mons ! a)) ws (mons ! a)]) p a"
      using run by (auto simp: r on_active_workspace_b_def vec_index_def split: if_splits)
    then show ?thesis using out by (simp add: connected_handles Normal handles_update store_workspace_def)
  qed (use run out in \<open>simp add: r on_active_workspace_b_def\<close>)
  from returns_mono [OF move_column_to_output_rearranges [OF rearranges_inv [OF l1] this] la_rearranges_trans [OF l1]]
  show "returns (case r of (l, moved) \<Rightarrow> if moved then Inr (l, False)
       else bind_res (move_column_to_output env out None True l) (\<lambda>l. Inr (l, True))) (\<lambda>(l', _). la_rearranges (env_parent env) l l')"
    using l1 by (auto simp: r)
qed

subsection \<open>Workspaces\<close>

lemma remove_workspace_by_idx_id:
  assumes inv: "monitor_inv parent m" and idx: "idx < length (mo_workspaces m)" and run: "remove_workspace_by_idx idx m = Inr (ws, m')"
  shows "ws_id ws \<notin> ws_id ` set (mo_workspaces m')"
proof -
  obtain j m1 tops bots where e: "add_edges idx m = Inr (j, m1)" "extended parent tops bots m m1" "j = length tops + idx"
    using add_edges_ok [OF monitor_invD(4,7,5) [OF inv], of idx] by (auto simp: returns_def)
  have inv1: "workspaces_inv parent m1" and j: "j < length (mo_workspaces m1)" using e idx by (auto simp: extended_def)
  let ?rest = "take j (mo_workspaces m1) @ drop (Suc j) (mo_workspaces m1)" and ?ws = "mo_workspaces m1 ! j"
  have "mints (m1\<lparr>mo_workspaces := ?rest\<rparr>) m'" "ws_id ws = ws_id ?ws"
    using run j by (auto simp: remove_workspace_by_idx_def e(1) vec_simps Let_def dest!: clean_up_mints(1))
  moreover have "ws_id ?ws < mo_next_id m1" using inv1 j by (auto simp: workspaces_inv_def list_all_length)
  moreover have "ws_id ?ws \<notin> ws_id ` set ?rest"
  proof -
    have "distinct (map ws_id (take j (mo_workspaces m1) @ ?ws # drop (Suc j) (mo_workspaces m1)))"
      using inv1 id_take_nth_drop [OF j] by (simp add: workspaces_inv_def)
    then show ?thesis by auto
  qed
  ultimately show ?thesis by (auto simp: mints_def)
qed

lemma set_original_output_keeps: "workspace_inv parent ws \<Longrightarrow> ws_keeps parent ws (ws\<lparr>ws_original_output := x\<rparr>)"
  by (simp add: ws_keeps_def workspace_inv_iff ws_windows_def ws_same_id_def floating_get_def)

lemma core_monitor_at:
  assumes "layout_core parent l" "tidy_but {} l" "la_monitor_set l = Normal mons p a" "i < length mons"
  shows "monitor_inv parent (with_counter (la_next_id l) (mons ! i))"
  using assms layout_core_normalD(4,5) [OF assms(1,3)] by (simp add: monitor_inv_iff with_counter_semi tidy_but_def)

text \<open>Receiving a workspace that no monitor has.\<close>

lemma receive_workspace:
  assumes core: "layout_core parent l" and tidy: "tidy_but {} l" and set: "la_monitor_set l = Normal mons p a" and i: "i < length mons"
    and ws: "workspace_inv parent ws" "ws_id ws < la_next_id l" "ws_id ws \<notin> ws_id ` set (la_workspaces l)"
    and win: "mset_distinct (la_windows l + ws_windows ws)" and k: "k \<le> length (mo_workspaces (mons ! i))"
    and m: "m = with_counter (la_next_id l) (mons ! i)"
    and f: "f m = insert_workspace env ws k act m"
  shows "returns (on_monitor i f l) (\<lambda>l'. core_step parent {#} (ws_windows ws) l l' \<and> tidy_but {} l' \<and>
    (\<exists>mons'. la_monitor_set l' = Normal mons' p a \<and> length mons' = length mons))"
proof -
  have inv: "monitor_inv parent m" unfolding m by (rule core_monitor_at [OF core tidy set i])
  have "mset_distinct (mo_windows m + ws_windows ws)"
    by (rule mset_distinct_mono [OF win]) (simp add: m la_windows_def placed_split [OF set i] ac_simps)
  moreover have "ws_id ws \<notin> ws_id ` set (mo_workspaces m)" using ws(3) i by (force simp: m set)
  ultimately have "foreign parent [ws] m" using ws by (simp add: foreign_def m)
  from insert_workspace_ok [OF inv this, of k env act] k obtain m' where run: "insert_workspace env ws k act m = Inr m'"
    and m': "monitor_inv parent m'" "mo_windows m' = mo_windows m + ws_windows ws" by (auto simp: returns_def m)
  have on: "on_monitor i f l = Inr (stored i m' l)" "core_step parent {#} (ws_windows ws) l (stored i m' l)"
    by (rule core_on_monitor [where f = f and R = "{#}" and A = "ws_windows ws" and wss = "[ws]", OF core set i m];
        use f run m' win ws(3) insert_workspace_mints [OF run] in \<open>simp add: monitor_inv_iff\<close>)+
  have "tidy_but {} (stored i m' l)"
    by (rule tidy_but_store [where i = i and m' = m', OF tidy set]) (simp_all add: stored_def set monitor_invD(3) [OF m'(1)])
  then show ?thesis using on by (simp add: stored_def set)
qed

lemma move_workspace_to_output_rearranges:
  assumes inv: "layout_inv (env_parent env) l" and out: "connected new_output l" "\<And>out. old_output = Some out \<Longrightarrow> connected out l"
  shows "returns (move_workspace_to_output_by_id env old_idx old_output new_output l) (\<lambda>(l', _). la_rearranges (env_parent env) l l')"
proof (cases "la_monitor_set l")
  case (Normal mons p a)
  let ?p = "env_parent env"
  note here = la_rearranges_refl [OF inv]
  obtain ti where ti: "position (is_output new_output) mons = Some ti" "ti < length mons" by (rule connected_position [OF out(1) Normal])
  obtain ci where ci: "(case old_output of Some out \<Rightarrow> unwrap (position (is_output out) mons) | None \<Rightarrow> Inr a) = Inr ci" "ci < length mons"
    using layout_inv_normalD(2) [OF inv Normal] connected_position [OF out(2) Normal] by (cases old_output) auto
  let ?c = "with_counter (la_next_id l) (mons ! ci)"
  have c: "monitor_inv ?p ?c" by (rule monitor_at [OF inv Normal ci(2)])
  have same: "returns (on_monitor ci (on_workspace old_idx (\<lambda>ws. Inr (ws\<lparr>ws_original_output := x\<rparr>))) l) (la_rearranges ?p l)"
    if "old_idx < length (mo_workspaces (mons ! ci))" for x
  proof -
    have loc: "valid_loc (ci, old_idx) l" using that ci(2) by (simp add: valid_loc_def Normal)
    have "returns (modify_at (ci, old_idx) (\<lambda>ws. Inr (ws\<lparr>ws_original_output := x\<rparr>)) l) (la_rearranges ?p l)"
      using set_original_output_keeps [OF workspace_inv_of [OF inv loc]] by (intro modify_at_rearranges [OF inv loc]) simp
    then show ?thesis by (simp add: modify_at_def Normal)
  qed
  have other: "returns (bind_res (remove_workspace_by_idx old_idx ?c) (\<lambda>(ws, current).
       bind_res (on_monitor ti (\<lambda>target. insert_workspace env (ws\<lparr>ws_original_output := x\<rparr>) (mo_active_workspace_idx target + 1) act target)
         (l\<lparr>la_monitor_set := Normal (mons[ci := current]) p a, la_next_id := mo_next_id current\<rparr>)) (\<lambda>l.
         Inr (if act then set_active_monitor ti l else l, act)))) (\<lambda>(l', _). la_rearranges ?p l l')"
    if old: "old_idx < length (mo_workspaces (mons ! ci))" for act x
  proof -
    from remove_workspace_by_idx_ok [OF c, of old_idx] old obtain ws m' where run: "remove_workspace_by_idx old_idx ?c = Inr (ws, m')"
      and m': "monitor_inv ?p m'" "ws_keeps ?p (mo_workspaces (mons ! ci) ! old_idx) ws" "mo_windows ?c = ws_windows ws + mo_windows m'"
      by (auto simp: returns_def)
    define l1 where "l1 = stored ci m' l"
    have set1: "la_monitor_set l1 = Normal (mons[ci := m']) p a" by (simp add: l1_def stored_def Normal)
    have core: "layout_core ?p l" "tidy_but {} l" using inv by (simp_all add: layout_inv_core)
    note mints = remove_workspace_by_idx_mints [OF run]
    have s1: "core_step ?p (ws_windows ws) {#} l l1" unfolding l1_def
      by (rule core_on_monitor(2) [where f = "\<lambda>_. Inr m'" and wss = "[]", OF core(1) Normal ci(2) refl refl])
        (use m' mints layout_invD(5) [OF inv] in \<open>simp_all add: monitor_inv_iff ac_simps\<close>)
    have t1: "tidy_but {} l1"
      by (rule tidy_but_store [where i = ci and m' = m', OF core(2) Normal set1]) (simp_all add: monitor_invD(3) [OF m'(1)])
    have core1: "layout_core ?p l1" using s1 by (simp add: core_step_def)
    have wsid: "ws_id ws = ws_id (mo_workspaces (mons ! ci) ! old_idx)" using m'(2) by (simp add: ws_keeps_def ws_same_id_def)
    have fresh: "ws_id ws \<notin> ws_id ` set (la_workspaces l1)"
    proof -
      have "set (la_workspaces l1) = set (others ci mons) \<union> set (mo_workspaces m')"
        using mset_eq_setD [OF others_update [OF ci(2), of m']] by (simp add: set1)
      moreover have "ws_id ws \<notin> ws_id ` set (others ci mons)"
        using core_pool_split [OF core(1) Normal ci(2)] nth_mem [OF old] unfolding pool_ok_append wsid by blast
      ultimately show ?thesis using remove_workspace_by_idx_id [OF c _ run] old by auto
    qed
    have id_lt: "ws_id ws < la_next_id l1"
    proof -
      have "ws_id ws < la_next_id l" using monitor_invD(4) [OF c] old by (auto simp: wsid workspaces_inv_def list_all_length)
      moreover have "la_next_id l \<le> la_next_id l1" using mints by (simp add: l1_def stored_def Normal mints_def)
      ultimately show ?thesis by simp
    qed
    let ?ws = "ws\<lparr>ws_original_output := x\<rparr>"
    have K: "ws_keeps ?p ws ?ws" using m'(2) by (intro set_original_output_keeps) (simp add: ws_keeps_def)
    have W: "workspace_inv ?p ?ws" "ws_id ?ws = ws_id ws" "ws_windows ?ws = ws_windows ws"
      using K by (simp_all add: ws_keeps_def ws_same_id_def)
    let ?t = "with_counter (la_next_id l1) (mons[ci := m'] ! ti)"
    have ti1: "ti < length (mons[ci := m'])" using ti by simp
    have k: "mo_active_workspace_idx ?t + 1 \<le> length (mo_workspaces ?t)"
      using monitor_invD(5) [OF core_monitor_at [OF core1 t1 set1 ti1]] by simp
    have "returns (on_monitor ti (\<lambda>target. insert_workspace env ?ws (mo_active_workspace_idx target + 1) act target) l1)
      (\<lambda>l2. core_step ?p {#} (ws_windows ?ws) l1 l2 \<and> tidy_but {} l2 \<and> (\<exists>mons'. la_monitor_set l2 = Normal mons' p a \<and> length mons' = length (mons[ci := m'])))"
      by (rule receive_workspace [where k = "mo_active_workspace_idx ?t + 1" and act = act and env = env, OF core1 t1 set1 ti1 W(1) _ _ _ _ refl])
        (use fresh id_lt taken_distinct [OF inv s1] k in \<open>simp_all only: W(2,3) with_counter_simps not_False_eq_True\<close>)
    then have "returns (on_monitor ti (\<lambda>target. insert_workspace env ?ws (mo_active_workspace_idx target + 1) act target) l1)
      (\<lambda>l2. la_rearranges ?p l (if act then set_active_monitor ti l2 else l2))"
    proof (rule returns_mono, elim conjE exE)
      fix l2 mons' assume s2: "core_step ?p {#} (ws_windows ?ws) l1 l2" and t2: "tidy_but {} l2"
        and l2: "la_monitor_set l2 = Normal mons' p a" "length mons' = length (mons[ci := m'])"
      have "la_rearranges ?p l l2"
        by (rule core_rearranges [OF inv core_trans [OF s1] t2]) (use s2 in \<open>simp only: W(3)\<close>)
      then show "la_rearranges ?p l (if act then set_active_monitor ti l2 else l2)"
        using set_active_monitor_rearranges [OF rearranges_inv, of ?p l l2 ti] la_rearranges_trans l2 ti by fastforce
    qed
    then show ?thesis using run by (simp add: returns_bind l1_def stored_def Normal)
  qed
  show ?thesis using here same other ci ti
    by (auto simp: move_workspace_to_output_by_id_def Normal vec_simps Let_def not_le elim!: returns_mono)
qed (simp add: move_workspace_to_output_by_id_def la_rearranges_refl [OF inv])

end
