(* ===== verification/Layout_Outputs.thy ===== *)
theory Layout_Outputs
  imports Layout_Between
begin

text \<open>Connecting and disconnecting outputs.\<close>

subsection \<open>Disconnecting\<close>

lemma core_last_active [simp]:
  "layout_core parent (l\<lparr>la_last_active_workspace_id := x\<rparr>) = layout_core parent l"
  "tidy_but I (l\<lparr>la_last_active_workspace_id := x\<rparr>) = tidy_but I l"
  by (simp_all add: layout_core_def tidy_but_def)

lemma others_eq: "concat (map mo_workspaces (take i mons @ drop (Suc i) mons)) = others i mons"
  by (simp add: others_def)

lemma drop_monitor:
  assumes core: "layout_core parent l" and tidy: "tidy_but {} l" and set: "la_monitor_set l = Normal mons p a" and i: "i < length mons"
    and l': "la_monitor_set l' = Normal (take i mons @ drop (Suc i) mons) p' a'" "la_next_id l' = la_next_id l"
      "la_interactive_move l' = la_interactive_move l"
    and p': "p' < length mons - 1" "a' < length mons - 1"
  shows "core_step parent (mo_windows (mons ! i)) {#} l l'" "tidy_but {} l'"
proof -
  let ?mons = "take i mons @ drop (Suc i) mons"
  have sub: "set ?mons \<subseteq> set mons" by (metis set_take_drop)
  have moving: "moving_windows l' = moving_windows l" by (rule moving_cong [OF l'(3)])
  have "pool_ok parent (la_next_id l) (moving_windows l) (others i mons)"
    using core_pool_split [OF core set i] mset_distinct_mono [of "moving_windows l + (wss_windows (others i mons) + mo_windows (mons ! i))"
        "moving_windows l + wss_windows (others i mons)"]
    by (auto simp: pool_ok_def)
  moreover have "distinct (map (\<lambda>m. out_handle (mo_output m)) ?mons)"
  proof -
    have "distinct (map (\<lambda>m. out_handle (mo_output m)) (take i mons @ mons ! i # drop (Suc i) mons))"
      using layout_core_normalD(3) [OF core set] unfolding id_take_nth_drop [OF i, symmetric] .
    then show ?thesis by auto
  qed
  ultimately have "layout_core parent l'"
    using layout_core_normalD(4,5) [OF core set] sub p' i layout_coreD(1) [OF core]
    by (auto simp: layout_core_def core_set_def l' moving others_eq [unfolded map_append concat_append] list_all_iff)
  moreover have "placed_windows l' + mo_windows (mons ! i) = placed_windows l"
    using placed_split [OF set i] by (simp add: placed_windows_def [of l'] l' others_def)
  ultimately show "core_step parent (mo_windows (mons ! i)) {#} l l'" by (simp add: core_step_def l')
  have "tidy_inv m" if "m \<in> set mons" for m using tidy that by (auto simp: tidy_but_def set in_set_conv_nth)
  with sub have "\<forall>m \<in> set ?mons. tidy_inv m" by blast
  then show "tidy_but {} l'" unfolding tidy_but_def l' monitor_set.case using nth_mem by blast
qed

lemma give_workspaces:
  assumes core: "layout_core parent l" and tidy: "tidy_but {} l" and set: "la_monitor_set l = Normal mons p a" and i: "i < length mons"
    and wss: "pool_ok parent (la_next_id l) {#} wss" "ws_id ` set wss \<inter> ws_id ` set (la_workspaces l) = {}"
    and win: "mset_distinct (la_windows l + wss_windows wss)"
  shows "returns (on_monitor i (append_workspaces wss) l) (\<lambda>l'. core_step parent {#} (wss_windows wss) l l' \<and> tidy_but {} l')"
proof -
  let ?m = "with_counter (la_next_id l) (mons ! i)"
  have inv: "monitor_inv parent ?m" by (rule core_monitor_at [OF core tidy set i])
  have "mset_distinct (mo_windows ?m + wss_windows wss)"
    by (rule mset_distinct_mono [OF win]) (simp add: la_windows_def placed_split [OF set i] ac_simps)
  moreover have "ws_id ` set wss \<inter> ws_id ` set (mo_workspaces ?m) = {}"
    using wss(2) mset_eq_setD [OF others_split [OF i]] by (auto simp: set)
  ultimately have "foreign parent wss ?m" using wss(1) by (simp add: foreign_def pool_ok_def)
  from append_workspaces_ok [OF inv this] obtain m' where run: "append_workspaces wss ?m = Inr m'"
    and m': "monitor_inv parent m'" "mo_windows m' = mo_windows ?m + wss_windows wss" by (auto simp: returns_def)
  have on: "on_monitor i (append_workspaces wss) l = Inr (stored i m' l)" "core_step parent {#} (wss_windows wss) l (stored i m' l)"
    by (rule core_on_monitor [where f = "append_workspaces wss" and R = "{#}" and A = "wss_windows wss" and wss = wss, OF core set i refl run];
        use m' win wss(2) append_workspaces_mints [OF run] in \<open>simp add: monitor_inv_iff\<close>)+
  have "tidy_but {} (stored i m' l)"
    by (rule tidy_but_store [where i = i and m' = m', OF tidy set]) (simp_all add: stored_def set monitor_invD(3) [OF m'(1)])
  then show ?thesis using on by simp
qed

lemma no_outputs_core:
  assumes "parents_acyclic parent" "pool_ok parent (la_next_id l) (moving_windows l) wss" "list_all used wss"
    "la_monitor_set l = NoOutputs wss"
  shows "layout_core parent l" "tidy_but I l"
  using assms by (simp_all add: layout_core_def core_set_def tidy_but_def)

definition disconnected :: "loutput \<Rightarrow> 'w layout \<Rightarrow> bool" where
  "disconnected out l \<longleftrightarrow> (case la_monitor_set l of Normal mons p a \<Rightarrow> \<not> list_ex (is_output out) mons | NoOutputs wss \<Rightarrow> True)"

lemma remove_output_rearranges:
  assumes inv: "layout_inv parent l" and out: "\<not> disconnected out l"
  shows "returns (remove_output out l) (la_rearranges parent l)"
proof -
  obtain mons p a where set: "la_monitor_set l = Normal mons p a" and "connected out l"
    using out by (cases "la_monitor_set l") (auto simp: disconnected_def connected_def)
  then obtain i where i: "position (is_output out) mons = Some i" "i < length mons" using connected_position by blast
  let ?m = "mons ! i" and ?mons = "take i mons @ drop (Suc i) mons" and ?wss = "mo_into_workspaces (mons ! i)"
  have m: "monitor_inv parent ?m" "mo_next_id ?m \<le> la_next_id l" using layout_inv_normalD(4,5) [OF inv set] i by simp_all
  have core: "layout_core parent l" "tidy_but {} l" using inv by (simp_all add: layout_inv_core)
  note own = mo_into_workspaces_ok [OF monitor_invD(4) [OF m(1)]]
  have pool: "pool_ok parent (la_next_id l) {#} ?wss" "list_all used ?wss"
    using own(1) m(2) by (fastforce simp: own_workspaces_def pool_ok_def list_all_iff)+
  have active: "mo_active_workspace ?m = Inr (mo_workspaces ?m ! mo_active_workspace_idx ?m)" by (rule mo_active_eq [OF m(1)])
  define l1 where "l1 = l\<lparr>la_last_active_workspace_id :=
    (la_last_active_workspace_id l)(on_connector (out_name (mo_output ?m)) \<mapsto> ws_id (mo_workspaces ?m ! mo_active_workspace_idx ?m))\<rparr>"
  show ?thesis
  proof (cases "?mons = []")
    case True
    define wss where "wss = map (ws_update_config (lo_default_column_display (la_options l1))) ?wss"
    have one: "mons = [?m]" using True i(2) by (cases mons) auto
    have W: "placed_windows l = mo_windows ?m" unfolding placed_windows_def la_workspaces_simps(1) [OF set] by (subst one) simp
    note K = map_keeps [where f = "ws_update_config (lo_default_column_display (la_options l1))", OF ws_update_config_keeps, of parent ?wss, folded wss_def]
    have K: "map ws_id wss = map ws_id ?wss" "wss_windows wss = mo_windows ?m" "list_all (workspace_inv parent) wss" "map used wss = map used ?wss"
      using K pool(1) own(2) by (simp_all add: pool_ok_def)
    let ?l = "l1\<lparr>la_monitor_set := NoOutputs wss\<rparr>"
    have lt: "list_all (\<lambda>ws. ws_id ws < la_next_id l) xs \<longleftrightarrow> list_all (\<lambda>i. i < la_next_id l) (map ws_id xs)" for xs :: "'a lworkspace list"
      by (simp add: list_all_iff)
    have "pool_ok parent (la_next_id ?l) (moving_windows ?l) wss"
      using pool(1) layout_invD(5) [OF inv] K unfolding pool_ok_def lt by (simp add: l1_def lt la_windows_def W)
    from no_outputs_core [OF layout_invD(1) [OF inv] this] have "layout_core parent ?l" "tidy_but {} ?l"
      using pool(2) K(4) by (simp_all add: list_all_map_used)
    moreover have "placed_windows ?l = placed_windows l" by (simp add: W placed_windows_def [of ?l] K(2))
    ultimately have "la_rearranges parent l ?l" by (intro core_rearranges [OF inv]) (simp_all add: core_step_def l1_def)
    then show ?thesis using True i active
      by (simp add: remove_output_def set vec_simps Let_def l1_def wss_def del: append_is_Nil_conv)
  next
    case False
    define p' a' where "p' = (if p \<ge> i then p - 1 else p)" and "a' = (if a \<ge> i then a - 1 else a)"
    have "length mons \<noteq> 1" using False i(2) by (cases mons) auto
    then have lt: "p' < length mons - 1" "a' < length mons - 1"
      using layout_inv_normalD(1,2) [OF inv set] i(2) by (auto simp: p'_def a'_def)
    define l2 where "l2 = l1\<lparr>la_monitor_set := Normal ?mons p' a'\<rparr>"
    have l2: "la_monitor_set l2 = Normal ?mons p' a'" "la_next_id l2 = la_next_id l" "la_interactive_move l2 = la_interactive_move l"
      by (simp_all add: l2_def l1_def)
    note D = drop_monitor [OF core set i(2) l2 lt]
    have core2: "layout_core parent l2" using D(1) by (simp add: core_step_def)
    have ids: "ws_id ` set ?wss \<subseteq> ws_id ` set (mo_workspaces ?m)"
      using own(3) by (metis (no_types, lifting) filter_is_subset image_mono list.set_map)
    have "ws_id ` set ?wss \<inter> ws_id ` set (la_workspaces l2) = {}"
      using core_pool_split [OF core(1) set i(2)] ids by (simp add: pool_ok_append l2 others_eq [unfolded map_append concat_append]) blast
    moreover have "mset_distinct (la_windows l2 + wss_windows ?wss)" using taken_distinct [OF inv D(1)] own(2) by simp
    moreover have "p' < length ?mons" using lt(1) i(2) by simp
    ultimately have "returns (on_monitor p' (append_workspaces ?wss) l2) (\<lambda>l'. core_step parent {#} (wss_windows ?wss) l2 l' \<and> tidy_but {} l')"
      using pool(1) by (intro give_workspaces [OF core2 D(2) l2(1)]) (simp_all add: l2(2))
    then have "returns (on_monitor p' (append_workspaces ?wss) l2) (la_rearranges parent l)"
      by (rule returns_mono) (use own(2) in \<open>auto intro!: core_rearranges [OF inv] core_trans [OF D(1)]\<close>)
    then show ?thesis using False i active
      by (simp add: remove_output_def set vec_simps Let_def l2_def l1_def p'_def a'_def del: append_is_Nil_conv)
  qed
qed

subsection \<open>Connecting\<close>

definition belongs_to :: "loutput \<Rightarrow> 'w lworkspace \<Rightarrow> bool" where
  "belongs_to out ws \<longleftrightarrow> matches (out_name out) (ws_original_output ws)"

text \<open>The edge workspaces of a monitor, those it always has, do not belong to the new output.\<close>

definition edges_stay :: "loutput \<Rightarrow> 'w monitor \<Rightarrow> bool" where
  "edges_stay out m \<longleftrightarrow> \<not> belongs_to out (last (mo_workspaces m)) \<and> (above_first m \<longrightarrow> \<not> belongs_to out (hd (mo_workspaces m)))"

lemma remove_keeps_active:
  fixes xs :: "'a list"
  assumes k: "k < length xs - 1" and a: "a < length xs" and hd: "b \<longrightarrow> k \<noteq> 0"
  defines "a' \<equiv> if k \<le> a \<and> \<not> (b \<and> a = 1) then a - 1 else a" and "rest \<equiv> take k xs @ drop (Suc k) xs"
  shows "a' < length rest" "rest ! a' = xs ! a \<or> k = a" "last rest = last xs" "k \<noteq> 0 \<Longrightarrow> hd rest = hd xs" "rest \<noteq> []"
proof -
  have len: "length rest = length xs - 1" using k by (simp add: rest_def)
  show "rest \<noteq> []" using len k by auto
  show "a' < length rest" using k a hd unfolding len by (cases b; cases "k = 0") (auto simp: a'_def)
  show "rest ! a' = xs ! a \<or> k = a"
  proof (cases "k < a")
    case True
    then have "a' = a - 1" using hd by (auto simp: a'_def)
    then show ?thesis using True a k by (cases a) (auto simp: rest_def nth_append min_def)
  qed (use k in \<open>auto simp: a'_def rest_def nth_append\<close>)
  show "last rest = last xs" using k by (simp add: rest_def)
  show "k \<noteq> 0 \<Longrightarrow> hd rest = hd xs" using k by (cases xs; cases k) (simp_all add: rest_def)
qed

lemma take_matching_ok:
  assumes "k \<le> length (mo_workspaces m)" "mo_workspaces m \<noteq> []" "edges_stay out m" "mo_active_workspace_idx m < length (mo_workspaces m)"
  shows "\<exists>a s st. take_matching out (rev [0..<k]) m stopped acc = Inr (m\<lparr>mo_workspaces :=
        filter (\<lambda>ws. \<not> belongs_to out ws) (take k (mo_workspaces m)) @ drop k (mo_workspaces m),
        mo_active_workspace_idx := a, mo_workspace_switch := s\<rparr>, st,
        acc @ rev (filter (\<lambda>ws. belongs_to out ws \<and> used ws) (take k (mo_workspaces m)))) \<and>
      a < length (filter (\<lambda>ws. \<not> belongs_to out ws) (take k (mo_workspaces m)) @ drop k (mo_workspaces m)) \<and>
      ((filter (\<lambda>ws. \<not> belongs_to out ws) (take k (mo_workspaces m)) @ drop k (mo_workspaces m)) ! a =
          mo_workspaces m ! mo_active_workspace_idx m \<or> belongs_to out (mo_workspaces m ! mo_active_workspace_idx m)) \<and>
      (if list_ex (belongs_to out) (take k (mo_workspaces m)) then s = None \<and> st = (stopped \<or> mo_workspace_switch m \<noteq> None)
       else s = mo_workspace_switch m \<and> st = stopped \<and> a = mo_active_workspace_idx m)"
  using assms
proof (induction k arbitrary: m stopped acc)
  case 0
  then show ?case by (auto intro!: exI [of _ "mo_active_workspace_idx m"] exI [of _ "mo_workspace_switch m"] exI [of _ stopped])
next
  case (Suc k)
  let ?wss = "mo_workspaces m" and ?a = "mo_active_workspace_idx m"
  have k: "k < length ?wss" using Suc.prems(1) by simp
  have take: "take (Suc k) ?wss = take k ?wss @ [?wss ! k]" "drop k ?wss = ?wss ! k # drop (Suc k) ?wss"
    using k by (simp_all add: take_Suc_conv_app_nth Cons_nth_drop_Suc)
  show ?case
  proof (cases "belongs_to out (?wss ! k)")
    case False
    from Suc.IH [of m stopped acc] Suc.prems k False show ?thesis
      by (simp add: take belongs_to_def vec_simps)
  next
    case True
    define rest where "rest = take k ?wss @ drop (Suc k) ?wss"
    define a' where "a' = (if k \<le> ?a \<and> \<not> (above_first m \<and> ?a = 1) then ?a - 1 else ?a)"
    define m1 where "m1 = m\<lparr>mo_workspaces := rest, mo_workspace_switch := None, mo_active_workspace_idx := a'\<rparr>"
    have "k \<noteq> length ?wss - 1" using True Suc.prems(2,3) by (auto simp: edges_stay_def last_conv_nth)
    then have kl: "k < length ?wss - 1" using k by simp
    have k0: "above_first m \<longrightarrow> k \<noteq> 0" using True Suc.prems(2,3) by (cases k) (auto simp: edges_stay_def hd_conv_nth)
    note R = remove_keeps_active [OF kl Suc.prems(4) k0, folded a'_def rest_def]
    have m1: "mo_workspaces m1 = rest" "mo_active_workspace_idx m1 = a'" "mo_workspace_switch m1 = None" by (simp_all add: m1_def)
    have edges: "edges_stay out m1" using Suc.prems(3) R(3,4) k0 by (auto simp: edges_stay_def m1_def)
    have tk: "take k rest = take k ?wss" "drop k rest = drop (Suc k) ?wss" using k by (simp_all add: rest_def)
    have "k \<le> length rest" using k by (simp add: rest_def)
    note IH = Suc.IH [of m1 "stopped \<or> mo_workspace_switch m \<noteq> None" "if used (?wss ! k) then acc @ [?wss ! k] else acc", unfolded m1(1,2) tk,
        OF this R(5) edges R(1)]
    then obtain a s st where run: "take_matching out (rev [0..<k]) m1 (stopped \<or> mo_workspace_switch m \<noteq> None) (if used (?wss ! k) then acc @ [?wss ! k] else acc) =
        Inr (m1\<lparr>mo_workspaces := filter (\<lambda>ws. \<not> belongs_to out ws) (take k ?wss) @ drop (Suc k) ?wss, mo_active_workspace_idx := a, mo_workspace_switch := s\<rparr>, st,
          (if used (?wss ! k) then acc @ [?wss ! k] else acc) @ rev (filter (\<lambda>ws. belongs_to out ws \<and> used ws) (take k ?wss)))"
      and a: "a < length (filter (\<lambda>ws. \<not> belongs_to out ws) (take k ?wss) @ drop (Suc k) ?wss)"
      and act: "(filter (\<lambda>ws. \<not> belongs_to out ws) (take k ?wss) @ drop (Suc k) ?wss) ! a = rest ! a' \<or> belongs_to out (rest ! a')"
      and st: "if list_ex (belongs_to out) (take k ?wss) then s = None \<and> st = ((stopped \<or> mo_workspace_switch m \<noteq> None) \<or> mo_workspace_switch m1 \<noteq> None)
        else s = mo_workspace_switch m1 \<and> st = (stopped \<or> mo_workspace_switch m \<noteq> None) \<and> a = a'"
      by blast
    have upd: "m1\<lparr>mo_workspaces := xs, mo_active_workspace_idx := i, mo_workspace_switch := x\<rparr> =
        m\<lparr>mo_workspaces := xs, mo_active_workspace_idx := i, mo_workspace_switch := x\<rparr>" for xs i x by (simp add: m1_def)
    have s: "s = None" "st = (stopped \<or> mo_workspace_switch m \<noteq> None)" using st by (simp_all add: m1(3) split: if_splits)
    have "rest ! a' = ?wss ! ?a \<or> belongs_to out (?wss ! ?a)" using R(2) True by auto
    with act have act': "(filter (\<lambda>ws. \<not> belongs_to out ws) (take k ?wss) @ drop (Suc k) ?wss) ! a = ?wss ! ?a \<or> belongs_to out (?wss ! ?a)" by auto
    have step: "take_matching out (rev [0..<Suc k]) m stopped acc = take_matching out (rev [0..<k]) m1
        (stopped \<or> mo_workspace_switch m \<noteq> None) (if used (?wss ! k) then acc @ [?wss ! k] else acc)"
      using True k by (simp add: vec_simps belongs_to_def Let_def m1_def rest_def a'_def)
    have split: "acc @ rev (filter (\<lambda>ws. belongs_to out ws \<and> used ws) (take (Suc k) ?wss)) =
        (if used (?wss ! k) then acc @ [?wss ! k] else acc) @ rev (filter (\<lambda>ws. belongs_to out ws \<and> used ws) (take k ?wss))"
      "filter (\<lambda>ws. \<not> belongs_to out ws) (take (Suc k) ?wss) = filter (\<lambda>ws. \<not> belongs_to out ws) (take k ?wss)"
      "list_ex (belongs_to out) (take (Suc k) ?wss)" using True by (simp_all add: take(1))
    show ?thesis unfolding step split run upd
      by (intro exI [of _ a] exI [of _ s] exI [of _ st] conjI refl a act') (simp add: s split(3))
  qed
qed

lemma tidy_set:
  assumes d: "distinct wss" and ne: "wss \<noteq> []" and a: "a < length wss"
  shows "tidy b a wss \<longleftrightarrow> (\<forall>ws \<in> set wss. ws \<noteq> last wss \<longrightarrow> (b \<longrightarrow> ws \<noteq> hd wss) \<longrightarrow> ws \<noteq> wss ! a \<longrightarrow> used ws)"
proof -
  have eq: "wss ! i = last wss \<longleftrightarrow> i = length wss - 1" "wss ! i = hd wss \<longleftrightarrow> i = 0" "wss ! i = wss ! a \<longleftrightarrow> i = a" if "i < length wss" for i
    using that d ne a by (simp_all add: last_conv_nth hd_conv_nth nth_eq_iff_index_eq)
  have "tidy b a wss \<longleftrightarrow> (\<forall>i < length wss. i \<noteq> length wss - 1 \<longrightarrow> (b \<longrightarrow> i \<noteq> 0) \<longrightarrow> i \<noteq> a \<longrightarrow> used (wss ! i))"
    unfolding tidy_def by (auto split: if_splits)
  also have "\<dots> \<longleftrightarrow> (\<forall>i < length wss. wss ! i \<noteq> last wss \<longrightarrow> (b \<longrightarrow> wss ! i \<noteq> hd wss) \<longrightarrow> wss ! i \<noteq> wss ! a \<longrightarrow> used (wss ! i))"
    using eq by simp
  also have "\<dots> \<longleftrightarrow> (\<forall>ws \<in> set wss. ws \<noteq> last wss \<longrightarrow> (b \<longrightarrow> ws \<noteq> hd wss) \<longrightarrow> ws \<noteq> wss ! a \<longrightarrow> used ws)"
    unfolding all_set_conv_all_nth ..
  finally show ?thesis .
qed

lemma filter_ends:
  assumes "xs \<noteq> []"
  shows "P (last xs) \<Longrightarrow> last (filter P xs) = last xs \<and> filter P xs \<noteq> []" "P (hd xs) \<Longrightarrow> hd (filter P xs) = hd xs"
proof -
  obtain ys where ys: "xs = ys @ [last xs]" using assms by (metis append_butlast_last_id)
  show "P (last xs) \<Longrightarrow> last (filter P xs) = last xs \<and> filter P xs \<noteq> []" by (subst (1 3) ys) simp
  show "P (hd xs) \<Longrightarrow> hd (filter P xs) = hd xs" using assms by (cases xs) simp_all
qed

lemma wss_windows_partition: "wss_windows wss = wss_windows (filter (\<lambda>ws. \<not> P ws) wss) + wss_windows (filter (\<lambda>ws. P ws \<and> used ws) wss)"
  by (induction wss) (auto simp: used_iff ac_simps)

lemma workspaces_inv_filter:
  assumes inv: "workspaces_inv parent m" and m': "mo_workspaces m' = filter P (mo_workspaces m)" "mo_next_id m' = mo_next_id m"
  shows "workspaces_inv parent m'"
proof -
  have "mset_distinct (wss_windows (filter P (mo_workspaces m)))"
    using inv wss_windows_partition [of "mo_workspaces m" "\<lambda>ws. \<not> P ws"] by (auto simp: workspaces_inv_def dest: mset_distinct_sub)
  then show ?thesis using inv by (auto simp: workspaces_inv_def m' list_all_iff distinct_map_filter)
qed

definition took_back :: "'w parent_of \<Rightarrow> loutput \<Rightarrow> 'w monitor \<Rightarrow> 'w monitor \<Rightarrow> bool" where
  "took_back parent out m m' \<longleftrightarrow> monitor_inv parent m' \<and>
     filter used (mo_workspaces m') = filter used (filter (\<lambda>ws. \<not> belongs_to out ws) (mo_workspaces m)) \<and>
     set (mo_workspaces m') \<subseteq> {ws \<in> set (mo_workspaces m). \<not> belongs_to out ws} \<and>
     mo_next_id m' = mo_next_id m \<and> mo_output m' = mo_output m"

lemma cleaned_took_back:
  assumes "monitor_inv parent m'" "cleaned_up m1 m'" "mo_workspaces m1 = filter (\<lambda>ws. \<not> belongs_to out ws) (mo_workspaces m)"
    "mo_next_id m1 = mo_next_id m" "mo_output m1 = mo_output m"
  shows "took_back parent out m m'"
  using assms subseq_props(1) by (fastforce simp: took_back_def cleaned_up_def)

lemma take_back_ok:
  assumes inv: "monitor_inv parent m" and edges: "edges_stay out m"
  shows "returns (take_back out m) (\<lambda>(m', wss). took_back parent out m m' \<and> wss = filter (\<lambda>ws. belongs_to out ws \<and> used ws) (mo_workspaces m))"
proof -
  let ?wss = "mo_workspaces m" and ?keep = "filter (\<lambda>ws. \<not> belongs_to out ws) (mo_workspaces m)" and ?a = "mo_active_workspace_idx m"
  note ne = monitor_invD(6) [OF inv]
  obtain a s st where run: "take_matching out (rev [0..<length ?wss]) m False [] = Inr (m\<lparr>mo_workspaces := ?keep, mo_active_workspace_idx := a,
        mo_workspace_switch := s\<rparr>, st, rev (filter (\<lambda>ws. belongs_to out ws \<and> used ws) ?wss))"
    and a: "a < length ?keep" and act: "?keep ! a = ?wss ! ?a \<or> belongs_to out (?wss ! ?a)"
    and st: "if list_ex (belongs_to out) ?wss then s = None \<and> st = (mo_workspace_switch m \<noteq> None)
      else s = mo_workspace_switch m \<and> \<not> st \<and> a = ?a"
    using take_matching_ok [OF order_refl ne edges monitor_invD(5) [OF inv], of False "[]"] by auto
  define m1 where "m1 = m\<lparr>mo_workspaces := ?keep, mo_active_workspace_idx := a, mo_workspace_switch := s\<rparr>"
  have m1: "mo_workspaces m1 = ?keep" "mo_next_id m1 = mo_next_id m" "mo_output m1 = mo_output m" "mo_options m1 = mo_options m"
    "mo_active_workspace_idx m1 = a" "mo_workspace_switch m1 = s" by (simp_all add: m1_def)
  have back_eq: "take_back out m = bind_res (if st \<or> above_first m1 \<and> length (mo_workspaces m1) = 2 then clean_up_workspaces m1 else Inr m1) (\<lambda>m'.
      Inr (m', filter (\<lambda>ws. belongs_to out ws \<and> used ws) ?wss))"
    unfolding take_back_def run m1_def by simp
  have same: "took_back parent out m m1" if "monitor_inv parent m1" using that by (auto simp: took_back_def m1)
  show ?thesis
  proof (cases "list_ex (belongs_to out) ?wss")
    case False
    then have "?keep = ?wss" by (simp add: filter_id_conv list_ex_iff)
    then have "m1 = m" using False st by (simp add: m1_def)
    moreover have "\<not> (above_first m \<and> length ?wss = 2)" using inv by (simp add: monitor_inv_def)
    ultimately show ?thesis using False st inv same by (auto simp: back_eq)
  next
    case True
    then have s: "s = None" "st = (mo_workspace_switch m \<noteq> None)" using st by simp_all
    have keep: "last ?keep = last ?wss" "?keep \<noteq> []" "above_first m \<longrightarrow> hd ?keep = hd ?wss"
      using edges filter_ends [OF ne, of "\<lambda>ws. \<not> belongs_to out ws"] by (auto simp: edges_stay_def)
    have untidy: "untidy_inv parent m1"
      using workspaces_inv_filter [OF monitor_invD(4) [OF inv] m1(1,2)] monitor_invD(1,9) [OF inv] keep a s
      by (auto simp: untidy_inv_def m1 edges_ok_def switch_inv_def options_ok_def) (simp_all add: m1_def)
    have clean: "returns (clean_up_workspaces m1) (took_back parent out m)"
      by (rule returns_mono [OF clean_up_workspaces_ok [OF untidy]]) (auto simp: m1 s intro: cleaned_took_back)
    show ?thesis
    proof (cases "st \<or> above_first m1 \<and> length (mo_workspaces m1) = 2")
      case True
      then show ?thesis using clean by (auto simp: back_eq elim!: returns_mono)
    next
      case False
      have d: "distinct ?wss" using monitor_invD(4) [OF inv] by (auto simp: workspaces_inv_def distinct_map)
      have "tidy (above_first m) ?a ?wss" using inv False s by (simp add: monitor_inv_def)
      then have T: "\<forall>ws \<in> set ?wss. ws \<noteq> last ?wss \<longrightarrow> (above_first m \<longrightarrow> ws \<noteq> hd ?wss) \<longrightarrow> ws \<noteq> ?wss ! ?a \<longrightarrow> used ws"
        using tidy_set [OF d ne monitor_invD(5) [OF inv]] by simp
      have "tidy (above_first m) a ?keep" unfolding tidy_set [OF distinct_filter [OF d] keep(2) a] keep(1)
      proof (intro ballI impI)
        fix ws assume ws: "ws \<in> set ?keep" "ws \<noteq> last ?wss" "above_first m \<longrightarrow> ws \<noteq> hd ?keep" "ws \<noteq> ?keep ! a"
        then have "ws \<in> set ?wss" "ws \<noteq> ?wss ! ?a" using act by auto
        moreover have "above_first m \<longrightarrow> ws \<noteq> hd ?wss" using ws(3) keep(3) by auto
        ultimately show "used ws" using T ws(2) by blast
      qed
      then have "monitor_inv parent m1" using untidy False by (auto simp: monitor_inv_def m1)
      then show ?thesis using False same by (auto simp: back_eq)
    qed
  qed
qed

text \<open>The monitor for a new output gets the workspaces, in their order, with empty ones around them.\<close>

definition hosts :: "loutput \<Rightarrow> nat \<Rightarrow> 'w lworkspace list \<Rightarrow> 'w monitor \<Rightarrow> bool" where
  "hosts out n wss m \<longleftrightarrow> mo_output m = out \<and> map ws_id (filter used (mo_workspaces m)) = map ws_id wss \<and>
     mo_windows m = wss_windows wss \<and> n \<le> mo_next_id m \<and> ws_id ` set (mo_workspaces m) \<subseteq> ws_id ` set wss \<union> {n..}"

lemma monitor_inv_overview [simp]: "monitor_inv parent (m\<lparr>mo_overview_open := b\<rparr>) = monitor_inv parent m"
  by (simp add: monitor_inv_def untidy_inv_def workspaces_inv_def options_ok_def switch_inv_def cong: option.case_cong workspace_switch.case_cong)

lemma connect_ok:
  assumes own: "own_workspaces parent (la_next_id l) wss"
  shows "returns (connect out config wss l) (\<lambda>(m, l'). monitor_inv parent m \<and> hosts out (la_next_id l) wss m \<and>
    ws_id (mo_workspaces m ! mo_active_workspace_idx m) = (case position (\<lambda>ws. la_last_active_workspace_id l (on_connector (out_name out)) = Some (ws_id ws)) wss of
        Some i \<Rightarrow> ws_id (wss ! i) | None \<Rightarrow> ws_id (mo_workspaces m ! mo_active_workspace_idx m)) \<and>
    l' = l\<lparr>la_last_active_workspace_id := (la_last_active_workspace_id l)(on_connector (out_name out) := None), la_next_id := mo_next_id m\<rparr>)"
  unfolding connect_def Let_def returns_bind
proof (rule returns_mono [OF mo_new_ok [OF own]], elim conjE exE)
  fix m tops bot
  let ?wid = "la_last_active_workspace_id l (on_connector (out_name out))"
  assume inv: "monitor_inv parent m" and win: "mo_windows m = wss_windows wss" and out: "mo_output m = out" and n: "la_next_id l \<le> mo_next_id m"
    and wss: "mo_workspaces m = tops @ map (prepared out (mo_options m)) wss @ [bot]"
    and e: "\<forall>ws \<in> set (tops @ [bot]). \<not> used ws \<and> la_next_id l \<le> ws_id ws"
    and act: "mo_active_workspace_idx m = length tops + (case position (\<lambda>ws. ?wid = Some (ws_id ws)) wss of Some i \<Rightarrow> i | None \<Rightarrow> 0)"
  have inv_wss: "list_all (workspace_inv parent) wss" "list_all used wss" using own by (simp_all add: own_workspaces_def)
  note K = map_keeps [where f = "prepared out (mo_options m)", OF prepared_keeps inv_wss(1)]
  have ids: "ws_id (prepared out (mo_options m) ws) = ws_id ws" if "ws \<in> set wss" for ws
    using prepared_keeps [of parent ws out "mo_options m"] inv_wss(1) that by (simp add: list_all_iff ws_keeps_def ws_same_id_def)
  have used: "list_all used (map (prepared out (mo_options m)) wss)" using K(4) inv_wss(2) by (simp only: list_all_map_used)
  then have "filter used (mo_workspaces m) = map (prepared out (mo_options m)) wss"
    using e by (auto simp: wss list_all_iff filter_id_conv filter_empty_conv)
  then have "map ws_id (filter used (mo_workspaces m)) = map ws_id wss" using K(1) by simp
  moreover have "ws_id ` set (mo_workspaces m) \<subseteq> ws_id ` set wss \<union> {la_next_id l..}" using e ids by (auto simp: wss)
  ultimately have "hosts out (la_next_id l) wss m" using out win n by (simp add: hosts_def)
  moreover have "ws_id (mo_workspaces m ! mo_active_workspace_idx m) = ws_id (wss ! i)"
    if "position (\<lambda>ws. ?wid = Some (ws_id ws)) wss = Some i" for i
  proof -
    have i: "i < length wss" using position_Some [OF that] by simp
    then have "mo_workspaces m ! mo_active_workspace_idx m = prepared out (mo_options m) (wss ! i)"
      by (simp add: act that wss nth_append)
    then show ?thesis using ids i by simp
  qed
  ultimately show "returns (Inr (m\<lparr>mo_overview_open := la_overview_open l\<rparr>, l\<lparr>la_last_active_workspace_id := (la_last_active_workspace_id l)
      (on_connector (out_name out) := None), la_next_id := mo_next_id m\<rparr>)) (\<lambda>(m, l'). monitor_inv parent m \<and> hosts out (la_next_id l) wss m \<and>
    ws_id (mo_workspaces m ! mo_active_workspace_idx m) = (case position (\<lambda>ws. ?wid = Some (ws_id ws)) wss of
        Some i \<Rightarrow> ws_id (wss ! i) | None \<Rightarrow> ws_id (mo_workspaces m ! mo_active_workspace_idx m)) \<and>
    l' = l\<lparr>la_last_active_workspace_id := (la_last_active_workspace_id l)(on_connector (out_name out) := None), la_next_id := mo_next_id m\<rparr>)"
    using inv by (auto simp: hosts_def split: option.split)
qed

lemma core_append_monitor:
  assumes core: "layout_core parent l" and tidy: "tidy_but {} l" and set: "la_monitor_set l = Normal mons p a"
    and m: "monitor_inv parent m" "hosts out (la_next_id l) wss m" and fresh: "ws_id ` set wss \<inter> ws_id ` set (la_workspaces l) = {}"
    and out: "out_handle out \<notin> (\<lambda>m. out_handle (mo_output m)) ` set mons" and win: "mset_distinct (la_windows l + wss_windows wss)"
    and l': "la_monitor_set l' = Normal (mons @ [m]) p a" "la_next_id l' = mo_next_id m" "la_interactive_move l' = la_interactive_move l"
  shows "core_step parent {#} (wss_windows wss) l l'" "tidy_but {} l'"
proof -
  note H = m(2) [unfolded hosts_def]
  have moving: "moving_windows l' = moving_windows l" by (rule moving_cong [OF l'(3)])
  have pool: "pool_ok parent (la_next_id l) (moving_windows l) (concat (map mo_workspaces mons) @ [])"
    using layout_coreD(2) [OF core] by (simp add: set)
  have new: "pool_ok parent (mo_next_id m) {#} (mo_workspaces m)" using monitor_invD(4) [OF m(1)] by (simp add: pool_ok_workspaces_inv)
  have "pool_ok parent (mo_next_id m) (moving_windows l) (concat (map mo_workspaces mons) @ mo_workspaces m)"
    by (rule pool_ok_replace_extra [where X = "ws_id ` set wss", OF pool new])
      (use H fresh win in \<open>auto simp: set la_windows_def placed_windows_def ac_simps\<close>)
  moreover have "semi_inv parent m'" "mo_next_id m' \<le> mo_next_id m" if "m' \<in> set mons" for m'
    using layout_core_normalD(4,5) [OF core set that] H by auto
  ultimately have "layout_core parent l'"
    using layout_core_normalD(1-3) [OF core set] layout_coreD(1) [OF core] H out monitor_invD(2) [OF m(1)]
    by (auto simp: layout_core_def core_set_def l' moving list_all_iff)
  moreover have "placed_windows l' = placed_windows l + wss_windows wss" using H by (simp add: placed_windows_def l' set)
  ultimately show "core_step parent {#} (wss_windows wss) l l'" by (simp add: core_step_def l')
  show "tidy_but {} l'" using tidy monitor_invD(3) [OF m(1)] by (auto simp: tidy_but_def l' set nth_append)
qed

text \<open>The workspaces a new output claims: all of them, when it is the only output.\<close>

definition claimed :: "loutput \<Rightarrow> 'w layout \<Rightarrow> 'w lworkspace list" where
  "claimed out l = (case la_monitor_set l of
     Normal mons p a \<Rightarrow> filter (\<lambda>ws. belongs_to out ws \<and> used ws) (mo_workspaces (mons ! p)) | NoOutputs wss \<Rightarrow> wss)"

definition can_connect :: "loutput \<Rightarrow> 'w layout \<Rightarrow> bool" where
  "can_connect out l \<longleftrightarrow> disconnected out l \<and>
     (case la_monitor_set l of Normal mons p a \<Rightarrow> edges_stay out (mons ! p) | NoOutputs wss \<Rightarrow> True)"

definition restored :: "loutput \<Rightarrow> 'w layout \<Rightarrow> 'w monitor \<Rightarrow> bool" where
  "restored out l m \<longleftrightarrow> mo_output m = out \<and> map ws_id (filter used (mo_workspaces m)) = map ws_id (claimed out l) \<and>
     mo_windows m = wss_windows (claimed out l) \<and>
     (\<forall>ws \<in> set (claimed out l). la_last_active_workspace_id l (on_connector (out_name out)) = Some (ws_id ws) \<longrightarrow>
        ws_id (mo_workspaces m ! mo_active_workspace_idx m) = ws_id ws)"

lemma restoredI:
  assumes h: "hosts out n (claimed out l) m"
    and act: "ws_id (mo_workspaces m ! mo_active_workspace_idx m) =
      (case position (\<lambda>ws. la_last_active_workspace_id l (on_connector (out_name out)) = Some (ws_id ws)) (claimed out l) of
        Some i \<Rightarrow> ws_id (claimed out l ! i) | None \<Rightarrow> ws_id (mo_workspaces m ! mo_active_workspace_idx m))"
  shows "restored out l m"
proof -
  let ?P = "\<lambda>ws. la_last_active_workspace_id l (on_connector (out_name out)) = Some (ws_id ws)"
  have "ws_id (mo_workspaces m ! mo_active_workspace_idx m) = ws_id ws" if ws: "ws \<in> set (claimed out l)" "?P ws" for ws
  proof -
    have "position ?P (claimed out l) \<noteq> None" using ws by (auto simp: position_None)
    then obtain i where i: "position ?P (claimed out l) = Some i" by blast
    then show ?thesis using act position_Some [OF i] ws(2) by simp
  qed
  then show ?thesis using h by (simp add: restored_def hosts_def)
qed

lemma claimed_own:
  assumes inv: "layout_inv parent l"
  shows "own_workspaces parent (la_next_id l) (claimed out l)"
proof (cases "la_monitor_set l")
  case (Normal mons p a)
  let ?m = "mons ! p" and ?P = "\<lambda>ws. belongs_to out ws \<and> used ws"
  have m: "monitor_inv parent ?m" "mo_next_id ?m \<le> la_next_id l"
    using layout_inv_normalD(1,4,5) [OF inv Normal] by simp_all
  have "workspaces_inv parent (?m\<lparr>mo_workspaces := filter ?P (mo_workspaces ?m)\<rparr>)"
    by (rule workspaces_inv_filter [OF monitor_invD(4) [OF m(1)]]) simp_all
  then show ?thesis using m(2) by (fastforce simp: claimed_def Normal own_workspaces_def workspaces_inv_def list_all_iff)
next
  case (NoOutputs wss)
  have "mset_distinct (wss_windows wss)" using layout_invD(5) [OF inv] by (auto simp: la_windows_def placed_windows_def NoOutputs dest: mset_distinct_sub)
  then show ?thesis using inv by (simp add: claimed_def NoOutputs own_workspaces_def layout_inv_def pool_ok_def monitor_set_ok_def)
qed

lemma add_output_ok:
  assumes inv: "layout_inv parent l" and can: "can_connect out l"
  shows "returns (add_output out config l) (\<lambda>l'. la_rearranges parent l l' \<and>
    (\<exists>mons p a m. la_monitor_set l' = Normal (mons @ [m]) p a \<and> restored out l m))"
proof (cases "la_monitor_set l")
  case (NoOutputs wss)
  have c: "claimed out l = wss" by (simp add: claimed_def NoOutputs)
  let ?P = "\<lambda>ws. la_last_active_workspace_id l (on_connector (out_name out)) = Some (ws_id ws)"
  obtain m where run: "connect out config wss l = Inr (m, l\<lparr>la_last_active_workspace_id := (la_last_active_workspace_id l)(on_connector (out_name out) := None), la_next_id := mo_next_id m\<rparr>)"
    and m: "monitor_inv parent m" and h: "hosts out (la_next_id l) wss m"
    and act: "ws_id (mo_workspaces m ! mo_active_workspace_idx m) = (case position ?P wss of
        Some i \<Rightarrow> ws_id (wss ! i) | None \<Rightarrow> ws_id (mo_workspaces m ! mo_active_workspace_idx m))"
    using connect_ok [OF claimed_own [OF inv, of out], of out config] unfolding c returns_def by blast
  let ?l = "l\<lparr>la_last_active_workspace_id := (la_last_active_workspace_id l)(on_connector (out_name out) := None),
      la_next_id := mo_next_id m, la_monitor_set := Normal [m] 0 0\<rparr>"
    have win: "mo_windows m = wss_windows wss" using h by (simp add: hosts_def)
    have "pool_ok parent (mo_next_id m) (moving_windows l) (mo_workspaces m)"
      using monitor_invD(4) [OF m] layout_invD(5) [OF inv] win
      by (simp add: pool_ok_workspaces_inv pool_ok_def la_windows_def placed_windows_def NoOutputs)
    then have "layout_core parent ?l" using layout_invD(1) [OF inv] monitor_invD(2) [OF m] by (simp add: layout_core_def core_set_def)
    moreover have "placed_windows ?l = placed_windows l" using win by (simp add: placed_windows_def NoOutputs)
    ultimately have "la_rearranges parent l ?l"
      using monitor_invD(3) [OF m] by (intro core_rearranges [OF inv]) (simp_all add: core_step_def tidy_but_def)
    moreover have "restored out l m" by (rule restoredI [of out "la_next_id l" l m, unfolded c, OF h act])
    ultimately show ?thesis by (simp add: add_output_def NoOutputs run)
next
  case (Normal mons p a)
  have p: "p < length mons" using layout_inv_normalD(1) [OF inv Normal] .
  let ?m = "mons ! p"
  have m: "monitor_inv parent ?m" "mo_next_id ?m \<le> la_next_id l" using layout_inv_normalD(4,5) [OF inv Normal] p by simp_all
  have edges: "edges_stay out ?m" and out: "disconnected out l" using can by (simp_all add: can_connect_def Normal)
  let ?wss = "claimed out l"
  obtain m' where run: "take_back out ?m = Inr (m', ?wss)" and t: "took_back parent out ?m m'"
    using take_back_ok [OF m(1) edges] by (auto simp: returns_def claimed_def Normal)
  note T = t [unfolded took_back_def]
  have core: "layout_core parent l" "tidy_but {} l" using inv by (simp_all add: layout_inv_core)
  have win: "mo_windows ?m = mo_windows m' + wss_windows ?wss"
    using wss_windows_partition [of "mo_workspaces ?m" "belongs_to out"] wss_windows_used [of "mo_workspaces m'"]
      wss_windows_used [of "filter (\<lambda>ws. \<not> belongs_to out ws) (mo_workspaces ?m)"] T by (simp add: claimed_def Normal)
  define l1 where "l1 = l\<lparr>la_monitor_set := Normal (mons[p := m']) p a\<rparr>"
  have set1: "la_monitor_set l1 = Normal (mons[p := m']) p a" by (simp add: l1_def)
  have total: "placed_windows l1 + wss_windows ?wss = placed_windows l"
    unfolding placed_split [OF Normal p] placed_update [OF set1 p] win by (simp add: ac_simps)
  have dist: "mset_distinct (la_windows l1 + wss_windows ?wss)"
    using layout_invD(5) [OF inv] total [symmetric] by (simp add: la_windows_def l1_def ac_simps)
  have "layout_core parent l1"
    by (rule core_store [where X = "{}" and n' = "la_next_id l", OF core(1) Normal p layout_inv_normalD(2) [OF inv Normal] _ _ order_refl _ _ _ _ set1])
      (use T m(2) dist placed_update [OF set1 p] in \<open>auto simp: l1_def monitor_inv_iff la_windows_def dest: mset_distinct_sub\<close>)
  then have s1: "core_step parent (wss_windows ?wss) {#} l l1" using total by (simp add: core_step_def l1_def)
  have t1: "tidy_but {} l1" by (rule tidy_but_store [where i = p and m' = m', OF core(2) Normal set1]) (use T in \<open>simp_all add: monitor_inv_iff\<close>)
  have fresh: "ws_id ` set ?wss \<inter> ws_id ` set (la_workspaces l1) = {}"
  proof -
    have sets: "set (la_workspaces l1) = set (others p mons) \<union> set (mo_workspaces m')"
      using mset_eq_setD [OF others_update [OF p, of m']] by (simp add: set1)
    have others: "ws_id ` set ?wss \<inter> ws_id ` set (others p mons) = {}"
      using core_pool_split [OF core(1) Normal p] by (auto simp: pool_ok_append claimed_def Normal)
    have inj: "inj_on ws_id (set (mo_workspaces ?m))" using monitor_invD(4) [OF m(1)] by (simp add: workspaces_inv_def distinct_map)
    from inj_on_image_Int [OF inj, of "set ?wss" "set (mo_workspaces m')", symmetric]
    have "ws_id ` set ?wss \<inter> ws_id ` set (mo_workspaces m') = ws_id ` (set ?wss \<inter> set (mo_workspaces m'))"
      using T by (auto simp: claimed_def Normal)
    also have "set ?wss \<inter> set (mo_workspaces m') = {}" using T by (auto simp: claimed_def Normal)
    finally have "ws_id ` set ?wss \<inter> ws_id ` set (mo_workspaces m') = {}" by simp
    with others show ?thesis unfolding sets image_Un by blast
  qed
  have handle: "out_handle out \<notin> (\<lambda>m. out_handle (mo_output m)) ` set (mons[p := m'])"
  proof -
    have "map (\<lambda>m. out_handle (mo_output m)) (mons[p := m']) = map (\<lambda>m. out_handle (mo_output m)) mons"
      by (rule handles_update) (use T in simp)
    from arg_cong [OF this, of set] out show ?thesis by (auto simp: disconnected_def Normal list_ex_iff is_output_def)
  qed
  let ?P = "\<lambda>ws. la_last_active_workspace_id l (on_connector (out_name out)) = Some (ws_id ws)"
  obtain m where con: "connect out config ?wss l = Inr (m, l\<lparr>la_last_active_workspace_id := (la_last_active_workspace_id l)(on_connector (out_name out) := None), la_next_id := mo_next_id m\<rparr>)"
    and n: "monitor_inv parent m" "hosts out (la_next_id l) ?wss m"
    and act: "ws_id (mo_workspaces m ! mo_active_workspace_idx m) = (case position ?P ?wss of
        Some i \<Rightarrow> ws_id (?wss ! i) | None \<Rightarrow> ws_id (mo_workspaces m ! mo_active_workspace_idx m))"
    using connect_ok [OF claimed_own [OF inv, of out], of out config] unfolding returns_def by blast
  let ?l = "l\<lparr>la_last_active_workspace_id := (la_last_active_workspace_id l)(on_connector (out_name out) := None),
        la_next_id := mo_next_id m, la_monitor_set := Normal (mons[p := m'] @ [m]) p a\<rparr>"
    have "hosts out (la_next_id l1) ?wss m" using n(2) by (simp add: l1_def)
    note A = core_append_monitor [where l' = ?l, OF _ t1 set1 n(1) this fresh handle dist]
    have "core_step parent {#} (wss_windows ?wss) l1 ?l" "tidy_but {} ?l"
      by (rule A; use s1 in \<open>simp add: core_step_def l1_def\<close>)+
    then have "la_rearranges parent l ?l" by (intro core_rearranges [OF inv core_trans [OF s1]])
    moreover have "restored out l m" by (rule restoredI [OF n(2) act])
    ultimately show ?thesis using p by (simp add: add_output_def Normal vec_simps run con)
qed

end
