(* ===== verification/Layout_Windows.thy ===== *)
theory Layout_Windows
  imports Layout_Outputs
begin

text \<open>Opening and closing windows.\<close>

subsection \<open>Opening\<close>

fun add_target_ok :: "'w add_window_target \<Rightarrow> 'w layout \<Rightarrow> bool" where
  "add_target_ok AddAuto l \<longleftrightarrow> True"
| "add_target_ok (AddOutput out) l \<longleftrightarrow> \<not> disconnected out l"
| "add_target_ok (AddWorkspace wid) l \<longleftrightarrow> wid \<in> ws_id ` set (la_workspaces l)"
| "add_target_ok (AddNextTo w) l \<longleftrightarrow> w \<in># la_windows l"

lemma window_position:
  assumes "w \<in># wss_windows wss"
  obtains i where "position (ws_has_window w) wss = Some i" "i < length wss" "w \<in># ws_windows (wss ! i)"
  using position_ex [of wss "ws_has_window w"] assms that by (auto simp: mem_wss_windows)

lemma window_monitor:
  assumes "la_monitor_set l = Normal mons p a" "w \<in># placed_windows l"
  obtains i where "position (\<lambda>m. list_ex (ws_has_window w) (mo_workspaces m)) mons = Some i" "i < length mons" "w \<in># mo_windows (mons ! i)"
proof -
  let ?P = "\<lambda>m. list_ex (ws_has_window w) (mo_workspaces m)"
  have "\<exists>m \<in> set mons. ?P m" using assms by (auto simp: placed_iff list_ex_iff)
  from position_ex [OF this] that show ?thesis by (auto simp: list_ex_iff mem_wss_windows)
qed

lemma resolve_target_ok:
  assumes inv: "layout_inv parent l" and set: "la_monitor_set l = Normal mons p a" and target: "add_target_ok target l"
  shows "returns (resolve_target target mons a l) (\<lambda>(i, t). i < length mons \<and> mon_target_ok t (with_counter n (mons ! i)))"
proof (cases target)
  case AddAuto
  then show ?thesis using layout_inv_normalD(2) [OF inv set] by (simp add: resolve_target_def)
next
  case (AddOutput out)
  then have "connected out l" using target by (simp add: disconnected_def connected_def set)
  from connected_position [OF this set] AddOutput show ?thesis by (auto simp: resolve_target_def)
next
  case (AddWorkspace wid)
  let ?P = "\<lambda>m. list_ex (\<lambda>ws. ws_id ws = wid) (mo_workspaces m)"
  have "\<exists>m \<in> set mons. ?P m" using target by (auto simp: AddWorkspace set list_ex_iff)
  from position_ex [OF this] AddWorkspace show ?thesis by (auto simp: resolve_target_def list_ex_iff)
next
  case (AddNextTo w)
  show ?thesis
  proof (cases "is_moving w l")
    case True
    then obtain move where mv: "la_interactive_move l = Some (Moving move)" "w = tl_window (im_tile move)"
      by (auto simp: is_moving_def moving_window_def split: option.splits interactive_move.splits)
    then show ?thesis using layout_inv_normalD(2) [OF inv set] position_Some [of "is_output (im_output move)" mons]
      by (auto simp: resolve_target_def AddNextTo split: option.split)
  next
    case False
    have "w \<in># placed_windows l" using not_moving_placed [OF False] target by (simp add: AddNextTo)
    from window_monitor [OF set this] obtain i where
      i: "position (\<lambda>m. list_ex (ws_has_window w) (mo_workspaces m)) mons = Some i" "i < length mons" "w \<in># mo_windows (mons ! i)" .
    then have "resolve_target target mons a l = Inr (i, MonTargetNextTo w)" using False
      by (auto simp: resolve_target_def AddNextTo is_moving_def moving_window_def split: option.split interactive_move.split)
    then show ?thesis using i(2,3) by simp
  qed
qed

lemma la_adds_active:
  assumes "la_adds parent A l l'" "\<And>mons p a. la_monitor_set l' = Normal mons p a \<Longrightarrow> i < length mons"
  shows "la_adds parent A l (set_active_monitor i l')"
  using assms set_active_monitor_rearranges [of parent l' i] by (simp add: la_adds_def la_rearranges_def)

text \<open>While there is no output: a workspace gets a window.\<close>

lemma no_outputs_adds:
  assumes inv: "layout_inv parent l" and set: "la_monitor_set l = NoOutputs wss0"
    and wss: "pool_ok parent n {#} wss" "wss_windows wss = wss_windows wss0" "la_next_id l \<le> n" "\<forall>k < length wss. k \<noteq> i \<longrightarrow> used (wss ! k)"
    and i: "i < length wss" and ws: "ws_adds parent W (wss ! i) ws" and W: "W \<noteq> {#}" "mset_distinct (la_windows l + W)"
    and l': "l' = l\<lparr>la_monitor_set := NoOutputs (wss[i := ws]), la_next_id := n\<rparr>"
  shows "la_adds parent W l l'"
proof -
  let ?wss = "wss[i := ws]"
  have mset: "mset ?wss = mset (ws # take i wss @ drop (Suc i) wss)" "mset wss = mset (wss ! i # take i wss @ drop (Suc i) wss)"
    using i arg_cong [OF id_take_nth_drop [OF i], of mset] by (simp_all add: upd_conv_take_nth_drop)
  have A: "workspace_inv parent ws" "ws_windows ws = ws_windows (wss ! i) + W" "ws_id ws = ws_id (wss ! i)"
    using ws by (simp_all add: ws_adds_def ws_same_id_def)
  have win: "wss_windows ?wss = wss_windows wss0 + W"
    using wss_windows_mset [OF mset(1)] wss_windows_mset [OF mset(2)] wss(2) by (simp add: A ac_simps)
  have placed: "placed_windows l' = placed_windows l + W" using win by (simp add: l' placed_windows_def set)
  have "map ws_id ?wss = map ws_id wss" using A(3) by (simp add: map_update list_update_same_conv i)
  then have ids: "distinct (map ws_id ?wss)" "list_all (\<lambda>k. k < n) (map ws_id ?wss)" using wss(1) by (auto simp: pool_ok_def list_all_iff)
  have "list_all (workspace_inv parent) ?wss" using wss(1) A(1) by (intro list_all_update) (simp_all add: pool_ok_def)
  moreover have "mset_distinct (moving_windows l' + wss_windows ?wss)"
    using W(2) win by (simp add: l' la_windows_def placed_windows_def set ac_simps)
  ultimately have pool: "pool_ok parent n (moving_windows l') ?wss" using ids by (simp add: pool_ok_def list_all_iff)
  have "used ws" using A(2) W(1) by (simp add: used_iff)
  then have "list_all used ?wss" using wss(4) i by (auto simp: list_all_length nth_list_update)
  moreover have "start_ok l'" by (rule start_ok_mono [OF layout_invD(4) [OF inv]]) (simp add: l', simp add: placed)
  ultimately show ?thesis using pool layout_invD(1) [OF inv] placed
    by (simp add: la_adds_def layout_inv_def monitor_set_ok_def l')
qed

lemma push_if_empty_ok:
  assumes inv: "layout_inv parent l" and set: "la_monitor_set l = NoOutputs wss0" and push: "push_if_empty wss0 l = (wss, n)"
  shows "pool_ok parent n {#} wss" "wss_windows wss = wss_windows wss0" "la_next_id l \<le> n" "\<forall>k < length wss. k \<noteq> 0 \<longrightarrow> used (wss ! k)" "wss \<noteq> []"
proof -
  let ?ws = "ws_new_no_outputs (lo_default_column_display (la_options l)) (la_next_id l) :: 'a lworkspace"
  have new: "workspace_inv parent ?ws" "ws_windows ?ws = {#}" "ws_id ?ws = la_next_id l"
    unfolding ws_new_no_outputs_def
    by (rule ws_new_inv(2) [OF layout_invD(1) [OF inv]], rule ws_new_inv(4) [OF layout_invD(1) [OF inv]])
      (simp add: ws_new_with_config_no_outputs_def Let_def)
  have old: "pool_ok parent (la_next_id l) {#} wss0" "list_all used wss0"
    using layout_invD(2,3) [OF inv] by (auto simp: pool_ok_def monitor_set_ok_def set dest: mset_distinct_sub)
  have "wss = (if wss0 = [] then [?ws] else wss0)" "n = (if wss0 = [] then la_next_id l + 1 else la_next_id l)"
    using push by (auto simp: push_if_empty_def split: if_splits)
  then show "pool_ok parent n {#} wss" "wss_windows wss = wss_windows wss0" "la_next_id l \<le> n" "\<forall>k < length wss. k \<noteq> 0 \<longrightarrow> used (wss ! k)" "wss \<noteq> []"
    using new old by (simp_all add: pool_ok_def list_all_length)
qed

lemma resolve_target_no_outputs_ok:
  assumes inv: "layout_inv parent l" and set: "la_monitor_set l = NoOutputs wss0" and target: "add_target_ok target l" "\<And>out. target \<noteq> AddOutput out"
  shows "returns (resolve_target_no_outputs target wss0 l) (\<lambda>(i, t, wss, n). pool_ok parent n {#} wss \<and> wss_windows wss = wss_windows wss0 \<and>
    la_next_id l \<le> n \<and> (\<forall>k < length wss. k \<noteq> i \<longrightarrow> used (wss ! k)) \<and> i < length wss \<and> target_ok t (wss ! i))"
proof -
  obtain wss n where push: "push_if_empty wss0 l = (wss, n)" by (cases "push_if_empty wss0 l")
  note P = push_if_empty_ok [OF inv set push]
  have old: "pool_ok parent (la_next_id l) {#} wss0" "list_all used wss0"
    using layout_invD(2,3) [OF inv] by (auto simp: pool_ok_def monitor_set_ok_def set dest: mset_distinct_sub)
  show ?thesis
  proof (cases target)
    case AddAuto
    then show ?thesis using P push by (simp add: resolve_target_no_outputs_def)
  next
    case (AddWorkspace wid)
    have "\<exists>ws \<in> set wss0. ws_id ws = wid" using target(1) by (auto simp: AddWorkspace set)
    from position_ex [OF this] old show ?thesis by (auto simp: resolve_target_no_outputs_def AddWorkspace list_all_length)
  next
    case (AddNextTo w)
    show ?thesis
    proof (cases "is_moving w l")
      case True
      then show ?thesis using P push by (simp add: resolve_target_no_outputs_def AddNextTo)
    next
      case False
      have "w \<in># wss_windows wss0"
        using not_moving_placed [OF False] target(1) by (simp add: AddNextTo placed_windows_def set)
      from window_position [OF this] obtain i where "position (ws_has_window w) wss0 = Some i" "i < length wss0" "w \<in># ws_windows (wss0 ! i)" .
      then show ?thesis using False old by (simp add: resolve_target_no_outputs_def AddNextTo list_all_length)
    qed
  qed (use target(2) in simp)
qed

lemma add_window_adds:
  assumes inv: "layout_inv (env_parent env) l" and fresh: "tl_window tile \<notin># la_windows l" and target: "add_target_ok target l"
    and out: "\<And>wss out. la_monitor_set l = NoOutputs wss \<Longrightarrow> target \<noteq> AddOutput out"
  shows "returns (add_window env tile target width full floating activate l) (la_adds (env_parent env) {#tl_window tile#} l)"
proof (cases "la_monitor_set l")
  case (Normal mons p a)
  let ?p = "env_parent env" and ?W = "{#tl_window tile#}"
  have dist: "mset_distinct (la_windows l + ?W)" using layout_invD(5) [OF inv] fresh by simp
  show ?thesis unfolding add_window_def Normal monitor_set.case returns_bind
  proof (rule returns_mono [OF resolve_target_ok [where n = "la_next_id l", OF inv Normal target]])
    fix r assume "case r of (i, t) \<Rightarrow> i < length mons \<and> mon_target_ok t (with_counter (la_next_id l) (mons ! i))"
    then obtain i t where r: "r = (i, t)" and i: "i < length mons" and t: "mon_target_ok t (with_counter (la_next_id l) (mons ! i))" by (cases r) auto
    let ?m = "with_counter (la_next_id l) (mons ! i)" and ?f = "mo_add_tile env tile t activate True width full floating"
    have m: "monitor_inv ?p ?m" by (rule monitor_at [OF inv Normal i])
    have "tl_window tile \<notin># mo_windows ?m" using fresh by (simp add: la_windows_def placed_split [OF Normal i])
    from mo_add_tile_ok [OF monitor_invD(2) [OF m] this t]
    have "returns (?f ?m) (\<lambda>m'. monitor_inv ?p m' \<and> mo_windows m' = mo_windows ?m + ?W)"
      by (rule returns_mono) (use tidy_inv_near [OF monitor_invD(3) [OF m]] in \<open>auto simp: mo_adds_def monitor_inv_iff\<close>)
    from on_monitor_adds [where f = ?f, OF inv Normal i refl this mo_adding_mints(2) dist]
    have "returns (on_monitor i ?f l) (\<lambda>l'. la_adds ?p ?W l (if map_smart activate False then set_active_monitor i l' else l'))"
      by (rule returns_mono) (use i in \<open>auto simp: stored_def Normal intro!: la_adds_active\<close>)
    then show "returns (case r of (mon_idx, target) \<Rightarrow> bind_res (on_monitor mon_idx (mo_add_tile env tile target activate True width full floating) l)
        (\<lambda>l. Inr (if map_smart activate False then set_active_monitor mon_idx l else l))) (la_adds ?p ?W l)"
      by (simp add: r returns_bind)
  qed
next
  case (NoOutputs wss0)
  let ?p = "env_parent env" and ?W = "{#tl_window tile#}"
  have dist: "mset_distinct (la_windows l + ?W)" using layout_invD(5) [OF inv] fresh by simp
  from resolve_target_no_outputs_ok [OF inv NoOutputs target out [OF NoOutputs]] obtain i t wss n
    where res: "resolve_target_no_outputs target wss0 l = Inr (i, t, wss, n)"
      and P: "pool_ok ?p n {#} wss" "wss_windows wss = wss_windows wss0" "la_next_id l \<le> n" "\<forall>k < length wss. k \<noteq> i \<longrightarrow> used (wss ! k)"
      "i < length wss" "target_ok t (wss ! i)" by (auto simp: returns_def)
  have "ws_windows (wss ! i) \<subseteq># placed_windows l" using wss_windows_nth_sub [OF P(5)] P(2) by (simp add: placed_windows_def NoOutputs)
  then have "tl_window tile \<notin># ws_windows (wss ! i)" using fresh by (auto simp: la_windows_def dest: mset_subset_eqD)
  moreover have "workspace_inv ?p (wss ! i)" using P(1,5) by (simp add: pool_ok_def list_all_length)
  ultimately obtain ws where add: "ws_add_tile env tile t activate width full floating (wss ! i) = Inr ws" "ws_adds ?p ?W (wss ! i) ws"
    using ws_add_tile_ok [OF _ _ P(6), of env tile activate width full floating] by (auto simp: returns_def)
  have "la_adds ?p ?W l (l\<lparr>la_monitor_set := NoOutputs (wss[i := ws]), la_next_id := n\<rparr>)"
    by (rule no_outputs_adds [OF inv NoOutputs P(1-5) add(2) _ dist refl]) simp
  then show ?thesis using P(5) by (simp add: add_window_def NoOutputs res vec_simps add(1))
qed

subsection \<open>Closing\<close>

definition mo_removes :: "'w parent_of \<Rightarrow> 'w multiset \<Rightarrow> 'w monitor \<Rightarrow> 'w monitor \<Rightarrow> bool" where
  "mo_removes parent W m m' \<longleftrightarrow> monitor_inv parent m' \<and> mo_windows m = mo_windows m' + W \<and>
     ws_id ` set (mo_workspaces m') \<subseteq> ws_id ` set (mo_workspaces m) \<and> mo_next_id m' = mo_next_id m \<and> mo_output m' = mo_output m"

text \<open>Removing an empty workspace that is neither active nor at an edge.\<close>

lemma remove_inner:
  fixes wss :: "'w lworkspace list"
  assumes d: "distinct wss" and k: "k < length wss - 1" "b \<longrightarrow> k \<noteq> 0" "k \<noteq> a" and a: "a < length wss" and e: "edges_ok b wss"
    and used: "\<And>j. j < length wss - 1 \<Longrightarrow> (b \<longrightarrow> j \<noteq> 0) \<Longrightarrow> j \<noteq> a \<Longrightarrow> j \<noteq> k \<Longrightarrow> used (wss ! j)"
  defines "rest \<equiv> take k wss @ drop (Suc k) wss" and "a' \<equiv> if k < a then a - 1 else a"
  shows "a' < length rest" "rest ! a' = wss ! a" "edges_ok b rest" "tidy b a' rest"
proof -
  have ne: "wss \<noteq> []" using a by auto
  have "k < length wss" using k(1) by simp
  note split = id_take_nth_drop [OF this]
  have rest: "distinct rest" "set rest = set wss - {wss ! k}" "rest \<noteq> []" "last rest = last wss" "k \<noteq> 0 \<Longrightarrow> hd rest = hd wss" "length rest = length wss - 1"
  proof -
    have "distinct (take k wss @ wss ! k # drop (Suc k) wss)" using d split by simp
    then show "distinct rest" "set rest = set wss - {wss ! k}"
      using arg_cong [OF split, of set] by (auto simp: rest_def)
    show "rest \<noteq> []" "last rest = last wss" "length rest = length wss - 1" using k by (auto simp: rest_def)
    show "k \<noteq> 0 \<Longrightarrow> hd rest = hd wss" using ne by (cases wss; cases k) (simp_all add: rest_def)
  qed
  show "a' < length rest" using a k by (auto simp: a'_def rest(6))
  show active: "rest ! a' = wss ! a"
    using a k by (cases a) (auto simp: rest_def a'_def nth_append min_def)
  show edges: "edges_ok b rest" using e k(2) rest by (auto simp: edges_ok_def)
  show "tidy b a' rest" unfolding tidy_set [OF rest(1,3) \<open>a' < length rest\<close>] active rest(4)
  proof (intro ballI impI)
    fix ws assume ws: "ws \<in> set rest" "ws \<noteq> last wss" "b \<longrightarrow> ws \<noteq> hd rest" "ws \<noteq> wss ! a"
    then obtain j where j: "j < length wss" "ws = wss ! j" by (auto simp: rest(2) in_set_conv_nth)
    have "b \<longrightarrow> ws \<noteq> hd wss" using ws(3) k(2) rest(5) by auto
    moreover have "ws \<noteq> wss ! k" using ws(1) by (simp add: rest(2))
    ultimately have "j \<noteq> length wss - 1" "b \<longrightarrow> j \<noteq> 0" "j \<noteq> a" "j \<noteq> k" using ws(2,4) ne by (auto simp: j(2) last_conv_nth hd_conv_nth intro!: gr0I)
    then show "used ws" using used [of j] j by auto
  qed
qed

lemma remove_from_monitor_ok:
  assumes inv: "monitor_inv parent m" and w: "w \<in># mo_windows m"
  shows "returns (remove_from_monitor w m) (\<lambda>(r, m'). tl_window (rt_tile r) = w \<and> mo_removes parent {#w#} m m')"
proof -
  let ?wss = "mo_workspaces m" and ?a = "mo_active_workspace_idx m"
  obtain i where i: "position (ws_has_window w) ?wss = Some i" "i < length ?wss" "w \<in># ws_windows (?wss ! i)"
    using w by (rule window_position)
  obtain r ws where rem: "ws_remove_tile w (?wss ! i) = Inr (r, ws)" "ws_removes parent {#w#} (?wss ! i) ws" "tl_window (rt_tile r) = w"
    using ws_remove_tile_ok [OF workspaces_invD [OF monitor_invD(4) [OF inv] i(2)] i(3)] by (auto simp: returns_def)
  define m1 where "m1 = store_workspace i ws m"
  note T = taken_ok [OF inv i(2) rem(2), folded m1_def, unfolded taken_def]
  have m1: "mo_workspaces m1 = ?wss[i := ws]" "mo_active_workspace_idx m1 = ?a" "mo_workspace_switch m1 = mo_workspace_switch m"
    "mo_options m1 = mo_options m" "mo_next_id m1 = mo_next_id m" "mo_output m1 = mo_output m"
    by (simp_all add: m1_def store_workspace_def)
  have ids: "ws_id ` set (mo_workspaces m1) = ws_id ` set ?wss" using T by (metis list.set_map)
  have two: "above_first m \<Longrightarrow> length ?wss \<noteq> 2" using inv by (simp add: monitor_inv_def)
  have "used (?wss ! i)" using i(3) by (auto simp: used_iff)
  then have edge: "i \<noteq> length ?wss - 1" "above_first m \<longrightarrow> i \<noteq> 0"
    using monitor_invD(6,9) [OF inv] by (auto simp: edges_ok_def last_conv_nth hd_conv_nth intro!: gr0I)
  have unf: "remove_from_monitor w m = bind_res (if \<not> used ws \<and> i \<noteq> ?a \<and> i \<noteq> length ?wss - 1 \<and> mo_workspace_switch m = None
        then bind_res (remove_workspace_at i m1) (\<lambda>m. Inr (if i < mo_active_workspace_idx m then m\<lparr>mo_active_workspace_idx := mo_active_workspace_idx m - 1\<rparr> else m))
        else Inr m1) (\<lambda>m.
      bind_res (if above_first m \<and> length (mo_workspaces m) = 2 \<and> mo_workspace_switch m = None
        then bind_res (assert_that ''!mon.workspaces[0].has_windows_or_name()'' (\<not> used (mo_workspaces m ! 0))) (\<lambda>_.
             bind_res (assert_that ''!mon.workspaces[1].has_windows_or_name()'' (\<not> used (mo_workspaces m ! 1))) (\<lambda>_.
             bind_res (remove_workspace_at 1 m) (\<lambda>m. Inr (m\<lparr>mo_active_workspace_idx := 0\<rparr>))))
        else Inr m) (\<lambda>m. Inr (r, m)))"
  proof -
    have "vec_index ?wss i = Inr (?wss ! i)" using i(2) by (simp add: vec_simps)
    then show ?thesis unfolding remove_from_monitor_def
      by (simp only: i(1) unwrap.simps bind_res.simps rem(1) prod.case Let_def m1_def [symmetric] m1 length_list_update)
  qed
  show ?thesis
  proof (cases "\<not> used ws \<and> i \<noteq> ?a \<and> mo_workspace_switch m = None")
    case False
    have "tidy_inv m1"
      using False T tidy_near_store [OF monitor_invD(4) [OF inv] i(2) tidy_inv_near [OF monitor_invD(3) [OF inv]], of ws]
      by (auto simp: tidy_inv_def m1)
    then have "mo_removes parent {#w#} m m1" using T ids by (simp add: mo_removes_def monitor_inv_iff m1)
    moreover have "\<not> (\<not> used ws \<and> i \<noteq> ?a \<and> i \<noteq> length ?wss - 1 \<and> mo_workspace_switch m = None)" using False by blast
    ultimately show ?thesis unfolding unf using two rem(3) by (auto simp: m1)
  next
    case True
    let ?rest = "take i (mo_workspaces m1) @ drop (Suc i) (mo_workspaces m1)"
    define m2 where "m2 = m1\<lparr>mo_workspaces := ?rest, mo_active_workspace_idx := (if i < ?a then ?a - 1 else ?a)\<rparr>"
    have len: "length (mo_workspaces m1) = length ?wss" by (simp add: m1)
    have winv: "workspaces_inv parent m1" using T semi_invD(2) by blast
    have d: "distinct (mo_workspaces m1)" using winv by (auto simp: workspaces_inv_def distinct_map)
    have e: "edges_ok (above_first m) (mo_workspaces m1)" using T semi_invD(7) [of parent m1] by (simp add: m1)
    have "tidy (above_first m) ?a ?wss" using inv True by (simp add: monitor_inv_def)
    then have U: "used (mo_workspaces m1 ! j)" if "j < length (mo_workspaces m1) - 1" "above_first m \<longrightarrow> j \<noteq> 0" "j \<noteq> ?a" "j \<noteq> i" for j
      using that by (auto simp: tidy_def m1(1) split: if_splits)
    have il: "i < length (mo_workspaces m1) - 1" "i < length (mo_workspaces m1)" using i(2) edge(1) by (simp_all add: len)
    have al: "?a < length (mo_workspaces m1)" using monitor_invD(5) [OF inv] by (simp add: len)
    note R = remove_inner [OF d il(1) edge(2) _ al e U]
    have mset: "mset (mo_workspaces m1) = mset ((mo_workspaces m1 ! i) # ?rest)"
      using arg_cong [OF id_take_nth_drop [OF il(2)], of mset] by simp
    have un: "ws_windows (mo_workspaces m1 ! i) = {#}" using True i(2) by (simp add: m1 used_iff)
    have win: "wss_windows ?rest = mo_windows m1" using wss_windows_mset [OF mset] un by simp
    have sub: "set ?rest \<subseteq> set (mo_workspaces m1)" by (metis set_take_drop)
    have "workspaces_inv parent m2"
      using winv win sub mset_eq_imp_distinct_iff [OF arg_cong [OF mset, of "image_mset ws_id", folded mset_map]]
      by (auto simp: workspaces_inv_def m2_def list_all_iff)
    then have untidy: "untidy_inv parent m2" and tidy: "tidy (above_first m2) (mo_active_workspace_idx m2) (mo_workspaces m2)"
      using R True monitor_invD(1) [OF inv] by (auto simp: untidy_inv_def m2_def switch_inv_def options_ok_def m1 m1_def store_workspace_def)
    have "ws_id ` set ?rest \<subseteq> ws_id ` set ?wss" using image_mono [OF sub, of ws_id] by (simp only: ids)
    then have base: "mo_windows m = mo_windows m2 + {#w#}" "ws_id ` set (mo_workspaces m2) \<subseteq> ws_id ` set ?wss" "mo_next_id m2 = mo_next_id m"
      "mo_output m2 = mo_output m" "mo_workspace_switch m2 = None" "above_first m2 = above_first m"
      using T win True by (simp_all add: m2_def m1)
    have step: "bind_res (remove_workspace_at i m1) (\<lambda>m. Inr (if i < mo_active_workspace_idx m
        then m\<lparr>mo_active_workspace_idx := mo_active_workspace_idx m - 1\<rparr> else m)) = Inr m2"
      using il(2) by (auto simp: remove_workspace_at_def vec_simps m2_def m1(2))
    show ?thesis
    proof (cases "above_first m2 \<and> length (mo_workspaces m2) = 2")
      case False
      then have "mo_removes parent {#w#} m m2" using untidy tidy base by (auto simp: mo_removes_def monitor_inv_def)
      then show ?thesis unfolding unf step using True edge False rem(3) by auto
    next
      case two: True
      then obtain x y where xy: "mo_workspaces m2 = [x, y]" by (auto simp: length_Suc_conv numeral_2_eq_2)
      have unused: "\<not> used x" "\<not> used y" using untidy two by (auto simp: untidy_inv_def edges_ok_def xy)
      let ?m = "m2\<lparr>mo_workspaces := [x], mo_active_workspace_idx := 0\<rparr>"
      have "mo_removes parent {#w#} m ?m" using untidy base unused two
        by (auto simp: mo_removes_def monitor_inv_def untidy_inv_def workspaces_inv_def xy edges_ok_def tidy_def switch_inv_def options_ok_def used_iff)
      then show ?thesis unfolding unf step using True edge(1) two base(5) unused rem(3)
        by (simp add: xy remove_workspace_at_def vec_simps)
    qed
  qed
qed

definition la_removes :: "'w parent_of \<Rightarrow> 'w multiset \<Rightarrow> 'w layout \<Rightarrow> 'w layout \<Rightarrow> bool" where
  "la_removes parent W l l' \<longleftrightarrow> layout_inv parent l' \<and> placed_windows l = placed_windows l' + W \<and>
     la_interactive_move l' = la_interactive_move l"

lemma start_removes:
  assumes "start_ok l" "placed_windows l = placed_windows l' + {#w#}" "la_interactive_move l' = la_interactive_move l"
    "\<And>v d r. la_interactive_move l = Some (Starting v d r) \<Longrightarrow> v \<noteq> w"
  shows "start_ok l'"
  using assms by (auto simp: start_ok_def split: option.splits interactive_move.splits)

lemma remove_from_workspaces_ok:
  assumes pool: "pool_ok parent n W wss" and used: "list_all used wss" and w: "w \<in># wss_windows wss"
  shows "returns (remove_from_workspaces w wss) (\<lambda>(r, wss'). (\<exists>t. r = Some t \<and> tl_window (rt_tile t) = w) \<and>
    pool_ok parent n W wss' \<and> list_all used wss' \<and> wss_windows wss = wss_windows wss' + {#w#})"
proof -
  obtain i where i: "position (ws_has_window w) wss = Some i" "i < length wss" "w \<in># ws_windows (wss ! i)"
    using w by (rule window_position)
  have "workspace_inv parent (wss ! i)" using pool i(2) by (simp add: pool_ok_def list_all_length)
  from ws_remove_tile_ok [OF this i(3)] obtain r ws where rem: "ws_remove_tile w (wss ! i) = Inr (r, ws)"
    "workspace_inv parent ws" "ws_windows (wss ! i) = ws_windows ws + {#w#}" "ws_id ws = ws_id (wss ! i)" "tl_window (rt_tile r) = w"
    by (auto simp: returns_def ws_removes_def ws_same_id_def)
  let ?rest = "take i wss @ drop (Suc i) wss"
  have m0: "mset wss = mset (wss ! i # ?rest)" using arg_cong [OF id_take_nth_drop [OF i(2)], of mset] by simp
  have m1: "mset (wss[i := ws]) = mset (ws # ?rest)" using i(2) by (simp add: upd_conv_take_nth_drop)
  have win: "wss_windows wss = wss_windows (wss[i := ws]) + {#w#}"
    using wss_windows_mset [OF m0] wss_windows_mset [OF m1] rem(3) by (simp add: ac_simps)
  have pool0: "pool_ok parent n W (wss ! i # ?rest)" using pool pool_ok_mset [OF m0] by simp
  have "mset_distinct (W + wss_windows (ws # ?rest))"
    by (rule mset_distinct_mono [of "W + wss_windows (wss ! i # ?rest)"]) (use pool0 rem(3) in \<open>auto simp: pool_ok_def\<close>)
  then have pool1: "pool_ok parent n W (ws # ?rest)" using pool0 rem(2,4) by (auto simp: pool_ok_def)
  have urest: "list_all used ?rest" using used set_take_drop [of i wss] by (auto simp: list_all_iff simp del: set_append)
  show ?thesis
  proof (cases "used ws")
    case True
    then have "list_all used (wss[i := ws])" using used by (simp add: list_all_update)
    then show ?thesis using True i rem(1,5) pool1 pool_ok_mset [OF m1] win by (simp add: remove_from_workspaces_def vec_simps)
  next
    case False
    have "wss_windows (wss[i := ws]) = wss_windows ?rest" using False wss_windows_mset [OF m1] by (simp add: used_iff)
    moreover have "pool_ok parent n W ?rest" using pool1 False by (auto simp: pool_ok_def used_iff)
    ultimately show ?thesis using False i rem(1,5) win urest by (simp add: remove_from_workspaces_def vec_simps)
  qed
qed

lemma remove_placed_window_ok:
  assumes inv: "layout_inv parent l" and w: "w \<in># placed_windows l"
    and start: "\<And>v d r. la_interactive_move l = Some (Starting v d r) \<Longrightarrow> v \<noteq> w"
  shows "returns (remove_placed_window w l) (\<lambda>(r, l'). (\<exists>t. r = Some t \<and> tl_window (rt_tile t) = w) \<and> la_removes parent {#w#} l l')"
proof (cases "la_monitor_set l")
  case (Normal mons p a)
  obtain i where i: "position (\<lambda>m. list_ex (ws_has_window w) (mo_workspaces m)) mons = Some i" "i < length mons" "w \<in># mo_windows (mons ! i)"
    by (rule window_monitor [OF Normal w])
  have m: "monitor_inv parent (mons ! i)" "mo_next_id (mons ! i) \<le> la_next_id l" using layout_inv_normalD(4,5) [OF inv Normal] i(2) by simp_all
  obtain r m' where run: "remove_from_monitor w (mons ! i) = Inr (r, m')" "tl_window (rt_tile r) = w" and R: "mo_removes parent {#w#} (mons ! i) m'"
    using remove_from_monitor_ok [OF m(1) i(3)] by (auto simp: returns_def)
  let ?l = "l\<lparr>la_monitor_set := Normal (mons[i := m']) p a\<rparr>"
  have "layout_inv parent ?l" "placed_windows ?l + {#w#} = placed_windows l + {#}"
    by (rule store_monitor_ok [where m' = m' and n' = "la_next_id l" and R = "{#w#}" and A = "{#}", OF inv Normal i(2) layout_inv_normalD(2) [OF inv Normal]];
        use R m(2) layout_invD(5) [OF inv] start in \<open>auto simp: mo_removes_def\<close>)+
  then have "la_removes parent {#w#} l ?l" by (simp add: la_removes_def)
  then show ?thesis using i(1,2) run by (simp add: remove_placed_window_def Normal vec_simps)
next
  case (NoOutputs wss)
  have "pool_ok parent (la_next_id l) (moving_windows l) wss" "list_all used wss" "w \<in># wss_windows wss"
    using inv w by (simp_all add: layout_inv_def monitor_set_ok_def NoOutputs placed_windows_def)
  from remove_from_workspaces_ok [OF this] obtain t wss' where run: "remove_from_workspaces w wss = Inr (Some t, wss')" "tl_window (rt_tile t) = w"
    and R: "pool_ok parent (la_next_id l) (moving_windows l) wss'" "list_all used wss'" "wss_windows wss = wss_windows wss' + {#w#}"
    by (auto simp: returns_def)
  let ?l = "l\<lparr>la_monitor_set := NoOutputs wss'\<rparr>"
  have placed: "placed_windows l = placed_windows ?l + {#w#}" using R(3) by (simp add: placed_windows_def NoOutputs)
  have "start_ok ?l" by (rule start_removes [OF layout_invD(4) [OF inv] placed _ start]) simp_all
  then have "la_removes parent {#w#} l ?l" using R placed layout_invD(1) [OF inv]
    by (simp add: la_removes_def layout_inv_def monitor_set_ok_def)
  then show ?thesis using run by (simp add: remove_placed_window_def NoOutputs)
qed

end
