(* ===== verification/Layout_Dropping.thy ===== *)
theory Layout_Dropping
  imports Layout_Windows
begin

text \<open>
  Where a dragged window is dropped is always a place that exists, and dropping it there puts it
  back into the layout.
\<close>

subsection \<open>Positions\<close>

text \<open>What the layout relies on of the picture: views snap to columns they have, and of every monitor some workspace is visible.\<close>

definition geometry_ok :: "'w geometry \<Rightarrow> bool" where
  "geometry_ok geo \<longleftrightarrow> (\<forall>s i. gm_snap geo s = Some i \<longrightarrow> i < length (sc_columns s)) \<and>
     (\<forall>m. mo_workspaces m \<noteq> [] \<longrightarrow> workspaces_with_render_geo_idx geo m \<noteq> [])"

fun position_ok :: "insert_position \<Rightarrow> 'w scrolling_space \<Rightarrow> bool" where
  "position_ok (NewColumn i) s \<longleftrightarrow> i \<le> length (sc_columns s)"
| "position_ok (InColumn c t) s \<longleftrightarrow> c < length (sc_columns s) \<and> t \<le> length (col_tiles (sc_columns s ! c))"
| "position_ok InsertFloating s \<longleftrightarrow> True"

lemma closest_tile_ok:
  assumes "column_inv col"
  shows "returns (closest_tile geo y col) (\<lambda>(t, _). t \<le> length (col_tiles col))"
proof (cases "col_display_mode col = DisplayTabbed")
  case True
  then show ?thesis using assms by (simp add: closest_tile_def vec_simps col_tile_ys_def Let_def column_inv_def)
next
  case False
  have "col_tile_ys geo col \<noteq> []" by (metis col_tile_ys_def length_tile_ys add_gr_0 length_greater_0_conv zero_less_one)
  from closest_ok [OF this, of y] False show ?thesis by (auto simp: closest_tile_def col_tile_ys_def elim!: returns_mono)
qed

lemma last_enumerate_takeWhile:
  assumes "takeWhile P (enumerate 0 xs) \<noteq> []"
  shows "fst (last (takeWhile P (enumerate 0 xs))) < length xs"
proof -
  have "last (takeWhile P (enumerate 0 xs)) \<in> set (enumerate 0 xs)" using last_in_set [OF assms] set_takeWhileD by metis
  then show ?thesis by (auto simp: in_set_enumerate_eq)
qed

text \<open>The left edges of the columns, with one past the last, and the last edge at or before the pointer.\<close>

definition column_edges :: "'w geometry \<Rightarrow> 'w scrolling_space \<Rightarrow> real list" where
  "column_edges geo s = column_xs (gm_gaps geo) 0 (map (gm_column_width geo) (sc_columns s))"

definition edge_before :: "real \<Rightarrow> real list \<Rightarrow> nat" where
  "edge_before x xs = (let before = takeWhile (\<lambda>(_, col_x). col_x \<le> x) (enumerate 0 xs) in if before = [] then 0 else fst (last before))"

lemma length_column_edges [simp]: "length (column_edges geo s) = length (sc_columns s) + 1"
  by (simp add: column_edges_def)

lemma edge_before_lt: "xs \<noteq> [] \<Longrightarrow> edge_before x xs < length xs"
  using last_enumerate_takeWhile [of "\<lambda>(_, col_x). col_x \<le> x" xs] by (auto simp: edge_before_def Let_def)

lemma sc_insert_position_eq:
  assumes "sc_columns s \<noteq> []" "x = pt_x pos + gm_view_pos geo s + gm_gaps geo / 2" "y = pt_y pos + gm_gaps geo / 2"
    "ci = edge_before x (column_edges geo s)"
  shows "sc_insert_position geo pos s = (if x < 0 then Inr (NewColumn 0) else bind_res (closest x (column_edges geo s)) (\<lambda>(k, cx).
      if ci = length (sc_columns s) then Inr (NewColumn k) else bind_res (vec_index (sc_columns s) ci) (\<lambda>col.
        bind_res (closest_tile geo y col) (\<lambda>(t, ty). Inr (if \<bar>cx - x\<bar> \<le> \<bar>ty - y\<bar> then NewColumn k else InColumn ci t)))))"
  unfolding sc_insert_position_def Let_def column_edges_def [symmetric] assms(2) [symmetric] assms(3) [symmetric]
    edge_before_def [unfolded Let_def, symmetric] assms(4) [symmetric]
  by (simp only: assms(1) if_False)

text \<open>A new column goes to the nearest edge; a tile goes into the column that the pointer is over.\<close>

definition position_near :: "'w geometry \<Rightarrow> real \<Rightarrow> 'w scrolling_space \<Rightarrow> insert_position \<Rightarrow> bool" where
  "position_near geo x s p \<longleftrightarrow> position_ok p s \<and> (case p of
     NewColumn i \<Rightarrow> \<forall>e \<in> set (column_edges geo s). \<bar>column_edges geo s ! i - x\<bar> \<le> \<bar>e - x\<bar>
   | InColumn c t \<Rightarrow> c = edge_before x (column_edges geo s) | InsertFloating \<Rightarrow> False)"

lemma sc_insert_position_near:
  assumes inv: "scrolling_inv s" and ne: "sc_columns s \<noteq> []" and x: "x = pt_x pos + gm_view_pos geo s + gm_gaps geo / 2" "0 \<le> x"
  shows "returns (sc_insert_position geo pos s) (position_near geo x s)"
proof -
  let ?xs = "column_edges geo s" and ?y = "pt_y pos + gm_gaps geo / 2"
  define ci where "ci = edge_before x (column_edges geo s)"
  have xs: "?xs \<noteq> []" by (metis length_column_edges add_is_0 list.size(3) zero_neq_one)
  have ci: "ci \<le> length (sc_columns s)" using edge_before_lt [OF xs, of x] by (simp add: ci_def)
  obtain k cx where c: "closest x ?xs = Inr (k, cx)" and k: "position_near geo x s (NewColumn k)"
    using closest_ok [OF xs, of x] by (auto simp: returns_def position_near_def)
  have "returns (bind_res (vec_index (sc_columns s) ci) (\<lambda>col. bind_res (closest_tile geo ?y col) (\<lambda>(t, ty).
      Inr (if \<bar>cx - x\<bar> \<le> \<bar>ty - ?y\<bar> then NewColumn k else InColumn ci t)))) (position_near geo x s)" if "ci \<noteq> length (sc_columns s)"
  proof -
    have lt: "ci < length (sc_columns s)" using that ci by simp
    from closest_tile_ok [OF scrolling_inv_nth [OF inv lt], of geo ?y] show ?thesis
      using lt k by (auto simp: vec_simps returns_bind position_near_def ci_def elim!: returns_mono)
  qed
  then show ?thesis unfolding sc_insert_position_eq [OF ne x(1) refl ci_def] using x(2) c k by simp
qed

lemma sc_insert_position_ok:
  assumes inv: "scrolling_inv s"
  shows "returns (sc_insert_position geo pos s) (\<lambda>p. position_ok p s)"
proof (cases "sc_columns s = [] \<or> pt_x pos + gm_view_pos geo s + gm_gaps geo / 2 < 0")
  case True
  then show ?thesis using sc_insert_position_eq [where s = s and pos = pos and geo = geo, OF _ refl refl refl] by (cases "sc_columns s = []") (simp_all add: sc_insert_position_def)
next
  case False
  then show ?thesis using returns_mono [OF sc_insert_position_near [where pos = pos and geo = geo, OF inv _ refl]] by (fastforce simp: position_near_def)
qed

text \<open>The workspace under the pointer: one of the monitor, drawn where the pointer is, or a gap.\<close>

fun insert_target_ok :: "'w geometry \<Rightarrow> real \<Rightarrow> 'w monitor \<Rightarrow> insert_workspace_type \<times> rectangle \<Rightarrow> bool" where
  "insert_target_ok geo y m (Existing wid, r) \<longleftrightarrow> (\<exists>i < length (mo_workspaces m). ws_id (mo_workspaces m ! i) = wid \<and>
     r = workspaces_render_geo geo m ! i \<and> rect_contains_y y r)"
| "insert_target_ok geo y m (NewAt i, r) \<longleftrightarrow> i \<le> length (mo_workspaces m)"

lemma visible_workspace:
  assumes "((i, ws), r) \<in> set (workspaces_with_render_geo_idx geo m)"
  shows "i < length (mo_workspaces m)" "ws = mo_workspaces m ! i" "r = workspaces_render_geo geo m ! i"
proof -
  have "((i, ws), r) \<in> set (zip (enumerate 0 (mo_workspaces m)) (workspaces_render_geo geo m))"
    using assms by (simp add: workspaces_with_render_geo_idx_def)
  then show "i < length (mo_workspaces m)" "ws = mo_workspaces m ! i" "r = workspaces_render_geo geo m ! i"
    by (auto simp: set_zip nth_enumerate_eq workspaces_render_geo_def)
qed

lemma insert_position_loop_ok:
  assumes "set wgs \<subseteq> set (workspaces_with_render_geo_idx geo m)" "k < length (mo_workspaces m)"
  shows "insert_target_ok geo y m (insert_position_loop y last_geo k wgs)"
  using assms
proof (induction y last_geo k wgs rule: insert_position_loop.induct)
  case (2 y last_geo k i ws r rest)
  then show ?case using visible_workspace [of i ws r geo m] by auto
qed simp

lemma mo_insert_position_ok:
  assumes geo: "geometry_ok geo" and ne: "mo_workspaces m \<noteq> []"
  shows "returns (mo_insert_position geo pos m) (insert_target_ok geo (pt_y pos) m)"
proof -
  obtain i ws r rest where vis: "workspaces_with_render_geo_idx geo m = ((i, ws), r) # rest"
    using geo ne by (cases "workspaces_with_render_geo_idx geo m") (auto simp: geometry_ok_def)
  then have v: "i < length (mo_workspaces m)" "ws = mo_workspaces m ! i" "r = workspaces_render_geo geo m ! i"
    using visible_workspace [of i ws r geo m] by auto
  have "insert_target_ok geo (pt_y pos) m (insert_position_loop (pt_y pos) r i rest)"
    by (rule insert_position_loop_ok [OF _ v(1)]) (simp add: vis subset_insertI)
  then show ?thesis using v by (auto simp: mo_insert_position_def vis)
qed

subsection \<open>The workspace to drop on\<close>

fun drop_target_ok :: "'w monitor \<Rightarrow> insert_workspace_type \<times> insert_position \<times> point option \<Rightarrow> bool" where
  "drop_target_ok m (Existing wid, pos, _) \<longleftrightarrow> (\<exists>ws \<in> set (mo_workspaces m). ws_id ws = wid \<and> position_ok pos (ws_scrolling ws))"
| "drop_target_ok m (NewAt i, pos, _) \<longleftrightarrow> i \<le> length (mo_workspaces m) \<and> (pos = InsertFloating \<or> pos = NewColumn 0)"

lemma existing_position:
  assumes "workspaces_inv parent m" "i < length (mo_workspaces m)"
  shows "position (\<lambda>ws. ws_id ws = ws_id (mo_workspaces m ! i)) (mo_workspaces m) = Some i"
proof -
  let ?P = "\<lambda>ws. ws_id ws = ws_id (mo_workspaces m ! i)"
  obtain j where j: "position ?P (mo_workspaces m) = Some j" "j < length (mo_workspaces m)" "?P (mo_workspaces m ! j)"
    using position_ex [of "mo_workspaces m" ?P] assms(2) by (metis nth_mem)
  then have "j = i" using assms nth_eq_iff_index_eq [of "map ws_id (mo_workspaces m)" j i] by (simp add: workspaces_inv_def)
  with j(1) show ?thesis by simp
qed

lemma drop_on_output_ok:
  assumes geo: "geometry_ok geo" and inv: "monitor_inv parent m"
  shows "returns (drop_on_output geo move m) (drop_target_ok m)"
  unfolding drop_on_output_def returns_bind
proof (rule returns_mono [OF mo_insert_position_ok [OF geo monitor_invD(6) [OF inv]]])
  fix x assume x: "insert_target_ok geo (pt_y (im_pointer_pos_within_output move)) m x"
  obtain iw r where x': "x = (iw, r)" by (cases x)
  show "returns (case x of (insert_ws, r) \<Rightarrow> case insert_ws of
         Existing wid \<Rightarrow>
           bind_res (unwrap (position (\<lambda>ws. ws_id ws = wid) (mo_workspaces m))) (\<lambda>ws_idx.
           bind_res (if im_is_floating move then Inr InsertFloating
                     else sc_insert_position geo
                       (point_downscale (gm_zoom geo m) (point_sub (im_pointer_pos_within_output move) (rc_loc r)))
                       (ws_scrolling (mo_workspaces m ! ws_idx))) (\<lambda>pos.
             Inr (insert_ws, pos, Some (rc_loc r))))
       | NewAt _ \<Rightarrow> Inr (insert_ws, if im_is_floating move then InsertFloating else NewColumn 0, None)) (drop_target_ok m)"
  proof (cases iw)
    case (Existing wid)
    then obtain i where i: "i < length (mo_workspaces m)" "ws_id (mo_workspaces m ! i) = wid" using x by (auto simp: x')
    note pos = existing_position [OF monitor_invD(4) [OF inv] i(1), unfolded i(2)]
    have s: "scrolling_inv (ws_scrolling (mo_workspaces m ! i))" by (rule workspace_invD(1) [OF workspaces_invD [OF monitor_invD(4) [OF inv] i(1)]])
    have mem: "mo_workspaces m ! i \<in> set (mo_workspaces m)" using i(1) by simp
    show ?thesis
    proof (cases "im_is_floating move")
      case True
      then show ?thesis using mem i(2) by (auto simp: x' Existing pos)
    next
      case False
      then show ?thesis unfolding x' Existing prod.case insert_workspace_type.case pos unwrap.simps bind_res.simps if_False returns_bind
        using mem i(2) by (auto intro!: returns_mono [OF sc_insert_position_ok [OF s]])
    qed
  qed (use x in \<open>simp add: x'\<close>)
qed

lemma drop_elsewhere_ok:
  assumes inv: "monitor_inv parent m"
  shows "returns (drop_elsewhere geo move m) (drop_target_ok m)"
proof -
  let ?ws = "mo_workspaces m ! 0"
  have ne: "0 < length (mo_workspaces m)" using monitor_invD(6) [OF inv] by simp
  then have mem: "?ws \<in> set (mo_workspaces m)" by simp
  have s: "scrolling_inv (ws_scrolling ?ws)" by (rule workspace_invD(1) [OF workspaces_invD [OF monitor_invD(4) [OF inv] ne]])
  have "0 < length (workspaces_render_geo geo m)" by (simp add: workspaces_render_geo_def Let_def)
  then show ?thesis using ne mem sc_insert_position_ok [OF s, of geo zero_point]
    by (auto simp: drop_elsewhere_def vec_simps returns_bind elim!: returns_mono)
qed

text \<open>After the workspace to drop on has been found or made.\<close>

definition drop_ready :: "'w parent_of \<Rightarrow> insert_position \<Rightarrow> 'w monitor \<Rightarrow> nat \<Rightarrow> 'w monitor \<Rightarrow> bool" where
  "drop_ready parent pos m i m' \<longleftrightarrow> semi_inv parent m' \<and> mo_windows m' = mo_windows m \<and> i < length (mo_workspaces m') \<and>
     tidy_near (ws_id (mo_workspaces m' ! i)) m' \<and> position_ok pos (ws_scrolling (mo_workspaces m' ! i)) \<and> mints m m'"

lemma drop_ready_same:
  assumes "monitor_inv parent m" "i < length (mo_workspaces m)" "position_ok pos (ws_scrolling (mo_workspaces m ! i))"
  shows "drop_ready parent pos m i m"
  using assms by (simp add: drop_ready_def monitor_inv_iff tidy_inv_near)

lemma insert_inner:
  assumes inv: "monitor_inv parent m" and i: "i < length (mo_workspaces m) - 1" "above_first m \<longrightarrow> i \<noteq> 0"
  shows "returns (add_workspace_at i m) (\<lambda>m'. semi_inv parent m' \<and> mo_windows m' = mo_windows m \<and> i < length (mo_workspaces m') \<and>
    tidy_near (ws_id (mo_workspaces m' ! i)) m')"
proof (rule returns_mono [OF add_workspace_at_ok [OF monitor_invD(4,7) [OF inv]]])
  let ?wss = "mo_workspaces m" and ?a = "mo_active_workspace_idx m"
  show "i \<le> length ?wss" using i by simp
  fix m' assume "workspaces_inv parent m' \<and> switch_inv m' \<and> mo_windows m' = mo_windows m \<and> (\<exists>ws. inserted i ws m m')"
  then obtain ws where m': "workspaces_inv parent m'" "switch_inv m'" "mo_windows m' = mo_windows m" "inserted i ws m m'" by blast
  note I = m'(4) [unfolded inserted_def]
  have wss: "mo_workspaces m' = take i ?wss @ ws # drop i ?wss" using I by blast
  have len: "length (mo_workspaces m') = length ?wss + 1" and il: "i < length (mo_workspaces m')" using i by (simp_all add: wss)
  have conf: "above_first m' = above_first m" "options_ok m'" using I monitor_invD(1) [OF inv] by (auto simp: same_conf_def options_ok_def untidy_inv_def)
  have a: "mo_active_workspace_idx m' < length (mo_workspaces m')" using I monitor_invD(5) [OF inv] by (auto simp: len)
  have edges: "edges_ok (above_first m) (mo_workspaces m')" unfolding wss
    by (rule insert_edges [OF monitor_invD(9) [OF inv]]) (use i in auto)
  have two: "above_first m \<longrightarrow> length (mo_workspaces m') \<noteq> 2" using i by (auto simp: len)
  have semi: "semi_inv parent m'" using m' a edges conf two by (simp add: semi_inv_def untidy_inv_def)
  have at: "mo_workspaces m' ! i = ws" using i by (simp add: wss nth_append)
  have "used (mo_workspaces m' ! k)" if sw: "mo_workspace_switch m' = None" and k: "(if above_first m' then 1 else 0) \<le> k"
    "k < length (mo_workspaces m') - 1" "k \<noteq> mo_active_workspace_idx m'" "ws_id (mo_workspaces m' ! k) \<noteq> ws_id ws" for k
  proof -
    have "mo_workspace_switch m = None" using I sw by blast
    then have T: "\<And>j. (if above_first m then 1 else 0) \<le> j \<Longrightarrow> j < length ?wss - 1 \<Longrightarrow> j \<noteq> ?a \<Longrightarrow> used (?wss ! j)"
      using inv by (simp add: monitor_inv_def tidy_def)
    have act: "mo_active_workspace_idx m' = (if i \<le> ?a then ?a + 1 else ?a)" using I by blast
    consider "k < i" | "k = i" | "i < k" by linarith
    then show ?thesis
    proof cases
      case 1
      then have "k \<noteq> ?a" using k(3) by (auto simp: act)
      then show ?thesis using T [of k] k(1,2) i 1 by (simp add: wss nth_append conf)
    next
      case 2
      then show ?thesis using k(4) at by simp
    next
      case 3
      then have "mo_workspaces m' ! k = ?wss ! (k - 1)" using i k(2) by (auto simp: wss nth_append len nth_Cons' min_def)
      moreover have "k - 1 \<noteq> ?a" using 3 k(3) by (cases "i \<le> ?a") (auto simp: act)
      moreover have "(if above_first m then 1 else 0) \<le> k - 1" "k - 1 < length ?wss - 1" using 3 k(1,2) i by (auto simp: conf len)
      ultimately show ?thesis using T [of "k - 1"] by simp
    qed
  qed
  then show "semi_inv parent m' \<and> mo_windows m' = mo_windows m \<and> i < length (mo_workspaces m') \<and> tidy_near (ws_id (mo_workspaces m' ! i)) m'"
    using semi m'(3) il at by (simp add: tidy_near_def)
qed

lemma drop_workspace_ok:
  assumes inv: "monitor_inv parent m" and target: "drop_target_ok m (iw, pos, offset)"
  shows "returns (drop_workspace iw m) (\<lambda>(i, m'). drop_ready parent pos m i m')"
proof (cases iw)
  case (Existing wid)
  then obtain i where i: "i < length (mo_workspaces m)" "ws_id (mo_workspaces m ! i) = wid" "position_ok pos (ws_scrolling (mo_workspaces m ! i))"
    using target by (auto simp: in_set_conv_nth)
  then show ?thesis using existing_position [OF monitor_invD(4) [OF inv] i(1)] drop_ready_same [OF inv i(1,3)]
    by (simp add: drop_workspace_def Existing)
next
  case (NewAt i)
  then have pos: "position_ok pos s" for s :: "'a scrolling_space" using target by auto
  have ne: "mo_workspaces m \<noteq> []" "0 < length (mo_workspaces m)" "length (mo_workspaces m) - 1 < length (mo_workspaces m)"
    using monitor_invD(6) [OF inv] by simp_all
  have new: "returns (add_workspace_at i m) (drop_ready parent pos m i)" if "i < length (mo_workspaces m) - 1" "\<not> (above_first m \<and> i = 0)"
    by (rule returns_mono [OF insert_inner [OF inv that(1)]]) (use that pos in \<open>auto simp: drop_ready_def dest: add_workspace_mints\<close>)
  show ?thesis using new ne drop_ready_same [OF inv ne(2) pos] drop_ready_same [OF inv ne(3) pos]
    by (auto simp: drop_workspace_def NewAt last_idx_def returns_bind not_le elim!: returns_mono)
qed

subsection \<open>Dropping\<close>

lemma drop_adds:
  assumes ready: "drop_ready (env_parent env) pos m i m1" and fresh: "tl_window (im_tile move) \<notin># mo_windows m"
  shows "returns (case pos of
      NewColumn column_idx \<Rightarrow> mo_add_tile env (im_tile move) (MonTargetWorkspace (ws_id (mo_workspaces m1 ! i)) (Some column_idx)) ActivateYes
        allow (im_width move) (im_is_full_width move) False m1
    | InColumn column_idx tile_idx \<Rightarrow> mo_add_tile_to_column env i column_idx (Some tile_idx) (im_tile move) True allow m1
    | InsertFloating \<Rightarrow> mo_add_tile env ((im_tile move)\<lparr>tl_floating_pos := p\<rparr>) (MonTargetWorkspace (ws_id (mo_workspaces m1 ! i)) None) ActivateYes
        allow (im_width move) (im_is_full_width move) True m1)
    (\<lambda>m'. monitor_inv (env_parent env) m' \<and> mo_windows m' = mo_windows m + {#tl_window (im_tile move)#} \<and> mints m m')"
proof -
  let ?wid = "ws_id (mo_workspaces m1 ! i)" and ?w = "tl_window (im_tile move)" and ?p = "env_parent env"
  note R = ready [unfolded drop_ready_def]
  have mem: "mo_workspaces m1 ! i \<in> set (mo_workspaces m1)" using R by simp
  have fin: "monitor_inv ?p m' \<and> mo_windows m' = mo_windows m + {#?w#} \<and> mints m m'"
    if "mo_adds ?p {#?w#} ?wid act m1 m'" "mints m1 m'" for m' act
    using that R by (auto simp: mo_adds_def monitor_inv_iff intro: mints_trans)
  have add: "returns (mo_add_tile env t target ActivateYes allow width full fl m1)
      (\<lambda>m'. monitor_inv ?p m' \<and> mo_windows m' = mo_windows m + {#?w#} \<and> mints m m')"
    if "tl_window t = ?w" "target = MonTargetWorkspace ?wid col" "mon_target_ok target m1" for t target col width full fl
  proof (rule returns_mono [OF mo_add_tile_ok [where tile = t, OF _ _ that(3)]])
    show "semi_inv ?p m1" "tl_window t \<notin># mo_windows m1" using R fresh that(1) by simp_all
    fix m' assume run: "mo_add_tile env t target ActivateYes allow width full fl m1 = Inr m'"
      and "\<exists>wid. goes_to target m1 wid \<and> mo_adds ?p {#tl_window t#} wid (allow \<and> map_smart ActivateYes False) m1 m'"
    then have "mo_adds ?p {#?w#} ?wid (allow \<and> map_smart ActivateYes False) m1 m'" using that(1,2) by auto
    from fin [OF this mo_adding_mints(2) [OF run]] show "monitor_inv ?p m' \<and> mo_windows m' = mo_windows m + {#?w#} \<and> mints m m'" .
  qed
  show ?thesis
  proof (cases pos)
    case (NewColumn ci)
    have "mon_target_ok (MonTargetWorkspace ?wid (Some ci)) m1" using R mem by (auto simp: NewColumn intro!: bexI [OF _ mem])
    then show ?thesis using add [OF refl refl] by (simp add: NewColumn)
  next
    case (InColumn ci ti)
    show ?thesis unfolding InColumn insert_position.case
      by (rule returns_mono [OF mo_add_tile_to_column_ok [where i = i and tile = "im_tile move"]])
        (use R fresh in \<open>auto simp: InColumn simp del: union_mset_add_mset_right intro!: fin mo_adding_mints(3)\<close>)
  next
    case InsertFloating
    have "mon_target_ok (MonTargetWorkspace ?wid None) m1" using mem by auto
    then show ?thesis using add [of "(im_tile move)\<lparr>tl_floating_pos := p\<rparr>", OF _ refl] by (simp add: InsertFloating)
  qed
qed

lemma drop_tile_ok:
  assumes inv: "monitor_inv (env_parent env) m" and target: "drop_target_ok m target" and fresh: "tl_window (im_tile move) \<notin># mo_windows m"
  shows "returns (drop_tile env geo move allow target m)
    (\<lambda>m'. monitor_inv (env_parent env) m' \<and> mo_windows m' = mo_windows m + {#tl_window (im_tile move)#} \<and> mints m m')"
proof -
  obtain iw pos offset where t: "target = (iw, pos, offset)" by (cases target)
  have found: "\<exists>ws. find (ws_has_window (tl_window (im_tile move))) (mo_workspaces m') = Some ws"
    if "mo_windows m' = mo_windows m + {#tl_window (im_tile move)#}" for m' :: "'a monitor"
  proof -
    have "tl_window (im_tile move) \<in># mo_windows m'" using that by simp
    then have "\<exists>ws \<in> set (mo_workspaces m'). ws_has_window (tl_window (im_tile move)) ws" by (simp add: mem_wss_windows)
    then show ?thesis by (metis find_None_iff not_None_eq)
  qed
  show ?thesis unfolding drop_tile_def t prod.case Let_def returns_bind
  proof (rule returns_mono [OF drop_workspace_ok [OF inv target [unfolded t]]])
    fix x assume "case x of (i, m1) \<Rightarrow> drop_ready (env_parent env) pos m i m1"
    then obtain i m1 where x: "x = (i, m1)" and ready: "drop_ready (env_parent env) pos m i m1" by (cases x) auto
    have i: "i < length (mo_workspaces m1)" using ready by (simp add: drop_ready_def)
    show "returns (case x of (ws_idx, ma) \<Rightarrow> bind_res (vec_index (mo_workspaces ma) ws_idx) (\<lambda>ws.
          bind_res
            (case pos of
               NewColumn column_idx \<Rightarrow>
                 mo_add_tile env (im_tile move) (MonTargetWorkspace (ws_id ws) (Some column_idx)) ActivateYes
                   allow (im_width move) (im_is_full_width move) False ma
             | InColumn column_idx tile_idx \<Rightarrow> mo_add_tile_to_column env ws_idx column_idx (Some tile_idx) (im_tile move) True allow ma
             | InsertFloating \<Rightarrow>
                 mo_add_tile env ((im_tile move)\<lparr>tl_floating_pos := drop_floating_pos geo move iw offset (gm_zoom geo m) ws\<rparr>)
                   (MonTargetWorkspace (ws_id ws) None) ActivateYes allow (im_width move) (im_is_full_width move) True ma) (\<lambda>m.
          bind_res (unwrap (find (ws_has_window (tl_window (im_tile move))) (mo_workspaces m))) (\<lambda>_. Inr m))))
      (\<lambda>m'. monitor_inv (env_parent env) m' \<and> mo_windows m' = mo_windows m + {#tl_window (im_tile move)#} \<and> mints m m')"
      unfolding x prod.case vec_index_def if_P [OF i] bind_res.simps returns_bind [of "case_insert_position _ _ _ _"]
      by (rule returns_mono [OF drop_adds [OF ready fresh]]) (use found in fastforce)
  qed
qed

lemma drop_anywhere_adds:
  assumes inv: "layout_inv (env_parent env) l" and set: "la_monitor_set l = NoOutputs wss0" and fresh: "tl_window (im_tile move) \<notin># la_windows l"
  shows "returns (drop_anywhere env move wss0 l) (la_adds (env_parent env) {#tl_window (im_tile move)#} l)"
proof -
  let ?p = "env_parent env" and ?W = "{#tl_window (im_tile move)#}"
  obtain wss n where push: "push_if_empty wss0 l = (wss, n)" by (cases "push_if_empty wss0 l")
  note P = push_if_empty_ok [OF inv set push]
  have l0: "0 < length wss" using P(5) by simp
  have dist: "mset_distinct (la_windows l + ?W)" using layout_invD(5) [OF inv] fresh by simp
  have "ws_windows (wss ! 0) \<subseteq># placed_windows l" using wss_windows_nth_sub [OF l0] P(2) by (simp add: placed_windows_def set)
  then have f0: "tl_window (im_tile move) \<notin># ws_windows (wss ! 0)" using fresh by (auto simp: la_windows_def dest: mset_subset_eqD)
  have w0: "workspace_inv ?p (wss ! 0)" using P(1) l0 by (simp add: pool_ok_def list_all_length)
  obtain ws where add: "ws_add_tile env (im_tile move) TargetAuto ActivateYes (im_width move) (im_is_full_width move) (im_is_floating move) (wss ! 0) = Inr ws"
    "ws_adds ?p ?W (wss ! 0) ws"
    using ws_add_tile_ok [OF w0 f0, of TargetAuto ActivateYes "im_width move" "im_is_full_width move" "im_is_floating move"] by (auto simp: returns_def)
  have "la_adds ?p ?W l (l\<lparr>la_monitor_set := NoOutputs (wss[0 := ws]), la_next_id := n\<rparr>)"
    by (rule no_outputs_adds [OF inv set P(1-4) l0 add(2) _ dist refl]) simp
  then show ?thesis using l0 by (simp add: drop_anywhere_def push vec_simps add(1))
qed

lemma drop_window_adds:
  assumes geo: "geometry_ok geo" and inv: "layout_inv (env_parent env) l" and fresh: "tl_window (im_tile move) \<notin># la_windows l"
  shows "returns (drop_window env geo move l) (la_adds (env_parent env) {#tl_window (im_tile move)#} l)"
proof (cases "la_monitor_set l")
  case (Normal mons p a)
  let ?p = "env_parent env" and ?W = "{#tl_window (im_tile move)#}"
  have dist: "mset_distinct (la_windows l + ?W)" using layout_invD(5) [OF inv] fresh by simp
  have on: "returns (on_monitor i (\<lambda>m. bind_res (t m) (\<lambda>target. drop_tile env geo move allow target m)) l) (la_adds ?p ?W l)"
    if i: "i < length mons" and t: "\<And>m. monitor_inv ?p m \<Longrightarrow> returns (t m) (drop_target_ok m)" for i t allow
  proof -
    let ?m = "with_counter (la_next_id l) (mons ! i)" and ?f = "\<lambda>m. bind_res (t m) (\<lambda>target. drop_tile env geo move allow target m)"
    have m: "monitor_inv ?p ?m" by (rule monitor_at [OF inv Normal i])
    have "tl_window (im_tile move) \<notin># mo_windows ?m" using fresh by (simp add: la_windows_def placed_split [OF Normal i])
    then have f: "returns (?f ?m) (\<lambda>m'. monitor_inv ?p m' \<and> mo_windows m' = mo_windows ?m + ?W \<and> mints ?m m')"
      unfolding returns_bind by (intro returns_mono [OF t [OF m]] drop_tile_ok [OF m])
    then have f': "returns (?f ?m) (\<lambda>m'. monitor_inv ?p m' \<and> mo_windows m' = mo_windows ?m + ?W)"
      by (rule returns_mono) blast
    have "mints ?m m'" if "?f ?m = Inr m'" for m' using f that by (auto simp: returns_def)
    from on_monitor_adds [where f = ?f, OF inv Normal i refl f' this dist] show ?thesis by (rule returns_mono) auto
  qed
  show ?thesis
  proof (cases "position (is_output (im_output move)) mons")
    case None
    then show ?thesis using on [OF layout_inv_normalD(2) [OF inv Normal] drop_elsewhere_ok] by (simp add: drop_window_def Normal)
  next
    case (Some i)
    then have "i < length mons" using position_Some [OF Some] by simp
    from on [OF this drop_on_output_ok [OF geo]] Some show ?thesis by (simp add: drop_window_def Normal)
  qed
next
  case (NoOutputs wss)
  then show ?thesis using drop_anywhere_adds [OF inv NoOutputs fresh] by (simp add: drop_window_def)
qed

end
