(* ===== verification/Layout_Moves.thy ===== *)
theory Layout_Moves
  imports Layout_Dropping
begin

text \<open>Interactive moves, from their begin to their end, and closing a window at any time.\<close>

subsection \<open>The end\<close>

lemma geometry_okD: "geometry_ok geo \<Longrightarrow> gm_snap geo s = Some i \<Longrightarrow> i < length (sc_columns s)"
  by (simp add: geometry_ok_def)

text \<open>Without the move, the windows in the workspaces are still fine.\<close>

lemma move_cleared:
  assumes "layout_inv parent l"
  shows "layout_inv parent (l\<lparr>la_interactive_move := None\<rparr>)"
proof -
  have "moving_windows (l\<lparr>la_interactive_move := None\<rparr>) = {#}" by (simp add: moving_windows_def moving_window_def)
  moreover have "mset_distinct (wss_windows (la_workspaces l))"
    using layout_invD(5) [OF assms] by (auto simp: la_windows_def placed_windows_def dest: mset_distinct_sub)
  ultimately show ?thesis using assms by (simp add: layout_inv_def start_ok_def pool_ok_def)
qed

lemma moving_none: "la_interactive_move l = None \<Longrightarrow> moving_windows l = {#}"
  by (simp add: moving_windows_def moving_window_def)

lemma unlock_keeps:
  assumes inv: "workspace_inv (env_parent env) ws" and geo: "geometry_ok geo"
  shows "returns (unlock_keeping_active env geo w ws) (ws_keeps (env_parent env) ws)"
proof -
  have k: "ws_keeps (env_parent env) ws (ws_dnd_scroll_gesture_end geo ws)"
  proof (cases "gm_snap geo (ws_scrolling ws)")
    case None
    then show ?thesis using inv by (simp add: ws_dnd_scroll_gesture_end_def ws_keeps_refl)
  next
    case (Some i)
    have "sc_keeps (ws_scrolling ws) ((ws_scrolling ws)\<lparr>sc_active_column_idx := i\<rparr>)"
      using workspace_invD(1) [OF inv] geometry_okD [OF geo Some] by (auto simp: sc_keeps_def scrolling_inv_def)
    from sc_keeps_ws_keeps [OF inv this] show ?thesis by (simp add: ws_dnd_scroll_gesture_end_def Some)
  qed
  then have inv': "workspace_inv (env_parent env) (ws_dnd_scroll_gesture_end geo ws)" by (simp add: ws_keeps_def)
  have "returns (discard (ws_activate_window env w (ws_dnd_scroll_gesture_end geo ws))) (ws_keeps (env_parent env) ws)"
    unfolding discard_def returns_bind
    by (rule returns_mono [OF ws_activate_window_ok [OF inv']]) (auto intro: ws_keeps_trans [OF k])
  then show ?thesis using k by (cases rule: ws_active_window_cases [OF inv]) (auto simp: unlock_keeping_active_def Let_def)
qed

lemma unlock_all_rearranges:
  assumes geo: "geometry_ok geo" and inv: "layout_inv (env_parent env) l"
  shows "returns (bind_res (monitors_dnd_end geo l) (workspaces_mut (unlock_keeping_active env geo w))) (la_rearranges (env_parent env) l)"
  unfolding returns_bind
proof (rule returns_mono [OF dnd_end_keeps(2) [OF inv geometry_okD [OF geo]]], assumption)
  fix l1 assume l1: "la_rearranges (env_parent env) l l1"
  show "returns (workspaces_mut (unlock_keeping_active env geo w) l1) (la_rearranges (env_parent env) l)"
    by (rule returns_mono [OF workspaces_mut_rearranges [OF rearranges_inv [OF l1] unlock_keeps [OF _ geo]]])
      (auto intro: la_rearranges_trans [OF l1])
qed

lemma unlock_move_rearranges:
  assumes geo: "geometry_ok geo" and inv: "layout_inv (env_parent env) l"
  shows "returns (bind_res (monitors_dnd_end geo l) (\<lambda>l. if b then workspaces_dnd_end geo l else Inr l)) (la_rearranges (env_parent env) l)"
  unfolding returns_bind
proof (rule returns_mono [OF dnd_end_keeps(2) [OF inv geometry_okD [OF geo]]], assumption)
  fix l1 assume l1: "la_rearranges (env_parent env) l l1"
  have "returns (workspaces_dnd_end geo l1) (la_rearranges (env_parent env) l)"
    by (rule returns_mono [OF dnd_end_keeps(1) [OF rearranges_inv [OF l1] geometry_okD [OF geo]]])
      (auto intro: la_rearranges_trans [OF l1])
  then show "returns (if b then workspaces_dnd_end geo l1 else Inr l1) (la_rearranges (env_parent env) l)" using l1 by simp
qed

lemma interactive_move_end_ok:
  assumes geo: "geometry_ok geo" and inv: "layout_inv (env_parent env) l"
  shows "returns (interactive_move_end env geo w l) (\<lambda>l'. la_keeps (env_parent env) l l' \<and>
    (la_interactive_move l' = None \<or> l' = l \<and> (\<forall>d r. la_interactive_move l \<noteq> Some (Starting w d r)) \<and> moving_window l \<noteq> Some w))"
proof (cases "la_interactive_move l")
  case None
  then show ?thesis using la_keeps_refl [OF inv] by (simp add: interactive_move_end_def)
next
  case (Some mv)
  let ?p = "env_parent env" and ?l = "l\<lparr>la_interactive_move := None\<rparr>"
  note inv0 = move_cleared [OF inv]
  have moving0: "moving_windows ?l = {#}" by (simp add: moving_windows_def moving_window_def)
  show ?thesis
  proof (cases mv)
    case (Starting v d r)
    have fin: "la_keeps ?p l l' \<and> la_interactive_move l' = None" if "la_rearranges ?p ?l l'" for l'
      using that by (auto simp: la_rearranges_def la_keeps_def la_windows_def moving_windows_def moving_window_def Some Starting)
    show ?thesis
    proof (cases "v = w")
      case True
      then show ?thesis using returns_mono [OF unlock_all_rearranges [OF geo inv0, of w]] fin
        by (simp add: interactive_move_end_def Some Starting)
    next
      case False
      then show ?thesis using la_keeps_refl [OF inv] by (simp add: interactive_move_end_def Some Starting moving_window_def)
    qed
  next
    case (Moving move)
    have here: "moving_window l = Some (tl_window (im_tile move))" by (simp add: moving_window_def Some Moving)
    then have here': "moving_windows l = {#tl_window (im_tile move)#}" by (simp add: moving_windows_def)
    show ?thesis
    proof (cases "w = tl_window (im_tile move)")
      case False
      then show ?thesis using la_keeps_refl [OF inv] by (simp add: interactive_move_end_def Some Moving moving_window_def)
    next
      case True
      have split: "interactive_move_end env geo w l = bind_res (bind_res (monitors_dnd_end geo ?l)
          (\<lambda>l. if \<not> im_is_floating move then workspaces_dnd_end geo l else Inr l)) (drop_window env geo move)"
        by (cases "monitors_dnd_end geo ?l") (simp_all add: interactive_move_end_def Some Moving True)
      have fresh: "tl_window (im_tile move) \<notin># placed_windows l"
        using layout_invD(5) [OF inv] by (simp add: la_windows_def moving_windows_def here)
      show ?thesis unfolding split returns_bind [of "bind_res _ _"]
      proof (rule returns_mono [OF unlock_move_rearranges [OF geo inv0]])
        fix l1 assume l1: "la_rearranges ?p ?l l1"
        then have l1': "layout_inv ?p l1" "placed_windows l1 = placed_windows l" "la_interactive_move l1 = None"
          by (auto simp: la_rearranges_def)
        then have "tl_window (im_tile move) \<notin># la_windows l1" using fresh by (simp add: la_windows_def moving_windows_def moving_window_def)
        from drop_window_adds [OF geo l1'(1) this] show "returns (drop_window env geo move l1) (\<lambda>l'. la_keeps ?p l l' \<and> (la_interactive_move l' = None \<or>
            l' = l \<and> (\<forall>d r. la_interactive_move l \<noteq> Some (Starting w d r)) \<and> moving_window l \<noteq> Some w))"
          by (rule returns_mono) (auto simp: la_adds_def la_keeps_def la_windows_def l1' here' moving_none)
      qed
    qed
  qed
qed

subsection \<open>Closing\<close>

text \<open>Closing a window takes exactly that window out of the layout, wherever it is.\<close>

lemma remove_window_ok:
  assumes geo: "geometry_ok geo" and inv: "layout_inv (env_parent env) l" and w: "w \<in># la_windows l"
  shows "returns (remove_window env geo w l) (\<lambda>(r, l'). (\<exists>t. r = Some t \<and> tl_window (rt_tile t) = w) \<and> layout_inv (env_parent env) l' \<and>
    la_windows l = la_windows l' + {#w#} \<and> (la_interactive_move l' = la_interactive_move l \<or> la_interactive_move l' = None))"
proof -
  let ?p = "env_parent env"
  have placed: "returns (remove_placed_window w l1) (\<lambda>(r, l'). (\<exists>t. r = Some t \<and> tl_window (rt_tile t) = w) \<and> layout_inv ?p l' \<and>
      la_windows l1 = la_windows l' + {#w#} \<and> la_interactive_move l' = la_interactive_move l1)"
    if "layout_inv ?p l1" "w \<in># placed_windows l1" "\<And>v d r. la_interactive_move l1 = Some (Starting v d r) \<Longrightarrow> v \<noteq> w" for l1
    by (rule returns_mono [OF remove_placed_window_ok [OF that]])
      (auto simp: la_removes_def la_windows_def moving_windows_def moving_window_def split: option.splits interactive_move.splits)
  show ?thesis
  proof (cases "la_interactive_move l")
    case None
    then have "w \<in># placed_windows l" using w by (simp add: la_windows_def moving_windows_def moving_window_def)
    from placed [OF inv this] None show ?thesis by (auto simp: remove_window_def elim!: returns_mono)
  next
    case (Some mv)
    show ?thesis
    proof (cases mv)
      case (Starting v d r)
      have p: "w \<in># placed_windows l" using w by (simp add: la_windows_def moving_windows_def moving_window_def Some Starting)
      show ?thesis
      proof (cases "v = w")
        case False
        from placed [OF inv p] False show ?thesis by (auto simp: remove_window_def Some Starting elim!: returns_mono)
      next
        case True
        have "returns (bind_res (interactive_move_end env geo w l) (remove_placed_window w)) (\<lambda>(r, l'). (\<exists>t. r = Some t \<and> tl_window (rt_tile t) = w) \<and>
            layout_inv ?p l' \<and> la_windows l = la_windows l' + {#w#} \<and> (la_interactive_move l' = la_interactive_move l \<or> la_interactive_move l' = None))"
          unfolding returns_bind
        proof (rule returns_mono [OF interactive_move_end_ok [OF geo inv]])
          fix l1 assume "la_keeps ?p l l1 \<and> (la_interactive_move l1 = None \<or> l1 = l \<and> (\<forall>d r. la_interactive_move l \<noteq> Some (Starting w d r)) \<and> moving_window l \<noteq> Some w)"
          then have l1: "layout_inv ?p l1" "la_windows l1 = la_windows l" "la_interactive_move l1 = None" using True by (auto simp: la_keeps_def Some Starting)
          then have "w \<in># placed_windows l1" using w by (simp add: la_windows_def moving_windows_def moving_window_def)
          from placed [OF l1(1) this] l1 show "returns (remove_placed_window w l1) (\<lambda>(r, l'). (\<exists>t. r = Some t \<and> tl_window (rt_tile t) = w) \<and>
            layout_inv ?p l' \<and> la_windows l = la_windows l' + {#w#} \<and> (la_interactive_move l' = la_interactive_move l \<or> la_interactive_move l' = None))"
            by (auto elim!: returns_mono)
        qed
        then show ?thesis using True by (simp add: remove_window_def Some Starting)
      qed
    next
      case (Moving move)
      show ?thesis
      proof (cases "tl_window (im_tile move) = w")
        case False
        have "w \<in># placed_windows l" using w False by (simp add: la_windows_def moving_windows_def moving_window_def Some Moving)
        from placed [OF inv this] False show ?thesis by (auto simp: remove_window_def Some Moving elim!: returns_mono)
      next
        case True
        let ?l = "l\<lparr>la_interactive_move := None\<rparr>"
        have "returns (bind_res (monitors_dnd_end geo ?l) (\<lambda>l. if True then workspaces_dnd_end geo l else Inr l)) (\<lambda>l'. layout_inv ?p l' \<and>
            la_windows l = la_windows l' + {#w#} \<and> la_interactive_move l' = None)"
          by (rule returns_mono [OF unlock_move_rearranges [OF geo move_cleared [OF inv]]])
            (auto simp: la_rearranges_def la_windows_def moving_windows_def moving_window_def Some Moving True)
        then show ?thesis using True
          by (cases "monitors_dnd_end geo ?l") (auto simp: remove_window_def Some Moving returns_bind elim!: returns_mono)
      qed
    qed
  qed
qed

subsection \<open>The begin\<close>

lemma begin_keeps:
  assumes inv: "layout_inv parent l"
  shows "returns (interactive_move_begin env geo w out ratio l) (\<lambda>(l', _). la_keeps parent l l')"
proof (cases "la_interactive_move l = None")
  case True
  note here = la_keeps_refl [OF inv]
  show ?thesis
  proof (cases "la_monitor_set l")
    case (Normal mons p a)
    show ?thesis
    proof (cases "find (visible_with_window geo w) mons")
      case (Some m)
      let ?l = "l\<lparr>la_interactive_move := Some (Starting w zero_point ratio)\<rparr>"
      have m: "m \<in> set mons" "visible_with_window geo w m" using Some by (auto simp: find_Some_iff)
      obtain i ws r where vis: "((i, ws), r) \<in> set (workspaces_with_render_geo_idx geo m)" "w \<in># ws_windows ws"
        using m(2) by (auto simp: visible_with_window_def list_ex_iff)
      have "i < length (mo_workspaces m)" "ws = mo_workspaces m ! i"
        using vis(1) by (auto simp: workspaces_with_render_geo_idx_def set_zip nth_enumerate_eq)
      then have "ws \<in> set (la_workspaces l)" using m(1) by (auto simp: Normal intro!: bexI [of _ m])
      then have "w \<in># placed_windows l" using vis(2) by (auto simp: placed_iff)
      then have inv1: "layout_inv parent ?l" and win: "la_windows ?l = la_windows l"
        using inv True by (simp_all add: layout_inv_def start_ok_def moving_windows_def moving_window_def la_windows_def)
      have "returns (monitors_mut (\<lambda>m. Inr (dnd_scroll_gesture_begin env (gm_now geo) m)) ?l) (la_keeps parent l)"
        by (rule returns_mono [OF monitors_mut_rearranges [OF inv1]])
          (auto simp: gesture_mints(2) la_keeps_def win dest!: rearranges_keeps intro: gesture_begin_keeps)
      then show ?thesis using True here by (simp add: interactive_move_begin_def Normal Some returns_bind)
    qed (use True here in \<open>simp add: interactive_move_begin_def Normal\<close>)
  qed (use True here in \<open>simp add: interactive_move_begin_def\<close>)
qed (use la_keeps_refl [OF inv] in \<open>simp add: interactive_move_begin_def\<close>)

subsection \<open>Updates\<close>

lemma take_window_ok:
  assumes geo: "geometry_ok geo" and inv: "layout_inv (env_parent env) l" and start: "la_interactive_move l = Some (Starting w d r)"
  shows "returns (take_window env geo w out pos ratio oc wc l) (\<lambda>l'. la_keeps (env_parent env) l l' \<and> moving_window l' = Some w)"
proof -
  let ?p = "env_parent env" and ?l = "l\<lparr>la_interactive_move := None\<rparr>"
  have w: "w \<in># placed_windows l" using layout_invD(4) [OF inv] by (simp add: start_ok_def start)
  have win: "la_windows l = placed_windows l" by (simp add: la_windows_def moving_windows_def moving_window_def start)
  have step: "returns (bind_res (ws_set_fullscreen env w False ws) (ws_set_maximized env w False)) (ws_keeps ?p ws)"
    if ws: "workspace_inv ?p ws" "w \<in># ws_windows ws" for ws
    unfolding returns_bind
  proof (rule returns_mono [of _ "ws_keeps ?p ws"])
    show "returns (ws_set_fullscreen env w False ws) (ws_keeps ?p ws)"
      using workspace_step_keeps [of env ws "WsSetFullscreen w False"] ws by (simp add: ws_rearranging_def)
    fix ws1 assume k: "ws_keeps ?p ws ws1"
    then have "workspace_inv ?p ws1" "w \<in># ws_windows ws1" using ws by (simp_all add: ws_keeps_def)
    then have "returns (ws_set_maximized env w False ws1) (ws_keeps ?p ws1)"
      using workspace_step_keeps [of env ws1 "WsSetMaximized w False"] by (simp add: ws_rearranging_def)
    then show "returns (ws_set_maximized env w False ws1) (ws_keeps ?p ws)" by (rule returns_mono) (rule ws_keeps_trans [OF k])
  qed
  have "returns (on_window w (\<lambda>ws. bind_res (ws_set_fullscreen env w False ws) (ws_set_maximized env w False)) ?l) (la_rearranges ?p ?l)"
    by (rule on_window_rearranges(2) [OF move_cleared [OF inv] step]) (use w in simp_all)
  then show ?thesis unfolding take_window_def returns_bind [of "on_window _ _ _"]
  proof (rule returns_mono)
    fix l1 assume l1: "la_rearranges ?p ?l l1"
    then have l1': "layout_inv ?p l1" "la_windows l1 = la_windows l" "la_interactive_move l1 = None"
      by (auto simp: la_rearranges_def la_windows_def moving_windows_def moving_window_def start)
    have "w \<in># la_windows l1" using w by (simp add: l1'(2) win)
    from remove_window_ok [OF geo l1'(1) this] obtain t l2 where rem: "remove_window env geo w l1 = Inr (Some t, l2)" "tl_window (rt_tile t) = w"
      and l2: "layout_inv ?p l2" "la_windows l1 = la_windows l2 + {#w#}" "la_interactive_move l2 = None" using l1'(3) by (auto simp: returns_def)
    define mk where "mk l = l\<lparr>la_interactive_move := Some (Moving
         \<lparr>im_tile = rt_tile t, im_output = out, im_pointer_pos_within_output = pos, im_width = rt_width t, im_is_full_width = rt_is_full_width t,
          im_is_floating = rt_is_floating t, im_pointer_ratio_within_window = ratio, im_output_config = oc, im_workspace_config = wc\<rparr>)\<rparr>" for l :: "'a layout"
    have fin: "la_keeps ?p l (mk l3) \<and> moving_window (mk l3) = Some w" if "la_rearranges ?p l2 l3" for l3
    proof -
      have l3: "layout_inv ?p l3" "placed_windows l3 = placed_windows l2" "la_interactive_move l3 = None" using that l2(3) by (auto simp: la_rearranges_def)
      have "la_windows l2 = placed_windows l2" by (simp add: la_windows_def moving_windows_def moving_window_def l2(3))
      then have eq: "la_windows (mk l3) = la_windows l" using l1'(2) l2(2) l3(2) rem(2)
        by (simp add: la_windows_def moving_windows_def moving_window_def mk_def)
      have "mset_distinct (la_windows (mk l3))" unfolding eq by (rule layout_invD(5) [OF inv])
      then have "layout_inv ?p (mk l3)" using l3(1)
        by (simp add: layout_inv_def pool_ok_def start_ok_def mk_def la_windows_def placed_windows_def)
      then show ?thesis using eq rem(2) by (simp add: la_keeps_def moving_window_def mk_def)
    qed
    have "returns (if rt_is_floating t then workspaces_dnd_end geo l2 else Inr l2) (la_rearranges ?p l2)"
      using dnd_end_keeps(1) [OF l2(1) geometry_okD [OF geo]] la_rearranges_refl [OF l2(1)] by simp
    then have "returns (bind_res (if rt_is_floating t then workspaces_dnd_end geo l2 else Inr l2) (\<lambda>l. Inr (mk l))) (\<lambda>l'. la_keeps ?p l l' \<and> moving_window l' = Some w)"
      unfolding returns_bind returns_Inr using fin by (rule returns_mono)
    then show "returns (bind_res (remove_window env geo w l1) (\<lambda>(removed, l). bind_res (unwrap removed) (\<lambda>removed.
       bind_res (if rt_is_floating removed then workspaces_dnd_end geo l else Inr l) (\<lambda>l.
       Inr (l\<lparr>la_interactive_move := Some (Moving
         \<lparr>im_tile = rt_tile removed, im_output = out, im_pointer_pos_within_output = pos, im_width = rt_width removed,
          im_is_full_width = rt_is_full_width removed, im_is_floating = rt_is_floating removed, im_pointer_ratio_within_window = ratio,
          im_output_config = oc, im_workspace_config = wc\<rparr>)\<rparr>))))) (\<lambda>l'. la_keeps ?p l l' \<and> moving_window l' = Some w)"
      by (simp add: rem(1) mk_def)
  qed
qed

lemma interactive_move_update_ok:
  assumes geo: "geometry_ok geo" and inv: "layout_inv (env_parent env) l"
  shows "returns (interactive_move_update env geo w delta out pos l) (\<lambda>(l', _). la_keeps (env_parent env) l l')"
proof (cases "la_interactive_move l")
  case None
  then show ?thesis using la_keeps_refl [OF inv] by (simp add: interactive_move_update_def)
next
  case (Some mv)
  let ?p = "env_parent env"
  note here = la_keeps_refl [OF inv]
  show ?thesis
  proof (cases mv)
    case (Starting v d r)
    have "v \<in># placed_windows l" using layout_invD(4) [OF inv] by (simp add: start_ok_def Some Starting)
    from locate_window [OF this] obtain loc where loc: "locate (ws_has_window v) l = Some loc" "valid_loc loc l" .
    have restart: "la_keeps ?p l (l\<lparr>la_interactive_move := Some (Starting v d' r')\<rparr>)" for d' r'
      using inv by (auto simp: la_keeps_def layout_inv_def start_ok_def la_windows_def moving_windows_def moving_window_def Some Starting)
    have take: "returns (bind_res (take_window env geo v out pos r oc wc l) (\<lambda>l. Inr (l, True))) (\<lambda>(l', _). la_keeps ?p l l')" for oc wc
      unfolding returns_bind by (rule returns_mono [OF take_window_ok [OF geo inv]]) (auto simp: Some Starting)
    show ?thesis
    proof (cases "v = w")
      case True
      show ?thesis using restart take loc unfolding True
        by (simp add: interactive_move_update_def Some Starting True Let_def)
    qed (use here in \<open>simp add: interactive_move_update_def Some Starting\<close>)
  next
    case (Moving move)
    have under: "returns (workspace_under_move geo out move l) (\<lambda>_. True)"
    proof (cases "monitor_for_output out l")
      case None
      then show ?thesis by (simp add: workspace_under_move_def)
    next
      case (Some m)
      then obtain mons p a where set: "la_monitor_set l = Normal mons p a" "m \<in> set mons"
        by (auto simp: monitor_for_output_def find_Some_iff split: monitor_set.splits)
      then have "mo_workspaces m \<noteq> []" by (rule monitor_invD(6) [OF layout_inv_normalD(4) [OF inv]])
      from mo_insert_position_ok [OF geo this, of "im_pointer_pos_within_output move"] show ?thesis
        by (auto simp: workspace_under_move_def Some returns_bind elim!: returns_mono split: insert_workspace_type.splits)
    qed
    have focus: "la_rearranges ?p l (if b then focus_output out l else l)" for b
      using focus_output_rearranges [OF inv] la_rearranges_refl [OF inv] by simp
    have drag: "la_keeps ?p l ((if b then focus_output out l else l)\<lparr>la_interactive_move := Some (Moving move')\<rparr>)"
      if "tl_window (im_tile move') = tl_window (im_tile move)" for b move'
    proof -
      have r: "la_rearranges ?p l (if b then focus_output out l else l)" by (rule focus)
      then have "la_interactive_move (if b then focus_output out l else l) = Some (Moving move)" by (simp add: la_rearranges_def Some Moving)
      from dragging_inv [OF rearranges_inv [OF r] this that] show ?thesis by (rule la_keeps_trans [OF rearranges_keeps [OF r]])
    qed
    obtain wid where wid: "workspace_under_move geo out move l = Inr wid" using under by (auto simp: returns_def)
    show ?thesis using here drag by (simp add: interactive_move_update_def Some Moving wid Let_def)
  qed
qed

end
