(* ===== verification/Layout_Names.thy ===== *)
theory Layout_Names
  imports Layout_Moves
begin

text \<open>Gestures, the overview, the configuration, and the names of workspaces.\<close>

subsection \<open>Gestures\<close>

lemma gesture_rearranges:
  assumes inv: "layout_inv parent l"
  shows "\<exists>mons p a. la_monitor_set l = Normal mons p a \<Longrightarrow>
      returns (la_workspace_switch_gesture_begin env geo out touchpad l) (la_rearranges parent l)"
    "returns (la_workspace_switch_gesture_update geo delta ts touchpad l) (la_rearranges parent l)"
    "returns (la_workspace_switch_gesture_end geo ended l) (la_rearranges parent l)"
proof -
  have first: "returns (first_of (workspace_switch_gesture_end h now None m)) (mo_keeps parent m)" if "monitor_inv parent m" for h now m
    using gesture_end_keeps(1) [OF that] by (auto simp: first_of_def returns_bind elim!: returns_mono)
  have mints: "mints m m'" if "first_of (workspace_switch_gesture_end h now None m) = Inr m'" for h now m m'
    using that by (auto simp: first_of_def dest: gesture_mints(4))
  have "returns (monitors_mut (\<lambda>m. if \<not> is_output out m then first_of (workspace_switch_gesture_end (gm_gesture_height geo m) (gm_now geo) None m)
        else Inr (workspace_switch_gesture_begin env touchpad m)) l) (la_rearranges parent l)"
    by (rule monitors_mut_rearranges [OF inv]) (auto simp: first gesture_begin_keeps(1) gesture_mints(1) dest: mints split: if_splits)
  then show "\<exists>mons p a. la_monitor_set l = Normal mons p a \<Longrightarrow>
      returns (la_workspace_switch_gesture_begin env geo out touchpad l) (la_rearranges parent l)"
    by (auto simp: la_workspace_switch_gesture_begin_def)
  have q: "returns (bind_res (workspace_switch_gesture_update z h delta ts touchpad m) (\<lambda>(m, refresh). Inr (m, refresh \<noteq> None))) (\<lambda>(m', _). quiet parent m m')"
    if "monitor_inv parent m" for z h m
    using gesture_quiet(1) [OF that] by (auto simp: returns_bind elim!: returns_mono)
  show "returns (la_workspace_switch_gesture_update geo delta ts touchpad l) (la_rearranges parent l)"
  proof (cases "la_monitor_set l")
    case (Normal mons p a)
    show ?thesis unfolding la_workspace_switch_gesture_update_def Normal monitor_set.case returns_bind [of "until_found _ _ _"]
      by (rule returns_mono [OF until_found_quiet [OF inv Normal q]]) auto
  qed (simp add: la_workspace_switch_gesture_update_def la_rearranges_refl [OF inv])
  show "returns (la_workspace_switch_gesture_end geo ended l) (la_rearranges parent l)"
  proof (cases "la_monitor_set l")
    case (Normal mons p a)
    show ?thesis unfolding la_workspace_switch_gesture_end_def Normal monitor_set.case returns_bind
      by (rule returns_mono [OF until_found_quiet [OF inv Normal gesture_quiet(2)]]) auto
  qed (simp add: la_workspace_switch_gesture_end_def la_rearranges_refl [OF inv])
qed

subsection \<open>The overview\<close>

lemma start_ok_simps [simp]:
  "start_ok (l\<lparr>la_overview_open := b\<rparr>) = start_ok l" "start_ok (l\<lparr>la_options := opts\<rparr>) = start_ok l"
  by (simp_all add: start_ok_def cong: option.case_cong interactive_move.case_cong)

lemma rearranges_overview [simp]:
  "la_rearranges parent l (l'\<lparr>la_overview_open := b\<rparr>) = la_rearranges parent l l'"
  "la_rearranges parent (l\<lparr>la_overview_open := b\<rparr>) l' = la_rearranges parent l l'"
  "layout_inv parent (l\<lparr>la_overview_open := b\<rparr>) = layout_inv parent l"
  by (simp_all add: la_rearranges_def layout_inv_def)

lemma toggle_overview_rearranges:
  assumes inv: "layout_inv parent l"
  shows "la_rearranges parent l (toggle_overview l)"
proof -
  let ?l = "l\<lparr>la_overview_open := \<not> la_overview_open l\<rparr>"
  have inv': "layout_inv parent ?l" using inv by simp
  have "la_rearranges parent ?l (set_monitors_overview_state ?l)"
  proof (cases "la_monitor_set ?l")
    case (Normal mons p a)
    have "quiet parent m (m\<lparr>mo_overview_open := b\<rparr>)" if "monitor_inv parent m" for m b
      using that by (simp add: quiet_def mo_keeps_def)
    then have "list_all2 (quiet parent) mons (map (\<lambda>m. m\<lparr>mo_overview_open := la_overview_open ?l\<rparr>) mons)"
      using layout_inv_normalD(4) [OF inv' Normal] by (simp add: list.rel_map list_all2_same)
    from quiet_monitors [OF inv' Normal this layout_inv_normalD(2) [OF inv' Normal]] Normal show ?thesis
      by (simp add: set_monitors_overview_state_def)
  qed (use la_rearranges_refl [OF inv'] in \<open>simp add: set_monitors_overview_state_def\<close>)
  then show ?thesis by (simp add: toggle_overview_def)
qed

lemma overview_rearranges:
  assumes inv: "layout_inv parent l"
  shows "la_rearranges parent l (fst (open_overview l))" "la_rearranges parent l (fst (close_overview l))"
  using toggle_overview_rearranges [OF inv] la_rearranges_refl [OF inv] by (simp_all add: open_overview_def close_overview_def)

lemma toggle_overview_to_workspace_rearranges:
  assumes inv: "layout_inv parent l" and idx: "\<And>mons p a. la_monitor_set l = Normal mons p a \<Longrightarrow> idx < length (mo_workspaces (mons ! a))"
  shows "returns (toggle_overview_to_workspace env idx l) (la_rearranges parent l)"
proof -
  have "returns (on_active_monitor (activate_workspace env idx) l) (la_rearranges parent l)"
  proof (cases "la_monitor_set l")
    case (Normal mons p a)
    have "returns (on_monitor a (activate_workspace env idx) l) (la_rearranges parent l)"
      by (rule on_monitor_rearranges [OF inv Normal layout_inv_normalD(2) [OF inv Normal] _ activate_workspace_mints])
        (use idx [OF Normal] in \<open>auto intro!: returns_mono [OF activate_workspace_keeps]\<close>)
    then show ?thesis by (simp add: on_active_monitor_def Normal)
  qed (simp add: on_active_monitor_def la_rearranges_refl [OF inv])
  then show ?thesis unfolding toggle_overview_to_workspace_def returns_bind returns_Inr
    by (rule returns_mono) (auto intro: la_rearranges_trans toggle_overview_rearranges rearranges_inv)
qed

subsection \<open>The configuration\<close>

lemma rearranges_options [simp]: "la_rearranges parent l (l'\<lparr>la_options := opts\<rparr>) = la_rearranges parent l l'"
  by (simp add: la_rearranges_def layout_inv_def)

lemma update_options_rearranges:
  assumes inv: "layout_inv parent l"
  shows "returns (update_options options l) (la_rearranges parent l)"
proof (cases "la_monitor_set l")
  case (Normal mons p a)
  have "returns (monitors_mut (mo_update_config options) l) (la_rearranges parent l)"
    by (rule monitors_mut_rearranges [OF inv mo_update_config_keeps(1) mo_update_config_mints(1)])
  then show ?thesis by (simp add: update_options_def Normal returns_bind)
next
  case (NoOutputs wss)
  have "list_all2 (ws_keeps parent) wss (map (ws_update_config d) wss)" for d
    using layout_invD(2) [OF inv] by (auto simp: NoOutputs pool_ok_def list_all_iff list.rel_map list_all2_same intro: ws_update_config_keeps)
  from no_outputs_keeps [OF inv NoOutputs this] show ?thesis by (simp add: update_options_def NoOutputs)
qed

lemma update_config_rearranges:
  assumes inv: "layout_inv parent l"
  shows "returns (update_config configs options l) (la_rearranges parent l)"
  unfolding update_config_def returns_bind
proof (rule returns_mono [OF workspaces_mut_rearranges [OF inv]])
  fix ws assume "workspace_inv parent ws"
  then show "returns (Inr (case ws_name ws of None \<Rightarrow> ws | Some name \<Rightarrow> (case find (\<lambda>c. wc_name c = name) configs of None \<Rightarrow> ws
      | Some config \<Rightarrow> ws_update_layout_config (wc_layout_display config) ws))) (ws_keeps parent ws)"
    using ws_update_layout_config_keeps ws_keeps_refl by (auto split: option.split)
next
  fix l1 assume "la_rearranges parent l l1"
  then show "returns (update_options options l1) (la_rearranges parent l)"
    using returns_mono [OF update_options_rearranges [OF rearranges_inv]] la_rearranges_trans by blast
qed

subsection \<open>Names\<close>

lemma unname_no_outputs:
  assumes inv: "layout_inv parent l" and set: "la_monitor_set l = NoOutputs wss" and i: "i < length wss"
    and l': "l' = l\<lparr>la_monitor_set := NoOutputs (if ws_has_windows (ws_unname (wss ! i)) then wss[i := ws_unname (wss ! i)]
      else take i wss @ drop (Suc i) wss)\<rparr>"
  shows "la_rearranges parent l l'"
proof -
  let ?ws = "ws_unname (wss ! i)" and ?rest = "take i wss @ drop (Suc i) wss"
  have pool: "pool_ok parent (la_next_id l) (moving_windows l) wss" and used: "list_all used wss"
    using layout_invD(2,3) [OF inv] by (simp_all add: set monitor_set_ok_def)
  have ws: "workspace_inv parent ?ws" "ws_windows ?ws = ws_windows (wss ! i)" "ws_id ?ws = ws_id (wss ! i)"
    using pool i by (auto simp: pool_ok_def list_all_length)
  have m0: "mset wss = mset (wss ! i # ?rest)" using arg_cong [OF id_take_nth_drop [OF i], of mset] by simp
  have m1: "mset (wss[i := ?ws]) = mset (?ws # ?rest)" using i by (simp add: upd_conv_take_nth_drop)
  have p0: "pool_ok parent (la_next_id l) (moving_windows l) (wss ! i # ?rest)" using pool pool_ok_mset [OF m0] by simp
  then have p1: "pool_ok parent (la_next_id l) (moving_windows l) (?ws # ?rest)" using ws by (auto simp: pool_ok_def)
  have urest: "list_all used ?rest" using used set_take_drop [of i wss] by (auto simp: list_all_iff simp del: set_append)
  define wss' where "wss' = (if ws_has_windows ?ws then wss[i := ?ws] else ?rest)"
  have "pool_ok parent (la_next_id l) (moving_windows l) wss' \<and> list_all used wss' \<and> wss_windows wss' = wss_windows wss"
  proof (cases "ws_has_windows ?ws")
    case True
    then have "used ?ws" by (simp add: used_iff ws_has_windows_iff)
    then show ?thesis using True p1 pool_ok_mset [OF m1] used wss_windows_mset [OF m0] wss_windows_mset [OF m1] ws(2)
      by (simp add: wss'_def list_all_update)
  next
    case False
    then have "ws_windows (wss ! i) = {#}" using ws(2) by (simp add: ws_has_windows_iff)
    then show ?thesis using False p0 urest wss_windows_mset [OF m0] by (auto simp: wss'_def pool_ok_def)
  qed
  then have P: "pool_ok parent (la_next_id l) (moving_windows l) wss'" "list_all used wss'" "wss_windows wss' = wss_windows wss" by blast+
  have placed: "placed_windows l' = placed_windows l" using P(3) by (simp add: l' wss'_def placed_windows_def set)
  have "start_ok l'" by (rule start_ok_mono [OF layout_invD(4) [OF inv]]) (simp add: l', simp add: placed)
  then show ?thesis using P(1,2) placed layout_invD(1) [OF inv]
    by (simp add: la_rearranges_def layout_inv_def monitor_set_ok_def l' wss'_def)
qed

lemma unname_by_id_rearranges:
  assumes inv: "layout_inv parent l"
  shows "returns (unname_workspace_by_id wid l) (la_rearranges parent l)"
proof (cases "la_monitor_set l")
  case (Normal mons p a)
  show ?thesis unfolding unname_workspace_by_id_def Normal monitor_set.case returns_bind
    by (rule returns_mono [OF until_found_quiet [OF inv Normal unname_quiet]]) auto
next
  case (NoOutputs wss)
  show ?thesis
  proof (cases "position (\<lambda>ws. ws_id ws = wid) wss")
    case None
    then show ?thesis by (simp add: unname_workspace_by_id_def NoOutputs la_rearranges_refl [OF inv])
  next
    case (Some i)
    then have i: "i < length wss" using position_Some [OF Some] by simp
    from unname_no_outputs [OF inv NoOutputs i refl] i show ?thesis
      by (cases "ws_has_windows (ws_unname (wss ! i))") (simp_all add: unname_workspace_by_id_def NoOutputs Some vec_modify_def vec_simps)
  qed
qed

lemma find_by_ref_valid:
  assumes inv: "layout_inv parent l"
  shows "returns (find_workspace_by_ref r l) (\<lambda>loc. \<forall>x. loc = Some x \<longrightarrow> valid_loc x l)"
    "returns (active_location l) (\<lambda>loc. \<forall>x. loc = Some x \<longrightarrow> valid_loc x l)"
    "returns (reference_or_active ref l) (\<lambda>loc. \<forall>x. loc = Some x \<longrightarrow> valid_loc x l)"
proof -
  show find: "returns (find_workspace_by_ref r l) (\<lambda>loc. \<forall>x. loc = Some x \<longrightarrow> valid_loc x l)" for r
  proof (cases r)
    case (RefIndex n)
    then show ?thesis using layout_inv_normalD(2) [OF inv]
      by (auto simp: find_workspace_by_ref_def valid_loc_def vec_simps split: monitor_set.split)
  qed (auto simp: find_workspace_by_ref_def dest: locate_Some)
  show act: "returns (active_location l) (\<lambda>loc. \<forall>x. loc = Some x \<longrightarrow> valid_loc x l)"
  proof (cases "la_monitor_set l")
    case (Normal mons p a)
    have "monitor_inv parent (mons ! a)" using layout_inv_normalD(2,4) [OF inv Normal] by simp
    then show ?thesis using active_valid(1) [OF inv Normal] layout_inv_normalD(2) [OF inv Normal]
      by (simp add: active_location_def Normal vec_simps mo_active_eq(1))
  qed (simp add: active_location_def)
  show "returns (reference_or_active ref l) (\<lambda>loc. \<forall>x. loc = Some x \<longrightarrow> valid_loc x l)"
    using find act by (simp add: reference_or_active_def split: option.split)
qed

lemma unset_name_rearranges:
  assumes inv: "layout_inv parent l"
  shows "returns (unset_workspace_name ref l) (la_rearranges parent l)" "returns (unname_workspace_by_ref r l) (la_rearranges parent l)"
  unfolding unset_workspace_name_def unname_workspace_by_ref_def returns_bind [of "reference_or_active _ _"] returns_bind [of "find_workspace_by_ref _ _"]
  by (rule returns_mono [OF find_by_ref_valid(3) [OF inv]], use unname_by_id_rearranges [OF inv] la_rearranges_refl [OF inv] in \<open>auto split: option.split\<close>)
    (rule returns_mono [OF find_by_ref_valid(1) [OF inv]], use unname_by_id_rearranges [OF inv] la_rearranges_refl [OF inv] in \<open>auto split: option.split\<close>)

subsection \<open>Naming\<close>

definition named :: "string \<Rightarrow> 'w lworkspace \<Rightarrow> 'w lworkspace" where
  "named name ws = ws\<lparr>ws_name := Some name\<rparr>"

lemma named_simps [simp]:
  "ws_id (named name ws) = ws_id ws" "ws_windows (named name ws) = ws_windows ws" "used (named name ws)"
  "workspace_inv parent (named name ws) = workspace_inv parent ws"
  by (simp_all add: named_def ws_windows_def used_iff workspace_inv_def floating_get_def)

lemma named_update:
  assumes "i < length wss"
  shows "map ws_id (wss[i := named name (wss ! i)]) = map ws_id wss" "wss_windows (wss[i := named name (wss ! i)]) = wss_windows wss"
proof -
  have "(map f wss)[i := f (wss ! i)] = map f wss" for f :: "'a lworkspace \<Rightarrow> 'a multiset"
    using assms by (simp add: list_update_same_conv)
  moreover have "(map f wss)[i := f (wss ! i)] = map f wss" for f :: "'a lworkspace \<Rightarrow> nat"
    using assms by (simp add: list_update_same_conv)
  ultimately show "map ws_id (wss[i := named name (wss ! i)]) = map ws_id wss" "wss_windows (wss[i := named name (wss ! i)]) = wss_windows wss"
    by (simp_all add: wss_windows_def map_update)
qed

lemma list_all_ids: "list_all (\<lambda>ws. ws_id ws < n) wss \<longleftrightarrow> list_all (\<lambda>k. k < n) (map ws_id wss)"
  by (simp add: list_all_iff)

text \<open>Naming a workspace of a monitor and adding the empty workspaces this asks for.\<close>

lemma name_workspace_keeps:
  assumes inv: "monitor_inv parent m" and i: "i < length (mo_workspaces m)"
  shows "returns (restore_edges (ws_id (mo_workspaces m ! i)) (store_workspace i (named name (mo_workspaces m ! i)) m)) (mo_keeps parent m)"
    "restore_edges (ws_id (mo_workspaces m ! i)) (store_workspace i (named name (mo_workspaces m ! i)) m) = Inr m' \<Longrightarrow> mints m m'"
proof -
  let ?ws = "named name (mo_workspaces m ! i)" and ?wid = "ws_id (mo_workspaces m ! i)"
  define m1 where "m1 = store_workspace i ?ws m"
  note D = semi_invD [OF monitor_invD(2) [OF inv]]
  have m1: "mo_workspaces m1 = (mo_workspaces m)[i := ?ws]" "mo_active_workspace_idx m1 = mo_active_workspace_idx m" "same_conf m m1"
    "mo_workspace_switch m1 = mo_workspace_switch m" "switch_inv m1"
    using D(5) by (simp_all add: m1_def)
  have next1: "mo_next_id m1 = mo_next_id m" by (simp add: m1_def store_workspace_def)
  have ids: "map ws_id (mo_workspaces m1) = map ws_id (mo_workspaces m)" and win: "mo_windows m1 = mo_windows m"
    unfolding m1(1) by (rule named_update [OF i])+
  have wi: "workspaces_inv parent m1"
  proof -
    have "list_all (workspace_inv parent) (mo_workspaces m1)" unfolding m1(1)
      by (rule list_all_update) (use D(2) i in \<open>auto simp: workspaces_inv_def list_all_length\<close>)
    then show ?thesis using D(2) by (simp add: workspaces_inv_def list_all_ids ids win next1)
  qed
  have mints1: "mints m m1" unfolding m1_def by (rule mints_store [OF i]) simp
  have il: "i < length (mo_workspaces m1)" "mo_workspaces m1 ! i = ?ws" "mo_workspaces m1 \<noteq> []" "mo_active_workspace_idx m1 < length (mo_workspaces m1)"
    using i D(3) by (auto simp: m1)
  have idx: "ws_id (mo_workspaces m1 ! k) = ?wid \<longleftrightarrow> k = i" if "k < length (mo_workspaces m1)" for k
  proof -
    have "distinct (map ws_id (mo_workspaces m1))" using wi by (simp add: workspaces_inv_def)
    from nth_eq_iff_index_eq [OF this, of k i] that il show ?thesis by simp
  qed
  have hd1: "ws_id (hd (mo_workspaces m1)) = ?wid \<longleftrightarrow> i = 0" using idx [of 0] il(3) by (auto simp: hd_conv_nth)
  have conf: "above_first m1 = above_first m" "mo_options m1 = mo_options m" using m1(3) by (simp_all add: same_conf_def)
  obtain m2 tops where top: "(if above_first m1 \<and> mo_workspaces m1 \<noteq> [] \<and> ws_id (hd (mo_workspaces m1)) = ?wid then add_workspace_top m1 else Inr m1) = Inr m2"
    and e2: "extended parent tops [] m1 m2" and t: "length tops = (if above_first m \<and> i = 0 then 1 else 0)"
  proof (cases "above_first m \<and> i = 0")
    case True
    then show ?thesis using add_top_ok [OF wi m1(5)] hd1 il(3) that by (auto simp: returns_def conf)
  next
    case False
    have "extended parent [] [] m1 m1" using wi m1(5) by (simp add: extended_def same_conf_def)
    then show ?thesis using False hd1 that [of m1 "[]"] by (auto simp: conf)
  qed
  have E: "mo_workspaces m2 = tops @ mo_workspaces m1" "workspaces_inv parent m2" "switch_inv m2"
    "mo_active_workspace_idx m2 = length tops + mo_active_workspace_idx m1" using e2 by (auto simp: extended_def)
  have last2: "ws_id (last (mo_workspaces m2)) = ?wid \<longleftrightarrow> i = length (mo_workspaces m1) - 1"
    using idx [of "length (mo_workspaces m1) - 1"] il(3) by (auto simp: E(1) last_conv_nth [of "mo_workspaces m1"])
  have a2: "mo_active_workspace_idx m2 < length (mo_workspaces m2)" using il(4) by (simp add: E)
  obtain m3 bots where bot: "(if mo_workspaces m2 \<noteq> [] \<and> ws_id (last (mo_workspaces m2)) = ?wid then add_workspace_bottom m2 else Inr m2) = Inr m3"
    and e3: "extended parent [] bots m2 m3" and b: "length bots = (if i = length (mo_workspaces m1) - 1 then 1 else 0)"
  proof (cases "i = length (mo_workspaces m1) - 1")
    case True
    obtain m' ws where "add_workspace_bottom m2 = Inr m'" "extended parent [] [ws] m2 m'"
      using add_workspace_bottom_ok [OF E(2,3) a2] by (auto simp: returns_def)
    then show ?thesis using True last2 il(3) that [of m' "[ws]"] by (simp add: E(1))
  next
    case False
    have "extended parent [] [] m2 m2" using E by (simp add: extended_def same_conf_def)
    then show ?thesis using False last2 that [of m2 "[]"] by auto
  qed
  have run: "restore_edges ?wid m1 = Inr m3" using top bot by (simp add: restore_edges_def)
  have un: "\<forall>ws \<in> set tops \<union> set bots. \<not> used ws" using e2 e3 by (auto simp: extended_def)
  have W: "mo_workspaces m3 = tops @ mo_workspaces m1 @ bots" "mo_active_workspace_idx m3 = length tops + mo_active_workspace_idx m"
    "mo_workspace_switch m3 = None \<longleftrightarrow> mo_workspace_switch m = None" "workspaces_inv parent m3" "switch_inv m3" "mo_windows m3 = mo_windows m"
    "above_first m3 = above_first m" "options_ok m3"
    using e2 e3 m1 win D(8) by (auto simp: extended_def same_conf_def options_ok_def)
  have "edges_ok (above_first m) (mo_workspaces m3)" unfolding W(1)
    by (rule edged_shape(1) [OF il(1) t b un D(7)]) (auto simp: m1(1) nth_list_update)
  moreover have "above_first m \<longrightarrow> length (mo_workspaces m3) \<noteq> 2" unfolding W(1)
    by (rule edged_shape(2) [OF il(1) t b un]) (use D(9) m1(1) in simp)
  moreover have "tidy_inv m3"
  proof -
    have "tidy (above_first m) (mo_active_workspace_idx m) (mo_workspaces m1)" if "mo_workspace_switch m = None"
      unfolding m1(1) by (rule tidy_near_store [OF D(2) i tidy_inv_near [OF monitor_invD(3) [OF inv]] _ that]) simp
    then show ?thesis unfolding tidy_inv_def W
      by (intro impI edged_shape(3) [OF il(1) t b un]) (use il(2) W(3) in auto)
  qed
  ultimately have "mo_keeps parent m m3" using W il(4) by (simp add: mo_keeps_def monitor_inv_iff semi_inv_def untidy_inv_def m1(2))
  with run show "returns (restore_edges ?wid (store_workspace i ?ws m)) (mo_keeps parent m)" by (simp add: m1_def)
  have "mints m1 m2" using top add_workspace_mints by (auto split: if_splits)
  moreover have "mints m2 m3" using bot add_workspace_mints by (auto split: if_splits)
  ultimately show "restore_edges ?wid (store_workspace i ?ws m) = Inr m' \<Longrightarrow> mints m m'"
    using run mints1 by (auto simp: m1_def intro: mints_trans)
qed

text \<open>
  A workspace can be named if the layout can restore the empty workspace at its edge: on the active
  monitor always, and elsewhere if it is not an edge workspace.
\<close>

definition can_name :: "nat \<times> nat \<Rightarrow> 'w layout \<Rightarrow> bool" where
  "can_name loc l \<longleftrightarrow> (case loc of (mi, wi) \<Rightarrow> case la_monitor_set l of
     Normal mons p a \<Rightarrow> mi = a \<or> wi \<noteq> length (mo_workspaces (mons ! mi)) - 1 \<and> (above_first (mons ! mi) \<longrightarrow> wi \<noteq> 0)
   | NoOutputs wss \<Rightarrow> True)"

lemma name_active_rearranges:
  assumes inv: "layout_inv parent l" and set: "la_monitor_set l = Normal mons p a" and i: "i < length (mo_workspaces (mons ! a))"
    and wid: "wid = ws_id (mo_workspaces (mons ! a) ! i)"
  shows "returns (bind_res (modify_at (a, i) (\<lambda>ws. Inr (ws\<lparr>ws_name := Some name\<rparr>)) l) (on_active_monitor (restore_edges wid))) (la_rearranges parent l)"
proof -
  let ?m = "with_counter (la_next_id l) (mons ! a)" and ?ws = "named name (mo_workspaces (mons ! a) ! i)"
  have a: "a < length mons" by (rule layout_inv_normalD(2) [OF inv set])
  let ?l = "l\<lparr>la_monitor_set := Normal (mons[a := store_workspace i ?ws ?m]) p a\<rparr>"
  have n: "mo_next_id (store_workspace i ?ws ?m) = la_next_id l" by (simp add: store_workspace_def)
  have "modify_at (a, i) (\<lambda>ws. Inr (ws\<lparr>ws_name := Some name\<rparr>)) l = Inr ?l"
    using a i n by (simp add: modify_at_def set on_monitor_def vec_simps on_workspace_def store_workspace_def named_def)
  moreover have "on_active_monitor (restore_edges wid) ?l = on_monitor a (\<lambda>m. restore_edges wid (store_workspace i ?ws m)) l"
  proof -
    have same: "with_counter (la_next_id l) (store_workspace i ?ws ?m) = store_workspace i ?ws ?m"
      by (simp add: with_counter_def store_workspace_def)
    show ?thesis using a same by (cases "restore_edges wid (store_workspace i ?ws ?m)") (simp_all add: on_active_monitor_def on_monitor_def set vec_simps)
  qed
  moreover have "returns (on_monitor a (\<lambda>m. restore_edges wid (store_workspace i ?ws m)) l) (la_rearranges parent l)"
    by (rule on_monitor_rearranges [OF inv set a])
      (use name_workspace_keeps [OF monitor_at [OF inv set a], of i name] i in \<open>simp_all add: wid\<close>)
  ultimately show ?thesis by simp
qed

lemma restore_edges_other:
  assumes "mo_workspaces m \<noteq> []" "wid \<notin> ws_id ` set (mo_workspaces m)"
  shows "restore_edges wid m = Inr m"
  using assms hd_in_set [OF assms(1)] last_in_set [OF assms(1)] by (auto simp: restore_edges_def)

lemma name_inner_keeps:
  assumes inv: "monitor_inv parent m" and i: "i < length (mo_workspaces m)" "i \<noteq> length (mo_workspaces m) - 1" "above_first m \<longrightarrow> i \<noteq> 0"
  shows "mo_keeps parent m (store_workspace i (named name (mo_workspaces m ! i)) m)"
proof -
  let ?m = "store_workspace i (named name (mo_workspaces m ! i)) m" and ?wid = "ws_id (mo_workspaces m ! i)"
  have wss: "mo_workspaces ?m = (mo_workspaces m)[i := named name (mo_workspaces m ! i)]" "mo_options ?m = mo_options m"
    by (simp_all add: store_workspace_def)
  have ne: "mo_workspaces ?m \<noteq> []" using i(1) by (auto simp: wss)
  have d: "distinct (map ws_id (mo_workspaces m))" using monitor_invD(4) [OF inv] by (simp add: workspaces_inv_def)
  have id: "ws_id (mo_workspaces ?m ! k) = ?wid \<longleftrightarrow> k = i" if "k < length (mo_workspaces m)" for k
    using that i(1) nth_eq_iff_index_eq [OF d, of k i] by (cases "k = i") (simp_all add: wss)
  have "ws_id (last (mo_workspaces ?m)) \<noteq> ?wid" using id [of "length (mo_workspaces m) - 1"] i ne by (simp add: last_conv_nth wss)
  moreover have "above_first m \<longrightarrow> ws_id (hd (mo_workspaces ?m)) \<noteq> ?wid" using id [of 0] i ne by (auto simp: hd_conv_nth)
  ultimately have "restore_edges ?wid ?m = Inr ?m" by (auto simp: restore_edges_def wss(2))
  with name_workspace_keeps(1) [OF inv i(1), of name] show ?thesis by simp
qed

text \<open>A workspace of one monitor is not on another.\<close>

lemma id_elsewhere:
  assumes inv: "layout_inv parent l" and set: "la_monitor_set l = Normal mons p a" and mi: "mi < length mons" "a' < length mons" "mi \<noteq> a'"
    and i: "i < length (mo_workspaces (mons ! mi))"
  shows "ws_id (mo_workspaces (mons ! mi) ! i) \<notin> ws_id ` set (mo_workspaces (mons ! a'))"
proof -
  have "pool_ok parent (la_next_id l) (moving_windows l) (others mi mons @ mo_workspaces (mons ! mi))"
    using layout_invD(2) [OF inv] pool_ok_mset [OF others_split [OF mi(1)]] by (simp add: set)
  moreover have "mons ! a' \<in> set (take mi mons @ drop (Suc mi) mons)"
    using mi by (cases "a' < mi") (force simp: in_set_conv_nth intro: exI [of _ a'] exI [of _ "a' - Suc mi"])+
  then have "set (mo_workspaces (mons ! a')) \<subseteq> set (others mi mons)" by (auto simp: others_def)
  ultimately show ?thesis using nth_mem [OF i] unfolding pool_ok_append by blast
qed

lemma name_elsewhere_rearranges:
  assumes inv: "layout_inv parent l" and set: "la_monitor_set l = Normal mons p a" and mi: "mi < length mons" "mi \<noteq> a"
    and i: "i < length (mo_workspaces (mons ! mi))" "i \<noteq> length (mo_workspaces (mons ! mi)) - 1" "above_first (mons ! mi) \<longrightarrow> i \<noteq> 0"
    and wid: "wid = ws_id (mo_workspaces (mons ! mi) ! i)"
  shows "returns (bind_res (modify_at (mi, i) (\<lambda>ws. Inr (ws\<lparr>ws_name := Some name\<rparr>)) l) (on_active_monitor (restore_edges wid))) (la_rearranges parent l)"
proof -
  let ?f = "\<lambda>m. Inr (store_workspace i (named name (mo_workspaces m ! i)) m)" and ?m = "with_counter (la_next_id l) (mons ! mi)"
  have eq: "modify_at (mi, i) (\<lambda>ws. Inr (ws\<lparr>ws_name := Some name\<rparr>)) l = on_monitor mi ?f l"
    using mi i(1) by (simp add: modify_at_def set on_monitor_def vec_simps on_workspace_def store_workspace_def named_def)
  have first: "returns (on_monitor mi ?f l) (la_rearranges parent l)"
    by (rule on_monitor_rearranges [OF inv set mi(1)])
      (use i name_inner_keeps [of parent ?m i name] in \<open>auto intro!: mints_store\<close>)
  then obtain l1 where l1: "on_monitor mi ?f l = Inr l1" "la_rearranges parent l l1" by (auto simp: returns_def)
  then have set1: "la_monitor_set l1 = Normal (mons[mi := store_workspace i (named name (mo_workspaces (mons ! mi) ! i)) ?m]) p a"
    using mi(1) by (auto simp: on_monitor_def set vec_simps)
  have inv1: "layout_inv parent l1" by (rule rearranges_inv [OF l1(2)])
  have a: "a < length mons" by (rule layout_inv_normalD(2) [OF inv set])
  have "wid \<notin> ws_id ` set (mo_workspaces (mons ! a))" unfolding wid by (rule id_elsewhere [OF inv set mi(1) a mi(2) i(1)])
  then have nop: "restore_edges wid (with_counter n (mons ! a)) = Inr (with_counter n (mons ! a))" for n
    using monitor_invD(6) [OF layout_inv_normalD(4) [OF inv set, of "mons ! a"]] a by (intro restore_edges_other) simp_all
  have "on_active_monitor (restore_edges wid) l1 = on_monitor a (\<lambda>m. Inr m) l1"
    using mi(2) a nop by (simp add: on_active_monitor_def on_monitor_def set1 vec_simps)
  moreover have "returns (on_monitor a (\<lambda>m. Inr m) l1) (la_rearranges parent l1)"
    by (rule on_monitor_rearranges [OF inv1 set1]) (use a in \<open>auto intro: mo_keeps_refl\<close>)
  ultimately show ?thesis using l1 la_rearranges_trans [OF l1(2)] by (simp add: eq) (auto elim!: returns_mono)
qed

lemma name_no_outputs:
  assumes inv: "layout_inv parent l" and set: "la_monitor_set l = NoOutputs wss" and i: "i < length wss"
  shows "la_rearranges parent l (l\<lparr>la_monitor_set := NoOutputs (wss[i := named name (wss ! i)])\<rparr>)"
proof -
  let ?wss = "wss[i := named name (wss ! i)]" and ?l = "l\<lparr>la_monitor_set := NoOutputs (wss[i := named name (wss ! i)])\<rparr>"
  have pool: "pool_ok parent (la_next_id l) (moving_windows l) wss" and used: "list_all used wss"
    using layout_invD(2,3) [OF inv] by (simp_all add: set monitor_set_ok_def)
  note ids = named_update(1) [OF i, of name] and win = named_update(2) [OF i, of name]
  have "list_all (workspace_inv parent) ?wss" by (rule list_all_update) (use pool i in \<open>auto simp: pool_ok_def list_all_length\<close>)
  then have P: "pool_ok parent (la_next_id l) (moving_windows l) ?wss" using pool unfolding pool_ok_def list_all_ids ids win by simp
  have U: "list_all used ?wss" using used by (simp add: list_all_update)
  have placed: "placed_windows ?l = placed_windows l" using win by (simp add: placed_windows_def set)
  have "start_ok ?l" by (rule start_ok_mono [OF layout_invD(4) [OF inv]]) (simp, simp add: placed)
  then show ?thesis using P U placed layout_invD(1) [OF inv] by (simp add: la_rearranges_def layout_inv_def monitor_set_ok_def)
qed

lemma set_workspace_name_rearranges:
  assumes inv: "layout_inv parent l" and can: "\<And>loc. reference_or_active ref l = Inr (Some loc) \<Longrightarrow> can_name loc l"
  shows "returns (set_workspace_name name ref l) (la_rearranges parent l)"
proof (cases "find_workspace_by_name name l")
  case None
  obtain found where found: "reference_or_active ref l = Inr found" "\<And>loc. found = Some loc \<Longrightarrow> valid_loc loc l"
    using find_by_ref_valid(3) [OF inv, of ref] by (auto simp: returns_def)
  show ?thesis
  proof (cases found)
    case None': None
    then show ?thesis using None found(1) la_rearranges_refl [OF inv] by (simp add: set_workspace_name_def)
  next
    case (Some loc)
    note v = found(2) [OF Some] and c = can [OF found(1) [unfolded Some]]
    obtain mi i where loc: "loc = (mi, i)" by (cases loc)
    have "returns (bind_res (modify_at loc (\<lambda>ws. Inr (ws\<lparr>ws_name := Some name\<rparr>)) l) (on_active_monitor (restore_edges (ws_id (ws_of loc l))))) (la_rearranges parent l)"
    proof (cases "la_monitor_set l")
      case (Normal mons p a)
      then show ?thesis using v c name_active_rearranges [OF inv Normal, of i "ws_id (ws_of loc l)" name]
          name_elsewhere_rearranges [OF inv Normal, of mi i "ws_id (ws_of loc l)" name]
        by (cases "mi = a") (simp_all add: loc valid_loc_def can_name_def ws_of_def)
    next
      case (NoOutputs wss)
      have i: "i < length wss" using v by (simp add: loc valid_loc_def NoOutputs)
      have "la_rearranges parent l (l\<lparr>la_monitor_set := NoOutputs (wss[i := named name (wss ! i)])\<rparr>)"
        by (rule name_no_outputs [OF inv NoOutputs i])
      then show ?thesis using i by (simp add: modify_at_def loc NoOutputs vec_simps named_def on_active_monitor_def)
    qed
    then show ?thesis using None found(1) v by (simp add: set_workspace_name_def Some)
  qed
qed (simp add: set_workspace_name_def la_rearranges_refl [OF inv])

lemma insert_new_workspace:
  assumes inv: "monitor_inv parent m" and ws: "workspace_inv parent ws" "ws_windows ws = {#}" "ws_id ws = mo_next_id m"
  shows "returns (insert_workspace env ws 0 False (m\<lparr>mo_next_id := mo_next_id m + 1\<rparr>)) (mo_keeps parent m)"
    "insert_workspace env ws 0 False (m\<lparr>mo_next_id := mo_next_id m + 1\<rparr>) = Inr m' \<Longrightarrow> mints m m'"
proof -
  let ?m = "m\<lparr>mo_next_id := mo_next_id m + 1\<rparr>"
  have m: "?m = with_counter (mo_next_id m + 1) m" by (simp add: with_counter_def)
  have inv': "monitor_inv parent ?m" unfolding m by (rule with_counter_inv [OF inv]) simp
  have "list_all (\<lambda>ws. ws_id ws < mo_next_id m) (mo_workspaces m)" "mset_distinct (mo_windows m)"
    using monitor_invD(4) [OF inv] by (simp_all add: workspaces_inv_def)
  then have "foreign parent [ws] ?m" using ws by (auto simp: foreign_def list_all_iff)
  from insert_workspace_ok [OF inv' this, of 0 env False] show "returns (insert_workspace env ws 0 False ?m) (mo_keeps parent m)"
    by (auto simp: mo_keeps_def ws(2) elim!: returns_mono)
  show "mints m m'" if run: "insert_workspace env ws 0 False ?m = Inr m'"
    using insert_workspace_mints [OF run] ws(3) by (auto simp: mints_def joined_def)
qed

lemma ensure_named_rearranges:
  assumes inv: "layout_inv parent l"
  shows "returns (ensure_named_workspace env config l) (la_rearranges parent l)"
proof (cases "find_workspace_by_name (wc_name config) l")
  case None
  note acyclic = layout_invD(1) [OF inv]
  show ?thesis
  proof (cases "la_monitor_set l")
    case (Normal mons p a)
    define i where "i = (case wc_open_on_output config of None \<Rightarrow> a | Some name \<Rightarrow>
      (case position (\<lambda>m. matches (out_name (mo_output m)) name) mons of Some idx \<Rightarrow> idx | None \<Rightarrow> p))"
    have i: "i < length mons" using layout_inv_normalD(1,2) [OF inv Normal] by (auto simp: i_def split: option.split dest: position_Some)
    have new: "workspace_inv parent (ws_new_with_config out c d k)" "ws_windows (ws_new_with_config out c d k :: 'a lworkspace) = {#}"
      "ws_id (ws_new_with_config out c d k :: 'a lworkspace) = k" for out c d k
      by (rule ws_new_inv(1) [OF acyclic], rule ws_new_inv(3) [OF acyclic]) (simp add: ws_new_with_config_def Let_def)
    have "returns (on_monitor i (\<lambda>m. insert_workspace env (ws_new_with_config (mo_output m) (Some config) (lo_default_column_display (la_options l)) (mo_next_id m)) 0 False
        (m\<lparr>mo_next_id := mo_next_id m + 1\<rparr>)) l) (la_rearranges parent l)"
      by (rule on_monitor_rearranges [OF inv Normal i]; use insert_new_workspace [OF _ new] monitor_at [OF inv Normal i] in blast)
    then show ?thesis using None by (simp add: ensure_named_workspace_def Normal Let_def i_def)
  next
    case (NoOutputs wss)
    let ?ws = "ws_new_with_config_no_outputs (Some config) (lo_default_column_display (la_options l)) (la_next_id l) :: 'a lworkspace"
    have new: "workspace_inv parent ?ws" "ws_windows ?ws = {#}" "ws_id ?ws = la_next_id l" "used ?ws"
      by (rule ws_new_inv(2) [OF acyclic], rule ws_new_inv(4) [OF acyclic]) (simp_all add: ws_new_with_config_no_outputs_def Let_def used_iff)
    let ?l = "l\<lparr>la_monitor_set := NoOutputs (?ws # wss), la_next_id := la_next_id l + 1\<rparr>"
    have pool: "pool_ok parent (la_next_id l) (moving_windows l) wss" and used: "list_all used wss"
      using layout_invD(2,3) [OF inv] by (simp_all add: NoOutputs monitor_set_ok_def)
    have P: "pool_ok parent (la_next_id l + 1) (moving_windows l) (?ws # wss)" using pool new by (fastforce simp: pool_ok_def list_all_iff)
    have placed: "placed_windows ?l = placed_windows l" using new(2) by (simp add: placed_windows_def NoOutputs)
    have "start_ok ?l" by (rule start_ok_mono [OF layout_invD(4) [OF inv]]) (simp, simp only: placed)
    then have "la_rearranges parent l ?l" using P used new(4) placed acyclic by (simp add: la_rearranges_def layout_inv_def monitor_set_ok_def)
    then show ?thesis using None by (simp add: ensure_named_workspace_def NoOutputs Let_def)
  qed
qed (simp add: ensure_named_workspace_def la_rearranges_refl [OF inv])

text \<open>The layout at the start.\<close>

lemma initial_inv:
  fixes parent :: "'w parent_of"
  assumes acyclic: "parents_acyclic parent"
  shows "layout_inv parent (with_options_and_workspaces configs options n)"
    "la_windows (with_options_and_workspaces configs options n :: 'w layout) = {#}"
proof -
  let ?l = "with_options_and_workspaces configs options n :: 'w layout"
  let ?f = "\<lambda>(i, config). ws_new_with_config_no_outputs (Some config) (lo_default_column_display options) i :: 'w lworkspace"
  let ?wss = "map ?f (enumerate n configs)"
  have set: "la_monitor_set ?l = NoOutputs ?wss" "la_next_id ?l = n + length configs" "la_interactive_move ?l = None"
    by (simp_all add: with_options_and_workspaces_def)
  have new: "ws_id (ws_new_with_config_no_outputs (Some c) d i :: 'w lworkspace) = i" "used (ws_new_with_config_no_outputs (Some c) d i :: 'w lworkspace)" for c d i
    by (simp_all add: ws_new_with_config_no_outputs_def Let_def used_iff)
  have ids: "map ws_id ?wss = [n..<n + length configs]" using new(1) by (simp add: case_prod_unfold comp_def map_fst_enumerate)
  have "wss_windows (map ?f xs) = {#}" for xs by (induction xs) (auto simp: ws_new_inv(4) [OF acyclic] split: prod.splits)
  then have win: "wss_windows ?wss = {#}" .
  have "pool_ok parent (n + length configs) {#} ?wss"
    unfolding pool_ok_def list_all_ids ids win by (auto simp: list_all_iff ws_new_inv(2) [OF acyclic])
  moreover have "list_all used ?wss" using new(2) by (auto simp: list_all_iff)
  ultimately show "layout_inv parent ?l" using acyclic
    by (simp add: layout_inv_def monitor_set_ok_def set start_ok_def moving_none)
  show "la_windows ?l = {#}" by (simp add: la_windows_def moving_none set(3) placed_windows_def set(1) win)
qed

end
