(* ===== verification/Layout_Machine.thy ===== *)
theory Layout_Machine
  imports Layout_Names
begin

text \<open>
  Runs of operations. A workspace, a monitor and the layout are all machines that hold windows: an
  admissible operation returns, keeps the invariant, and changes the windows only by those it is
  given and those it gives away. The same then holds of any sequence of them.
\<close>

subsection \<open>Machines that hold windows\<close>

fun run :: "('op \<Rightarrow> 's \<Rightarrow> 's res) \<Rightarrow> 'op list \<Rightarrow> 's \<Rightarrow> 's res" where
  "run step [] s = Inr s"
| "run step (op # ops) s = bind_res (step op s) (run step ops)"

fun admissible :: "('op \<Rightarrow> 's \<Rightarrow> bool) \<Rightarrow> ('op \<Rightarrow> 's \<Rightarrow> 's res) \<Rightarrow> 'op list \<Rightarrow> 's \<Rightarrow> bool" where
  "admissible ok step [] s \<longleftrightarrow> True"
| "admissible ok step (op # ops) s \<longleftrightarrow> ok op s \<and> (case step op s of Inr s' \<Rightarrow> admissible ok step ops s' | Inl e \<Rightarrow> True)"

fun given_away :: "('op \<Rightarrow> 's \<Rightarrow> 'w multiset) \<Rightarrow> ('op \<Rightarrow> 's \<Rightarrow> 's res) \<Rightarrow> 'op list \<Rightarrow> 's \<Rightarrow> 'w multiset" where
  "given_away removes step [] s = {#}"
| "given_away removes step (op # ops) s = removes op s + (case step op s of Inr s' \<Rightarrow> given_away removes step ops s' | Inl e \<Rightarrow> {#})"

locale window_machine =
  fixes inv :: "'s \<Rightarrow> bool" and wins :: "'s \<Rightarrow> 'w multiset" and ok :: "'op \<Rightarrow> 's \<Rightarrow> bool" and step :: "'op \<Rightarrow> 's \<Rightarrow> 's res"
    and adds :: "'op \<Rightarrow> 'w multiset" and removes :: "'op \<Rightarrow> 's \<Rightarrow> 'w multiset"
  assumes step_ok: "inv s \<Longrightarrow> ok op s \<Longrightarrow> returns (step op s) (\<lambda>s'. inv s' \<and> wins s' + removes op s = wins s + adds op)"
begin

lemma run_ok:
  assumes "inv s" "admissible ok step ops s"
  shows "\<exists>s'. run step ops s = Inr s' \<and> inv s' \<and> wins s' + given_away removes step ops s = wins s + sum_list (map adds ops)"
  using assms
proof (induction ops arbitrary: s)
  case (Cons op ops)
  obtain s1 where s1: "step op s = Inr s1" "inv s1" "wins s1 + removes op s = wins s + adds op"
    using step_ok [of s op] Cons.prems by (auto simp: returns_def)
  with Cons.IH [of s1] Cons.prems obtain s2 where s2: "run step ops s1 = Inr s2" "inv s2"
    "wins s2 + given_away removes step ops s1 = wins s1 + sum_list (map adds ops)" by auto
  have "wins s2 + (removes op s + given_away removes step ops s1) = (wins s2 + given_away removes step ops s1) + removes op s"
    by (simp add: ac_simps)
  also have "\<dots> = (wins s1 + removes op s) + sum_list (map adds ops)" by (simp only: s2(3) ac_simps)
  also have "\<dots> = wins s + (adds op + sum_list (map adds ops))" by (simp only: s1(3) add.assoc)
  finally have "wins s2 + (removes op s + given_away removes step ops s1) = wins s + (adds op + sum_list (map adds ops))" .
  then show ?case using s1 s2 by simp
qed simp

lemma run_keeps: "inv s \<Longrightarrow> admissible ok step ops s \<Longrightarrow> run step ops s = Inr s' \<Longrightarrow> inv s'"
  using run_ok by fastforce

end

interpretation workspace_machine: window_machine "workspace_inv (env_parent env)" ws_windows workspace_op_ok "workspace_step env" ws_op_adds ws_op_removes
  for env :: "'w layout_env"
  by unfold_locales (use workspace_step_ok in \<open>fastforce simp: ws_changes_def elim!: returns_mono\<close>)

interpretation monitor_machine: window_machine "monitor_inv (env_parent env)" mo_windows "monitor_op_ok (env_parent env)" "monitor_step env" mo_op_adds mo_op_removes
  for env :: "'w layout_env"
  by unfold_locales (use monitor_step_ok in \<open>fastforce simp: mo_changes_def elim!: returns_mono\<close>)

subsection \<open>The operations of the layout\<close>

datatype 'w layout_op =
    LaWorkspaceOp "'w workspace_op" | LaMonitorOp "'w monitor_op"
  | LaConsumeOrExpelLeft "'w option" | LaConsumeOrExpelRight "'w option"
  | LaToggleFloating "'w option" | LaSetFloating "'w option" bool | LaMoveFloating "'w option" position_change position_change
  | LaSetFullscreen 'w bool | LaToggleFullscreen 'w | LaSetMaximized 'w bool | LaToggleMaximized 'w
  | LaResizeBegin 'w | LaResizeEnd 'w | LaDescendantsAdded 'w | LaActivateWindow 'w | LaActivateWithoutRaising 'w
  | LaMoveToWorkspace "'w option" nat activate_window | LaMoveWorkspaceToIdx "(loutput option \<times> nat) option" nat
  | LaUpdateOutputSize loutput output_view | LaFocusOutput loutput
  | LaFocusUpOrOutput loutput | LaFocusDownOrOutput loutput | LaFocusLeftOrOutput loutput | LaFocusRightOrOutput loutput
  | LaMoveToOutput "'w option" loutput "nat option" activate_window | LaMoveColumnToOutput loutput "nat option" bool
  | LaMoveLeftOrToOutput loutput | LaMoveRightOrToOutput loutput
  | LaMoveWorkspaceToOutput loutput | LaMoveWorkspaceToOutputById nat "loutput option" loutput
  | LaGestureBegin loutput bool | LaGestureUpdate real nat bool | LaGestureEnd "bool option"
  | LaToggleOverview | LaOpenOverview | LaCloseOverview | LaOverviewToWorkspace nat
  | LaUnname workspace_reference | LaUnsetName "workspace_reference option" | LaSetName string "workspace_reference option"
  | LaEnsureNamed workspace_config | LaUpdateConfig "workspace_config list" layout_options
  | LaAddOutput loutput "layout_part option" | LaRemoveOutput loutput
  | LaAddWindow "'w tile" "'w add_window_target" column_width bool bool activate_window | LaRemoveWindow 'w
  | LaMoveBegin 'w loutput "real \<times> real" | LaMoveUpdate 'w point loutput point | LaMoveEnd 'w

fun layout_step :: "'w layout_env \<Rightarrow> 'w geometry \<Rightarrow> 'w layout_op \<Rightarrow> 'w layout \<Rightarrow> 'w layout res" where
  "layout_step env geo (LaWorkspaceOp op) l = active_workspace_step env op l"
| "layout_step env geo (LaMonitorOp op) l = active_monitor_step env op l"
| "layout_step env geo (LaConsumeOrExpelLeft w) l = la_consume_or_expel_window_left w l"
| "layout_step env geo (LaConsumeOrExpelRight w) l = la_consume_or_expel_window_right w l"
| "layout_step env geo (LaToggleFloating w) l = la_toggle_window_floating env geo w l"
| "layout_step env geo (LaSetFloating w b) l = la_set_window_floating env geo w b l"
| "layout_step env geo (LaMoveFloating w x y) l = la_move_floating_window w x y l"
| "layout_step env geo (LaSetFullscreen w b) l = la_set_fullscreen env w b l"
| "layout_step env geo (LaToggleFullscreen w) l = la_toggle_fullscreen env w l"
| "layout_step env geo (LaSetMaximized w b) l = la_set_maximized env w b l"
| "layout_step env geo (LaToggleMaximized w) l = la_toggle_maximized env w l"
| "layout_step env geo (LaResizeBegin w) l = la_interactive_resize_begin w l"
| "layout_step env geo (LaResizeEnd w) l = la_interactive_resize_end w l"
| "layout_step env geo (LaDescendantsAdded w) l = first_of (la_descendants_added env w l)"
| "layout_step env geo (LaActivateWindow w) l = la_activate_window env w l"
| "layout_step env geo (LaActivateWithoutRaising w) l = la_activate_window_without_raising env w l"
| "layout_step env geo (LaMoveToWorkspace w idx act) l = la_move_to_workspace env w idx act l"
| "layout_step env geo (LaMoveWorkspaceToIdx ref idx) l = la_move_workspace_to_idx ref idx l"
| "layout_step env geo (LaUpdateOutputSize out view) l = update_output_size out view l"
| "layout_step env geo (LaFocusOutput out) l = Inr (focus_output out l)"
| "layout_step env geo (LaFocusUpOrOutput out) l = first_of (la_focus_window_up_or_output env out l)"
| "layout_step env geo (LaFocusDownOrOutput out) l = first_of (la_focus_window_down_or_output env out l)"
| "layout_step env geo (LaFocusLeftOrOutput out) l = first_of (la_focus_column_left_or_output env out l)"
| "layout_step env geo (LaFocusRightOrOutput out) l = first_of (la_focus_column_right_or_output env out l)"
| "layout_step env geo (LaMoveToOutput w out idx act) l = move_to_output env w out idx act l"
| "layout_step env geo (LaMoveColumnToOutput out idx act) l = move_column_to_output env out idx act l"
| "layout_step env geo (LaMoveLeftOrToOutput out) l = first_of (la_move_column_left_or_to_output env out l)"
| "layout_step env geo (LaMoveRightOrToOutput out) l = first_of (la_move_column_right_or_to_output env out l)"
| "layout_step env geo (LaMoveWorkspaceToOutput out) l = first_of (move_workspace_to_output env out l)"
| "layout_step env geo (LaMoveWorkspaceToOutputById idx old out) l = first_of (move_workspace_to_output_by_id env idx old out l)"
| "layout_step env geo (LaGestureBegin out touchpad) l = la_workspace_switch_gesture_begin env geo out touchpad l"
| "layout_step env geo (LaGestureUpdate delta ts touchpad) l = la_workspace_switch_gesture_update geo delta ts touchpad l"
| "layout_step env geo (LaGestureEnd touchpad) l = la_workspace_switch_gesture_end geo touchpad l"
| "layout_step env geo LaToggleOverview l = Inr (toggle_overview l)"
| "layout_step env geo LaOpenOverview l = Inr (fst (open_overview l))"
| "layout_step env geo LaCloseOverview l = Inr (fst (close_overview l))"
| "layout_step env geo (LaOverviewToWorkspace idx) l = toggle_overview_to_workspace env idx l"
| "layout_step env geo (LaUnname ref) l = unname_workspace_by_ref ref l"
| "layout_step env geo (LaUnsetName ref) l = unset_workspace_name ref l"
| "layout_step env geo (LaSetName name ref) l = set_workspace_name name ref l"
| "layout_step env geo (LaEnsureNamed config) l = ensure_named_workspace env config l"
| "layout_step env geo (LaUpdateConfig configs options) l = update_config configs options l"
| "layout_step env geo (LaAddOutput out config) l = add_output out config l"
| "layout_step env geo (LaRemoveOutput out) l = remove_output out l"
| "layout_step env geo (LaAddWindow tile target width full floating act) l = add_window env tile target width full floating act l"
| "layout_step env geo (LaRemoveWindow w) l = second_of (remove_window env geo w l)"
| "layout_step env geo (LaMoveBegin w out ratio) l = first_of (interactive_move_begin env geo w out ratio l)"
| "layout_step env geo (LaMoveUpdate w delta out pos) l = first_of (interactive_move_update env geo w delta out pos l)"
| "layout_step env geo (LaMoveEnd w) l = interactive_move_end env geo w l"

text \<open>What the callers see to: windows exist, or do not exist yet, and outputs are connected, or are not.\<close>

definition window_known :: "'w option \<Rightarrow> 'w layout \<Rightarrow> bool" where
  "window_known window l \<longleftrightarrow> (case window of Some w \<Rightarrow> w \<in># la_windows l | None \<Rightarrow> True)"

fun layout_op_ok :: "'w layout_op \<Rightarrow> 'w layout \<Rightarrow> bool" where
  "layout_op_ok (LaConsumeOrExpelLeft w) l \<longleftrightarrow> window_known w l"
| "layout_op_ok (LaConsumeOrExpelRight w) l \<longleftrightarrow> window_known w l"
| "layout_op_ok (LaToggleFloating w) l \<longleftrightarrow> window_known w l"
| "layout_op_ok (LaSetFloating w b) l \<longleftrightarrow> window_known w l"
| "layout_op_ok (LaMoveFloating w x y) l \<longleftrightarrow> window_known w l"
| "layout_op_ok (LaMoveToWorkspace w idx act) l \<longleftrightarrow> window_known w l"
| "layout_op_ok (LaMoveToOutput w out idx act) l \<longleftrightarrow> window_known w l \<and> connected out l"
| "layout_op_ok (LaMoveColumnToOutput out idx act) l \<longleftrightarrow> connected out l"
| "layout_op_ok (LaMoveLeftOrToOutput out) l \<longleftrightarrow> connected out l"
| "layout_op_ok (LaMoveRightOrToOutput out) l \<longleftrightarrow> connected out l"
| "layout_op_ok (LaMoveWorkspaceToOutput out) l \<longleftrightarrow> connected out l"
| "layout_op_ok (LaMoveWorkspaceToOutputById idx old out) l \<longleftrightarrow> connected out l \<and> (case old of Some o' \<Rightarrow> connected o' l | None \<Rightarrow> True)"
| "layout_op_ok (LaGestureBegin out touchpad) l \<longleftrightarrow> \<not> disconnected out l"
| "layout_op_ok (LaOverviewToWorkspace idx) l \<longleftrightarrow>
     (case la_monitor_set l of Normal mons p a \<Rightarrow> idx < length (mo_workspaces (mons ! a)) | NoOutputs wss \<Rightarrow> True)"
| "layout_op_ok (LaSetName name ref) l \<longleftrightarrow> (case reference_or_active ref l of Inr (Some loc) \<Rightarrow> can_name loc l | _ \<Rightarrow> True)"
| "layout_op_ok (LaAddOutput out config) l \<longleftrightarrow> can_connect out l"
| "layout_op_ok (LaRemoveOutput out) l \<longleftrightarrow> \<not> disconnected out l"
| "layout_op_ok (LaAddWindow tile target width full floating act) l \<longleftrightarrow> tl_window tile \<notin># la_windows l \<and> add_target_ok target l"
| "layout_op_ok (LaRemoveWindow w) l \<longleftrightarrow> w \<in># la_windows l"
| "layout_op_ok _ l \<longleftrightarrow> True"

fun la_op_adds :: "'w layout_op \<Rightarrow> 'w multiset" where
  "la_op_adds (LaAddWindow tile target width full floating act) = {#tl_window tile#}"
| "la_op_adds _ = {#}"

fun la_op_removes :: "'w layout_op \<Rightarrow> 'w layout \<Rightarrow> 'w multiset" where
  "la_op_removes (LaRemoveWindow w) l = {#w#}"
| "la_op_removes _ l = {#}"

subsection \<open>Every admissible operation returns\<close>

lemma move_active_workspace_to_output_rearranges:
  assumes inv: "layout_inv (env_parent env) l" and out: "connected out l"
  shows "returns (move_workspace_to_output env out l) (\<lambda>(l', _). la_rearranges (env_parent env) l l')"
proof (cases "la_monitor_set l")
  case (Normal mons p a)
  from move_workspace_to_output_rearranges [OF inv out, of None] layout_inv_normalD(2) [OF inv Normal]
  show ?thesis by (simp add: move_workspace_to_output_def Normal)
qed (simp add: move_workspace_to_output_def la_rearranges_refl [OF inv])

lemma or_output_rearranges:
  assumes inv: "layout_inv (env_parent env) l"
  shows "returns (la_focus_window_up_or_output env out l) (\<lambda>(l', _). la_rearranges (env_parent env) l l')"
    "returns (la_focus_window_down_or_output env out l) (\<lambda>(l', _). la_rearranges (env_parent env) l l')"
    "returns (la_focus_column_left_or_output env out l) (\<lambda>(l', _). la_rearranges (env_parent env) l l')"
    "returns (la_focus_column_right_or_output env out l) (\<lambda>(l', _). la_rearranges (env_parent env) l l')"
  unfolding la_focus_window_up_or_output_def la_focus_window_down_or_output_def la_focus_column_left_or_output_def
    la_focus_column_right_or_output_def
  by (rule or_focus_output_rearranges(2) [OF inv], drule ws_focus_horizontal_keeps, simp add: flagged_def)+

lemma or_to_output_rearranges:
  assumes inv: "layout_inv (env_parent env) l" and out: "connected out l"
  shows "returns (la_move_column_left_or_to_output env out l) (\<lambda>(l', _). la_rearranges (env_parent env) l l')"
    "returns (la_move_column_right_or_to_output env out l) (\<lambda>(l', _). la_rearranges (env_parent env) l l')"
  unfolding la_move_column_left_or_to_output_def la_move_column_right_or_to_output_def
  by (rule or_move_column_to_output_rearranges [OF inv out], drule ws_move_directional_keeps, simp add: flagged_def)+

lemma returns_second_of: "returns (second_of r) P \<longleftrightarrow> returns r (\<lambda>(_, x). P x)"
  by (simp add: second_of_def case_prod_unfold)

definition la_op_keeps :: "'w layout_op \<Rightarrow> bool" where
  "la_op_keeps op \<longleftrightarrow> (case op of LaAddWindow tile target width full floating act \<Rightarrow> False | LaRemoveWindow w \<Rightarrow> False
     | _ \<Rightarrow> True)"

lemma la_keepsI:
  "returns r (la_rearranges parent l) \<Longrightarrow> returns r (la_keeps parent l)"
  "returns p (\<lambda>(l', _). la_rearranges parent l l') \<Longrightarrow> returns (first_of p) (la_keeps parent l)"
  "la_rearranges parent l l' \<Longrightarrow> returns (Inr l') (la_keeps parent l)"
  "returns p (\<lambda>(l', _). la_keeps parent l l') \<Longrightarrow> returns (first_of p) (la_keeps parent l)"
  by (auto simp: returns_first_of elim!: returns_mono intro: rearranges_keeps)

lemma no_outputs_disconnected: "\<not> disconnected out l \<Longrightarrow> \<exists>mons p a. la_monitor_set l = Normal mons p a"
  by (cases "la_monitor_set l") (auto simp: disconnected_def)

lemma gesture_begin_rearranges:
  "layout_inv parent l \<Longrightarrow> \<not> disconnected out l \<Longrightarrow> returns (la_workspace_switch_gesture_begin env geo out touchpad l) (la_rearranges parent l)"
  using gesture_rearranges(1) no_outputs_disconnected by blast

lemma add_output_keeps:
  "layout_inv parent l \<Longrightarrow> can_connect out l \<Longrightarrow> returns (add_output out config l) (la_keeps parent l)"
  by (auto intro: returns_mono [OF add_output_ok] rearranges_keeps)

lemma interactive_move_end_keeps:
  "geometry_ok geo \<Longrightarrow> layout_inv (env_parent env) l \<Longrightarrow> returns (interactive_move_end env geo w l) (la_keeps (env_parent env) l)"
  by (auto intro: returns_mono [OF interactive_move_end_ok])

lemmas layout_step_plain = active_workspace_step_rearranges active_monitor_step_rearranges consume_or_expel_rearranges
  move_floating_window_rearranges sizing_mode_rearranges activate_window_rearranges move_to_workspace_rearranges
  move_workspace_to_idx_rearranges update_output_size_rearranges move_to_output_rearranges move_column_to_output_rearranges
  gesture_begin_rearranges gesture_rearranges(2,3) toggle_overview_to_workspace_rearranges unset_name_rearranges
  set_workspace_name_rearranges ensure_named_rearranges update_config_rearranges remove_output_rearranges

lemmas layout_step_flagged = descendants_added_rearranges or_output_rearranges or_to_output_rearranges
  move_active_workspace_to_output_rearranges move_workspace_to_output_rearranges

lemmas layout_step_pure = focus_output_rearranges toggle_overview_rearranges overview_rearranges

lemmas layout_step_drag = begin_keeps interactive_move_update_ok

lemmas layout_step_intros = layout_step_plain [THEN la_keepsI(1)] layout_step_flagged [THEN la_keepsI(2)]
  layout_step_pure [THEN la_keepsI(3)] layout_step_drag [THEN la_keepsI(4)]
  toggle_floating_keeps add_output_keeps interactive_move_end_keeps

lemma layout_step_keeps:
  assumes geo: "geometry_ok geo" and inv: "layout_inv (env_parent env) l" and ok: "layout_op_ok op l" and op: "la_op_keeps op"
  shows "returns (layout_step env geo op l) (la_keeps (env_parent env) l)"
  using ok op geometry_okD [OF geo]
  by (cases op) (auto simp: window_known_def la_op_keeps_def simp del: returns_Inr intro!: layout_step_intros geo inv)

text \<open>The two operations that change the windows of the layout.\<close>

lemma add_window_step:
  assumes inv: "layout_inv (env_parent env) l" and ok: "tl_window tile \<notin># la_windows l" "add_target_ok target l"
  shows "returns (add_window env tile target width full floating act l)
    (\<lambda>l'. layout_inv (env_parent env) l' \<and> la_windows l' = la_windows l + {#tl_window tile#})"
proof (rule returns_mono [OF add_window_adds [OF inv ok]])
  fix wss out assume "la_monitor_set l = NoOutputs wss"
  then show "target \<noteq> AddOutput out" using ok(2) no_outputs_disconnected by fastforce
next
  fix l' assume "la_adds (env_parent env) {#tl_window tile#} l l'"
  then show "layout_inv (env_parent env) l' \<and> la_windows l' = la_windows l + {#tl_window tile#}"
    using moving_cong [of l' l] by (simp add: la_adds_def la_windows_def)
qed

lemma remove_window_step:
  "geometry_ok geo \<Longrightarrow> layout_inv (env_parent env) l \<Longrightarrow> w \<in># la_windows l \<Longrightarrow>
    returns (second_of (remove_window env geo w l)) (\<lambda>l'. layout_inv (env_parent env) l' \<and> la_windows l' + {#w#} = la_windows l)"
  unfolding returns_second_of by (rule returns_mono [OF remove_window_ok]) auto

lemma layout_step_ok:
  assumes geo: "geometry_ok geo" and inv: "layout_inv (env_parent env) l" and ok: "layout_op_ok op l"
  shows "returns (layout_step env geo op l)
    (\<lambda>l'. layout_inv (env_parent env) l' \<and> la_windows l' + la_op_removes op l = la_windows l + la_op_adds op)"
proof (cases "la_op_keeps op")
  case True
  then have "la_op_removes op l = {#}" "la_op_adds op = {#}" by (cases op; simp add: la_op_keeps_def)+
  with returns_mono [OF layout_step_keeps [OF geo inv ok True]] show ?thesis by (fastforce simp: la_keeps_def)
next
  case False
  then consider tile target width full floating act where "op = LaAddWindow tile target width full floating act" | w where "op = LaRemoveWindow w"
    by (cases op) (simp_all add: la_op_keeps_def)
  then show ?thesis
    using ok add_window_step [OF inv] remove_window_step [OF geo inv] by cases auto
qed

interpretation layout_machine: window_machine "\<lambda>l. geometry_ok geo \<and> layout_inv (env_parent env) l" la_windows layout_op_ok
    "layout_step env geo" la_op_adds la_op_removes
  for env :: "'w layout_env" and geo :: "'w geometry"
  by unfold_locales (use layout_step_ok in fastforce)

subsection \<open>The reachable layouts\<close>

inductive layout_reachable :: "'w layout_env \<Rightarrow> 'w geometry \<Rightarrow> 'w layout \<Rightarrow> bool" for env geo where
  layout_initial: "layout_reachable env geo (with_options_and_workspaces configs options n)"
| layout_stepped: "layout_reachable env geo l \<Longrightarrow> layout_op_ok op l \<Longrightarrow> layout_step env geo op l = Inr l' \<Longrightarrow> layout_reachable env geo l'"

lemma reachable_inv:
  assumes "layout_reachable env geo l" "geometry_ok geo" "parents_acyclic (env_parent env)"
  shows "layout_inv (env_parent env) l"
  using assms
proof induction
  case (layout_stepped l op l')
  with layout_step_ok [of geo env l op] show ?case by simp
qed (simp add: initial_inv)

end
