(* ===== verification/Layout_Properties.thy ===== *)
theory Layout_Properties
  imports Layout_Machine
begin

text \<open>
  What the layout promises: no reachable layout panics or loses a window, a window that is dragged
  comes back, and an output that is connected again gets its workspaces back; and a case in which
  naming a workspace breaks the invariant.
\<close>

subsection \<open>Examples\<close>

definition example_geometry :: "nat geometry" where
  "example_geometry = \<lparr>gm_gaps = 16, gm_column_width = (\<lambda>_. 600), gm_tiles_origin_y = (\<lambda>_. 16), gm_tile_height = (\<lambda>_. 500),
     gm_view_pos = (\<lambda>_. - 16), gm_snap = (\<lambda>_. None), gm_zoom = (\<lambda>_. 1), gm_workspace_size = (\<lambda>_. \<lparr>sz_w = 1920, sz_h = 1080\<rparr>),
     gm_workspace_gap = (\<lambda>_. 108), gm_first_workspace_loc = (\<lambda>_. \<lparr>pt_x = 0, pt_y = 0\<rparr>), gm_intersects_output = (\<lambda>_ _. True),
     gm_gesture_height = (\<lambda>_. 1080), gm_overview_zoom = 1, gm_tile_render_location = (\<lambda>_ p _ _. p), gm_now = 0\<rparr>"

lemma example_geometry_ok: "geometry_ok example_geometry"
proof -
  have "length (workspaces_with_render_geo_idx example_geometry m) = length (mo_workspaces m)" for m
    by (simp add: workspaces_with_render_geo_idx_def workspaces_render_geo_def Let_def example_geometry_def)
  then have "workspaces_with_render_geo_idx example_geometry m \<noteq> []" if "mo_workspaces m \<noteq> []" for m using that by (metis length_0_conv)
  then show ?thesis by (simp add: geometry_ok_def) (simp add: example_geometry_def)
qed

definition example_config :: "string \<Rightarrow> workspace_config" where
  "example_config name = \<lparr>wc_name = name, wc_open_on_output = None, wc_layout_display = None\<rparr>"

abbreviation example_layout :: "nat layout" where
  "example_layout \<equiv> with_options_and_workspaces [example_config ''A'', example_config ''B''] (example_options False) 0"

lemma example_layout_simps:
  "\<exists>A B. la_monitor_set example_layout = NoOutputs [A, B] \<and> ws_id A = 0 \<and> ws_id B = 1" "la_windows example_layout = {#}"
  "layout_inv (env_parent example_env) example_layout" "la_interactive_move example_layout = None"
proof -
  show "la_windows example_layout = {#}" "layout_inv (env_parent example_env) example_layout"
    using initial_inv [of "env_parent example_env"] by (simp_all add: example_env_def)
  show "\<exists>A B. la_monitor_set example_layout = NoOutputs [A, B] \<and> ws_id A = 0 \<and> ws_id B = 1" "la_interactive_move example_layout = None"
    by (simp_all add: with_options_and_workspaces_def ws_new_with_config_no_outputs_def Let_def)
qed

subsection \<open>Safety\<close>

text \<open>
  C1. Every layout that the operations reach from a new one satisfies the structural invariants of
  \<open>verify_invariants\<close>: the active and the primary monitor exist, every monitor and workspace keeps its own
  invariant, workspace identifiers are distinct across monitors, without outputs no workspace is empty
  and unnamed, and no window is in two places, the one being dragged included. Whatever admissible
  operation comes next (\<open>layout_op_ok\<close>) does not panic, keeps all of this, and changes the windows of the
  layout only by the one it opens or closes. Admissible are all operations, with windows that exist (or, for
  a new window, that do not), outputs that are connected and workspace indices that exist, but two:
  naming an empty workspace at the edge of a monitor that is not the active one (\<open>can_name\<close>), and
  connecting an output that is connected already, or to which an edge workspace of the primary monitor
  belongs, as with a second output of the same make, model and serial (\<open>can_connect\<close>). What happens in
  these two cases is shown by \<open>naming_elsewhere_breaks_invariant\<close> and \<open>connecting_twin_breaks_layout\<close>.
\<close>

theorem layout_never_panics:
  assumes "layout_reachable env geo l" "geometry_ok geo" "parents_acyclic (env_parent env)"
  shows "layout_inv (env_parent env) l \<and> mset_distinct (la_windows l) \<and> (layout_op_ok op l \<longrightarrow>
    (\<exists>l'. layout_step env geo op l = Inr l' \<and> layout_inv (env_parent env) l' \<and>
      la_windows l' + la_op_removes op l = la_windows l + la_op_adds op))"
proof -
  note inv = reachable_inv [OF assms]
  show ?thesis using inv layout_invD(5) [OF inv] layout_step_ok [OF assms(2) inv, of op] by (auto simp: returns_def)
qed

theorem layout_never_panics_witness:
  "\<exists>l'. layout_step example_env example_geometry (LaAddWindow (example_tile 1) AddAuto (WidthFixed 800) False False ActivateYes) example_layout =
     Inr l' \<and> layout_inv (\<lambda>_. None) l' \<and> la_windows l' = {#1#}"
  using layout_never_panics [OF layout_reachable.layout_initial example_geometry_ok,
      of example_env "[example_config ''A'', example_config ''B'']" "example_options False" 0
        "LaAddWindow (example_tile 1) AddAuto (WidthFixed 800) False False ActivateYes"] example_layout_simps(2)
  by (auto simp: example_env_def example_tile_def)

text \<open>
  C4. Windows are conserved: after any sequence of operations that are admissible where they run, starting
  from a new layout, the sequence has returned, and the windows of the layout are exactly those opened less
  those closed, each in one place.
\<close>

theorem windows_are_conserved:
  assumes "geometry_ok geo" "parents_acyclic (env_parent env)"
    "admissible layout_op_ok (layout_step env geo) ops (with_options_and_workspaces configs options n)"
  shows "\<exists>l. run (layout_step env geo) ops (with_options_and_workspaces configs options n) = Inr l \<and>
    layout_inv (env_parent env) l \<and> mset_distinct (la_windows l) \<and>
    la_windows l + given_away la_op_removes (layout_step env geo) ops (with_options_and_workspaces configs options n) =
      sum_list (map la_op_adds ops)"
proof -
  let ?start = "with_options_and_workspaces configs options n"
  have "geometry_ok geo \<and> layout_inv (env_parent env) ?start" using assms(1) initial_inv(1) [OF assms(2)] by simp
  from layout_machine.run_ok [OF this assms(3)] layout_invD(5) show ?thesis by (auto simp: initial_inv(2) [OF assms(2)])
qed

definition example_ops :: "nat layout_op list" where
  "example_ops = [LaAddOutput example_output None, LaAddWindow (example_tile 1) AddAuto (WidthFixed 800) False False ActivateYes,
    LaAddWindow (example_tile 2) AddAuto (WidthFixed 800) False True ActivateYes, LaMoveToWorkspace (Some 2) 1 ActivateYes, LaRemoveWindow 1]"

theorem windows_are_conserved_witness:
  "\<exists>l. run (layout_step example_env example_geometry) example_ops example_layout = Inr l \<and> la_windows l = {#2#}"
proof -
  let ?step = "layout_step example_env example_geometry"
  note step = layout_step_ok [OF example_geometry_ok, unfolded returns_def]
  have "layout_op_ok (LaAddOutput example_output None) example_layout"
    using example_layout_simps(1) by (auto simp: can_connect_def disconnected_def)
  from step [OF example_layout_simps(3) this] obtain l1 where l1: "?step (LaAddOutput example_output None) example_layout = Inr l1"
    "layout_inv (env_parent example_env) l1" "la_windows l1 = {#}" by (auto simp: example_layout_simps(2))
  from step [OF l1(2), of "example_ops ! 1"] obtain l2 where l2: "?step (example_ops ! 1) l1 = Inr l2"
    "layout_inv (env_parent example_env) l2" "la_windows l2 = {#1#}" by (auto simp: l1(3) example_ops_def example_tile_def)
  from step [OF l2(2), of "example_ops ! 2"] obtain l3 where l3: "?step (example_ops ! 2) l2 = Inr l3"
    "layout_inv (env_parent example_env) l3" "la_windows l3 = {#1, 2#}" by (auto simp: l2(3) example_ops_def example_tile_def)
  from step [OF l3(2), of "example_ops ! 3"] obtain l4 where l4: "?step (example_ops ! 3) l3 = Inr l4"
    "layout_inv (env_parent example_env) l4" "la_windows l4 = {#1, 2#}" by (auto simp: l3(3) example_ops_def window_known_def)
  from step [OF l4(2), of "example_ops ! 4"] obtain l5 where l5: "?step (example_ops ! 4) l4 = Inr l5" by (auto simp: l4(3) example_ops_def)
  have "admissible layout_op_ok ?step example_ops example_layout" "given_away la_op_removes ?step example_ops example_layout = {#1#}"
    using l1 l2 l3 l4 l5 example_layout_simps(1)
    by (auto simp: example_ops_def example_tile_def window_known_def can_connect_def disconnected_def simp del: layout_step.simps)
  with windows_are_conserved [OF example_geometry_ok, of example_env example_ops "[example_config ''A'', example_config ''B'']" "example_options False" 0]
  show ?thesis by (auto simp: example_env_def example_ops_def example_tile_def)
qed

subsection \<open>Dragging\<close>

text \<open>The window that a drag is about, from its start until it is dropped.\<close>

definition drags :: "'w \<Rightarrow> 'w layout \<Rightarrow> bool" where
  "drags w l \<longleftrightarrow> (case la_interactive_move l of None \<Rightarrow> True | Some (Starting v d r) \<Rightarrow> v = w
     | Some (Moving move) \<Rightarrow> tl_window (im_tile move) = w)"

lemma begin_drags:
  "interactive_move_begin env geo w out ratio l = Inr (l', b) \<Longrightarrow> la_interactive_move l = None \<Longrightarrow> drags w l'"
  by (auto simp: interactive_move_begin_def drags_def monitors_mut_def split: monitor_set.splits option.splits if_splits)

lemma update_drags:
  assumes geo: "geometry_ok geo" and inv: "layout_inv (env_parent env) l" and w: "drags w l"
    and run: "interactive_move_update env geo w delta out pos l = Inr (l', b)"
  shows "drags w l'"
proof (cases "la_interactive_move l")
  case (Some mv)
  show ?thesis
  proof (cases mv)
    case (Starting v d r)
    have start: "la_interactive_move l = Some (Starting w d r)" using w by (simp add: drags_def Some Starting)
    have "drags w l'" if "take_window env geo w out pos r oc wc l = Inr l'" for oc wc l'
      using take_window_ok [OF geo inv start, of out pos r oc wc] that
      by (auto simp: moving_window_def drags_def split: option.splits interactive_move.splits)
    then show ?thesis using run
      by (auto simp: interactive_move_update_def start Let_def drags_def split: if_splits)
  next
    case (Moving move)
    then show ?thesis using run w
      by (auto simp: interactive_move_update_def Some drags_def Let_def split: if_splits)
  qed
qed (use run w in \<open>simp add: interactive_move_update_def\<close>)

lemma run_then: "run step (xs @ ys) s = bind_res (run step xs s) (run step ys)"
proof (induction xs arbitrary: s)
  case (Cons x xs)
  then show ?case by (cases "step x s") simp_all
qed simp

lemma update_step:
  assumes geo: "geometry_ok geo" and inv: "layout_inv (env_parent env) l" and w: "drags w l"
  shows "returns (layout_step env geo (LaMoveUpdate w delta out pos) l) (\<lambda>l'. la_keeps (env_parent env) l l' \<and> drags w l')"
  unfolding layout_step.simps returns_first_of
  by (rule returns_mono [OF interactive_move_update_ok [OF geo inv]]) (auto dest: update_drags [OF geo inv w])

lemma updates_run:
  assumes geo: "geometry_ok geo" and inv: "layout_inv (env_parent env) l" and w: "drags w l"
  shows "returns (run (layout_step env geo) (map (\<lambda>(delta, out, pos). LaMoveUpdate w delta out pos) moves) l)
    (\<lambda>l'. la_keeps (env_parent env) l l' \<and> drags w l')"
  using inv w
proof (induction moves arbitrary: l)
  case (Cons move moves)
  obtain delta out pos where move: "move = (delta, out, pos)" by (cases move)
  have "returns (layout_step env geo (LaMoveUpdate w delta out pos) l)
      (\<lambda>l1. returns (run (layout_step env geo) (map (\<lambda>(delta, out, pos). LaMoveUpdate w delta out pos) moves) l1)
        (\<lambda>l'. la_keeps (env_parent env) l l' \<and> drags w l'))"
  proof (rule returns_mono [OF update_step [OF geo Cons.prems]])
    fix l1 assume l1: "la_keeps (env_parent env) l l1 \<and> drags w l1"
    then have "layout_inv (env_parent env) l1" "drags w l1" by (simp_all add: la_keeps_def)
    from Cons.IH [OF this] l1 show "returns (run (layout_step env geo) (map (\<lambda>(delta, out, pos). LaMoveUpdate w delta out pos) moves) l1)
        (\<lambda>l'. la_keeps (env_parent env) l l' \<and> drags w l')" by (auto elim!: returns_mono intro: la_keeps_trans)
  qed
  then show ?case by (simp add: move del: layout_step.simps)
qed (simp add: la_keeps_refl)

text \<open>
  C5. A drag always comes to an end with the window back in place: however the pointer moves between
  \<open>interactive_move_begin\<close> and \<open>interactive_move_end\<close> of a window, over whichever outputs, nothing panics, the
  move is over afterwards, and the workspaces hold the windows that they held before, the dragged one included.
\<close>

theorem drag_returns_window:
  assumes geo: "geometry_ok geo" and inv: "layout_inv (env_parent env) l" and idle: "la_interactive_move l = None"
  shows "\<exists>l'. run (layout_step env geo) (LaMoveBegin w out ratio # map (\<lambda>(delta, out, pos). LaMoveUpdate w delta out pos) moves @ [LaMoveEnd w]) l =
      Inr l' \<and> la_interactive_move l' = None \<and> placed_windows l' = placed_windows l \<and> layout_inv (env_parent env) l'"
proof -
  let ?p = "env_parent env" and ?updates = "map (\<lambda>(delta, out, pos). LaMoveUpdate w delta out pos) moves"
  obtain l1 where l1: "layout_step env geo (LaMoveBegin w out ratio) l = Inr l1" "la_keeps ?p l l1" "drags w l1"
    using begin_keeps [OF inv, of env geo w out ratio] begin_drags [OF _ idle, of env geo w out ratio]
    by (auto simp: returns_def first_of_def)
  from updates_run [OF geo _ l1(3), of env moves] l1(2) obtain l2 where
    l2: "run (layout_step env geo) ?updates l1 = Inr l2" "la_keeps ?p l1 l2" "drags w l2" by (auto simp: returns_def la_keeps_def)
  have keeps2: "la_keeps ?p l l2" by (rule la_keeps_trans [OF l1(2) l2(2)])
  obtain l3 where l3: "interactive_move_end env geo w l2 = Inr l3" "la_keeps ?p l2 l3"
    "la_interactive_move l3 = None \<or> l3 = l2 \<and> (\<forall>d r. la_interactive_move l2 \<noteq> Some (Starting w d r)) \<and> moving_window l2 \<noteq> Some w"
    using interactive_move_end_ok [OF geo, of env l2 w] keeps2 by (auto simp: returns_def la_keeps_def)
  have none: "la_interactive_move l3 = None" using l3(3) l2(3)
    by (auto simp: drags_def moving_window_def split: option.splits interactive_move.splits)
  have keeps: "la_keeps ?p l l3" by (rule la_keeps_trans [OF keeps2 l3(2)])
  then have "placed_windows l3 = placed_windows l" using none idle by (simp add: la_keeps_def la_windows_def moving_windows_def moving_window_def)
  moreover have "run (layout_step env geo) (LaMoveBegin w out ratio # ?updates @ [LaMoveEnd w]) l = Inr l3"
    unfolding run.simps run_then l1(1) bind_res.simps l2(1) using l3(1) by simp
  ultimately show ?thesis using keeps none by (auto simp: la_keeps_def)
qed

theorem drag_returns_window_witness:
  "\<exists>l l'. 1 \<in># placed_windows l \<and>
     run (layout_step example_env example_geometry) [LaMoveBegin 1 example_output (0, 0), LaMoveUpdate 1 \<lparr>pt_x = 300, pt_y = 0\<rparr> example_output \<lparr>pt_x = 900, pt_y = 500\<rparr>,
       LaMoveEnd 1] l = Inr l' \<and> la_interactive_move l' = None \<and> placed_windows l' = {#1#}"
proof -
  have "can_connect example_output example_layout" using example_layout_simps(1) by (auto simp: can_connect_def disconnected_def)
  from add_output_ok [OF example_layout_simps(3) this, of None] obtain l0 where l0: "layout_inv (env_parent example_env) l0"
    "placed_windows l0 = {#}" "la_interactive_move l0 = None" "\<exists>mons p a. la_monitor_set l0 = Normal mons p a"
    using example_layout_simps(2) by (auto simp: returns_def la_rearranges_def example_layout_simps(4) la_windows_def)
  have "returns (add_window example_env (example_tile 1) AddAuto (WidthFixed 800) False False ActivateYes l0)
      (la_adds (env_parent example_env) {#1#} l0)"
    using add_window_adds [OF l0(1), of "example_tile 1" AddAuto "WidthFixed 800" False False ActivateYes] l0(2,3)
    by (simp add: example_tile_def la_windows_def moving_windows_def moving_window_def)
  then obtain l where l: "layout_inv (env_parent example_env) l" "placed_windows l = {#1#}" "la_interactive_move l = None"
    using l0(2,3) by (auto simp: returns_def la_adds_def)
  from drag_returns_window [OF example_geometry_ok l(1,3), of 1 example_output "(0, 0)"
      "[(\<lparr>pt_x = 300, pt_y = 0\<rparr>, example_output, \<lparr>pt_x = 900, pt_y = 500\<rparr>)]"] l(2)
  show ?thesis by - (rule exI [of _ l], auto simp del: run.simps layout_step.simps)
qed

subsection \<open>Outputs\<close>

text \<open>
  C10. Connecting an output that was not connected, and to which none of the always empty workspaces at the
  edges of the primary monitor belongs (no other output with its name is connected), does not panic,
  adds its monitor at the end, and moves to it, in their order, exactly the used workspaces that belong
  to it: those of the primary monitor whose original output matches it, or all of them when no output
  was connected. Their windows come with them, the workspace that was last active there is active again,
  and no window of the layout is lost or stops being dragged.
\<close>

theorem add_output_restores_workspaces:
  assumes inv: "layout_inv parent l" and can: "can_connect out l"
  shows "\<exists>l' mons p a m. add_output out config l = Inr l' \<and> la_monitor_set l' = Normal (mons @ [m]) p a \<and> mo_output m = out \<and>
    map ws_id (filter used (mo_workspaces m)) = map ws_id (claimed out l) \<and> mo_windows m = wss_windows (claimed out l) \<and>
    (\<forall>ws. ws \<in> set (claimed out l) \<and> la_last_active_workspace_id l (on_connector (out_name out)) = Some (ws_id ws) \<longrightarrow>
      ws_id (mo_workspaces m ! mo_active_workspace_idx m) = ws_id ws) \<and>
    layout_inv parent l' \<and> la_windows l' = la_windows l \<and> la_interactive_move l' = la_interactive_move l"
proof -
  obtain l' mons p a m where run: "add_output out config l = Inr l'" and r: "la_rearranges parent l l'"
    and set: "la_monitor_set l' = Normal (mons @ [m]) p a" and m: "restored out l m"
    using add_output_ok [OF inv can, of config] by (auto simp: returns_def)
  then show ?thesis using rearranges_keeps [OF r] by (intro exI) (auto simp: restored_def la_rearranges_def la_keeps_def)
qed

theorem add_output_restores_workspaces_witness:
  "\<exists>l' mons p a m. add_output example_output None example_layout = Inr l' \<and> la_monitor_set l' = Normal (mons @ [m]) p a \<and>
     map ws_id (filter used (mo_workspaces m)) = [0, 1]"
proof -
  have can: "can_connect example_output example_layout" and ids: "map ws_id (claimed example_output example_layout) = [0, 1]"
    using example_layout_simps(1) by (auto simp: can_connect_def disconnected_def claimed_def)
  from add_output_restores_workspaces [OF example_layout_simps(3) can, of None] show ?thesis unfolding ids by (elim exE conjE) (intro exI conjI)
qed

lemma add_output_from_none:
  "add_output out config l = Inr l' \<Longrightarrow> la_monitor_set l = NoOutputs wss \<Longrightarrow> \<exists>m. la_monitor_set l' = Normal [m] 0 0"
  by (auto simp: add_output_def)

text \<open>
  C9. Unplugging the only output and plugging it in again restores the screen: its used workspaces come back
  in the same order with the same windows, the one that was active is active again if it was in use,
  and the layout keeps its invariant.
\<close>

theorem reconnecting_restores_screen:
  assumes inv: "layout_inv parent l" and set: "la_monitor_set l = Normal [m] 0 0"
  shows "\<exists>l1 l2 m'. remove_output (mo_output m) l = Inr l1 \<and> add_output (mo_output m) config l1 = Inr l2 \<and>
    la_monitor_set l2 = Normal [m'] 0 0 \<and> mo_output m' = mo_output m \<and>
    map ws_id (filter used (mo_workspaces m')) = map ws_id (filter used (mo_workspaces m)) \<and> mo_windows m' = mo_windows m \<and>
    (used (mo_workspaces m ! mo_active_workspace_idx m) \<longrightarrow>
      ws_id (mo_workspaces m' ! mo_active_workspace_idx m') = ws_id (mo_workspaces m ! mo_active_workspace_idx m)) \<and>
    layout_inv parent l2"
proof -
  let ?out = "mo_output m" and ?ws = "mo_workspaces m ! mo_active_workspace_idx m"
  let ?wss = "map (ws_update_config (lo_default_column_display (la_options l))) (mo_into_workspaces m)"
  have m: "monitor_inv parent m" using layout_inv_normalD(4) [OF inv set] by simp
  note own = mo_into_workspaces_ok [OF monitor_invD(4) [OF m]]
  have here: "is_output ?out m" by (simp add: is_output_def)
  have active: "mo_active_workspace m = Inr ?ws" by (rule mo_active_eq [OF m])
  define l1 where "l1 = l\<lparr>la_last_active_workspace_id := (la_last_active_workspace_id l)(on_connector (out_name ?out) \<mapsto> ws_id ?ws),
    la_monitor_set := NoOutputs ?wss\<rparr>"
  have run1: "remove_output ?out l = Inr l1"
    by (simp add: remove_output_def set here active vec_remove_def Let_def l1_def)
  have inv1: "layout_inv parent l1"
    using remove_output_rearranges [OF inv, of ?out] by (simp add: run1 disconnected_def set here la_rearranges_def)
  have claimed: "claimed ?out l1 = ?wss" by (simp add: claimed_def l1_def)
  have K: "map ws_id ?wss = map ws_id (filter used (mo_workspaces m))" "wss_windows ?wss = mo_windows m"
    using map_keeps [where f = "ws_update_config (lo_default_column_display (la_options l))", OF ws_update_config_keeps, of parent "mo_into_workspaces m"]
      own by (simp_all add: own_workspaces_def)
  obtain l2 mons p a m' where run2: "add_output ?out config l1 = Inr l2" "layout_inv parent l2"
    and set2: "la_monitor_set l2 = Normal (mons @ [m']) p a" and m': "restored ?out l1 m'"
    using add_output_ok [OF inv1, of ?out config] by (auto simp: returns_def can_connect_def disconnected_def l1_def la_rearranges_def)
  have set2': "la_monitor_set l2 = Normal [m'] 0 0" using add_output_from_none [OF run2(1), of ?wss] set2 by (auto simp: l1_def)
  have "ws_id (mo_workspaces m' ! mo_active_workspace_idx m') = ws_id ?ws" if "used ?ws"
  proof -
    have "ws_id ?ws \<in> set (map ws_id ?wss)" unfolding K(1) using that monitor_invD(5) [OF m] by simp
    then obtain ws where "ws \<in> set (claimed ?out l1)" "ws_id ws = ws_id ?ws" unfolding claimed set_map [of ws_id] by (metis imageE)
    then show ?thesis using m' by (auto simp: restored_def l1_def)
  qed
  with run1 run2 set2' m' K show ?thesis unfolding restored_def claimed by (intro exI [of _ l1] exI [of _ l2] exI [of _ m']) simp
qed

theorem reconnecting_restores_screen_witness:
  "\<exists>l l1 l2 m'. add_output example_output None example_layout = Inr l \<and> remove_output example_output l = Inr l1 \<and>
     add_output example_output None l1 = Inr l2 \<and> la_monitor_set l2 = Normal [m'] 0 0 \<and> map ws_id (filter used (mo_workspaces m')) = [0, 1]"
proof -
  have can: "can_connect example_output example_layout" and ids: "map ws_id (claimed example_output example_layout) = [0, 1]"
    using example_layout_simps(1) by (auto simp: can_connect_def disconnected_def claimed_def)
  from add_output_ok [OF example_layout_simps(3) can, of None] obtain l mons p a m where
    run: "add_output example_output None example_layout = Inr l" "layout_inv (env_parent example_env) l"
    "la_monitor_set l = Normal (mons @ [m]) p a" "restored example_output example_layout m" by (auto simp: returns_def la_rearranges_def)
  obtain A B where "la_monitor_set example_layout = NoOutputs [A, B]" using example_layout_simps(1) by blast
  from add_output_from_none [OF run(1) this] run(3) have set: "la_monitor_set l = Normal [m] 0 0" by auto
  have m: "mo_output m = example_output" "map ws_id (filter used (mo_workspaces m)) = [0, 1]" using run(4) ids by (auto simp: restored_def)
  from reconnecting_restores_screen [OF run(2) set, of None] run(1) show ?thesis unfolding m by (elim exE conjE) (intro exI conjI)
qed

subsection \<open>Dropping\<close>





text \<open>The workspaces are drawn below each other.\<close>

lemma render_geo_nth:
  assumes "i < length (mo_workspaces m)"
  shows "pt_y (rc_loc (workspaces_render_geo geo m ! i)) = pt_y (gm_first_workspace_loc geo m) + real i * (sz_h (gm_workspace_size geo m) + gm_workspace_gap geo m)"
    "rc_size (workspaces_render_geo geo m ! i) = gm_workspace_size geo m"
  using assms by (simp_all add: workspaces_render_geo_def Let_def nth_append)

lemma above_pointer:
  assumes i: "i < length (mo_workspaces m)" "k < i" and y: "rect_contains_y y (workspaces_render_geo geo m ! i)"
    and gap: "0 \<le> gm_workspace_gap geo m"
  shows "\<not> rect_contains_y y (workspaces_render_geo geo m ! k)"
proof -
  let ?h = "sz_h (gm_workspace_size geo m) + gm_workspace_gap geo m"
  have h: "0 \<le> ?h" using y gap i by (simp add: rect_contains_y_def render_geo_nth)
  have "real k + 1 \<le> real i" using i(2) by simp
  then have "(real k + 1) * ?h \<le> real i * ?h" using h by (rule mult_right_mono)
  then show ?thesis using y gap i by (simp add: rect_contains_y_def render_geo_nth distrib_right)
qed

lemma below_gap:
  assumes i: "i < length (mo_workspaces m)" "k \<le> i" and y: "rect_contains_y y (workspaces_render_geo geo m ! i)"
    and gap: "0 \<le> gm_workspace_gap geo m"
  shows "pt_y (rc_loc (workspaces_render_geo geo m ! k)) \<le> y"
proof -
  let ?h = "sz_h (gm_workspace_size geo m) + gm_workspace_gap geo m"
  have h: "0 \<le> ?h" using y gap i by (simp add: rect_contains_y_def render_geo_nth)
  have "real k * ?h \<le> real i * ?h" using i(2) h by (intro mult_right_mono) simp_all
  then show ?thesis using y i by (simp add: rect_contains_y_def render_geo_nth)
qed

lemma sorted_visible: "sorted_wrt (\<lambda>x y. fst (fst x) < fst (fst y)) (workspaces_with_render_geo_idx geo m)"
  unfolding workspaces_with_render_geo_idx_def
  by (intro sorted_wrt_filter) (simp add: sorted_wrt_iff_nth_less enumerate_eq_zip)

lemma loop_finds:
  assumes i: "i < length (mo_workspaces m)" and y: "rect_contains_y y (workspaces_render_geo geo m ! i)" and gap: "0 \<le> gm_workspace_gap geo m"
    and wgs: "set wgs \<subseteq> set (workspaces_with_render_geo_idx geo m)" "sorted_wrt (\<lambda>x y. fst (fst x) < fst (fst y)) wgs"
    and mem: "((i, mo_workspaces m ! i), workspaces_render_geo geo m ! i) \<in> set wgs"
  shows "insert_position_loop y last_geo k wgs = (Existing (ws_id (mo_workspaces m ! i)), workspaces_render_geo geo m ! i)"
  using wgs mem
proof (induction wgs arbitrary: last_geo k)
  case (Cons wg wgs)
  obtain j ws r where wg: "wg = ((j, ws), r)" by (metis prod.exhaust)
  then have v: "j < length (mo_workspaces m)" "ws = mo_workspaces m ! j" "r = workspaces_render_geo geo m ! j"
    using visible_workspace [of j ws r geo m] Cons.prems(1) by auto
  have "j \<le> i" using Cons.prems(2,3) by (auto simp: wg)
  then have gap': "\<not> rect_contains_y y (gap_between last_geo r)"
    using below_gap [OF i _ y gap, of j] by (simp add: rect_contains_y_def gap_between_def Let_def v(3))
  show ?case
  proof (cases "j = i")
    case True
    then show ?thesis using gap' y v by (simp add: wg)
  next
    case False
    then have "\<not> rect_contains_y y r" using above_pointer [OF i _ y gap, of j] \<open>j \<le> i\<close> v(3) by simp
    then show ?thesis using gap' Cons.IH [of r j] Cons.prems False v by (simp add: wg)
  qed
qed simp

text \<open>
  C22. A window dropped over a workspace goes to that workspace: whenever the pointer is within the height of
  a workspace that the monitor shows, \<open>insert_position\<close> returns its identifier and where it is drawn, and
  never a gap or one of its neighbours.
\<close>

theorem insert_position_finds_workspace:
  assumes i: "i < length (mo_workspaces m)" and y: "rect_contains_y (pt_y pos) (workspaces_render_geo geo m ! i)"
    and visible: "gm_intersects_output geo m (workspaces_render_geo geo m ! i)" and gap: "0 \<le> gm_workspace_gap geo m"
  shows "mo_insert_position geo pos m = Inr (Existing (ws_id (mo_workspaces m ! i)), workspaces_render_geo geo m ! i)"
proof -
  have mem: "((i, mo_workspaces m ! i), workspaces_render_geo geo m ! i) \<in> set (workspaces_with_render_geo_idx geo m)"
    using i visible by (auto simp: workspaces_with_render_geo_idx_def in_set_zip enumerate_eq_zip workspaces_render_geo_def Let_def intro!: exI [of _ i])
  then obtain j ws r rest where vis: "workspaces_with_render_geo_idx geo m = ((j, ws), r) # rest"
    by (metis list.set_cases surj_pair)
  have v: "r = workspaces_render_geo geo m ! j" "ws = mo_workspaces m ! j" using visible_workspace [of j ws r geo m] by (auto simp: vis)
  have sorted: "sorted_wrt (\<lambda>x y. fst (fst x) < fst (fst y)) rest" "j \<le> i" using sorted_visible [of geo m] mem by (auto simp: vis)
  show ?thesis
  proof (cases "j = i")
    case True
    then show ?thesis using y v by (simp add: mo_insert_position_def vis rect_contains_y_def)
  next
    case False
    have "insert_position_loop (pt_y pos) r j rest = (Existing (ws_id (mo_workspaces m ! i)), workspaces_render_geo geo m ! i)"
      by (rule loop_finds [OF i y gap _ sorted(1)]) (use mem False in \<open>auto simp: vis\<close>)
    then show ?thesis using above_pointer [OF i _ y gap, of j] below_gap [OF i sorted(2) y gap] sorted(2) False v
      by (simp add: mo_insert_position_def vis)
  qed
qed

theorem insert_position_finds_workspace_witness:
  "mo_insert_position example_geometry \<lparr>pt_x = 5, pt_y = 1300\<rparr> (example_monitor True) =
     Inr (Existing (ws_id (mo_workspaces (example_monitor True) ! 1)), \<lparr>rc_loc = \<lparr>pt_x = 0, pt_y = 1188\<rparr>, rc_size = \<lparr>sz_w = 1920, sz_h = 1080\<rparr>\<rparr>)"
proof -
  have n: "1 < length (mo_workspaces (example_monitor True))" using example_monitor_shape(1) by auto
  have r: "workspaces_render_geo example_geometry (example_monitor True) ! 1 =
      \<lparr>rc_loc = \<lparr>pt_x = 0, pt_y = 1188\<rparr>, rc_size = \<lparr>sz_w = 1920, sz_h = 1080\<rparr>\<rparr>"
    using n by (simp add: workspaces_render_geo_def example_geometry_def Let_def nth_append)
  have "rect_contains_y 1300 \<lparr>rc_loc = \<lparr>pt_x = 0, pt_y = 1188\<rparr>, rc_size = \<lparr>sz_w = 1920, sz_h = 1080\<rparr>\<rparr>"
    by (simp add: rect_contains_y_def)
  with insert_position_finds_workspace [OF n, of "\<lparr>pt_x = 5, pt_y = 1300\<rparr>" example_geometry, unfolded r] show ?thesis
    by (simp add: example_geometry_def)
qed

subsection \<open>A flaw\<close>

lemma locate_by_id:
  assumes inv: "layout_inv parent l" and set: "la_monitor_set l = Normal mons p a" and mi: "mi < length mons"
    and i: "i < length (mo_workspaces (mons ! mi))"
  shows "locate (\<lambda>ws. ws_id ws = ws_id (mo_workspaces (mons ! mi) ! i)) l = Some (mi, i)"
proof -
  let ?P = "\<lambda>ws. ws_id ws = ws_id (mo_workspaces (mons ! mi) ! i)"
  have "mo_workspaces (mons ! mi) ! i \<in> set (la_workspaces l)" using mi i by (auto simp: set intro!: bexI [of _ "mons ! mi"])
  then have "locate ?P l \<noteq> None" unfolding locate_None by blast
  then obtain mj j where loc: "locate ?P l = Some (mj, j)" by fastforce
  have j: "mj < length mons" "j < length (mo_workspaces (mons ! mj))" "?P (mo_workspaces (mons ! mj) ! j)"
    using locate_Some [OF loc] by (simp_all add: valid_loc_def ws_of_def set)
  have "mj = mi" using id_elsewhere [OF inv set mi j(1) _ i] j(2,3) by (metis image_eqI nth_mem)
  moreover have "monitor_inv parent (mons ! mi)" using layout_inv_normalD(4) [OF inv set] mi by simp
  then have "distinct (map ws_id (mo_workspaces (mons ! mi)))" using monitor_invD(4) by (auto simp: workspaces_inv_def)
  ultimately have "j = i" using j(2,3) i nth_eq_iff_index_eq [of "map ws_id (mo_workspaces (mons ! mi))" j i] by simp
  with \<open>mj = mi\<close> loc show ?thesis by simp
qed

text \<open>
  C39. \<open>set_workspace_name\<close> adds the empty workspaces that its comment asks for only on the active monitor,
  whichever monitor the named workspace is on: naming, by its identifier, the last workspace of
  another monitor leaves that monitor with a named last workspace and breaks \<open>verify_invariants\<close>.
\<close>

theorem naming_elsewhere_breaks_invariant:
  assumes inv: "layout_inv parent l" and set: "la_monitor_set l = Normal mons p a" and mi: "mi < length mons" "mi \<noteq> a"
    and fresh: "find_workspace_by_name name l = None"
  shows "\<exists>l' mons'. set_workspace_name name (Some (RefId (ws_id (last (mo_workspaces (mons ! mi)))))) l = Inr l' \<and>
    la_monitor_set l' = Normal mons' p a \<and> ws_name (last (mo_workspaces (mons' ! mi))) = Some name \<and> \<not> layout_inv parent l'"
proof -
  let ?m = "mons ! mi" and ?i = "length (mo_workspaces (mons ! mi)) - 1"
  have ne: "mo_workspaces ?m \<noteq> []" using monitor_invD(6) [OF layout_inv_normalD(4) [OF inv set]] mi(1) by simp
  then have i: "?i < length (mo_workspaces ?m)" by simp
  define wid where "wid = ws_id (mo_workspaces ?m ! ?i)"
  have wid': "ws_id (last (mo_workspaces ?m)) = wid" using ne by (simp add: wid_def last_conv_nth)
  have loc: "reference_or_active (Some (RefId wid)) l = Inr (Some (mi, ?i))"
    using locate_by_id [OF inv set mi(1) i] by (simp add: reference_or_active_def find_workspace_by_ref_def wid_def)
  have a: "a < length mons" by (rule layout_inv_normalD(2) [OF inv set])
  have "wid \<notin> ws_id ` set (mo_workspaces (mons ! a))" unfolding wid_def by (rule id_elsewhere [OF inv set mi(1) a mi(2) i])
  then have nop: "restore_edges wid (with_counter n (mons ! a)) = Inr (with_counter n (mons ! a))" for n
    using monitor_invD(6) [OF layout_inv_normalD(4) [OF inv set, of "mons ! a"]] a by (intro restore_edges_other) simp_all
  define m' where "m' = store_workspace ?i (named name (mo_workspaces ?m ! ?i)) (with_counter (la_next_id l) ?m)"
  define mons' where "mons' = (mons[mi := m'])[a := with_counter (la_next_id l) (mons ! a)]"
  define l' where "l' = l\<lparr>la_monitor_set := Normal mons' p a\<rparr>"
  have at: "workspace_at (mi, ?i) l = Inr (mo_workspaces ?m ! ?i)" using mi(1) i by (simp add: workspace_at_def set vec_simps)
  have modify: "modify_at (mi, ?i) (\<lambda>ws. Inr (ws\<lparr>ws_name := Some name\<rparr>)) l = Inr (l\<lparr>la_monitor_set := Normal (mons[mi := m']) p a\<rparr>)"
    using mi(1) i by (simp add: modify_at_def set on_monitor_def vec_simps on_workspace_def m'_def store_workspace_def named_def with_counter_def)
  have edges: "on_active_monitor (restore_edges wid) (l\<lparr>la_monitor_set := Normal (mons[mi := m']) p a\<rparr>) = Inr l'"
    using a mi(2) nop by (simp add: on_active_monitor_def on_monitor_def vec_simps l'_def mons'_def)
  have run: "set_workspace_name name (Some (RefId wid)) l = Inr l'"
    unfolding set_workspace_name_def loc using fresh at modify edges [unfolded wid_def] by simp
  have m': "mons' ! mi = m'" "mi < length mons'" using mi a by (simp_all add: mons'_def)
  have last: "last (mo_workspaces m') = named name (mo_workspaces ?m ! ?i)" using ne by (simp add: m'_def store_workspace_def last_list_update)
  have "\<not> monitor_inv parent m'" using last by (auto simp: monitor_inv_def untidy_inv_def edges_ok_def)
  then have "\<not> layout_inv parent l'" using layout_inv_normalD(4) [of parent l' mons' p a m'] m' nth_mem [of mi mons'] by (auto simp: l'_def)
  then show ?thesis using run last m' by (intro exI [of _ l'] exI [of _ mons']) (simp add: wid' l'_def named_def)
qed

text \<open>Two outputs with a workspace each.\<close>

definition other_output :: loutput where
  "other_output = \<lparr>out_handle = 2, out_name = example_output_name ''DP-2'', out_view = example_view\<rparr>"

definition fresh_monitor :: "loutput \<Rightarrow> nat \<Rightarrow> nat monitor" where
  "fresh_monitor out n = \<lparr>mo_output = out, mo_view = out_view out, mo_workspaces = [ws_new out DisplayNormal n],
     mo_active_workspace_idx = 0, mo_previous_workspace_id = None, mo_workspace_switch = None, mo_overview_open = False,
     mo_base_options = example_options False, mo_options = example_options False, mo_layout_config = None, mo_next_id = n + 1\<rparr>"

lemma fresh_monitor_new: "mo_new out [] None (example_options False) None n = Inr (fresh_monitor out n)"
  by (simp add: mo_new_def Let_def with_merged_layout_def example_options_def fresh_monitor_def)

lemma fresh_monitor_simps [simp]:
  "mo_output (fresh_monitor out n) = out" "mo_workspaces (fresh_monitor out n) = [ws_new out DisplayNormal n]" "mo_next_id (fresh_monitor out n) = n + 1"
  by (simp_all add: fresh_monitor_def)

lemma fresh_monitor_inv: "monitor_inv (\<lambda>_. None) (fresh_monitor out n)"
proof -
  have "own_workspaces (\<lambda>_. None) n ([] :: nat lworkspace list)" by (simp add: own_workspaces_def)
  from mo_new_ok [OF this, of out None "example_options False" None] show ?thesis unfolding fresh_monitor_new returns_Inr by blast
qed

definition two_outputs :: "nat layout" where
  "two_outputs = \<lparr>la_monitor_set = Normal [fresh_monitor example_output 0, fresh_monitor other_output 1] 0 0,
     la_last_active_workspace_id = Map.empty, la_interactive_move = None, la_overview_open = False,
     la_options = example_options False, la_next_id = 2\<rparr>"

lemma two_outputs_inv: "layout_inv (\<lambda>_. None) two_outputs"
  using fresh_monitor_inv
  by (auto simp: layout_inv_def pool_ok_def two_outputs_def monitor_set_ok_def monitor_of_def start_ok_def moving_windows_def
      moving_window_def ws_new_unused example_output_def other_output_def)

theorem naming_elsewhere_breaks_invariant_witness:
  "\<exists>l' mons'. set_workspace_name ''work'' (Some (RefId 1)) two_outputs = Inr l' \<and> la_monitor_set l' = Normal mons' 0 0 \<and>
     ws_name (last (mo_workspaces (mons' ! 1))) = Some ''work''"
proof -
  have set: "la_monitor_set two_outputs = Normal [fresh_monitor example_output 0, fresh_monitor other_output 1] 0 0" by (simp add: two_outputs_def)
  have "find_workspace_by_name ''work'' two_outputs = None"
    unfolding find_workspace_by_name_def locate_None
    by (simp add: set fresh_monitor_def name_matches_def ws_new_def ws_new_with_config_def Let_def)
  from naming_elsewhere_breaks_invariant [OF two_outputs_inv set _ _ this, of 1] show ?thesis
    by (auto simp: fresh_monitor_def ws_new_unused)
qed

subsection \<open>Outputs with the same name\<close>

lemma take_matching_all:
  assumes "\<forall>ws \<in> set (mo_workspaces m). belongs_to out ws" "n = length (mo_workspaces m)"
  shows "\<exists>a. take_matching out (rev [0..<n]) m stopped wss =
    Inr (m\<lparr>mo_workspaces := [], mo_active_workspace_idx := a, mo_workspace_switch := (if n = 0 then mo_workspace_switch m else None)\<rparr>,
         stopped \<or> n \<noteq> 0 \<and> mo_workspace_switch m \<noteq> None, wss @ rev (filter used (mo_workspaces m)))"
  using assms
proof (induction n arbitrary: m stopped wss)
  case 0
  have "m = m\<lparr>mo_workspaces := [], mo_active_workspace_idx := mo_active_workspace_idx m, mo_workspace_switch := mo_workspace_switch m\<rparr>"
    using 0 by simp
  then show ?case using 0 by (auto intro!: exI [of _ "mo_active_workspace_idx m"])
next
  case (Suc n)
  then obtain front ws where wss: "mo_workspaces m = front @ [ws]" "length front = n" by (cases "mo_workspaces m" rule: rev_cases) auto
  let ?a = "mo_active_workspace_idx m"
  define m1 where "m1 = m\<lparr>mo_workspaces := front, mo_workspace_switch := None,
    mo_active_workspace_idx := (if n \<le> ?a \<and> \<not> (above_first m \<and> ?a = 1) then ?a - 1 else ?a)\<rparr>"
  have "take_matching out (rev [0..<Suc n]) m stopped wss =
      take_matching out (rev [0..<n]) m1 (stopped \<or> mo_workspace_switch m \<noteq> None) (if used ws then wss @ [ws] else wss)"
    using Suc.prems wss by (simp add: Let_def vec_simps belongs_to_def m1_def nth_append)
  moreover have "\<exists>a. take_matching out (rev [0..<n]) m1 (stopped \<or> mo_workspace_switch m \<noteq> None) (if used ws then wss @ [ws] else wss) =
      Inr (m1\<lparr>mo_workspaces := [], mo_active_workspace_idx := a, mo_workspace_switch := None\<rparr>,
        stopped \<or> mo_workspace_switch m \<noteq> None, (if used ws then wss @ [ws] else wss) @ rev (filter used front))"
  proof -
    have m1: "mo_workspaces m1 = front" "mo_workspace_switch m1 = None" by (simp_all add: m1_def)
    have "\<forall>ws \<in> set (mo_workspaces m1). belongs_to out ws" "n = length (mo_workspaces m1)" using Suc.prems wss m1 by simp_all
    from Suc.IH [OF this, of "stopped \<or> mo_workspace_switch m \<noteq> None" "if used ws then wss @ [ws] else wss"]
    show ?thesis unfolding m1 by simp
  qed
  moreover have "m1\<lparr>mo_workspaces := [], mo_active_workspace_idx := a, mo_workspace_switch := None\<rparr> =
      m\<lparr>mo_workspaces := [], mo_active_workspace_idx := a, mo_workspace_switch := None\<rparr>" for a by (simp add: m1_def)
  ultimately show ?case by (auto simp: wss)
qed

text \<open>
  C38. The layout relies on its caller to keep names of outputs apart, as the comment on duplicates in
  \<^verbatim>\<open>backend/tty.rs\<close> says. Connecting an output to which all the workspaces of the primary monitor belong,
  such as a second one of the same make, model and serial, takes all of them away: with a workspace
  switch in progress this panics, and otherwise it leaves the primary monitor without workspaces, which
  breaks the invariant, and any operation on the active workspace panics if that monitor is the active one.
\<close>

theorem connecting_twin_breaks_layout:
  assumes inv: "layout_inv parent l" and set: "la_monitor_set l = Normal mons p a"
    and twin: "\<forall>ws \<in> set (mo_workspaces (mons ! p)). belongs_to out ws"
  shows "if mo_workspace_switch (mons ! p) = None
    then \<exists>l' mons'. add_output out config l = Inr l' \<and> la_monitor_set l' = Normal mons' p a \<and> mo_workspaces (mons' ! p) = [] \<and>
      \<not> layout_inv parent l' \<and> (a = p \<longrightarrow> (\<forall>f. \<exists>e. on_active_workspace f l' = Inl e))
    else \<exists>e. add_output out config l = Inl e"
proof -
  let ?m = "mons ! p"
  have p: "p < length mons" using layout_inv_normalD(1) [OF inv set] .
  have m: "monitor_inv parent ?m" using layout_inv_normalD(4) [OF inv set] p by simp
  have n: "length (mo_workspaces ?m) \<noteq> 0" using monitor_invD(6) [OF m] by simp
  obtain b where take: "take_matching out (rev [0..<length (mo_workspaces ?m)]) ?m False [] =
      Inr (?m\<lparr>mo_workspaces := [], mo_active_workspace_idx := b, mo_workspace_switch := None\<rparr>,
        mo_workspace_switch ?m \<noteq> None, rev (filter used (mo_workspaces ?m)))"
    using take_matching_all [OF twin refl, of False "[]"] n by auto
  have claimed: "claimed out l = filter used (mo_workspaces ?m)" using twin by (auto simp: claimed_def set intro!: filter_cong)
  show ?thesis
  proof (cases "mo_workspace_switch ?m = None")
    case True
    define m' where "m' = ?m\<lparr>mo_workspaces := [], mo_active_workspace_idx := b, mo_workspace_switch := None\<rparr>"
    have taken: "take_back out ?m = Inr (m', filter used (mo_workspaces ?m))" using True by (simp add: take_back_def take m'_def)
    obtain new l1 where con: "connect out config (filter used (mo_workspaces ?m)) l = Inr (new, l1)"
      using connect_ok [OF claimed_own [OF inv, of out], of out config] unfolding claimed returns_def by auto
    define l' where "l' = l1\<lparr>la_monitor_set := Normal (mons[p := m'] @ [new]) p a\<rparr>"
    have set': "la_monitor_set l' = Normal (mons[p := m'] @ [new]) p a" by (simp add: l'_def)
    have run: "add_output out config l = Inr l'" using p by (simp add: add_output_def set vec_simps taken con l'_def)
    have none: "mo_workspaces m' = []" by (simp add: m'_def)
    have at: "(mons[p := m'] @ [new]) ! p = m'" using p by (simp add: nth_append)
    have "m' \<in> set (mons[p := m'] @ [new])" using p by (simp add: set_update_memI)
    then have "\<not> layout_inv parent l'" using layout_inv_normalD(4) [of parent l', OF _ set'] monitor_invD(6) [of parent m'] by (auto simp: m'_def)
    moreover have "\<exists>e. on_active_workspace f l' = Inl e" if "a = p" for f
      using p none by (simp add: on_active_workspace_def on_active_monitor_def on_monitor_def set' that vec_simps at with_counter_def on_workspace_def vec_index_def)
    ultimately show ?thesis using True run set' at by (auto simp: m'_def)
  next
    case False
    then have "\<exists>e. take_back out ?m = Inl e" by (simp add: take_back_def take clean_up_workspaces_def last_idx_def)
    then show ?thesis using False p by (auto simp: add_output_def set vec_simps)
  qed
qed

text \<open>The first of the two outputs alone; the other one has the same make, model and serial.\<close>

definition one_output :: "nat layout" where
  "one_output = two_outputs\<lparr>la_monitor_set := Normal [fresh_monitor example_output 0] 0 0\<rparr>"

lemma one_output_inv: "layout_inv (\<lambda>_. None) one_output"
  using fresh_monitor_inv [of example_output 0]
  by (auto simp: layout_inv_def pool_ok_def one_output_def two_outputs_def monitor_set_ok_def monitor_of_def start_ok_def
      moving_windows_def moving_window_def ws_new_unused)

theorem connecting_twin_breaks_layout_witness:
  "\<exists>l' mons'. add_output other_output None one_output = Inr l' \<and> la_monitor_set l' = Normal mons' 0 0 \<and>
     mo_workspaces (mons' ! 0) = [] \<and> \<not> layout_inv (\<lambda>_. None) l' \<and> (\<exists>e. on_active_workspace Inr l' = Inl e)"
proof -
  have set: "la_monitor_set one_output = Normal [fresh_monitor example_output 0] 0 0" by (simp add: one_output_def)
  have "belongs_to other_output (ws_new example_output DisplayNormal 0)"
    using stored_name_matches_witness
    by (simp add: belongs_to_def other_output_def example_output_def ws_new_def ws_new_with_config_def Let_def output_id_def)
  with connecting_twin_breaks_layout [OF one_output_inv set, of other_output None] show ?thesis by (auto simp: fresh_monitor_def)
qed

end
