(* ===== verification/Window_Mru.thy ===== *)
theory Window_Mru
  imports Niri_Prelude "HOL-Library.Multiset" "HOL-Library.Option_ord"
begin

text \<open>
  The switcher of recent windows, \<^verbatim>\<open>WindowMru\<close> and \<^verbatim>\<open>WindowMruUi\<close> of \<^verbatim>\<open>src/ui/mru.rs\<close>: the windows in the order
  of their last focus, which of them a scope and a filter show, the selected one, and the life of the
  interface from opening to the end of its closing animation. What is drawn, and the animations of
  the thumbnails, are left out; the thumbnail under the pointer, the time and the end of the closing
  animation are parameters.
\<close>

record thumbnail =
  th_id :: nat
  th_timestamp :: "nat option"
  th_on_current_workspace :: bool
  th_on_current_output :: bool
  th_app_id :: "string option"

datatype mru_scope = ScopeAll | ScopeOutput | ScopeWorkspace

datatype mru_filter = FilterAll | FilterAppId

datatype mru_direction = MruForward | MruBackward

datatype mru_close_request = MruCancel | MruConfirm

record window_mru =
  mru_thumbnails :: "thumbnail list"
  mru_current_id :: "nat option"
  mru_scope :: mru_scope
  mru_app_id_filter :: "string option"

text \<open>A workspace as \<open>new\<close> sees it: its output, whether it is active there, and the thumbnails of its windows.\<close>

record mru_workspace =
  mw_output :: nat
  mw_is_active :: bool
  mw_windows :: "thumbnail list"

subsection \<open>The windows\<close>

definition mru_matches :: "mru_scope \<Rightarrow> string option \<Rightarrow> thumbnail \<Rightarrow> bool" where
  "mru_matches scope app_id_filter t =
     ((case scope of ScopeAll \<Rightarrow> True | ScopeOutput \<Rightarrow> th_on_current_output t | ScopeWorkspace \<Rightarrow> th_on_current_workspace t) \<and>
      (case app_id_filter of Some app_id \<Rightarrow> th_app_id t = Some app_id | None \<Rightarrow> True))"

definition mru_visible :: "window_mru \<Rightarrow> thumbnail list" where
  "mru_visible m = filter (mru_matches (mru_scope m) (mru_app_id_filter m)) (mru_thumbnails m)"

definition mru_visible_with_idx :: "window_mru \<Rightarrow> (nat \<times> thumbnail) list" where
  "mru_visible_with_idx m = filter (\<lambda>(_, t). mru_matches (mru_scope m) (mru_app_id_filter m) t) (enumerate 0 (mru_thumbnails m))"

text \<open>The most recent first; a stable sort in descending order is a stable ascending one of the reversed list, reversed.\<close>

definition mru_new :: "nat option \<Rightarrow> mru_workspace list \<Rightarrow> window_mru" where
  "mru_new active_output wss =
     (case active_output of
        None \<Rightarrow> \<lparr>mru_thumbnails = [], mru_current_id = None, mru_scope = ScopeAll, mru_app_id_filter = None\<rparr>
      | Some out \<Rightarrow>
          let thumbnails = concat (map (\<lambda>ws. map (\<lambda>t. t\<lparr>th_on_current_output := (mw_output ws = out),
                  th_on_current_workspace := (mw_output ws = out \<and> mw_is_active ws)\<rparr>) (mw_windows ws)) wss);
              thumbnails = rev (sort_key th_timestamp (rev thumbnails))
          in \<lparr>mru_thumbnails = thumbnails, mru_current_id = (case thumbnails of [] \<Rightarrow> None | t # _ \<Rightarrow> Some (th_id t)),
              mru_scope = ScopeAll, mru_app_id_filter = None\<rparr>)"

text \<open>\<open>iter.skip_while(|t| t.id != id).nth(1)\<close> and \<open>iter.next()\<close>.\<close>

definition next_after :: "nat \<Rightarrow> thumbnail list \<Rightarrow> thumbnail option" where
  "next_after id' ts = (case dropWhile (\<lambda>t. th_id t \<noteq> id') ts of _ # t # _ \<Rightarrow> Some t | _ \<Rightarrow> None)"

definition iter_next :: "'a list \<Rightarrow> 'a option" where
  "iter_next xs = (case xs of [] \<Rightarrow> None | x # _ \<Rightarrow> Some x)"

definition mru_forward :: "window_mru \<Rightarrow> window_mru res" where
  "mru_forward m =
     (case mru_current_id m of
        None \<Rightarrow> Inr m
      | Some id' \<Rightarrow>
          (case next_after id' (mru_visible m) of
             Some t \<Rightarrow> Inr (m\<lparr>mru_current_id := Some (th_id t)\<rparr>)
           | None \<Rightarrow> bind_res (unwrap (iter_next (mru_visible m))) (\<lambda>t. Inr (m\<lparr>mru_current_id := Some (th_id t)\<rparr>))))"

definition mru_backward :: "window_mru \<Rightarrow> window_mru res" where
  "mru_backward m =
     (case mru_current_id m of
        None \<Rightarrow> Inr m
      | Some id' \<Rightarrow>
          (case next_after id' (rev (mru_visible m)) of
             Some t \<Rightarrow> Inr (m\<lparr>mru_current_id := Some (th_id t)\<rparr>)
           | None \<Rightarrow> bind_res (unwrap (iter_next (rev (mru_visible m)))) (\<lambda>t. Inr (m\<lparr>mru_current_id := Some (th_id t)\<rparr>))))"

definition mru_set_current :: "nat \<Rightarrow> window_mru \<Rightarrow> window_mru" where
  "mru_set_current id' m = (if list_ex (\<lambda>t. th_id t = id') (mru_visible m) then m\<lparr>mru_current_id := Some id'\<rparr> else m)"

definition mru_first_id :: "window_mru \<Rightarrow> nat option" where
  "mru_first_id m = map_option th_id (iter_next (mru_visible m))"

definition mru_first :: "window_mru \<Rightarrow> window_mru" where
  "mru_first m = m\<lparr>mru_current_id := mru_first_id m\<rparr>"

definition mru_last :: "window_mru \<Rightarrow> window_mru" where
  "mru_last m = m\<lparr>mru_current_id := map_option th_id (iter_next (rev (mru_visible m)))\<rparr>"

text \<open>The index of the selected window, and the window to select from there: the same, the first to its left, or the first.\<close>

definition mru_current_idx :: "nat \<Rightarrow> window_mru \<Rightarrow> (nat \<times> thumbnail) res" where
  "mru_current_idx id' m = unwrap (find (\<lambda>(_, t). th_id t = id') (mru_visible_with_idx m))"

definition mru_select_near :: "nat \<Rightarrow> window_mru \<Rightarrow> window_mru" where
  "mru_select_near current_idx m =
     (let before = takeWhile (\<lambda>(idx, _). \<not> idx > current_idx) (mru_visible_with_idx m)
      in m\<lparr>mru_current_id := (if before = [] then mru_first_id m else Some (th_id (snd (last before))))\<rparr>)"

definition mru_set_scope :: "mru_scope \<Rightarrow> window_mru \<Rightarrow> (mru_scope option \<times> window_mru) res" where
  "mru_set_scope scope m =
     (if mru_scope m = scope then Inr (None, m)
      else case mru_current_id m of
             Some id' \<Rightarrow>
               bind_res (mru_current_idx id' m) (\<lambda>(current_idx, _).
                 Inr (Some (mru_scope m), mru_select_near current_idx (m\<lparr>mru_scope := scope\<rparr>)))
           | None \<Rightarrow> Inr (Some (mru_scope m), mru_first (m\<lparr>mru_scope := scope\<rparr>)))"

definition mru_set_filter :: "mru_filter \<Rightarrow> window_mru \<Rightarrow> (string option option \<times> window_mru) res" where
  "mru_set_filter filter' m =
     (if (mru_app_id_filter m \<noteq> None) = (filter' = FilterAppId) then Inr (None, m)
      else case mru_current_id m of
             Some id' \<Rightarrow>
               bind_res (mru_current_idx id' m) (\<lambda>(current_idx, current_thumbnail).
                 case filter' of
                   FilterAll \<Rightarrow>
                     bind_res (expect ''verified by early return at the top'' (mru_app_id_filter m)) (\<lambda>old.
                       Inr (Some (Some old), mru_select_near current_idx (m\<lparr>mru_app_id_filter := None\<rparr>)))
                 | FilterAppId \<Rightarrow>
                     (case th_app_id current_thumbnail of
                        None \<Rightarrow> Inr (None, m)
                      | Some current \<Rightarrow>
                          bind_res (assert_that ''verified by early return at the top'' (mru_app_id_filter m = None)) (\<lambda>_.
                            Inr (Some None, mru_select_near current_idx (m\<lparr>mru_app_id_filter := Some current\<rparr>)))))
           | None \<Rightarrow>
               (case filter' of
                  FilterAll \<Rightarrow>
                    bind_res (expect ''verified by early return at the top'' (mru_app_id_filter m)) (\<lambda>old.
                      Inr (Some (Some old), mru_first (m\<lparr>mru_app_id_filter := None\<rparr>)))
                | FilterAppId \<Rightarrow> Inr (None, m)))"

definition mru_idx_of :: "nat \<Rightarrow> window_mru \<Rightarrow> nat option" where
  "mru_idx_of id' m = position (\<lambda>t. th_id t = id') (mru_thumbnails m)"

definition mru_remove_by_idx :: "nat \<Rightarrow> window_mru \<Rightarrow> (thumbnail \<times> window_mru) res" where
  "mru_remove_by_idx idx m =
     bind_res (vec_index (mru_thumbnails m) idx) (\<lambda>t.
     bind_res (if mru_current_id m = Some (th_id t) then mru_forward m else Inr m) (\<lambda>m.
     let m = (if mru_current_id m = Some (th_id t) then m\<lparr>mru_current_id := None\<rparr> else m)
     in bind_res (vec_remove idx (mru_thumbnails m)) (\<lambda>(removed, ts).
          Inr (removed, m\<lparr>mru_thumbnails := ts\<rparr>))))"

subsection \<open>The interface\<close>

datatype mru_ui = UiOpen window_mru nat | UiClosing window_mru | UiClosed mru_scope

definition mru_ui_new :: mru_ui where
  "mru_ui_new = UiClosed ScopeAll"

definition mru_ui_is_open :: "mru_ui \<Rightarrow> bool" where
  "mru_ui_is_open ui = (case ui of UiOpen _ _ \<Rightarrow> True | _ \<Rightarrow> False)"

definition mru_ui_open :: "nat \<Rightarrow> nat \<Rightarrow> window_mru \<Rightarrow> mru_ui \<Rightarrow> mru_ui" where
  "mru_ui_open now open_delay wmru ui = (if mru_ui_is_open ui then ui else UiOpen wmru (now + open_delay))"

definition mru_ui_close :: "nat \<Rightarrow> mru_close_request \<Rightarrow> mru_ui \<Rightarrow> nat option \<times> mru_ui" where
  "mru_ui_close now request ui =
     (case ui of
        UiOpen wmru open_at \<Rightarrow>
          let response = (case request of MruCancel \<Rightarrow> None | MruConfirm \<Rightarrow> mru_current_id wmru)
          in if now < open_at then (response, UiClosed (mru_scope wmru)) else (response, UiClosing wmru)
      | _ \<Rightarrow> (None, ui))"

text \<open>
  After a change of scope or filter the new thumbnails are animated, which looks the selected window up.
\<close>

definition mru_animate_change :: "window_mru \<Rightarrow> unit res" where
  "mru_animate_change m =
     (case mru_current_id m of None \<Rightarrow> Inr () | Some id' \<Rightarrow> bind_res (unwrap (mru_idx_of id' m)) (\<lambda>_. Inr ()))"

definition mru_inner_set_scope :: "mru_scope \<Rightarrow> window_mru \<Rightarrow> window_mru res" where
  "mru_inner_set_scope scope m =
     bind_res (mru_set_scope scope m) (\<lambda>(old, m).
       if old \<noteq> None then bind_res (mru_animate_change m) (\<lambda>_. Inr m) else Inr m)"

definition mru_inner_set_filter :: "mru_filter \<Rightarrow> window_mru \<Rightarrow> window_mru res" where
  "mru_inner_set_filter filter' m =
     bind_res (mru_set_filter filter' m) (\<lambda>(old, m).
       if old \<noteq> None then bind_res (mru_animate_change m) (\<lambda>_. Inr m) else Inr m)"

definition mru_inner_remove_window :: "nat \<Rightarrow> window_mru \<Rightarrow> (thumbnail option \<times> window_mru) res" where
  "mru_inner_remove_window id' m =
     (case mru_idx_of id' m of
        None \<Rightarrow> Inr (None, m)
      | Some idx \<Rightarrow> bind_res (mru_remove_by_idx idx m) (\<lambda>(t, m). Inr (Some t, m)))"

definition on_open :: "(window_mru \<Rightarrow> window_mru res) \<Rightarrow> mru_ui \<Rightarrow> mru_ui res" where
  "on_open f ui = (case ui of UiOpen wmru open_at \<Rightarrow> bind_res (f wmru) (\<lambda>wmru. Inr (UiOpen wmru open_at)) | _ \<Rightarrow> Inr ui)"

definition mru_ui_advance :: "mru_direction \<Rightarrow> mru_filter option \<Rightarrow> mru_ui \<Rightarrow> mru_ui res" where
  "mru_ui_advance dir filter' =
     on_open (\<lambda>wmru.
       bind_res (case filter' of Some f \<Rightarrow> mru_inner_set_filter f wmru | None \<Rightarrow> Inr wmru) (\<lambda>wmru.
         case dir of MruForward \<Rightarrow> mru_forward wmru | MruBackward \<Rightarrow> mru_backward wmru))"

definition mru_ui_set_scope :: "mru_scope \<Rightarrow> mru_ui \<Rightarrow> mru_ui res" where
  "mru_ui_set_scope scope = on_open (mru_inner_set_scope scope)"

text \<open>\<open>SCOPE_CYCLE\<close>, repeated, has every scope, so the search ends within its first round.\<close>

definition SCOPE_CYCLE :: "mru_scope list" where
  "SCOPE_CYCLE = [ScopeAll, ScopeWorkspace, ScopeOutput]"

definition mru_ui_cycle_scope :: "mru_ui \<Rightarrow> mru_ui res" where
  "mru_ui_cycle_scope ui =
     (case ui of
        UiOpen wmru _ \<Rightarrow>
          bind_res (vec_index (dropWhile (\<lambda>s. s \<noteq> mru_scope wmru) (SCOPE_CYCLE @ SCOPE_CYCLE)) 1) (\<lambda>scope.
            mru_ui_set_scope scope ui)
      | _ \<Rightarrow> Inr ui)"

definition mru_ui_pointer_motion :: "(window_mru \<Rightarrow> nat option) \<Rightarrow> mru_ui \<Rightarrow> mru_ui res" where
  "mru_ui_pointer_motion thumbnail_under =
     on_open (\<lambda>wmru. Inr (case thumbnail_under wmru of Some id' \<Rightarrow> mru_set_current id' wmru | None \<Rightarrow> wmru))"

definition mru_ui_first :: "mru_ui \<Rightarrow> mru_ui res" where
  "mru_ui_first = on_open (\<lambda>wmru. Inr (mru_first wmru))"

definition mru_ui_last :: "mru_ui \<Rightarrow> mru_ui res" where
  "mru_ui_last = on_open (\<lambda>wmru. Inr (mru_last wmru))"

definition mru_ui_scope :: "mru_ui \<Rightarrow> mru_scope" where
  "mru_ui_scope ui = (case ui of UiClosed previous_scope \<Rightarrow> previous_scope | UiOpen wmru _ \<Rightarrow> mru_scope wmru | UiClosing wmru \<Rightarrow> mru_scope wmru)"

definition mru_ui_current_window_id :: "mru_ui \<Rightarrow> nat option" where
  "mru_ui_current_window_id ui = (case ui of UiOpen wmru _ \<Rightarrow> mru_current_id wmru | _ \<Rightarrow> None)"

definition mru_ui_remove_window :: "nat \<Rightarrow> nat \<Rightarrow> mru_ui \<Rightarrow> mru_ui res" where
  "mru_ui_remove_window now id' ui =
     (case ui of
        UiOpen wmru open_at \<Rightarrow>
          bind_res (mru_inner_remove_window id' wmru) (\<lambda>(t, wmru).
            Inr (if t \<noteq> None \<and> mru_thumbnails wmru = [] then snd (mru_ui_close now MruCancel (UiOpen wmru open_at))
                 else UiOpen wmru open_at))
      | _ \<Rightarrow> Inr ui)"

definition mru_ui_advance_animations :: "bool \<Rightarrow> mru_ui \<Rightarrow> mru_ui" where
  "mru_ui_advance_animations is_done ui =
     (case ui of UiClosing wmru \<Rightarrow> if is_done then UiClosed (mru_scope wmru) else ui | _ \<Rightarrow> ui)"

subsection \<open>The invariant\<close>

definition mru_inv :: "window_mru \<Rightarrow> bool" where
  "mru_inv m \<longleftrightarrow> distinct (map th_id (mru_thumbnails m)) \<and>
     (case mru_current_id m of Some id' \<Rightarrow> id' \<in> th_id ` set (mru_visible m) | None \<Rightarrow> mru_visible m = [])"

definition ui_inv :: "mru_ui \<Rightarrow> bool" where
  "ui_inv ui \<longleftrightarrow> (case ui of UiOpen wmru _ \<Rightarrow> mru_inv wmru | _ \<Rightarrow> True)"

lemma distinct_visible: "mru_inv m \<Longrightarrow> distinct (map th_id (mru_visible m))"
  by (auto simp: mru_inv_def mru_visible_def distinct_map_filter)

lemma visible_current [simp]: "mru_visible (m\<lparr>mru_current_id := x\<rparr>) = mru_visible m" "mru_visible_with_idx (m\<lparr>mru_current_id := x\<rparr>) = mru_visible_with_idx m"
  by (simp_all add: mru_visible_def mru_visible_with_idx_def)

lemma mru_inv_select:
  "distinct (map th_id (mru_thumbnails m)) \<Longrightarrow> t \<in> set (mru_visible m) \<Longrightarrow> mru_inv (m\<lparr>mru_current_id := Some (th_id t)\<rparr>)"
  by (simp add: mru_inv_def)

lemma mru_invD: "mru_inv m \<Longrightarrow> distinct (map th_id (mru_thumbnails m))"
  by (simp add: mru_inv_def)

lemma mru_current_nth:
  assumes "mru_inv m" "mru_current_id m = Some id'"
  obtains i where "i < length (mru_visible m)" "th_id (mru_visible m ! i) = id'"
proof -
  have "id' \<in> th_id ` set (mru_visible m)" using assms by (simp add: mru_inv_def)
  then show ?thesis using that by (auto simp: in_set_conv_nth)
qed

subsection \<open>Going around\<close>

lemma next_after_nth:
  assumes "distinct (map th_id ts)" "i < length ts"
  shows "next_after (th_id (ts ! i)) ts = (if i + 1 < length ts then Some (ts ! (i + 1)) else None)"
proof -
  let ?P = "\<lambda>t. th_id t \<noteq> th_id (ts ! i)"
  have "takeWhile ?P ts = take i ts"
    using assms nth_eq_iff_index_eq [of "map th_id ts"] by (intro takeWhile_eq_take_P_nth) auto
  then have "dropWhile ?P ts = drop i ts" using assms(2) by (simp add: dropWhile_eq_drop)
  also have "\<dots> = ts ! i # drop (i + 1) ts" using assms(2) by (simp add: Cons_nth_drop_Suc)
  finally show ?thesis by (cases "i + 1 < length ts") (simp_all add: next_after_def Cons_nth_drop_Suc [symmetric])
qed

lemma iter_next_nth: "xs \<noteq> [] \<Longrightarrow> iter_next xs = Some (xs ! 0)"
  by (cases xs) (simp_all add: iter_next_def)

lemma mru_forward_nth:
  assumes inv: "mru_inv m" and i: "i < length (mru_visible m)" "mru_current_id m = Some (th_id (mru_visible m ! i))"
  shows "mru_forward m = Inr (m\<lparr>mru_current_id := Some (th_id (mru_visible m ! ((i + 1) mod length (mru_visible m))))\<rparr>)"
proof -
  have ne: "mru_visible m \<noteq> []" using i(1) by auto
  show ?thesis
  proof (cases "i + 1 < length (mru_visible m)")
    case True
    then show ?thesis using next_after_nth [OF distinct_visible [OF inv] i(1)] by (simp add: mru_forward_def i(2))
  next
    case False
    then have "i + 1 = length (mru_visible m)" using i(1) by simp
    then show ?thesis using next_after_nth [OF distinct_visible [OF inv] i(1)] iter_next_nth [OF ne] by (simp add: mru_forward_def i(2))
  qed
qed

lemma mru_backward_nth:
  assumes inv: "mru_inv m" and i: "i < length (mru_visible m)" "mru_current_id m = Some (th_id (mru_visible m ! i))"
  shows "mru_backward m = Inr (m\<lparr>mru_current_id := Some (th_id (mru_visible m ! ((i + length (mru_visible m) - 1) mod length (mru_visible m))))\<rparr>)"
proof -
  let ?ts = "mru_visible m" and ?j = "length (mru_visible m) - 1 - i"
  have ne: "rev ?ts \<noteq> []" using i(1) by auto
  have j: "?j < length (rev ?ts)" "rev ?ts ! ?j = ?ts ! i" using i(1) by (simp_all add: rev_nth)
  have "distinct (map th_id (rev ?ts))" using distinct_visible [OF inv] by (simp flip: rev_map)
  note next' = next_after_nth [OF this j(1), unfolded j(2)]
  show ?thesis
  proof (cases "i = 0")
    case True
    then have "rev ?ts ! 0 = ?ts ! (length ?ts - 1)" "\<not> ?j + 1 < length ?ts" using i(1) by (simp_all add: rev_nth)
    then show ?thesis using next' iter_next_nth [OF ne] True i(1) by (simp add: mru_backward_def i(2))
  next
    case False
    then have "?j + 1 < length ?ts" "length ?ts - Suc (?j + 1) = i - 1" using i(1) by arith+
    then have "?j + 1 < length ?ts" "rev ?ts ! (?j + 1) = ?ts ! (i - 1)" by (simp_all add: rev_nth)
    moreover have "(i + length ?ts - 1) mod length ?ts = i - 1"
    proof -
      have "i + length ?ts - 1 = (i - 1) + length ?ts" using False by simp
      then show ?thesis using i(1) by (simp only: mod_add_self2) simp
    qed
    ultimately show ?thesis using next' by (simp add: mru_backward_def i(2))
  qed
qed

lemma mru_step_inv:
  assumes inv: "mru_inv m"
  shows "returns (mru_forward m) mru_inv" "returns (mru_backward m) mru_inv"
proof -
  consider "mru_current_id m = None" | i where "i < length (mru_visible m)" "mru_current_id m = Some (th_id (mru_visible m ! i))"
    by (cases "mru_current_id m") (use mru_current_nth [OF inv] in auto)
  then have "returns (mru_forward m) mru_inv \<and> returns (mru_backward m) mru_inv"
  proof cases
    case 1
    then show ?thesis using inv by (simp add: mru_forward_def mru_backward_def)
  next
    case 2
    have "0 < length (mru_visible m)" using 2(1) by linarith
    then have "mru_visible m ! (k mod length (mru_visible m)) \<in> set (mru_visible m)" for k by simp
    then show ?thesis using mru_inv_select [OF mru_invD [OF inv]] by (simp add: mru_forward_nth [OF inv 2] mru_backward_nth [OF inv 2])
  qed
  then show "returns (mru_forward m) mru_inv" "returns (mru_backward m) mru_inv" by simp_all
qed

subsection \<open>Changing what is visible\<close>

lemma map_snd_visible: "map snd (mru_visible_with_idx m) = mru_visible m"
proof -
  have "map snd (filter (\<lambda>(_, t). P t) (enumerate n ts)) = filter P ts" for P :: "thumbnail \<Rightarrow> bool" and n ts
    by (induction ts arbitrary: n) auto
  then show ?thesis by (simp add: mru_visible_with_idx_def mru_visible_def)
qed

lemma snd_visible: "x \<in> set (mru_visible_with_idx m) \<Longrightarrow> snd x \<in> set (mru_visible m)"
  by (metis image_eqI list.set_map map_snd_visible)

lemma sorted_visible_idx: "sorted_wrt (\<lambda>x y. fst x < fst y) (mru_visible_with_idx m)"
  unfolding mru_visible_with_idx_def by (intro sorted_wrt_filter) (simp add: sorted_wrt_iff_nth_less enumerate_eq_zip)

lemma mru_current_idx_ok:
  assumes inv: "mru_inv m" and cur: "mru_current_id m = Some id'"
  shows "returns (mru_current_idx id' m) (\<lambda>(k, t). th_id t = id' \<and> k < length (mru_thumbnails m) \<and> mru_thumbnails m ! k = t)"
proof -
  have "\<exists>x \<in> set (mru_visible_with_idx m). th_id (snd x) = id'"
    using inv cur by (auto simp: mru_inv_def simp flip: map_snd_visible)
  then obtain k t where f: "find (\<lambda>(_, t). th_id t = id') (mru_visible_with_idx m) = Some (k, t)"
    by (cases "find (\<lambda>(_, t). th_id t = id') (mru_visible_with_idx m)") (fastforce simp: find_None_iff)+
  then have "(k, t) \<in> set (mru_visible_with_idx m)" "th_id t = id'" by (auto simp: find_Some_iff in_set_conv_nth)
  then show ?thesis using f by (auto simp: mru_current_idx_def mru_visible_with_idx_def in_set_enumerate_eq)
qed

lemma mru_first_inv: "distinct (map th_id (mru_thumbnails m)) \<Longrightarrow> mru_inv (mru_first m)" "distinct (map th_id (mru_thumbnails m)) \<Longrightarrow> mru_inv (mru_last m)"
  by (cases "mru_visible m" rule: rev_cases; simp add: mru_inv_def mru_first_def mru_last_def mru_first_id_def iter_next_def split: list.splits)+

lemma mru_select_near_inv:
  assumes "distinct (map th_id (mru_thumbnails m))"
  shows "mru_inv (mru_select_near k m)"
proof -
  let ?before = "takeWhile (\<lambda>(idx, _). \<not> idx > k) (mru_visible_with_idx m)"
  show ?thesis
  proof (cases "?before = []")
    case True
    then show ?thesis using mru_first_inv(1) [OF assms] by (simp add: mru_select_near_def mru_first_def)
  next
    case False
    then have "last ?before \<in> set (mru_visible_with_idx m)" using last_in_set set_takeWhileD by metis
    from mru_inv_select [OF assms snd_visible [OF this]] False show ?thesis by (simp add: mru_select_near_def Let_def)
  qed
qed

text \<open>A window that stays visible stays selected.\<close>

lemma mru_select_near_same:
  assumes "(k, t) \<in> set (mru_visible_with_idx m)"
  shows "mru_current_id (mru_select_near k m) = Some (th_id t)"
proof -
  obtain ys zs where xs: "mru_visible_with_idx m = ys @ (k, t) # zs" using split_list [OF assms] by blast
  have lt: "\<And>y. y \<in> set ys \<Longrightarrow> fst y < k" "\<And>z. z \<in> set zs \<Longrightarrow> k < fst z" using sorted_visible_idx [of m] by (auto simp: xs sorted_wrt_append)
  let ?P = "\<lambda>(idx, _ :: thumbnail). \<not> idx > k"
  have "takeWhile ?P ((k, t) # zs) = [(k, t)]" using lt(2) by (cases zs) fastforce+
  moreover have "?P y" if "y \<in> set ys" for y using lt(1) [OF that] by (auto split: prod.splits)
  ultimately have "takeWhile ?P (mru_visible_with_idx m) = ys @ [(k, t)]" unfolding xs by (subst takeWhile_append2) auto
  then show ?thesis by (simp add: mru_select_near_def Let_def)
qed

lemma mru_set_scope_inv:
  assumes inv: "mru_inv m"
  shows "returns (mru_set_scope scope m) (\<lambda>(_, m'). mru_inv m' \<and> mru_scope m' = scope)"
proof (cases "mru_current_id m")
  case None
  then show ?thesis using inv mru_first_inv(1) [of "m\<lparr>mru_scope := scope\<rparr>"] mru_invD [OF inv]
    by (simp add: mru_set_scope_def) (simp add: mru_first_def)
next
  case (Some id')
  have "mru_inv (mru_select_near k (m\<lparr>mru_scope := scope\<rparr>))" for k using mru_select_near_inv mru_invD [OF inv] by simp
  moreover have "mru_scope (mru_select_near k (m\<lparr>mru_scope := scope\<rparr>)) = scope" for k by (simp add: mru_select_near_def Let_def)
  ultimately show ?thesis using inv mru_current_idx_ok [OF inv Some]
    by (auto simp: mru_set_scope_def Some elim!: returns_mono)
qed

lemma mru_set_filter_inv:
  assumes inv: "mru_inv m"
  shows "returns (mru_set_filter f m) (\<lambda>(_, m'). mru_inv m')"
proof (cases "(mru_app_id_filter m \<noteq> None) = (f = FilterAppId)")
  case False
  have d: "distinct (map th_id (mru_thumbnails (m\<lparr>mru_app_id_filter := x\<rparr>)))" for x using mru_invD [OF inv] by simp
  have old: "f = FilterAll \<Longrightarrow> \<exists>old. mru_app_id_filter m = Some old" "f = FilterAppId \<Longrightarrow> mru_app_id_filter m = None" using False by auto
  show ?thesis
  proof (cases "mru_current_id m")
    case None
    then show ?thesis using False inv old mru_first_inv(1) [OF d] by (cases f) (auto simp: mru_set_filter_def)
  next
    case (Some id')
    then show ?thesis using False inv old mru_select_near_inv [OF d] mru_current_idx_ok [OF inv Some]
      by (cases f) (auto simp: mru_set_filter_def elim!: returns_mono split: option.split)
  qed
qed (simp add: mru_set_filter_def inv)

lemma mru_animate_change_ok: "mru_inv m \<Longrightarrow> returns (mru_animate_change m) (\<lambda>_. True)"
proof (cases "mru_current_id m")
  case (Some id')
  assume "mru_inv m"
  then have "id' \<in> th_id ` set (mru_thumbnails m)" by (auto simp: mru_inv_def Some mru_visible_def)
  then have "mru_idx_of id' m \<noteq> None" by (auto simp: mru_idx_of_def position_None)
  then show ?thesis by (auto simp: mru_animate_change_def Some)
qed (simp add: mru_animate_change_def)

lemma mru_inner_inv:
  assumes inv: "mru_inv m"
  shows "returns (mru_inner_set_scope scope m) mru_inv" "returns (mru_inner_set_filter f m) mru_inv"
  unfolding mru_inner_set_scope_def mru_inner_set_filter_def returns_bind
  by (rule returns_mono [OF mru_set_scope_inv [OF inv]], auto dest: mru_animate_change_ok elim!: returns_mono)
    (rule returns_mono [OF mru_set_filter_inv [OF inv]], auto dest: mru_animate_change_ok elim!: returns_mono)

lemma mru_remove_inv:
  assumes inv: "mru_inv m" and idx: "idx < length (mru_thumbnails m)"
  shows "returns (mru_remove_by_idx idx m) (\<lambda>(t, m'). t = mru_thumbnails m ! idx \<and> mru_inv m')"
proof -
  let ?t = "mru_thumbnails m ! idx" and ?ts = "take idx (mru_thumbnails m) @ drop (Suc idx) (mru_thumbnails m)"
  have split: "mru_thumbnails m = take idx (mru_thumbnails m) @ ?t # drop (Suc idx) (mru_thumbnails m)"
    using idx by (simp add: id_take_nth_drop)
  have d: "distinct (map th_id ?ts)" "th_id ?t \<notin> th_id ` set ?ts"
    using mru_invD [OF inv] by (subst (asm) split, force)+
  have ids: "\<And>u. u \<in> set ?ts \<Longrightarrow> th_id u \<noteq> th_id ?t" using d(2) by (metis image_eqI)
  have S: "set (mru_thumbnails m) = insert ?t (set ?ts)" using arg_cong [OF split, of set] by auto
  have vis: "set (mru_visible (m\<lparr>mru_current_id := x, mru_thumbnails := ?ts\<rparr>)) = {t \<in> set (mru_visible m). th_id t \<noteq> th_id ?t}" for x
    unfolding mru_visible_def using ids by (auto simp: S)
  have keep: "mru_inv (m\<lparr>mru_current_id := Some id', mru_thumbnails := ?ts\<rparr>)"
    if "id' \<in> th_id ` set (mru_visible m)" "id' \<noteq> th_id ?t" for id'
    using d(1) vis that by (auto simp: mru_inv_def)
  have run: "mru_remove_by_idx idx m = bind_res (if mru_current_id m = Some (th_id ?t) then mru_forward m else Inr m) (\<lambda>m.
      let m = (if mru_current_id m = Some (th_id ?t) then m\<lparr>mru_current_id := None\<rparr> else m)
      in bind_res (vec_remove idx (mru_thumbnails m)) (\<lambda>(removed, ts). Inr (removed, m\<lparr>mru_thumbnails := ts\<rparr>)))"
    using idx by (simp add: mru_remove_by_idx_def vec_index_def)
  show ?thesis
  proof (cases "mru_current_id m = Some (th_id ?t)")
    case False
    have "mru_inv (m\<lparr>mru_thumbnails := ?ts\<rparr>)"
    proof (cases "mru_current_id m")
      case None
      then have "mru_visible m = []" using inv by (simp add: mru_inv_def)
      then show ?thesis using None d(1) vis [of None] by (simp add: mru_inv_def mru_visible_def)
    next
      case (Some id')
      then show ?thesis using False keep [of id'] inv by (simp add: mru_inv_def mru_visible_def)
    qed
    then show ?thesis using False idx by (simp add: run vec_remove_def)
  next
    case True
    then obtain i where i: "i < length (mru_visible m)" "mru_current_id m = Some (th_id (mru_visible m ! i))"
      using mru_current_nth [OF inv True] by metis
    define n j where "n = length (mru_visible m)" and "j = (i + 1) mod n"
    have "0 < n" using i(1) unfolding n_def by linarith
    then have j: "j < n" "mru_visible m ! j \<in> set (mru_visible m)" by (simp_all add: j_def n_def)
    note fwd = mru_forward_nth [OF inv i, folded n_def, folded j_def]
    show ?thesis
    proof (cases "th_id (mru_visible m ! j) = th_id ?t")
      case True
      then have "j = i" using distinct_visible [OF inv] i j(1) \<open>mru_current_id m = Some (th_id ?t)\<close> nth_eq_iff_index_eq [of "map th_id (mru_visible m)" j i]
        by (simp add: n_def)
      then have "n = 1"
      proof (cases "i + 1 < n")
        case False
        then have "i + 1 = n" using i(1) by (simp add: n_def)
        then show ?thesis using \<open>j = i\<close> by (simp add: j_def)
      qed (simp add: j_def)
      then obtain u where "mru_visible m = [u]" by (auto simp: n_def length_Suc_conv)
      then have "set (mru_visible (m\<lparr>mru_current_id := None, mru_thumbnails := ?ts\<rparr>)) = {}" using vis i \<open>mru_current_id m = Some (th_id ?t)\<close> by auto
      then have "mru_inv (m\<lparr>mru_current_id := None, mru_thumbnails := ?ts\<rparr>)" using d(1) by (simp add: mru_inv_def)
      then show ?thesis using True \<open>mru_current_id m = Some (th_id ?t)\<close> idx by (simp add: run fwd vec_remove_def)
    next
      case False
      then have "mru_inv (m\<lparr>mru_current_id := Some (th_id (mru_visible m ! j)), mru_thumbnails := ?ts\<rparr>)" using keep j(2) by simp
      then show ?thesis using False \<open>mru_current_id m = Some (th_id ?t)\<close> idx by (simp add: run fwd vec_remove_def)
    qed
  qed
qed

lemma mru_inner_remove_inv:
  assumes inv: "mru_inv m"
  shows "returns (mru_inner_remove_window id' m) (\<lambda>(_, m'). mru_inv m')"
proof (cases "mru_idx_of id' m")
  case (Some idx)
  then have "idx < length (mru_thumbnails m)" using position_Some by (fastforce simp: mru_idx_of_def)
  from mru_remove_inv [OF inv this] show ?thesis by (auto simp: mru_inner_remove_window_def Some elim!: returns_mono)
qed (simp add: mru_inner_remove_window_def inv)

lemma mru_new_ok:
  assumes "distinct (map th_id (concat (map mw_windows wss)))"
  shows "mru_inv (mru_new active_output wss)"
    "sorted_wrt (\<lambda>a b. th_timestamp b \<le> th_timestamp a) (mru_thumbnails (mru_new active_output wss))"
proof -
  have "mru_inv (mru_new active_output wss) \<and> sorted_wrt (\<lambda>a b. th_timestamp b \<le> th_timestamp a) (mru_thumbnails (mru_new active_output wss))"
  proof (cases active_output)
    case (Some out)
    define ts where "ts = concat (map (\<lambda>ws. map (\<lambda>t. t\<lparr>th_on_current_output := (mw_output ws = out),
      th_on_current_workspace := (mw_output ws = out \<and> mw_is_active ws)\<rparr>) (mw_windows ws)) wss)"
    define ts' where "ts' = rev (sort_key th_timestamp (rev ts))"
    have "map th_id ts = map th_id (concat (map mw_windows wss))" unfolding ts_def by (induction wss) simp_all
    then have "distinct (map th_id ts')"
      using assms by (metis (no_types, lifting) ts'_def mset_eq_imp_distinct_iff mset_map mset_rev mset_sort)
    moreover have "sorted_wrt (\<lambda>a b. th_timestamp b \<le> th_timestamp a) ts'"
      using sorted_sort_key [of th_timestamp "rev ts"] by (simp add: ts'_def sorted_wrt_rev sorted_map)
    moreover have "mru_new active_output wss = \<lparr>mru_thumbnails = ts', mru_current_id = (case ts' of [] \<Rightarrow> None | t # _ \<Rightarrow> Some (th_id t)),
        mru_scope = ScopeAll, mru_app_id_filter = None\<rparr>" by (simp add: mru_new_def Some ts_def ts'_def Let_def)
    ultimately show ?thesis by (cases ts') (simp_all add: mru_inv_def mru_visible_def mru_matches_def)
  qed (simp add: mru_new_def mru_inv_def mru_visible_def)
  then show "mru_inv (mru_new active_output wss)"
    "sorted_wrt (\<lambda>a b. th_timestamp b \<le> th_timestamp a) (mru_thumbnails (mru_new active_output wss))" by simp_all
qed

subsection \<open>The states of the interface\<close>

datatype mru_ui_op = MruOpen nat nat "nat option" "mru_workspace list" | MruClose nat mru_close_request
  | MruAdvance mru_direction "mru_filter option" | MruSetScope mru_scope | MruCycleScope
  | MruPointer "window_mru \<Rightarrow> nat option" | MruFirst | MruLast | MruRemoveWindow nat nat | MruTick bool

fun mru_ui_step :: "mru_ui_op \<Rightarrow> mru_ui \<Rightarrow> mru_ui res" where
  "mru_ui_step (MruOpen now delay out wss) ui = Inr (mru_ui_open now delay (mru_new out wss) ui)"
| "mru_ui_step (MruClose now request) ui = Inr (snd (mru_ui_close now request ui))"
| "mru_ui_step (MruAdvance dir f) ui = mru_ui_advance dir f ui"
| "mru_ui_step (MruSetScope scope) ui = mru_ui_set_scope scope ui"
| "mru_ui_step MruCycleScope ui = mru_ui_cycle_scope ui"
| "mru_ui_step (MruPointer thumbnail_under) ui = mru_ui_pointer_motion thumbnail_under ui"
| "mru_ui_step MruFirst ui = mru_ui_first ui"
| "mru_ui_step MruLast ui = mru_ui_last ui"
| "mru_ui_step (MruRemoveWindow now id') ui = mru_ui_remove_window now id' ui"
| "mru_ui_step (MruTick is_done) ui = Inr (mru_ui_advance_animations is_done ui)"

text \<open>Windows have distinct identifiers.\<close>

fun mru_ui_op_ok :: "mru_ui_op \<Rightarrow> bool" where
  "mru_ui_op_ok (MruOpen now delay out wss) \<longleftrightarrow> distinct (map th_id (concat (map mw_windows wss)))"
| "mru_ui_op_ok _ \<longleftrightarrow> True"

inductive mru_ui_reachable :: "mru_ui \<Rightarrow> bool" where
  mru_ui_start: "mru_ui_reachable mru_ui_new"
| mru_ui_stepped: "mru_ui_reachable ui \<Longrightarrow> mru_ui_op_ok op \<Longrightarrow> mru_ui_step op ui = Inr ui' \<Longrightarrow> mru_ui_reachable ui'"

lemma on_open_inv:
  assumes "ui_inv ui" "\<And>m. mru_inv m \<Longrightarrow> returns (f m) mru_inv"
  shows "returns (on_open f ui) ui_inv"
  using assms by (cases ui) (auto simp: on_open_def ui_inv_def elim!: returns_mono)

lemma mru_set_current_inv: "mru_inv m \<Longrightarrow> mru_inv (mru_set_current id' m)"
  by (auto simp: mru_set_current_def list_ex_iff intro: mru_inv_select mru_invD)

lemma mru_ui_advance_inv:
  assumes "ui_inv ui"
  shows "returns (mru_ui_advance dir f ui) ui_inv"
  unfolding mru_ui_advance_def
proof (rule on_open_inv [OF assms])
  fix m assume m: "mru_inv m"
  have "returns (case f of Some f \<Rightarrow> mru_inner_set_filter f m | None \<Rightarrow> Inr m) mru_inv"
    using mru_inner_inv(2) [OF m] m by (cases f) simp_all
  then show "returns (bind_res (case f of Some f \<Rightarrow> mru_inner_set_filter f m | None \<Rightarrow> Inr m)
      (\<lambda>m. case dir of MruForward \<Rightarrow> mru_forward m | MruBackward \<Rightarrow> mru_backward m)) mru_inv"
    unfolding returns_bind by (rule returns_mono) (cases dir; simp add: mru_step_inv)
qed

lemma mru_ui_cycle_inv:
  assumes "ui_inv ui"
  shows "returns (mru_ui_cycle_scope ui) ui_inv"
proof (cases ui)
  case (UiOpen m open_at)
  have "returns (mru_ui_set_scope scope ui) ui_inv" for scope
    unfolding mru_ui_set_scope_def by (rule on_open_inv [OF assms mru_inner_inv(1)])
  then show ?thesis by (cases "mru_scope m") (simp_all add: mru_ui_cycle_scope_def UiOpen SCOPE_CYCLE_def vec_index_def)
qed (simp_all add: mru_ui_cycle_scope_def ui_inv_def)

lemma mru_ui_remove_inv:
  assumes "ui_inv ui"
  shows "returns (mru_ui_remove_window now id' ui) ui_inv"
proof (cases ui)
  case (UiOpen m open_at)
  then have "mru_inv m" using assms by (simp add: ui_inv_def)
  from mru_inner_remove_inv [OF this, of id'] show ?thesis
    by (auto simp: mru_ui_remove_window_def UiOpen ui_inv_def mru_ui_close_def elim!: returns_mono)
qed (simp_all add: mru_ui_remove_window_def ui_inv_def)

lemma mru_ui_step_inv:
  assumes inv: "ui_inv ui" and ok: "mru_ui_op_ok op"
  shows "returns (mru_ui_step op ui) ui_inv"
proof (cases op)
  case (MruOpen now delay out wss)
  then show ?thesis using inv ok mru_new_ok(1) by (simp add: mru_ui_open_def ui_inv_def)
next
  case (MruClose now request)
  then show ?thesis using inv by (cases ui) (simp_all add: mru_ui_close_def ui_inv_def Let_def)
next
  case (MruTick is_done)
  then show ?thesis using inv by (cases ui) (simp_all add: mru_ui_advance_animations_def ui_inv_def)
qed (use inv mru_first_inv mru_invD mru_set_current_inv in \<open>auto simp: mru_ui_set_scope_def mru_ui_pointer_motion_def mru_ui_first_def mru_ui_last_def
    intro!: on_open_inv mru_inner_inv mru_ui_advance_inv mru_ui_cycle_inv mru_ui_remove_inv split: option.split\<close>)

lemma mru_ui_reachable_inv: "mru_ui_reachable ui \<Longrightarrow> ui_inv ui"
proof (induction rule: mru_ui_reachable.induct)
  case (mru_ui_stepped ui op ui')
  with mru_ui_step_inv [of ui op] show ?case by simp
qed (simp add: mru_ui_new_def ui_inv_def)

lemma mru_set_scope_keeps_selection:
  assumes inv: "mru_inv m" and t: "t \<in> set (mru_visible m)" "mru_current_id m = Some (th_id t)" and new: "mru_matches scope (mru_app_id_filter m) t"
  shows "returns (mru_set_scope scope m) (\<lambda>(_, m'). mru_current_id m' = Some (th_id t))"
proof -
  have "mru_current_id (mru_select_near k (m\<lparr>mru_scope := scope\<rparr>)) = Some (th_id t)"
    if k: "th_id u = th_id t" "k < length (mru_thumbnails m)" "mru_thumbnails m ! k = u" for k u
  proof -
    have "t \<in> set (mru_thumbnails m)" using t(1) by (simp add: mru_visible_def)
    then have "u = t" using mru_invD [OF inv] k nth_mem [OF k(2)] by (auto simp: distinct_map inj_on_def)
    then have "(k, t) \<in> set (mru_visible_with_idx (m\<lparr>mru_scope := scope\<rparr>))"
      using k(2,3) new by (auto simp: mru_visible_with_idx_def in_set_enumerate_eq)
    then show ?thesis by (rule mru_select_near_same)
  qed
  then show ?thesis using mru_current_idx_ok [OF inv t(2)] t(2)
    by (auto simp: mru_set_scope_def elim!: returns_mono)
qed

subsection \<open>Properties\<close>

text \<open>
  C24. The switcher never panics, and what it shows as selected is always a window that it shows: in
  every state that its operations reach, whichever windows close and however scope and filter change
  meanwhile, the next operation returns, and confirming returns a window that the current scope and
  filter show, or none if they show none.
\<close>

theorem switcher_never_panics:
  assumes "mru_ui_reachable ui"
  shows "(mru_ui_op_ok op \<longrightarrow> (\<exists>ui'. mru_ui_step op ui = Inr ui')) \<and>
    (\<forall>m open_at. ui = UiOpen m open_at \<longrightarrow> (case fst (mru_ui_close now MruConfirm ui) of
       Some id' \<Rightarrow> id' \<in> th_id ` set (mru_visible m) | None \<Rightarrow> mru_visible m = []))"
proof -
  note inv = mru_ui_reachable_inv [OF assms]
  have "\<exists>ui'. mru_ui_step op ui = Inr ui'" if "mru_ui_op_ok op" using mru_ui_step_inv [OF inv that] by (auto simp: returns_def)
  moreover have "case fst (mru_ui_close now MruConfirm ui) of Some id' \<Rightarrow> id' \<in> th_id ` set (mru_visible m) | None \<Rightarrow> mru_visible m = []"
    if "ui = UiOpen m open_at" for m open_at
    using inv by (simp add: that ui_inv_def mru_inv_def mru_ui_close_def Let_def)
  ultimately show ?thesis by blast
qed

definition example_thumbnail :: "nat \<Rightarrow> nat \<Rightarrow> thumbnail" where
  "example_thumbnail id' time = \<lparr>th_id = id', th_timestamp = Some time, th_on_current_workspace = False, th_on_current_output = False,
     th_app_id = Some ''terminal''\<rparr>"

definition example_mru :: window_mru where
  "example_mru = mru_new (Some 1) [\<lparr>mw_output = 1, mw_is_active = True, mw_windows = [example_thumbnail 7 100, example_thumbnail 8 300]\<rparr>,
     \<lparr>mw_output = 2, mw_is_active = True, mw_windows = [example_thumbnail 9 200]\<rparr>]"

lemma example_mru_eq:
  "map th_id (mru_thumbnails example_mru) = [8, 9, 7]" "mru_visible example_mru = mru_thumbnails example_mru"
  "mru_current_id example_mru = Some 8" "mru_inv example_mru"
proof -
  show "map th_id (mru_thumbnails example_mru) = [8, 9, 7]" "mru_visible example_mru = mru_thumbnails example_mru" "mru_current_id example_mru = Some 8"
    by (simp_all add: example_mru_def mru_new_def example_thumbnail_def mru_visible_def mru_matches_def)
  show "mru_inv example_mru" unfolding example_mru_def by (rule mru_new_ok(1)) (simp add: example_thumbnail_def)
qed

theorem switcher_never_panics_witness:
  "\<exists>ui. mru_ui_step (MruAdvance MruForward (Some FilterAppId)) (UiOpen example_mru 500) = Inr ui"
proof -
  have "mru_ui_reachable (UiOpen example_mru 500)"
    by (rule mru_ui_stepped [OF mru_ui_start, of "MruOpen 0 500 (Some 1) [\<lparr>mw_output = 1, mw_is_active = True, mw_windows = [example_thumbnail 7 100, example_thumbnail 8 300]\<rparr>,
     \<lparr>mw_output = 2, mw_is_active = True, mw_windows = [example_thumbnail 9 200]\<rparr>]"])
      (simp_all add: example_thumbnail_def mru_ui_open_def mru_ui_new_def mru_ui_is_open_def example_mru_def)
  from switcher_never_panics [OF this, of "MruAdvance MruForward (Some FilterAppId)"] show ?thesis by simp
qed

primrec mru_forward_times :: "nat \<Rightarrow> window_mru \<Rightarrow> window_mru res" where
  "mru_forward_times 0 m = Inr m"
| "mru_forward_times (Suc k) m = bind_res (mru_forward_times k m) mru_forward"

lemma mru_forward_times_nth:
  assumes inv: "mru_inv m" and i: "i < length (mru_visible m)" "mru_current_id m = Some (th_id (mru_visible m ! i))"
  shows "mru_forward_times k m = Inr (m\<lparr>mru_current_id := Some (th_id (mru_visible m ! ((i + k) mod length (mru_visible m))))\<rparr>)"
proof (induction k)
  case 0
  have "m = m\<lparr>mru_current_id := Some (th_id (mru_visible m ! i))\<rparr>" by (simp add: i(2) [symmetric])
  then show ?case using i(1) by simp
next
  case (Suc k)
  let ?n = "length (mru_visible m)" and ?m = "m\<lparr>mru_current_id := Some (th_id (mru_visible m ! ((i + k) mod length (mru_visible m))))\<rparr>"
  have lt: "(i + k) mod ?n < ?n" using i(1) by (intro mod_less_divisor) linarith
  then have "mru_inv ?m" by (intro mru_inv_select mru_invD [OF inv]) simp
  from mru_forward_nth [OF this, of "(i + k) mod ?n"] lt Suc show ?case by (simp add: mod_Suc_eq)
qed

text \<open>
  C32. Going forward walks through the visible windows from the most to the least recent one, each once,
  and around; going backward undoes it.
\<close>

theorem switcher_cycles:
  assumes inv: "mru_inv m" and i: "i < length (mru_visible m)" "mru_current_id m = Some (th_id (mru_visible m ! i))"
  shows "mru_forward_times k m = Inr (m\<lparr>mru_current_id := Some (th_id (mru_visible m ! ((i + k) mod length (mru_visible m))))\<rparr>) \<and>
    mru_forward_times (length (mru_visible m)) m = Inr m \<and> bind_res (mru_forward m) mru_backward = Inr m"
proof -
  let ?n = "length (mru_visible m)" and ?j = "(i + 1) mod length (mru_visible m)"
  let ?m = "m\<lparr>mru_current_id := Some (th_id (mru_visible m ! ?j))\<rparr>"
  have n: "0 < ?n" using i(1) by linarith
  then have j: "?j < ?n" by simp
  have same: "m\<lparr>mru_current_id := Some (th_id (mru_visible m ! i))\<rparr> = m" by (simp add: i(2) [symmetric])
  have "mru_inv ?m" using j by (intro mru_inv_select mru_invD [OF inv]) simp
  from mru_backward_nth [OF this, of ?j] j have "mru_backward ?m = Inr (m\<lparr>mru_current_id := Some (th_id (mru_visible m ! ((?j + ?n - 1) mod ?n)))\<rparr>)" by simp
  moreover have "(?j + ?n - 1) mod ?n = i"
  proof -
    have "?j + ?n - 1 = ?j + (?n - 1)" using n by linarith
    then have "(?j + ?n - 1) mod ?n = (i + 1 + (?n - 1)) mod ?n" by (simp only: mod_add_left_eq)
    also have "i + 1 + (?n - 1) = i + ?n" using n by simp
    finally show ?thesis using i(1) by simp
  qed
  ultimately have undone: "bind_res (mru_forward m) mru_backward = Inr m" using mru_forward_nth [OF inv i] same by simp
  show ?thesis using mru_forward_times_nth [OF inv i] undone i(1) same by simp
qed

theorem switcher_cycles_witness:
  "\<exists>m. mru_forward_times 2 example_mru = Inr m \<and> mru_current_id m = Some 7 \<and> mru_forward_times 3 example_mru = Inr example_mru"
proof -
  have n: "length (mru_visible example_mru) = 3" using example_mru_eq(1,2) by (metis length_map list.size(3,4) numeral_3_eq_3 Suc_eq_plus1 add_0)
  have ids: "th_id (mru_visible example_mru ! i) = [8, 9, 7] ! i" if "i < 3" for i
    using that n example_mru_eq(1,2) by (metis nth_map)
  from switcher_cycles [OF example_mru_eq(4), of 0 2] show ?thesis by (simp add: n ids example_mru_eq(3))
qed

end
