(* ===== verification/Frame_Timing.thy ===== *)
theory Frame_Timing
  imports Niri_Prelude Complex_Main "HOL-Library.Signed_Division"
begin

text \<open>
  Small state machines that pace the compositor: the frame clock of \<^verbatim>\<open>src/frame_clock.rs\<close>, which predicts when
  the next frame will be presented, the vblank throttle of \<^verbatim>\<open>src/utils/vblank_throttle.rs\<close>, and the scroll tracker
  of \<^verbatim>\<open>src/input/scroll_tracker.rs\<close>, which turns scrolling into ticks. Times are nanoseconds; where the code
  computes with them in a \<open>u64\<close> an overflow is a panic. Exact reals stand for \<^verbatim>\<open>f64\<close>.
\<close>

subsection \<open>The frame clock\<close>

record frame_clock =
  fc_last_presentation_time :: "nat option"
  fc_refresh_interval_ns :: "nat option"
  fc_vrr :: bool

definition frame_clock_new :: "nat option \<Rightarrow> bool \<Rightarrow> frame_clock res" where
  "frame_clock_new refresh_interval vrr =
     bind_res (case refresh_interval of
         Some interval \<Rightarrow>
           bind_res (assert_that ''interval.as_secs() == 0'' (interval div 1000000000 = 0)) (\<lambda>_.
           bind_res (unwrap (if interval mod 1000000000 = 0 then None else Some (interval mod 1000000000))) (\<lambda>ns. Inr (Some ns)))
       | None \<Rightarrow> Inr None) (\<lambda>refresh_interval_ns.
       Inr \<lparr>fc_last_presentation_time = None, fc_refresh_interval_ns = refresh_interval_ns, fc_vrr = vrr\<rparr>)"

definition fc_refresh_interval :: "frame_clock \<Rightarrow> nat option" where
  "fc_refresh_interval c = fc_refresh_interval_ns c"

definition fc_set_vrr :: "bool \<Rightarrow> frame_clock \<Rightarrow> frame_clock" where
  "fc_set_vrr vrr c = (if fc_vrr c = vrr then c else c\<lparr>fc_vrr := vrr, fc_last_presentation_time := None\<rparr>)"

definition fc_presented :: "nat \<Rightarrow> frame_clock \<Rightarrow> frame_clock" where
  "fc_presented presentation_time c = (if presentation_time = 0 then c else c\<lparr>fc_last_presentation_time := Some presentation_time\<rparr>)"

definition next_presentation_time :: "nat \<Rightarrow> frame_clock \<Rightarrow> nat res" where
  "next_presentation_time now c =
     (case fc_refresh_interval_ns c of
        None \<Rightarrow> Inr now
      | Some refresh_interval_ns \<Rightarrow>
          (case fc_last_presentation_time c of
             None \<Rightarrow> Inr now
           | Some last_presentation_time \<Rightarrow>
               let now = (if now \<le> last_presentation_time
                          then let now = now + refresh_interval_ns
                               in if now < last_presentation_time then last_presentation_time + refresh_interval_ns else now
                          else now);
                   since_last_ns = now - last_presentation_time;
                   to_next_ns = (since_last_ns div refresh_interval_ns + 1) * refresh_interval_ns
               in bind_res (assert_that ''attempt to multiply with overflow'' (since_last_ns < 2 ^ 64 \<and> to_next_ns < 2 ^ 64)) (\<lambda>_.
                    Inr (if fc_vrr c \<and> to_next_ns > refresh_interval_ns then now else last_presentation_time + to_next_ns))))"

definition frame_clock_inv :: "frame_clock \<Rightarrow> bool" where
  "frame_clock_inv c \<longleftrightarrow> (case fc_refresh_interval_ns c of Some r \<Rightarrow> 0 < r \<and> r < 1000000000 | None \<Rightarrow> True)"

lemma frame_clock_inv_ops:
  "frame_clock_new interval vrr = Inr c \<Longrightarrow> frame_clock_inv c" "frame_clock_inv c \<Longrightarrow> frame_clock_inv (fc_set_vrr vrr c)"
  "frame_clock_inv c \<Longrightarrow> frame_clock_inv (fc_presented time c)"
  by (auto simp: frame_clock_new_def frame_clock_inv_def fc_set_vrr_def fc_presented_def split: option.splits if_splits)

text \<open>The grid of presentation times: the first one after a moment.\<close>

lemma next_multiple:
  fixes r s :: nat
  assumes "0 < r"
  shows "s < (s div r + 1) * r" "(s div r + 1) * r \<le> s + r"
proof -
  have "s = s div r * r + s mod r" "s mod r < r" using assms by simp_all
  then show "s < (s div r + 1) * r" "(s div r + 1) * r \<le> s + r" by (simp_all only: distrib_right)
qed

text \<open>
  C34. For a time below \<open>2 ^ 63\<close> nanoseconds the prediction never overflows. Without a refresh interval or
  before the first presentation it is now. Otherwise, when the last presentation is in the past, it is
  the first moment after now that lies a whole number of intervals after that presentation; but with
  a variable refresh rate it is now itself once a full interval has passed. After an early vblank, when
  the last presentation is still ahead, it is later than that presentation, by at most two intervals, and
  a whole number of intervals unless the refresh rate is variable.
\<close>

theorem presentation_on_grid:
  assumes inv: "frame_clock_inv c" and small: "now < 2 ^ 63"
  shows "\<exists>t. next_presentation_time now c = Inr t \<and>
    (case (fc_refresh_interval_ns c, fc_last_presentation_time c) of
       (Some r, Some prev) \<Rightarrow>
         if prev < now
         then if fc_vrr c \<and> prev + r \<le> now then t = now
              else now < t \<and> t \<le> now + r \<and> (\<exists>k. t = prev + (k + 1) * r)
         else prev < t \<and> t \<le> prev + 2 * r \<and> (\<not> fc_vrr c \<longrightarrow> (\<exists>k. t = prev + (k + 1) * r))
     | _ \<Rightarrow> t = now)"
proof (cases "(fc_refresh_interval_ns c, fc_last_presentation_time c)")
  case (Pair interval presentation)
  then show ?thesis
  proof (cases "interval = None \<or> presentation = None")
    case True
    then show ?thesis using Pair by (auto simp: next_presentation_time_def split: option.splits)
  next
    case False
    then obtain r prev where r: "fc_refresh_interval_ns c = Some r" and prev: "fc_last_presentation_time c = Some prev"
      using Pair by auto
    define now' where "now' = (if now \<le> prev then if now + r < prev then prev + r else now + r else now)"
    define since next' where "since = now' - prev" and "next' = (since div r + 1) * r"
    have r': "0 < r" "r < 1000000000" using inv by (simp_all add: frame_clock_inv_def r)
    have n: "since < next'" "next' \<le> since + r" unfolding next'_def by (rule next_multiple [OF r'(1)])+
    have "since < 2 ^ 63 + 1000000000" using small r'(2) by (auto simp: since_def now'_def)
    then have "since < 2 ^ 64" "next' < 2 ^ 64" using n(2) r'(2) by simp_all
    then have run: "next_presentation_time now c = Inr (if fc_vrr c \<and> next' > r then now' else prev + next')"
      unfolding next_presentation_time_def r prev option.case Let_def now'_def [symmetric] since_def [symmetric] next'_def [symmetric]
      by simp
    have on_time: "now' = now" "now = prev + since" if "prev < now" using that by (simp_all add: now'_def since_def)
    have early: "now' = prev + since" "since \<le> r" if "now \<le> prev" using that by (auto simp: now'_def since_def)
    have grid: "\<exists>k. prev + next' = prev + (k + 1) * r" by (auto simp: next'_def)
    have missed: "next' > r \<longleftrightarrow> r \<le> since"
      using r'(1) div_greater_zero_iff [of since r] by (auto simp: next'_def)
    show ?thesis
    proof (cases "prev < now")
      case True
      then show ?thesis unfolding run r prev using n on_time [OF True] grid missed by auto
    next
      case False
      then have "now \<le> prev" by simp
      then show ?thesis unfolding run r prev using n early grid missed r'(1) by auto
    qed
  qed
qed

theorem presentation_on_grid_witness:
  "\<exists>t. next_presentation_time 21000000 \<lparr>fc_last_presentation_time = Some 3000000, fc_refresh_interval_ns = Some 16000000, fc_vrr = False\<rparr> = Inr t \<and>
     21000000 < t \<and> t \<le> 37000000 \<and> (\<exists>k. t = 3000000 + (k + 1) * 16000000)"
  using presentation_on_grid [of "\<lparr>fc_last_presentation_time = Some 3000000, fc_refresh_interval_ns = Some 16000000, fc_vrr = False\<rparr>" 21000000]
  by (auto simp: frame_clock_inv_def)

subsection \<open>The vblank throttle\<close>

text \<open>A timer that is running stands for the callback it will make.\<close>

record vblank_throttle =
  vt_last_vblank_timestamp :: "nat option"
  vt_throttle_timer :: "nat option"
  vt_printed_warning :: bool

definition vblank_throttle_new :: vblank_throttle where
  "vblank_throttle_new = \<lparr>vt_last_vblank_timestamp = None, vt_throttle_timer = None, vt_printed_warning = False\<rparr>"

definition throttle :: "nat option \<Rightarrow> nat \<Rightarrow> vblank_throttle \<Rightarrow> bool \<times> vblank_throttle" where
  "throttle refresh_interval timestamp v =
     (let v = v\<lparr>vt_throttle_timer := None\<rparr>;
          pass = (False, v\<lparr>vt_last_vblank_timestamp := Some timestamp\<rparr>)
      in case (vt_last_vblank_timestamp v, refresh_interval) of
           (Some prev, Some refresh) \<Rightarrow>
             let passed = timestamp - prev
             in if passed < refresh div 2
                then (True, v\<lparr>vt_printed_warning := True, vt_throttle_timer := Some (refresh - passed)\<rparr>) else pass
         | _ \<Rightarrow> pass)"

text \<open>A throttled vblank comes after at least half a refresh interval more, and not before a full one since the last.\<close>

lemma throttle_waits:
  assumes "throttle (Some refresh) timestamp v = (True, v')" "vt_last_vblank_timestamp v = Some prev" "prev \<le> timestamp"
  shows "\<exists>remaining. vt_throttle_timer v' = Some remaining \<and> timestamp + remaining = prev + refresh \<and> refresh div 2 < remaining \<and>
    vt_last_vblank_timestamp v' = Some prev"
  using assms by (auto simp: throttle_def Let_def split: if_splits)

subsection \<open>The scroll tracker\<close>

record scroll_tracker =
  st_tick :: real
  st_last :: real
  st_acc :: real

text \<open>The casts and operators of Rust: from \<open>f64\<close> to \<open>i16\<close>, from \<open>i16\<close> to \<open>i8\<close>, and the remainder of \<open>f64\<close>.\<close>

definition rtrunc :: "real \<Rightarrow> int" where
  "rtrunc x = (if 0 \<le> x then \<lfloor>x\<rfloor> else - \<lfloor>- x\<rfloor>)"

definition as_i16 :: "real \<Rightarrow> int" where
  "as_i16 x = max (- 32768) (min 32767 (rtrunc x))"

definition as_i8 :: "int \<Rightarrow> int" where
  "as_i8 n = (n + 128) mod 256 - 128"

definition frem :: "real \<Rightarrow> real \<Rightarrow> real" where
  "frem x y = x - y * real_of_int (rtrunc (x / y))"

definition scroll_tracker_new :: "int \<Rightarrow> scroll_tracker" where
  "scroll_tracker_new tick = \<lparr>st_tick = real_of_int tick, st_last = 0, st_acc = 0\<rparr>"

definition st_reset :: "scroll_tracker \<Rightarrow> scroll_tracker" where
  "st_reset s = s\<lparr>st_last := 0, st_acc := 0\<rparr>"

definition accumulate :: "real \<Rightarrow> scroll_tracker \<Rightarrow> (int \<times> scroll_tracker) res" where
  "accumulate amount s =
     (let changed_direction = (st_last s > 0 \<and> amount < 0) \<or> (st_last s < 0 \<and> amount > 0);
          s = (if changed_direction then s\<lparr>st_acc := 0\<rparr> else s);
          s = s\<lparr>st_last := amount, st_acc := st_acc s + amount\<rparr>
      in if st_tick s \<le> \<bar>st_acc s\<bar> then
           bind_res (assert_that ''min <= max'' (- 127 * st_tick s \<le> 127 * st_tick s)) (\<lambda>_.
           let clamped = max (- 127 * st_tick s) (min (127 * st_tick s) (st_acc s)) in
           bind_res (assert_that ''attempt to divide by zero'' (as_i16 (st_tick s) \<noteq> 0)) (\<lambda>_.
           Inr (as_i8 (as_i16 clamped sdiv as_i16 (st_tick s)), s\<lparr>st_acc := frem (st_acc s) (st_tick s)\<rparr>)))
         else Inr (0, s))"

text \<open>Truncation is odd, as opposed to rounding down.\<close>

lemma rtrunc_minus: "rtrunc (- x) = - rtrunc x"
  by (auto simp: rtrunc_def)

text \<open>Dividing and then truncating is truncating and then dividing, toward zero both times.\<close>

lemma rtrunc_divide:
  assumes "0 < n"
  shows "rtrunc (x / real_of_int n) = rtrunc x sdiv n"
proof -
  have sdiv: "a sdiv n = a div n" if "0 \<le> a" for a
    using that assms by (simp add: signed_divide_int_def sgn_if)
  have pos: "rtrunc (y / real_of_int n) = rtrunc y sdiv n" if "0 \<le> y" for y
    using that assms floor_divide_real_eq_div [of n y] by (simp add: rtrunc_def sdiv)
  have neg: "(- a) sdiv n = - (a sdiv n)" for a
    by (simp add: signed_divide_int_def sgn_if)
  show ?thesis
  proof (cases "0 \<le> x")
    case False
    then have "rtrunc (- x / real_of_int n) = rtrunc (- x) sdiv n" by (intro pos) simp
    then show ?thesis by (simp add: rtrunc_minus neg)
  qed (rule pos)
qed

lemma rtrunc_bound:
  assumes "\<bar>x\<bar> < real_of_int n"
  shows "\<bar>rtrunc x\<bar> < n"
proof -
  have "\<bar>rtrunc x\<bar> = \<lfloor>\<bar>x\<bar>\<rfloor>" unfolding rtrunc_def by (simp add: abs_if) linarith
  then show ?thesis using assms by (simp add: floor_less_iff)
qed

lemma frem_bound:
  assumes "0 < y"
  shows "\<bar>frem x y\<bar> < y"
proof -
  have b: "\<bar>z - real_of_int (rtrunc z)\<bar> < 1" for z :: real
    unfolding rtrunc_def by (simp add: abs_if) linarith
  have "frem x y = y * (x / y - real_of_int (rtrunc (x / y)))" using assms by (simp add: frem_def algebra_simps)
  then show ?thesis using b [of "x / y"] assms by (simp add: abs_mult)
qed

lemma rtrunc_of_int [simp]: "rtrunc (real_of_int n) = n"
  by (simp add: rtrunc_def)

lemma as_i16_small: "\<bar>x\<bar> < 32768 \<Longrightarrow> as_i16 x = rtrunc x"
  using rtrunc_bound [of x 32768] by (auto simp: as_i16_def)

lemma as_i8_small: "\<bar>n\<bar> \<le> 127 \<Longrightarrow> as_i8 n = n"
  by (auto simp: as_i8_def abs_le_iff)

text \<open>Clamping to 127 ticks keeps the casts in range, and clamps the ticks.\<close>

lemma ticks_of_clamped:
  fixes x :: real
  assumes n: "0 < n" "n \<le> 127"
  defines "c \<equiv> max (- 127 * real_of_int n) (min (127 * real_of_int n) x)"
  shows "as_i8 (as_i16 c sdiv n) = rtrunc (c / real_of_int n)"
proof -
  have c: "\<bar>c\<bar> \<le> 127 * real_of_int n" using n by (auto simp: c_def abs_le_iff)
  then have "as_i16 c = rtrunc c" using n by (intro as_i16_small) linarith
  moreover have "\<bar>c / real_of_int n\<bar> < real_of_int 128" using c n by (simp add: abs_divide divide_less_eq)
  then have "\<bar>rtrunc (c / real_of_int n)\<bar> \<le> 127" using rtrunc_bound by fastforce
  ultimately show ?thesis by (simp add: as_i8_small rtrunc_divide [OF n(1), symmetric])
qed

lemma rtrunc_clamped:
  fixes x r :: real
  assumes r: "0 < r"
  shows "rtrunc (max (- 127 * r) (min (127 * r) x) / r) = max (- 127) (min 127 (rtrunc (x / r)))"
proof -
  have up: "127 \<le> rtrunc (y / r)" if "127 * r \<le> y" for y
    unfolding rtrunc_def using that r by (auto simp: le_floor_iff field_simps)
  consider "127 * r < x" | "x < - 127 * r" | "\<bar>x\<bar> \<le> 127 * r" by linarith
  then show ?thesis
  proof cases
    case 1
    then show ?thesis using up [of x] r by (simp add: min_def max_def rtrunc_of_int [of 127, simplified])
  next
    case 2
    then show ?thesis using up [of "- x"] r by (simp add: min_def max_def rtrunc_minus rtrunc_of_int [of 127, simplified])
  next
    case 3
    then have "max (- 127 * r) (min (127 * r) x) = x" by (auto simp: min_def max_def abs_le_iff)
    moreover have "\<bar>x / r\<bar> < real_of_int 128" using 3 r by (simp add: abs_divide divide_less_eq)
    then have "\<bar>rtrunc (x / r)\<bar> \<le> 127" using rtrunc_bound by fastforce
    ultimately show ?thesis by simp
  qed
qed

lemma frem_sign:
  assumes "0 < y"
  shows "0 \<le> frem x y * x"
proof -
  have toward_zero: "0 \<le> (z - real_of_int (rtrunc z)) * z" for z :: real
  proof (cases "0 \<le> z")
    case False
    moreover have "z + real_of_int \<lfloor>- z\<rfloor> \<le> 0" by linarith
    ultimately show ?thesis by (simp add: rtrunc_def mult_nonpos_nonpos)
  qed (simp add: rtrunc_def)
  have "frem x y * x = y * y * ((x / y - real_of_int (rtrunc (x / y))) * (x / y))"
    using assms by (simp add: frem_def field_simps)
  moreover have "0 \<le> y * y * ((x / y - real_of_int (rtrunc (x / y))) * (x / y))"
    using assms by (intro mult_nonneg_nonneg toward_zero) simp_all
  ultimately show ?thesis by (simp only:)
qed

text \<open>
  C35. For a tick size from 1 to 127, the scroll tracker divides what was accumulated, which starts over when
  the direction changes, into whole ticks and a rest of the same direction that is smaller than a tick. It
  keeps the rest and reports the ticks, but never more than 127 at once: whole ticks above that are lost.
\<close>

theorem scrolling_is_accounted_for:
  assumes tick: "st_tick s = real_of_int n" "0 < n" "n \<le> 127"
    and x: "x = (if st_last s * amount < 0 then 0 else st_acc s) + amount"
  shows "\<exists>ticks k s'. accumulate amount s = Inr (ticks, s') \<and> x = st_tick s * real_of_int k + st_acc s' \<and>
    \<bar>st_acc s'\<bar> < st_tick s \<and> 0 \<le> st_acc s' * x \<and> ticks = max (- 127) (min 127 k) \<and>
    st_last s' = amount \<and> st_tick s' = st_tick s"
proof -
  define c where "c = max (- 127 * real_of_int n) (min (127 * real_of_int n) x)"
  define s1 where "s1 = s\<lparr>st_last := amount, st_acc := x\<rparr>"
  define k where "k = (if real_of_int n \<le> \<bar>x\<bar> then rtrunc (x / real_of_int n) else 0)"
  define s' where "s' = (if real_of_int n \<le> \<bar>x\<bar> then s1\<lparr>st_acc := frem x (real_of_int n)\<rparr> else s1)"
  have n: "0 < real_of_int n" "real_of_int n \<le> 127" "as_i16 (real_of_int n) = n" using tick by (simp_all add: as_i16_small)
  have c: "as_i8 (as_i16 c sdiv n) = rtrunc (c / real_of_int n)" unfolding c_def by (rule ticks_of_clamped [OF tick(2,3)])
  have dir: "(st_last s > 0 \<and> amount < 0) \<or> (st_last s < 0 \<and> amount > 0) \<longleftrightarrow> st_last s * amount < 0"
    by (auto simp: mult_less_0_iff)
  have "accumulate amount s = (if real_of_int n \<le> \<bar>x\<bar> then Inr (rtrunc (c / real_of_int n), s') else Inr (0, s'))"
    using n c tick by (cases "st_last s * amount < 0") (simp_all add: accumulate_def dir x s1_def s'_def Let_def c_def)
  then have "accumulate amount s = Inr (max (- 127) (min 127 k), s')"
    using rtrunc_clamped [OF n(1), of x] by (simp add: c_def k_def)
  moreover have "x = st_tick s * real_of_int k + st_acc s'" by (simp add: tick k_def s'_def s1_def frem_def)
  moreover have "\<bar>st_acc s'\<bar> < st_tick s" "0 \<le> st_acc s' * x"
    using frem_bound [OF n(1), of x] frem_sign [OF n(1), of x] by (auto simp: tick s'_def s1_def)
  moreover have "st_last s' = amount" "st_tick s' = st_tick s" by (simp_all add: s'_def s1_def)
  ultimately show ?thesis by blast
qed

theorem scrolling_is_accounted_for_witness:
  "\<exists>ticks k s'. accumulate 40 \<lparr>st_tick = 15, st_last = 5, st_acc = 7\<rparr> = Inr (ticks, s') \<and> 47 = 15 * real_of_int k + st_acc s' \<and>
     \<bar>st_acc s'\<bar> < 15 \<and> 0 \<le> st_acc s' * 47 \<and> ticks = max (- 127) (min 127 k)"
  using scrolling_is_accounted_for [of "\<lparr>st_tick = 15, st_last = 5, st_acc = 7\<rparr>" 15 47 40] by auto

end
