(* ===== verification/Spec2Isabelle.thy ===== *)
theory Spec2Isabelle
  imports Ipc_Properties Scrolling_Properties Floating_Properties Output_Name Swipe_Tracker
    Workspace_Properties Workspace_Fullscreen Layout_Properties Window_Mru Frame_Timing
begin

text \<open>
  \<^bold>\<open>niri, a scrollable-tiling Wayland compositor: the layout, its gestures, the window switcher and the event stream\<close>

  \<^bold>\<open>The program.\<close> Windows live in a tree. The layout (\<^verbatim>\<open>src/layout/mod.rs\<close>) has a monitor per connected output
  (\<^verbatim>\<open>monitor.rs\<close>), a monitor a list of workspaces (\<^verbatim>\<open>workspace.rs\<close>), and a workspace two layers: columns of
  tiles in an endless strip (\<^verbatim>\<open>scrolling.rs\<close>) and a stack of floating windows (\<^verbatim>\<open>floating.rs\<close>). An action of
  the user enters at the layout and is passed down to the active monitor, the active workspace and
  the focused layer; windows and workspaces move between the parts on the way, and a window that is
  dragged is outside of all of them. Beside this, the IPC server (\<^verbatim>\<open>src/ipc/server.rs\<close>) compares the
  layout with what it last told its clients and sends them events, from which a client rebuilds the
  state (\<^verbatim>\<open>niri-ipc/src/state.rs\<close>).

  \<^bold>\<open>The theories\<close>, from the bottom up:

  \<^item> \<open>Niri_Prelude\<close>: panics as values (\<open>'a res\<close>, with the judgement \<open>returns r Q\<close>: the code returns, and its
    result satisfies \<open>Q\<close>), \<^verbatim>\<open>Vec\<close> with Rust's behaviour out of range, hash maps, machine integers, multisets
    of windows.
  \<^item> \<open>Ipc_Types\<close>, \<open>Ipc_State\<close> (\<^verbatim>\<open>state.rs\<close>), \<open>Ipc_Server\<close> (\<^verbatim>\<open>server.rs\<close>), \<open>Ipc_Server_Send\<close>, \<open>Ipc_Server_Sync\<close>,
    \<open>Ipc_Stream\<close>, \<open>Ipc_Properties\<close>: every part of the replicated state is an instance of the locale
    \<open>event_stream_part\<close>; the step relation \<open>stream_step\<close> lets the server refresh, send, lose and accept
    clients, and the invariant says that a client that applies what it was sent agrees with the server.
  \<^item> \<open>Layout_Types\<close>: points, rectangles, tiles. \<open>Output_Name\<close> (\<^verbatim>\<open>niri-config/src/output.rs\<close>): naming, matching
    and ordering outputs. \<open>Swipe_Tracker\<close> (\<^verbatim>\<open>input/swipe_tracker.rs\<close>, \<^verbatim>\<open>rubber_band.rs\<close>).
  \<^item> \<open>Scrolling_Column\<close>, \<open>Scrolling_Space\<close>, \<open>Scrolling_Inv\<close>, \<open>Scrolling_Ops\<close>, \<open>Scrolling_Swap\<close>, \<open>Scrolling_Sizing\<close>,
    \<open>Scrolling_Properties\<close>: the columns, with the locale \<open>column_sizing\<close> for fullscreen and maximized.
  \<^item> \<open>Floating_Data\<close>, \<open>Floating_Space\<close>, \<open>Floating_Inv\<close>, \<open>Floating_Ops\<close>, \<open>Floating_Properties\<close>: the floating windows.
  \<^item> \<open>Workspace\<close>, \<open>Workspace_Dispatch\<close>, \<open>Workspace_Inv\<close>, \<open>Workspace_Ops\<close>, \<open>Workspace_Fullscreen\<close>,
    \<open>Workspace_Properties\<close>: both layers and the focus between them. What a workspace needs of a layer is
    the locale \<open>tile_layer\<close>, moving a tile from one to the other \<open>layer_transfer\<close>; both layers are instances.
  \<^item> \<open>Monitor\<close>, \<open>Monitor_Inv\<close>, \<open>Monitor_Ops\<close>, \<open>Monitor_Switch\<close>, \<open>Monitor_Add\<close>, \<open>Monitor_Moves\<close>, \<open>Monitor_Config\<close>,
    \<open>Monitor_Whole\<close>, \<open>Monitor_Mints\<close>, \<open>Monitor_Properties\<close>: the list of workspaces with its empty edges.
    \<open>Monitor_Mints\<close> follows the identifiers that an operation gives out.
  \<^item> \<open>Insert_Position\<close>: where a dragged window goes (\<open>insert_position\<close> of \<^verbatim>\<open>monitor.rs\<close> and of \<^verbatim>\<open>scrolling.rs\<close>).
  \<^item> \<open>Layout\<close>, \<open>Layout_Drag\<close>, \<open>Layout_Actions\<close>: \<^verbatim>\<open>mod.rs\<close>, namely outputs, new windows and named workspaces;
    interactive moves and closing windows; and the actions, \<open>la_f\<close> for the function \<open>f\<close> of \<^verbatim>\<open>Layout\<close>.
  \<^item> \<open>Layout_Inv\<close> (the invariant, and how an operation on a part becomes one on the whole), \<open>Layout_Ops\<close>,
    \<open>Layout_Loops\<close>, \<open>Layout_Keeps\<close> (actions), \<open>Layout_Core\<close> (the invariant while a monitor still has to be
    cleaned up), \<open>Layout_Between\<close> (moves between outputs), \<open>Layout_Outputs\<close>, \<open>Layout_Windows\<close> (opening and
    closing), \<open>Layout_Dropping\<close> and \<open>Layout_Moves\<close> (dragging), \<open>Layout_Names\<close> (names, gestures, the overview,
    configuration), \<open>Layout_Machine\<close> (runs of operations) and \<open>Layout_Properties\<close>.
  \<^item> \<open>Window_Mru\<close> (\<^verbatim>\<open>ui/mru.rs\<close>): the switcher of recent windows, its selection, scopes and filters.
  \<^item> \<open>Frame_Timing\<close>: the frame clock (\<^verbatim>\<open>frame_clock.rs\<close>), the vblank throttle (\<^verbatim>\<open>utils/vblank_throttle.rs\<close>) and
    the scroll tracker (\<^verbatim>\<open>input/scroll_tracker.rs\<close>).

  \<^bold>\<open>How the code is modelled.\<close> A struct is a record, an enum a datatype, a function one definition that
  returns the new state, or a panic: indexing out of range, \<open>unwrap\<close> and \<open>expect\<close> of nothing, a failed
  assertion and subtraction below zero are all values of \<open>Inl\<close>, so that \<open>returns\<close> says that none of them
  happens. Loops are recursions on lists or on the indices they visit, and terminate as such; no fuel
  is used. Windows are an arbitrary type compared by equality, as the generic \<^verbatim>\<open>W::Id\<close>. Exact reals stand
  for \<^verbatim>\<open>f64\<close>. What the layout reads from outside is a parameter: the parent of a window, which must not
  be cyclic, where a window is drawn, whether it is in windowed fullscreen (\<open>layout_env\<close>), the sizes on the screen, the column a view snaps
  to and the time (the record \<open>geometry\<close>, with \<open>geometry_ok\<close>: a view snaps to a column that exists, and of
  every monitor some workspace is visible). The global counter of workspace identifiers is a field of
  the layout and of its monitors.

  \<^bold>\<open>What is shown.\<close> For each layer, the workspace, the monitor and the layout: an inductive relation of the
  reachable states, the invariant of \<open>verify_invariants\<close> on them, and that no admissible operation panics
  or loses a window. The three upper ones are instances of the locale \<open>window_machine\<close>, whose lemma about
  runs gives the conservation of windows over any sequence of operations. On top of this: the exact
  effect of single operations (swapping, cleaning up, going fullscreen and back, moving to a workspace,
  connecting outputs), round trips (open and close, switch and return, unplug and plug in), that drags
  and switches come to an end, bounds (floating windows stay on screen, gestures land on workspaces,
  insert positions are the nearest), the exact events that the IPC server sends, and equivalences with
  reference definitions (matching output names, raising a family of windows). The window switcher never
  panics and always selects a window that it shows, going forward walks through all of them; the frame
  clock predicts times on the grid of the refresh interval; the scroll tracker loses nothing below 128
  ticks at once.

  \<^bold>\<open>Flaws and limits that are shown.\<close> With an empty workspace above the first, moving a workspace to the top
  misplaces the focus in two cases (\<open>move_workspace_to_top_focus\<close>). Naming an edge workspace of a monitor that
  is not active breaks the invariant (\<open>naming_elsewhere_breaks_invariant\<close>), and so does connecting an output
  to which the workspaces of the primary monitor belong, as with duplicate names
  (\<open>connecting_twin_breaks_layout\<close>), which the backend prevents. The admissible operations of the layout
  exclude both: \<open>can_name\<close> asks that an edge workspace is named on the active monitor only, \<open>can_connect\<close> that
  the empty workspaces at the edges of the primary monitor do not belong to the output that is
  connected. Of \<open>verify_invariants\<close> of the layout, the uniqueness of names, the synchrony of options and
  the place of foreign workspaces are left out; of that of a monitor, where the animation of a switch
  starts. As reals are exact, what is shown of positions holds of the code up to rounding; in particular
  a floating position comes back from its fraction of the working area only up to rounding there.

  \<^bold>\<open>Not modelled.\<close> Sizes that are asked of windows and columns (\<open>set_column_width\<close> and its like), view
  offsets and their gestures, the progress of the overview, animations, rendering, hit testing, and
  drag and drop of clients' data: they are floating-point geometry that decides nothing about where a
  window is. The compositor around the layout (\<^verbatim>\<open>niri.rs\<close>, \<^verbatim>\<open>input/\<close>, \<^verbatim>\<open>backend/\<close>, \<^verbatim>\<open>handlers/\<close>, \<^verbatim>\<open>protocols/\<close>,
  \<^verbatim>\<open>dbus/\<close>, the rest of \<^verbatim>\<open>ui/\<close> and \<^verbatim>\<open>utils/\<close>, \<^verbatim>\<open>render_helpers/\<close>) is glue to libraries that are not part of the repository
  (smithay, libinput, zbus, PipeWire, Cairo), and the configuration is parsed by derive macros.
\<close>

end
